(* ===== verification/Sipx_Prelude.thy ===== *)
theory Sipx_Prelude
  imports Main "HOL-Library.Word" "HOL-Library.Monad_Syntax"
begin

text \<open>
  Shared vocabulary of the development: the machine integers and byte strings the sipx crates
  use, the slice and checked-arithmetic operations of Rust's standard library that the modelled
  code calls, big-endian encodings with their round trips, and the interfaces (locales) that
  several components instantiate: a fixed-width byte codec and an ordered map.
\<close>

unbundle bit_operations_syntax

named_theorems rust_simps \<open>defining equations of the standard-library operations\<close>
named_theorems codec_simps \<open>lengths and round trips of the byte encodings\<close>

section \<open>Machine integers and byte strings\<close>

type_synonym u8 = "8 word"
type_synonym u16 = "16 word"
type_synonym u32 = "32 word"
type_synonym u64 = "64 word"
type_synonym bytes = "u8 list"

text \<open>Results: \<open>Inl\<close> is the error of Rust's \<open>Result\<close>, \<open>Inr\<close> its value.\<close>

type_synonym ('e, 'a) result = "'e + 'a"

definition ok_or :: "'e \<Rightarrow> 'a option \<Rightarrow> ('e, 'a) result" where
  "ok_or e x = (case x of None \<Rightarrow> Inl e | Some v \<Rightarrow> Inr v)"

definition bind_res :: "('e, 'a) result \<Rightarrow> ('a \<Rightarrow> ('e, 'b) result) \<Rightarrow> ('e, 'b) result" where
  "bind_res m f = (case m of Inl e \<Rightarrow> Inl e | Inr v \<Rightarrow> f v)"

lemma ok_or_simps [simp]: "ok_or e None = Inl e" "ok_or e (Some v) = Inr v"
  by (simp_all add: ok_or_def)

lemma bind_res_simps [simp]: "bind_res (Inl e) f = Inl e" "bind_res (Inr v) f = f v"
  by (simp_all add: bind_res_def)

lemma ok_or_Inr_iff [simp]: "ok_or e x = Inr v \<longleftrightarrow> x = Some v"
  by (simp add: ok_or_def split: option.splits)

lemma ok_or_Inl_iff [simp]: "ok_or e x = Inl d \<longleftrightarrow> x = None \<and> d = e"
  by (auto simp: ok_or_def split: option.splits)

lemma bind_res_Inr_iff: "bind_res m f = Inr v \<longleftrightarrow> (\<exists>u. m = Inr u \<and> f u = Inr v)"
  by (cases m) auto

lemma bind_res_Inl_iff: "bind_res m f = Inl e \<longleftrightarrow> m = Inl e \<or> (\<exists>u. m = Inr u \<and> f u = Inl e)"
  by (cases m) auto

subsection \<open>Slices\<close>

text \<open>\<open>slice.get(i)\<close> and \<open>slice.get(a..b)\<close>: \<open>None\<close> out of range, where indexing would panic.\<close>

definition get_at :: "'a list \<Rightarrow> nat \<Rightarrow> 'a option" where
  "get_at xs i = (if i < length xs then Some (xs ! i) else None)"

definition get_range :: "'a list \<Rightarrow> nat \<Rightarrow> nat \<Rightarrow> 'a list option" where
  "get_range xs a b = (if a \<le> b \<and> b \<le> length xs then Some (take (b - a) (drop a xs)) else None)"

definition unwrap_or :: "'a option \<Rightarrow> 'a \<Rightarrow> 'a" where
  "unwrap_or x d = (case x of None \<Rightarrow> d | Some v \<Rightarrow> v)"

lemma unwrap_or_simps [simp]: "unwrap_or None d = d" "unwrap_or (Some v) d = v"
  by (simp_all add: unwrap_or_def)

lemma get_at_eq_None [simp]: "get_at xs i = None \<longleftrightarrow> length xs \<le> i"
  by (simp add: get_at_def)

lemma get_at_eq_Some [simp]: "get_at xs i = Some x \<longleftrightarrow> i < length xs \<and> x = xs ! i"
  by (auto simp: get_at_def)

lemma get_at_less: "i < length xs \<Longrightarrow> get_at xs i = Some (xs ! i)"
  by (simp add: get_at_def)

lemma get_range_eq_Some:
  "get_range xs a b = Some ys \<longleftrightarrow> a \<le> b \<and> b \<le> length xs \<and> ys = take (b - a) (drop a xs)"
  by (auto simp: get_range_def)

lemma get_range_length: "get_range xs a b = Some ys \<Longrightarrow> length ys = b - a"
  by (auto simp: get_range_def split: if_splits)

lemma get_range_append:
  "length xs = a \<Longrightarrow> length ys = b - a \<Longrightarrow> a \<le> b \<Longrightarrow> get_range (xs @ ys @ zs) a b = Some ys"
  by (simp add: get_range_def)

lemma take_split:
  assumes "a \<le> b"
  shows "take b xs = take a xs @ take (b - a) (drop a xs)"
  using assms by (metis le_add_diff_inverse take_add)

lemma tl_take_append:
  "0 < a \<Longrightarrow> xs \<noteq> [] \<Longrightarrow> tl (take a xs @ ys) = take (a - 1) (tl xs) @ ys"
  by (cases xs; cases a) auto

subsection \<open>Saturating and checked arithmetic\<close>

definition saturating_add_word :: "'w::len word \<Rightarrow> 'w word \<Rightarrow> 'w word" where
  "saturating_add_word a b = (if unat a + unat b < 2 ^ LENGTH('w) then a + b else - 1)"

definition saturating_sub_word :: "'w::len word \<Rightarrow> 'w word \<Rightarrow> 'w word" where
  "saturating_sub_word a b = (if a < b then 0 else a - b)"

definition checked_sub_word :: "'w::len word \<Rightarrow> 'w word \<Rightarrow> 'w word option" where
  "checked_sub_word a b = (if a < b then None else Some (a - b))"

lemma unat_saturating_add_word:
  "unat (saturating_add_word a (b :: 'w::len word)) = min (unat a + unat b) (2 ^ LENGTH('w) - 1)"
proof (cases "unat a + unat b < 2 ^ LENGTH('w)")
  case True
  then have "unat a + unat b \<le> 2 ^ LENGTH('w) - 1"
    by linarith
  with True show ?thesis
    by (simp add: saturating_add_word_def unat_word_ariths)
next
  case False
  then have "2 ^ LENGTH('w) - 1 \<le> unat a + unat b"
    by linarith
  moreover have "unat (- 1 :: 'w word) = 2 ^ LENGTH('w) - 1"
    by (simp add: unsigned_minus_1_eq_mask mask_eq_exp_minus_1)
  ultimately show ?thesis
    using False by (simp add: saturating_add_word_def min_absorb2)
qed

lemma checked_sub_word_Some:
  "checked_sub_word a b = Some c \<longleftrightarrow> b \<le> a \<and> c = a - b"
  by (auto simp: checked_sub_word_def not_less)

subsection \<open>Bounds of word values\<close>

lemma unat_bounds:
  "unat (a :: u8) < 256" "unat (b :: u16) < 65536" "unat (c :: u32) < 4294967296"
  "unat (d :: u64) < 18446744073709551616"
  using unsigned_less [of a, where ?'a = nat] unsigned_less [of b, where ?'a = nat]
    unsigned_less [of c, where ?'a = nat] unsigned_less [of d, where ?'a = nat] by simp_all

lemma unat_of_nat_small [simp]:
  "n < 2 ^ LENGTH('w) \<Longrightarrow> unat (of_nat n :: 'w::len word) = n"
  by (simp add: unat_of_nat)

lemma unat_ucast_widen [simp]:
  "unat (ucast (a :: u8) :: u16) = unat a" "unat (ucast (a :: u8) :: u32) = unat a"
  "unat (ucast (a :: u8) :: u64) = unat a" "unat (ucast (b :: u16) :: u32) = unat b"
  "unat (ucast (b :: u16) :: u64) = unat b" "unat (ucast (c :: u32) :: u64) = unat c"
  using unat_bounds(1) [of a] unat_bounds(2) [of b] unat_bounds(3) [of c]
  by (simp_all add: unsigned_ucast_eq take_bit_eq_mod)

lemma unat_and_mask: "unat (w AND mask n :: 'w::len word) = unat w mod 2 ^ n"
  unfolding take_bit_eq_mask [symmetric] unsigned_take_bit_eq by (rule take_bit_eq_mod)

section \<open>Big-endian encodings\<close>

text \<open>
  \<open>put_u16\<close>, \<open>put_u32\<close> and \<open>put_u64\<close> of the \<open>bytes\<close> buffers, \<open>to_be_bytes\<close> and
  \<open>from_be_bytes\<close>, most significant octet first.
\<close>

definition to_be16 :: "u16 \<Rightarrow> bytes" where
  "to_be16 w = [ucast (drop_bit 8 w), ucast w]"

definition from_be16 :: "u8 \<Rightarrow> u8 \<Rightarrow> u16" where
  "from_be16 a b = push_bit 8 (ucast a) OR ucast b"

definition to_be32 :: "u32 \<Rightarrow> bytes" where
  "to_be32 w = [ucast (drop_bit 24 w), ucast (drop_bit 16 w), ucast (drop_bit 8 w), ucast w]"

definition from_be32 :: "u8 \<Rightarrow> u8 \<Rightarrow> u8 \<Rightarrow> u8 \<Rightarrow> u32" where
  "from_be32 a b c d =
     push_bit 24 (ucast a) OR push_bit 16 (ucast b) OR push_bit 8 (ucast c) OR ucast d"

definition to_be64 :: "u64 \<Rightarrow> bytes" where
  "to_be64 w = to_be32 (ucast (drop_bit 32 w)) @ to_be32 (ucast w)"

definition from_be64 :: "u32 \<Rightarrow> u32 \<Rightarrow> u64" where
  "from_be64 hi lo = push_bit 32 (ucast hi) OR ucast lo"

lemma length_to_be [simp, codec_simps]:
  "length (to_be16 w) = 2" "length (to_be32 v) = 4" "length (to_be64 u) = 8"
  by (simp_all add: to_be16_def to_be32_def to_be64_def)

lemma from_be16_to_be16 [simp, codec_simps]: "from_be16 (ucast (drop_bit 8 w)) (ucast w) = w"
  by (rule bit_word_eqI) (auto simp: from_be16_def bit_simps)

lemma from_be32_to_be32 [simp, codec_simps]:
  "from_be32 (ucast (drop_bit 24 w)) (ucast (drop_bit 16 w)) (ucast (drop_bit 8 w)) (ucast w) = w"
proof (rule bit_word_eqI)
  fix n assume n: "n < LENGTH(32)"
  consider "n < 8" | "8 \<le> n" "n < 16" | "16 \<le> n" "n < 24" | "24 \<le> n" by linarith
  then show "bit (from_be32 (ucast (drop_bit 24 w)) (ucast (drop_bit 16 w)) (ucast (drop_bit 8 w))
      (ucast w)) n = bit w n"
    using n by cases (auto simp: from_be32_def bit_simps)
qed

lemma from_be64_to_be64 [simp, codec_simps]: "from_be64 (ucast (drop_bit 32 w)) (ucast w) = w"
  by (rule bit_word_eqI) (auto simp: from_be64_def bit_simps)

lemma to_be16_from_be16 [simp, codec_simps]: "to_be16 (from_be16 a b) = [a, b]"
proof -
  have "ucast (drop_bit 8 (from_be16 a b)) = a" "ucast (from_be16 a b) = b"
    by (rule bit_word_eqI, auto simp: from_be16_def bit_simps dest: bit_imp_le_length)+
  then show ?thesis by (simp add: to_be16_def)
qed

lemma to_be32_from_be32 [simp, codec_simps]: "to_be32 (from_be32 a b c d) = [a, b, c, d]"
proof -
  have "ucast (drop_bit 24 (from_be32 a b c d)) = a" "ucast (drop_bit 16 (from_be32 a b c d)) = b"
    "ucast (drop_bit 8 (from_be32 a b c d)) = c" "ucast (from_be32 a b c d) = d"
    by (rule bit_word_eqI, auto simp: from_be32_def bit_simps dest: bit_imp_le_length)+
  then show ?thesis by (simp add: to_be32_def)
qed

lemma to_be64_from_be64 [simp, codec_simps]:
  "to_be64 (from_be64 hi lo) = to_be32 hi @ to_be32 lo"
proof -
  have "ucast (drop_bit 32 (from_be64 hi lo)) = hi" "ucast (from_be64 hi lo) = lo"
    by (rule bit_word_eqI, auto simp: from_be64_def bit_simps dest: bit_imp_le_length)+
  then show ?thesis by (simp add: to_be64_def)
qed

lemma to_be_inject [simp]:
  "to_be16 a = to_be16 b \<longleftrightarrow> a = b" "to_be32 c = to_be32 d \<longleftrightarrow> c = d" "to_be64 e = to_be64 f \<longleftrightarrow> e = f"
proof -
  show "to_be16 a = to_be16 b \<longleftrightarrow> a = b"
  proof
    assume "to_be16 a = to_be16 b"
    then have "from_be16 (ucast (drop_bit 8 a)) (ucast a) = from_be16 (ucast (drop_bit 8 b)) (ucast b)"
      by (simp only: to_be16_def list.inject)
    then show "a = b" by simp
  qed simp
  have word: "to_be32 c = to_be32 d \<longleftrightarrow> c = d" for c d
  proof
    assume "to_be32 c = to_be32 d"
    then have "from_be32 (ucast (drop_bit 24 c)) (ucast (drop_bit 16 c)) (ucast (drop_bit 8 c)) (ucast c) =
        from_be32 (ucast (drop_bit 24 d)) (ucast (drop_bit 16 d)) (ucast (drop_bit 8 d)) (ucast d)"
      by (simp only: to_be32_def list.inject)
    then show "c = d" by simp
  qed simp
  show "to_be32 c = to_be32 d \<longleftrightarrow> c = d" by (rule word)
  show "to_be64 e = to_be64 f \<longleftrightarrow> e = f"
  proof
    assume "to_be64 e = to_be64 f"
    then have "ucast (drop_bit 32 e) = (ucast (drop_bit 32 f) :: u32)" "ucast e = (ucast f :: u32)"
      by (simp_all add: to_be64_def word)
    then have "from_be64 (ucast (drop_bit 32 e)) (ucast e) = from_be64 (ucast (drop_bit 32 f)) (ucast f)"
      by (simp only:)
    then show "e = f" by simp
  qed simp
qed

section \<open>Reading records at an offset\<close>

text \<open>
  Wire formats place a run of equally wide records one after another (contributing sources in an
  RTP header, report blocks in an RTCP packet). \<open>read_run rd w bs off n\<close> is the loop that reads
  \<open>n\<close> of them from offset \<open>off\<close> on, stopping at the first read that fails.
\<close>

fun read_run :: "(bytes \<Rightarrow> nat \<Rightarrow> 'a option) \<Rightarrow> nat \<Rightarrow> bytes \<Rightarrow> nat \<Rightarrow> nat \<Rightarrow> 'a list option" where
  "read_run rd w bs off 0 = Some []"
| "read_run rd w bs off (Suc n) =
     (case rd bs off of
        None \<Rightarrow> None
      | Some x \<Rightarrow>
          (case read_run rd w bs (off + w) n of None \<Rightarrow> None | Some xs \<Rightarrow> Some (x # xs)))"

text \<open>
  The contract of a record of fixed width: reading back what was written, and a successful read
  determines the octets it read. \<open>valid\<close> holds the values the encoding can represent.
\<close>

locale record_codec =
  fixes enc :: "'a \<Rightarrow> bytes"
    and rd :: "bytes \<Rightarrow> nat \<Rightarrow> 'a option"
    and width :: nat
    and valid :: "'a \<Rightarrow> bool"
  assumes enc_length: "length (enc x) = width"
    and rd_enc: "valid x \<Longrightarrow> rd (pre @ enc x @ suf) (length pre) = Some x"
    and rd_inv: "rd bs off = Some x \<Longrightarrow>
      valid x \<and> off + width \<le> length bs \<and> take width (drop off bs) = enc x"
begin

lemma read_run_enc:
  "list_all valid xs \<Longrightarrow>
    read_run rd width (pre @ concat (map enc xs) @ suf) (length pre) (length xs) = Some xs"
proof (induction xs arbitrary: pre)
  case Nil
  then show ?case by simp
next
  case (Cons x xs)
  from Cons.prems have "read_run rd width ((pre @ enc x) @ concat (map enc xs) @ suf)
      (length (pre @ enc x)) (length xs) = Some xs"
    by (intro Cons.IH) simp
  moreover have "rd (pre @ enc x @ concat (map enc xs) @ suf) (length pre) = Some x"
    using Cons.prems by (intro rd_enc) simp
  ultimately show ?case
    by (simp add: enc_length)
qed

lemma read_run_inv:
  "read_run rd width bs off n = Some xs \<Longrightarrow> off \<le> length bs \<Longrightarrow>
    length xs = n \<and> list_all valid xs \<and> off + n * width \<le> length bs \<and>
    take (n * width) (drop off bs) = concat (map enc xs)"
proof (induction n arbitrary: off xs)
  case 0
  then show ?case by simp
next
  case (Suc n)
  then obtain x ys where x: "rd bs off = Some x"
    and ys: "read_run rd width bs (off + width) n = Some ys" and xs: "xs = x # ys"
    by (auto split: option.splits)
  note head = rd_inv [OF x]
  have tail: "length ys = n \<and> list_all valid ys \<and> off + width + n * width \<le> length bs \<and>
      take (n * width) (drop (off + width) bs) = concat (map enc ys)"
    using Suc.IH [OF ys] head by simp
  have "take (Suc n * width) (drop off bs) =
      take width (drop off bs) @ take (n * width) (drop (off + width) bs)"
    by (simp add: take_add add.commute)
  with head tail xs show ?case by simp
qed

lemma concat_enc_length: "length (concat (map enc xs)) = length xs * width"
  by (induction xs) (simp_all add: enc_length)

end

section \<open>Ordered maps\<close>

text \<open>
  The contract of \<open>BTreeMap\<close> that the modelled code relies on: an ordered finite map with lookup,
  insertion, removal, least key and size, specified by the partial function it represents.
\<close>

locale ordered_map =
  fixes empty :: 'm
    and lookup :: "'m \<Rightarrow> 'k::linorder \<Rightarrow> 'v option"
    and insert :: "'k \<Rightarrow> 'v \<Rightarrow> 'm \<Rightarrow> 'm"
    and remove :: "'k \<Rightarrow> 'm \<Rightarrow> 'm"
    and least :: "'m \<Rightarrow> 'k option"
    and size_of :: "'m \<Rightarrow> nat"
    and invar :: "'m \<Rightarrow> bool"
  assumes lookup_empty: "lookup empty = Map.empty"
    and lookup_insert: "invar m \<Longrightarrow> lookup (insert k v m) = (lookup m)(k \<mapsto> v)"
    and lookup_remove: "invar m \<Longrightarrow> lookup (remove k m) = (lookup m)(k := None)"
    and least_None: "invar m \<Longrightarrow> least m = None \<longleftrightarrow> lookup m = Map.empty"
    and least_Some: "invar m \<Longrightarrow> least m = Some k \<Longrightarrow> k \<in> dom (lookup m) \<and> (\<forall>j \<in> dom (lookup m). k \<le> j)"
    and finite_dom: "invar m \<Longrightarrow> finite (dom (lookup m))"
    and size_of_card: "invar m \<Longrightarrow> size_of m = card (dom (lookup m))"
    and invar_empty: "invar empty"
    and invar_insert: "invar m \<Longrightarrow> invar (insert k v m)"
    and invar_remove: "invar m \<Longrightarrow> invar (remove k m)"
begin

lemma dom_insert: "invar m \<Longrightarrow> dom (lookup (insert k v m)) = Set.insert k (dom (lookup m))"
  by (simp add: lookup_insert)

lemma dom_remove: "invar m \<Longrightarrow> dom (lookup (remove k m)) = dom (lookup m) - {k}"
  by (simp add: lookup_remove)

lemma size_insert:
  "invar m \<Longrightarrow> lookup m k = None \<Longrightarrow> size_of (insert k v m) = Suc (size_of m)"
  by (simp add: size_of_card invar_insert dom_insert finite_dom domIff)

lemma size_remove:
  "invar m \<Longrightarrow> k \<in> dom (lookup m) \<Longrightarrow> Suc (size_of (remove k m)) = size_of m"
  by (metis size_of_card invar_remove dom_remove finite_dom card_Suc_Diff1)

lemma least_after_remove:
  assumes "invar m" "least m = Some k" "j \<in> dom (lookup (remove k m))"
  shows "k < j"
  using assms least_Some [OF assms(1,2)] by (auto simp: dom_remove order.strict_iff_order)

end

text \<open>The map the model runs on: an association list kept in increasing key order.\<close>

fun bt_insert :: "'k::linorder \<Rightarrow> 'v \<Rightarrow> ('k \<times> 'v) list \<Rightarrow> ('k \<times> 'v) list" where
  "bt_insert k v [] = [(k, v)]"
| "bt_insert k v ((j, w) # m) =
     (if k < j then (k, v) # (j, w) # m
      else if k = j then (k, v) # m
      else (j, w) # bt_insert k v m)"

definition bt_remove :: "'k \<Rightarrow> ('k \<times> 'v) list \<Rightarrow> ('k \<times> 'v) list" where
  "bt_remove k m = filter (\<lambda>(j, _). j \<noteq> k) m"

definition bt_first :: "('k \<times> 'v) list \<Rightarrow> 'k option" where
  "bt_first m = (case m of [] \<Rightarrow> None | (k, _) # _ \<Rightarrow> Some k)"

definition bt_ok :: "('k::linorder \<times> 'v) list \<Rightarrow> bool" where
  "bt_ok m \<longleftrightarrow> sorted_wrt (<) (map fst m)"

lemma keys_bt_insert: "fst ` set (bt_insert k v m) = Set.insert k (fst ` set m)"
  by (induction k v m rule: bt_insert.induct) auto

lemma map_of_bt_insert: "map_of (bt_insert k v m) = (map_of m)(k \<mapsto> v)"
  by (induction k v m rule: bt_insert.induct) auto

lemma bt_ok_insert: "bt_ok m \<Longrightarrow> bt_ok (bt_insert k v m)"
proof (induction k v m rule: bt_insert.induct)
  case (1 k v)
  then show ?case by (simp add: bt_ok_def)
next
  case (2 k v j w m)
  have "\<forall>x \<in> fst ` set (bt_insert k v m). j < x" if "j < k"
    using 2 that by (simp add: keys_bt_insert bt_ok_def)
  with 2 show ?case by (auto simp: bt_ok_def not_less order.strict_iff_order)
qed

lemma map_of_bt_remove: "map_of (bt_remove k m) = (map_of m)(k := None)"
  by (induction m) (auto simp: bt_remove_def)

lemma bt_ok_remove: "bt_ok m \<Longrightarrow> bt_ok (bt_remove k m)"
  by (induction m) (auto simp: bt_ok_def bt_remove_def)

lemma bt_ok_distinct: "bt_ok m \<Longrightarrow> distinct (map fst m)"
  unfolding bt_ok_def by (metis strict_sorted_iff)

interpretation btree: ordered_map "[]" map_of bt_insert bt_remove bt_first length bt_ok
proof unfold_locales
  fix m :: "('a \<times> 'b) list" and k :: 'a and v :: 'b
  show "map_of ([] :: ('a \<times> 'b) list) = Map.empty" by simp
  show "map_of (bt_insert k v m) = (map_of m)(k \<mapsto> v)" by (rule map_of_bt_insert)
  show "map_of (bt_remove k m) = (map_of m)(k := None)" by (rule map_of_bt_remove)
  show "bt_first m = None \<longleftrightarrow> map_of m = Map.empty"
    by (auto simp: bt_first_def split: list.splits)
  show "k \<in> dom (map_of m) \<and> (\<forall>j \<in> dom (map_of m). k \<le> j)" if "bt_ok m" "bt_first m = Some k"
    using that by (cases m) (auto simp: bt_first_def bt_ok_def dom_map_of_conv_image_fst)
  show "finite (dom (map_of m))" by (rule finite_dom_map_of)
  show "length m = card (dom (map_of m))" if "bt_ok m"
    using distinct_card [OF bt_ok_distinct [OF that]] by (simp add: dom_map_of_conv_image_fst)
  show "bt_ok ([] :: ('a \<times> 'b) list)" by (simp add: bt_ok_def)
  show "bt_ok (bt_insert k v m)" if "bt_ok m" using that by (rule bt_ok_insert)
  show "bt_ok (bt_remove k m)" if "bt_ok m" using that by (rule bt_ok_remove)
qed

end
