(* ===== verification/Rtp_Packet.thy ===== *)
theory Rtp_Packet
  imports Sipx_Prelude
begin

text \<open>
  RTP packets, \<open>crates/sipx-rtp/src/packet.rs\<close>: the packet record, the serializer
  \<open>Packet::encode\<close>, the parser \<open>Packet::decode\<close> with every error branch, the test whether a
  header extension agrees with its own length word, and serial-number arithmetic on the 16-bit
  sequence numbers. The lemmas show both round trips, that decoding only yields packets the
  encoder writes whole, and the laws of the sequence comparison that the jitter buffer, the
  stream statistics and the DTMF receiver build on.
\<close>

section \<open>Data\<close>

definition HEADER_LEN :: nat where
  "HEADER_LEN = 12"

datatype rtp_error =
    RtpTooShort nat
  | RtpBadVersion u8
  | RtpTruncated
  | RtpBadPadding nat

record packet =
  pkt_marker :: bool
  pkt_payload_type :: u8
  pkt_sequence :: u16
  pkt_timestamp :: u32
  pkt_ssrc :: u32
  pkt_csrc :: "u32 list"
  pkt_extension :: "bytes option"
  pkt_payload :: bytes

definition new_packet :: "u8 \<Rightarrow> u16 \<Rightarrow> u32 \<Rightarrow> u32 \<Rightarrow> bytes \<Rightarrow> packet" where
  "new_packet payload_type sequence timestamp ssrc payload =
     \<lparr>pkt_marker = False, pkt_payload_type = payload_type, pkt_sequence = sequence,
      pkt_timestamp = timestamp, pkt_ssrc = ssrc, pkt_csrc = [], pkt_extension = None,
      pkt_payload = payload\<rparr>"

section \<open>Operations\<close>

definition extension_is_self_consistent :: "bytes \<Rightarrow> bool" where
  "extension_is_self_consistent bytes =
     (case (get_at bytes 2, get_at bytes 3) of
        (Some high, Some low) \<Rightarrow> length bytes = 4 + unat (from_be16 high low) * 4
      | _ \<Rightarrow> False)"

definition encode_packet :: "packet \<Rightarrow> bytes" where
  "encode_packet p =
     (let csrc_count = min (length (pkt_csrc p)) 15;
          extension = (case pkt_extension p of
              None \<Rightarrow> None
            | Some e \<Rightarrow> if extension_is_self_consistent e then Some e else None);
          first = (0x80 :: u8) OR push_bit 4 (of_bool (extension \<noteq> None)) OR of_nat csrc_count
      in [first, push_bit 7 (of_bool (pkt_marker p)) OR (pkt_payload_type p AND 0x7F)]
         @ to_be16 (pkt_sequence p) @ to_be32 (pkt_timestamp p) @ to_be32 (pkt_ssrc p)
         @ concat (map to_be32 (take csrc_count (pkt_csrc p)))
         @ (case extension of None \<Rightarrow> [] | Some e \<Rightarrow> e)
         @ pkt_payload p)"

definition read_u32 :: "bytes \<Rightarrow> nat \<Rightarrow> u32 option" where
  "read_u32 bytes at =
     do { a \<leftarrow> get_at bytes at; b \<leftarrow> get_at bytes (at + 1);
          c \<leftarrow> get_at bytes (at + 2); d \<leftarrow> get_at bytes (at + 3);
          Some (from_be32 a b c d) }"

text \<open>The extension block of \<open>decode\<close>: the extension kept whole and the offset behind it.\<close>

definition decode_extension :: "bytes \<Rightarrow> nat \<Rightarrow> (rtp_error, bytes \<times> nat) result" where
  "decode_extension bytes offset =
     bind_res (ok_or RtpTruncated (get_at bytes (offset + 2))) (\<lambda>high.
     bind_res (ok_or RtpTruncated (get_at bytes (offset + 3))) (\<lambda>low.
       let words = unat (from_be16 high low);
           end = offset + (4 + words * 4)
       in if end > length bytes then Inl RtpTruncated
          else Inr (take (end - offset) (drop offset bytes), end)))"

definition decode_packet :: "bytes \<Rightarrow> (rtp_error, packet) result" where
  "decode_packet bytes =
     (if length bytes < HEADER_LEN then Inl (RtpTooShort (length bytes)) else
      let first = unwrap_or (get_at bytes 0) 0;
          version = drop_bit 6 first
      in if version \<noteq> 2 then Inl (RtpBadVersion version) else
      let has_padding = (first AND 0x20 \<noteq> 0);
          has_extension = (first AND 0x10 \<noteq> 0);
          csrc_count = unat (first AND 0x0F);
          second = unwrap_or (get_at bytes 1) 0;
          marker = (second AND 0x80 \<noteq> 0);
          payload_type = second AND 0x7F;
          sequence = from_be16 (unwrap_or (get_at bytes 2) 0) (unwrap_or (get_at bytes 3) 0)
      in bind_res (ok_or RtpTruncated (read_u32 bytes 4)) (\<lambda>timestamp.
         bind_res (ok_or RtpTruncated (read_u32 bytes 8)) (\<lambda>ssrc.
         bind_res (ok_or RtpTruncated (read_run read_u32 4 bytes HEADER_LEN csrc_count)) (\<lambda>csrc.
         bind_res (if has_extension
             then bind_res (decode_extension bytes (HEADER_LEN + 4 * csrc_count))
               (\<lambda>(e, off). Inr (Some e, off))
             else Inr (None, HEADER_LEN + 4 * csrc_count)) (\<lambda>(extension, offset).
         if offset > length bytes then Inl RtpTruncated else
         let end = length bytes;
             pad = unat (unwrap_or (get_at bytes (length bytes - 1)) 0)
         in if has_padding \<and> (pad = 0 \<or> pad > end - offset) then Inl (RtpBadPadding pad) else
         let end' = (if has_padding then end - pad else end)
         in Inr \<lparr>pkt_marker = marker, pkt_payload_type = payload_type, pkt_sequence = sequence,
                 pkt_timestamp = timestamp, pkt_ssrc = ssrc, pkt_csrc = csrc,
                 pkt_extension = extension,
                 pkt_payload = take (end' - offset) (drop offset bytes)\<rparr>)))))"

definition sequence_is_newer :: "u16 \<Rightarrow> u16 \<Rightarrow> bool" where
  "sequence_is_newer candidate current \<longleftrightarrow>
     candidate \<noteq> current \<and> candidate - current < 0x8000"

definition sequence_distance :: "u16 \<Rightarrow> u16 \<Rightarrow> u16" where
  "sequence_distance from to = to - from"

section \<open>Reading words at an offset\<close>

lemma read_u32_eq_Some:
  "read_u32 bs off = Some w \<longleftrightarrow>
     off + 4 \<le> length bs \<and> w = from_be32 (bs ! off) (bs ! (off + 1)) (bs ! (off + 2)) (bs ! (off + 3))"
  by (auto simp: read_u32_def bind_eq_Some_conv)

lemma take4_drop:
  assumes "off + 4 \<le> length bs"
  shows "take 4 (drop off bs) = [bs ! off, bs ! (off + 1), bs ! (off + 2), bs ! (off + 3)]"
  using assms by (intro nth_equalityI) (auto simp: less_Suc_eq numeral_eq_Suc)

lemma read_u32_to_be32: "read_u32 (pre @ to_be32 w @ suf) (length pre) = Some w"
  by (simp add: read_u32_eq_Some to_be32_def nth_append)

interpretation csrc: record_codec to_be32 read_u32 4 "\<lambda>_. True"
proof unfold_locales
  show "length (to_be32 x) = 4" for x by simp
  show "read_u32 (pre @ to_be32 x @ suf) (length pre) = Some x" for pre x suf
    by (rule read_u32_to_be32)
  show "True \<and> off + 4 \<le> length bs \<and> take 4 (drop off bs) = to_be32 x"
    if "read_u32 bs off = Some x" for bs off x
    using that by (simp add: read_u32_eq_Some take4_drop)
qed

section \<open>The first two octets\<close>

lemma first_octet:
  assumes "n \<le> 15"
  shows "drop_bit 6 ((0x80 :: u8) OR push_bit 4 (of_bool e) OR of_nat n) = 2"
    and "((0x80 :: u8) OR push_bit 4 (of_bool e) OR of_nat n) AND 0x20 = 0"
    and "((0x80 :: u8) OR push_bit 4 (of_bool e) OR of_nat n) AND 0x10 \<noteq> 0 \<longleftrightarrow> e"
    and "unat (((0x80 :: u8) OR push_bit 4 (of_bool e) OR of_nat n) AND 0x0F) = n"
proof -
  have "n \<in> {0, 1, 2, 3, 4, 5, 6, 7, 8, 9, 10, 11, 12, 13, 14, 15}"
    using assms unfolding insert_iff empty_iff by presburger
  then show "drop_bit 6 ((0x80 :: u8) OR push_bit 4 (of_bool e) OR of_nat n) = 2"
    and "((0x80 :: u8) OR push_bit 4 (of_bool e) OR of_nat n) AND 0x20 = 0"
    and "((0x80 :: u8) OR push_bit 4 (of_bool e) OR of_nat n) AND 0x10 \<noteq> 0 \<longleftrightarrow> e"
    and "unat (((0x80 :: u8) OR push_bit 4 (of_bool e) OR of_nat n) AND 0x0F) = n"
    by (cases e; auto)+
qed

lemma mask_bit:
  "(f :: u8) AND 0x80 = 0 \<longleftrightarrow> \<not> bit f 7" "f AND 0x20 = 0 \<longleftrightarrow> \<not> bit f 5" "f AND 0x10 = 0 \<longleftrightarrow> \<not> bit f 4"
  using and_exp_eq_0_iff_not_bit [of f 7] and_exp_eq_0_iff_not_bit [of f 5]
    and_exp_eq_0_iff_not_bit [of f 4] by simp_all

lemma octet_bits:
  assumes "n < LENGTH(8)"
  obtains "n = 0" | "n = 1" | "n = 2" | "n = 3" | "n = 4" | "n = 5" | "n = 6" | "n = 7"
  using assms by (simp add: less_Suc_eq numeral_eq_Suc) blast

lemma first_octet_rebuild:
  assumes "drop_bit 6 (f :: u8) = 2" and "f AND 0x20 = 0"
  shows "0x80 OR push_bit 4 (of_bool (f AND 0x10 \<noteq> 0)) OR of_nat (unat (f AND 0x0F)) = f"
proof (rule bit_word_eqI)
  have top: "bit f 7" "\<not> bit f 6"
    using arg_cong [OF assms(1), of "\<lambda>w. bit w 1"] arg_cong [OF assms(1), of "\<lambda>w. bit w 0"]
    by (simp_all add: bit_simps)
  fix n assume "n < LENGTH(8)"
  then show "bit ((0x80 :: u8) OR push_bit 4 (of_bool (f AND 0x10 \<noteq> 0)) OR of_nat (unat (f AND 0x0F))) n
      = bit f n"
    by (cases rule: octet_bits) (use top assms(2) in \<open>auto simp: bit_simps mask_bit\<close>)
qed

lemma second_octet:
  "(push_bit 7 (of_bool m) OR (pt AND 0x7F)) AND (0x80 :: u8) \<noteq> 0 \<longleftrightarrow> m"
  "(push_bit 7 (of_bool m) OR (pt AND 0x7F)) AND (0x7F :: u8) = pt AND 0x7F"
proof -
  show "(push_bit 7 (of_bool m) OR (pt AND 0x7F)) AND (0x80 :: u8) \<noteq> 0 \<longleftrightarrow> m"
    by (simp add: mask_bit bit_simps)
  show "(push_bit 7 (of_bool m) OR (pt AND 0x7F)) AND (0x7F :: u8) = pt AND 0x7F"
  proof (rule bit_word_eqI)
    fix n assume "n < LENGTH(8)"
    then show "bit ((push_bit 7 (of_bool m) OR (pt AND 0x7F)) AND (0x7F :: u8)) n =
        bit (pt AND 0x7F) n"
      by (cases rule: octet_bits) (auto simp: bit_simps)
  qed
qed

lemma second_octet_rebuild:
  "push_bit 7 (of_bool (s AND 0x80 \<noteq> 0)) OR (s AND 0x7F AND 0x7F) = (s :: u8)"
proof (rule bit_word_eqI)
  fix n assume "n < LENGTH(8)"
  then show "bit (push_bit 7 (of_bool (s AND 0x80 \<noteq> 0)) OR (s AND 0x7F AND 0x7F)) n = bit s n"
    by (cases rule: octet_bits) (auto simp: bit_simps mask_bit)
qed

section \<open>Header extensions\<close>

lemma consistent_iff:
  "extension_is_self_consistent e \<longleftrightarrow>
     4 \<le> length e \<and> length e = 4 + unat (from_be16 (e ! 2) (e ! 3)) * 4"
  by (auto simp: extension_is_self_consistent_def get_at_def)

lemma decode_extension_consistent:
  assumes "extension_is_self_consistent e"
  shows "decode_extension (pre @ e @ suf) (length pre) = Inr (e, length pre + length e)"
proof -
  have len: "4 \<le> length e" "length e = 4 + unat (from_be16 (e ! 2) (e ! 3)) * 4"
    using assms by (simp_all add: consistent_iff)
  have "(pre @ e @ suf) ! (length pre + 2) = e ! 2" "(pre @ e @ suf) ! (length pre + 3) = e ! 3"
    using len(1) by (simp_all add: nth_append)
  with len show ?thesis
    by (simp add: decode_extension_def get_at_less Let_def)
qed

lemma decode_extension_Inr:
  assumes "decode_extension bs off = Inr (e, off')"
  shows "extension_is_self_consistent e \<and> off' = off + length e \<and> off' \<le> length bs \<and>
    take (length e) (drop off bs) = e"
proof -
  define words where "words = unat (from_be16 (bs ! (off + 2)) (bs ! (off + 3)))"
  have e: "e = take (4 + words * 4) (drop off bs)" and off': "off' = off + (4 + words * 4)"
    and fits: "off + (4 + words * 4) \<le> length bs"
    using assms
    by (auto simp: decode_extension_def bind_res_Inr_iff Let_def words_def split: if_splits)
  have len: "length e = 4 + words * 4"
    using e fits by simp
  have "e ! 2 = bs ! (off + 2)" "e ! 3 = bs ! (off + 3)"
    using e fits by simp_all
  then have "extension_is_self_consistent e"
    using len by (simp add: consistent_iff words_def)
  with e off' fits len show ?thesis by simp
qed

section \<open>Round trips\<close>

text \<open>
  What a packet looks like once written: the payload type keeps its seven bits, at most fifteen
  contributing sources are listed, and an extension that contradicts its own length is left off.
\<close>

definition written_extension :: "packet \<Rightarrow> bytes option" where
  "written_extension p = (case pkt_extension p of
      None \<Rightarrow> None
    | Some e \<Rightarrow> if extension_is_self_consistent e then Some e else None)"

definition written_form :: "packet \<Rightarrow> packet" where
  "written_form p = p\<lparr>pkt_payload_type := pkt_payload_type p AND 0x7F,
     pkt_csrc := take 15 (pkt_csrc p), pkt_extension := written_extension p\<rparr>"

definition writable :: "packet \<Rightarrow> bool" where
  "writable p \<longleftrightarrow> pkt_payload_type p AND 0x7F = pkt_payload_type p \<and> length (pkt_csrc p) \<le> 15 \<and>
     (case pkt_extension p of None \<Rightarrow> True | Some e \<Rightarrow> extension_is_self_consistent e)"

lemma written_form_writable: "writable p \<Longrightarrow> written_form p = p"
  by (cases p) (auto simp: writable_def written_form_def written_extension_def split: option.splits)

lemma writable_written_form: "writable (written_form p)"
  by (auto simp: writable_def written_form_def written_extension_def and.assoc
      split: option.splits if_splits)

text \<open>The fixed header of a packet with \<open>n\<close> sources, the common prefix of both round trips.\<close>

definition fixed_header :: "bool \<Rightarrow> nat \<Rightarrow> packet \<Rightarrow> bytes" where
  "fixed_header has_extension n p =
     [(0x80 :: u8) OR push_bit 4 (of_bool has_extension) OR of_nat n,
      push_bit 7 (of_bool (pkt_marker p)) OR (pkt_payload_type p AND 0x7F)]
     @ to_be16 (pkt_sequence p) @ to_be32 (pkt_timestamp p) @ to_be32 (pkt_ssrc p)"

lemma length_fixed_header [simp]: "length (fixed_header x n p) = 12"
  by (simp add: fixed_header_def)

lemma encode_packet_alt:
  "encode_packet p =
     fixed_header (written_extension p \<noteq> None) (min (length (pkt_csrc p)) 15) p
     @ concat (map to_be32 (take 15 (pkt_csrc p)))
     @ (case written_extension p of None \<Rightarrow> [] | Some e \<Rightarrow> e) @ pkt_payload p"
  by (simp add: encode_packet_def written_extension_def fixed_header_def Let_def min_def
      del: append_assoc)

lemma fixed_header_reads:
  assumes "n \<le> 15"
  shows "unwrap_or (get_at (fixed_header x n p @ rest) 0) 0 =
      (0x80 :: u8) OR push_bit 4 (of_bool x) OR of_nat n"
    and "unwrap_or (get_at (fixed_header x n p @ rest) 1) 0 =
      push_bit 7 (of_bool (pkt_marker p)) OR (pkt_payload_type p AND 0x7F)"
    and "from_be16 (unwrap_or (get_at (fixed_header x n p @ rest) 2) 0)
      (unwrap_or (get_at (fixed_header x n p @ rest) 3) 0) = pkt_sequence p"
    and "read_u32 (fixed_header x n p @ rest) 4 = Some (pkt_timestamp p)"
    and "read_u32 (fixed_header x n p @ rest) 8 = Some (pkt_ssrc p)"
  by (simp_all add: fixed_header_def get_at_def to_be16_def to_be32_def read_u32_eq_Some)

lemma decode_after_header:
  assumes "n = length cs" and "n \<le> 15"
    and "case ext of None \<Rightarrow> True | Some e \<Rightarrow> extension_is_self_consistent e"
  shows "decode_packet (fixed_header (ext \<noteq> None) n p @ concat (map to_be32 cs)
      @ (case ext of None \<Rightarrow> [] | Some e \<Rightarrow> e) @ payload) =
    Inr (p\<lparr>pkt_payload_type := pkt_payload_type p AND 0x7F, pkt_csrc := cs,
      pkt_extension := ext, pkt_payload := payload\<rparr>)"
proof -
  define h where "h = fixed_header (ext \<noteq> None) n p"
  define rest where "rest = concat (map to_be32 cs) @ (case ext of None \<Rightarrow> [] | Some e \<Rightarrow> e) @ payload"
  have cs: "read_run read_u32 4 (h @ rest) 12 n = Some cs"
    using csrc.read_run_enc [of cs h] assms(1)
    by (simp add: h_def rest_def list_all_iff)
  have len: "length (h @ concat (map to_be32 cs)) = 12 + 4 * n"
    using assms(1) by (simp add: h_def csrc.concat_enc_length)
  have ext: "decode_extension (h @ rest) (12 + 4 * n) = Inr (e, 12 + 4 * n + length e)"
    if "ext = Some e" for e
    using decode_extension_consistent [of e "h @ concat (map to_be32 cs)" payload] that assms(3) len
    by (simp add: rest_def)
  have "decode_packet (h @ rest) = Inr (p\<lparr>pkt_payload_type := pkt_payload_type p AND 0x7F,
      pkt_csrc := cs, pkt_extension := ext, pkt_payload := payload\<rparr>)"
    unfolding decode_packet_def HEADER_LEN_def
    using cs ext len fixed_header_reads [OF assms(2), of "ext \<noteq> None" p rest, folded h_def]
      first_octet [OF assms(2), of "ext \<noteq> None"] second_octet [of "pkt_marker p" "pkt_payload_type p"]
    by (cases ext) (auto simp: Let_def rest_def h_def)
  then show ?thesis by (simp add: h_def rest_def)
qed

lemma decode_encode: "decode_packet (encode_packet p) = Inr (written_form p)"
proof -
  have "decode_packet (encode_packet p) = Inr (p\<lparr>pkt_payload_type := pkt_payload_type p AND 0x7F,
      pkt_csrc := take 15 (pkt_csrc p), pkt_extension := written_extension p,
      pkt_payload := pkt_payload p\<rparr>)"
    unfolding encode_packet_alt
    by (rule decode_after_header)
      (auto simp: written_extension_def min.commute split: option.splits)
  then show ?thesis by (simp add: written_form_def)
qed


text \<open>
  The converse: a datagram that decodes is the encoding of its packet, up to the padding bit and
  the padding octets the decoder strips.
\<close>

lemma clear_padding_bit:
  assumes "drop_bit 6 (f :: u8) = 2"
  shows "0x80 OR push_bit 4 (of_bool (f AND 0x10 \<noteq> 0)) OR of_nat (unat (f AND 0x0F)) = f AND NOT 0x20"
proof (rule bit_word_eqI)
  have top: "bit f 7" "\<not> bit f 6"
    using arg_cong [OF assms, of "\<lambda>w. bit w 1"] arg_cong [OF assms, of "\<lambda>w. bit w 0"]
    by (simp_all add: bit_simps)
  fix n assume "n < LENGTH(8)"
  then show "bit ((0x80 :: u8) OR push_bit 4 (of_bool (f AND 0x10 \<noteq> 0)) OR of_nat (unat (f AND 0x0F))) n
      = bit (f AND NOT 0x20) n"
    by (cases rule: octet_bits) (use top in \<open>auto simp: bit_simps mask_bit\<close>)
qed

lemma fixed_header_of_bytes:
  assumes "12 \<le> length bs" and "drop_bit 6 (bs ! 0) = 2"
    and "pkt_marker p \<longleftrightarrow> bs ! 1 AND 0x80 \<noteq> 0" "pkt_payload_type p = bs ! 1 AND 0x7F"
    and "pkt_sequence p = from_be16 (bs ! 2) (bs ! 3)"
    and "read_u32 bs 4 = Some (pkt_timestamp p)" "read_u32 bs 8 = Some (pkt_ssrc p)"
  shows "fixed_header (bs ! 0 AND 0x10 \<noteq> 0) (unat (bs ! 0 AND 0x0F)) p =
    (bs ! 0 AND NOT 0x20) # take 11 (tl bs)"
proof -
  have "take 11 (tl bs) = [bs ! 1, bs ! 2, bs ! 3, bs ! 4, bs ! 5, bs ! 6, bs ! 7, bs ! 8, bs ! 9,
      bs ! 10, bs ! 11]"
    using assms(1) by (intro nth_equalityI) (auto simp: less_Suc_eq numeral_eq_Suc nth_tl)
  with assms clear_padding_bit [OF assms(2)] second_octet_rebuild [of "bs ! 1"]
  show ?thesis by (simp add: fixed_header_def read_u32_eq_Some)
qed

lemma decode_packet_InrD:
  assumes "decode_packet bs = Inr p"
  obtains off where "12 \<le> length bs" "drop_bit 6 (bs ! 0) = 2"
    and "pkt_marker p \<longleftrightarrow> bs ! 1 AND 0x80 \<noteq> 0" "pkt_payload_type p = bs ! 1 AND 0x7F"
    and "pkt_sequence p = from_be16 (bs ! 2) (bs ! 3)"
    and "read_u32 bs 4 = Some (pkt_timestamp p)" "read_u32 bs 8 = Some (pkt_ssrc p)"
    and "read_run read_u32 4 bs 12 (unat (bs ! 0 AND 0x0F)) = Some (pkt_csrc p)"
    and "if bs ! 0 AND 0x10 \<noteq> 0
      then \<exists>e. pkt_extension p = Some e \<and> decode_extension bs (12 + 4 * unat (bs ! 0 AND 0x0F)) = Inr (e, off)
      else pkt_extension p = None \<and> off = 12 + 4 * unat (bs ! 0 AND 0x0F)"
    and "off \<le> length bs"
    and "bs ! 0 AND 0x20 \<noteq> 0 \<longrightarrow> 0 < unat (last bs) \<and> unat (last bs) \<le> length bs - off"
    and "pkt_payload p =
      take (length bs - (if bs ! 0 AND 0x20 \<noteq> 0 then unat (last bs) else 0) - off) (drop off bs)"
proof -
  have len: "12 \<le> length bs"
    using assms by (auto simp: decode_packet_def HEADER_LEN_def split: if_splits)
  then have "bs \<noteq> []" by auto
  then have last: "bs ! (length bs - 1) = last bs" "bs \<noteq> []"
    by (simp_all add: last_conv_nth)
  define off where "off = (if bs ! 0 AND 0x10 \<noteq> 0
      then snd (projr (decode_extension bs (12 + 4 * unat (bs ! 0 AND 0x0F))))
      else 12 + 4 * unat (bs ! 0 AND 0x0F))"
  show thesis
    using assms len last off_def
    by (intro that [of off];
        auto simp: decode_packet_def HEADER_LEN_def Let_def bind_res_Inr_iff get_at_less
          split: if_splits prod.splits)
qed


lemma decoded_extension:
  assumes "if x then \<exists>e. pkt_extension p = Some e \<and> decode_extension bs at = Inr (e, off)
      else pkt_extension p = None \<and> off = at"
  shows "written_extension p = pkt_extension p"
    and "pkt_extension p \<noteq> None \<longleftrightarrow> x"
    and "at \<le> off"
    and "(case pkt_extension p of None \<Rightarrow> [] | Some e \<Rightarrow> e) = take (off - at) (drop at bs)"
    and "case pkt_extension p of None \<Rightarrow> True | Some e \<Rightarrow> extension_is_self_consistent e"
  using assms by (auto simp: written_extension_def dest: decode_extension_Inr split: if_splits)

lemma decoded_layout:
  assumes "decode_packet bs = Inr p"
  defines "pad \<equiv> (if bs ! 0 AND 0x20 \<noteq> 0 then unat (last bs) else 0)"
  shows "writable p"
    and "pad \<le> length bs"
    and "encode_packet p = (bs ! 0 AND NOT 0x20) # tl (take (length bs - pad) bs)"
proof -
  obtain off where f: "12 \<le> length bs" "drop_bit 6 (bs ! 0) = 2"
    and m: "pkt_marker p \<longleftrightarrow> bs ! 1 AND 0x80 \<noteq> 0" "pkt_payload_type p = bs ! 1 AND 0x7F"
      "pkt_sequence p = from_be16 (bs ! 2) (bs ! 3)"
      "read_u32 bs 4 = Some (pkt_timestamp p)" "read_u32 bs 8 = Some (pkt_ssrc p)"
    and run: "read_run read_u32 4 bs 12 (unat (bs ! 0 AND 0x0F)) = Some (pkt_csrc p)"
    and ext: "if bs ! 0 AND 0x10 \<noteq> 0
      then \<exists>e. pkt_extension p = Some e \<and> decode_extension bs (12 + 4 * unat (bs ! 0 AND 0x0F)) = Inr (e, off)
      else pkt_extension p = None \<and> off = 12 + 4 * unat (bs ! 0 AND 0x0F)"
    and off: "off \<le> length bs"
    and padded: "bs ! 0 AND 0x20 \<noteq> 0 \<longrightarrow> 0 < unat (last bs) \<and> unat (last bs) \<le> length bs - off"
    and payload: "pkt_payload p = take (length bs - pad - off) (drop off bs)"
    by (rule decode_packet_InrD [OF assms(1), folded pad_def]) (rule that; assumption)
  define n where "n = unat (bs ! 0 AND 0x0F)"
  have n15: "n \<le> 15"
    using word_and_le1 [of "bs ! 0" "0x0F"] by (simp add: n_def word_le_nat_alt)
  have cs: "length (pkt_csrc p) = n" "take (n * 4) (drop 12 bs) = concat (map to_be32 (pkt_csrc p))"
    using csrc.read_run_inv [OF run] f(1) by (simp_all add: n_def)
  note e = decoded_extension [OF ext, folded n_def]
  show "writable p"
    using cs(1) n15 e(5) by (simp add: writable_def m(2) and.assoc)
  show "pad \<le> length bs"
    using padded by (auto simp: pad_def)
  have ne: "bs \<noteq> []"
    using f(1) by auto
  have le: "off \<le> length bs - pad" "12 + 4 * n \<le> off" "12 \<le> 12 + 4 * n"
    using e(3) off padded by (auto simp: pad_def)
  have "take (length bs - pad) bs = take 12 bs @ concat (map to_be32 (pkt_csrc p))
      @ (case pkt_extension p of None \<Rightarrow> [] | Some e \<Rightarrow> e) @ pkt_payload p"
    using take_split [OF le(1), of bs] take_split [OF le(2), of bs] take_split [OF le(3), of bs]
      cs(2) e(4) payload by (simp add: mult.commute)
  then have "tl (take (length bs - pad) bs) = take 11 (tl bs) @ concat (map to_be32 (pkt_csrc p))
      @ (case pkt_extension p of None \<Rightarrow> [] | Some e \<Rightarrow> e) @ pkt_payload p"
    using ne tl_take_append [of 12 bs] by simp
  then show "encode_packet p = (bs ! 0 AND NOT 0x20) # tl (take (length bs - pad) bs)"
    using fixed_header_of_bytes [OF f m] cs(1) n15 e(1,2)
    by (simp add: encode_packet_alt min_absorb1 flip: n_def)
qed

section \<open>Sequence numbers\<close>

lemma sequence_is_newer_iff:
  "sequence_is_newer a b \<longleftrightarrow> 1 \<le> unat (a - b) \<and> unat (a - b) < 32768"
  by (auto simp: sequence_is_newer_def word_less_nat_alt Suc_le_eq unat_gt_0)

lemma unat_sub_u16: "unat (a - b :: u16) = (if unat b \<le> unat a then unat a - unat b else unat a + 65536 - unat b)"
  by (simp add: unat_sub_if')

lemma sequence_is_newer_nat:
  "sequence_is_newer a b \<longleftrightarrow>
     (unat b < unat a \<and> unat a - unat b < 32768) \<or> (unat a < unat b \<and> 32768 < unat b - unat a)"
  using unat_bounds(2) [of a] unat_bounds(2) [of b]
  by (auto simp: sequence_is_newer_iff unat_sub_u16)

lemma sequence_is_newer_irrefl [simp]: "\<not> sequence_is_newer a a"
  by (simp add: sequence_is_newer_def)

lemma sequence_is_newer_asym: "sequence_is_newer a b \<Longrightarrow> \<not> sequence_is_newer b a"
  by (auto simp: sequence_is_newer_nat)

lemma sequence_is_newer_add:
  assumes "0 < k" "k < 32768"
  shows "sequence_is_newer (b + of_nat k) b"
  using assms by (simp add: sequence_is_newer_iff)

text \<open>
  On 16-bit cuts of unbounded packet numbers less than half the number space apart, the serial
  order is the order of the numbers, and a newer cut that is smaller marks a wrap.
\<close>

lemma sequence_is_newer_true:
  assumes "n < h + 32768" "h < n + 32768"
  shows "sequence_is_newer (of_nat n) (of_nat h) \<longleftrightarrow> h < n"
    and "h < n \<Longrightarrow> (of_nat n :: u16) < of_nat h \<longleftrightarrow> n div 65536 = h div 65536 + 1"
    and "h < n \<Longrightarrow> n div 65536 = h div 65536 \<or> n div 65536 = h div 65536 + 1"
proof -
  have cut: "unat (of_nat m :: u16) = m mod 65536" for m by (simp add: unat_of_nat)
  have n: "n div 65536 * 65536 + n mod 65536 = n" and h: "h div 65536 * 65536 + h mod 65536 = h"
    by simp_all
  have r: "n mod 65536 < 65536" "h mod 65536 < 65536" by simp_all
  define a b c d where "a = n div 65536" and "b = n mod 65536" and "c = h div 65536" and "d = h mod 65536"
  note abcd = a_def [symmetric] b_def [symmetric] c_def [symmetric] d_def [symmetric]
  have bounds: "a * 65536 + b = n" "c * 65536 + d = h" "b < 65536" "d < 65536"
    using n h r by (simp_all only: abcd)
  have "a \<le> c + 1" "c \<le> a + 1" using assms bounds by linarith+
  then consider "a = c" | "a = c + 1" | "c = a + 1" by linarith
  note q = this
  have "(d < b \<and> b - d < 32768 \<or> b < d \<and> 32768 < d - b) \<longleftrightarrow> h < n"
    using q assms bounds by cases auto
  then show "sequence_is_newer (of_nat n) (of_nat h) \<longleftrightarrow> h < n"
    by (simp only: sequence_is_newer_nat cut abcd)
  have "b < d \<longleftrightarrow> a = c + 1" if "h < n" using q that assms bounds by cases auto
  then show "h < n \<Longrightarrow> (of_nat n :: u16) < of_nat h \<longleftrightarrow> n div 65536 = h div 65536 + 1"
    by (simp only: word_less_nat_alt cut abcd)
  have "a = c \<or> a = c + 1" if "h < n" using q that bounds by cases auto
  then show "h < n \<Longrightarrow> n div 65536 = h div 65536 \<or> n div 65536 = h div 65536 + 1"
    by (simp only: abcd)
qed

text \<open>
  Serial-number order on the wire. For any two sequence numbers exactly one of the following
  holds: they are equal, the first is newer, the second is newer, or they are exactly half the
  number space (32768) apart, where neither is newer; and every number up to 32767 steps ahead is
  newer across the 16-bit wrap.
\<close>

theorem sequence_order_exclusive:
  "length (filter id [a = b, sequence_is_newer a b, sequence_is_newer b a,
      sequence_distance a b = 0x8000]) = 1 \<and>
   sequence_is_newer (b + of_nat (Suc (k mod 32767))) b"
proof
  have "Suc (k mod 32767) < 32768"
    using mod_less_divisor [of 32767 k] by linarith
  then show "sequence_is_newer (b + of_nat (Suc (k mod 32767))) b"
    by (intro sequence_is_newer_add) simp_all
  have "a = b \<longleftrightarrow> unat a = unat b"
    by (simp add: word_unat_eq_iff)
  moreover have "sequence_distance a b = 0x8000 \<longleftrightarrow> unat (b - a) = 32768"
    by (simp add: sequence_distance_def word_unat_eq_iff)
  ultimately show "length (filter id [a = b, sequence_is_newer a b, sequence_is_newer b a,
      sequence_distance a b = 0x8000]) = 1"
    using unat_bounds(2) [of a] unat_bounds(2) [of b]
    by (auto simp: sequence_is_newer_nat unat_sub_u16 split: if_splits)
qed

text \<open>
  Decoding what the encoder wrote gives the packet back, for every packet: with the payload
  type cut to its seven bits, at most fifteen contributing sources, and a header extension that
  contradicts its own length word left off. In particular no packet is written that the decoder
  refuses, and media octets are never read as header.
\<close>

theorem rtp_decode_encode: "decode_packet (encode_packet p) = Inr (written_form p)"
  by (rule decode_encode)

text \<open>
  A datagram that decodes is the encoding of the packet it decodes to. Re-encoding gives back
  the datagram octet for octet, except that the padding bit is clear and the padding octets the
  last octet counts are gone; the decoded packet is one the encoder writes without loss.
\<close>

theorem rtp_encode_decode:
  assumes "decode_packet bs = Inr p"
  shows "writable p \<and>
    encode_packet p = (bs ! 0 AND NOT 0x20) #
      tl (take (length bs - (if bs ! 0 AND 0x20 \<noteq> 0 then unat (last bs) else 0)) bs)"
  using decoded_layout [OF assms] by blast

theorem rtp_encode_decode_witness:
  "writable (new_packet 0 7 160 99 [1, 2, 3]) \<and>
    encode_packet (new_packet 0 7 160 99 [1, 2, 3]) =
      [0x80, 0, 0, 7, 0, 0, 0, 160, 0, 0, 0, 99, 1, 2, 3]"
proof -
  have "decode_packet [0xA0, 0, 0, 7, 0, 0, 0, 160, 0, 0, 0, 99, 1, 2, 3, 0, 2] =
      Inr (new_packet 0 7 160 99 [1, 2, 3])"
    by code_simp
  from rtp_encode_decode [OF this] show ?thesis by simp
qed

end
