(* ===== verification/Rust_Float.thy ===== *)
theory Rust_Float
  imports Complex_Main Sipx_Prelude "HOL-Library.Log_Nat"
begin

text \<open>
  Rust's \<open>f64\<close> as the jitter estimates use it. A finite double is the rational number it denotes;
  each operation is the exact operation followed by rounding to the nearest representable value,
  ties to even (IEEE 754 binary64: 53 significant bits, least exponent \<open>-1074\<close>). Infinities and
  NaN are not represented: the modelled code only combines values below \<open>2 ^ 64\<close>, and the bounds
  proved for it keep every estimate in range.
\<close>

type_synonym f64 = rat

text \<open>The binary exponent of a positive rational: \<open>2 powi flog2 q \<le> q < 2 powi (flog2 q + 1)\<close>.\<close>

definition flog2 :: "rat \<Rightarrow> int" where
  "flog2 q = (let (n, d) = quotient_of q;
                  k = int (floorlog 2 (nat n)) - int (floorlog 2 (nat d))
              in if 2 powi k \<le> q then k else k - 1)"

definition round_even :: "rat \<Rightarrow> int" where
  "round_even r = (let f = \<lfloor>r\<rfloor>; d = r - of_int f
     in if d < 1 / 2 then f else if d > 1 / 2 then f + 1 else if even f then f else f + 1)"

definition f64_round :: "rat \<Rightarrow> f64" where
  "f64_round q = (if q = 0 then 0 else
     let e = max (flog2 \<bar>q\<bar> - 52) (- 1074)
     in of_int (round_even (q / 2 powi e)) * 2 powi e)"

definition f64_add :: "f64 \<Rightarrow> f64 \<Rightarrow> f64" where
  "f64_add x y = f64_round (x + y)"

definition f64_sub :: "f64 \<Rightarrow> f64 \<Rightarrow> f64" where
  "f64_sub x y = f64_round (x - y)"

definition f64_mul :: "f64 \<Rightarrow> f64 \<Rightarrow> f64" where
  "f64_mul x y = f64_round (x * y)"

definition f64_div :: "f64 \<Rightarrow> f64 \<Rightarrow> f64" where
  "f64_div x y = f64_round (x / y)"

text \<open>\<open>f64::from(u32)\<close> is exact; \<open>x as u32\<close> truncates and saturates.\<close>

definition f64_from :: "u32 \<Rightarrow> f64" where
  "f64_from w = of_nat (unat w)"

definition f64_as_u32 :: "f64 \<Rightarrow> u32" where
  "f64_as_u32 x = (if x \<le> 0 then 0 else of_nat (min (nat \<lfloor>x\<rfloor>) (2 ^ 32 - 1)))"

section \<open>Rounding\<close>

lemma round_even_minus: "round_even (- r) = - round_even r"
  by (auto simp: round_even_def Let_def floor_minus ceiling_altdef)

lemma round_even_bounds:
  "of_int (round_even r) \<le> r + 1 / 2" "r - 1 / 2 \<le> of_int (round_even r)"
  using floor_correct [of r] by (auto simp: round_even_def Let_def; linarith)+

lemma round_even_le_int:
  assumes "r \<le> of_int n"
  shows "round_even r \<le> n"
proof (rule ccontr)
  assume "\<not> round_even r \<le> n"
  then have "of_int n + 1 \<le> (of_int (round_even r) :: rat)"
    by (metis int_one_le_iff_zero_less not_le of_int_1 of_int_add of_int_le_iff zless_imp_add1_zle)
  with round_even_bounds(1) [of r] assms show False by linarith
qed

lemma round_even_nonneg: "0 \<le> r \<Longrightarrow> 0 \<le> round_even r"
  using round_even_le_int [of "- r" 0] by (simp add: round_even_minus)

lemma round_even_le_double:
  assumes "0 \<le> r"
  shows "of_int (round_even r) \<le> 2 * r"
proof (cases "r < 1 / 2")
  case True
  then have "\<lfloor>r\<rfloor> = 0" using assms by linarith
  with True assms show ?thesis by (simp add: round_even_def Let_def)
next
  case False
  with round_even_bounds(1) [of r] show ?thesis by linarith
qed

lemma f64_round_0 [simp]: "f64_round 0 = 0"
  by (simp add: f64_round_def)

lemma f64_round_minus: "f64_round (- q) = - f64_round q"
  by (simp add: f64_round_def Let_def round_even_minus)

lemma f64_round_nonneg:
  assumes "0 \<le> q"
  shows "0 \<le> f64_round q"
proof -
  have "0 \<le> round_even (q / 2 powi e)" for e
    using assms by (intro round_even_nonneg) simp
  then show ?thesis by (simp add: f64_round_def Let_def)
qed

lemma f64_round_le_double:
  assumes "0 \<le> q"
  shows "f64_round q \<le> 2 * q"
proof -
  have "of_int (round_even (q / 2 powi e)) * 2 powi e \<le> 2 * q" for e :: int
    using mult_right_mono [OF round_even_le_double [of "q / 2 powi e"], of "2 powi e"] assms by simp
  with assms show ?thesis by (simp add: f64_round_def Let_def)
qed

lemma f64_round_bounds:
  "0 \<le> q \<Longrightarrow> 0 \<le> f64_round q \<and> f64_round q \<le> 2 * q"
  "q \<le> 0 \<Longrightarrow> 2 * q \<le> f64_round q \<and> f64_round q \<le> 0"
  using f64_round_nonneg [of q] f64_round_le_double [of q]
    f64_round_nonneg [of "- q"] f64_round_le_double [of "- q"] by (simp_all add: f64_round_minus)

subsection \<open>Powers of two bound the rounding\<close>

lemma flog2_le:
  assumes "0 < q"
  shows "2 powi flog2 q \<le> q"
proof -
  obtain n d where nd: "quotient_of q = (n, d)" by fastforce
  have q: "q = of_int n / of_int d" and d: "0 < d"
    using quotient_of_div [OF nd] quotient_of_denom_pos [OF nd] by auto
  with assms have n: "0 < n" by (simp add: zero_less_divide_iff)
  define a b where "a = floorlog 2 (nat n)" and "b = floorlog 2 (nat d)"
  have "2 ^ (a - 1) \<le> nat n" "nat d < 2 ^ b"
    using floorlog_bounds [of "nat n" 2] floorlog_bounds [of "nat d" 2] n d
    by (auto simp: a_def b_def)
  then have "(2 :: int) ^ (a - 1) \<le> n" "d < (2 :: int) ^ b"
    using n d by (auto simp: le_nat_iff nat_less_iff)
  then have "(of_int (2 ^ (a - 1)) :: rat) \<le> of_int n" "(of_int d :: rat) \<le> of_int (2 ^ b)"
    by (simp_all only: of_int_le_iff less_imp_le)
  then have "(2 :: rat) ^ (a - 1) / 2 ^ b \<le> q"
    unfolding q using n d by (intro frac_le) auto
  moreover have "1 \<le> a"
    using n by (cases a) (auto simp: a_def floorlog_eq_zero_iff)
  ultimately have "2 powi (int a - int b - 1) \<le> q"
    by (simp add: power_int_diff power_diff)
  then show ?thesis
    by (simp add: flog2_def nd a_def b_def Let_def)
qed

lemma f64_round_le_pow2:
  assumes "0 \<le> q" "q \<le> 2 powi k" "- 1074 \<le> k"
  shows "f64_round q \<le> 2 powi k"
proof (cases "q = 0")
  case True
  then show ?thesis by simp
next
  case False
  define e where "e = max (flog2 \<bar>q\<bar> - 52) (- 1074)"
  have "2 powi flog2 q \<le> (2 powi k :: rat)"
    using flog2_le [of q] False assms by linarith
  then have "flog2 q \<le> k"
    using power_int_strict_increasing [of k "flog2 q" "2 :: rat"] by (cases "k < flog2 q") auto
  with assms have ek: "e \<le> k"
    by (simp add: e_def)
  have pow: "(of_int (2 ^ nat (k - e)) :: rat) = 2 powi k / 2 powi e"
  proof -
    have "(2 :: rat) powi (k - e) = 2 ^ nat (k - e)"
      using ek by (simp add: power_int_def)
    then show ?thesis by (simp add: power_int_diff)
  qed
  have "q / 2 powi e \<le> of_int (2 ^ nat (k - e))"
    unfolding pow using assms(2) by (simp add: divide_right_mono)
  then have "of_int (round_even (q / 2 powi e)) \<le> (of_int (2 ^ nat (k - e)) :: rat)"
    by (simp only: of_int_le_iff round_even_le_int)
  then have "of_int (round_even (q / 2 powi e)) * 2 powi e \<le> (2 powi k / 2 powi e * 2 powi e :: rat)"
    unfolding pow by (rule mult_right_mono) simp
  with False show ?thesis
    by (simp add: f64_round_def Let_def e_def)
qed

lemma f64_from_nonneg [simp]: "0 \<le> f64_from w"
  unfolding f64_from_def by (rule of_nat_0_le_iff)

section \<open>The smoothed deviation of RFC 3550\<close>

text \<open>
  Both jitter estimators compute \<open>J + (D - J) / 16\<close> in doubles, \<open>D\<close> being the absolute value of a
  32-bit difference read as signed (\<open>cast_signed().unsigned_abs()\<close>). With \<open>J\<close> and \<open>D\<close> between
  0 and \<open>2 ^ k\<close> the result stays there, whatever the roundings do.
\<close>

definition unsigned_abs :: "u32 \<Rightarrow> u32" where
  "unsigned_abs w = of_int \<bar>sint w\<bar>"

definition smooth16 :: "f64 \<Rightarrow> f64 \<Rightarrow> f64" where
  "smooth16 j d = f64_add j (f64_div (f64_sub d j) 16)"

lemma smooth16_bounds:
  assumes "0 \<le> j" "j \<le> 2 powi k" "0 \<le> d" "d \<le> 2 powi k" "- 1074 \<le> k"
  shows "0 \<le> smooth16 j d \<and> smooth16 j d \<le> 2 powi k"
proof -
  define b where "b = f64_div (f64_sub d j) 16"
  have "0 \<le> j + b \<and> j + b \<le> 2 powi k"
  proof (cases "j \<le> d")
    case True
    then have "0 \<le> b" "4 * b \<le> d - j"
      using f64_round_bounds(1) [of "d - j"] f64_round_bounds(1) [of "f64_round (d - j) / 16"]
      by (auto simp: b_def f64_div_def f64_sub_def)
    with True assms show ?thesis by auto
  next
    case False
    then have "d - j \<le> 4 * b" "b \<le> 0"
      using f64_round_bounds(2) [of "d - j"] f64_round_bounds(2) [of "f64_round (d - j) / 16"]
      by (auto simp: b_def f64_div_def f64_sub_def)
    with False assms show ?thesis by auto
  qed
  with assms show ?thesis
    by (auto simp: smooth16_def b_def [symmetric] f64_add_def intro: f64_round_nonneg f64_round_le_pow2)
qed

lemma unat_unsigned_abs: "unat (unsigned_abs w) \<le> 2 ^ 31"
proof -
  have "- (2 ^ 31) \<le> sint w" "sint w < 2 ^ 31"
    using sint_ge [of w] sint_lt [of w] by simp_all
  define n where "n = nat \<bar>sint w\<bar>"
  with \<open>- (2 ^ 31) \<le> sint w\<close> \<open>sint w < 2 ^ 31\<close> have "n \<le> 2 ^ 31"
    by (simp add: nat_le_iff abs_le_iff)
  moreover have "unsigned_abs w = of_nat n" by (simp add: unsigned_abs_def n_def)
  ultimately show ?thesis by (simp add: unat_of_nat)
qed

lemma smooth16_unsigned_abs:
  assumes "0 \<le> j" "j \<le> 2 powi 31"
  shows "0 \<le> smooth16 j (f64_from (unsigned_abs w)) \<and> smooth16 j (f64_from (unsigned_abs w)) \<le> 2 powi 31"
proof (rule smooth16_bounds)
  have "(of_nat (unat (unsigned_abs w)) :: rat) \<le> of_nat (2 ^ 31)"
    by (simp only: of_nat_le_iff unat_unsigned_abs)
  then show "f64_from (unsigned_abs w) \<le> 2 powi 31"
    by (simp add: f64_from_def)
qed (use assms in simp_all)

lemma f64_as_u32_in_range:
  assumes "0 \<le> x" "x < 2 ^ 32"
  shows "unat (f64_as_u32 x) = nat \<lfloor>x\<rfloor>"
proof -
  have "\<lfloor>x\<rfloor> < 2 ^ 32"
    using assms by (simp add: floor_less_iff)
  moreover have "0 \<le> \<lfloor>x\<rfloor>"
    using assms by simp
  ultimately have small: "nat \<lfloor>x\<rfloor> < 2 ^ 32"
    by (simp add: nat_less_iff)
  define n where "n = nat \<lfloor>x\<rfloor>"
  have "f64_as_u32 x = of_nat n"
    using assms small by (cases "x = 0") (simp_all add: f64_as_u32_def n_def min_def)
  then show ?thesis
    using small by (simp add: n_def [symmetric])
qed

end
