(* ===== verification/Jitter_Buffer.thy ===== *)
theory Jitter_Buffer
  imports Rtp_Packet Rust_Float
begin

text \<open>
  The jitter buffer, \<open>crates/sipx-rtp/src/jitter.rs\<close>: arrival statistics, the depth policy,
  insertion, release, draining and the extension of 16-bit sequence numbers to a monotonic count.
  The \<open>BTreeMap\<close> of held packets is the ordered association list of the prelude; the \<open>u64\<close>
  counters are natural numbers, which \<open>extended_bound\<close> shows stay far below \<open>2 ^ 64\<close>.
\<close>

section \<open>State\<close>

definition SHRINK_AFTER :: nat where
  "SHRINK_AFTER = 250"

datatype policy = Fixed | Adaptive (policy_min: nat) (policy_max: nat)

record jitter_buffer =
  jb_depth :: nat
  jb_packets :: "(nat \<times> packet) list"
  jb_last_released :: "nat option"
  jb_cycles :: nat
  jb_highest :: "u16 option"
  jb_received :: nat
  jb_lost :: nat
  jb_duplicates :: nat
  jb_late :: nat
  jb_policy :: policy
  jb_jitter :: f64
  jb_last_transit :: "u32 option"
  jb_interval :: "u32 option"
  jb_last_timestamp :: "u32 option"
  jb_clean_run :: nat

definition jb_new :: "nat \<Rightarrow> jitter_buffer" where
  "jb_new depth = \<lparr>jb_depth = max depth 1, jb_packets = [], jb_last_released = None, jb_cycles = 0,
     jb_highest = None, jb_received = 0, jb_lost = 0, jb_duplicates = 0, jb_late = 0,
     jb_policy = Fixed, jb_jitter = 0, jb_last_transit = None, jb_interval = None,
     jb_last_timestamp = None, jb_clean_run = 0\<rparr>"

definition jb_adaptive :: "nat \<Rightarrow> nat \<Rightarrow> jitter_buffer" where
  "jb_adaptive lo hi =
     (let mn = max lo 1; mx = max hi mn in (jb_new mn)\<lparr>jb_policy := Adaptive mn mx\<rparr>)"

section \<open>Arrival statistics and depth\<close>

definition absorbable :: "nat \<Rightarrow> f64 \<Rightarrow> f64" where
  "absorbable depth interval =
     (let intervals = (if depth - 1 < 2 ^ 32 then of_nat (depth - 1) else - 1)
      in f64_mul (f64_from intervals) interval)"

definition jb_observe :: "jitter_buffer \<Rightarrow> u32 \<Rightarrow> u32 \<Rightarrow> jitter_buffer" where
  "jb_observe b timestamp arrival =
     (let interval = (case jb_last_timestamp b of
            None \<Rightarrow> jb_interval b
          | Some previous \<Rightarrow>
              let delta = timestamp - previous
              in if delta > 0 \<and> delta < 48000
                 then Some (case jb_interval b of
                        Some current \<Rightarrow> (current * 7 + delta) div 8
                      | None \<Rightarrow> delta)
                 else jb_interval b);
          transit = arrival - timestamp;
          jitter = (case jb_last_transit b of
            None \<Rightarrow> jb_jitter b
          | Some previous \<Rightarrow> smooth16 (jb_jitter b) (f64_from (unsigned_abs (transit - previous))))
      in b\<lparr>jb_interval := interval, jb_last_timestamp := Some timestamp,
           jb_jitter := jitter, jb_last_transit := Some transit\<rparr>)"

definition jb_wanted :: "jitter_buffer \<Rightarrow> nat option" where
  "jb_wanted b = (case jb_policy b of
       Fixed \<Rightarrow> None
     | Adaptive mn mx \<Rightarrow>
         (case jb_interval b of
            None \<Rightarrow> None
          | Some interval \<Rightarrow>
              let deviation = f64_mul 2 (jb_jitter b); iv = f64_from interval
              in Some (case find (\<lambda>depth. deviation \<le> absorbable depth iv) [mn..<Suc mx] of
                         Some depth \<Rightarrow> depth
                       | None \<Rightarrow> mx)))"

definition jb_deepen :: "jitter_buffer \<Rightarrow> jitter_buffer" where
  "jb_deepen b = (case jb_policy b of
       Adaptive _ mx \<Rightarrow> b\<lparr>jb_depth := min (jb_depth b + 1) mx, jb_clean_run := 0\<rparr>
     | Fixed \<Rightarrow> b)"

definition jb_resize :: "jitter_buffer \<Rightarrow> jitter_buffer" where
  "jb_resize b = (case jb_wanted b of
       None \<Rightarrow> b
     | Some want \<Rightarrow>
         if want > jb_depth b then b\<lparr>jb_depth := want, jb_clean_run := 0\<rparr>
         else if want < jb_depth b then
           (let b' = b\<lparr>jb_clean_run := jb_clean_run b + 1\<rparr>
            in if jb_clean_run b' \<ge> SHRINK_AFTER
               then b'\<lparr>jb_depth := jb_depth b' - 1, jb_clean_run := 0\<rparr>
               else b')
         else b\<lparr>jb_clean_run := 0\<rparr>)"

section \<open>Packets in and out\<close>

definition jb_extend :: "jitter_buffer \<Rightarrow> u16 \<Rightarrow> nat \<times> jitter_buffer" where
  "jb_extend b sequence = (case jb_highest b of
       None \<Rightarrow> (65536 + unat sequence, b\<lparr>jb_highest := Some sequence, jb_cycles := 1\<rparr>)
     | Some highest \<Rightarrow>
         if sequence_is_newer sequence highest then
           (let cycles = (if sequence < highest then jb_cycles b + 1 else jb_cycles b)
            in (cycles * 65536 + unat sequence,
                b\<lparr>jb_cycles := cycles, jb_highest := Some sequence\<rparr>))
         else if sequence > highest \<and> jb_cycles b > 0 then
           ((jb_cycles b - 1) * 65536 + unat sequence, b)
         else (jb_cycles b * 65536 + unat sequence, b))"

definition jb_push :: "jitter_buffer \<Rightarrow> packet \<Rightarrow> bool \<times> jitter_buffer" where
  "jb_push b packet =
     (let (extended, b) = jb_extend (b\<lparr>jb_received := jb_received b + 1\<rparr>) (pkt_sequence packet)
      in if (case jb_last_released b of None \<Rightarrow> False | Some released \<Rightarrow> extended \<le> released)
         then (False, b\<lparr>jb_late := jb_late b + 1\<rparr>)
         else if map_of (jb_packets b) extended \<noteq> None
         then (False, b\<lparr>jb_duplicates := jb_duplicates b + 1\<rparr>)
         else (True, b\<lparr>jb_packets := bt_insert extended packet (jb_packets b)\<rparr>))"

definition jb_push_at :: "jitter_buffer \<Rightarrow> packet \<Rightarrow> u32 \<Rightarrow> bool \<times> jitter_buffer" where
  "jb_push_at b packet arrival =
     (let was_late = jb_late b;
          (kept, b) = jb_push (jb_observe b (pkt_timestamp packet) arrival) packet
      in (kept, if jb_late b > was_late then jb_deepen b else jb_resize b))"

definition jb_pop :: "jitter_buffer \<Rightarrow> packet option \<times> jitter_buffer" where
  "jb_pop b =
     (if length (jb_packets b) < jb_depth b then (None, b) else
      case bt_first (jb_packets b) of
        None \<Rightarrow> (None, b)
      | Some next \<Rightarrow>
          let b = (case jb_last_released b of
                None \<Rightarrow> b
              | Some released \<Rightarrow>
                  let expected = released + 1
                  in if next > expected then b\<lparr>jb_lost := jb_lost b + (next - expected)\<rparr> else b)
          in (case map_of (jb_packets b) next of
                None \<Rightarrow> (None, b)
              | Some packet \<Rightarrow>
                  (Some packet, b\<lparr>jb_packets := bt_remove next (jb_packets b),
                                  jb_last_released := Some next\<rparr>)))"

lemma bt_remove_first_shrinks: "bt_first m = Some k \<Longrightarrow> length (bt_remove k m) < length m"
  by (cases m) (auto simp: bt_first_def bt_remove_def less_Suc_eq_le)

function jb_drain :: "jitter_buffer \<Rightarrow> packet list \<times> jitter_buffer" where
  "jb_drain b =
     (case bt_first (jb_packets b) of
        None \<Rightarrow> ([], b)
      | Some next \<Rightarrow>
          (case map_of (jb_packets b) next of
             None \<Rightarrow> ([], b)
           | Some packet \<Rightarrow>
               let (out, b') = jb_drain (b\<lparr>jb_packets := bt_remove next (jb_packets b),
                                         jb_last_released := Some next\<rparr>)
               in (packet # out, b')))"
  by pat_completeness auto
termination
  by (relation "measure (\<lambda>b. length (jb_packets b))") (auto simp: bt_remove_first_shrinks)

declare jb_drain.simps [simp del]

section \<open>Invariant\<close>

text \<open>
  What every operation keeps: the map is ordered, nothing held is at or below what was released,
  nothing lies above the highest extended number, the depth respects its policy, and the
  estimates stay in the ranges that make their machine arithmetic exact.
\<close>

definition ext_highest :: "jitter_buffer \<Rightarrow> nat" where
  "ext_highest b = (case jb_highest b of None \<Rightarrow> 0 | Some h \<Rightarrow> jb_cycles b * 65536 + unat h)"

definition order_ok :: "jitter_buffer \<Rightarrow> bool" where
  "order_ok b \<longleftrightarrow> bt_ok (jb_packets b)
     \<and> (\<forall>k \<in> dom (map_of (jb_packets b)). k \<le> ext_highest b
          \<and> (case jb_last_released b of None \<Rightarrow> True | Some l \<Rightarrow> l < k))
     \<and> (case jb_last_released b of None \<Rightarrow> True | Some l \<Rightarrow> l \<le> ext_highest b)
     \<and> (jb_highest b \<noteq> None \<longrightarrow> 0 < jb_cycles b)
     \<and> (jb_highest b = None \<longrightarrow> jb_packets b = [] \<and> jb_last_released b = None)"

definition depth_ok :: "jitter_buffer \<Rightarrow> bool" where
  "depth_ok b \<longleftrightarrow> 1 \<le> jb_depth b \<and> jb_clean_run b < SHRINK_AFTER
     \<and> (case jb_policy b of Fixed \<Rightarrow> True
        | Adaptive mn mx \<Rightarrow> 1 \<le> mn \<and> mn \<le> jb_depth b \<and> jb_depth b \<le> mx)"

definition estimate_ok :: "jitter_buffer \<Rightarrow> bool" where
  "estimate_ok b \<longleftrightarrow> 0 \<le> jb_jitter b \<and> jb_jitter b \<le> 2 powi 31
     \<and> (case jb_interval b of None \<Rightarrow> True | Some i \<Rightarrow> unat i < 48000)"

definition jb_ok :: "jitter_buffer \<Rightarrow> bool" where
  "jb_ok b \<longleftrightarrow> order_ok b \<and> depth_ok b \<and> estimate_ok b"

text \<open>The operations an owner of the buffer performs, with the packets they hand out.\<close>

datatype jb_event = Push packet | PushAt packet u32 | Pop | Drain

fun jb_step :: "jitter_buffer \<Rightarrow> jb_event \<Rightarrow> packet list \<times> jitter_buffer" where
  "jb_step b (Push p) = ([], snd (jb_push b p))"
| "jb_step b (PushAt p t) = ([], snd (jb_push_at b p t))"
| "jb_step b Pop = (case jb_pop b of (Some p, b') \<Rightarrow> ([p], b') | (None, b') \<Rightarrow> ([], b'))"
| "jb_step b Drain = jb_drain b"

fun jb_run :: "jitter_buffer \<Rightarrow> jb_event list \<Rightarrow> packet list \<times> jitter_buffer" where
  "jb_run b [] = ([], b)"
| "jb_run b (e # es) = (let (out, b') = jb_step b e; (outs, b'') = jb_run b' es in (out @ outs, b''))"

section \<open>Extending sequence numbers\<close>

lemma jb_extend_frame:
  assumes "jb_extend b s = (n, b')"
  shows "jb_packets b' = jb_packets b" "jb_last_released b' = jb_last_released b"
    "jb_depth b' = jb_depth b" "jb_policy b' = jb_policy b" "jb_clean_run b' = jb_clean_run b"
    "jb_jitter b' = jb_jitter b" "jb_interval b' = jb_interval b" "jb_received b' = jb_received b"
    "jb_lost b' = jb_lost b" "jb_late b' = jb_late b" "jb_duplicates b' = jb_duplicates b"
  using assms by (auto simp: jb_extend_def Let_def split: option.splits if_splits)

text \<open>
  The numbers the extension can tell apart: within half the number space of the highest seen.
  There it returns the very number the sequence was cut from, across any number of wraps.
\<close>

lemma window_arith:
  fixes c h q r :: nat
  assumes "h < 65536" "r < 65536" "0 < c"
    and "c * 65536 + h \<le> q * 65536 + r + 32768" "q * 65536 + r < c * 65536 + h + 32768"
  shows "(h < r \<and> r - h < 32768 \<or> r < h \<and> 32768 < h - r) \<longleftrightarrow> c * 65536 + h < q * 65536 + r"
    and "c * 65536 + h < q * 65536 + r \<Longrightarrow> q = (if r < h then c + 1 else c)"
    and "q * 65536 + r \<le> c * 65536 + h \<Longrightarrow> q = (if h < r then c - 1 else c)"
proof -
  consider "q = c - 1" | "q = c" | "q = c + 1"
    using assms by linarith
  note q = this
  show "(h < r \<and> r - h < 32768 \<or> r < h \<and> 32768 < h - r) \<longleftrightarrow> c * 65536 + h < q * 65536 + r"
    using q assms by cases (cases c; auto)+
  show "c * 65536 + h < q * 65536 + r \<Longrightarrow> q = (if r < h then c + 1 else c)"
    using q assms by cases (cases c; auto)+
  show "q * 65536 + r \<le> c * 65536 + h \<Longrightarrow> q = (if h < r then c - 1 else c)"
    using q assms by cases (cases c; auto)+
qed

lemma jb_extend_exact:
  assumes h: "jb_highest b = Some h" and c: "0 < jb_cycles b"
    and lo: "ext_highest b \<le> n + 32768" and hi: "n < ext_highest b + 32768"
  shows "jb_extend b (of_nat n) =
    (n, if ext_highest b < n
        then b\<lparr>jb_cycles := n div 65536, jb_highest := Some (of_nat n)\<rparr> else b)"
proof -
  define q r where "q = n div 65536" and "r = n mod 65536"
  have n: "n = q * 65536 + r" and r: "r < 65536" by (simp_all add: q_def r_def)
  have s: "unat (of_nat n :: u16) = r" by (simp add: r_def unat_of_nat)
  have e: "ext_highest b = jb_cycles b * 65536 + unat h" by (simp add: ext_highest_def h)
  note arith = window_arith [OF unat_bounds(2) [of h] r c, of q, folded n e, OF lo hi]
  have newer: "sequence_is_newer (of_nat n) h \<longleftrightarrow> ext_highest b < n"
    unfolding sequence_is_newer_nat s using arith(1) .
  show ?thesis
  proof (cases "ext_highest b < n")
    case True
    then have "(if (of_nat n :: u16) < h then jb_cycles b + 1 else jb_cycles b) = q"
      using arith(2) by (simp only: word_less_nat_alt s)
    with True newer h s show ?thesis
      by (simp add: jb_extend_def Let_def n [symmetric] flip: q_def)
  next
    case False
    then have "(if h < (of_nat n :: u16) then jb_cycles b - 1 else jb_cycles b) = q"
      using arith(3) by (simp only: word_less_nat_alt s not_less)
    then have "(if h < (of_nat n :: u16) then jb_cycles b - 1 else jb_cycles b) * 65536 + r = n"
      by (simp only: n [symmetric])
    with False newer h s c show ?thesis
      by (cases "h < (of_nat n :: u16)") (simp_all add: jb_extend_def)
  qed
qed

lemma ext_highest_raise:
  "ext_highest (b\<lparr>jb_cycles := n div 65536, jb_highest := Some (of_nat n)\<rparr>) = n"
  by (simp add: ext_highest_def unat_of_nat)

text \<open>Every 16-bit number is the cut of exactly one number in the window.\<close>

lemma window_representative:
  fixes s :: u16
  assumes "65536 \<le> H"
  obtains n where "s = of_nat n" "H \<le> n + 32768" "n < H + 32768"
proof -
  define d where "d = unat (s - of_nat H :: u16)"
  have d: "d < 65536" by (simp add: d_def unat_bounds)
  have s: "s = of_nat (H + d)" by (simp add: d_def)
  show thesis
  proof (cases "d < 32768")
    case True
    with s show ?thesis by (intro that [of "H + d"]) auto
  next
    case False
    have "of_nat (H + d) = (of_nat (H + d - 65536) :: u16)"
    proof -
      have "(of_nat (H + d - 65536 + 65536) :: u16) = of_nat (H + d - 65536)"
        by (simp only: of_nat_add) simp
      then show ?thesis using assms by simp
    qed
    with False d s assms show ?thesis by (intro that [of "H + d - 65536"]) auto
  qed
qed

lemma jb_extend_props:
  assumes "jb_extend b s = (n, b')" and "jb_highest b \<noteq> None \<longrightarrow> 0 < jb_cycles b"
  shows "n \<le> ext_highest b'" "ext_highest b \<le> ext_highest b'"
    "jb_highest b' \<noteq> None" "0 < jb_cycles b'"
proof -
  have *: "n \<le> ext_highest b' \<and> ext_highest b \<le> ext_highest b' \<and> jb_highest b' \<noteq> None \<and> 0 < jb_cycles b'"
  proof (cases "jb_highest b")
    case None
    with assms(1) show ?thesis by (auto simp: jb_extend_def ext_highest_def)
  next
    case (Some h)
    with assms(2) have c: "0 < jb_cycles b" by simp
    then have "65536 \<le> ext_highest b" using Some by (simp add: ext_highest_def)
    then obtain m where m: "s = of_nat m" "ext_highest b \<le> m + 32768" "m < ext_highest b + 32768"
      by (rule window_representative)
    show ?thesis
    proof (cases "ext_highest b < m")
      case True
      then have "b' = b\<lparr>jb_cycles := m div 65536, jb_highest := Some (of_nat m)\<rparr>" "n = m"
        using jb_extend_exact [OF Some c m(2,3)] m(1) assms(1) by auto
      with True \<open>65536 \<le> ext_highest b\<close> show ?thesis by (simp add: ext_highest_raise div_greater_zero_iff)
    next
      case False
      then show ?thesis using jb_extend_exact [OF Some c m(2,3)] m(1) assms(1) Some c by auto
    qed
  qed
  then show "n \<le> ext_highest b'" "ext_highest b \<le> ext_highest b'"
    "jb_highest b' \<noteq> None" "0 < jb_cycles b'" by auto
qed


section \<open>The invariant is kept\<close>

lemma ext_highest_cong:
  "jb_highest c = jb_highest b \<Longrightarrow> jb_cycles c = jb_cycles b \<Longrightarrow> ext_highest c = ext_highest b"
  by (simp add: ext_highest_def split: option.split)

lemma order_ok_cong:
  assumes "jb_packets c = jb_packets b" "jb_last_released c = jb_last_released b"
    "jb_highest c = jb_highest b" "jb_cycles c = jb_cycles b"
  shows "order_ok c = order_ok b"
  using assms ext_highest_cong [OF assms(3,4)] by (simp add: order_ok_def cong: option.case_cong)

lemma order_ok_insert:
  assumes "order_ok c" "n \<le> ext_highest c" "jb_highest c \<noteq> None"
    and "case jb_last_released c of None \<Rightarrow> True | Some l \<Rightarrow> l < n"
  shows "order_ok (c\<lparr>jb_packets := bt_insert n p (jb_packets c)\<rparr>)"
proof -
  have "ext_highest (c\<lparr>jb_packets := bt_insert n p (jb_packets c)\<rparr>) = ext_highest c"
    by (rule ext_highest_cong) simp_all
  with assms show ?thesis
    unfolding order_ok_def by (auto simp: map_of_bt_insert bt_ok_insert split: option.splits if_splits)
qed

lemma order_ok_push:
  assumes "order_ok b" "jb_push b p = (kept, b')"
  shows "order_ok b'"
proof -
  obtain n c where c: "jb_extend (b\<lparr>jb_received := jb_received b + 1\<rparr>) (pkt_sequence p) = (n, c)"
    by fastforce
  have hc: "jb_highest (b\<lparr>jb_received := jb_received b + 1\<rparr>) \<noteq> None \<longrightarrow>
      0 < jb_cycles (b\<lparr>jb_received := jb_received b + 1\<rparr>)"
    using assms(1) by (simp add: order_ok_def)
  note e = jb_extend_props [OF c hc]
  have eb: "ext_highest (b\<lparr>jb_received := jb_received b + 1\<rparr>) = ext_highest b"
    by (simp add: ext_highest_def split: option.split)
  note frame = jb_extend_frame(1,2) [OF c, simplified]
  have oc: "order_ok c"
    using assms(1) e eb unfolding order_ok_def frame
    by (auto split: option.splits intro: order.trans)
  have late: "order_ok (c\<lparr>jb_late := x\<rparr>)" "order_ok (c\<lparr>jb_duplicates := x\<rparr>)" for x
    using oc order_ok_cong [of "c\<lparr>jb_late := x\<rparr>" c] order_ok_cong [of "c\<lparr>jb_duplicates := x\<rparr>" c]
    by simp_all
  show ?thesis
    using assms(2) c late order_ok_insert [OF oc e(1,3)]
    by (auto simp: jb_push_def Let_def not_le split: if_splits option.splits)
qed


text \<open>A release takes the least held number, which lies above everything released before.\<close>

lemma order_ok_release:
  assumes "order_ok b" "bt_first (jb_packets b) = Some k"
  shows "order_ok (b\<lparr>jb_packets := bt_remove k (jb_packets b), jb_last_released := Some k\<rparr>)"
    and "map_of (jb_packets b) k \<noteq> None"
    and "case jb_last_released b of None \<Rightarrow> True | Some l \<Rightarrow> l < k"
proof -
  have ok: "bt_ok (jb_packets b)" using assms(1) by (simp add: order_ok_def)
  note least = btree.least_Some [OF ok assms(2)] btree.least_after_remove [OF ok assms(2)]
  have e: "ext_highest (b\<lparr>jb_packets := bt_remove k (jb_packets b), jb_last_released := Some k\<rparr>) = ext_highest b"
    by (rule ext_highest_cong) simp_all
  have "jb_highest b \<noteq> None"
    using assms by (auto simp: order_ok_def bt_first_def)
  with assms(1) least ok show "order_ok (b\<lparr>jb_packets := bt_remove k (jb_packets b), jb_last_released := Some k\<rparr>)"
    unfolding order_ok_def e by (auto simp: btree.dom_remove bt_ok_remove)
  from least show "map_of (jb_packets b) k \<noteq> None" by auto
  from assms(1) least show "case jb_last_released b of None \<Rightarrow> True | Some l \<Rightarrow> l < k"
    by (auto simp: order_ok_def split: option.splits)
qed

lemma jb_pop_cases:
  assumes "order_ok b"
  obtains (waiting) "length (jb_packets b) < jb_depth b \<or> jb_packets b = []" "jb_pop b = (None, b)"
  | (release) k p where "jb_depth b \<le> length (jb_packets b)" "bt_first (jb_packets b) = Some k"
      "map_of (jb_packets b) k = Some p"
      "jb_pop b = (Some p, b\<lparr>jb_lost := jb_lost b + (case jb_last_released b of None \<Rightarrow> 0 | Some l \<Rightarrow> k - (l + 1)),
         jb_packets := bt_remove k (jb_packets b), jb_last_released := Some k\<rparr>)"
proof (cases "length (jb_packets b) < jb_depth b")
  case True
  then show ?thesis by (intro waiting) (simp_all add: jb_pop_def)
next
  case False
  show ?thesis
  proof (cases "bt_first (jb_packets b)")
    case None
    then have "jb_packets b = []" by (auto simp: bt_first_def split: list.splits)
    with None False show ?thesis by (intro waiting) (simp_all add: jb_pop_def)
  next
    case (Some k)
    then obtain p where p: "map_of (jb_packets b) k = Some p"
      using order_ok_release(2) [OF assms] by auto
    show ?thesis
      using False Some p
      by (intro release [of k p]) (auto simp: jb_pop_def Let_def split: option.splits)
  qed
qed

lemma order_ok_pop:
  assumes "order_ok b" "jb_pop b = (r, b')"
  shows "order_ok b'"
  using assms(1)
proof (cases rule: jb_pop_cases)
  case waiting
  with assms show ?thesis by simp
next
  case (release k p)
  let ?c = "b\<lparr>jb_packets := bt_remove k (jb_packets b), jb_last_released := Some k\<rparr>"
  have "order_ok (b\<lparr>jb_lost := x, jb_packets := bt_remove k (jb_packets b),
      jb_last_released := Some k\<rparr>) = order_ok ?c" for x
    by (rule order_ok_cong) simp_all
  with order_ok_release(1) [OF assms(1) release(2)] release(4) assms(2) show ?thesis by auto
qed

text \<open>Draining empties the buffer in key order and changes nothing but the release mark.\<close>

lemma bt_remove_head:
  assumes "bt_ok ((k, p) # m)"
  shows "bt_remove k ((k, p) # m) = m"
proof -
  have "k \<notin> fst ` set m" using assms by (auto simp: bt_ok_def)
  then have "filter (\<lambda>(j, _). j \<noteq> k) m = m"
    by (induction m) auto
  then show ?thesis by (simp add: bt_remove_def)
qed

lemma jb_drain_eq:
  assumes "bt_ok (jb_packets b)"
  shows "jb_drain b = (map snd (jb_packets b),
    b\<lparr>jb_packets := [], jb_last_released :=
        (if jb_packets b = [] then jb_last_released b else Some (fst (last (jb_packets b))))\<rparr>)"
  using assms
proof (induction "jb_packets b" arbitrary: b)
  case Nil
  then show ?case by (subst jb_drain.simps) (simp add: bt_first_def)
next
  case (Cons kp m)
  obtain k p where kp: "kp = (k, p)" by fastforce
  then have b: "jb_packets b = (k, p) # m" using Cons.hyps(2) by simp
  have rem: "bt_remove k (jb_packets b) = m"
    using Cons.prems b bt_remove_head by simp
  have "bt_ok m" using Cons.prems b by (simp add: bt_ok_def)
  then have "jb_drain (b\<lparr>jb_packets := m, jb_last_released := Some k\<rparr>) = (map snd m,
      b\<lparr>jb_packets := [], jb_last_released := (if m = [] then Some k else Some (fst (last m)))\<rparr>)"
    using Cons.hyps(1) [of "b\<lparr>jb_packets := m, jb_last_released := Some k\<rparr>"] by simp
  with b rem show ?case
    by (subst jb_drain.simps) (simp add: bt_first_def Let_def)
qed


lemma order_ok_drain:
  assumes "order_ok b"
  shows "order_ok (snd (jb_drain b))"
proof -
  have "fst (last (jb_packets b)) \<in> dom (map_of (jb_packets b))" if "jb_packets b \<noteq> []"
    using that by (metis dom_map_of_conv_image_fst imageI last_in_set)
  moreover have "bt_ok ([] :: (nat \<times> packet) list)" by (simp add: bt_ok_def)
  moreover have "ext_highest (snd (jb_drain b)) = ext_highest b"
    using assms by (intro ext_highest_cong) (simp_all add: jb_drain_eq order_ok_def)
  ultimately show ?thesis
    using assms unfolding order_ok_def by (auto simp: jb_drain_eq split: option.splits)
qed

lemma jb_push_frame:
  assumes "jb_push b p = (kept, b')"
  shows "jb_depth b' = jb_depth b" "jb_policy b' = jb_policy b" "jb_clean_run b' = jb_clean_run b"
    "jb_jitter b' = jb_jitter b" "jb_interval b' = jb_interval b" "jb_lost b' = jb_lost b"
    "jb_last_released b' = jb_last_released b" "jb_received b' = jb_received b + 1"
    "length (jb_packets b') + jb_late b' + jb_duplicates b' =
       length (jb_packets b) + jb_late b + jb_duplicates b + 1"
proof -
  obtain n c where c: "jb_extend (b\<lparr>jb_received := jb_received b + 1\<rparr>) (pkt_sequence p) = (n, c)"
    by fastforce
  note f = jb_extend_frame [OF c]
  have "length (bt_insert n p m) = length m + 1" if "map_of m n = None" for m
    using that by (induction n p m rule: bt_insert.induct) (auto split: if_splits)
  then show "jb_depth b' = jb_depth b" "jb_policy b' = jb_policy b" "jb_clean_run b' = jb_clean_run b"
    "jb_jitter b' = jb_jitter b" "jb_interval b' = jb_interval b" "jb_lost b' = jb_lost b"
    "jb_last_released b' = jb_last_released b" "jb_received b' = jb_received b + 1"
    "length (jb_packets b') + jb_late b' + jb_duplicates b' =
       length (jb_packets b) + jb_late b + jb_duplicates b + 1"
    using assms c f by (auto simp: jb_push_def Let_def split: if_splits)
qed

subsection \<open>Depth and estimates\<close>

lemma jb_wanted_bounds:
  assumes "jb_wanted b = Some w" "jb_policy b = Adaptive mn mx" "mn \<le> mx"
  shows "mn \<le> w \<and> w \<le> mx"
  using assms by (auto simp: jb_wanted_def Let_def find_Some_iff simp del: upt_Suc
      split: option.splits)

lemma depth_ok_resize: "depth_ok b \<Longrightarrow> depth_ok (jb_resize b)"
proof (cases "jb_policy b")
  case Fixed
  then show "depth_ok b \<Longrightarrow> ?thesis" by (simp add: jb_resize_def jb_wanted_def)
next
  case (Adaptive mn mx)
  assume ok: "depth_ok b"
  then have mn: "1 \<le> mn" "mn \<le> jb_depth b" "jb_depth b \<le> mx" "jb_clean_run b < SHRINK_AFTER"
    using Adaptive by (simp_all add: depth_ok_def)
  show ?thesis
  proof (cases "jb_wanted b")
    case None
    with ok show ?thesis by (simp add: jb_resize_def)
  next
    case (Some w)
    then have "mn \<le> w" "w \<le> mx"
      using jb_wanted_bounds [OF Some Adaptive] mn by simp_all
    with mn Some Adaptive show ?thesis
      by (auto simp: jb_resize_def depth_ok_def Let_def SHRINK_AFTER_def)
  qed
qed

lemma depth_ok_deepen: "depth_ok b \<Longrightarrow> depth_ok (jb_deepen b)"
  by (auto simp: depth_ok_def jb_deepen_def SHRINK_AFTER_def split: policy.splits)

lemma interval_smoothing:
  assumes "unat (i :: u32) < 48000" "unat (d :: u32) < 48000"
  shows "unat ((i * 7 + d) div 8) = (unat i * 7 + unat d) div 8" "unat ((i * 7 + d) div 8) < 48000"
proof -
  have "unat (i * 7 + d) = unat i * 7 + unat d"
    using assms by (simp add: unat_word_ariths)
  then show "unat ((i * 7 + d) div 8) = (unat i * 7 + unat d) div 8"
    by (simp add: unat_div)
  with assms show "unat ((i * 7 + d) div 8) < 48000" by linarith
qed

lemma estimate_ok_observe:
  assumes "estimate_ok b"
  shows "estimate_ok (jb_observe b ts arrival)"
proof -
  have "0 \<le> smooth16 (jb_jitter b) (f64_from (unsigned_abs w)) \<and>
      smooth16 (jb_jitter b) (f64_from (unsigned_abs w)) \<le> 2 powi 31" for w
    using assms smooth16_unsigned_abs by (simp add: estimate_ok_def)
  with assms interval_smoothing(2) show ?thesis
    by (auto simp: estimate_ok_def jb_observe_def Let_def word_less_nat_alt split: option.splits)
qed

lemma observe_frame:
  "jb_depth (jb_observe b ts a) = jb_depth b" "jb_policy (jb_observe b ts a) = jb_policy b"
  "jb_clean_run (jb_observe b ts a) = jb_clean_run b" "jb_packets (jb_observe b ts a) = jb_packets b"
  "jb_last_released (jb_observe b ts a) = jb_last_released b"
  "jb_highest (jb_observe b ts a) = jb_highest b" "jb_cycles (jb_observe b ts a) = jb_cycles b"
  "jb_received (jb_observe b ts a) = jb_received b" "jb_lost (jb_observe b ts a) = jb_lost b"
  "jb_late (jb_observe b ts a) = jb_late b" "jb_duplicates (jb_observe b ts a) = jb_duplicates b"
  by (simp_all add: jb_observe_def Let_def)


lemma resize_frame:
  "jb_packets (jb_resize b) = jb_packets b" "jb_last_released (jb_resize b) = jb_last_released b"
  "jb_highest (jb_resize b) = jb_highest b" "jb_cycles (jb_resize b) = jb_cycles b"
  "jb_jitter (jb_resize b) = jb_jitter b" "jb_interval (jb_resize b) = jb_interval b"
  "jb_received (jb_resize b) = jb_received b" "jb_lost (jb_resize b) = jb_lost b"
  "jb_late (jb_resize b) = jb_late b" "jb_duplicates (jb_resize b) = jb_duplicates b"
  "jb_policy (jb_resize b) = jb_policy b"
  by (simp_all add: jb_resize_def Let_def split: option.splits)

lemma deepen_frame:
  "jb_packets (jb_deepen b) = jb_packets b" "jb_last_released (jb_deepen b) = jb_last_released b"
  "jb_highest (jb_deepen b) = jb_highest b" "jb_cycles (jb_deepen b) = jb_cycles b"
  "jb_jitter (jb_deepen b) = jb_jitter b" "jb_interval (jb_deepen b) = jb_interval b"
  "jb_received (jb_deepen b) = jb_received b" "jb_lost (jb_deepen b) = jb_lost b"
  "jb_late (jb_deepen b) = jb_late b" "jb_duplicates (jb_deepen b) = jb_duplicates b"
  "jb_policy (jb_deepen b) = jb_policy b"
  by (simp_all add: jb_deepen_def split: policy.splits)

lemmas frames = observe_frame resize_frame deepen_frame

lemma jb_push_at_eq:
  "\<exists>c. jb_push (jb_observe b (pkt_timestamp p) t) p = (fst (jb_push_at b p t), c) \<and>
     (snd (jb_push_at b p t) = jb_deepen c \<or> snd (jb_push_at b p t) = jb_resize c)"
  by (auto simp: jb_push_at_def Let_def split: prod.splits)

lemma jb_ok_push: "jb_ok b \<Longrightarrow> jb_ok (snd (jb_push b p))"
  using order_ok_push [of b p "fst (jb_push b p)" "snd (jb_push b p)"]
    jb_push_frame [of b p "fst (jb_push b p)" "snd (jb_push b p)"]
  by (simp add: jb_ok_def depth_ok_def estimate_ok_def cong: option.case_cong policy.case_cong)

lemma jb_ok_push_at:
  assumes "jb_ok b"
  shows "jb_ok (snd (jb_push_at b p t))"
proof -
  let ?o = "jb_observe b (pkt_timestamp p) t"
  obtain c where c: "jb_push ?o p = (fst (jb_push_at b p t), c)"
    "snd (jb_push_at b p t) = jb_deepen c \<or> snd (jb_push_at b p t) = jb_resize c"
    using jb_push_at_eq by blast
  have "order_ok ?o = order_ok b"
    by (rule order_ok_cong) (simp_all add: frames)
  moreover have "depth_ok ?o = depth_ok b"
    by (simp add: depth_ok_def frames cong: policy.case_cong)
  ultimately have "jb_ok ?o"
    using assms estimate_ok_observe by (simp add: jb_ok_def)
  from jb_ok_push [OF this, of p] c(1) have "jb_ok c" by simp
  moreover have "order_ok (jb_deepen c) = order_ok c" "order_ok (jb_resize c) = order_ok c"
    by (rule order_ok_cong; simp add: frames)+
  moreover have "estimate_ok (jb_deepen c) = estimate_ok c" "estimate_ok (jb_resize c) = estimate_ok c"
    by (simp_all add: estimate_ok_def frames cong: option.case_cong)
  ultimately show ?thesis
    using c(2) depth_ok_resize depth_ok_deepen by (auto simp: jb_ok_def)
qed

lemma jb_ok_pop:
  assumes "jb_ok b"
  shows "jb_ok (snd (jb_pop b))"
proof -
  have o: "order_ok b" using assms by (simp add: jb_ok_def)
  then have "jb_depth (snd (jb_pop b)) = jb_depth b \<and> jb_policy (snd (jb_pop b)) = jb_policy b \<and>
      jb_clean_run (snd (jb_pop b)) = jb_clean_run b \<and> jb_jitter (snd (jb_pop b)) = jb_jitter b \<and>
      jb_interval (snd (jb_pop b)) = jb_interval b"
    by (cases rule: jb_pop_cases) simp_all
  then show ?thesis
    using assms order_ok_pop [OF o, of "fst (jb_pop b)" "snd (jb_pop b)"]
    by (simp add: jb_ok_def depth_ok_def estimate_ok_def cong: option.case_cong policy.case_cong)
qed

lemma jb_ok_drain: "jb_ok b \<Longrightarrow> jb_ok (snd (jb_drain b))"
  using order_ok_drain [of b]
  by (simp add: jb_ok_def depth_ok_def estimate_ok_def jb_drain_eq order_ok_def
      cong: option.case_cong policy.case_cong)

lemma jb_ok_step: "jb_ok b \<Longrightarrow> jb_ok (snd (jb_step b e))"
proof (cases e)
  case Pop
  assume "jb_ok b"
  with Pop jb_ok_pop [of b] show ?thesis by (auto split: prod.splits option.splits)
qed (simp_all add: jb_ok_push jb_ok_push_at jb_ok_drain)

lemma jb_run_Cons:
  "jb_run b (e # es) = (fst (jb_step b e) @ fst (jb_run (snd (jb_step b e)) es),
     snd (jb_run (snd (jb_step b e)) es))"
  by (simp add: Let_def split: prod.splits)

declare jb_run.simps(2) [simp del]
declare jb_run_Cons [simp]

lemma jb_ok_run: "jb_ok b \<Longrightarrow> jb_ok (snd (jb_run b es))"
  by (induction es arbitrary: b) (auto dest: jb_ok_step)

lemma jb_ok_new: "jb_ok (jb_new d)" "jb_ok (jb_adaptive lo hi)"
  by (simp_all add: jb_ok_def order_ok_def depth_ok_def estimate_ok_def jb_new_def jb_adaptive_def
      bt_ok_def SHRINK_AFTER_def Let_def le_max_iff_disj)


section \<open>Order of release\<close>

text \<open>The extended numbers under which a step releases its packets.\<close>

fun released :: "jitter_buffer \<Rightarrow> jb_event \<Rightarrow> (nat \<times> packet) list" where
  "released b Pop = (case jb_pop b of (Some p, b') \<Rightarrow> [(the (jb_last_released b'), p)] | _ \<Rightarrow> [])"
| "released b Drain = jb_packets b"
| "released b _ = []"

fun released_run :: "jitter_buffer \<Rightarrow> jb_event list \<Rightarrow> (nat \<times> packet) list" where
  "released_run b [] = []"
| "released_run b (e # es) = released b e @ released_run (snd (jb_step b e)) es"

abbreviation above :: "nat option \<Rightarrow> nat \<Rightarrow> bool" where
  "above l k \<equiv> (case l of None \<Rightarrow> True | Some j \<Rightarrow> j < k)"

lemma released_facts:
  assumes "order_ok b"
  shows "map snd (released b e) = fst (jb_step b e)"
    and "sorted_wrt (<) (map fst (released b e))"
    and "\<forall>k \<in> fst ` set (released b e). above (jb_last_released b) k"
    and "jb_last_released (snd (jb_step b e)) =
      (if released b e = [] then jb_last_released b else Some (fst (last (released b e))))"
    and "set (released b e) \<subseteq> set (jb_packets b)"
proof -
  have ok: "bt_ok (jb_packets b)" using assms by (simp add: order_ok_def)
  have drain: "sorted_wrt (<) (map fst (jb_packets b))" "\<forall>k \<in> fst ` set (jb_packets b). above (jb_last_released b) k"
    using assms by (auto simp: order_ok_def bt_ok_def dom_map_of_conv_image_fst)
  have push: "jb_last_released (snd (jb_push c p)) = jb_last_released c" for c p
    using jb_push_frame(7) [of c p "fst (jb_push c p)" "snd (jb_push c p)"] by simp
  have push_at: "jb_last_released (snd (jb_push_at b p t)) = jb_last_released b" for p t
    using jb_push_at_eq [of b p t] push [of "jb_observe b (pkt_timestamp p) t" p] by (auto simp: frames)
  have pop: "map snd (released b Pop) = fst (jb_step b Pop) \<and> sorted_wrt (<) (map fst (released b Pop)) \<and>
    (\<forall>k \<in> fst ` set (released b Pop). above (jb_last_released b) k) \<and>
    jb_last_released (snd (jb_step b Pop)) =
      (if released b Pop = [] then jb_last_released b else Some (fst (last (released b Pop)))) \<and>
    set (released b Pop) \<subseteq> set (jb_packets b)"
    using assms
  proof (cases rule: jb_pop_cases)
    case waiting
    then show ?thesis by simp
  next
    case (release k p)
    with order_ok_release(3) [OF assms release(2)] map_of_SomeD [OF release(3)] show ?thesis
      by (auto cong: option.case_cong)
  qed
  show "map snd (released b e) = fst (jb_step b e)" "sorted_wrt (<) (map fst (released b e))"
    "\<forall>k \<in> fst ` set (released b e). above (jb_last_released b) k"
    "jb_last_released (snd (jb_step b e)) =
      (if released b e = [] then jb_last_released b else Some (fst (last (released b e))))"
    "set (released b e) \<subseteq> set (jb_packets b)"
    using pop drain ok push push_at by (cases e; simp add: jb_drain_eq)+
qed

lemma sorted_keys_le_last:
  assumes "xs \<noteq> []" "sorted_wrt (<) (map fst xs)" "k \<in> fst ` set xs"
  shows "k \<le> (fst (last xs) :: nat)"
  using assms by (cases xs rule: rev_cases) (auto simp: sorted_wrt_append)

lemma released_run_outputs:
  "jb_ok b \<Longrightarrow> map snd (released_run b es) = fst (jb_run b es)"
proof (induction es arbitrary: b)
  case (Cons e es)
  then show ?case
    using released_facts(1) [of b e] jb_ok_step [of b e] by (simp add: jb_ok_def)
qed simp

lemma released_run_sorted:
  "jb_ok b \<Longrightarrow> sorted_wrt (<) (map fst (released_run b es)) \<and>
    (\<forall>k \<in> fst ` set (released_run b es). above (jb_last_released b) k)"
proof (induction es arbitrary: b)
  case (Cons e es)
  have ok: "order_ok b" using Cons.prems by (simp add: jb_ok_def)
  note f = released_facts [OF ok, of e]
  let ?b = "snd (jb_step b e)"
  have IH: "sorted_wrt (<) (map fst (released_run ?b es))"
    "\<forall>k \<in> fst ` set (released_run ?b es). above (jb_last_released ?b) k"
    using Cons.IH [OF jb_ok_step [OF Cons.prems]] by blast+
  show ?case
  proof (cases "released b e = []")
    case True
    with IH f(4) show ?thesis by simp
  next
    case False
    define m where "m = fst (last (released b e))"
    have m: "m \<in> fst ` set (released b e)" using False by (simp add: m_def)
    have le: "k \<le> m" if "k \<in> fst ` set (released b e)" for k
      using False f(2) that unfolding m_def by (rule sorted_keys_le_last)
    have IH2: "\<forall>k \<in> fst ` set (released_run ?b es). m < k"
      using IH(2) f(4) False by (simp add: m_def)
    have "above (jb_last_released b) m" using f(3) m by blast
    then have "\<forall>k \<in> fst ` set (released_run ?b es). above (jb_last_released b) k"
      using IH2 by (cases "jb_last_released b") (simp, fastforce)
    moreover have "\<forall>i \<in> fst ` set (released b e). \<forall>j \<in> fst ` set (released_run ?b es). i < j"
      using le IH2 by (meson le_less_trans)
    ultimately show ?thesis
      using IH(1) f(2,3) by (simp add: sorted_wrt_append image_Un ball_Un)
  qed
qed simp


section \<open>Arrivals within the window\<close>

text \<open>
  The sender numbers its packets \<open>0, 1, 2, \<dots>\<close> without wrapping; the wire carries each number
  modulo 65536. \<open>windowed num hi es\<close> says that the arrivals in \<open>es\<close> carry the cuts of their true
  numbers \<open>num\<close> and that each arrives within half the number space of the highest true number seen
  so far (\<open>hi\<close>).
\<close>

fun arriving :: "jb_event \<Rightarrow> packet option" where
  "arriving (Push p) = Some p"
| "arriving (PushAt p _) = Some p"
| "arriving _ = None"

definition raise_to :: "nat option \<Rightarrow> nat \<Rightarrow> nat" where
  "raise_to hi n = (case hi of None \<Rightarrow> n | Some m \<Rightarrow> max m n)"

fun windowed :: "(packet \<Rightarrow> nat) \<Rightarrow> nat option \<Rightarrow> jb_event list \<Rightarrow> bool" where
  "windowed num hi [] = True"
| "windowed num hi (e # es) = (case arriving e of
     None \<Rightarrow> windowed num hi es
   | Some p \<Rightarrow> pkt_sequence p = of_nat (num p)
       \<and> (case hi of None \<Rightarrow> True | Some m \<Rightarrow> m \<le> num p + 32768 \<and> num p < m + 32768)
       \<and> windowed num (Some (raise_to hi (num p))) es)"

text \<open>The buffer's numbers are the true ones, shifted by a constant number of cycles.\<close>

definition tracks :: "(packet \<Rightarrow> nat) \<Rightarrow> nat \<Rightarrow> nat \<Rightarrow> jitter_buffer \<Rightarrow> bool" where
  "tracks num z m b \<longleftrightarrow> jb_highest b \<noteq> None \<and> m + 65536 = ext_highest b + 65536 * z
     \<and> (\<forall>(k, p) \<in> set (jb_packets b). num p + 65536 = k + 65536 * z)"

lemma set_bt_insert: "set (bt_insert k v m) \<subseteq> insert (k, v) (set m)"
  by (induction k v m rule: bt_insert.induct) auto

lemma cycle_zero: "(65536 :: u16) = 0"
  by simp

lemma tracks_push:
  assumes t: "tracks num z m b" and c: "0 < jb_cycles b"
    and p: "pkt_sequence p = of_nat (num p)" "m \<le> num p + 32768" "num p < m + 32768"
    and push: "jb_push b p = (kept, b')"
  shows "tracks num z (max m (num p)) b'"
proof -
  let ?b = "b\<lparr>jb_received := jb_received b + 1\<rparr>"
  obtain h where h: "jb_highest ?b = Some h" using t by (auto simp: tracks_def)
  have eb: "ext_highest ?b = ext_highest b" by (rule ext_highest_cong) simp_all
  have e: "m + 65536 = ext_highest b + 65536 * z" "65536 \<le> ext_highest b"
    using t c h by (auto simp: tracks_def ext_highest_def)
  define n where "n = num p + 65536 - 65536 * z"
  have n: "n + 65536 * z = num p + 65536"
    using e p(2) by (simp add: n_def)
  have "(of_nat (n + 65536 * z) :: u16) = of_nat (num p + 65536)" using n by simp
  then have s: "pkt_sequence p = of_nat n"
    using p(1) cycle_zero by simp
  have x: "jb_extend ?b (pkt_sequence p) =
      (n, if ext_highest b < n then ?b\<lparr>jb_cycles := n div 65536, jb_highest := Some (of_nat n)\<rparr> else ?b)"
  proof -
    have "ext_highest ?b \<le> n + 32768" "n < ext_highest ?b + 32768"
      unfolding eb using e n p(2,3) by linarith+
    from jb_extend_exact [OF h _ this] c show ?thesis unfolding s eb by simp
  qed
  obtain d where d: "jb_extend ?b (pkt_sequence p) = (n, d)" "jb_packets d = jb_packets b"
      "ext_highest d = max (ext_highest b) n" "jb_highest d \<noteq> None"
    using x h eb by (cases "ext_highest b < n") (auto simp: ext_highest_raise)
  have "max m (num p) + 65536 = ext_highest d + 65536 * z"
    using d(3) e n by (simp add: max_def)
  moreover have hd: "jb_highest b' = jb_highest d" "jb_cycles b' = jb_cycles d"
    "set (jb_packets b') \<subseteq> insert (n, p) (set (jb_packets b))"
    using push d set_bt_insert [of n p "jb_packets b"]
    by (auto simp: jb_push_def Let_def split: if_splits)
  moreover have "ext_highest b' = ext_highest d" using hd(1,2) by (rule ext_highest_cong)
  ultimately show ?thesis
    using t n d(4) by (auto simp: tracks_def)
qed


lemma tracks_cong:
  assumes "jb_packets c = jb_packets b" "jb_highest c = jb_highest b" "jb_cycles c = jb_cycles b"
  shows "tracks num z m c = tracks num z m b"
  using assms ext_highest_cong [OF assms(2,3)] by (simp add: tracks_def)

lemma tracks_subset:
  assumes "tracks num z m b" "set (jb_packets c) \<subseteq> set (jb_packets b)"
    "jb_highest c = jb_highest b" "jb_cycles c = jb_cycles b"
  shows "tracks num z m c"
  using assms ext_highest_cong [OF assms(3,4)] by (auto simp: tracks_def)

lemma tracks_arrival:
  assumes "tracks num z m b" "jb_ok b" "arriving e = Some p"
    and "pkt_sequence p = of_nat (num p)" "m \<le> num p + 32768" "num p < m + 32768"
  shows "tracks num z (max m (num p)) (snd (jb_step b e))"
proof -
  have c: "0 < jb_cycles b"
    using assms(1,2) by (auto simp: tracks_def jb_ok_def order_ok_def)
  show ?thesis
  proof (cases e)
    case (Push q)
    with assms tracks_push [OF assms(1) c, of p "fst (jb_push b p)"] show ?thesis by simp
  next
    case (PushAt q t)
    let ?o = "jb_observe b (pkt_timestamp p) t"
    obtain d where d: "jb_push ?o p = (fst (jb_push_at b p t), d)"
      "snd (jb_push_at b p t) = jb_deepen d \<or> snd (jb_push_at b p t) = jb_resize d"
      using jb_push_at_eq by blast
    have "tracks num z m ?o" "0 < jb_cycles ?o"
      using assms(1) c tracks_cong [of ?o b] by (simp_all add: frames)
    then have "tracks num z (max m (num p)) d"
      using tracks_push d(1) assms(4-6) by blast
    then have "tracks num z (max m (num p)) (snd (jb_push_at b p t))"
      using d(2) tracks_cong [of "snd (jb_push_at b p t)" d] by (auto simp: frames)
    with PushAt assms(3) show ?thesis by simp
  qed (use assms(3) in simp_all)
qed

lemma tracks_release:
  assumes "tracks num z m b" "jb_ok b" "arriving e = None"
  shows "tracks num z m (snd (jb_step b e))"
proof (cases e)
  case Pop
  have "order_ok b" using assms(2) by (simp add: jb_ok_def)
  then have "tracks num z m (snd (jb_pop b))"
    by (cases rule: jb_pop_cases)
      (use assms(1) in \<open>auto intro!: tracks_subset [OF assms(1)] simp: bt_remove_def\<close>)
  with Pop show ?thesis by (auto split: prod.splits option.splits)
next
  case Drain
  with assms show ?thesis
    by (auto simp: jb_drain_eq jb_ok_def order_ok_def intro!: tracks_subset [OF assms(1)])
qed (use assms(3) in simp_all)

lemma tracks_released:
  assumes "tracks num z m b" "order_ok b" "(k, p) \<in> set (released b e)"
  shows "num p + 65536 = k + 65536 * z"
  using assms released_facts(5) [OF assms(2), of e] by (auto simp: tracks_def)

lemma tracks_run:
  "tracks num z m b \<Longrightarrow> jb_ok b \<Longrightarrow> windowed num (Some m) es \<Longrightarrow> (k, p) \<in> set (released_run b es) \<Longrightarrow>
    num p + 65536 = k + 65536 * z"
proof (induction es arbitrary: b m)
  case (Cons e es)
  have ok: "order_ok b" using Cons.prems(2) by (simp add: jb_ok_def)
  show ?case
  proof (cases "(k, p) \<in> set (released b e)")
    case True
    show ?thesis by (rule tracks_released [OF Cons.prems(1) ok True])
  next
    case False
    then have later: "(k, p) \<in> set (released_run (snd (jb_step b e)) es)" using Cons.prems(4) by simp
    show ?thesis
    proof (cases "arriving e")
      case None
      then show ?thesis
        using Cons.IH [OF tracks_release [OF Cons.prems(1,2) None] jb_ok_step [OF Cons.prems(2)] _ later]
          Cons.prems(3) by simp
    next
      case (Some q)
      then show ?thesis
        using Cons.IH [OF tracks_arrival [OF Cons.prems(1,2) Some] jb_ok_step [OF Cons.prems(2)] _ later]
          Cons.prems(3) by (simp add: raise_to_def)
    qed
  qed
qed simp

lemma tracks_first_push:
  assumes "order_ok b" "jb_highest b = None" "pkt_sequence p = of_nat (num p)"
    "jb_push b p = (kept, b')"
  shows "tracks num (num p div 65536) (num p) b'"
proof -
  have e: "jb_packets b = []" "jb_last_released b = None"
    using assms(1,2) by (simp_all add: order_ok_def)
  have "b' = b\<lparr>jb_received := jb_received b + 1, jb_highest := Some (pkt_sequence p), jb_cycles := 1,
      jb_packets := [(65536 + unat (pkt_sequence p), p)]\<rparr>"
    using assms(2,4) e by (auto simp: jb_push_def jb_extend_def)
  moreover have "num p + 65536 = 65536 + num p mod 65536 + 65536 * (num p div 65536)"
    by simp
  ultimately show ?thesis
    using assms(3) by (simp add: tracks_def ext_highest_def unat_of_nat)
qed

lemma tracks_first_arrival:
  assumes "jb_ok b" "jb_highest b = None" "arriving e = Some p" "pkt_sequence p = of_nat (num p)"
  shows "tracks num (num p div 65536) (num p) (snd (jb_step b e))"
proof (cases e)
  case (Push q)
  with assms tracks_first_push [of b p num "fst (jb_push b p)"] show ?thesis
    by (simp add: jb_ok_def)
next
  case (PushAt q t)
  let ?o = "jb_observe b (pkt_timestamp p) t"
  obtain d where d: "jb_push ?o p = (fst (jb_push_at b p t), d)"
    "snd (jb_push_at b p t) = jb_deepen d \<or> snd (jb_push_at b p t) = jb_resize d"
    using jb_push_at_eq by blast
  have "order_ok ?o"
    using assms(1) order_ok_cong [of ?o b] by (simp add: frames jb_ok_def)
  then have "tracks num (num p div 65536) (num p) d"
    using tracks_first_push d(1) assms(2,4) by (simp add: frames)
  then have "tracks num (num p div 65536) (num p) (snd (jb_push_at b p t))"
    using d(2) tracks_cong [of "snd (jb_push_at b p t)" d] by (auto simp: frames)
  with PushAt assms(3) show ?thesis by simp
qed (use assms(3) in simp_all)

lemma fresh_release:
  assumes "jb_ok b" "jb_highest b = None" "arriving e = None"
  shows "released b e = [] \<and> snd (jb_step b e) = b"
proof -
  have "jb_packets b = []" "0 < jb_depth b" "jb_last_released b = None"
    using assms(1,2) by (auto simp: jb_ok_def order_ok_def depth_ok_def)
  with assms(3) show ?thesis
    by (cases e) (auto simp: jb_pop_def jb_drain.simps bt_first_def)
qed

lemma fresh_run:
  "jb_ok b \<Longrightarrow> jb_highest b = None \<Longrightarrow> windowed num None es \<Longrightarrow>
    \<exists>z. \<forall>(k, p) \<in> set (released_run b es). num p + 65536 = k + 65536 * z"
proof (induction es)
  case (Cons e es)
  show ?case
  proof (cases "arriving e")
    case None
    with Cons fresh_release [OF Cons.prems(1,2) None] show ?thesis by simp
  next
    case (Some p)
    then have w: "pkt_sequence p = of_nat (num p)" "windowed num (Some (num p)) es"
      using Cons.prems(3) by (simp_all add: raise_to_def)
    have "released b e = []" using Some by (cases e) simp_all
    moreover note tracks_run [OF tracks_first_arrival [where num = num, OF Cons.prems(1,2) Some w(1)]
        jb_ok_step [OF Cons.prems(1)] w(2)]
    ultimately show ?thesis by fastforce
  qed
qed simp

section \<open>Counters\<close>

lemma jb_pop_counts:
  assumes "order_ok b"
  shows "jb_received (snd (jb_pop b)) = jb_received b" "jb_late (snd (jb_pop b)) = jb_late b"
    "jb_duplicates (snd (jb_pop b)) = jb_duplicates b" "jb_policy (snd (jb_pop b)) = jb_policy b"
    "length (jb_packets (snd (jb_pop b))) + length (fst (jb_step b Pop)) = length (jb_packets b)"
proof -
  have "jb_received (snd (jb_pop b)) = jb_received b \<and> jb_late (snd (jb_pop b)) = jb_late b \<and>
    jb_duplicates (snd (jb_pop b)) = jb_duplicates b \<and> jb_policy (snd (jb_pop b)) = jb_policy b \<and>
    length (jb_packets (snd (jb_pop b))) + length (fst (jb_step b Pop)) = length (jb_packets b)"
    using assms
  proof (cases rule: jb_pop_cases)
    case (release k p)
    have "bt_ok (jb_packets b)" using assms by (simp add: order_ok_def)
    from btree.size_remove [OF this, of k] release(3)
    have "Suc (length (bt_remove k (jb_packets b))) = length (jb_packets b)" by auto
    with release(4) show ?thesis by simp
  qed simp
  then show "jb_received (snd (jb_pop b)) = jb_received b" "jb_late (snd (jb_pop b)) = jb_late b"
    "jb_duplicates (snd (jb_pop b)) = jb_duplicates b" "jb_policy (snd (jb_pop b)) = jb_policy b"
    "length (jb_packets (snd (jb_pop b))) + length (fst (jb_step b Pop)) = length (jb_packets b)"
    by simp_all
qed

lemma jb_step_counts:
  assumes "jb_ok b"
  shows "jb_received (snd (jb_step b e)) = jb_received b + (if arriving e = None then 0 else 1)"
    and "length (jb_packets (snd (jb_step b e))) + jb_late (snd (jb_step b e))
        + jb_duplicates (snd (jb_step b e)) + length (fst (jb_step b e)) =
      length (jb_packets b) + jb_late b + jb_duplicates b + (if arriving e = None then 0 else 1)"
    and "jb_policy (snd (jb_step b e)) = jb_policy b"
proof -
  have o: "order_ok b" and ok: "bt_ok (jb_packets b)"
    using assms by (simp_all add: jb_ok_def order_ok_def)
  note push = jb_push_frame [OF prod.collapse [symmetric]]
  have pop: "snd (jb_step b Pop) = snd (jb_pop b)" by (auto split: prod.splits option.splits)
  have push_at: "jb_received (snd (jb_push_at b p t)) = jb_received b + 1 \<and>
      length (jb_packets (snd (jb_push_at b p t))) + jb_late (snd (jb_push_at b p t))
        + jb_duplicates (snd (jb_push_at b p t)) =
      length (jb_packets b) + jb_late b + jb_duplicates b + 1 \<and>
      jb_policy (snd (jb_push_at b p t)) = jb_policy b" for p t
    using jb_push_at_eq [of b p t] push [of "jb_observe b (pkt_timestamp p) t" p] by (auto simp: frames)
  show "jb_received (snd (jb_step b e)) = jb_received b + (if arriving e = None then 0 else 1)"
    "length (jb_packets (snd (jb_step b e))) + jb_late (snd (jb_step b e))
        + jb_duplicates (snd (jb_step b e)) + length (fst (jb_step b e)) =
      length (jb_packets b) + jb_late b + jb_duplicates b + (if arriving e = None then 0 else 1)"
    "jb_policy (snd (jb_step b e)) = jb_policy b"
    using push [of b] push_at pop jb_pop_counts [OF o] ok
    by (cases e; simp add: jb_drain_eq del: jb_step.simps(3))+
qed

lemma jb_run_counts:
  "jb_ok b \<Longrightarrow>
    jb_received (snd (jb_run b es)) = jb_received b + length (List.map_filter arriving es) \<and>
    length (jb_packets (snd (jb_run b es))) + jb_late (snd (jb_run b es))
        + jb_duplicates (snd (jb_run b es)) + length (fst (jb_run b es)) =
      length (jb_packets b) + jb_late b + jb_duplicates b + length (List.map_filter arriving es) \<and>
    jb_policy (snd (jb_run b es)) = jb_policy b"
proof (induction es arbitrary: b)
  case Nil
  then show ?case by (simp add: List.map_filter_def)
next
  case (Cons e es)
  have "length (List.map_filter arriving (e # es)) =
      (if arriving e = None then 0 else 1) + length (List.map_filter arriving es)"
    by (auto simp: List.map_filter_def)
  with Cons.IH [OF jb_ok_step [OF Cons.prems, of e]] jb_step_counts [OF Cons.prems, of e] show ?case
    by simp
qed

text \<open>Losses are the gaps between consecutive releases.\<close>

lemma jb_step_lost:
  assumes "jb_ok b" "e \<noteq> Drain"
  shows "jb_lost (snd (jb_step b e)) = jb_lost b + (case released b e of [] \<Rightarrow> 0
    | (k, _) # _ \<Rightarrow> (case jb_last_released b of None \<Rightarrow> 0 | Some l \<Rightarrow> k - (l + 1)))"
    and "length (released b e) \<le> 1"
proof -
  have o: "order_ok b" using assms(1) by (simp add: jb_ok_def)
  note push = jb_push_frame(6) [OF prod.collapse [symmetric]]
  have push_at: "jb_lost (snd (jb_push_at b p t)) = jb_lost b" for p t
    using jb_push_at_eq [of b p t] push [of "jb_observe b (pkt_timestamp p) t" p] by (auto simp: frames)
  have pop: "jb_lost (snd (jb_step b Pop)) = jb_lost b + (case released b Pop of [] \<Rightarrow> 0
      | (k, _) # _ \<Rightarrow> (case jb_last_released b of None \<Rightarrow> 0 | Some l \<Rightarrow> k - (l + 1))) \<and>
      length (released b Pop) \<le> 1"
    using o by (cases rule: jb_pop_cases) simp_all
  show "jb_lost (snd (jb_step b e)) = jb_lost b + (case released b e of [] \<Rightarrow> 0
    | (k, _) # _ \<Rightarrow> (case jb_last_released b of None \<Rightarrow> 0 | Some l \<Rightarrow> k - (l + 1)))"
    "length (released b e) \<le> 1"
    using push [of b] push_at pop assms(2) by (cases e; simp del: jb_step.simps(3) released.simps(1))+
qed

lemma run_lost_some:
  "jb_ok b \<Longrightarrow> Drain \<notin> set es \<Longrightarrow> jb_last_released b = Some l \<Longrightarrow>
    jb_lost (snd (jb_run b es)) + length (released_run b es) + l =
      jb_lost b + last (l # map fst (released_run b es))"
proof (induction es arbitrary: b l)
  case (Cons e es)
  have o: "order_ok b" and ne: "e \<noteq> Drain" using Cons.prems by (auto simp: jb_ok_def)
  note step = jb_step_lost [OF Cons.prems(1) ne] released_facts [OF o, of e]
  note IH = Cons.IH [OF jb_ok_step [OF Cons.prems(1), of e]]
  show ?case
  proof (cases "released b e")
    case Nil
    with Cons.prems IH [of l] step(1,6) show ?thesis by simp
  next
    case (Cons kp rest)
    obtain k p where r: "released b e = [(k, p)]" "l < k"
      using Cons step(2,5) Cons.prems(3) by (cases kp; cases rest) auto
    with Cons.prems IH [of k] step(1,6) show ?thesis by (cases "released_run (snd (jb_step b e)) es") simp_all
  qed
qed simp

lemma run_lost_none:
  "jb_ok b \<Longrightarrow> Drain \<notin> set es \<Longrightarrow> jb_last_released b = None \<Longrightarrow> released_run b es \<noteq> [] \<Longrightarrow>
    jb_lost (snd (jb_run b es)) + length (released_run b es) + fst (hd (released_run b es)) =
      jb_lost b + fst (last (released_run b es)) + 1"
proof (induction es arbitrary: b)
  case (Cons e es)
  have o: "order_ok b" and ne: "e \<noteq> Drain" using Cons.prems by (auto simp: jb_ok_def)
  note step = jb_step_lost [OF Cons.prems(1) ne] released_facts [OF o, of e]
  show ?case
  proof (cases "released b e")
    case Nil
    with Cons.prems Cons.IH [OF jb_ok_step [OF Cons.prems(1), of e]] step(1,6) show ?thesis by simp
  next
    case (Cons kp rest)
    obtain k p where r: "released b e = [(k, p)]"
      using Cons step(2) by (cases kp; cases rest) auto
    with step(1,6) Cons.prems
      run_lost_some [OF jb_ok_step [OF Cons.prems(1), of e], of es k]
    show ?thesis
      by (cases "released_run (snd (jb_step b e)) es = []") (auto simp: last_map)
  qed
qed simp

lemma sorted_shift:
  "sorted_wrt (<) (map fst xs) \<Longrightarrow> \<forall>(k, p) \<in> set xs. num p + c = k + d \<Longrightarrow>
    sorted_wrt (<) (map num (map snd xs))"
  for xs :: "(nat \<times> packet) list"
  by (induction xs) fastforce+

lemmas jb_eval = new_packet_def jb_new_def jb_push_def jb_extend_def jb_pop_def bt_first_def
  bt_remove_def sequence_is_newer_def Let_def

section \<open>Properties\<close>

text \<open>
  C40: Packets are released in the sender's order. Take any interleaving of arrivals, releases and
  drains on a fresh buffer of any depth policy, in which every arriving packet carries the low 16
  bits of its true number \<open>num\<close> and arrives within half the number space of the highest true number
  seen so far. Then the packets handed out have strictly increasing true numbers, across any number
  of wraps of the 16-bit counter: nothing is played out of order and nothing is played twice.
\<close>

theorem jitter_release_order:
  assumes "windowed num None es" and "b = jb_new d \<or> b = jb_adaptive lo hi"
  shows "sorted_wrt (<) (map num (fst (jb_run b es)))"
proof -
  have b: "jb_ok b" "jb_highest b = None"
    using assms(2) jb_ok_new by (auto simp: jb_new_def jb_adaptive_def Let_def)
  obtain z where z: "\<forall>(k, p) \<in> set (released_run b es). num p + 65536 = k + 65536 * z"
    using fresh_run [OF b assms(1)] by blast
  have "sorted_wrt (<) (map num (map snd (released_run b es)))"
    using sorted_shift [of "released_run b es"] released_run_sorted [OF b(1), of es] z by simp
  then show ?thesis by (simp add: released_run_outputs [OF b(1)])
qed

theorem jitter_release_order_witness:
  defines "p \<equiv> (\<lambda>s. new_packet 0 s 0 0 [])"
  shows "sorted_wrt (<) (map (\<lambda>q. if pkt_sequence q = 1 then 65537 else unat (pkt_sequence q))
    (fst (jb_run (jb_new 2) [Push (p 65535), Push (p 1), Push (p 65534), Pop, Pop])))
    \<and> map pkt_sequence (fst (jb_run (jb_new 2) [Push (p 65535), Push (p 1), Push (p 65534), Pop, Pop]))
      = [65534, 65535]"
proof
  have "windowed (\<lambda>q. if pkt_sequence q = 1 then 65537 else unat (pkt_sequence q)) None
      [Push (p 65535), Push (p 1), Push (p 65534), Pop, Pop]"
    by (simp add: p_def new_packet_def raise_to_def)
  from jitter_release_order [OF this, of "jb_new 2" 2]
  show "sorted_wrt (<) (map (\<lambda>q. if pkt_sequence q = 1 then 65537 else unat (pkt_sequence q))
    (fst (jb_run (jb_new 2) [Push (p 65535), Push (p 1), Push (p 65534), Pop, Pop])))" by simp
  show "map pkt_sequence (fst (jb_run (jb_new 2) [Push (p 65535), Push (p 1), Push (p 65534), Pop, Pop]))
      = [65534, 65535]"
    by (simp add: p_def jb_eval)
qed

text \<open>
  Every packet is accounted for. After any sequence of operations on a fresh buffer, the number
  of arrivals is exactly the number held plus the number handed out plus those counted late plus
  those counted as duplicates.
\<close>

theorem jitter_conservation:
  assumes "b = jb_new d \<or> b = jb_adaptive lo hi"
  shows "jb_received (snd (jb_run b es)) = length (List.map_filter arriving es)
    \<and> length (jb_packets (snd (jb_run b es))) + length (fst (jb_run b es))
      + jb_late (snd (jb_run b es)) + jb_duplicates (snd (jb_run b es)) = jb_received (snd (jb_run b es))"
proof -
  have "jb_ok b" and fresh: "jb_received b = 0" "jb_packets b = []" "jb_late b = 0" "jb_duplicates b = 0"
    using assms jb_ok_new by (auto simp: jb_new_def jb_adaptive_def Let_def)
  from jb_run_counts [OF this(1), of es] fresh show ?thesis by simp
qed

theorem jitter_conservation_witness:
  "jb_received (snd (jb_run (jb_adaptive 1 3) [Push (new_packet 0 5 0 0 []), Push (new_packet 0 5 0 0 []), Pop])) = 2"
  using jitter_conservation [of "jb_adaptive 1 3" 1 1 3
      "[Push (new_packet 0 5 0 0 []), Push (new_packet 0 5 0 0 []), Pop]"]
  by (simp add: List.map_filter_def)

text \<open>
  Loss is counted exactly. On a fresh buffer and arrivals within the window, with packets taken
  by \<open>pop\<close> only, the loss counter plus the number of packets handed out is the length of the range of
  true numbers from the first to the last packet handed out: the counter is the number of packets of
  that range that were never played.
\<close>

theorem jitter_loss_exact:
  assumes "windowed num None es" and "b = jb_new d \<or> b = jb_adaptive lo hi"
    and "Drain \<notin> set es" and "fst (jb_run b es) \<noteq> []"
  shows "jb_lost (snd (jb_run b es)) + length (fst (jb_run b es)) + num (hd (fst (jb_run b es)))
    = num (last (fst (jb_run b es))) + 1"
proof -
  have b: "jb_ok b" "jb_highest b = None" "jb_last_released b = None" "jb_lost b = 0"
    using assms(2) jb_ok_new by (auto simp: jb_new_def jb_adaptive_def Let_def)
  obtain z where z: "\<forall>(k, p) \<in> set (released_run b es). num p + 65536 = k + 65536 * z"
    using fresh_run [OF b(1,2) assms(1)] by blast
  let ?r = "released_run b es"
  have out: "fst (jb_run b es) = map snd ?r" by (simp add: released_run_outputs [OF b(1)])
  with assms(4) have ne: "?r \<noteq> []" by auto
  have "num (snd (hd ?r)) + 65536 = fst (hd ?r) + 65536 * z"
    "num (snd (last ?r)) + 65536 = fst (last ?r) + 65536 * z"
    using z ne by (auto simp: case_prod_beta)
  moreover have "jb_lost (snd (jb_run b es)) + length ?r + fst (hd ?r) = fst (last ?r) + 1"
    using run_lost_none [OF b(1) assms(3) b(3) ne] b(4) by simp
  ultimately show ?thesis
    unfolding out using ne by (simp add: hd_map last_map)
qed

theorem jitter_loss_exact_witness:
  defines "p \<equiv> (\<lambda>s. new_packet 0 s 0 0 [])"
  shows "jb_lost (snd (jb_run (jb_new 1) [Push (p 5), Pop, Push (p 9), Pop])) = 3"
proof -
  define es where "es = [Push (p 5), Pop, Push (p 9), Pop]"
  have w: "windowed (\<lambda>q. unat (pkt_sequence q)) None es" and nd: "Drain \<notin> set es"
    by (simp_all add: es_def p_def new_packet_def raise_to_def)
  have out: "fst (jb_run (jb_new 1) es) = [p 5, p 9]"
    by (simp add: es_def p_def jb_eval)
  from jitter_loss_exact [OF w, of "jb_new 1" 1 1 1] nd out
  have "jb_lost (snd (jb_run (jb_new 1) es)) = 3" by (simp add: p_def new_packet_def)
  then show ?thesis by (simp only: es_def)
qed

text \<open>
  A step adds at most one wrap, so \<open>n\<close> operations keep every extended number below
  \<open>(n + 2) * 65536\<close>: the 64-bit counters of the code cannot overflow in any real call, and a
  buffer of fixed policy never changes its depth.
\<close>

lemma jb_push_cycles: "jb_cycles (snd (jb_push b p)) \<le> jb_cycles b + 1"
  by (auto simp: jb_push_def jb_extend_def Let_def split: option.splits if_splits)

lemma jb_step_cycles:
  assumes "jb_ok b"
  shows "jb_cycles (snd (jb_step b e)) \<le> jb_cycles b + 1"
proof (cases e)
  case (PushAt p t)
  then show ?thesis
    using jb_push_at_eq [of b p t] jb_push_cycles [of "jb_observe b (pkt_timestamp p) t" p]
    by (auto simp: frames)
next
  case Pop
  have "order_ok b" using assms by (simp add: jb_ok_def)
  then have "jb_cycles (snd (jb_pop b)) = jb_cycles b" by (cases rule: jb_pop_cases) simp_all
  with Pop show ?thesis by (auto split: prod.splits option.splits)
next
  case Drain
  then show ?thesis using assms by (simp add: jb_drain_eq jb_ok_def order_ok_def)
qed (use jb_push_cycles [of b] in simp)

lemma extended_bound:
  assumes "jb_ok b"
  shows "ext_highest (snd (jb_run b es)) < (jb_cycles b + length es + 1) * 65536"
proof -
  have "jb_cycles (snd (jb_run b es)) \<le> jb_cycles b + length es"
    using assms
  proof (induction es arbitrary: b)
    case (Cons e es)
    with jb_step_cycles [of b e] jb_ok_step [of b e] show ?case by fastforce
  qed simp
  then have "(jb_cycles (snd (jb_run b es)) + 1) * 65536 \<le> (jb_cycles b + length es + 1) * 65536"
    by (intro mult_le_mono1) simp
  moreover have "ext_highest (snd (jb_run b es)) < (jb_cycles (snd (jb_run b es)) + 1) * 65536"
    using unat_bounds(2) by (simp add: ext_highest_def split: option.splits)
  ultimately show ?thesis by (rule order.strict_trans2 [rotated])
qed

lemma fixed_step_depth:
  assumes "jb_ok b" "jb_policy b = Fixed"
  shows "jb_depth (snd (jb_step b e)) = jb_depth b"
proof (cases e)
  case (Push p)
  then show ?thesis using jb_push_frame [of b p "fst (jb_push b p)" "snd (jb_push b p)"] by simp
next
  case (PushAt p t)
  let ?o = "jb_observe b (pkt_timestamp p) t"
  obtain c where c: "jb_push ?o p = (fst (jb_push_at b p t), c)"
    "snd (jb_push_at b p t) = jb_deepen c \<or> snd (jb_push_at b p t) = jb_resize c"
    using jb_push_at_eq by blast
  have "jb_policy c = Fixed" "jb_depth c = jb_depth b"
    using jb_push_frame [OF c(1)] assms(2) by (simp_all add: frames)
  then have "jb_depth (jb_deepen c) = jb_depth b" "jb_depth (jb_resize c) = jb_depth b"
    by (simp_all add: jb_deepen_def jb_resize_def jb_wanted_def)
  with c(2) PushAt show ?thesis by auto
next
  case Pop
  have "order_ok b" using assms(1) by (simp add: jb_ok_def)
  then have "jb_depth (snd (jb_pop b)) = jb_depth b" by (cases rule: jb_pop_cases) simp_all
  with Pop show ?thesis by (auto split: prod.splits option.splits)
next
  case Drain
  then show ?thesis using assms by (simp add: jb_drain_eq jb_ok_def order_ok_def)
qed

lemma fixed_run_depth:
  "jb_ok b \<Longrightarrow> jb_policy b = Fixed \<Longrightarrow> jb_depth (snd (jb_run b es)) = jb_depth b"
proof (induction es arbitrary: b)
  case (Cons e es)
  with jb_ok_step [of b e] jb_step_counts(3) [of b e] fixed_step_depth [of b e] show ?case by simp
qed simp

text \<open>
  The depth stays within its policy and the estimates within range. Whatever arrives, an
  adaptive buffer's depth stays between its (normalised) bounds and a fixed buffer's depth never
  changes; the smoothed jitter stays between 0 and \<open>2 ^ 31\<close> in double arithmetic, and the learned
  packetisation interval below 48000, so that its smoothing never overflows 32 bits.
\<close>

theorem jitter_depth_bounds:
  "(let b = snd (jb_run (jb_adaptive lo hi) es) in
     max lo 1 \<le> jb_depth b \<and> jb_depth b \<le> max hi (max lo 1)
     \<and> 0 \<le> jb_jitter b \<and> jb_jitter b \<le> 2 ^ 31
     \<and> (case jb_interval b of None \<Rightarrow> True | Some i \<Rightarrow> unat i * 7 + 48000 < 2 ^ 32))
   \<and> jb_depth (snd (jb_run (jb_new d) es)) = max d 1"
proof
  let ?b = "snd (jb_run (jb_adaptive lo hi) es)"
  have "jb_ok ?b" by (rule jb_ok_run [OF jb_ok_new(2)])
  moreover have "jb_policy ?b = Adaptive (max lo 1) (max hi (max lo 1))"
    using jb_run_counts [OF jb_ok_new(2), of lo hi es] by (simp add: jb_adaptive_def Let_def)
  ultimately show "let b = ?b in max lo 1 \<le> jb_depth b \<and> jb_depth b \<le> max hi (max lo 1)
     \<and> 0 \<le> jb_jitter b \<and> jb_jitter b \<le> 2 ^ 31
     \<and> (case jb_interval b of None \<Rightarrow> True | Some i \<Rightarrow> unat i * 7 + 48000 < 2 ^ 32)"
    by (auto simp: jb_ok_def depth_ok_def estimate_ok_def Let_def split: option.splits)
  show "jb_depth (snd (jb_run (jb_new d) es)) = max d 1"
    using fixed_run_depth [OF jb_ok_new(1), of d es] by (simp add: jb_new_def)
qed

end
