(* ===== verification/Rtcp_Packet.thy ===== *)
theory Rtcp_Packet
  imports Rtp_Packet
begin

text \<open>
  RTCP on the wire, \<open>crates/sipx-rtp/src/rtcp.rs\<close>: report blocks, sender and receiver reports,
  source descriptions and packets of other types, the encoder, compound datagrams and their
  decoder. An \<open>i32\<close> is an \<open>int\<close>; only its 24-bit range reaches the wire.
\<close>

section \<open>Data\<close>

definition SENDER_REPORT :: u8 where "SENDER_REPORT = 200"
definition RECEIVER_REPORT :: u8 where "RECEIVER_REPORT = 201"
definition SOURCE_DESCRIPTION :: u8 where "SOURCE_DESCRIPTION = 202"
definition SDES_CNAME :: u8 where "SDES_CNAME = 1"

lemmas packet_types [simp] =
  SENDER_REPORT_def RECEIVER_REPORT_def SOURCE_DESCRIPTION_def

datatype rtcp_error = RtcpTooShort nat | RtcpBadVersion u8 | RtcpTruncated

record report_block =
  rb_ssrc :: u32
  rb_fraction_lost :: u8
  rb_cumulative_lost :: int
  rb_extended_highest_sequence :: u32
  rb_jitter :: u32
  rb_last_sender_report :: u32
  rb_delay_since_last_sender_report :: u32

record sender_report =
  sr_ssrc :: u32
  sr_ntp_timestamp :: u64
  sr_rtp_timestamp :: u32
  sr_packet_count :: u32
  sr_octet_count :: u32
  sr_reports :: "report_block list"

definition new_sender_report :: "u32 \<Rightarrow> u64 \<Rightarrow> u32 \<Rightarrow> u32 \<Rightarrow> u32 \<Rightarrow> sender_report" where
  "new_sender_report ssrc ntp_timestamp rtp_timestamp packet_count octet_count =
     \<lparr>sr_ssrc = ssrc, sr_ntp_timestamp = ntp_timestamp, sr_rtp_timestamp = rtp_timestamp,
      sr_packet_count = packet_count, sr_octet_count = octet_count, sr_reports = []\<rparr>"

record receiver_report =
  rr_ssrc :: u32
  rr_reports :: "report_block list"

definition new_receiver_report :: "u32 \<Rightarrow> receiver_report" where
  "new_receiver_report ssrc = \<lparr>rr_ssrc = ssrc, rr_reports = []\<rparr>"

record sdes_item =
  si_kind :: u8
  si_value :: bytes

record sdes_chunk =
  sc_ssrc :: u32
  sc_items :: "sdes_item list"

record sdes =
  sd_chunks :: "sdes_chunk list"

definition sdes_cname :: "u32 \<Rightarrow> bytes \<Rightarrow> sdes" where
  "sdes_cname ssrc cname =
     \<lparr>sd_chunks = [\<lparr>sc_ssrc = ssrc, sc_items = [\<lparr>si_kind = SDES_CNAME, si_value = cname\<rparr>]\<rparr>]\<rparr>"

datatype rtcp =
    Sender sender_report
  | Receiver receiver_report
  | Sdes sdes
  | Other (ot_packet_type: u8) (ot_count: u8) (ot_padding: bool) (ot_payload: bytes)

section \<open>Encoding\<close>

definition put_header :: "u8 \<Rightarrow> u8 \<Rightarrow> u16 \<Rightarrow> bool \<Rightarrow> bytes" where
  "put_header count packet_type body_words padding =
     [0x80 OR push_bit 5 (of_bool padding) OR (count AND 0x1F), packet_type] @ to_be16 body_words"

definition clamp_lost :: "int \<Rightarrow> int" where
  "clamp_lost lost = max (- 0x800000) (min lost 0x7FFFFF)"

definition put_block :: "report_block \<Rightarrow> bytes" where
  "put_block b =
     (let lost = (of_int (clamp_lost (rb_cumulative_lost b)) :: u32) AND 0x00FFFFFF
      in to_be32 (rb_ssrc b) @ [rb_fraction_lost b]
         @ [ucast (drop_bit 16 lost AND 0xFF)] @ to_be16 (ucast (lost AND 0xFFFF))
         @ to_be32 (rb_extended_highest_sequence b) @ to_be32 (rb_jitter b)
         @ to_be32 (rb_last_sender_report b) @ to_be32 (rb_delay_since_last_sender_report b))"

definition put_item :: "sdes_item \<Rightarrow> bytes" where
  "put_item i =
     (let text = take (min (length (si_value i)) 255) (si_value i)
      in [si_kind i, of_nat (length text)] @ text)"

text \<open>The padding loop of a chunk: null octets until the body is a whole number of words.\<close>

function pad_words :: "bytes \<Rightarrow> bytes" where
  "pad_words body = (if length body mod 4 = 0 then body else pad_words (body @ [0]))"
  by pat_completeness auto
termination
  by (relation "measure (\<lambda>b. 3 * length b mod 4)") (simp, simp, presburger)

declare pad_words.simps [simp del]

definition put_chunk :: "bytes \<Rightarrow> sdes_chunk \<Rightarrow> bytes" where
  "put_chunk body c =
     pad_words (body @ to_be32 (sc_ssrc c) @ concat (map put_item (sc_items c)) @ [0])"

text \<open>\<open>u16::try_from(words).unwrap_or(0)\<close>: a length that does not fit the field is written as 0.\<close>

definition length_words :: "nat \<Rightarrow> u16" where
  "length_words n = (if n < 65536 then of_nat n else 0)"

definition div_ceil4 :: "nat \<Rightarrow> nat" where
  "div_ceil4 n = (n + 3) div 4"

fun encode_rtcp :: "rtcp \<Rightarrow> bytes" where
  "encode_rtcp (Sender r) =
     (let count = of_nat (min (length (sr_reports r)) 31) :: u8
      in put_header count SENDER_REPORT (6 + ucast count * 6) False
         @ to_be32 (sr_ssrc r) @ to_be64 (sr_ntp_timestamp r) @ to_be32 (sr_rtp_timestamp r)
         @ to_be32 (sr_packet_count r) @ to_be32 (sr_octet_count r)
         @ concat (map put_block (take 31 (sr_reports r))))"
| "encode_rtcp (Receiver r) =
     (let count = of_nat (min (length (rr_reports r)) 31) :: u8
      in put_header count RECEIVER_REPORT (1 + ucast count * 6) False
         @ to_be32 (rr_ssrc r) @ concat (map put_block (take 31 (rr_reports r))))"
| "encode_rtcp (Sdes s) =
     (let count = of_nat (min (length (sd_chunks s)) 31) :: u8;
          body = foldl put_chunk [] (take 31 (sd_chunks s))
      in put_header count SOURCE_DESCRIPTION (length_words (length body div 4)) False @ body)"
| "encode_rtcp (Other packet_type count padding payload) =
     (let padded = div_ceil4 (length payload) * 4
      in put_header count packet_type (length_words (padded div 4)) padding
         @ payload @ replicate (padded - length payload) 0)"

definition encode_compound :: "rtcp list \<Rightarrow> bytes" where
  "encode_compound packets = concat (map encode_rtcp packets)"

section \<open>Decoding\<close>

definition lost_raw :: "u8 \<Rightarrow> u8 \<Rightarrow> u8 \<Rightarrow> u32" where
  "lost_raw a b c = push_bit 16 (ucast a) OR push_bit 8 (ucast b) OR ucast c"

definition read_block :: "bytes \<Rightarrow> nat \<Rightarrow> report_block option" where
  "read_block bytes at =
     do { slice \<leftarrow> get_range bytes at (at + 24);
          h \<leftarrow> get_at slice 5; m \<leftarrow> get_at slice 6; l \<leftarrow> get_at slice 7;
          let raw = lost_raw h m l;
          let cumulative_lost =
            (if raw AND 0x00800000 = 0 then uint raw else uint raw - 0x01000000);
          ssrc \<leftarrow> read_u32 slice 0;
          fraction_lost \<leftarrow> get_at slice 4;
          ext \<leftarrow> read_u32 slice 8;
          jitter \<leftarrow> read_u32 slice 12;
          lsr \<leftarrow> read_u32 slice 16;
          dlsr \<leftarrow> read_u32 slice 20;
          Some \<lparr>rb_ssrc = ssrc, rb_fraction_lost = fraction_lost,
            rb_cumulative_lost = cumulative_lost, rb_extended_highest_sequence = ext,
            rb_jitter = jitter, rb_last_sender_report = lsr,
            rb_delay_since_last_sender_report = dlsr\<rparr> }"

definition next_multiple_of4 :: "nat \<Rightarrow> nat" where
  "next_multiple_of4 n = div_ceil4 n * 4"

text \<open>
  The item loop of a source description chunk: the items, and the offset of the next chunk. Every
  turn moves the offset forward inside the body, so the loop ends.
\<close>

function read_items :: "bytes \<Rightarrow> nat \<Rightarrow> (sdes_item list \<times> nat) option" where
  "read_items body at =
     (case get_at body at of
        None \<Rightarrow> None
      | Some kind \<Rightarrow>
          if kind = 0 then Some ([], next_multiple_of4 (at + 1))
          else
            (case get_at body (at + 1) of
               None \<Rightarrow> None
             | Some len \<Rightarrow>
                 (case get_range body (at + 2) (at + 2 + unat len) of
                    None \<Rightarrow> None
                  | Some v \<Rightarrow>
                      (case read_items body (at + 2 + unat len) of
                         None \<Rightarrow> None
                       | Some (items, at') \<Rightarrow>
                           Some (\<lparr>si_kind = kind, si_value = v\<rparr> # items, at')))))"
  by pat_completeness auto
termination
  by (relation "measure (\<lambda>(body, at). length body - at)") auto

declare read_items.simps [simp del]

fun read_chunks :: "bytes \<Rightarrow> nat \<Rightarrow> nat \<Rightarrow> sdes_chunk list option" where
  "read_chunks body at 0 = Some []"
| "read_chunks body at (Suc n) =
     (case read_u32 body at of
        None \<Rightarrow> None
      | Some ssrc \<Rightarrow>
          (case read_items body (at + 4) of
             None \<Rightarrow> None
           | Some (items, at') \<Rightarrow>
               (case read_chunks body at' n of
                  None \<Rightarrow> None
                | Some chunks \<Rightarrow> Some (\<lparr>sc_ssrc = ssrc, sc_items = items\<rparr> # chunks))))"

definition read_u64 :: "bytes \<Rightarrow> nat \<Rightarrow> u64 option" where
  "read_u64 bytes at =
     do { hi \<leftarrow> read_u32 bytes at; lo \<leftarrow> read_u32 bytes (at + 4); Some (from_be64 hi lo) }"

definition decode_one :: "u8 \<Rightarrow> nat \<Rightarrow> bool \<Rightarrow> bytes \<Rightarrow> bytes \<Rightarrow> nat \<Rightarrow> (rtcp_error, rtcp) result" where
  "decode_one packet_type count padding body whole offset =
     (if packet_type = SENDER_REPORT then
        ok_or RtcpTruncated
          (do { ssrc \<leftarrow> read_u32 body 0; ntp \<leftarrow> read_u64 body 4; rtp \<leftarrow> read_u32 body 12;
                packets \<leftarrow> read_u32 body 16; octets \<leftarrow> read_u32 body 20;
                reports \<leftarrow> read_run read_block 24 body 24 count;
                Some (Sender \<lparr>sr_ssrc = ssrc, sr_ntp_timestamp = ntp, sr_rtp_timestamp = rtp,
                  sr_packet_count = packets, sr_octet_count = octets, sr_reports = reports\<rparr>) })
      else if packet_type = RECEIVER_REPORT then
        ok_or RtcpTruncated
          (do { ssrc \<leftarrow> read_u32 body 0; reports \<leftarrow> read_run read_block 24 body 4 count;
                Some (Receiver \<lparr>rr_ssrc = ssrc, rr_reports = reports\<rparr>) })
      else if packet_type = SOURCE_DESCRIPTION then
        ok_or RtcpTruncated
          (do { chunks \<leftarrow> read_chunks body 0 count; Some (Sdes \<lparr>sd_chunks = chunks\<rparr>) })
      else Inr (Other packet_type (of_nat count) padding
        (take (length body) (drop (offset + 4) whole))))"

text \<open>The loop over the parts of a datagram; each part advances the offset by at least one word.\<close>

function decode_parts :: "bytes \<Rightarrow> nat \<Rightarrow> (rtcp_error, rtcp list) result" where
  "decode_parts bytes offset =
     (if offset + 4 \<le> length bytes then
        (let first = bytes ! offset;
             version = drop_bit 6 first;
             count = unat (first AND 0x1F);
             padding = (first AND 0x20 \<noteq> 0);
             packet_type = bytes ! (offset + 1);
             words = unat (from_be16 (bytes ! (offset + 2)) (bytes ! (offset + 3)));
             total = (words + 1) * 4
         in if version \<noteq> 2 then Inl (RtcpBadVersion version) else
            (case get_range bytes (offset + 4) (offset + total) of
               None \<Rightarrow> Inl RtcpTruncated
             | Some body \<Rightarrow>
                 (case decode_one packet_type count padding body bytes offset of
                    Inl e \<Rightarrow> Inl e
                  | Inr p \<Rightarrow>
                      (case decode_parts bytes (offset + total) of
                         Inl e \<Rightarrow> Inl e
                       | Inr ps \<Rightarrow> Inr (p # ps)))))
      else Inr [])"
  by pat_completeness auto
termination
  by (relation "measure (\<lambda>(bytes, offset). length bytes - offset)") (auto simp: Let_def)

declare decode_parts.simps [simp del]

definition decode_compound :: "bytes \<Rightarrow> (rtcp_error, rtcp list) result" where
  "decode_compound bytes =
     bind_res (decode_parts bytes 0)
       (\<lambda>packets. if packets = [] then Inl (RtcpTooShort (length bytes)) else Inr packets)"


section \<open>Report blocks\<close>

text \<open>The loss counter is a 24-bit two's complement number on the wire.\<close>

lemma uint_mask24: "uint ((of_int l :: u32) AND 0x00FFFFFF) = l mod 0x1000000"
proof -
  have "(0x00FFFFFF :: u32) = mask 24" by (simp add: mask_eq_exp_minus_1)
  then have "uint ((of_int l :: u32) AND 0x00FFFFFF) = take_bit 24 (uint (of_int l :: u32))"
    by (simp only: take_bit_eq_mask [symmetric]) (simp add: unsigned_take_bit_eq)
  also have "\<dots> = take_bit 24 l"
    by (simp add: unsigned_of_int take_bit_take_bit)
  finally show ?thesis by (simp add: take_bit_eq_mod)
qed

lemma sign24:
  assumes "uint (w :: u32) < 0x1000000"
  shows "w AND 0x00800000 = 0 \<longleftrightarrow> uint w < 0x800000"
proof -
  have "w AND 0x00800000 = 0 \<longleftrightarrow> \<not> bit (uint w) 23"
    using and_exp_eq_0_iff_not_bit [of w 23] by (simp add: bit_uint_iff)
  also have "\<dots> \<longleftrightarrow> even (uint w div 0x800000)"
    by (simp add: bit_iff_odd)
  also have "\<dots> \<longleftrightarrow> uint w < 0x800000"
  proof (cases "uint w < 0x800000")
    case False
    then have "uint w div 0x800000 = 1"
      using assms by (intro int_div_pos_eq [where r = "uint w - 0x800000"]) simp_all
    with False show ?thesis by simp
  qed simp
  finally show ?thesis .
qed

lemma lost_raw_put:
  fixes w :: u32
  assumes "w AND 0x00FFFFFF = w"
  shows "lost_raw (ucast (drop_bit 16 w AND 0xFF)) (ucast (drop_bit 8 (ucast (w AND 0xFFFF) :: u16)))
    (ucast (ucast (w AND 0xFFFF) :: u16)) = w"
proof (rule bit_word_eqI)
  have m: "(0xFF :: u32) = mask 8" "(0xFFFF :: u32) = mask 16" "(0x00FFFFFF :: u32) = mask 24"
    by (simp_all add: mask_eq_exp_minus_1)
  fix n assume n: "n < LENGTH(32)"
  have top: "\<not> bit w n" if "24 \<le> n"
    using that arg_cong [OF assms, of "\<lambda>w. bit w n"] by (auto simp: m bit_simps)
  consider "n < 8" | "8 \<le> n" "n < 16" | "16 \<le> n" "n < 24" | "24 \<le> n" by linarith
  then show "bit (lost_raw (ucast (drop_bit 16 w AND 0xFF)) (ucast (drop_bit 8 (ucast (w AND 0xFFFF) :: u16)))
    (ucast (ucast (w AND 0xFFFF) :: u16))) n = bit w n"
    using n top by cases (auto simp: lost_raw_def m bit_simps)
qed

lemma put_lost_raw:
  "ucast (drop_bit 16 (lost_raw a b c) AND 0xFF) = a"
  "to_be16 (ucast (lost_raw a b c AND 0xFFFF)) = [b, c]"
proof -
  have m: "(0xFF :: u32) = mask 8" "(0xFFFF :: u32) = mask 16"
    by (simp_all add: mask_eq_exp_minus_1)
  show "ucast (drop_bit 16 (lost_raw a b c) AND 0xFF) = a"
    by (rule bit_word_eqI) (auto simp: lost_raw_def m bit_simps dest: bit_imp_le_length)
  have "ucast (lost_raw a b c AND 0xFFFF) = from_be16 b c"
    by (rule bit_word_eqI) (auto simp: lost_raw_def from_be16_def m bit_simps dest: bit_imp_le_length)
  then show "to_be16 (ucast (lost_raw a b c AND 0xFFFF)) = [b, c]" by simp
qed

lemma uint_lost_raw: "uint (lost_raw a b c) < 0x1000000"
proof -
  have "lost_raw a b c AND mask 24 = lost_raw a b c"
    by (rule bit_word_eqI) (auto simp: lost_raw_def bit_simps dest: bit_imp_le_length)
  then have "uint (lost_raw a b c) = take_bit 24 (uint (lost_raw a b c))"
    by (metis take_bit_eq_mask unsigned_take_bit_eq)
  also have "\<dots> < 2 ^ 24" by (rule take_bit_int_less_exp)
  finally show ?thesis by simp
qed

text \<open>The signed reading of the three octets, and its inverse.\<close>

definition lost_value :: "u32 \<Rightarrow> int" where
  "lost_value raw = (if raw AND 0x00800000 = 0 then uint raw else uint raw - 0x01000000)"

definition lost_ok :: "report_block \<Rightarrow> bool" where
  "lost_ok b \<longleftrightarrow> - 0x800000 \<le> rb_cumulative_lost b \<and> rb_cumulative_lost b \<le> 0x7FFFFF"

lemma lost_value_put:
  assumes "- 0x800000 \<le> l" "l \<le> 0x7FFFFF"
  shows "lost_value ((of_int l :: u32) AND 0x00FFFFFF) = l"
proof -
  have u: "uint ((of_int l :: u32) AND 0x00FFFFFF) = l mod 0x1000000" by (rule uint_mask24)
  have "l mod 0x1000000 = (if 0 \<le> l then l else l + 0x1000000)"
    using assms int_mod_pos_eq [where a = l and b = "0x1000000" and q = "- 1" and r = "l + 0x1000000"] by auto
  moreover have "l mod 0x1000000 < 0x1000000" by simp
  ultimately show ?thesis
    using assms sign24 [of "(of_int l :: u32) AND 0x00FFFFFF"] unfolding lost_value_def u by auto
qed


lemma put_lost_value:
  "(of_int (lost_value (lost_raw a b c)) :: u32) AND 0x00FFFFFF = lost_raw a b c"
proof -
  let ?r = "lost_raw a b c"
  have "uint ((of_int (lost_value ?r) :: u32) AND 0x00FFFFFF) = lost_value ?r mod 0x1000000"
    by (rule uint_mask24)
  also have "\<dots> = uint ?r mod 0x1000000"
    by (simp add: lost_value_def)
  also have "\<dots> = uint ?r"
    using uint_lost_raw [of a b c] by simp
  finally show ?thesis by (simp add: word_uint_eq_iff)
qed

lemma lost_value_range:
  "- 0x800000 \<le> lost_value (lost_raw a b c)" "lost_value (lost_raw a b c) \<le> 0x7FFFFF"
  using sign24 [OF uint_lost_raw, of a b c] uint_lost_raw [of a b c] uint_ge_0 [of "lost_raw a b c"]
  by (auto simp: lost_value_def intro: order.trans [of _ 0])

lemma clamp_lost_id: "- 0x800000 \<le> l \<Longrightarrow> l \<le> 0x7FFFFF \<Longrightarrow> clamp_lost l = l"
  by (simp add: clamp_lost_def)

lemma length_put_block [simp]: "length (put_block b) = 24"
  by (simp add: put_block_def Let_def)

text \<open>Reading a slice of exactly one block, written out octet by octet.\<close>

lemma length24:
  assumes "length xs = 24"
  obtains a0 a1 a2 a3 a4 a5 a6 a7 a8 a9 a10 a11 a12 a13 a14 a15 a16 a17 a18 a19 a20 a21 a22 a23
  where "xs = [a0, a1, a2, a3, a4, a5, a6, a7, a8, a9, a10, a11, a12, a13, a14, a15, a16, a17,
    a18, a19, a20, a21, a22, a23]"
  using assms by (auto simp: numeral_eq_Suc length_Suc_conv)

lemma read_block_octets:
  assumes "get_range bs at (at + 24) = Some [a0, a1, a2, a3, a4, a5, a6, a7, a8, a9, a10, a11,
    a12, a13, a14, a15, a16, a17, a18, a19, a20, a21, a22, a23]"
  shows "read_block bs at = Some \<lparr>rb_ssrc = from_be32 a0 a1 a2 a3, rb_fraction_lost = a4,
    rb_cumulative_lost = lost_value (lost_raw a5 a6 a7),
    rb_extended_highest_sequence = from_be32 a8 a9 a10 a11, rb_jitter = from_be32 a12 a13 a14 a15,
    rb_last_sender_report = from_be32 a16 a17 a18 a19,
    rb_delay_since_last_sender_report = from_be32 a20 a21 a22 a23\<rparr>"
  unfolding read_block_def assms by (simp add: get_at_def read_u32_def lost_value_def)

lemma put_block_word:
  assumes "(of_int (clamp_lost (rb_cumulative_lost b)) :: u32) AND 0x00FFFFFF = w"
  shows "put_block b = to_be32 (rb_ssrc b) @ [rb_fraction_lost b, ucast (drop_bit 16 w AND 0xFF)]
      @ to_be16 (ucast (w AND 0xFFFF)) @ to_be32 (rb_extended_highest_sequence b) @ to_be32 (rb_jitter b)
      @ to_be32 (rb_last_sender_report b) @ to_be32 (rb_delay_since_last_sender_report b)"
  unfolding put_block_def assms Let_def by simp

interpretation block: record_codec put_block read_block 24 lost_ok
proof unfold_locales
  show "length (put_block b) = 24" for b by simp
next
  fix pre suf :: bytes and b assume ok: "lost_ok b"
  define w where "w = (of_int (rb_cumulative_lost b) :: u32) AND 0x00FFFFFF"
  have m: "w AND 0x00FFFFFF = w" by (simp add: w_def and.assoc)
  have c: "clamp_lost (rb_cumulative_lost b) = rb_cumulative_lost b" "lost_value w = rb_cumulative_lost b"
    using ok by (simp_all add: lost_ok_def clamp_lost_id lost_value_put w_def)
  note octets = put_block_word [of b w, unfolded c(1), OF w_def [symmetric]]
  have "get_range (pre @ put_block b @ suf) (length pre) (length pre + 24) = Some (put_block b)"
    by (rule get_range_append) simp_all
  from read_block_octets [OF this [unfolded octets to_be32_def to_be16_def append.simps]]
  show "read_block (pre @ put_block b @ suf) (length pre) = Some b"
    by (simp add: octets to_be32_def to_be16_def lost_raw_put [OF m] c(2))
next
  fix bs :: bytes and at b assume r: "read_block bs at = Some b"
  then obtain s where s: "get_range bs at (at + 24) = Some s"
    by (auto simp: read_block_def bind_eq_Some_conv)
  obtain a0 a1 a2 a3 a4 a5 a6 a7 a8 a9 a10 a11 a12 a13 a14 a15 a16 a17 a18 a19 a20 a21 a22 a23
    where xs: "s = [a0, a1, a2, a3, a4, a5, a6, a7, a8, a9, a10, a11, a12, a13, a14, a15, a16, a17,
      a18, a19, a20, a21, a22, a23]"
    using get_range_length [OF s] by (auto elim!: length24)
  have b: "b = \<lparr>rb_ssrc = from_be32 a0 a1 a2 a3, rb_fraction_lost = a4,
      rb_cumulative_lost = lost_value (lost_raw a5 a6 a7),
      rb_extended_highest_sequence = from_be32 a8 a9 a10 a11, rb_jitter = from_be32 a12 a13 a14 a15,
      rb_last_sender_report = from_be32 a16 a17 a18 a19,
      rb_delay_since_last_sender_report = from_be32 a20 a21 a22 a23\<rparr>"
    using r read_block_octets [OF s [unfolded xs]] by simp
  then have "clamp_lost (rb_cumulative_lost b) = lost_value (lost_raw a5 a6 a7)"
    by (simp add: clamp_lost_id lost_value_range)
  from put_block_word [of b "lost_raw a5 a6 a7", unfolded this, OF put_lost_value] have "put_block b = s"
    by (simp add: b xs put_lost_raw(2)) (simp only: put_lost_raw(1) flip: drop_bit_and)
  moreover have "lost_ok b"
    by (simp add: b lost_ok_def lost_value_range)
  ultimately show "lost_ok b \<and> at + 24 \<le> length bs \<and> take 24 (drop at bs) = put_block b"
    using s by (simp add: get_range_eq_Some)
qed


section \<open>Source descriptions\<close>

lemma next_multiple_of4_bounds:
  "n \<le> next_multiple_of4 n" "next_multiple_of4 n mod 4 = 0" "next_multiple_of4 n < n + 4"
  unfolding next_multiple_of4_def div_ceil4_def by presburger+

lemma next_multiple_of4_add: "m mod 4 = 0 \<Longrightarrow> next_multiple_of4 (m + n) = m + next_multiple_of4 n"
  unfolding next_multiple_of4_def div_ceil4_def by presburger

lemma next_multiple_of4_eq:
  "n mod 4 = 0 \<Longrightarrow> next_multiple_of4 n = n"
  "n mod 4 \<noteq> 0 \<Longrightarrow> next_multiple_of4 (Suc n) = next_multiple_of4 n"
  unfolding next_multiple_of4_def div_ceil4_def by presburger+

lemma pad_words_eq: "pad_words xs = xs @ replicate (next_multiple_of4 (length xs) - length xs) 0"
proof (induction xs rule: pad_words.induct)
  case (1 xs)
  show ?case
  proof (cases "length xs mod 4 = 0")
    case True
    then show ?thesis by (subst pad_words.simps) (simp add: next_multiple_of4_eq)
  next
    case False
    then have "length xs < next_multiple_of4 (length xs)"
      using next_multiple_of4_bounds(1,2) [of "length xs"] by (metis le_neq_implies_less)
    then have "next_multiple_of4 (length xs) - length xs = Suc (next_multiple_of4 (length xs) - Suc (length xs))"
      by simp
    with 1 [OF False] False show ?thesis
      by (subst pad_words.simps) (simp add: next_multiple_of4_eq)
  qed
qed

lemma length_pad_words: "length (pad_words xs) = next_multiple_of4 (length xs)"
  using next_multiple_of4_bounds(1) [of "length xs"] by (simp add: pad_words_eq)

lemma pad_words_append: "length xs mod 4 = 0 \<Longrightarrow> pad_words (xs @ ys) = xs @ pad_words ys"
  by (simp add: pad_words_eq next_multiple_of4_add)

definition chunk_bytes :: "sdes_chunk \<Rightarrow> bytes" where
  "chunk_bytes c = put_chunk [] c"

lemma foldl_put_chunk:
  "length body mod 4 = 0 \<Longrightarrow> foldl put_chunk body cs = body @ concat (map chunk_bytes cs)
     \<and> length (foldl put_chunk body cs) mod 4 = 0"
proof (induction cs arbitrary: body)
  case (Cons c cs)
  have c: "put_chunk body c = body @ chunk_bytes c"
    using pad_words_append [OF Cons.prems] by (simp add: put_chunk_def chunk_bytes_def)
  have "length (put_chunk body c) mod 4 = 0"
    by (simp add: put_chunk_def length_pad_words next_multiple_of4_bounds)
  note IH = Cons.IH [OF this]
  have "foldl put_chunk body (c # cs) = body @ concat (map chunk_bytes (c # cs))"
    using IH by (simp add: c)
  moreover have "length (foldl put_chunk body (c # cs)) mod 4 = 0"
    unfolding foldl_Cons by (rule conjunct2 [OF IH])
  ultimately show ?case by blast
qed simp

definition item_ok :: "sdes_item \<Rightarrow> bool" where
  "item_ok i \<longleftrightarrow> si_kind i \<noteq> 0 \<and> length (si_value i) \<le> 255"

definition chunk_ok :: "sdes_chunk \<Rightarrow> bool" where
  "chunk_ok c \<longleftrightarrow> list_all item_ok (sc_items c)"

lemma read_items_step:
  assumes "get_at body at = Some kind" "kind \<noteq> 0" "get_at body (at + 1) = Some len"
    "get_range body (at + 2) (at + 2 + unat len) = Some v"
    "read_items body (at + 2 + unat len) = Some (items, at')"
  shows "read_items body at = Some (\<lparr>si_kind = kind, si_value = v\<rparr> # items, at')"
  using assms by (subst read_items.simps) (simp only: option.case prod.case if_False)

lemma read_items_put:
  "list_all item_ok is \<Longrightarrow>
    read_items (pre @ concat (map put_item is) @ 0 # suf) (length pre) =
      Some (is, next_multiple_of4 (length pre + length (concat (map put_item is)) + 1))"
proof (induction "is" arbitrary: pre)
  case Nil
  show ?case by (subst read_items.simps) (simp add: get_at_def)
next
  case (Cons i "is")
  have i: "si_kind i \<noteq> 0" "length (si_value i) \<le> 255" using Cons.prems by (simp_all add: item_ok_def)
  have p: "put_item i = [si_kind i, of_nat (length (si_value i))] @ si_value i"
    using i(2) by (simp add: put_item_def Let_def min_absorb1)
  have len: "unat (of_nat (length (si_value i)) :: u8) = length (si_value i)" using i(2) by simp
  let ?rest = "concat (map put_item is) @ 0 # suf"
  let ?bs = "pre @ put_item i @ ?rest"
  have "read_items ?bs (length pre) =
      Some (\<lparr>si_kind = si_kind i, si_value = si_value i\<rparr> # is,
        next_multiple_of4 (length pre + length (put_item i) + length (concat (map put_item is)) + 1))"
  proof (rule read_items_step [OF _ i(1)])
    show "get_at ?bs (length pre) = Some (si_kind i)"
      "get_at ?bs (length pre + 1) = Some (of_nat (length (si_value i)))"
      by (simp_all add: p nth_append)
    show "get_range ?bs (length pre + 2) (length pre + 2 + unat (of_nat (length (si_value i)) :: u8)) =
        Some (si_value i)"
      using get_range_append [of "pre @ [si_kind i, of_nat (length (si_value i))]" "length pre + 2"
          "si_value i" "length pre + 2 + length (si_value i)" ?rest] p len by simp
    show "read_items ?bs (length pre + 2 + unat (of_nat (length (si_value i)) :: u8)) =
        Some (is, next_multiple_of4 (length pre + length (put_item i)
          + length (concat (map put_item is)) + 1))"
      using Cons.IH [of "pre @ put_item i"] Cons.prems p len by simp
  qed
  then show ?case by (simp add: add.assoc)
qed

lemma read_chunks_put:
  "length pre mod 4 = 0 \<Longrightarrow> list_all chunk_ok cs \<Longrightarrow>
    read_chunks (pre @ concat (map chunk_bytes cs) @ suf) (length pre) (length cs) = Some cs"
proof (induction cs arbitrary: pre)
  case (Cons c cs)
  let ?items = "concat (map put_item (sc_items c))"
  define z where "z = replicate (next_multiple_of4 (5 + length ?items) - (5 + length ?items)) (0 :: u8)"
  have c: "chunk_bytes c = to_be32 (sc_ssrc c) @ ?items @ 0 # z"
    by (simp add: chunk_bytes_def put_chunk_def pad_words_eq z_def)
  have len: "length (chunk_bytes c) = next_multiple_of4 (5 + length ?items)"
    by (simp add: chunk_bytes_def put_chunk_def length_pad_words)
  let ?rest = "concat (map chunk_bytes cs) @ suf"
  have "read_u32 (pre @ chunk_bytes c @ ?rest) (length pre) = Some (sc_ssrc c)"
    using read_u32_to_be32 [of pre] c by simp
  moreover have "read_items (pre @ chunk_bytes c @ ?rest) (length pre + 4) =
      Some (sc_items c, next_multiple_of4 (length pre + (5 + length ?items)))"
    using read_items_put [of "sc_items c" "pre @ to_be32 (sc_ssrc c)" "z @ ?rest"] Cons.prems(2) c
    by (simp add: chunk_ok_def add.commute add.left_commute)
  moreover have "next_multiple_of4 (length pre + (5 + length ?items)) = length (pre @ chunk_bytes c)"
    using Cons.prems(1) len by (simp add: next_multiple_of4_add)
  moreover have "length (pre @ chunk_bytes c) mod 4 = 0"
    using Cons.prems(1) len next_multiple_of4_bounds(2) [of "5 + length ?items"]
    by (simp add: mod_add_eq [symmetric])
  with Cons.IH [of "pre @ chunk_bytes c"] Cons.prems(2)
  have "read_chunks (pre @ chunk_bytes c @ ?rest) (length (pre @ chunk_bytes c)) (length cs) = Some cs"
    by simp
  ultimately show ?case by simp
qed simp


section \<open>Compound datagrams\<close>

text \<open>
  What the wire carries of a packet: at most 31 report blocks or chunks, the loss counter clamped
  to 24 bits, item texts cut to 255 octets, the count to five bits, and the body of an unmodelled
  type filled up to a whole word. \<open>rtcp_sendable\<close> are the packets whose length field is right and
  which the decoder does not take for something else.
\<close>

definition wire_block :: "report_block \<Rightarrow> report_block" where
  "wire_block b = b\<lparr>rb_cumulative_lost := clamp_lost (rb_cumulative_lost b)\<rparr>"

definition wire_chunk :: "sdes_chunk \<Rightarrow> sdes_chunk" where
  "wire_chunk c = c\<lparr>sc_items := map (\<lambda>i. i\<lparr>si_value := take 255 (si_value i)\<rparr>) (sc_items c)\<rparr>"

fun wire_form :: "rtcp \<Rightarrow> rtcp" where
  "wire_form (Sender r) = Sender (r\<lparr>sr_reports := map wire_block (take 31 (sr_reports r))\<rparr>)"
| "wire_form (Receiver r) = Receiver (r\<lparr>rr_reports := map wire_block (take 31 (rr_reports r))\<rparr>)"
| "wire_form (Sdes s) = Sdes (s\<lparr>sd_chunks := map wire_chunk (take 31 (sd_chunks s))\<rparr>)"
| "wire_form (Other t c p b) =
     Other t (c AND 0x1F) p (b @ replicate (next_multiple_of4 (length b) - length b) 0)"

fun rtcp_sendable :: "rtcp \<Rightarrow> bool" where
  "rtcp_sendable (Sender r) \<longleftrightarrow> True"
| "rtcp_sendable (Receiver r) \<longleftrightarrow> True"
| "rtcp_sendable (Sdes s) \<longleftrightarrow>
     list_all (\<lambda>c. list_all (\<lambda>i. si_kind i \<noteq> 0) (sc_items c)) (take 31 (sd_chunks s))
     \<and> length (foldl put_chunk [] (take 31 (sd_chunks s))) div 4 < 65536"
| "rtcp_sendable (Other t c p b) \<longleftrightarrow>
     t \<notin> {SENDER_REPORT, RECEIVER_REPORT, SOURCE_DESCRIPTION} \<and> div_ceil4 (length b) < 65536"

lemma wire_block_facts [simp]: "put_block (wire_block b) = put_block b" "lost_ok (wire_block b)"
  by (simp_all add: put_block_def wire_block_def lost_ok_def clamp_lost_def Let_def)

lemma wire_chunk_facts:
  "put_chunk body (wire_chunk c) = put_chunk body c"
  "list_all (\<lambda>i. si_kind i \<noteq> 0) (sc_items c) \<Longrightarrow> chunk_ok (wire_chunk c)"
proof -
  have "put_item (i\<lparr>si_value := take 255 (si_value i)\<rparr>) = put_item i" for i
    by (simp add: put_item_def Let_def min.commute)
  then show "put_chunk body (wire_chunk c) = put_chunk body c"
    by (simp add: put_chunk_def wire_chunk_def comp_def)
  show "chunk_ok (wire_chunk c)" if "list_all (\<lambda>i. si_kind i \<noteq> 0) (sc_items c)"
    using that by (simp add: chunk_ok_def wire_chunk_def item_ok_def list_all_iff)
qed

text \<open>The header as the decoder reads it back.\<close>

lemma header_octet:
  "drop_bit 6 ((0x80 :: u8) OR push_bit 5 (of_bool p) OR (c AND 0x1F)) = 2"
  "((0x80 :: u8) OR push_bit 5 (of_bool p) OR (c AND 0x1F)) AND 0x1F = c AND 0x1F"
  "((0x80 :: u8) OR push_bit 5 (of_bool p) OR (c AND 0x1F)) AND 0x20 = 0 \<longleftrightarrow> \<not> p"
proof -
  show "drop_bit 6 ((0x80 :: u8) OR push_bit 5 (of_bool p) OR (c AND 0x1F)) = 2"
    "((0x80 :: u8) OR push_bit 5 (of_bool p) OR (c AND 0x1F)) AND 0x1F = c AND 0x1F"
    by (rule bit_word_eqI; case_tac n rule: octet_bits; cases p; simp add: bit_simps)+
  show "((0x80 :: u8) OR push_bit 5 (of_bool p) OR (c AND 0x1F)) AND 0x20 = 0 \<longleftrightarrow> \<not> p"
    using and_exp_eq_0_iff_not_bit [of "(0x80 :: u8) OR push_bit 5 (of_bool p) OR (c AND 0x1F)" 5]
    by (cases p) (simp_all add: bit_simps)
qed

lemma decode_parts_header:
  assumes "length body = 4 * unat w"
    and "decode_one t (unat (c AND 0x1F)) pad body (pre @ put_header c t w pad @ body @ suf) (length pre) = Inr p"
  shows "decode_parts (pre @ put_header c t w pad @ body @ suf) (length pre) =
    (case decode_parts (pre @ put_header c t w pad @ body @ suf) (length (pre @ put_header c t w pad @ body)) of
       Inl e \<Rightarrow> Inl e | Inr ps \<Rightarrow> Inr (p # ps))"
proof -
  let ?bs = "pre @ put_header c t w pad @ body @ suf"
  have h: "?bs ! length pre = 0x80 OR push_bit 5 (of_bool pad) OR (c AND 0x1F)"
    "?bs ! (length pre + 1) = t" "from_be16 (?bs ! (length pre + 2)) (?bs ! (length pre + 3)) = w"
    by (simp_all add: put_header_def nth_append to_be16_def)
  have total: "length pre + (unat w + 1) * 4 = length (pre @ put_header c t w pad @ body)"
    using assms(1) by (simp add: put_header_def)
  have body: "get_range ?bs (length pre + 4) (length (pre @ put_header c t w pad @ body)) = Some body"
    using get_range_append [of "pre @ put_header c t w pad"] by (simp add: put_header_def)
  have len: "length pre + 4 \<le> length ?bs" by (simp add: put_header_def)
  show ?thesis
    by (subst decode_parts.simps)
      (simp only: len h total body header_octet assms(2) if_True if_False Let_def option.case sum.case
        simp_thms)
qed


text \<open>
  Each sendable packet is a header followed by a body of the length the header gives, and
  \<open>decode_one\<close> reads the body back as the packet's wire form.
\<close>

definition part_of :: "rtcp \<Rightarrow> u8 \<Rightarrow> u8 \<Rightarrow> u16 \<Rightarrow> bool \<Rightarrow> bytes \<Rightarrow> bool" where
  "part_of p c t w pad body \<longleftrightarrow>
     encode_rtcp p = put_header c t w pad @ body \<and> length body = 4 * unat w \<and>
     (\<forall>whole off. take (length body) (drop (off + 4) whole) = body \<longrightarrow>
        decode_one t (unat (c AND 0x1F)) pad body whole off = Inr (wire_form p))"

lemma count_octet:
  assumes "n \<le> 31"
  shows "unat ((of_nat n :: u8) AND 0x1F) = n" "unat ((ucast (of_nat n :: u8) :: u16) * 6) = n * 6"
proof -
  have "(of_nat n :: u8) AND 0x1F = take_bit 5 (of_nat n)"
    by (simp add: take_bit_eq_mask mask_eq_exp_minus_1)
  also have "unat \<dots> = n"
    using assms by (simp add: unsigned_take_bit_eq take_bit_nat_eq_self unat_of_nat)
  finally show "unat ((of_nat n :: u8) AND 0x1F) = n" .
  have "(ucast (of_nat n :: u8) :: u16) = of_nat n"
    using assms by (simp add: word_unat_eq_iff unat_of_nat unsigned_ucast_eq take_bit_nat_eq_self)
  then show "unat ((ucast (of_nat n :: u8) :: u16) * 6) = n * 6"
    using assms by (simp add: unat_word_ariths unat_of_nat)
qed

lemma read_blocks:
  "read_run read_block 24 (pre @ concat (map put_block bs)) (length pre) (length bs)
     = Some (map wire_block bs)"
  using block.read_run_enc [of "map wire_block bs" pre "[]"] by (simp add: comp_def list_all_iff)

lemma read_at: "length pre = n \<Longrightarrow> read_u32 (pre @ to_be32 w @ suf) n = Some w"
  using read_u32_to_be32 by blast

lemma read_u64_at: "length pre = n \<Longrightarrow> read_u64 (pre @ to_be64 w @ suf) n = Some w"
  using read_at [of pre n "ucast (drop_bit 32 w)" "to_be32 (ucast w) @ suf"]
    read_at [of "pre @ to_be32 (ucast (drop_bit 32 w))" "n + 4" "ucast w" suf]
  by (simp add: read_u64_def to_be64_def)

lemma part_of_sender: "\<exists>c t w pad body. part_of (Sender r) c t w pad body"
proof -
  define bs where "bs = take 31 (sr_reports r)"
  define c where "c = (of_nat (min (length (sr_reports r)) 31) :: u8)"
  have n: "min (length (sr_reports r)) 31 = length bs" "length bs \<le> 31" by (simp_all add: bs_def)
  define info where "info = to_be32 (sr_ssrc r) @ to_be64 (sr_ntp_timestamp r) @ to_be32 (sr_rtp_timestamp r)
      @ to_be32 (sr_packet_count r) @ to_be32 (sr_octet_count r)"
  have reads: "read_u32 (info @ x) 0 = Some (sr_ssrc r)" "read_u64 (info @ x) 4 = Some (sr_ntp_timestamp r)"
    "read_u32 (info @ x) 12 = Some (sr_rtp_timestamp r)" "read_u32 (info @ x) 16 = Some (sr_packet_count r)"
    "read_u32 (info @ x) 20 = Some (sr_octet_count r)" for x
    using read_at [of "[]" 0 "sr_ssrc r"] read_u64_at [of "to_be32 (sr_ssrc r)" 4 "sr_ntp_timestamp r"]
      read_at [of "to_be32 (sr_ssrc r) @ to_be64 (sr_ntp_timestamp r)" 12 "sr_rtp_timestamp r"]
      read_at [of "to_be32 (sr_ssrc r) @ to_be64 (sr_ntp_timestamp r) @ to_be32 (sr_rtp_timestamp r)" 16
        "sr_packet_count r"]
      read_at [of "to_be32 (sr_ssrc r) @ to_be64 (sr_ntp_timestamp r) @ to_be32 (sr_rtp_timestamp r)
        @ to_be32 (sr_packet_count r)" 20 "sr_octet_count r"]
    by (simp_all add: info_def)
  have blocks: "read_run read_block 24 (info @ concat (map put_block bs)) 24 (length bs) = Some (map wire_block bs)"
    using read_blocks [of info bs] by (simp add: info_def)
  have len: "unat (6 + ucast c * 6 :: u16) = 6 + length bs * 6"
    using count_octet(2) [OF n(2)] n(2) by (simp add: c_def n(1) unat_word_ariths(1))
  have "part_of (Sender r) c SENDER_REPORT (6 + ucast c * 6) False (info @ concat (map put_block bs))"
    using len reads blocks count_octet(1) [OF n(2)]
    by (simp add: part_of_def decode_one_def block.concat_enc_length c_def n(1) Let_def)
      (simp add: info_def bs_def)
  then show ?thesis by blast
qed

lemma part_of_receiver: "\<exists>c t w pad body. part_of (Receiver r) c t w pad body"
proof -
  define bs where "bs = take 31 (rr_reports r)"
  define c where "c = (of_nat (min (length (rr_reports r)) 31) :: u8)"
  have n: "min (length (rr_reports r)) 31 = length bs" "length bs \<le> 31" by (simp_all add: bs_def)
  have blocks: "read_run read_block 24 (to_be32 (rr_ssrc r) @ concat (map put_block bs)) 4 (length bs)
      = Some (map wire_block bs)"
    using read_blocks [of "to_be32 (rr_ssrc r)" bs] by simp
  have ssrc: "read_u32 (to_be32 (rr_ssrc r) @ x) 0 = Some (rr_ssrc r)" for x
    using read_at [of "[]" 0 "rr_ssrc r" x] by simp
  have len: "unat (1 + ucast c * 6 :: u16) = 1 + length bs * 6"
    using count_octet(2) [OF n(2)] n(2) by (simp add: c_def n(1) unat_word_ariths(1))
  have "part_of (Receiver r) c RECEIVER_REPORT (1 + ucast c * 6) False
      (to_be32 (rr_ssrc r) @ concat (map put_block bs))"
    using len ssrc blocks count_octet(1) [OF n(2)]
    by (simp add: part_of_def decode_one_def block.concat_enc_length c_def n(1) Let_def)
      (simp add: bs_def)
  then show ?thesis by blast
qed

lemma part_of_sdes:
  assumes "rtcp_sendable (Sdes s)"
  shows "\<exists>c t w pad body. part_of (Sdes s) c t w pad body"
proof -
  define cs where "cs = take 31 (sd_chunks s)"
  define c where "c = (of_nat (min (length (sd_chunks s)) 31) :: u8)"
  have n: "min (length (sd_chunks s)) 31 = length cs" "length cs \<le> 31" by (simp_all add: cs_def)
  define body where "body = foldl put_chunk [] cs"
  have fold_wire: "foldl put_chunk b (map wire_chunk cs) = foldl put_chunk b cs" for b
    by (induction cs arbitrary: b) (simp_all add: wire_chunk_facts)
  have body: "body = concat (map chunk_bytes (map wire_chunk cs))" "length body mod 4 = 0"
    using foldl_put_chunk [of "[]" "map wire_chunk cs"] fold_wire [of "[]"] unfolding body_def by auto
  have "list_all chunk_ok (map wire_chunk cs)"
    using assms by (auto simp: list_all_iff cs_def intro!: wire_chunk_facts)
  from read_chunks_put [of "[]", OF _ this, of "[]"]
  have chunks: "read_chunks body 0 (length cs) = Some (map wire_chunk cs)"
    by (simp add: body(1))
  have len: "length body = 4 * unat (length_words (length body div 4))"
  proof -
    have "length body div 4 < 65536" using assms by (simp add: body_def cs_def)
    then show ?thesis using body(2) by (simp add: length_words_def unat_of_nat) presburger
  qed
  have "part_of (Sdes s) c SOURCE_DESCRIPTION (length_words (length body div 4)) False body"
    using len chunks count_octet(1) [OF n(2)]
    by (simp add: part_of_def decode_one_def c_def n(1) Let_def) (simp add: cs_def body_def)
  then show ?thesis by blast
qed

lemma part_of_other:
  assumes "rtcp_sendable (Other t c pad b)"
  shows "\<exists>c' t' w p body. part_of (Other t c pad b) c' t' w p body"
proof -
  let ?n = "next_multiple_of4 (length b)"
  have "?n = 4 * unat (length_words (?n div 4))"
    using assms by (simp add: length_words_def next_multiple_of4_def unat_of_nat)
  moreover have "(of_nat (unat (c AND 0x1F)) :: u8) = c AND 0x1F" by simp
  ultimately have "part_of (Other t c pad b) c t (length_words (?n div 4)) pad
      (b @ replicate (?n - length b) 0)"
    using assms next_multiple_of4_bounds(1) [of "length b"]
    by (simp add: part_of_def decode_one_def Let_def flip: next_multiple_of4_def)
  then show ?thesis by blast
qed

lemma part_exists:
  assumes "rtcp_sendable p"
  shows "\<exists>c t w pad body. part_of p c t w pad body"
proof (cases p)
  case (Other t c pad b)
  then show ?thesis using assms part_of_other by blast
qed (use assms part_of_sender part_of_receiver part_of_sdes in blast)+

lemma decode_parts_compound:
  assumes "list_all rtcp_sendable ps"
  shows "decode_parts (pre @ encode_compound ps) (length pre) = Inr (map wire_form ps)"
  using assms
proof (induction ps arbitrary: pre)
  case Nil
  show ?case by (subst decode_parts.simps) (simp add: encode_compound_def)
next
  case (Cons p ps)
  obtain c t w pad body where part: "part_of p c t w pad body"
    using Cons.prems part_exists [of p] by (simp, blast)
  let ?h = "put_header c t w pad"
  have h: "length ?h = 4" by (simp add: put_header_def)
  have e: "encode_compound (p # ps) = ?h @ body @ encode_compound ps"
    using part by (simp add: part_of_def encode_compound_def)
  have rest: "decode_parts (pre @ ?h @ body @ encode_compound ps) (length (pre @ ?h @ body))
      = Inr (map wire_form ps)"
    using Cons.IH [of "pre @ ?h @ body"] Cons.prems by simp
  have one: "decode_one t (unat (c AND 0x1F)) pad body (pre @ ?h @ body @ encode_compound ps) (length pre)
      = Inr (wire_form p)"
    using part h by (simp add: part_of_def)
  show ?case
    unfolding e using decode_parts_header [OF _ one] part rest by (simp add: part_of_def)
qed

text \<open>
  A compound datagram reads back part by part. For any non-empty list of packets whose length
  fits the 16-bit length field, whose source description items have a type other than the
  terminator and whose unmodelled types are none of the three modelled ones, decoding the encoding
  returns every packet, in order, in its wire form: nothing is lost, merged or misread across the
  boundaries between the parts.
\<close>

theorem rtcp_compound_roundtrip:
  assumes "ps \<noteq> []" and "list_all rtcp_sendable ps"
  shows "decode_compound (encode_compound ps) = Inr (map wire_form ps)"
  using decode_parts_compound [OF assms(2), of "[]"] assms(1) by (simp add: decode_compound_def)


theorem rtcp_compound_roundtrip_witness:
  "decode_compound (encode_compound
      [Receiver \<lparr>rr_ssrc = 7, rr_reports = [\<lparr>rb_ssrc = 9, rb_fraction_lost = 1, rb_cumulative_lost = - 3,
         rb_extended_highest_sequence = 70000, rb_jitter = 12, rb_last_sender_report = 0,
         rb_delay_since_last_sender_report = 0\<rparr>]\<rparr>,
       Sdes (sdes_cname 7 [97, 64, 98]), Other 203 1 False [0, 0, 0, 7]]) =
    Inr [Receiver \<lparr>rr_ssrc = 7, rr_reports = [\<lparr>rb_ssrc = 9, rb_fraction_lost = 1, rb_cumulative_lost = - 3,
         rb_extended_highest_sequence = 70000, rb_jitter = 12, rb_last_sender_report = 0,
         rb_delay_since_last_sender_report = 0\<rparr>]\<rparr>,
       Sdes (sdes_cname 7 [97, 64, 98]), Other 203 1 False [0, 0, 0, 7]]"
  by (subst rtcp_compound_roundtrip)
    (simp_all add: sdes_cname_def SDES_CNAME_def put_chunk_def pad_words_eq put_item_def
      next_multiple_of4_def div_ceil4_def wire_block_def clamp_lost_def wire_chunk_def)

text \<open>The octets of a part of an unmodelled type, rebuilt from the fields the decoder kept.\<close>

lemma header_rebuild:
  assumes "drop_bit 6 (f :: u8) = 2"
  shows "0x80 OR push_bit 5 (of_bool (f AND 0x20 \<noteq> 0)) OR (of_nat (unat (f AND 0x1F)) AND 0x1F) = f"
proof (rule bit_word_eqI)
  have top: "bit f 7" "\<not> bit f 6"
    using arg_cong [OF assms, of "\<lambda>w. bit w 1"] arg_cong [OF assms, of "\<lambda>w. bit w 0"]
    by (simp_all add: bit_simps)
  have five: "f AND 0x20 \<noteq> 0 \<longleftrightarrow> bit f 5"
    using and_exp_eq_0_iff_not_bit [of f 5] by simp
  fix n assume "n < LENGTH(8)"
  then show "bit ((0x80 :: u8) OR push_bit 5 (of_bool (f AND 0x20 \<noteq> 0)) OR (of_nat (unat (f AND 0x1F)) AND 0x1F)) n
      = bit f n"
    by (cases rule: octet_bits) (use top five in \<open>auto simp: bit_simps\<close>)
qed

lemma decode_parts_Nil: "decode_parts bs off = Inr [] \<Longrightarrow> length bs < off + 4"
  by (subst (asm) decode_parts.simps) (auto simp: Let_def split: if_splits option.splits sum.splits)

lemma decode_parts_Cons:
  assumes "decode_parts bs off = Inr (p # ps)"
  defines "w \<equiv> unat (from_be16 (bs ! (off + 2)) (bs ! (off + 3)))"
  shows "drop_bit 6 (bs ! off) = 2"
    and "\<exists>body. get_range bs (off + 4) (off + (w + 1) * 4) = Some body \<and>
      decode_one (bs ! (off + 1)) (unat (bs ! off AND 0x1F)) (bs ! off AND 0x20 \<noteq> 0) body bs off = Inr p"
    and "decode_parts bs (off + (w + 1) * 4) = Inr ps"
  using assms(1) unfolding w_def
  by (subst (asm) decode_parts.simps, auto simp: Let_def split: if_splits option.splits sum.splits)+

lemma decode_one_Other:
  assumes "decode_one t n pad body whole off = Inr p" "is_Other p"
  shows "p = Other t (of_nat n) pad (take (length body) (drop (off + 4) whole))"
  using assms by (auto simp: decode_one_def bind_eq_Some_conv split: if_splits)

lemma other_part_verbatim:
  assumes "get_range bs (off + 4) (off + (w + 1) * 4) = Some body"
    and "w = unat (from_be16 (bs ! (off + 2)) (bs ! (off + 3)))" and "drop_bit 6 (bs ! off) = 2"
    and "decode_one (bs ! (off + 1)) (unat (bs ! off AND 0x1F)) (bs ! off AND 0x20 \<noteq> 0) body bs off = Inr p"
    and "is_Other p"
  shows "drop off bs = encode_rtcp p @ drop (off + (w + 1) * 4) bs"
proof -
  have b: "off + (w + 1) * 4 \<le> length bs" "body = take (w * 4) (drop (off + 4) bs)"
    using assms(1) by (simp_all add: get_range_eq_Some)
  then have len: "length body = w * 4" by simp
  have p: "p = Other (bs ! (off + 1)) (of_nat (unat (bs ! off AND 0x1F))) (bs ! off AND 0x20 \<noteq> 0) body"
    using decode_one_Other [OF assms(4,5)] b(2) len by simp
  have "w < 65536" using assms(2) unat_bounds(2) by simp
  then have words: "length_words (length body div 4) = from_be16 (bs ! (off + 2)) (bs ! (off + 3))"
    using len assms(2) by (simp add: length_words_def)
  have "encode_rtcp p = take 4 (drop off bs) @ body"
    using header_rebuild [OF assms(3)] words len b(1) take4_drop [of off bs]
    by (simp add: p put_header_def div_ceil4_def Let_def)
  moreover have "drop off bs = take 4 (drop off bs) @ drop (off + 4) bs"
    using append_take_drop_id [of 4 "drop off bs"] by (simp add: add.commute)
  moreover have "drop (off + 4) bs = body @ drop (off + (w + 1) * 4) bs"
    using append_take_drop_id [of "w * 4" "drop (off + 4) bs"] b(2)
    by (simp add: algebra_simps)
  ultimately show ?thesis by simp
qed

lemma decode_parts_others:
  "decode_parts bs off = Inr ps \<Longrightarrow> list_all is_Other ps \<Longrightarrow>
     \<exists>rest. drop off bs = encode_compound ps @ rest \<and> length rest < 4"
proof (induction ps arbitrary: off)
  case Nil
  then show ?case using decode_parts_Nil by (fastforce simp: encode_compound_def)
next
  case (Cons p ps)
  define w where "w = unat (from_be16 (bs ! (off + 2)) (bs ! (off + 3)))"
  note step = decode_parts_Cons [OF Cons.prems(1), folded w_def]
  obtain body where body: "get_range bs (off + 4) (off + (w + 1) * 4) = Some body"
    "decode_one (bs ! (off + 1)) (unat (bs ! off AND 0x1F)) (bs ! off AND 0x20 \<noteq> 0) body bs off = Inr p"
    using step(2) by blast
  obtain rest where "drop (off + (w + 1) * 4) bs = encode_compound ps @ rest" "length rest < 4"
    using Cons.IH [OF step(3)] Cons.prems(2) by auto
  with other_part_verbatim [OF body(1) w_def step(1) body(2)] Cons.prems(2) show ?case
    by (auto simp: encode_compound_def)
qed

text \<open>
  Parts the crate does not model are forwarded verbatim. When a datagram decodes and all its
  parts are of other types, encoding the parts again gives back the datagram octet for octet (count
  bits, padding bit and body included), except for fewer than four trailing octets, which cannot be
  a part.
\<close>

theorem rtcp_other_verbatim:
  assumes "decode_compound bs = Inr ps" and "list_all is_Other ps"
  shows "\<exists>rest. bs = encode_compound ps @ rest \<and> length rest < 4"
proof -
  have "decode_parts bs 0 = Inr ps"
    using assms(1) by (auto simp: decode_compound_def bind_res_Inr_iff split: if_splits)
  from decode_parts_others [OF this assms(2)] show ?thesis by simp
qed

theorem rtcp_other_verbatim_witness:
  "\<exists>rest. [0xA1, 203, 0, 1, 0, 0, 0, 7, 5] = encode_compound [Other 203 1 True [0, 0, 0, 7]] @ rest \<and> length rest < 4"
proof -
  have "decode_compound [0xA1, 203, 0, 1, 0, 0, 0, 7, 5] = Inr [Other 203 1 True [0, 0, 0, 7]]"
    by code_simp
  from rtcp_other_verbatim [OF this] show ?thesis by simp
qed

end
