(* ===== verification/Rtcp_Stats.thy ===== *)
theory Rtcp_Stats
  imports Rtcp_Packet Rust_Float
begin

text \<open>
  Reception statistics and report blocks, \<open>StreamStats\<close> of \<open>crates/sipx-rtp/src/rtcp.rs\<close>. The
  wrap count and the extended sequence number are 32-bit words; the \<open>u64\<close> packet counters are
  natural numbers (they count arrivals), converted to \<open>i64\<close> and \<open>i32\<close> where the code does.
\<close>

record stream_stats =
  ss_ssrc :: u32
  ss_base_sequence :: "u16 option"
  ss_cycles :: u32
  ss_highest_sequence :: u16
  ss_received :: nat
  ss_received_at_last_report :: nat
  ss_expected_at_last_report :: nat
  ss_jitter :: f64
  ss_last_transit :: "u32 option"

definition ss_new :: "u32 \<Rightarrow> stream_stats" where
  "ss_new ssrc = \<lparr>ss_ssrc = ssrc, ss_base_sequence = None, ss_cycles = 0, ss_highest_sequence = 0,
     ss_received = 0, ss_received_at_last_report = 0, ss_expected_at_last_report = 0,
     ss_jitter = 0, ss_last_transit = None\<rparr>"

definition ss_set_ssrc :: "stream_stats \<Rightarrow> u32 \<Rightarrow> stream_stats" where
  "ss_set_ssrc s ssrc = s\<lparr>ss_ssrc := ssrc\<rparr>"

definition ss_record :: "stream_stats \<Rightarrow> u16 \<Rightarrow> stream_stats" where
  "ss_record s0 sequence =
     (let s = s0\<lparr>ss_received := ss_received s0 + 1\<rparr>
      in case ss_base_sequence s of
           None \<Rightarrow> s\<lparr>ss_base_sequence := Some sequence, ss_highest_sequence := sequence\<rparr>
         | Some _ \<Rightarrow>
             if sequence_is_newer sequence (ss_highest_sequence s) then
               (let s = (if sequence < ss_highest_sequence s
                         then s\<lparr>ss_cycles := ss_cycles s + 1\<rparr> else s)
                in s\<lparr>ss_highest_sequence := sequence\<rparr>)
             else s)"

definition ss_on_packet :: "stream_stats \<Rightarrow> u16 \<Rightarrow> u32 \<Rightarrow> u32 \<Rightarrow> stream_stats" where
  "ss_on_packet s0 sequence rtp_timestamp arrival =
     (let s = ss_record s0 sequence;
          transit = arrival - rtp_timestamp;
          s = (case ss_last_transit s of
                 None \<Rightarrow> s
               | Some previous \<Rightarrow>
                   let difference = unsigned_abs (transit - previous)
                   in s\<lparr>ss_jitter := smooth16 (ss_jitter s) (f64_from difference)\<rparr>)
      in s\<lparr>ss_last_transit := Some transit\<rparr>)"

definition ss_on_untimed_packet :: "stream_stats \<Rightarrow> u16 \<Rightarrow> stream_stats" where
  "ss_on_untimed_packet s sequence = ss_record s sequence"

definition ss_extended_highest_sequence :: "stream_stats \<Rightarrow> u32" where
  "ss_extended_highest_sequence s = push_bit 16 (ss_cycles s) OR ucast (ss_highest_sequence s)"

definition ss_expected :: "stream_stats \<Rightarrow> nat" where
  "ss_expected s = (case ss_base_sequence s of
       None \<Rightarrow> 0
     | Some base \<Rightarrow> (unat (ss_extended_highest_sequence s) - unat base) + 1)"

text \<open>\<open>i64::try_from(n).unwrap_or(d)\<close> on a \<open>u64\<close>.\<close>

definition i64_or :: "int \<Rightarrow> nat \<Rightarrow> int" where
  "i64_or d n = (if n < 2 ^ 63 then int n else d)"

definition ss_cumulative_lost :: "stream_stats \<Rightarrow> int" where
  "ss_cumulative_lost s = i64_or 0 (ss_expected s) - i64_or 0 (ss_received s)"

definition ss_jitter_units :: "stream_stats \<Rightarrow> u32" where
  "ss_jitter_units s = f64_as_u32 (ss_jitter s)"

definition ss_pending_report_block :: "stream_stats \<Rightarrow> report_block" where
  "ss_pending_report_block s =
     (let expected_interval = ss_expected s - ss_expected_at_last_report s;
          received_interval = ss_received s - ss_received_at_last_report s;
          lost_interval = i64_or 0 expected_interval - i64_or 0 received_interval;
          fraction = (if expected_interval = 0 \<or> lost_interval \<le> 0 then 0
            else (let scaled = (lost_interval * 256) div i64_or 1 expected_interval
                  in of_int (max 0 (min scaled 255))));
          lost = ss_cumulative_lost s
      in \<lparr>rb_ssrc = ss_ssrc s, rb_fraction_lost = fraction,
          rb_cumulative_lost = (if - (2 ^ 31) \<le> lost \<and> lost < 2 ^ 31 then lost else 0),
          rb_extended_highest_sequence = ss_extended_highest_sequence s,
          rb_jitter = ss_jitter_units s, rb_last_sender_report = 0,
          rb_delay_since_last_sender_report = 0\<rparr>)"

definition ss_report_block :: "stream_stats \<Rightarrow> report_block \<times> stream_stats" where
  "ss_report_block s =
     (ss_pending_report_block s,
      s\<lparr>ss_expected_at_last_report := ss_expected s, ss_received_at_last_report := ss_received s\<rparr>)"

section \<open>Runs\<close>

text \<open>The operations of a receiving stream; a report hands out its block.\<close>

datatype ss_event = Packet u16 u32 u32 | Untimed u16 | Named u32 | Report

fun ss_step :: "stream_stats \<Rightarrow> ss_event \<Rightarrow> report_block list \<times> stream_stats" where
  "ss_step s (Packet n t a) = ([], ss_on_packet s n t a)"
| "ss_step s (Untimed n) = ([], ss_on_untimed_packet s n)"
| "ss_step s (Named ssrc) = ([], ss_set_ssrc s ssrc)"
| "ss_step s Report = (let (b, s') = ss_report_block s in ([b], s'))"

fun ss_run :: "stream_stats \<Rightarrow> ss_event list \<Rightarrow> report_block list \<times> stream_stats" where
  "ss_run s [] = ([], s)"
| "ss_run s (e # es) = (fst (ss_step s e) @ fst (ss_run (snd (ss_step s e)) es),
     snd (ss_run (snd (ss_step s e)) es))"

fun arrival_of :: "ss_event \<Rightarrow> u16 option" where
  "arrival_of (Packet n t a) = Some n"
| "arrival_of (Untimed n) = Some n"
| "arrival_of (Named _) = None"
| "arrival_of Report = None"


section \<open>Counting against the true packet numbers\<close>

lemma ss_record_frame:
  "ss_received (ss_record s n) = ss_received s + 1"
  "ss_jitter (ss_record s n) = ss_jitter s" "ss_last_transit (ss_record s n) = ss_last_transit s"
  "ss_ssrc (ss_record s n) = ss_ssrc s"
  "ss_expected_at_last_report (ss_record s n) = ss_expected_at_last_report s"
  "ss_received_at_last_report (ss_record s n) = ss_received_at_last_report s"
  by (auto simp: ss_record_def Let_def split: option.splits)

lemma ss_on_packet_frame:
  "ss_base_sequence (ss_on_packet s n t a) = ss_base_sequence (ss_record s n)"
  "ss_cycles (ss_on_packet s n t a) = ss_cycles (ss_record s n)"
  "ss_highest_sequence (ss_on_packet s n t a) = ss_highest_sequence (ss_record s n)"
  "ss_received (ss_on_packet s n t a) = ss_received (ss_record s n)"
  "ss_ssrc (ss_on_packet s n t a) = ss_ssrc s"
  "ss_expected_at_last_report (ss_on_packet s n t a) = ss_expected_at_last_report s"
  "ss_received_at_last_report (ss_on_packet s n t a) = ss_received_at_last_report s"
  by (auto simp: ss_on_packet_def Let_def ss_record_frame split: option.splits)

text \<open>
  \<open>ss_tracks n\<^sub>0 h s\<close>: the statistics started at packet number \<open>n\<^sub>0\<close> and have seen \<open>h\<close> as the
  highest; \<open>in_window h ns\<close>: each arrival lies less than half the number space from the highest.
\<close>

definition ss_tracks :: "nat \<Rightarrow> nat \<Rightarrow> stream_stats \<Rightarrow> bool" where
  "ss_tracks n0 h s \<longleftrightarrow> ss_base_sequence s = Some (of_nat n0) \<and> ss_highest_sequence s = of_nat h
     \<and> ss_cycles s = of_nat (h div 65536 - n0 div 65536) \<and> n0 \<le> h"

fun in_window :: "nat \<Rightarrow> nat list \<Rightarrow> bool" where
  "in_window h [] \<longleftrightarrow> True"
| "in_window h (n # ns) \<longleftrightarrow> n < h + 32768 \<and> h < n + 32768 \<and> in_window (max h n) ns"

lemma ss_tracks_first: "ss_base_sequence s = None \<Longrightarrow> ss_cycles s = 0 \<Longrightarrow> ss_tracks n n (ss_record s (of_nat n))"
  by (simp add: ss_record_def ss_tracks_def Let_def)

lemma ss_tracks_record:
  assumes "ss_tracks n0 h s" "n < h + 32768" "h < n + 32768"
  shows "ss_tracks n0 (max h n) (ss_record s (of_nat n))"
proof (cases "h < n")
  case True
  note newer = sequence_is_newer_true [OF assms(2,3)]
  have le: "n0 div 65536 \<le> h div 65536"
    using assms(1) by (simp add: ss_tracks_def div_le_mono)
  have "ss_cycles (ss_record s (of_nat n)) =
      (if n div 65536 = h div 65536 + 1 then ss_cycles s + 1 else ss_cycles s)"
    using assms(1) True newer(1,2) by (simp add: ss_record_def ss_tracks_def Let_def)
  also have "\<dots> = of_nat (n div 65536 - n0 div 65536)"
    using assms(1) newer(3) [OF True] le by (auto simp: ss_tracks_def Suc_diff_le)
  finally show ?thesis
    using assms(1) True newer(1) by (simp add: ss_record_def ss_tracks_def Let_def max_absorb2)
next
  case False
  with assms sequence_is_newer_true(1) [OF assms(2,3)] show ?thesis
    by (simp add: ss_record_def ss_tracks_def Let_def max_absorb1)
qed

lemma extended_word:
  assumes "c * 65536 + unat w < 2 ^ 32"
  shows "unat (push_bit 16 (of_nat c :: u32) OR ucast (w :: u16)) = c * 65536 + unat w"
proof -
  have "push_bit 16 (of_nat c :: u32) OR ucast w = push_bit 16 (of_nat c) + ucast w"
    by (rule disjunctive_add [symmetric]) (auto simp: bit_simps dest: bit_imp_le_length)
  moreover have "push_bit 16 (of_nat c :: u32) = of_nat (c * 65536)"
    by (simp add: push_bit_eq_mult mult.commute)
  moreover have "(ucast w :: u32) = of_nat (unat w)" by simp
  ultimately have "push_bit 16 (of_nat c :: u32) OR ucast w = of_nat (c * 65536 + unat w)"
    by (simp only: of_nat_add)
  then have "unat (push_bit 16 (of_nat c :: u32) OR ucast w) = unat (of_nat (c * 65536 + unat w) :: u32)"
    by (rule arg_cong)
  also have "\<dots> = c * 65536 + unat w" using assms by (intro unat_of_nat_small) simp
  finally show ?thesis .
qed

lemma ss_expected_tracks:
  assumes "ss_tracks n0 h s" "h - n0 + 65536 \<le> 2 ^ 32"
  shows "ss_expected s = h - n0 + 1"
proof -
  let ?c = "h div 65536 - n0 div 65536"
  have s: "n0 \<le> h" "ss_base_sequence s = Some (of_nat n0)" "ss_highest_sequence s = of_nat h"
    "ss_cycles s = of_nat ?c"
    using assms(1) by (simp_all add: ss_tracks_def)
  have cut: "unat (of_nat m :: u16) = m mod 65536" for m by (simp add: unat_of_nat)
  have "n0 div 65536 \<le> h div 65536" using s(1) by (rule div_le_mono)
  then have h: "?c * 65536 + h mod 65536 = h - n0 div 65536 * 65536"
    using div_mult_mod_eq [of h 65536] unfolding diff_mult_distrib by linarith
  have n0: "n0 div 65536 * 65536 + n0 mod 65536 = n0" "n0 mod 65536 < 65536" by simp_all
  have "h - n0 div 65536 * 65536 < 2 ^ 32" using assms(2) n0 s(1) by linarith
  then have "unat (ss_extended_highest_sequence s) = h - n0 div 65536 * 65536"
    using extended_word [of ?c "of_nat h"] by (simp only: ss_extended_highest_sequence_def s cut h)
  then have "ss_expected s = h - n0 div 65536 * 65536 - n0 mod 65536 + 1"
    by (simp only: ss_expected_def s option.case cut)
  then show ?thesis using n0 by linarith
qed


text \<open>Only arrivals move the counters; a report only closes its interval.\<close>

lemma ss_step_tracks:
  assumes "ss_tracks n0 h s"
    and "case arrival_of e of None \<Rightarrow> m = h | Some w \<Rightarrow> \<exists>n. w = of_nat n \<and> n < h + 32768 \<and> h < n + 32768 \<and> m = max h n"
  shows "ss_tracks n0 m (snd (ss_step s e))"
  using assms ss_tracks_record
  by (cases e) (auto simp: ss_tracks_def ss_on_packet_frame ss_on_untimed_packet_def ss_set_ssrc_def
      ss_report_block_def)

lemma ss_step_received:
  "ss_received (snd (ss_step s e)) = ss_received s + (if arrival_of e = None then 0 else 1)"
  by (cases e) (simp_all add: ss_on_packet_frame ss_on_untimed_packet_def ss_set_ssrc_def
      ss_report_block_def ss_record_frame)

lemma map_filter_Cons:
  "List.map_filter f (x # xs) = (case f x of None \<Rightarrow> List.map_filter f xs | Some y \<Rightarrow> y # List.map_filter f xs)"
  by (simp add: List.map_filter_def split: option.splits)

lemma ss_run_tracks:
  "ss_tracks n0 h s \<Longrightarrow> List.map_filter arrival_of es = map of_nat ns \<Longrightarrow> in_window h ns \<Longrightarrow>
     ss_tracks n0 (Max (set (h # ns))) (snd (ss_run s es)) \<and>
     ss_received (snd (ss_run s es)) = ss_received s + length ns"
proof (induction es arbitrary: h s ns)
  case Nil
  then show ?case by (simp add: List.map_filter_def)
next
  case (Cons e es)
  show ?case
  proof (cases "arrival_of e")
    case None
    then have "ss_tracks n0 h (snd (ss_step s e))"
      using Cons.prems(1) by (intro ss_step_tracks) simp_all
    with Cons.IH [OF this _ Cons.prems(3)] Cons.prems(2) None ss_step_received [of s e] show ?thesis
      by (simp add: map_filter_Cons)
  next
    case (Some w)
    with Cons.prems(2) obtain n ms where ns: "ns = n # ms" "w = of_nat n"
      "List.map_filter arrival_of es = map of_nat ms"
      by (cases ns) (auto simp: map_filter_Cons)
    have t: "ss_tracks n0 (max h n) (snd (ss_step s e))"
      using Cons.prems(1,3) Some ns by (intro ss_step_tracks) auto
    have "Max (set (max h n # ms)) = Max (set (h # ns))"
      using ns(1) by (cases ms) (simp_all add: max.assoc)
    with Cons.IH [OF t ns(3)] Cons.prems(3) Some ns(1) ss_step_received [of s e] show ?thesis by simp
  qed
qed

lemma ss_run_append:
  "ss_run s (es @ fs) = (fst (ss_run s es) @ fst (ss_run (snd (ss_run s es)) fs),
     snd (ss_run (snd (ss_run s es)) fs))"
  by (induction es arbitrary: s) simp_all

lemma ss_quiet_step:
  assumes "arrival_of e = None"
  shows "ss_base_sequence (snd (ss_step s e)) = ss_base_sequence s" "ss_cycles (snd (ss_step s e)) = ss_cycles s"
    "ss_received (snd (ss_step s e)) = ss_received s"
  using assms by (cases e; simp add: ss_set_ssrc_def ss_report_block_def)+

lemma ss_run_first:
  "ss_base_sequence s = None \<Longrightarrow> ss_cycles s = 0 \<Longrightarrow>
     List.map_filter arrival_of es = map of_nat (n0 # ns) \<Longrightarrow> in_window n0 ns \<Longrightarrow>
     ss_tracks n0 (Max (set (n0 # ns))) (snd (ss_run s es)) \<and>
     ss_received (snd (ss_run s es)) = ss_received s + length (n0 # ns)"
proof (induction es arbitrary: s)
  case Nil
  then show ?case by (simp add: List.map_filter_def)
next
  case (Cons e es)
  show ?case
  proof (cases "arrival_of e")
    case None
    with Cons ss_quiet_step [OF None] show ?thesis by (simp add: map_filter_Cons)
  next
    case (Some w)
    then have w: "w = of_nat n0" "List.map_filter arrival_of es = map of_nat ns"
      using Cons.prems(3) by (simp_all add: map_filter_Cons)
    have "ss_tracks n0 n0 (snd (ss_step s e))"
      using Some w(1) ss_tracks_first [OF Cons.prems(1,2), of n0]
      by (cases e) (simp_all add: ss_tracks_def ss_on_packet_frame ss_on_untimed_packet_def)
    from ss_run_tracks [OF this w(2) Cons.prems(4)] Some ss_step_received [of s e] show ?thesis by simp
  qed
qed

text \<open>
  Loss is inferred exactly. Take any stream of arrivals, timed or not, with reports and renames
  in between, whose packets carry the low 16 bits of their true numbers, each less than half the
  number space from the highest seen, over less than \<open>2 ^ 32 - 65536\<close> numbers in all. Then the
  expected count is the length of the range from the first to the highest number, the received count
  is the number of arrivals and the cumulative loss their (signed) difference; when no packet was
  duplicated or older than the first, it is the number of packets of the range that never arrived.
\<close>

theorem rtcp_loss_exact:
  assumes "List.map_filter arrival_of es = map of_nat (n0 # ns)" and "in_window n0 ns"
    and "Max (set (n0 # ns)) - n0 + 65536 \<le> 2 ^ 32" and "length ns < 2 ^ 32"
  shows "let s = snd (ss_run (ss_new ssrc) es); h = Max (set (n0 # ns)) in
    ss_expected s = h - n0 + 1 \<and> ss_received s = length (n0 # ns) \<and>
    ss_cumulative_lost s = int (h - n0 + 1) - int (length (n0 # ns)) \<and>
    (distinct (n0 # ns) \<and> (\<forall>n \<in> set ns. n0 \<le> n) \<longrightarrow>
       ss_cumulative_lost s = int (card ({n0..h} - set (n0 # ns))))"
proof -
  let ?s = "snd (ss_run (ss_new ssrc) es)" and ?h = "Max (set (n0 # ns))"
  have t: "ss_tracks n0 ?h ?s" "ss_received ?s = length (n0 # ns)"
    using ss_run_first [OF _ _ assms(1,2), of "ss_new ssrc"] by (simp_all add: ss_new_def)
  note e = ss_expected_tracks [OF t(1) assms(3)]
  have lost: "ss_cumulative_lost ?s = int (?h - n0 + 1) - int (length (n0 # ns))"
    using assms(3,4) by (simp only: ss_cumulative_lost_def i64_or_def e t(2)) simp
  have "card ({n0..?h} - set (n0 # ns)) = ?h - n0 + 1 - length (n0 # ns) \<and> length (n0 # ns) \<le> ?h - n0 + 1"
    if "distinct (n0 # ns)" "\<forall>n \<in> set ns. n0 \<le> n"
  proof -
    have sub: "set (n0 # ns) \<subseteq> {n0..?h}" using that(2) by auto
    have c: "card (set (n0 # ns)) = length (n0 # ns)" using that(1) by (rule distinct_card)
    show ?thesis
      using card_Diff_subset [OF _ sub] card_mono [OF _ sub] c by (simp add: Suc_diff_le)
  qed
  moreover have "int (?h - n0 + 1) - int (length (n0 # ns)) = int (?h - n0 + 1 - length (n0 # ns))"
    if "length (n0 # ns) \<le> ?h - n0 + 1"
    using that by (rule of_nat_diff [symmetric])
  ultimately show ?thesis using e t(2) lost unfolding Let_def by metis
qed


theorem rtcp_loss_exact_witness:
  "ss_cumulative_lost (snd (ss_run (ss_new 1) [Untimed 65534, Report, Packet 1 320 400, Untimed 65535])) = 1"
proof -
  have arr: "List.map_filter arrival_of [Untimed 65534, Report, Packet 1 320 400, Untimed 65535] =
      map of_nat [65534, 65537, 65535]"
    by (simp add: List.map_filter_def)
  have "Max (set [65534, 65537, 65535 :: nat]) = 65537" by simp
  with rtcp_loss_exact [OF arr, of 1] show ?thesis by (simp add: Let_def)
qed

section \<open>The loss fraction of a report\<close>

lemma ss_no_report:
  "Report \<notin> set es \<Longrightarrow>
     ss_expected_at_last_report (snd (ss_run s es)) = ss_expected_at_last_report s \<and>
     ss_received_at_last_report (snd (ss_run s es)) = ss_received_at_last_report s"
proof (induction es arbitrary: s)
  case (Cons e es)
  have "ss_expected_at_last_report (snd (ss_step s e)) = ss_expected_at_last_report s \<and>
      ss_received_at_last_report (snd (ss_step s e)) = ss_received_at_last_report s"
    using Cons.prems by (cases e) (auto simp: ss_on_packet_frame ss_on_untimed_packet_def ss_set_ssrc_def
        ss_record_frame)
  with Cons show ?case by simp
qed simp

lemma fraction_value:
  assumes "e \<noteq> 0" "e < 2 ^ 63" "r < 2 ^ 63" "\<not> int e - int r \<le> 0"
  shows "unat (of_int (max 0 (min ((int e - int r) * 256 div int e) 255)) :: u8) = min 255 (256 * (e - r) div e)"
proof -
  have "(int e - int r) * 256 div int e = int (256 * (e - r) div e)"
    using assms(4) by (simp add: zdiv_int of_nat_diff mult.commute)
  then have "max 0 (min ((int e - int r) * 256 div int e) 255) = int (min 255 (256 * (e - r) div e))"
    by simp
  moreover have "min 255 (256 * (e - r) div e) < 256" by (simp add: min_less_iff_disj)
  ultimately show ?thesis by simp
qed

lemma pending_fraction:
  assumes "ss_expected s = ss_expected_at_last_report s + e" "ss_received s = ss_received_at_last_report s + r"
    and "e < 2 ^ 63" "r < 2 ^ 63"
  shows "unat (rb_fraction_lost (ss_pending_report_block s)) = (if e = 0 then 0 else min 255 (256 * (e - r) div e))"
proof (cases "e = 0 \<or> int e - int r \<le> 0")
  case True
  with assms show ?thesis by (auto simp: ss_pending_report_block_def Let_def i64_or_def)
next
  case False
  then have "rb_fraction_lost (ss_pending_report_block s) = of_int (max 0 (min ((int e - int r) * 256 div int e) 255))"
    using assms by (simp add: ss_pending_report_block_def Let_def i64_or_def)
  with False assms(3,4) fraction_value [of e r] show ?thesis by simp
qed

text \<open>
  A report's loss fraction covers exactly the interval since the previous report. With a stream
  as before, cut by a report after the arrivals up to \<open>h\<^sub>1\<close>, and the arrivals \<open>ms\<close> (highest now
  \<open>h\<^sub>2\<close>) after it, the next report's fraction is the 256ths of the \<open>h\<^sub>2 - h\<^sub>1\<close> new numbers that are
  not covered by the new arrivals, at most 255 and 0 when nothing new was expected: earlier loss does
  not stay in the figure, and it does not depend on how often the figures were read in between.
\<close>

theorem rtcp_fraction_exact:
  assumes "List.map_filter arrival_of es = map of_nat (n0 # ns)" and "in_window n0 ns"
    and "List.map_filter arrival_of fs = map of_nat ms" and "in_window h1 ms" and "Report \<notin> set fs"
    and "h1 = Max (set (n0 # ns))" and "h2 = Max (set (h1 # ms))"
    and "h2 - n0 + 65536 \<le> 2 ^ 32" and "length ms < 2 ^ 32"
  shows "unat (rb_fraction_lost (last (fst (ss_run (ss_new ssrc) (es @ Report # fs @ [Report]))))) =
    (if h2 = h1 then 0 else min 255 (256 * (h2 - h1 - length ms) div (h2 - h1)))"
proof -
  let ?s1 = "snd (ss_run (ss_new ssrc) es)"
  let ?s2 = "snd (ss_report_block ?s1)"
  let ?s3 = "snd (ss_run ?s2 fs)"
  have le: "n0 \<le> h1" "h1 \<le> h2" using assms(6,7) by simp_all
  have t1: "ss_tracks n0 h1 ?s1"
    using ss_run_first [OF _ _ assms(1,2), of "ss_new ssrc"] assms(6) by (simp add: ss_new_def)
  then have t2: "ss_tracks n0 h1 ?s2" by (simp add: ss_report_block_def ss_tracks_def)
  have t3: "ss_tracks n0 h2 ?s3" "ss_received ?s3 = ss_received ?s2 + length ms"
    using ss_run_tracks [OF t2 assms(3,4)] assms(7) by simp_all
  have e: "ss_expected ?s1 = h1 - n0 + 1" "ss_expected ?s3 = h2 - n0 + 1"
    using ss_expected_tracks [OF t1] ss_expected_tracks [OF t3(1)] assms(8) le by simp_all
  have at: "ss_expected_at_last_report ?s3 = ss_expected ?s1" "ss_received_at_last_report ?s3 = ss_received ?s2"
    using ss_no_report [OF assms(5), of ?s2] by (simp_all add: ss_report_block_def)
  have "unat (rb_fraction_lost (ss_pending_report_block ?s3)) =
      (if h2 - h1 = 0 then 0 else min 255 (256 * (h2 - h1 - length ms) div (h2 - h1)))"
  proof (rule pending_fraction)
    show "ss_expected ?s3 = ss_expected_at_last_report ?s3 + (h2 - h1)"
      using e at(1) le by simp
    show "ss_received ?s3 = ss_received_at_last_report ?s3 + length ms" using t3(2) at(2) by simp
    show "h2 - h1 < 2 ^ 63" "length ms < 2 ^ 63" using assms(8,9) le by simp_all
  qed
  moreover have "last (fst (ss_run (ss_new ssrc) (es @ Report # fs @ [Report]))) = ss_pending_report_block ?s3"
    by (simp add: ss_run_append case_prod_beta ss_report_block_def)
  moreover have "h2 - h1 = 0 \<longleftrightarrow> h2 = h1" using le by auto
  ultimately show ?thesis by simp
qed

theorem rtcp_fraction_exact_witness:
  "unat (rb_fraction_lost (last (fst (ss_run (ss_new 1)
     ([Untimed 10, Untimed 19] @ Report # [Untimed 20, Untimed 23] @ [Report]))))) = 128"
proof -
  have a: "List.map_filter arrival_of [Untimed 10, Untimed 19] = map of_nat [10, 19]"
    "List.map_filter arrival_of [Untimed 20, Untimed 23] = map of_nat [20, 23]"
    by (simp_all add: List.map_filter_def)
  show ?thesis
    using rtcp_fraction_exact [OF a(1) _ a(2), of 19 23 1] by simp
qed

section \<open>Clock origins\<close>

fun shift_clocks :: "u32 \<Rightarrow> u32 \<Rightarrow> ss_event \<Rightarrow> ss_event" where
  "shift_clocks dt da (Packet n t a) = Packet n (t + dt) (a + da)"
| "shift_clocks dt da e = e"

definition shift_transit :: "u32 \<Rightarrow> stream_stats \<Rightarrow> stream_stats" where
  "shift_transit d s = s\<lparr>ss_last_transit := map_option (\<lambda>x. x + d) (ss_last_transit s)\<rparr>"

lemma ss_record_transit:
  "ss_record (s\<lparr>ss_last_transit := x\<rparr>) n = (ss_record s n)\<lparr>ss_last_transit := x\<rparr>"
  by (simp add: ss_record_def Let_def split: option.splits)

lemma ss_step_shift:
  "ss_step (shift_transit (da - dt) s) (shift_clocks dt da e) =
     (fst (ss_step s e), shift_transit (da - dt) (snd (ss_step s e)))"
proof (cases e)
  case (Packet n t a)
  then show ?thesis
    by (cases "ss_last_transit s")
      (simp_all add: shift_transit_def ss_on_packet_def ss_record_transit ss_record_frame Let_def
        algebra_simps)
qed (simp_all add: shift_transit_def ss_on_untimed_packet_def ss_record_transit ss_record_frame
    ss_set_ssrc_def ss_report_block_def ss_pending_report_block_def ss_expected_def ss_cumulative_lost_def
    ss_extended_highest_sequence_def ss_jitter_units_def Let_def cong: option.case_cong)

lemma ss_run_shift:
  "fst (ss_run (shift_transit (da - dt) s) (map (shift_clocks dt da) es)) = fst (ss_run s es)"
  by (induction es arbitrary: s) (simp_all add: ss_step_shift)

lemma ss_jitter_bounds:
  "0 \<le> ss_jitter s \<and> ss_jitter s \<le> 2 powi 31 \<Longrightarrow>
     0 \<le> ss_jitter (snd (ss_run s es)) \<and> ss_jitter (snd (ss_run s es)) \<le> 2 powi 31"
proof (induction es arbitrary: s)
  case (Cons e es)
  have "0 \<le> ss_jitter (snd (ss_step s e)) \<and> ss_jitter (snd (ss_step s e)) \<le> 2 powi 31"
    using Cons.prems smooth16_unsigned_abs
    by (cases e) (auto simp: ss_on_packet_def ss_on_untimed_packet_def ss_set_ssrc_def ss_report_block_def
        ss_record_frame Let_def split: option.splits)
  with Cons.IH show ?case by simp
qed simp

text \<open>
  Reports do not depend on where the two clocks start. Adding any constant to all RTP
  timestamps and any constant to all arrival times, both modulo \<open>2 ^ 32\<close> so that either clock may
  wrap mid-call, leaves every report block of the stream unchanged, jitter included; and the jitter
  estimate always lies between 0 and \<open>2 ^ 31\<close>.
\<close>

theorem rtcp_clock_origin:
  "fst (ss_run (ss_new ssrc) (map (shift_clocks dt da) es)) = fst (ss_run (ss_new ssrc) es) \<and>
   0 \<le> ss_jitter (snd (ss_run (ss_new ssrc) es)) \<and> ss_jitter (snd (ss_run (ss_new ssrc) es)) \<le> 2 ^ 31"
proof
  have "shift_transit (da - dt) (ss_new ssrc) = ss_new ssrc" by (simp add: shift_transit_def ss_new_def)
  with ss_run_shift [of da dt "ss_new ssrc" es]
  show "fst (ss_run (ss_new ssrc) (map (shift_clocks dt da) es)) = fst (ss_run (ss_new ssrc) es)" by simp
  show "0 \<le> ss_jitter (snd (ss_run (ss_new ssrc) es)) \<and> ss_jitter (snd (ss_run (ss_new ssrc) es)) \<le> 2 ^ 31"
    using ss_jitter_bounds [of "ss_new ssrc" es] by (simp add: ss_new_def)
qed

end
