(* ===== verification/Dtmf.thy ===== *)
theory Dtmf
  imports Rtp_Packet
begin

text \<open>
  DTMF as telephone events, \<open>crates/sipx-rtp/src/dtmf.rs\<close>: digits and their codes, the four-octet
  event payload, the packets of one keypress and the receiver that reassembles them. A Rust
  \<open>char\<close> is its code point, a natural number.
\<close>

section \<open>Digits\<close>

datatype digit = Number u8 | Star | Hash | Letter u8

fun digit_code :: "digit \<Rightarrow> u8" where
  "digit_code (Number n) = min n 9"
| "digit_code Star = 10"
| "digit_code Hash = 11"
| "digit_code (Letter l) = 12 + min l 3"

definition digit_from_code :: "u8 \<Rightarrow> digit option" where
  "digit_from_code code =
     (if code \<le> 9 then Some (Number code)
      else if code = 10 then Some Star
      else if code = 11 then Some Hash
      else if 12 \<le> code \<and> code \<le> 15 then Some (Letter (code - 12))
      else None)"

definition digit_from_char :: "nat \<Rightarrow> digit option" where
  "digit_from_char c =
     (if 48 \<le> c \<and> c \<le> 57 then Some (Number (of_nat (c - 48)))
      else if c = 42 then Some Star
      else if c = 35 then Some Hash
      else if 65 \<le> c \<and> c \<le> 68 then Some (Letter (of_nat (c - 65)))
      else if 97 \<le> c \<and> c \<le> 100 then Some (Letter (of_nat (c - 97)))
      else None)"

fun digit_as_char :: "digit \<Rightarrow> nat" where
  "digit_as_char (Number n) = unat (48 + min n 9 :: u8)"
| "digit_as_char Star = 42"
| "digit_as_char Hash = 35"
| "digit_as_char (Letter l) = unat (65 + min l 3 :: u8)"

section \<open>Events\<close>

definition EVENT_LEN :: nat where "EVENT_LEN = 4"

record event =
  ev_digit :: digit
  ev_end :: bool
  ev_volume :: u8
  ev_duration :: u16

definition new_event :: "digit \<Rightarrow> u16 \<Rightarrow> event" where
  "new_event d duration = \<lparr>ev_digit = d, ev_end = False, ev_volume = 10, ev_duration = duration\<rparr>"

definition encode_event :: "event \<Rightarrow> bytes" where
  "encode_event e =
     [digit_code (ev_digit e), push_bit 7 (of_bool (ev_end e)) OR (ev_volume e AND 0x3F)]
     @ to_be16 (ev_duration e)"

definition decode_event :: "bytes \<Rightarrow> event option" where
  "decode_event payload =
     (if length payload < EVENT_LEN then None else
      do { code \<leftarrow> get_at payload 0;
           digit \<leftarrow> digit_from_code code;
           second \<leftarrow> get_at payload 1;
           c \<leftarrow> get_at payload 2;
           d \<leftarrow> get_at payload 3;
           Some \<lparr>ev_digit = digit, ev_end = (second AND 0x80 \<noteq> 0), ev_volume = second AND 0x3F,
             ev_duration = from_be16 c d\<rparr> })"

section \<open>The packets of a keypress\<close>

definition END_RETRANSMISSIONS :: nat where "END_RETRANSMISSIONS = 3"

record tone_packet =
  tp_event :: event
  tp_segment_offset :: u32

definition new_tone_packet :: "event \<Rightarrow> u32 \<Rightarrow> tone_packet" where
  "new_tone_packet e offset = \<lparr>tp_event = e, tp_segment_offset = offset\<rparr>"

text \<open>\<open>u16::try_from(duration).unwrap_or(u16::MAX)\<close>.\<close>

definition duration_field :: "u32 \<Rightarrow> u16" where
  "duration_field d = (if unat d < 65536 then ucast d else - 1)"

text \<open>The loop over the steps of a held key; the accumulated segment offset and duration come out with it.\<close>

fun tone_steps :: "digit \<Rightarrow> u16 \<Rightarrow> nat \<Rightarrow> u32 \<Rightarrow> u32 \<Rightarrow> tone_packet list \<times> u32 \<times> u32" where
  "tone_steps d spp 0 segment_offset duration = ([], segment_offset, duration)"
| "tone_steps d spp (Suc k) segment_offset duration =
     (let (segment_offset, duration) =
            (if duration + ucast spp > 65535 then (segment_offset + duration, 0)
             else (segment_offset, duration));
          duration = duration + ucast spp;
          (ps, off, dur) = tone_steps d spp k segment_offset duration
      in (\<lparr>tp_event = new_event d (duration_field duration), tp_segment_offset = segment_offset\<rparr> # ps,
          off, dur))"

definition tone :: "digit \<Rightarrow> nat \<Rightarrow> u16 \<Rightarrow> tone_packet list" where
  "tone d packets spp =
     (let (ps, segment_offset, duration) = tone_steps d spp (max packets 1) 0 0
      in ps @ replicate END_RETRANSMISSIONS
           \<lparr>tp_event = \<lparr>ev_digit = d, ev_end = True, ev_volume = 10, ev_duration = duration_field duration\<rparr>,
            tp_segment_offset = segment_offset\<rparr>)"

section \<open>The receiver\<close>

record completed =
  co_digit :: digit
  co_duration :: u32

record current =
  cu_digit :: digit
  cu_started_at :: u32
  cu_segment_at :: u32
  cu_duration :: u32

record reported =
  re_digit :: digit
  re_segment_at :: u32

record receiver =
  rx_current :: "current option"
  rx_reported :: "reported option"
  rx_last_sequence :: "u16 option"

definition rx_new :: receiver where
  "rx_new = \<lparr>rx_current = None, rx_reported = None, rx_last_sequence = None\<rparr>"

definition rx_advance :: "receiver \<Rightarrow> u16 \<Rightarrow> bool \<times> receiver" where
  "rx_advance r sequence =
     (if (case rx_last_sequence r of None \<Rightarrow> False | Some l \<Rightarrow> \<not> sequence_is_newer sequence l)
      then (False, r) else (True, r\<lparr>rx_last_sequence := Some sequence\<rparr>))"

definition rx_start :: "receiver \<Rightarrow> u32 \<Rightarrow> event \<Rightarrow> receiver" where
  "rx_start r timestamp e = r\<lparr>rx_current := Some \<lparr>cu_digit = ev_digit e, cu_started_at = timestamp,
     cu_segment_at = timestamp, cu_duration = ucast (ev_duration e)\<rparr>\<rparr>"

definition rx_complete :: "receiver \<Rightarrow> completed option \<times> receiver" where
  "rx_complete r = (case rx_current r of
       None \<Rightarrow> (None, r)
     | Some c \<Rightarrow> (Some \<lparr>co_digit = cu_digit c, co_duration = cu_duration c\<rparr>,
         r\<lparr>rx_current := None,
           rx_reported := Some \<lparr>re_digit = cu_digit c, re_segment_at = cu_segment_at c\<rparr>\<rparr>))"

definition rx_push ::
  "receiver \<Rightarrow> u16 \<Rightarrow> u32 \<Rightarrow> bool \<Rightarrow> event \<Rightarrow> (completed option \<times> completed option) \<times> receiver" where
  "rx_push r0 sequence timestamp marker e =
     (let (newer, r) = rx_advance r0 sequence in
      if \<not> newer then ((None, None), r)
      else if rx_current r = None \<and>
        (case rx_reported r of None \<Rightarrow> False
         | Some rep \<Rightarrow> re_digit rep = ev_digit e \<and> re_segment_at rep = timestamp)
      then ((None, None), r)
      else
        let (prior, r) =
          (case rx_current r of
             None \<Rightarrow> (None, rx_start r timestamp e)
           | Some c \<Rightarrow>
               if marker \<or> cu_digit c \<noteq> ev_digit e then
                 (let (p, r) = rx_complete r in (p, rx_start r timestamp e))
               else
                 (let duration =
                    (if cu_segment_at c = timestamp then max (cu_duration c) (ucast (ev_duration e))
                     else max (saturating_add_word (timestamp - cu_started_at c) (ucast (ev_duration e)))
                       (cu_duration c))
                  in (None, r\<lparr>rx_current := Some (c\<lparr>cu_segment_at := timestamp, cu_duration := duration\<rparr>)\<rparr>)))
        in if \<not> ev_end e then ((prior, None), r)
           else (let (done, r) = rx_complete r
                 in (case prior of Some p \<Rightarrow> ((Some p, done), r) | None \<Rightarrow> ((done, None), r))))"

definition rx_observe_non_event :: "receiver \<Rightarrow> u16 \<Rightarrow> receiver" where
  "rx_observe_non_event r sequence = snd (rx_advance r sequence)"

definition rx_finish_on_media :: "receiver \<Rightarrow> u16 \<Rightarrow> completed option \<times> receiver" where
  "rx_finish_on_media r0 sequence =
     (let (newer, r) = rx_advance r0 sequence in if \<not> newer then (None, r) else rx_complete r)"

definition rx_timeout :: "receiver \<Rightarrow> completed option \<times> receiver" where
  "rx_timeout r = rx_complete r"

definition rx_reset :: "receiver \<Rightarrow> receiver" where
  "rx_reset r = rx_new"

definition rx_in_progress :: "receiver \<Rightarrow> digit option" where
  "rx_in_progress r = map_option cu_digit (rx_current r)"

section \<open>Payload round trips\<close>

text \<open>The digits that exist: number keys up to 9 and letters up to D.\<close>

fun digit_ok :: "digit \<Rightarrow> bool" where
  "digit_ok (Number n) \<longleftrightarrow> n \<le> 9"
| "digit_ok (Letter l) \<longleftrightarrow> l \<le> 3"
| "digit_ok _ \<longleftrightarrow> True"

lemma letter_code:
  assumes "(l :: u8) \<le> 3"
  shows "12 \<le> 12 + l" "12 + l \<le> 15" "\<not> 12 + l \<le> 9" "12 + l \<noteq> 10" "12 + l \<noteq> 11"
    "unat (65 + l) = 65 + unat l"
proof -
  have u: "unat (12 + l) = 12 + unat l" "unat l \<le> 3" "unat (65 + l) = 65 + unat l"
    using assms by (simp_all add: word_le_nat_alt unat_word_ariths)
  then show "12 \<le> 12 + l" "12 + l \<le> 15" "\<not> 12 + l \<le> 9" "unat (65 + l) = 65 + unat l"
    by (simp_all add: word_le_nat_alt)
  have "10 < 12 + l" "11 < 12 + l" using u(1) by (simp_all add: word_less_nat_alt)
  then show "12 + l \<noteq> 10" "12 + l \<noteq> 11" by (metis less_irrefl)+
qed

lemma digit_code_roundtrip: "digit_ok d \<Longrightarrow> digit_from_code (digit_code d) = Some d"
  using letter_code by (cases d) (auto simp: digit_from_code_def min_def)

lemma digit_char_roundtrip: "digit_ok d \<Longrightarrow> digit_from_char (digit_as_char d) = Some d"
proof (cases d)
  case (Number n)
  moreover assume "digit_ok d"
  ultimately have n: "n \<le> 9" "unat n \<le> 9" "unat (48 + n) = 48 + unat n"
    by (simp_all add: word_le_nat_alt unat_word_ariths)
  with Number show ?thesis by (simp add: digit_from_char_def min_def)
next
  case (Letter l)
  moreover assume "digit_ok d"
  ultimately show ?thesis
    using letter_code(6) [of l] by (auto simp: digit_from_char_def min_def word_le_nat_alt)
qed (simp_all add: digit_from_char_def)

lemma decoded_digit_ok: "digit_from_code c = Some d \<Longrightarrow> digit_ok d \<and> digit_code d = c"
proof -
  have "c - 12 \<le> 3" if "12 \<le> c" "c \<le> 15"
    using that by (simp add: word_le_nat_alt unat_sub)
  then show "digit_from_code c = Some d \<Longrightarrow> digit_ok d \<and> digit_code d = c"
    by (auto simp: digit_from_code_def min_def split: if_splits)
qed


lemma event_second_octet:
  "(push_bit 7 (of_bool e) OR (v AND 0x3F)) AND (0x80 :: u8) \<noteq> 0 \<longleftrightarrow> e"
  "(push_bit 7 (of_bool e) OR (v AND 0x3F)) AND (0x3F :: u8) = v AND 0x3F"
  "push_bit 7 (of_bool (s AND 0x80 \<noteq> 0)) OR (s AND 0x3F AND 0x3F) = (s :: u8) AND 0xBF"
proof -
  show "(push_bit 7 (of_bool e) OR (v AND 0x3F)) AND (0x80 :: u8) \<noteq> 0 \<longleftrightarrow> e"
    using and_exp_eq_0_iff_not_bit [of "push_bit 7 (of_bool e) OR (v AND 0x3F) :: u8" 7]
    by (cases e) (simp_all add: bit_simps)
  show "(push_bit 7 (of_bool e) OR (v AND 0x3F)) AND (0x3F :: u8) = v AND 0x3F"
    by (rule bit_word_eqI; case_tac n rule: octet_bits; cases e; simp add: bit_simps)
  have "s AND 0x80 \<noteq> 0 \<longleftrightarrow> bit s 7" using and_exp_eq_0_iff_not_bit [of s 7] by simp
  then show "push_bit 7 (of_bool (s AND 0x80 \<noteq> 0)) OR (s AND 0x3F AND 0x3F) = s AND 0xBF"
    by (intro bit_word_eqI; case_tac n rule: octet_bits; simp add: bit_simps)
qed

lemma decode_event_octets:
  "decode_event (a # b # c # d # rest) = map_option (\<lambda>digit. \<lparr>ev_digit = digit, ev_end = (b AND 0x80 \<noteq> 0),
     ev_volume = b AND 0x3F, ev_duration = from_be16 c d\<rparr>) (digit_from_code a)"
  by (cases "digit_from_code a") (simp_all add: decode_event_def EVENT_LEN_def get_at_def)

text \<open>
  Telephone-event payloads round trip. A payload decodes exactly when it has at least four
  octets and its code names a digit; what it decodes to is written back as the first four octets
  with the reserved bit cleared; and an event for a real digit whose volume fits six bits is read
  back unchanged from its encoding, whatever follows it.
\<close>

theorem dtmf_event_roundtrip:
  "(\<forall>e rest. digit_ok (ev_digit e) \<and> ev_volume e \<le> 0x3F \<longrightarrow> decode_event (encode_event e @ rest) = Some e)
   \<and> (\<forall>a b c d rest. case decode_event (a # b # c # d # rest) of
        None \<Rightarrow> 15 < a
      | Some e \<Rightarrow> digit_ok (ev_digit e) \<and> encode_event e = [a, b AND 0xBF, c, d])
   \<and> (\<forall>xs. length xs < 4 \<longrightarrow> decode_event xs = None)"
proof (intro conjI allI impI)
  fix e :: event and rest assume e: "digit_ok (ev_digit e) \<and> ev_volume e \<le> 0x3F"
  have mask: "(0x3F :: u8) = mask 6" by (simp add: mask_eq_exp_minus_1)
  have "unat (ev_volume e AND mask 6) = unat (ev_volume e)"
    using e by (simp add: unat_and_mask word_le_nat_alt)
  then have volume: "ev_volume e AND 0x3F = ev_volume e"
    by (simp only: mask word_unat_eq_iff)
  have "digit_from_code (digit_code (ev_digit e)) = Some (ev_digit e)"
    using e digit_code_roundtrip by blast
  then have "decode_event (encode_event e @ rest) = Some \<lparr>ev_digit = ev_digit e, ev_end = ev_end e,
      ev_volume = ev_volume e AND 0x3F, ev_duration = ev_duration e\<rparr>"
    by (simp only: encode_event_def to_be16_def append.simps decode_event_octets event_second_octet
        from_be16_to_be16 option.map)
  with volume show "decode_event (encode_event e @ rest) = Some e" by simp
next
  fix a b c d :: u8 and rest
  have "15 < a" if "digit_from_code a = None"
  proof (rule ccontr)
    assume "\<not> 15 < a"
    then have "unat a \<le> 15" by (simp add: word_less_nat_alt)
    then show False using that by (auto simp: digit_from_code_def word_le_nat_alt word_unat_eq_iff split: if_splits)
  qed
  then show "case decode_event (a # b # c # d # rest) of None \<Rightarrow> 15 < a
      | Some e \<Rightarrow> digit_ok (ev_digit e) \<and> encode_event e = [a, b AND 0xBF, c, d]"
    using decoded_digit_ok [of a] event_second_octet(3) [of b]
    by (auto simp: decode_event_octets encode_event_def split: option.split)
next
  fix xs :: bytes assume "length xs < 4"
  then show "decode_event xs = None" by (simp add: decode_event_def EVENT_LEN_def)
qed


theorem dtmf_event_roundtrip_witness:
  "decode_event (encode_event (new_event Hash 800) @ [7]) = Some (new_event Hash 800)"
  using dtmf_event_roundtrip by (simp add: new_event_def)

section \<open>What a keypress sends\<close>

text \<open>Durations never leave the 16-bit field, so the offset and duration of each step are exact.\<close>

lemma length_tone: "length (tone d n spp) = max n 1 + 3"
proof -
  have "length (fst (tone_steps d spp k off dur)) = k" for k off dur
    by (induction k arbitrary: off dur) (simp_all add: Let_def case_prod_beta)
  from this [of "max n 1" 0 0] show ?thesis
    by (auto simp: tone_def END_RETRANSMISSIONS_def Let_def split: prod.splits)
qed

lemma tone_steps_single:
  assumes "unat dur + k * unat spp \<le> 65535"
  shows "tone_steps d spp k off dur =
    (map (\<lambda>i. \<lparr>tp_event = new_event d (of_nat (unat dur + Suc i * unat spp)), tp_segment_offset = off\<rparr>) [0..<k],
     off, of_nat (unat dur + k * unat spp))"
  using assms
proof (induction k arbitrary: dur)
  case 0
  then show ?case by simp
next
  case (Suc k)
  have sum: "unat (dur + ucast spp :: u32) = unat dur + unat spp"
    using Suc.prems by (simp add: unat_word_ariths)
  then have fits: "\<not> 65535 < dur + ucast spp"
    using Suc.prems by (simp add: word_less_nat_alt)
  have "unat (dur + ucast spp :: u32) + k * unat spp \<le> 65535" using Suc.prems sum by simp
  note IH = Suc.IH [OF this, unfolded sum]
  have field: "duration_field (dur + ucast spp) = of_nat (unat dur + unat spp)"
  proof -
    have "ucast (dur + ucast spp :: u32) = (of_nat (unat (dur + ucast spp :: u32)) :: u16)" by simp
    then show ?thesis using sum Suc.prems by (simp only: duration_field_def) simp
  qed
  have "[0..<Suc k] = 0 # map Suc [0..<k]" by (simp add: upt_conv_Cons map_Suc_upt del: upt_Suc)
  with fits field IH show ?case by (simp add: Let_def comp_def algebra_simps del: upt_Suc)
qed


lemma tone_steps_timeline:
  "unat dur \<le> 65535 \<Longrightarrow> unat off + unat dur + k * unat spp < 2 ^ 32 \<Longrightarrow>
     tone_steps d spp k off dur = (ps, off', dur') \<Longrightarrow>
     length ps = k \<and> unat dur' \<le> 65535 \<and> unat off' + unat dur' = unat off + unat dur + k * unat spp \<and>
     (\<forall>i < k. ev_digit (tp_event (ps ! i)) = d \<and> \<not> ev_end (tp_event (ps ! i)) \<and>
        unat (tp_segment_offset (ps ! i)) + unat (ev_duration (tp_event (ps ! i))) =
          unat off + unat dur + Suc i * unat spp)"
proof (induction k arbitrary: off dur ps)
  case (Suc k)
  define off1 dur1 where "off1 = (if dur + ucast spp > 65535 then off + dur else off)"
    and "dur1 = (if dur + ucast spp > 65535 then 0 else dur) + (ucast spp :: u32)"
  have sum: "unat (dur + ucast spp :: u32) = unat dur + unat spp"
    using Suc.prems(1) unat_bounds(2) [of spp] by (simp add: unat_word_ariths)
  have d1: "unat dur1 \<le> 65535"
    using sum unat_bounds(2) [of spp] by (auto simp: dur1_def word_less_nat_alt)
  have o1: "unat off1 + unat dur1 = unat off + unat dur + unat spp"
    using sum Suc.prems(2) by (auto simp: off1_def dur1_def unat_word_ariths)
  obtain qs where qs: "tone_steps d spp k off1 dur1 = (qs, off', dur')"
    and ps: "ps = \<lparr>tp_event = new_event d (duration_field dur1), tp_segment_offset = off1\<rparr> # qs"
    using Suc.prems(3) by (auto simp: off1_def dur1_def Let_def split: if_splits prod.splits)
  have field: "unat (duration_field dur1) = unat dur1"
    using d1 by (simp add: duration_field_def unsigned_ucast_eq take_bit_eq_mod)
  have "unat off1 + unat dur1 + k * unat spp < 2 ^ 32" using Suc.prems(2) o1 by simp
  note IH = Suc.IH [OF d1 this qs]
  show ?case
  proof (intro conjI allI impI)
    fix i assume "i < Suc k"
    with IH show "ev_digit (tp_event (ps ! i)) = d" "\<not> ev_end (tp_event (ps ! i))"
      "unat (tp_segment_offset (ps ! i)) + unat (ev_duration (tp_event (ps ! i))) =
          unat off + unat dur + Suc i * unat spp"
      using o1 field by (cases i; simp add: ps new_event_def)+
  qed (use IH o1 ps in simp_all)
qed simp

text \<open>
  A keypress covers its whole timeline. However long the key is held, the packets of a tone
  are its steps followed by three end packets; each names the digit, its segment offset plus its
  16-bit duration is exactly the time the key has been held so far (so a long tone continues in a
  new segment instead of saturating), and only the last three carry the end bit, with the full
  length.
\<close>

theorem dtmf_tone_timeline:
  assumes "max n 1 * unat spp < 2 ^ 32" and "i < length (tone d n spp)"
  shows "length (tone d n spp) = max n 1 + 3 \<and> ev_digit (tp_event (tone d n spp ! i)) = d \<and>
    (ev_end (tp_event (tone d n spp ! i)) \<longleftrightarrow> max n 1 \<le> i) \<and>
    unat (tp_segment_offset (tone d n spp ! i)) + unat (ev_duration (tp_event (tone d n spp ! i))) =
      min (Suc i) (max n 1) * unat spp"
proof -
  obtain ps off dur where st: "tone_steps d spp (max n 1) 0 0 = (ps, off, dur)" by (cases rule: prod_cases3)
  have t: "tone d n spp = ps @ replicate 3 \<lparr>tp_event = \<lparr>ev_digit = d, ev_end = True, ev_volume = 10,
      ev_duration = duration_field dur\<rparr>, tp_segment_offset = off\<rparr>"
    unfolding tone_def st by (simp add: END_RETRANSMISSIONS_def)
  note steps = tone_steps_timeline [OF _ _ st]
  have len: "length ps = max n 1" and dur: "unat dur \<le> 65535" "unat off + unat dur = max n 1 * unat spp"
    using steps assms(1) by simp_all
  have field: "unat (duration_field dur) = unat dur"
    using dur by (simp add: duration_field_def unsigned_ucast_eq take_bit_eq_mod)
  show ?thesis
  proof (cases "i < max n 1")
    case True
    then have "tone d n spp ! i = ps ! i" using len t by (simp add: nth_append)
    with True steps assms(1) len t show ?thesis by (auto simp: min_absorb1)
  next
    case False
    then have "tone d n spp ! i = \<lparr>tp_event = \<lparr>ev_digit = d, ev_end = True, ev_volume = 10,
        ev_duration = duration_field dur\<rparr>, tp_segment_offset = off\<rparr>"
      using len t assms(2) by (simp add: nth_append)
    with False dur field len t show ?thesis by (auto simp: min_absorb2)
  qed
qed

theorem dtmf_tone_timeline_witness:
  "unat (tp_segment_offset (tone Star 4 30000 ! 6)) + unat (ev_duration (tp_event (tone Star 4 30000 ! 6))) = 120000"
  using dtmf_tone_timeline [of 4 30000 6 Star] by (simp add: length_tone)


section \<open>Keypresses through a lossy network\<close>

text \<open>
  A keypress as a receiver meets it: the digit and its packets, the timestamp it began at, and the
  indices of its packets in the order the network delivers them: any may be missing, repeated or
  out of order. The packets of successive keypresses take successive sequence numbers from \<open>s\<close> on.
\<close>

record keypress =
  kp_digit :: digit
  kp_packets :: nat
  kp_spp :: u16
  kp_timestamp :: u32
  kp_arrivals :: "nat list"

definition kp_tone :: "keypress \<Rightarrow> tone_packet list" where
  "kp_tone k = tone (kp_digit k) (kp_packets k) (kp_spp k)"

definition receive_packet :: "receiver \<Rightarrow> nat \<Rightarrow> keypress \<Rightarrow> nat \<Rightarrow> completed list \<times> receiver" where
  "receive_packet r s k i =
     (let p = kp_tone k ! i;
          ((a, b), r') = rx_push r (of_nat (s + i)) (kp_timestamp k + tp_segment_offset p) (i = 0) (tp_event p)
      in (List.map_filter id [a, b], r'))"

fun receive_packets :: "receiver \<Rightarrow> nat \<Rightarrow> keypress \<Rightarrow> nat list \<Rightarrow> completed list \<times> receiver" where
  "receive_packets r s k [] = ([], r)"
| "receive_packets r s k (i # is) =
     (let (out, r') = receive_packet r s k i; (outs, r'') = receive_packets r' s k is
      in (out @ outs, r''))"

fun receive_keypresses :: "receiver \<Rightarrow> nat \<Rightarrow> keypress list \<Rightarrow> completed list \<times> receiver" where
  "receive_keypresses r s [] = ([], r)"
| "receive_keypresses r s (k # ks) =
     (let (out, r') = receive_packets r s k (kp_arrivals k);
          (outs, r'') = receive_keypresses r' (s + length (kp_tone k)) ks
      in (out @ outs, r''))"

text \<open>One segment, a run short enough for the serial order, and at least one end packet delivered.\<close>

definition kp_ok :: "keypress \<Rightarrow> bool" where
  "kp_ok k \<longleftrightarrow> max (kp_packets k) 1 * unat (kp_spp k) \<le> 65535 \<and> length (kp_tone k) \<le> 16000
     \<and> list_all (\<lambda>i. i < length (kp_tone k)) (kp_arrivals k)
     \<and> list_ex (\<lambda>i. max (kp_packets k) 1 \<le> i) (kp_arrivals k)"

definition kp_length :: "keypress \<Rightarrow> nat" where
  "kp_length k = max (kp_packets k) 1 * unat (kp_spp k)"

definition kp_report :: "keypress \<Rightarrow> completed" where
  "kp_report k = \<lparr>co_digit = kp_digit k, co_duration = of_nat (kp_length k)\<rparr>"

definition held :: "keypress \<Rightarrow> nat \<Rightarrow> nat" where
  "held k i = min (Suc i) (max (kp_packets k) 1) * unat (kp_spp k)"

lemma held_end: "max (kp_packets k) 1 \<le> i \<Longrightarrow> held k i = kp_length k"
  by (simp add: held_def kp_length_def min_absorb2)

lemma duration_field_of_nat: "n \<le> 65535 \<Longrightarrow> duration_field (of_nat n) = of_nat n"
  by (simp add: duration_field_def unat_of_nat word_unat_eq_iff unsigned_ucast_eq take_bit_eq_mod)

lemma kp_packet:
  assumes "kp_ok k" "i < length (kp_tone k)"
  shows "kp_tone k ! i = \<lparr>tp_event = \<lparr>ev_digit = kp_digit k, ev_end = (max (kp_packets k) 1 \<le> i),
      ev_volume = 10, ev_duration = of_nat (held k i)\<rparr>, tp_segment_offset = 0\<rparr>"
    and "held k i \<le> 65535"
proof -
  let ?n = "max (kp_packets k) 1"
  have fits: "unat (0 :: u32) + ?n * unat (kp_spp k) \<le> 65535" using assms(1) by (simp add: kp_ok_def)
  have dur: "duration_field (of_nat (?n * unat (kp_spp k))) = of_nat (?n * unat (kp_spp k))"
    using fits by (intro duration_field_of_nat) simp
  have len: "length (kp_tone k) = ?n + 3" by (simp add: kp_tone_def length_tone)
  have "kp_tone k = map (\<lambda>i. \<lparr>tp_event = new_event (kp_digit k) (of_nat (Suc i * unat (kp_spp k))),
        tp_segment_offset = 0\<rparr>) [0..<?n]
      @ replicate 3 \<lparr>tp_event = \<lparr>ev_digit = kp_digit k, ev_end = True, ev_volume = 10,
        ev_duration = of_nat (?n * unat (kp_spp k))\<rparr>, tp_segment_offset = 0\<rparr>"
    using tone_steps_single [OF fits, of "kp_digit k" 0] dur
    by (simp add: kp_tone_def tone_def END_RETRANSMISSIONS_def)
  with assms(2) len show "kp_tone k ! i = \<lparr>tp_event = \<lparr>ev_digit = kp_digit k, ev_end = (?n \<le> i),
      ev_volume = 10, ev_duration = of_nat (held k i)\<rparr>, tp_segment_offset = 0\<rparr>"
    by (cases "i < ?n") (auto simp: nth_append new_event_def held_def min_absorb1 min_absorb2)
  have "held k i \<le> ?n * unat (kp_spp k)" unfolding held_def by (rule mult_le_mono1) simp
  with fits show "held k i \<le> 65535" by simp
qed

lemma held_mono: "i \<le> j \<Longrightarrow> held k i \<le> held k j"
  unfolding held_def by (rule mult_le_mono1) simp

lemma widen_duration: "n \<le> 65535 \<Longrightarrow> (ucast (of_nat n :: u16) :: u32) = of_nat n"
  by (simp add: word_unat_eq_iff unat_of_nat)

lemma max_duration:
  "m \<le> n \<Longrightarrow> n \<le> 65535 \<Longrightarrow> max (of_nat m :: u32) (of_nat n) = of_nat n"
  by (rule max_absorb2) (simp add: word_le_nat_alt unat_of_nat)

text \<open>The three phases of a keypress at the receiver.\<close>

definition waiting :: "nat \<Rightarrow> keypress \<Rightarrow> receiver \<Rightarrow> bool" where
  "waiting s k r \<longleftrightarrow> rx_current r = None
     \<and> (case rx_reported r of None \<Rightarrow> True
        | Some p \<Rightarrow> re_digit p \<noteq> kp_digit k \<or> re_segment_at p \<noteq> kp_timestamp k)
     \<and> (case rx_last_sequence r of None \<Rightarrow> True
        | Some w \<Rightarrow> \<exists>l. w = of_nat l \<and> l < s \<and> s + length (kp_tone k) \<le> l + 32768)"

definition sounding :: "nat \<Rightarrow> keypress \<Rightarrow> nat \<Rightarrow> receiver \<Rightarrow> bool" where
  "sounding s k m r \<longleftrightarrow> m < max (kp_packets k) 1 \<and> rx_last_sequence r = Some (of_nat (s + m))
     \<and> rx_current r = Some \<lparr>cu_digit = kp_digit k, cu_started_at = kp_timestamp k,
         cu_segment_at = kp_timestamp k, cu_duration = of_nat (held k m)\<rparr>"

definition finished :: "nat \<Rightarrow> keypress \<Rightarrow> nat \<Rightarrow> receiver \<Rightarrow> bool" where
  "finished s k m r \<longleftrightarrow> m < length (kp_tone k) \<and> rx_last_sequence r = Some (of_nat (s + m))
     \<and> rx_current r = None
     \<and> rx_reported r = Some \<lparr>re_digit = kp_digit k, re_segment_at = kp_timestamp k\<rparr>"

lemma packet_waiting:
  assumes "kp_ok k" "waiting s k r" "i < length (kp_tone k)"
  shows "if max (kp_packets k) 1 \<le> i
    then fst (receive_packet r s k i) = [kp_report k] \<and> finished s k i (snd (receive_packet r s k i))
    else fst (receive_packet r s k i) = [] \<and> sounding s k i (snd (receive_packet r s k i))"
proof -
  have "case rx_last_sequence r of None \<Rightarrow> True | Some w \<Rightarrow> sequence_is_newer (of_nat (s + i)) w"
    using assms(2,3) sequence_is_newer_true(1) [of "s + i"]
    by (fastforce simp: waiting_def split: option.splits)
  then have adv: "rx_advance r (of_nat (s + i)) = (True, r\<lparr>rx_last_sequence := Some (of_nat (s + i))\<rparr>)"
    by (auto simp: rx_advance_def split: option.splits)
  show ?thesis
    using assms adv kp_packet [OF assms(1,3)]
    by (auto simp: receive_packet_def rx_push_def waiting_def rx_start_def rx_complete_def Let_def
        finished_def sounding_def kp_report_def held_end widen_duration List.map_filter_def
        split: option.splits)
qed


lemma advance_from:
  assumes "rx_last_sequence r = Some (of_nat (s + m))" "m < 16000" "i < 16000"
  shows "rx_advance r (of_nat (s + i)) =
    (if i \<le> m then (False, r) else (True, r\<lparr>rx_last_sequence := Some (of_nat (s + i))\<rparr>))"
proof -
  have "sequence_is_newer (of_nat (s + i)) (of_nat (s + m)) \<longleftrightarrow> m < i"
    using sequence_is_newer_true(1) [of "s + i" "s + m"] assms(2,3) by simp
  with assms(1) show ?thesis by (simp add: rx_advance_def del: of_nat_add)
qed

lemma packet_sounding:
  assumes "kp_ok k" "sounding s k m r" "i < length (kp_tone k)"
  shows "if max (kp_packets k) 1 \<le> i
    then fst (receive_packet r s k i) = [kp_report k] \<and> finished s k i (snd (receive_packet r s k i))
    else fst (receive_packet r s k i) = [] \<and> (\<exists>m'. sounding s k m' (snd (receive_packet r s k i)))"
proof -
  have adv: "rx_advance r (of_nat (s + i)) =
      (if i \<le> m then (False, r) else (True, r\<lparr>rx_last_sequence := Some (of_nat (s + i))\<rparr>))"
    using assms by (intro advance_from) (auto simp: sounding_def kp_ok_def kp_tone_def length_tone)
  show ?thesis
  proof (cases "i \<le> m")
    case True
    then have "\<not> max (kp_packets k) 1 \<le> i" using assms(2) by (auto simp: sounding_def)
    with True adv assms(2) show ?thesis
      by (auto simp: receive_packet_def rx_push_def List.map_filter_def Let_def)
  next
    case False
    have "max (of_nat (held k m) :: u32) (of_nat (held k i)) = of_nat (held k i)"
      using False held_mono [of m i k] kp_packet(2) [OF assms(1,3)] by (intro max_duration) simp_all
    with False adv assms(2,3) kp_packet [OF assms(1,3)]
    have "if max (kp_packets k) 1 \<le> i
      then fst (receive_packet r s k i) = [kp_report k] \<and> finished s k i (snd (receive_packet r s k i))
      else fst (receive_packet r s k i) = [] \<and> sounding s k i (snd (receive_packet r s k i))"
      by (auto simp: receive_packet_def rx_push_def rx_complete_def Let_def finished_def sounding_def
          kp_report_def held_end widen_duration List.map_filter_def)
    then show ?thesis by (auto split: if_splits)
  qed
qed

lemma packet_finished:
  assumes "kp_ok k" "finished s k m r" "i < length (kp_tone k)"
  shows "fst (receive_packet r s k i) = []" "\<exists>m'. finished s k m' (snd (receive_packet r s k i))"
proof -
  have adv: "rx_advance r (of_nat (s + i)) =
      (if i \<le> m then (False, r) else (True, r\<lparr>rx_last_sequence := Some (of_nat (s + i))\<rparr>))"
    using assms by (intro advance_from) (auto simp: finished_def kp_ok_def)
  show "fst (receive_packet r s k i) = []" "\<exists>m'. finished s k m' (snd (receive_packet r s k i))"
    using adv assms(2,3) kp_packet(1) [OF assms(1,3)]
    by (cases "i \<le> m"; auto simp: receive_packet_def rx_push_def Let_def finished_def List.map_filter_def)+
qed

lemma receive_packets_Cons:
  "receive_packets r s k (i # is) =
    (fst (receive_packet r s k i) @ fst (receive_packets (snd (receive_packet r s k i)) s k is),
     snd (receive_packets (snd (receive_packet r s k i)) s k is))"
  by (simp add: case_prod_beta Let_def)

declare receive_packets.simps(2) [simp del]

lemma packets_finished:
  "kp_ok k \<Longrightarrow> finished s k m r \<Longrightarrow> list_all (\<lambda>i. i < length (kp_tone k)) is \<Longrightarrow>
     fst (receive_packets r s k is) = [] \<and> (\<exists>m'. finished s k m' (snd (receive_packets r s k is)))"
proof (induction "is" arbitrary: r m)
  case (Cons i "is")
  obtain m' where "finished s k m' (snd (receive_packet r s k i))" "fst (receive_packet r s k i) = []"
    using packet_finished [OF Cons.prems(1,2), of i] Cons.prems(3) by auto
  with Cons show ?case by (simp add: receive_packets_Cons)
qed auto

lemma packets_until_end:
  assumes "kp_ok k"
  shows "waiting s k r \<or> (\<exists>m. sounding s k m r) \<Longrightarrow> list_all (\<lambda>i. i < length (kp_tone k)) is \<Longrightarrow>
     list_ex (\<lambda>i. max (kp_packets k) 1 \<le> i) is \<Longrightarrow>
     fst (receive_packets r s k is) = [kp_report k] \<and> (\<exists>m'. finished s k m' (snd (receive_packets r s k is)))"
proof (induction "is" arbitrary: r)
  case (Cons i "is")
  have i: "i < length (kp_tone k)" using Cons.prems(2) by simp
  have step: "if max (kp_packets k) 1 \<le> i
    then fst (receive_packet r s k i) = [kp_report k] \<and> finished s k i (snd (receive_packet r s k i))
    else fst (receive_packet r s k i) = [] \<and> (\<exists>m'. sounding s k m' (snd (receive_packet r s k i)))"
    using Cons.prems(1) packet_waiting [OF assms _ i] packet_sounding [OF assms _ i] by (metis (full_types))
  show ?case
  proof (cases "max (kp_packets k) 1 \<le> i")
    case True
    then have "finished s k i (snd (receive_packet r s k i))" using step by (simp only: if_True)
    note after = packets_finished [OF assms this, of "is"]
    show ?thesis using True step after Cons.prems(2) by (simp only: receive_packets_Cons) simp
  next
    case False
    then have "fst (receive_packet r s k i) = []" "\<exists>m'. sounding s k m' (snd (receive_packet r s k i))"
      using step by (simp_all only: if_False)
    moreover have "list_ex (\<lambda>i. max (kp_packets k) 1 \<le> i) is"
      using Cons.prems(3) False by auto
    ultimately show ?thesis
      using Cons.IH [of "snd (receive_packet r s k i)"] Cons.prems(2) by (simp add: receive_packets_Cons)
  qed
qed simp

lemma finished_waiting:
  assumes "kp_ok k" "kp_ok k'" "finished s k m r"
    and "kp_digit k \<noteq> kp_digit k' \<or> kp_timestamp k \<noteq> kp_timestamp k'"
  shows "waiting (s + length (kp_tone k)) k' r"
proof -
  have "m < length (kp_tone k)" "length (kp_tone k) \<le> 16000" "length (kp_tone k') \<le> 16000"
    using assms by (simp_all add: kp_ok_def finished_def)
  then have "s + m < s + length (kp_tone k)" "s + length (kp_tone k) + length (kp_tone k') \<le> s + m + 32768"
    by linarith+
  then have "\<exists>l. (of_nat (s + m) :: u16) = of_nat l \<and> l < s + length (kp_tone k) \<and>
      s + length (kp_tone k) + length (kp_tone k') \<le> l + 32768"
    by blast
  then show ?thesis using assms(3,4) unfolding waiting_def finished_def by (auto simp del: of_nat_add)
qed

lemma receive_keypresses_once:
  "list_all kp_ok ks \<Longrightarrow> (case ks of [] \<Rightarrow> True | k # _ \<Rightarrow> waiting s k r) \<Longrightarrow>
     successively (\<lambda>k k'. kp_digit k \<noteq> kp_digit k' \<or> kp_timestamp k \<noteq> kp_timestamp k') ks \<Longrightarrow>
     fst (receive_keypresses r s ks) = map kp_report ks"
proof (induction ks arbitrary: r s)
  case (Cons k ks)
  let ?r = "snd (receive_packets r s k (kp_arrivals k))"
  have k: "kp_ok k" "waiting s k r" using Cons.prems by simp_all
  then obtain m where out: "fst (receive_packets r s k (kp_arrivals k)) = [kp_report k]"
    and fin: "finished s k m ?r"
    using packets_until_end [OF k(1), of s r "kp_arrivals k"] by (auto simp: kp_ok_def)
  have "case ks of [] \<Rightarrow> True | k' # _ \<Rightarrow> waiting (s + length (kp_tone k)) k' ?r"
    using Cons.prems(1,3) finished_waiting [OF k(1) _ fin] by (cases ks) simp_all
  with Cons.IH [of "s + length (kp_tone k)" ?r] Cons.prems(1,3) out show ?case
    by (cases ks) (simp_all add: case_prod_beta Let_def)
qed simp

text \<open>
  C4: Every keypress that fits one segment is reported exactly once. Take any sequence of keypresses,
  each lasting at most the 65535 timestamp units one segment holds and sent as at most 16000 packets,
  successive ones differing in digit or start time, and let the network drop, repeat and reorder the
  packets of each at will as long as at least one of its three end packets arrives. The receiver then
  reports exactly those keypresses, in order, each once and with its full length. A longer keypress
  runs over several segments and is outside this: its length is reported wrongly
  (\<open>dtmf_long_tone_shortened\<close> below).
\<close>

theorem dtmf_exactly_once:
  assumes "\<And>k. k \<in> set ks \<Longrightarrow> max (kp_packets k) 1 * unat (kp_spp k) \<le> 65535"
    and "\<And>k. k \<in> set ks \<Longrightarrow> length (kp_tone k) \<le> 16000"
    and "\<And>k i. k \<in> set ks \<Longrightarrow> i \<in> set (kp_arrivals k) \<Longrightarrow> i < length (kp_tone k)"
    and "\<And>k. k \<in> set ks \<Longrightarrow> \<exists>i\<in>set (kp_arrivals k). max (kp_packets k) 1 \<le> i"
    and "successively (\<lambda>k k'. kp_digit k \<noteq> kp_digit k' \<or> kp_timestamp k \<noteq> kp_timestamp k') ks"
  shows "fst (receive_keypresses rx_new s ks) =
    map (\<lambda>k. \<lparr>co_digit = kp_digit k, co_duration = of_nat (max (kp_packets k) 1 * unat (kp_spp k))\<rparr>) ks"
proof -
  have "list_all kp_ok ks"
    using assms(1-4) by (auto simp: list_all_iff list_ex_iff kp_ok_def)
  moreover have "kp_report = (\<lambda>k. \<lparr>co_digit = kp_digit k, co_duration = of_nat (max (kp_packets k) 1 * unat (kp_spp k))\<rparr>)"
    by (simp add: kp_report_def kp_length_def fun_eq_iff)
  ultimately show ?thesis
    using receive_keypresses_once [of ks s rx_new] assms(5)
    by (auto simp: waiting_def rx_new_def split: list.splits)
qed

theorem dtmf_exactly_once_witness:
  defines "four \<equiv> (\<lambda>t. \<lparr>kp_digit = Number 4, kp_packets = 3, kp_spp = 160, kp_timestamp = t,
    kp_arrivals = [1, 1, 4, 0, 3, 5]\<rparr>)"
  shows "fst (receive_keypresses rx_new 65533 [four 1000, four 9000]) =
    [\<lparr>co_digit = Number 4, co_duration = 480\<rparr>, \<lparr>co_digit = Number 4, co_duration = 480\<rparr>]"
proof -
  have "length (kp_tone (four t)) = 6" for t
    by (simp add: four_def kp_tone_def length_tone)
  then show ?thesis
    by (subst dtmf_exactly_once) (auto simp: four_def)
qed

section \<open>Tones of several segments\<close>

definition long_tone :: keypress where
  "long_tone = \<lparr>kp_digit = Star, kp_packets = 4, kp_spp = 30000, kp_timestamp = 0,
    kp_arrivals = [0, 1, 2, 3, 4]\<rparr>"

text \<open>
  Beyond one segment the reported length is not exact. A later packet of a continued segment is
  compared by its own 16-bit duration with the accumulated one, so only the first packet of the
  segment counts: a key held for 120000 units, no packet lost or reordered, is reported as 90000.
\<close>

theorem dtmf_long_tone_shortened:
  "kp_length long_tone = 120000 \<and>
   fst (receive_keypresses rx_new 0 [long_tone]) = [\<lparr>co_digit = Star, co_duration = 90000\<rparr>]"
proof -
  have four: "max 4 1 = Suc (Suc (Suc (Suc 0)))" by simp
  have t: "kp_tone long_tone =
      [\<lparr>tp_event = new_event Star 30000, tp_segment_offset = 0\<rparr>,
       \<lparr>tp_event = new_event Star 60000, tp_segment_offset = 0\<rparr>,
       \<lparr>tp_event = new_event Star 30000, tp_segment_offset = 60000\<rparr>,
       \<lparr>tp_event = new_event Star 60000, tp_segment_offset = 60000\<rparr>]
    @ replicate 3 \<lparr>tp_event = \<lparr>ev_digit = Star, ev_end = True, ev_volume = 10, ev_duration = 60000\<rparr>,
        tp_segment_offset = 60000\<rparr>"
    unfolding kp_tone_def long_tone_def tone_def keypress.simps four END_RETRANSMISSIONS_def
    by (simp add: duration_field_def Let_def)
  have arr: "kp_arrivals long_tone = [0, 1, 2, 3, 4]" and ts: "kp_timestamp long_tone = 0" by (simp_all add: long_tone_def)
  define cur where "cur = (\<lambda>q seg dur. \<lparr>rx_current = Some \<lparr>cu_digit = Star, cu_started_at = 0,
    cu_segment_at = seg, cu_duration = dur\<rparr>, rx_reported = None, rx_last_sequence = Some q\<rparr>)"
  note push = receive_packet_def t ts rx_push_def rx_advance_def rx_start_def rx_complete_def cur_def
    new_event_def sequence_is_newer_def saturating_add_word_def List.map_filter_def Let_def
  have p0: "receive_packet rx_new 0 long_tone 0 = ([], cur 0 0 30000)"
    by (simp add: push rx_new_def)
  have p1: "receive_packet (cur 0 0 30000) 0 long_tone 1 = ([], cur 1 0 60000)"
    by (simp add: push max_def)
  have p2: "receive_packet (cur 1 0 60000) 0 long_tone 2 = ([], cur 2 60000 90000)"
    by (simp add: push max_def)
  have p3: "receive_packet (cur 2 60000 90000) 0 long_tone 3 = ([], cur 3 60000 90000)"
    by (simp add: push max_def)
  have p4: "fst (receive_packet (cur 3 60000 90000) 0 long_tone 4) = [\<lparr>co_digit = Star, co_duration = 90000\<rparr>]"
    by (simp add: push max_def)
  have "fst (receive_keypresses rx_new 0 [long_tone]) = [\<lparr>co_digit = Star, co_duration = 90000\<rparr>]"
    using p4 by (simp only: receive_keypresses.simps arr receive_packets_Cons p0 p1 p2 p3 fst_conv snd_conv)
      (simp add: case_prod_beta)
  moreover have "kp_length long_tone = 120000" by (simp add: kp_length_def long_tone_def)
  ultimately show ?thesis by blast
qed

end
