(* ===== verification/Rtp_Quality.thy ===== *)
theory Rtp_Quality
  imports Sipx_Prelude Rust_Float
begin

text \<open>
  Call quality, \<open>crates/sipx-rtp/src/quality.rs\<close>: NTP timestamps, the round-trip time from a report
  block and the estimated opinion score. A \<open>Duration\<close> is its number of nanoseconds; the clock
  reading of \<open>ntp_now\<close> is an argument.
\<close>

definition NTP_EPOCH_OFFSET :: u64 where "NTP_EPOCH_OFFSET = 2208988800"

text \<open>The time since the Unix epoch as whole seconds and nanoseconds below a second.\<close>

definition ntp_at :: "u64 \<Rightarrow> u32 \<Rightarrow> u64" where
  "ntp_at secs subsec_nanos =
     (let seconds = saturating_add_word secs NTP_EPOCH_OFFSET;
          fraction = push_bit 32 (ucast subsec_nanos) div 1000000000
      in push_bit 32 seconds OR fraction)"

definition middle_32 :: "u64 \<Rightarrow> u32" where
  "middle_32 ntp = ucast (drop_bit 16 ntp AND 0xFFFFFFFF)"

definition round_trip :: "u32 \<Rightarrow> u32 \<Rightarrow> u32 \<Rightarrow> nat option" where
  "round_trip now last_sender_report delay =
     (if last_sender_report = 0 then None else
      do { rt \<leftarrow> checked_sub_word (now - last_sender_report) delay;
           Some (unat ((ucast rt :: u64) * 1000000000 div 65536)) })"

definition as_secs_f64 :: "nat \<Rightarrow> f64" where
  "as_secs_f64 d = f64_add (f64_round (of_nat (d div 1000000000)))
     (f64_div (f64_round (of_nat (d mod 1000000000))) 1000000000)"

text \<open>Decimal literals are the nearest doubles.\<close>

definition score_from_rating :: "f64 \<Rightarrow> f64" where
  "score_from_rating rating =
     (if rating \<le> 0 then 1 else if rating \<ge> 100 then 9 / 2 else
      let score = f64_add (f64_add 1 (f64_mul (f64_round (35 / 1000)) rating))
            (f64_mul (f64_mul (f64_mul (f64_round (7 / 1000000)) rating) (f64_sub rating 60)) (f64_sub 100 rating))
      in min (max score 1) (9 / 2))"

definition mos :: "f64 \<Rightarrow> nat \<Rightarrow> nat option \<Rightarrow> f64" where
  "mos loss jitter rtt =
     (let latency_ms = f64_mul (as_secs_f64 (unwrap_or rtt 0)) 1000;
          jitter_ms = f64_mul (as_secs_f64 jitter) 1000;
          effective = f64_add (f64_add latency_ms (f64_mul jitter_ms 2)) 10;
          rating = (if effective < 160
            then f64_sub (f64_round (932 / 10)) (f64_div effective 40)
            else f64_sub (f64_round (932 / 10)) (f64_div (f64_sub effective 120) 10));
          rating = f64_sub rating (f64_mul (f64_mul loss 100) (f64_round (25 / 10)))
      in score_from_rating rating)"

record quality =
  ql_loss :: f64
  ql_cumulative_lost :: int
  ql_jitter :: nat
  ql_round_trip :: "nat option"
  ql_mos :: f64

definition new_quality :: "f64 \<Rightarrow> int \<Rightarrow> nat \<Rightarrow> nat option \<Rightarrow> quality" where
  "new_quality loss lost jitter rtt = \<lparr>ql_loss = loss, ql_cumulative_lost = lost, ql_jitter = jitter,
     ql_round_trip = rtt, ql_mos = mos loss jitter rtt\<rparr>"

lemma mos_bounds: "1 \<le> ql_mos (new_quality loss lost jitter rtt)" "ql_mos (new_quality loss lost jitter rtt) \<le> 9 / 2"
proof -
  have "1 \<le> score_from_rating r \<and> score_from_rating r \<le> 9 / 2" for r
  proof -
    have "1 \<le> min (max x 1) (9 / 2) \<and> min (max x 1) (9 / 2) \<le> 9 / 2" for x :: rat by auto
    then show ?thesis by (simp only: score_from_rating_def Let_def) simp
  qed
  then show "1 \<le> ql_mos (new_quality loss lost jitter rtt)" "ql_mos (new_quality loss lost jitter rtt) \<le> 9 / 2"
    by (simp_all add: new_quality_def mos_def Let_def)
qed

section \<open>Round-trip times\<close>

lemma unat_middle_32: "unat (middle_32 ntp) = unat ntp div 2 ^ 16 mod 2 ^ 32"
proof -
  have mask: "(0xFFFFFFFF :: u64) = mask 32" by (simp add: mask_eq_exp_minus_1)
  have "middle_32 ntp = ucast (drop_bit 16 ntp)"
    unfolding middle_32_def mask by (intro bit_word_eqI) (auto simp: bit_simps)
  then show ?thesis
    by (simp add: unsigned_ucast_eq take_bit_eq_mod drop_bit_eq_div unat_div)
qed

lemma nanos_exact: "unat ((ucast (w :: u32) :: u64) * 1000000000 div 65536) = unat w * 1000000000 div 65536"
proof -
  have "unat ((ucast w :: u64) * 1000000000) = unat w * 1000000000"
    using unat_bounds(3) [of w] by (simp add: unat_word_ariths)
  then show ?thesis by (simp add: unat_div)
qed

text \<open>
  The round trip is measured exactly. Let \<open>a\<close> be the NTP time of a sender report, \<open>b\<close> the later
  time its echo arrives, less than \<open>2 ^ 16\<close> seconds apart, and \<open>d\<close> the delay the peer reports, all
  read at 1/65536 second. When the echoed field is not zero, the result is the elapsed time less the
  delay, in nanoseconds, across the roll-over of the 32-bit field; it is absent exactly when the
  peer claims to have held the report longer than that, or echoes nothing.
\<close>

theorem round_trip_exact:
  assumes "unat a \<le> unat b" and "unat b div 2 ^ 16 - unat a div 2 ^ 16 < 2 ^ 32"
  shows "round_trip (middle_32 b) (middle_32 a) d =
    (if middle_32 a = 0 \<or> unat b div 2 ^ 16 - unat a div 2 ^ 16 < unat d then None
     else Some ((unat b div 2 ^ 16 - unat a div 2 ^ 16 - unat d) * 1000000000 div 65536))"
proof -
  define x y where "x = unat a div 2 ^ 16" and "y = unat b div 2 ^ 16"
  have le: "x \<le> y" "y - x < 2 ^ 32" using assms by (simp_all add: x_def y_def div_le_mono)
  have "middle_32 a = of_nat x" "middle_32 b = of_nat y"
    by (simp_all add: word_unat_eq_iff unat_middle_32 unat_of_nat x_def y_def)
  then have "middle_32 b - middle_32 a = of_nat (y - x)" using le by (simp add: of_nat_diff)
  moreover have "unat (of_nat (y - x) :: u32) = y - x" using le by (intro unat_of_nat_small) simp
  ultimately have e: "unat (middle_32 b - middle_32 a) = y - x" by (simp only:)
  have lt: "middle_32 b - middle_32 a < d \<longleftrightarrow> y - x < unat d" using e by (simp add: word_less_nat_alt)
  have "unat (middle_32 b - middle_32 a - d) = y - x - unat d" if "\<not> y - x < unat d"
    using e that by (simp add: unat_sub_if')
  with lt have "round_trip (middle_32 b) (middle_32 a) d =
      (if middle_32 a = 0 \<or> y - x < unat d then None else Some ((y - x - unat d) * 1000000000 div 65536))"
    by (simp only: round_trip_def checked_sub_word_def nanos_exact) simp
  then show ?thesis unfolding x_def y_def .
qed

theorem round_trip_exact_witness:
  "round_trip (middle_32 (ntp_at 100 0)) (middle_32 (ntp_at 98 0)) 65536 = Some 1000000000"
proof -
  have ntp: "ntp_at 100 0 = 9487534653230284800 + 429496729600" "ntp_at 98 0 = 9487534653230284800 + 420906795008"
    by (simp_all add: ntp_at_def saturating_add_word_def NTP_EPOCH_OFFSET_def)
  have "middle_32 (ntp_at 98 0) \<noteq> 0" by (simp add: ntp middle_32_def)
  with round_trip_exact [of "ntp_at 98 0" "ntp_at 100 0" 65536] show ?thesis by (simp add: ntp)
qed

end
