(* ===== verification/Srtp_Window.thy ===== *)
theory Srtp_Window
  imports Rtp_Packet
begin

text \<open>
  The packet index and the replay windows of \<open>crates/sipx-rtp/src/srtp/mod.rs\<close>: the inferred
  rollover counter, the 48-bit SRTP index with its 64-packet window and the 31-bit SRTCP index with
  its own. Both windows meet one contract, stated as a locale over unbounded packet numbers.
\<close>

section \<open>State and operations\<close>

datatype srtp_error =
    KeyLength string nat nat
  | SrtpTooShort nat
  | NotAuthentic
  | Replayed u16
  | ReplayedRtcp u32

text \<open>The fields of \<open>Context\<close> that track received indices.\<close>

record window =
  wn_roc :: u32
  wn_highest_seq :: "u16 option"
  wn_replay :: u64
  wn_rtcp_index :: u32
  wn_highest_rtcp_index :: "u32 option"
  wn_rtcp_replay :: u64

definition new_window :: window where
  "new_window = \<lparr>wn_roc = 0, wn_highest_seq = None, wn_replay = 0, wn_rtcp_index = 0,
     wn_highest_rtcp_index = None, wn_rtcp_replay = 0\<rparr>"

definition index_of :: "u32 \<Rightarrow> u16 \<Rightarrow> u64" where
  "index_of roc sequence = push_bit 16 (ucast roc) OR ucast sequence"

definition guess_roc :: "('a) window_scheme \<Rightarrow> u16 \<Rightarrow> u32" where
  "guess_roc w sequence = (case wn_highest_seq w of
       None \<Rightarrow> wn_roc w
     | Some highest_seq \<Rightarrow>
         let s = uint sequence; highest = uint highest_seq
         in if highest < 32768 then (if s - highest > 32768 then wn_roc w - 1 else wn_roc w)
            else if highest - 32768 > s then wn_roc w + 1
            else wn_roc w)"

definition check_replay :: "('a) window_scheme \<Rightarrow> u32 \<Rightarrow> u16 \<Rightarrow> (srtp_error, unit) result" where
  "check_replay w roc sequence = (case wn_highest_seq w of
       None \<Rightarrow> Inr ()
     | Some highest \<Rightarrow>
         let incoming = index_of roc sequence; current = index_of (wn_roc w) highest
         in if incoming > current then Inr ()
            else let behind = current - incoming
                 in if behind \<ge> 64 then Inl (Replayed sequence)
                    else if wn_replay w AND push_bit (unat behind) 1 \<noteq> 0 then Inl (Replayed sequence)
                    else Inr ())"

definition accept :: "('a) window_scheme \<Rightarrow> u32 \<Rightarrow> u16 \<Rightarrow> ('a) window_scheme" where
  "accept w roc sequence =
     (let incoming = index_of roc sequence;
          current = (case wn_highest_seq w of None \<Rightarrow> 0 | Some highest \<Rightarrow> index_of (wn_roc w) highest)
      in if wn_highest_seq w = None \<or> incoming > current then
           (let advance = (if wn_highest_seq w = None then 0 else incoming - current);
                replay = (if advance \<ge> 64 then 0 else push_bit (unat advance) (wn_replay w))
            in w\<lparr>wn_replay := replay OR 1, wn_roc := roc, wn_highest_seq := Some sequence\<rparr>)
         else
           (let behind = current - incoming
            in if behind < 64 then w\<lparr>wn_replay := wn_replay w OR push_bit (unat behind) 1\<rparr> else w))"

definition SRTCP_INDEX_MASK :: u32 where "SRTCP_INDEX_MASK = 0x7FFFFFFF"
definition SRTCP_INDEX_HALF_RANGE :: u32 where "SRTCP_INDEX_HALF_RANGE = 0x40000000"

definition srtcp_forward_distance :: "u32 \<Rightarrow> u32 \<Rightarrow> u32 option" where
  "srtcp_forward_distance current incoming =
     (let distance = (incoming - current) AND SRTCP_INDEX_MASK
      in if distance \<noteq> 0 \<and> distance < SRTCP_INDEX_HALF_RANGE then Some distance else None)"

definition check_rtcp_replay :: "('a) window_scheme \<Rightarrow> u32 \<Rightarrow> (srtp_error, unit) result" where
  "check_rtcp_replay w index = (case wn_highest_rtcp_index w of
       None \<Rightarrow> Inr ()
     | Some highest \<Rightarrow>
         if srtcp_forward_distance highest index \<noteq> None then Inr ()
         else let behind = (highest - index) AND SRTCP_INDEX_MASK
              in if behind \<ge> 64 \<or> wn_rtcp_replay w AND push_bit (unat behind) 1 \<noteq> 0
                 then Inl (ReplayedRtcp index) else Inr ())"

definition accept_rtcp :: "('a) window_scheme \<Rightarrow> u32 \<Rightarrow> ('a) window_scheme" where
  "accept_rtcp w index = (case wn_highest_rtcp_index w of
       None \<Rightarrow> w\<lparr>wn_highest_rtcp_index := Some index, wn_rtcp_replay := 1\<rparr>
     | Some highest \<Rightarrow>
         (case srtcp_forward_distance highest index of
            Some advance \<Rightarrow>
              let replay = (if advance \<ge> 64 then 0 else push_bit (unat advance) (wn_rtcp_replay w))
              in w\<lparr>wn_rtcp_replay := replay OR 1, wn_highest_rtcp_index := Some index\<rparr>
          | None \<Rightarrow>
              let behind = (highest - index) AND SRTCP_INDEX_MASK
              in if behind < 64
                 then w\<lparr>wn_rtcp_replay := wn_rtcp_replay w OR push_bit (unat behind) 1\<rparr> else w))"

section \<open>The contract of a replay window\<close>

text \<open>
  The specification: having accepted \<open>xs\<close>, a window of 64 accepts \<open>i\<close> exactly when it has not
  accepted it before and nothing accepted is 64 or more ahead of it; \<open>answers\<close> is what it says to
  a sequence of numbers.
\<close>

definition window_ok :: "nat list \<Rightarrow> nat \<Rightarrow> bool" where
  "window_ok xs i \<longleftrightarrow> i \<notin> set xs \<and> (\<forall>x \<in> set xs. x < i + 64)"

fun answers :: "nat list \<Rightarrow> nat list \<Rightarrow> bool list" where
  "answers xs [] = []"
| "answers xs (i # is) = window_ok xs i # answers (if window_ok xs i then i # xs else xs) is"

text \<open>
  A 64-bit window over packet numbers. \<open>at s h\<close> relates a state to the highest accepted number,
  \<open>near h i\<close> holds the numbers the state can place relative to it. The laws say what a state
  answers about a number and how it moves; \<open>fresh\<close> states have accepted nothing.
\<close>

locale replay_window =
  fixes fresh :: "'s \<Rightarrow> bool"
    and at :: "'s \<Rightarrow> nat \<Rightarrow> bool"
    and near :: "nat \<Rightarrow> nat \<Rightarrow> bool"
    and mask_of :: "'s \<Rightarrow> u64"
    and admits :: "'s \<Rightarrow> nat \<Rightarrow> bool"
    and admit :: "'s \<Rightarrow> nat \<Rightarrow> 's"
  assumes admits_fresh: "fresh s \<Longrightarrow> admits s i"
    and admits_new: "at s h \<Longrightarrow> near h i \<Longrightarrow> h < i \<Longrightarrow> admits s i"
    and admits_old: "at s h \<Longrightarrow> near h i \<Longrightarrow> i \<le> h \<Longrightarrow>
      admits s i \<longleftrightarrow> h - i < 64 \<and> \<not> bit (mask_of s) (h - i)"
    and admit_fresh: "fresh s \<Longrightarrow> near i i \<Longrightarrow> at (admit s i) i \<and> mask_of (admit s i) = 1"
    and admit_new: "at s h \<Longrightarrow> near h i \<Longrightarrow> h < i \<Longrightarrow> at (admit s i) i \<and>
      mask_of (admit s i) = (if i - h < 64 then push_bit (i - h) (mask_of s) else 0) OR 1"
    and admit_old: "at s h \<Longrightarrow> near h i \<Longrightarrow> i \<le> h \<Longrightarrow> h - i < 64 \<Longrightarrow> at (admit s i) h \<and>
      mask_of (admit s i) = mask_of s OR push_bit (h - i) 1"
begin

text \<open>\<open>tracks s xs\<close>: exactly the numbers \<open>xs\<close> have been accepted, the latest 64 of them as bits.\<close>

definition tracks :: "'s \<Rightarrow> nat list \<Rightarrow> bool" where
  "tracks s xs \<longleftrightarrow> (if xs = [] then fresh s
     else at s (Max (set xs)) \<and>
       (\<forall>b < 64. b \<le> Max (set xs) \<longrightarrow> (bit (mask_of s) b \<longleftrightarrow> Max (set xs) - b \<in> set xs)))"

definition placed :: "nat list \<Rightarrow> nat \<Rightarrow> bool" where
  "placed xs i \<longleftrightarrow> near i i \<and> (xs \<noteq> [] \<longrightarrow> near (Max (set xs)) i)"

lemma window_ok_Max:
  "xs \<noteq> [] \<Longrightarrow> window_ok xs i \<longleftrightarrow> i \<notin> set xs \<and> Max (set xs) < i + 64"
  by (simp add: window_ok_def)

lemma admits_iff:
  assumes "tracks s xs" "placed xs i"
  shows "admits s i \<longleftrightarrow> window_ok xs i"
proof (cases "xs = []")
  case True
  with assms admits_fresh show ?thesis by (simp add: tracks_def window_ok_def)
next
  case False
  define h where "h = Max (set xs)"
  have at: "at s h" "near h i" and bits: "\<forall>b < 64. b \<le> h \<longrightarrow> (bit (mask_of s) b \<longleftrightarrow> h - b \<in> set xs)"
    using assms False by (simp_all add: tracks_def placed_def h_def)
  show ?thesis
  proof (cases "h < i")
    case True
    then have "i \<notin> set xs" using False by (auto simp: h_def)
    with True admits_new [OF at] False show ?thesis by (simp add: window_ok_Max flip: h_def)
  next
    case older: False
    then have "admits s i \<longleftrightarrow> h - i < 64 \<and> \<not> bit (mask_of s) (h - i)"
      using admits_old [OF at] by simp
    also have "\<dots> \<longleftrightarrow> h - i < 64 \<and> i \<notin> set xs"
      using bits older by (metis diff_diff_cancel diff_le_self not_less)
    finally show ?thesis using False older by (auto simp: window_ok_Max simp flip: h_def)
  qed
qed

lemma tracks_admit:
  assumes "tracks s xs" "placed xs i" "admits s i"
  shows "tracks (admit s i) (i # xs)"
proof (cases "xs = []")
  case True
  then have "at (admit s i) i \<and> mask_of (admit s i) = 1"
    using assms admit_fresh by (simp add: tracks_def placed_def)
  moreover have "bit (1 :: u64) b \<longleftrightarrow> i - b = i" if "b \<le> i" for b
    using that by (auto simp: bit_1_iff)
  ultimately show ?thesis using True by (simp add: tracks_def)
next
  case False
  define h where "h = Max (set xs)"
  have at: "at s h" "near h i" and bits: "\<forall>b < 64. b \<le> h \<longrightarrow> (bit (mask_of s) b \<longleftrightarrow> h - b \<in> set xs)"
    using assms False by (simp_all add: tracks_def placed_def h_def)
  have le: "x \<le> h" if "x \<in> set xs" for x using that by (simp add: h_def)
  show ?thesis
  proof (cases "h < i")
    case True
    then have max: "Max (set (i # xs)) = i" using False by (simp add: h_def)
    have st: "at (admit s i) i" and mask: "mask_of (admit s i) =
        (if i - h < 64 then push_bit (i - h) (mask_of s) else 0) OR 1"
      using admit_new [OF at True] by simp_all
    have "bit (mask_of (admit s i)) b \<longleftrightarrow> i - b \<in> set (i # xs)" if "b < 64" "b \<le> i" for b
    proof (cases "b < i - h")
      case before: True
      then have "i - b \<notin> set xs" using le by fastforce
      with before that show ?thesis by (auto simp: mask bit_simps)
    next
      case behind: False
      then have "bit (mask_of s) (b - (i - h)) \<longleftrightarrow> i - b \<in> set xs"
        using bits [rule_format, of "b - (i - h)"] that True by (simp add: diff_diff_right)
      with behind that True show ?thesis by (auto simp: mask bit_simps)
    qed
    with st max show ?thesis by (simp add: tracks_def)
  next
    case older: False
    have "Max (set (i # xs)) = max i h" using False by (simp add: h_def)
    with older have max: "Max (set (i # xs)) = h" by (simp add: max_absorb2)
    have win: "h - i < 64" using admits_old [OF at] older assms(3) by simp
    have st: "at (admit s i) h" and mask: "mask_of (admit s i) = mask_of s OR push_bit (h - i) 1"
      using admit_old [OF at _ win] older by simp_all
    have "bit (mask_of (admit s i)) b \<longleftrightarrow> h - b \<in> set (i # xs)" if "b < 64" "b \<le> h" for b
      using bits [rule_format, OF that] that older by (auto simp: mask bit_simps)
    with st max show ?thesis by (simp add: tracks_def)
  qed
qed

text \<open>Offering numbers one after another.\<close>

fun offer :: "'s \<Rightarrow> nat list \<Rightarrow> bool list \<times> 's" where
  "offer s [] = ([], s)"
| "offer s (i # is) = (let (bs, s') = offer (if admits s i then admit s i else s) is in (admits s i # bs, s'))"

fun all_placed :: "nat list \<Rightarrow> nat list \<Rightarrow> bool" where
  "all_placed xs [] \<longleftrightarrow> True"
| "all_placed xs (i # is) \<longleftrightarrow> placed xs i \<and> all_placed (if window_ok xs i then i # xs else xs) is"

lemma offer_answers: "tracks s xs \<Longrightarrow> all_placed xs is \<Longrightarrow> fst (offer s is) = answers xs is"
proof (induction "is" arbitrary: s xs)
  case (Cons i "is")
  have "admits s i \<longleftrightarrow> window_ok xs i" using Cons.prems by (intro admits_iff) simp_all
  moreover have "tracks (if admits s i then admit s i else s) (if window_ok xs i then i # xs else xs)"
    using Cons.prems tracks_admit [of s xs i] calculation by simp
  ultimately show ?case using Cons by (simp add: case_prod_beta)
qed simp

end


lemma answers_distinct:
  "distinct xs \<Longrightarrow> distinct (map fst (filter snd (zip is (answers xs is))))
     \<and> set xs \<inter> set (map fst (filter snd (zip is (answers xs is)))) = {}"
proof (induction "is" arbitrary: xs)
  case (Cons i "is")
  show ?case
  proof (cases "window_ok xs i")
    case True
    then have "i \<notin> set xs" by (simp add: window_ok_def)
    with Cons.IH [of "i # xs"] Cons.prems True show ?thesis by auto
  next
    case False
    with Cons show ?thesis by simp
  qed
qed simp

section \<open>The SRTP window\<close>

lemma len64: "LENGTH(64) = 64" by simp

lemma unat_index_of: "unat (index_of roc sequence) = unat roc * 65536 + unat sequence"
proof -
  have "push_bit 16 (ucast roc :: u64) OR ucast sequence = push_bit 16 (ucast roc) + ucast sequence"
    by (rule disjunctive_add [symmetric]) (auto simp: bit_simps dest: bit_imp_le_length)
  then have "index_of roc sequence = of_nat (unat roc * 65536 + unat sequence)"
    by (simp add: index_of_def push_bit_eq_mult mult.commute)
  moreover have "unat roc * 65536 + unat sequence < 2 ^ 64"
    using unat_bounds(3) [of roc] unat_bounds(2) [of sequence] by simp
  ultimately show ?thesis using unat_of_nat_small [of _ , where ?'w = 64] by (metis len64)
qed

text \<open>The 48-bit number of a packet, cut into rollover counter and sequence number.\<close>

definition roc_of :: "nat \<Rightarrow> u32" where "roc_of i = of_nat (i div 65536)"
definition seq_of :: "nat \<Rightarrow> u16" where "seq_of i = of_nat i"

lemma index_of_parts: "i < 2 ^ 48 \<Longrightarrow> unat (index_of (roc_of i) (seq_of i)) = i"
  by (simp add: unat_index_of roc_of_def seq_of_def unat_of_nat)

definition srtp_near :: "nat \<Rightarrow> nat \<Rightarrow> bool" where
  "srtp_near h i \<longleftrightarrow> h < 2 ^ 48 \<and> i < 2 ^ 48"

definition srtp_at :: "('a) window_scheme \<Rightarrow> nat \<Rightarrow> bool" where
  "srtp_at w h \<longleftrightarrow> (\<exists>s. wn_highest_seq w = Some s \<and> unat (index_of (wn_roc w) s) = h)"

lemma sub_index: "b \<le> a \<Longrightarrow> unat (a - b :: u64) = unat a - unat b"
  by (simp add: unat_sub)

interpretation srtp: replay_window
  "\<lambda>w :: ('a) window_scheme. wn_highest_seq w = None \<and> wn_replay w = 0" srtp_at srtp_near
  wn_replay "\<lambda>w i. check_replay w (roc_of i) (seq_of i) = Inr ()" "\<lambda>w i. accept w (roc_of i) (seq_of i)"
proof (unfold_locales, goal_cases)
  case (1 s i)
  then show ?case by (simp add: check_replay_def)
next
  case (2 s h i)
  then show ?case
    by (auto simp: check_replay_def srtp_at_def word_less_nat_alt index_of_parts srtp_near_def)
next
  case (3 s h i)
  then obtain q where q: "wn_highest_seq s = Some q" "unat (index_of (wn_roc s) q) = h"
    by (auto simp: srtp_at_def)
  have i: "unat (index_of (roc_of i) (seq_of i)) = i" using 3 by (intro index_of_parts) (simp add: srtp_near_def)
  have le: "index_of (roc_of i) (seq_of i) \<le> index_of (wn_roc s) q"
    using 3 q i by (simp add: word_le_nat_alt)
  then have d: "unat (index_of (wn_roc s) q - index_of (roc_of i) (seq_of i)) = h - i"
    using sub_index q(2) i by simp
  have "\<not> index_of (wn_roc s) q < index_of (roc_of i) (seq_of i)" using le by (simp add: not_less)
  with q d show ?case
    by (simp add: check_replay_def Let_def word_le_nat_alt and_exp_eq_0_iff_not_bit)
next
  case (4 s i)
  then show ?case
    by (auto simp: accept_def srtp_at_def index_of_parts srtp_near_def)
next
  case (5 s h i)
  then obtain q where q: "wn_highest_seq s = Some q" "unat (index_of (wn_roc s) q) = h"
    by (auto simp: srtp_at_def)
  have i: "unat (index_of (roc_of i) (seq_of i)) = i" using 5 by (intro index_of_parts) (simp add: srtp_near_def)
  have gt: "index_of (wn_roc s) q < index_of (roc_of i) (seq_of i)"
    using 5 q i by (simp add: word_less_nat_alt)
  then have d: "unat (index_of (roc_of i) (seq_of i) - index_of (wn_roc s) q) = i - h"
    using sub_index [OF less_imp_le [OF gt]] q(2) i by simp
  show ?case
    using q gt d i by (auto simp: accept_def Let_def srtp_at_def word_le_nat_alt)
next
  case (6 s h i)
  then obtain q where q: "wn_highest_seq s = Some q" "unat (index_of (wn_roc s) q) = h"
    by (auto simp: srtp_at_def)
  have i: "unat (index_of (roc_of i) (seq_of i)) = i" using 6 by (intro index_of_parts) (simp add: srtp_near_def)
  have le: "index_of (roc_of i) (seq_of i) \<le> index_of (wn_roc s) q"
    using 6 q i by (simp add: word_le_nat_alt)
  then have d: "unat (index_of (wn_roc s) q - index_of (roc_of i) (seq_of i)) = h - i"
    using sub_index q(2) i by simp
  show ?case
    using q le d i 6 by (auto simp: accept_def Let_def srtp_at_def word_less_nat_alt not_less)
qed


section \<open>The SRTCP window\<close>

text \<open>SRTCP indices are 31-bit cuts of packet numbers; differences are taken modulo \<open>2 ^ 31\<close>.\<close>

definition rtcp_of :: "nat \<Rightarrow> u32" where "rtcp_of i = of_nat (i mod 2147483648)"

definition srtcp_near :: "nat \<Rightarrow> nat \<Rightarrow> bool" where
  "srtcp_near h i \<longleftrightarrow> i < h + 1073741824 \<and> h < i + 1073741824"

definition srtcp_at :: "('a) window_scheme \<Rightarrow> nat \<Rightarrow> bool" where
  "srtcp_at w h \<longleftrightarrow> wn_highest_rtcp_index w = Some (rtcp_of h)"

lemma index_mask: "SRTCP_INDEX_MASK = mask 31"
  by (simp add: SRTCP_INDEX_MASK_def mask_eq_exp_minus_1)

lemma masked_difference:
  "int (unat ((rtcp_of a - rtcp_of b) AND SRTCP_INDEX_MASK)) = (int a - int b) mod 2147483648"
proof -
  have "rtcp_of a - rtcp_of b = of_int (int (a mod 2147483648) - int (b mod 2147483648))"
    unfolding rtcp_of_def of_int_diff of_int_of_nat_eq ..
  then have "uint ((rtcp_of a - rtcp_of b) AND SRTCP_INDEX_MASK)
      = take_bit 31 (uint (of_int (int (a mod 2147483648) - int (b mod 2147483648)) :: u32))"
    unfolding index_mask by (simp only: take_bit_eq_mask [symmetric]) (simp add: unsigned_take_bit_eq)
  also have "\<dots> = take_bit 31 (int (a mod 2147483648) - int (b mod 2147483648))"
    by (simp only: unsigned_of_int take_bit_take_bit) simp
  also have "\<dots> = (int a - int b) mod 2147483648"
    by (simp add: take_bit_eq_mod zmod_int mod_diff_eq)
  finally show ?thesis by simp
qed

lemma distance_ahead:
  assumes "b \<le> a" "a - b < 2147483648"
  shows "unat ((rtcp_of a - rtcp_of b) AND SRTCP_INDEX_MASK) = a - b"
proof -
  have "(int a - int b) mod 2147483648 = int (a - b)"
    using assms by (simp add: of_nat_diff)
  with masked_difference [of a b] show ?thesis by (simp only: of_nat_eq_iff)
qed

lemma distance_behind:
  assumes "a < b" "b - a < 2147483648"
  shows "unat ((rtcp_of a - rtcp_of b) AND SRTCP_INDEX_MASK) = 2147483648 - (b - a)"
proof -
  have "(int a - int b) mod 2147483648 = int (2147483648 - (b - a))"
    using assms by (intro int_mod_pos_eq [where q = "- 1"]) (simp_all add: of_nat_diff)
  with masked_difference [of a b] show ?thesis by (simp only: of_nat_eq_iff)
qed

lemma forward_distance:
  assumes "i < h + 1073741824" "h < i + 1073741824"
  shows "srtcp_forward_distance (rtcp_of h) (rtcp_of i) = (if h < i then Some (of_nat (i - h)) else None)"
proof (cases "h < i")
  case True
  have "unat ((rtcp_of i - rtcp_of h) AND SRTCP_INDEX_MASK) = i - h"
    using assms True by (intro distance_ahead) simp_all
  moreover have "unat (of_nat (i - h) :: u32) = i - h"
    using assms by (intro unat_of_nat_small) simp
  ultimately have d: "(rtcp_of i - rtcp_of h) AND SRTCP_INDEX_MASK = of_nat (i - h)"
    by (simp only: word_unat_eq_iff)
  have "(of_nat (i - h) :: u32) \<noteq> 0" "(of_nat (i - h) :: u32) < SRTCP_INDEX_HALF_RANGE"
    using True assms by (simp_all add: SRTCP_INDEX_HALF_RANGE_def word_less_nat_alt word_unat_eq_iff unat_of_nat
        del: of_nat_diff)
  with True show ?thesis by (simp only: srtcp_forward_distance_def d Let_def) simp
next
  case False
  have "(rtcp_of i - rtcp_of h) AND SRTCP_INDEX_MASK = 0 \<or>
      \<not> (rtcp_of i - rtcp_of h) AND SRTCP_INDEX_MASK < SRTCP_INDEX_HALF_RANGE"
  proof (cases "i = h")
    case False
    with \<open>\<not> h < i\<close> have "unat ((rtcp_of i - rtcp_of h) AND SRTCP_INDEX_MASK) = 2147483648 - (h - i)"
      using assms by (intro distance_behind) simp_all
    moreover have "1073741824 \<le> 2147483648 - (h - i)" using assms by linarith
    ultimately show ?thesis by (simp add: word_less_nat_alt SRTCP_INDEX_HALF_RANGE_def)
  qed simp
  with False show ?thesis by (auto simp: srtcp_forward_distance_def Let_def)
qed

interpretation srtcp: replay_window
  "\<lambda>w :: ('a) window_scheme. wn_highest_rtcp_index w = None" srtcp_at srtcp_near wn_rtcp_replay
  "\<lambda>w i. check_rtcp_replay w (rtcp_of i) = Inr ()" "\<lambda>w i. accept_rtcp w (rtcp_of i)"
proof (unfold_locales, goal_cases)
  case (1 s i)
  then show ?case by (simp add: check_rtcp_replay_def)
next
  case (2 s h i)
  then show ?case by (simp add: check_rtcp_replay_def srtcp_at_def srtcp_near_def forward_distance)
next
  case (3 s h i)
  then have "unat ((rtcp_of h - rtcp_of i) AND SRTCP_INDEX_MASK) = h - i" by (intro distance_ahead) (simp_all add: srtcp_near_def)
  with 3 show ?case
    by (simp add: check_rtcp_replay_def srtcp_at_def srtcp_near_def forward_distance word_le_nat_alt Let_def
        and_exp_eq_0_iff_not_bit)
next
  case (4 s i)
  then show ?case by (simp add: accept_rtcp_def srtcp_at_def srtcp_near_def)
next
  case (5 s h i)
  then have "unat (of_nat (i - h) :: u32) = i - h" by (intro unat_of_nat_small) (simp add: srtcp_near_def)
  with 5 show ?case
    by (simp add: accept_rtcp_def srtcp_at_def srtcp_near_def forward_distance word_le_nat_alt Let_def del: of_nat_diff)
next
  case (6 s h i)
  then have "unat ((rtcp_of h - rtcp_of i) AND SRTCP_INDEX_MASK) = h - i" by (intro distance_ahead) (simp_all add: srtcp_near_def)
  with 6 show ?case
    by (simp add: accept_rtcp_def srtcp_at_def srtcp_near_def forward_distance word_less_nat_alt Let_def)
qed


section \<open>What the windows guarantee\<close>

text \<open>Authenticated packets meeting the windows in turn: the check, and the update when it passes.\<close>

fun receive_srtp :: "('a) window_scheme \<Rightarrow> (u32 \<times> u16) list \<Rightarrow> bool list" where
  "receive_srtp w [] = []"
| "receive_srtp w ((roc, sequence) # ps) =
     (if check_replay w roc sequence = Inr () then True # receive_srtp (accept w roc sequence) ps
      else False # receive_srtp w ps)"

fun receive_srtcp :: "('a) window_scheme \<Rightarrow> u32 list \<Rightarrow> bool list" where
  "receive_srtcp w [] = []"
| "receive_srtcp w (index # ps) =
     (if check_rtcp_replay w index = Inr () then True # receive_srtcp (accept_rtcp w index) ps
      else False # receive_srtcp w ps)"

definition srtp_number :: "u32 \<times> u16 \<Rightarrow> nat" where
  "srtp_number p = unat (index_of (fst p) (snd p))"

lemma srtp_number_parts:
  "srtp_number (roc, sequence) < 2 ^ 48" "roc_of (srtp_number (roc, sequence)) = roc"
  "seq_of (srtp_number (roc, sequence)) = sequence"
proof -
  have n: "srtp_number (roc, sequence) = unat roc * 65536 + unat sequence"
    by (simp add: srtp_number_def unat_index_of)
  then show "srtp_number (roc, sequence) < 2 ^ 48"
    using unat_bounds(3) [of roc] unat_bounds(2) [of sequence] by simp
  show "roc_of (srtp_number (roc, sequence)) = roc"
    using unat_bounds(2) [of sequence] by (simp add: n roc_of_def)
  have "(unat roc * 65536 + unat sequence) mod 65536 = unat sequence"
    using unat_bounds(2) [of sequence] by simp
  then show "seq_of (srtp_number (roc, sequence)) = sequence"
    by (simp only: n seq_of_def word_unat_eq_iff unat_of_nat) simp
qed

lemma receive_srtp_offer: "receive_srtp w ps = fst (srtp.offer w (map srtp_number ps))"
  by (induction w ps rule: receive_srtp.induct) (auto simp: srtp_number_parts case_prod_beta)

lemma srtp_all_placed: "set xs \<union> set is \<subseteq> {..< 2 ^ 48} \<Longrightarrow> srtp.all_placed xs is"
proof (induction "is" arbitrary: xs)
  case (Cons i "is")
  then have "Max (set xs) < 2 ^ 48" if "xs \<noteq> []" using that by auto
  with Cons.prems have "srtp.placed xs i" by (simp add: srtp.placed_def srtp_near_def)
  moreover have "srtp.all_placed (if window_ok xs i then i # xs else xs) is"
    using Cons.prems by (intro Cons.IH) auto
  ultimately show ?case by simp
qed simp

text \<open>
  C3: The SRTP replay window is exact. For any sequence of authenticated packets, given by rollover
  counter and sequence number, the window accepts a packet if and only if its 48-bit index was not
  accepted before and no accepted index is 64 or more ahead of it. In particular no packet is
  accepted twice, however the sequence is reordered, and nothing inside the window is lost.
\<close>

theorem srtp_replay_exact:
  "receive_srtp new_window ps = answers [] (map srtp_number ps) \<and>
   distinct (map fst (filter snd (zip (map srtp_number ps) (receive_srtp new_window ps))))"
proof -
  have "srtp.all_placed [] (map srtp_number ps)"
    using srtp_number_parts(1) by (intro srtp_all_placed) auto
  then have "receive_srtp new_window ps = answers [] (map srtp_number ps)"
    unfolding receive_srtp_offer
    by (intro srtp.offer_answers) (simp_all add: srtp.tracks_def new_window_def)
  with answers_distinct [of "[]" "map srtp_number ps"] show ?thesis by simp
qed

lemma receive_srtcp_offer: "receive_srtcp w (map rtcp_of is) = fst (srtcp.offer w is)"
  by (induction "is" arbitrary: w) (auto simp: case_prod_beta)

lemma srtcp_all_placed:
  "\<forall>i \<in> set xs \<union> set is. \<forall>j \<in> set xs \<union> set is. i < j + 1073741824 \<Longrightarrow> srtcp.all_placed xs is"
proof (induction "is" arbitrary: xs)
  case (Cons i "is")
  have "Max (set xs) \<in> set xs" if "xs \<noteq> []" using that by simp
  then have "srtcp.placed xs i" using Cons.prems by (auto simp: srtcp.placed_def srtcp_near_def simp del: Max_in)
  moreover have "srtcp.all_placed (if window_ok xs i then i # xs else xs) is"
    using Cons.prems by (intro Cons.IH) auto
  ultimately show ?case by simp
qed simp

text \<open>
  The SRTCP window is exact within half its index space. For any sequence of authenticated
  packets whose numbers span less than \<open>2 ^ 30\<close>, sent as their low 31 bits (so the index may wrap
  in between), a packet is accepted if and only if its number was not accepted before and no
  accepted number is 64 or more ahead; none is accepted twice.
\<close>

theorem srtcp_replay_exact:
  assumes "\<forall>i \<in> set is. \<forall>j \<in> set is. i < j + 2 ^ 30"
  shows "receive_srtcp new_window (map rtcp_of is) = answers [] is \<and>
    distinct (map fst (filter snd (zip is (receive_srtcp new_window (map rtcp_of is)))))"
proof -
  have "srtcp.all_placed [] is" using assms by (intro srtcp_all_placed) simp
  then have "receive_srtcp new_window (map rtcp_of is) = answers [] is"
    unfolding receive_srtcp_offer
    by (intro srtcp.offer_answers) (simp_all add: srtcp.tracks_def new_window_def)
  with answers_distinct [of "[]" "is"] show ?thesis by simp
qed

theorem srtcp_replay_exact_witness:
  "receive_srtcp new_window (map rtcp_of [2147483647, 2147483648, 2147483647, 2147483720, 2147483650, 2147483700]) =
     [True, True, False, True, False, True]"
proof -
  let ?is = "[2147483647, 2147483648, 2147483647, 2147483720, 2147483650, 2147483700] :: nat list"
  have "\<forall>i \<in> set ?is. \<forall>j \<in> set ?is. i < j + 2 ^ 30" by simp
  from srtcp_replay_exact [OF this] show ?thesis by (simp add: window_ok_def)
qed

section \<open>The inferred rollover counter\<close>

text \<open>
  The rollover counter is inferred exactly. When the receiver's highest packet number is \<open>h\<close> and
  a packet numbered \<open>n\<close> arrives less than half the sequence space away, ahead or late, the guess
  from the 16-bit sequence number alone is the rollover counter the sender used, across wraps in
  both directions.
\<close>

theorem guess_roc_exact:
  assumes "srtp_at w h" and "n < h + 32768" and "h < n + 32768" and "n < 2 ^ 48"
  shows "guess_roc w (seq_of n) = roc_of n"
proof -
  obtain q where q: "wn_highest_seq w = Some q" and h: "unat (wn_roc w) * 65536 + unat q = h"
    using assms(1) by (auto simp: srtp_at_def unat_index_of)
  define a b c d where "a = n div 65536" and "b = n mod 65536" and "c = unat (wn_roc w)" and "d = unat q"
  have ab: "a * 65536 + b = n" "b < 65536" by (simp_all add: a_def b_def)
  have cd: "c * 65536 + d = h" "d < 65536" using h unat_bounds(2) [of q] by (simp_all add: c_def d_def)
  have u: "uint (seq_of n) = int b" "uint q = int d"
    by (simp_all add: seq_of_def b_def d_def unsigned_of_nat take_bit_eq_mod zmod_int)
  have roc: "wn_roc w = of_nat c" by (simp add: c_def)
  have roc_n: "roc_of n = of_nat a" by (simp add: roc_of_def a_def)
  have "a \<le> c + 1" "c \<le> a + 1" using assms ab cd by linarith+
  then consider "a = c" | "a = c + 1" | "c = a + 1" by linarith
  then show ?thesis
  proof cases
    case 1
    with assms ab cd show ?thesis by (simp add: guess_roc_def q u roc roc_n Let_def)
  next
    case 2
    with assms ab cd show ?thesis by (auto simp: guess_roc_def q u roc roc_n Let_def)
  next
    case 3
    with assms ab cd show ?thesis by (auto simp: guess_roc_def q u roc roc_n Let_def)
  qed
qed

theorem guess_roc_exact_witness:
  "guess_roc (new_window\<lparr>wn_roc := 7, wn_highest_seq := Some 3\<rparr>) 65530 = 6"
proof -
  have "srtp_at (new_window\<lparr>wn_roc := 7, wn_highest_seq := Some 3\<rparr>) 458755"
    by (simp add: srtp_at_def unat_index_of)
  moreover have "seq_of 458746 = 65530" "roc_of 458746 = 6" by (simp_all add: seq_of_def roc_of_def)
  ultimately show ?thesis using guess_roc_exact [of _ 458755 458746] by simp
qed

end
