(* ===== verification/Srtp_Context.thy ===== *)
theory Srtp_Context
  imports Srtp_Window
begin

text \<open>
  The SRTP and SRTCP transforms of \<open>crates/sipx-rtp/src/srtp/mod.rs\<close>: profiles, key derivation,
  initialization vectors, protection and its inverse for the counter-mode and the two AEAD profiles.
  AES, HMAC-SHA1 and AES-GCM come from third-party crates and are parameters, the fields of
  \<open>crypto\<close>; \<open>crypto_ok\<close> states what the code relies on of them.
\<close>

section \<open>Profiles\<close>

datatype profile = AesCm128HmacSha1_80 | AeadAes128Gcm | AeadAes256Gcm

definition MASTER_KEY_LEN :: nat where "MASTER_KEY_LEN = 16"
definition MASTER_SALT_LEN :: nat where "MASTER_SALT_LEN = 14"
definition TAG_LEN :: nat where "TAG_LEN = 10"
definition MAX_TAG_LEN :: nat where "MAX_TAG_LEN = 16"
definition SESSION_SALT_LEN :: nat where "SESSION_SALT_LEN = 14"
definition SESSION_AUTH_LEN :: nat where "SESSION_AUTH_LEN = 20"
definition AEAD_IV_LEN :: nat where "AEAD_IV_LEN = 12"

lemmas lengths [simp] = MASTER_KEY_LEN_def MASTER_SALT_LEN_def TAG_LEN_def MAX_TAG_LEN_def
  SESSION_SALT_LEN_def SESSION_AUTH_LEN_def AEAD_IV_LEN_def

definition STRONGEST_FIRST :: "profile list" where
  "STRONGEST_FIRST = [AeadAes256Gcm, AeadAes128Gcm, AesCm128HmacSha1_80]"

fun strength :: "profile \<Rightarrow> u8" where
  "strength AesCm128HmacSha1_80 = 1"
| "strength AeadAes128Gcm = 2"
| "strength AeadAes256Gcm = 3"

fun master_key_len :: "profile \<Rightarrow> nat" where
  "master_key_len AesCm128HmacSha1_80 = 16"
| "master_key_len AeadAes128Gcm = 16"
| "master_key_len AeadAes256Gcm = 32"

fun master_salt_len :: "profile \<Rightarrow> nat" where
  "master_salt_len AesCm128HmacSha1_80 = 14"
| "master_salt_len AeadAes128Gcm = AEAD_IV_LEN"
| "master_salt_len AeadAes256Gcm = AEAD_IV_LEN"

definition key_and_salt_len :: "profile \<Rightarrow> nat \<times> nat" where
  "key_and_salt_len p = (master_key_len p, master_salt_len p)"

fun tag_len :: "profile \<Rightarrow> nat" where
  "tag_len AesCm128HmacSha1_80 = TAG_LEN"
| "tag_len AeadAes128Gcm = MAX_TAG_LEN"
| "tag_len AeadAes256Gcm = MAX_TAG_LEN"

fun is_aead :: "profile \<Rightarrow> bool" where
  "is_aead AesCm128HmacSha1_80 \<longleftrightarrow> False"
| "is_aead AeadAes128Gcm \<longleftrightarrow> True"
| "is_aead AeadAes256Gcm \<longleftrightarrow> True"

section \<open>Primitives\<close>

text \<open>
  The keystream of AES in counter mode (key, initial block, number of octets), HMAC-SHA1 (key,
  message) and AES-GCM (key, nonce, associated data, text; ciphertext followed by the tag).
\<close>

record crypto =
  ctr128 :: "bytes \<Rightarrow> bytes \<Rightarrow> nat \<Rightarrow> bytes"
  ctr256 :: "bytes \<Rightarrow> bytes \<Rightarrow> nat \<Rightarrow> bytes"
  hmac_sha1 :: "bytes \<Rightarrow> bytes \<Rightarrow> bytes"
  gcm128_seal :: "bytes \<Rightarrow> bytes \<Rightarrow> bytes \<Rightarrow> bytes \<Rightarrow> bytes option"
  gcm128_open :: "bytes \<Rightarrow> bytes \<Rightarrow> bytes \<Rightarrow> bytes \<Rightarrow> bytes option"
  gcm256_seal :: "bytes \<Rightarrow> bytes \<Rightarrow> bytes \<Rightarrow> bytes \<Rightarrow> bytes option"
  gcm256_open :: "bytes \<Rightarrow> bytes \<Rightarrow> bytes \<Rightarrow> bytes \<Rightarrow> bytes option"

definition crypto_ok :: "crypto \<Rightarrow> bool" where
  "crypto_ok c \<longleftrightarrow>
     (\<forall>k iv n. length (ctr128 c k iv n) = n) \<and> (\<forall>k iv n. length (ctr256 c k iv n) = n) \<and>
     (\<forall>k m. length (hmac_sha1 c k m) = 20) \<and>
     (\<forall>k iv aad p. \<exists>x. gcm128_seal c k iv aad p = Some x \<and> length x = length p + 16 \<and>
        gcm128_open c k iv aad x = Some p) \<and>
     (\<forall>k iv aad p. \<exists>x. gcm256_seal c k iv aad p = Some x \<and> length x = length p + 16 \<and>
        gcm256_open c k iv aad x = Some p)"

definition apply_keystream :: "(nat \<Rightarrow> bytes) \<Rightarrow> bytes \<Rightarrow> bytes" where
  "apply_keystream ks buf = map2 (XOR) buf (ks (length buf))"

section \<open>Key derivation\<close>

datatype label =
    RtpEncryption | RtpAuthentication | RtpSalt | RtcpEncryption | RtcpAuthentication | RtcpSalt

fun label_code :: "label \<Rightarrow> u8" where
  "label_code RtpEncryption = 0"
| "label_code RtpAuthentication = 1"
| "label_code RtpSalt = 2"
| "label_code RtcpEncryption = 3"
| "label_code RtcpAuthentication = 4"
| "label_code RtcpSalt = 5"

definition derive :: "crypto \<Rightarrow> bytes \<Rightarrow> bytes \<Rightarrow> label \<Rightarrow> nat \<Rightarrow> (srtp_error, bytes) result" where
  "derive c master_key master_salt label n =
     (if length master_salt > 16
      then Inl (KeyLength ''master salt'' MASTER_SALT_LEN (length master_salt))
      else
        let iv = master_salt @ replicate (16 - length master_salt) 0;
            iv = iv[7 := iv ! 7 XOR label_code label];
            iv = iv[14 := 0, 15 := 0]
        in if length master_key = 32 then Inr (apply_keystream (ctr256 c master_key iv) (replicate n 0))
           else if length master_key = 16 then Inr (apply_keystream (ctr128 c master_key iv) (replicate n 0))
           else Inl (KeyLength ''master key'' MASTER_KEY_LEN (length master_key)))"

record session =
  se_rtp_key :: bytes
  se_rtp_salt :: bytes
  se_rtp_auth :: bytes
  se_rtcp_key :: bytes
  se_rtcp_salt :: bytes
  se_rtcp_auth :: bytes

record srtp_context = window +
  cx_profile :: profile
  cx_session :: session

definition context_new :: "crypto \<Rightarrow> profile \<Rightarrow> bytes \<Rightarrow> bytes \<Rightarrow> (srtp_error, srtp_context) result" where
  "context_new c profile master_key master_salt =
     (let (key_len, salt_len) = key_and_salt_len profile in
      if length master_key \<noteq> key_len
      then Inl (KeyLength ''master key'' key_len (length master_key))
      else if length master_salt \<noteq> salt_len
      then Inl (KeyLength ''master salt'' salt_len (length master_salt))
      else
        let auth_len = (if is_aead profile then 0 else SESSION_AUTH_LEN) in
        bind_res (derive c master_key master_salt RtpEncryption key_len) (\<lambda>rtp_key.
        bind_res (derive c master_key master_salt RtpSalt salt_len) (\<lambda>rtp_salt.
        bind_res (derive c master_key master_salt RtpAuthentication auth_len) (\<lambda>rtp_auth.
        bind_res (derive c master_key master_salt RtcpEncryption key_len) (\<lambda>rtcp_key.
        bind_res (derive c master_key master_salt RtcpSalt salt_len) (\<lambda>rtcp_salt.
        bind_res (derive c master_key master_salt RtcpAuthentication auth_len) (\<lambda>rtcp_auth.
        Inr \<lparr>wn_roc = 0, wn_highest_seq = None, wn_replay = 0, wn_rtcp_index = 0,
          wn_highest_rtcp_index = None, wn_rtcp_replay = 0, cx_profile = profile,
          cx_session = \<lparr>se_rtp_key = rtp_key, se_rtp_salt = rtp_salt, se_rtp_auth = rtp_auth,
            se_rtcp_key = rtcp_key, se_rtcp_salt = rtcp_salt, se_rtcp_auth = rtcp_auth\<rparr>\<rparr>)))))))"

section \<open>Initialization vectors and primitive calls\<close>

definition xor_salt :: "bytes \<Rightarrow> bytes \<Rightarrow> bytes" where
  "xor_salt iv salt = map2 (XOR) (take (length salt) iv) salt @ drop (length salt) iv"

definition aead_rtp_iv :: "bytes \<Rightarrow> u32 \<Rightarrow> u32 \<Rightarrow> u16 \<Rightarrow> bytes" where
  "aead_rtp_iv salt ssrc roc sequence =
     xor_salt ([0, 0] @ to_be32 ssrc @ to_be32 roc @ to_be16 sequence) salt"

definition aead_rtcp_iv :: "bytes \<Rightarrow> u32 \<Rightarrow> u32 \<Rightarrow> bytes" where
  "aead_rtcp_iv salt ssrc index =
     xor_salt ([0, 0] @ to_be32 ssrc @ [0, 0] @ to_be32 (index AND SRTCP_INDEX_MASK)) salt"

definition key_length :: "profile \<Rightarrow> nat \<Rightarrow> srtp_error" where
  "key_length p actual = KeyLength ''session key'' (master_key_len p) actual"

definition aead_seal :: "crypto \<Rightarrow> profile \<Rightarrow> bytes \<Rightarrow> bytes \<Rightarrow> bytes \<Rightarrow> bytes \<Rightarrow> (srtp_error, bytes) result" where
  "aead_seal c p key iv aad plaintext =
     (if p = AeadAes256Gcm
      then (if length key \<noteq> 32 then Inl (key_length p (length key))
            else ok_or (SrtpTooShort (length plaintext)) (gcm256_seal c key iv aad plaintext))
      else (if length key \<noteq> 16 then Inl (key_length p (length key))
            else ok_or (SrtpTooShort (length plaintext)) (gcm128_seal c key iv aad plaintext)))"

definition aead_open :: "crypto \<Rightarrow> profile \<Rightarrow> bytes \<Rightarrow> bytes \<Rightarrow> bytes \<Rightarrow> bytes \<Rightarrow> (srtp_error, bytes) result" where
  "aead_open c p key iv aad sealed =
     (if length sealed < MAX_TAG_LEN then Inl (SrtpTooShort (length sealed))
      else if p = AeadAes256Gcm
      then (if length key \<noteq> 32 then Inl (key_length p (length key))
            else ok_or NotAuthentic (gcm256_open c key iv aad sealed))
      else (if length key \<noteq> 16 then Inl (key_length p (length key))
            else ok_or NotAuthentic (gcm128_open c key iv aad sealed)))"

text \<open>Octets \<open>at\<close> on of \<open>iv\<close> exclusive-ored with \<open>xs\<close>, the zipped loops of \<open>keystream\<close>.\<close>

definition xor_at :: "nat \<Rightarrow> bytes \<Rightarrow> bytes \<Rightarrow> bytes" where
  "xor_at at xs iv = take at iv @ map2 (XOR) (take (length xs) (drop at iv)) xs @ drop (at + length xs) iv"

definition keystream_iv :: "bytes \<Rightarrow> u32 \<Rightarrow> u64 \<Rightarrow> bytes" where
  "keystream_iv salt ssrc index =
     xor_at 8 (drop 2 (to_be64 index))
       (xor_at 4 (to_be32 ssrc) (take SESSION_SALT_LEN salt @ replicate (16 - SESSION_SALT_LEN) 0))"

definition keystream :: "crypto \<Rightarrow> bytes \<Rightarrow> bytes \<Rightarrow> u32 \<Rightarrow> u64 \<Rightarrow> (srtp_error, nat \<Rightarrow> bytes) result" where
  "keystream c key salt ssrc index =
     (if length salt < SESSION_SALT_LEN
      then Inl (KeyLength ''session salt'' SESSION_SALT_LEN (length salt))
      else if length key \<noteq> 16 then Inl (KeyLength ''session key'' 16 (length key))
      else Inr (ctr128 c key (keystream_iv salt ssrc index)))"

definition authenticate :: "crypto \<Rightarrow> bytes \<Rightarrow> bytes \<Rightarrow> u32 option \<Rightarrow> bytes" where
  "authenticate c key data roc =
     (let full = hmac_sha1 c key (data @ (case roc of None \<Rightarrow> [] | Some r \<Rightarrow> to_be32 r))
      in unwrap_or (get_range full 0 TAG_LEN) (replicate TAG_LEN 0))"

definition sequence_and_ssrc :: "bytes \<Rightarrow> (u16 \<times> u32) option" where
  "sequence_and_ssrc packet =
     do { a \<leftarrow> get_at packet 2; b \<leftarrow> get_at packet 3; ssrc \<leftarrow> read_u32 packet 8;
          Some (from_be16 a b, ssrc) }"

definition rtp_header_len :: "bytes \<Rightarrow> nat option" where
  "rtp_header_len packet =
     do { first \<leftarrow> get_at packet 0;
          if length packet < 12 then None else
          let csrc_count = unat (first AND 0x0F); len = 12 + csrc_count * 4 in
          do { len \<leftarrow> (if first AND 0x10 \<noteq> 0
                 then do { a \<leftarrow> get_at packet (len + 2); b \<leftarrow> get_at packet (len + 3);
                           Some (len + (4 + unat (from_be16 a b) * 4)) }
                 else Some len);
               if len \<le> length packet then Some len else None } }"

section \<open>Protecting and unprotecting RTP\<close>

definition protect :: "crypto \<Rightarrow> srtp_context \<Rightarrow> bytes \<Rightarrow> (srtp_error, bytes) result \<times> srtp_context" where
  "protect c s packet =
     (case rtp_header_len packet of None \<Rightarrow> (Inl (SrtpTooShort (length packet)), s) | Some header_len \<Rightarrow>
      case sequence_and_ssrc packet of None \<Rightarrow> (Inl (SrtpTooShort (length packet)), s) | Some (sequence, ssrc) \<Rightarrow>
      let s = (case wn_highest_seq s of
                 Some previous \<Rightarrow> if uint previous - uint sequence > 32768 then s\<lparr>wn_roc := wn_roc s + 1\<rparr> else s
               | None \<Rightarrow> s);
          roc = wn_roc s;
          s = s\<lparr>wn_highest_seq := Some sequence\<rparr>;
          header = take header_len packet; payload = drop header_len packet;
          k = cx_session s
      in if is_aead (cx_profile s) then
           (bind_res (aead_seal c (cx_profile s) (se_rtp_key k) (aead_rtp_iv (se_rtp_salt k) ssrc roc sequence)
              header payload) (\<lambda>sealed. Inr (header @ sealed)), s)
         else
           (bind_res (keystream c (se_rtp_key k) (se_rtp_salt k) ssrc (index_of roc sequence)) (\<lambda>ks.
              let out = header @ apply_keystream ks payload
              in Inr (out @ authenticate c (se_rtp_auth k) out (Some roc))), s))"

definition unprotect :: "crypto \<Rightarrow> srtp_context \<Rightarrow> bytes \<Rightarrow> (srtp_error, bytes) result \<times> srtp_context" where
  "unprotect c s packet =
     (let tl = tag_len (cx_profile s); k = cx_session s in
      if length packet < tl then (Inl (SrtpTooShort (length packet)), s)
      else if is_aead (cx_profile s) then
        (case rtp_header_len packet of None \<Rightarrow> (Inl (SrtpTooShort (length packet)), s) | Some header_len \<Rightarrow>
         case sequence_and_ssrc packet of None \<Rightarrow> (Inl (SrtpTooShort (length packet)), s) | Some (sequence, ssrc) \<Rightarrow>
         let header = take header_len packet; sealed = drop header_len packet; roc = guess_roc s sequence
         in case aead_open c (cx_profile s) (se_rtp_key k) (aead_rtp_iv (se_rtp_salt k) ssrc roc sequence) header sealed of
              Inl e \<Rightarrow> (Inl e, s)
            | Inr plain \<Rightarrow>
                (case check_replay s roc sequence of
                   Inl e \<Rightarrow> (Inl e, s)
                 | Inr _ \<Rightarrow> (Inr (header @ plain), accept s roc sequence)))
      else
        let body = take (length packet - tl) packet; tag = drop (length packet - tl) packet in
        (case rtp_header_len body of None \<Rightarrow> (Inl (SrtpTooShort (length body)), s) | Some header_len \<Rightarrow>
         case sequence_and_ssrc body of None \<Rightarrow> (Inl (SrtpTooShort (length body)), s) | Some (sequence, ssrc) \<Rightarrow>
         let roc = guess_roc s sequence
         in if authenticate c (se_rtp_auth k) body (Some roc) \<noteq> tag then (Inl NotAuthentic, s)
            else (case check_replay s roc sequence of
                    Inl e \<Rightarrow> (Inl e, s)
                  | Inr _ \<Rightarrow>
                      (case keystream c (se_rtp_key k) (se_rtp_salt k) ssrc (index_of roc sequence) of
                         Inl e \<Rightarrow> (Inl e, s)
                       | Inr ks \<Rightarrow> (Inr (take header_len body @ apply_keystream ks (drop header_len body)),
                           accept s roc sequence)))))"


section \<open>Protecting and unprotecting RTCP\<close>

definition RTCP_HEADER_LEN :: nat where "RTCP_HEADER_LEN = 8"
definition TRAILER_LEN :: nat where "TRAILER_LEN = 4"

lemmas rtcp_lengths [simp] = RTCP_HEADER_LEN_def TRAILER_LEN_def

definition aead_protect_rtcp ::
  "crypto \<Rightarrow> srtp_context \<Rightarrow> bytes \<Rightarrow> u32 \<Rightarrow> u32 \<Rightarrow> bool \<Rightarrow> (srtp_error, bytes) result" where
  "aead_protect_rtcp c s packet ssrc index encrypt =
     (let esrtcp = to_be32 (if encrypt then index OR 0x80000000 else index);
          k = cx_session s;
          iv = aead_rtcp_iv (se_rtcp_salt k) ssrc index;
          split = (if encrypt then RTCP_HEADER_LEN else length packet);
          clear = take split packet; plaintext = drop split packet
      in bind_res (aead_seal c (cx_profile s) (se_rtcp_key k) iv (clear @ esrtcp) plaintext)
           (\<lambda>sealed. Inr (clear @ sealed @ esrtcp)))"

definition protect_rtcp :: "crypto \<Rightarrow> srtp_context \<Rightarrow> bytes \<Rightarrow> (srtp_error, bytes) result \<times> srtp_context" where
  "protect_rtcp c s packet =
     (if length packet < RTCP_HEADER_LEN then (Inl (SrtpTooShort (length packet)), s) else
      case read_u32 packet 4 of None \<Rightarrow> (Inl (SrtpTooShort (length packet)), s) | Some ssrc \<Rightarrow>
      let index = wn_rtcp_index s;
          s = s\<lparr>wn_rtcp_index := (wn_rtcp_index s + 1) AND 0x7FFFFFFF\<rparr>;
          k = cx_session s
      in if is_aead (cx_profile s) then (aead_protect_rtcp c s packet ssrc index True, s)
         else
           (bind_res (keystream c (se_rtcp_key k) (se_rtcp_salt k) ssrc (ucast index)) (\<lambda>ks.
              let out = take RTCP_HEADER_LEN packet @ apply_keystream ks (drop RTCP_HEADER_LEN packet)
                    @ to_be32 (index OR 0x80000000)
              in Inr (out @ authenticate c (se_rtcp_auth k) out None)), s))"

definition aead_unprotect_rtcp :: "crypto \<Rightarrow> srtp_context \<Rightarrow> bytes \<Rightarrow> (srtp_error, bytes \<times> u32) result" where
  "aead_unprotect_rtcp c s packet =
     (let tl = tag_len (cx_profile s); k = cx_session s in
      if length packet < RTCP_HEADER_LEN + TRAILER_LEN + tl then Inl (SrtpTooShort (length packet)) else
      let body = take (length packet - TRAILER_LEN) packet;
          trailer = drop (length packet - TRAILER_LEN) packet in
      bind_res (ok_or (SrtpTooShort (length packet)) (read_u32 trailer 0)) (\<lambda>esrtcp.
      let encrypted = (esrtcp AND 0x80000000 \<noteq> 0); index = esrtcp AND SRTCP_INDEX_MASK in
      bind_res (ok_or (SrtpTooShort (length body)) (read_u32 body 4)) (\<lambda>ssrc.
      bind_res (if encrypted then Inr RTCP_HEADER_LEN
                else if length body < tl then Inl (SrtpTooShort (length packet))
                else Inr (length body - tl)) (\<lambda>split.
      let clear = take split body; sealed = drop split body in
      bind_res (aead_open c (cx_profile s) (se_rtcp_key k) (aead_rtcp_iv (se_rtcp_salt k) ssrc index)
                  (clear @ trailer) sealed)
        (\<lambda>plain. Inr (clear @ plain, index))))))"

definition unprotect_rtcp :: "crypto \<Rightarrow> srtp_context \<Rightarrow> bytes \<Rightarrow> (srtp_error, bytes) result \<times> srtp_context" where
  "unprotect_rtcp c s packet =
     (let k = cx_session s in
      if is_aead (cx_profile s) then
        (case aead_unprotect_rtcp c s packet of
           Inl e \<Rightarrow> (Inl e, s)
         | Inr (out, index) \<Rightarrow>
             (case check_rtcp_replay s index of
                Inl e \<Rightarrow> (Inl e, s)
              | Inr _ \<Rightarrow> (Inr out, accept_rtcp s index)))
      else if length packet < RTCP_HEADER_LEN + TRAILER_LEN + TAG_LEN
      then (Inl (SrtpTooShort (length packet)), s)
      else
        let body = take (length packet - TAG_LEN) packet; tag = drop (length packet - TAG_LEN) packet in
        if authenticate c (se_rtcp_auth k) body None \<noteq> tag then (Inl NotAuthentic, s)
        else
          let payload_and_header = take (length body - TRAILER_LEN) body in
          (case read_u32 (drop (length body - TRAILER_LEN) body) 0 of
             None \<Rightarrow> (Inl (SrtpTooShort (length packet)), s)
           | Some trailer \<Rightarrow>
               let encrypted = (trailer AND 0x80000000 \<noteq> 0); index = trailer AND 0x7FFFFFFF in
               (case check_rtcp_replay s index of
                  Inl e \<Rightarrow> (Inl e, s)
                | Inr _ \<Rightarrow>
                    (case read_u32 body 4 of
                       None \<Rightarrow> (Inl (SrtpTooShort (length body)), s)
                     | Some ssrc \<Rightarrow>
                         if encrypted then
                           (case keystream c (se_rtcp_key k) (se_rtcp_salt k) ssrc (ucast index) of
                              Inl e \<Rightarrow> (Inl e, s)
                            | Inr ks \<Rightarrow>
                                (Inr (take RTCP_HEADER_LEN payload_and_header
                                   @ apply_keystream ks (drop RTCP_HEADER_LEN payload_and_header)),
                                 accept_rtcp s index))
                         else (Inr payload_and_header, accept_rtcp s index)))))"

section \<open>Forgeries and replays\<close>

text \<open>
  What verified a received packet: the tag of the counter-mode profile over the authenticated part
  and the guessed rollover counter, or the AEAD opening with its initialization vector.
\<close>

definition rtp_verified :: "crypto \<Rightarrow> srtp_context \<Rightarrow> bytes \<Rightarrow> u16 \<Rightarrow> bool" where
  "rtp_verified c s packet sequence =
     (let k = cx_session s; tl = tag_len (cx_profile s); roc = guess_roc s sequence in
      if is_aead (cx_profile s) then
        (case (rtp_header_len packet, sequence_and_ssrc packet) of
           (Some n, Some (q, ssrc)) \<Rightarrow> q = sequence \<and>
             (\<exists>p. aead_open c (cx_profile s) (se_rtp_key k) (aead_rtp_iv (se_rtp_salt k) ssrc roc q)
                (take n packet) (drop n packet) = Inr p)
         | _ \<Rightarrow> False)
      else
        (let body = take (length packet - tl) packet in
         map_option fst (sequence_and_ssrc body) = Some sequence \<and>
         authenticate c (se_rtp_auth k) body (Some roc) = drop (length packet - tl) packet))"

text \<open>
  What verified a received compound packet: under a counter-mode profile, the tag at its end over all
  that comes before; under an AEAD profile, the opening of its sealed part with its trailer, and of an
  empty one when the packet says it is not encrypted. Its index is the one its trailer names.
\<close>

definition rtcp_verified :: "crypto \<Rightarrow> srtp_context \<Rightarrow> bytes \<Rightarrow> u32 \<Rightarrow> bool" where
  "rtcp_verified c s packet index \<longleftrightarrow>
     (let k = cx_session s; tl = tag_len (cx_profile s) in
      if is_aead (cx_profile s) then
        (let body = take (length packet - 4) packet; trailer = drop (length packet - 4) packet in
         (\<exists>esrtcp ssrc p. read_u32 trailer 0 = Some esrtcp \<and> index = esrtcp AND 0x7FFFFFFF \<and> read_u32 body 4 = Some ssrc \<and>
           (let split = (if esrtcp AND 0x80000000 \<noteq> 0 then 8 else length body - tl) in
             aead_open c (cx_profile s) (se_rtcp_key k) (aead_rtcp_iv (se_rtcp_salt k) ssrc index)
               (take split body @ trailer) (drop split body) = Inr p)))
      else
        (let body = take (length packet - TAG_LEN) packet in
         authenticate c (se_rtcp_auth k) body None = drop (length packet - TAG_LEN) packet \<and>
         map_option (\<lambda>t. t AND 0x7FFFFFFF) (read_u32 (drop (length body - 4) body) 0) = Some index))"

lemma rtcp_accepted_verified:
  assumes "unprotect_rtcp c s packet = (Inr out, s')"
  shows "\<exists>index. rtcp_verified c s packet index \<and> check_rtcp_replay s index = Inr () \<and> s' = accept_rtcp s index"
proof (cases "is_aead (cx_profile s)")
  case True
  then obtain index where index: "aead_unprotect_rtcp c s packet = Inr (out, index)"
    "check_rtcp_replay s index = Inr ()" "s' = accept_rtcp s index"
    using assms by (auto simp: unprotect_rtcp_def Let_def split: sum.splits prod.splits)
  let ?body = "take (length packet - 4) packet" and ?trailer = "drop (length packet - 4) packet"
  have parts: "\<exists>esrtcp. read_u32 ?trailer 0 = Some esrtcp \<and> (\<exists>ssrc. read_u32 ?body 4 = Some ssrc \<and>
      (\<exists>split. (if esrtcp AND 0x80000000 \<noteq> 0 then Inr 8
          else if length ?body < tag_len (cx_profile s) then Inl (SrtpTooShort (length packet))
          else Inr (length ?body - tag_len (cx_profile s))) = Inr split \<and>
        (\<exists>p. aead_open c (cx_profile s) (se_rtcp_key (cx_session s))
            (aead_rtcp_iv (se_rtcp_salt (cx_session s)) ssrc (esrtcp AND 0x7FFFFFFF))
            (take split ?body @ ?trailer) (drop split ?body) = Inr p \<and>
          Inr (take split ?body @ p, esrtcp AND 0x7FFFFFFF) = (Inr (out, index) :: (srtp_error, bytes \<times> u32) result))))"
    using index(1) unfolding aead_unprotect_rtcp_def Let_def rtcp_lengths SRTCP_INDEX_MASK_def
    by (simp only: bind_res_Inr_iff ok_or_Inr_iff sum.distinct split: if_split_asm)
  then obtain esrtcp ssrc split p where "read_u32 ?trailer 0 = Some esrtcp" "read_u32 ?body 4 = Some ssrc"
    "(if esrtcp AND 0x80000000 \<noteq> 0 then Inr 8
      else if length ?body < tag_len (cx_profile s) then Inl (SrtpTooShort (length packet))
      else Inr (length ?body - tag_len (cx_profile s))) = Inr split"
    "aead_open c (cx_profile s) (se_rtcp_key (cx_session s)) (aead_rtcp_iv (se_rtcp_salt (cx_session s)) ssrc index)
      (take split ?body @ ?trailer) (drop split ?body) = Inr p" "index = esrtcp AND 0x7FFFFFFF"
    by blast
  moreover from this(3) have "split = (if esrtcp AND 0x80000000 \<noteq> 0 then 8 else length ?body - tag_len (cx_profile s))"
    by (simp split: if_splits)
  ultimately have "rtcp_verified c s packet index"
    using True unfolding rtcp_verified_def Let_def by auto
  with index(2,3) show ?thesis
    by blast
next
  case False
  with assms show ?thesis
    by (auto simp: unprotect_rtcp_def rtcp_verified_def Let_def split: if_splits option.splits sum.splits)
qed

text \<open>
  C2: Only genuine, fresh packets change a receiving context. Whatever octets arrive: either
  \<open>unprotect\<close> reports an error and the context is exactly what it was, so forgeries and replays
  cannot move the rollover counter or the window, or the packet verified under the session key with
  the guessed rollover counter, its index passed the replay check, and the context is the old one
  with just that index accepted. The same holds of \<open>unprotect_rtcp\<close> with the RTCP keys and the
  index in the packet's trailer.
\<close>

theorem srtp_unprotect_guarded:
  "(case unprotect c s packet of
      (Inl e, s') \<Rightarrow> s' = s
    | (Inr out, s') \<Rightarrow> \<exists>sequence. rtp_verified c s packet sequence
        \<and> check_replay s (guess_roc s sequence) sequence = Inr ()
        \<and> s' = accept s (guess_roc s sequence) sequence)
   \<and> (case unprotect_rtcp c s packet of
        (Inl e, s') \<Rightarrow> s' = s
      | (Inr out, s') \<Rightarrow> \<exists>index. rtcp_verified c s packet index
          \<and> check_rtcp_replay s index = Inr () \<and> s' = accept_rtcp s index)"
proof
  show "case unprotect c s packet of
      (Inl e, s') \<Rightarrow> s' = s
    | (Inr out, s') \<Rightarrow> \<exists>sequence. rtp_verified c s packet sequence
        \<and> check_replay s (guess_roc s sequence) sequence = Inr ()
        \<and> s' = accept s (guess_roc s sequence) sequence"
    by (auto simp: unprotect_def rtp_verified_def Let_def split: option.splits sum.splits prod.splits)
  have "s' = s" if "unprotect_rtcp c s packet = (Inl e, s')" for e s'
    using that by (auto simp: unprotect_rtcp_def Let_def split: option.splits sum.splits prod.splits if_splits)
  then show "case unprotect_rtcp c s packet of
        (Inl e, s') \<Rightarrow> s' = s
      | (Inr out, s') \<Rightarrow> \<exists>index. rtcp_verified c s packet index
          \<and> check_rtcp_replay s index = Inr () \<and> s' = accept_rtcp s index"
    by (auto dest: rtcp_accepted_verified split: sum.splits)
qed


section \<open>Headers under protection\<close>

lemma rtp_header_len_bounds: "rtp_header_len p = Some n \<Longrightarrow> 12 \<le> n \<and> n \<le> length p"
  by (auto simp: rtp_header_len_def Let_def bind_eq_Some_conv split: if_splits)

lemma rtp_header_len_prefix:
  assumes "rtp_header_len p = Some n"
  shows "rtp_header_len (take n p @ x) = Some n"
proof -
  let ?q = "take n p @ x"
  have b: "12 \<le> n" "n \<le> length p" using rtp_header_len_bounds [OF assms] by simp_all
  have nth: "?q ! i = p ! i" if "i < n" for i using that b by (simp add: nth_append)
  have at: "get_at ?q i = get_at p i" if "i < n" for i using nth [OF that] that b by (simp add: get_at_def)
  have len: "\<not> length ?q < 12" "\<not> length p < 12" "n \<le> length ?q" using b by simp_all
  define l where "l = 12 + unat (p ! 0 AND 0x0F) * 4"
  show ?thesis
  proof (cases "p ! 0 AND 0x10 = 0")
    case True
    then have "n = l" using assms b by (auto simp: rtp_header_len_def l_def Let_def get_at_def split: if_splits)
    with True b len nth [of 0] show ?thesis by (simp add: rtp_header_len_def l_def Let_def get_at_def)
  next
    case False
    then have n: "l + 3 < length p" "n = l + (4 + unat (from_be16 (p ! (l + 2)) (p ! (l + 3))) * 4)"
      using assms b by (auto simp: rtp_header_len_def l_def Let_def get_at_def bind_eq_Some_conv split: if_splits)
    then have "?q ! (l + 2) = p ! (l + 2)" "?q ! (l + 3) = p ! (l + 3)" by (intro nth; simp)+
    with False n b len nth [of 0] show ?thesis
      by (simp add: rtp_header_len_def Let_def get_at_def flip: l_def)
  qed
qed

lemma sequence_and_ssrc_prefix:
  assumes "12 \<le> n" "n \<le> length p"
  shows "sequence_and_ssrc (take n p @ x) = sequence_and_ssrc p" "sequence_and_ssrc p \<noteq> None"
proof -
  have "(take n p @ x) ! i = p ! i" if "i < 12" for i using that assms by (simp add: nth_append)
  then show "sequence_and_ssrc (take n p @ x) = sequence_and_ssrc p"
    using assms by (simp add: sequence_and_ssrc_def read_u32_def get_at_def)
  show "sequence_and_ssrc p \<noteq> None"
    using assms by (simp add: sequence_and_ssrc_def read_u32_def get_at_def)
qed

section \<open>Sealing with a given rollover counter\<close>

definition seal_with :: "crypto \<Rightarrow> srtp_context \<Rightarrow> u32 \<Rightarrow> bytes \<Rightarrow> bytes" where
  "seal_with c s roc packet =
     (let n = the (rtp_header_len packet); (sequence, ssrc) = the (sequence_and_ssrc packet);
          header = take n packet; payload = drop n packet; k = cx_session s
      in if is_aead (cx_profile s) then
           header @ projr (aead_seal c (cx_profile s) (se_rtp_key k)
             (aead_rtp_iv (se_rtp_salt k) ssrc roc sequence) header payload)
         else
           (let out = header @ apply_keystream (ctr128 c (se_rtp_key k)
                  (keystream_iv (se_rtp_salt k) ssrc (index_of roc sequence))) payload
            in out @ authenticate c (se_rtp_auth k) out (Some roc)))"

text \<open>The session keys and salts have the lengths the profile asks for.\<close>

definition keyed :: "srtp_context \<Rightarrow> bool" where
  "keyed s \<longleftrightarrow> (let k = cx_session s; p = cx_profile s in
     length (se_rtp_key k) = master_key_len p \<and> length (se_rtp_salt k) = master_salt_len p \<and>
     length (se_rtcp_key k) = master_key_len p \<and> length (se_rtcp_salt k) = master_salt_len p)"

lemma length_apply_keystream:
  "length (ks (length xs)) = length xs \<Longrightarrow> length (apply_keystream ks xs) = length xs"
  by (simp add: apply_keystream_def)

lemma apply_keystream_twice:
  assumes "length (ks (length xs)) = length xs"
  shows "apply_keystream ks (apply_keystream ks xs) = xs"
proof (rule nth_equalityI)
  show "length (apply_keystream ks (apply_keystream ks xs)) = length xs"
    using assms by (simp add: apply_keystream_def)
  fix i assume "i < length (apply_keystream ks (apply_keystream ks xs))"
  with assms show "apply_keystream ks (apply_keystream ks xs) ! i = xs ! i"
    by (simp add: apply_keystream_def xor.assoc)
qed

lemma derive_length: "crypto_ok c \<Longrightarrow> derive c mk ms l n = Inr x \<Longrightarrow> length x = n"
  by (auto simp: derive_def Let_def crypto_ok_def apply_keystream_def split: if_splits)

lemma context_new_keyed:
  assumes "crypto_ok c" "context_new c p mk ms = Inr s"
  shows "keyed s" "cx_profile s = p" "wn_highest_seq s = None" "wn_roc s = 0" "wn_replay s = 0"
    "wn_rtcp_index s = 0" "wn_highest_rtcp_index s = None"
  using assms(2) derive_length [OF assms(1)]
  by (auto simp: context_new_def key_and_salt_len_def bind_res_Inr_iff keyed_def Let_def split: if_splits)

lemma length_authenticate: "length (authenticate c k d r) = 10"
  by (simp add: authenticate_def Let_def get_range_def)

lemma aead_roundtrip:
  assumes "crypto_ok c" "is_aead p" "length key = master_key_len p"
  obtains x where "aead_seal c p key iv aad m = Inr x" "length x = length m + 16"
    "aead_open c p key iv aad x = Inr m"
proof (cases p)
  case AeadAes128Gcm
  obtain x where "gcm128_seal c key iv aad m = Some x" "length x = length m + 16" "gcm128_open c key iv aad x = Some m"
    using assms(1) unfolding crypto_ok_def by blast
  with AeadAes128Gcm assms(3) show ?thesis by (intro that [of x]) (simp_all add: aead_seal_def aead_open_def)
next
  case AeadAes256Gcm
  obtain x where "gcm256_seal c key iv aad m = Some x" "length x = length m + 16" "gcm256_open c key iv aad x = Some m"
    using assms(1) unfolding crypto_ok_def by blast
  with AeadAes256Gcm assms(3) show ?thesis by (intro that [of x]) (simp_all add: aead_seal_def aead_open_def)
qed (use assms in simp)

lemma keystream_keyed:
  assumes "keyed s" "\<not> is_aead (cx_profile s)"
  shows "keystream c (se_rtp_key (cx_session s)) (se_rtp_salt (cx_session s)) ssrc i =
      Inr (ctr128 c (se_rtp_key (cx_session s)) (keystream_iv (se_rtp_salt (cx_session s)) ssrc i))"
    and "keystream c (se_rtcp_key (cx_session s)) (se_rtcp_salt (cx_session s)) ssrc i =
      Inr (ctr128 c (se_rtcp_key (cx_session s)) (keystream_iv (se_rtcp_salt (cx_session s)) ssrc i))"
  using assms by (cases "cx_profile s"; simp add: keystream_def keyed_def Let_def)+

text \<open>A sealed packet opens exactly when its index is fresh.\<close>

lemma unprotect_seal:
  assumes c: "crypto_ok c" and k: "keyed r"
    and n: "rtp_header_len p = Some n" and q: "sequence_and_ssrc p = Some (sequence, ssrc)"
    and roc: "guess_roc r sequence = roc"
  shows "unprotect c r (seal_with c r roc p) =
    (case check_replay r roc sequence of Inl e \<Rightarrow> (Inl e, r) | Inr _ \<Rightarrow> (Inr p, accept r roc sequence))"
proof (cases "is_aead (cx_profile r)")
  case True
  let ?iv = "aead_rtp_iv (se_rtp_salt (cx_session r)) ssrc roc sequence"
  have "length (se_rtp_key (cx_session r)) = master_key_len (cx_profile r)" using k by (simp add: keyed_def Let_def)
  from aead_roundtrip [OF c True this, of ?iv "take n p" "drop n p"] obtain x where x:
    "aead_seal c (cx_profile r) (se_rtp_key (cx_session r)) ?iv (take n p) (drop n p) = Inr x"
    "length x = length (drop n p) + 16"
    "aead_open c (cx_profile r) (se_rtp_key (cx_session r)) ?iv (take n p) x = Inr (drop n p)" .
  have b: "12 \<le> n" "n \<le> length p" using rtp_header_len_bounds [OF n] by simp_all
  have "seal_with c r roc p = take n p @ x" using True n q x(1) by (simp add: seal_with_def Let_def)
  moreover have "tag_len (cx_profile r) = 16" using True by (cases "cx_profile r") simp_all
  ultimately show ?thesis
    using True b x rtp_header_len_prefix [OF n, of x] sequence_and_ssrc_prefix(1) [OF b, of x] q roc
    by (simp add: unprotect_def Let_def split: sum.splits)
next
  case False
  let ?ks = "ctr128 c (se_rtp_key (cx_session r))
    (keystream_iv (se_rtp_salt (cx_session r)) ssrc (index_of roc sequence))"
  have ks: "length (?ks m) = m" for m using c by (simp add: crypto_ok_def)
  define x where "x = apply_keystream ?ks (drop n p)"
  have b: "12 \<le> n" "n \<le> length p" using rtp_header_len_bounds [OF n] by simp_all
  have x: "length x = length (drop n p)" "apply_keystream ?ks x = drop n p"
    unfolding x_def using ks by (simp_all add: length_apply_keystream apply_keystream_twice)
  have seal: "seal_with c r roc p = (take n p @ x) @ authenticate c (se_rtp_auth (cx_session r)) (take n p @ x) (Some roc)"
    using False n q by (simp add: seal_with_def Let_def x_def)
  have tl: "tag_len (cx_profile r) = 10" using False by (cases "cx_profile r") simp_all
  show ?thesis
    using False b x rtp_header_len_prefix [OF n, of x] sequence_and_ssrc_prefix(1) [OF b, of x] q roc
      keystream_keyed(1) [OF k False]
    unfolding unprotect_def seal tl
    by (simp add: length_authenticate Let_def split: sum.splits)
qed


section \<open>From sender to receiver\<close>

fun send_all :: "crypto \<Rightarrow> srtp_context \<Rightarrow> bytes list \<Rightarrow> (srtp_error, bytes) result list" where
  "send_all c s [] = []"
| "send_all c s (p # ps) = (let (x, s') = protect c s p in x # send_all c s' ps)"

fun receive_all :: "crypto \<Rightarrow> srtp_context \<Rightarrow> bytes list \<Rightarrow> (srtp_error, bytes) result list" where
  "receive_all c s [] = []"
| "receive_all c s (p # ps) = (let (x, s') = unprotect c s p in x # receive_all c s' ps)"

text \<open>
  Packet numbers as a sender assigns them: the first in the first cycle, each of the rest ahead by
  less than half the sequence space; and numbers as they reach a receiver: the first in the first
  cycle, each less than half the sequence space from the highest so far.
\<close>

fun sending :: "nat option \<Rightarrow> nat list \<Rightarrow> bool" where
  "sending h [] \<longleftrightarrow> True"
| "sending None (n # ns) \<longleftrightarrow> n < 65536 \<and> sending (Some n) ns"
| "sending (Some h) (n # ns) \<longleftrightarrow> h < n \<and> n < h + 32768 \<and> n < 2 ^ 48 \<and> sending (Some n) ns"

fun in_reach :: "nat option \<Rightarrow> nat list \<Rightarrow> bool" where
  "in_reach h [] \<longleftrightarrow> True"
| "in_reach None (n # ns) \<longleftrightarrow> n < 65536 \<and> in_reach (Some n) ns"
| "in_reach (Some h) (n # ns) \<longleftrightarrow> n < h + 32768 \<and> h < n + 32768 \<and> n < 2 ^ 48 \<and> in_reach (Some (max h n)) ns"

definition carries :: "bytes \<Rightarrow> nat \<Rightarrow> bool" where
  "carries p n \<longleftrightarrow> rtp_header_len p \<noteq> None \<and> map_option fst (sequence_and_ssrc p) = Some (seq_of n)"

definition sender_at :: "srtp_context \<Rightarrow> nat option \<Rightarrow> bool" where
  "sender_at s h \<longleftrightarrow> (case h of None \<Rightarrow> wn_highest_seq s = None \<and> wn_roc s = 0
     | Some m \<Rightarrow> wn_highest_seq s = Some (seq_of m) \<and> wn_roc s = roc_of m)"

lemma protect_seal:
  assumes "crypto_ok c" "keyed s" "rtp_header_len p = Some n" "sequence_and_ssrc p = Some (q, ssrc)"
    and "(case wn_highest_seq s of
            Some previous \<Rightarrow> if uint previous - uint q > 32768 then wn_roc s + 1 else wn_roc s
          | None \<Rightarrow> wn_roc s) = roc"
  shows "protect c s p = (Inr (seal_with c s roc p), s\<lparr>wn_roc := roc, wn_highest_seq := Some q\<rparr>)"
proof -
  have upd: "(case wn_highest_seq s of
      Some previous \<Rightarrow> if uint previous - uint q > 32768 then s\<lparr>wn_roc := wn_roc s + 1\<rparr> else s
    | None \<Rightarrow> s) = s\<lparr>wn_roc := roc\<rparr>"
    using assms(5) by (auto split: option.splits)
  show ?thesis
  proof (cases "is_aead (cx_profile s)")
    case True
    have "length (se_rtp_key (cx_session s)) = master_key_len (cx_profile s)"
      using assms(2) by (simp add: keyed_def Let_def)
    from aead_roundtrip [OF assms(1) True this, of "aead_rtp_iv (se_rtp_salt (cx_session s)) ssrc roc q" "take n p" "drop n p"]
    obtain x where "aead_seal c (cx_profile s) (se_rtp_key (cx_session s))
        (aead_rtp_iv (se_rtp_salt (cx_session s)) ssrc roc q) (take n p) (drop n p) = Inr x" .
    with True assms(3,4) show ?thesis by (simp add: protect_def upd seal_with_def Let_def)
  next
    case False
    with assms(3,4) keystream_keyed(1) [OF assms(2) False] show ?thesis
      by (simp add: protect_def upd seal_with_def Let_def)
  qed
qed

lemma sender_roc:
  assumes "sender_at s h" "sending h (n # ns)"
  shows "(case wn_highest_seq s of
            Some previous \<Rightarrow> if uint previous - uint (seq_of n) > 32768 then wn_roc s + 1 else wn_roc s
          | None \<Rightarrow> wn_roc s) = roc_of n"
proof (cases h)
  case None
  with assms show ?thesis by (simp add: sender_at_def roc_of_def)
next
  case (Some m)
  define a b c d where "a = n div 65536" and "b = n mod 65536" and "c = m div 65536" and "d = m mod 65536"
  have n: "a * 65536 + b = n" "b < 65536" "c * 65536 + d = m" "d < 65536"
    by (simp_all add: a_def b_def c_def d_def)
  have u: "uint (seq_of n) = int b" "uint (seq_of m) = int d" "roc_of n = of_nat a" "roc_of m = of_nat c"
    by (simp_all add: seq_of_def roc_of_def a_def b_def c_def d_def unsigned_of_nat take_bit_eq_mod zmod_int)
  have step: "m < n" "n < m + 32768" using assms(2) Some by simp_all
  then have "a = c \<or> a = c + 1" using n by linarith
  then show ?thesis
  proof
    assume "a = c"
    moreover from this have "\<not> int d - int b > 32768" using n step by linarith
    ultimately show ?thesis using assms(1) Some by (simp add: sender_at_def u)
  next
    assume "a = c + 1"
    moreover from this have "int d - int b > 32768" using n step by linarith
    ultimately show ?thesis using assms(1) Some by (simp add: sender_at_def u add.commute)
  qed
qed

lemma seal_with_cong:
  assumes "cx_session s = cx_session s'" "cx_profile s = cx_profile s'"
  shows "seal_with c s = seal_with c s'"
  unfolding seal_with_def fun_eq_iff assms by blast

lemma send_all_sealed:
  assumes "crypto_ok c"
  shows "keyed s \<Longrightarrow> sender_at s h \<Longrightarrow> sending h ns \<Longrightarrow> list_all2 carries ps ns \<Longrightarrow>
    send_all c s ps = map2 (\<lambda>p n. Inr (seal_with c s (roc_of n) p)) ps ns"
proof (induction ps arbitrary: s h ns)
  case (Cons p ps)
  then obtain n ms where ns: "ns = n # ms" "carries p n" "list_all2 carries ps ms"
    by (auto simp: list_all2_Cons1)
  then obtain l ssrc where p: "rtp_header_len p = Some l" "sequence_and_ssrc p = Some (seq_of n, ssrc)"
    by (auto simp: carries_def)
  let ?s = "s\<lparr>wn_roc := roc_of n, wn_highest_seq := Some (seq_of n)\<rparr>"
  have pr: "protect c s p = (Inr (seal_with c s (roc_of n) p), ?s)"
    using Cons.prems ns(1) sender_roc by (intro protect_seal [OF assms _ p]) auto
  have "keyed ?s" "sender_at ?s (Some n)" using Cons.prems(1) by (simp_all add: keyed_def sender_at_def)
  moreover have "sending (Some n) ms" using Cons.prems(3) ns(1) by (cases h) simp_all
  moreover have "seal_with c ?s = seal_with c s" by (rule seal_with_cong) simp_all
  ultimately show ?case using Cons.IH [of ?s "Some n" ms] ns pr by simp
qed simp

lemma receive_step:
  assumes "crypto_ok c" "keyed r" "carries p n" "guess_roc r (seq_of n) = roc_of n"
  shows "unprotect c r (seal_with c r (roc_of n) p) =
    (if check_replay r (roc_of n) (seq_of n) = Inr () then (Inr p, accept r (roc_of n) (seq_of n))
     else (Inl (Replayed (seq_of n)), r))"
proof -
  obtain l ssrc where p: "rtp_header_len p = Some l" "sequence_and_ssrc p = Some (seq_of n, ssrc)"
    using assms(3) by (auto simp: carries_def)
  have "check_replay r (roc_of n) (seq_of n) = Inr () \<or>
      check_replay r (roc_of n) (seq_of n) = Inl (Replayed (seq_of n))"
    by (auto simp: check_replay_def Let_def split: option.splits)
  with unprotect_seal [OF assms(1,2) p assms(4)] show ?thesis by auto
qed

definition reach_state :: "nat list \<Rightarrow> nat option" where
  "reach_state xs = (if xs = [] then None else Some (Max (set xs)))"

lemma guess_in_reach:
  assumes "srtp.tracks r xs" "wn_highest_seq r = None \<longrightarrow> wn_roc r = 0" "in_reach (reach_state xs) (n # ns)"
  shows "guess_roc r (seq_of n) = roc_of n" "srtp.placed xs n"
    "in_reach (reach_state (if window_ok xs n then n # xs else xs)) ns"
proof -
  show "guess_roc r (seq_of n) = roc_of n"
  proof (cases "xs = []")
    case True
    with assms show ?thesis by (simp add: srtp.tracks_def reach_state_def guess_roc_def roc_of_def)
  next
    case False
    with assms show ?thesis by (intro guess_roc_exact) (auto simp: srtp.tracks_def reach_state_def)
  qed
  have "Max (set xs) < 2 ^ 48" if "xs \<noteq> []"
  proof -
    have "srtp_at r (Max (set xs))" using assms(1) that by (simp add: srtp.tracks_def)
    then obtain q where "srtp_number (wn_roc r, q) = Max (set xs)" by (auto simp: srtp_at_def srtp_number_def)
    with srtp_number_parts(1) show ?thesis by metis
  qed
  then show "srtp.placed xs n"
    using assms(3) by (auto simp: srtp.placed_def srtp_near_def reach_state_def split: if_splits)
  show "in_reach (reach_state (if window_ok xs n then n # xs else xs)) ns"
  proof (cases "xs = []")
    case True
    then show ?thesis using assms(3) by (simp add: reach_state_def window_ok_def)
  next
    case False
    then have h: "in_reach (Some (max (Max (set xs)) n)) ns" using assms(3) by (simp add: reach_state_def)
    have "n \<le> Max (set xs)" if "\<not> window_ok xs n"
    proof (rule ccontr)
      assume "\<not> n \<le> Max (set xs)"
      then have "\<forall>x \<in> set xs. x < n" using False by (simp add: not_le)
      with that show False by (auto simp: window_ok_def)
    qed
    with h False show ?thesis by (auto simp: reach_state_def max.commute max_absorb1)
  qed
qed

lemma accept_frame:
  "cx_session (accept r a b) = cx_session r" "cx_profile (accept r a b) = cx_profile r"
  "wn_highest_seq (accept r a b) = None \<Longrightarrow> False"
  by (auto simp: accept_def Let_def split: if_splits option.splits)

lemma receive_all_answers:
  assumes "crypto_ok c"
  shows "keyed r \<Longrightarrow> srtp.tracks r xs \<Longrightarrow> (wn_highest_seq r = None \<longrightarrow> wn_roc r = 0) \<Longrightarrow>
    in_reach (reach_state xs) (map snd ds) \<Longrightarrow> list_all (\<lambda>(p, n). carries p n) ds \<Longrightarrow>
    receive_all c r (map (\<lambda>(p, n). seal_with c r (roc_of n) p) ds) =
      map2 (\<lambda>ok (p, n). if ok then Inr p else Inl (Replayed (seq_of n))) (answers xs (map snd ds)) ds"
proof (induction ds arbitrary: r xs)
  case (Cons d ds)
  obtain p n where d: "d = (p, n)" by (cases d)
  have reach: "in_reach (reach_state xs) (n # map snd ds)" using Cons.prems(4) d by simp
  note g = guess_in_reach [OF Cons.prems(2,3) reach]
  have carries: "carries p n" using Cons.prems(5) d by simp
  note step = receive_step [OF assms Cons.prems(1) carries g(1)]
  have ok: "check_replay r (roc_of n) (seq_of n) = Inr () \<longleftrightarrow> window_ok xs n"
    using srtp.admits_iff [OF Cons.prems(2) g(2)] .
  show ?case
  proof (cases "window_ok xs n")
    case True
    let ?r = "accept r (roc_of n) (seq_of n)"
    have "srtp.tracks ?r (n # xs)" using srtp.tracks_admit [OF Cons.prems(2) g(2)] ok True by simp
    moreover have "keyed ?r" using Cons.prems(1) by (simp add: keyed_def accept_frame)
    moreover have "in_reach (reach_state (n # xs)) (map snd ds)" using g(3) True by (simp add: reach_state_def)
    moreover have "seal_with c ?r = seal_with c r" by (rule seal_with_cong) (simp_all add: accept_frame)
    moreover have "wn_highest_seq ?r = None \<longrightarrow> wn_roc ?r = 0" using accept_frame(3) by blast
    ultimately show ?thesis using Cons.IH [of ?r "n # xs"] Cons.prems(5) step ok True d by simp
  next
    case False
    then have "in_reach (reach_state xs) (map snd ds)" using g(3) by simp
    with Cons.IH [OF Cons.prems(1,2,3)] Cons.prems(5) step ok False d show ?thesis by simp
  qed
qed simp


text \<open>
  C1: Protected media arrives unchanged and once. Let a sender and a receiver be keyed alike under
  any of the three profiles, and let the sender protect any RTP packets whose numbers advance by
  less than half the sequence space. Every packet is protected. However the network then drops,
  repeats and reorders the protected packets, as long as each delivery lies less than half the
  sequence space from the highest number delivered so far, the receiver answers each delivery with
  the original packet if the replay window of 64 admits its number, and with the replay error
  otherwise: no packet is altered, delivered twice, or lost to the rollover of the sequence number.
\<close>

theorem srtp_end_to_end:
  assumes "crypto_ok c" and "context_new c profile key salt = Inr s"
    and "list_all2 carries ps ns" and "sending None ns"
    and "\<forall>j \<in> set js. j < length ps" and "in_reach None (map ((!) ns) js)"
  shows "list_all (\<lambda>x. \<exists>y. x = Inr y) (send_all c s ps) \<and>
    receive_all c s (map (\<lambda>j. projr (send_all c s ps ! j)) js) =
      map2 (\<lambda>ok j. if ok then Inr (ps ! j) else Inl (Replayed (seq_of (ns ! j))))
        (answers [] (map ((!) ns) js)) js"
proof -
  note new = context_new_keyed [OF assms(1,2)]
  have len: "length ps = length ns" using assms(3) by (rule list_all2_lengthD)
  have sent: "send_all c s ps = map2 (\<lambda>p n. Inr (seal_with c s (roc_of n) p)) ps ns"
    using assms(3,4) new by (intro send_all_sealed [OF assms(1)]) (simp_all add: sender_at_def)
  let ?ds = "map (\<lambda>j. (ps ! j, ns ! j)) js"
  have wire: "map (\<lambda>j. projr (send_all c s ps ! j)) js = map (\<lambda>(p, n). seal_with c s (roc_of n) p) ?ds"
    using assms(5) len by (simp add: sent)
  have "list_all (\<lambda>(p, n). carries p n) ?ds"
    using assms(3,5) by (auto simp: list_all_iff list_all2_conv_all_nth)
  moreover have "in_reach (reach_state []) (map snd ?ds)"
    using assms(6) by (simp add: reach_state_def comp_def)
  moreover have "srtp.tracks s []" using new by (simp add: srtp.tracks_def)
  ultimately have "receive_all c s (map (\<lambda>(p, n). seal_with c s (roc_of n) p) ?ds) =
      map2 (\<lambda>ok (p, n). if ok then Inr p else Inl (Replayed (seq_of n))) (answers [] (map snd ?ds)) ?ds"
    using new by (intro receive_all_answers [OF assms(1)]) simp_all
  also have "\<dots> = map2 (\<lambda>ok j. if ok then Inr (ps ! j) else Inl (Replayed (seq_of (ns ! j))))
        (answers [] (map ((!) ns) js)) js"
    by (simp add: zip_map2 comp_def case_prod_beta)
  finally show ?thesis unfolding wire by (auto simp: sent list_all_iff)
qed

text \<open>Primitives that satisfy the hypotheses, to evaluate the transforms on.\<close>

definition null_crypto :: crypto where
  "null_crypto = \<lparr>ctr128 = (\<lambda>k iv n. replicate n 0x55), ctr256 = (\<lambda>k iv n. replicate n 0xAA),
     hmac_sha1 = (\<lambda>k m. replicate 20 (fold (XOR) m 0)),
     gcm128_seal = (\<lambda>k iv aad p. Some (p @ replicate 16 7)),
     gcm128_open = (\<lambda>k iv aad x. Some (take (length x - 16) x)),
     gcm256_seal = (\<lambda>k iv aad p. Some (p @ replicate 16 9)),
     gcm256_open = (\<lambda>k iv aad x. Some (take (length x - 16) x))\<rparr>"

lemma null_crypto_ok: "crypto_ok null_crypto"
  by (simp add: crypto_ok_def null_crypto_def)

theorem srtp_end_to_end_witness:
  defines "p \<equiv> [0x80, 0, 0xFF, 0xFF, 0, 0, 0, 0, 0, 0, 0, 9, 1, 2, 3]"
    and "q \<equiv> [0x80, 0, 0, 0, 0, 0, 0, 160, 0, 0, 0, 9, 4, 5, 6]"
  shows "\<exists>s. context_new null_crypto AesCm128HmacSha1_80 (replicate 16 1) (replicate 14 2) = Inr s \<and>
    receive_all null_crypto s (map (\<lambda>j. projr (send_all null_crypto s [p, q] ! j)) [0, 1, 0]) =
      [Inr p, Inr q, Inl (Replayed 65535)]"
proof -
  obtain s where s: "context_new null_crypto AesCm128HmacSha1_80 (replicate 16 1) (replicate 14 2) = Inr s"
    by (simp add: context_new_def key_and_salt_len_def derive_def Let_def)
  have seq: "seq_of 65535 = 65535" "seq_of 65536 = 0" by (simp_all add: seq_of_def)
  have "list_all2 carries [p, q] [65535, 65536]"
    by (simp add: carries_def p_def q_def seq rtp_header_len_def sequence_and_ssrc_def read_u32_def get_at_def
        from_be16_def Let_def)
  from srtp_end_to_end [OF null_crypto_ok s this, of "[0, 1, 0]"] s show ?thesis
    by (simp add: window_ok_def seq)
qed


section \<open>RTCP\<close>

lemma rtcp_trailer:
  assumes "(i :: u32) AND SRTCP_INDEX_MASK = i"
  shows "(i OR 0x80000000) AND 0x80000000 \<noteq> 0" "(i OR 0x80000000) AND SRTCP_INDEX_MASK = i"
proof -
  show "(i OR 0x80000000) AND 0x80000000 \<noteq> 0"
    using and_exp_eq_0_iff_not_bit [of "i OR 0x80000000" 31] by (simp add: bit_simps)
  have "(0x80000000 :: u32) AND SRTCP_INDEX_MASK = 0" by (simp add: SRTCP_INDEX_MASK_def)
  then show "(i OR 0x80000000) AND SRTCP_INDEX_MASK = i"
    using assms by (simp add: bit.conj_disj_distrib2)
qed

lemma read_u32_append: "off + 4 \<le> length xs \<Longrightarrow> read_u32 (xs @ ys) off = read_u32 xs off"
  by (simp add: read_u32_def get_at_def nth_append)

lemma read_u32_trailer: "read_u32 (drop (length (xs @ to_be32 w) - 4) (xs @ to_be32 w)) 0 = Some w"
  using read_u32_to_be32 [of "[]" w "[]"] by simp

text \<open>
  Protected RTCP arrives unchanged. For contexts keyed alike under any profile, protecting a
  compound of at least eight octets and unprotecting the result gives back the compound, provided
  the index it carries passes the receiver's replay check; the index is then accepted. The sender's
  index goes from 0 upwards modulo \<open>2 ^ 31\<close>, one per packet.
\<close>

theorem srtcp_roundtrip:
  assumes "crypto_ok c" and "keyed s" and "cx_session r = cx_session s" and "cx_profile r = cx_profile s"
    and "8 \<le> length p" and "wn_rtcp_index s AND SRTCP_INDEX_MASK = wn_rtcp_index s"
    and "check_rtcp_replay r (wn_rtcp_index s) = Inr ()"
  shows "\<exists>wire. protect_rtcp c s p = (Inr wire, s\<lparr>wn_rtcp_index := (wn_rtcp_index s + 1) AND SRTCP_INDEX_MASK\<rparr>) \<and>
    unprotect_rtcp c r wire = (Inr p, accept_rtcp r (wn_rtcp_index s))"
proof -
  let ?i = "wn_rtcp_index s" and ?k = "cx_session s"
  let ?s = "s\<lparr>wn_rtcp_index := (?i + 1) AND 0x7FFFFFFF\<rparr>" and ?t = "to_be32 (?i OR 0x80000000)"
  note tr = rtcp_trailer [OF assms(6)]
  obtain ssrc where ssrc: "read_u32 p 4 = Some ssrc" using assms(5) by (auto simp: read_u32_eq_Some)
  then have ssrc_x: "read_u32 (take 8 p @ x) 4 = Some ssrc" for x
    using read_u32_append [of 4 "take 8 p"] read_u32_append [of 4 "take 8 p" "drop 8 p"] assms(5) by simp
  have mask: "SRTCP_INDEX_MASK = 0x7FFFFFFF" by (simp add: SRTCP_INDEX_MASK_def)
  show ?thesis
  proof (cases "is_aead (cx_profile s)")
    case True
    let ?iv = "aead_rtcp_iv (se_rtcp_salt ?k) ssrc ?i"
    have key: "length (se_rtcp_key ?k) = master_key_len (cx_profile s)" using assms(2) by (simp add: keyed_def Let_def)
    from aead_roundtrip [OF assms(1) True key, of ?iv "take 8 p @ ?t" "drop 8 p"] obtain x where x:
      "aead_seal c (cx_profile s) (se_rtcp_key ?k) ?iv (take 8 p @ ?t) (drop 8 p) = Inr x"
      "length x = length (drop 8 p) + 16"
      "aead_open c (cx_profile s) (se_rtcp_key ?k) ?iv (take 8 p @ ?t) x = Inr (drop 8 p)" .
    let ?wire = "(take 8 p @ x) @ ?t"
    have tl: "tag_len (cx_profile s) = 16" using True by (cases "cx_profile s") simp_all
    have "protect_rtcp c s p = (Inr ?wire, ?s)"
      using True assms(5) ssrc x(1) by (simp add: protect_rtcp_def aead_protect_rtcp_def Let_def)
    moreover have "aead_unprotect_rtcp c r ?wire = Inr (p, ?i)"
      using assms(3-5) x tl ssrc_x [of x] tr read_u32_trailer [of "take 8 p @ x" "?i OR 0x80000000"]
      unfolding aead_unprotect_rtcp_def by (simp add: Let_def)
    ultimately show ?thesis
      using True assms(4,7) by (auto simp: unprotect_rtcp_def mask)
  next
    case False
    let ?ks = "ctr128 c (se_rtcp_key ?k) (keystream_iv (se_rtcp_salt ?k) ssrc (ucast ?i))"
    have ks: "length (?ks m) = m" for m using assms(1) by (simp add: crypto_ok_def)
    define x where "x = apply_keystream ?ks (drop 8 p)"
    have x: "length x = length (drop 8 p)" "apply_keystream ?ks x = drop 8 p"
      unfolding x_def using ks by (simp_all add: length_apply_keystream apply_keystream_twice)
    note kk = keystream_keyed(2) [OF assms(2) False]
    let ?body = "(take 8 p @ x) @ ?t"
    let ?wire = "?body @ authenticate c (se_rtcp_auth ?k) ?body None"
    have "protect_rtcp c s p = (Inr ?wire, ?s)"
      using False assms(5) ssrc kk by (simp add: protect_rtcp_def Let_def x_def)
    moreover have "unprotect_rtcp c r ?wire = (Inr p, accept_rtcp r ?i)"
      using False assms(3-5,7) x kk ssrc_x [of "x @ ?t"] tr read_u32_trailer [of "take 8 p @ x" "?i OR 0x80000000"]
      unfolding unprotect_rtcp_def by (simp add: Let_def length_authenticate mask)
    ultimately show ?thesis by (auto simp: mask)
  qed
qed


theorem srtcp_roundtrip_witness:
  "\<exists>s wire. context_new null_crypto AeadAes256Gcm (replicate 32 1) (replicate 12 2) = Inr s \<and>
    fst (protect_rtcp null_crypto s [0x80, 201, 0, 1, 0, 0, 0, 7]) = Inr wire \<and>
    fst (unprotect_rtcp null_crypto s wire) = Inr [0x80, 201, 0, 1, 0, 0, 0, 7]"
proof -
  obtain s where s: "context_new null_crypto AeadAes256Gcm (replicate 32 1) (replicate 12 2) = Inr s"
    by (simp add: context_new_def key_and_salt_len_def derive_def Let_def)
  note new = context_new_keyed [OF null_crypto_ok s]
  from srtcp_roundtrip [OF null_crypto_ok new(1) refl refl, of "[0x80, 201, 0, 1, 0, 0, 0, 7]"] new s
  show ?thesis by (auto simp: check_rtcp_replay_def)
qed

section \<open>Initialization vectors\<close>

lemma xor_cancel: "a XOR b = a XOR c \<longleftrightarrow> b = (c :: 'w::len word)"
proof
  assume "a XOR b = a XOR c"
  then have "a XOR (a XOR b) = a XOR (a XOR c)" by simp
  then show "b = c" by (simp flip: xor.assoc)
qed simp

lemma xor_salt_nth:
  "length (xor_salt iv salt) = length iv"
  "i < length iv \<Longrightarrow> xor_salt iv salt ! i = (if i < length salt then iv ! i XOR salt ! i else iv ! i)"
  by (auto simp: xor_salt_def nth_append)

lemma xor_salt_inject:
  assumes "length iv = length iv'"
  shows "xor_salt iv salt = xor_salt iv' salt \<longleftrightarrow> iv = iv'"
proof -
  have "xor_salt iv salt ! i = xor_salt iv' salt ! i \<longleftrightarrow> iv ! i = iv' ! i" if "i < length iv" for i
    using that assms xor_cancel [of "salt ! i"] by (simp add: xor_salt_nth xor.commute)
  then show ?thesis by (simp add: list_eq_iff_nth_eq xor_salt_nth assms)
qed

lemma map2_xor_inject:
  assumes "length ys = length xs" "length xs = length xs'"
  shows "map2 (XOR) ys xs = map2 (XOR) ys xs' \<longleftrightarrow> xs = (xs' :: bytes)"
  using assms xor_cancel by (auto simp: list_eq_iff_nth_eq)

lemma keystream_iv_octets:
  assumes "14 \<le> length salt"
  shows "take 4 (drop 4 (keystream_iv salt ssrc i)) = map2 (XOR) (take 4 (drop 4 salt)) (to_be32 ssrc)"
    "take 6 (drop 8 (keystream_iv salt ssrc i)) = map2 (XOR) (take 6 (drop 8 salt)) (drop 2 (to_be64 i))"
  using assms by (simp_all add: keystream_iv_def xor_at_def drop_take)

lemma index_of_octets: "drop 2 (to_be64 (index_of roc sequence)) = to_be32 roc @ to_be16 sequence"
proof -
  have "ucast (drop_bit 8 (ucast (drop_bit 32 (index_of roc sequence)) :: u32)) = (ucast (drop_bit 24 roc) :: u8)"
    "ucast (ucast (drop_bit 32 (index_of roc sequence)) :: u32) = (ucast (drop_bit 16 roc) :: u8)"
    "ucast (drop_bit 24 (ucast (index_of roc sequence) :: u32)) = (ucast (drop_bit 8 roc) :: u8)"
    "ucast (drop_bit 16 (ucast (index_of roc sequence) :: u32)) = (ucast roc :: u8)"
    "ucast (drop_bit 8 (ucast (index_of roc sequence) :: u32)) = (ucast (drop_bit 8 sequence) :: u8)"
    "ucast (ucast (index_of roc sequence) :: u32) = (ucast sequence :: u8)"
    by (rule bit_word_eqI, auto simp: index_of_def bit_simps dest: bit_imp_le_length)+
  then show ?thesis by (simp add: to_be64_def to_be32_def to_be16_def)
qed

text \<open>
  No initialization vector is used for two packets. Under one session salt the AEAD vectors of
  RTP packets agree exactly when SSRC, rollover counter and sequence number agree, those of RTCP
  packets exactly when SSRC and 31-bit index agree, and the counter-mode blocks exactly when SSRC,
  rollover counter and sequence number agree.
\<close>

theorem srtp_iv_unique:
  "(aead_rtp_iv salt ssrc roc sequence = aead_rtp_iv salt ssrc' roc' sequence' \<longleftrightarrow>
      ssrc = ssrc' \<and> roc = roc' \<and> sequence = sequence')
   \<and> (aead_rtcp_iv salt ssrc index = aead_rtcp_iv salt ssrc' index' \<longleftrightarrow>
      ssrc = ssrc' \<and> index AND SRTCP_INDEX_MASK = index' AND SRTCP_INDEX_MASK)
   \<and> (14 \<le> length salt \<longrightarrow>
      (keystream_iv salt ssrc (index_of roc sequence) = keystream_iv salt ssrc' (index_of roc' sequence') \<longleftrightarrow>
         ssrc = ssrc' \<and> roc = roc' \<and> sequence = sequence'))"
proof (intro conjI impI iffI)
  assume salt: "14 \<le> length salt"
    and eq: "keystream_iv salt ssrc (index_of roc sequence) = keystream_iv salt ssrc' (index_of roc' sequence')"
  have "map2 (XOR) (take 4 (drop 4 salt)) (to_be32 ssrc) = map2 (XOR) (take 4 (drop 4 salt)) (to_be32 ssrc')"
    using keystream_iv_octets(1) [OF salt] eq by metis
  then show "ssrc = ssrc'" using salt by (subst (asm) map2_xor_inject) simp_all
  have "map2 (XOR) (take 6 (drop 8 salt)) (to_be32 roc @ to_be16 sequence) =
      map2 (XOR) (take 6 (drop 8 salt)) (to_be32 roc' @ to_be16 sequence')"
    using keystream_iv_octets(2) [OF salt] eq index_of_octets by metis
  then have "to_be32 roc @ to_be16 sequence = to_be32 roc' @ to_be16 sequence'"
    using salt by (subst (asm) map2_xor_inject) simp_all
  then show "roc = roc'" "sequence = sequence'" by simp_all
qed (simp_all add: aead_rtp_iv_def aead_rtcp_iv_def xor_salt_inject)

theorem srtp_iv_unique_witness:
  "keystream_iv (replicate 14 1) 7 (index_of 0 5) \<noteq> keystream_iv (replicate 14 1) 7 (index_of 1 5)"
  using srtp_iv_unique [of "replicate 14 1" 7 0 5 7 1 5 0 0] by simp

end
