(* ===== verification/Sip_Grammar.thy ===== *)
theory Sip_Grammar
  imports Sipx_Prelude
begin

text \<open>
  The byte-level layer of the SIP crate: ASCII classification, percent escapes
  (\<open>sipx-sip/src/escape.rs\<close>), the header grammar shared by every typed header
  (\<open>headers/grammar.rs\<close>), ordered parameter lists (\<open>params.rs\<close>) and the URI and header errors
  (\<open>error.rs\<close>). The scanning loops of the source run over an index into a slice; here they run
  over the remaining octets and count the index along, which is the same computation.
\<close>

section \<open>ASCII\<close>

abbreviation ch :: "char \<Rightarrow> u8" where
  "ch c \<equiv> of_char c"

definition ascii :: "string \<Rightarrow> bytes" where
  "ascii s = map of_char s"

definition is_ascii_digit :: "u8 \<Rightarrow> bool" where
  "is_ascii_digit b \<longleftrightarrow> 48 \<le> b \<and> b \<le> 57"

definition is_ascii_uppercase :: "u8 \<Rightarrow> bool" where
  "is_ascii_uppercase b \<longleftrightarrow> 65 \<le> b \<and> b \<le> 90"

definition is_ascii_lowercase :: "u8 \<Rightarrow> bool" where
  "is_ascii_lowercase b \<longleftrightarrow> 97 \<le> b \<and> b \<le> 122"

definition is_ascii_alphanumeric :: "u8 \<Rightarrow> bool" where
  "is_ascii_alphanumeric b \<longleftrightarrow> is_ascii_digit b \<or> is_ascii_uppercase b \<or> is_ascii_lowercase b"

definition is_ascii_hexdigit :: "u8 \<Rightarrow> bool" where
  "is_ascii_hexdigit b \<longleftrightarrow> is_ascii_digit b \<or> 65 \<le> b \<and> b \<le> 70 \<or> 97 \<le> b \<and> b \<le> 102"

definition lower_byte :: "u8 \<Rightarrow> u8" where
  "lower_byte b = (if is_ascii_uppercase b then b + 32 else b)"

definition to_ascii_lowercase :: "bytes \<Rightarrow> bytes" where
  "to_ascii_lowercase bs = map lower_byte bs"

text \<open>\<open>position\<close> of an iterator: the index of the first element that satisfies the predicate.\<close>

fun position :: "('a \<Rightarrow> bool) \<Rightarrow> 'a list \<Rightarrow> nat option" where
  "position p [] = None"
| "position p (x # xs) = (if p x then Some 0 else map_option Suc (position p xs))"

text \<open>\<open>starts_with\<close> of a slice.\<close>

definition starts_with :: "'a list \<Rightarrow> 'a list \<Rightarrow> bool" where
  "starts_with xs pre \<longleftrightarrow> take (length pre) xs = pre"

lemma position_Some_iff:
  "position P xs = Some i \<longleftrightarrow> i < length xs \<and> P (xs ! i) \<and> (\<forall>j < i. \<not> P (xs ! j))"
proof (induction xs arbitrary: i)
  case (Cons x xs)
  show ?case
    using Cons.IH by (cases i) (auto simp: less_Suc_eq_0_disj)
qed simp

lemma starts_with_append:
  "length pre \<le> length xs \<Longrightarrow> starts_with (xs @ ys) pre \<longleftrightarrow> starts_with xs pre"
  by (simp add: starts_with_def)

lemma starts_with_iff: "starts_with xs pre \<longleftrightarrow> (\<exists>ys. xs = pre @ ys)"
  by (metis append_eq_conv_conj append_take_drop_id starts_with_def)

lemma starts_with_length: "starts_with xs pre \<Longrightarrow> length pre \<le> length xs"
  by (metis length_take min.cobounded1 starts_with_def)

text \<open>\<open>split(|b| b == sep)\<close> of a slice: the segments between separators, empty ones included.\<close>

fun split_on :: "'a \<Rightarrow> 'a list \<Rightarrow> 'a list list" where
  "split_on s [] = [[]]"
| "split_on s (x # xs) =
     (if x = s then [] # split_on s xs
      else (case split_on s xs of [] \<Rightarrow> [[x]] | seg # segs \<Rightarrow> (x # seg) # segs))"

section \<open>Errors\<close>

datatype uri_error =
    Uri_Scheme | Uri_EmptyHost | Uri_Host | Uri_Port | Uri_Ipv6Reference | Uri_IllegalCharacter
  | Uri_PercentEscape | Uri_User | Uri_TelephoneSubscriber | Uri_RetainedSpan
  | Uri_EmptyParameterName | Uri_DuplicateParameterName

datatype header_error =
    Syntax string
  | OutOfRange string
  | Header_Uri string uri_error
  | UnterminatedQuotedString string

section \<open>Percent escapes\<close>

definition RESERVED :: bytes where
  "RESERVED = ascii '';/?:@&=+$,''"

definition is_reserved :: "u8 \<Rightarrow> bool" where
  "is_reserved b \<longleftrightarrow> b \<in> set RESERVED"

definition hex_value :: "u8 \<Rightarrow> u8 option" where
  "hex_value b =
     (if ch CHR ''0'' \<le> b \<and> b \<le> ch CHR ''9'' then Some (b - ch CHR ''0'')
      else if ch CHR ''a'' \<le> b \<and> b \<le> ch CHR ''f'' then Some (b - ch CHR ''a'' + 10)
      else if ch CHR ''A'' \<le> b \<and> b \<le> ch CHR ''F'' then Some (b - ch CHR ''A'' + 10)
      else None)"

fun escapes_are_well_formed :: "bytes \<Rightarrow> bool" where
  "escapes_are_well_formed [] = True"
| "escapes_are_well_formed (b # rest) =
     (if b = ch CHR ''%'' then
        (case rest of
           h # l # more \<Rightarrow>
             (hex_value h \<noteq> None \<and> hex_value l \<noteq> None \<and> escapes_are_well_formed more)
         | _ \<Rightarrow> False)
      else escapes_are_well_formed rest)"

text \<open>The octet two hexadecimal digits stand for: \<open>(hi << 4) | lo\<close>.\<close>

definition hex_octet :: "u8 \<Rightarrow> u8 \<Rightarrow> u8 option" where
  "hex_octet h l =
     (case (hex_value h, hex_value l) of
        (Some hi, Some lo) \<Rightarrow> Some (push_bit 4 hi OR lo)
      | _ \<Rightarrow> None)"

text \<open>\<open>escape::decode\<close>.\<close>

fun escape_decode :: "bytes \<Rightarrow> bytes option" where
  "escape_decode [] = Some []"
| "escape_decode (b # rest) =
     (if b = ch CHR ''%'' then
        (case rest of
           h # l # more \<Rightarrow>
             (case hex_octet h l of
                None \<Rightarrow> None
              | Some d \<Rightarrow> map_option (\<lambda>out. d # out) (escape_decode more))
         | _ \<Rightarrow> None)
      else map_option (\<lambda>out. b # out) (escape_decode rest))"

definition HEX :: bytes where
  "HEX = ascii ''0123456789ABCDEF''"

definition upper_hex :: "u8 \<Rightarrow> bytes" where
  "upper_hex b =
     [unwrap_or (get_at HEX (unat (drop_bit 4 b))) (ch CHR ''0''),
      unwrap_or (get_at HEX (unat (b AND 0x0F))) (ch CHR ''0'')]"

fun normalize_for_comparison :: "bytes \<Rightarrow> bytes" where
  "normalize_for_comparison [] = []"
| "normalize_for_comparison (b # rest) =
     (case (if b = ch CHR ''%'' then
              (case rest of h # l # more \<Rightarrow> map_option (\<lambda>d. (d, more)) (hex_octet h l) | _ \<Rightarrow> None)
            else None) of
        Some (d, _) \<Rightarrow>
          (if is_reserved d then ch CHR ''%'' # upper_hex d else [d]) @
          normalize_for_comparison (drop 2 rest)
      | None \<Rightarrow> b # normalize_for_comparison rest)"

definition eq_ignore_ascii_case :: "bytes \<Rightarrow> bytes \<Rightarrow> bool" where
  "eq_ignore_ascii_case a b \<longleftrightarrow>
     length a = length b \<and> list_all (\<lambda>(x, y). lower_byte x = lower_byte y) (zip a b)"

section \<open>The header grammar\<close>

definition is_token_char :: "u8 \<Rightarrow> bool" where
  "is_token_char b \<longleftrightarrow> is_ascii_alphanumeric b \<or> b \<in> set (ascii ''-.!%*_+`'' @ [39, ch CHR ''~''])"

definition is_ws :: "u8 \<Rightarrow> bool" where
  "is_ws b \<longleftrightarrow> b = 32 \<or> b = 9"

definition skip_ws :: "bytes \<Rightarrow> nat \<Rightarrow> nat" where
  "skip_ws input at = at + length (takeWhile is_ws (drop at input))"

text \<open>\<open>trim\<close> drops spaces and tabs from both ends.\<close>

definition trim :: "bytes \<Rightarrow> bytes" where
  "trim b = rev (dropWhile is_ws (rev (dropWhile is_ws b)))"

lemma trim_subset: "set (trim bs) \<subseteq> set bs"
  by (auto simp: trim_def dest!: set_dropWhileD)

text \<open>The octets of a quoted string after its opening quote, closing quote included.\<close>

fun quoted_end :: "bytes \<Rightarrow> nat option" where
  "quoted_end [] = None"
| "quoted_end (b # rest) =
     (if b = 92 \<and> rest \<noteq> [] then map_option (\<lambda>n. n + 2) (quoted_end (tl rest))
      else if b = 34 then Some 1
      else map_option Suc (quoted_end rest))"

definition quoted_string_end :: "bytes \<Rightarrow> nat \<Rightarrow> nat option" where
  "quoted_string_end input at =
     (case get_at input at of
        None \<Rightarrow> None
      | Some b \<Rightarrow>
          (if b = 34 then map_option (\<lambda>n. at + 1 + n) (quoted_end (drop (at + 1) input)) else None))"

text \<open>The loop of \<open>split_list_spans\<close>: \<open>start\<close> and \<open>i\<close> are indices, the list is what is left at \<open>i\<close>.\<close>

function split_go ::
  "string \<Rightarrow> nat \<Rightarrow> nat \<Rightarrow> nat \<Rightarrow> nat \<Rightarrow> bytes \<Rightarrow> (header_error, (nat \<times> nat) list) result" where
  "split_go header start i angle paren [] = Inr [(start, i)]"
| "split_go header start i angle paren (b # rest) =
     (if b = 34 then
        (case quoted_end rest of
           None \<Rightarrow> Inl (UnterminatedQuotedString header)
         | Some n \<Rightarrow> split_go header start (i + 1 + n) angle paren (drop n rest))
      else if b = ch CHR ''<'' then split_go header start (i + 1) (angle + 1) paren rest
      else if b = ch CHR ''>'' then split_go header start (i + 1) (angle - 1) paren rest
      else if b = ch CHR ''('' then split_go header start (i + 1) angle (paren + 1) rest
      else if b = ch CHR '')'' then split_go header start (i + 1) angle (paren - 1) rest
      else if b = ch CHR '','' \<and> angle = 0 \<and> paren = 0 then
        bind_res (split_go header (i + 1) (i + 1) angle paren rest) (\<lambda>parts. Inr ((start, i) # parts))
      else split_go header start (i + 1) angle paren rest)"
  by pat_completeness auto
termination by (relation "measure (\<lambda>(_, _, _, _, _, bs). length bs)") auto

definition split_list_spans :: "bytes \<Rightarrow> string \<Rightarrow> (header_error, (nat \<times> nat) list) result" where
  "split_list_spans value header = split_go header 0 0 0 0 value"

definition split_list :: "bytes \<Rightarrow> string \<Rightarrow> (header_error, bytes list) result" where
  "split_list value header =
     bind_res (split_list_spans value header)
       (\<lambda>spans. Inr (map (\<lambda>(a, b). unwrap_or (get_range value a b) []) spans))"

function find_param_go :: "nat \<Rightarrow> nat \<Rightarrow> bytes \<Rightarrow> nat option" where
  "find_param_go i angle [] = None"
| "find_param_go i angle (b # rest) =
     (if b = 34 then
        (case quoted_end rest of
           None \<Rightarrow> None
         | Some n \<Rightarrow> find_param_go (i + 1 + n) angle (drop n rest))
      else if b = ch CHR ''<'' then find_param_go (i + 1) (angle + 1) rest
      else if b = ch CHR ''>'' then find_param_go (i + 1) (angle - 1) rest
      else if b = ch CHR '';'' \<and> angle = 0 then Some i
      else find_param_go (i + 1) angle rest)"
  by pat_completeness auto
termination by (relation "measure (\<lambda>(_, _, bs). length bs)") auto

definition find_param_start :: "bytes \<Rightarrow> nat option" where
  "find_param_start value = find_param_go 0 0 value"

record header_param =
  hp_name :: bytes
  hp_value :: "bytes option"

definition header_param_is :: "header_param \<Rightarrow> string \<Rightarrow> bool" where
  "header_param_is p name \<longleftrightarrow> hp_name p = ascii name"

fun unescape_quoted :: "bytes \<Rightarrow> bytes" where
  "unescape_quoted [] = []"
| "unescape_quoted [b] = [b]"
| "unescape_quoted (b # c # rest) =
     (if b = 92 then c # unescape_quoted rest else b # unescape_quoted (c # rest))"

text \<open>
  One parameter of \<open>parse_params\<close>, from its semicolon on: the parameter and the octets left. The
  source's index is the number of octets consumed so far.
\<close>

definition is_value_char :: "u8 \<Rightarrow> bool" where
  "is_value_char b \<longleftrightarrow> is_token_char b \<or> b \<in> set (ascii ''[]:/'')"

definition parse_param_value :: "string \<Rightarrow> bytes \<Rightarrow> (header_error, bytes option \<times> bytes) result" where
  "parse_param_value header tail =
     (case tail of
        b # after \<Rightarrow>
          (if b \<noteq> ch CHR ''='' then Inr (None, tail)
           else
             (let v = dropWhile is_ws after in
                (case v of
                   q # quoted \<Rightarrow>
                     (if q = 34 then
                        (case quoted_end quoted of
                           None \<Rightarrow> Inl (UnterminatedQuotedString header)
                         | Some n \<Rightarrow>
                             Inr (Some (unescape_quoted (take (n - 1) quoted)), drop n quoted))
                      else if is_value_char q then
                        Inr (Some (takeWhile is_value_char v), dropWhile is_value_char v)
                      else Inl (Syntax header))
                 | [] \<Rightarrow> Inl (Syntax header))))
      | [] \<Rightarrow> Inr (None, tail))"

definition parse_one_param :: "string \<Rightarrow> bytes \<Rightarrow> (header_error, header_param \<times> bytes) result" where
  "parse_one_param header tail =
     (case dropWhile is_ws tail of
        [] \<Rightarrow> Inl (Syntax header)
      | b # after \<Rightarrow>
          (if b \<noteq> ch CHR '';'' then Inl (Syntax header)
           else
             (let named = dropWhile is_ws after;
                  name = takeWhile is_token_char named;
                  rest = dropWhile is_ws (dropWhile is_token_char named) in
                if name = [] then Inl (Syntax header)
                else
                  bind_res (parse_param_value header rest)
                    (\<lambda>(v, left).
                       Inr (\<lparr>hp_name = to_ascii_lowercase name, hp_value = v\<rparr>,
                            dropWhile is_ws left)))))"

lemma length_dropWhile_lt: "length (dropWhile p xs) \<le> length xs"
  by (induction xs) auto

lemma parse_param_value_length:
  "parse_param_value header tail = Inr (v, left) \<Longrightarrow> length left \<le> length tail"
proof (induction tail)
  case (Cons b after)
  note le = length_dropWhile_lt [of is_ws after]
  from Cons.prems le show ?case
    by (auto simp: parse_param_value_def Let_def split: if_splits list.splits option.splits
        intro: order.trans [OF length_dropWhile_lt] le_trans [OF length_dropWhile_lt])
qed (simp add: parse_param_value_def)

lemma parse_one_param_length:
  assumes "parse_one_param header tail = Inr (p, left)"
  shows "length left < length tail"
proof -
  obtain after where d: "dropWhile is_ws tail = ch CHR '';'' # after"
    using assms by (auto simp: parse_one_param_def split: list.splits if_splits)
  let ?rest = "dropWhile is_ws (dropWhile is_token_char (dropWhile is_ws after))"
  obtain v l where v: "parse_param_value header ?rest = Inr (v, l)" and left: "left = dropWhile is_ws l"
    using assms by (auto simp: parse_one_param_def d Let_def bind_res_Inr_iff split: if_splits)
  have "length left \<le> length ?rest"
    using parse_param_value_length [OF v] length_dropWhile_lt [of is_ws l] left by simp
  also have "\<dots> \<le> length after"
    by (meson length_dropWhile_lt order.trans)
  also have "\<dots> < length tail"
    using length_dropWhile_lt [of is_ws tail] d by simp
  finally show ?thesis .
qed

text \<open>\<open>parse_params\<close>: every turn of the loop must start at a semicolon.\<close>

function parse_params :: "bytes \<Rightarrow> string \<Rightarrow> (header_error, header_param list) result" where
  "parse_params tail header =
     (if tail = [] then Inr []
      else
        (case parse_one_param header tail of
           Inl e \<Rightarrow> Inl e
         | Inr (p, left) \<Rightarrow> bind_res (parse_params left header) (\<lambda>ps. Inr (p # ps))))"
  by pat_completeness auto
termination
  by (relation "measure (\<lambda>(bs, _). length bs)") (auto dest: parse_one_param_length)

definition param :: "header_param list \<Rightarrow> string \<Rightarrow> header_param option" where
  "param ps name = find (\<lambda>p. header_param_is p name) ps"

text \<open>\<open>grammar::param(..).and_then(|p| p.value.as_deref())\<close>.\<close>

definition param_value :: "header_param list \<Rightarrow> string \<Rightarrow> bytes option" where
  "param_value ps name = Option.bind (param ps name) hp_value"

text \<open>
  \<open>parse_u64\<close>: the digit loop with checked arithmetic, on the value it accumulates (an error once it
  leaves 64 bits).
\<close>

fun u64_digits :: "nat \<Rightarrow> bytes \<Rightarrow> nat option" where
  "u64_digits n [] = Some n"
| "u64_digits n (b # bs) =
     (let m = n * 10 + unat (b - ch CHR ''0'') in
        if n * 10 < 2 ^ 64 \<and> m < 2 ^ 64 then u64_digits m bs else None)"

definition parse_u64 :: "bytes \<Rightarrow> string \<Rightarrow> (header_error, u64) result" where
  "parse_u64 value header =
     (if value = [] \<or> \<not> list_all is_ascii_digit value then Inl (Syntax header)
      else ok_or (OutOfRange header) (map_option of_nat (u64_digits 0 value)))"

end
