(* ===== verification/Sip_Host.thy ===== *)
theory Sip_Host
  imports Sip_Grammar
begin

text \<open>
  Hosts and ports (\<open>Host\<close>, \<open>parse_hostport\<close>, \<open>parse_ipv6_reference\<close> and \<open>parse_port\<close> of
  \<open>sipx-sip/src/uri.rs\<close>), with the textual form of IP addresses that Rust's standard library
  implements: \<open>str::parse\<close> of \<open>Ipv4Addr\<close> and \<open>Ipv6Addr\<close> and their \<open>Display\<close>.
\<close>

section \<open>Numbers in text\<close>

text \<open>\<open>to_string\<close> of an unsigned integer.\<close>

fun decimal :: "nat \<Rightarrow> bytes" where
  "decimal n = (if n < 10 then [48 + of_nat n] else decimal (n div 10) @ [48 + of_nat (n mod 10)])"

declare decimal.simps [simp del]

text \<open>The formatting \<open>{:x}\<close>.\<close>

definition hex_digit :: "nat \<Rightarrow> u8" where
  "hex_digit d = (if d < 10 then 48 + of_nat d else 87 + of_nat d)"

fun lower_hex :: "nat \<Rightarrow> bytes" where
  "lower_hex n = (if n < 16 then [hex_digit n] else lower_hex (n div 16) @ [hex_digit (n mod 16)])"

declare lower_hex.simps [simp del]

section \<open>IP addresses\<close>

text \<open>\<open>Ipv4Addr\<close> is four octets, \<open>Ipv6Addr\<close> eight 16-bit segments.\<close>

datatype ip_addr = V4 "u8 list" | V6 "u16 list"

definition to_digit :: "nat \<Rightarrow> u8 \<Rightarrow> nat option" where
  "to_digit radix b =
     (case hex_value b of
        None \<Rightarrow> None
      | Some d \<Rightarrow> if unat d < radix then Some (unat d) else None)"

text \<open>
  \<open>read_number\<close>: digits are accumulated with overflow and digit-count checks; a leading zero is
  refused where it would be read as octal elsewhere.
\<close>

fun read_digits :: "nat \<Rightarrow> nat \<Rightarrow> nat \<Rightarrow> nat \<Rightarrow> nat \<Rightarrow> bytes \<Rightarrow> (nat \<times> nat \<times> bytes) option" where
  "read_digits radix bound maxd count acc [] = Some (acc, count, [])"
| "read_digits radix bound maxd count acc (b # rest) =
     (case to_digit radix b of
        None \<Rightarrow> Some (acc, count, b # rest)
      | Some d \<Rightarrow>
          (if acc * radix + d < bound \<and> count < maxd
           then read_digits radix bound maxd (count + 1) (acc * radix + d) rest
           else None))"

definition read_number :: "nat \<Rightarrow> nat \<Rightarrow> nat \<Rightarrow> bool \<Rightarrow> bytes \<Rightarrow> (nat \<times> bytes) option" where
  "read_number radix bound maxd allow_zero_prefix input =
     (case read_digits radix bound maxd 0 0 input of
        None \<Rightarrow> None
      | Some (v, count, rest) \<Rightarrow>
          (if count = 0 then None
           else if \<not> allow_zero_prefix \<and> get_at input 0 = Some (ch CHR ''0'') \<and> count > 1 then None
           else Some (v, rest)))"

definition read_separator :: "u8 \<Rightarrow> nat \<Rightarrow> (bytes \<Rightarrow> 'a option) \<Rightarrow> bytes \<Rightarrow> 'a option" where
  "read_separator sep index inner input =
     (if index > 0 then
        (case input of b # rest \<Rightarrow> if b = sep then inner rest else None | [] \<Rightarrow> None)
      else inner input)"

fun read_octets :: "nat \<Rightarrow> nat \<Rightarrow> bytes \<Rightarrow> (u8 list \<times> bytes) option" where
  "read_octets i 0 input = Some ([], input)"
| "read_octets i (Suc n) input =
     (case read_separator (ch CHR ''.'') i (read_number 10 256 3 False) input of
        None \<Rightarrow> None
      | Some (v, rest) \<Rightarrow> map_option (\<lambda>(vs, r). (of_nat v # vs, r)) (read_octets (i + 1) n rest))"

definition read_ipv4_addr :: "bytes \<Rightarrow> (u8 list \<times> bytes) option" where
  "read_ipv4_addr input = read_octets 0 4 input"

definition parse_ipv4 :: "bytes \<Rightarrow> u8 list option" where
  "parse_ipv4 text =
     (if length text > 15 then None
      else (case read_ipv4_addr text of Some (v, []) \<Rightarrow> Some v | _ \<Rightarrow> None))"

text \<open>
  \<open>read_groups\<close>: \<open>n\<close> slots are left and \<open>i\<close> groups are already read; an embedded IPv4 address
  fills two slots and ends the address.
\<close>

fun read_groups :: "nat \<Rightarrow> nat \<Rightarrow> bytes \<Rightarrow> u16 list \<times> bool \<times> bytes" where
  "read_groups 0 i input = ([], False, input)"
| "read_groups (Suc n) i input =
     (case (if n \<ge> 1 then read_separator (ch CHR '':'') i read_ipv4_addr input else None) of
        Some ([a, b, c, d], rest) \<Rightarrow> ([from_be16 a b, from_be16 c d], True, rest)
      | _ \<Rightarrow>
          (case read_separator (ch CHR '':'') i (read_number 16 65536 4 True) input of
             Some (g, rest) \<Rightarrow>
               (case read_groups n (i + 1) rest of
                  (gs, v4, r) \<Rightarrow> (of_nat g # gs, v4, r))
           | None \<Rightarrow> ([], False, input)))"

definition read_ipv6_addr :: "bytes \<Rightarrow> (u16 list \<times> bytes) option" where
  "read_ipv6_addr input =
     (case read_groups 8 0 input of
        (head, head_ipv4, rest) \<Rightarrow>
          (if length head = 8 then Some (head, rest)
           else if head_ipv4 then None
           else
             (case rest of
                c1 # c2 # rest2 \<Rightarrow>
                  (if c1 = ch CHR '':'' \<and> c2 = ch CHR '':'' then
                     (case read_groups (7 - length head) 0 rest2 of
                        (back, _, left) \<Rightarrow>
                          Some (head @ replicate (8 - length back - length head) 0 @ back, left))
                   else None)
              | _ \<Rightarrow> None)))"

definition parse_ipv6 :: "bytes \<Rightarrow> u16 list option" where
  "parse_ipv6 text = (case read_ipv6_addr text of Some (v, []) \<Rightarrow> Some v | _ \<Rightarrow> None)"

subsection \<open>Display\<close>

fun join_bytes :: "bytes \<Rightarrow> bytes list \<Rightarrow> bytes" where
  "join_bytes sep [] = []"
| "join_bytes sep [x] = x"
| "join_bytes sep (x # y # ys) = x @ sep @ join_bytes sep (y # ys)"

definition show_ipv4 :: "u8 list \<Rightarrow> bytes" where
  "show_ipv4 octets = join_bytes (ascii ''.'') (map (\<lambda>o'. decimal (unat o')) octets)"

definition fmt_subslice :: "u16 list \<Rightarrow> bytes" where
  "fmt_subslice segs = join_bytes (ascii '':'') (map (\<lambda>s. lower_hex (unat s)) segs)"

text \<open>The longest run of zero segments, the first of several: start and length.\<close>

fun zero_span :: "nat \<Rightarrow> nat \<times> nat \<Rightarrow> nat \<times> nat \<Rightarrow> u16 list \<Rightarrow> nat \<times> nat" where
  "zero_span i longest current [] = longest"
| "zero_span i longest current (s # segs) =
     (if s = 0 then
        (let current' = ((if snd current = 0 then i else fst current), snd current + 1) in
           zero_span (i + 1) (if snd current' > snd longest then current' else longest) current' segs)
      else zero_span (i + 1) longest (0, 0) segs)"

definition show_ipv6 :: "u16 list \<Rightarrow> bytes" where
  "show_ipv6 segs =
     (if take 6 segs = [0, 0, 0, 0, 0, 0xFFFF] then
        ascii ''::ffff:'' @ show_ipv4 (concat (map to_be16 (drop 6 segs)))
      else
        (let (start, len) = zero_span 0 (0, 0) (0, 0) segs in
           if len > 1 then
             fmt_subslice (take start segs) @ ascii ''::'' @ fmt_subslice (drop (start + len) segs)
           else fmt_subslice segs))"

definition show_ip :: "ip_addr \<Rightarrow> bytes" where
  "show_ip ip = (case ip of V4 a \<Rightarrow> show_ipv4 a | V6 a \<Rightarrow> show_ipv6 a)"

section \<open>Hosts\<close>

text \<open>A \<open>HostName\<close> is its validated octets.\<close>

datatype host = Name bytes | Ip ip_addr

definition is_host_char :: "u8 \<Rightarrow> bool" where
  "is_host_char b \<longleftrightarrow> is_ascii_alphanumeric b \<or> b \<in> set (ascii ''-._'')"

text \<open>\<open>HostName::new\<close>; the error is the build error for the field \<open>host\<close>.\<close>

definition host_name_new :: "bytes \<Rightarrow> bytes option" where
  "host_name_new name = (if name = [] \<or> \<not> list_all is_host_char name then None else Some name)"

definition host_to_bytes :: "host \<Rightarrow> bytes" where
  "host_to_bytes h = (case h of Name name \<Rightarrow> name | Ip ip \<Rightarrow> show_ip ip)"

definition host_equivalent :: "host \<Rightarrow> host \<Rightarrow> bool" where
  "host_equivalent x y =
     (case (x, y) of
        (Ip a, Ip b) \<Rightarrow> a = b
      | (Name a, Name b) \<Rightarrow> eq_ignore_ascii_case a b
      | _ \<Rightarrow> False)"

definition port_value :: "bytes \<Rightarrow> nat" where
  "port_value raw = foldl (\<lambda>value b. value * 10 + unat (b - ch CHR ''0'')) 0 raw"

definition parse_port :: "bytes \<Rightarrow> (uri_error, u16 option) result" where
  "parse_port raw =
     (if raw = [] \<or> \<not> list_all is_ascii_digit raw then Inl Uri_Port
      else if length raw > 5 then Inl Uri_Port
      else if port_value raw < 65536 then Inr (Some (of_nat (port_value raw)))
      else Inl Uri_Port)"

definition parse_port_suffix :: "bytes \<Rightarrow> (uri_error, u16 option) result" where
  "parse_port_suffix tail =
     (case tail of
        [] \<Rightarrow> Inr None
      | b # rest \<Rightarrow> if b \<noteq> ch CHR '':'' then Inl Uri_Host else parse_port rest)"

text \<open>\<open>split_once(":::")\<close>.\<close>

fun split_once3 :: "bytes \<Rightarrow> (bytes \<times> bytes) option" where
  "split_once3 [] = None"
| "split_once3 (b # rest) =
     (if starts_with (b # rest) (ascii '':::'') then Some ([], drop 2 rest)
      else map_option (\<lambda>(x, y). (b # x, y)) (split_once3 rest))"

text \<open>
  An IPv6 reference, with the single \<open>:::\<close> before an embedded IPv4 address that RFC 5118 asks for.
  Text that is not UTF-8 cannot match either grammar, so its separate check gives the same error.
\<close>

definition parse_ipv6_reference :: "bytes \<Rightarrow> (uri_error, u16 list) result" where
  "parse_ipv6_reference text =
     (case parse_ipv6 text of
        Some ip \<Rightarrow> Inr ip
      | None \<Rightarrow>
          (case split_once3 text of
             None \<Rightarrow> Inl Uri_Host
           | Some (hexpart, embedded) \<Rightarrow>
               (if parse_ipv4 embedded = None then Inl Uri_Host
                else ok_or Uri_Host (parse_ipv6 (hexpart @ ascii ''::'' @ embedded)))))"

definition parse_hostport :: "bytes \<Rightarrow> (uri_error, host \<times> u16 option) result" where
  "parse_hostport hostport =
     (if hostport = [] then Inl Uri_EmptyHost
      else if hd hostport = ch CHR ''['' then
        (case position (\<lambda>b. b = ch CHR '']'') hostport of
           None \<Rightarrow> Inl Uri_Ipv6Reference
         | Some close \<Rightarrow>
             bind_res (parse_ipv6_reference (take (close - 1) (drop 1 hostport)))
               (\<lambda>ip. bind_res (parse_port_suffix (drop (close + 1) hostport))
                  (\<lambda>port. Inr (Ip (V6 ip), port))))
      else
        bind_res
          (case position (\<lambda>b. b = ch CHR '':'') hostport of
             Some c \<Rightarrow> bind_res (parse_port (drop (c + 1) hostport)) (\<lambda>port. Inr (take c hostport, port))
           | None \<Rightarrow> Inr (hostport, None))
          (\<lambda>(host_raw, port).
             if host_raw = [] then Inl Uri_EmptyHost
             else if \<not> list_all is_host_char host_raw then Inl Uri_Host
             else
               Inr (case parse_ipv4 host_raw of None \<Rightarrow> Name host_raw | Some ip \<Rightarrow> Ip (V4 ip), port)))"

end
