(* ===== verification/Sip_Uri.thy ===== *)
theory Sip_Uri
  imports Sip_Host "HOL-Library.List_Lexorder"
begin

text \<open>
  URIs (\<open>sipx-sip/src/uri.rs\<close>) and their ordered parameter lists (\<open>params.rs\<close>): parsing,
  serialization, lossless replacement of the user and telephone-subscriber parts, transport
  selection, the RFC 3966 parameter view, and equivalence under RFC 3261 section 19.1.4.
\<close>

section \<open>Parameter lists\<close>

record uri_param =
  up_name :: bytes
  up_value :: "bytes option"

type_synonym params = "uri_param list"

definition names_equivalent :: "bytes \<Rightarrow> bytes \<Rightarrow> bool" where
  "names_equivalent a b \<longleftrightarrow>
     eq_ignore_ascii_case (normalize_for_comparison a) (normalize_for_comparison b)"

definition has_name :: "uri_param \<Rightarrow> bytes \<Rightarrow> bool" where
  "has_name p name \<longleftrightarrow> names_equivalent (up_name p) name"

text \<open>\<open>Params::get\<close>, \<open>value\<close>, \<open>contains\<close>, \<open>remove\<close>.\<close>

definition params_get :: "params \<Rightarrow> bytes \<Rightarrow> uri_param option" where
  "params_get ps name = find (\<lambda>p. has_name p name) ps"

definition params_value :: "params \<Rightarrow> bytes \<Rightarrow> bytes option" where
  "params_value ps name = Option.bind (params_get ps name) up_value"

definition params_contains :: "params \<Rightarrow> bytes \<Rightarrow> bool" where
  "params_contains ps name \<longleftrightarrow> params_get ps name \<noteq> None"

definition params_remove :: "params \<Rightarrow> bytes \<Rightarrow> params \<times> bool" where
  "params_remove ps name =
     (let kept = filter (\<lambda>p. \<not> has_name p name) ps in (kept, length kept \<noteq> length ps))"

definition values_equivalent :: "bytes option \<Rightarrow> bytes option \<Rightarrow> bool" where
  "values_equivalent a b =
     (case (a, b) of
        (None, None) \<Rightarrow> True
      | (Some x, Some y) \<Rightarrow>
          eq_ignore_ascii_case (normalize_for_comparison x) (normalize_for_comparison y)
      | _ \<Rightarrow> False)"

definition param_equivalent :: "params \<Rightarrow> params \<Rightarrow> bytes \<Rightarrow> bool" where
  "param_equivalent a b name =
     (case (params_get a name, params_get b name) of
        (None, None) \<Rightarrow> True
      | (Some x, Some y) \<Rightarrow> values_equivalent (up_value x) (up_value y)
      | _ \<Rightarrow> False)"

definition common_params_agree :: "params \<Rightarrow> params \<Rightarrow> bool" where
  "common_params_agree a b \<longleftrightarrow>
     list_all (\<lambda>p. list_all (\<lambda>q. values_equivalent (up_value p) (up_value q))
                     (filter (\<lambda>q. names_equivalent (up_name q) (up_name p)) b)) a"

text \<open>\<open>Params::write_to\<close>: the first entry of a header list is introduced by \<open>?\<close>, the others by \<open>&\<close>.\<close>

definition write_param :: "uri_param \<Rightarrow> bytes" where
  "write_param p = up_name p @ (case up_value p of None \<Rightarrow> [] | Some v \<Rightarrow> ch CHR ''='' # v)"

definition params_write :: "params \<Rightarrow> u8 \<Rightarrow> bytes" where
  "params_write ps separator =
     concat (map (\<lambda>(i, p).
         (if i = 0 \<and> separator = ch CHR ''?'' then ch CHR ''?''
          else if separator = ch CHR ''?'' then ch CHR ''&''
          else separator) # write_param p) (enumerate (0 :: nat) ps))"

section \<open>Schemes and URIs\<close>

datatype scheme = Sip | Sips | Tel | Scheme_Other bytes

definition scheme_parse :: "bytes \<Rightarrow> scheme" where
  "scheme_parse raw =
     (if eq_ignore_ascii_case raw (ascii ''sip'') then Sip
      else if eq_ignore_ascii_case raw (ascii ''sips'') then Sips
      else if eq_ignore_ascii_case raw (ascii ''tel'') then Tel
      else Scheme_Other raw)"

definition scheme_bytes :: "scheme \<Rightarrow> bytes" where
  "scheme_bytes s =
     (case s of Sip \<Rightarrow> ascii ''sip'' | Sips \<Rightarrow> ascii ''sips'' | Tel \<Rightarrow> ascii ''tel''
      | Scheme_Other raw \<Rightarrow> raw)"

definition scheme_is_secure :: "scheme \<Rightarrow> bool" where
  "scheme_is_secure s \<longleftrightarrow> s = Sips"

definition scheme_is_sip :: "scheme \<Rightarrow> bool" where
  "scheme_is_sip s \<longleftrightarrow> s = Sip \<or> s = Sips"

definition scheme_equivalent :: "scheme \<Rightarrow> scheme \<Rightarrow> bool" where
  "scheme_equivalent a b \<longleftrightarrow> eq_ignore_ascii_case (scheme_bytes a) (scheme_bytes b)"

datatype uri_transport = Udp | Tcp | Tls | Ws | Wss | Quic

definition default_port :: "uri_transport \<Rightarrow> u16" where
  "default_port t =
     (case t of Udp \<Rightarrow> 5060 | Tcp \<Rightarrow> 5060 | Tls \<Rightarrow> 5061 | Quic \<Rightarrow> 5061 | Ws \<Rightarrow> 80 | Wss \<Rightarrow> 443)"

datatype uri_transport_error = NotSip | Unsupported | SecureDatagram

record sip_parts =
  sp_user :: "bytes option"
  sp_raw_user_span :: "(nat \<times> nat) option"
  sp_password :: "bytes option"
  sp_host :: host
  sp_port :: "u16 option"
  sp_params :: params
  sp_headers :: params

datatype parts = Parts_Sip sip_parts | Parts_Opaque bytes

record uri =
  uri_scheme :: scheme
  uri_parts :: parts
  uri_raw :: "bytes option"
  uri_tel_span :: "(nat \<times> nat) option"

subsection \<open>Character classes\<close>

definition is_scheme_char :: "u8 \<Rightarrow> bool" where
  "is_scheme_char b \<longleftrightarrow> is_ascii_alphanumeric b \<or> b \<in> set (ascii ''+-.'')"

definition is_user_char :: "u8 \<Rightarrow> bool" where
  "is_user_char b \<longleftrightarrow> is_ascii_alphanumeric b \<or> b \<in> set (39 # ascii ''-_.!~*()&=+$,;?/%'')"

definition validate_user :: "bytes \<Rightarrow> (uri_error, unit) result" where
  "validate_user user =
     (if \<not> escapes_are_well_formed user then Inl Uri_PercentEscape
      else if user = [] \<or> \<not> list_all is_user_char user then Inl Uri_User
      else Inr ())"

definition is_visual_separator :: "u8 \<Rightarrow> bool" where
  "is_visual_separator b \<longleftrightarrow> b \<in> set (ascii ''-.()'')"

definition is_local_phone_symbol :: "u8 \<Rightarrow> bool" where
  "is_local_phone_symbol b \<longleftrightarrow> is_ascii_hexdigit b \<or> b \<in> set (ascii ''*#'')"

definition is_local_phone_digit :: "u8 \<Rightarrow> bool" where
  "is_local_phone_digit b \<longleftrightarrow> is_local_phone_symbol b \<or> is_visual_separator b"

definition is_global_phone_digit :: "u8 \<Rightarrow> bool" where
  "is_global_phone_digit b \<longleftrightarrow> is_ascii_digit b \<or> is_visual_separator b"

definition validate_tel_subscriber :: "bytes \<Rightarrow> (uri_error, unit) result" where
  "validate_tel_subscriber subscriber =
     (if (if starts_with subscriber (ascii ''+'')
          then list_all is_global_phone_digit (drop 1 subscriber) \<and>
               list_ex is_ascii_digit (drop 1 subscriber)
          else list_all is_local_phone_digit subscriber \<and> list_ex is_local_phone_symbol subscriber)
      then Inr () else Inl Uri_TelephoneSubscriber)"

subsection \<open>Parsing\<close>

text \<open>A tel URI body cut at the first semicolon: the subscriber and the parameter tail.\<close>

definition split_tel_body :: "bytes \<Rightarrow> bytes \<times> bytes option" where
  "split_tel_body body =
     (case position (\<lambda>b. b = ch CHR '';'') body of
        Some semi \<Rightarrow> (take semi body, Some (drop (semi + 1) body))
      | None \<Rightarrow> (body, None))"

text \<open>The closure \<open>cut\<close> of \<open>parse_params\<close>, applied to the fields between separators in turn.\<close>

definition cut_param :: "u8 \<Rightarrow> params \<Rightarrow> bytes \<Rightarrow> (uri_error, params) result" where
  "cut_param separator ps field =
     (if field = [] then Inl Uri_EmptyParameterName
      else
        bind_res
          (case position (\<lambda>b. b = ch CHR ''='') field of
             Some eq \<Rightarrow>
               (if take eq field = [] then Inl Uri_EmptyParameterName
                else Inr \<lparr>up_name = take eq field, up_value = Some (drop (eq + 1) field)\<rparr>)
           | None \<Rightarrow> Inr \<lparr>up_name = field, up_value = None\<rparr>)
          (\<lambda>p.
             if \<not> escapes_are_well_formed (up_name p) \<or>
                (case up_value p of None \<Rightarrow> False | Some v \<Rightarrow> \<not> escapes_are_well_formed v)
             then Inl Uri_PercentEscape
             else if separator = ch CHR '';'' \<and>
                     list_ex (\<lambda>e. names_equivalent (up_name e) (up_name p)) ps
             then Inl Uri_DuplicateParameterName
             else Inr (ps @ [p])))"

fun cut_fields :: "u8 \<Rightarrow> params \<Rightarrow> bytes list \<Rightarrow> (uri_error, params) result" where
  "cut_fields separator ps [] = Inr ps"
| "cut_fields separator ps (f # fs) =
     bind_res (cut_param separator ps f) (\<lambda>ps'. cut_fields separator ps' fs)"

definition uri_parse_params :: "bytes \<Rightarrow> u8 \<Rightarrow> (uri_error, params) result" where
  "uri_parse_params raw separator =
     (if raw = [] then Inl Uri_EmptyParameterName
      else cut_fields separator [] (split_on separator raw))"

definition parse_sip_parts :: "bytes \<Rightarrow> nat \<Rightarrow> (uri_error, sip_parts) result" where
  "parse_sip_parts rest body_offset =
     (let (userinfo, after) =
            (case position (\<lambda>b. b = ch CHR ''@'') rest of
               Some at \<Rightarrow> (Some (take at rest), drop (at + 1) rest)
             | None \<Rightarrow> (None, rest));
          (user, password) =
            (case userinfo of
               None \<Rightarrow> (None, None)
             | Some info \<Rightarrow>
                 (case position (\<lambda>b. b = ch CHR '':'') info of
                    Some c \<Rightarrow> (Some (take c info), Some (drop (c + 1) info))
                  | None \<Rightarrow> (Some info, None)))
      in
        bind_res (case user of None \<Rightarrow> Inr () | Some u \<Rightarrow> validate_user u) (\<lambda>_.
          if (case user of None \<Rightarrow> False | Some u \<Rightarrow> \<not> escapes_are_well_formed u) \<or>
             (case password of None \<Rightarrow> False | Some p \<Rightarrow> \<not> escapes_are_well_formed p)
          then Inl Uri_PercentEscape
          else
            (let (before_headers, headers_raw) =
                   (case position (\<lambda>b. b = ch CHR ''?'') after of
                      Some q \<Rightarrow> (take q after, Some (drop (q + 1) after))
                    | None \<Rightarrow> (after, None));
                 (hostport, params_raw) =
                   (case position (\<lambda>b. b = ch CHR '';'') before_headers of
                      Some s \<Rightarrow> (take s before_headers, Some (drop (s + 1) before_headers))
                    | None \<Rightarrow> (before_headers, None))
             in
               bind_res (parse_hostport hostport) (\<lambda>(host, port).
               bind_res (case params_raw of
                           Some raw \<Rightarrow> uri_parse_params raw (ch CHR '';'') | None \<Rightarrow> Inr []) (\<lambda>ps.
               bind_res (case headers_raw of
                           Some raw \<Rightarrow> uri_parse_params raw (ch CHR ''&'') | None \<Rightarrow> Inr []) (\<lambda>hs.
               Inr \<lparr>sp_user = user,
                    sp_raw_user_span = map_option (\<lambda>u. (body_offset, body_offset + length u)) user,
                    sp_password = password, sp_host = host, sp_port = port,
                    sp_params = ps, sp_headers = hs\<rparr>))))))"

definition is_uri_char :: "u8 \<Rightarrow> bool" where
  "is_uri_char b \<longleftrightarrow> 0x21 \<le> b \<and> b \<le> 0x7E \<and> b \<notin> {ch CHR ''<'', ch CHR ''>'', 34}"

definition uri_parse :: "bytes \<Rightarrow> (uri_error, uri) result" where
  "uri_parse raw =
     (if \<not> list_all is_uri_char raw then Inl Uri_IllegalCharacter
      else
        (case position (\<lambda>b. b = ch CHR '':'') raw of
           None \<Rightarrow> Inl Uri_Scheme
         | Some colon \<Rightarrow>
             (let scheme_raw = take colon raw; rest = drop (colon + 1) raw;
                  sch = scheme_parse scheme_raw in
                if scheme_raw = [] \<or> \<not> list_all is_scheme_char scheme_raw then Inl Uri_Scheme
                else if \<not> escapes_are_well_formed rest then Inl Uri_PercentEscape
                else
                  bind_res
                    (if sch = Tel then
                       (let subscriber = fst (split_tel_body rest) in
                          bind_res (validate_tel_subscriber subscriber)
                            (\<lambda>_. Inr (Some (colon + 1, colon + 1 + length subscriber))))
                     else Inr None)
                    (\<lambda>tel_span.
                  bind_res
                    (if scheme_is_sip sch
                     then bind_res (parse_sip_parts rest (colon + 1)) (\<lambda>p. Inr (Parts_Sip p))
                     else Inr (Parts_Opaque rest))
                    (\<lambda>ps. Inr \<lparr>uri_scheme = sch, uri_parts = ps, uri_raw = Some raw,
                               uri_tel_span = tel_span\<rparr>)))))"

definition uri_sip :: "host \<Rightarrow> uri" where
  "uri_sip h =
     \<lparr>uri_scheme = Sip,
      uri_parts = Parts_Sip \<lparr>sp_user = None, sp_raw_user_span = None, sp_password = None,
        sp_host = h, sp_port = None, sp_params = [], sp_headers = []\<rparr>,
      uri_raw = None, uri_tel_span = None\<rparr>"

subsection \<open>Accessors and serialization\<close>

definition uri_sip_parts :: "uri \<Rightarrow> sip_parts option" where
  "uri_sip_parts u = (case uri_parts u of Parts_Sip p \<Rightarrow> Some p | Parts_Opaque _ \<Rightarrow> None)"

definition uri_user :: "uri \<Rightarrow> bytes option" where
  "uri_user u = Option.bind (uri_sip_parts u) sp_user"

definition uri_decoded_user :: "uri \<Rightarrow> bytes option" where
  "uri_decoded_user u = Option.bind (uri_user u) escape_decode"

definition uri_has_headers :: "uri \<Rightarrow> bool" where
  "uri_has_headers u = (case uri_sip_parts u of None \<Rightarrow> False | Some p \<Rightarrow> sp_headers p \<noteq> [])"

definition uri_tel_parts :: "uri \<Rightarrow> (bytes \<times> bytes option) option" where
  "uri_tel_parts u =
     (case (uri_scheme u, uri_parts u) of
        (Tel, Parts_Opaque body) \<Rightarrow> Some (split_tel_body body)
      | _ \<Rightarrow> None)"

definition bracketed_host :: "host \<Rightarrow> bytes" where
  "bracketed_host h =
     (case h of
        Ip (V6 ip) \<Rightarrow> ch CHR ''['' # show_ipv6 ip @ [ch CHR '']'']
      | _ \<Rightarrow> host_to_bytes h)"

definition write_sip_parts :: "sip_parts \<Rightarrow> bytes" where
  "write_sip_parts p =
     (case sp_user p of
        None \<Rightarrow> []
      | Some user \<Rightarrow>
          user @ (case sp_password p of None \<Rightarrow> [] | Some pw \<Rightarrow> ch CHR '':'' # pw) @ [ch CHR ''@'']) @
     bracketed_host (sp_host p) @
     (case sp_port p of None \<Rightarrow> [] | Some port \<Rightarrow> ch CHR '':'' # decimal (unat port)) @
     params_write (sp_params p) (ch CHR '';'') @ params_write (sp_headers p) (ch CHR ''?'')"

definition uri_to_bytes :: "uri \<Rightarrow> bytes" where
  "uri_to_bytes u =
     (case uri_raw u of
        Some raw \<Rightarrow> raw
      | None \<Rightarrow>
          scheme_bytes (uri_scheme u) @ [ch CHR '':''] @
          (case uri_parts u of Parts_Opaque body \<Rightarrow> body | Parts_Sip p \<Rightarrow> write_sip_parts p))"

definition uri_transport_param :: "uri \<Rightarrow> bytes option" where
  "uri_transport_param u =
     Option.bind (uri_sip_parts u) (\<lambda>p. params_value (sp_params p) (ascii ''transport''))"

definition transport_name :: "bytes \<Rightarrow> uri_transport option" where
  "transport_name v =
     (if v = ascii ''udp'' then Some Udp else if v = ascii ''tcp'' then Some Tcp
      else if v = ascii ''tls'' then Some Tls else if v = ascii ''ws'' then Some Ws
      else if v = ascii ''wss'' then Some Wss else if v = ascii ''quic'' then Some Quic else None)"

definition selected_transport :: "uri \<Rightarrow> (uri_transport_error, uri_transport) result" where
  "selected_transport u =
     (if \<not> scheme_is_sip (uri_scheme u) then Inl NotSip
      else
        bind_res
          (case uri_transport_param u of
             None \<Rightarrow> Inr None
           | Some v \<Rightarrow>
               (case transport_name (to_ascii_lowercase v) of
                  Some t \<Rightarrow> Inr (Some t) | None \<Rightarrow> Inl Unsupported))
          (\<lambda>explicit.
             if \<not> scheme_is_secure (uri_scheme u) then Inr (unwrap_or explicit Udp)
             else
               (case explicit of
                  None \<Rightarrow> Inr Tls | Some Tcp \<Rightarrow> Inr Tls | Some Tls \<Rightarrow> Inr Tls
                | Some Ws \<Rightarrow> Inr Wss | Some Wss \<Rightarrow> Inr Wss
                | Some Quic \<Rightarrow> Inr Quic
                | Some Udp \<Rightarrow> Inl SecureDatagram)))"

subsection \<open>Mutation\<close>

text \<open>Replacing \<open>[from, to)\<close> of the retained octets; \<open>None\<close> when the span is out of range.\<close>

definition replace_raw_span :: "bytes \<Rightarrow> nat \<times> nat \<Rightarrow> bytes \<Rightarrow> bytes option" where
  "replace_raw_span raw span replacement =
     (if fst span \<le> length raw \<and> snd span \<le> length raw
      then Some (take (fst span) raw @ replacement @ drop (snd span) raw) else None)"

definition replace_user :: "uri \<Rightarrow> bytes \<Rightarrow> (uri_error, bool \<times> uri) result" where
  "replace_user u user =
     (if \<not> scheme_is_sip (uri_scheme u) then Inr (False, u)
      else
        (case uri_parts u of
           Parts_Opaque _ \<Rightarrow> Inr (False, u)
         | Parts_Sip p \<Rightarrow>
             (if sp_user p = None then Inr (False, u)
              else
                bind_res (validate_user user) (\<lambda>_.
                bind_res
                  (case (uri_raw u, sp_raw_user_span p) of
                     (Some verbatim, Some span) \<Rightarrow>
                       (case replace_raw_span verbatim span user of
                          None \<Rightarrow> Inl Uri_User
                        | Some value \<Rightarrow> Inr (Some (value, (fst span, fst span + length user))))
                   | (Some _, None) \<Rightarrow> Inl Uri_User
                   | (None, _) \<Rightarrow> Inr None)
                  (\<lambda>rewritten.
                     Inr (True,
                       u\<lparr>uri_raw := map_option fst rewritten,
                         uri_parts := Parts_Sip (p\<lparr>sp_user := Some user,
                           sp_raw_user_span := map_option snd rewritten\<rparr>)\<rparr>))))))"

definition replace_tel_subscriber :: "uri \<Rightarrow> bytes \<Rightarrow> (uri_error, bool \<times> uri) result" where
  "replace_tel_subscriber u subscriber =
     (if uri_scheme u \<noteq> Tel then Inr (False, u)
      else
        bind_res (validate_tel_subscriber subscriber) (\<lambda>_.
          (case (uri_parts u, uri_raw u, uri_tel_span u) of
             (Parts_Opaque _, Some verbatim, Some span) \<Rightarrow>
               (case replace_raw_span verbatim span subscriber of
                  None \<Rightarrow> Inl Uri_TelephoneSubscriber
                | Some rewritten \<Rightarrow>
                    (if fst span > length rewritten then Inl Uri_TelephoneSubscriber
                     else
                       Inr (True,
                         u\<lparr>uri_parts := Parts_Opaque (drop (fst span) rewritten),
                           uri_raw := Some rewritten,
                           uri_tel_span := Some (fst span, fst span + length subscriber)\<rparr>)))
           | _ \<Rightarrow> Inl Uri_TelephoneSubscriber)))"

text \<open>\<open>sip_parts_mut\<close>: a structured mutation discards the verbatim form.\<close>

definition with_sip_parts :: "uri \<Rightarrow> (sip_parts \<Rightarrow> sip_parts) \<Rightarrow> uri" where
  "with_sip_parts u f =
     (case uri_parts u of
        Parts_Sip p \<Rightarrow> u\<lparr>uri_raw := None, uri_parts := Parts_Sip (f (p\<lparr>sp_raw_user_span := None\<rparr>))\<rparr>
      | Parts_Opaque _ \<Rightarrow> u)"

definition push_param :: "uri \<Rightarrow> uri_param \<Rightarrow> uri" where
  "push_param u p = with_sip_parts u (\<lambda>q. q\<lparr>sp_params := sp_params q @ [p]\<rparr>)"

definition push_header :: "uri \<Rightarrow> uri_param \<Rightarrow> bool \<times> uri" where
  "push_header u h =
     (uri_sip_parts u \<noteq> None, with_sip_parts u (\<lambda>q. q\<lparr>sp_headers := sp_headers q @ [h]\<rparr>))"

definition remove_param :: "uri \<Rightarrow> bytes \<Rightarrow> bool \<times> uri" where
  "remove_param u name =
     ((case uri_sip_parts u of None \<Rightarrow> False | Some p \<Rightarrow> snd (params_remove (sp_params p) name)),
      with_sip_parts u (\<lambda>q. q\<lparr>sp_params := fst (params_remove (sp_params q) name)\<rparr>))"

definition remove_header :: "uri \<Rightarrow> bytes \<Rightarrow> bool \<times> uri" where
  "remove_header u name =
     ((case uri_sip_parts u of None \<Rightarrow> False | Some p \<Rightarrow> snd (params_remove (sp_headers p) name)),
      with_sip_parts u (\<lambda>q. q\<lparr>sp_headers := fst (params_remove (sp_headers q) name)\<rparr>))"

subsection \<open>Equivalence\<close>

text \<open>
  The \<open>BTreeMap\<close> of names to values, kept as an association list in key order; \<open>group_push\<close> is
  \<open>entry(name).or_default().push(value)\<close>.
\<close>

type_synonym grouped = "(bytes \<times> bytes list) list"

definition group_push :: "grouped \<Rightarrow> bytes \<Rightarrow> bytes \<Rightarrow> grouped" where
  "group_push g name v = bt_insert name (unwrap_or (map_of g name) [] @ [v]) g"

definition group_all :: "(bytes \<times> bytes) list \<Rightarrow> grouped" where
  "group_all nvs =
     map (\<lambda>(n, vs). (n, sort vs)) (foldl (\<lambda>g (n, v). group_push g n v) [] nvs)"

definition header_multiset :: "params \<Rightarrow> grouped" where
  "header_multiset hs =
     group_all (map (\<lambda>p. (to_ascii_lowercase (normalize_for_comparison (up_name p)),
        (case up_value p of
           None \<Rightarrow> []
         | Some v \<Rightarrow> to_ascii_lowercase (normalize_for_comparison v)))) hs)"

definition strip_visual_separators :: "bytes \<Rightarrow> bytes" where
  "strip_visual_separators number = filter (\<lambda>b. \<not> is_visual_separator b) number"

definition tel_param_pair :: "bytes \<Rightarrow> bytes \<times> bytes" where
  "tel_param_pair segment =
     (let (n, v) =
            (case position (\<lambda>b. b = ch CHR ''='') segment of
               Some eq \<Rightarrow> (take eq segment, drop (eq + 1) segment)
             | None \<Rightarrow> (segment, []));
          name = to_ascii_lowercase (normalize_for_comparison n);
          v' = to_ascii_lowercase (normalize_for_comparison v) in
        (name,
         if name = ascii ''ext'' \<or>
            name = ascii ''phone-context'' \<and> get_at v' 0 = Some (ch CHR ''+'')
         then strip_visual_separators v' else v'))"

definition tel_param_multiset :: "bytes \<Rightarrow> grouped" where
  "tel_param_multiset ps =
     (if ps = [] then [] else group_all (map tel_param_pair (split_on (ch CHR '';'') ps)))"

definition tel_equivalent :: "bytes \<Rightarrow> bytes \<Rightarrow> bool" where
  "tel_equivalent a b =
     (let (sa, pa) = split_tel_body a; (sb, pb) = split_tel_body b in
        eq_ignore_ascii_case (strip_visual_separators sa) (strip_visual_separators sb) \<and>
        tel_param_multiset (unwrap_or pa []) = tel_param_multiset (unwrap_or pb []))"

definition opt_bytes_equivalent :: "bytes option \<Rightarrow> bytes option \<Rightarrow> bool \<Rightarrow> bool" where
  "opt_bytes_equivalent a b case_sensitive =
     (case (a, b) of
        (None, None) \<Rightarrow> True
      | (Some x, Some y) \<Rightarrow>
          (if case_sensitive then normalize_for_comparison x = normalize_for_comparison y
           else eq_ignore_ascii_case (normalize_for_comparison x) (normalize_for_comparison y))
      | _ \<Rightarrow> False)"

definition never_ignored :: "bytes list" where
  "never_ignored = [ascii ''user'', ascii ''ttl'', ascii ''method'', ascii ''maddr'', ascii ''transport'']"

definition sip_parts_equivalent :: "sip_parts \<Rightarrow> sip_parts \<Rightarrow> bool" where
  "sip_parts_equivalent a b \<longleftrightarrow>
     opt_bytes_equivalent (sp_user a) (sp_user b) True \<and>
     opt_bytes_equivalent (sp_password a) (sp_password b) True \<and>
     host_equivalent (sp_host a) (sp_host b) \<and>
     sp_port a = sp_port b \<and>
     list_all (\<lambda>name. param_equivalent (sp_params a) (sp_params b) name) never_ignored \<and>
     common_params_agree (sp_params a) (sp_params b) \<and>
     common_params_agree (sp_params b) (sp_params a) \<and>
     header_multiset (sp_headers a) = header_multiset (sp_headers b)"

definition uri_equivalent :: "uri \<Rightarrow> uri \<Rightarrow> bool" where
  "uri_equivalent u v =
     (if \<not> scheme_equivalent (uri_scheme u) (uri_scheme v) then False
      else
        (case (uri_parts u, uri_parts v) of
           (Parts_Sip a, Parts_Sip b) \<Rightarrow> sip_parts_equivalent a b
         | (Parts_Opaque a, Parts_Opaque b) \<Rightarrow>
             (if uri_scheme u = Tel then tel_equivalent a b
              else normalize_for_comparison a = normalize_for_comparison b)
         | _ \<Rightarrow> False))"

end
