(* ===== verification/Sip_Name.thy ===== *)
theory Sip_Name
  imports Sip_Grammar
begin

text \<open>
  Header field names (\<open>sipx-sip/src/name.rs\<close>): the table the macro \<open>header_names!\<close> expands, name
  resolution, canonical and compact spellings, and the case-insensitive equality.
\<close>

section \<open>The table\<close>

datatype (plugins only: code) header_name =
    H_Accept | H_AcceptContact | H_AcceptEncoding | H_AcceptLanguage | H_AlertInfo | H_Allow
  | H_AllowEvents | H_AuthenticationInfo | H_Authorization | H_CallId | H_CallInfo | H_Contact
  | H_ContentDisposition | H_ContentEncoding | H_ContentLanguage | H_ContentLength | H_ContentType | H_CSeq
  | H_Date | H_ErrorInfo | H_Event | H_Expires | H_FeatureCaps | H_From
  | H_Identity | H_IdentityInfo | H_FlowTimer | H_InReplyTo | H_HistoryInfo | H_MaxForwards
  | H_MimeVersion | H_MinExpires | H_MinSe | H_Organization | H_Path | H_PAssertedIdentity
  | H_PPreferredIdentity | H_Priority | H_Privacy | H_ProxyAuthenticate | H_ProxyAuthorization | H_ProxyRequire
  | H_RAck | H_Reason | H_RecordRoute | H_ReferSub | H_ReferTo | H_ReferredBy
  | H_RejectContact | H_Replaces | H_ReplyTo | H_RequestDisposition | H_Require | H_RetryAfter
  | H_Route | H_RSeq | H_Server | H_ServiceRoute | H_SessionExpires | H_SipETag
  | H_SipIfMatch | H_Subject | H_SubscriptionState | H_Supported | H_Timestamp | H_To
  | H_Unsupported | H_UserAgent | H_Via | H_Warning | H_WwwAuthenticate
  | H_Other bytes

definition header_names :: "(header_name \<times> string \<times> char option) list" where
  "header_names =
     [(H_Accept, ''Accept'', None),
      (H_AcceptContact, ''Accept-Contact'', Some CHR ''a''),
      (H_AcceptEncoding, ''Accept-Encoding'', None),
      (H_AcceptLanguage, ''Accept-Language'', None),
      (H_AlertInfo, ''Alert-Info'', None),
      (H_Allow, ''Allow'', None),
      (H_AllowEvents, ''Allow-Events'', Some CHR ''u''),
      (H_AuthenticationInfo, ''Authentication-Info'', None),
      (H_Authorization, ''Authorization'', None),
      (H_CallId, ''Call-ID'', Some CHR ''i''),
      (H_CallInfo, ''Call-Info'', None),
      (H_Contact, ''Contact'', Some CHR ''m''),
      (H_ContentDisposition, ''Content-Disposition'', None),
      (H_ContentEncoding, ''Content-Encoding'', Some CHR ''e''),
      (H_ContentLanguage, ''Content-Language'', None),
      (H_ContentLength, ''Content-Length'', Some CHR ''l''),
      (H_ContentType, ''Content-Type'', Some CHR ''c''),
      (H_CSeq, ''CSeq'', None),
      (H_Date, ''Date'', None),
      (H_ErrorInfo, ''Error-Info'', None),
      (H_Event, ''Event'', Some CHR ''o''),
      (H_Expires, ''Expires'', None),
      (H_FeatureCaps, ''Feature-Caps'', None),
      (H_From, ''From'', Some CHR ''f''),
      (H_Identity, ''Identity'', Some CHR ''y''),
      (H_IdentityInfo, ''Identity-Info'', Some CHR ''n''),
      (H_FlowTimer, ''Flow-Timer'', None),
      (H_InReplyTo, ''In-Reply-To'', None),
      (H_HistoryInfo, ''History-Info'', None),
      (H_MaxForwards, ''Max-Forwards'', None),
      (H_MimeVersion, ''MIME-Version'', None),
      (H_MinExpires, ''Min-Expires'', None),
      (H_MinSe, ''Min-SE'', None),
      (H_Organization, ''Organization'', None),
      (H_Path, ''Path'', None),
      (H_PAssertedIdentity, ''P-Asserted-Identity'', None),
      (H_PPreferredIdentity, ''P-Preferred-Identity'', None),
      (H_Priority, ''Priority'', None),
      (H_Privacy, ''Privacy'', None),
      (H_ProxyAuthenticate, ''Proxy-Authenticate'', None),
      (H_ProxyAuthorization, ''Proxy-Authorization'', None),
      (H_ProxyRequire, ''Proxy-Require'', None),
      (H_RAck, ''RAck'', None),
      (H_Reason, ''Reason'', None),
      (H_RecordRoute, ''Record-Route'', None),
      (H_ReferSub, ''Refer-Sub'', None),
      (H_ReferTo, ''Refer-To'', Some CHR ''r''),
      (H_ReferredBy, ''Referred-By'', Some CHR ''b''),
      (H_RejectContact, ''Reject-Contact'', Some CHR ''j''),
      (H_Replaces, ''Replaces'', None),
      (H_ReplyTo, ''Reply-To'', None),
      (H_RequestDisposition, ''Request-Disposition'', Some CHR ''d''),
      (H_Require, ''Require'', None),
      (H_RetryAfter, ''Retry-After'', None),
      (H_Route, ''Route'', None),
      (H_RSeq, ''RSeq'', None),
      (H_Server, ''Server'', None),
      (H_ServiceRoute, ''Service-Route'', None),
      (H_SessionExpires, ''Session-Expires'', Some CHR ''x''),
      (H_SipETag, ''SIP-ETag'', None),
      (H_SipIfMatch, ''SIP-If-Match'', None),
      (H_Subject, ''Subject'', Some CHR ''s''),
      (H_SubscriptionState, ''Subscription-State'', None),
      (H_Supported, ''Supported'', Some CHR ''k''),
      (H_Timestamp, ''Timestamp'', None),
      (H_To, ''To'', Some CHR ''t''),
      (H_Unsupported, ''Unsupported'', None),
      (H_UserAgent, ''User-Agent'', None),
      (H_Via, ''Via'', Some CHR ''v''),
      (H_Warning, ''Warning'', None),
      (H_WwwAuthenticate, ''WWW-Authenticate'', None)]"

definition is_comma_separated_list :: "header_name \<Rightarrow> bool" where
  "is_comma_separated_list n \<longleftrightarrow> n \<in> set
       [H_Accept, H_AcceptContact, H_AcceptEncoding, H_AcceptLanguage, H_AlertInfo,
        H_Allow, H_AllowEvents, H_CallInfo, H_Contact, H_ContentEncoding,
        H_ContentLanguage, H_ErrorInfo, H_FeatureCaps, H_HistoryInfo, H_InReplyTo,
        H_Path, H_PAssertedIdentity, H_PPreferredIdentity, H_Privacy, H_ProxyRequire,
        H_RecordRoute, H_Reason, H_RejectContact, H_Require, H_Route,
        H_ServiceRoute, H_Supported, H_Unsupported, H_Via, H_Warning]"

definition is_single_value :: "header_name \<Rightarrow> bool" where
  "is_single_value n \<longleftrightarrow> n \<in> set
       [H_CallId, H_ContentLength, H_ContentType, H_CSeq, H_Date,
        H_Expires, H_From, H_MaxForwards, H_MinExpires, H_Organization,
        H_Server, H_SipETag, H_SipIfMatch, H_Subject, H_Timestamp,
        H_To, H_UserAgent]"

section \<open>Spellings\<close>

text \<open>The octets of an \<open>Other\<close>; \<open>None\<close> for a name of the table.\<close>

definition other_name :: "header_name \<Rightarrow> bytes option" where
  "other_name n = (case n of H_Other raw \<Rightarrow> Some raw | _ \<Rightarrow> None)"

definition canonical :: "header_name \<Rightarrow> bytes" where
  "canonical n =
     (case other_name n of
        Some raw \<Rightarrow> raw
      | None \<Rightarrow> (case map_of header_names n of Some (long, _) \<Rightarrow> ascii long | None \<Rightarrow> []))"

definition compact :: "header_name \<Rightarrow> u8 option" where
  "compact n =
     (case map_of header_names n of Some (_, c) \<Rightarrow> map_option of_char c | None \<Rightarrow> None)"

text \<open>\<open>HeaderName::parse\<close>: compact forms for a single octet, then the long names in table order.\<close>

definition header_name_parse :: "bytes \<Rightarrow> header_name" where
  "header_name_parse raw =
     (case (case raw of
              [b] \<Rightarrow> find (\<lambda>(_, _, c). map_option of_char c = Some (lower_byte b)) header_names
            | _ \<Rightarrow> None) of
        Some (n, _) \<Rightarrow> n
      | None \<Rightarrow>
          (case find (\<lambda>(_, long, _). eq_ignore_ascii_case raw (ascii long)) header_names of
             Some (n, _) \<Rightarrow> n
           | None \<Rightarrow> H_Other raw))"

text \<open>The hand-written \<open>PartialEq\<close>.\<close>

definition header_name_eq :: "header_name \<Rightarrow> header_name \<Rightarrow> bool" where
  "header_name_eq x y =
     (case (other_name x, other_name y) of
        (Some a, Some b) \<Rightarrow> eq_ignore_ascii_case a b
      | _ \<Rightarrow> x = y)"

end
