(* ===== verification/Sip_Message.thy ===== *)
theory Sip_Message
  imports Sip_Uri Sip_Name
begin

text \<open>
  The message model (\<open>sipx-sip/src/message.rs\<close>): methods, versions, status codes, header fields in
  their wire and built representations, the ordered header collection, requests, responses and
  their serialization; and the builders with their injection checks (\<open>build.rs\<close>).
\<close>

section \<open>Methods, versions and status codes\<close>

datatype sip_method =
    INVITE | ACK | BYE | CANCEL | REGISTER | OPTIONS | INFO | PRACK | UPDATE | SUBSCRIBE
  | NOTIFY | REFER | MESSAGE | PUBLISH | Method_Other bytes

definition method_parse :: "bytes \<Rightarrow> sip_method" where
  "method_parse raw =
     (if raw = ascii ''INVITE'' then INVITE
      else if raw = ascii ''ACK'' then ACK
      else if raw = ascii ''BYE'' then BYE
      else if raw = ascii ''CANCEL'' then CANCEL
      else if raw = ascii ''REGISTER'' then REGISTER
      else if raw = ascii ''OPTIONS'' then OPTIONS
      else if raw = ascii ''INFO'' then INFO
      else if raw = ascii ''PRACK'' then PRACK
      else if raw = ascii ''UPDATE'' then UPDATE
      else if raw = ascii ''SUBSCRIBE'' then SUBSCRIBE
      else if raw = ascii ''NOTIFY'' then NOTIFY
      else if raw = ascii ''REFER'' then REFER
      else if raw = ascii ''MESSAGE'' then MESSAGE
      else if raw = ascii ''PUBLISH'' then PUBLISH
      else Method_Other raw)"

definition method_bytes :: "sip_method \<Rightarrow> bytes" where
  "method_bytes m =
     (case m of
        INVITE \<Rightarrow> ascii ''INVITE'' | ACK \<Rightarrow> ascii ''ACK'' | BYE \<Rightarrow> ascii ''BYE''
      | CANCEL \<Rightarrow> ascii ''CANCEL'' | REGISTER \<Rightarrow> ascii ''REGISTER'' | OPTIONS \<Rightarrow> ascii ''OPTIONS''
      | INFO \<Rightarrow> ascii ''INFO'' | PRACK \<Rightarrow> ascii ''PRACK'' | UPDATE \<Rightarrow> ascii ''UPDATE''
      | SUBSCRIBE \<Rightarrow> ascii ''SUBSCRIBE'' | NOTIFY \<Rightarrow> ascii ''NOTIFY'' | REFER \<Rightarrow> ascii ''REFER''
      | MESSAGE \<Rightarrow> ascii ''MESSAGE'' | PUBLISH \<Rightarrow> ascii ''PUBLISH'' | Method_Other raw \<Rightarrow> raw)"

datatype version = Sip20 | Version_Other bytes

definition version_parse :: "bytes \<Rightarrow> version" where
  "version_parse raw =
     (if eq_ignore_ascii_case raw (ascii ''SIP/2.0'') then Sip20 else Version_Other raw)"

definition version_bytes :: "version \<Rightarrow> bytes" where
  "version_bytes v = (case v of Sip20 \<Rightarrow> ascii ''SIP/2.0'' | Version_Other raw \<Rightarrow> raw)"

definition version_is_supported :: "version \<Rightarrow> bool" where
  "version_is_supported v \<longleftrightarrow> v = Sip20"

text \<open>A status code is its number; \<open>StatusCode::new\<close> is the only constructor and bounds it.\<close>

datatype status_code = StatusCode u16

definition status_new :: "u16 \<Rightarrow> status_code option" where
  "status_new code = (if 100 \<le> code \<and> code \<le> 699 then Some (StatusCode code) else None)"

primrec status_value :: "status_code \<Rightarrow> u16" where
  "status_value (StatusCode code) = code"

definition status_class :: "status_code \<Rightarrow> u16" where
  "status_class s = status_value s div 100"

definition is_provisional :: "status_code \<Rightarrow> bool" where
  "is_provisional s \<longleftrightarrow> status_class s = 1"

definition is_final :: "status_code \<Rightarrow> bool" where
  "is_final s \<longleftrightarrow> \<not> is_provisional s"

definition is_success :: "status_code \<Rightarrow> bool" where
  "is_success s \<longleftrightarrow> status_class s = 2"

section \<open>Header fields\<close>

datatype header_repr = Wire bytes nat | Built bytes

record header =
  hd_name :: header_name
  hd_repr :: header_repr

type_synonym headers = "header list"

definition header_new_unchecked :: "header_name \<Rightarrow> bytes \<Rightarrow> header" where
  "header_new_unchecked n v = \<lparr>hd_name = n, hd_repr = Built v\<rparr>"

definition header_from_wire :: "header_name \<Rightarrow> bytes \<Rightarrow> nat \<Rightarrow> header" where
  "header_from_wire n line value_offset = \<lparr>hd_name = n, hd_repr = Wire line value_offset\<rparr>"

definition raw_value :: "header \<Rightarrow> bytes" where
  "raw_value h =
     (case hd_repr h of
        Wire line value_offset \<Rightarrow> unwrap_or (get_range line value_offset (length line)) []
      | Built v \<Rightarrow> v)"

text \<open>The loop of \<open>Header::value\<close>: a line break and the blanks after it become one space.\<close>

function unfold_value :: "bytes \<Rightarrow> bytes" where
  "unfold_value [] = []"
| "unfold_value (b # rest) =
     (if b = 13 \<and> get_at rest 0 = Some 10
      then 32 # unfold_value (dropWhile is_ws (drop 1 rest))
      else b # unfold_value rest)"
  by pat_completeness auto
termination
  by (relation "measure length")
    (auto intro: le_less_trans [OF length_dropWhile_lt] simp: le_imp_less_Suc)

definition header_value :: "header \<Rightarrow> bytes" where
  "header_value h =
     (let raw = raw_value h in
        if list_ex (\<lambda>b. b = 13 \<or> b = 10) raw then trim (unfold_value raw) else trim raw)"

definition header_write :: "header \<Rightarrow> bytes" where
  "header_write h =
     (case hd_repr h of
        Wire line _ \<Rightarrow> line
      | Built v \<Rightarrow> canonical (hd_name h) @ ascii '': '' @ v)"

subsection \<open>The ordered collection\<close>

definition CRLF :: bytes where
  "CRLF = [13, 10]"

definition headers_get :: "headers \<Rightarrow> header_name \<Rightarrow> header option" where
  "headers_get hs n = find (\<lambda>h. header_name_eq (hd_name h) n) hs"

definition headers_get_all :: "headers \<Rightarrow> header_name \<Rightarrow> headers" where
  "headers_get_all hs n = filter (\<lambda>h. header_name_eq (hd_name h) n) hs"

definition headers_count :: "headers \<Rightarrow> header_name \<Rightarrow> nat" where
  "headers_count hs n = length (filter (\<lambda>h. header_name_eq (hd_name h) n) hs)"

definition headers_remove_all :: "headers \<Rightarrow> header_name \<Rightarrow> headers \<times> nat" where
  "headers_remove_all hs n =
     (let kept = filter (\<lambda>h. \<not> header_name_eq (hd_name h) n) hs in (kept, length hs - length kept))"

definition headers_remove_first :: "headers \<Rightarrow> header_name \<Rightarrow> headers \<times> header option" where
  "headers_remove_first hs n =
     (case position (\<lambda>h. header_name_eq (hd_name h) n) hs of
        None \<Rightarrow> (hs, None)
      | Some i \<Rightarrow> (take i hs @ drop (i + 1) hs, get_at hs i))"

definition headers_insert :: "headers \<Rightarrow> nat \<Rightarrow> header \<Rightarrow> headers" where
  "headers_insert hs index h = (let i = min index (length hs) in take i hs @ h # drop i hs)"

text \<open>\<open>Headers::value\<close>: the first value with this name, unfolded.\<close>

definition headers_value :: "headers \<Rightarrow> header_name \<Rightarrow> bytes option" where
  "headers_value hs n = map_option header_value (headers_get hs n)"

definition headers_write :: "headers \<Rightarrow> bytes" where
  "headers_write hs = concat (map (\<lambda>h. header_write h @ CRLF) hs)"

text \<open>\<open>Headers::typed\<close> for a header type with name \<open>n\<close> and decoder \<open>decode\<close>.\<close>

definition typed :: "header_name \<Rightarrow> (bytes \<Rightarrow> (header_error, 'a) result) \<Rightarrow> headers
    \<Rightarrow> (header_error, 'a) result option" where
  "typed n decode hs = map_option (\<lambda>h. decode (header_value h)) (headers_get hs n)"

section \<open>Requests and responses\<close>

record request =
  rq_method :: sip_method
  rq_uri :: uri
  rq_version :: version
  rq_headers :: headers
  rq_body :: bytes
  rq_raw_start_line :: "bytes option"
  rq_raw_uri_span :: "(nat \<times> nat) option"

record response =
  rs_version :: version
  rs_status :: status_code
  rs_reason :: bytes
  rs_headers :: headers
  rs_body :: bytes
  rs_raw_start_line :: "bytes option"

datatype sip_message = Request request | Response response

definition request_new :: "sip_method \<Rightarrow> uri \<Rightarrow> request" where
  "request_new m u =
     \<lparr>rq_method = m, rq_uri = u, rq_version = Sip20, rq_headers = [], rq_body = [],
      rq_raw_start_line = None, rq_raw_uri_span = None\<rparr>"

definition replace_byte_span :: "bytes \<Rightarrow> nat \<times> nat \<Rightarrow> bytes \<Rightarrow> bytes option" where
  "replace_byte_span source span replacement =
     (if fst span \<le> length source \<and> snd span \<le> length source
      then Some (take (fst span) source @ replacement @ drop (snd span) source) else None)"

definition set_uri :: "request \<Rightarrow> uri \<Rightarrow> (uri_error, request) result" where
  "set_uri r u =
     (let encoded = uri_to_bytes u in
        bind_res (uri_parse encoded) (\<lambda>_.
          (case (rq_raw_start_line r, rq_raw_uri_span r) of
             (Some raw, Some span) \<Rightarrow>
               bind_res (ok_or Uri_RetainedSpan (replace_byte_span raw span encoded)) (\<lambda>raw'.
                 Inr (r\<lparr>rq_raw_start_line := Some raw',
                        rq_raw_uri_span := Some (fst span, fst span + length encoded),
                        rq_uri := u\<rparr>))
           | (None, None) \<Rightarrow> Inr (r\<lparr>rq_uri := u\<rparr>)
           | _ \<Rightarrow> Inl Uri_RetainedSpan)))"

definition request_write :: "request \<Rightarrow> bytes" where
  "request_write r =
     (case rq_raw_start_line r of
        Some raw \<Rightarrow> raw
      | None \<Rightarrow>
          method_bytes (rq_method r) @ [32] @ uri_to_bytes (rq_uri r) @ [32] @
          version_bytes (rq_version r)) @
     CRLF @ headers_write (rq_headers r) @ CRLF @ rq_body r"

definition response_new :: "status_code \<Rightarrow> bytes \<Rightarrow> response" where
  "response_new s reason =
     \<lparr>rs_version = Sip20, rs_status = s, rs_reason = reason, rs_headers = [], rs_body = [],
      rs_raw_start_line = None\<rparr>"

definition response_write :: "response \<Rightarrow> bytes" where
  "response_write r =
     (case rs_raw_start_line r of
        Some raw \<Rightarrow> raw
      | None \<Rightarrow>
          version_bytes (rs_version r) @ [32] @ decimal (unat (status_value (rs_status r))) @ [32] @
          rs_reason r) @
     CRLF @ headers_write (rs_headers r) @ CRLF @ rs_body r"

definition message_headers :: "sip_message \<Rightarrow> headers" where
  "message_headers m = (case m of Request r \<Rightarrow> rq_headers r | Response r \<Rightarrow> rs_headers r)"

definition message_to_bytes :: "sip_message \<Rightarrow> bytes" where
  "message_to_bytes m = (case m of Request r \<Rightarrow> request_write r | Response r \<Rightarrow> response_write r)"

section \<open>Building\<close>

datatype build_error =
    MissingRequiredResponseHeader string
  | IllegalCharacter string nat u8
  | NotAToken string

definition is_line_break :: "u8 \<Rightarrow> bool" where
  "is_line_break b \<longleftrightarrow> b = 13 \<or> b = 10 \<or> b = 0"

definition check_value :: "bytes \<Rightarrow> string \<Rightarrow> (build_error, unit) result" where
  "check_value value field =
     (case position is_line_break value of
        Some pos \<Rightarrow> Inl (IllegalCharacter field pos (unwrap_or (get_at value pos) 0))
      | None \<Rightarrow> Inr ())"

definition check_token :: "bytes \<Rightarrow> string \<Rightarrow> (build_error, unit) result" where
  "check_token value field =
     bind_res (check_value value field) (\<lambda>_.
       if value = [] \<or> \<not> list_all is_token_char value then Inl (NotAToken field) else Inr ())"

definition header_build :: "header_name \<Rightarrow> bytes \<Rightarrow> (build_error, header) result" where
  "header_build n v =
     bind_res (check_value v ''header value'') (\<lambda>_.
     bind_res (case other_name n of Some raw \<Rightarrow> check_token raw ''header name'' | None \<Rightarrow> Inr ()) (\<lambda>_.
       Inr (header_new_unchecked n v)))"

record request_builder =
  qb_method :: sip_method
  qb_uri :: uri
  qb_headers :: headers
  qb_body :: bytes

definition qb_new :: "sip_method \<Rightarrow> uri \<Rightarrow> request_builder" where
  "qb_new m u = \<lparr>qb_method = m, qb_uri = u, qb_headers = [], qb_body = []\<rparr>"

definition qb_header :: "header_name \<Rightarrow> bytes \<Rightarrow> request_builder \<Rightarrow> (build_error, request_builder) result" where
  "qb_header n v b = bind_res (header_build n v) (\<lambda>h. Inr (b\<lparr>qb_headers := qb_headers b @ [h]\<rparr>))"

definition qb_set_header :: "header_name \<Rightarrow> bytes \<Rightarrow> request_builder \<Rightarrow> (build_error, request_builder) result" where
  "qb_set_header n v b =
     bind_res (header_build n v)
       (\<lambda>h. Inr (b\<lparr>qb_headers := fst (headers_remove_all (qb_headers b) n) @ [h]\<rparr>))"

definition qb_max_forwards :: "u8 \<Rightarrow> request_builder \<Rightarrow> request_builder" where
  "qb_max_forwards hops b =
     b\<lparr>qb_headers := qb_headers b @ [header_new_unchecked H_MaxForwards (decimal (unat hops))]\<rparr>"

definition qb_cseq :: "u32 \<Rightarrow> sip_method \<Rightarrow> request_builder \<Rightarrow> (build_error, request_builder) result" where
  "qb_cseq sequence m b =
     bind_res (check_token (method_bytes m) ''CSeq method'') (\<lambda>_.
       Inr (b\<lparr>qb_headers := qb_headers b @
         [header_new_unchecked H_CSeq (decimal (unat sequence) @ [32] @ method_bytes m)]\<rparr>))"

definition qb_set_body :: "bytes \<Rightarrow> request_builder \<Rightarrow> request_builder" where
  "qb_set_body body b =
     b\<lparr>qb_headers := fst (headers_remove_all (qb_headers b) H_ContentLength) @
         [header_new_unchecked H_ContentLength (decimal (length body))],
       qb_body := body\<rparr>"

definition with_content_length :: "headers \<Rightarrow> headers" where
  "with_content_length hs =
     (if headers_get hs H_ContentLength = None
      then hs @ [header_new_unchecked H_ContentLength (ascii ''0'')] else hs)"

definition qb_build :: "request_builder \<Rightarrow> request" where
  "qb_build b =
     (request_new (qb_method b) (qb_uri b))
       \<lparr>rq_headers := with_content_length (qb_headers b), rq_body := qb_body b\<rparr>"

record response_builder =
  pb_status :: status_code
  pb_reason :: bytes
  pb_headers :: headers
  pb_body :: bytes

definition pb_new :: "status_code \<Rightarrow> bytes \<Rightarrow> (build_error, response_builder) result" where
  "pb_new s reason =
     bind_res (check_value reason ''reason phrase'') (\<lambda>_.
       Inr \<lparr>pb_status = s, pb_reason = reason, pb_headers = [], pb_body = []\<rparr>)"

text \<open>
  The copying loop of \<open>ResponseBuilder::to_request\<close>. The \<open>History-Info\<close> the source appends after
  it is not part of a 100 response, which is the only status this development builds.
\<close>

definition copied_headers :: "(header_name \<times> string) list" where
  "copied_headers =
     [(H_Via, ''Via''), (H_From, ''From''), (H_To, ''To''), (H_CallId, ''Call-ID''), (H_CSeq, ''CSeq'')]"

fun copy_headers :: "headers \<Rightarrow> (header_name \<times> string) list \<Rightarrow> headers \<Rightarrow> (build_error, headers) result" where
  "copy_headers from [] acc = Inr acc"
| "copy_headers from ((n, label) # names) acc =
     (if headers_get from n = None then Inl (MissingRequiredResponseHeader label)
      else copy_headers from names (acc @ headers_get_all from n))"

definition pb_to_request_100 :: "request \<Rightarrow> bytes \<Rightarrow> (build_error, response_builder) result" where
  "pb_to_request_100 r reason =
     bind_res (pb_new (StatusCode 100) reason) (\<lambda>b.
     bind_res (copy_headers (rq_headers r) copied_headers (pb_headers b)) (\<lambda>hs.
       Inr (b\<lparr>pb_headers := hs\<rparr>)))"

definition pb_header :: "header_name \<Rightarrow> bytes \<Rightarrow> response_builder \<Rightarrow> (build_error, response_builder) result" where
  "pb_header n v b = bind_res (header_build n v) (\<lambda>h. Inr (b\<lparr>pb_headers := pb_headers b @ [h]\<rparr>))"

definition pb_set_header :: "header_name \<Rightarrow> bytes \<Rightarrow> response_builder \<Rightarrow> (build_error, response_builder) result" where
  "pb_set_header n v b =
     bind_res (header_build n v)
       (\<lambda>h. Inr (b\<lparr>pb_headers := fst (headers_remove_all (pb_headers b) n) @ [h]\<rparr>))"

definition pb_set_body :: "bytes \<Rightarrow> response_builder \<Rightarrow> response_builder" where
  "pb_set_body body b =
     b\<lparr>pb_headers := fst (headers_remove_all (pb_headers b) H_ContentLength) @
         [header_new_unchecked H_ContentLength (decimal (length body))],
       pb_body := body\<rparr>"

definition pb_build :: "response_builder \<Rightarrow> response" where
  "pb_build b =
     (response_new (pb_status b) (pb_reason b))
       \<lparr>rs_headers := with_content_length (pb_headers b), rs_body := pb_body b\<rparr>"

end
