(* ===== verification/Sip_Headers.thy ===== *)
theory Sip_Headers
  imports Sip_Message
begin

text \<open>
  The typed headers the transaction layer reads: \<open>Via\<close> with its overload-control parameters
  (\<open>headers/via.rs\<close>), the address headers \<open>From\<close> and \<open>To\<close> (\<open>headers/address.rs\<close>), and \<open>CSeq\<close>,
  \<open>Call-ID\<close> and the numeric headers (\<open>headers/misc.rs\<close>).
\<close>

section \<open>Via\<close>

definition BRANCH_MAGIC_COOKIE :: bytes where
  "BRANCH_MAGIC_COOKIE = ascii ''z9hG4bK''"

definition VIA_LABEL :: string where
  "VIA_LABEL = ''Via''"

record via =
  via_protocol :: bytes
  via_version :: bytes
  via_transport :: bytes
  via_host :: host
  via_port :: "u16 option"
  via_params :: "header_param list"

definition via_param :: "via \<Rightarrow> string \<Rightarrow> bytes option" where
  "via_param v name = param_value (via_params v) name"

definition via_branch :: "via \<Rightarrow> bytes option" where
  "via_branch v = via_param v ''branch''"

definition has_rfc3261_branch :: "via \<Rightarrow> bool" where
  "has_rfc3261_branch v =
     (case via_branch v of None \<Rightarrow> False | Some b \<Rightarrow> starts_with b BRANCH_MAGIC_COOKIE)"

definition via_rport :: "via \<Rightarrow> bytes option option" where
  "via_rport v = map_option hp_value (param (via_params v) ''rport'')"

text \<open>
  The sent-protocol of \<open>parse_one\<close>: two fields ended by the first two slashes, and the rest.
\<close>

definition via_protocol_fields :: "bytes \<Rightarrow> (bytes \<times> bytes \<times> bytes) option" where
  "via_protocol_fields before =
     (case position (\<lambda>b. b = ch CHR ''/'') before of
        None \<Rightarrow> None
      | Some i \<Rightarrow>
          (let rest = drop (i + 1) before in
             (case position (\<lambda>b. b = ch CHR ''/'') rest of
                None \<Rightarrow> None
              | Some j \<Rightarrow> Some (trim (take i before), trim (take j rest), trim (drop (j + 1) rest)))))"

definition via_parse_one :: "bytes \<Rightarrow> (header_error, via) result" where
  "via_parse_one raw =
     (let value = trim raw in
        if value = [] then Inl (Syntax VIA_LABEL)
        else
          (let (before_params, params_tail) =
                 (case find_param_start value of
                    Some semi \<Rightarrow> (take semi value, drop semi value)
                  | None \<Rightarrow> (value, [])) in
             (case via_protocol_fields before_params of
                None \<Rightarrow> Inl (Syntax VIA_LABEL)
              | Some (protocol, ver, tail) \<Rightarrow>
                  (case position is_ws tail of
                     None \<Rightarrow> Inl (Syntax VIA_LABEL)
                   | Some space \<Rightarrow>
                       (let transport = trim (take space tail);
                            sent_by = trim (drop (skip_ws tail space) tail) in
                          if protocol = [] \<or> ver = [] \<or> transport = [] \<or> sent_by = []
                          then Inl (Syntax VIA_LABEL)
                          else
                            (case parse_hostport sent_by of
                               Inl source \<Rightarrow> Inl (Header_Uri VIA_LABEL source)
                             | Inr (host, port) \<Rightarrow>
                                 bind_res (parse_params (trim params_tail) VIA_LABEL) (\<lambda>ps.
                                   Inr \<lparr>via_protocol = protocol, via_version = ver,
                                        via_transport = transport, via_host = host,
                                        via_port = port, via_params = ps\<rparr>)))))))"

text \<open>Collecting an iterator of results: the first error wins.\<close>

fun collect_res :: "('a \<Rightarrow> ('e, 'b) result) \<Rightarrow> 'a list \<Rightarrow> ('e, 'b list) result" where
  "collect_res f [] = Inr []"
| "collect_res f (x # xs) = bind_res (f x) (\<lambda>y. bind_res (collect_res f xs) (\<lambda>ys. Inr (y # ys)))"

definition via_parse_list :: "bytes \<Rightarrow> (header_error, via list) result" where
  "via_parse_list value = bind_res (split_list value VIA_LABEL) (collect_res via_parse_one)"

definition via_decode :: "bytes \<Rightarrow> (header_error, via) result" where
  "via_decode value =
     bind_res (split_list value VIA_LABEL)
       (\<lambda>parts. via_parse_one (case parts of [] \<Rightarrow> [] | first # _ \<Rightarrow> first))"

function first_hop_go :: "nat \<Rightarrow> bytes \<Rightarrow> nat" where
  "first_hop_go i [] = i"
| "first_hop_go i (b # rest) =
     (if b = 34 then
        (case quoted_end rest of
           Some n \<Rightarrow> first_hop_go (i + 1 + n) (drop n rest)
         | None \<Rightarrow> i + 1 + length rest)
      else if b = ch CHR '','' then i
      else first_hop_go (i + 1) rest)"
  by pat_completeness auto
termination by (relation "measure (\<lambda>(_, bs). length bs)") auto

definition first_hop_end :: "bytes \<Rightarrow> nat" where
  "first_hop_end value = first_hop_go 0 value"

subsection \<open>Overload control\<close>

datatype oc_parameter = Oc_Support | Oc_Value u64

datatype overload_algorithm = Loss | Rate | Algorithm_Other bytes

definition OC_SEQUENCE_SCALE :: nat where
  "OC_SEQUENCE_SCALE = 100000"

text \<open>An \<open>OverloadSequence\<close> is its 64-bit number, in units of the fifth decimal place.\<close>

type_synonym overload_sequence = u64

definition checked_u64 :: "nat \<Rightarrow> nat option" where
  "checked_u64 n = (if n < 2 ^ 64 then Some n else None)"

definition sequence_from_integer :: "u64 \<Rightarrow> overload_sequence option" where
  "sequence_from_integer value = map_option of_nat (checked_u64 (unat value * OC_SEQUENCE_SCALE))"

text \<open>\<open>str::parse::<u64>\<close>: decimal digits, optionally after a plus sign, in range.\<close>

definition decimal_u64 :: "bytes \<Rightarrow> (header_error, u64) result" where
  "decimal_u64 value =
     (let digits = (case value of
                      b # rest \<Rightarrow> if b = ch CHR ''+'' \<and> rest \<noteq> [] then rest else value
                    | [] \<Rightarrow> value) in
        if digits = [] \<or> \<not> list_all is_ascii_digit digits then Inl (Syntax VIA_LABEL)
        else ok_or (Syntax VIA_LABEL) (map_option of_nat (u64_digits 0 digits)))"

definition sequence_parse :: "bytes \<Rightarrow> (header_error, overload_sequence) result" where
  "sequence_parse value =
     (case position (\<lambda>b. b = ch CHR ''.'') value of
        None \<Rightarrow> Inl (Syntax VIA_LABEL)
      | Some dot \<Rightarrow>
          (let whole = take dot value; fraction = drop (dot + 1) value in
             if whole = [] \<or> length whole > 12 \<or> fraction = [] \<or> length fraction > 5 \<or>
                \<not> list_all is_ascii_digit whole \<or> \<not> list_all is_ascii_digit fraction
             then Inl (Syntax VIA_LABEL)
             else
               bind_res (decimal_u64 whole) (\<lambda>w.
               bind_res (decimal_u64 fraction) (\<lambda>f.
                 let scale = 10 ^ (5 - length fraction);
                     scaled = checked_u64 (unat f * scale);
                     base = checked_u64 (unat w * OC_SEQUENCE_SCALE) in
                 ok_or (Syntax VIA_LABEL)
                   (Option.bind scaled (\<lambda>s. Option.bind base (\<lambda>b.
                      map_option of_nat (checked_u64 (b + s)))))))))"

text \<open>\<open>Display\<close>: the fraction padded to five digits, trailing zeros dropped but one.\<close>

definition pad5 :: "nat \<Rightarrow> bytes" where
  "pad5 n = replicate (5 - length (decimal n)) (ch CHR ''0'') @ decimal n"

definition sequence_show :: "overload_sequence \<Rightarrow> bytes" where
  "sequence_show s =
     (let whole = unat s div OC_SEQUENCE_SCALE; fraction = unat s mod OC_SEQUENCE_SCALE in
        if fraction = 0 then decimal whole @ ascii ''.0''
        else
          decimal whole @ ascii ''.'' @
          rev (dropWhile (\<lambda>b. b = ch CHR ''0'') (rev (pad5 fraction))))"

record via_overload =
  vo_oc :: "oc_parameter option"
  vo_algorithms :: "overload_algorithm list"
  vo_validity :: "u64 option"
  vo_sequence :: "overload_sequence option"

definition algorithm_of :: "bytes \<Rightarrow> overload_algorithm" where
  "algorithm_of token =
     (let t = trim token in
        if eq_ignore_ascii_case t (ascii ''loss'') then Loss
        else if eq_ignore_ascii_case t (ascii ''rate'') then Rate
        else Algorithm_Other t)"

definition bad_algorithm :: "overload_algorithm \<Rightarrow> bool" where
  "bad_algorithm a =
     (case a of
        Algorithm_Other token \<Rightarrow> token = [] \<or> \<not> list_all is_ascii_alphanumeric token
      | _ \<Rightarrow> False)"

definition via_overload_of :: "via \<Rightarrow> (header_error, via_overload) result" where
  "via_overload_of v =
     bind_res
       (case param (via_params v) ''oc'' of
          None \<Rightarrow> Inr None
        | Some p \<Rightarrow>
            (case hp_value p of
               None \<Rightarrow> Inr (Some Oc_Support)
             | Some val \<Rightarrow> bind_res (decimal_u64 val) (\<lambda>n. Inr (Some (Oc_Value n)))))
       (\<lambda>oc.
     bind_res
       (case param (via_params v) ''oc-algo'' of
          None \<Rightarrow> Inr []
        | Some p \<Rightarrow>
            (case hp_value p of
               None \<Rightarrow> Inl (Syntax VIA_LABEL)
             | Some val \<Rightarrow>
                 (let algorithms = map algorithm_of (split_on (ch CHR '','') val) in
                    if list_ex bad_algorithm algorithms then Inl (Syntax VIA_LABEL)
                    else Inr algorithms)))
       (\<lambda>algorithms.
     bind_res
       (case param (via_params v) ''oc-validity'' of
          None \<Rightarrow> Inr None
        | Some p \<Rightarrow>
            (case hp_value p of
               None \<Rightarrow> Inl (Syntax VIA_LABEL)
             | Some val \<Rightarrow> bind_res (decimal_u64 val) (\<lambda>n. Inr (Some n))))
       (\<lambda>validity.
     bind_res
       (case param (via_params v) ''oc-seq'' of
          None \<Rightarrow> Inr None
        | Some p \<Rightarrow>
            (case hp_value p of
               None \<Rightarrow> Inl (Syntax VIA_LABEL)
             | Some val \<Rightarrow> bind_res (sequence_parse val) (\<lambda>s. Inr (Some s))))
       (\<lambda>sequence.
          Inr \<lparr>vo_oc = oc, vo_algorithms = algorithms, vo_validity = validity,
               vo_sequence = sequence\<rparr>))))"

section \<open>Addresses\<close>

record address =
  ad_display_name :: "bytes option"
  ad_uri :: uri
  ad_params :: "header_param list"

record parsed_address =
  pa_address :: address
  pa_presentation :: "nat \<times> nat"
  pa_uri_span :: "nat \<times> nat"

definition address_tag :: "address \<Rightarrow> bytes option" where
  "address_tag a = param_value (ad_params a) ''tag''"

definition trimmed_range :: "bytes \<Rightarrow> nat \<times> nat" where
  "trimmed_range value =
     (let start = length (takeWhile is_ws value) in (start, start + length (trim value)))"

function find_angle_go :: "nat \<Rightarrow> bytes \<Rightarrow> nat option" where
  "find_angle_go i [] = None"
| "find_angle_go i (b # rest) =
     (if b = 34 then
        (case quoted_end rest of
           None \<Rightarrow> None
         | Some n \<Rightarrow> find_angle_go (i + 1 + n) (drop n rest))
      else if b = ch CHR ''<'' then Some i
      else find_angle_go (i + 1) rest)"
  by pat_completeness auto
termination by (relation "measure (\<lambda>(_, bs). length bs)") auto

definition find_angle :: "bytes \<Rightarrow> nat \<Rightarrow> nat option" where
  "find_angle value from = find_angle_go from (drop from value)"

definition find_closing_angle :: "bytes \<Rightarrow> nat \<Rightarrow> nat option" where
  "find_closing_angle value open' =
     map_option (\<lambda>p. p + open' + 1) (position (\<lambda>b. b = ch CHR ''>'') (drop (open' + 1) value))"

text \<open>The display name of \<open>parse_spanned\<close> and the index where the address proper starts.\<close>

definition parse_display_name ::
  "bytes \<Rightarrow> string \<Rightarrow> nat \<Rightarrow> (header_error, bytes option \<times> nat) result" where
  "parse_display_name value header i =
     (if get_at value i = Some 34 then
        (case quoted_string_end value i of
           None \<Rightarrow> Inl (UnterminatedQuotedString header)
         | Some end' \<Rightarrow>
             (let raw = unwrap_or (get_range value (i + 1) (end' - 1)) [];
                  j = skip_ws value end' in
                if get_at value j \<noteq> Some (ch CHR ''<'') then Inl (Syntax header)
                else Inr (Some (unescape_quoted raw), j)))
      else
        (case find_angle value i of
           None \<Rightarrow> Inr (None, i)
         | Some angle \<Rightarrow>
             (let raw = trim (unwrap_or (get_range value i angle) []) in
                if raw \<noteq> [] \<and> \<not> list_all (\<lambda>b. is_token_char b \<or> is_ws b) raw
                then Inl (Syntax header)
                else Inr (if raw = [] then None else Some raw, angle))))"

text \<open>The URI span, the presentation span and the parameter tail.\<close>

definition address_spans ::
  "bytes \<Rightarrow> string \<Rightarrow> nat \<Rightarrow> nat \<Rightarrow> (header_error, (nat \<times> nat) \<times> (nat \<times> nat) \<times> bytes) result" where
  "address_spans value header presentation_start i =
     (if get_at value i = Some (ch CHR ''<'') then
        (case find_closing_angle value i of
           None \<Rightarrow> Inl (Syntax header)
         | Some close \<Rightarrow>
             Inr ((i + 1, close), (presentation_start, close + 1), drop (close + 1) value))
      else
        (let rest = drop i value;
             param_start = find_param_start rest;
             candidate = (case param_start of Some semi \<Rightarrow> (i, i + semi) | None \<Rightarrow> (i, length value));
             (s, e) = trimmed_range (unwrap_or (get_range value (fst candidate) (snd candidate)) []);
             span = (fst candidate + s, fst candidate + e);
             tail = (case param_start of Some semi \<Rightarrow> drop semi rest | None \<Rightarrow> []) in
           Inr (span, span, tail)))"

definition parse_spanned :: "bytes \<Rightarrow> string \<Rightarrow> (header_error, parsed_address) result" where
  "parse_spanned raw header =
     (let outer = trimmed_range raw;
          value = unwrap_or (get_range raw (fst outer) (snd outer)) [];
          i0 = skip_ws value 0 in
        bind_res (parse_display_name value header i0) (\<lambda>(display_name, i).
        bind_res (address_spans value header i0 i) (\<lambda>(uri_span, presentation_span, params_tail).
          let uri_bytes = unwrap_or (get_range value (fst uri_span) (snd uri_span)) [] in
          if uri_bytes = [] then Inl (Syntax header)
          else if get_at value i \<noteq> Some (ch CHR ''<'') \<and> ch CHR ''?'' \<in> set uri_bytes
          then Inl (Syntax header)
          else
            (case uri_parse uri_bytes of
               Inl source \<Rightarrow> Inl (Header_Uri header source)
             | Inr parsed_uri \<Rightarrow>
                 bind_res (parse_params (trim params_tail) header) (\<lambda>ps.
                   let shift = (\<lambda>(a, b). (fst outer + a, fst outer + b)) in
                   Inr \<lparr>pa_address = \<lparr>ad_display_name = display_name, ad_uri = parsed_uri,
                                     ad_params = ps\<rparr>,
                        pa_presentation = shift presentation_span,
                        pa_uri_span = shift uri_span\<rparr>)))))"

definition address_parse :: "bytes \<Rightarrow> string \<Rightarrow> (header_error, address) result" where
  "address_parse value header = bind_res (parse_spanned value header) (\<lambda>p. Inr (pa_address p))"

definition address_parse_list :: "bytes \<Rightarrow> string \<Rightarrow> (header_error, address list) result" where
  "address_parse_list value header =
     bind_res (split_list value header) (collect_res (\<lambda>part. address_parse part header))"

definition from_decode :: "bytes \<Rightarrow> (header_error, address) result" where
  "from_decode value = address_parse value ''From''"

definition to_decode :: "bytes \<Rightarrow> (header_error, address) result" where
  "to_decode value = address_parse value ''To''"

section \<open>CSeq and the numeric headers\<close>

record cseq =
  cs_sequence :: u32
  cs_method :: sip_method

definition cseq_decode :: "bytes \<Rightarrow> (header_error, cseq) result" where
  "cseq_decode raw =
     (let value = trim raw in
        (case position is_ws value of
           None \<Rightarrow> Inl (Syntax ''CSeq'')
         | Some space \<Rightarrow>
             (let digits = take space value;
                  method_raw = trim (drop (skip_ws value space) value) in
                if method_raw = [] \<or> \<not> list_all is_token_char method_raw then Inl (Syntax ''CSeq'')
                else
                  bind_res (parse_u64 digits ''CSeq'') (\<lambda>sequence.
                    if sequence > 0x7FFFFFFF then Inl (OutOfRange ''CSeq'')
                    else Inr \<lparr>cs_sequence = ucast sequence, cs_method = method_parse method_raw\<rparr>))))"

definition call_id_decode :: "bytes \<Rightarrow> (header_error, bytes) result" where
  "call_id_decode raw =
     (let value = trim raw in if value = [] then Inl (Syntax ''Call-ID'') else Inr value)"

definition max_forwards_decode :: "bytes \<Rightarrow> (header_error, u8) result" where
  "max_forwards_decode raw =
     bind_res (parse_u64 (trim raw) ''Max-Forwards'')
       (\<lambda>n. if unat n < 256 then Inr (ucast n) else Inl (OutOfRange ''Max-Forwards''))"

definition expires_decode :: "bytes \<Rightarrow> (header_error, u32) result" where
  "expires_decode raw =
     bind_res (parse_u64 (trim raw) ''Expires'')
       (\<lambda>n. if unat n < 2 ^ 32 then Inr (ucast n) else Inl (OutOfRange ''Expires''))"

definition content_length_decode :: "bytes \<Rightarrow> (header_error, u64) result" where
  "content_length_decode raw = parse_u64 (trim raw) ''Content-Length''"

end
