(* ===== verification/Sip_Timing.thy ===== *)
theory Sip_Timing
  imports Sip_Message
begin

text \<open>
  Vocabulary of the transaction machines (\<open>transaction/mod.rs\<close>) and their timers
  (\<open>transaction/timing.rs\<close>). A \<open>Duration\<close> is a number of nanoseconds bounded by the largest one
  Rust can represent. Multiplying \<open>T1\<close> by 64 panics above that bound, that is for a \<open>T1\<close> of more
  than nine thousand million years; the model multiplies exactly.

  The contract shared by the client and the server machine is the locale \<open>transaction_machine\<close>:
  the terminated state absorbs every input silently, and \<open>Terminated\<close> is announced exactly when it
  is entered, as the last output.
\<close>

section \<open>Inputs and outputs\<close>

type_synonym duration = nat

definition duration_max :: duration where
  "duration_max = 2 ^ 64 * 1000000000 - 1"

definition from_millis :: "nat \<Rightarrow> duration" where
  "from_millis n = n * 1000000"

definition from_secs :: "nat \<Rightarrow> duration" where
  "from_secs n = n * 1000000000"

definition saturating_mul :: "duration \<Rightarrow> nat \<Rightarrow> duration" where
  "saturating_mul d n = min (d * n) duration_max"

datatype timer =
    Timer_A | Timer_B | Timer_D | Timer_E | Timer_F | Timer_G | Timer_H | Timer_I | Timer_J
  | Timer_K | Timer_L | Timer_M | Trying100

datatype tu_event =
    Tu_Request request
  | Tu_Response response
  | Tu_Ack request
  | Tu_Timeout
  | Tu_TransportError

datatype reason = R_Completed | R_Timeout | R_TransportError

datatype tx_output =
    Send sip_message
  | SetTimer timer duration
  | ClearTimer timer
  | ToTu tu_event
  | Terminated reason

datatype reliability = Reliable | Unreliable

definition is_reliable :: "reliability \<Rightarrow> bool" where
  "is_reliable r \<longleftrightarrow> r = Reliable"

section \<open>Timers\<close>

record timers =
  t1 :: duration
  t2 :: duration
  t4 :: duration

definition default_timers :: timers where
  "default_timers = \<lparr>t1 = from_millis 500, t2 = from_secs 4, t4 = from_secs 5\<rparr>"

definition timeout :: "timers \<Rightarrow> duration" where
  "timeout t = t1 t * 64"

definition timer_d :: "timers \<Rightarrow> reliability \<Rightarrow> duration" where
  "timer_d t r = (if is_reliable r then 0 else max (from_secs 32) (timeout t))"

definition absorb :: "timers \<Rightarrow> reliability \<Rightarrow> duration" where
  "absorb t r = (if is_reliable r then 0 else t4 t)"

definition timer_j :: "timers \<Rightarrow> reliability \<Rightarrow> duration" where
  "timer_j t r = (if is_reliable r then 0 else timeout t)"

definition double :: "timers \<Rightarrow> duration \<Rightarrow> duration" where
  "double t current = saturating_mul current 2"

definition double_capped :: "timers \<Rightarrow> duration \<Rightarrow> duration" where
  "double_capped t current = min (saturating_mul current 2) (t2 t)"

definition trying_100 :: "timers \<Rightarrow> duration" where
  "trying_100 t = from_millis 200"

section \<open>Reading a batch of outputs\<close>

text \<open>\<open>tu_events\<close> and \<open>sent_messages\<close> of \<open>transaction/layer.rs\<close>.\<close>

definition tu_events :: "tx_output list \<Rightarrow> tu_event list" where
  "tu_events outputs = List.map_filter (\<lambda>x. case x of ToTu event \<Rightarrow> Some event | _ \<Rightarrow> None) outputs"

definition sent_messages :: "tx_output list \<Rightarrow> sip_message list" where
  "sent_messages outputs =
     List.map_filter (\<lambda>x. case x of Send message \<Rightarrow> Some message | _ \<Rightarrow> None) outputs"

text \<open>The announcements of the end and the timers a batch arms.\<close>

definition is_terminated_output :: "tx_output \<Rightarrow> bool" where
  "is_terminated_output x = (case x of Terminated _ \<Rightarrow> True | _ \<Rightarrow> False)"

definition armed :: "tx_output list \<Rightarrow> (timer \<times> duration) list" where
  "armed outputs =
     List.map_filter (\<lambda>x. case x of SetTimer timer after \<Rightarrow> Some (timer, after) | _ \<Rightarrow> None) outputs"

lemma map_filter_append:
  "List.map_filter f (xs @ ys) = List.map_filter f xs @ List.map_filter f ys"
  by (simp add: List.map_filter_def)

lemma batch_simps [simp]:
  "tu_events [] = []" "sent_messages [] = []" "armed [] = []"
  "tu_events (xs @ ys) = tu_events xs @ tu_events ys"
  "sent_messages (xs @ ys) = sent_messages xs @ sent_messages ys"
  "armed (xs @ ys) = armed xs @ armed ys"
  by (simp_all add: tu_events_def sent_messages_def armed_def map_filter_append List.map_filter_simps)

lemma batch_Cons [simp]:
  "tu_events (x # xs) = (case x of ToTu e \<Rightarrow> e # tu_events xs | _ \<Rightarrow> tu_events xs)"
  "sent_messages (x # xs) = (case x of Send m \<Rightarrow> m # sent_messages xs | _ \<Rightarrow> sent_messages xs)"
  "armed (x # xs) = (case x of SetTimer t d \<Rightarrow> (t, d) # armed xs | _ \<Rightarrow> armed xs)"
  by (simp_all add: tu_events_def sent_messages_def armed_def List.map_filter_simps split: tx_output.splits)

lemma is_terminated_output_simps [simp]:
  "is_terminated_output (Terminated r)" "\<not> is_terminated_output (Send m)"
  "\<not> is_terminated_output (SetTimer t d)" "\<not> is_terminated_output (ClearTimer t)"
  "\<not> is_terminated_output (ToTu e)"
  by (simp_all add: is_terminated_output_def)

text \<open>
  The timers a driver holds for a transaction: those armed and neither cancelled nor fired.
\<close>

fun pending :: "timer set \<Rightarrow> tx_output list \<Rightarrow> timer set" where
  "pending P [] = P"
| "pending P (SetTimer t d # xs) = pending (insert t P) xs"
| "pending P (ClearTimer t # xs) = pending (P - {t}) xs"
| "pending P (Send m # xs) = pending P xs"
| "pending P (ToTu e # xs) = pending P xs"
| "pending P (Terminated r # xs) = pending P xs"

lemma pending_append [simp]: "pending P (xs @ ys) = pending (pending P xs) ys"
  by (induction P xs rule: pending.induct) simp_all

section \<open>The contract of a transaction machine\<close>

text \<open>
  A run of a machine: the inputs in order, the outputs of all steps one after another.
\<close>

fun run_machine :: "('i \<Rightarrow> 's \<Rightarrow> 's \<times> tx_output list) \<Rightarrow> 'i list \<Rightarrow> 's \<Rightarrow> 's \<times> tx_output list" where
  "run_machine step [] s = (s, [])"
| "run_machine step (i # is) s =
     (case step i s of
        (s1, out1) \<Rightarrow> (case run_machine step is s1 of (s2, out2) \<Rightarrow> (s2, out1 @ out2)))"

text \<open>The end of a transaction is announced once, as the last output, and not before it happens.\<close>

definition announced :: "bool \<Rightarrow> tx_output list \<Rightarrow> bool" where
  "announced over log \<longleftrightarrow>
     (if over then \<exists>front z. log = front @ [Terminated z] \<and> (\<forall>x \<in> set front. \<not> is_terminated_output x)
      else \<forall>x \<in> set log. \<not> is_terminated_output x)"

locale transaction_machine =
  fixes step :: "'i \<Rightarrow> 's \<Rightarrow> 's \<times> tx_output list"
    and ended :: "'s \<Rightarrow> bool"
  assumes ended_absorbs: "ended s \<Longrightarrow> step i s = (s, [])"
    and ends_announced:
      "\<not> ended s \<Longrightarrow> step i s = (s', out) \<Longrightarrow> ended s' \<Longrightarrow>
        \<exists>front r. out = front @ [Terminated r] \<and> armed front = [] \<and> sent_messages front = [] \<and>
          (\<forall>x \<in> set front. \<not> is_terminated_output x)"
    and lives_silent:
      "step i s = (s', out) \<Longrightarrow> \<not> ended s' \<Longrightarrow> \<forall>x \<in> set out. \<not> is_terminated_output x"
begin

lemma run_ended: "ended s \<Longrightarrow> run_machine step is s = (s, [])"
  by (induction "is") (simp_all add: ended_absorbs)

lemma run_append:
  "run_machine step (is @ js) s =
    (case run_machine step is s of
       (s1, out1) \<Rightarrow> (case run_machine step js s1 of (s2, out2) \<Rightarrow> (s2, out1 @ out2)))"
  by (induction "is" arbitrary: s) (auto split: prod.splits)

lemma announced_step:
  assumes "announced (ended s) log" "step i s = (s', out)"
  shows "announced (ended s') (log @ out)"
proof (cases "ended s")
  case True
  with assms ended_absorbs [OF True, of i] show ?thesis by simp
next
  case live: False
  then have quiet: "\<forall>x \<in> set log. \<not> is_terminated_output x"
    using assms(1) by (simp add: announced_def)
  show ?thesis
  proof (cases "ended s'")
    case True
    with ends_announced [OF live assms(2)] obtain front z where
      "log @ out = (log @ front) @ [Terminated z]" "\<forall>x \<in> set (log @ front). \<not> is_terminated_output x"
      using quiet by auto
    with True show ?thesis unfolding announced_def by metis
  next
    case False
    with lives_silent [OF assms(2)] quiet show ?thesis by (auto simp: announced_def)
  qed
qed

lemma run_announces_end:
  assumes "announced (ended s) log" "run_machine step is s = (s', out)"
  shows "announced (ended s') (log @ out)"
  using assms
proof (induction "is" arbitrary: s log out)
  case Nil
  then show ?case by simp
next
  case (Cons i "is")
  obtain s1 out1 where s1: "step i s = (s1, out1)" by (cases "step i s")
  obtain out2 where out2: "run_machine step is s1 = (s', out2)" and out: "out = out1 @ out2"
    using Cons.prems s1 by (auto split: prod.splits)
  show ?case
    using Cons.IH [OF announced_step [OF Cons.prems(1) s1] out2] out by simp
qed

lemma run_silent_after_end:
  assumes "run_machine step is s = (s', out)" "ended s'"
  shows "run_machine step (is @ js) s = (s', out)"
  using assms by (simp add: run_append run_ended)

end

section \<open>Retransmission intervals\<close>

text \<open>The delay of a backoff timer after it fired \<open>k\<close> times.\<close>

lemma double_capped_iterate:
  assumes "0 < k" "t2 t \<le> duration_max"
  shows "(double_capped t ^^ k) d = min (d * 2 ^ k) (t2 t)"
  using assms(1)
proof (induction k rule: nat_induct_non_zero)
  case 1
  then show ?case using assms(2) by (simp add: double_capped_def saturating_mul_def)
next
  case (Suc k)
  then show ?case
    using assms(2) by (simp add: double_capped_def saturating_mul_def mult.assoc)
qed

lemma double_iterate: "d \<le> duration_max \<Longrightarrow> (double t ^^ k) d = min (d * 2 ^ k) duration_max"
  by (induction k) (auto simp: double_def saturating_mul_def mult.assoc)

end
