(* ===== verification/Sip_Client.thy ===== *)
theory Sip_Client
  imports Sip_Timing
begin

text \<open>
  The client transaction (\<open>transaction/client.rs\<close>): the INVITE and the non-INVITE machine of
  RFC 3261 section 17.1 as amended by RFC 6026, and the ACK for a non-2xx final response.
\<close>

section \<open>The machine\<close>

datatype client_state =
    C_Calling | C_Trying | C_Proceeding | C_Completed | C_Accepted | C_Terminated

record client_transaction =
  ct_request :: request
  ct_is_invite :: bool
  ct_state :: client_state
  ct_reliability :: reliability
  ct_timers :: timers
  ct_interval :: duration
  ct_ack :: "request option"

definition client_terminated :: "client_transaction \<Rightarrow> bool" where
  "client_terminated c \<longleftrightarrow> ct_state c = C_Terminated"

definition client_new :: "request \<Rightarrow> reliability \<Rightarrow> timers \<Rightarrow> client_transaction \<times> tx_output list" where
  "client_new r rel t =
     (let is_invite = (rq_method r = INVITE);
          tx = \<lparr>ct_request = r, ct_is_invite = is_invite,
                ct_state = (if is_invite then C_Calling else C_Trying),
                ct_reliability = rel, ct_timers = t, ct_interval = t1 t, ct_ack = None\<rparr> in
        (tx,
         [Send (Request r)] @
         (if is_reliable rel then []
          else [SetTimer (if is_invite then Timer_A else Timer_E) (ct_interval tx)]) @
         [SetTimer (if is_invite then Timer_B else Timer_F) (timeout t)]))"

text \<open>The ACK of RFC 3261 section 17.1.1.3.\<close>

definition cseq_digits :: "request \<Rightarrow> bytes" where
  "cseq_digits r =
     (case headers_value (rq_headers r) H_CSeq of
        None \<Rightarrow> []
      | Some v \<Rightarrow> takeWhile is_ascii_digit v)"

definition optional_header :: "header option \<Rightarrow> headers" where
  "optional_header h = (case h of None \<Rightarrow> [] | Some x \<Rightarrow> [x])"

definition make_ack :: "request \<Rightarrow> response \<Rightarrow> request" where
  "make_ack r rsp =
     (request_new ACK (rq_uri r))\<lparr>rq_headers :=
        optional_header (headers_get (rq_headers r) H_Via) @
        optional_header (headers_get (rq_headers r) H_From) @
        optional_header (headers_get (rs_headers rsp) H_To) @
        optional_header (headers_get (rq_headers r) H_CallId) @
        headers_get_all (rq_headers r) H_Route @
        [header_new_unchecked H_MaxForwards (ascii ''70''),
         header_new_unchecked H_CSeq (cseq_digits r @ ascii '' ACK''),
         header_new_unchecked H_ContentLength (ascii ''0'')]\<rparr>"

definition invite_response :: "client_transaction \<Rightarrow> response \<Rightarrow> client_transaction \<times> tx_output list" where
  "invite_response c rsp =
     (let status = rs_status rsp in
        case ct_state c of
          C_Completed \<Rightarrow>
            (c, (case ct_ack c of None \<Rightarrow> [] | Some ack \<Rightarrow> [Send (Request ack)]))
        | C_Accepted \<Rightarrow> (c, if is_success status then [ToTu (Tu_Response rsp)] else [])
        | C_Trying \<Rightarrow> (c, [])
        | C_Terminated \<Rightarrow> (c, [])
        | _ \<Rightarrow>
            (let from_calling = (ct_state c = C_Calling) in
               if is_provisional status then
                 (c\<lparr>ct_state := C_Proceeding\<rparr>,
                  (if from_calling then [ClearTimer Timer_A, ClearTimer Timer_B] else []) @
                  [ToTu (Tu_Response rsp)])
               else
                 (let clears = (if from_calling then [ClearTimer Timer_A] else []) @ [ClearTimer Timer_B] in
                    if is_success status then
                      (c\<lparr>ct_state := C_Accepted\<rparr>,
                       clears @ [ToTu (Tu_Response rsp), SetTimer Timer_M (timeout (ct_timers c))])
                    else
                      (let ack = make_ack (ct_request c) rsp in
                         (c\<lparr>ct_ack := Some ack, ct_state := C_Completed\<rparr>,
                          clears @
                          [Send (Request ack), ToTu (Tu_Response rsp),
                           SetTimer Timer_D (timer_d (ct_timers c) (ct_reliability c))])))))"

definition non_invite_response :: "client_transaction \<Rightarrow> response \<Rightarrow> client_transaction \<times> tx_output list" where
  "non_invite_response c rsp =
     (if ct_state c = C_Trying \<or> ct_state c = C_Proceeding then
        (if is_provisional (rs_status rsp) then
           (c\<lparr>ct_state := C_Proceeding\<rparr>, [ToTu (Tu_Response rsp)])
         else
           (c\<lparr>ct_state := C_Completed\<rparr>,
            [ClearTimer Timer_E, ClearTimer Timer_F, ToTu (Tu_Response rsp),
             SetTimer Timer_K (absorb (ct_timers c) (ct_reliability c))]))
      else (c, []))"

definition client_on_response :: "client_transaction \<Rightarrow> response \<Rightarrow> client_transaction \<times> tx_output list" where
  "client_on_response c rsp =
     (if ct_is_invite c then invite_response c rsp else non_invite_response c rsp)"

text \<open>Retransmitting the request and arming its timer again.\<close>

definition client_retransmit :: "client_transaction \<Rightarrow> timer \<Rightarrow> duration \<Rightarrow> client_transaction \<times> tx_output list" where
  "client_retransmit c timer interval =
     (c\<lparr>ct_interval := interval\<rparr>, [Send (Request (ct_request c)), SetTimer timer interval])"

definition client_on_timer :: "client_transaction \<Rightarrow> timer \<Rightarrow> client_transaction \<times> tx_output list" where
  "client_on_timer c timer =
     (if ct_state c = C_Calling \<and> timer = Timer_A then
        client_retransmit c Timer_A (double (ct_timers c) (ct_interval c))
      else if ct_state c = C_Trying \<and> timer = Timer_E then
        client_retransmit c Timer_E (double_capped (ct_timers c) (ct_interval c))
      else if ct_state c = C_Proceeding \<and> timer = Timer_E \<and> \<not> ct_is_invite c then
        client_retransmit c Timer_E (t2 (ct_timers c))
      else if ct_state c = C_Calling \<and> timer = Timer_B \<or>
              (ct_state c = C_Trying \<or> ct_state c = C_Proceeding) \<and> timer = Timer_F then
        (c\<lparr>ct_state := C_Terminated\<rparr>, [ToTu Tu_Timeout, Terminated R_Timeout])
      else if ct_state c = C_Completed \<and> (timer = Timer_D \<or> timer = Timer_K) \<or>
              ct_state c = C_Accepted \<and> timer = Timer_M then
        (c\<lparr>ct_state := C_Terminated\<rparr>, [Terminated R_Completed])
      else (c, []))"

definition client_on_transport_error :: "client_transaction \<Rightarrow> client_transaction \<times> tx_output list" where
  "client_on_transport_error c =
     (if client_terminated c then (c, [])
      else (c\<lparr>ct_state := C_Terminated\<rparr>, [ToTu Tu_TransportError, Terminated R_TransportError]))"

section \<open>The machine meets the contract\<close>

datatype client_input = CI_Response response | CI_Timer timer | CI_TransportError

fun client_step :: "client_input \<Rightarrow> client_transaction \<Rightarrow> client_transaction \<times> tx_output list" where
  "client_step (CI_Response rsp) c = client_on_response c rsp"
| "client_step (CI_Timer timer) c = client_on_timer c timer"
| "client_step CI_TransportError c = client_on_transport_error c"

lemmas client_step_defs =
  client_on_response_def invite_response_def non_invite_response_def client_on_timer_def
  client_retransmit_def client_on_transport_error_def client_terminated_def

interpretation client: transaction_machine client_step client_terminated
proof
  fix s s' :: client_transaction and i out
  show "client_step i s = (s, [])" if "client_terminated s"
    using that by (cases i) (simp_all add: client_step_defs)
  show "\<exists>front r. out = front @ [Terminated r] \<and> armed front = [] \<and> sent_messages front = [] \<and>
      (\<forall>x \<in> set front. \<not> is_terminated_output x)"
    if "\<not> client_terminated s" "client_step i s = (s', out)" "client_terminated s'"
  proof -
    have "out = [Terminated R_Completed] \<or> out = [ToTu Tu_Timeout] @ [Terminated R_Timeout] \<or>
        out = [ToTu Tu_TransportError] @ [Terminated R_TransportError]"
      using that
      by (cases i) (auto simp: client_step_defs Let_def split: if_splits client_state.splits)
    then show ?thesis
      by (elim disjE) (force intro: exI [of _ "[]"] exI [of _ "[ToTu Tu_Timeout]"])+
  qed
  show "\<forall>x \<in> set out. \<not> is_terminated_output x"
    if "client_step i s = (s', out)" "\<not> client_terminated s'"
    using that
    by (cases i) (auto simp: client_step_defs Let_def
        split: if_splits client_state.splits option.splits)
qed

section \<open>A driven transaction\<close>

text \<open>
  What a driver does with a client transaction: it starts it, feeds it any responses in any order,
  fires only timers that are pending, and may report a transport failure. \<open>P\<close> are the pending
  timers and \<open>log\<close> all outputs so far.
\<close>

inductive client_driven ::
  "request \<Rightarrow> reliability \<Rightarrow> timers \<Rightarrow> client_transaction \<Rightarrow> timer set \<Rightarrow> tx_output list \<Rightarrow> bool"
  for r rel t where
  start: "client_new r rel t = (c, out) \<Longrightarrow> client_driven r rel t c (pending {} out) out"
| response: "client_driven r rel t c P log \<Longrightarrow> client_on_response c rsp = (c', out) \<Longrightarrow>
    client_driven r rel t c' (pending P out) (log @ out)"
| timer: "client_driven r rel t c P log \<Longrightarrow> x \<in> P \<Longrightarrow> client_on_timer c x = (c', out) \<Longrightarrow>
    client_driven r rel t c' (pending (P - {x}) out) (log @ out)"
| transport_error: "client_driven r rel t c P log \<Longrightarrow> client_on_transport_error c = (c', out) \<Longrightarrow>
    client_driven r rel t c' (pending P out) (log @ out)"

text \<open>The responses handed to the transaction user.\<close>

definition tu_responses :: "tx_output list \<Rightarrow> response list" where
  "tu_responses log =
     List.map_filter (\<lambda>e. case e of Tu_Response rsp \<Rightarrow> Some rsp | _ \<Rightarrow> None) (tu_events log)"

lemma tu_responses_simps [simp]:
  "tu_responses [] = []" "tu_responses (xs @ ys) = tu_responses xs @ tu_responses ys"
  "tu_responses (ToTu e # xs) = (case e of Tu_Response rsp \<Rightarrow> rsp # tu_responses xs | _ \<Rightarrow> tu_responses xs)"
  "tu_responses (Send m # xs) = tu_responses xs" "tu_responses (SetTimer x d # xs) = tu_responses xs"
  "tu_responses (ClearTimer x # xs) = tu_responses xs" "tu_responses (Terminated z # xs) = tu_responses xs"
  by (simp_all add: tu_responses_def map_filter_append List.map_filter_simps split: tu_event.splits)

text \<open>Constant fields, the named states of each machine, and the timers that are pending in them.\<close>

definition client_shape :: "request \<Rightarrow> reliability \<Rightarrow> timers \<Rightarrow> client_transaction \<Rightarrow> bool" where
  "client_shape r rel t c \<longleftrightarrow>
     ct_request c = r \<and> ct_reliability c = rel \<and> ct_timers c = t \<and>
     ct_is_invite c = (rq_method r = INVITE) \<and>
     (if ct_is_invite c then ct_state c \<noteq> C_Trying
      else ct_state c \<noteq> C_Calling \<and> ct_state c \<noteq> C_Accepted)"

definition client_timers_ok :: "client_transaction \<Rightarrow> timer set \<Rightarrow> bool" where
  "client_timers_ok c P \<longleftrightarrow>
     (case ct_state c of
        C_Calling \<Rightarrow> Timer_B \<in> P
      | C_Trying \<Rightarrow> Timer_F \<in> P
      | C_Proceeding \<Rightarrow> ct_is_invite c \<or> Timer_F \<in> P
      | C_Completed \<Rightarrow> (if ct_is_invite c then Timer_D else Timer_K) \<in> P
      | C_Accepted \<Rightarrow> Timer_M \<in> P
      | C_Terminated \<Rightarrow> True) \<and>
     (is_reliable (ct_reliability c) \<longrightarrow> Timer_A \<notin> P \<and> Timer_E \<notin> P)"

lemma client_shape_new: "client_new r rel t = (c, out) \<Longrightarrow> client_shape r rel t c"
  by (auto simp: client_new_def client_shape_def Let_def)

lemma client_shape_step:
  "client_shape r rel t c \<Longrightarrow> client_step i c = (c', out) \<Longrightarrow> client_shape r rel t c'"
  by (cases i) (auto simp: client_shape_def client_step_defs Let_def split: if_splits client_state.splits)

lemma client_driven_shape: "client_driven r rel t c P log \<Longrightarrow> client_shape r rel t c"
proof (induction rule: client_driven.induct)
  case (start c out)
  then show ?case by (rule client_shape_new)
next
  case (response c P log rsp c' out)
  then show ?case using client_shape_step [of r rel t c "CI_Response rsp"] by simp
next
  case (timer c P log x c' out)
  then show ?case using client_shape_step [of r rel t c "CI_Timer x"] by simp
next
  case (transport_error c P log c' out)
  then show ?case using client_shape_step [of r rel t c CI_TransportError] by simp
qed

lemma client_driven_timers: "client_driven r rel t c P log \<Longrightarrow> client_timers_ok c P"
proof (induction rule: client_driven.induct)
  case (start c out)
  then show ?case by (auto simp: client_new_def client_timers_ok_def Let_def)
next
  case (response c P log rsp c' out)
  with client_driven_shape [OF response(1)] show ?case
    by (auto simp: client_shape_def client_timers_ok_def client_step_defs Let_def
        split: if_splits client_state.splits option.splits)
next
  case (timer c P log x c' out)
  with client_driven_shape [OF timer(1)] show ?case
    by (auto simp: client_shape_def client_timers_ok_def client_step_defs
        split: if_splits client_state.splits)
next
  case (transport_error c P log c' out)
  then show ?case
    by (auto simp: client_timers_ok_def client_step_defs split: if_splits)
qed

subsection \<open>What the transaction user sees\<close>

definition provisional_rsp :: "response \<Rightarrow> bool" where
  "provisional_rsp rsp \<longleftrightarrow> is_provisional (rs_status rsp)"

definition rejecting_rsp :: "response \<Rightarrow> bool" where
  "rejecting_rsp rsp \<longleftrightarrow> is_final (rs_status rsp) \<and> \<not> is_success (rs_status rsp)"

text \<open>
  Provisional responses first; then nothing, or one final response, or, for an INVITE, any number
  of 2xx responses.
\<close>

definition answered :: "bool \<Rightarrow> response list \<Rightarrow> bool" where
  "answered invite rs \<longleftrightarrow>
     (\<exists>ps fs. rs = ps @ fs \<and> list_all provisional_rsp ps \<and>
        (fs = [] \<or> (\<exists>f. fs = [f] \<and> is_final (rs_status f)) \<or>
         invite \<and> list_all (\<lambda>f. is_success (rs_status f)) fs))"

definition accepted_rsps :: "response list \<Rightarrow> bool" where
  "accepted_rsps rs \<longleftrightarrow>
     (\<exists>ps fs. rs = ps @ fs \<and> list_all provisional_rsp ps \<and>
        list_all (\<lambda>f. is_success (rs_status f)) fs)"

definition client_view :: "client_transaction \<Rightarrow> response list \<Rightarrow> bool" where
  "client_view c rs =
     (case ct_state c of
        C_Calling \<Rightarrow> rs = []
      | C_Trying \<Rightarrow> rs = []
      | C_Proceeding \<Rightarrow> list_all provisional_rsp rs
      | C_Completed \<Rightarrow>
          (\<exists>ps f. rs = ps @ [f] \<and> list_all provisional_rsp ps \<and> is_final (rs_status f) \<and>
             (ct_is_invite c \<longrightarrow> rejecting_rsp f))
      | C_Accepted \<Rightarrow> accepted_rsps rs
      | C_Terminated \<Rightarrow> answered (ct_is_invite c) rs)"

lemma answered_Nil [simp]: "answered invite []"
  by (simp add: answered_def)

lemma answered_provisional: "list_all provisional_rsp rs \<Longrightarrow> answered invite rs"
  by (auto simp: answered_def)

lemma answered_final:
  "list_all provisional_rsp ps \<Longrightarrow> is_final (rs_status f) \<Longrightarrow> answered invite (ps @ [f])"
  by (auto simp: answered_def)

lemma answered_success: "accepted_rsps rs \<Longrightarrow> answered True rs"
  by (auto simp: answered_def accepted_rsps_def)

lemma accepted_rsps_provisional: "list_all provisional_rsp rs \<Longrightarrow> accepted_rsps rs"
  unfolding accepted_rsps_def by (intro exI [of _ rs] exI [of _ "[]"]) simp

lemma accepted_rsps_snoc:
  assumes "accepted_rsps rs" "is_success (rs_status rsp)"
  shows "accepted_rsps (rs @ [rsp])"
proof -
  obtain ps fs where "rs = ps @ fs" "list_all provisional_rsp ps"
    "list_all (\<lambda>f. is_success (rs_status f)) fs"
    using assms(1) by (auto simp: accepted_rsps_def)
  with assms(2) show ?thesis
    unfolding accepted_rsps_def by (intro exI [of _ ps] exI [of _ "fs @ [rsp]"]) simp
qed

lemma accepted_rsps_one: "is_success (rs_status rsp) \<Longrightarrow> accepted_rsps [rsp]"
  using accepted_rsps_snoc [of "[]" rsp] accepted_rsps_provisional [of "[]"] by simp

lemma client_view_cong:
  "ct_state c' = ct_state c \<Longrightarrow> ct_is_invite c' = ct_is_invite c \<Longrightarrow> client_view c' rs = client_view c rs"
  by (simp add: client_view_def split: client_state.split)

lemma client_view_answered:
  assumes "client_shape r rel t c" "client_view c rs"
  shows "answered (ct_is_invite c) rs"
  using assms
  by (auto simp: client_view_def client_shape_def
      split: client_state.splits if_splits
      intro: answered_provisional answered_final answered_success)

lemma client_view_ends:
  assumes "client_shape r rel t c" "client_view c rs"
  shows "client_view (c\<lparr>ct_state := C_Terminated\<rparr>) rs"
  using client_view_answered [OF assms] by (simp add: client_view_def)

lemma client_view_response:
  assumes "client_shape r rel t c" "client_view c rs" "client_on_response c rsp = (c', out)"
  shows "client_view c' (rs @ tu_responses out)"
proof (cases "ct_state c")
  case C_Accepted
  with assms show ?thesis
    by (auto simp: client_view_def client_shape_def client_step_defs
        split: if_splits intro: accepted_rsps_snoc)
next
  case C_Completed
  with assms show ?thesis
    by (auto simp: client_view_def client_shape_def client_step_defs split: if_splits option.splits)
next
  case C_Terminated
  with assms show ?thesis
    by (auto simp: client_view_def client_shape_def client_step_defs split: if_splits)
next
  case C_Calling
  with assms show ?thesis
    by (auto simp: client_view_def client_shape_def client_step_defs Let_def provisional_rsp_def
        is_final_def rejecting_rsp_def split: if_splits
        intro!: exI [of _ "[]"] accepted_rsps_one)
next
  case C_Trying
  with assms show ?thesis
    by (auto simp: client_view_def client_shape_def client_step_defs Let_def provisional_rsp_def
        is_final_def rejecting_rsp_def split: if_splits
        intro!: exI [of _ "[]"] accepted_rsps_one)
next
  case C_Proceeding
  with assms show ?thesis
    by (auto simp: client_view_def client_shape_def client_step_defs Let_def provisional_rsp_def
        is_final_def rejecting_rsp_def split: if_splits
        intro!: exI [of _ rs] accepted_rsps_snoc intro: accepted_rsps_provisional)
qed

lemma client_view_timer:
  assumes "client_shape r rel t c" "client_view c rs" "client_on_timer c x = (c', out)"
  shows "client_view c' (rs @ tu_responses out)"
proof -
  have "c' = c\<lparr>ct_state := C_Terminated\<rparr> \<or> ct_state c' = ct_state c \<and> ct_is_invite c' = ct_is_invite c"
    and "tu_responses out = []"
    using assms(3) by (auto simp: client_step_defs split: if_splits)
  then show ?thesis
    using client_view_ends [OF assms(1,2)] assms(2)
    by (elim disjE conjE) (simp_all add: client_view_cong [of c' c])
qed

lemma client_driven_view: "client_driven r rel t c P log \<Longrightarrow> client_view c (tu_responses log)"
proof (induction rule: client_driven.induct)
  case (start c out)
  then show ?case by (auto simp: client_new_def client_view_def Let_def)
next
  case (response c P log rsp c' out)
  then show ?case
    using client_view_response [OF client_driven_shape [OF response(1)]] by simp
next
  case (timer c P log x c' out)
  then show ?case
    using client_view_timer [OF client_driven_shape [OF timer(1)]] by simp
next
  case (transport_error c P log c' out)
  then show ?case
    using client_view_ends [OF client_driven_shape [OF transport_error(1)]]
    by (auto simp: client_step_defs split: if_splits)
qed

subsection \<open>What goes on the wire\<close>

text \<open>
  Copies of the request, then copies of one ACK, which answers the rejecting response the
  transaction user was given.
\<close>

definition acks_match :: "bool \<Rightarrow> request \<Rightarrow> response list \<Rightarrow> nat \<Rightarrow> request \<Rightarrow> bool" where
  "acks_match invite r rs m ack \<longleftrightarrow>
     (if m = 0 then \<not> (invite \<and> (\<exists>f \<in> set rs. rejecting_rsp f))
      else invite \<and> (\<exists>f \<in> set rs. rejecting_rsp f \<and> ack = make_ack r f))"

definition client_wire_at ::
  "client_transaction \<Rightarrow> sip_message list \<Rightarrow> response list \<Rightarrow> nat \<Rightarrow> nat \<Rightarrow> request \<Rightarrow> bool" where
  "client_wire_at c sent rs n m ack \<longleftrightarrow>
     sent = replicate (Suc n) (Request (ct_request c)) @ replicate m (Request ack) \<and>
     (is_reliable (ct_reliability c) \<longrightarrow> n = 0) \<and>
     acks_match (ct_is_invite c) (ct_request c) rs m ack \<and>
     (ct_state c \<in> {C_Calling, C_Trying, C_Proceeding, C_Accepted} \<longrightarrow> m = 0) \<and>
     (ct_state c = C_Completed \<longrightarrow> ct_is_invite c \<longrightarrow> ct_ack c = Some ack \<and> m \<noteq> 0)"

lemma rejecting_rsp_iff:
  "rejecting_rsp f \<longleftrightarrow> \<not> is_provisional (rs_status f) \<and> \<not> is_success (rs_status f)"
  by (simp add: rejecting_rsp_def is_final_def)

lemma acks_match_step:
  "acks_match invite r rs m ack \<Longrightarrow> invite \<longrightarrow> \<not> (\<exists>f \<in> set rs'. rejecting_rsp f) \<Longrightarrow>
    acks_match invite r (rs @ rs') m ack"
  "acks_match invite r rs m ack \<Longrightarrow> m \<noteq> 0 \<Longrightarrow> acks_match invite r rs (Suc m) ack"
  "rejecting_rsp rsp \<Longrightarrow> acks_match True r (rs @ [rsp]) (Suc 0) (make_ack r rsp)"
  by (auto simp: acks_match_def split: if_splits)

lemma client_wire_ends:
  "client_wire_at c sent rs n m ack \<Longrightarrow> c' = c \<or> c' = c\<lparr>ct_state := C_Terminated\<rparr> \<Longrightarrow>
    client_wire_at c' sent rs n m ack"
  by (elim disjE) (simp_all add: client_wire_at_def)

lemma client_wire_response:
  assumes "client_shape r rel t c" "client_wire_at c sent rs n m ack"
    "client_on_response c rsp = (c', out)"
  shows "\<exists>n m ack. client_wire_at c' (sent @ sent_messages out) (rs @ tu_responses out) n m ack"
proof (cases "ct_state c \<in> {C_Calling, C_Proceeding} \<and> ct_is_invite c \<and> rejecting_rsp rsp")
  case True
  then have "c' = c\<lparr>ct_ack := Some (make_ack (ct_request c) rsp), ct_state := C_Completed\<rparr>"
    "sent_messages out = [Request (make_ack (ct_request c) rsp)]" "tu_responses out = [rsp]"
    using assms(3) by (auto simp: client_step_defs Let_def rejecting_rsp_iff)
  moreover have "m = 0"
    using True assms(2) by (auto simp: client_wire_at_def)
  ultimately have "client_wire_at c' (sent @ sent_messages out) (rs @ tu_responses out) n 1
      (make_ack (ct_request c) rsp)"
    using True assms(2) unfolding client_wire_at_def by (simp add: acks_match_step)
  then show ?thesis by blast
next
  case outer: False
  show ?thesis
  proof (cases "ct_state c = C_Completed \<and> ct_is_invite c")
    case True
    then have "ct_ack c = Some ack" "m \<noteq> 0"
      using assms(2) by (simp_all add: client_wire_at_def)
    with True assms(3) have "c' = c" "out = [Send (Request ack)]"
      by (simp_all add: client_step_defs)
    with True assms(2) have "client_wire_at c' (sent @ sent_messages out) (rs @ tu_responses out) n (Suc m) ack"
      unfolding client_wire_at_def by (simp add: replicate_append_same acks_match_step)
    then show ?thesis by blast
  next
    case False
    have "ct_request c' = ct_request c \<and> ct_reliability c' = ct_reliability c \<and>
        ct_is_invite c' = ct_is_invite c \<and> ct_ack c' = ct_ack c"
      and "sent_messages out = []" and "ct_is_invite c \<longrightarrow> \<not> (\<exists>f \<in> set (tu_responses out). rejecting_rsp f)"
      and "ct_state c' = ct_state c \<or>
        ct_state c \<in> {C_Calling, C_Trying, C_Proceeding} \<and> (ct_is_invite c \<longrightarrow> ct_state c' \<noteq> C_Completed)"
      using False outer assms(1,3)
      by (auto simp: client_shape_def client_step_defs Let_def rejecting_rsp_iff
          split: if_splits client_state.splits)
    with False assms(2) have "client_wire_at c' (sent @ sent_messages out) (rs @ tu_responses out) n m ack"
      unfolding client_wire_at_def by (auto simp: acks_match_step)
    then show ?thesis by blast
  qed
qed

lemma client_wire_timer:
  assumes "client_timers_ok c P" "x \<in> P" "client_wire_at c sent rs n m ack"
    "client_on_timer c x = (c', out)"
  shows "\<exists>n m ack. client_wire_at c' (sent @ sent_messages out) (rs @ tu_responses out) n m ack"
proof (cases "sent_messages out = []")
  case True
  then have "c' = c \<or> c' = c\<lparr>ct_state := C_Terminated\<rparr>" "tu_responses out = []"
    using assms(4) by (auto simp: client_step_defs split: if_splits)
  with True assms(3) have "client_wire_at c' (sent @ sent_messages out) (rs @ tu_responses out) n m ack"
    using client_wire_ends by simp
  then show ?thesis by blast
next
  case False
  then obtain i where "c' = c\<lparr>ct_interval := i\<rparr>" and out: "out = [Send (Request (ct_request c)), SetTimer x i]"
    and x: "x = Timer_A \<or> x = Timer_E" and s: "ct_state c \<in> {C_Calling, C_Trying, C_Proceeding}"
    using assms(4) by (auto simp: client_step_defs split: if_splits)
  moreover have "\<not> is_reliable (ct_reliability c)"
    using assms(1,2) x by (auto simp: client_timers_ok_def)
  moreover have "m = 0"
    using assms(3) s by (auto simp: client_wire_at_def)
  ultimately have "client_wire_at c' (sent @ sent_messages out) (rs @ tu_responses out) (Suc n) 0 ack"
    using assms(3) s unfolding client_wire_at_def by (simp add: replicate_append_same)
  then show ?thesis by blast
qed

lemma client_driven_wire:
  "client_driven r rel t c P log \<Longrightarrow>
    \<exists>n m ack. client_wire_at c (sent_messages log) (tu_responses log) n m ack"
proof (induction rule: client_driven.induct)
  case (start c out)
  then have "client_wire_at c (sent_messages out) (tu_responses out) 0 0 (ct_request c)"
    by (auto simp: client_new_def client_wire_at_def acks_match_def Let_def split: if_splits)
  then show ?case by blast
next
  case (response c P log rsp c' out)
  then show ?case
    using client_wire_response [OF client_driven_shape [OF response(1)]] by auto
next
  case (timer c P log x c' out)
  then show ?case
    using client_wire_timer [OF client_driven_timers [OF timer(1)] timer(2)] by auto
next
  case (transport_error c P log c' out)
  then obtain n m ack where "client_wire_at c (sent_messages log) (tu_responses log) n m ack" by blast
  moreover have "c' = c \<or> c' = c\<lparr>ct_state := C_Terminated\<rparr>" "tu_responses out = []" "sent_messages out = []"
    using transport_error(2) by (auto simp: client_step_defs split: if_splits)
  ultimately have "client_wire_at c' (sent_messages (log @ out)) (tu_responses (log @ out)) n m ack"
    using client_wire_ends by simp
  then show ?case by blast
qed

text \<open>An INVITE over UDP answered \<open>486\<close>, driven for one step.\<close>

definition sample_invite :: request where
  "sample_invite = request_new INVITE (uri_sip (Name (ascii ''a'')))"

definition sample_busy :: response where
  "sample_busy = response_new (StatusCode 486) []"

definition sample_calling :: "client_transaction \<times> tx_output list" where
  "sample_calling = client_new sample_invite Unreliable default_timers"

definition sample_rejected :: "client_transaction \<times> tx_output list" where
  "sample_rejected = client_on_response (fst sample_calling) sample_busy"

lemma sample_driven:
  "client_driven sample_invite Unreliable default_timers (fst sample_calling)
    (pending {} (snd sample_calling)) (snd sample_calling)"
  "client_driven sample_invite Unreliable default_timers (fst sample_rejected)
    (pending (pending {} (snd sample_calling)) (snd sample_rejected))
    (snd sample_calling @ snd sample_rejected)"
proof -
  show calling: "client_driven sample_invite Unreliable default_timers (fst sample_calling)
    (pending {} (snd sample_calling)) (snd sample_calling)"
    by (rule client_driven.start) (simp add: sample_calling_def)
  show "client_driven sample_invite Unreliable default_timers (fst sample_rejected)
    (pending (pending {} (snd sample_calling)) (snd sample_rejected))
    (snd sample_calling @ snd sample_rejected)"
    by (rule client_driven.response [OF calling, of sample_busy]) (simp add: sample_rejected_def)
qed

lemmas sample_client_defs = sample_calling_def sample_rejected_def sample_invite_def sample_busy_def
  request_new_def response_new_def client_new_def client_step_defs is_reliable_def Let_def

lemma sample_statuses:
  "\<not> is_provisional (StatusCode 486)" "\<not> is_success (StatusCode 486)"
  by (simp_all add: is_provisional_def is_success_def status_class_def)

lemma sample_rejected_eval:
  "tu_responses (snd sample_calling @ snd sample_rejected) = [sample_busy]"
  "\<not> client_terminated (fst sample_rejected)" "ct_state (fst sample_rejected) = C_Completed"
  by (simp_all add: sample_client_defs sample_statuses)

section \<open>Properties\<close>

text \<open>
  C36: What the transaction user is told. However responses, pending timers and transport errors
  interleave, the responses handed up are provisional ones first and then, for a non-INVITE, at
  most one final response; for an INVITE at most one rejection or any number of 2xx responses,
  never both. The end of the transaction is announced exactly once, as the last output of all,
  and nothing comes after it.
\<close>

theorem client_answers_once:
  assumes "client_driven r rel t c P log"
  shows "answered (rq_method r = INVITE) (tu_responses log) \<and> announced (client_terminated c) log"
proof
  note shape = client_driven_shape [OF assms]
  show "answered (rq_method r = INVITE) (tu_responses log)"
    using client_view_answered [OF shape client_driven_view [OF assms]] shape
    by (simp add: client_shape_def)
  show "announced (client_terminated c) log"
    using assms
  proof (induction rule: client_driven.induct)
    case (start c out)
    then show ?case
      by (auto simp: client_new_def client_terminated_def announced_def Let_def split: if_splits)
  next
    case (response c P log rsp c' out)
    then show ?case using client.announced_step [of c log "CI_Response rsp"] by simp
  next
    case (timer c P log x c' out)
    then show ?case using client.announced_step [of c log "CI_Timer x"] by simp
  next
    case (transport_error c P log c' out)
    then show ?case using client.announced_step [of c log CI_TransportError] by simp
  qed
qed

theorem client_answers_once_witness:
  "answered True [sample_busy] \<and> announced False (snd sample_calling @ snd sample_rejected)"
  using client_answers_once [OF sample_driven(2)] sample_rejected_eval
  by (simp add: sample_invite_def request_new_def)

text \<open>
  What a client transaction puts on the wire. First copies of the request, just one on a
  reliable transport; then, for an INVITE whose rejection was handed up and for no other
  transaction, one or more copies of one and the same ACK, the one built from that rejection.
  A 2xx is never acknowledged by the transaction.
\<close>

theorem client_sends:
  assumes "client_driven r rel t c P log"
  shows "\<exists>n m ack. sent_messages log = replicate (Suc n) (Request r) @ replicate m (Request ack) \<and>
      (is_reliable rel \<longrightarrow> n = 0) \<and>
      (m \<noteq> 0 \<longleftrightarrow> rq_method r = INVITE \<and> (\<exists>f \<in> set (tu_responses log). rejecting_rsp f)) \<and>
      (m \<noteq> 0 \<longrightarrow> (\<exists>f \<in> set (tu_responses log). rejecting_rsp f \<and> ack = make_ack r f))"
proof -
  obtain n m ack where w: "client_wire_at c (sent_messages log) (tu_responses log) n m ack"
    using client_driven_wire [OF assms] by blast
  have "ct_request c = r" "ct_reliability c = rel" "ct_is_invite c = (rq_method r = INVITE)"
    using client_driven_shape [OF assms] by (simp_all add: client_shape_def)
  with w have "sent_messages log = replicate (Suc n) (Request r) @ replicate m (Request ack)"
    "is_reliable rel \<longrightarrow> n = 0" "acks_match (rq_method r = INVITE) r (tu_responses log) m ack"
    by (simp_all add: client_wire_at_def)
  then show ?thesis
    by (intro exI [of _ n] exI [of _ m] exI [of _ ack]) (auto simp: acks_match_def split: if_splits)
qed

theorem client_sends_witness:
  "\<exists>n m. sent_messages (snd sample_calling @ snd sample_rejected) =
     replicate (Suc n) (Request sample_invite) @
     replicate (Suc m) (Request (make_ack sample_invite sample_busy))"
proof -
  have "rejecting_rsp sample_busy" "rq_method sample_invite = INVITE"
    by (simp_all add: rejecting_rsp_iff sample_busy_def sample_invite_def response_new_def
        request_new_def sample_statuses)
  with client_sends [OF sample_driven(2), unfolded sample_rejected_eval] obtain n m ack where
    "sent_messages (snd sample_calling @ snd sample_rejected) =
      replicate (Suc n) (Request sample_invite) @ replicate m (Request ack)"
    "m \<noteq> 0" "ack = make_ack sample_invite sample_busy"
    by auto
  then show ?thesis by (metis not0_implies_Suc)
qed

text \<open>
  No client transaction waits for ever. In every reachable state that is not the end, except
  an INVITE that has heard a provisional response (which by RFC 3261 has no timeout of its own),
  a timer is pending whose firing ends the transaction.
\<close>

theorem client_will_end:
  assumes "client_driven r rel t c P log" "\<not> client_terminated c"
    "\<not> (rq_method r = INVITE \<and> ct_state c = C_Proceeding)"
  shows "\<exists>x \<in> P. client_terminated (fst (client_on_timer c x))"
proof -
  have shape: "client_shape r rel t c" and timers: "client_timers_ok c P"
    using assms(1) by (rule client_driven_shape client_driven_timers)+
  define x where "x = (case ct_state c of C_Calling \<Rightarrow> Timer_B | C_Accepted \<Rightarrow> Timer_M
    | C_Completed \<Rightarrow> (if ct_is_invite c then Timer_D else Timer_K) | _ \<Rightarrow> Timer_F)"
  have "x \<in> P" "client_terminated (fst (client_on_timer c x))"
    using shape timers assms(2,3)
    by (cases "ct_state c"; auto simp: x_def client_timers_ok_def client_shape_def client_step_defs
        split: if_splits)+
  then show ?thesis by blast
qed

theorem client_will_end_witness:
  "\<exists>x \<in> pending (pending {} (snd sample_calling)) (snd sample_rejected).
     client_terminated (fst (client_on_timer (fst sample_rejected) x))"
  by (rule client_will_end [OF sample_driven(2)]) (simp_all add: sample_rejected_eval)

end
