(* ===== verification/Sip_Key.thy ===== *)
theory Sip_Key
  imports Sip_Headers Sip_Client
begin

text \<open>
  Transaction matching keys (\<open>transaction/key.rs\<close>): RFC 3261 matching by branch, and the RFC 2543
  fallback for senders whose branch lacks the magic cookie.
\<close>

section \<open>Keys\<close>

datatype transaction_key =
    Rfc3261 (key_branch: bytes) (key_sent_by: bytes) (key_method: bytes)
  | Legacy (key_request_uri: bytes) (key_top_via: bytes) (key_from_tag: bytes) (key_to_tag: bytes)
      (key_call_id: bytes) (key_cseq: u32) (key_method: bytes)

definition match_method :: "sip_method \<Rightarrow> bytes" where
  "match_method m = (case m of ACK \<Rightarrow> method_bytes INVITE | other \<Rightarrow> method_bytes other)"

definition sent_by :: "via \<Rightarrow> bytes" where
  "sent_by v =
     to_ascii_lowercase (host_to_bytes (via_host v)) @
     (case via_port v of None \<Rightarrow> [] | Some port \<Rightarrow> ch CHR '':'' # decimal (unat port))"

text \<open>\<open>headers.typed::<H>()\<close> where a malformed value counts as absent: \<open>?.ok()?\<close>.\<close>

definition typed_ok :: "header_name \<Rightarrow> (bytes \<Rightarrow> (header_error, 'a) result) \<Rightarrow> headers \<Rightarrow> 'a option" where
  "typed_ok n decode hs = (case typed n decode hs of Some (Inr v) \<Rightarrow> Some v | _ \<Rightarrow> None)"

definition top_via :: "headers \<Rightarrow> bytes" where
  "top_via hs = unwrap_or (headers_value hs H_Via) []"

definition from_tag :: "headers \<Rightarrow> bytes" where
  "from_tag hs = unwrap_or (Option.bind (typed_ok H_From from_decode hs) address_tag) []"

definition to_tag :: "headers \<Rightarrow> bytes" where
  "to_tag hs = unwrap_or (Option.bind (typed_ok H_To to_decode hs) address_tag) []"

definition call_id :: "headers \<Rightarrow> bytes" where
  "call_id hs = unwrap_or (headers_value hs H_CallId) []"

definition legacy_client :: "headers \<Rightarrow> u32 \<Rightarrow> bytes \<Rightarrow> transaction_key" where
  "legacy_client hs cseq m = Legacy [] (top_via hs) (from_tag hs) [] (call_id hs) cseq m"

text \<open>The RFC 3261 key of a message: the branch is read again, so its absence gives no key.\<close>

definition rfc3261_key :: "via \<Rightarrow> bytes \<Rightarrow> transaction_key option" where
  "rfc3261_key v m = map_option (\<lambda>b. Rfc3261 b (sent_by v) m) (via_branch v)"

definition from_request :: "request \<Rightarrow> transaction_key option" where
  "from_request r =
     (case typed_ok H_Via via_decode (rq_headers r) of
        None \<Rightarrow> None
      | Some v \<Rightarrow>
          (let m = match_method (rq_method r) in
             if has_rfc3261_branch v then rfc3261_key v m
             else
               (case typed_ok H_CSeq cseq_decode (rq_headers r) of
                  None \<Rightarrow> None
                | Some cs \<Rightarrow>
                    Some (Legacy (uri_to_bytes (rq_uri r)) (top_via (rq_headers r))
                      (from_tag (rq_headers r)) (to_tag (rq_headers r)) (call_id (rq_headers r))
                      (cs_sequence cs) m))))"

definition from_sent_request :: "request \<Rightarrow> transaction_key option" where
  "from_sent_request r =
     (case typed_ok H_Via via_decode (rq_headers r) of
        None \<Rightarrow> None
      | Some v \<Rightarrow>
          (let m = match_method (rq_method r) in
             if has_rfc3261_branch v then rfc3261_key v m
             else
               (case typed_ok H_CSeq cseq_decode (rq_headers r) of
                  None \<Rightarrow> None
                | Some cs \<Rightarrow> Some (legacy_client (rq_headers r) (cs_sequence cs) m))))"

definition from_response :: "response \<Rightarrow> transaction_key option" where
  "from_response rsp =
     (case typed_ok H_Via via_decode (rs_headers rsp) of
        None \<Rightarrow> None
      | Some v \<Rightarrow>
          (case typed_ok H_CSeq cseq_decode (rs_headers rsp) of
             None \<Rightarrow> None
           | Some cs \<Rightarrow>
               (let m = match_method (cs_method cs) in
                  if has_rfc3261_branch v then rfc3261_key v m
                  else Some (legacy_client (rs_headers rsp) (cs_sequence cs) m))))"

definition for_cancelled_invite :: "request \<Rightarrow> transaction_key option" where
  "for_cancelled_invite r =
     (if rq_method r \<noteq> CANCEL then None
      else
        (case from_request r of
           None \<Rightarrow> None
         | Some key \<Rightarrow>
             Some (case key of
                     Rfc3261 b sb _ \<Rightarrow> Rfc3261 b sb (method_bytes INVITE)
                   | Legacy u v f t c n _ \<Rightarrow> Legacy u v f t c n (method_bytes INVITE))))"

definition is_legacy :: "transaction_key \<Rightarrow> bool" where
  "is_legacy key = (case key of Legacy _ _ _ _ _ _ _ \<Rightarrow> True | _ \<Rightarrow> False)"

section \<open>Reading headers\<close>

lemma other_name_known [simp]:
  "other_name H_Via = None" "other_name H_From = None" "other_name H_To = None"
  "other_name H_CallId = None" "other_name H_CSeq = None" "other_name H_Route = None"
  "other_name H_MaxForwards = None" "other_name H_ContentLength = None"
  by (simp_all add: other_name_def)

lemma header_name_eq_known [simp]: "other_name n = None \<Longrightarrow> header_name_eq x n \<longleftrightarrow> x = n"
  by (auto simp: header_name_eq_def split: option.splits)

lemma headers_get_Nil [simp]: "headers_get [] n = None"
  by (simp add: headers_get_def)

lemma headers_get_Cons [simp]:
  "headers_get (h # hs) n = (if header_name_eq (hd_name h) n then Some h else headers_get hs n)"
  by (simp add: headers_get_def)

lemma headers_get_append [simp]:
  "headers_get (xs @ ys) n = (case headers_get xs n of Some h \<Rightarrow> Some h | None \<Rightarrow> headers_get ys n)"
  by (induction xs) simp_all

lemma headers_get_name: "headers_get hs n = Some h \<Longrightarrow> header_name_eq (hd_name h) n"
  by (auto simp: headers_get_def find_Some_iff)

lemma headers_get_all_get:
  "headers_get (headers_get_all hs n) m =
    (if other_name n = None \<and> other_name m = None \<and> n \<noteq> m then None
     else headers_get (headers_get_all hs n) m)"
  by (auto simp: headers_get_all_def headers_get_def find_None_iff)

lemma headers_get_all_same: "headers_get (headers_get_all hs n) n = headers_get hs n"
  by (induction hs) (simp_all add: headers_get_all_def)

lemma typed_cong: "headers_get hs n = headers_get hs' n \<Longrightarrow> typed_ok n decode hs = typed_ok n decode hs'"
  by (simp add: typed_ok_def typed_def)

lemma headers_value_cong: "headers_get hs n = headers_get hs' n \<Longrightarrow> headers_value hs n = headers_value hs' n"
  by (simp add: headers_value_def)

text \<open>A method is one the parser produces when no known spelling hides in \<open>Method_Other\<close>.\<close>

definition proper_method :: "sip_method \<Rightarrow> bool" where
  "proper_method m \<longleftrightarrow> method_parse (method_bytes m) = m"

lemma method_parse_bytes: "method_bytes (method_parse raw) = raw"
  by (simp add: method_parse_def method_bytes_def)

lemma proper_method_parse [simp]: "proper_method (method_parse raw)"
  by (simp add: proper_method_def method_parse_bytes)

lemma method_bytes_inject:
  "proper_method m \<Longrightarrow> proper_method m' \<Longrightarrow> method_bytes m = method_bytes m' \<longleftrightarrow> m = m'"
  by (metis proper_method_def)

section \<open>Keys that must agree\<close>

lemma response_key_agrees:
  assumes same: "\<And>n. n \<in> {H_Via, H_From, H_CallId, H_CSeq} \<Longrightarrow>
      headers_get (rs_headers rsp) n = headers_get (rq_headers r) n"
    and cs: "typed_ok H_CSeq cseq_decode (rq_headers r) = Some cs" "cs_method cs = rq_method r"
  shows "from_response rsp = from_sent_request r"
proof -
  have eqs: "headers_value (rs_headers rsp) n = headers_value (rq_headers r) n"
    if "n \<in> {H_Via, H_From, H_CallId, H_CSeq}" for n
    by (rule headers_value_cong, rule same, rule that)
  have "typed_ok H_Via via_decode (rs_headers rsp) = typed_ok H_Via via_decode (rq_headers r)"
    "typed_ok H_CSeq cseq_decode (rs_headers rsp) = typed_ok H_CSeq cseq_decode (rq_headers r)"
    "typed_ok H_From from_decode (rs_headers rsp) = typed_ok H_From from_decode (rq_headers r)"
    by (rule typed_cong, rule same, simp)+
  moreover have "top_via (rs_headers rsp) = top_via (rq_headers r)"
    "call_id (rs_headers rsp) = call_id (rq_headers r)"
    by (simp_all add: top_via_def call_id_def eqs)
  ultimately show ?thesis
    by (simp add: from_response_def from_sent_request_def legacy_client_def from_tag_def cs Let_def
        split: option.split)
qed

text \<open>The headers an ACK shares with its INVITE, and the one it takes from the response.\<close>

lemma make_ack_headers:
  "headers_get (rq_headers (make_ack r rsp)) H_Via = headers_get (rq_headers r) H_Via"
  "headers_get (rq_headers (make_ack r rsp)) H_From = headers_get (rq_headers r) H_From"
  "headers_get (rq_headers (make_ack r rsp)) H_To = headers_get (rs_headers rsp) H_To"
  "headers_get (rq_headers (make_ack r rsp)) H_CallId = headers_get (rq_headers r) H_CallId"
proof -
  have opt: "headers_get (optional_header (headers_get hs m)) n =
      (if n = m then headers_get hs m else None)"
    if "other_name n = None" "other_name m = None" for hs n m
    using that headers_get_name [of hs m]
    by (auto simp: optional_header_def split: option.splits)
  have route: "headers_get (headers_get_all hs H_Route) n = None"
    if "other_name n = None" "n \<noteq> H_Route" for hs n
    using that headers_get_all_get [of hs H_Route n] by simp
  show
    "headers_get (rq_headers (make_ack r rsp)) H_Via = headers_get (rq_headers r) H_Via"
    "headers_get (rq_headers (make_ack r rsp)) H_From = headers_get (rq_headers r) H_From"
    "headers_get (rq_headers (make_ack r rsp)) H_To = headers_get (rs_headers rsp) H_To"
    "headers_get (rq_headers (make_ack r rsp)) H_CallId = headers_get (rq_headers r) H_CallId"
    by (simp_all add: make_ack_def opt route header_new_unchecked_def split: option.split)
qed

lemma make_ack_key:
  assumes "rq_method r = INVITE" "from_request r = Some key" "\<not> is_legacy key"
  shows "from_request (make_ack r rsp) = Some key"
proof -
  have via: "typed_ok H_Via via_decode (rq_headers (make_ack r rsp)) =
      typed_ok H_Via via_decode (rq_headers r)"
    by (rule typed_cong) (rule make_ack_headers)
  have "rq_method (make_ack r rsp) = ACK"
    by (simp add: make_ack_def request_new_def)
  with assms show ?thesis
    by (auto simp: from_request_def via match_method_def is_legacy_def Let_def
        split: option.splits if_splits)
qed

lemma make_ack_legacy_key:
  assumes "from_request r = Some key" "is_legacy key" "to_tag (rs_headers rsp) \<noteq> to_tag (rq_headers r)"
  shows "from_request (make_ack r rsp) \<noteq> Some key"
proof -
  have "to_tag (rq_headers (make_ack r rsp)) = to_tag (rs_headers rsp)"
    unfolding to_tag_def by (simp add: typed_cong [OF make_ack_headers(3) [of r rsp]])
  moreover have "key_to_tag key = to_tag (rq_headers r)"
    using assms(1,2) by (auto simp: from_request_def rfc3261_key_def is_legacy_def Let_def
        split: option.splits if_splits)
  moreover have "key_to_tag k = to_tag (rq_headers (make_ack r rsp))"
    if "from_request (make_ack r rsp) = Some k" "is_legacy k" for k
    using that by (auto simp: from_request_def rfc3261_key_def is_legacy_def Let_def
        split: option.splits if_splits)
  ultimately show ?thesis
    using assms(2,3) by auto
qed

text \<open>A CANCEL names its INVITE by \<open>for_cancelled_invite\<close> and never by its own key.\<close>

lemma from_request_method:
  "from_request r = Some key \<Longrightarrow> key_method key = match_method (rq_method r)"
  by (auto simp: from_request_def rfc3261_key_def Let_def split: option.splits if_splits)

lemma match_method_simps:
  "match_method INVITE = method_bytes INVITE" "match_method ACK = method_bytes INVITE"
  "match_method CANCEL = method_bytes CANCEL" "method_bytes CANCEL \<noteq> method_bytes INVITE"
  by (simp_all add: match_method_def method_bytes_def ascii_def)

lemma cancel_key:
  assumes "rq_method ivt = INVITE" "rq_method c = CANCEL" "rq_uri c = rq_uri ivt"
    and same: "\<And>n. n \<in> {H_Via, H_From, H_To, H_CallId} \<Longrightarrow>
      headers_get (rq_headers c) n = headers_get (rq_headers ivt) n"
    and seq: "map_option cs_sequence (typed_ok H_CSeq cseq_decode (rq_headers c)) =
      map_option cs_sequence (typed_ok H_CSeq cseq_decode (rq_headers ivt))"
    and key: "from_request ivt = Some key"
  shows "for_cancelled_invite c = Some key" "from_request c \<noteq> Some key"
proof -
  have via: "typed_ok H_Via via_decode (rq_headers c) = typed_ok H_Via via_decode (rq_headers ivt)"
    "typed_ok H_From from_decode (rq_headers c) = typed_ok H_From from_decode (rq_headers ivt)"
    "typed_ok H_To to_decode (rq_headers c) = typed_ok H_To to_decode (rq_headers ivt)"
    by (rule typed_cong, rule same, simp)+
  have vals: "headers_value (rq_headers c) n = headers_value (rq_headers ivt) n"
    if "n \<in> {H_Via, H_CallId}" for n
    using same that by (auto intro: headers_value_cong)
  have "top_via (rq_headers c) = top_via (rq_headers ivt)" "from_tag (rq_headers c) = from_tag (rq_headers ivt)"
    "to_tag (rq_headers c) = to_tag (rq_headers ivt)" "call_id (rq_headers c) = call_id (rq_headers ivt)"
    by (simp_all add: top_via_def from_tag_def to_tag_def call_id_def via vals)
  with assms via show "for_cancelled_invite c = Some key"
    by (auto simp: for_cancelled_invite_def from_request_def rfc3261_key_def match_method_simps Let_def
        split: option.splits if_splits)
  show "from_request c \<noteq> Some key"
    using from_request_method [OF key] from_request_method [of c key] assms(1,2)
    by (auto simp: match_method_simps match_method_simps(4) [symmetric])
qed

end
