(* ===== verification/Sip_Server.thy ===== *)
theory Sip_Server
  imports Sip_Timing
begin

text \<open>
  The server transaction (\<open>transaction/server.rs\<close>): the INVITE and the non-INVITE machine of
  RFC 3261 section 17.2 as amended by RFC 6026.
\<close>

section \<open>The machine\<close>

datatype server_state =
    S_Trying | S_Proceeding | S_Completed | S_Confirmed | S_Accepted | S_Terminated

record server_transaction =
  st_request :: request
  st_is_invite :: bool
  st_state :: server_state
  st_reliability :: reliability
  st_timers :: timers
  st_last_response :: "response option"
  st_interval :: duration

definition server_terminated :: "server_transaction \<Rightarrow> bool" where
  "server_terminated s \<longleftrightarrow> st_state s = S_Terminated"

definition server_new :: "request \<Rightarrow> reliability \<Rightarrow> timers \<Rightarrow> server_transaction \<times> tx_output list" where
  "server_new r rel t =
     (let is_invite = (rq_method r = INVITE) in
        (\<lparr>st_request = r, st_is_invite = is_invite,
          st_state = (if is_invite then S_Proceeding else S_Trying),
          st_reliability = rel, st_timers = t, st_last_response = None, st_interval = t1 t\<rparr>,
         [ToTu (Tu_Request r)] @
         (if is_invite then [SetTimer Trying100 (trying_100 t)] else [])))"

definition resend_last :: "server_transaction \<Rightarrow> tx_output list" where
  "resend_last s = (case st_last_response s of None \<Rightarrow> [] | Some rsp \<Rightarrow> [Send (Response rsp)])"

definition on_ack :: "server_transaction \<Rightarrow> request \<Rightarrow> server_transaction \<times> tx_output list" where
  "on_ack s ack =
     (case st_state s of
        S_Completed \<Rightarrow>
          (s\<lparr>st_state := S_Confirmed\<rparr>,
           [ClearTimer Timer_G, ClearTimer Timer_H,
            SetTimer Timer_I (absorb (st_timers s) (st_reliability s))])
      | S_Accepted \<Rightarrow> (s, [ToTu (Tu_Ack ack)])
      | _ \<Rightarrow> (s, []))"

definition server_on_request :: "server_transaction \<Rightarrow> request \<Rightarrow> server_transaction \<times> tx_output list" where
  "server_on_request s q =
     (if rq_method q = ACK then on_ack s q
      else if st_state s = S_Proceeding \<or> st_state s = S_Completed then (s, resend_last s)
      else (s, []))"

definition on_tu_response :: "server_transaction \<Rightarrow> response \<Rightarrow> server_transaction \<times> tx_output list" where
  "on_tu_response s rsp =
     (let status = rs_status rsp in
        if st_state s = S_Trying \<or> st_state s = S_Proceeding then
          (let out = [ClearTimer Trying100, Send (Response rsp)];
               s1 = s\<lparr>st_last_response := Some rsp\<rparr> in
             if is_provisional status then (s1\<lparr>st_state := S_Proceeding\<rparr>, out)
             else if st_is_invite s then
               (if is_success status then
                  (s1\<lparr>st_state := S_Accepted\<rparr>, out @ [SetTimer Timer_L (timeout (st_timers s))])
                else if is_reliable (st_reliability s) then
                  (s1\<lparr>st_state := S_Completed\<rparr>, out @ [SetTimer Timer_H (timeout (st_timers s))])
                else
                  (s1\<lparr>st_state := S_Completed, st_interval := t1 (st_timers s)\<rparr>,
                   out @ [SetTimer Timer_G (t1 (st_timers s)), SetTimer Timer_H (timeout (st_timers s))]))
             else
               (s1\<lparr>st_state := S_Completed\<rparr>,
                out @ [SetTimer Timer_J (timer_j (st_timers s) (st_reliability s))]))
        else if st_state s = S_Accepted \<and> is_success status then
          (s\<lparr>st_last_response := Some rsp\<rparr>, [Send (Response rsp)])
        else (s, []))"

text \<open>The automatic \<open>100 Trying\<close>.\<close>

definition build_trying :: "server_transaction \<Rightarrow> response option" where
  "build_trying s =
     (case pb_to_request_100 (st_request s) (ascii ''Trying'') of
        Inl _ \<Rightarrow> None
      | Inr b \<Rightarrow> Some (pb_build b))"

definition server_on_timer :: "server_transaction \<Rightarrow> timer \<Rightarrow> server_transaction \<times> tx_output list" where
  "server_on_timer s timer =
     (if st_state s = S_Proceeding \<and> timer = Trying100 then
        (if st_last_response s \<noteq> None then (s, [])
         else
           (case build_trying s of
              None \<Rightarrow> (s, [])
            | Some trying \<Rightarrow> (s\<lparr>st_last_response := Some trying\<rparr>, [Send (Response trying)])))
      else if st_state s = S_Completed \<and> timer = Timer_G then
        (let interval = double_capped (st_timers s) (st_interval s) in
           (s\<lparr>st_interval := interval\<rparr>, resend_last s @ [SetTimer Timer_G interval]))
      else if st_state s = S_Completed \<and> timer = Timer_H then
        (s\<lparr>st_state := S_Terminated\<rparr>, [ToTu Tu_Timeout, Terminated R_Timeout])
      else if st_state s = S_Completed \<and> timer = Timer_J \<or>
              st_state s = S_Confirmed \<and> timer = Timer_I \<or>
              st_state s = S_Accepted \<and> timer = Timer_L then
        (s\<lparr>st_state := S_Terminated\<rparr>, [Terminated R_Completed])
      else (s, []))"

definition server_on_transport_error :: "server_transaction \<Rightarrow> server_transaction \<times> tx_output list" where
  "server_on_transport_error s =
     (if server_terminated s then (s, [])
      else (s\<lparr>st_state := S_Terminated\<rparr>, [ToTu Tu_TransportError, Terminated R_TransportError]))"

section \<open>The machine meets the contract\<close>

datatype server_input = SI_Request request | SI_Response response | SI_Timer timer | SI_TransportError

fun server_step :: "server_input \<Rightarrow> server_transaction \<Rightarrow> server_transaction \<times> tx_output list" where
  "server_step (SI_Request q) s = server_on_request s q"
| "server_step (SI_Response rsp) s = on_tu_response s rsp"
| "server_step (SI_Timer timer) s = server_on_timer s timer"
| "server_step SI_TransportError s = server_on_transport_error s"

lemmas server_step_defs =
  server_on_request_def on_ack_def on_tu_response_def server_on_timer_def
  server_on_transport_error_def server_terminated_def resend_last_def

interpretation server: transaction_machine server_step server_terminated
proof
  fix s s' :: server_transaction and i out
  show "server_step i s = (s, [])" if "server_terminated s"
    using that by (cases i) (simp_all add: server_step_defs Let_def)
  show "\<exists>front r. out = front @ [Terminated r] \<and> armed front = [] \<and> sent_messages front = [] \<and>
      (\<forall>x \<in> set front. \<not> is_terminated_output x)"
    if "\<not> server_terminated s" "server_step i s = (s', out)" "server_terminated s'"
  proof -
    have "out = [Terminated R_Completed] \<or> out = [ToTu Tu_Timeout] @ [Terminated R_Timeout] \<or>
        out = [ToTu Tu_TransportError] @ [Terminated R_TransportError]"
      using that
      by (cases i) (auto simp: server_step_defs Let_def
          split: if_splits server_state.splits option.splits)
    then show ?thesis
      by (elim disjE) (force intro: exI [of _ "[]"] exI [of _ "[ToTu Tu_Timeout]"])+
  qed
  show "\<forall>x \<in> set out. \<not> is_terminated_output x"
    if "server_step i s = (s', out)" "\<not> server_terminated s'"
    using that
    by (cases i) (auto simp: server_step_defs Let_def
        split: if_splits server_state.splits option.splits)
qed

section \<open>A driven transaction\<close>

text \<open>
  What a driver does with a server transaction: it starts it with a request that is not an ACK,
  feeds it the copies of that request, the ACKs of an INVITE and the responses of the transaction
  user in any order, fires pending timers, and may report a transport failure.
\<close>

inductive server_driven ::
  "request \<Rightarrow> reliability \<Rightarrow> timers \<Rightarrow> server_transaction \<Rightarrow> timer set \<Rightarrow> tx_output list \<Rightarrow> bool"
  for r rel t where
  start: "rq_method r \<noteq> ACK \<Longrightarrow> server_new r rel t = (s, out) \<Longrightarrow>
    server_driven r rel t s (pending {} out) out"
| request: "server_driven r rel t s P log \<Longrightarrow>
    rq_method q = rq_method r \<or> rq_method q = ACK \<and> rq_method r = INVITE \<Longrightarrow>
    server_on_request s q = (s', out) \<Longrightarrow> server_driven r rel t s' (pending P out) (log @ out)"
| tu_response: "server_driven r rel t s P log \<Longrightarrow> on_tu_response s rsp = (s', out) \<Longrightarrow>
    server_driven r rel t s' (pending P out) (log @ out)"
| timer: "server_driven r rel t s P log \<Longrightarrow> x \<in> P \<Longrightarrow> server_on_timer s x = (s', out) \<Longrightarrow>
    server_driven r rel t s' (pending (P - {x}) out) (log @ out)"
| transport_error: "server_driven r rel t s P log \<Longrightarrow> server_on_transport_error s = (s', out) \<Longrightarrow>
    server_driven r rel t s' (pending P out) (log @ out)"

definition server_shape :: "request \<Rightarrow> reliability \<Rightarrow> timers \<Rightarrow> server_transaction \<Rightarrow> bool" where
  "server_shape r rel t s \<longleftrightarrow>
     rq_method r \<noteq> ACK \<and>
     st_request s = r \<and> st_reliability s = rel \<and> st_timers s = t \<and>
     st_is_invite s = (rq_method r = INVITE) \<and>
     (if st_is_invite s then st_state s \<noteq> S_Trying
      else st_state s \<noteq> S_Confirmed \<and> st_state s \<noteq> S_Accepted)"

definition server_timers_ok :: "server_transaction \<Rightarrow> timer set \<Rightarrow> bool" where
  "server_timers_ok s P \<longleftrightarrow>
     (case st_state s of
        S_Completed \<Rightarrow> (if st_is_invite s then Timer_H else Timer_J) \<in> P
      | S_Confirmed \<Rightarrow> Timer_I \<in> P
      | S_Accepted \<Rightarrow> Timer_L \<in> P
      | _ \<Rightarrow> True) \<and>
     (is_reliable (st_reliability s) \<longrightarrow> Timer_G \<notin> P)"

text \<open>The requests handed up as new, and the ACKs handed up.\<close>

definition tu_requests :: "tx_output list \<Rightarrow> request list" where
  "tu_requests log =
     List.map_filter (\<lambda>e. case e of Tu_Request q \<Rightarrow> Some q | _ \<Rightarrow> None) (tu_events log)"

lemma tu_requests_simps [simp]:
  "tu_requests [] = []" "tu_requests (xs @ ys) = tu_requests xs @ tu_requests ys"
  "tu_requests (ToTu e # xs) = (case e of Tu_Request q \<Rightarrow> q # tu_requests xs | _ \<Rightarrow> tu_requests xs)"
  "tu_requests (Send m # xs) = tu_requests xs" "tu_requests (SetTimer x d # xs) = tu_requests xs"
  "tu_requests (ClearTimer x # xs) = tu_requests xs" "tu_requests (Terminated z # xs) = tu_requests xs"
  by (simp_all add: tu_requests_def map_filter_append List.map_filter_simps split: tu_event.splits)

text \<open>The requests that reach a transaction: copies of its own, and ACKs if it is an INVITE.\<close>

fun server_input_ok :: "request \<Rightarrow> server_input \<Rightarrow> bool" where
  "server_input_ok r (SI_Request q) \<longleftrightarrow>
     rq_method q = rq_method r \<or> rq_method q = ACK \<and> rq_method r = INVITE"
| "server_input_ok r i \<longleftrightarrow> True"

lemma server_shape_new:
  "rq_method r \<noteq> ACK \<Longrightarrow> server_new r rel t = (s, out) \<Longrightarrow> server_shape r rel t s"
  by (auto simp: server_new_def server_shape_def Let_def)

lemma server_shape_step:
  "server_shape r rel t s \<Longrightarrow> server_input_ok r i \<Longrightarrow> server_step i s = (s', out) \<Longrightarrow> server_shape r rel t s'"
  by (cases i) (auto simp: server_shape_def server_step_defs Let_def
      split: if_splits server_state.splits option.splits)

lemma server_driven_shape: "server_driven r rel t s P log \<Longrightarrow> server_shape r rel t s"
proof (induction rule: server_driven.induct)
  case (start s out)
  then show ?case by (rule server_shape_new)
next
  case (request s P log q s' out)
  then show ?case using server_shape_step [of r rel t s "SI_Request q"] by simp
next
  case (tu_response s P log rsp s' out)
  then show ?case using server_shape_step [of r rel t s "SI_Response rsp"] by simp
next
  case (timer s P log x s' out)
  then show ?case using server_shape_step [of r rel t s "SI_Timer x"] by simp
next
  case (transport_error s P log s' out)
  then show ?case using server_shape_step [of r rel t s SI_TransportError] by simp
qed

lemma server_driven_timers: "server_driven r rel t s P log \<Longrightarrow> server_timers_ok s P"
proof (induction rule: server_driven.induct)
  case (start s out)
  then show ?case by (auto simp: server_new_def server_timers_ok_def Let_def)
next
  case (request s P log q s' out)
  then show ?case
    by (auto simp: server_timers_ok_def server_step_defs split: if_splits server_state.splits option.splits)
next
  case (tu_response s P log rsp s' out)
  with server_driven_shape [OF tu_response(1)] show ?case
    by (auto simp: server_shape_def server_timers_ok_def server_step_defs Let_def split: if_splits server_state.splits)
next
  case (timer s P log x s' out)
  with server_driven_shape [OF timer(1)] show ?case
    by (auto simp: server_shape_def server_timers_ok_def server_step_defs Let_def
        split: if_splits option.splits server_state.splits)
next
  case (transport_error s P log s' out)
  then show ?case
    by (auto simp: server_timers_ok_def server_step_defs split: if_splits)
qed

subsection \<open>What goes on the wire\<close>

definition provisional_msg :: "sip_message \<Rightarrow> bool" where
  "provisional_msg m = (case m of Response rsp \<Rightarrow> is_provisional (rs_status rsp) | _ \<Rightarrow> False)"

definition success_msg :: "sip_message \<Rightarrow> bool" where
  "success_msg m = (case m of Response rsp \<Rightarrow> is_success (rs_status rsp) | _ \<Rightarrow> False)"

text \<open>
  Provisional responses, then copies of one final response; an INVITE may instead be answered by
  2xx responses the transaction user chose to repeat.
\<close>

definition settled :: "response \<Rightarrow> sip_message list \<Rightarrow> bool" where
  "settled f sent \<longleftrightarrow>
     (\<exists>ps k. sent = ps @ replicate (Suc k) (Response f) \<and> list_all provisional_msg ps)"

definition accepted_msgs :: "sip_message list \<Rightarrow> bool" where
  "accepted_msgs sent \<longleftrightarrow> (\<exists>ps fs. sent = ps @ fs \<and> list_all provisional_msg ps \<and> list_all success_msg fs)"

definition replied :: "bool \<Rightarrow> sip_message list \<Rightarrow> bool" where
  "replied invite sent \<longleftrightarrow>
     list_all provisional_msg sent \<or> (\<exists>f. is_final (rs_status f) \<and> settled f sent) \<or>
     invite \<and> accepted_msgs sent"

lemma settled_first: "list_all provisional_msg ps \<Longrightarrow> settled f (ps @ [Response f])"
  unfolding settled_def by (intro exI [of _ ps] exI [of _ 0]) simp

lemma settled_again: "settled f sent \<Longrightarrow> settled f (sent @ [Response f])"
  unfolding settled_def by (metis append.assoc replicate_append_same replicate_Suc)

lemma accepted_msgs_provisional: "list_all provisional_msg sent \<Longrightarrow> accepted_msgs sent"
  unfolding accepted_msgs_def by (intro exI [of _ sent] exI [of _ "[]"]) simp

lemma accepted_msgs_snoc:
  assumes "accepted_msgs sent" "is_success (rs_status rsp)"
  shows "accepted_msgs (sent @ [Response rsp])"
proof -
  obtain ps fs where "sent = ps @ fs" "list_all provisional_msg ps" "list_all success_msg fs"
    using assms(1) by (auto simp: accepted_msgs_def)
  with assms(2) show ?thesis
    unfolding accepted_msgs_def
    by (intro exI [of _ ps] exI [of _ "fs @ [Response rsp]"]) (simp add: success_msg_def)
qed

definition server_wire :: "server_transaction \<Rightarrow> sip_message list \<Rightarrow> bool" where
  "server_wire s sent \<longleftrightarrow>
     (case st_last_response s of
        None \<Rightarrow> sent = [] | Some rsp \<Rightarrow> sent \<noteq> [] \<and> last sent = Response rsp) \<and>
     (case st_state s of
        S_Trying \<Rightarrow> sent = []
      | S_Proceeding \<Rightarrow> list_all provisional_msg sent
      | S_Accepted \<Rightarrow> accepted_msgs sent
      | S_Terminated \<Rightarrow> replied (st_is_invite s) sent
      | _ \<Rightarrow> (\<exists>f. st_last_response s = Some f \<and> is_final (rs_status f) \<and> settled f sent))"

lemma server_wire_replied:
  "server_shape r rel t s \<Longrightarrow> server_wire s sent \<Longrightarrow> replied (st_is_invite s) sent"
  by (auto simp: server_wire_def server_shape_def replied_def split: server_state.splits if_splits)

lemma server_wire_ends:
  "server_shape r rel t s \<Longrightarrow> server_wire s sent \<Longrightarrow> server_wire (s\<lparr>st_state := S_Terminated\<rparr>) sent"
  using server_wire_replied [of r rel t s sent] by (simp add: server_wire_def)

lemma server_wire_cong:
  "st_state s' = st_state s \<Longrightarrow> st_last_response s' = st_last_response s \<Longrightarrow>
    st_is_invite s' = st_is_invite s \<Longrightarrow> server_wire s' sent = server_wire s sent"
  by (simp add: server_wire_def split: server_state.split)

lemma server_wire_resend:
  "server_wire s sent \<Longrightarrow> st_state s = S_Proceeding \<or> st_state s = S_Completed \<Longrightarrow>
    server_wire s (sent @ sent_messages (resend_last s))"
  by (elim disjE)
    (auto simp: server_wire_def resend_last_def settled_again split: option.splits
      intro: list.pred_mono_strong dest: last_in_set simp: list_all_iff)

lemma trying_provisional: "build_trying s = Some rsp \<Longrightarrow> is_provisional (rs_status rsp)"
  by (auto simp: build_trying_def pb_to_request_100_def pb_build_def pb_new_def response_new_def
      bind_res_Inr_iff is_provisional_def status_class_def split: sum.splits)

lemma server_wire_request:
  assumes "server_wire s sent" "server_on_request s q = (s', out)"
  shows "server_wire s' (sent @ sent_messages out)"
proof -
  consider "s' = s" "sent_messages out = []"
    | "s' = s" "out = resend_last s" "st_state s = S_Proceeding \<or> st_state s = S_Completed"
    | "s' = s\<lparr>st_state := S_Confirmed\<rparr>" "st_state s = S_Completed" "sent_messages out = []"
    using assms(2) by (auto simp: server_on_request_def on_ack_def split: if_splits server_state.splits)
  then show ?thesis
  proof cases
    case 2
    with server_wire_resend [OF assms(1)] show ?thesis by simp
  qed (use assms(1) in \<open>simp_all add: server_wire_def\<close>)
qed

lemma server_wire_tu_response:
  assumes "server_shape r rel t s" "server_wire s sent" "on_tu_response s rsp = (s', out)"
  shows "server_wire s' (sent @ sent_messages out)"
proof (cases "sent_messages out = []")
  case True
  then have "s' = s"
    using assms(3) by (auto simp: on_tu_response_def Let_def split: if_splits)
  with True assms(2) show ?thesis by simp
next
  case False
  then have out: "sent_messages out = [Response rsp]" and l: "st_last_response s' = Some rsp"
    and s: "(st_state s = S_Trying \<or> st_state s = S_Proceeding) \<and>
        (st_state s' = S_Proceeding \<and> is_provisional (rs_status rsp) \<or>
         st_state s' = S_Accepted \<and> is_success (rs_status rsp) \<or>
         st_state s' = S_Completed \<and> is_final (rs_status rsp)) \<or>
      st_state s = S_Accepted \<and> st_state s' = S_Accepted \<and> is_success (rs_status rsp)"
    using assms(3) by (auto simp: on_tu_response_def Let_def is_final_def split: if_splits)
  have ps: "list_all provisional_msg sent" if "st_state s = S_Trying \<or> st_state s = S_Proceeding"
    using that assms(2) by (auto simp: server_wire_def)
  have "accepted_msgs sent" if "st_state s = S_Accepted"
    using that assms(2) by (simp add: server_wire_def)
  with s ps have "accepted_msgs (sent @ [Response rsp])" if "st_state s' = S_Accepted"
    using that by (auto intro!: accepted_msgs_snoc intro: accepted_msgs_provisional)
  moreover have "settled rsp (sent @ [Response rsp])" if "st_state s' = S_Completed"
    using that s ps by (auto intro: settled_first)
  moreover have "list_all provisional_msg (sent @ [Response rsp])" if "st_state s' = S_Proceeding"
    using that s ps by (auto simp: provisional_msg_def)
  ultimately show ?thesis
    using s by (auto simp: server_wire_def out l)
qed

lemma server_wire_timer:
  assumes "server_shape r rel t s" "server_wire s sent" "server_on_timer s x = (s', out)"
  shows "server_wire s' (sent @ sent_messages out)"
proof -
  consider "s' = s" "sent_messages out = []"
    | "s' = s\<lparr>st_state := S_Terminated\<rparr>" "sent_messages out = []"
    | i where "s' = s\<lparr>st_interval := i\<rparr>" "sent_messages out = sent_messages (resend_last s)"
        "st_state s = S_Completed"
    | trying where "s' = s\<lparr>st_last_response := Some trying\<rparr>" "st_state s = S_Proceeding"
        "is_provisional (rs_status trying)" "sent_messages out = [Response trying]"
    using assms(3)
    by (auto simp: server_on_timer_def Let_def dest: trying_provisional split: if_splits option.splits)
  then show ?thesis
  proof cases
    case 3
    with server_wire_resend [OF assms(2)] show ?thesis
      using server_wire_cong [of s' s] by simp
  next
    case 4
    with assms(2) show ?thesis by (simp add: server_wire_def provisional_msg_def)
  qed (use server_wire_ends [OF assms(1,2)] assms(2) in simp_all)
qed

lemma server_driven_wire: "server_driven r rel t s P log \<Longrightarrow> server_wire s (sent_messages log)"
proof (induction rule: server_driven.induct)
  case (start s out)
  then show ?case by (auto simp: server_new_def server_wire_def Let_def)
next
  case (request s P log q s' out)
  then show ?case using server_wire_request by simp
next
  case (tu_response s P log rsp s' out)
  then show ?case
    using server_wire_tu_response [OF server_driven_shape [OF tu_response(1)]] by simp
next
  case (timer s P log x s' out)
  then show ?case using server_wire_timer [OF server_driven_shape [OF timer(1)]] by simp
next
  case (transport_error s P log s' out)
  then show ?case
    using server_wire_ends [OF server_driven_shape [OF transport_error(1)]]
    by (auto simp: server_step_defs split: if_splits)
qed

lemma server_driven_once: "server_driven r rel t s P log \<Longrightarrow> tu_requests log = [r]"
proof (induction rule: server_driven.induct)
  case (start s out)
  then show ?case by (auto simp: server_new_def Let_def split: if_splits)
next
  case (request s P log q s' out)
  then show ?case
    by (auto simp: server_step_defs split: if_splits server_state.splits option.splits)
next
  case (tu_response s P log rsp s' out)
  then show ?case by (auto simp: server_step_defs Let_def split: if_splits)
next
  case (timer s P log x s' out)
  then show ?case by (auto simp: server_step_defs Let_def split: if_splits option.splits)
next
  case (transport_error s P log s' out)
  then show ?case by (auto simp: server_step_defs split: if_splits)
qed

lemma server_driven_announced: "server_driven r rel t s P log \<Longrightarrow> announced (server_terminated s) log"
proof (induction rule: server_driven.induct)
  case (start s out)
  then show ?case
    by (auto simp: server_new_def server_terminated_def announced_def Let_def split: if_splits)
next
  case (request s P log q s' out)
  then show ?case using server.announced_step [of s log "SI_Request q"] by simp
next
  case (tu_response s P log rsp s' out)
  then show ?case using server.announced_step [of s log "SI_Response rsp"] by simp
next
  case (timer s P log x s' out)
  then show ?case using server.announced_step [of s log "SI_Timer x"] by simp
next
  case (transport_error s P log s' out)
  then show ?case using server.announced_step [of s log SI_TransportError] by simp
qed

text \<open>A REGISTER answered \<open>200\<close> whose retransmission arrives afterwards.\<close>

definition sample_register :: request where
  "sample_register = request_new REGISTER (uri_sip (Name (ascii ''a'')))"

definition sample_ok :: response where
  "sample_ok = response_new (StatusCode 200) []"

definition sample_trying :: "server_transaction \<times> tx_output list" where
  "sample_trying = server_new sample_register Unreliable default_timers"

definition sample_answered :: "server_transaction \<times> tx_output list" where
  "sample_answered = on_tu_response (fst sample_trying) sample_ok"

lemma sample_server_driven:
  "server_driven sample_register Unreliable default_timers (fst sample_answered)
    (pending (pending {} (snd sample_trying)) (snd sample_answered))
    (snd sample_trying @ snd sample_answered)"
proof -
  have "server_driven sample_register Unreliable default_timers (fst sample_trying)
    (pending {} (snd sample_trying)) (snd sample_trying)"
    by (rule server_driven.start) (simp_all add: sample_trying_def sample_register_def request_new_def)
  from server_driven.tu_response [OF this, of sample_ok] show ?thesis
    by (simp add: sample_answered_def)
qed

lemmas sample_server_defs = sample_trying_def sample_answered_def sample_register_def sample_ok_def
  request_new_def response_new_def server_new_def server_step_defs is_reliable_def Let_def

lemma sample_ok_status: "\<not> is_provisional (StatusCode 200)"
  by (simp add: is_provisional_def status_class_def)

lemma sample_answered_eval:
  "st_state (fst sample_answered) = S_Completed" "rq_method sample_register = REGISTER"
  "sent_messages (snd sample_trying @ snd sample_answered) = [Response sample_ok]"
  by (simp_all add: sample_server_defs sample_ok_status)

section \<open>Properties\<close>

text \<open>
  C37: The transaction user sees a request exactly once. However copies of the request, ACKs,
  responses, pending timers and transport errors interleave, exactly one request event is ever
  produced, the one of the creation, and the end of the transaction is announced exactly once and
  last.
\<close>

theorem server_request_once:
  assumes "server_driven r rel t s P log"
  shows "tu_requests log = [r] \<and> announced (server_terminated s) log"
  using server_driven_once [OF assms] server_driven_announced [OF assms] by simp

theorem server_request_once_witness:
  "tu_requests (snd sample_trying @ snd sample_answered) = [sample_register]"
  using server_request_once [OF sample_server_driven] by (rule conjunct1)

text \<open>
  What the peer sees of a server transaction. Provisional responses come first, then copies of
  one final response only; an INVITE may instead be answered by 2xx responses. A copy of the
  request is never shown to the transaction user: while the transaction is proceeding or
  completed it is answered with the response sent last, if there is one, and otherwise swallowed.
\<close>

theorem server_replies:
  assumes "server_driven r rel t s P log" "rq_method q = rq_method r"
  shows "replied (rq_method r = INVITE) (sent_messages log) \<and>
    server_on_request s q =
      (s, if st_state s \<in> {S_Proceeding, S_Completed} \<and> sent_messages log \<noteq> []
          then [Send (last (sent_messages log))] else [])"
proof -
  note shape = server_driven_shape [OF assms(1)] and wire = server_driven_wire [OF assms(1)]
  have "replied (rq_method r = INVITE) (sent_messages log)"
    using server_wire_replied [OF shape wire] shape by (simp add: server_shape_def)
  moreover have "rq_method q \<noteq> ACK"
    using shape assms(2) by (simp add: server_shape_def)
  ultimately show ?thesis
    using wire by (auto simp: server_on_request_def resend_last_def server_wire_def split: option.splits)
qed

theorem server_replies_witness:
  "server_on_request (fst sample_answered) sample_register =
    (fst sample_answered, [Send (Response sample_ok)])"
  using server_replies [OF sample_server_driven refl, unfolded sample_answered_eval] by simp

text \<open>
  C39: No server transaction the transaction user has answered waits for ever: in every reachable
  state after a final response that is not the end, a timer is pending whose firing ends it, and
  on a reliable transport the response retransmission timer is never armed.
\<close>

theorem server_will_end:
  assumes "server_driven r rel t s P log" "st_state s \<in> {S_Completed, S_Confirmed, S_Accepted}"
  shows "(\<exists>x \<in> P. server_terminated (fst (server_on_timer s x))) \<and> (is_reliable rel \<longrightarrow> Timer_G \<notin> P)"
proof -
  have shape: "server_shape r rel t s" and timers: "server_timers_ok s P"
    using assms(1) by (rule server_driven_shape server_driven_timers)+
  define x where "x = (case st_state s of S_Confirmed \<Rightarrow> Timer_I | S_Accepted \<Rightarrow> Timer_L
    | _ \<Rightarrow> (if st_is_invite s then Timer_H else Timer_J))"
  have "x \<in> P" "server_terminated (fst (server_on_timer s x))"
    using shape timers assms(2)
    by (auto simp: x_def server_timers_ok_def server_shape_def server_step_defs split: if_splits)
  then show ?thesis
    using shape timers by (auto simp: server_timers_ok_def server_shape_def)
qed

theorem server_will_end_witness:
  "\<exists>x \<in> pending (pending {} (snd sample_trying)) (snd sample_answered).
     server_terminated (fst (server_on_timer (fst sample_answered) x))"
  using server_will_end [OF sample_server_driven] sample_answered_eval by simp

end
