(* ===== verification/Rust_Text.thy ===== *)
theory Rust_Text
  imports Sip_Host
begin

text \<open>
  Text as the Rust standard library reads and writes it, for the parts of the program that work on
  \<open>str\<close>: decoding of octets that may not be UTF-8, white space, splitting into words and lines,
  decimal numbers. A string is its UTF-8 octets.
\<close>

section \<open>Strings\<close>

definition is_continuation :: "u8 \<Rightarrow> bool" where
  "is_continuation b \<longleftrightarrow> 0x80 \<le> b \<and> b \<le> 0xBF"

text \<open>The second octets a three- or four-octet sequence may have.\<close>

definition second_ok :: "u8 \<Rightarrow> u8 \<Rightarrow> bool" where
  "second_ok b c \<longleftrightarrow>
     (if b = 0xE0 then 0xA0 \<le> c \<and> c \<le> 0xBF
      else if b = 0xED then 0x80 \<le> c \<and> c \<le> 0x9F
      else if b = 0xF0 then 0x90 \<le> c \<and> c \<le> 0xBF
      else if b = 0xF4 then 0x80 \<le> c \<and> c \<le> 0x8F
      else is_continuation c)"

text \<open>
  The length of the valid sequence at the front, or of the ill-formed part that is replaced as one:
  \<open>Inr n\<close> for \<open>n\<close> octets of a character, \<open>Inl n\<close> for \<open>n\<close> octets to replace.
\<close>

definition utf8_step :: "u8 \<Rightarrow> bytes \<Rightarrow> nat + nat" where
  "utf8_step b rest =
     (let c = get_at rest 0; d = get_at rest 1; e = get_at rest 2;
          cont = (\<lambda>x. case x of None \<Rightarrow> False | Some y \<Rightarrow> is_continuation y);
          second = (case c of None \<Rightarrow> False | Some y \<Rightarrow> second_ok b y) in
        if b < 0x80 then Inr 1
        else if 0xC2 \<le> b \<and> b \<le> 0xDF then (if cont c then Inr 2 else Inl 1)
        else if 0xE0 \<le> b \<and> b \<le> 0xEF then
          (if \<not> second then Inl 1 else if \<not> cont d then Inl 2 else Inr 3)
        else if 0xF0 \<le> b \<and> b \<le> 0xF4 then
          (if \<not> second then Inl 1 else if \<not> cont d then Inl 2 else if \<not> cont e then Inl 3 else Inr 4)
        else Inl 1)"

definition REPLACEMENT :: bytes where
  "REPLACEMENT = [0xEF, 0xBF, 0xBD]"

function utf8_lossy :: "bytes \<Rightarrow> bytes" where
  "utf8_lossy [] = []"
| "utf8_lossy (b # rest) =
     (case utf8_step b rest of
        Inr n \<Rightarrow> b # take (n - 1) rest @ utf8_lossy (drop (n - 1) rest)
      | Inl n \<Rightarrow> REPLACEMENT @ utf8_lossy (drop (n - 1) rest))"
  by pat_completeness auto
termination
  by (relation "measure length") auto

text \<open>\<open>str::from_utf8\<close>.\<close>

function utf8_valid :: "bytes \<Rightarrow> bool" where
  "utf8_valid [] = True"
| "utf8_valid (b # rest) =
     (case utf8_step b rest of Inr n \<Rightarrow> utf8_valid (drop (n - 1) rest) | Inl _ \<Rightarrow> False)"
  by pat_completeness auto
termination
  by (relation "measure length") auto

lemma utf8_valid_ascii: "list_all (\<lambda>b. b < 0x80) bs \<Longrightarrow> utf8_valid bs"
  by (induction bs) (simp_all add: utf8_step_def Let_def)

text \<open>The characters of Unicode's \<open>White_Space\<close>, encoded.\<close>

definition WHITE_SPACE :: "bytes list" where
  "WHITE_SPACE =
     [[9], [10], [11], [12], [13], [32], [0xC2, 0x85], [0xC2, 0xA0], [0xE1, 0x9A, 0x80],
      [0xE2, 0x80, 0x80], [0xE2, 0x80, 0x81], [0xE2, 0x80, 0x82], [0xE2, 0x80, 0x83],
      [0xE2, 0x80, 0x84], [0xE2, 0x80, 0x85], [0xE2, 0x80, 0x86], [0xE2, 0x80, 0x87],
      [0xE2, 0x80, 0x88], [0xE2, 0x80, 0x89], [0xE2, 0x80, 0x8A], [0xE2, 0x80, 0xA8],
      [0xE2, 0x80, 0xA9], [0xE2, 0x80, 0xAF], [0xE2, 0x81, 0x9F], [0xE3, 0x80, 0x80]]"

function strip_white :: "bytes list \<Rightarrow> bytes \<Rightarrow> bytes" where
  "strip_white ws bs =
     (case find (\<lambda>w. w \<noteq> [] \<and> starts_with bs w) ws of
        None \<Rightarrow> bs
      | Some w \<Rightarrow> strip_white ws (drop (length w) bs))"
  by pat_completeness auto
termination
proof (relation "measure (\<lambda>(ws, bs). length bs)")
  fix ws bs and w :: bytes
  assume "find (\<lambda>w. w \<noteq> [] \<and> starts_with bs w) ws = Some w"
  then have "w \<noteq> []" "starts_with bs w"
    by (auto simp: find_Some_iff)
  then show "((ws, drop (length w) bs), ws, bs) \<in> measure (\<lambda>(ws, bs). length bs)"
    using starts_with_length [of bs w] by (cases w) auto
qed simp

declare strip_white.simps [simp del]

definition str_trim :: "bytes \<Rightarrow> bytes" where
  "str_trim bs = rev (strip_white (map rev WHITE_SPACE) (rev (strip_white WHITE_SPACE bs)))"

definition split_once :: "u8 \<Rightarrow> bytes \<Rightarrow> (bytes \<times> bytes) option" where
  "split_once sep bs =
     map_option (\<lambda>i. (take i bs, drop (i + 1) bs)) (position (\<lambda>b. b = sep) bs)"

text \<open>\<open>rfind\<close>: the index of the last occurrence.\<close>

definition rfind :: "u8 \<Rightarrow> bytes \<Rightarrow> nat option" where
  "rfind sep bs = map_option (\<lambda>i. length bs - 1 - i) (position (\<lambda>b. b = sep) (rev bs))"

section \<open>ASCII text and positions\<close>

lemma position_skip:
  "list_all (\<lambda>b. \<not> P b) l \<Longrightarrow> P b \<Longrightarrow> position P (l @ b # r) = Some (length l)"
  by (induction l) auto

definition ascii_text :: "bytes \<Rightarrow> bool" where
  "ascii_text bs \<longleftrightarrow> list_all (\<lambda>b. b < 0x80) bs"

lemma ascii_text_simps [simp]:
  "ascii_text []" "ascii_text (b # bs) \<longleftrightarrow> b < 0x80 \<and> ascii_text bs"
  "ascii_text (bs @ cs) \<longleftrightarrow> ascii_text bs \<and> ascii_text cs"
  by (simp_all add: ascii_text_def)

lemma utf8_lossy_ascii: "ascii_text bs \<Longrightarrow> utf8_lossy bs = bs"
  by (induction bs) (simp_all add: utf8_step_def Let_def)

lemma position_last:
  assumes "b \<notin> set tail"
  shows "rfind b (p @ b # tail) = Some (length p)"
proof -
  have "position (\<lambda>x. x = b) (rev tail @ b # rev p) = Some (length (rev tail))"
    using assms by (intro position_skip) (auto simp: list_all_iff)
  then show ?thesis
    by (simp add: rfind_def)
qed

lemma strip_white_first:
  assumes "\<And>w. w \<in> set ws \<Longrightarrow> w = [] \<or> hd w \<noteq> b"
  shows "strip_white ws (b # r) = b # r"
proof -
  have "find (\<lambda>w. w \<noteq> [] \<and> starts_with (b # r) w) ws = None"
    using assms by (fastforce simp: find_None_iff starts_with_iff neq_Nil_conv)
  then show ?thesis
    by (simp add: strip_white.simps)
qed

section \<open>Decimal numbers\<close>

lemma u64_digits_append:
  "u64_digits n (xs @ ys) = Option.bind (u64_digits n xs) (\<lambda>m. u64_digits m ys)"
  by (induction n xs rule: u64_digits.induct) (simp_all add: Let_def)

lemma decimal_digit:
  assumes "d < 10"
  shows "is_ascii_digit (48 + of_nat d)" "unat ((48 + of_nat d :: u8) - 48) = d"
  using assms by (auto simp: is_ascii_digit_def word_le_nat_alt unat_word_ariths)

lemma decimal_digits: "list_all is_ascii_digit (decimal n)" "decimal n \<noteq> []"
  by (induction n rule: decimal.induct, subst decimal.simps)
    (auto simp: decimal_digit(1) decimal.simps)

lemma u64_digits_decimal: "n < 2 ^ 64 \<Longrightarrow> u64_digits 0 (decimal n) = Some n"
proof (induction n rule: decimal.induct)
  case (1 n)
  show ?case
  proof (cases "n < 10")
    case True
    then show ?thesis
      by (subst decimal.simps) (simp add: decimal_digit(2) Let_def del: of_nat_numeral)
  next
    case False
    have "u64_digits (n div 10) [48 + of_nat (n mod 10)] = Some n"
      using 1(2) decimal_digit(2) [of "n mod 10"] by (simp add: Let_def)
    then show ?thesis
      using 1 False by (subst decimal.simps) (simp add: u64_digits_append)
  qed
qed

section \<open>Words, lines and numbers\<close>

definition white_prefix :: "bytes \<Rightarrow> bytes option" where
  "white_prefix bs = find (\<lambda>w. starts_with bs w) WHITE_SPACE"

fun take_word :: "bytes \<Rightarrow> bytes" where
  "take_word [] = []"
| "take_word (b # bs) = (if white_prefix (b # bs) = None then b # take_word bs else [])"

lemma strip_white_length: "length (strip_white ws bs) \<le> length bs"
proof (induction ws bs rule: strip_white.induct)
  case (1 ws bs)
  then show ?case
    by (subst strip_white.simps) (fastforce split: option.split)
qed

text \<open>\<open>Iterator::find_map\<close>.\<close>

fun find_map :: "('a \<Rightarrow> 'b option) \<Rightarrow> 'a list \<Rightarrow> 'b option" where
  "find_map f [] = None"
| "find_map f (x # xs) = (case f x of Some y \<Rightarrow> Some y | None \<Rightarrow> find_map f xs)"

text \<open>\<open>str::split_whitespace\<close>.\<close>

function split_whitespace :: "bytes \<Rightarrow> bytes list" where
  "split_whitespace bs =
     (case strip_white WHITE_SPACE bs of
        [] \<Rightarrow> []
      | b # rest \<Rightarrow> (b # take_word rest) # split_whitespace (drop (length (take_word rest)) rest))"
  by pat_completeness auto
termination
proof (relation "measure length")
  fix bs rest and b :: u8
  assume "strip_white WHITE_SPACE bs = b # rest"
  then show "(drop (length (take_word rest)) rest, bs) \<in> measure length"
    using strip_white_length [of WHITE_SPACE bs] by simp
qed simp

declare split_whitespace.simps [simp del]

text \<open>\<open>str::lines\<close>: no line after a final line feed, one carriage return dropped from each.\<close>

definition strip_cr :: "bytes \<Rightarrow> bytes" where
  "strip_cr l = (if l \<noteq> [] \<and> last l = 13 then butlast l else l)"

definition str_lines :: "bytes \<Rightarrow> bytes list" where
  "str_lines text =
     (let parts = split_on 10 text in map strip_cr (if last parts = [] then butlast parts else parts))"

definition trim_end_cr :: "bytes \<Rightarrow> bytes" where
  "trim_end_cr l = rev (dropWhile (\<lambda>b. b = 13) (rev l))"

text \<open>\<open>str::parse\<close> of an unsigned integer below a bound: an optional plus sign and digits.\<close>

definition parse_uint :: "nat \<Rightarrow> bytes \<Rightarrow> nat option" where
  "parse_uint bound text =
     (let digits = (case text of
            b # rest \<Rightarrow> (if b = ch CHR ''+'' \<and> rest \<noteq> [] then rest else text)
          | [] \<Rightarrow> []) in
        if digits = [] \<or> \<not> list_all is_ascii_digit digits then None
        else if port_value digits < bound then Some (port_value digits) else None)"

text \<open>\<open>str::parse\<close> of an \<open>IpAddr\<close>: an IPv4 address, and if there is none at the front, an IPv6 one.\<close>

definition parse_ip :: "bytes \<Rightarrow> ip_addr option" where
  "parse_ip text =
     (case read_ipv4_addr text of
        Some (a, rest) \<Rightarrow> if rest = [] then Some (V4 a) else None
      | None \<Rightarrow> map_option V6 (parse_ipv6 text))"

section \<open>Laws of words\<close>

text \<open>A word: not empty and no white space in it.\<close>

definition wordy :: "bytes \<Rightarrow> bool" where
  "wordy w \<longleftrightarrow> w \<noteq> [] \<and> take_word w = w"

lemma white_spaces:
  "list_all (\<lambda>w. w \<noteq> [] \<and> (w = [32] \<or> 32 \<notin> set w)) WHITE_SPACE"
  by code_simp

lemma white_prefix_space: "white_prefix (32 # rest) \<noteq> None"
  by (simp add: white_prefix_def WHITE_SPACE_def find_None_iff starts_with_def)

lemma white_prefix_append:
  assumes "s \<noteq> []"
  shows "white_prefix (s @ 32 # rest) = None \<longleftrightarrow> white_prefix s = None"
proof -
  have "starts_with (s @ 32 # rest) w \<longleftrightarrow> starts_with s w" if "w \<in> set WHITE_SPACE" for w
  proof
    assume "starts_with (s @ 32 # rest) w"
    then obtain k where k: "s @ 32 # rest = w @ k"
      by (auto simp: starts_with_iff)
    have "length w \<le> length s"
    proof (rule ccontr)
      assume "\<not> length w \<le> length s"
      then obtain v where "w = s @ 32 # v"
        using k by (auto simp: append_eq_append_conv2 Cons_eq_append_conv)
      then show False
        using white_spaces that assms by (cases s) (auto simp: list_all_iff)
    qed
    then show "starts_with s w"
      using k by (auto simp: starts_with_iff append_eq_append_conv2)
  qed (auto simp: starts_with_iff)
  then show ?thesis
    by (auto simp: white_prefix_def find_None_iff)
qed

lemma take_word_append: "take_word w = w \<Longrightarrow> take_word (w @ 32 # rest) = w"
proof (induction w)
  case Nil
  then show ?case
    using white_prefix_space by simp
next
  case (Cons b w)
  then show ?case
    using white_prefix_append [of "b # w" rest] by (auto split: if_splits)
qed

lemma take_word_prefix: "\<exists>r. s = take_word s @ r"
  by (induction s) auto

lemma white_prefix_mono: "white_prefix (s @ r) = None \<Longrightarrow> white_prefix s = None"
  by (auto simp: white_prefix_def find_None_iff starts_with_iff)

lemma take_word_again: "take_word (take_word s) = take_word s"
proof (induction s)
  case (Cons b s)
  show ?case
  proof (cases "white_prefix (b # s) = None")
    case True
    obtain r where "b # s = (b # take_word s) @ r"
      using take_word_prefix [of s] by auto
    then show ?thesis
      using True Cons white_prefix_mono [of "b # take_word s" r] by simp
  next
    case False
    then show ?thesis
      by auto
  qed
qed simp

lemma strip_white_unfold:
  "strip_white WHITE_SPACE bs =
     (case white_prefix bs of None \<Rightarrow> bs | Some w \<Rightarrow> strip_white WHITE_SPACE (drop (length w) bs))"
proof -
  have "find (\<lambda>w. w \<noteq> [] \<and> starts_with bs w) WHITE_SPACE = white_prefix bs"
    using white_spaces unfolding white_prefix_def by (intro find_cong) (auto simp: list_all_iff)
  then show ?thesis
    by (subst strip_white.simps) (simp split: option.split)
qed

lemma strip_white_Nil [simp]: "strip_white WHITE_SPACE [] = []"
  using strip_white_length [of WHITE_SPACE "[]"] by simp

lemma strip_white_stops: "white_prefix (strip_white WHITE_SPACE bs) = None"
proof (induction "length bs" arbitrary: bs rule: less_induct)
  case less
  show ?case
  proof (cases "white_prefix bs")
    case (Some w)
    then have "w \<noteq> []" "starts_with bs w"
      using white_spaces by (auto simp: white_prefix_def find_Some_iff list_all_iff)
    then have "length (drop (length w) bs) < length bs"
      using starts_with_length [of bs w] by (cases w) auto
    then show ?thesis
      using less [of "drop (length w) bs"] Some by (subst strip_white_unfold) simp
  qed (simp add: strip_white_unfold)
qed

lemma wordy_first: "wordy w \<Longrightarrow> white_prefix w = None"
  by (cases w) (auto simp: wordy_def split: if_splits)

lemma split_join_words:
  assumes "\<And>w. w \<in> set ws \<Longrightarrow> wordy w"
  shows "split_whitespace (join_bytes [32] ws) = ws"
  using assms
proof (induction ws rule: induct_list012)
  case 1
  then show ?case
    by (simp add: split_whitespace.simps)
next
  case (2 w)
  then obtain b r where w: "w = b # r"
    by (cases w) (auto simp: wordy_def)
  have "take_word r = r" "strip_white WHITE_SPACE w = w"
    using 2 wordy_first [of w] by (auto simp: w wordy_def strip_white_unfold split: if_splits)
  then show ?case
    by (simp add: w split_whitespace.simps)
next
  case (3 w v ws)
  then obtain b r where w: "w = b # r"
    by (cases w) (auto simp: wordy_def)
  define rest where "rest = join_bytes [32] (v # ws)"
  have "white_prefix (w @ 32 # rest) = None"
    using 3(3) [of w] wordy_first [of w] white_prefix_append [of w rest] by (simp add: w)
  then have "strip_white WHITE_SPACE (w @ 32 # rest) = b # r @ 32 # rest"
    by (simp add: strip_white_unfold w)
  moreover have "take_word (r @ 32 # rest) = r"
    using 3(3) [of w] by (intro take_word_append) (auto simp: w wordy_def split: if_splits)
  moreover have "split_whitespace (32 # rest) = split_whitespace rest"
  proof -
    have "white_prefix (32 # rest) = Some [32]"
      by (simp add: white_prefix_def WHITE_SPACE_def starts_with_def)
    then have "strip_white WHITE_SPACE (32 # rest) = strip_white WHITE_SPACE rest"
      by (simp add: strip_white_unfold [of "32 # rest"])
    then show ?thesis
      by (simp add: split_whitespace.simps)
  qed
  moreover have "split_whitespace rest = v # ws"
    using 3(2,3) by (simp add: rest_def)
  ultimately have "split_whitespace (b # r @ 32 # rest) = w # v # ws"
    by (subst split_whitespace.simps) (simp add: w)
  then show ?case
    by (simp add: w rest_def)
qed

lemma split_words_wordy: "w \<in> set (split_whitespace bs) \<Longrightarrow> wordy w"
proof (induction bs rule: split_whitespace.induct)
  case (1 bs)
  show ?case
  proof (cases "strip_white WHITE_SPACE bs")
    case (Cons b rest)
    then have stop: "white_prefix (b # rest) = None"
      using strip_white_stops [of bs] by simp
    have "wordy (b # take_word rest)"
      using take_word_again [of "b # rest"] stop by (simp add: wordy_def)
    then show ?thesis
      using 1(2) 1(1) [OF Cons] by (subst (asm) split_whitespace.simps) (auto simp: Cons)
  qed (use 1(2) in \<open>simp add: split_whitespace.simps\<close>)
qed

lemma wordy_octets:
  assumes "wordy w" "b \<in> set w"
  shows "b \<noteq> 10 \<and> b \<noteq> 13 \<and> b \<noteq> 32"
proof -
  have "b \<notin> {10, 13, 32}" if "take_word s = s" "b \<in> set s" for s
    using that
  proof (induction s)
    case (Cons c s)
    have "white_prefix (10 # s) \<noteq> None" "white_prefix (13 # s) \<noteq> None"
      by (simp_all add: white_prefix_def WHITE_SPACE_def starts_with_def)
    then show ?case
      using Cons white_prefix_space [of s] by (auto split: if_splits)
  qed simp
  then show ?thesis
    using assms by (auto simp: wordy_def)
qed

lemma ascii_wordy:
  assumes "w \<noteq> []" "\<And>b. b \<in> set w \<Longrightarrow> 33 \<le> b \<and> b < 0x80"
  shows "wordy w"
proof -
  have starts: "list_all (\<lambda>w. hd w < 33 \<or> hd w \<ge> 0x80) WHITE_SPACE"
    by code_simp
  have "white_prefix (b # s) = None" if "33 \<le> b" "b < 0x80" for b s
    using that starts white_spaces
    by (fastforce simp: white_prefix_def find_None_iff list_all_iff starts_with_iff neq_Nil_conv)
  then have "take_word s = s" if "\<And>b. b \<in> set s \<Longrightarrow> 33 \<le> b \<and> b < 0x80" for s
    using that by (induction s) simp_all
  then show ?thesis
    using assms by (simp add: wordy_def)
qed

lemma str_trim_visible:
  assumes "v \<noteq> []" "33 \<le> hd v" "hd v < 0x80" "33 \<le> last v" "last v < 0x80"
  shows "str_trim v = v"
proof -
  have hds: "list_all (\<lambda>w. hd w < 33 \<or> hd w \<ge> 0x80) WHITE_SPACE" "list_all (\<lambda>w. hd w < 33 \<or> hd w \<ge> 0x80) (map rev WHITE_SPACE)"
    by code_simp+
  have id: "strip_white ws u = u" if "list_all (\<lambda>w. hd w < 33 \<or> hd w \<ge> 0x80) ws" "u \<noteq> []" "33 \<le> hd u" "hd u < 0x80" for ws u
    using that strip_white_first [of ws "hd u" "tl u"] by (cases u) (fastforce simp: list_all_iff)+
  show ?thesis
    using assms id [OF hds(1), of v] id [OF hds(2), of "rev v"] by (simp add: str_trim_def hd_rev)
qed

section \<open>Laws of lines and numbers\<close>

lemma split_on_nonempty: "split_on s xs \<noteq> []"
  by (induction xs) (auto split: list.split)

lemma split_on_append:
  "s \<notin> set l \<Longrightarrow> split_on s (l @ s # rest) = l # split_on s rest"
  by (induction l) (auto simp: split_on_nonempty)

lemma split_on_none: "s \<notin> set l \<Longrightarrow> split_on s l = [l]"
  by (induction l) auto

lemma split_on_without: "l \<in> set (split_on s xs) \<Longrightarrow> s \<notin> set l"
  by (induction xs arbitrary: l) (auto split: if_splits list.splits)

lemma port_value_append: "port_value (xs @ [b]) = port_value xs * 10 + unat (b - 48)"
  by (simp add: port_value_def)

lemma port_value_decimal: "port_value (decimal n) = n"
proof (induction n rule: decimal.induct)
  case (1 n)
  show ?case
  proof (cases "n < 10")
    case True
    then show ?thesis
      by (subst decimal.simps) (simp add: port_value_def decimal_digit(2) del: of_nat_numeral)
  next
    case False
    then show ?thesis
      using 1 by (subst decimal.simps) (simp add: port_value_append decimal_digit(2))
  qed
qed

lemma decimal_plain: "b \<in> set (decimal n) \<Longrightarrow> 33 \<le> b \<and> b < 0x80 \<and> b \<noteq> 43 \<and> b \<noteq> 47 \<and> b \<noteq> 58"
  using decimal_digits(1) [of n]
  by (auto simp: list_all_iff is_ascii_digit_def word_le_nat_alt word_less_nat_alt)

lemma parse_uint_decimal: "n < bound \<Longrightarrow> parse_uint bound (decimal n) = Some n"
  using decimal_digits [of n] decimal_plain [of _ n]
  by (cases "decimal n") (auto simp: parse_uint_def port_value_decimal Let_def dest: sym)

lemma parse_uint_bound: "parse_uint bound t = Some n \<Longrightarrow> n < bound"
  by (auto simp: parse_uint_def Let_def split: if_splits)

lemma decimal_wordy: "wordy (decimal n)"
  using decimal_digits(2) decimal_plain by (intro ascii_wordy) auto

end
