(* ===== verification/Sip_Layer.thy ===== *)
theory Sip_Layer
  imports Sip_Key Sip_Server Rust_Text
begin

text \<open>
  The transaction layer (\<open>transaction/layer.rs\<close>): the stores of client and server transactions, the
  routing of messages, timers and failures to them, and the removal of those that ended.
\<close>

section \<open>State and operations\<close>

datatype dispatch =
    Matched transaction_key "tx_output list"
  | Created transaction_key "tx_output list"
  | Unmatched sip_message

record transaction_layer =
  ly_client :: "transaction_key \<rightharpoonup> client_transaction"
  ly_server :: "transaction_key \<rightharpoonup> server_transaction"
  ly_timers :: timers

definition layer_new :: "timers \<Rightarrow> transaction_layer" where
  "layer_new t = \<lparr>ly_client = Map.empty, ly_server = Map.empty, ly_timers = t\<rparr>"

definition layer_len :: "transaction_layer \<Rightarrow> nat \<times> nat" where
  "layer_len l = (card (dom (ly_client l)), card (dom (ly_server l)))"

text \<open>Storing a transaction back after a step: a terminated one is removed.\<close>

definition put_client :: "transaction_layer \<Rightarrow> transaction_key \<Rightarrow> client_transaction \<Rightarrow> transaction_layer" where
  "put_client l k c =
     l\<lparr>ly_client := (if client_terminated c then (ly_client l)(k := None) else (ly_client l)(k \<mapsto> c))\<rparr>"

definition put_server :: "transaction_layer \<Rightarrow> transaction_key \<Rightarrow> server_transaction \<Rightarrow> transaction_layer" where
  "put_server l k s =
     l\<lparr>ly_server := (if server_terminated s then (ly_server l)(k := None) else (ly_server l)(k \<mapsto> s))\<rparr>"

definition send_request :: "transaction_layer \<Rightarrow> request \<Rightarrow> reliability
    \<Rightarrow> transaction_layer \<times> (transaction_key \<times> tx_output list) option" where
  "send_request l r rel =
     (case from_sent_request r of
        None \<Rightarrow> (l, None)
      | Some key \<Rightarrow>
          (case client_new r rel (ly_timers l) of
             (tx, outputs) \<Rightarrow> (l\<lparr>ly_client := (ly_client l)(key \<mapsto> tx)\<rparr>, Some (key, outputs))))"

definition receive_request :: "transaction_layer \<Rightarrow> request \<Rightarrow> reliability \<Rightarrow> transaction_layer \<times> dispatch" where
  "receive_request l r rel =
     (case from_request r of
        None \<Rightarrow> (l, Unmatched (Request r))
      | Some key \<Rightarrow>
          (case ly_server l key of
             Some tx \<Rightarrow>
               (case server_on_request tx r of
                  (tx', outputs) \<Rightarrow> (put_server l key tx', Matched key outputs))
           | None \<Rightarrow>
               (if rq_method r = ACK then (l, Unmatched (Request r))
                else
                  (case server_new r rel (ly_timers l) of
                     (tx, outputs) \<Rightarrow>
                       (l\<lparr>ly_server := (ly_server l)(key \<mapsto> tx)\<rparr>, Created key outputs)))))"

definition receive_response :: "transaction_layer \<Rightarrow> response \<Rightarrow> transaction_layer \<times> dispatch" where
  "receive_response l rsp =
     (case from_response rsp of
        None \<Rightarrow> (l, Unmatched (Response rsp))
      | Some key \<Rightarrow>
          (case ly_client l key of
             None \<Rightarrow> (l, Unmatched (Response rsp))
           | Some tx \<Rightarrow>
               (case client_on_response tx rsp of
                  (tx', outputs) \<Rightarrow> (put_client l key tx', Matched key outputs))))"

definition receive :: "transaction_layer \<Rightarrow> sip_message \<Rightarrow> reliability \<Rightarrow> transaction_layer \<times> dispatch" where
  "receive l m rel =
     (case m of Request r \<Rightarrow> receive_request l r rel | Response rsp \<Rightarrow> receive_response l rsp)"

definition send_response :: "transaction_layer \<Rightarrow> transaction_key \<Rightarrow> response \<Rightarrow> transaction_layer \<times> tx_output list" where
  "send_response l key rsp =
     (case ly_server l key of
        None \<Rightarrow> (l, [])
      | Some tx \<Rightarrow> (case on_tu_response tx rsp of (tx', outputs) \<Rightarrow> (put_server l key tx', outputs)))"

definition abandon :: "transaction_layer \<Rightarrow> transaction_key \<Rightarrow> transaction_layer \<times> bool" where
  "abandon l key = (l\<lparr>ly_server := (ly_server l)(key := None)\<rparr>, ly_server l key \<noteq> None)"

definition layer_on_timer :: "transaction_layer \<Rightarrow> transaction_key \<Rightarrow> timer \<Rightarrow> transaction_layer \<times> tx_output list" where
  "layer_on_timer l key timer =
     (case ly_client l key of
        Some tx \<Rightarrow> (case client_on_timer tx timer of (tx', outputs) \<Rightarrow> (put_client l key tx', outputs))
      | None \<Rightarrow>
          (case ly_server l key of
             Some tx \<Rightarrow> (case server_on_timer tx timer of (tx', outputs) \<Rightarrow> (put_server l key tx', outputs))
           | None \<Rightarrow> (l, [])))"

definition layer_on_transport_error :: "transaction_layer \<Rightarrow> transaction_key \<Rightarrow> transaction_layer \<times> tx_output list" where
  "layer_on_transport_error l key =
     (case ly_client l key of
        Some tx \<Rightarrow>
          (l\<lparr>ly_client := (ly_client l)(key := None)\<rparr>, snd (client_on_transport_error tx))
      | None \<Rightarrow>
          (case ly_server l key of
             Some tx \<Rightarrow>
               (l\<lparr>ly_server := (ly_server l)(key := None)\<rparr>, snd (server_on_transport_error tx))
           | None \<Rightarrow> (l, [])))"

definition server_request :: "transaction_layer \<Rightarrow> transaction_key \<Rightarrow> request option" where
  "server_request l key = map_option st_request (ly_server l key)"

definition client_request :: "transaction_layer \<Rightarrow> transaction_key \<Rightarrow> request option" where
  "client_request l key = map_option ct_request (ly_client l key)"

section \<open>Sequences of operations\<close>

datatype layer_op =
    Op_SendRequest request reliability
  | Op_Receive sip_message reliability
  | Op_SendResponse transaction_key response
  | Op_Abandon transaction_key
  | Op_Timer transaction_key timer
  | Op_TransportError transaction_key

text \<open>An operation, with the transaction it concerned and the outputs it produced.\<close>

definition dispatched :: "dispatch \<Rightarrow> (transaction_key \<times> tx_output list) option" where
  "dispatched d = (case d of Matched k out \<Rightarrow> Some (k, out) | Created k out \<Rightarrow> Some (k, out) | Unmatched _ \<Rightarrow> None)"

fun layer_step :: "layer_op \<Rightarrow> transaction_layer
    \<Rightarrow> transaction_layer \<times> (transaction_key \<times> tx_output list) option" where
  "layer_step (Op_SendRequest r rel) l = send_request l r rel"
| "layer_step (Op_Receive m rel) l = (case receive l m rel of (l', d) \<Rightarrow> (l', dispatched d))"
| "layer_step (Op_SendResponse k rsp) l = (case send_response l k rsp of (l', out) \<Rightarrow> (l', Some (k, out)))"
| "layer_step (Op_Abandon k) l = (fst (abandon l k), None)"
| "layer_step (Op_Timer k timer) l = (case layer_on_timer l k timer of (l', out) \<Rightarrow> (l', Some (k, out)))"
| "layer_step (Op_TransportError k) l =
     (case layer_on_transport_error l k of (l', out) \<Rightarrow> (l', Some (k, out)))"

fun layer_run :: "layer_op list \<Rightarrow> transaction_layer \<Rightarrow> transaction_layer" where
  "layer_run [] l = l"
| "layer_run (x # xs) l = layer_run xs (fst (layer_step x l))"

text \<open>Requests as the parser delivers them: no known method hides behind \<open>Method_Other\<close>.\<close>

fun proper_op :: "layer_op \<Rightarrow> bool" where
  "proper_op (Op_SendRequest r rel) \<longleftrightarrow> proper_method (rq_method r)"
| "proper_op (Op_Receive (Request r) rel) \<longleftrightarrow> proper_method (rq_method r)"
| "proper_op _ \<longleftrightarrow> True"

section \<open>Invariant\<close>

definition client_filed :: "timers \<Rightarrow> transaction_key \<Rightarrow> client_transaction \<Rightarrow> bool" where
  "client_filed t k c \<longleftrightarrow>
     \<not> client_terminated c \<and> from_sent_request (ct_request c) = Some k \<and>
     client_shape (ct_request c) (ct_reliability c) t c"

definition server_filed :: "timers \<Rightarrow> transaction_key \<Rightarrow> server_transaction \<Rightarrow> bool" where
  "server_filed t k s \<longleftrightarrow>
     \<not> server_terminated s \<and> from_request (st_request s) = Some k \<and>
     proper_method (rq_method (st_request s)) \<and>
     server_shape (st_request s) (st_reliability s) t s"

definition layer_ok :: "transaction_layer \<Rightarrow> bool" where
  "layer_ok l \<longleftrightarrow>
     (\<forall>k c. ly_client l k = Some c \<longrightarrow> client_filed (ly_timers l) k c) \<and>
     (\<forall>k s. ly_server l k = Some s \<longrightarrow> server_filed (ly_timers l) k s)"

lemma client_filed_step:
  "client_filed t k c \<Longrightarrow> client_step i c = (c', out) \<Longrightarrow> \<not> client_terminated c' \<Longrightarrow> client_filed t k c'"
  using client_shape_step [of "ct_request c" "ct_reliability c" t c i c' out]
  by (auto simp: client_filed_def client_shape_def)

lemma server_filed_step:
  "server_filed t k s \<Longrightarrow> server_input_ok (st_request s) i \<Longrightarrow> server_step i s = (s', out) \<Longrightarrow>
    \<not> server_terminated s' \<Longrightarrow> server_filed t k s'"
  using server_shape_step [of "st_request s" "st_reliability s" t s i s' out]
  by (auto simp: server_filed_def server_shape_def)

lemma layer_ok_put_client:
  "layer_ok l \<Longrightarrow> (\<not> client_terminated c \<Longrightarrow> client_filed (ly_timers l) k c) \<Longrightarrow> layer_ok (put_client l k c)"
  by (auto simp: layer_ok_def put_client_def)

lemma layer_ok_put_server:
  "layer_ok l \<Longrightarrow> (\<not> server_terminated s \<Longrightarrow> server_filed (ly_timers l) k s) \<Longrightarrow> layer_ok (put_server l k s)"
  by (auto simp: layer_ok_def put_server_def)

text \<open>Requests that share a key are copies of one another, or an ACK and its INVITE.\<close>

lemma same_key_input:
  assumes "from_request r = Some k" "from_request q = Some k"
    and "proper_method (rq_method r)" "proper_method (rq_method q)" "rq_method r \<noteq> ACK"
  shows "server_input_ok r (SI_Request q)"
proof -
  have invite: "proper_method INVITE"
    by (simp add: proper_method_def method_parse_def method_bytes_def)
  have "match_method (rq_method q) = match_method (rq_method r)"
    using from_request_method [OF assms(1)] from_request_method [OF assms(2)] by simp
  then have "(if rq_method q = ACK then method_bytes INVITE else method_bytes (rq_method q)) =
      method_bytes (rq_method r)"
    using assms(5) by (simp add: match_method_def split: sip_method.splits if_splits)
  with method_bytes_inject [OF assms(4,3)] method_bytes_inject [OF invite assms(3)] show ?thesis
    by (auto split: if_splits)
qed

lemma layer_ok_send_request:
  assumes "layer_ok l"
  shows "layer_ok (fst (send_request l r rel))"
proof (cases "from_sent_request r")
  case (Some k)
  obtain c out where c: "client_new r rel (ly_timers l) = (c, out)"
    by (cases "client_new r rel (ly_timers l)")
  have "\<not> client_terminated c" "ct_request c = r"
    using c by (auto simp: client_new_def client_terminated_def Let_def split: if_splits)
  with client_shape_new [OF c] Some have "client_filed (ly_timers l) k c"
    by (simp add: client_filed_def client_shape_def)
  with assms Some c show ?thesis
    by (auto simp: send_request_def layer_ok_def)
qed (use assms in \<open>simp add: send_request_def\<close>)

lemma layer_ok_matched_request:
  assumes ok: "layer_ok l" and q: "proper_method (rq_method q)" "from_request q = Some k"
    and s: "ly_server l k = Some s"
  shows "layer_ok (put_server l k (fst (server_on_request s q)))"
proof (rule layer_ok_put_server [OF ok])
  assume live: "\<not> server_terminated (fst (server_on_request s q))"
  from ok s have filed: "server_filed (ly_timers l) k s" by (simp add: layer_ok_def)
  then have "server_input_ok (st_request s) (SI_Request q)"
    using q by (intro same_key_input) (auto simp: server_filed_def server_shape_def)
  with filed live show "server_filed (ly_timers l) k (fst (server_on_request s q))"
    using server_filed_step [of "ly_timers l" k s "SI_Request q"]
    by (cases "server_on_request s q") simp
qed

lemma layer_ok_receive_request:
  assumes ok: "layer_ok l" and q: "proper_method (rq_method q)"
  shows "layer_ok (fst (receive_request l q rel))"
proof (cases "from_request q")
  case (Some k)
  show ?thesis
  proof (cases "ly_server l k")
    case None
    obtain s out where s: "server_new q rel (ly_timers l) = (s, out)"
      by (cases "server_new q rel (ly_timers l)")
    have "server_filed (ly_timers l) k s" if "rq_method q \<noteq> ACK"
      using server_shape_new [OF that s] Some q s
      by (auto simp: server_filed_def server_shape_def server_terminated_def server_new_def Let_def
          split: if_splits)
    with ok None Some s show ?thesis
      by (auto simp: receive_request_def layer_ok_def)
  next
    case (Some s)
    with layer_ok_matched_request [OF ok q \<open>from_request q = Some k\<close> Some] show ?thesis
      using \<open>from_request q = Some k\<close> by (simp add: receive_request_def case_prod_unfold)
  qed
qed (use ok in \<open>simp add: receive_request_def\<close>)

lemma layer_ok_client_step:
  assumes "layer_ok l" "ly_client l k = Some c"
  shows "layer_ok (put_client l k (fst (client_step i c)))"
  using assms client_filed_step [of "ly_timers l" k c i]
  by (intro layer_ok_put_client, simp) (cases "client_step i c", simp add: layer_ok_def)

lemma layer_ok_server_step:
  assumes "layer_ok l" "ly_server l k = Some s" "server_input_ok (st_request s) i"
  shows "layer_ok (put_server l k (fst (server_step i s)))"
  using assms server_filed_step [of "ly_timers l" k s i]
  by (intro layer_ok_put_server, simp) (cases "server_step i s", simp add: layer_ok_def)

lemma layer_ok_step:
  assumes ok: "layer_ok l" and proper: "proper_op x"
  shows "layer_ok (fst (layer_step x l))"
proof (cases x)
  case (Op_SendRequest r rel)
  with layer_ok_send_request [OF ok] show ?thesis by simp
next
  case (Op_Receive m rel)
  show ?thesis
  proof (cases m)
    case (Request q)
    with layer_ok_receive_request [OF ok, of q rel] proper Op_Receive show ?thesis
      by (simp add: receive_def case_prod_unfold)
  next
    case (Response rsp)
    with ok layer_ok_client_step [OF ok, of _ _ "CI_Response rsp"] Op_Receive show ?thesis
      by (fastforce simp: receive_def receive_response_def split: option.split prod.split)
  qed
next
  case (Op_SendResponse k rsp)
  with ok layer_ok_server_step [OF ok, of k _ "SI_Response rsp"] show ?thesis
    by (fastforce simp: send_response_def split: option.split prod.split)
next
  case (Op_Abandon k)
  with ok show ?thesis by (auto simp: abandon_def layer_ok_def)
next
  case (Op_Timer k timer)
  with ok layer_ok_client_step [OF ok, of k _ "CI_Timer timer"]
    layer_ok_server_step [OF ok, of k _ "SI_Timer timer"] show ?thesis
    by (fastforce simp: layer_on_timer_def split: option.split prod.split)
next
  case (Op_TransportError k)
  with ok show ?thesis
    by (auto simp: layer_on_transport_error_def layer_ok_def split: option.split)
qed

lemma layer_ok_new: "layer_ok (layer_new t)"
  by (simp add: layer_ok_def layer_new_def)

lemma layer_ok_run: "layer_ok l \<Longrightarrow> list_all proper_op xs \<Longrightarrow> layer_ok (layer_run xs l)"
  by (induction xs arbitrary: l) (simp_all add: layer_ok_step)

text \<open>Where the announcement of an end goes, the transaction is gone.\<close>

definition retired :: "transaction_layer \<Rightarrow> layer_op \<Rightarrow> transaction_key \<Rightarrow> bool" where
  "retired l x k \<longleftrightarrow>
     (case x of
        Op_SendRequest _ _ \<Rightarrow> ly_client l k = None
      | Op_Receive (Request _) _ \<Rightarrow> ly_server l k = None
      | Op_Receive (Response _) _ \<Rightarrow> ly_client l k = None
      | Op_SendResponse _ _ \<Rightarrow> ly_server l k = None
      | Op_Abandon _ \<Rightarrow> ly_server l k = None
      | _ \<Rightarrow> ly_client l k = None \<or> ly_server l k = None)"

lemma client_put_retired:
  "client_step i c = (c', out) \<Longrightarrow> x \<in> set out \<Longrightarrow> is_terminated_output x \<Longrightarrow>
    ly_client (put_client l k c') k = None"
  using client.lives_silent [of i c c' out] by (auto simp: put_client_def)

lemma server_put_retired:
  "server_step i s = (s', out) \<Longrightarrow> x \<in> set out \<Longrightarrow> is_terminated_output x \<Longrightarrow>
    ly_server (put_server l k s') k = None"
  using server.lives_silent [of i s s' out] by (auto simp: put_server_def)

lemma layer_retires:
  assumes "layer_step x l = (l', Some (k, out))" "z \<in> set out" "is_terminated_output z"
  shows "retired l' x k"
proof (cases x)
  case (Op_SendRequest r rel)
  with assms show ?thesis
    by (auto simp: send_request_def client_new_def Let_def split: option.splits if_splits)
next
  case (Op_Receive m rel)
  show ?thesis
  proof (cases m)
    case (Request q)
    with Op_Receive assms show ?thesis
      using server_put_retired [of "SI_Request q" _ _ out z l k]
      by (auto simp: receive_def receive_request_def dispatched_def retired_def server_new_def Let_def
          split: option.splits prod.splits if_splits)
  next
    case (Response rsp)
    with Op_Receive assms show ?thesis
      using client_put_retired [of "CI_Response rsp" _ _ out z l k]
      by (auto simp: receive_def receive_response_def dispatched_def retired_def
          split: option.splits prod.splits)
  qed
next
  case (Op_SendResponse k' rsp)
  with assms show ?thesis
    using server_put_retired [of "SI_Response rsp" _ _ out z l k]
    by (auto simp: send_response_def retired_def split: option.splits prod.splits)
next
  case (Op_Timer k' timer)
  with assms show ?thesis
    using client_put_retired [of "CI_Timer timer" _ _ out z l k]
      server_put_retired [of "SI_Timer timer" _ _ out z l k]
    by (auto simp: layer_on_timer_def retired_def split: option.splits prod.splits)
next
  case (Op_TransportError k')
  with assms show ?thesis
    by (auto simp: layer_on_transport_error_def retired_def split: option.splits)
qed (use assms in simp)

section \<open>Sample exchanges\<close>

lemma client_new_request [simp]: "ct_request (fst (client_new r rel t)) = r"
  by (simp add: client_new_def Let_def)

text \<open>An INVITE with the given topmost \<open>Via\<close>, a response that echoes it with a \<open>To\<close> tag, a CANCEL.\<close>

definition sample_headers :: "string \<Rightarrow> string \<Rightarrow> string \<Rightarrow> headers" where
  "sample_headers v to cs =
     [header_new_unchecked H_Via (ascii v),
      header_new_unchecked H_From (ascii ''<sip:a@h>;tag=1''),
      header_new_unchecked H_To (ascii to),
      header_new_unchecked H_CallId (ascii ''c1''),
      header_new_unchecked H_CSeq (ascii cs)]"

definition sample_request :: "sip_method \<Rightarrow> string \<Rightarrow> string \<Rightarrow> request" where
  "sample_request m v cs =
     (request_new m (uri_sip (Name (ascii ''h''))))\<lparr>rq_headers := sample_headers v ''<sip:b@h>'' cs\<rparr>"

definition sample_response :: "u16 \<Rightarrow> string \<Rightarrow> string \<Rightarrow> response" where
  "sample_response code v cs =
     (response_new (StatusCode code) [])\<lparr>rs_headers := sample_headers v ''<sip:b@h>;tag=9'' cs\<rparr>"

definition modern_via :: string where
  "modern_via = ''SIP/2.0/UDP a;branch=z9hG4bK1''"

definition legacy_via :: string where
  "legacy_via = ''SIP/2.0/UDP a''"

abbreviation modern_key :: "bytes \<Rightarrow> transaction_key" where
  "modern_key \<equiv> Rfc3261 (ascii ''z9hG4bK1'') (ascii ''a'')"

lemma modern_via_decode:
  "via_decode (ascii modern_via) =
    Inr \<lparr>via_protocol = ascii ''SIP'', via_version = ascii ''2.0'', via_transport = ascii ''UDP'',
         via_host = Name (ascii ''a''), via_port = None,
         via_params = [\<lparr>hp_name = ascii ''branch'', hp_value = Some (ascii ''z9hG4bK1'')\<rparr>]\<rparr>"
  by code_simp

lemma legacy_via_decode:
  "via_decode (ascii legacy_via) =
    Inr \<lparr>via_protocol = ascii ''SIP'', via_version = ascii ''2.0'', via_transport = ascii ''UDP'',
         via_host = Name (ascii ''a''), via_port = None, via_params = []\<rparr>"
  by code_simp

lemma sample_values:
  "header_value (header_new_unchecked n (ascii modern_via)) = ascii modern_via"
  "header_value (header_new_unchecked n (ascii legacy_via)) = ascii legacy_via"
  "header_value (header_new_unchecked n (ascii ''1 INVITE'')) = ascii ''1 INVITE''"
  "header_value (header_new_unchecked n (ascii ''<sip:b@h>'')) = ascii ''<sip:b@h>''"
  "header_value (header_new_unchecked n (ascii ''<sip:b@h>;tag=9'')) = ascii ''<sip:b@h>;tag=9''"
  by (simp_all add: header_value_def raw_value_def header_new_unchecked_def ascii_def trim_def
      is_ws_def modern_via_def legacy_via_def)

lemma invite_cseq_decode: "cseq_decode (ascii ''1 INVITE'') = Inr \<lparr>cs_sequence = 1, cs_method = INVITE\<rparr>"
  by (simp add: cseq_decode_def ascii_def trim_def is_ws_def skip_ws_def is_token_char_def
      is_ascii_alphanumeric_def is_ascii_digit_def is_ascii_uppercase_def is_ascii_lowercase_def
      parse_u64_def method_parse_def)

lemma sample_get:
  "headers_get (sample_headers v to cs) H_Via = Some (header_new_unchecked H_Via (ascii v))"
  "headers_get (sample_headers v to cs) H_From = Some (header_new_unchecked H_From (ascii ''<sip:a@h>;tag=1''))"
  "headers_get (sample_headers v to cs) H_To = Some (header_new_unchecked H_To (ascii to))"
  "headers_get (sample_headers v to cs) H_CallId = Some (header_new_unchecked H_CallId (ascii ''c1''))"
  "headers_get (sample_headers v to cs) H_CSeq = Some (header_new_unchecked H_CSeq (ascii cs))"
  by (simp_all add: sample_headers_def header_new_unchecked_def)

lemma sample_branch: "via_branch \<lparr>via_protocol = p, via_version = w, via_transport = u, via_host = h,
    via_port = q, via_params = [\<lparr>hp_name = ascii ''branch'', hp_value = Some b\<rparr>]\<rparr> = Some b"
  by (simp add: via_branch_def via_param_def param_value_def param_def header_param_is_def)

lemma sample_spellings:
  "starts_with (ascii ''z9hG4bK1'') BRANCH_MAGIC_COOKIE" "to_ascii_lowercase (ascii ''a'') = ascii ''a''"
  by (simp_all add: starts_with_def BRANCH_MAGIC_COOKIE_def ascii_def to_ascii_lowercase_def
      lower_byte_def is_ascii_uppercase_def)

lemma sample_modern_key:
  "from_request (sample_request m modern_via cs) = Some (modern_key (match_method m))"
  "from_sent_request (sample_request m modern_via cs) = Some (modern_key (match_method m))"
  by (simp_all add: from_request_def from_sent_request_def sample_request_def request_new_def
      typed_ok_def typed_def sample_get sample_values modern_via_decode has_rfc3261_branch_def
      rfc3261_key_def sample_branch sent_by_def host_to_bytes_def sample_spellings)

lemma sample_legacy_key:
  "from_request (sample_request INVITE legacy_via ''1 INVITE'') =
    Some (Legacy (uri_to_bytes (uri_sip (Name (ascii ''h'')))) (ascii legacy_via)
      (from_tag (sample_headers legacy_via ''<sip:b@h>'' ''1 INVITE''))
      (to_tag (sample_headers legacy_via ''<sip:b@h>'' ''1 INVITE''))
      (call_id (sample_headers legacy_via ''<sip:b@h>'' ''1 INVITE'')) 1 (method_bytes INVITE))"
  by (simp add: from_request_def sample_request_def request_new_def typed_ok_def typed_def sample_get
      sample_values legacy_via_decode has_rfc3261_branch_def via_branch_def via_param_def
      param_value_def param_def invite_cseq_decode top_via_def headers_value_def match_method_simps)

lemma sample_to_tags:
  "to_tag (sample_headers v ''<sip:b@h>'' cs) = []"
  "to_tag (sample_headers v ''<sip:b@h>;tag=9'' cs) = ascii ''9''"
proof -
  have "(case to_decode (ascii ''<sip:b@h>'') of Inr a \<Rightarrow> address_tag a = None | _ \<Rightarrow> False)"
    "(case to_decode (ascii ''<sip:b@h>;tag=9'') of Inr a \<Rightarrow> address_tag a = Some (ascii ''9'') | _ \<Rightarrow> False)"
    by code_simp+
  then show "to_tag (sample_headers v ''<sip:b@h>'' cs) = []"
    "to_tag (sample_headers v ''<sip:b@h>;tag=9'' cs) = ascii ''9''"
    by (auto simp: to_tag_def typed_ok_def typed_def sample_get sample_values split: sum.splits)
qed

text \<open>The layer after receiving an INVITE and sending a rejection.\<close>

definition rejected_layer :: "string \<Rightarrow> transaction_layer" where
  "rejected_layer v =
     layer_run
       [Op_Receive (Request (sample_request INVITE v ''1 INVITE'')) Reliable,
        Op_SendResponse (the (from_request (sample_request INVITE v ''1 INVITE'')))
          (sample_response 486 v ''1 INVITE'')] (layer_new default_timers)"

definition rejected_tx :: "string \<Rightarrow> server_transaction" where
  "rejected_tx v =
     fst (on_tu_response (fst (server_new (sample_request INVITE v ''1 INVITE'') Reliable default_timers))
       (sample_response 486 v ''1 INVITE''))"

lemma rejected_layer_eval:
  assumes "from_request (sample_request INVITE v ''1 INVITE'') = Some k"
  shows "ly_server (rejected_layer v) k = Some (rejected_tx v)"
    "st_request (rejected_tx v) = sample_request INVITE v ''1 INVITE''"
    "st_state (rejected_tx v) = S_Completed"
  using assms
  by (simp_all add: rejected_layer_def rejected_tx_def receive_def receive_request_def layer_new_def
      dispatched_def send_response_def put_server_def server_new_def on_tu_response_def
      server_terminated_def sample_response_def response_new_def sample_statuses
      sample_request_def request_new_def Let_def is_reliable_def)

lemma rejected_layer_ok: "layer_ok (rejected_layer v)"
  unfolding rejected_layer_def
  by (rule layer_ok_run [OF layer_ok_new])
    (simp add: sample_request_def request_new_def proper_method_def method_parse_def method_bytes_def)

section \<open>Properties\<close>

text \<open>
  C35: The stores never leak. After any sequence of operations every stored transaction is live,
  filed under the key of the request that created it, and in a state its own machine has (no
  INVITE client in Trying, no non-INVITE server in Confirmed or Accepted); and an operation whose
  outputs announce the end of a transaction has removed it.
\<close>

theorem layer_no_leak:
  assumes "list_all proper_op xs"
  shows "layer_ok (layer_run xs (layer_new t)) \<and>
    (\<forall>x l' k out. layer_step x (layer_run xs (layer_new t)) = (l', Some (k, out)) \<longrightarrow>
       (\<exists>z \<in> set out. is_terminated_output z) \<longrightarrow> retired l' x k)"
  using layer_ok_run [OF layer_ok_new assms] layer_retires by blast

theorem layer_no_leak_witness:
  "layer_ok (layer_run [Op_Receive (Request (sample_request INVITE modern_via ''1 INVITE'')) Reliable]
     (layer_new default_timers))"
proof -
  have "proper_method INVITE"
    by (simp add: proper_method_def method_parse_def method_bytes_def)
  then show ?thesis
    using layer_no_leak [of "[Op_Receive (Request (sample_request INVITE modern_via ''1 INVITE'')) Reliable]"
        default_timers]
    by (simp add: sample_request_def request_new_def)
qed

text \<open>What tells two sent-by values apart: the host, whatever its letter case, or the port.\<close>

definition host_key :: "via \<Rightarrow> bytes" where
  "host_key v = to_ascii_lowercase (host_to_bytes (via_host v))"

lemma port_text_inject: "decimal (unat p) = decimal (unat q) \<longleftrightarrow> p = (q :: u16)"
  using port_value_decimal [of "unat p"] port_value_decimal [of "unat q"] by (metis word_unat_eq_iff)

lemma sent_by_differs:
  "host_key w = host_key v \<and> via_port w = via_port v \<Longrightarrow> sent_by w = sent_by v"
  "(host_key w = host_key v) \<noteq> (via_port w = via_port v) \<Longrightarrow> sent_by w \<noteq> sent_by v"
  by (auto simp: sent_by_def host_key_def port_text_inject split: option.splits)

lemma modern_client_key:
  assumes "layer_ok l" "ly_client l k = Some c" "typed_ok H_Via via_decode (rq_headers (ct_request c)) = Some v"
    "has_rfc3261_branch v"
  obtains b where "via_branch v = Some b" "k = Rfc3261 b (sent_by v) (match_method (rq_method (ct_request c)))"
proof -
  have "from_sent_request (ct_request c) = Some k"
    using assms(1,2) by (simp add: layer_ok_def client_filed_def)
  then show ?thesis
    using that assms(3,4) by (auto simp: from_sent_request_def rfc3261_key_def)
qed

text \<open>
  A response reaches the transaction that sent its request, and no other. Let a client transaction
  of an RFC 3261 branch be in the store, and let any response arrive whose topmost \<open>Via\<close> and \<open>CSeq\<close> can
  be read. If that \<open>Via\<close> has the request's branch, its sent-by host in any letter case and its port,
  and the \<open>CSeq\<close> its method, the response is given to exactly that transaction, whatever else the \<open>Via\<close>
  has been given on the way (\<open>received\<close>, \<open>rport\<close>, another transport or order of parameters) and
  whatever the other headers say. If the branch differs, or the method, or one of host and port, the
  response is not given to that transaction, which stays as it was.
\<close>

theorem layer_response_matched:
  assumes "layer_ok l" "ly_client l k = Some c"
    and "typed_ok H_Via via_decode (rq_headers (ct_request c)) = Some v" "has_rfc3261_branch v"
    and "typed_ok H_Via via_decode (rs_headers rsp) = Some w"
    and "typed_ok H_CSeq cseq_decode (rs_headers rsp) = Some cs"
  shows "(via_branch w = via_branch v \<and> host_key w = host_key v \<and> via_port w = via_port v \<and>
      match_method (cs_method cs) = match_method (rq_method (ct_request c)) \<longrightarrow>
      receive l (Response rsp) rel =
        (put_client l k (fst (client_on_response c rsp)), Matched k (snd (client_on_response c rsp)))) \<and>
    (via_branch w \<noteq> via_branch v \<or> (host_key w = host_key v) \<noteq> (via_port w = via_port v) \<or>
      match_method (cs_method cs) \<noteq> match_method (rq_method (ct_request c)) \<longrightarrow>
      ly_client (fst (receive l (Response rsp) rel)) k = Some c \<and>
      (\<forall>out. snd (receive l (Response rsp) rel) \<noteq> Matched k out))"
proof -
  obtain b where b: "via_branch v = Some b" "k = Rfc3261 b (sent_by v) (match_method (rq_method (ct_request c)))"
    using modern_client_key [OF assms(1-4)] .
  obtain k' where k': "from_response rsp = Some k'"
    using assms(5,6)
    by (cases "has_rfc3261_branch w") (auto simp: from_response_def rfc3261_key_def has_rfc3261_branch_def split: option.splits)
  have same: "k' = k \<longleftrightarrow> via_branch w = via_branch v \<and> sent_by w = sent_by v \<and>
      match_method (cs_method cs) = match_method (rq_method (ct_request c))"
    using k' assms(4-6) b
    by (auto simp: from_response_def rfc3261_key_def legacy_client_def has_rfc3261_branch_def Let_def split: if_splits option.splits)
  have hit: "receive l (Response rsp) rel =
      (put_client l k (fst (client_on_response c rsp)), Matched k (snd (client_on_response c rsp)))" if "k' = k"
    using that k' assms(2) by (simp add: receive_def receive_response_def case_prod_unfold)
  have miss: "ly_client (fst (receive l (Response rsp) rel)) k = Some c \<and>
      (\<forall>out. snd (receive l (Response rsp) rel) \<noteq> Matched k out)" if "k' \<noteq> k"
    using that k' assms(2)
    by (auto simp: receive_def receive_response_def put_client_def case_prod_unfold split: option.splits)
  show ?thesis
    using hit miss same sent_by_differs [of w v] by blast
qed

text \<open>The answer to a request that crossed a translator: its \<open>Via\<close> was given the address it came from.\<close>

definition stamped_via :: string where
  "stamped_via = ''SIP/2.0/UDP A;received=192.0.2.1;rport=5060;branch=z9hG4bK1''"

lemma stamped_via_decode:
  "case via_decode (trim (ascii stamped_via)) of
     Inr w \<Rightarrow> via_branch w = Some (ascii ''z9hG4bK1'') \<and> host_key w = ascii ''a'' \<and> via_port w = None
   | Inl _ \<Rightarrow> False"
  by code_simp

theorem layer_response_matched_witness:
  "\<exists>l' out. receive (fst (send_request (layer_new default_timers)
       (sample_request INVITE modern_via ''1 INVITE'') Reliable))
     (Response (sample_response 486 stamped_via ''1 INVITE'')) Reliable =
     (l', Matched (modern_key (method_bytes INVITE)) out)"
proof -
  let ?r = "sample_request INVITE modern_via ''1 INVITE''"
  let ?l = "fst (send_request (layer_new default_timers) ?r Reliable)"
  let ?c = "fst (client_new ?r Reliable default_timers)"
  have ok: "layer_ok ?l"
    by (rule layer_ok_send_request [OF layer_ok_new])
  have c: "ly_client ?l (modern_key (method_bytes INVITE)) = Some ?c"
    by (simp add: send_request_def sample_modern_key match_method_simps layer_new_def case_prod_unfold)
  obtain v where v: "typed_ok H_Via via_decode (rq_headers (ct_request ?c)) = Some v" "has_rfc3261_branch v"
    "via_branch v = Some (ascii ''z9hG4bK1'')" "host_key v = ascii ''a''" "via_port v = None"
    by (simp add: sample_request_def request_new_def typed_ok_def typed_def sample_get sample_values
        modern_via_decode has_rfc3261_branch_def sample_branch sample_spellings host_key_def host_to_bytes_def)
  have stamped: "header_value (header_new_unchecked H_Via (ascii stamped_via)) = trim (ascii stamped_via)"
    by (simp add: header_value_def raw_value_def header_new_unchecked_def Let_def) (simp add: ascii_def stamped_via_def)
  obtain w where w: "typed_ok H_Via via_decode (rs_headers (sample_response 486 stamped_via ''1 INVITE'')) = Some w"
    "via_branch w = Some (ascii ''z9hG4bK1'')" "host_key w = ascii ''a''" "via_port w = None"
    using stamped_via_decode
    by (auto simp: sample_response_def response_new_def typed_ok_def typed_def sample_get stamped split: sum.splits)
  have cs: "typed_ok H_CSeq cseq_decode (rs_headers (sample_response 486 stamped_via ''1 INVITE'')) =
      Some \<lparr>cs_sequence = 1, cs_method = INVITE\<rparr>"
    by (simp add: sample_response_def response_new_def typed_ok_def typed_def sample_get
        sample_values invite_cseq_decode)
  have "match_method INVITE = match_method (rq_method (ct_request ?c))"
    by (simp add: sample_request_def request_new_def)
  then show ?thesis
    using layer_response_matched [OF ok c v(1,2) w(1) cs, of Reliable] v(3-5) w(2-4) by auto
qed

text \<open>
  The sent-by text is not one host and port alone: an IPv6 address is written into it without its
  brackets, so a port can be read as the address's last group.
\<close>

lemma sent_by_ambiguous:
  assumes "via_host v = Ip (V6 [0, 0, 0, 0, 0, 0, 0, 1])" "via_port v = Some 5060"
    and "via_host w = Ip (V6 [0, 0, 0, 0, 0, 0, 1, 0x5060])" "via_port w = None"
  shows "sent_by v = sent_by w"
proof -
  have "show_ipv6 [0, 0, 0, 0, 0, 0, 0, 1] = ascii ''::1''" "show_ipv6 [0, 0, 0, 0, 0, 0, 1, 0x5060] = ascii ''::1:5060''"
    by (simp_all add: show_ipv6_def fmt_subslice_def lower_hex.simps hex_digit_def ascii_def)
  moreover have "decimal 5060 = ascii ''5060''"
    by (simp add: decimal.simps ascii_def)
  moreover have "to_ascii_lowercase (ascii ''::1'') = ascii ''::1''" "to_ascii_lowercase (ascii ''::1:5060'') = ascii ''::1:5060''"
    by code_simp+
  ultimately show ?thesis
    by (simp add: sent_by_def assms host_to_bytes_def show_ip_def) (simp add: ascii_def)
qed

text \<open>
  The ACK of a rejected INVITE ends its retransmissions. For an INVITE with an RFC 3261 branch
  whose transaction has been answered with a rejection, the ACK the client machine builds is
  dispatched to that transaction, which confirms it, cancels timers G and H and tells the
  transaction user nothing.
\<close>

theorem layer_ack_confirms:
  assumes "layer_ok l" "ly_server l k = Some s" "st_state s = S_Completed"
    "rq_method (st_request s) = INVITE" "\<not> is_legacy k"
  shows "\<exists>l' out. receive l (Request (make_ack (st_request s) rsp)) rel = (l', Matched k out) \<and>
      map_option st_state (ly_server l' k) = Some S_Confirmed \<and>
      ClearTimer Timer_G \<in> set out \<and> ClearTimer Timer_H \<in> set out \<and> tu_events out = []"
proof -
  have "from_request (st_request s) = Some k"
    using assms(1,2) by (simp add: layer_ok_def server_filed_def)
  from make_ack_key [OF assms(4) this assms(5)] have "from_request (make_ack (st_request s) rsp) = Some k" .
  moreover have "rq_method (make_ack (st_request s) rsp) = ACK"
    by (simp add: make_ack_def request_new_def)
  ultimately show ?thesis
    using assms(2,3)
    by (simp add: receive_def receive_request_def server_on_request_def on_ack_def put_server_def
        server_terminated_def)
qed

theorem layer_ack_confirms_witness:
  "\<exists>l' out. receive (rejected_layer modern_via)
      (Request (make_ack (sample_request INVITE modern_via ''1 INVITE'')
        (sample_response 486 modern_via ''1 INVITE''))) Reliable =
    (l', Matched (modern_key (method_bytes INVITE)) out) \<and>
    map_option st_state (ly_server l' (modern_key (method_bytes INVITE))) = Some S_Confirmed"
proof -
  have key: "from_request (sample_request INVITE modern_via ''1 INVITE'') =
      Some (modern_key (method_bytes INVITE))"
    by (simp add: sample_modern_key match_method_simps)
  note eval = rejected_layer_eval [OF key]
  have "rq_method (st_request (rejected_tx modern_via)) = INVITE"
    "\<not> is_legacy (modern_key (method_bytes INVITE))"
    by (simp_all add: eval sample_request_def request_new_def is_legacy_def)
  from layer_ack_confirms [OF rejected_layer_ok eval(1,3) this, of "sample_response 486 modern_via ''1 INVITE''" Reliable]
  show ?thesis unfolding eval by blast
qed

text \<open>
  The ACK of a rejected legacy INVITE is never matched. For an INVITE matched by the RFC 2543
  rule, the key includes the To tag of the INVITE, while the ACK carries the To tag of the
  response. Whenever the two differ, as they do for every INVITE that opens a dialog, the ACK does
  not reach the transaction, which stays completed, with its retransmissions running until
  timer H reports a timeout.
\<close>

theorem layer_legacy_ack_lost:
  assumes "layer_ok l" "ly_server l k = Some s" "is_legacy k"
    "to_tag (rs_headers rsp) \<noteq> to_tag (rq_headers (st_request s))"
  shows "(\<forall>out. snd (receive l (Request (make_ack (st_request s) rsp)) rel) \<noteq> Matched k out) \<and>
    ly_server (fst (receive l (Request (make_ack (st_request s) rsp)) rel)) k = Some s"
proof -
  have "from_request (st_request s) = Some k"
    using assms(1,2) by (simp add: layer_ok_def server_filed_def)
  from make_ack_legacy_key [OF this assms(3,4)]
  have "from_request (make_ack (st_request s) rsp) \<noteq> Some k" .
  with assms(2) show ?thesis
    by (auto simp: receive_def receive_request_def put_server_def split: option.splits prod.splits)
qed

theorem layer_legacy_ack_lost_witness:
  "ly_server (fst (receive (rejected_layer legacy_via)
      (Request (make_ack (sample_request INVITE legacy_via ''1 INVITE'')
        (sample_response 486 legacy_via ''1 INVITE''))) Reliable))
     (the (from_request (sample_request INVITE legacy_via ''1 INVITE''))) = Some (rejected_tx legacy_via)"
proof -
  let ?k = "the (from_request (sample_request INVITE legacy_via ''1 INVITE''))"
  have key: "from_request (sample_request INVITE legacy_via ''1 INVITE'') = Some ?k" "is_legacy ?k"
    by (simp_all add: sample_legacy_key is_legacy_def)
  note eval = rejected_layer_eval [OF key(1)]
  have "to_tag (rs_headers (sample_response 486 legacy_via ''1 INVITE'')) \<noteq>
      to_tag (rq_headers (st_request (rejected_tx legacy_via)))"
    by (simp add: eval sample_response_def sample_request_def request_new_def response_new_def
        sample_to_tags ascii_def)
  from layer_legacy_ack_lost [OF rejected_layer_ok eval(1) key(2) this, of Reliable]
  show ?thesis unfolding eval by (rule conjunct2)
qed

text \<open>
  A CANCEL runs in a transaction of its own and names the INVITE. A CANCEL with the Request-URI,
  topmost Via, From, To, Call-ID and CSeq number of a stored INVITE leaves the INVITE's transaction
  untouched, and \<open>for_cancelled_invite\<close> gives the key under which that INVITE is filed.
\<close>

theorem layer_cancel:
  assumes "layer_ok l" "ly_server l k = Some s" "rq_method (st_request s) = INVITE"
    and "rq_method c = CANCEL" "rq_uri c = rq_uri (st_request s)"
    and "\<forall>n \<in> {H_Via, H_From, H_To, H_CallId}.
      headers_get (rq_headers c) n = headers_get (rq_headers (st_request s)) n"
    and "map_option cs_sequence (typed_ok H_CSeq cseq_decode (rq_headers c)) =
      map_option cs_sequence (typed_ok H_CSeq cseq_decode (rq_headers (st_request s)))"
  shows "for_cancelled_invite c = Some k \<and> ly_server (fst (receive l (Request c) rel)) k = Some s"
proof -
  have "from_request (st_request s) = Some k"
    using assms(1,2) by (simp add: layer_ok_def server_filed_def)
  then have "for_cancelled_invite c = Some k" "from_request c \<noteq> Some k"
    using assms(3-7) cancel_key [of "st_request s" c k] by auto
  with assms(2) show ?thesis
    by (auto simp: receive_def receive_request_def put_server_def split: option.splits prod.splits)
qed

theorem layer_cancel_witness:
  "for_cancelled_invite (sample_request CANCEL modern_via ''1 INVITE'') =
    Some (modern_key (method_bytes INVITE))"
proof -
  have key: "from_request (sample_request INVITE modern_via ''1 INVITE'') =
      Some (modern_key (method_bytes INVITE))"
    by (simp add: sample_modern_key match_method_simps)
  note eval = rejected_layer_eval [OF key]
  let ?c = "sample_request CANCEL modern_via ''1 INVITE''"
  have "rq_method (st_request (rejected_tx modern_via)) = INVITE" "rq_method ?c = CANCEL"
    "rq_uri ?c = rq_uri (st_request (rejected_tx modern_via))"
    "\<forall>n \<in> {H_Via, H_From, H_To, H_CallId}.
      headers_get (rq_headers ?c) n = headers_get (rq_headers (st_request (rejected_tx modern_via))) n"
    "map_option cs_sequence (typed_ok H_CSeq cseq_decode (rq_headers ?c)) =
      map_option cs_sequence (typed_ok H_CSeq cseq_decode (rq_headers (st_request (rejected_tx modern_via))))"
    by (simp_all add: eval sample_request_def request_new_def)
  from layer_cancel [OF rejected_layer_ok eval(1) this] show ?thesis by (rule conjunct1)
qed

end
