(* ===== verification/Sip_Parser.thy ===== *)
theory Sip_Parser
  imports Sip_Headers
begin

text \<open>
  The message parser (\<open>sipx-sip/src/parser.rs\<close>): limits, the split of a head into folded lines,
  start lines, header lines and body framing, and the three entry points, for a datagram, for a
  byte stream cut into arbitrary chunks and for a self-delimiting frame. Lengths and offsets are
  natural numbers: the conversions between \<open>u64\<close> and \<open>usize\<close> are the identity on the 64-bit
  targets the crate supports.
\<close>

section \<open>Errors and limits\<close>

datatype start_line_error =
    SL_Empty | SL_RequestLineShape | SL_Method | SL_Uri uri_error | SL_MissingStatusCode | SL_StatusCode

datatype header_syntax_error = MissingColon | EmptyName | NameNotToken | BareNewline | LeadingFold

datatype framing_error =
    NoHeaderTerminator | ContentLengthRepeated | ContentLengthMalformed | BodyTruncated
  | ContentLengthRequired | NotExactlyOneMessage nat nat

datatype limit_kind = MessageBytes | BodyBytes | HeaderFields | HeaderBytes | FoldingLines

datatype parse_error =
    PE_StartLine start_line_error
  | PE_HeaderSyntax nat header_syntax_error
  | PE_Framing framing_error
  | PE_Limit limit_kind nat
  | PE_Incomplete

record limits =
  max_message_bytes :: nat
  max_body_bytes :: nat
  max_headers :: nat
  max_header_bytes :: nat
  max_folding_lines :: nat

definition limits_datagram :: limits where
  "limits_datagram =
     \<lparr>max_message_bytes = 64 * 1024, max_body_bytes = 64 * 1024, max_headers = 256,
      max_header_bytes = 8 * 1024, max_folding_lines = 16\<rparr>"

definition limits_stream :: limits where
  "limits_stream = limits_datagram\<lparr>max_message_bytes := 1024 * 1024, max_body_bytes := 1024 * 1024\<rparr>"

section \<open>Lines\<close>

definition TERMINATOR :: bytes where
  "TERMINATOR = [13, 10, 13, 10]"

text \<open>\<open>windows(4).position(..)\<close>: the first window that is the terminator.\<close>

fun terminator_at :: "bytes \<Rightarrow> nat option" where
  "terminator_at [] = None"
| "terminator_at (b # rest) =
     (if starts_with (b # rest) TERMINATOR then Some 0 else map_option Suc (terminator_at rest))"

definition find_header_terminator :: "bytes \<Rightarrow> nat \<Rightarrow> nat option" where
  "find_header_terminator buf from =
     (if from \<le> length buf then map_option (\<lambda>i. i + from) (terminator_at (drop from buf)) else None)"

text \<open>\<open>windows(2)\<close> equal to CRLF, counted.\<close>

fun count_lines :: "bytes \<Rightarrow> nat" where
  "count_lines [] = 0"
| "count_lines (b # rest) = (if starts_with (b # rest) CRLF then 1 else 0) + count_lines rest"

fun line_endings_go :: "bytes \<Rightarrow> nat \<Rightarrow> bytes \<Rightarrow> (parse_error, unit) result" where
  "line_endings_go head i [] = Inr ()"
| "line_endings_go head i (b # rest) =
     (if b = 13 \<and> get_at rest 0 = Some 10 then line_endings_go head (i + 2) (tl rest)
      else if b = 13 \<or> b = 10 then Inl (PE_HeaderSyntax (1 + count_lines (take i head)) BareNewline)
      else line_endings_go head (i + 1) rest)"

definition validate_line_endings :: "bytes \<Rightarrow> (parse_error, unit) result" where
  "validate_line_endings head = line_endings_go head 0 head"

definition opt_ws :: "u8 option \<Rightarrow> bool" where
  "opt_ws b = (case b of None \<Rightarrow> False | Some c \<Rightarrow> is_ws c)"

text \<open>
  The loop of \<open>split_folded_lines\<close> over the octets from position \<open>i\<close> on, in a logical line that
  began at \<open>start\<close> and has been folded \<open>folds\<close> times.
\<close>

fun fold_lines :: "nat \<Rightarrow> nat \<Rightarrow> nat \<Rightarrow> nat \<Rightarrow> bytes \<Rightarrow> (parse_error, (nat \<times> nat) list) result" where
  "fold_lines limit start i folds [] = Inr (if start < i then [(start, i)] else [])"
| "fold_lines limit start i folds (b # rest) =
     (if b = 13 \<and> get_at rest 0 = Some 10 then
        (if opt_ws (get_at rest 1) then
           (if folds + 1 > limit then Inl (PE_Limit FoldingLines (folds + 1))
            else fold_lines limit start (i + 2) (folds + 1) (tl rest))
         else
           bind_res (fold_lines limit (i + 2) (i + 2) 0 (tl rest)) (\<lambda>ls. Inr ((start, i) # ls)))
      else fold_lines limit start (i + 1) folds rest)"

definition split_folded_lines :: "bytes \<Rightarrow> limits \<Rightarrow> (parse_error, (nat \<times> nat) list) result" where
  "split_folded_lines head lim =
     (if opt_ws (get_at head 0) then Inl (PE_HeaderSyntax 1 LeadingFold)
      else fold_lines (max_folding_lines lim) 0 0 0 head)"

section \<open>Start lines\<close>

datatype start_line =
    SL_Request sip_method uri "nat \<times> nat" version bytes
  | SL_Response version status_code bytes bytes

fun space_bounds :: "nat \<Rightarrow> nat \<Rightarrow> bytes \<Rightarrow> (nat \<times> nat) list" where
  "space_bounds start i [] = [(start, i)]"
| "space_bounds start i (b # rest) =
     (if b = 32 then (start, i) # space_bounds (i + 1) (i + 1) rest
      else space_bounds start (i + 1) rest)"

definition span_of :: "bytes \<Rightarrow> nat \<times> nat \<Rightarrow> bytes" where
  "span_of line s = take (snd s - fst s) (drop (fst s) line)"

definition status_digits :: "bytes \<Rightarrow> u16" where
  "status_digits raw = foldl (\<lambda>acc b. acc * 10 + ucast (b - 48)) 0 raw"

definition parse_status_line :: "bytes \<Rightarrow> (parse_error, start_line) result" where
  "parse_status_line line =
     (case position (\<lambda>b. b = 32) line of
        None \<Rightarrow> Inl (PE_StartLine SL_MissingStatusCode)
      | Some first \<Rightarrow>
          (let ver = version_parse (take first line);
               after = drop (first + 1) line;
               (code_raw, reason) =
                 (case position (\<lambda>b. b = 32) after of
                    Some second \<Rightarrow> (take second after, drop (second + 1) after)
                  | None \<Rightarrow> (after, []))
           in
             if length code_raw \<noteq> 3 \<or> \<not> list_all is_ascii_digit code_raw
             then Inl (PE_StartLine SL_StatusCode)
             else
               bind_res (ok_or (PE_StartLine SL_StatusCode) (status_new (status_digits code_raw)))
                 (\<lambda>st. Inr (SL_Response ver st reason line))))"

definition parse_request_line :: "bytes \<Rightarrow> (parse_error, start_line) result" where
  "parse_request_line line =
     (case space_bounds 0 0 line of
        [m, u, v] \<Rightarrow>
          (if list_ex (\<lambda>s. fst s = snd s) [m, u, v] then Inl (PE_StartLine SL_RequestLineShape)
           else if \<not> list_all is_token_char (span_of line m) then Inl (PE_StartLine SL_Method)
           else
             (case uri_parse (span_of line u) of
                Inl e \<Rightarrow> Inl (PE_StartLine (SL_Uri e))
              | Inr w \<Rightarrow>
                  Inr (SL_Request (method_parse (span_of line m)) w u (version_parse (span_of line v)) line)))
      | _ \<Rightarrow> Inl (PE_StartLine SL_RequestLineShape))"

definition parse_start_line :: "bytes \<Rightarrow> (parse_error, start_line) result" where
  "parse_start_line line =
     (if line = [] then Inl (PE_StartLine SL_Empty)
      else if 4 \<le> length line \<and> eq_ignore_ascii_case (take 4 line) (ascii ''SIP/'')
      then parse_status_line line
      else parse_request_line line)"

section \<open>Header lines\<close>

text \<open>White space after the colon, folds included: how many octets of it there are.\<close>

fun skip_sws :: "bytes \<Rightarrow> nat" where
  "skip_sws [] = 0"
| "skip_sws (b # rest) =
     (if is_ws b then Suc (skip_sws rest)
      else if b = 13 \<and> get_at rest 0 = Some 10 \<and> opt_ws (get_at rest 1) then 2 + skip_sws (tl rest)
      else 0)"

definition parse_header_line :: "bytes \<Rightarrow> nat \<Rightarrow> (parse_error, header) result" where
  "parse_header_line line line_number =
     (case position (\<lambda>b. b = ch CHR '':'') line of
        None \<Rightarrow> Inl (PE_HeaderSyntax line_number MissingColon)
      | Some colon \<Rightarrow>
          (let name_raw = rev (dropWhile is_ws (rev (take colon line))) in
             if name_raw = [] then Inl (PE_HeaderSyntax line_number EmptyName)
             else if \<not> list_all is_token_char name_raw then Inl (PE_HeaderSyntax line_number NameNotToken)
             else
               Inr (header_from_wire (header_name_parse name_raw) line
                      (colon + 1 + skip_sws (drop (colon + 1) line)))))"

fun parse_header_lines :: "limits \<Rightarrow> bytes \<Rightarrow> nat \<Rightarrow> (nat \<times> nat) list \<Rightarrow> (parse_error, headers) result" where
  "parse_header_lines lim head index [] = Inr []"
| "parse_header_lines lim head index (s # spans) =
     (let line = span_of head s in
        if index \<ge> max_headers lim then Inl (PE_Limit HeaderFields (index + 1))
        else if length line > max_header_bytes lim then Inl (PE_Limit HeaderBytes (length line))
        else
          bind_res (parse_header_line line (index + 2)) (\<lambda>h.
          bind_res (parse_header_lines lim head (index + 1) spans) (\<lambda>hs. Inr (h # hs))))"

definition parse_head :: "bytes \<Rightarrow> limits \<Rightarrow> (parse_error, start_line \<times> headers) result" where
  "parse_head head lim =
     bind_res (validate_line_endings head) (\<lambda>_.
     bind_res (split_folded_lines head lim) (\<lambda>lines.
       (case lines of
          [] \<Rightarrow> Inl (PE_StartLine SL_Empty)
        | s # spans \<Rightarrow>
            bind_res (parse_start_line (span_of head s)) (\<lambda>start.
            bind_res (parse_header_lines lim head 0 spans) (\<lambda>hs. Inr (start, hs))))))"

section \<open>Framing\<close>

fun content_length_go :: "nat option \<Rightarrow> headers \<Rightarrow> (parse_error, nat option) result" where
  "content_length_go found [] = Inr found"
| "content_length_go found (h # hs) =
     (if found \<noteq> None then Inl (PE_Framing ContentLengthRepeated)
      else
        (let v = header_value h in
           if v = [] \<or> \<not> list_all is_ascii_digit v then Inl (PE_Framing ContentLengthMalformed)
           else
             (case u64_digits 0 v of
                None \<Rightarrow> Inl (PE_Framing ContentLengthMalformed)
              | Some n \<Rightarrow> content_length_go (Some n) hs)))"

definition content_length :: "headers \<Rightarrow> (parse_error, nat option) result" where
  "content_length hs = content_length_go None (headers_get_all hs H_ContentLength)"

definition check_body_limit :: "nat \<Rightarrow> limits \<Rightarrow> (parse_error, unit) result" where
  "check_body_limit declared lim =
     (if declared > max_body_bytes lim then Inl (PE_Limit BodyBytes declared) else Inr ())"

definition request_from_wire ::
  "sip_method \<Rightarrow> uri \<Rightarrow> version \<Rightarrow> bytes \<Rightarrow> nat \<times> nat \<Rightarrow> headers \<Rightarrow> bytes \<Rightarrow> request" where
  "request_from_wire m u v raw span hs body =
     \<lparr>rq_method = m, rq_uri = u, rq_version = v, rq_headers = hs, rq_body = body,
      rq_raw_start_line = Some raw, rq_raw_uri_span = Some span\<rparr>"

definition response_from_wire ::
  "version \<Rightarrow> status_code \<Rightarrow> bytes \<Rightarrow> bytes \<Rightarrow> headers \<Rightarrow> bytes \<Rightarrow> response" where
  "response_from_wire v s reason raw hs body =
     \<lparr>rs_version = v, rs_status = s, rs_reason = reason, rs_headers = hs, rs_body = body,
      rs_raw_start_line = Some raw\<rparr>"

fun assemble :: "start_line \<Rightarrow> headers \<Rightarrow> bytes \<Rightarrow> sip_message" where
  "assemble (SL_Request m u span v raw) hs body = Request (request_from_wire m u v raw span hs body)"
| "assemble (SL_Response v s reason raw) hs body = Response (response_from_wire v s reason raw hs body)"

definition parse_datagram :: "bytes \<Rightarrow> limits \<Rightarrow> (parse_error, sip_message) result" where
  "parse_datagram buf lim =
     (if length buf > max_message_bytes lim then Inl (PE_Limit MessageBytes (length buf))
      else
        (case find_header_terminator buf 0 of
           None \<Rightarrow> Inl (PE_Framing NoHeaderTerminator)
         | Some head_end \<Rightarrow>
             (let rest = drop (head_end + 4) buf in
                bind_res (parse_head (take head_end buf) lim) (\<lambda>(start, hs).
                bind_res (content_length hs) (\<lambda>len.
                  (case len of
                     Some declared \<Rightarrow>
                       bind_res (check_body_limit declared lim) (\<lambda>_.
                         if declared > length rest then Inl (PE_Framing BodyTruncated)
                         else Inr (assemble start hs (take declared rest)))
                   | None \<Rightarrow>
                       bind_res (check_body_limit (length rest) lim) (\<lambda>_.
                         Inr (assemble start hs rest))))))))"

section \<open>Streams\<close>

datatype stream_state = St_Head | St_Body start_line headers nat

record stream_parser =
  sp_buf :: bytes
  sp_limits :: limits
  sp_state :: stream_state
  sp_scanned :: nat
  sp_failed :: bool
  sp_keepalives :: nat

definition stream_new :: "limits \<Rightarrow> stream_parser" where
  "stream_new lim =
     \<lparr>sp_buf = [], sp_limits = lim, sp_state = St_Head, sp_scanned = 0, sp_failed = False,
      sp_keepalives = 0\<rparr>"

definition usize_max :: nat where
  "usize_max = 2 ^ 64 - 1"

definition take_keepalives :: "stream_parser \<Rightarrow> stream_parser \<times> nat" where
  "take_keepalives p = (p\<lparr>sp_keepalives := 0\<rparr>, sp_keepalives p)"

definition stream_pending :: "stream_parser \<Rightarrow> nat" where
  "stream_pending p = length (sp_buf p)"

text \<open>Leading CRLF pairs: how many there are and what follows them.\<close>

fun strip_crlf :: "bytes \<Rightarrow> nat \<times> bytes" where
  "strip_crlf (b # c # rest) =
     (if b = 13 \<and> c = 10 then (case strip_crlf rest of (n, left) \<Rightarrow> (Suc n, left))
      else (0, b # c # rest))"
| "strip_crlf bs = (0, bs)"

definition skip_keepalives :: "stream_parser \<Rightarrow> stream_parser" where
  "skip_keepalives p =
     (case strip_crlf (sp_buf p) of
        (n, left) \<Rightarrow>
          p\<lparr>sp_buf := left, sp_scanned := sp_scanned p - 2 * n,
            sp_keepalives := (if n = 0 then sp_keepalives p else min usize_max (sp_keepalives p + n))\<rparr>)"

definition open_message :: "bytes \<Rightarrow> limits \<Rightarrow> (parse_error, stream_state) result" where
  "open_message head lim =
     bind_res (parse_head head lim) (\<lambda>(start, hs).
     bind_res (content_length hs) (\<lambda>len.
     bind_res (ok_or (PE_Framing ContentLengthRequired) len) (\<lambda>declared.
     bind_res (check_body_limit declared lim) (\<lambda>_. Inr (St_Body start hs declared)))))"

lemma strip_crlf_length: "length (snd (strip_crlf bs)) \<le> length bs"
  by (induction bs rule: strip_crlf.induct) (auto split: prod.splits)

lemma length_TERMINATOR [simp]: "length TERMINATOR = 4"
  by (simp add: TERMINATOR_def)

lemma terminator_at_length: "terminator_at bs = Some i \<Longrightarrow> i + 4 \<le> length bs"
proof (induction bs arbitrary: i)
  case (Cons b rest)
  show ?case
  proof (cases "starts_with (b # rest) TERMINATOR")
    case True
    then show ?thesis
      using Cons.prems starts_with_length [OF True] by simp
  qed (use Cons in auto)
qed simp

lemma find_header_terminator_length: "find_header_terminator buf from = Some i \<Longrightarrow> i + 4 \<le> length buf"
  using terminator_at_length [of "drop from buf"]
  by (fastforce simp: find_header_terminator_def split: if_splits)

lemma length_skip_keepalives: "length (sp_buf (skip_keepalives p)) \<le> length (sp_buf p)"
  using strip_crlf_length [of "sp_buf p"] by (cases "strip_crlf (sp_buf p)") (simp add: skip_keepalives_def)

text \<open>One pass of the loop in the state \<open>Head\<close>: the parser it leaves, and what it found.\<close>

definition drain_head :: "stream_parser \<Rightarrow> stream_parser \<times> (parse_error, bool) result" where
  "drain_head p0 =
     (let p = skip_keepalives p0 in
        (case find_header_terminator (sp_buf p) (sp_scanned p) of
           None \<Rightarrow>
             (p\<lparr>sp_scanned := length (sp_buf p) - 3\<rparr>,
              if length (sp_buf p) > max_message_bytes (sp_limits p)
              then Inl (PE_Limit MessageBytes (length (sp_buf p))) else Inr False)
         | Some head_end \<Rightarrow>
             (let p' = p\<lparr>sp_buf := drop (head_end + 4) (sp_buf p), sp_scanned := 0\<rparr> in
                (case open_message (take head_end (sp_buf p)) (sp_limits p) of
                   Inl e \<Rightarrow> (p', Inl e)
                 | Inr st \<Rightarrow> (p'\<lparr>sp_state := st\<rparr>, Inr True)))))"

lemma drain_head_length:
  "drain_head p = (p', Inr True) \<Longrightarrow> length (sp_buf p') + 4 \<le> length (sp_buf p)"
  using length_skip_keepalives [of p] find_header_terminator_length
  by (fastforce simp: drain_head_def Let_def split: option.splits sum.splits if_splits)

function drain :: "stream_parser \<Rightarrow> stream_parser \<times> (parse_error, sip_message list) result" where
  "drain p =
     (case sp_state p of
        St_Head \<Rightarrow>
          (case drain_head p of
             (p', Inl e) \<Rightarrow> (p', Inl e)
           | (p', Inr False) \<Rightarrow> (p', Inr [])
           | (p', Inr True) \<Rightarrow> drain p')
      | St_Body start hs needed \<Rightarrow>
          (if length (sp_buf p) < needed then (p, Inr [])
           else
             (case drain (p\<lparr>sp_buf := drop needed (sp_buf p), sp_state := St_Head\<rparr>) of
                (p', Inl e) \<Rightarrow> (p', Inl e)
              | (p', Inr out) \<Rightarrow> (p', Inr (assemble start hs (take needed (sp_buf p)) # out)))))"
  by pat_completeness auto
termination
  by (relation "measure (\<lambda>p. 2 * length (sp_buf p) + (if sp_state p = St_Head then 0 else 1))")
    (fastforce dest: drain_head_length [OF sym])+

declare drain.simps [simp del]

definition push :: "stream_parser \<Rightarrow> bytes \<Rightarrow> stream_parser \<times> (parse_error, sip_message list) result" where
  "push p chunk =
     (if sp_failed p then (p, Inl (PE_Framing NoHeaderTerminator))
      else
        (case drain (p\<lparr>sp_buf := sp_buf p @ chunk\<rparr>) of
           (p', Inr ms) \<Rightarrow> (p', Inr ms)
         | (p', Inl e) \<Rightarrow> (p'\<lparr>sp_failed := True\<rparr>, Inl e)))"

section \<open>Frames\<close>

definition parse_frame :: "bytes \<Rightarrow> limits \<Rightarrow> (parse_error, sip_message) result" where
  "parse_frame buf lim =
     (case push (stream_new lim) buf of
        (p, Inr messages) \<Rightarrow>
          (case messages of
             [m] \<Rightarrow> (if stream_pending p = 0 then Inr m
                      else Inl (PE_Framing (NotExactlyOneMessage 1 (stream_pending p))))
           | _ \<Rightarrow> Inl (PE_Framing (NotExactlyOneMessage (length messages) (stream_pending p))))
      | (p, Inl e) \<Rightarrow>
          (if e = PE_Framing ContentLengthRequired then parse_datagram buf lim else Inl e))"

end
