(* ===== verification/Sip_Framing.thy ===== *)
theory Sip_Framing
  imports Sip_Parser
begin

text \<open>
  What the parser of \<open>sipx-sip/src/parser.rs\<close> promises: a parsed message is written back octet
  for octet, a stream parses the same however it is cut into chunks and the same as the datagrams
  it carries, every limit holds of what is accepted, no line break survives into a header value,
  and what a frame is allowed to contain.
\<close>

section \<open>The header terminator\<close>

lemma terminator_at_Some_iff:
  "terminator_at bs = Some i \<longleftrightarrow>
     starts_with (drop i bs) TERMINATOR \<and> (\<forall>j<i. \<not> starts_with (drop j bs) TERMINATOR)"
proof (induction bs arbitrary: i)
  case Nil
  show ?case
    by (simp add: starts_with_def TERMINATOR_def)
next
  case (Cons b rest)
  show ?case
    using Cons.IH by (cases i) (auto simp: less_Suc_eq_0_disj)
qed

lemma terminator_at_None_iff:
  "terminator_at bs = None \<longleftrightarrow> (\<forall>j. \<not> starts_with (drop j bs) TERMINATOR)"
proof -
  have "(\<exists>i. terminator_at bs = Some i) \<longleftrightarrow> (\<exists>j. starts_with (drop j bs) TERMINATOR)"
    unfolding terminator_at_Some_iff
    by (meson exists_least_iff [where P = "\<lambda>j. starts_with (drop j bs) TERMINATOR"])
  then show ?thesis
    by (metis not_None_eq)
qed

lemma window_local:
  assumes "j + 4 \<le> length xs"
  shows "starts_with (drop j (xs @ ys)) TERMINATOR \<longleftrightarrow> starts_with (drop j xs) TERMINATOR"
  using assms by (simp add: starts_with_append)

text \<open>A head is what precedes the first terminator.\<close>

definition head_ok :: "bytes \<Rightarrow> bool" where
  "head_ok head \<longleftrightarrow> terminator_at (head @ TERMINATOR) = Some (length head)"

lemma head_ok_append:
  assumes "head_ok head"
  shows "terminator_at (head @ TERMINATOR @ x) = Some (length head)"
proof -
  have "starts_with (drop j ((head @ TERMINATOR) @ x)) TERMINATOR
      \<longleftrightarrow> starts_with (drop j (head @ TERMINATOR)) TERMINATOR" if "j \<le> length head" for j
    using that by (intro window_local) simp
  then show ?thesis
    using assms unfolding head_ok_def terminator_at_Some_iff by (simp add: starts_with_def)
qed

lemma terminator_head:
  assumes "terminator_at bs = Some i"
  shows "head_ok (take i bs)" "bs = take i bs @ TERMINATOR @ drop (i + 4) bs" "i + 4 \<le> length bs"
proof -
  show len: "i + 4 \<le> length bs"
    by (rule terminator_at_length [OF assms])
  have "take 4 (drop i bs) = TERMINATOR"
    using assms by (simp add: terminator_at_Some_iff starts_with_def)
  then have split: "take (i + 4) bs = take i bs @ TERMINATOR"
    by (simp add: take_add)
  then show bs: "bs = take i bs @ TERMINATOR @ drop (i + 4) bs"
    by (metis append.assoc append_take_drop_id)
  have "starts_with (drop j bs) TERMINATOR
      \<longleftrightarrow> starts_with (drop j (take i bs @ TERMINATOR)) TERMINATOR" if "j \<le> i" for j
    using window_local [of j "take (i + 4) bs" "drop (i + 4) bs"] that len
    unfolding append_take_drop_id by (simp add: split)
  then show "head_ok (take i bs)"
    using assms len unfolding head_ok_def terminator_at_Some_iff by simp
qed

lemma head_ok_no_break:
  assumes "head_ok head"
  shows "head \<noteq> pre @ CRLF"
proof
  assume "head = pre @ CRLF"
  then have "head @ TERMINATOR = pre @ TERMINATOR @ CRLF" "length pre < length head"
    by (simp_all add: CRLF_def TERMINATOR_def)
  then have "starts_with (drop (length pre) (head @ TERMINATOR)) TERMINATOR"
    by (simp add: starts_with_def)
  with assms \<open>length pre < length head\<close> show False
    by (simp add: head_ok_def terminator_at_Some_iff)
qed

section \<open>Heads are kept octet for octet\<close>

lemma fold_lines_join:
  assumes "fold_lines limit start i folds rest = Inr ls" "rest = drop i head"
    "start \<le> i" "i \<le> length head" "start < length head" "\<And>pre. head \<noteq> pre @ CRLF"
  shows "concat (map (\<lambda>s. span_of head s @ CRLF) ls) = drop start head @ CRLF"
  using assms(1-5)
proof (induction limit start i folds rest arbitrary: ls rule: fold_lines.induct)
  case (1 limit start i folds)
  then show ?case
    by (auto simp: span_of_def)
next
  case (2 limit start i folds b rest)
  have i: "i < length head" "rest = drop (Suc i) head" "b = head ! i"
    using 2(5,7) by (metis drop_all list.distinct(1) not_le,
      metis drop_Suc drop_tl list.sel(3), metis drop_all list.distinct(1) not_le nth_via_drop)
  consider (fold) "b = 13 \<and> get_at rest 0 = Some 10" "opt_ws (get_at rest 1)"
    | (line) "b = 13 \<and> get_at rest 0 = Some 10" "\<not> opt_ws (get_at rest 1)"
    | (other) "\<not> (b = 13 \<and> get_at rest 0 = Some 10)"
    by blast
  then show ?case
  proof cases
    case fold
    have "tl rest = drop (i + 2) head" "i + 2 \<le> length head"
      using fold i by (auto simp: drop_Suc tl_drop)
    then show ?thesis
      using 2 fold by (auto split: if_splits)
  next
    case line
    have tl: "tl rest = drop (i + 2) head" "i + 2 \<le> length head" "drop i head = CRLF @ drop (i + 2) head"
      using line i by (auto simp: drop_Suc tl_drop CRLF_def Cons_nth_drop_Suc [symmetric])
    then have "drop (i + 2) head \<noteq> []"
      using assms(6) [of "take i head"] by (metis append_Nil2 append_take_drop_id)
    then have lt: "i + 2 < length head"
      by simp
    obtain ls' where ls': "fold_lines limit (i + 2) (i + 2) 0 (tl rest) = Inr ls'" "ls = (start, i) # ls'"
      using 2(4) line by (auto simp: bind_res_Inr_iff)
    have "concat (map (\<lambda>s. span_of head s @ CRLF) ls') = drop (i + 2) head @ CRLF"
      using 2(2) [OF line(1) line(2) ls'(1) tl(1)] lt by simp
    moreover have "drop start head = take (i - start) (drop start head) @ CRLF @ drop (i + 2) head"
      using tl(3) 2(6) by (metis append_take_drop_id drop_drop le_add_diff_inverse2)
    ultimately show ?thesis
      by (simp add: ls'(2) span_of_def)
  next
    case other
    have "fold_lines limit start (i + 1) folds rest = Inr ls"
      using 2(4) other by (simp only: fold_lines.simps if_False)
    then show ?thesis
      using 2(3) [OF other] 2(6,8) i by simp
  qed
qed

lemma parse_header_line_write:
  "parse_header_line line n = Inr h \<Longrightarrow> header_write h = line"
  by (auto simp: parse_header_line_def Let_def header_from_wire_def header_write_def
      split: option.splits if_splits)

lemma parse_header_lines_write:
  "parse_header_lines lim head n spans = Inr hs \<Longrightarrow> map header_write hs = map (span_of head) spans"
  by (induction lim head n spans arbitrary: hs rule: parse_header_lines.induct)
    (auto simp: Let_def bind_res_Inr_iff parse_header_line_write split: if_splits)

primrec start_raw :: "start_line \<Rightarrow> bytes" where
  "start_raw (SL_Request m u span v raw) = raw"
| "start_raw (SL_Response v s reason raw) = raw"

lemma parse_status_line_raw: "parse_status_line line = Inr st \<Longrightarrow> start_raw st = line"
  by (auto simp: parse_status_line_def Let_def bind_res_Inr_iff split: option.splits if_splits)

lemma parse_request_line_raw: "parse_request_line line = Inr st \<Longrightarrow> start_raw st = line"
  by (auto simp: parse_request_line_def split: list.splits if_splits sum.splits)

lemma parse_start_line_raw: "parse_start_line line = Inr st \<Longrightarrow> start_raw st = line \<and> line \<noteq> []"
  by (auto simp: parse_start_line_def parse_status_line_raw parse_request_line_raw split: if_splits)

lemma parse_headE:
  assumes "parse_head head lim = Inr (start, hs)"
  obtains s spans where "validate_line_endings head = Inr ()"
    "split_folded_lines head lim = Inr (s # spans)" "parse_start_line (span_of head s) = Inr start"
    "parse_header_lines lim head 0 spans = Inr hs"
proof -
  obtain lines where v: "validate_line_endings head = Inr ()"
    and l: "split_folded_lines head lim = Inr lines"
    and r: "(case lines of
          [] \<Rightarrow> Inl (PE_StartLine SL_Empty)
        | s # spans \<Rightarrow>
            bind_res (parse_start_line (span_of head s)) (\<lambda>start.
            bind_res (parse_header_lines lim head 0 spans) (\<lambda>hs. Inr (start, hs)))) = Inr (start, hs)"
    using assms by (auto simp: parse_head_def bind_res_Inr_iff)
  show thesis
    using r that [OF v] l by (cases lines) (auto simp: bind_res_Inr_iff)
qed

lemma parse_head_bytes:
  assumes "parse_head head lim = Inr (start, hs)" "head_ok head"
  shows "start_raw start @ CRLF @ headers_write hs = head @ CRLF"
proof -
  obtain s spans where lines: "split_folded_lines head lim = Inr (s # spans)"
    and start: "parse_start_line (span_of head s) = Inr start"
    and hs: "parse_header_lines lim head 0 spans = Inr hs"
    using parse_headE [OF assms(1)] .
  have "head \<noteq> []"
    using parse_start_line_raw [OF start] by (auto simp: span_of_def)
  then have "concat (map (\<lambda>s. span_of head s @ CRLF) (s # spans)) = drop 0 head @ CRLF"
    using lines head_ok_no_break [OF assms(2)]
    by (intro fold_lines_join [where i = 0 and folds = 0 and rest = head])
      (auto simp: split_folded_lines_def split: if_splits)
  moreover have "headers_write hs = concat (map (\<lambda>s. span_of head s @ CRLF) spans)"
    unfolding headers_write_def
    using arg_cong [OF parse_header_lines_write [OF hs], of "\<lambda>ls. concat (map (\<lambda>l. l @ CRLF) ls)"]
    by (simp add: comp_def)
  ultimately show ?thesis
    using parse_start_line_raw [OF start] by simp
qed

lemma message_to_bytes_assemble:
  "message_to_bytes (assemble start hs body) = start_raw start @ CRLF @ headers_write hs @ CRLF @ body"
  by (cases start) (simp_all add: message_to_bytes_def request_write_def response_write_def
      request_from_wire_def response_from_wire_def)

lemma message_headers_assemble [simp]: "message_headers (assemble start hs body) = hs"
  by (cases start) (simp_all add: message_headers_def request_from_wire_def response_from_wire_def)

definition message_body :: "sip_message \<Rightarrow> bytes" where
  "message_body m = (case m of Request r \<Rightarrow> rq_body r | Response r \<Rightarrow> rs_body r)"

lemma message_body_assemble [simp]: "message_body (assemble start hs body) = body"
  by (cases start) (simp_all add: message_body_def request_from_wire_def response_from_wire_def)

lemma assembled_bytes:
  assumes "parse_head head lim = Inr (start, hs)" "head_ok head"
  shows "message_to_bytes (assemble start hs body) = head @ TERMINATOR @ body"
proof -
  have "message_to_bytes (assemble start hs body) = (start_raw start @ CRLF @ headers_write hs) @ CRLF @ body"
    by (simp add: message_to_bytes_assemble)
  also have "\<dots> = head @ TERMINATOR @ body"
    unfolding parse_head_bytes [OF assms] by (simp add: CRLF_def TERMINATOR_def)
  finally show ?thesis .
qed

section \<open>Datagrams\<close>

text \<open>The body a datagram with the given head and remaining octets carries.\<close>

definition datagram_body :: "limits \<Rightarrow> headers \<Rightarrow> bytes \<Rightarrow> (parse_error, bytes) result" where
  "datagram_body lim hs rest =
     bind_res (content_length hs) (\<lambda>len.
       (case len of
          Some n \<Rightarrow>
            bind_res (check_body_limit n lim) (\<lambda>_.
              if n > length rest then Inl (PE_Framing BodyTruncated) else Inr (take n rest))
        | None \<Rightarrow> bind_res (check_body_limit (length rest) lim) (\<lambda>_. Inr rest)))"

lemma find_header_terminator_0 [simp]: "find_header_terminator buf 0 = terminator_at buf"
  by (simp add: find_header_terminator_def option.map_ident)

lemma parse_datagram_eq:
  "parse_datagram buf lim =
     (if length buf > max_message_bytes lim then Inl (PE_Limit MessageBytes (length buf))
      else
        (case terminator_at buf of
           None \<Rightarrow> Inl (PE_Framing NoHeaderTerminator)
         | Some i \<Rightarrow>
             bind_res (parse_head (take i buf) lim) (\<lambda>(start, hs).
             bind_res (datagram_body lim hs (drop (i + 4) buf)) (\<lambda>body. Inr (assemble start hs body)))))"
proof (cases "terminator_at buf")
  case (Some i)
  show ?thesis
  proof (cases "parse_head (take i buf) lim")
    case (Inr sh)
    then show ?thesis
      using Some
      by (cases sh; cases "content_length (snd sh)"; cases "projr (content_length (snd sh))")
        (auto simp: parse_datagram_def datagram_body_def Let_def check_body_limit_def)
  qed (simp add: parse_datagram_def Some)
qed (simp add: parse_datagram_def)

lemma parse_datagram_Inr_iff:
  "parse_datagram buf lim = Inr m \<longleftrightarrow>
     length buf \<le> max_message_bytes lim \<and>
     (\<exists>head rest start hs body.
        buf = head @ TERMINATOR @ rest \<and> head_ok head \<and> parse_head head lim = Inr (start, hs) \<and>
        datagram_body lim hs rest = Inr body \<and> m = assemble start hs body)"
  (is "?lhs \<longleftrightarrow> ?len \<and> ?rhs")
proof
  assume l: ?lhs
  then obtain i where len: ?len and i: "terminator_at buf = Some i"
    by (auto simp: parse_datagram_eq split: if_splits option.splits)
  then have "\<exists>start hs body. parse_head (take i buf) lim = Inr (start, hs) \<and>
      datagram_body lim hs (drop (i + 4) buf) = Inr body \<and> m = assemble start hs body"
    using l by (auto simp: parse_datagram_eq bind_res_Inr_iff)
  with len terminator_head [OF i] show "?len \<and> ?rhs"
    by blast
next
  assume r: "?len \<and> ?rhs"
  then obtain head rest start hs body where buf: "buf = head @ TERMINATOR @ rest"
    and ok: "head_ok head" and h: "parse_head head lim = Inr (start, hs)"
    and b: "datagram_body lim hs rest = Inr body" and m: "m = assemble start hs body"
    by blast
  have "terminator_at buf = Some (length head)" "take (length head) buf = head"
    "drop (length head + 4) buf = rest"
    using head_ok_append [OF ok] by (simp_all add: buf)
  then show ?lhs
    using r h b m by (simp add: parse_datagram_eq)
qed

lemma datagram_body_Inr_iff:
  "datagram_body lim hs rest = Inr body \<longleftrightarrow>
     length body \<le> max_body_bytes lim \<and>
     (content_length hs = Inr None \<and> body = rest \<or>
      content_length hs = Inr (Some (length body)) \<and> (\<exists>noise. rest = body @ noise))"
proof (cases "content_length hs")
  case (Inr len)
  show ?thesis
  proof (cases len)
    case (Some n)
    have "body = take n rest \<and> n \<le> length rest \<longleftrightarrow> n = length body \<and> (\<exists>noise. rest = body @ noise)"
      by (metis append_eq_conv_conj append_take_drop_id length_append le_add1 length_take min.absorb2)
    then show ?thesis
      using Inr Some by (auto simp: datagram_body_def check_body_limit_def)
  qed (auto simp: datagram_body_def check_body_limit_def Inr)
qed (simp add: datagram_body_def)

lemma datagram_body_again:
  assumes "datagram_body lim hs rest = Inr body"
  shows "\<exists>noise. rest = body @ noise \<and> (content_length hs = Inr None \<longrightarrow> noise = [])"
    "datagram_body lim hs body = Inr body"
  using assms by (auto simp: datagram_body_Inr_iff)

text \<open>
  C5: A datagram loses nothing. When it parses, its octets are those of the message written back,
  start line, header spelling, folding and body included, followed by the octets beyond the
  declared length, if any (none at all when no length is declared); and the octets written back
  parse again to the very same message.
\<close>

theorem datagram_lossless:
  assumes "parse_datagram buf lim = Inr m"
  shows "\<exists>noise. buf = message_to_bytes m @ noise \<and>
      (content_length (message_headers m) = Inr None \<longrightarrow> noise = []) \<and>
      parse_datagram (message_to_bytes m) lim = Inr m"
proof -
  obtain head rest start hs body where len: "length buf \<le> max_message_bytes lim"
    and buf: "buf = head @ TERMINATOR @ rest" and ok: "head_ok head"
    and h: "parse_head head lim = Inr (start, hs)"
    and b: "datagram_body lim hs rest = Inr body" and m: "m = assemble start hs body"
    using assms unfolding parse_datagram_Inr_iff by blast
  have bytes: "message_to_bytes m = head @ TERMINATOR @ body"
    unfolding m by (rule assembled_bytes [OF h ok])
  obtain noise where rest: "rest = body @ noise" "content_length hs = Inr None \<longrightarrow> noise = []"
    using datagram_body_again(1) [OF b] by blast
  have "parse_datagram (message_to_bytes m) lim = Inr m"
    unfolding parse_datagram_Inr_iff
    using len buf bytes rest ok h datagram_body_again(2) [OF b] m by fastforce
  then show ?thesis
    using rest bytes m by (intro exI [of _ noise]) (auto simp: buf)
qed

section \<open>Streams\<close>

subsection \<open>Keep-alives and the resumed scan\<close>

definition crlfs :: "nat \<Rightarrow> bytes" where
  "crlfs n = concat (replicate n CRLF)"

lemma crlfs_simps [simp]: "crlfs 0 = []" "crlfs (Suc n) = CRLF @ crlfs n"
  by (simp_all add: crlfs_def)

lemma crlfs_add: "crlfs (m + n) = crlfs m @ crlfs n"
  by (induction m) simp_all

lemma length_crlfs [simp]: "length (crlfs n) = 2 * n"
  by (induction n) (simp_all add: CRLF_def)

lemma strip_crlf_spec:
  "strip_crlf bs = (n, left) \<Longrightarrow> bs = crlfs n @ left \<and> \<not> starts_with left CRLF"
  by (induction bs arbitrary: n left rule: strip_crlf.induct)
    (auto simp: CRLF_def starts_with_def split: if_splits prod.splits)

lemma strip_crlf_append:
  "strip_crlf bs = (n, left) \<Longrightarrow>
   strip_crlf (bs @ x) = (case strip_crlf (left @ x) of (n', left') \<Rightarrow> (n + n', left'))"
  by (induction bs arbitrary: n left rule: strip_crlf.induct)
    (auto split: if_splits prod.splits)

lemma strip_crlf_done: "\<not> starts_with bs CRLF \<Longrightarrow> strip_crlf bs = (0, bs)"
  by (induction bs rule: strip_crlf.induct) (auto simp: starts_with_def CRLF_def)

definition bump :: "nat \<Rightarrow> nat \<Rightarrow> nat" where
  "bump k n = (if n = 0 then k else min usize_max (k + n))"

lemma bump_bump: "bump (bump k n) n' = bump k (n + n')"
  by (auto simp: bump_def)

text \<open>No terminator begins before the position the scan resumes at.\<close>

definition scan_ok :: "bytes \<Rightarrow> nat \<Rightarrow> bool" where
  "scan_ok buf s \<longleftrightarrow> (\<forall>j < s. j + 4 \<le> length buf \<and> \<not> starts_with (drop j buf) TERMINATOR)"

lemma scan_ok_append: "scan_ok buf s \<Longrightarrow> scan_ok (buf @ x) s"
  using window_local [of _ buf x] by (auto simp: scan_ok_def)

lemma scan_ok_skip:
  assumes "scan_ok buf s" "buf = crlfs n @ left"
  shows "scan_ok left (s - 2 * n)"
  unfolding scan_ok_def
proof (intro allI impI)
  fix j assume j: "j < s - 2 * n"
  then have "j + 2 * n < s"
    by simp
  then have "j + 2 * n + 4 \<le> length buf \<and> \<not> starts_with (drop (j + 2 * n) buf) TERMINATOR"
    using assms(1) unfolding scan_ok_def by blast
  then show "j + 4 \<le> length left \<and> \<not> starts_with (drop j left) TERMINATOR"
    by (simp add: assms(2))
qed

lemma scan_ok_none: "terminator_at buf = None \<Longrightarrow> scan_ok buf (length buf - 3)"
  by (auto simp: scan_ok_def terminator_at_None_iff)

lemma find_resumed:
  assumes "scan_ok buf s"
  shows "find_header_terminator buf s = terminator_at buf"
proof (cases "s = 0")
  case False
  then have "s - 1 + 4 \<le> length buf"
    using assms unfolding scan_ok_def by (metis diff_less less_numeral_extra(1) not_gr0)
  then have len: "s \<le> length buf"
    by simp
  have skip: "\<not> starts_with (drop j buf) TERMINATOR" if "j < s" for j
    using assms that by (simp add: scan_ok_def)
  show ?thesis
  proof (cases "terminator_at buf")
    case None
    then have "terminator_at (drop s buf) = None"
      unfolding terminator_at_None_iff by simp
    with None show ?thesis
      by (simp add: find_header_terminator_def)
  next
    case (Some i)
    then have "s \<le> i"
      using skip by (metis not_le terminator_at_Some_iff)
    then have "terminator_at (drop s buf) = Some (i - s)"
      using Some unfolding terminator_at_Some_iff by (simp add: less_diff_conv)
    with Some len \<open>s \<le> i\<close> show ?thesis
      by (simp add: find_header_terminator_def)
  qed
qed simp

text \<open>One pass over a head, without the scan position.\<close>

lemma drain_head_eq:
  assumes "scan_ok (sp_buf p) (sp_scanned p)" "strip_crlf (sp_buf p) = (n, left)"
  shows "drain_head p =
     (case terminator_at left of
        None \<Rightarrow>
          (p\<lparr>sp_buf := left, sp_keepalives := bump (sp_keepalives p) n, sp_scanned := length left - 3\<rparr>,
           if length left > max_message_bytes (sp_limits p)
           then Inl (PE_Limit MessageBytes (length left)) else Inr False)
      | Some i \<Rightarrow>
          (case open_message (take i left) (sp_limits p) of
             Inl e \<Rightarrow>
               (p\<lparr>sp_buf := drop (i + 4) left, sp_keepalives := bump (sp_keepalives p) n,
                  sp_scanned := 0\<rparr>, Inl e)
           | Inr st \<Rightarrow>
               (p\<lparr>sp_buf := drop (i + 4) left, sp_keepalives := bump (sp_keepalives p) n,
                  sp_scanned := 0, sp_state := st\<rparr>, Inr True)))"
proof -
  have "skip_keepalives p =
      p\<lparr>sp_buf := left, sp_scanned := sp_scanned p - 2 * n, sp_keepalives := bump (sp_keepalives p) n\<rparr>"
    by (simp add: skip_keepalives_def assms(2) bump_def)
  moreover have "find_header_terminator left (sp_scanned p - 2 * n) = terminator_at left"
    using strip_crlf_spec [OF assms(2)] scan_ok_skip [OF assms(1)] by (intro find_resumed) blast
  ultimately show ?thesis
    by (simp add: drain_head_def Let_def split: option.split sum.split)
qed

subsection \<open>Chunks\<close>

definition extend_buf :: "stream_parser \<Rightarrow> bytes \<Rightarrow> stream_parser" where
  "extend_buf p x = p\<lparr>sp_buf := sp_buf p @ x\<rparr>"

definition stream_ok :: "stream_parser \<Rightarrow> bool" where
  "stream_ok p \<longleftrightarrow> scan_ok (sp_buf p) (sp_scanned p) \<and> (sp_state p = St_Head \<or> sp_scanned p = 0)"

lemma extend_buf_simps [simp]:
  "sp_buf (extend_buf p x) = sp_buf p @ x" "sp_limits (extend_buf p x) = sp_limits p"
  "sp_state (extend_buf p x) = sp_state p" "sp_scanned (extend_buf p x) = sp_scanned p"
  "sp_failed (extend_buf p x) = sp_failed p" "sp_keepalives (extend_buf p x) = sp_keepalives p"
  by (simp_all add: extend_buf_def)

lemma stream_ok_extend: "stream_ok p \<Longrightarrow> stream_ok (extend_buf p x)"
  by (auto simp: stream_ok_def scan_ok_append)

lemma scan_ok_0 [simp]: "scan_ok buf 0"
  by (simp add: scan_ok_def)

lemma stream_ok_scan: "stream_ok p \<Longrightarrow> scan_ok (sp_buf p) (sp_scanned p)"
  by (simp add: stream_ok_def)

lemma open_message_state: "open_message head lim = Inr st \<Longrightarrow> st \<noteq> St_Head"
  by (auto simp: open_message_def bind_res_Inr_iff)

lemma drain_head_ok:
  assumes "stream_ok p" "sp_state p = St_Head" "drain_head p = (q, r)"
  shows "stream_ok q" "sp_limits q = sp_limits p" "sp_failed q = sp_failed p"
    "r \<noteq> Inr True \<Longrightarrow> sp_state q = St_Head"
proof -
  obtain n left where s: "strip_crlf (sp_buf p) = (n, left)"
    by fastforce
  show "stream_ok q" "sp_limits q = sp_limits p" "sp_failed q = sp_failed p"
    "r \<noteq> Inr True \<Longrightarrow> sp_state q = St_Head"
    using assms(2,3) scan_ok_none [of left] unfolding drain_head_eq [OF stream_ok_scan [OF assms(1)] s]
    by (auto simp: stream_ok_def split: option.splits sum.splits if_splits)
qed

lemma drain_head_more:
  assumes "stream_ok p" "drain_head p = (q, Inr False)"
  shows "drain_head (extend_buf p x) = drain_head (extend_buf q x)"
proof -
  obtain n left where s: "strip_crlf (sp_buf p) = (n, left)"
    by fastforce
  obtain n' left' where s': "strip_crlf (left @ x) = (n', left')"
    by fastforce
  have q: "q = p\<lparr>sp_buf := left, sp_keepalives := bump (sp_keepalives p) n, sp_scanned := length left - 3\<rparr>"
    and none: "terminator_at left = None"
    using assms(2) unfolding drain_head_eq [OF stream_ok_scan [OF assms(1)] s]
    by (auto split: option.splits sum.splits if_splits)
  have "strip_crlf (sp_buf (extend_buf p x)) = (n + n', left')"
    using strip_crlf_append [OF s] s' by simp
  moreover have "strip_crlf (sp_buf (extend_buf q x)) = (n', left')"
    using s' q by simp
  moreover have "scan_ok (sp_buf (extend_buf p x)) (sp_scanned (extend_buf p x))"
    by (rule stream_ok_scan [OF stream_ok_extend [OF assms(1)]])
  moreover have "scan_ok (sp_buf (extend_buf q x)) (sp_scanned (extend_buf q x))"
    using scan_ok_append [OF scan_ok_none [OF none]] q by simp
  ultimately show ?thesis
    using q by (simp add: drain_head_eq bump_bump extend_buf_def split: option.split sum.split)
qed

lemma drain_head_found:
  assumes "stream_ok p" "drain_head p = (q, Inr True)"
  shows "drain_head (extend_buf p x) = (extend_buf q x, Inr True)"
proof -
  obtain n left where s: "strip_crlf (sp_buf p) = (n, left)"
    by fastforce
  obtain i st where i: "terminator_at left = Some i" and st: "open_message (take i left) (sp_limits p) = Inr st"
    and q: "q = p\<lparr>sp_buf := drop (i + 4) left, sp_keepalives := bump (sp_keepalives p) n,
                  sp_scanned := 0, sp_state := st\<rparr>"
    using assms(2) unfolding drain_head_eq [OF stream_ok_scan [OF assms(1)] s]
    by (auto split: option.splits sum.splits if_splits)
  note head = terminator_head [OF i]
  have "length CRLF \<le> length left"
    using head(3) by (simp add: CRLF_def)
  then have "strip_crlf (left @ x) = (0, left @ x)"
    using strip_crlf_spec [OF s] by (intro strip_crlf_done) (simp add: starts_with_append)
  then have "strip_crlf (sp_buf (extend_buf p x)) = (n, left @ x)"
    using strip_crlf_append [OF s] by simp
  moreover have "terminator_at (left @ x) = Some i"
    using head_ok_append [OF head(1), of "drop (i + 4) left @ x"] head(2,3)
    by (metis add_leD1 append.assoc length_take min.absorb2)
  moreover have "scan_ok (sp_buf (extend_buf p x)) (sp_scanned (extend_buf p x))"
    by (rule stream_ok_scan [OF stream_ok_extend [OF assms(1)]])
  ultimately show ?thesis
    using head(3) st q by (simp add: drain_head_eq extend_buf_def)
qed

definition then_drain :: "sip_message list \<Rightarrow> stream_parser \<times> (parse_error, sip_message list) result
    \<Rightarrow> stream_parser \<times> (parse_error, sip_message list) result" where
  "then_drain ms r = (case r of (p, Inl e) \<Rightarrow> (p, Inl e) | (p, Inr ms') \<Rightarrow> (p, Inr (ms @ ms')))"

lemma then_drain_simps [simp]:
  "then_drain [] r = r" "then_drain (ms @ ns) r = then_drain ms (then_drain ns r)"
  "then_drain ms (p, Inr ns) = (p, Inr (ms @ ns))" "then_drain ms (p, Inl e) = (p, Inl e)"
  by (auto simp: then_drain_def split: prod.splits sum.splits)

lemma drain_head_step:
  assumes "sp_state p = St_Head"
  shows "drain p =
     (case drain_head p of
        (q, Inl e) \<Rightarrow> (q, Inl e) | (q, Inr found) \<Rightarrow> if found then drain q else (q, Inr []))"
  using assms by (subst drain.simps) (auto split: prod.splits sum.splits bool.splits)

lemma drain_body_step:
  assumes "sp_state p = St_Body start hs needed"
  shows "drain p =
     (if length (sp_buf p) < needed then (p, Inr [])
      else then_drain [assemble start hs (take needed (sp_buf p))]
             (drain (p\<lparr>sp_buf := drop needed (sp_buf p), sp_state := St_Head\<rparr>)))"
  using assms by (subst drain.simps) (auto simp: then_drain_def split: prod.splits sum.splits)

lemma drain_extend:
  assumes "stream_ok p" "drain p = (p', Inr ms)"
  shows "stream_ok p' \<and> sp_failed p' = sp_failed p \<and> sp_limits p' = sp_limits p \<and>
    drain (extend_buf p x) = then_drain ms (drain (extend_buf p' x))"
  using assms
proof (induction p arbitrary: ms rule: drain.induct)
  case (1 p)
  show ?case
  proof (cases "sp_state p")
    case St_Head
    obtain q r where h: "drain_head p = (q, r)"
      by fastforce
    note ok = drain_head_ok [OF 1(3) St_Head h]
    have ext: "drain (extend_buf p x) =
        (case drain_head (extend_buf p x) of
           (q, Inl e) \<Rightarrow> (q, Inl e) | (q, Inr found) \<Rightarrow> if found then drain q else (q, Inr []))"
      by (rule drain_head_step) (simp add: St_Head)
    show ?thesis
    proof (cases "r = Inr True")
      case True
      then have "drain q = (p', Inr ms)"
        using 1(4) h by (simp add: drain_head_step [OF St_Head])
      then show ?thesis
        using 1(1) [OF St_Head h [symmetric]] True ok ext drain_head_found [OF 1(3)] h by simp
    next
      case False
      then have r: "r = Inr False" "p' = q" "ms = []"
        using 1(4) h by (auto simp: drain_head_step [OF St_Head] split: sum.splits if_splits)
      have "drain (extend_buf q x) =
        (case drain_head (extend_buf q x) of
           (q, Inl e) \<Rightarrow> (q, Inl e) | (q, Inr found) \<Rightarrow> if found then drain q else (q, Inr []))"
        by (rule drain_head_step) (simp add: ok(4) r(1))
      then show ?thesis
        using ok ext drain_head_more [OF 1(3)] h r by simp
    qed
  next
    case (St_Body start hs needed)
    show ?thesis
    proof (cases "length (sp_buf p) < needed")
      case True
      then show ?thesis
        using 1(3,4) by (simp add: drain_body_step [OF St_Body])
    next
      case False
      define q where "q = p\<lparr>sp_buf := drop needed (sp_buf p), sp_state := St_Head\<rparr>"
      obtain ns where ns: "drain q = (p', Inr ns)" "ms = assemble start hs (take needed (sp_buf p)) # ns"
        using 1(4) False by (cases "drain q"; cases "snd (drain q)")
          (auto simp: drain_body_step [OF St_Body] q_def)
      have "stream_ok q"
        using 1(3) St_Body by (simp add: stream_ok_def q_def)
      then have "stream_ok p' \<and> sp_failed p' = sp_failed p \<and> sp_limits p' = sp_limits p \<and>
          drain (extend_buf q x) = then_drain ns (drain (extend_buf p' x))"
        using 1(2) [OF St_Body False] ns(1) by (simp add: q_def)
      moreover have "(extend_buf p x)\<lparr>sp_buf := drop needed (sp_buf (extend_buf p x)), sp_state := St_Head\<rparr>
          = extend_buf q x"
        using False by (simp add: q_def extend_buf_def)
      ultimately show ?thesis
        using False St_Body then_drain_simps(2) [of "[assemble start hs (take needed (sp_buf p))]" ns]
        by (simp add: drain_body_step ns(2) del: then_drain_simps(2))
    qed
  qed
qed

text \<open>
  The reading side of a connection: it pushes what each read returned, hands on the messages, and
  stops at the first error, after which the connection is closed.
\<close>

fun read_stream :: "stream_parser \<Rightarrow> bytes list \<Rightarrow> stream_parser \<times> sip_message list \<times> parse_error option" where
  "read_stream p [] = (p, [], None)"
| "read_stream p (c # cs) =
     (case push p c of
        (q, Inl e) \<Rightarrow> (q, [], Some e)
      | (q, Inr ms) \<Rightarrow> (case read_stream q cs of (r, ns, e) \<Rightarrow> (r, ms @ ns, e)))"

lemma stream_ok_new [simp]: "stream_ok (stream_new lim)"
  by (simp add: stream_ok_def stream_new_def)

lemma push_Inr_iff:
  "push p c = (p', Inr ms) \<longleftrightarrow> \<not> sp_failed p \<and> drain (extend_buf p c) = (p', Inr ms)"
  by (auto simp: push_def extend_buf_def split: prod.splits sum.splits)

lemma push_append:
  assumes "stream_ok p" "push p a = (q, Inr ms)"
  shows "stream_ok q" "sp_failed q = sp_failed p" "push p (a @ b) = then_drain ms (push q b)"
proof -
  have nf: "\<not> sp_failed p" and d: "drain (extend_buf p a) = (q, Inr ms)"
    using assms(2) by (auto simp: push_Inr_iff)
  note ext = drain_extend [OF stream_ok_extend [OF assms(1)] d]
  show "stream_ok q" "sp_failed q = sp_failed p"
    using ext by auto
  have "drain (extend_buf p (a @ b)) = then_drain ms (drain (extend_buf q b))"
    using ext by (simp add: extend_buf_def)
  then show "push p (a @ b) = then_drain ms (push q b)"
    using nf ext by (auto simp: push_def extend_buf_def split: prod.splits sum.splits)
qed

lemma push_nil_new: "push (stream_new lim) [] = (stream_new lim, Inr [])"
proof -
  have "drain_head (stream_new lim) = (stream_new lim, Inr False)"
    by (simp add: drain_head_eq [where n = 0 and left = "[]"] stream_new_def bump_def)
  then show ?thesis
    by (simp add: push_Inr_iff extend_buf_def stream_new_def drain_head_step)
qed

lemma read_stream_Cons:
  assumes "read_stream p (c # cs) = (q, ms, e)"
  obtains (failed) "push p c = (q, Inl (the e))" "ms = []" "e \<noteq> None"
  | (read) r ns ns' where "push p c = (r, Inr ns)" "read_stream r cs = (q, ns', e)" "ms = ns @ ns'"
proof (cases "push p c")
  case (Pair r outcome)
  then show thesis
    using assms failed read by (cases outcome; cases "read_stream r cs") auto
qed

lemma read_stream_concat:
  assumes "stream_ok p" "read_stream p cs = (q, ms, None)" "push p [] = (p, Inr [])"
  shows "push p (concat cs @ c) = then_drain ms (push q c) \<and> stream_ok q \<and> push q [] = (q, Inr [])"
  using assms
proof (induction cs arbitrary: p ms)
  case (Cons d cs)
  obtain r ns ns' where d: "push p d = (r, Inr ns)" and r: "read_stream r cs = (q, ns', None)" "ms = ns @ ns'"
    using read_stream_Cons [OF Cons.prems(2)] by metis
  note app = push_append [OF Cons.prems(1) d]
  have "push r [] = (r, Inr [])"
  proof -
    have "then_drain ns (push r []) = (r, Inr ns)"
      using app(3) [of "[]"] d by simp
    then show ?thesis
      by (cases "push r []"; cases "snd (push r [])") auto
  qed
  then show ?case
    using Cons.IH [OF app(1) r(1)] app(3) [of "concat cs @ c"] r(2) by simp
qed simp

lemma read_stream_failed:
  assumes "read_stream p cs = (q, ms, Some e)"
  shows "\<exists>ds c rest r. cs = ds @ c # rest \<and> read_stream p ds = (r, ms, None) \<and> push r c = (q, Inl e)"
  using assms
proof (induction cs arbitrary: p ms)
  case (Cons d cs)
  from Cons.prems show ?case
  proof (cases rule: read_stream_Cons)
    case failed
    then show ?thesis
      by (intro exI [of _ "[]"] exI [of _ d] exI [of _ cs] exI [of _ p]) simp
  next
    case (read r ns ns')
    from Cons.IH [OF read(2)] obtain ds c rest r' where
      "cs = ds @ c # rest" "read_stream r ds = (r', ns', None)" "push r' c = (q, Inl e)"
      by blast
    with read show ?thesis
      by (intro exI [of _ "d # ds"] exI [of _ c] exI [of _ rest] exI [of _ r']) simp
  qed
qed simp

text \<open>
  C6: How a stream is cut shows only in what is delivered before an error. Whatever chunks arrive, if
  none fails, the parser is left in exactly the state, with exactly the messages, that one chunk
  with all their octets leaves. If one fails, the messages delivered are exactly those of the octets
  before that chunk read at once, and the error and final state are those of all octets up to its
  end read at once; but that one chunk delivers nothing, since \<open>push\<close> drops the messages it has
  completed when a later one is malformed.
\<close>

theorem stream_chunks:
  "case read_stream (stream_new lim) cs of
     (p, ms, None) \<Rightarrow> push (stream_new lim) (concat cs) = (p, Inr ms)
   | (p, ms, Some e) \<Rightarrow> \<exists>ds c rest q. cs = ds @ c # rest \<and>
       push (stream_new lim) (concat ds) = (q, Inr ms) \<and>
       push (stream_new lim) (concat ds @ c) = (p, Inl e) \<and>
       read_stream (stream_new lim) [concat ds @ c] = (p, [], Some e)"
proof (cases "read_stream (stream_new lim) cs")
  case (fields p ms e)
  note whole = read_stream_concat [OF stream_ok_new _ push_nil_new, of lim]
  show ?thesis
  proof (cases e)
    case None
    then show ?thesis
      using fields whole [of cs p ms "[]"] by simp
  next
    case (Some err)
    then obtain ds c rest q where split: "cs = ds @ c # rest" "read_stream (stream_new lim) ds = (q, ms, None)"
      "push q c = (p, Inl err)"
      using read_stream_failed [of "stream_new lim" cs p ms err] fields by blast
    have "push (stream_new lim) (concat ds) = (q, Inr ms)" "push (stream_new lim) (concat ds @ c) = (p, Inl err)"
      using whole [OF split(2), of "[]"] whole [OF split(2), of c] split(3) by simp_all
    moreover from this(2) have "read_stream (stream_new lim) [concat ds @ c] = (p, [], Some err)"
      by simp
    ultimately show ?thesis
      unfolding fields Some prod.case option.case using split(1) by blast
  qed
qed

subsection \<open>What a stream delivers\<close>

lemma open_message_Inr_iff:
  "open_message head lim = Inr st \<longleftrightarrow>
     (\<exists>start hs n. parse_head head lim = Inr (start, hs) \<and> content_length hs = Inr (Some n) \<and>
        n \<le> max_body_bytes lim \<and> st = St_Body start hs n)"
  by (auto simp: open_message_def bind_res_Inr_iff check_body_limit_def not_less)

text \<open>The octets a parser has taken in that are not part of a message it has delivered.\<close>

definition held :: "stream_parser \<Rightarrow> bytes" where
  "held p =
     (case sp_state p of
        St_Head \<Rightarrow> sp_buf p
      | St_Body start hs n \<Rightarrow> start_raw start @ CRLF @ headers_write hs @ CRLF @ sp_buf p)"

definition opened :: "stream_parser \<Rightarrow> bool" where
  "opened p \<longleftrightarrow>
     sp_state p = St_Head \<or> (\<exists>head. head_ok head \<and> open_message head (sp_limits p) = Inr (sp_state p))"

definition framing :: "(nat \<times> sip_message) list \<Rightarrow> bytes" where
  "framing kms = concat (map (\<lambda>(k, m). crlfs k @ message_to_bytes m) kms)"

text \<open>A message delivered by a stream is the datagram with its octets.\<close>

definition as_datagram :: "limits \<Rightarrow> sip_message \<Rightarrow> bool" where
  "as_datagram lim m \<longleftrightarrow>
     (length (message_to_bytes m) \<le> max_message_bytes lim \<longrightarrow>
      parse_datagram (message_to_bytes m) lim = Inr m)"

definition delivered :: "limits \<Rightarrow> bytes \<Rightarrow> sip_message list \<Rightarrow> bytes \<Rightarrow> bool" where
  "delivered lim input ms left \<longleftrightarrow>
     (\<exists>ks k. length ks = length ms \<and> input = framing (zip ks ms) @ crlfs k @ left) \<and>
     (\<forall>m \<in> set ms. as_datagram lim m)"

lemma delivered_none: "delivered lim (crlfs k @ left) [] left"
  by (auto simp: delivered_def framing_def)

lemma delivered_skip:
  assumes "delivered lim input ms left"
  shows "delivered lim (crlfs n @ input) ms left"
proof -
  obtain ks k where ks: "length ks = length ms" "input = framing (zip ks ms) @ crlfs k @ left"
    using assms by (auto simp: delivered_def)
  show ?thesis
  proof (cases ms)
    case Nil
    then show ?thesis
      using ks by (auto simp: delivered_def framing_def crlfs_add [symmetric])
  next
    case (Cons m ms')
    then obtain k0 ks' where "ks = k0 # ks'"
      using ks(1) by (cases ks) auto
    then have "length ((n + k0) # ks') = length ms \<and>
        crlfs n @ input = framing (zip ((n + k0) # ks') ms) @ crlfs k @ left"
      using ks Cons by (simp add: framing_def crlfs_add)
    then show ?thesis
      using assms unfolding delivered_def by blast
  qed
qed

lemma delivered_message:
  assumes "delivered lim input ms left" "as_datagram lim m"
  shows "delivered lim (message_to_bytes m @ input) (m # ms) left"
proof -
  obtain ks k where "length ks = length ms" "input = framing (zip ks ms) @ crlfs k @ left"
    using assms(1) by (auto simp: delivered_def)
  then have "length (0 # ks) = length (m # ms) \<and>
      message_to_bytes m @ input = framing (zip (0 # ks) (m # ms)) @ crlfs k @ left"
    by (simp add: framing_def)
  then show ?thesis
    using assms unfolding delivered_def by (metis set_ConsD)
qed

lemma drain_head_held:
  assumes "stream_ok p" "sp_state p = St_Head" "drain_head p = (q, Inr found)"
  shows "opened q" "\<exists>n. held p = crlfs n @ held q"
proof -
  obtain n left where s: "strip_crlf (sp_buf p) = (n, left)"
    by fastforce
  note buf = strip_crlf_spec [OF s]
  note step = assms(3) [unfolded drain_head_eq [OF stream_ok_scan [OF assms(1)] s]]
  have "opened q \<and> held p = crlfs n @ held q"
  proof (cases "terminator_at left")
    case None
    then show ?thesis
      using step buf assms(2) by (auto simp: opened_def held_def split: if_splits)
  next
    case (Some i)
    note head = terminator_head [OF Some]
    obtain st where st: "open_message (take i left) (sp_limits p) = Inr st"
      and q: "q = p\<lparr>sp_buf := drop (i + 4) left, sp_keepalives := bump (sp_keepalives p) n,
                  sp_scanned := 0, sp_state := st\<rparr>"
      using step Some by (auto split: sum.splits)
    obtain start hs m where parsed: "parse_head (take i left) (sp_limits p) = Inr (start, hs)"
      and body: "st = St_Body start hs m"
      using st by (auto simp: open_message_Inr_iff)
    have "held q = message_to_bytes (assemble start hs (drop (i + 4) left))"
      by (simp add: held_def q body message_to_bytes_assemble)
    also have "\<dots> = left"
      using assembled_bytes [OF parsed head(1)] head(2) by simp
    finally have "held q = left" .
    moreover have "opened q"
      using st head(1) by (auto simp: opened_def q)
    ultimately show ?thesis
      using buf assms(2) by (simp add: held_def)
  qed
  then show "opened q" "\<exists>n. held p = crlfs n @ held q"
    by blast+
qed

lemma opened_body:
  assumes "opened p" "sp_state p = St_Body start hs n"
  shows "as_datagram (sp_limits p) (assemble start hs (take n (sp_buf p))) \<or> length (sp_buf p) < n"
proof -
  obtain head where ok: "head_ok head" and "open_message head (sp_limits p) = Inr (St_Body start hs n)"
    using assms by (auto simp: opened_def)
  then have h: "parse_head head (sp_limits p) = Inr (start, hs)" and n: "content_length hs = Inr (Some n)"
    "n \<le> max_body_bytes (sp_limits p)"
    by (auto simp: open_message_Inr_iff)
  define body where "body = take n (sp_buf p)"
  have "parse_datagram (message_to_bytes (assemble start hs body)) (sp_limits p)
        = Inr (assemble start hs body)"
    if "length body = n" "length (message_to_bytes (assemble start hs body)) \<le> max_message_bytes (sp_limits p)"
    unfolding parse_datagram_Inr_iff
    using that assembled_bytes [OF h ok, of body] ok h n
    by (fastforce simp: datagram_body_Inr_iff)
  then show ?thesis
    by (cases "length (sp_buf p) < n") (auto simp: as_datagram_def body_def)
qed

lemma drain_delivered:
  assumes "stream_ok p" "opened p" "drain p = (p', Inr ms)"
  shows "delivered (sp_limits p) (held p) ms (held p')"
  using assms
proof (induction p arbitrary: ms rule: drain.induct)
  case (1 p)
  show ?case
  proof (cases "sp_state p")
    case St_Head
    obtain q r where h: "drain_head p = (q, r)"
      by fastforce
    then obtain found where r: "r = Inr found"
      using 1(5) by (cases r) (auto simp: drain_head_step [OF St_Head])
    note q = drain_head_held [OF 1(3) St_Head h [unfolded r]] drain_head_ok [OF 1(3) St_Head h]
    obtain n where n: "held p = crlfs n @ held q"
      using q(2) by blast
    have "delivered (sp_limits p) (held q) ms (held p')"
    proof (cases found)
      case True
      then have "drain q = (p', Inr ms)"
        using 1(5) h r by (simp add: drain_head_step [OF St_Head])
      then show ?thesis
        using 1(1) [OF St_Head h [symmetric]] q True r by simp
    next
      case False
      then show ?thesis
        using 1(5) h r delivered_none [of _ 0] by (simp add: drain_head_step [OF St_Head])
    qed
    then show ?thesis
      unfolding n by (rule delivered_skip)
  next
    case (St_Body start hs needed)
    show ?thesis
    proof (cases "length (sp_buf p) < needed")
      case True
      then show ?thesis
        using 1(5) delivered_none [of _ 0] by (simp add: drain_body_step [OF St_Body])
    next
      case False
      define q m where "q = p\<lparr>sp_buf := drop needed (sp_buf p), sp_state := St_Head\<rparr>"
        and "m = assemble start hs (take needed (sp_buf p))"
      obtain ns where ns: "drain q = (p', Inr ns)" "ms = m # ns"
        using 1(5) False by (cases "drain q"; cases "snd (drain q)")
          (auto simp: drain_body_step [OF St_Body] q_def m_def)
      have "stream_ok q" "opened q"
        using 1(3) St_Body by (simp_all add: stream_ok_def opened_def q_def)
      then have "delivered (sp_limits p) (held q) ns (held p')"
        using 1(2) [OF St_Body False] ns(1) by (simp add: q_def)
      moreover have "as_datagram (sp_limits p) m"
        using opened_body [OF 1(4) St_Body] False by (simp add: m_def)
      moreover have "held p = message_to_bytes m @ held q"
        by (simp add: held_def St_Body m_def q_def message_to_bytes_assemble)
      ultimately show ?thesis
        using delivered_message ns(2) by simp
    qed
  qed
qed

text \<open>
  C7: A stream loses nothing and invents nothing. Every octet of the accepted chunks is part of a
  delivered message, is a CRLF between messages, or is still held; in that order; and every
  delivered message is the one a datagram with the same octets carries, whenever that datagram is
  within the size limit.
\<close>

theorem stream_lossless:
  assumes "read_stream (stream_new lim) cs = (p, ms, None)"
  shows "\<exists>ks k. length ks = length ms \<and>
      concat cs = concat (map2 (\<lambda>k m. crlfs k @ message_to_bytes m) ks ms) @ crlfs k @ held p \<and>
      (\<forall>m \<in> set ms. length (message_to_bytes m) \<le> max_message_bytes lim \<longrightarrow>
         parse_datagram (message_to_bytes m) lim = Inr m)"
proof -
  define q where "q = extend_buf (stream_new lim) (concat cs)"
  have "push (stream_new lim) (concat cs) = (p, Inr ms)"
    using read_stream_concat [OF stream_ok_new assms push_nil_new, of "[]"] by simp
  then have "drain q = (p, Inr ms)"
    by (simp add: push_Inr_iff q_def)
  moreover have "stream_ok q" "opened q" "held q = concat cs" "sp_limits q = lim"
    by (simp_all add: q_def stream_ok_extend opened_def held_def stream_new_def extend_buf_def)
      (simp add: stream_ok_def)
  ultimately have "delivered lim (concat cs) ms (held p)"
    using drain_delivered [of q] by simp
  then show ?thesis
    by (auto simp: delivered_def as_datagram_def framing_def)
qed

subsection \<open>Messages back to back\<close>

lemma fold_lines_first:
  "fold_lines limit start i folds rest = Inr (s # ls) \<Longrightarrow> fst s = start"
  by (induction limit start i folds rest arbitrary: s ls rule: fold_lines.induct)
    (auto simp: bind_res_Inr_iff split: if_splits)

lemma space_bounds_first:
  "space_bounds start i line = s # bs \<Longrightarrow> fst s = start \<and> i \<le> snd s"
proof (induction start i line arbitrary: s bs rule: space_bounds.induct)
  case (2 start i b rest)
  show ?case
    using 2(2) [of s bs] 2(3) by (cases "b = 32") auto
qed auto

lemma token_not_cr: "\<not> is_token_char 13"
  by code_simp

lemma parse_request_line_first:
  assumes "parse_request_line (13 # line) = Inr st"
  shows False
proof -
  obtain m u v where b: "space_bounds 0 0 (13 # line) = [m, u, v]" and ne: "fst m \<noteq> snd m"
    and tok: "list_all is_token_char (span_of (13 # line) m)"
    using assms by (auto simp: parse_request_line_def split: list.splits if_splits)
  have "fst m = 0"
    using space_bounds_first [OF b] by simp
  then obtain j where "m = (0, Suc j)"
    using ne by (cases m; cases "snd m") auto
  then show False
    using tok token_not_cr by (simp add: span_of_def)
qed

lemma parse_start_line_first:
  assumes "parse_start_line (13 # rest) = Inr st"
  shows False
proof -
  have "\<not> eq_ignore_ascii_case (take 4 (13 # rest)) (ascii ''SIP/'')"
    by (simp add: eq_ignore_ascii_case_def ascii_def lower_byte_def is_ascii_uppercase_def)
  then show False
    using assms parse_request_line_first [of rest st] by (simp add: parse_start_line_def split: if_splits)
qed

lemma parse_head_first:
  assumes "parse_head head lim = Inr (start, hs)"
  shows "\<not> starts_with (head @ x) CRLF"
proof -
  obtain s spans where lines: "split_folded_lines head lim = Inr (s # spans)"
    and start: "parse_start_line (span_of head s) = Inr start"
    using parse_headE [OF assms(1)] .
  have "fst s = 0"
    using lines fold_lines_first by (auto simp: split_folded_lines_def split: if_splits)
  then have line: "span_of head s = take (snd s) head"
    by (simp add: span_of_def)
  then obtain b rest j where "head = b # rest" "snd s = Suc j"
    using parse_start_line_raw [OF start] by (cases head; cases "snd s") auto
  then have "head = b # rest" "b \<noteq> 13"
    using start line parse_start_line_first [of "take j rest" start] by auto
  then show ?thesis
    by (simp add: starts_with_def CRLF_def)
qed

text \<open>A message at the front of the buffer is delivered, and the loop goes on behind it.\<close>

lemma drain_message:
  assumes p: "stream_ok p" "sp_state p = St_Head" "sp_buf p = message_to_bytes m @ x"
    and m: "parse_datagram (message_to_bytes m) (sp_limits p) = Inr m"
    and len: "content_length (message_headers m) \<noteq> Inr None"
  shows "drain p = then_drain [m] (drain (p\<lparr>sp_buf := x, sp_scanned := 0\<rparr>))"
proof -
  obtain head rest start hs body where bytes: "message_to_bytes m = head @ TERMINATOR @ rest"
    and ok: "head_ok head" and h: "parse_head head (sp_limits p) = Inr (start, hs)"
    and b: "datagram_body (sp_limits p) hs rest = Inr body" and a: "m = assemble start hs body"
    using m unfolding parse_datagram_Inr_iff by blast
  have rest: "rest = body"
    using bytes assembled_bytes [OF h ok, of body] a by simp
  have body: "content_length hs = Inr (Some (length body))" "length body \<le> max_body_bytes (sp_limits p)"
    using b len by (auto simp: a datagram_body_Inr_iff)
  then have st: "open_message head (sp_limits p) = Inr (St_Body start hs (length body))"
    using h by (auto simp: open_message_Inr_iff)
  have buf: "sp_buf p = head @ TERMINATOR @ body @ x"
    using p(3) bytes rest by simp
  have "strip_crlf (sp_buf p) = (0, head @ TERMINATOR @ body @ x)"
    unfolding buf by (rule strip_crlf_done [OF parse_head_first [OF h]])
  then have "drain_head p = (p\<lparr>sp_buf := body @ x, sp_scanned := 0,
      sp_state := St_Body start hs (length body)\<rparr>, Inr True)"
    using st head_ok_append [OF ok]
    by (simp add: drain_head_eq [OF stream_ok_scan [OF p(1)]] bump_def)
  then have "drain p = drain (p\<lparr>sp_buf := body @ x, sp_scanned := 0,
      sp_state := St_Body start hs (length body)\<rparr>)"
    by (simp add: drain_head_step [OF p(2)])
  also have "\<dots> = then_drain [m] (drain (p\<lparr>sp_scanned := 0, sp_buf := x, sp_state := St_Head\<rparr>))"
    by (simp add: drain_body_step [where start = start and hs = hs and needed = "length body"] a)
  also have "p\<lparr>sp_scanned := 0, sp_buf := x, sp_state := St_Head\<rparr> = p\<lparr>sp_buf := x, sp_scanned := 0\<rparr>"
    using p(2) by (cases p) simp
  finally show ?thesis .
qed

lemma drain_messages:
  assumes "stream_ok p" "sp_state p = St_Head" "sp_buf p = concat (map message_to_bytes ms) @ x"
    and "\<And>m. m \<in> set ms \<Longrightarrow> parse_datagram (message_to_bytes m) (sp_limits p) = Inr m \<and>
        content_length (message_headers m) \<noteq> Inr None"
  shows "\<exists>s. drain p = then_drain ms (drain (p\<lparr>sp_buf := x, sp_scanned := s\<rparr>)) \<and> scan_ok x s"
  using assms
proof (induction ms arbitrary: p)
  case Nil
  then show ?case
    using stream_ok_scan [OF Nil.prems(1)] by (intro exI [of _ "sp_scanned p"]) auto
next
  case (Cons m ms)
  define q where "q = p\<lparr>sp_buf := concat (map message_to_bytes ms) @ x, sp_scanned := 0\<rparr>"
  have "drain p = then_drain [m] (drain q)"
    unfolding q_def using Cons.prems by (intro drain_message) auto
  moreover obtain s where s: "drain q = then_drain ms (drain (q\<lparr>sp_buf := x, sp_scanned := s\<rparr>))" "scan_ok x s"
    using Cons.IH [of q] Cons.prems by (auto simp: q_def stream_ok_def)
  ultimately have "drain p = then_drain (m # ms) (drain (p\<lparr>sp_buf := x, sp_scanned := s\<rparr>))"
    using then_drain_simps(2) [of "[m]" ms] by (simp add: q_def del: then_drain_simps(2))
  with s(2) show ?case
    by blast
qed

lemma push_messages:
  assumes "\<And>m. m \<in> set ms \<Longrightarrow> parse_datagram (message_to_bytes m) lim = Inr m \<and>
      content_length (message_headers m) \<noteq> Inr None"
  shows "push (stream_new lim) (concat (map message_to_bytes ms)) = (stream_new lim, Inr ms)"
proof -
  define p where "p = extend_buf (stream_new lim) (concat (map message_to_bytes ms))"
  obtain s where s: "drain p = then_drain ms (drain (p\<lparr>sp_buf := [], sp_scanned := s\<rparr>))" "scan_ok [] s"
    using drain_messages [of p ms "[]"] assms
    by (auto simp: p_def stream_ok_extend extend_buf_def stream_new_def) (auto simp: stream_ok_def)
  have "s = 0"
    using s(2) unfolding scan_ok_def by (metis add_is_0 le_zero_eq list.size(3) neq0_conv zero_neq_numeral)
  then have "p\<lparr>sp_buf := [], sp_scanned := s\<rparr> = extend_buf (stream_new lim) []"
    by (simp add: p_def extend_buf_def stream_new_def)
  then have "drain p = (stream_new lim, Inr ms)"
    using s(1) push_nil_new by (simp add: push_Inr_iff)
  then show ?thesis
    by (simp add: push_Inr_iff p_def) (simp add: stream_new_def)
qed

text \<open>
  Messages sent back to back on a stream all arrive, in order, and leave nothing behind, when
  each declares its length and would be accepted as a datagram.
\<close>

theorem stream_complete:
  assumes "\<And>m. m \<in> set ms \<Longrightarrow> parse_datagram (message_to_bytes m) lim = Inr m \<and>
      content_length (message_headers m) \<noteq> Inr None"
  shows "push (stream_new lim) (concat (map message_to_bytes ms)) = (stream_new lim, Inr ms)"
  using assms by (rule push_messages)

section \<open>Frames\<close>

lemma parse_datagram_noise:
  assumes "parse_datagram (message_to_bytes m) lim = Inr m"
    "content_length (message_headers m) \<noteq> Inr None"
    "length (message_to_bytes m @ noise) \<le> max_message_bytes lim"
  shows "parse_datagram (message_to_bytes m @ noise) lim = Inr m"
proof -
  obtain head rest start hs body where bytes: "message_to_bytes m = head @ TERMINATOR @ rest"
    and ok: "head_ok head" and h: "parse_head head lim = Inr (start, hs)"
    and b: "datagram_body lim hs rest = Inr body" and a: "m = assemble start hs body"
    using assms(1) unfolding parse_datagram_Inr_iff by blast
  have "datagram_body lim hs (rest @ noise) = Inr body"
    using b assms(2) by (auto simp: datagram_body_Inr_iff a)
  then show ?thesis
    unfolding parse_datagram_Inr_iff using assms(3) bytes ok h a
    by (intro conjI exI [of _ head] exI [of _ "rest @ noise"] exI [of _ start] exI [of _ hs]
        exI [of _ body]) auto
qed

text \<open>The loop on a buffer that is one head and its terminator.\<close>

lemma drain_lone_head:
  assumes "sp_state p = St_Head" "sp_buf p = head @ TERMINATOR @ x" "scan_ok (sp_buf p) (sp_scanned p)"
    and ok: "head_ok head" and h: "parse_head head (sp_limits p) = Inr (start, hs)"
  shows "drain_head p =
     (case open_message head (sp_limits p) of
        Inl e \<Rightarrow> (p\<lparr>sp_buf := x, sp_scanned := 0\<rparr>, Inl e)
      | Inr st \<Rightarrow> (p\<lparr>sp_buf := x, sp_scanned := 0, sp_state := st\<rparr>, Inr True))"
proof -
  have "strip_crlf (sp_buf p) = (0, head @ TERMINATOR @ x)"
    unfolding assms(2) by (rule strip_crlf_done [OF parse_head_first [OF h]])
  then show ?thesis
    using head_ok_append [OF ok] by (simp add: drain_head_eq [OF assms(3)] bump_def split: sum.split)
qed

lemma push_message_head:
  assumes m: "parse_datagram (message_to_bytes m) lim = Inr m"
    "content_length (message_headers m) \<noteq> Inr None"
    and head: "head_ok head" "parse_head head lim = Inr (start, hs)"
  shows "content_length hs = Inr (Some n) \<Longrightarrow> 0 < n \<Longrightarrow> n \<le> max_body_bytes lim \<Longrightarrow>
      \<exists>q. push (stream_new lim) (message_to_bytes m @ head @ TERMINATOR) = (q, Inr [m]) \<and> sp_buf q = []"
    "content_length hs = Inr None \<Longrightarrow>
      \<exists>q. push (stream_new lim) (message_to_bytes m @ head @ TERMINATOR)
        = (q, Inl (PE_Framing ContentLengthRequired))"
proof -
  define p where "p = extend_buf (stream_new lim) (message_to_bytes m @ head @ TERMINATOR)"
  have p: "stream_ok p" "sp_state p = St_Head" "sp_limits p = lim" "\<not> sp_failed p"
    "sp_buf p = message_to_bytes m @ head @ TERMINATOR"
    unfolding p_def by (simp_all add: stream_ok_extend) (simp_all add: stream_new_def)
  define q where "q = p\<lparr>sp_buf := head @ TERMINATOR, sp_scanned := 0\<rparr>"
  have "drain p = then_drain [m] (drain q)"
    unfolding q_def using m p by (intro drain_message) simp_all
  moreover have "drain_head q =
     (case open_message head lim of
        Inl e \<Rightarrow> (q\<lparr>sp_buf := [], sp_scanned := 0\<rparr>, Inl e)
      | Inr st \<Rightarrow> (q\<lparr>sp_buf := [], sp_scanned := 0, sp_state := st\<rparr>, Inr True))"
    using drain_lone_head [of q head "[]" start hs] p head by (simp add: q_def)
  moreover have "sp_state q = St_Head"
    using p by (simp add: q_def)
  ultimately have d: "drain p = then_drain [m]
     (case open_message head lim of
        Inl e \<Rightarrow> (q\<lparr>sp_buf := [], sp_scanned := 0\<rparr>, Inl e)
      | Inr st \<Rightarrow> drain (q\<lparr>sp_buf := [], sp_scanned := 0, sp_state := st\<rparr>))"
    by (simp add: drain_head_step split: sum.split)
  show "\<exists>q. push (stream_new lim) (message_to_bytes m @ head @ TERMINATOR) = (q, Inr [m]) \<and> sp_buf q = []"
    if "content_length hs = Inr (Some n)" "0 < n" "n \<le> max_body_bytes lim"
  proof -
    have "open_message head lim = Inr (St_Body start hs n)"
      using head that by (auto simp: open_message_Inr_iff)
    then have "drain p = (q\<lparr>sp_buf := [], sp_scanned := 0, sp_state := St_Body start hs n\<rparr>, Inr [m])"
      using d that(2) by (simp add: drain_body_step [where start = start and hs = hs and needed = n])
    then show ?thesis
      using p by (auto simp: push_Inr_iff p_def)
  qed
  show "\<exists>q. push (stream_new lim) (message_to_bytes m @ head @ TERMINATOR)
        = (q, Inl (PE_Framing ContentLengthRequired))"
    if "content_length hs = Inr None"
  proof -
    have "open_message head lim = Inl (PE_Framing ContentLengthRequired)"
      using head that by (simp add: open_message_def)
    then show ?thesis
      using d p by (simp add: push_def p_def extend_buf_def)
  qed
qed

lemma frame_first:
  assumes f: "parse_frame buf lim = Inr m"
  shows "\<exists>k rest. buf = crlfs k @ message_to_bytes m @ rest"
proof -
  obtain p r where r: "push (stream_new lim) buf = (p, r)"
    by fastforce
  show "\<exists>k rest. buf = crlfs k @ message_to_bytes m @ rest"
  proof (cases r)
    case (Inl e)
    then have "parse_datagram buf lim = Inr m"
      using f r by (auto simp: parse_frame_def split: if_splits)
    then obtain rest where "buf = message_to_bytes m @ rest"
      unfolding parse_datagram_Inr_iff
      by (metis append.assoc assembled_bytes datagram_body_again(1))
    then show ?thesis
      by (intro exI [of _ 0]) auto
  next
    case (Inr ms)
    then have "ms = [m]"
      using f r by (auto simp: parse_frame_def split: list.splits if_splits)
    then have "drain (extend_buf (stream_new lim) buf) = (p, Inr [m])"
      using r Inr by (simp add: push_Inr_iff)
    moreover have "opened (extend_buf (stream_new lim) buf)" "held (extend_buf (stream_new lim) buf) = buf"
      by (simp_all add: opened_def held_def stream_new_def extend_buf_def)
    ultimately have "delivered (sp_limits (extend_buf (stream_new lim) buf)) buf [m] (held p)"
      using drain_delivered [OF stream_ok_extend [OF stream_ok_new]] by metis
    then obtain k j where "buf = crlfs k @ message_to_bytes m @ crlfs j @ held p"
      by (auto simp: delivered_def framing_def length_Suc_conv)
    then show ?thesis
      by blast
  qed
qed

lemma frame_accepts:
  assumes d: "parse_datagram (message_to_bytes m) lim = Inr m"
  shows "parse_frame (message_to_bytes m) lim = Inr m"
proof (cases "content_length (message_headers m) = Inr None")
  case False
  then have "push (stream_new lim) (message_to_bytes m) = (stream_new lim, Inr [m])"
    using push_messages [of "[m]"] d by simp
  then show ?thesis
    by (simp add: parse_frame_def stream_pending_def stream_new_def)
next
  case True
  obtain head rest start hs body where bytes: "message_to_bytes m = head @ TERMINATOR @ rest"
    and ok: "head_ok head" and h: "parse_head head lim = Inr (start, hs)" and a: "m = assemble start hs body"
    using d unfolding parse_datagram_Inr_iff by blast
  define p where "p = extend_buf (stream_new lim) (message_to_bytes m)"
  have p: "sp_state p = St_Head" "sp_limits p = lim" "scan_ok (sp_buf p) (sp_scanned p)"
    "sp_buf p = head @ TERMINATOR @ rest"
    by (simp_all add: p_def stream_new_def bytes)
  have "open_message head lim = Inl (PE_Framing ContentLengthRequired)"
    using h True by (simp add: open_message_def a)
  then have "\<exists>q. push (stream_new lim) (message_to_bytes m) = (q, Inl (PE_Framing ContentLengthRequired))"
    using drain_lone_head [OF p(1,4,3) ok, of start hs] h p
    by (simp add: push_def p_def extend_buf_def drain_head_step) (simp add: stream_new_def)
  then show ?thesis
    using d by (auto simp: parse_frame_def)
qed

text \<open>
  A self-delimiting frame. A message that would be accepted as a datagram is accepted as the
  only content of a frame, with or without a declared length; and the message a frame yields is
  its first one, octet for octet, behind nothing but CRLF keep-alives.
\<close>

theorem frame_message:
  "(parse_frame buf lim = Inr m \<longrightarrow> (\<exists>k rest. buf = crlfs k @ message_to_bytes m @ rest)) \<and>
   (parse_datagram (message_to_bytes m) lim = Inr m \<longrightarrow> parse_frame (message_to_bytes m) lim = Inr m)"
  using frame_first frame_accepts by blast

text \<open>
  A frame may carry more than one message. The documentation of \<open>parse_frame\<close> promises one
  whole message and nothing else; but a message followed by the complete head of a second one is
  accepted and the second silently dropped, both when that head declares a body that the frame
  does not hold (nothing is left in the buffer, so nothing counts as trailing) and when it
  declares no length at all (the stream's refusal is taken for that of the first message, and the
  frame is read again as a datagram).
\<close>

theorem frame_drops_second:
  assumes "parse_datagram (message_to_bytes m) lim = Inr m"
    "content_length (message_headers m) \<noteq> Inr None"
    "head_ok head" "parse_head head lim = Inr (start, hs)"
    "content_length hs = Inr None \<and> length (message_to_bytes m @ head @ TERMINATOR) \<le> max_message_bytes lim \<or>
     content_length hs = Inr (Some n) \<and> 0 < n \<and> n \<le> max_body_bytes lim"
  shows "parse_frame (message_to_bytes m @ head @ TERMINATOR) lim = Inr m"
  using assms(5)
proof (elim disjE conjE)
  assume "content_length hs = Inr None"
    and len: "length (message_to_bytes m @ head @ TERMINATOR) \<le> max_message_bytes lim"
  then obtain q where "push (stream_new lim) (message_to_bytes m @ head @ TERMINATOR)
      = (q, Inl (PE_Framing ContentLengthRequired))"
    using push_message_head(2) [OF assms(1-4)] by blast
  then show ?thesis
    using parse_datagram_noise [OF assms(1,2) len] by (simp add: parse_frame_def)
next
  assume "content_length hs = Inr (Some n)" "0 < n" "n \<le> max_body_bytes lim"
  then obtain q where "push (stream_new lim) (message_to_bytes m @ head @ TERMINATOR) = (q, Inr [m])"
    "sp_buf q = []"
    using push_message_head(1) [OF assms(1-4)] by blast
  then show ?thesis
    by (simp add: parse_frame_def stream_pending_def)
qed

section \<open>Limits and line breaks\<close>

text \<open>Octets in which CR and LF occur only as CRLF pairs.\<close>

inductive crlf_ok :: "bytes \<Rightarrow> bool" where
  empty: "crlf_ok []"
| pair: "crlf_ok r \<Longrightarrow> crlf_ok (13 # 10 # r)"
| plain: "crlf_ok r \<Longrightarrow> b \<noteq> 13 \<Longrightarrow> b \<noteq> 10 \<Longrightarrow> crlf_ok (b # r)"

declare crlf_ok.intros [intro]

inductive_simps crlf_ok_pair [simp]: "crlf_ok (13 # 10 # r)"
inductive_simps crlf_ok_Cons: "crlf_ok (b # r)"

lemma crlf_ok_single: "crlf_ok (b # r) \<Longrightarrow> b \<noteq> 13 \<Longrightarrow> crlf_ok r"
  by (auto simp: crlf_ok_Cons)

lemma line_endings_crlf_ok: "line_endings_go head i bs = Inr () \<Longrightarrow> crlf_ok bs"
proof (induction head i bs rule: line_endings_go.induct)
  case (2 head i b rest)
  show ?case
  proof (cases "b = 13 \<and> get_at rest 0 = Some 10")
    case True
    then obtain r where "rest = 10 # r"
      by (cases rest) auto
    with 2 True show ?thesis
      by auto
  next
    case False
    then have "b \<noteq> 13" "b \<noteq> 10" "crlf_ok rest"
      using 2 by (simp_all only: line_endings_go.simps if_False split: if_splits) auto
    then show ?thesis
      by blast
  qed
qed blast

lemma crlf_ok_append: "crlf_ok xs \<Longrightarrow> crlf_ok ys \<Longrightarrow> crlf_ok (xs @ ys)"
  by (induction xs rule: crlf_ok.induct) auto

lemma crlf_ok_after: "crlf_ok bs \<Longrightarrow> bs = xs @ b # ys \<Longrightarrow> b \<noteq> 13 \<Longrightarrow> b \<noteq> 10 \<Longrightarrow> crlf_ok ys"
proof (induction bs arbitrary: xs rule: crlf_ok.induct)
  case (pair r)
  then obtain zs where "xs = 13 # 10 # zs"
    by (cases xs; cases "tl xs") auto
  with pair show ?case
    by auto
next
  case (plain r c)
  then show ?case
    by (cases xs) auto
qed simp

lemma crlf_ok_dropWhile: "crlf_ok bs \<Longrightarrow> crlf_ok (dropWhile is_ws bs)"
  by (induction bs rule: crlf_ok.induct) (auto simp: is_ws_def)

lemma crlf_ok_skip_sws: "crlf_ok bs \<Longrightarrow> crlf_ok (drop (skip_sws bs) bs)"
  by (induction bs rule: crlf_ok.induct) (auto simp: is_ws_def)

lemma unfold_value_pair: "unfold_value (13 # 10 # r) = 32 # unfold_value (dropWhile is_ws r)"
  by simp

lemma unfold_value_clean: "crlf_ok bs \<Longrightarrow> x \<in> set (unfold_value bs) \<Longrightarrow> x \<noteq> 13 \<and> x \<noteq> 10"
proof (induction "length bs" arbitrary: bs rule: less_induct)
  case less
  from less.prems(1) show ?case
  proof cases
    case (pair r)
    have "length (dropWhile is_ws r) < length bs"
      using length_dropWhile_lt [of is_ws r] pair by simp
    then show ?thesis
      using less.hyps [OF _ crlf_ok_dropWhile] less.prems(2) pair by auto
  next
    case (plain r b)
    then show ?thesis
      using less.hyps [of r] less.prems(2) by auto
  qed (use less in simp)
qed

lemma parse_header_line_clean:
  assumes "parse_header_line line n = Inr h" "crlf_ok line"
  shows "\<forall>x \<in> set (header_value h). x \<noteq> 13 \<and> x \<noteq> 10"
proof -
  obtain colon where c: "position (\<lambda>b. b = ch CHR '':'') line = Some colon"
    and h: "hd_repr h = Wire line (colon + 1 + skip_sws (drop (colon + 1) line))"
    using assms(1) by (auto simp: parse_header_line_def Let_def header_from_wire_def
        split: option.splits if_splits)
  have "colon < length line" "line ! colon = ch CHR '':''"
    using c by (auto simp: position_Some_iff)
  then have "line = take colon line @ ch CHR '':'' # drop (colon + 1) line"
    by (metis Suc_eq_plus1 id_take_nth_drop)
  then have "crlf_ok (drop (colon + 1) line)"
    by (rule crlf_ok_after [OF assms(2)]) simp_all
  then have raw: "crlf_ok (raw_value h)"
    using crlf_ok_skip_sws [of "drop (colon + 1) line"]
    by (auto simp: raw_value_def h get_range_def unwrap_or_def add.commute split: option.splits)
  show ?thesis
  proof (cases "list_ex (\<lambda>b. b = 13 \<or> b = 10) (raw_value h)")
    case True
    then show ?thesis
      using unfold_value_clean [OF raw] trim_subset [of "unfold_value (raw_value h)"]
      by (auto simp: header_value_def Let_def)
  next
    case False
    then show ?thesis
      using trim_subset [of "raw_value h"] by (auto simp: header_value_def Let_def list_ex_iff)
  qed
qed

lemma fold_lines_crlf_ok:
  assumes "fold_lines limit start i folds rest = Inr ls" "rest = drop i head" "start \<le> i" "i \<le> length head"
    "crlf_ok rest" "crlf_ok (take (i - start) (drop start head))" "s \<in> set ls"
  shows "crlf_ok (span_of head s)"
  using assms
proof (induction limit start i folds rest arbitrary: ls rule: fold_lines.induct)
  case (1 limit start i folds)
  then show ?case
    by (auto simp: span_of_def split: if_splits)
next
  case (2 limit start i folds b rest)
  have i: "i < length head" "rest = drop (Suc i) head"
    using 2(5,7) by (metis drop_all list.distinct(1) not_le, metis drop_Suc drop_tl list.sel(3))
  have grow: "crlf_ok (take (i + n - start) (drop start head))"
    if "crlf_ok x" "drop i head = x @ y" "n = length x" for n x y
  proof -
    have "drop start head = take (i - start) (drop start head) @ x @ y"
      using that(2) 2(6) by (metis append_take_drop_id drop_drop le_add_diff_inverse2)
    moreover have "length (take (i - start) (drop start head)) = i - start"
      using 2(6) i(1) by simp
    ultimately have "take (i + n - start) (drop start head) = take (i - start) (drop start head) @ x"
      using 2(6) that(3) by (metis Nat.diff_add_assoc2 append.assoc append_eq_conv_conj length_append)
    then show ?thesis
      using crlf_ok_append [OF 2(9) that(1)] by simp
  qed
  show ?case
  proof (cases "b = 13 \<and> get_at rest 0 = Some 10")
    case True
    then obtain r where r1: "rest = 10 # r"
      by (cases rest) auto
    then have "r = drop (i + 2) head"
      using i(2) by (metis add_2_eq_Suc' drop_Suc list.sel(3) tl_drop)
    moreover have d: "drop i head = [13, 10] @ r"
      using r1 2(5) True by simp
    moreover have "crlf_ok r"
      using 2(8) r1 True by simp
    moreover have "i + 2 \<le> length head"
    proof -
      have "length (drop i head) = Suc (Suc (length r))"
        unfolding d by simp
      then show ?thesis
        by simp
    qed
    ultimately have r: "rest = 10 # r" "crlf_ok r" "drop i head = [13, 10] @ r" "r = drop (i + 2) head"
      "i + 2 \<le> length head"
      using r1 by blast+
    have g: "crlf_ok (take (i + 2 - start) (drop start head))"
      using grow [of "[13, 10]" r 2] r(3) by auto
    show ?thesis
    proof (cases "opt_ws (get_at rest 1)")
      case fold: True
      then show ?thesis
        using 2(1) [OF True fold] 2(4,6,10) True r g by (simp split: if_splits)
    next
      case line: False
      obtain ls' where ls': "fold_lines limit (i + 2) (i + 2) 0 (tl rest) = Inr ls'" "ls = (start, i) # ls'"
        using 2(4) True line by (auto simp: bind_res_Inr_iff)
      show ?thesis
      proof (cases "s = (start, i)")
        case here: True
        then show ?thesis
          using 2(9) by (simp add: span_of_def)
      next
        case False
        then show ?thesis
          using 2(2) [OF True line ls'(1)] 2(10) ls'(2) r by (auto intro: crlf_ok.intros)
      qed
    qed
  next
    case False
    have ok: "crlf_ok rest" "b \<noteq> 13" "b \<noteq> 10"
      using 2(8) False by (auto simp: crlf_ok_Cons)
    then have g: "crlf_ok (take (i + 1 - start) (drop start head))"
      using grow [of "[b]" rest 1] 2(5) by (auto intro: crlf_ok.intros)
    have "fold_lines limit start (i + 1) folds rest = Inr ls"
      using 2(4) False by (simp only: fold_lines.simps if_False)
    then show ?thesis
      using 2(3) [OF False _ _ _ _ ok(1) g 2(10)] 2(6) i by simp
  qed
qed

lemma parse_header_lines_sane:
  assumes "parse_header_lines lim head n spans = Inr hs" "\<And>s. s \<in> set spans \<Longrightarrow> crlf_ok (span_of head s)"
  shows "(hs = [] \<or> n + length hs \<le> max_headers lim) \<and>
    (\<forall>h \<in> set hs. length (header_write h) \<le> max_header_bytes lim \<and>
       (\<forall>x \<in> set (header_value h). x \<noteq> 13 \<and> x \<noteq> 10))"
  using assms
proof (induction lim head n spans arbitrary: hs rule: parse_header_lines.induct)
  case (2 lim head n s spans)
  obtain h hs' where h: "parse_header_line (span_of head s) (n + 2) = Inr h"
    and hs': "parse_header_lines lim head (n + 1) spans = Inr hs'" "hs = h # hs'"
    and lim: "n < max_headers lim" "length (span_of head s) \<le> max_header_bytes lim"
    using 2(2) by (auto simp: Let_def bind_res_Inr_iff split: if_splits)
  have "(hs' = [] \<or> n + 1 + length hs' \<le> max_headers lim) \<and>
    (\<forall>h \<in> set hs'. length (header_write h) \<le> max_header_bytes lim \<and>
       (\<forall>x \<in> set (header_value h). x \<noteq> 13 \<and> x \<noteq> 10))"
    by (rule 2(1) [OF refl _ _ hs'(1)]) (use 2(3) lim in auto)
  then show ?case
    using hs'(2) lim parse_header_line_write [OF h] parse_header_line_clean [OF h] 2(3) by auto
qed simp

lemma parse_head_sane:
  assumes "parse_head head lim = Inr (start, hs)"
  shows "length hs \<le> max_headers lim \<and>
    (\<forall>h \<in> set hs. length (header_write h) \<le> max_header_bytes lim \<and>
       (\<forall>x \<in> set (header_value h). x \<noteq> 13 \<and> x \<noteq> 10))"
proof -
  obtain s spans where "validate_line_endings head = Inr ()"
    and lines: "split_folded_lines head lim = Inr (s # spans)"
    and hs: "parse_header_lines lim head 0 spans = Inr hs"
    using parse_headE [OF assms] .
  then have ok: "crlf_ok head"
    using line_endings_crlf_ok by (simp add: validate_line_endings_def)
  have "fold_lines (max_folding_lines lim) 0 0 0 head = Inr (s # spans)"
    using lines by (auto simp: split_folded_lines_def split: if_splits)
  then have "crlf_ok (span_of head r)" if "r \<in> set spans" for r
    using that ok fold_lines_crlf_ok [of "max_folding_lines lim" 0 0 0 head "s # spans" head r]
    by (auto intro: crlf_ok.intros)
  then show ?thesis
    using parse_header_lines_sane [OF hs] by fastforce
qed

text \<open>
  What the parser accepts is within every limit it was given, in total size, body size, number
  of headers and size of a header; and no CR or LF is left in any header value, so a value can be
  copied into another message without opening a new line.
\<close>

theorem datagram_sane:
  assumes "parse_datagram buf lim = Inr m"
  shows "length (message_to_bytes m) \<le> max_message_bytes lim \<and>
    length (message_body m) \<le> max_body_bytes lim \<and>
    length (message_headers m) \<le> max_headers lim \<and>
    (\<forall>h \<in> set (message_headers m). length (header_write h) \<le> max_header_bytes lim \<and>
       (\<forall>x \<in> set (header_value h). x \<noteq> 13 \<and> x \<noteq> 10))"
proof -
  obtain head rest start hs body where len: "length buf \<le> max_message_bytes lim"
    and buf: "buf = head @ TERMINATOR @ rest" and ok: "head_ok head"
    and h: "parse_head head lim = Inr (start, hs)"
    and b: "datagram_body lim hs rest = Inr body" and m: "m = assemble start hs body"
    using assms unfolding parse_datagram_Inr_iff by blast
  have "length (message_to_bytes m) \<le> length buf"
    using assembled_bytes [OF h ok, of body] datagram_body_again(1) [OF b] by (auto simp: m buf)
  then show ?thesis
    using len parse_head_sane [OF h] b by (auto simp: m datagram_body_Inr_iff)
qed

section \<open>Examples\<close>

definition small_limits :: limits where
  "small_limits =
     \<lparr>max_message_bytes = 100, max_body_bytes = 20, max_headers = 2, max_header_bytes = 20,
      max_folding_lines = 1\<rparr>"

definition bye_head :: bytes where
  "bye_head = ascii ''BYE sip:a SIP/2.0'' @ CRLF @ ascii ''l:'' @ CRLF @ ascii '' 2''"

definition bye_headers :: headers where
  "bye_headers =
     [\<lparr>hd_name = H_ContentLength, hd_repr = Wire (ascii ''l:'' @ CRLF @ ascii '' 2'') 5\<rparr>]"

definition bye_start :: start_line where
  "bye_start =
     SL_Request BYE
       \<lparr>uri_scheme = Sip,
        uri_parts = Parts_Sip \<lparr>sp_user = None, sp_raw_user_span = None, sp_password = None,
          sp_host = Name (ascii ''a''), sp_port = None, sp_params = [], sp_headers = []\<rparr>,
        uri_raw = Some (ascii ''sip:a''), uri_tel_span = None\<rparr>
       (4, 9) Sip20 (ascii ''BYE sip:a SIP/2.0'')"

definition bye_message :: sip_message where
  "bye_message = assemble bye_start bye_headers (ascii ''ok'')"

lemma bye_head_ok: "head_ok bye_head"
  by code_simp

lemma bye_head_parses: "parse_head bye_head small_limits = Inr (bye_start, bye_headers)"
  by code_simp

lemma bye_length: "content_length bye_headers = Inr (Some 2)"
proof -
  have "headers_get_all bye_headers H_ContentLength = bye_headers"
    by code_simp
  moreover have "header_value \<lparr>hd_name = H_ContentLength, hd_repr = Wire (ascii ''l:'' @ CRLF @ ascii '' 2'') 5\<rparr> = [50]"
    by code_simp
  ultimately show ?thesis
    by (simp add: content_length_def) (simp add: bye_headers_def is_ascii_digit_def)
qed

lemma bye_message_parses: "parse_datagram (message_to_bytes bye_message) small_limits = Inr bye_message"
proof -
  have "message_to_bytes bye_message = bye_head @ TERMINATOR @ ascii ''ok''"
    unfolding bye_message_def by (rule assembled_bytes [OF bye_head_parses bye_head_ok])
  moreover have "length (bye_head @ TERMINATOR @ ascii ''ok'') \<le> max_message_bytes small_limits"
    by (simp add: bye_head_def small_limits_def ascii_def CRLF_def)
  moreover have "datagram_body small_limits bye_headers (ascii ''ok'') = Inr (ascii ''ok'')"
    by (simp add: datagram_body_Inr_iff bye_length) (simp add: small_limits_def ascii_def)
  ultimately show ?thesis
    unfolding parse_datagram_Inr_iff using bye_head_parses bye_head_ok bye_message_def by metis
qed

lemma bye_message_length: "content_length (message_headers bye_message) = Inr (Some 2)"
  by (simp add: bye_message_def bye_length)

lemma bye_push: "read_stream (stream_new small_limits) [message_to_bytes bye_message] = (stream_new small_limits, [bye_message], None)"
  using push_messages [of "[bye_message]" small_limits] by (simp add: bye_message_parses bye_message_length)

theorem datagram_lossless_witness:
  "\<exists>noise. message_to_bytes bye_message = message_to_bytes bye_message @ noise \<and>
      (content_length (message_headers bye_message) = Inr None \<longrightarrow> noise = []) \<and>
      parse_datagram (message_to_bytes bye_message) small_limits = Inr bye_message"
  by (rule datagram_lossless [OF bye_message_parses])

theorem datagram_sane_witness:
  "length (message_to_bytes bye_message) \<le> 100 \<and>
   list_all (\<lambda>h. 10 \<notin> set (header_value h)) (message_headers bye_message)"
  using datagram_sane [OF bye_message_parses] by (auto simp: small_limits_def list_all_iff)

theorem stream_lossless_witness:
  "\<exists>ks k. length ks = length [bye_message] \<and>
      concat [message_to_bytes bye_message]
        = concat (map2 (\<lambda>k m. crlfs k @ message_to_bytes m) ks [bye_message]) @ crlfs k @
          held (stream_new small_limits) \<and>
      (\<forall>m \<in> set [bye_message]. length (message_to_bytes m) \<le> max_message_bytes small_limits \<longrightarrow>
         parse_datagram (message_to_bytes m) small_limits = Inr m)"
  by (rule stream_lossless [OF bye_push])

theorem frame_message_witness:
  "parse_frame (message_to_bytes bye_message) small_limits = Inr bye_message"
  using frame_message [of "[]" small_limits bye_message] bye_message_parses by blast

theorem frame_drops_second_witness:
  "parse_frame (message_to_bytes bye_message @ bye_head @ TERMINATOR) small_limits = Inr bye_message"
proof (rule frame_drops_second [OF bye_message_parses _ bye_head_ok bye_head_parses])
  show "content_length bye_headers = Inr None \<and>
      length (message_to_bytes bye_message @ bye_head @ TERMINATOR) \<le> max_message_bytes small_limits \<or>
      content_length bye_headers = Inr (Some 2) \<and> 0 < (2 :: nat) \<and> 2 \<le> max_body_bytes small_limits"
    by (simp add: bye_length small_limits_def)
qed (simp add: bye_message_length)

theorem stream_complete_witness:
  "push (stream_new small_limits) (concat (map message_to_bytes [bye_message, bye_message]))
     = (stream_new small_limits, Inr [bye_message, bye_message])"
  by (rule stream_complete) (auto simp: bye_message_parses bye_message_length)

end
