(* ===== verification/Sip_Building.thy ===== *)
theory Sip_Building
  imports Sip_Framing Rust_Text
begin

text \<open>
  The builders of \<open>sipx-sip/src/build.rs\<close> against the parser: a request made by any sequence of
  builder operations is read back by the parser with the same method, URI, headers and body, so no
  value a caller supplies can open a new line; and the one field this does not hold of, the method.
\<close>

section \<open>Plain lines\<close>

text \<open>A line that needs no care: not empty, no line break in it, and no white space in front.\<close>

definition unbroken :: "bytes \<Rightarrow> bool" where
  "unbroken l \<longleftrightarrow> 13 \<notin> set l \<and> 10 \<notin> set l"

definition plain_line :: "bytes \<Rightarrow> bool" where
  "plain_line l \<longleftrightarrow> unbroken l \<and> l \<noteq> [] \<and> \<not> is_ws (hd l)"

lemma unbroken_simps [simp]:
  "unbroken []" "unbroken (b # l) \<longleftrightarrow> b \<noteq> 13 \<and> b \<noteq> 10 \<and> unbroken l"
  "unbroken (l @ k) \<longleftrightarrow> unbroken l \<and> unbroken k"
  by (auto simp: unbroken_def)

fun join_lines :: "bytes list \<Rightarrow> bytes" where
  "join_lines [] = []"
| "join_lines [l] = l"
| "join_lines (l # ls) = l @ CRLF @ join_lines ls"

fun spans_from :: "nat \<Rightarrow> bytes list \<Rightarrow> (nat \<times> nat) list" where
  "spans_from s [] = []"
| "spans_from s (l # ls) = (s, s + length l) # spans_from (s + length l + 2) ls"

lemma join_lines_Cons: "ls \<noteq> [] \<Longrightarrow> join_lines (l # ls) = l @ CRLF @ join_lines ls"
  by (cases ls) simp_all

lemma join_lines_write: "join_lines (l # ls) @ CRLF = l @ CRLF @ concat (map (\<lambda>k. k @ CRLF) ls)"
  by (induction ls arbitrary: l) (simp_all add: join_lines_Cons)

lemma join_lines_first:
  assumes "\<And>l. l \<in> set ls \<Longrightarrow> plain_line l" "ls \<noteq> []"
  shows "\<exists>b r. join_lines ls = b # r \<and> b \<noteq> 13 \<and> b \<noteq> 10 \<and> \<not> is_ws b"
proof -
  obtain l ks where ls: "ls = l # ks"
    using assms(2) by (cases ls) auto
  then obtain b r where "l = b # r"
    using assms(1) [of l] by (cases l) (auto simp: plain_line_def)
  then show ?thesis
    using assms(1) [of l] ls by (cases ks) (auto simp: plain_line_def)
qed

lemma terminator_at_skip: "13 \<notin> set l \<Longrightarrow> terminator_at (l @ rest) = map_option ((+) (length l)) (terminator_at rest)"
proof (induction l)
  case (Cons b l)
  then have "\<not> starts_with (b # l @ rest) TERMINATOR"
    by (auto simp: starts_with_def TERMINATOR_def)
  then show ?case
    using Cons by (cases "terminator_at rest") auto
qed (cases "terminator_at rest"; simp)

lemma terminator_at_break: "b \<noteq> 13 \<Longrightarrow> terminator_at (CRLF @ b # rest) = map_option ((+) 2) (terminator_at (b # rest))"
  by (cases "terminator_at (b # rest)") (auto simp: CRLF_def starts_with_def TERMINATOR_def)

lemma head_ok_join:
  assumes "\<And>l. l \<in> set ls \<Longrightarrow> plain_line l"
  shows "head_ok (join_lines ls)"
proof -
  have "terminator_at (join_lines ls @ TERMINATOR) = Some (length (join_lines ls))"
    using assms
  proof (induction ls rule: join_lines.induct)
    case 1
    then show ?case
      by (simp add: TERMINATOR_def starts_with_def)
  next
    case (2 l)
    then show ?case
      by (simp add: terminator_at_skip plain_line_def unbroken_def)
        (simp add: TERMINATOR_def starts_with_def)
  next
    case (3 l k ks)
    obtain b r where r: "join_lines (k # ks) = b # r" "b \<noteq> 13"
      using join_lines_first [of "k # ks"] 3(2) by auto
    have "terminator_at (l @ CRLF @ join_lines (k # ks) @ TERMINATOR)
        = map_option ((+) (length l)) (map_option ((+) 2) (terminator_at (join_lines (k # ks) @ TERMINATOR)))"
      using 3(2) [of l] r by (simp add: terminator_at_skip plain_line_def unbroken_def terminator_at_break)
    then show ?case
      using 3(1) 3(2) by (simp add: CRLF_def)
  qed
  then show ?thesis
    by (simp add: head_ok_def)
qed

lemma line_endings_skip:
  "unbroken l \<Longrightarrow> line_endings_go head i (l @ rest) = line_endings_go head (i + length l) rest"
  by (induction l arbitrary: i) simp_all

lemma validate_join:
  assumes "\<And>l. l \<in> set ls \<Longrightarrow> plain_line l"
  shows "line_endings_go head i (join_lines ls) = Inr ()"
  using assms
proof (induction ls arbitrary: i rule: join_lines.induct)
  case (2 l)
  then show ?case
    using line_endings_skip [of l head i "[]"] by (simp add: plain_line_def)
next
  case (3 l k ks)
  then show ?case
    using line_endings_skip [of l head i "CRLF @ join_lines (k # ks)"]
    by (simp add: plain_line_def CRLF_def)
qed simp

lemma fold_lines_skip:
  "unbroken l \<Longrightarrow> fold_lines limit start i folds (l @ rest) = fold_lines limit start (i + length l) folds rest"
  by (induction l arbitrary: i) simp_all

lemma fold_lines_join_lines:
  assumes "\<And>l. l \<in> set ls \<Longrightarrow> plain_line l" "ls \<noteq> []"
  shows "fold_lines limit s s 0 (join_lines ls) = Inr (spans_from s ls)"
  using assms
proof (induction ls arbitrary: s rule: join_lines.induct)
  case (2 l)
  then show ?case
    using fold_lines_skip [of l limit s s 0 "[]"] by (simp add: plain_line_def)
next
  case (3 l k ks)
  obtain b r where r: "join_lines (k # ks) = b # r" "\<not> is_ws b"
    using join_lines_first [of "k # ks"] 3(2) by auto
  have "fold_lines limit s s 0 (l @ CRLF @ join_lines (k # ks))
      = bind_res (fold_lines limit (s + length l + 2) (s + length l + 2) 0 (join_lines (k # ks)))
          (\<lambda>ls. Inr ((s, s + length l) # ls))"
    using 3(2) [of l] r by (simp add: fold_lines_skip plain_line_def CRLF_def opt_ws_def get_at_def)
  then show ?case
    using 3(1) [of "s + length l + 2"] 3(2) by simp
qed simp

lemma spans_of_join: "map (span_of (pre @ join_lines ls)) (spans_from (length pre) ls) = ls"
proof (induction ls arbitrary: pre rule: join_lines.induct)
  case (3 l k ks)
  show ?case
    using 3 [of "pre @ l @ CRLF"] by (simp add: span_of_def CRLF_def add.commute)
qed (simp_all add: span_of_def)

section \<open>Reading back a header\<close>

definition header_view :: "header \<Rightarrow> header_name \<times> bytes" where
  "header_view h = (hd_name h, header_value h)"

text \<open>A header name that the parser reads as itself.\<close>

definition proper_name :: "header_name \<Rightarrow> bool" where
  "proper_name n \<longleftrightarrow>
     header_name_parse (canonical n) = n \<and> canonical n \<noteq> [] \<and> list_all is_token_char (canonical n)"

definition clean_header :: "header \<Rightarrow> bool" where
  "clean_header h \<longleftrightarrow> proper_name (hd_name h) \<and> (\<exists>v. hd_repr h = Built v \<and> unbroken v)"

lemma token_char_simps [simp]:
  "\<not> is_token_char 13" "\<not> is_token_char 10" "\<not> is_token_char 32" "\<not> is_token_char 9" "\<not> is_token_char 58"
  "\<not> is_token_char 47"
  by code_simp+

lemma token_not_ws: "is_token_char b \<Longrightarrow> \<not> is_ws b"
  by (auto simp: is_ws_def)

lemma token_unbroken: "list_all is_token_char l \<Longrightarrow> unbroken l"
  by (induction l) auto

lemma clean_header_plain: "clean_header h \<Longrightarrow> plain_line (header_write h)"
  by (auto simp: clean_header_def proper_name_def header_write_def plain_line_def token_unbroken
      ascii_def neq_Nil_conv dest: token_not_ws)

lemma skip_sws_plain: "13 \<notin> set l \<Longrightarrow> skip_sws l = length (takeWhile is_ws l)"
  by (induction l) auto

lemma trim_dropWhile: "trim (dropWhile is_ws v) = trim v"
  by (simp add: trim_def)

lemma rev_dropWhile_token:
  "list_all is_token_char l \<Longrightarrow> rev (dropWhile is_ws (rev l)) = l"
proof (cases l rule: rev_cases)
  case (snoc k b)
  then show "list_all is_token_char l \<Longrightarrow> ?thesis"
    by (auto dest: token_not_ws)
qed simp

lemma parse_header_line_clean_header:
  assumes "clean_header h"
  shows "\<exists>g. parse_header_line (header_write h) n = Inr g \<and> header_view g = header_view h"
proof -
  obtain v where v: "hd_repr h = Built v" "unbroken v"
    using assms by (auto simp: clean_header_def)
  define c where "c = canonical (hd_name h)"
  have c: "header_name_parse c = hd_name h" "c \<noteq> []" "list_all is_token_char c"
    using assms by (auto simp: clean_header_def proper_name_def c_def)
  define line where "line = header_write h"
  have line: "line = c @ 58 # 32 # v"
    by (simp add: line_def header_write_def v c_def ascii_def)
  have parts: "take (length c) line = c" "drop (length c + 1) line = 32 # v"
    by (simp_all add: line)
  have colon: "position (\<lambda>b. b = 58) line = Some (length c)"
    unfolding line using c(3) by (subst position_skip) (auto simp: list_all_iff)
  have skip: "skip_sws v = length (takeWhile is_ws v)"
    using v(2) by (intro skip_sws_plain) (auto simp: unbroken_def)
  define g where "g = header_from_wire (hd_name h) line (length c + 1 + skip_sws (32 # v))"
  have "parse_header_line line n = Inr g"
    using c parts colon by (simp add: parse_header_line_def g_def rev_dropWhile_token del: skip_sws.simps)
  moreover have raw: "raw_value g = dropWhile is_ws v"
    using length_takeWhile_le [of is_ws v]
    by (simp add: g_def raw_value_def header_from_wire_def get_range_def line skip dropWhile_eq_drop
        is_ws_def [of 32])
  moreover have "\<not> list_ex (\<lambda>b. b = 13 \<or> b = 10) (dropWhile is_ws v)"
    using v(2) by (auto simp: list_ex_iff unbroken_def dest: set_dropWhileD)
  moreover have "\<not> list_ex (\<lambda>b. b = 13 \<or> b = 10) v"
    using v(2) by (auto simp: list_ex_iff unbroken_def)
  ultimately have "header_value g = header_value h"
    by (simp add: header_value_def Let_def trim_dropWhile) (simp add: raw_value_def v)
  with \<open>parse_header_line line n = Inr g\<close> show ?thesis
    by (auto simp: line_def header_view_def g_def header_from_wire_def)
qed

lemma parse_header_lines_clean:
  assumes "\<And>h. h \<in> set hs \<Longrightarrow> clean_header h \<and> length (header_write h) \<le> max_header_bytes lim"
    "n + length hs \<le> max_headers lim" "map (span_of head) spans = map header_write hs"
  shows "\<exists>gs. parse_header_lines lim head n spans = Inr gs \<and> map header_view gs = map header_view hs"
  using assms
proof (induction hs arbitrary: n spans)
  case (Cons h hs)
  obtain s rest where spans: "spans = s # rest" "span_of head s = header_write h"
    "map (span_of head) rest = map header_write hs"
    using Cons.prems(3) by (cases spans) auto
  obtain g where g: "parse_header_line (header_write h) (n + 2) = Inr g" "header_view g = header_view h"
    using parse_header_line_clean_header Cons.prems(1) by (meson list.set_intros(1))
  obtain gs where gs: "parse_header_lines lim head (n + 1) rest = Inr gs" "map header_view gs = map header_view hs"
    using Cons.IH [of "n + 1" rest] Cons.prems spans(3) by auto
  have "n < max_headers lim" "length (header_write h) \<le> max_header_bytes lim"
    using Cons.prems by auto
  then show ?case
    using g gs spans by (simp add: Let_def)
qed simp

lemma content_length_view:
  assumes "map header_view gs = map header_view hs"
  shows "content_length gs = content_length hs"
proof -
  have go: "content_length_go found as = content_length_go found bs"
    if "map header_view as = map header_view bs" for found as bs
    using that
  proof (induction as arbitrary: found bs)
    case (Cons a as)
    then show ?case
      by (cases bs) (auto simp: header_view_def Let_def split: option.split)
  qed simp
  have "map header_view (headers_get_all gs H_ContentLength) = map header_view (headers_get_all hs H_ContentLength)"
    using assms
  proof (induction gs arbitrary: hs)
    case (Cons g gs)
    then show ?case
      by (cases hs) (auto simp: headers_get_all_def header_view_def)
  qed (simp add: headers_get_all_def)
  then show ?thesis
    unfolding content_length_def by (rule go)
qed

section \<open>Reading back a request\<close>

lemma space_bounds_skip:
  "32 \<notin> set l \<Longrightarrow> space_bounds s i (l @ rest) = space_bounds s (i + length l) rest"
  by (induction l arbitrary: i) auto

lemma space_bounds_three:
  assumes "32 \<notin> set a" "32 \<notin> set b" "32 \<notin> set c"
  shows "space_bounds 0 0 (a @ 32 # b @ 32 # c) =
     [(0, length a), (length a + 1, length a + 1 + length b),
      (length a + length b + 2, length a + length b + 2 + length c)]"
  using assms space_bounds_skip [of c _ _ "[]"] by (simp add: space_bounds_skip)

definition proper_token :: "sip_method \<Rightarrow> bool" where
  "proper_token m \<longleftrightarrow>
     method_parse (method_bytes m) = m \<and> method_bytes m \<noteq> [] \<and> list_all is_token_char (method_bytes m)"

lemma uri_parse_chars: "uri_parse raw = Inr u \<Longrightarrow> list_all is_uri_char raw"
  by (auto simp: uri_parse_def split: if_splits)

lemma uri_char_simps [simp]: "\<not> is_uri_char 13" "\<not> is_uri_char 10" "\<not> is_uri_char 32"
  by code_simp+

lemma uri_chars_plain: "list_all is_uri_char l \<Longrightarrow> unbroken l \<and> 32 \<notin> set l"
  by (induction l) auto

lemma token_no_space: "list_all is_token_char l \<Longrightarrow> 32 \<notin> set l"
  by (induction l) auto

lemma lower_byte_slash: "lower_byte b = 47 \<longleftrightarrow> b = 47"
proof -
  have "b + 32 = 47 \<longleftrightarrow> b = 15"
    using eq_diff_eq [of b 47 32] by simp
  then show ?thesis
    by (auto simp: lower_byte_def is_ascii_uppercase_def)
qed

lemma not_status_line:
  assumes "list_all is_token_char m"
  shows "\<not> eq_ignore_ascii_case (take 4 (m @ 32 # rest)) (ascii ''SIP/'')"
proof -
  have lower: "lower_byte 32 = 32" "lower_byte 83 = 115" "lower_byte 73 = 105" "lower_byte 80 = 112"
    "lower_byte 47 = 47"
    by (simp_all add: lower_byte_def is_ascii_uppercase_def)
  consider "m = []" | a where "m = [a]" | a b where "m = [a, b]" | a b c where "m = [a, b, c]"
    | a b c d k where "m = a # b # c # d # k"
    by (metis list.exhaust)
  then show ?thesis
    using assms by cases (auto simp: eq_ignore_ascii_case_def ascii_def lower lower_byte_slash)
qed

lemma parse_start_line_request:
  assumes "proper_token m" "uri_parse ub = Inr u"
  shows "parse_start_line (method_bytes m @ 32 # ub @ 32 # version_bytes Sip20) =
     Inr (SL_Request m u (length (method_bytes m) + 1, length (method_bytes m) + 1 + length ub) Sip20
            (method_bytes m @ 32 # ub @ 32 # version_bytes Sip20))"
proof -
  define a c where "a = method_bytes m" and "c = version_bytes Sip20"
  have a: "method_parse a = m" "a \<noteq> []" "list_all is_token_char a"
    using assms(1) by (auto simp: proper_token_def a_def)
  have c: "32 \<notin> set c" "c \<noteq> []" "version_parse c = Sip20"
    by (simp_all add: c_def version_bytes_def ascii_def version_parse_def eq_ignore_ascii_case_def)
  have ub: "ub \<noteq> []" "32 \<notin> set ub"
    using assms(2) uri_chars_plain [OF uri_parse_chars [OF assms(2)]] by (auto simp: uri_parse_def)
  have "parse_start_line (a @ 32 # ub @ 32 # c) = parse_request_line (a @ 32 # ub @ 32 # c)"
    using a(2) not_status_line [OF a(3)] by (simp add: parse_start_line_def)
  also have "\<dots> = Inr (SL_Request m u (length a + 1, length a + 1 + length ub) Sip20 (a @ 32 # ub @ 32 # c))"
    using a c ub assms(2) token_no_space [OF a(3)]
    by (simp add: parse_request_line_def space_bounds_three span_of_def)
  finally show ?thesis
    unfolding a_def c_def .
qed

lemma request_reads_back:
  assumes m: "proper_token m" and u: "uri_parse (uri_to_bytes u) = Inr u"
    and hs: "\<And>h. h \<in> set hs \<Longrightarrow> clean_header h \<and> length (header_write h) \<le> max_header_bytes lim"
    and len: "content_length hs = Inr (Some (length body))"
    and r: "r = (request_new m u)\<lparr>rq_headers := hs, rq_body := body\<rparr>"
    and lim: "length hs \<le> max_headers lim" "length body \<le> max_body_bytes lim"
      "length (request_write r) \<le> max_message_bytes lim"
  shows "\<exists>g. parse_datagram (request_write r) lim = Inr (Request g) \<and> rq_method g = m \<and> rq_uri g = u \<and>
      rq_version g = Sip20 \<and> rq_body g = body \<and> map header_view (rq_headers g) = map header_view hs"
proof -
  define line where "line = method_bytes m @ 32 # uri_to_bytes u @ 32 # version_bytes Sip20"
  define lines where "lines = line # map header_write hs"
  define start where "start = SL_Request m u
      (length (method_bytes m) + 1, length (method_bytes m) + 1 + length (uri_to_bytes u)) Sip20 line"
  have mb: "unbroken (method_bytes m)" "method_bytes m \<noteq> []" "\<not> is_ws (hd (method_bytes m))"
    using m token_unbroken by (auto simp: proper_token_def neq_Nil_conv dest: token_not_ws)
  have "plain_line line"
    using mb uri_chars_plain [OF uri_parse_chars [OF u]]
    by (simp add: plain_line_def line_def version_bytes_def ascii_def)
  then have plain: "plain_line l" if "l \<in> set lines" for l
    using that hs clean_header_plain by (auto simp: lines_def)
  have bytes: "request_write r = join_lines lines @ TERMINATOR @ body"
    using join_lines_write [of line "map header_write hs"]
    by (simp add: r request_write_def request_new_def lines_def line_def headers_write_def comp_def
        TERMINATOR_def CRLF_def)
  have "split_folded_lines (join_lines lines) lim = Inr (spans_from 0 lines)"
    using join_lines_first [of lines] fold_lines_join_lines [of lines _ 0] plain
    by (auto simp: split_folded_lines_def lines_def opt_ws_def get_at_def)
  moreover have "map (span_of (join_lines lines)) (spans_from 0 lines) = lines"
    using spans_of_join [of "[]" lines] by simp
  then obtain s spans where spans: "spans_from 0 lines = s # spans" "span_of (join_lines lines) s = line"
    "map (span_of (join_lines lines)) spans = map header_write hs"
    by (auto simp: lines_def)
  obtain gs where gs: "parse_header_lines lim (join_lines lines) 0 spans = Inr gs"
    "map header_view gs = map header_view hs"
    using parse_header_lines_clean [OF hs _ spans(3), of 0] lim by auto
  moreover have "parse_start_line line = Inr start"
    unfolding line_def start_def by (rule parse_start_line_request [OF m u])
  moreover have "validate_line_endings (join_lines lines) = Inr ()"
    unfolding validate_line_endings_def by (rule validate_join [OF plain])
  ultimately have head: "parse_head (join_lines lines) lim = Inr (start, gs)"
    using spans by (simp add: parse_head_def)
  have "datagram_body lim gs body = Inr body"
    using content_length_view [OF gs(2)] len lim(2) by (simp add: datagram_body_Inr_iff)
  then have "parse_datagram (request_write r) lim = Inr (assemble start gs body)"
    unfolding parse_datagram_Inr_iff using bytes head lim(3) head_ok_join [of lines] plain by blast
  then show ?thesis
    using gs(2) by (simp add: start_def request_from_wire_def)
qed

section \<open>Builder operations\<close>

text \<open>
  The requests a caller can have in hand: a builder started with a method token and a parsed URI,
  and the operations that succeeded on it. The length of the body is the builder's own business,
  so the caller does not set \<open>Content-Length\<close>.
\<close>

inductive building :: "request_builder \<Rightarrow> bool" where
  new: "proper_token m \<Longrightarrow> uri_parse (uri_to_bytes u) = Inr u \<Longrightarrow> building (qb_new m u)"
| header: "building b \<Longrightarrow> proper_name n \<Longrightarrow> n \<noteq> H_ContentLength \<Longrightarrow> qb_header n v b = Inr b' \<Longrightarrow> building b'"
| set_header: "building b \<Longrightarrow> proper_name n \<Longrightarrow> n \<noteq> H_ContentLength \<Longrightarrow> qb_set_header n v b = Inr b' \<Longrightarrow> building b'"
| max_forwards: "building b \<Longrightarrow> building (qb_max_forwards hops b)"
| cseq: "building b \<Longrightarrow> qb_cseq sequence m b = Inr b' \<Longrightarrow> building b'"
| body: "building b \<Longrightarrow> length x < 2 ^ 64 \<Longrightarrow> building (qb_set_body x b)"

lemma check_value_unbroken: "check_value v f = Inr () \<Longrightarrow> unbroken v"
proof (induction v)
  case (Cons b v)
  then have "position is_line_break (b # v) = None"
    by (auto simp: check_value_def split: option.splits)
  then have "\<not> is_line_break b" "position is_line_break v = None"
    by (auto split: if_splits)
  then show ?case
    using Cons.IH by (auto simp: is_line_break_def check_value_def)
qed simp

lemma decimal_unbroken: "unbroken (decimal n)"
  using decimal_digits(1) [of n] by (auto simp: unbroken_def list_all_iff is_ascii_digit_def)

lemma proper_names:
  "proper_name H_MaxForwards" "proper_name H_CSeq" "proper_name H_ContentLength"
  by code_simp+

definition lengths :: "headers \<Rightarrow> headers" where
  "lengths hs = filter (\<lambda>h. hd_name h = H_ContentLength) hs"

definition builder_ok :: "request_builder \<Rightarrow> bool" where
  "builder_ok b \<longleftrightarrow>
     proper_token (qb_method b) \<and> uri_parse (uri_to_bytes (qb_uri b)) = Inr (qb_uri b) \<and>
     list_all clean_header (qb_headers b) \<and> length (qb_body b) < 2 ^ 64 \<and>
     (lengths (qb_headers b) = [header_new_unchecked H_ContentLength (decimal (length (qb_body b)))] \<or>
      lengths (qb_headers b) = [] \<and> qb_body b = [])"

lemma header_name_eq_length: "header_name_eq n H_ContentLength \<longleftrightarrow> n = H_ContentLength"
  by (simp add: header_name_eq_def other_name_def split: option.split)

lemma header_build_clean:
  "header_build n v = Inr h \<Longrightarrow> proper_name n \<Longrightarrow> clean_header h \<and> hd_name h = n"
  by (auto simp: header_build_def bind_res_Inr_iff header_new_unchecked_def clean_header_def
      check_value_unbroken)

lemma lengths_simps [simp]:
  "lengths [] = []" "lengths (hs @ ks) = lengths hs @ lengths ks"
  "lengths (h # hs) = (if hd_name h = H_ContentLength then h # lengths hs else lengths hs)"
  by (simp_all add: lengths_def)

lemma lengths_remove:
  "n \<noteq> H_ContentLength \<Longrightarrow> lengths (fst (headers_remove_all hs n)) = lengths hs"
  "lengths (fst (headers_remove_all hs H_ContentLength)) = []"
  by (auto simp: headers_remove_all_def Let_def lengths_def header_name_eq_length intro!: filter_cong)
    (auto simp: header_name_eq_def other_name_def split: option.splits)

lemma remove_clean:
  "list_all clean_header hs \<Longrightarrow> list_all clean_header (fst (headers_remove_all hs n))"
  by (auto simp: headers_remove_all_def Let_def list_all_iff)

lemma building_ok: "building b \<Longrightarrow> builder_ok b"
proof (induction rule: building.induct)
  case (header b n v b')
  then show ?case
    by (auto simp: builder_ok_def qb_header_def bind_res_Inr_iff dest!: header_build_clean)
next
  case (set_header b n v b')
  then show ?case
    by (auto simp: builder_ok_def qb_set_header_def bind_res_Inr_iff lengths_remove remove_clean
        dest!: header_build_clean)
next
  case (cseq b sequence m b')
  have "unbroken (method_bytes m)"
    using cseq(2) token_unbroken
    by (auto simp: qb_cseq_def check_token_def bind_res_Inr_iff split: if_splits)
  then show ?case
    using cseq by (auto simp: builder_ok_def qb_cseq_def bind_res_Inr_iff header_new_unchecked_def
        clean_header_def proper_names decimal_unbroken)
next
  case (body b x)
  then show ?case
    by (auto simp: builder_ok_def qb_set_body_def header_new_unchecked_def clean_header_def
        proper_names decimal_unbroken lengths_remove remove_clean)
qed (auto simp: builder_ok_def qb_new_def qb_max_forwards_def header_new_unchecked_def clean_header_def
    proper_names decimal_unbroken)

lemma content_length_built:
  assumes "builder_ok b"
  shows "content_length (rq_headers (qb_build b)) = Inr (Some (length (qb_body b)))"
proof -
  have get: "headers_get_all hs H_ContentLength = lengths hs" for hs
    by (simp add: headers_get_all_def lengths_def header_name_eq_length)
  have none: "headers_get hs H_ContentLength = None \<longleftrightarrow> lengths hs = []" for hs
    by (auto simp: headers_get_def find_None_iff lengths_def filter_empty_conv header_name_eq_length)
  have one: "content_length_go None [header_new_unchecked H_ContentLength (decimal n)] = Inr (Some n)"
    if "n < 2 ^ 64" for n
  proof -
    have d: "b \<in> set (decimal n) \<Longrightarrow> \<not> is_ws b \<and> b \<noteq> 13 \<and> b \<noteq> 10" for b
      using decimal_digits(1) [of n] by (auto simp: list_all_iff is_ascii_digit_def is_ws_def)
    then have "trim (decimal n) = decimal n"
      by (simp add: trim_def dropWhile_eq_self_iff) (metis d hd_in_set rev_is_Nil_conv set_rev dropWhile_eq_self_iff rev_rev_ident)
    then have "header_value (header_new_unchecked H_ContentLength (decimal n)) = decimal n"
      using d by (auto simp: header_value_def header_new_unchecked_def raw_value_def Let_def list_ex_iff)
    then show ?thesis
      using decimal_digits [of n] u64_digits_decimal [OF that] by simp
  qed
  have zero: "ascii ''0'' = decimal 0"
    by (simp add: ascii_def decimal.simps)
  have name: "hd_name (header_new_unchecked n v) = n" for n v
    by (simp add: header_new_unchecked_def)
  show ?thesis
    using assms one [of "length (qb_body b)"]
    by (auto simp: builder_ok_def qb_build_def with_content_length_def none content_length_def get zero name)
qed

lemma built_clean:
  assumes "builder_ok b"
  shows "list_all clean_header (rq_headers (qb_build b))"
  using assms decimal_unbroken [of 0]
  by (auto simp: builder_ok_def qb_build_def with_content_length_def header_new_unchecked_def
      clean_header_def proper_names ascii_def)

text \<open>
  C34: What was built is what is read. Take a request made by any sequence of successful builder
  operations that leaves \<open>Content-Length\<close> to the builder, which is to say that neither \<open>header\<close> nor
  \<open>set_header\<close> is given that name, from a method whose token reads back as the method, a URI that was
  parsed, and header names that read back as themselves. The parser accepts it when it is within its
  limits, with the method, the URI, the version and the body it was built with and exactly its
  headers, in order, with their values. No value a caller supplied opens a new line or a new
  message, and the declared length is that of the body. A caller who sets \<open>Content-Length\<close> after the
  body is not stopped, and loses the body (\<open>overwritten_length_loses_body\<close> below).
\<close>

theorem built_request_reads_back:
  assumes "building b" "length (request_write (qb_build b)) \<le> max_message_bytes lim"
    "length (qb_body b) \<le> max_body_bytes lim" "length (rq_headers (qb_build b)) \<le> max_headers lim"
    "\<And>h. h \<in> set (rq_headers (qb_build b)) \<Longrightarrow> length (header_write h) \<le> max_header_bytes lim"
  shows "\<exists>g. parse_datagram (request_write (qb_build b)) lim = Inr (Request g) \<and>
      rq_method g = qb_method b \<and> rq_uri g = qb_uri b \<and> rq_version g = Sip20 \<and> rq_body g = qb_body b \<and>
      map (\<lambda>h. (hd_name h, header_value h)) (rq_headers g)
        = map (\<lambda>h. (hd_name h, header_value h)) (rq_headers (qb_build b))"
proof -
  note ok = building_ok [OF assms(1)]
  have "clean_header h \<and> length (header_write h) \<le> max_header_bytes lim"
    if "h \<in> set (rq_headers (qb_build b))" for h
    using built_clean [OF ok] assms(5) that by (simp add: list_all_iff)
  moreover have "qb_build b = (request_new (qb_method b) (qb_uri b))
      \<lparr>rq_headers := rq_headers (qb_build b), rq_body := qb_body b\<rparr>"
    by (simp add: qb_build_def)
  ultimately show ?thesis
    using request_reads_back [of "qb_method b" "qb_uri b" "rq_headers (qb_build b)" lim "qb_body b" "qb_build b"]
      ok content_length_built [OF ok] assms(2-4)
    by (auto simp: builder_ok_def header_view_def [abs_def])
qed

section \<open>Examples\<close>

definition options_builder :: request_builder where
  "options_builder = qb_set_body (ascii ''hi'') (qb_max_forwards 70 (qb_new OPTIONS
     \<lparr>uri_scheme = Sip,
      uri_parts = Parts_Sip \<lparr>sp_user = None, sp_raw_user_span = None, sp_password = None,
        sp_host = Name (ascii ''a''), sp_port = None, sp_params = [], sp_headers = []\<rparr>,
      uri_raw = Some (ascii ''sip:a''), uri_tel_span = None\<rparr>))"

lemma options_building: "building options_builder"
  unfolding options_builder_def
proof (intro building.body building.max_forwards building.new)
  show "proper_token OPTIONS"
    by code_simp
qed (code_simp, simp add: ascii_def)

definition roomy_limits :: limits where
  "roomy_limits =
     \<lparr>max_message_bytes = 100, max_body_bytes = 20, max_headers = 3, max_header_bytes = 40,
      max_folding_lines = 1\<rparr>"

theorem built_request_reads_back_witness:
  "\<exists>g. parse_datagram (request_write (qb_build options_builder)) roomy_limits = Inr (Request g) \<and>
      rq_method g = OPTIONS \<and> rq_uri g = qb_uri options_builder \<and> rq_version g = Sip20 \<and>
      rq_body g = ascii ''hi'' \<and>
      map (\<lambda>h. (hd_name h, header_value h)) (rq_headers g)
        = [(H_MaxForwards, ascii ''70''), (H_ContentLength, ascii ''2'')]"
proof -
  have "length (request_write (qb_build options_builder)) \<le> max_message_bytes roomy_limits"
    "length (qb_body options_builder) \<le> max_body_bytes roomy_limits"
    "length (rq_headers (qb_build options_builder)) \<le> max_headers roomy_limits"
    "list_all (\<lambda>h. length (header_write h) \<le> max_header_bytes roomy_limits) (rq_headers (qb_build options_builder))"
    "map (\<lambda>h. (hd_name h, header_value h)) (rq_headers (qb_build options_builder))
        = [(H_MaxForwards, ascii ''70''), (H_ContentLength, ascii ''2'')]"
    "qb_method options_builder = OPTIONS" "qb_body options_builder = ascii ''hi''"
    by code_simp+
  then show ?thesis
    using built_request_reads_back [OF options_building, of roomy_limits] by (simp add: list_all_iff)
qed

definition forged_method :: bytes where
  "forged_method = ascii ''BYE sip:b SIP/2.0'' @ CRLF @ ascii ''Route: sip:evil'' @ CRLF @ ascii ''Zz:''"

definition forged_request :: request where
  "forged_request = qb_build (qb_new (Method_Other forged_method) (qb_uri options_builder))"

definition forged_head :: bytes where
  "forged_head = forged_method @ ascii '' sip:a SIP/2.0'' @ CRLF @ ascii ''Content-Length: 0''"

definition forged_headers :: headers where
  "forged_headers =
     [\<lparr>hd_name = H_Route, hd_repr = Wire (ascii ''Route: sip:evil'') 7\<rparr>,
      \<lparr>hd_name = H_Other (ascii ''Zz''), hd_repr = Wire (ascii ''Zz: sip:a SIP/2.0'') 4\<rparr>,
      \<lparr>hd_name = H_ContentLength, hd_repr = Wire (ascii ''Content-Length: 0'') 16\<rparr>]"

definition forged_start :: start_line where
  "forged_start =
     SL_Request BYE
       \<lparr>uri_scheme = Sip,
        uri_parts = Parts_Sip \<lparr>sp_user = None, sp_raw_user_span = None, sp_password = None,
          sp_host = Name (ascii ''b''), sp_port = None, sp_params = [], sp_headers = []\<rparr>,
        uri_raw = Some (ascii ''sip:b''), uri_tel_span = None\<rparr>
       (4, 9) Sip20 (ascii ''BYE sip:b SIP/2.0'')"

lemma forged_head_parses:
  "head_ok forged_head" "parse_head forged_head roomy_limits = Inr (forged_start, forged_headers)"
  "request_write forged_request = forged_head @ TERMINATOR @ []"
  by code_simp+

lemma forged_length: "content_length forged_headers = Inr (Some 0)"
proof -
  have "headers_get_all forged_headers H_ContentLength
      = [\<lparr>hd_name = H_ContentLength, hd_repr = Wire (ascii ''Content-Length: 0'') 16\<rparr>]"
    by code_simp
  moreover have "header_value \<lparr>hd_name = H_ContentLength, hd_repr = Wire (ascii ''Content-Length: 0'') 16\<rparr> = [48]"
    by code_simp
  ultimately show ?thesis
    by (simp add: content_length_def is_ascii_digit_def)
qed

text \<open>
  The method is not checked. The module promises that no message can be built from unvalidated
  octets, but a request builder accepts any octets as an extension method and writes them on the
  request line: the request that is read back can have another method, another URI and headers
  that were never added.
\<close>

theorem forged_method_accepted:
  "qb_method (qb_new (Method_Other forged_method) (qb_uri options_builder)) = Method_Other forged_method \<and>
   parse_datagram (request_write (qb_build (qb_new (Method_Other forged_method) (qb_uri options_builder))))
     roomy_limits = Inr (assemble forged_start forged_headers []) \<and>
   start_raw forged_start = ascii ''BYE sip:b SIP/2.0'' \<and>
   map (\<lambda>h. (hd_name h, header_value h)) (take 1 forged_headers) = [(H_Route, ascii ''sip:evil'')]"
proof -
  have "length (forged_head @ TERMINATOR @ []) \<le> max_message_bytes roomy_limits"
    "max_body_bytes roomy_limits = 20"
    by code_simp+
  then have "parse_datagram (request_write forged_request) roomy_limits
      = Inr (assemble forged_start forged_headers [])"
    unfolding parse_datagram_Inr_iff forged_head_parses(3)
    using forged_head_parses(1,2) forged_length by (fastforce simp: datagram_body_Inr_iff)
  moreover have "map (\<lambda>h. (hd_name h, header_value h)) (take 1 forged_headers) = [(H_Route, ascii ''sip:evil'')]"
    by code_simp
  ultimately show ?thesis
    by (simp add: forged_request_def qb_new_def forged_start_def)
qed

text \<open>
  Nor is \<open>Content-Length\<close> kept for the body's: after the body, \<open>set_header\<close> overwrites the length the
  builder declared, and what the parser then reads has no body.
\<close>

definition emptied :: "(build_error, request_builder) result" where
  "emptied = qb_set_header H_ContentLength (ascii ''0'') (qb_set_body (ascii ''hi'') (qb_new OPTIONS (qb_uri options_builder)))"

definition emptied_head :: bytes where
  "emptied_head = ascii ''OPTIONS sip:a SIP/2.0'' @ CRLF @ ascii ''Content-Length: 0''"

definition emptied_headers :: headers where
  "emptied_headers = [\<lparr>hd_name = H_ContentLength, hd_repr = Wire (ascii ''Content-Length: 0'') 16\<rparr>]"

definition emptied_start :: start_line where
  "emptied_start =
     SL_Request OPTIONS (qb_uri options_builder) (8, 13) Sip20 (ascii ''OPTIONS sip:a SIP/2.0'')"

lemma emptied_head_parses:
  "head_ok emptied_head" "parse_head emptied_head roomy_limits = Inr (emptied_start, emptied_headers)"
  "case emptied of
     Inr b \<Rightarrow> request_write (qb_build b) = emptied_head @ TERMINATOR @ ascii ''hi'' \<and> rq_body (qb_build b) = ascii ''hi''
   | Inl _ \<Rightarrow> False"
  by code_simp+

lemma emptied_length: "content_length emptied_headers = Inr (Some 0)"
proof -
  have "headers_get_all emptied_headers H_ContentLength = emptied_headers"
    by code_simp
  moreover have "header_value \<lparr>hd_name = H_ContentLength, hd_repr = Wire (ascii ''Content-Length: 0'') 16\<rparr> = [48]"
    by code_simp
  ultimately show ?thesis
    by (simp add: content_length_def emptied_headers_def is_ascii_digit_def)
qed

lemma overwritten_length_loses_body:
  "\<exists>b. emptied = Inr b \<and> rq_body (qb_build b) = ascii ''hi'' \<and>
     parse_datagram (request_write (qb_build b)) roomy_limits = Inr (assemble emptied_start emptied_headers [])"
proof -
  obtain b where b: "emptied = Inr b" "request_write (qb_build b) = emptied_head @ TERMINATOR @ ascii ''hi''"
    "rq_body (qb_build b) = ascii ''hi''"
    using emptied_head_parses(3) by (auto split: sum.splits)
  have "length (emptied_head @ TERMINATOR @ ascii ''hi'') \<le> max_message_bytes roomy_limits"
    by code_simp
  then have "parse_datagram (request_write (qb_build b)) roomy_limits
      = Inr (assemble emptied_start emptied_headers [])"
    unfolding parse_datagram_Inr_iff b(2)
    using emptied_head_parses(1,2) emptied_length by (fastforce simp: datagram_body_Inr_iff)
  with b show ?thesis
    by blast
qed

end
