(* ===== verification/Sip_Dialog.thy ===== *)
theory Sip_Dialog
  imports Sip_Key Sip_Building
begin

text \<open>
  Dialogs (\<open>sipx-call/src/dialog.rs\<close>): the shared state of a call between INVITE and BYE, built by
  either side from the exchange that creates it, and the in-dialog requests made from it
  (\<open>application_request\<close>, \<open>bye_request\<close> and \<open>add_routes\<close> of \<open>sipx-call/src/call/mod.rs\<close>). Strings
  are their UTF-8 octets; \<open>String::from_utf8_lossy\<close> and \<open>str::trim\<close> are those of the Rust standard
  library.
\<close>

section \<open>The dialog\<close>

datatype role = Caller | Callee

record dialog_id =
  di_call_id :: bytes
  di_local_tag :: bytes
  di_remote_tag :: bytes

record dialog =
  dg_role :: role
  dg_id :: dialog_id
  dg_local_uri :: bytes
  dg_remote_uri :: bytes
  dg_remote_target :: uri
  dg_local_cseq :: u32
  dg_remote_cseq :: "u32 option"
  dg_route_set :: "bytes list"

definition strip_header_params :: "bytes \<Rightarrow> bytes" where
  "strip_header_params v =
     (case rfind (ch CHR ''>'') v of
        Some end' \<Rightarrow> str_trim (take (end' + 1) v)
      | None \<Rightarrow> str_trim (takeWhile (\<lambda>b. b \<noteq> ch CHR '';'') v))"

definition header_string :: "headers \<Rightarrow> header_name \<Rightarrow> bytes" where
  "header_string hs n = unwrap_or (map_option utf8_lossy (headers_value hs n)) []"

definition dialog_from_tag :: "headers \<Rightarrow> bytes option" where
  "dialog_from_tag hs = Option.bind (typed_ok H_From from_decode hs) address_tag"

definition dialog_to_tag :: "headers \<Rightarrow> bytes option" where
  "dialog_to_tag hs = Option.bind (typed_ok H_To to_decode hs) address_tag"

definition uri_in :: "bytes \<Rightarrow> uri option" where
  "uri_in text =
     (let inner =
            (case Option.bind (split_once (ch CHR ''<'') text)
                    (\<lambda>(_, rest). split_once (ch CHR ''>'') rest) of
               Some (u, _) \<Rightarrow> u
             | None \<Rightarrow> str_trim (takeWhile (\<lambda>b. b \<noteq> ch CHR '';'') text)) in
        (case uri_parse inner of Inr u \<Rightarrow> Some u | Inl _ \<Rightarrow> None))"

definition contact_uri :: "headers \<Rightarrow> uri option" where
  "contact_uri hs = Option.bind (headers_value hs H_Contact) (\<lambda>v. uri_in (utf8_lossy v))"

definition as_request_uri :: "uri \<Rightarrow> uri" where
  "as_request_uri u =
     (let without_headers = takeWhile (\<lambda>b. b \<noteq> ch CHR ''?'') (utf8_lossy (uri_to_bytes u)) in
        (case split_on (ch CHR '';'') without_headers of
           [] \<Rightarrow> u
         | head # ps \<Rightarrow>
             (let kept = filter (\<lambda>p. \<not> eq_ignore_ascii_case (takeWhile (\<lambda>b. b \<noteq> ch CHR ''='') p)
                                        (ascii ''method'')) ps in
                (case uri_parse (head @ concat (map (\<lambda>p. ch CHR '';'' # p) kept)) of
                   Inr v \<Rightarrow> v
                 | Inl _ \<Rightarrow> u))))"

text \<open>
  The loop of \<open>split_routes\<close>: angle-bracket depth, whether inside a quoted string, and the octets
  of the current route.
\<close>

fun split_routes_go :: "nat \<Rightarrow> bool \<Rightarrow> bytes \<Rightarrow> bytes \<Rightarrow> bytes list" where
  "split_routes_go depth quoted seg [] = [seg]"
| "split_routes_go depth quoted seg (b # rest) =
     (if b = 34 then split_routes_go depth (\<not> quoted) (seg @ [b]) rest
      else if b = ch CHR ''<'' \<and> \<not> quoted then split_routes_go (depth + 1) quoted (seg @ [b]) rest
      else if b = ch CHR ''>'' \<and> \<not> quoted then split_routes_go (depth - 1) quoted (seg @ [b]) rest
      else if b = ch CHR '','' \<and> \<not> quoted \<and> depth = 0 then seg # split_routes_go depth quoted [] rest
      else split_routes_go depth quoted (seg @ [b]) rest)"

definition push_route :: "bytes \<Rightarrow> bytes list" where
  "push_route seg = (let text = str_trim (utf8_lossy seg) in if text = [] then [] else [text])"

definition split_routes :: "bytes \<Rightarrow> bytes list" where
  "split_routes v = concat (map push_route (split_routes_go 0 False [] v))"

definition record_routes :: "headers \<Rightarrow> bytes list" where
  "record_routes hs = concat (map (\<lambda>h. split_routes (header_value h)) (headers_get_all hs H_RecordRoute))"

definition cseq_number :: "headers \<Rightarrow> u32 option" where
  "cseq_number hs = map_option cs_sequence (typed_ok H_CSeq cseq_decode hs)"

definition dialog_from_response :: "request \<Rightarrow> response \<Rightarrow> dialog option" where
  "dialog_from_response r rsp =
     Option.bind (headers_value (rs_headers rsp) H_CallId) (\<lambda>call_id.
     Option.bind (dialog_from_tag (rs_headers rsp)) (\<lambda>local_tag.
     Option.bind (dialog_to_tag (rs_headers rsp)) (\<lambda>remote_tag.
     Option.bind (contact_uri (rs_headers rsp)) (\<lambda>remote_target.
       Some \<lparr>dg_role = Caller,
             dg_id = \<lparr>di_call_id = call_id, di_local_tag = local_tag, di_remote_tag = remote_tag\<rparr>,
             dg_local_uri = header_string (rq_headers r) H_From,
             dg_remote_uri = header_string (rq_headers r) H_To,
             dg_remote_target = remote_target,
             dg_local_cseq = unwrap_or (cseq_number (rq_headers r)) 1,
             dg_remote_cseq = None,
             dg_route_set = rev (record_routes (rs_headers rsp))\<rparr>))))"

definition dialog_from_request :: "request \<Rightarrow> bytes \<Rightarrow> dialog option" where
  "dialog_from_request r local_tag =
     Option.bind (headers_value (rq_headers r) H_CallId) (\<lambda>call_id.
     Option.bind (dialog_from_tag (rq_headers r)) (\<lambda>remote_tag.
     Option.bind (contact_uri (rq_headers r)) (\<lambda>remote_target.
       Some \<lparr>dg_role = Callee,
             dg_id = \<lparr>di_call_id = call_id, di_local_tag = local_tag, di_remote_tag = remote_tag\<rparr>,
             dg_local_uri = header_string (rq_headers r) H_To,
             dg_remote_uri = header_string (rq_headers r) H_From,
             dg_remote_target = remote_target,
             dg_local_cseq = 0,
             dg_remote_cseq = cseq_number (rq_headers r),
             dg_route_set = record_routes (rq_headers r)\<rparr>)))"

definition tagged :: "bytes \<Rightarrow> bytes \<Rightarrow> bytes" where
  "tagged u tag = strip_header_params u @ ascii '';tag='' @ utf8_lossy tag"

definition local_and_remote :: "dialog \<Rightarrow> bytes \<times> bytes" where
  "local_and_remote d =
     (tagged (dg_local_uri d) (di_local_tag (dg_id d)), tagged (dg_remote_uri d) (di_remote_tag (dg_id d)))"

definition next_cseq :: "dialog \<Rightarrow> dialog \<times> u32" where
  "next_cseq d =
     (let n = saturating_add_word (dg_local_cseq d) 1 in (d\<lparr>dg_local_cseq := n\<rparr>, n))"

definition first_route :: "dialog \<Rightarrow> uri option" where
  "first_route d = (case dg_route_set d of [] \<Rightarrow> None | route # _ \<Rightarrow> uri_in route)"

definition hop :: "dialog \<Rightarrow> uri" where
  "hop d = unwrap_or (first_route d) (dg_remote_target d)"

definition request_target :: "dialog \<Rightarrow> uri \<times> bytes list" where
  "request_target d =
     (case first_route d of
        None \<Rightarrow> (dg_remote_target d, [])
      | Some first \<Rightarrow>
          (case uri_sip_parts first of
             Some ps \<Rightarrow>
               (if params_contains (sp_params ps) (ascii ''lr'') then (dg_remote_target d, dg_route_set d)
                else (as_request_uri first,
                      drop 1 (dg_route_set d) @
                      [ch CHR ''<'' # utf8_lossy (uri_to_bytes (dg_remote_target d)) @ [ch CHR ''>'']]))
           | None \<Rightarrow>
               (as_request_uri first,
                drop 1 (dg_route_set d) @
                [ch CHR ''<'' # utf8_lossy (uri_to_bytes (dg_remote_target d)) @ [ch CHR ''>'']])))"

definition refresh_target :: "dialog \<Rightarrow> headers \<Rightarrow> dialog" where
  "refresh_target d hs =
     (case contact_uri hs of None \<Rightarrow> d | Some contact \<Rightarrow> d\<lparr>dg_remote_target := contact\<rparr>)"

definition is_out_of_order :: "dialog \<Rightarrow> request \<Rightarrow> bool" where
  "is_out_of_order d r =
     (case cseq_number (rq_headers r) of
        None \<Rightarrow> False
      | Some sequence \<Rightarrow> (case dg_remote_cseq d of None \<Rightarrow> False | Some seen \<Rightarrow> sequence \<le> seen))"

definition record_remote_cseq :: "dialog \<Rightarrow> request \<Rightarrow> dialog" where
  "record_remote_cseq d r =
     (case cseq_number (rq_headers r) of
        None \<Rightarrow> d
      | Some sequence \<Rightarrow>
          d\<lparr>dg_remote_cseq :=
              Some (case dg_remote_cseq d of None \<Rightarrow> sequence | Some seen \<Rightarrow> max seen sequence)\<rparr>)"

definition dialog_matches :: "dialog \<Rightarrow> request \<Rightarrow> bool" where
  "dialog_matches d r =
     (case headers_value (rq_headers r) H_CallId of
        None \<Rightarrow> False
      | Some cid \<Rightarrow>
          (if cid \<noteq> di_call_id (dg_id d) then False
           else dialog_from_tag (rq_headers r) = Some (di_remote_tag (dg_id d)) \<and>
                dialog_to_tag (rq_headers r) = Some (di_local_tag (dg_id d))))"

section \<open>Requests inside a dialog\<close>

fun add_routes :: "request_builder \<Rightarrow> bytes list \<Rightarrow> (build_error, request_builder) result" where
  "add_routes b [] = Inr b"
| "add_routes b (route # routes) = bind_res (qb_header H_Route route b) (\<lambda>b'. add_routes b' routes)"

text \<open>The headers every in-dialog request starts with.\<close>

definition dialog_request :: "dialog \<Rightarrow> sip_method \<Rightarrow> (build_error, request_builder) result" where
  "dialog_request d m =
     (case local_and_remote d of
        (local, remote) \<Rightarrow>
          bind_res (qb_header H_To remote (qb_new m (fst (request_target d)))) (\<lambda>b.
          bind_res (qb_header H_From local b) (\<lambda>b.
            qb_header H_CallId (di_call_id (dg_id d)) b)))"

fun add_headers :: "request_builder \<Rightarrow> headers \<Rightarrow> (build_error, request_builder) result" where
  "add_headers b [] = Inr b"
| "add_headers b (h # hs) = bind_res (qb_header (hd_name h) (raw_value h) b) (\<lambda>b'. add_headers b' hs)"

definition application_request ::
  "dialog \<Rightarrow> sip_method \<Rightarrow> u32 \<Rightarrow> headers \<Rightarrow> bytes \<Rightarrow> (build_error, request) result" where
  "application_request d m cseq hs body =
     bind_res (dialog_request d m) (\<lambda>b.
     bind_res (qb_cseq cseq m b) (\<lambda>b.
     bind_res (add_headers (qb_max_forwards 70 b) hs) (\<lambda>b.
     bind_res (add_routes b (snd (request_target d))) (\<lambda>b. Inr (qb_build (qb_set_body body b))))))"

text \<open>The \<open>Reason\<close> value of a BYE is an argument, in its encoded form.\<close>

definition bye_request :: "dialog \<Rightarrow> u32 \<Rightarrow> bytes \<Rightarrow> (build_error, request) result" where
  "bye_request d cseq reason =
     bind_res (dialog_request d BYE) (\<lambda>b.
     bind_res (qb_header H_Reason reason b) (\<lambda>b.
     bind_res (qb_cseq cseq BYE b) (\<lambda>b.
     bind_res (add_routes (qb_max_forwards 70 b) (snd (request_target d))) (\<lambda>b. Inr (qb_build b)))))"

text \<open>
  The other requests made inside a dialog. What comes from outside the dialog, a \<open>Contact\<close> or \<open>Via\<close>
  value, a session description, a subscription's state, is an argument in its encoded form; the body
  of a request that can go without one is an option.
\<close>

definition described :: "bytes option \<Rightarrow> request_builder \<Rightarrow> (build_error, request_builder) result" where
  "described body b =
     (case body of
        None \<Rightarrow> Inr b
      | Some sdp \<Rightarrow>
          bind_res (qb_header H_ContentType (ascii ''application/sdp'') b) (\<lambda>b. Inr (qb_set_body sdp b)))"

definition via_dialog_request :: "bytes \<Rightarrow> dialog \<Rightarrow> sip_method \<Rightarrow> (build_error, request_builder) result" where
  "via_dialog_request via d m =
     (case local_and_remote d of
        (local, remote) \<Rightarrow>
          bind_res (qb_header H_Via via (qb_new m (fst (request_target d)))) (\<lambda>b.
          bind_res (qb_header H_To remote b) (\<lambda>b.
          bind_res (qb_header H_From local b) (\<lambda>b.
            qb_header H_CallId (di_call_id (dg_id d)) b))))"

definition rack_text :: "u32 \<Rightarrow> u32 \<Rightarrow> bytes" where
  "rack_text rseq invite_cseq =
     decimal (unat rseq) @ 32 # decimal (unat invite_cseq) @ 32 # utf8_lossy (method_bytes INVITE)"

definition prack_rest :: "dialog \<Rightarrow> u32 \<Rightarrow> bytes \<Rightarrow> bytes option \<Rightarrow> request_builder \<Rightarrow> (build_error, request) result" where
  "prack_rest d cseq rack answer b =
     bind_res (qb_cseq cseq PRACK b) (\<lambda>b.
     bind_res (qb_header H_RAck rack b) (\<lambda>b.
     bind_res (described answer (qb_max_forwards 70 b)) (\<lambda>b.
     bind_res (add_routes b (snd (request_target d))) (\<lambda>b. Inr (qb_build b)))))"

definition send_prack :: "dialog \<Rightarrow> u32 \<Rightarrow> u32 \<Rightarrow> u32 \<Rightarrow> bytes option \<Rightarrow> (build_error, request) result" where
  "send_prack d cseq rseq invite_cseq answer =
     bind_res (dialog_request d PRACK) (prack_rest d cseq (rack_text rseq invite_cseq) answer)"

definition prack_target ::
  "bytes \<Rightarrow> dialog \<Rightarrow> u32 \<Rightarrow> u32 \<Rightarrow> u32 \<Rightarrow> bytes option \<Rightarrow> (build_error, request) result" where
  "prack_target via d cseq rseq invite_cseq answer =
     bind_res (via_dialog_request via d PRACK) (prack_rest d cseq (rack_text rseq invite_cseq) answer)"

definition UPDATE_ALLOW :: bytes where
  "UPDATE_ALLOW = ascii ''INVITE, ACK, CANCEL, BYE, OPTIONS, UPDATE''"

text \<open>
  The half-built UPDATE, which a renegotiation finishes with \<open>add_routes\<close> alone and a session refresh
  with its own headers first.
\<close>

definition update_request ::
  "dialog \<Rightarrow> u32 \<Rightarrow> bytes \<Rightarrow> bytes option \<Rightarrow> (build_error, request_builder \<times> bytes list) result" where
  "update_request d cseq contact body =
     bind_res (dialog_request d UPDATE) (\<lambda>b.
     bind_res (qb_cseq cseq UPDATE b) (\<lambda>b.
     bind_res (qb_header H_Contact contact b) (\<lambda>b.
     bind_res (qb_header H_Allow UPDATE_ALLOW b) (\<lambda>b.
     bind_res (described body (qb_max_forwards 70 b)) (\<lambda>b. Inr (b, snd (request_target d)))))))"

definition timer_headers :: "bytes option \<Rightarrow> request_builder \<Rightarrow> (build_error, request_builder) result" where
  "timer_headers expires b =
     (case expires of
        None \<Rightarrow> Inr b
      | Some v \<Rightarrow> bind_res (qb_header H_SessionExpires v b) (qb_header H_MinSe (decimal 90)))"

definition reoffer_request :: "dialog \<Rightarrow> u32 \<Rightarrow> bytes \<Rightarrow> bytes \<Rightarrow> bytes option \<Rightarrow> (build_error, request) result" where
  "reoffer_request d cseq contact offer expires =
     bind_res (dialog_request d INVITE) (\<lambda>b.
     bind_res (qb_cseq cseq INVITE b) (\<lambda>b.
     bind_res (qb_header H_Contact contact b) (\<lambda>b.
     bind_res (qb_header H_Allow UPDATE_ALLOW b) (\<lambda>b.
     bind_res (qb_header H_ContentType (ascii ''application/sdp'') b) (\<lambda>b.
     bind_res (qb_header H_Supported (ascii ''timer'') (qb_set_body offer (qb_max_forwards 70 b))) (\<lambda>b.
     bind_res (timer_headers expires b) (\<lambda>b.
     bind_res (add_routes b (snd (request_target d))) (\<lambda>b. Inr (qb_build b)))))))))"

definition refer_to_raw :: "dialog \<Rightarrow> u32 \<Rightarrow> bytes \<Rightarrow> bytes \<Rightarrow> (build_error, request) result" where
  "refer_to_raw d cseq contact refer_to =
     bind_res (dialog_request d REFER) (\<lambda>b.
     bind_res (qb_cseq cseq REFER b) (\<lambda>b.
     bind_res (qb_header H_Contact contact b) (\<lambda>b.
     bind_res (qb_header H_ReferTo (ch CHR ''<'' # refer_to @ [ch CHR ''>'']) b) (\<lambda>b.
     bind_res (qb_header H_ReferredBy (strip_header_params (fst (local_and_remote d))) b) (\<lambda>b.
     bind_res (add_routes (qb_max_forwards 70 b) (snd (request_target d))) (\<lambda>b. Inr (qb_build b)))))))"

text \<open>The NOTIFY of a transfer accepted (\<open>notify_transfer\<close>) and of a subscription (\<open>send_notify\<close>).\<close>

definition notify_request ::
  "dialog \<Rightarrow> u32 \<Rightarrow> bytes \<Rightarrow> bytes \<Rightarrow> bytes \<Rightarrow> bytes \<Rightarrow> bytes \<Rightarrow> (build_error, request) result" where
  "notify_request d cseq contact event state content_type body =
     bind_res (dialog_request d NOTIFY) (\<lambda>b.
     bind_res (qb_cseq cseq NOTIFY b) (\<lambda>b.
     bind_res (qb_header H_Contact contact b) (\<lambda>b.
     bind_res (qb_header H_Event event b) (\<lambda>b.
     bind_res (qb_header H_SubscriptionState state b) (\<lambda>b.
     bind_res (qb_header H_ContentType content_type b) (\<lambda>b.
     bind_res (add_routes (qb_set_body body (qb_max_forwards 70 b)) (snd (request_target d)))
       (\<lambda>b. Inr (qb_build b))))))))"

definition build_ack_with_body :: "bytes \<Rightarrow> dialog \<Rightarrow> bytes option \<Rightarrow> (build_error, request) result" where
  "build_ack_with_body via d body =
     bind_res (via_dialog_request via d ACK) (\<lambda>b.
     bind_res (qb_cseq (dg_local_cseq d) ACK b) (\<lambda>b.
     bind_res (described body (qb_max_forwards 70 b)) (\<lambda>b.
     bind_res (add_routes b (snd (request_target d))) (\<lambda>b. Inr (qb_build b)))))"

definition in_dialog_offer ::
  "bytes \<Rightarrow> dialog \<Rightarrow> sip_method \<Rightarrow> u32 \<Rightarrow> bytes \<Rightarrow> bytes \<Rightarrow> (build_error, request) result" where
  "in_dialog_offer via d m cseq contact offer =
     bind_res (via_dialog_request via d m) (\<lambda>b.
     bind_res (qb_cseq cseq m b) (\<lambda>b.
     bind_res (qb_header H_Contact contact b) (\<lambda>b.
     bind_res (qb_header H_ContentType (ascii ''application/sdp'') b) (\<lambda>b.
     bind_res (add_routes (qb_max_forwards 70 b) (snd (request_target d))) (\<lambda>b.
       Inr (qb_build (qb_set_body offer b)))))))"

text \<open>The BYE of a call without media (\<open>send_bye\<close>) and of a coupled leg (\<open>end_leg_request\<close>).\<close>

definition send_bye :: "dialog \<Rightarrow> u32 \<Rightarrow> (build_error, request) result" where
  "send_bye d cseq =
     bind_res (dialog_request d BYE) (\<lambda>b.
     bind_res (qb_cseq cseq BYE b) (\<lambda>b.
     bind_res (add_routes (qb_max_forwards 70 b) (snd (request_target d))) (\<lambda>b. Inr (qb_build b))))"

definition end_leg_request :: "bytes \<Rightarrow> dialog \<Rightarrow> u32 \<Rightarrow> (build_error, request) result" where
  "end_leg_request via d cseq =
     bind_res (via_dialog_request via d BYE) (\<lambda>b.
     bind_res (qb_cseq cseq BYE b) (\<lambda>b.
     bind_res (add_routes (qb_max_forwards 70 b) (snd (request_target d))) (\<lambda>b. Inr (qb_build b))))"

text \<open>
  Which methods an application owns inside a dialog (\<open>extension::application_owned\<close>), by the tokens it
  has admitted.
\<close>

definition MAX_APPLICATION_BODY :: nat where
  "MAX_APPLICATION_BODY = 64 * 1024"

definition application_owned :: "sip_method \<Rightarrow> bytes list \<Rightarrow> bool" where
  "application_owned m admitted \<longleftrightarrow>
     (case m of
        INFO \<Rightarrow> True
      | MESSAGE \<Rightarrow> True
      | Method_Other token \<Rightarrow> (\<exists>t. method_parse token = Method_Other t) \<and> token \<in> set admitted
      | _ \<Rightarrow> False)"

text \<open>
  What \<open>Call::handle\<close> does with an in-dialog request before its method's own work: it is not this
  call's, it is refused with a status, it is applied with its sequence number compared and recorded,
  or it is handed to its method's handler without either, as the arms of ACK, REFER and NOTIFY do.
  The guard that INVITE, UPDATE, OPTIONS and BYE share is the first thing each of their handlers
  does; a method the application owns has two more refusals between comparing and recording.
\<close>

datatype disposition = NotHere | Refused nat | Applied | Unguarded

definition guarded_request :: "dialog \<Rightarrow> request \<Rightarrow> dialog \<times> disposition" where
  "guarded_request d r =
     (if is_out_of_order d r then (d, Refused 500) else (record_remote_cseq d r, Applied))"

definition application_arm :: "dialog \<Rightarrow> request \<Rightarrow> dialog \<times> disposition" where
  "application_arm d r =
     (if is_out_of_order d r then (d, Refused 500)
      else if MAX_APPLICATION_BODY < length (rq_body r) then (d, Refused 413)
      else if rq_body r \<noteq> [] \<and> headers_get (rq_headers r) H_ContentType = None then (d, Refused 415)
      else (record_remote_cseq d r, Applied))"

definition call_handle :: "bytes list \<Rightarrow> dialog \<Rightarrow> request \<Rightarrow> dialog \<times> disposition" where
  "call_handle admitted d r =
     (if \<not> dialog_matches d r then (d, NotHere)
      else
        (case rq_method r of
           ACK \<Rightarrow> (d, Unguarded)
         | INVITE \<Rightarrow> guarded_request d r
         | UPDATE \<Rightarrow> guarded_request d r
         | REFER \<Rightarrow> (d, Unguarded)
         | NOTIFY \<Rightarrow> (d, Unguarded)
         | OPTIONS \<Rightarrow> guarded_request d r
         | BYE \<Rightarrow> guarded_request d r
         | m \<Rightarrow> if application_owned m admitted then application_arm d r else (d, NotHere)))"

text \<open>\<open>send_application_attempt\<close> up to the network: the next number, and the request.\<close>

definition send_application ::
  "dialog \<Rightarrow> sip_method \<times> headers \<times> bytes \<Rightarrow> dialog \<times> (build_error, request) result" where
  "send_application d =
     (\<lambda>(m, hs, body). case next_cseq d of (d', n) \<Rightarrow> (d', application_request d' m n hs body))"

section \<open>ASCII text\<close>

lemma token_ascii: "is_token_char b \<Longrightarrow> b < 0x80"
  by (auto simp: is_token_char_def is_ascii_alphanumeric_def is_ascii_uppercase_def
      is_ascii_lowercase_def is_ascii_digit_def ascii_def word_le_nat_alt word_less_nat_alt)

lemma token_marks [simp]: "\<not> is_token_char 34" "\<not> is_token_char 60"
  by code_simp+

lemma tokens_ascii: "list_all is_token_char t \<Longrightarrow> ascii_text t"
  by (induction t) (simp_all add: token_ascii)

lemma uri_char_ascii: "is_uri_char b \<Longrightarrow> b < 0x80"
  by (auto simp: is_uri_char_def ascii_def word_le_nat_alt word_less_nat_alt)

lemma uri_chars_ascii: "list_all is_uri_char t \<Longrightarrow> ascii_text t"
  by (induction t) (simp_all add: uri_char_ascii)

lemma str_trim_id:
  assumes "is_token_char b \<or> b = 34 \<or> b = 60"
  shows "str_trim (b # r @ [62]) = b # r @ [62]"
proof -
  have "\<not> is_token_char c \<and> c \<noteq> 34 \<and> c \<noteq> 60" if "c \<in> hd ` set WHITE_SPACE" for c
  proof -
    have "list_all (\<lambda>w. \<not> is_token_char (hd w) \<and> hd w \<noteq> 34 \<and> hd w \<noteq> 60) WHITE_SPACE"
      by code_simp
    then show ?thesis
      using that by (auto simp: list_all_iff)
  qed
  then have "strip_white WHITE_SPACE (b # r @ [62]) = b # r @ [62]"
    using assms by (intro strip_white_first) blast
  moreover have "list_all (\<lambda>w. hd (rev w) \<noteq> 62) WHITE_SPACE"
    by code_simp
  then have "strip_white (map rev WHITE_SPACE) (62 # rev r @ [b]) = 62 # rev r @ [b]"
    by (intro strip_white_first) (auto simp: list_all_iff)
  ultimately show ?thesis
    by (simp add: str_trim_def)
qed

section \<open>Tagged addresses\<close>

text \<open>
  The two forms of an address. A \<open>name-addr\<close> is a display name of tokens or in quotes, or none, and a
  URI in angle brackets; an \<open>addr-spec\<close> is a URI alone, which then holds neither a semicolon nor a
  question mark, since those would be the header's. A header value is an address and what follows
  it: anything without a closing bracket after the one, parameters after the other.
\<close>

definition display_ok :: "bytes \<Rightarrow> bool" where
  "display_ok d \<longleftrightarrow>
     list_all (\<lambda>b. is_token_char b \<or> is_ws b) d \<and> (d = [] \<or> \<not> is_ws (hd d)) \<or>
     (\<exists>q w. d = 34 # q @ w \<and> quoted_end q = Some (length q) \<and> list_all is_ws w \<and> ascii_text q)"

definition name_addr :: "bytes \<Rightarrow> bool" where
  "name_addr p \<longleftrightarrow> (\<exists>d u x. p = d @ 60 # u @ [62] \<and> display_ok d \<and> uri_parse u = Inr x)"

definition bare_addr :: "bytes \<Rightarrow> bool" where
  "bare_addr p \<longleftrightarrow> (\<exists>x. uri_parse p = Inr x) \<and> ch CHR '';'' \<notin> set p \<and> ch CHR ''?'' \<notin> set p"

definition address_spec :: "bytes \<Rightarrow> bool" where
  "address_spec p \<longleftrightarrow> name_addr p \<or> bare_addr p"

definition addressed :: "bytes \<Rightarrow> bool" where
  "addressed v \<longleftrightarrow>
     (\<exists>p tail. v = p @ tail \<and> (name_addr p \<or> bare_addr p \<and> (tail = [] \<or> hd tail = ch CHR '';'')) \<and>
        ascii_text tail \<and> ch CHR ''>'' \<notin> set tail)"

definition tag_token :: "bytes \<Rightarrow> bool" where
  "tag_token t \<longleftrightarrow> t \<noteq> [] \<and> list_all is_token_char t"

lemma quoted_end_append: "quoted_end q = Some n \<Longrightarrow> quoted_end (q @ rest) = Some n"
proof (induction q arbitrary: n rule: quoted_end.induct)
  case (2 b q)
  then show ?case
    by (cases q) (auto split: if_splits)
qed simp

lemma display_first: "display_ok (b # d) \<Longrightarrow> is_token_char b \<or> b = 34"
  by (auto simp: display_ok_def)

lemma ws_ascii: "list_all is_ws w \<Longrightarrow> ascii_text w"
  by (induction w) (auto simp: is_ws_def)

lemma display_ascii: "display_ok d \<Longrightarrow> ascii_text d"
proof -
  have "list_all (\<lambda>b. is_token_char b \<or> is_ws b) d \<Longrightarrow> ascii_text d"
    by (induction d) (auto simp: token_ascii is_ws_def)
  then show "display_ok d \<Longrightarrow> ascii_text d"
    by (auto simp: display_ok_def ws_ascii)
qed

lemma strip_addressed:
  assumes "name_addr p" "62 \<notin> set tail"
  shows "strip_header_params (p @ tail) = p"
proof -
  obtain d u where p: "p = (d @ 60 # u) @ [62]" "display_ok d"
    using assms(1) by (auto simp: name_addr_def)
  have "rfind 62 (p @ tail) = Some (length (d @ 60 # u))"
    unfolding p using position_last [OF assms(2), of "d @ 60 # u"] by simp
  moreover have "str_trim p = p"
  proof (cases d)
    case Nil
    then show ?thesis
      using str_trim_id [of 60 u] p by simp
  next
    case (Cons b d')
    then show ?thesis
      using str_trim_id [of b "d' @ 60 # u"] p display_first [of b d'] by auto
  qed
  ultimately show ?thesis
    by (simp add: strip_header_params_def p)
qed

text \<open>What the parser makes of a bare URI and the parameters after it.\<close>

lemma uri_char_marks:
  "is_uri_char b \<Longrightarrow> 33 \<le> b \<and> b < 0x80 \<and> b \<noteq> 34 \<and> b \<noteq> 60 \<and> b \<noteq> 62 \<and> \<not> is_ws b"
  by (auto simp: is_uri_char_def is_ws_def ascii_def word_le_nat_alt word_less_nat_alt)

lemma bare_chars:
  assumes "bare_addr p"
  shows "list_all is_uri_char p" "p \<noteq> []" "59 \<notin> set p" "63 \<notin> set p" "62 \<notin> set p"
    "list_all (\<lambda>b. \<not> is_ws b) p"
proof -
  show u: "list_all is_uri_char p" and "p \<noteq> []" "59 \<notin> set p" "63 \<notin> set p"
    using assms uri_parse_chars by (auto simp: bare_addr_def) (auto simp: uri_parse_def)
  show "62 \<notin> set p" "list_all (\<lambda>b. \<not> is_ws b) p"
    using u uri_char_marks by (auto simp: list_all_iff)
qed

lemma trim_unspaced: "list_all (\<lambda>b. \<not> is_ws b) l \<Longrightarrow> trim l = l"
  by (simp add: trim_def dropWhile_eq_self_iff list_all_iff hd_rev)
    (metis hd_in_set last_in_set dropWhile_eq_self_iff hd_rev last_rev rev_rev_ident rev_is_Nil_conv)

lemma position_absent: "b \<notin> set l \<Longrightarrow> position (\<lambda>x. x = b) l = None"
  by (induction l) auto

lemma strip_bare:
  assumes "bare_addr p" "tail = [] \<or> hd tail = 59" "62 \<notin> set tail"
  shows "strip_header_params (p @ tail) = p"
proof -
  have "rfind 62 (p @ tail) = None"
    using bare_chars(5) [OF assms(1)] assms(3) by (simp add: rfind_def position_absent)
  moreover have "takeWhile (\<lambda>b. b \<noteq> 59) (p @ tail) = p"
    using bare_chars(3) [OF assms(1)] assms(2)
    by (cases tail) (auto simp: takeWhile_eq_all_conv intro: takeWhile_append2 [THEN trans])
  moreover have "33 \<le> b \<and> b < 0x80" if "b \<in> set p" for b
    using bare_chars(1) [OF assms(1)] uri_char_marks that by (auto simp: list_all_iff)
  then have "str_trim p = p"
    using bare_chars(2) [OF assms(1)] by (intro str_trim_visible) auto
  ultimately show ?thesis
    by (simp add: strip_header_params_def)
qed

lemma find_angle_absent: "34 \<notin> set l \<Longrightarrow> 60 \<notin> set l \<Longrightarrow> find_angle_go i l = None"
  by (induction l arbitrary: i) auto

lemma find_param_go_uri:
  "list_all is_uri_char p \<Longrightarrow> 59 \<notin> set p \<Longrightarrow> find_param_go i 0 (p @ 59 # rest) = Some (i + length p)"
  by (induction p arbitrary: i) (auto dest: uri_char_marks)

lemma addressed_ascii: "name_addr p \<Longrightarrow> ascii_text p"
  by (auto simp: name_addr_def display_ascii uri_chars_ascii dest!: uri_parse_chars)

lemma find_angle_skip:
  "list_all (\<lambda>b. is_token_char b \<or> is_ws b) d \<Longrightarrow> find_angle_go i (d @ 60 # rest) = Some (i + length d)"
proof (induction d arbitrary: i)
  case (Cons b d)
  then have "b \<noteq> 34 \<and> b \<noteq> 60"
    by (auto simp: is_ws_def)
  then show ?case
    using Cons by simp
qed simp

lemma parse_display_name_ok:
  assumes "display_ok d"
  shows "\<exists>name. parse_display_name (d @ 60 # rest) h 0 = Inr (name, length d)"
proof (cases "\<exists>q w. d = 34 # q @ w \<and> quoted_end q = Some (length q) \<and> list_all is_ws w")
  case True
  then obtain q w where d: "d = 34 # q @ w" "quoted_end q = Some (length q)" "list_all is_ws w"
    by blast
  have "quoted_string_end (d @ 60 # rest) 0 = Some (1 + length q)"
    using quoted_end_append [OF d(2)] d(1) by (simp add: quoted_string_end_def get_at_def)
  moreover have "takeWhile is_ws (w @ 60 # rest) = w"
    using d(3) by (simp add: takeWhile_append2 list_all_iff is_ws_def)
  then have "skip_ws (d @ 60 # rest) (1 + length q) = length d"
    by (simp add: skip_ws_def d(1))
  moreover have "get_at (d @ 60 # rest) (length d) = Some 60"
    by (simp add: get_at_def)
  ultimately show ?thesis
    by (simp add: parse_display_name_def Let_def) (simp add: d(1) get_at_def)
next
  case False
  then have d: "list_all (\<lambda>b. is_token_char b \<or> is_ws b) d"
    using assms by (auto simp: display_ok_def)
  then have "get_at (d @ 60 # rest) 0 \<noteq> Some 34"
    by (cases d) (auto simp: get_at_def is_ws_def)
  moreover have "find_angle (d @ 60 # rest) 0 = Some (length d)"
    using find_angle_skip [OF d, of 0 rest] by (simp add: find_angle_def)
  moreover have "list_all (\<lambda>b. is_token_char b \<or> is_ws b) (trim d)"
    using d trim_subset [of d] by (auto simp: list_all_iff)
  ultimately show ?thesis
    by (simp add: parse_display_name_def Let_def get_range_def)
qed

lemma tag_last: "tag_token t \<Longrightarrow> \<exists>k b. t = k @ [b] \<and> \<not> is_ws b"
  by (cases t rule: rev_cases) (auto simp: tag_token_def dest: token_not_ws)

lemma trim_id: "\<not> is_ws b \<Longrightarrow> \<not> is_ws c \<Longrightarrow> trim (b # k @ [c]) = b # k @ [c]"
  by (simp add: trim_def)

declare parse_params.simps [simp del]

lemma tag_params:
  assumes "tag_token t"
  shows "parse_params (ascii '';tag='' @ t) h = Inr [\<lparr>hp_name = ascii ''tag'', hp_value = Some t\<rparr>]"
proof -
  obtain b k where t: "t = b # k" "is_token_char b"
    using assms by (cases t) (auto simp: tag_token_def)
  have v: "list_all is_value_char t"
    using assms by (auto simp: tag_token_def is_value_char_def list_all_iff)
  then have "takeWhile is_value_char t = t" "dropWhile is_value_char t = []"
    by (auto simp: list_all_iff takeWhile_eq_all_conv)
  moreover have "b \<noteq> 34" "is_value_char b" "\<not> is_ws b"
    using t v by (auto dest: token_not_ws)
  ultimately have "parse_param_value h (61 # t) = Inr (Some t, [])"
    by (simp add: parse_param_value_def t(1))
  moreover have "is_token_char 116" "is_token_char 97" "is_token_char 103" "\<not> is_token_char 61"
    "\<not> is_ws 59" "\<not> is_ws 116" "\<not> is_ws 61" "to_ascii_lowercase [116, 97, 103] = [116, 97, 103]"
    by code_simp+
  ultimately have "parse_one_param h (ascii '';tag='' @ t) = Inr (\<lparr>hp_name = ascii ''tag'', hp_value = Some t\<rparr>, [])"
    by (simp add: parse_one_param_def ascii_def)
  then show ?thesis
    by (simp add: parse_params.simps [of "ascii '';tag='' @ t"]) (simp add: parse_params.simps ascii_def)
qed

lemma tagged_shape:
  assumes "address_spec p" "tag_token t"
  obtains b r c where "p @ ascii '';tag='' @ t = b # r @ [c]" "\<not> is_ws b" "\<not> is_ws c"
proof -
  obtain k c where t: "t = k @ [c]" "\<not> is_ws c"
    using tag_last [OF assms(2)] by blast
  show ?thesis
  proof (cases "bare_addr p")
    case True
    then obtain b p' where "p = b # p'" "\<not> is_ws b"
      using bare_chars(2,6) [OF True] by (cases p) auto
    then show ?thesis
      using that [of b "p' @ ascii '';tag='' @ k" c] t by simp
  next
    case False
    then obtain d u where p: "p = d @ 60 # u @ [62]" and d: "display_ok d"
      using assms(1) by (auto simp: address_spec_def name_addr_def)
    show ?thesis
    proof (cases d)
      case Nil
      then show ?thesis
        using that [of 60 "u @ 62 # ascii '';tag='' @ k" c] t by (simp add: p is_ws_def)
    next
      case (Cons b d')
      then have "\<not> is_ws b"
        using display_first [of b d'] d token_not_ws by (auto simp: is_ws_def)
      then show ?thesis
        using that [of b "d' @ 60 # u @ 62 # ascii '';tag='' @ k" c] Cons t by (simp add: p)
    qed
  qed
qed

lemma trim_tagged: "address_spec p \<Longrightarrow> tag_token t \<Longrightarrow> trim (p @ ascii '';tag='' @ t) = p @ ascii '';tag='' @ t"
  by (metis tagged_shape trim_id)

lemma parse_tagged_name:
  assumes "name_addr p" "tag_token t"
  shows "\<exists>a. address_parse (p @ ascii '';tag='' @ t) h = Inr a \<and> address_tag a = Some t"
proof -
  obtain d u x where p: "p = d @ 60 # u @ [62]" and d: "display_ok d" and u: "uri_parse u = Inr x"
    using assms(1) by (auto simp: name_addr_def)
  have spec: "address_spec p"
    using assms(1) by (simp add: address_spec_def)
  define tl where "tl = ascii '';tag='' @ t"
  define W where "W = d @ 60 # u @ 62 # tl"
  obtain k c where t: "t = k @ [c]" "\<not> is_ws c"
    using tag_last [OF assms(2)] by blast
  have W: "W = p @ ascii '';tag='' @ t"
    by (simp add: W_def p tl_def)
  obtain b r where first: "W = b # r" "\<not> is_ws b"
    using tagged_shape [OF spec assms(2)] by (metis W)
  have "trimmed_range W = (0, length W)"
    using first trim_tagged [OF spec assms(2)] by (simp add: trimmed_range_def W)
  moreover have "get_range W 0 (length W) = Some W"
    by (simp add: get_range_def)
  moreover have "skip_ws W 0 = 0"
    using first by (simp add: skip_ws_def)
  moreover obtain name where "parse_display_name W h 0 = Inr (name, length d)"
    using parse_display_name_ok [OF d, of "u @ 62 # tl" h] by (auto simp: W_def)
  moreover have at: "get_at W (length d) = Some 60"
    by (simp add: W_def get_at_def)
  moreover have "position (\<lambda>b. b = 62) (u @ 62 # tl) = Some (length u)"
    using uri_parse_chars [OF u] by (intro position_skip) (auto simp: list_all_iff is_uri_char_def)
  then have "find_closing_angle W (length d) = Some (length d + length u + 1)"
    by (simp add: find_closing_angle_def W_def)
  then have "address_spans W h 0 (length d) =
      Inr ((length d + 1, length d + length u + 1), (0, length d + length u + 2), tl)"
    using at by (simp add: address_spans_def W_def)
  moreover have "get_range W (length d + 1) (length d + length u + 1) = Some u"
    by (simp add: W_def get_range_def)
  moreover have "u \<noteq> []"
    using u by (auto simp: uri_parse_def)
  moreover have "trim tl = tl"
    using trim_id [of 59 c "ascii ''tag='' @ k"] t by (simp add: tl_def ascii_def is_ws_def)
  ultimately have "address_parse W h = Inr \<lparr>ad_display_name = name, ad_uri = x,
      ad_params = [\<lparr>hp_name = ascii ''tag'', hp_value = Some t\<rparr>]\<rparr>"
    using u tag_params [OF assms(2), of h] by (simp add: address_parse_def parse_spanned_def tl_def)
  then show ?thesis
    by (simp add: W_def p tl_def address_tag_def param_value_def param_def header_param_is_def)
qed

lemma parse_tagged_bare:
  assumes "bare_addr p" "tag_token t"
  shows "\<exists>a. address_parse (p @ ascii '';tag='' @ t) h = Inr a \<and> address_tag a = Some t"
proof -
  obtain x where x: "uri_parse p = Inr x"
    using assms(1) by (auto simp: bare_addr_def)
  have spec: "address_spec p"
    using assms(1) by (simp add: address_spec_def)
  note chars = bare_chars [OF assms(1)]
  define tl where "tl = ascii '';tag='' @ t"
  define W where "W = p @ tl"
  have W: "W = p @ ascii '';tag='' @ t"
    by (simp add: W_def tl_def)
  obtain k c where t: "t = k @ [c]" "\<not> is_ws c"
    using tag_last [OF assms(2)] by blast
  obtain b r where first: "W = b # r" "\<not> is_ws b" "b \<noteq> 34" "b \<noteq> 60"
    using chars(1,2) uri_char_marks by (cases p) (auto simp: W_def)
  have tag: "34 \<notin> set t" "60 \<notin> set t"
    using assms(2) by (auto simp: tag_token_def list_all_iff)
  have "34 \<notin> set W" "60 \<notin> set W"
    using chars(1) tag uri_char_marks by (auto simp: W_def tl_def list_all_iff ascii_def)
  then have "parse_display_name W h 0 = Inr (None, 0)"
    using first by (simp add: parse_display_name_def find_angle_def find_angle_absent get_at_def del: find_angle_go.simps)
  moreover have "trimmed_range W = (0, length W)"
    using first trim_tagged [OF spec assms(2)] by (simp add: trimmed_range_def W)
  moreover have "get_range W 0 (length W) = Some W" "get_range W 0 (length p) = Some p"
    by (simp_all add: get_range_def W_def)
  moreover have "skip_ws W 0 = 0" "get_at W 0 \<noteq> Some 60"
    using first by (simp_all add: skip_ws_def get_at_def)
  moreover have "find_param_start W = Some (length p)"
    using find_param_go_uri [OF chars(1,3), of 0] by (simp add: find_param_start_def W ascii_def [of "'';tag=''"])
  moreover have "trimmed_range p = (0, length p)"
    using trim_unspaced [OF chars(6)] chars(2,6) by (cases p) (simp_all add: trimmed_range_def)
  moreover have "drop (length p) W = tl"
    by (simp add: W_def)
  ultimately have "address_spans W h 0 0 = Inr ((0, length p), (0, length p), tl)"
    by (auto simp: address_spans_def Let_def)
  moreover have "trim tl = tl"
    using trim_id [of 59 c "ascii ''tag='' @ k"] t by (simp add: tl_def ascii_def is_ws_def)
  ultimately have "address_parse W h = Inr \<lparr>ad_display_name = None, ad_uri = x,
      ad_params = [\<lparr>hp_name = ascii ''tag'', hp_value = Some t\<rparr>]\<rparr>"
    using x chars(2,4) \<open>parse_display_name W h 0 = Inr (None, 0)\<close> \<open>trimmed_range W = (0, length W)\<close>
      \<open>get_range W 0 (length W) = Some W\<close> \<open>get_range W 0 (length p) = Some p\<close> \<open>skip_ws W 0 = 0\<close>
      tag_params [OF assms(2), of h]
    by (simp add: address_parse_def parse_spanned_def tl_def)
  then show ?thesis
    by (simp add: W address_tag_def param_value_def param_def header_param_is_def)
qed

lemma parse_tagged:
  assumes "address_spec p" "tag_token t"
  shows "\<exists>a. address_parse (p @ ascii '';tag='' @ t) h = Inr a \<and> address_tag a = Some t"
  using assms parse_tagged_name parse_tagged_bare by (auto simp: address_spec_def)

lemma tagged_addressed:
  assumes "addressed v" "tag_token t"
  shows "\<exists>p. tagged v t = p @ ascii '';tag='' @ t \<and> address_spec p"
proof -
  obtain p tail where v: "v = p @ tail" "name_addr p \<or> bare_addr p \<and> (tail = [] \<or> hd tail = 59)" "62 \<notin> set tail"
    using assms(1) by (auto simp: addressed_def)
  then have "strip_header_params v = p" "address_spec p"
    using strip_addressed [of p tail] strip_bare [of p tail] by (auto simp: address_spec_def)
  moreover have "utf8_lossy t = t"
    using utf8_lossy_ascii [of t] tokens_ascii [of t] assms(2) by (simp add: tag_token_def)
  ultimately show ?thesis
    by (simp add: tagged_def)
qed

section \<open>What the peer reads in an in-dialog request\<close>

lemma trim_trim: "trim (trim v) = trim v"
proof -
  define a where "a = rev (dropWhile is_ws v)"
  have last: "last (dropWhile is_ws a) = last a" if "dropWhile is_ws a \<noteq> []"
    using that by (induction a) auto
  have "dropWhile is_ws (rev (dropWhile is_ws a)) = rev (dropWhile is_ws a)"
  proof (cases "dropWhile is_ws a = []")
    case False
    have "hd (rev (dropWhile is_ws a)) = hd (dropWhile is_ws v)"
      using False last by (simp add: hd_rev a_def last_rev)
    moreover have "dropWhile is_ws v \<noteq> []"
      using False by (auto simp: a_def dest: set_dropWhileD)
    ultimately show ?thesis
      using False hd_dropWhile [of is_ws v] by (simp add: dropWhile_eq_self_iff)
  next
    case True
    show ?thesis
      unfolding True by simp
  qed
  then show ?thesis
    by (simp add: trim_def a_def)
qed

lemma header_value_trimmed: "trim (header_value h) = header_value h"
  by (simp add: header_value_def Let_def trim_trim)

lemma header_value_built: "unbroken v \<Longrightarrow> header_value (header_new_unchecked n v) = trim v"
  by (auto simp: header_value_def header_new_unchecked_def raw_value_def Let_def list_ex_iff unbroken_def)

lemma qb_headerD:
  "qb_header n v b = Inr b' \<Longrightarrow> qb_headers b' = qb_headers b @ [header_new_unchecked n v] \<and> unbroken v"
  by (auto simp: qb_header_def header_build_def bind_res_Inr_iff check_value_unbroken)

lemma add_routesD:
  "add_routes b rs = Inr b' \<Longrightarrow> qb_headers b' = qb_headers b @ map (header_new_unchecked H_Route) rs"
  by (induction rs arbitrary: b) (auto simp: bind_res_Inr_iff dest!: qb_headerD)

lemma add_headersD: "add_headers b hs = Inr b' \<Longrightarrow> \<exists>ks. qb_headers b' = qb_headers b @ ks"
  by (induction hs arbitrary: b) (fastforce simp: bind_res_Inr_iff dest!: qb_headerD)+

lemma headers_get_remove:
  "other_name n = None \<Longrightarrow> other_name m = None \<Longrightarrow> n \<noteq> m \<Longrightarrow>
    headers_get (fst (headers_remove_all hs m)) n = headers_get hs n"
  by (induction hs) (auto simp: headers_remove_all_def Let_def)

lemma headers_get_length:
  "n \<in> {H_To, H_From, H_CallId, H_CSeq} \<Longrightarrow>
    headers_get (rq_headers (qb_build (qb_set_body body b))) n = headers_get (qb_headers b) n"
  by (auto simp: qb_build_def with_content_length_def qb_set_body_def headers_get_remove
      header_new_unchecked_def split: option.splits)

lemma application_request_headers:
  assumes "application_request d m n hs body = Inr q"
  shows "headers_get (rq_headers q) H_To = Some (header_new_unchecked H_To (snd (local_and_remote d)))"
    "headers_get (rq_headers q) H_From = Some (header_new_unchecked H_From (fst (local_and_remote d)))"
    "headers_get (rq_headers q) H_CallId = Some (header_new_unchecked H_CallId (di_call_id (dg_id d)))"
    "headers_get (rq_headers q) H_CSeq =
       Some (header_new_unchecked H_CSeq (decimal (unat n) @ 32 # method_bytes m))"
    "unbroken (fst (local_and_remote d))" "unbroken (snd (local_and_remote d))"
    "unbroken (di_call_id (dg_id d))" "method_bytes m \<noteq> []" "list_all is_token_char (method_bytes m)"
proof -
  obtain b1 b2 b3 b4 where b: "dialog_request d m = Inr b1" "qb_cseq n m b1 = Inr b2"
    "add_headers (qb_max_forwards 70 b2) hs = Inr b3"
    "add_routes b3 (snd (request_target d)) = Inr b4" "q = qb_build (qb_set_body body b4)"
    using assms by (auto simp: application_request_def bind_res_Inr_iff)
  have b1: "qb_headers b1 = [header_new_unchecked H_To (snd (local_and_remote d)),
       header_new_unchecked H_From (fst (local_and_remote d)),
       header_new_unchecked H_CallId (di_call_id (dg_id d))] \<and>
     unbroken (fst (local_and_remote d)) \<and> unbroken (snd (local_and_remote d)) \<and>
     unbroken (di_call_id (dg_id d))"
    using b(1) by (auto simp: dialog_request_def bind_res_Inr_iff qb_new_def split: prod.splits dest!: qb_headerD)
  have b2: "qb_headers b2 = qb_headers b1 @ [header_new_unchecked H_CSeq (decimal (unat n) @ 32 # method_bytes m)]"
    and m: "method_bytes m \<noteq> []" "list_all is_token_char (method_bytes m)"
    using b(2) by (auto simp: qb_cseq_def bind_res_Inr_iff check_token_def split: if_splits)
  obtain ks where "qb_headers b4 = qb_headers b2 @ ks"
    using add_headersD [OF b(3)] add_routesD [OF b(4)] by (auto simp: qb_max_forwards_def)
  then have "qb_headers b4 = qb_headers b1 @ header_new_unchecked H_CSeq (decimal (unat n) @ 32 # method_bytes m) # ks"
    by (simp add: b2)
  then show "headers_get (rq_headers q) H_To = Some (header_new_unchecked H_To (snd (local_and_remote d)))"
    "headers_get (rq_headers q) H_From = Some (header_new_unchecked H_From (fst (local_and_remote d)))"
    "headers_get (rq_headers q) H_CallId = Some (header_new_unchecked H_CallId (di_call_id (dg_id d)))"
    "headers_get (rq_headers q) H_CSeq =
       Some (header_new_unchecked H_CSeq (decimal (unat n) @ 32 # method_bytes m))"
    using b1 by (simp_all add: b(5) headers_get_length) (simp_all add: header_new_unchecked_def)
  show "unbroken (fst (local_and_remote d))" "unbroken (snd (local_and_remote d))"
    "unbroken (di_call_id (dg_id d))" "method_bytes m \<noteq> []" "list_all is_token_char (method_bytes m)"
    using b1 m by simp_all
qed

lemma trim_tokens:
  assumes "list_all is_token_char t"
  shows "trim t = t"
  using rev_dropWhile_token [OF assms] assms
  by (cases t) (auto simp: trim_def dest: token_not_ws)

lemma decimal_tokens: "list_all is_token_char (decimal n)"
  using decimal_digits(1) [of n] by (auto simp: list_all_iff is_token_char_def is_ascii_alphanumeric_def)

lemma cseq_decode_built:
  assumes "method_bytes m \<noteq> []" "list_all is_token_char (method_bytes m)" "unat n < 2 ^ 31"
  shows "cseq_decode (decimal (unat n) @ 32 # method_bytes m) =
    Inr \<lparr>cs_sequence = n, cs_method = method_parse (method_bytes m)\<rparr>"
proof -
  obtain b ds where ds: "decimal (unat n) = b # ds" "\<not> is_ws b"
    using decimal_digits [of "unat n"] decimal_tokens [of "unat n"]
    by (cases "decimal (unat n)") (auto dest: token_not_ws)
  obtain k c where mb: "method_bytes m = k @ [c]" "\<not> is_ws c"
    using assms(1,2) by (cases "method_bytes m" rule: rev_cases) (auto dest: token_not_ws)
  define v where "v = decimal (unat n) @ 32 # method_bytes m"
  have "trim v = v"
    using trim_id [OF ds(2) mb(2), of "ds @ 32 # k"] by (simp add: v_def ds(1) mb(1))
  moreover have "position is_ws v = Some (length (decimal (unat n)))"
    unfolding v_def using decimal_tokens [of "unat n"]
    by (intro position_skip) (auto simp: list_all_iff is_ws_def dest: token_not_ws)
  moreover have "takeWhile is_ws (method_bytes m) = []"
    using assms(1,2) by (cases "method_bytes m") (auto dest: token_not_ws)
  then have "drop (skip_ws v (length (decimal (unat n)))) v = method_bytes m"
    by (simp add: skip_ws_def v_def is_ws_def)
  moreover have "parse_u64 (decimal (unat n)) ''CSeq'' = Inr (of_nat (unat n))"
    using decimal_digits [of "unat n"] u64_digits_decimal [of "unat n"] assms(3) by (simp add: parse_u64_def)
  moreover have "\<not> (of_nat (unat n) :: u64) > 0x7FFFFFFF"
    using assms(3) by (simp add: word_less_nat_alt unat_of_nat_small)
  moreover have "(ucast (of_nat (unat n) :: u64) :: u32) = n"
    by simp (rule bit_word_eqI, simp add: bit_simps)
  ultimately show ?thesis
    using assms(1,2) trim_tokens [OF assms(2)] by (simp add: cseq_decode_def v_def)
qed

lemma built_tag:
  assumes "headers_get hs n = Some (header_new_unchecked n (tagged v t))" "unbroken (tagged v t)"
    "addressed v" "tag_token t"
  shows "Option.bind (typed_ok n (\<lambda>x. address_parse x h) hs) address_tag = Some t"
proof -
  obtain p where p: "tagged v t = p @ ascii '';tag='' @ t" "address_spec p"
    using tagged_addressed [OF assms(3,4)] by blast
  have "header_value (header_new_unchecked n (tagged v t)) = tagged v t"
    using header_value_built [OF assms(2)] trim_tagged [OF p(2) assms(4)] by (simp add: p(1))
  then show ?thesis
    using parse_tagged [OF p(2) assms(4), of h] assms(1) by (auto simp: typed_ok_def typed_def p(1))
qed

text \<open>Two halves of one dialog: the same call, with the tags in each other's place.\<close>

definition peers :: "dialog \<Rightarrow> dialog \<Rightarrow> bool" where
  "peers c e \<longleftrightarrow>
     di_call_id (dg_id e) = di_call_id (dg_id c) \<and>
     di_local_tag (dg_id e) = di_remote_tag (dg_id c) \<and> di_remote_tag (dg_id e) = di_local_tag (dg_id c)"

text \<open>A dialog whose identity can be written in a request: ordinary addresses, tokens for tags.\<close>

definition presentable :: "dialog \<Rightarrow> bool" where
  "presentable d \<longleftrightarrow>
     trim (di_call_id (dg_id d)) = di_call_id (dg_id d) \<and>
     addressed (dg_local_uri d) \<and> addressed (dg_remote_uri d) \<and>
     tag_token (di_local_tag (dg_id d)) \<and> tag_token (di_remote_tag (dg_id d))"

text \<open>Every request the stack builds inside a dialog, by the routine that builds it.\<close>

inductive in_dialog_built :: "dialog \<Rightarrow> request \<Rightarrow> bool" for d where
  built_application: "application_request d m n hs body = Inr q \<Longrightarrow> in_dialog_built d q"
| built_bye: "bye_request d n reason = Inr q \<Longrightarrow> in_dialog_built d q"
| built_plain_bye: "send_bye d n = Inr q \<Longrightarrow> in_dialog_built d q"
| built_leg_bye: "end_leg_request via d n = Inr q \<Longrightarrow> in_dialog_built d q"
| built_prack: "send_prack d n rseq cseq answer = Inr q \<Longrightarrow> in_dialog_built d q"
| built_leg_prack: "prack_target via d n rseq cseq answer = Inr q \<Longrightarrow> in_dialog_built d q"
| built_update: "update_request d n contact body = Inr (b, routes) \<Longrightarrow> add_headers b extra = Inr b' \<Longrightarrow>
    add_routes b' routes = Inr b'' \<Longrightarrow> in_dialog_built d (qb_build b'')"
| built_reoffer: "reoffer_request d n contact offer expires = Inr q \<Longrightarrow> in_dialog_built d q"
| built_offer: "in_dialog_offer via d m n contact offer = Inr q \<Longrightarrow> in_dialog_built d q"
| built_refer: "refer_to_raw d n contact refer_to = Inr q \<Longrightarrow> in_dialog_built d q"
| built_notify: "notify_request d n contact event state kind body = Inr q \<Longrightarrow> in_dialog_built d q"
| built_ack: "build_ack_with_body via d answer = Inr q \<Longrightarrow> in_dialog_built d q"

text \<open>The three headers that say which dialog a request is in, and what keeps them.\<close>

definition identified :: "dialog \<Rightarrow> headers \<Rightarrow> bool" where
  "identified d hs \<longleftrightarrow>
     headers_get hs H_To = Some (header_new_unchecked H_To (snd (local_and_remote d))) \<and>
     headers_get hs H_From = Some (header_new_unchecked H_From (fst (local_and_remote d))) \<and>
     headers_get hs H_CallId = Some (header_new_unchecked H_CallId (di_call_id (dg_id d))) \<and>
     unbroken (fst (local_and_remote d)) \<and> unbroken (snd (local_and_remote d)) \<and> unbroken (di_call_id (dg_id d))"

lemma headers_get_more: "headers_get xs n = Some h \<Longrightarrow> headers_get (xs @ ys) n = Some h"
  by (induction xs) auto

lemma identified_more: "identified d xs \<Longrightarrow> identified d (xs @ ys)"
  by (simp add: identified_def headers_get_more)

lemma identified_dialog_request: "dialog_request d m = Inr b \<Longrightarrow> identified d (qb_headers b)"
  by (auto simp: dialog_request_def bind_res_Inr_iff qb_new_def identified_def header_new_unchecked_def
      split: prod.splits dest!: qb_headerD)

lemma identified_via_request: "via_dialog_request via d m = Inr b \<Longrightarrow> identified d (qb_headers b)"
  by (auto simp: via_dialog_request_def bind_res_Inr_iff qb_new_def identified_def header_new_unchecked_def
      split: prod.splits dest!: qb_headerD)

lemma identified_header: "qb_header n v b = Inr b' \<Longrightarrow> identified d (qb_headers b) \<Longrightarrow> identified d (qb_headers b')"
  by (auto simp: identified_more dest!: qb_headerD)

lemma identified_cseq: "qb_cseq n m b = Inr b' \<Longrightarrow> identified d (qb_headers b) \<Longrightarrow> identified d (qb_headers b')"
  by (auto simp: qb_cseq_def bind_res_Inr_iff identified_more)

lemma identified_max_forwards: "identified d (qb_headers b) \<Longrightarrow> identified d (qb_headers (qb_max_forwards n b))"
  by (simp add: qb_max_forwards_def identified_more)

lemma identified_routes: "add_routes b rs = Inr b' \<Longrightarrow> identified d (qb_headers b) \<Longrightarrow> identified d (qb_headers b')"
  by (auto simp: identified_more dest!: add_routesD)

lemma identified_headers: "add_headers b hs = Inr b' \<Longrightarrow> identified d (qb_headers b) \<Longrightarrow> identified d (qb_headers b')"
  by (auto simp: identified_more dest!: add_headersD)

lemma identified_body: "identified d (qb_headers b) \<Longrightarrow> identified d (qb_headers (qb_set_body body b))"
  unfolding qb_set_body_def by (simp, rule identified_more) (simp add: identified_def headers_get_remove)

lemma identified_described: "described body b = Inr b' \<Longrightarrow> identified d (qb_headers b) \<Longrightarrow> identified d (qb_headers b')"
  by (auto simp: described_def bind_res_Inr_iff identified_body dest: identified_header split: option.splits)

lemma identified_timer: "timer_headers v b = Inr b' \<Longrightarrow> identified d (qb_headers b) \<Longrightarrow> identified d (qb_headers b')"
  by (auto simp: timer_headers_def bind_res_Inr_iff split: option.splits dest!: identified_header)

lemma identified_build: "identified d (qb_headers b) \<Longrightarrow> identified d (rq_headers (qb_build b))"
  by (simp add: qb_build_def with_content_length_def identified_more)

lemmas identified_steps =
  identified_dialog_request identified_via_request identified_header identified_cseq identified_max_forwards
  identified_routes identified_headers identified_body identified_described identified_build

lemma identified_matches:
  assumes "peers c e" "presentable c" "identified c (rq_headers q)"
  shows "dialog_matches e q"
proof -
  have "dialog_from_tag (rq_headers q) = Some (di_local_tag (dg_id c))"
    unfolding dialog_from_tag_def from_decode_def [abs_def]
    using assms(2,3) by (intro built_tag) (auto simp: local_and_remote_def presentable_def identified_def)
  moreover have "dialog_to_tag (rq_headers q) = Some (di_remote_tag (dg_id c))"
    unfolding dialog_to_tag_def to_decode_def [abs_def]
    using assms(2,3) by (intro built_tag) (auto simp: local_and_remote_def presentable_def identified_def)
  moreover have "headers_value (rq_headers q) H_CallId = Some (di_call_id (dg_id c))"
    using assms(2,3) by (simp add: headers_value_def header_value_built presentable_def identified_def)
  ultimately show ?thesis
    using assms(1) by (simp add: dialog_matches_def peers_def)
qed

lemma in_dialog_identified: "in_dialog_built d q \<Longrightarrow> identified d (rq_headers q)"
proof (induction rule: in_dialog_built.induct)
  case (built_application m n hs body q)
  then show ?case
    by (auto simp: application_request_def bind_res_Inr_iff intro!: identified_build identified_body
        elim!: identified_routes identified_headers identified_cseq intro: identified_max_forwards identified_dialog_request)
next
  case (built_bye n reason q)
  then show ?case
    unfolding bye_request_def bind_res_Inr_iff by (blast intro: identified_steps)
next
  case (built_plain_bye n q)
  then show ?case
    unfolding send_bye_def bind_res_Inr_iff by (blast intro: identified_steps)
next
  case (built_leg_bye via n q)
  then show ?case
    unfolding end_leg_request_def bind_res_Inr_iff by (blast intro: identified_steps)
next
  case (built_prack n rseq cseq answer q)
  then show ?case
    unfolding send_prack_def prack_rest_def bind_res_Inr_iff by (blast intro: identified_steps)
next
  case (built_leg_prack via n rseq cseq answer q)
  then show ?case
    unfolding prack_target_def prack_rest_def bind_res_Inr_iff by (blast intro: identified_steps)
next
  case (built_update n contact body b routes extra b' b'')
  then show ?case
    unfolding update_request_def bind_res_Inr_iff by (blast intro: identified_steps)
next
  case (built_reoffer n contact offer expires q)
  then show ?case
    unfolding reoffer_request_def bind_res_Inr_iff by (blast intro: identified_timer identified_steps)
next
  case (built_offer via m n contact offer q)
  then show ?case
    unfolding in_dialog_offer_def bind_res_Inr_iff by (blast intro: identified_steps)
next
  case (built_refer n contact refer_to q)
  then show ?case
    unfolding refer_to_raw_def bind_res_Inr_iff by (blast intro: identified_steps)
next
  case (built_notify n contact event state kind body q)
  then show ?case
    unfolding notify_request_def bind_res_Inr_iff by (blast intro: identified_steps)
next
  case (built_ack via answer q)
  then show ?case
    unfolding build_ack_with_body_def bind_res_Inr_iff by (blast intro: identified_steps)
qed

lemma request_matches:
  assumes "peers c e" "presentable c" "in_dialog_built c q"
  shows "dialog_matches e q"
  using identified_matches [OF assms(1,2)] in_dialog_identified [OF assms(3)] by simp

lemma request_cseq:
  assumes "application_request c m n hs body = Inr q" "unat n < 2 ^ 31"
  shows "cseq_number (rq_headers q) = Some n"
proof -
  note hd = application_request_headers [OF assms(1)]
  have "unbroken (decimal (unat n) @ 32 # method_bytes m)"
    using decimal_unbroken token_unbroken [OF hd(9)] by simp
  moreover have "cseq_decode (trim v) = cseq_decode v" for v
    by (simp add: cseq_decode_def trim_trim)
  ultimately show ?thesis
    using cseq_decode_built [OF hd(8,9) assms(2)] hd(4)
    by (simp add: cseq_number_def typed_ok_def typed_def header_value_built)
qed

lemma dialogs_of_exchange:
  assumes "dialog_from_response r rsp = Some c" "dialog_from_request r t = Some e"
    "headers_value (rs_headers rsp) H_CallId = headers_value (rq_headers r) H_CallId"
    "dialog_from_tag (rs_headers rsp) = dialog_from_tag (rq_headers r)" "dialog_to_tag (rs_headers rsp) = Some t"
  shows "peers c e" "peers e c" "dg_local_uri e = dg_remote_uri c" "dg_remote_uri e = dg_local_uri c"
    "trim (di_call_id (dg_id c)) = di_call_id (dg_id c)"
  using assms
  by (auto simp: dialog_from_response_def dialog_from_request_def bind_eq_Some_conv peers_def headers_value_def
      header_value_trimmed)

lemma presentable_peer:
  "peers c e \<Longrightarrow> dg_local_uri e = dg_remote_uri c \<Longrightarrow> dg_remote_uri e = dg_local_uri c \<Longrightarrow>
    presentable e = presentable c"
  by (auto simp: presentable_def peers_def)

text \<open>
  C9: The two halves of a dialog recognise each other's requests. When the caller builds its half
  from the INVITE it sent and the response it got, and the callee builds its half from that INVITE
  and the tag it answered with, the identifiers mirror each other, the route sets are each other's
  reverse when the response copies the \<open>Record-Route\<close> headers, the callee's view of the caller's
  numbering starts where the caller's does, and every request either side builds inside the dialog
  (the application's, BYE, PRACK, UPDATE, re-INVITE, REFER, NOTIFY and ACK) matches the other half.
  The response repeats the INVITE's Call-ID and \<open>From\<close> tag; the tags are tokens; and the INVITE's
  \<open>From\<close> and \<open>To\<close> are each a URI in angle brackets, with or without a display name, and with no
  closing bracket after it, or a bare URI, followed by its parameters.
\<close>

theorem dialog_halves_agree:
  assumes "dialog_from_response r rsp = Some c" "dialog_from_request r t = Some e"
    "headers_value (rs_headers rsp) H_CallId = headers_value (rq_headers r) H_CallId"
    "dialog_from_tag (rs_headers rsp) = dialog_from_tag (rq_headers r)" "dialog_to_tag (rs_headers rsp) = Some t"
    "record_routes (rs_headers rsp) = record_routes (rq_headers r)"
    "addressed (dg_local_uri c)" "addressed (dg_remote_uri c)"
    "tag_token t" "tag_token (di_local_tag (dg_id c))"
  shows "dg_id e = \<lparr>di_call_id = di_call_id (dg_id c), di_local_tag = di_remote_tag (dg_id c),
                    di_remote_tag = di_local_tag (dg_id c)\<rparr> \<and>
    dg_route_set e = rev (dg_route_set c) \<and>
    dg_local_cseq c = unwrap_or (dg_remote_cseq e) 1 \<and>
    (\<forall>q. in_dialog_built c q \<longrightarrow> dialog_matches e q) \<and>
    (\<forall>q. in_dialog_built e q \<longrightarrow> dialog_matches c q)"
proof -
  note ex = dialogs_of_exchange [OF assms(1-5)]
  have "di_remote_tag (dg_id c) = t"
    using assms(1,5) by (auto simp: dialog_from_response_def bind_eq_Some_conv)
  then have "presentable c"
    using assms(7-10) ex(5) by (simp add: presentable_def)
  moreover have "presentable e = presentable c"
    by (rule presentable_peer) (use ex in simp_all)
  moreover have "dg_route_set e = rev (dg_route_set c)" "dg_local_cseq c = unwrap_or (dg_remote_cseq e) 1"
    using assms(1,2,6) by (auto simp: dialog_from_response_def dialog_from_request_def bind_eq_Some_conv)
  moreover have "dg_id e = \<lparr>di_call_id = di_call_id (dg_id c), di_local_tag = di_remote_tag (dg_id c),
      di_remote_tag = di_local_tag (dg_id c)\<rparr>"
    using ex(1) by (simp add: peers_def)
  ultimately show ?thesis
    using request_matches ex(1,2) by blast
qed

section \<open>Sequence numbers\<close>

fun send_all :: "dialog \<Rightarrow> (sip_method \<times> headers \<times> bytes) list \<Rightarrow> (build_error, request) result list" where
  "send_all d [] = []"
| "send_all d (x # xs) = snd (send_application d x) # send_all (fst (send_application d x)) xs"

fun deliver :: "bytes list \<Rightarrow> dialog \<Rightarrow> request list \<Rightarrow> dialog \<times> disposition list" where
  "deliver admitted d [] = (d, [])"
| "deliver admitted d (q # qs) =
     (case call_handle admitted d q of
        (d', a) \<Rightarrow> (case deliver admitted d' qs of (d'', as) \<Rightarrow> (d'', a # as)))"


definition seen_number :: "dialog \<Rightarrow> u32 list" where
  "seen_number d = (case dg_remote_cseq d of None \<Rightarrow> [] | Some k \<Rightarrow> [k])"

text \<open>The methods whose handler starts with the guard.\<close>

definition guarded_method :: "sip_method \<Rightarrow> bool" where
  "guarded_method m \<longleftrightarrow> m = INVITE \<or> m = UPDATE \<or> m = OPTIONS \<or> m = BYE"

lemma call_handle_guarded:
  "guarded_method (rq_method q) \<Longrightarrow> dialog_matches d q \<Longrightarrow> call_handle admitted d q = guarded_request d q"
  by (auto simp: call_handle_def guarded_method_def)

text \<open>What the handler can do: leave the dialog, or record a number that is not behind it.\<close>

lemma call_handle_cases:
  "fst (call_handle admitted d q) = d \<and> snd (call_handle admitted d q) \<noteq> Applied \<or>
   \<not> is_out_of_order d q \<and> call_handle admitted d q = (record_remote_cseq d q, Applied)"
  by (cases "rq_method q") (simp_all add: call_handle_def guarded_request_def application_arm_def)

lemma call_handle_frame: "dg_id (fst (call_handle admitted d q)) = dg_id d"
  using call_handle_cases [of admitted d q] by (auto simp: record_remote_cseq_def split: option.splits)

lemma matches_cong: "dg_id d = dg_id e \<Longrightarrow> dialog_matches d q = dialog_matches e q"
  by (cases "headers_value (rq_headers q) H_CallId") (simp_all add: dialog_matches_def)

lemma call_handle_fresh:
  assumes "dialog_matches d q" "guarded_method (rq_method q)" "cseq_number (rq_headers q) = Some n"
    "sorted_wrt (<) (seen_number d @ [n])"
  shows "snd (call_handle admitted d q) = Applied" "dg_remote_cseq (fst (call_handle admitted d q)) = Some n"
  using assms
  by (auto simp: call_handle_guarded guarded_request_def is_out_of_order_def record_remote_cseq_def seen_number_def max_def
      split: option.splits)

lemma call_handle_stale:
  assumes "dialog_matches d q" "guarded_method (rq_method q)" "cseq_number (rq_headers q) = Some n"
    "dg_remote_cseq d = Some k" "n \<le> k"
  shows "call_handle admitted d q = (d, Refused 500)"
  using assms by (simp add: call_handle_guarded guarded_request_def is_out_of_order_def)

lemma deliver_Cons:
  "deliver admitted d (q # qs) = (fst (deliver admitted (fst (call_handle admitted d q)) qs),
      snd (call_handle admitted d q) # snd (deliver admitted (fst (call_handle admitted d q)) qs))"
  by (simp add: case_prod_beta)

declare deliver.simps(2) [simp del]

text \<open>A replayed REFER or NOTIFY is handed on every time, since their arms have no guard.\<close>

lemma referrals_unguarded:
  assumes "dialog_matches d q" "rq_method q = REFER \<or> rq_method q = NOTIFY"
  shows "deliver admitted d (replicate n q) = (d, replicate n Unguarded)"
proof (induction n)
  case (Suc n)
  have "call_handle admitted d q = (d, Unguarded)"
    using assms by (auto simp: call_handle_def)
  with Suc show ?case
    by (simp add: deliver_Cons)
qed simp


lemma deliver_ascending:
  assumes "\<And>q. q \<in> set qs \<Longrightarrow> dialog_matches e q \<and> guarded_method (rq_method q)"
    "map (\<lambda>q. cseq_number (rq_headers q)) qs = map Some ns" "sorted_wrt (<) (seen_number e @ ns)"
  shows "snd (deliver admitted e qs) = replicate (length qs) Applied \<and> dg_id (fst (deliver admitted e qs)) = dg_id e \<and>
    seen_number (fst (deliver admitted e qs)) = (if ns = [] then seen_number e else [last ns])"
  using assms
proof (induction qs arbitrary: e ns)
  case (Cons q qs)
  obtain n ms where ns: "ns = n # ms" "cseq_number (rq_headers q) = Some n"
    "map (\<lambda>q. cseq_number (rq_headers q)) qs = map Some ms"
    using Cons.prems(2) by (cases ns) auto
  define e' where "e' = fst (call_handle admitted e q)"
  have "sorted_wrt (<) (seen_number e @ [n])"
    using Cons.prems(3) by (auto simp: ns sorted_wrt_append)
  then have e': "snd (call_handle admitted e q) = Applied" "seen_number e' = [n]" "dg_id e' = dg_id e"
    using call_handle_fresh [of e q n admitted] Cons.prems(1) [of q] ns(2) call_handle_frame [of admitted e q]
    by (simp_all add: e'_def seen_number_def)
  have "sorted_wrt (<) (seen_number e' @ ms)"
    using Cons.prems(3) by (auto simp: ns e' sorted_wrt_append)
  then have "snd (deliver admitted e' qs) = replicate (length qs) Applied \<and> dg_id (fst (deliver admitted e' qs)) = dg_id e' \<and>
      seen_number (fst (deliver admitted e' qs)) = (if ms = [] then seen_number e' else [last ms])"
    using Cons.IH [of e' ms] Cons.prems(1) ns(3) matches_cong [OF e'(3)] by simp
  then show ?case
    using e' by (auto simp: deliver_Cons ns e'_def)
qed simp

lemma deliver_stale:
  assumes "\<And>q. q \<in> set qs \<Longrightarrow> dialog_matches d q \<and> guarded_method (rq_method q) \<and>
      (\<exists>n. cseq_number (rq_headers q) = Some n \<and> n \<le> k)"
    "dg_remote_cseq d = Some k"
  shows "deliver admitted d qs = (d, replicate (length qs) (Refused 500))"
  using assms
proof (induction qs)
  case (Cons q qs)
  then have "call_handle admitted d q = (d, Refused 500)"
    using call_handle_stale [of d q] by (metis list.set_intros(1))
  then show ?case
    using Cons by (simp add: deliver_Cons)
qed simp

lemma next_cseq_value:
  assumes "unat (dg_local_cseq c) + 1 < 2 ^ 31"
  shows "next_cseq c = (c\<lparr>dg_local_cseq := dg_local_cseq c + 1\<rparr>, dg_local_cseq c + 1)"
    "unat (dg_local_cseq c + 1) = unat (dg_local_cseq c) + 1"
proof -
  show "unat (dg_local_cseq c + 1) = unat (dg_local_cseq c) + 1"
    using assms by (simp add: unat_word_ariths)
  then have "saturating_add_word (dg_local_cseq c) 1 = dg_local_cseq c + 1"
    using assms unat_saturating_add_word [of "dg_local_cseq c" 1] by (simp add: word_unat_eq_iff)
  then show "next_cseq c = (c\<lparr>dg_local_cseq := dg_local_cseq c + 1\<rparr>, dg_local_cseq c + 1)"
    by (simp add: next_cseq_def Let_def)
qed

lemma length_send_all [simp]: "length (send_all c xs) = length xs"
  by (induction c xs rule: send_all.induct) simp_all

lemma sent_numbers:
  assumes "peers c e" "presentable c" "send_all c xs = map Inr qs" "unat (dg_local_cseq c) + length xs < 2 ^ 31"
  shows "\<exists>ns. map (\<lambda>q. cseq_number (rq_headers q)) qs = map Some ns \<and> sorted_wrt (<) (dg_local_cseq c # ns) \<and>
    (\<forall>q\<in>set qs. dialog_matches e q)"
  using assms
proof (induction xs arbitrary: c qs)
  case (Cons x xs)
  obtain m hs body where x: "x = (m, hs, body)"
    by (cases x)
  define n where "n = dg_local_cseq c + 1"
  define c' where "c' = c\<lparr>dg_local_cseq := n\<rparr>"
  have "unat (dg_local_cseq c) + 1 < 2 ^ 31"
    using Cons.prems(4) by simp
  from next_cseq_value [OF this]
  have n: "next_cseq c = (c', n)" "unat n = unat (dg_local_cseq c) + 1"
    by (simp_all add: c'_def n_def)
  obtain q rs where qs: "qs = q # rs" "application_request c' m n hs body = Inr q" "send_all c' xs = map Inr rs"
    using Cons.prems(3) by (cases qs) (auto simp: send_application_def x n)
  have c': "peers c' e" "presentable c'" "dg_local_cseq c' = n"
    using Cons.prems(1,2) by (simp_all add: c'_def peers_def presentable_def)
  obtain ns where ns: "map (\<lambda>q. cseq_number (rq_headers q)) rs = map Some ns" "sorted_wrt (<) (n # ns)"
    "\<forall>q\<in>set rs. dialog_matches e q"
    using Cons.IH [OF c'(1,2) qs(3)] Cons.prems(4) n(2) c'(3) by auto
  have "cseq_number (rq_headers q) = Some n"
    using request_cseq [OF qs(2)] n(2) Cons.prems(4) by simp
  moreover have "dg_local_cseq c < n"
    using n(2) by (simp add: word_less_nat_alt)
  ultimately show ?case
    using ns request_matches [OF c'(1,2) built_application [OF qs(2)]] order.strict_trans [OF \<open>dg_local_cseq c < n\<close>]
    by (intro exI [of _ "n # ns"]) (auto simp: qs(1))
qed simp

lemma last_of_numbers:
  assumes "map f qs = map Some ns" "sorted_wrt (<) ns" "q \<in> set qs"
  shows "\<exists>n. f q = Some n \<and> n \<le> last (ns :: u32 list) \<and> ns \<noteq> []"
proof -
  obtain i where i: "i < length qs" "q = qs ! i"
    using assms(3) by (auto simp: in_set_conv_nth)
  moreover have len: "length qs = length ns"
    using assms(1) by (metis length_map)
  ultimately have "f q = Some (ns ! i)"
    using assms(1) by (metis nth_map)
  moreover have "\<forall>n\<in>set ns. n \<le> last ns"
    using assms(2) by (cases ns rule: rev_cases) (auto simp: sorted_wrt_append)
  ultimately show ?thesis
    using i(1) len by auto
qed

lemma add_headers_method: "add_headers b hs = Inr b' \<Longrightarrow> qb_method b' = qb_method b"
  by (induction hs arbitrary: b) (auto simp: bind_res_Inr_iff qb_header_def)

lemma add_routes_method: "add_routes b rs = Inr b' \<Longrightarrow> qb_method b' = qb_method b"
  by (induction rs arbitrary: b) (auto simp: bind_res_Inr_iff qb_header_def)

lemma application_request_method: "application_request d m n hs body = Inr q \<Longrightarrow> rq_method q = m"
  by (auto simp: application_request_def dialog_request_def bind_res_Inr_iff qb_header_def qb_new_def qb_cseq_def
      qb_max_forwards_def qb_build_def qb_set_body_def request_new_def split: prod.splits
      dest!: add_headers_method add_routes_method)

lemma sent_methods: "send_all c xs = map Inr qs \<Longrightarrow> q \<in> set qs \<Longrightarrow> \<exists>x \<in> set xs. rq_method q = fst x"
proof (induction xs arbitrary: c qs)
  case (Cons x xs)
  obtain r rs where qs: "qs = r # rs" "snd (send_application c x) = Inr r" "send_all (fst (send_application c x)) xs = map Inr rs"
    using Cons.prems(1) by (cases qs) auto
  then have "rq_method r = fst x"
    by (cases x) (auto simp: send_application_def application_request_method split: prod.splits)
  then show ?case
    using Cons.IH [OF qs(3)] Cons.prems(2) qs(1) by auto
qed simp

text \<open>
  Requests sent one after another inside a dialog are each applied once. When one half of a
  dialog sends requests of guarded methods, numbered in turn, and the other half has seen nothing above the
  sender's counter, every one of them is applied when they arrive in order, and after that any
  further copies of any of them, in any order and number, are all refused, as long as the numbers
  stay below \<open>2\<^sup>3\<^sup>1\<close>, the most the grammar of \<open>CSeq\<close> allows.
\<close>

theorem dialog_requests_once:
  assumes "peers c e" "presentable c" "send_all c xs = map Inr qs"
    "sorted_wrt (\<le>) (seen_number e @ [dg_local_cseq c])" "unat (dg_local_cseq c) + length xs < 2 ^ 31"
    "set copies \<subseteq> set qs" "\<And>x. x \<in> set xs \<Longrightarrow> guarded_method (fst x)"
  shows "snd (deliver admitted e qs) = replicate (length xs) Applied \<and>
    snd (deliver admitted (fst (deliver admitted e qs)) copies) = replicate (length copies) (Refused 500)"
proof -
  obtain ns where ns: "map (\<lambda>q. cseq_number (rq_headers q)) qs = map Some ns"
    "sorted_wrt (<) (dg_local_cseq c # ns)" "\<forall>q\<in>set qs. dialog_matches e q"
    using sent_numbers [OF assms(1-3,5)] by blast
  have methods: "guarded_method (rq_method q)" if "q \<in> set qs" for q
    using sent_methods [OF assms(3) that] assms(7) by (metis (no_types))
  have "sorted_wrt (<) (seen_number e @ ns)"
    using assms(4) ns(2) by (auto simp: seen_number_def split: option.splits)
  then have del: "snd (deliver admitted e qs) = replicate (length qs) Applied" "dg_id (fst (deliver admitted e qs)) = dg_id e"
    "seen_number (fst (deliver admitted e qs)) = (if ns = [] then seen_number e else [last ns])"
    using deliver_ascending [OF _ ns(1), of e admitted] ns(3) methods by auto
  have "length qs = length xs"
    using arg_cong [OF assms(3), of length] by simp
  moreover have "snd (deliver admitted (fst (deliver admitted e qs)) copies) = replicate (length copies) (Refused 500)"
  proof (cases "copies = []")
    case False
    then have "ns \<noteq> []"
      using ns(1) assms(6) by auto
    then have "dg_remote_cseq (fst (deliver admitted e qs)) = Some (last ns)"
      using del(3) by (auto simp: seen_number_def split: option.splits)
    moreover have "dialog_matches (fst (deliver admitted e qs)) q \<and> guarded_method (rq_method q) \<and>
        (\<exists>n. cseq_number (rq_headers q) = Some n \<and> n \<le> last ns)" if "q \<in> set copies" for q
      using that assms(6) ns(2,3) methods matches_cong [OF del(2)] last_of_numbers [OF ns(1), of q] by auto
    ultimately show ?thesis
      using deliver_stale [of copies "fst (deliver admitted e qs)" "last ns" admitted] by simp
  qed simp
  ultimately show ?thesis
    using del(1) by simp
qed

section \<open>Routing\<close>

definition routes_of :: "request \<Rightarrow> bytes list" where
  "routes_of q = map raw_value (headers_get_all (rq_headers q) H_Route)"

lemma headers_get_all_append [simp]:
  "headers_get_all (xs @ ys) n = headers_get_all xs n @ headers_get_all ys n"
  by (simp add: headers_get_all_def)

lemma add_headers_routes:
  "add_headers b hs = Inr b' \<Longrightarrow> headers_get_all hs H_Route = [] \<Longrightarrow>
    headers_get_all (qb_headers b') H_Route = headers_get_all (qb_headers b) H_Route \<and> qb_uri b' = qb_uri b"
proof (induction hs arbitrary: b)
  case (Cons h hs)
  obtain b1 where b1: "qb_header (hd_name h) (raw_value h) b = Inr b1" "add_headers b1 hs = Inr b'"
    using Cons.prems(1) by (auto simp: bind_res_Inr_iff)
  moreover have "qb_uri b1 = qb_uri b"
    using b1(1) by (auto simp: qb_header_def bind_res_Inr_iff)
  ultimately show ?case
    using Cons.IH [of b1] Cons.prems(2) qb_headerD [OF b1(1)]
    by (auto simp: headers_get_all_def header_new_unchecked_def split: if_splits)
qed simp

lemma add_routes_uri: "add_routes b rs = Inr b' \<Longrightarrow> qb_uri b' = qb_uri b"
  by (induction rs arbitrary: b) (auto simp: bind_res_Inr_iff qb_header_def)

lemma application_request_routes:
  assumes "application_request d m n hs body = Inr q" "headers_get_all hs H_Route = []"
  shows "rq_uri q = fst (request_target d)" "routes_of q = snd (request_target d)"
proof -
  obtain b1 b2 b3 b4 where b: "dialog_request d m = Inr b1" "qb_cseq n m b1 = Inr b2"
    "add_headers (qb_max_forwards 70 b2) hs = Inr b3"
    "add_routes b3 (snd (request_target d)) = Inr b4" "q = qb_build (qb_set_body body b4)"
    using assms by (auto simp: application_request_def bind_res_Inr_iff)
  have b1: "headers_get_all (qb_headers b1) H_Route = [] \<and> qb_uri b1 = fst (request_target d)"
    using b(1) by (auto simp: dialog_request_def bind_res_Inr_iff qb_new_def qb_header_def header_build_def
        headers_get_all_def header_new_unchecked_def split: prod.splits)
  have b2: "headers_get_all (qb_headers b2) H_Route = [] \<and> qb_uri b2 = fst (request_target d)"
    using b(2) b1 by (auto simp: qb_cseq_def bind_res_Inr_iff headers_get_all_def header_new_unchecked_def)
  have b3: "headers_get_all (qb_headers b3) H_Route = [] \<and> qb_uri b3 = fst (request_target d)"
    using add_headers_routes [OF b(3) assms(2)] b2
    by (auto simp: qb_max_forwards_def headers_get_all_def header_new_unchecked_def)
  have "headers_get_all (map (header_new_unchecked H_Route) rs) H_Route = map (header_new_unchecked H_Route) rs" for rs
    by (induction rs) (simp_all add: headers_get_all_def header_new_unchecked_def)
  then have "headers_get_all (qb_headers b4) H_Route = map (header_new_unchecked H_Route) (snd (request_target d))"
    using add_routesD [OF b(4)] b3 by simp
  moreover have "hd_name h \<noteq> H_ContentLength \<and> hd_name h = H_Route \<longleftrightarrow> hd_name h = H_Route" for h :: header
    by auto
  ultimately have "headers_get_all (rq_headers q) H_Route = map (header_new_unchecked H_Route) (snd (request_target d))"
    by (simp add: b(5) qb_build_def qb_set_body_def with_content_length_def headers_remove_all_def Let_def
        headers_get_all_def header_new_unchecked_def)
  then show "routes_of q = snd (request_target d)"
    by (simp add: routes_of_def comp_def raw_value_def header_new_unchecked_def)
  show "rq_uri q = fst (request_target d)"
    using b3 add_routes_uri [OF b(4)] by (simp add: b(5) qb_build_def qb_set_body_def request_new_def)
qed

lemma uri_in_brackets:
  assumes "uri_parse u = Inr x"
  shows "uri_in (60 # u @ [62]) = Some x"
proof -
  have "position (\<lambda>b. b = 62) (u @ 62 # []) = Some (length u)"
    using uri_parse_chars [OF assms] by (intro position_skip) (auto simp: list_all_iff is_uri_char_def)
  then show ?thesis
    using assms by (simp add: uri_in_def split_once_def)
qed

definition loose :: "uri \<Rightarrow> bool" where
  "loose f \<longleftrightarrow> (case uri_sip_parts f of Some ps \<Rightarrow> params_contains (sp_params ps) (ascii ''lr'') | None \<Rightarrow> False)"

lemma request_target_routed:
  assumes "dg_route_set d = first # rest" "uri_in first = Some f"
  shows "request_target d =
    (if loose f then (dg_remote_target d, first # rest)
     else (as_request_uri f, rest @ [60 # utf8_lossy (uri_to_bytes (dg_remote_target d)) @ [62]]))"
  using assms by (simp add: request_target_def first_route_def loose_def split: option.split)

text \<open>
  An in-dialog request travels the whole route set and ends at the remote target. With a route
  set whose first entry is a URI, a request built in the dialog is sent to that first entry, and
  either keeps the remote target as its Request-URI with the route set, in order, as its \<open>Route\<close>
  headers (a loose router), or carries the first entry, reduced to what a Request-URI may hold, as
  its Request-URI and the rest of the route set followed by an entry that reads back as the remote
  target (a strict router). With no route set it goes to the remote target without \<open>Route\<close>.
\<close>

theorem dialog_route_followed:
  assumes "application_request d m n hs body = Inr q" "headers_get_all hs H_Route = []"
    "uri_parse (uri_to_bytes (dg_remote_target d)) = Inr (dg_remote_target d)"
  shows "case dg_route_set d of
      [] \<Rightarrow> rq_uri q = dg_remote_target d \<and> routes_of q = [] \<and> hop d = dg_remote_target d
    | first # rest \<Rightarrow>
        (\<forall>f. uri_in first = Some f \<longrightarrow> hop d = f \<and>
          (if loose f then rq_uri q = dg_remote_target d \<and> routes_of q = dg_route_set d
           else rq_uri q = as_request_uri f \<and>
             (\<exists>final. routes_of q = rest @ [final] \<and> uri_in final = Some (dg_remote_target d))))"
proof -
  note q = application_request_routes [OF assms(1,2)]
  show ?thesis
  proof (cases "dg_route_set d")
    case Nil
    then show ?thesis
      using q by (simp add: request_target_def first_route_def hop_def)
  next
    case (Cons first rest)
    have "utf8_lossy (uri_to_bytes (dg_remote_target d)) = uri_to_bytes (dg_remote_target d)"
      using uri_parse_chars [OF assms(3)] by (intro utf8_lossy_ascii uri_chars_ascii)
    then show ?thesis
      using q request_target_routed [OF Cons] uri_in_brackets [OF assms(3)]
      by (auto simp: Cons hop_def first_route_def)
  qed
qed

text \<open>
  One route entry that is not a URI takes the whole route set with it: when the first entry
  cannot be read, a request built in the dialog goes straight to the remote target with no \<open>Route\<close>
  header at all, however many readable entries follow.
\<close>

theorem dialog_bad_route_bypasses:
  assumes "application_request d m n hs body = Inr q" "headers_get_all hs H_Route = []"
    "dg_route_set d = first # rest" "uri_in first = None"
  shows "rq_uri q = dg_remote_target d \<and> routes_of q = [] \<and> hop d = dg_remote_target d"
  using application_request_routes [OF assms(1,2)] assms(3,4)
  by (simp add: request_target_def first_route_def hop_def)

section \<open>Examples\<close>

definition sample_invite :: request where
  "sample_invite =
     (request_new INVITE (qb_uri options_builder))
       \<lparr>rq_headers :=
          [header_new_unchecked H_From (ascii ''<sip:a>;tag=1''), header_new_unchecked H_To (ascii ''<sip:b>''),
           header_new_unchecked H_CallId (ascii ''c''), header_new_unchecked H_CSeq (ascii ''7 INVITE''),
           header_new_unchecked H_Contact (ascii ''<sip:a>''),
           header_new_unchecked H_RecordRoute (ascii ''<sip:p;lr>, <sip:q;lr>'')]\<rparr>"

definition sample_answer :: response where
  "sample_answer =
     (response_new (StatusCode 200) (ascii ''OK''))
       \<lparr>rs_headers :=
          [header_new_unchecked H_From (ascii ''<sip:a>;tag=1''), header_new_unchecked H_To (ascii ''<sip:b>;tag=2''),
           header_new_unchecked H_CallId (ascii ''c''), header_new_unchecked H_CSeq (ascii ''7 INVITE''),
           header_new_unchecked H_Contact (ascii ''<sip:b>''),
           header_new_unchecked H_RecordRoute (ascii ''<sip:p;lr>, <sip:q;lr>'')]\<rparr>"

definition sample_uri :: "bytes \<Rightarrow> uri" where
  "sample_uri h =
     \<lparr>uri_scheme = Sip,
      uri_parts = Parts_Sip \<lparr>sp_user = None, sp_raw_user_span = None, sp_password = None,
        sp_host = Name h, sp_port = None, sp_params = [], sp_headers = []\<rparr>,
      uri_raw = Some (ascii ''sip:'' @ h), uri_tel_span = None\<rparr>"

definition sample_caller :: dialog where
  "sample_caller =
     \<lparr>dg_role = Caller,
      dg_id = \<lparr>di_call_id = ascii ''c'', di_local_tag = ascii ''1'', di_remote_tag = ascii ''2''\<rparr>,
      dg_local_uri = ascii ''<sip:a>;tag=1'', dg_remote_uri = ascii ''<sip:b>'',
      dg_remote_target = sample_uri (ascii ''b''), dg_local_cseq = 7, dg_remote_cseq = None,
      dg_route_set = [ascii ''<sip:q;lr>'', ascii ''<sip:p;lr>'']\<rparr>"

definition sample_callee :: dialog where
  "sample_callee =
     \<lparr>dg_role = Callee,
      dg_id = \<lparr>di_call_id = ascii ''c'', di_local_tag = ascii ''2'', di_remote_tag = ascii ''1''\<rparr>,
      dg_local_uri = ascii ''<sip:b>'', dg_remote_uri = ascii ''<sip:a>;tag=1'',
      dg_remote_target = sample_uri (ascii ''a''), dg_local_cseq = 0, dg_remote_cseq = Some 7,
      dg_route_set = [ascii ''<sip:p;lr>'', ascii ''<sip:q;lr>'']\<rparr>"

lemma sample_facts:
  "headers_value (rs_headers sample_answer) H_CallId = Some (ascii ''c'')"
  "headers_value (rq_headers sample_invite) H_CallId = Some (ascii ''c'')"
  "dialog_from_tag (rs_headers sample_answer) = Some (ascii ''1'')"
  "dialog_from_tag (rq_headers sample_invite) = Some (ascii ''1'')"
  "dialog_to_tag (rs_headers sample_answer) = Some (ascii ''2'')"
  "contact_uri (rs_headers sample_answer) = Some (sample_uri (ascii ''b''))"
  "contact_uri (rq_headers sample_invite) = Some (sample_uri (ascii ''a''))"
  "header_string (rq_headers sample_invite) H_From = ascii ''<sip:a>;tag=1''"
  "header_string (rq_headers sample_invite) H_To = ascii ''<sip:b>''"
  "record_routes (rs_headers sample_answer) = [ascii ''<sip:p;lr>'', ascii ''<sip:q;lr>'']"
  "record_routes (rq_headers sample_invite) = [ascii ''<sip:p;lr>'', ascii ''<sip:q;lr>'']"
  by code_simp+

lemma sample_cseq: "cseq_number (rq_headers sample_invite) = Some 7"
proof -
  have "header_value (header_new_unchecked H_CSeq (ascii ''7 INVITE'')) = decimal (unat (7 :: u32)) @ 32 # method_bytes INVITE"
    by code_simp
  moreover have "method_bytes INVITE \<noteq> []" "list_all is_token_char (method_bytes INVITE)"
    by code_simp+
  moreover have "headers_get (rq_headers sample_invite) H_CSeq = Some (header_new_unchecked H_CSeq (ascii ''7 INVITE''))"
    by code_simp
  ultimately show ?thesis
    using cseq_decode_built [of INVITE 7] by (simp add: cseq_number_def typed_ok_def typed_def)
qed

lemma sample_halves:
  "dialog_from_response sample_invite sample_answer = Some sample_caller"
  "dialog_from_request sample_invite (ascii ''2'') = Some sample_callee"
  by (simp_all add: dialog_from_response_def dialog_from_request_def sample_facts sample_cseq
      sample_caller_def sample_callee_def)

lemma sample_addressed: "addressed (ascii ''<sip:a>;tag=1'')" "addressed (ascii ''<sip:b>'')"
proof -
  have "uri_parse (ascii ''sip:a'') = Inr (sample_uri (ascii ''a''))"
    "uri_parse (ascii ''sip:b'') = Inr (sample_uri (ascii ''b''))"
    by code_simp+
  moreover have "ascii ''<sip:a>'' = [] @ 60 # ascii ''sip:a'' @ [62]" "ascii ''<sip:b>'' = [] @ 60 # ascii ''sip:b'' @ [62]"
    "display_ok []"
    by (simp_all add: ascii_def display_ok_def)
  ultimately have "name_addr (ascii ''<sip:a>'')" "name_addr (ascii ''<sip:b>'')"
    unfolding name_addr_def by blast+
  moreover have "ascii ''<sip:a>;tag=1'' = ascii ''<sip:a>'' @ ascii '';tag=1''" "ascii ''<sip:b>'' = ascii ''<sip:b>'' @ []"
    "ascii_text (ascii '';tag=1'')" "62 \<notin> set (ascii '';tag=1'')"
    by (simp_all add: ascii_def)
  moreover have "addressed (p @ tail)" if "name_addr p" "ascii_text tail" "62 \<notin> set tail" for p tail
    using that by (auto simp: addressed_def)
  ultimately show "addressed (ascii ''<sip:a>;tag=1'')" "addressed (ascii ''<sip:b>'')"
    by (metis ascii_text_simps(1) empty_iff list.set(1))+
qed

lemma sample_tags: "tag_token (ascii ''1'')" "tag_token (ascii ''2'')"
  by code_simp+

lemma sample_presentable: "presentable sample_caller" "peers sample_caller sample_callee"
  using sample_addressed sample_tags
  by (simp_all add: presentable_def peers_def sample_caller_def sample_callee_def)
    (simp add: ascii_def trim_def is_ws_def)

definition sample_bye :: request where
  "sample_bye =
     (case application_request sample_caller BYE 8 [] [] of Inr q \<Rightarrow> q | Inl _ \<Rightarrow> sample_invite)"

lemma sample_bye_built: "application_request sample_caller BYE 8 [] [] = Inr sample_bye"
  by code_simp

theorem dialog_halves_agree_witness:
  "dg_route_set sample_callee = rev (dg_route_set sample_caller) \<and> dialog_matches sample_callee sample_bye"
proof -
  have "addressed (dg_local_uri sample_caller)" "addressed (dg_remote_uri sample_caller)"
    "tag_token (di_local_tag (dg_id sample_caller))"
    using sample_addressed sample_tags by (simp_all add: sample_caller_def)
  then show ?thesis
    using dialog_halves_agree [OF sample_halves] sample_facts sample_tags built_application [OF sample_bye_built] by auto
qed

theorem dialog_requests_once_witness:
  "snd (deliver [] sample_callee [sample_bye]) = [Applied] \<and>
   snd (deliver [] (fst (deliver [] sample_callee [sample_bye])) [sample_bye, sample_bye]) = [Refused 500, Refused 500]"
proof -
  have "next_cseq sample_caller = (sample_caller\<lparr>dg_local_cseq := 8\<rparr>, 8)"
    using next_cseq_value(1) [of sample_caller] by (simp add: sample_caller_def)
  moreover have "application_request (sample_caller\<lparr>dg_local_cseq := 8\<rparr>) BYE 8 [] [] = Inr sample_bye"
    by code_simp
  ultimately have "send_all sample_caller [(BYE, [], [])] = map Inr [sample_bye]"
    by (simp add: send_application_def)
  moreover have "dg_local_cseq sample_caller = 7" "seen_number sample_callee = [7]"
    by (simp_all add: sample_caller_def sample_callee_def seen_number_def)
  ultimately show ?thesis
    using dialog_requests_once [OF sample_presentable(2,1), of "[(BYE, [], [])]" "[sample_bye]" "[sample_bye, sample_bye]" "[]"]
    by (simp add: guarded_method_def del: send_all.simps)
qed

theorem dialog_route_followed_witness:
  "hop sample_caller = unwrap_or (uri_in (ascii ''<sip:q;lr>'')) (sample_uri []) \<and>
   rq_uri sample_bye = sample_uri (ascii ''b'') \<and>
   routes_of sample_bye = [ascii ''<sip:q;lr>'', ascii ''<sip:p;lr>'']"
proof -
  define f where "f = unwrap_or (uri_in (ascii ''<sip:q;lr>'')) (sample_uri [])"
  have f: "uri_in (ascii ''<sip:q;lr>'') = Some f" "loose f"
    unfolding f_def by code_simp+
  have "uri_parse (uri_to_bytes (dg_remote_target sample_caller)) = Inr (dg_remote_target sample_caller)"
    "headers_get_all [] H_Route = []"
    by code_simp+
  then show ?thesis
    using dialog_route_followed [OF sample_bye_built] f by (simp add: sample_caller_def)
qed

definition sample_bypassed :: dialog where
  "sample_bypassed = sample_caller\<lparr>dg_route_set := [ascii ''<p>'', ascii ''<sip:q;lr>'']\<rparr>"

theorem dialog_bad_route_bypasses_witness:
  "(case application_request sample_bypassed BYE 8 [] [] of
      Inr q \<Rightarrow> rq_uri q = sample_uri (ascii ''b'') \<and> routes_of q = []
    | Inl _ \<Rightarrow> False)"
proof -
  define q where "q = (case application_request sample_bypassed BYE 8 [] [] of Inr q \<Rightarrow> q | Inl _ \<Rightarrow> sample_invite)"
  have "application_request sample_bypassed BYE 8 [] [] = Inr q"
    unfolding q_def by code_simp
  moreover have "uri_in (ascii ''<p>'') = None"
    by code_simp
  ultimately show ?thesis
    using dialog_bad_route_bypasses [of sample_bypassed BYE 8 "[]" "[]" q "ascii ''<p>''" "[ascii ''<sip:q;lr>'']"]
    by (simp add: sample_bypassed_def sample_caller_def headers_get_all_def)
qed

end
