(* ===== verification/Sip_Validate.thy ===== *)
theory Sip_Validate
  imports Sip_Dialog
begin

text \<open>
  Validation (\<open>sipx-sip/src/validate.rs\<close>): the checks that come after parsing, as a list of
  findings. A message without findings has every required header once and readable; a request this
  stack builds inside a dialog has none, but for one a peer's \<open>Contact\<close> can bring in.
\<close>

section \<open>The checks\<close>

datatype finding =
    MissingRequiredHeader string
  | MalformedRequiredHeader string
  | RepeatedSingleValueHeader string
  | CSeqMethodMismatch
  | UnsupportedVersion
  | RequestUriHasHeaders

definition finding_status :: "finding \<Rightarrow> u16" where
  "finding_status f = (case f of UnsupportedVersion \<Rightarrow> 505 | _ \<Rightarrow> 400)"

definition is_repairable :: "finding \<Rightarrow> bool" where
  "is_repairable f \<longleftrightarrow> f = MissingRequiredHeader ''Max-Forwards''"

definition check_required ::
  "header_name \<Rightarrow> (bytes \<Rightarrow> (header_error, 'a) result) \<Rightarrow> string \<Rightarrow> headers \<Rightarrow> finding list" where
  "check_required n decode label hs =
     (case typed n decode hs of
        None \<Rightarrow> [MissingRequiredHeader label]
      | Some (Inl _) \<Rightarrow> [MalformedRequiredHeader label]
      | Some (Inr _) \<Rightarrow> [])"

definition check_single_value :: "header_name \<Rightarrow> string \<Rightarrow> headers \<Rightarrow> finding list" where
  "check_single_value n label hs = (if 1 < headers_count hs n then [RepeatedSingleValueHeader label] else [])"

definition validate_request :: "request \<Rightarrow> finding list" where
  "validate_request r =
     (let hs = rq_headers r in
        (if \<not> version_is_supported (rq_version r) then [UnsupportedVersion] else []) @
        (if uri_has_headers (rq_uri r) then [RequestUriHasHeaders] else []) @
        check_required H_To to_decode ''To'' hs @
        check_required H_From from_decode ''From'' hs @
        check_required H_CallId call_id_decode ''Call-ID'' hs @
        check_required H_CSeq cseq_decode ''CSeq'' hs @
        check_required H_MaxForwards max_forwards_decode ''Max-Forwards'' hs @
        check_required H_Via via_decode ''Via'' hs @
        check_single_value H_To ''To'' hs @
        check_single_value H_From ''From'' hs @
        check_single_value H_CallId ''Call-ID'' hs @
        check_single_value H_CSeq ''CSeq'' hs @
        check_single_value H_MaxForwards ''Max-Forwards'' hs @
        (case typed H_CSeq cseq_decode hs of
           Some (Inr c) \<Rightarrow> if cs_method c \<noteq> rq_method r then [CSeqMethodMismatch] else []
         | _ \<Rightarrow> []))"

definition validate_response :: "response \<Rightarrow> finding list" where
  "validate_response r =
     (let hs = rs_headers r in
        (if \<not> version_is_supported (rs_version r) then [UnsupportedVersion] else []) @
        check_required H_To to_decode ''To'' hs @
        check_required H_From from_decode ''From'' hs @
        check_required H_CallId call_id_decode ''Call-ID'' hs @
        check_required H_CSeq cseq_decode ''CSeq'' hs @
        check_required H_Via via_decode ''Via'' hs @
        check_single_value H_To ''To'' hs @
        check_single_value H_From ''From'' hs @
        check_single_value H_CallId ''Call-ID'' hs @
        check_single_value H_CSeq ''CSeq'' hs)"

definition validate :: "sip_message \<Rightarrow> finding list" where
  "validate m = (case m of Request r \<Rightarrow> validate_request r | Response r \<Rightarrow> validate_response r)"

section \<open>Requests built in a dialog\<close>

lemma check_required_Nil: "check_required n decode label hs = [] \<longleftrightarrow> (\<exists>v. typed n decode hs = Some (Inr v))"
  by (auto simp: check_required_def split: option.splits sum.splits)

text \<open>The headers of a built request, before its \<open>Content-Length\<close>.\<close>

definition dialog_headers :: "dialog \<Rightarrow> sip_method \<Rightarrow> u32 \<Rightarrow> headers \<Rightarrow> headers" where
  "dialog_headers d m n hs =
     [header_new_unchecked H_To (snd (local_and_remote d)),
      header_new_unchecked H_From (fst (local_and_remote d)),
      header_new_unchecked H_CallId (di_call_id (dg_id d)),
      header_new_unchecked H_CSeq (decimal (unat n) @ 32 # method_bytes m),
      header_new_unchecked H_MaxForwards (decimal 70)] @
     map (\<lambda>h. header_new_unchecked (hd_name h) (raw_value h)) hs @
     map (header_new_unchecked H_Route) (snd (request_target d))"

lemma add_headers_exactly:
  "add_headers b hs = Inr b' \<Longrightarrow>
    qb_headers b' = qb_headers b @ map (\<lambda>h. header_new_unchecked (hd_name h) (raw_value h)) hs \<and>
    qb_method b' = qb_method b \<and> qb_uri b' = qb_uri b"
  by (induction hs arbitrary: b)
    (auto simp: bind_res_Inr_iff qb_header_def header_build_def)

lemma add_routes_exactly:
  "add_routes b rs = Inr b' \<Longrightarrow>
    qb_headers b' = qb_headers b @ map (header_new_unchecked H_Route) rs \<and>
    qb_method b' = qb_method b \<and> qb_uri b' = qb_uri b"
  by (induction rs arbitrary: b)
    (auto simp: bind_res_Inr_iff qb_header_def header_build_def)

lemma application_request_shape:
  assumes "application_request d m n hs body = Inr q"
  shows "rq_headers q = fst (headers_remove_all (dialog_headers d m n hs) H_ContentLength) @
      [header_new_unchecked H_ContentLength (decimal (length body))]"
    "rq_method q = m" "rq_uri q = fst (request_target d)" "rq_version q = Sip20"
proof -
  obtain b1 b2 b3 b4 where b: "dialog_request d m = Inr b1" "qb_cseq n m b1 = Inr b2"
    "add_headers (qb_max_forwards 70 b2) hs = Inr b3"
    "add_routes b3 (snd (request_target d)) = Inr b4" "q = qb_build (qb_set_body body b4)"
    using assms by (auto simp: application_request_def bind_res_Inr_iff)
  have b1: "qb_headers b1 = [header_new_unchecked H_To (snd (local_and_remote d)),
       header_new_unchecked H_From (fst (local_and_remote d)),
       header_new_unchecked H_CallId (di_call_id (dg_id d))]" "qb_method b1 = m" "qb_uri b1 = fst (request_target d)"
    using b(1) by (auto simp: dialog_request_def bind_res_Inr_iff qb_new_def qb_header_def header_build_def
        split: prod.splits)
  have b2: "qb_headers b2 = qb_headers b1 @ [header_new_unchecked H_CSeq (decimal (unat n) @ 32 # method_bytes m)]"
      "qb_method b2 = m" "qb_uri b2 = fst (request_target d)"
    using b(2) b1 by (auto simp: qb_cseq_def bind_res_Inr_iff)
  have b4: "qb_headers b4 = dialog_headers d m n hs" "qb_method b4 = m" "qb_uri b4 = fst (request_target d)"
    using add_headers_exactly [OF b(3)] add_routes_exactly [OF b(4)] b1 b2
    by (simp_all add: qb_max_forwards_def dialog_headers_def)
  have present: "headers_get (xs @ [header_new_unchecked H_ContentLength v]) H_ContentLength \<noteq> None" for xs v
    by (auto simp: headers_get_def find_None_iff header_new_unchecked_def header_name_eq_def other_name_def)
  show "rq_headers q = fst (headers_remove_all (dialog_headers d m n hs) H_ContentLength) @
      [header_new_unchecked H_ContentLength (decimal (length body))]"
    using present by (simp add: b(5) qb_build_def with_content_length_def qb_set_body_def b4)
  show "rq_method q = m" "rq_uri q = fst (request_target d)" "rq_version q = Sip20"
    by (simp_all add: b(5) qb_build_def request_new_def qb_set_body_def b4)
qed

definition single_headers :: "header_name set" where
  "single_headers = {H_To, H_From, H_CallId, H_CSeq, H_MaxForwards, H_Via}"

lemma hd_name_built [simp]: "hd_name (header_new_unchecked n v) = n"
  by (simp add: header_new_unchecked_def)

lemma single_other: "x \<in> single_headers \<Longrightarrow> other_name x = None"
  by (auto simp: single_headers_def other_name_def)

lemma headers_count_append: "headers_count (xs @ ys) x = headers_count xs x + headers_count ys x"
  by (simp add: headers_count_def)

lemma headers_count_Cons:
  "headers_count (h # hs) x = (if header_name_eq (hd_name h) x then 1 else 0) + headers_count hs x"
  by (simp add: headers_count_def)

lemma headers_count_remove:
  "x \<in> single_headers \<Longrightarrow> headers_count (fst (headers_remove_all hs H_ContentLength)) x = headers_count hs x"
  by (auto simp: headers_count_def headers_remove_all_def Let_def single_headers_def other_name_def
      intro!: arg_cong [where f = length] filter_cong)

lemma headers_count_absent:
  assumes "list_all (\<lambda>h. hd_name h \<noteq> x) hs" "x \<in> single_headers"
  shows "headers_count (map (\<lambda>h. header_new_unchecked (hd_name h) (raw_value h)) hs) x = 0"
  using assms(1)
  by (induction hs) (simp_all add: headers_count_def single_other [OF assms(2)])

lemma headers_count_routes:
  "x \<in> single_headers \<Longrightarrow> headers_count (map (header_new_unchecked H_Route) rs) x = 0"
  by (induction rs) (auto simp: headers_count_def single_headers_def other_name_def)

lemma headers_count_built:
  assumes "application_request d m n hs body = Inr q" "list_all (\<lambda>h. hd_name h \<notin> single_headers) hs" "x \<in> single_headers"
  shows "headers_count (rq_headers q) x = (if x = H_Via then 0 else 1)"
proof -
  have absent: "list_all (\<lambda>h. hd_name h \<noteq> x) hs"
    using assms(2,3) by (auto simp: list_all_iff)
  have "headers_count (rq_headers q) x = headers_count (dialog_headers d m n hs) x"
    using assms(3)
    by (simp add: application_request_shape(1) [OF assms(1)] headers_count_append headers_count_remove
        headers_count_Cons single_other)
      (auto simp: headers_count_def single_headers_def)
  then show ?thesis
    using assms(3)
    by (simp add: dialog_headers_def headers_count_append headers_count_Cons headers_count_absent [OF absent]
        headers_count_routes single_other)
      (auto simp: headers_count_def single_headers_def)
qed

text \<open>The request as the transport sends it, under the \<open>Via\<close> it puts on top.\<close>

definition under_via :: "bytes \<Rightarrow> request \<Rightarrow> request" where
  "under_via v q = q\<lparr>rq_headers := header_new_unchecked H_Via v # rq_headers q\<rparr>"

lemma typed_tagged:
  assumes "headers_get hs n = Some (header_new_unchecked n (tagged v t))" "unbroken (tagged v t)"
    "addressed v" "tag_token t"
  shows "\<exists>a. typed n (\<lambda>x. address_parse x h) hs = Some (Inr a)"
proof -
  obtain p where p: "tagged v t = p @ ascii '';tag='' @ t" "address_spec p"
    using tagged_addressed [OF assms(3,4)] by blast
  have "header_value (header_new_unchecked n (tagged v t)) = tagged v t"
    using header_value_built [OF assms(2)] trim_tagged [OF p(2) assms(4)] by (simp add: p(1))
  then show ?thesis
    using parse_tagged [OF p(2) assms(4), of h] assms(1) by (auto simp: typed_def p(1))
qed

lemma typed_under_via:
  "n \<in> {H_To, H_From, H_CallId, H_CSeq, H_MaxForwards} \<Longrightarrow>
    typed n decode (rq_headers (under_via v q)) = typed n decode (rq_headers q)"
  by (auto simp: typed_def headers_get_def under_via_def header_new_unchecked_def header_name_eq_def other_name_def)

lemma count_under_via:
  "n \<in> {H_To, H_From, H_CallId, H_CSeq, H_MaxForwards} \<Longrightarrow>
    headers_count (rq_headers (under_via v q)) n = headers_count (rq_headers q) n"
  by (auto simp: headers_count_def under_via_def header_new_unchecked_def header_name_eq_def other_name_def)

lemma find_Some_append: "find P xs = Some x \<Longrightarrow> find P (xs @ ys) = Some x"
  by (induction xs) (auto split: if_splits)

lemma max_forwards_built:
  assumes "application_request d m n hs body = Inr q"
  shows "typed H_MaxForwards max_forwards_decode (rq_headers q) = Some (Inr 70)"
proof -
  have "headers_get (fst (headers_remove_all (dialog_headers d m n hs) H_ContentLength)) H_MaxForwards =
      Some (header_new_unchecked H_MaxForwards (decimal 70))"
    by (subst headers_get_remove) (simp_all add: other_name_def dialog_headers_def headers_get_def
        header_new_unchecked_def header_name_eq_def)
  then have "headers_get (rq_headers q) H_MaxForwards = Some (header_new_unchecked H_MaxForwards (decimal 70))"
    using find_Some_append by (simp add: application_request_shape(1) [OF assms] headers_get_def)
  moreover have "header_value (header_new_unchecked H_MaxForwards (decimal 70)) = decimal 70"
    using header_value_built [OF decimal_unbroken] trim_tokens [OF decimal_tokens] by simp
  moreover have "max_forwards_decode (decimal 70) = Inr 70"
    using decimal_digits [of 70] u64_digits_decimal [of 70] trim_tokens [OF decimal_tokens, of 70]
    by (simp add: max_forwards_decode_def parse_u64_def)
  ultimately show ?thesis
    by (simp add: typed_def)
qed

text \<open>
  C13: A request the application sends inside a dialog is valid. Under any readable \<open>Via\<close>, validation
  has nothing to say of it, whatever its body, except when the URI it goes to carries header
  components, which the Request-URI must not and the peer's \<open>Contact\<close> can have put there. That takes a
  dialog whose \<open>From\<close> and \<open>To\<close> are each a URI in angle brackets with no closing bracket after it, or a
  bare URI with its parameters, whose tags are tokens and whose Call-ID is not empty; a sequence
  number below \<open>2\<^sup>3\<^sup>1\<close>; a method that its token reads back as; and extra headers that are none of the
  ones a request has once (\<open>To\<close>, \<open>From\<close>, \<open>Call-ID\<close>, \<open>CSeq\<close>, \<open>Max-Forwards\<close>, \<open>Via\<close>).
\<close>

theorem in_dialog_request_valid:
  assumes "application_request d m n hs body = Inr q" "presentable d" "di_call_id (dg_id d) \<noteq> []"
    "unat n < 2 ^ 31" "method_parse (method_bytes m) = m" "list_all (\<lambda>h. hd_name h \<notin> single_headers) hs"
    "via_decode (trim v) = Inr topmost" "unbroken v"
  shows "validate (Request (under_via v q)) =
    (if uri_has_headers (fst (request_target d)) then [RequestUriHasHeaders] else [])"
proof -
  note hd = application_request_headers [OF assms(1)]
  have ends: "addressed (dg_local_uri d)" "addressed (dg_remote_uri d)" "tag_token (di_local_tag (dg_id d))"
    "tag_token (di_remote_tag (dg_id d))"
    using assms(2) by (simp_all add: presentable_def)
  have to: "\<exists>a. typed H_To to_decode (rq_headers q) = Some (Inr a)"
    unfolding to_decode_def [abs_def]
    using hd(1,6) ends by (intro typed_tagged [where v = "dg_remote_uri d" and t = "di_remote_tag (dg_id d)"]) (simp_all add: local_and_remote_def)
  have "from": "\<exists>a. typed H_From from_decode (rq_headers q) = Some (Inr a)"
    unfolding from_decode_def [abs_def]
    using hd(2,5) ends by (intro typed_tagged [where v = "dg_local_uri d" and t = "di_local_tag (dg_id d)"]) (simp_all add: local_and_remote_def)
  have call: "typed H_CallId call_id_decode (rq_headers q) = Some (Inr (di_call_id (dg_id d)))"
    using hd(3,7) assms(2,3) by (simp add: typed_def header_value_built presentable_def call_id_decode_def trim_trim)
  have "unbroken (decimal (unat n) @ 32 # method_bytes m)"
    using decimal_unbroken token_unbroken [OF hd(9)] by simp
  moreover have "cseq_decode (trim w) = cseq_decode w" for w
    by (simp add: cseq_decode_def trim_trim)
  ultimately have cseq: "typed H_CSeq cseq_decode (rq_headers q) = Some (Inr \<lparr>cs_sequence = n, cs_method = m\<rparr>)"
    using cseq_decode_built [OF hd(8,9) assms(4)] hd(4) assms(5) by (simp add: typed_def header_value_built)
  have via: "typed H_Via via_decode (rq_headers (under_via v q)) = Some (Inr topmost)"
    using assms(7) header_value_built [OF assms(8)] by (simp add: typed_def headers_get_def under_via_def other_name_def)
  have counts: "headers_count (rq_headers q) x = 1" if "x \<in> {H_To, H_From, H_CallId, H_CSeq, H_MaxForwards}" for x
    using headers_count_built [OF assms(1,6), of x] that by (auto simp: single_headers_def)
  have "rq_uri (under_via v q) = fst (request_target d)" "rq_version (under_via v q) = Sip20" "rq_method (under_via v q) = m"
    using application_request_shape [OF assms(1)] by (simp_all add: under_via_def)
  moreover have "check_required H_Via via_decode ''Via'' (rq_headers (under_via v q)) = []"
    using via by (simp add: check_required_Nil)
  moreover have "check_required H_To to_decode ''To'' (rq_headers (under_via v q)) = []"
    "check_required H_From from_decode ''From'' (rq_headers (under_via v q)) = []"
    using to "from" by (simp_all add: check_required_Nil typed_under_via)
  moreover have "check_required H_CallId call_id_decode ''Call-ID'' (rq_headers (under_via v q)) = []"
    "check_required H_CSeq cseq_decode ''CSeq'' (rq_headers (under_via v q)) = []"
    "check_required H_MaxForwards max_forwards_decode ''Max-Forwards'' (rq_headers (under_via v q)) = []"
    using call cseq max_forwards_built [OF assms(1)] by (simp_all add: check_required_Nil typed_under_via)
  moreover have "check_single_value x l (rq_headers (under_via v q)) = []"
    if "x \<in> {H_To, H_From, H_CallId, H_CSeq, H_MaxForwards}" for x l
    using counts [OF that] count_under_via [OF that] by (simp add: check_single_value_def)
  ultimately show ?thesis
    using cseq by (simp add: validate_def validate_request_def Let_def typed_under_via version_is_supported_def)
qed

lemma in_dialog_request_valid_witness:
  "validate (Request (under_via (ascii ''SIP/2.0/UDP h;branch=z9hG4bKx'') sample_bye)) = []"
proof -
  have "\<exists>topmost. via_decode (trim (ascii ''SIP/2.0/UDP h;branch=z9hG4bKx'')) = Inr topmost"
  proof -
    have "case via_decode (trim (ascii ''SIP/2.0/UDP h;branch=z9hG4bKx'')) of Inr _ \<Rightarrow> True | Inl _ \<Rightarrow> False"
      by code_simp
    then show ?thesis
      by (simp split: sum.splits)
  qed
  then obtain topmost where "via_decode (trim (ascii ''SIP/2.0/UDP h;branch=z9hG4bKx'')) = Inr topmost"
    by blast
  moreover have "unbroken (ascii ''SIP/2.0/UDP h;branch=z9hG4bKx'')" "method_parse (method_bytes BYE) = BYE"
    "\<not> uri_has_headers (fst (request_target sample_caller))" "di_call_id (dg_id sample_caller) \<noteq> []"
    by code_simp+
  ultimately show ?thesis
    using in_dialog_request_valid [OF sample_bye_built sample_presentable(1)] by simp
qed

end
