(* ===== verification/Session_Timer.thy ===== *)
theory Session_Timer
  imports Sip_Dialog
begin

text \<open>
  Session timers (\<open>sipx-sip/src/session.rs\<close>, RFC 4028) with the lists of option tags
  (\<open>headers/misc.rs\<close>), and how a call settles one for an incoming INVITE
  (\<open>sipx-call/src/call/mod.rs\<close>, \<open>negotiate_session\<close>). A \<open>Duration\<close> is its number of nanoseconds;
  the seconds of a header are 64 bits wide. The two ends of a dialog agree on one interval and on
  one of them to refresh it, and the one that refreshes acts well before the other gives up.
\<close>

section \<open>Durations\<close>

type_synonym duration = nat

definition from_secs :: "u64 \<Rightarrow> duration" where
  "from_secs s = unat s * 1000000000"

definition as_secs :: "duration \<Rightarrow> nat" where
  "as_secs d = d div 1000000000"

lemma as_secs_from_secs [simp]: "as_secs (from_secs s) = unat s"
  by (simp add: as_secs_def from_secs_def)

definition ABSOLUTE_MIN_INTERVAL :: duration where
  "ABSOLUTE_MIN_INTERVAL = 90 * 1000000000"

definition DEFAULT_INTERVAL :: duration where
  "DEFAULT_INTERVAL = 1800 * 1000000000"

definition EARLY_BYE_CAP :: duration where
  "EARLY_BYE_CAP = 32 * 1000000000"

section \<open>The headers\<close>

definition split_at_params :: "bytes \<Rightarrow> bytes \<times> bytes" where
  "split_at_params v = (let at = unwrap_or (find_param_start v) (length v) in (take at v, drop at v))"

datatype refresher = Uac | Uas

definition refresher_str :: "refresher \<Rightarrow> bytes" where
  "refresher_str r = (case r of Uac \<Rightarrow> ascii ''uac'' | Uas \<Rightarrow> ascii ''uas'')"

record session_expires =
  sx_interval :: duration
  sx_refresher :: "refresher option"

definition refresher_of :: "bytes \<Rightarrow> (header_error, refresher) result" where
  "refresher_of v =
     (if eq_ignore_ascii_case v (ascii ''uac'') then Inr Uac
      else if eq_ignore_ascii_case v (ascii ''uas'') then Inr Uas
      else Inl (Syntax ''Session-Expires''))"

definition session_expires_decode :: "bytes \<Rightarrow> (header_error, session_expires) result" where
  "session_expires_decode v =
     (let (delta, tail) = split_at_params v in
        bind_res (parse_u64 (trim delta) ''Session-Expires'') (\<lambda>seconds.
        bind_res (parse_params tail ''Session-Expires'') (\<lambda>params.
        bind_res
          (case param_value params ''refresher'' of
             None \<Rightarrow> Inr None
           | Some r \<Rightarrow> map_sum id Some (refresher_of r))
          (\<lambda>refresher. Inr \<lparr>sx_interval = from_secs seconds, sx_refresher = refresher\<rparr>))))"

definition session_expires_show :: "session_expires \<Rightarrow> bytes" where
  "session_expires_show s =
     decimal (as_secs (sx_interval s)) @
     (case sx_refresher s of None \<Rightarrow> [] | Some r \<Rightarrow> ascii '';refresher='' @ refresher_str r)"

definition min_se_decode :: "bytes \<Rightarrow> (header_error, duration) result" where
  "min_se_decode v = map_sum id from_secs (parse_u64 (trim (fst (split_at_params v))) ''Min-SE'')"

text \<open>\<open>TokenList\<close>: a comma-separated list of tokens, which for some headers may be empty.\<close>

fun token_list_parts :: "string \<Rightarrow> bool \<Rightarrow> bytes list \<Rightarrow> (header_error, bytes list) result" where
  "token_list_parts header only_empty [] = Inr []"
| "token_list_parts header only_empty (part # parts) =
     (let token = trim part in
        if token = [] then (if only_empty then Inr [] else Inl (Syntax header))
        else if \<not> list_all is_token_char token then Inl (Syntax header)
        else bind_res (token_list_parts header only_empty parts) (\<lambda>tokens. Inr (token # tokens)))"

definition token_list_decode :: "string \<Rightarrow> bool \<Rightarrow> bytes \<Rightarrow> (header_error, bytes list) result" where
  "token_list_decode header may_be_empty v =
     bind_res (split_list v header) (\<lambda>parts.
       token_list_parts header (may_be_empty \<and> length parts = 1) parts)"

definition token_list_contains :: "bytes list \<Rightarrow> string \<Rightarrow> bool" where
  "token_list_contains tokens token = list_ex (\<lambda>t. eq_ignore_ascii_case t (ascii token)) tokens"

section \<open>The terms\<close>

record accepted =
  ac_interval :: duration
  ac_refresher :: refresher
  ac_require :: bool

datatype timer_answer = No_Timer | Accept accepted | TooBrief duration

definition timer_answer :: "bool \<Rightarrow> session_expires option \<Rightarrow> duration option \<Rightarrow> duration \<Rightarrow> timer_answer" where
  "timer_answer peer_supports requested peer_min_se floor =
     (let floor = max floor ABSOLUTE_MIN_INTERVAL in
        case requested of
          None \<Rightarrow>
            if \<not> peer_supports then No_Timer
            else Accept \<lparr>ac_interval = max DEFAULT_INTERVAL (unwrap_or peer_min_se 0),
                         ac_refresher = Uas, ac_require = True\<rparr>
        | Some r \<Rightarrow>
            if sx_interval r < floor then TooBrief floor
            else
              (let refresher = unwrap_or (sx_refresher r) Uas in
                 Accept \<lparr>ac_interval = sx_interval r, ac_refresher = refresher,
                         ac_require = (refresher = Uac \<or> peer_supports)\<rparr>))"

record session =
  ss_interval :: duration
  ss_we_refresh :: bool

definition adopt :: "session_expires option \<Rightarrow> duration option \<Rightarrow> session option" where
  "adopt response asked_for =
     (case (response, asked_for) of
        (Some agreed, _) \<Rightarrow>
          Some \<lparr>ss_interval = max (sx_interval agreed) ABSOLUTE_MIN_INTERVAL,
                ss_we_refresh = (sx_refresher agreed \<noteq> Some Uas)\<rparr>
      | (None, Some interval) \<Rightarrow>
          Some \<lparr>ss_interval = max interval ABSOLUTE_MIN_INTERVAL, ss_we_refresh = True\<rparr>
      | (None, None) \<Rightarrow> None)"

definition act_after :: "session \<Rightarrow> duration" where
  "act_after s =
     (if ss_we_refresh s then ss_interval s div 2
      else ss_interval s - min EARLY_BYE_CAP (ss_interval s div 3))"

section \<open>An incoming INVITE\<close>

definition ok_of :: "('e, 'a) result option \<Rightarrow> 'a option" where
  "ok_of x = (case x of Some (Inr v) \<Rightarrow> Some v | _ \<Rightarrow> None)"

lemma ok_of_simps [simp]: "ok_of None = None" "ok_of (Some (Inl e)) = None" "ok_of (Some (Inr v)) = Some v"
  by (simp_all add: ok_of_def)

definition negotiate_session :: "headers \<Rightarrow> (duration, accepted option) result" where
  "negotiate_session hs =
     (case timer_answer
             (case ok_of (typed H_Supported (token_list_decode ''Supported'' True) hs) of
                None \<Rightarrow> False | Some tags \<Rightarrow> token_list_contains tags ''timer'')
             (ok_of (typed H_SessionExpires session_expires_decode hs))
             (ok_of (typed H_MinSe min_se_decode hs))
             ABSOLUTE_MIN_INTERVAL of
        TooBrief floor \<Rightarrow> Inl floor
      | No_Timer \<Rightarrow> Inr None
      | Accept a \<Rightarrow> Inr (Some a))"

text \<open>The called side's session, and the \<open>Session-Expires\<close> of its 2xx.\<close>

definition called_session :: "accepted \<Rightarrow> session" where
  "called_session a = \<lparr>ss_interval = ac_interval a, ss_we_refresh = (ac_refresher a = Uas)\<rparr>"

definition called_expires :: "accepted \<Rightarrow> session_expires" where
  "called_expires a = \<lparr>sx_interval = ac_interval a, sx_refresher = Some (ac_refresher a)\<rparr>"

text \<open>The calling side reads the 2xx.\<close>

definition calling_session :: "headers \<Rightarrow> duration option \<Rightarrow> session option" where
  "calling_session hs asked_for = adopt (ok_of (typed H_SessionExpires session_expires_decode hs)) asked_for"

section \<open>A refresh\<close>

text \<open>
  What a refresh carries (\<open>refresh_session\<close>, \<open>reoffer\<close> in \<open>call/timers.rs\<close> and \<open>call/reinvite.rs\<close>),
  and what its 2xx carries: the answer to an UPDATE names the terms, the answer to a re-INVITE
  does not.
\<close>

definition update_response_expires :: "session \<Rightarrow> session_expires" where
  "update_response_expires s =
     \<lparr>sx_interval = ss_interval s, sx_refresher = Some (if ss_we_refresh s then Uas else Uac)\<rparr>"

definition refresh_request_expires :: "session \<Rightarrow> session_expires" where
  "refresh_request_expires s =
     \<lparr>sx_interval = ss_interval s, sx_refresher = Some (if ss_we_refresh s then Uac else Uas)\<rparr>"

definition adopt_session :: "session option \<Rightarrow> headers \<Rightarrow> session option" where
  "adopt_session s hs =
     (case adopt (ok_of (typed H_SessionExpires session_expires_decode hs)) (map_option ss_interval s) of
        None \<Rightarrow> s
      | Some agreed \<Rightarrow> map_option (\<lambda>_. agreed) s)"

section \<open>The header reads back\<close>

lemma find_param_go_tokens:
  "list_all is_ascii_digit t \<Longrightarrow> find_param_go i 0 (t @ rest) = find_param_go (i + length t) 0 rest"
  by (induction t arbitrary: i) (auto simp: is_ascii_digit_def)

lemma trim_decimal: "trim (decimal n) = decimal n"
  by (rule trim_tokens [OF decimal_tokens])

lemma parse_u64_decimal_word: "parse_u64 (decimal (unat n)) h = Inr (n :: u64)"
  using decimal_digits [of "unat n"] u64_digits_decimal [of "unat n"] unsigned_less [of n, where ?'a = nat]
  by (simp add: parse_u64_def)

lemma refresher_params:
  "parse_params (ascii '';refresher='' @ refresher_str r) h =
     Inr [\<lparr>hp_name = ascii ''refresher'', hp_value = Some (refresher_str r)\<rparr>]"
  by (cases r; subst parse_params.simps; simp add: refresher_str_def; code_simp)

lemma session_expires_round_trip:
  "session_expires_decode (session_expires_show \<lparr>sx_interval = from_secs n, sx_refresher = r\<rparr>) =
     Inr \<lparr>sx_interval = from_secs n, sx_refresher = r\<rparr>"
proof (cases r)
  case None
  have "find_param_start (decimal (unat n)) = None"
    using find_param_go_tokens [OF decimal_digits(1), of 0 "unat n" "[]"] by (simp add: find_param_start_def)
  then show ?thesis
    by (simp add: None session_expires_show_def session_expires_decode_def split_at_params_def trim_decimal
        parse_u64_decimal_word parse_params.simps param_value_def param_def)
next
  case (Some w)
  have "find_param_start (decimal (unat n) @ ascii '';refresher='' @ refresher_str w) = Some (length (decimal (unat n)))"
    using find_param_go_tokens [OF decimal_digits(1), of 0 "unat n" "ascii '';refresher='' @ refresher_str w"]
    by (simp add: find_param_start_def ascii_def [of "'';refresher=''"])
  then have split: "split_at_params (session_expires_show \<lparr>sx_interval = from_secs n, sx_refresher = Some w\<rparr>) =
      (decimal (unat n), ascii '';refresher='' @ refresher_str w)"
    by (simp add: session_expires_show_def split_at_params_def)
  moreover have "refresher_of (refresher_str w) = Inr w"
    by (cases w) (simp_all add: refresher_str_def refresher_of_def, code_simp+)
  ultimately show ?thesis
    by (simp add: Some session_expires_decode_def trim_decimal parse_u64_decimal_word refresher_params
        param_value_def param_def header_param_is_def)
qed

lemma session_expires_unbroken: "unbroken (session_expires_show s) \<and> trim (session_expires_show s) = session_expires_show s"
proof (cases "sx_refresher s")
  case None
  then show ?thesis
    by (simp add: session_expires_show_def decimal_unbroken trim_decimal)
next
  case (Some r)
  define d where "d = decimal (as_secs (sx_interval s))"
  obtain b k where d: "d = b # k" "is_token_char b"
    using decimal_digits(2) [of "as_secs (sx_interval s)"] decimal_tokens [of "as_secs (sx_interval s)"]
    unfolding d_def [symmetric] by (cases d) auto
  obtain t c where t: "ascii '';refresher='' @ refresher_str r = t @ [c]" "\<not> is_ws c" "unbroken (t @ [c])"
    by (cases r) (simp_all add: ascii_def refresher_str_def is_ws_def unbroken_def)
  have "session_expires_show s = b # (k @ t) @ [c]"
    using d(1) t(1) by (simp add: session_expires_show_def Some d_def)
  moreover have "unbroken (d @ t @ [c])"
    using decimal_unbroken [of "as_secs (sx_interval s)"] t(3) by (auto simp: unbroken_def d_def)
  moreover have "trim (b # (k @ t) @ [c]) = b # (k @ t) @ [c]"
    using trim_id [OF token_not_ws [OF d(2)] t(2)] .
  ultimately show ?thesis
    by (simp add: d(1))
qed

lemma session_expires_read:
  assumes "headers_get hs H_SessionExpires =
      Some (header_new_unchecked H_SessionExpires (session_expires_show \<lparr>sx_interval = from_secs n, sx_refresher = r\<rparr>))"
  shows "ok_of (typed H_SessionExpires session_expires_decode hs) = Some \<lparr>sx_interval = from_secs n, sx_refresher = r\<rparr>"
  using session_expires_unbroken
  by (simp add: typed_def assms header_value_built session_expires_round_trip)

section \<open>Both ends agree\<close>

definition whole_seconds :: "duration \<Rightarrow> bool" where
  "whole_seconds d \<longleftrightarrow> d = from_secs (of_nat (as_secs d))"

lemma whole_from_secs: "whole_seconds (from_secs n)"
  by (simp add: whole_seconds_def)

lemma whole_max: "whole_seconds a \<Longrightarrow> whole_seconds b \<Longrightarrow> whole_seconds (max a b)"
  by (simp add: max_def)

lemma whole_constants: "whole_seconds DEFAULT_INTERVAL" "whole_seconds 0"
  by (simp_all add: whole_seconds_def as_secs_def DEFAULT_INTERVAL_def from_secs_def)

text \<open>
  What the two ends of a dialog hold of one session timer: the same interval, one of them to
  refresh, and a refresh due at least a sixth of the interval before the other side gives up.
\<close>

definition refresh_margin :: "session \<Rightarrow> session \<Rightarrow> bool" where
  "refresh_margin refreshing waiting \<longleftrightarrow>
     ss_we_refresh refreshing \<and> \<not> ss_we_refresh waiting \<and>
     act_after refreshing + ss_interval refreshing div 6 \<le> act_after waiting"

definition terms_agree :: "session \<Rightarrow> session \<Rightarrow> bool" where
  "terms_agree near far \<longleftrightarrow>
     ss_interval near = ss_interval far \<and> ABSOLUTE_MIN_INTERVAL \<le> ss_interval near \<and>
     (refresh_margin near far \<or> refresh_margin far near)"

lemma terms_agreeI:
  "ss_interval near = ss_interval far \<Longrightarrow> ABSOLUTE_MIN_INTERVAL \<le> ss_interval near \<Longrightarrow>
    ss_we_refresh near \<noteq> ss_we_refresh far \<Longrightarrow> terms_agree near far"
  by (auto simp: terms_agree_def refresh_margin_def act_after_def)

lemma ok_of_decode:
  "ok_of (typed n decode hs) = Some v \<Longrightarrow> \<exists>b. decode b = Inr v"
  by (auto simp: ok_of_def typed_def split: option.splits sum.splits)

lemma negotiated_terms:
  assumes "negotiate_session hs = Inr (Some a)"
  shows "whole_seconds (ac_interval a) \<and> ABSOLUTE_MIN_INTERVAL \<le> ac_interval a"
proof -
  have asked: "whole_seconds (sx_interval r)" if known: "ok_of (typed H_SessionExpires session_expires_decode hs) = Some r" for r
  proof -
    obtain b where b: "session_expires_decode b = Inr r"
      using ok_of_decode [OF known] by blast
    obtain u v where "split_at_params b = (u, v)"
      by fastforce
    then show ?thesis
      using b by (auto simp: session_expires_decode_def bind_res_Inr_iff whole_from_secs)
  qed
  have least: "whole_seconds (unwrap_or (ok_of (typed H_MinSe min_se_decode hs)) 0)"
  proof (cases "ok_of (typed H_MinSe min_se_decode hs)")
    case (Some m)
    then obtain b where "min_se_decode b = Inr m"
      using ok_of_decode [OF Some] by blast
    then show ?thesis
      using Some by (cases "parse_u64 (trim (fst (split_at_params b))) ''Min-SE''")
        (auto simp: min_se_decode_def whole_from_secs)
  qed (simp add: whole_constants)
  have "ABSOLUTE_MIN_INTERVAL \<le> DEFAULT_INTERVAL"
    by (simp add: ABSOLUTE_MIN_INTERVAL_def DEFAULT_INTERVAL_def)
  then show ?thesis
    using assms asked whole_max [OF whole_constants(1) least]
    by (auto simp: negotiate_session_def timer_answer_def Let_def not_less split: option.splits if_splits)
qed

text \<open>
  C10: When the called side accepts a session timer and the calling side reads the \<open>Session-Expires\<close>
  of the 2xx, both hold the same interval, of ninety seconds or more, exactly one of them refreshes,
  and it does so at least a sixth of the interval before the other would hang up; an interval the
  caller asked for, and its choice of who refreshes, are kept. Refreshing by UPDATE, from either
  end, changes neither.
\<close>

theorem session_terms_agree:
  assumes "negotiate_session invite = Inr (Some a)"
    "headers_get ok_headers H_SessionExpires =
       Some (header_new_unchecked H_SessionExpires (session_expires_show (called_expires a)))"
    "headers_get update_headers H_SessionExpires =
       Some (header_new_unchecked H_SessionExpires (session_expires_show (update_response_expires far)))"
    "calling_session ok_headers asked = Some caller" "{near, far} = {caller, called_session a}"
  shows "terms_agree caller (called_session a) \<and> adopt_session (Some near) update_headers = Some near \<and>
    (case ok_of (typed H_SessionExpires session_expires_decode invite) of
       None \<Rightarrow> True
     | Some r \<Rightarrow> ss_interval caller = sx_interval r \<and>
         (sx_refresher r = None \<or> sx_refresher r = Some (if ss_we_refresh caller then Uac else Uas)))"
proof -
  obtain n where n: "ac_interval a = from_secs n"
    using negotiated_terms [OF assms(1)] unfolding whole_seconds_def by blast
  have least: "ABSOLUTE_MIN_INTERVAL \<le> from_secs n"
    using negotiated_terms [OF assms(1)] by (simp add: n)
  have caller: "caller = \<lparr>ss_interval = from_secs n, ss_we_refresh = (ac_refresher a \<noteq> Uas)\<rparr>"
    using assms(4) session_expires_read [of ok_headers n "Some (ac_refresher a)"] assms(2) least
    by (auto simp: calling_session_def called_expires_def n adopt_def)
  then have agree: "terms_agree caller (called_session a)"
    using least by (intro terms_agreeI) (auto simp: called_session_def n)
  have ends: "ss_interval near = from_secs n" "ss_interval far = from_secs n" "ss_we_refresh near \<noteq> ss_we_refresh far"
    using assms(5) caller by (auto simp: called_session_def n doubleton_eq_iff)
  then have "ok_of (typed H_SessionExpires session_expires_decode update_headers) =
      Some \<lparr>sx_interval = from_secs n, sx_refresher = Some (if ss_we_refresh far then Uas else Uac)\<rparr>"
    using assms(3) session_expires_read [of update_headers n "Some (if ss_we_refresh far then Uas else Uac)"]
    by (simp add: update_response_expires_def)
  then have "adopt_session (Some near) update_headers = Some near"
    using ends least by (cases near) (auto simp: adopt_session_def adopt_def)
  moreover have "case ok_of (typed H_SessionExpires session_expires_decode invite) of
       None \<Rightarrow> True
     | Some r \<Rightarrow> from_secs n = sx_interval r \<and>
         (sx_refresher r = None \<or> sx_refresher r = Some (if ac_refresher a \<noteq> Uas then Uac else Uas))"
    using assms(1) n
    by (cases "ac_refresher a"; auto simp: negotiate_session_def timer_answer_def Let_def unwrap_or_def split: option.splits if_splits)
  ultimately show ?thesis
    using agree unfolding caller by (auto split: option.splits)
qed

definition sample_timed_invite :: headers where
  "sample_timed_invite =
     [header_new_unchecked H_Supported (ascii ''timer''),
      header_new_unchecked H_SessionExpires (session_expires_show \<lparr>sx_interval = from_secs 1800, sx_refresher = None\<rparr>)]"

definition sample_terms :: accepted where
  "sample_terms = \<lparr>ac_interval = from_secs 1800, ac_refresher = Uas, ac_require = True\<rparr>"

definition sample_ok :: headers where
  "sample_ok = [header_new_unchecked H_SessionExpires (session_expires_show (called_expires sample_terms))]"

definition sample_caller_session :: session where
  "sample_caller_session = \<lparr>ss_interval = from_secs 1800, ss_we_refresh = False\<rparr>"

lemma session_terms_agree_witness:
  "terms_agree sample_caller_session (called_session sample_terms) \<and>
   adopt_session (Some sample_caller_session) sample_ok = Some sample_caller_session"
proof -
  have get: "headers_get sample_ok H_SessionExpires =
      Some (header_new_unchecked H_SessionExpires (session_expires_show (called_expires sample_terms)))"
    "headers_get sample_ok H_SessionExpires =
      Some (header_new_unchecked H_SessionExpires (session_expires_show (update_response_expires (called_session sample_terms))))"
    by (simp_all add: sample_ok_def headers_get_def header_new_unchecked_def header_name_eq_def
        other_name_def update_response_expires_def called_session_def called_expires_def sample_terms_def)
  have "calling_session sample_ok None = Some sample_caller_session"
    using session_expires_read [of sample_ok 1800 "Some Uas"] get(1)
    by (simp add: calling_session_def adopt_def called_expires_def sample_terms_def sample_caller_session_def
        from_secs_def ABSOLUTE_MIN_INTERVAL_def)
  moreover have "negotiate_session sample_timed_invite = Inr (Some sample_terms)"
  proof -
    have "header_value (header_new_unchecked H_Supported (ascii ''timer'')) = ascii ''timer''"
      "token_list_decode ''Supported'' True (ascii ''timer'') = Inr [ascii ''timer'']"
      "token_list_contains [ascii ''timer''] ''timer''"
      by code_simp+
    then have "ok_of (typed H_Supported (token_list_decode ''Supported'' True) sample_timed_invite) = Some [ascii ''timer'']"
      by (simp add: typed_def sample_timed_invite_def headers_get_def header_new_unchecked_def header_name_eq_def
          other_name_def)
    moreover have "ok_of (typed H_SessionExpires session_expires_decode sample_timed_invite) =
        Some \<lparr>sx_interval = from_secs 1800, sx_refresher = None\<rparr>"
      by (rule session_expires_read) (simp add: sample_timed_invite_def headers_get_def header_new_unchecked_def
          header_name_eq_def other_name_def)
    moreover have "ok_of (typed H_MinSe min_se_decode sample_timed_invite) = None"
      by (simp add: typed_def sample_timed_invite_def headers_get_def header_new_unchecked_def header_name_eq_def
          other_name_def)
    moreover have "token_list_contains [ascii ''timer''] ''timer''"
      by code_simp
    ultimately show ?thesis
      by (simp add: negotiate_session_def timer_answer_def sample_terms_def from_secs_def ABSOLUTE_MIN_INTERVAL_def)
  qed
  ultimately show ?thesis
    using session_terms_agree [OF _ get] by simp
qed

text \<open>
  A \<open>Session-Expires\<close> that cannot be read is taken as one that is absent: with a peer that supports
  timers, this side appoints itself refresher against an instruction it failed to read.
\<close>

lemma unread_refresher_overruled:
  assumes "ok_of (typed H_SessionExpires session_expires_decode hs) = None"
    "typed H_Supported (token_list_decode ''Supported'' True) hs = Some (Inr tags)" "token_list_contains tags ''timer''"
  shows "\<exists>a. negotiate_session hs = Inr (Some a) \<and> ac_refresher a = Uas"
  using assms by (simp add: negotiate_session_def timer_answer_def Let_def)

text \<open>
  A re-INVITE is answered without a \<open>Session-Expires\<close>, which the side that sent it reads as its own
  duty to refresh: when the other side was the refresher, both now are.
\<close>

lemma reinvite_doubles_refresher:
  assumes "terms_agree near far" "ss_we_refresh far" "headers_get ok_headers H_SessionExpires = None"
  shows "\<exists>s. adopt_session (Some near) ok_headers = Some s \<and> ss_we_refresh s \<and> ss_we_refresh far"
  using assms by (simp add: adopt_session_def typed_def adopt_def)

end
