(* ===== verification/Reliable_Provisional.thy ===== *)
theory Reliable_Provisional
  imports Session_Timer
begin

text \<open>
  Reliable provisional responses (\<open>sipx-sip/src/rel.rs\<close>, RFC 3262): the headers, the decision
  whether a response may or must be reliable, the called side's numbering and the calling side's
  view of the sequence. The two run over a network that may lose, repeat and reorder responses and
  PRACKs: each numbered response is acknowledged once, in order, by its own PRACK.
\<close>

section \<open>The headers\<close>

definition MAX_FIRST_RSEQ :: u32 where
  "MAX_FIRST_RSEQ = 0x7FFFFFFF"

definition u32_of :: "string \<Rightarrow> u64 \<Rightarrow> (header_error, u32) result" where
  "u32_of header n = (if unat n < 2 ^ 32 then Inr (ucast n) else Inl (OutOfRange header))"

definition rseq_decode :: "bytes \<Rightarrow> (header_error, u32) result" where
  "rseq_decode v = bind_res (parse_u64 (trim v) ''RSeq'') (u32_of ''RSeq'')"

record rack =
  rk_rseq :: u32
  rk_cseq :: u32
  rk_method :: bytes

text \<open>\<open>split(u8::is_ascii_whitespace).filter(|p| !p.is_empty())\<close>.\<close>

fun ascii_words :: "bytes \<Rightarrow> bytes \<Rightarrow> bytes list" where
  "ascii_words word [] = (if word = [] then [] else [word])"
| "ascii_words word (b # rest) =
     (if b \<in> {32, 9, 10, 12, 13} then (if word = [] then [] else [word]) @ ascii_words [] rest
      else ascii_words (word @ [b]) rest)"

definition rack_decode :: "bytes \<Rightarrow> (header_error, rack) result" where
  "rack_decode v =
     (case ascii_words [] (trim v) of
        first # second # rest \<Rightarrow>
          bind_res (parse_u64 first ''RAck'') (\<lambda>rseq.
          bind_res (parse_u64 second ''RAck'') (\<lambda>cseq.
            (case rest of
               [m] \<Rightarrow>
                 bind_res (u32_of ''RAck'' rseq) (\<lambda>rseq.
                 bind_res (u32_of ''RAck'' cseq) (\<lambda>cseq.
                   Inr \<lparr>rk_rseq = rseq, rk_cseq = cseq, rk_method = m\<rparr>))
             | _ \<Rightarrow> Inl (Syntax ''RAck''))))
      | [first] \<Rightarrow> bind_res (parse_u64 first ''RAck'') (\<lambda>_. Inl (Syntax ''RAck''))
      | [] \<Rightarrow> Inl (Syntax ''RAck''))"

definition rack_show :: "rack \<Rightarrow> bytes" where
  "rack_show r =
     decimal (unat (rk_rseq r)) @ [32] @ decimal (unat (rk_cseq r)) @ [32] @ utf8_lossy (rk_method r)"

section \<open>Whether to be reliable\<close>

datatype reliability_answer = Forbidden | Permitted | Required | Refuse

record offered =
  of_supported :: bool
  of_required :: bool

definition contains_tag :: "bytes \<Rightarrow> bool" where
  "contains_tag v \<longleftrightarrow> list_ex (\<lambda>tag. eq_ignore_ascii_case (trim tag) (ascii ''100rel'')) (split_on (ch CHR '','') v)"

definition offered_in_request :: "request \<Rightarrow> offered" where
  "offered_in_request r =
     \<lparr>of_supported = list_ex (\<lambda>h. contains_tag (header_value h)) (headers_get_all (rq_headers r) H_Supported),
      of_required = list_ex (\<lambda>h. contains_tag (header_value h)) (headers_get_all (rq_headers r) H_Require)\<rparr>"

definition reliability_of :: "offered \<Rightarrow> bool \<Rightarrow> reliability_answer" where
  "reliability_of peer enabled =
     (case (of_required peer, of_supported peer, enabled) of
        (True, _, True) \<Rightarrow> Required
      | (True, _, False) \<Rightarrow> Refuse
      | (False, True, True) \<Rightarrow> Permitted
      | (False, _, _) \<Rightarrow> Forbidden)"

section \<open>The two ends\<close>

record numbering =
  nb_next :: u32
  nb_outstanding :: "u32 option"

definition starting_at :: "u32 \<Rightarrow> numbering" where
  "starting_at first = \<lparr>nb_next = max 1 (min first MAX_FIRST_RSEQ), nb_outstanding = None\<rparr>"

definition allocate :: "numbering \<Rightarrow> numbering \<times> u32 option" where
  "allocate n =
     (if nb_outstanding n \<noteq> None then (n, None)
      else (n\<lparr>nb_next := saturating_add_word (nb_next n) 1, nb_outstanding := Some (nb_next n)\<rparr>, Some (nb_next n)))"

definition acknowledge :: "numbering \<Rightarrow> rack \<Rightarrow> u32 \<Rightarrow> bytes \<Rightarrow> numbering \<times> bool" where
  "acknowledge n ack cseq m =
     (let matches = nb_outstanding n = Some (rk_rseq ack) \<and> rk_cseq ack = cseq \<and>
            eq_ignore_ascii_case (rk_method ack) m in
        (if matches then n\<lparr>nb_outstanding := None\<rparr> else n, matches))"

text \<open>The calling side's \<open>Sequence\<close> is the last number it took in order.\<close>

datatype received = Acknowledge | Duplicate | OutOfOrder

definition sequence_accept :: "u32 option \<Rightarrow> u32 \<Rightarrow> u32 option \<times> received" where
  "sequence_accept last' rseq =
     (case last' of
        None \<Rightarrow> (Some rseq, Acknowledge)
      | Some l \<Rightarrow>
          if rseq = l then (last', Duplicate)
          else if rseq = saturating_add_word l 1 then (Some rseq, Acknowledge)
          else (last', OutOfOrder))"

section \<open>The headers read back\<close>

lemma ascii_words_token:
  "list_all is_token_char t \<Longrightarrow> ascii_words w (t @ rest) = ascii_words (w @ t) rest"
proof (induction t arbitrary: w)
  case (Cons b t)
  have "b \<notin> {32, 9, 10, 12, 13}"
    using Cons.prems by (auto simp: is_token_char_def is_ascii_alphanumeric_def is_ascii_digit_def
        is_ascii_uppercase_def is_ascii_lowercase_def ascii_def)
  then show ?case
    using Cons by simp
qed simp

lemma parse_u32_decimal:
  "\<exists>w. parse_u64 (decimal (unat (n :: u32))) h = Inr w \<and> u32_of h w = Inr n"
proof (intro exI conjI)
  have n: "unat n < 2 ^ 32"
    using unsigned_less [of n, where ?'a = nat] by simp
  then have w: "unat (of_nat (unat n) :: u64) = unat n"
    by (intro unat_of_nat_small) simp
  then show "parse_u64 (decimal (unat n)) h = Inr (of_nat (unat n))"
    using parse_u64_decimal_word [of "of_nat (unat n)"] by simp
  show "u32_of h (of_nat (unat n)) = Inr n"
    using w n by (simp add: u32_of_def word_unat_eq_iff unsigned_ucast_eq unsigned_take_bit_eq take_bit_nat_eq_self)
qed

lemma rseq_round_trip: "rseq_decode (decimal (unat n)) = Inr n"
  using parse_u32_decimal [of n "''RSeq''"] by (auto simp: rseq_decode_def trim_decimal)

definition invite_rack :: "u32 \<Rightarrow> u32 \<Rightarrow> rack" where
  "invite_rack rseq cseq = \<lparr>rk_rseq = rseq, rk_cseq = cseq, rk_method = ascii ''INVITE''\<rparr>"

lemma rack_round_trip: "rack_decode (rack_show (invite_rack rseq cseq)) = Inr (invite_rack rseq cseq)"
proof -
  define d e m where "d = decimal (unat rseq)" and "e = decimal (unat cseq)" and "m = ascii ''INVITE''"
  have tokens: "list_all is_token_char d" "list_all is_token_char e" "list_all is_token_char m" "d \<noteq> []" "e \<noteq> []" "m \<noteq> []"
    using decimal_tokens decimal_digits(2) by (simp_all add: d_def e_def) (simp_all add: m_def, code_simp+)
  have lossy: "utf8_lossy m = m"
    unfolding m_def by code_simp
  have shown: "rack_show (invite_rack rseq cseq) = d @ 32 # e @ 32 # m"
    using lossy by (simp add: rack_show_def invite_rack_def d_def e_def m_def)
  obtain b k where d: "d = b # k" "\<not> is_ws b"
    using tokens(1,4) by (cases d) (auto dest: token_not_ws)
  have m: "m = ascii ''INVIT'' @ [ch CHR ''E'']" "\<not> is_ws (ch CHR ''E'')"
    by (simp_all add: m_def ascii_def is_ws_def)
  have "trim (d @ 32 # e @ 32 # m) = d @ 32 # e @ 32 # m"
    using trim_id [OF d(2) m(2), of "k @ 32 # e @ 32 # ascii ''INVIT''"] by (simp add: d(1) m(1))
  moreover have "ascii_words [] (d @ 32 # e @ 32 # m) = [d, e, m]"
    using tokens ascii_words_token [of m "[]" "[]"] by (simp add: ascii_words_token)
  ultimately show ?thesis
    using parse_u32_decimal [of rseq "''RAck''"] parse_u32_decimal [of cseq "''RAck''"]
    by (auto simp: rack_decode_def shown d_def e_def m_def) (simp add: invite_rack_def)
qed

section \<open>The exchange\<close>

text \<open>
  Both ends of one INVITE and what has passed between them: the numbered responses sent, those the
  calling side acknowledged, and the PRACKs the called side took as matching. A response or a PRACK
  that was sent may arrive at any time, any number of times, or never.
\<close>

record reliable_exchange =
  rx_called :: numbering
  rx_sent :: "u32 list"
  rx_calling :: "u32 option"
  rx_acked :: "u32 list"
  rx_matched :: "u32 list"

definition exchange_start :: "u32 \<Rightarrow> reliable_exchange" where
  "exchange_start first =
     \<lparr>rx_called = starting_at first, rx_sent = [], rx_calling = None, rx_acked = [], rx_matched = []\<rparr>"

inductive exchange_step :: "u32 \<Rightarrow> reliable_exchange \<Rightarrow> reliable_exchange \<Rightarrow> bool" for cseq where
  ring: "allocate (rx_called s) = (u, Some n) \<Longrightarrow>
    exchange_step cseq s (s\<lparr>rx_called := u, rx_sent := rx_sent s @ [n]\<rparr>)"
| hear: "n \<in> set (rx_sent s) \<Longrightarrow> rseq_decode (decimal (unat n)) = Inr m \<Longrightarrow>
    sequence_accept (rx_calling s) m = (q, r) \<Longrightarrow>
    exchange_step cseq s (s\<lparr>rx_calling := q, rx_acked := rx_acked s @ (if r = Acknowledge then [m] else [])\<rparr>)"
| prack: "n \<in> set (rx_acked s) \<Longrightarrow> rack_decode (rack_show (invite_rack n cseq)) = Inr ack \<Longrightarrow>
    acknowledge (rx_called s) ack cseq (ascii ''INVITE'') = (u, matched) \<Longrightarrow>
    exchange_step cseq s (s\<lparr>rx_called := u, rx_matched := rx_matched s @ (if matched then [rk_rseq ack] else [])\<rparr>)"

inductive exchange_reachable :: "u32 \<Rightarrow> u32 \<Rightarrow> reliable_exchange \<Rightarrow> bool" for first cseq where
  start: "exchange_reachable first cseq (exchange_start first)"
| step: "exchange_reachable first cseq s \<Longrightarrow> exchange_step cseq s s' \<Longrightarrow> exchange_reachable first cseq s'"

inductive_cases exchange_stepE: "exchange_step cseq s s'"

definition numbers :: "u32 \<Rightarrow> nat \<Rightarrow> u32 list" where
  "numbers f k = map (\<lambda>i. f + of_nat i) [0..<k]"

lemma numbers_Suc: "numbers f (Suc k) = numbers f k @ [f + of_nat k]"
  by (simp add: numbers_def)

lemma numbers_simps [simp]: "numbers f 0 = []" "length (numbers f k) = k"
  by (simp_all add: numbers_def)

lemma numbers_take: "a \<le> k \<Longrightarrow> take a (numbers f k) = numbers f a"
  by (simp add: numbers_def take_map)

lemma numbers_set: "n \<in> set (numbers f k) \<longleftrightarrow> (\<exists>i < k. n = f + of_nat i)"
  by (auto simp: numbers_def)

lemma add_of_nat_inject:
  assumes "unat (f :: u32) + i < 2 ^ 32" "unat f + j < 2 ^ 32"
  shows "f + of_nat i = f + of_nat j \<longleftrightarrow> i = j"
proof
  assume "f + of_nat i = f + of_nat j"
  then have "(of_nat i :: u32) = of_nat j"
    by simp
  then have "unat (of_nat i :: u32) = unat (of_nat j :: u32)"
    by simp
  then show "i = j"
    using assms by (simp add: unat_of_nat take_bit_nat_eq_self)
qed simp

lemma saturating_next: "unat (f :: u32) + Suc k < 2 ^ 32 \<Longrightarrow> saturating_add_word (f + of_nat k) 1 = f + of_nat (Suc k)"
  by (simp add: saturating_add_word_def unat_word_ariths unat_of_nat take_bit_nat_eq_self)

text \<open>What the exchange holds after \<open>k\<close> responses, \<open>a\<close> acknowledgements and \<open>m\<close> matches.\<close>

definition exchange_holds :: "u32 \<Rightarrow> nat \<Rightarrow> nat \<Rightarrow> nat \<Rightarrow> reliable_exchange \<Rightarrow> bool" where
  "exchange_holds f k a m s \<longleftrightarrow>
     m \<le> a \<and> a \<le> k \<and> k \<le> Suc m \<and>
     rx_sent s = numbers f k \<and> rx_acked s = numbers f a \<and> rx_matched s = numbers f m \<and>
     nb_next (rx_called s) = f + of_nat k \<and>
     nb_outstanding (rx_called s) = (if k = m then None else Some (f + of_nat m)) \<and>
     rx_calling s = (if a = 0 then None else Some (f + of_nat (a - 1)))"

lemma first_bounds:
  "1 \<le> unat (nb_next (starting_at first)) \<and> unat (nb_next (starting_at first)) < 2 ^ 31"
  by (auto simp: starting_at_def MAX_FIRST_RSEQ_def max_def min_def word_le_nat_alt)

lemma exchange_holds_start: "exchange_holds (nb_next (starting_at first)) 0 0 0 (exchange_start first)"
  by (simp add: exchange_holds_def exchange_start_def) (simp add: starting_at_def)

lemma exchange_holds_step:
  assumes "exchange_holds f k a m s" "exchange_step cseq s s'" "unat f + length (rx_sent s') < 2 ^ 32"
  shows "\<exists>k' a' m'. exchange_holds f k' a' m' s'"
  using assms(2)
proof (cases rule: exchange_step.cases)
  case (ring u n)
  then have "k = m" "n = f + of_nat k" "u = (rx_called s)\<lparr>nb_next := saturating_add_word (f + of_nat k) 1, nb_outstanding := Some n\<rparr>"
    using assms(1) by (auto simp: allocate_def exchange_holds_def split: if_splits)
  moreover from this have "saturating_add_word (f + of_nat k) 1 = f + of_nat (Suc k)"
    using assms(1,3) ring(1) by (intro saturating_next) (simp add: exchange_holds_def)
  ultimately have "exchange_holds f (Suc k) a m s'"
    using assms(1) ring(1) by (simp add: exchange_holds_def numbers_Suc)
  then show ?thesis
    by blast
next
  case (hear n x q r)
  then obtain i where i: "i < k" "x = f + of_nat i"
    using assms(1) by (auto simp: rseq_round_trip exchange_holds_def numbers_set)
  have bound: "unat f + j < 2 ^ 32" if "j \<le> k" for j
    using assms(1,3) that hear(1) by (simp add: exchange_holds_def)
  have a: "m \<le> a" "a \<le> k" "k \<le> Suc m"
    using assms(1) by (simp_all add: exchange_holds_def)
  show ?thesis
  proof (cases "a = 0")
    case True
    have first: "i = 0"
      using i a True by simp
    then have taken: "q = Some f" "r = Acknowledge"
      using assms(1) hear(4) i(2) True by (auto simp: first exchange_holds_def sequence_accept_def)
    then have "exchange_holds f k 1 m s'"
      using assms(1) hear(1) i True taken by (simp add: first exchange_holds_def numbers_Suc)
    then show ?thesis
      by blast
  next
    case False
    have calling: "rx_calling s = Some (f + of_nat (a - 1))"
      using assms(1) False by (simp add: exchange_holds_def)
    have "saturating_add_word (f + of_nat (a - 1)) 1 = f + of_nat a"
      using saturating_next [of f "a - 1"] bound [of a] a False by simp
    then consider "i = a" "q = Some (f + of_nat a)" "r = Acknowledge" | "i < a" "q = rx_calling s" "r \<noteq> Acknowledge"
      using hear(4) i a False bound add_of_nat_inject [of f i a] add_of_nat_inject [of f i "a - 1"]
      by (auto simp: sequence_accept_def calling split: if_splits)
    then show ?thesis
    proof cases
      case 1
      then have "exchange_holds f k (Suc a) m s'"
        using assms(1) hear(1) i by (simp add: exchange_holds_def numbers_Suc)
      then show ?thesis
        by blast
    next
      case 2
      then have "exchange_holds f k a m s'"
        using assms(1) hear(1) by (simp add: exchange_holds_def)
      then show ?thesis
        by blast
    qed
  qed
next
  case (prack n ack u matched)
  then obtain i where i: "i < a" "n = f + of_nat i" "ack = invite_rack n cseq"
    using assms(1) by (auto simp: rack_round_trip exchange_holds_def numbers_set)
  have a: "m \<le> a" "a \<le> k" "k \<le> Suc m"
    using assms(1) by (simp_all add: exchange_holds_def)
  have "eq_ignore_ascii_case (ascii ''INVITE'') (ascii ''INVITE'')"
    by code_simp
  then have taken: "matched \<longleftrightarrow> nb_outstanding (rx_called s) = Some n"
      "u = (if matched then (rx_called s)\<lparr>nb_outstanding := None\<rparr> else rx_called s)" "rk_rseq ack = n"
    using prack(4) by (auto simp: acknowledge_def i(3) invite_rack_def Let_def split: if_splits)
  show ?thesis
  proof (cases matched)
    case True
    then have "k \<noteq> m" "n = f + of_nat m"
      using taken(1) assms(1) by (auto simp: exchange_holds_def split: if_splits)
    moreover from this have "i = m"
      using i(1,2) a add_of_nat_inject [of f i m] assms(1,3) prack(1) by (simp add: exchange_holds_def)
    ultimately have "exchange_holds f k a (Suc m) s'"
      using assms(1) a i(1) taken True prack(1) by (auto simp: exchange_holds_def numbers_Suc)
    then show ?thesis
      by blast
  next
    case False
    then have "exchange_holds f k a m s'"
      using assms(1) taken prack(1) by (simp add: exchange_holds_def)
    then show ?thesis
      by blast
  qed
qed

lemma sent_grows: "exchange_step cseq s s' \<Longrightarrow> length (rx_sent s) \<le> length (rx_sent s')"
  by (auto elim!: exchange_stepE)

lemma exchange_holds_reachable:
  "exchange_reachable first cseq s \<Longrightarrow> length (rx_sent s) \<le> 2 ^ 31 \<Longrightarrow>
    \<exists>k a m. exchange_holds (nb_next (starting_at first)) k a m s"
proof (induction rule: exchange_reachable.induct)
  case start
  then show ?case
    using exchange_holds_start by blast
next
  case (step s s')
  then obtain k a m where "exchange_holds (nb_next (starting_at first)) k a m s"
    using sent_grows order.trans by blast
  then show ?case
    using exchange_holds_step [OF _ step(2)] step(4) first_bounds [of first] by force
qed

text \<open>
  C11: However responses and PRACKs are lost, repeated and reordered, the calling side acknowledges
  each reliable provisional once and in the order they were sent, each PRACK is taken as matching
  once and in that order, and no response is sent before the one before it was acknowledged. One
  that is outstanding can always still be acknowledged.
\<close>

theorem reliable_provisionals_once:
  assumes "exchange_reachable first cseq s" "length (rx_sent s) \<le> 2 ^ 31"
  shows "distinct (rx_sent s) \<and> rx_acked s = take (length (rx_acked s)) (rx_sent s) \<and>
    rx_matched s = take (length (rx_matched s)) (rx_acked s) \<and>
    length (rx_sent s) \<le> length (rx_matched s) + 1 \<and>
    (nb_outstanding (rx_called s) = None \<longleftrightarrow> rx_matched s = rx_sent s) \<and>
    (\<exists>s'. (exchange_step cseq)\<^sup>*\<^sup>* s s' \<and> rx_matched s' = rx_sent s)"
proof -
  define f where "f = nb_next (starting_at first)"
  obtain k a m where h: "exchange_holds f k a m s"
    using exchange_holds_reachable [OF assms] unfolding f_def by blast
  have bound: "unat f + j < 2 ^ 32" if "j \<le> k" for j
    using h assms(2) that first_bounds [of first] by (simp add: exchange_holds_def f_def)
  have "inj_on (\<lambda>i. f + of_nat i) {0..<k}"
  proof (rule inj_onI)
    fix i j
    assume "i \<in> {0..<k}" "j \<in> {0..<k}" "f + of_nat i = f + of_nat j"
    then show "i = j"
      using add_of_nat_inject [of f i j] bound [of i] bound [of j] by simp
  qed
  then have "distinct (numbers f k)"
    by (simp add: numbers_def distinct_map)
  moreover have "\<exists>s'. (exchange_step cseq)\<^sup>*\<^sup>* s s' \<and> rx_matched s' = rx_sent s"
  proof (cases "k = m")
    case True
    then show ?thesis
      using h by (auto simp: exchange_holds_def)
  next
    case False
    then have k: "k = Suc m" "m \<le> a" "a \<le> k"
      using h by (auto simp: exchange_holds_def)
    obtain s1 where s1: "(exchange_step cseq)\<^sup>*\<^sup>* s s1" "exchange_holds f k k m s1" "rx_sent s1 = rx_sent s"
    proof (cases "a = k")
      case False
      then have "a = m"
        using k by simp
      obtain q r where accept: "sequence_accept (rx_calling s) (f + of_nat m) = (q, r)"
        by fastforce
      have "f + of_nat m \<in> set (rx_sent s)"
        using h k(1) by (auto simp: exchange_holds_def numbers_set)
      then have "exchange_step cseq s
          (s\<lparr>rx_calling := q, rx_acked := rx_acked s @ (if r = Acknowledge then [f + of_nat m] else [])\<rparr>)"
        using rseq_round_trip accept by (rule exchange_step.hear)
      moreover have "q = Some (f + of_nat m) \<and> r = Acknowledge"
        using accept h \<open>a = m\<close> k(1) saturating_next [of f "m - 1"] bound [of m] add_of_nat_inject [of f m "m - 1"]
        by (auto simp: exchange_holds_def sequence_accept_def split: if_splits)
      moreover have "exchange_holds f k k m
          (s\<lparr>rx_calling := Some (f + of_nat m), rx_acked := rx_acked s @ [f + of_nat m]\<rparr>)"
        using h k \<open>a = m\<close> by (auto simp: exchange_holds_def numbers_Suc)
      ultimately show ?thesis
        using that [OF r_into_rtranclp] by simp
    qed (use that h in blast)
    have "f + of_nat m \<in> set (rx_acked s1)" "nb_outstanding (rx_called s1) = Some (f + of_nat m)"
      "eq_ignore_ascii_case (ascii ''INVITE'') (ascii ''INVITE'')"
      using s1(2) k(1) by (auto simp: exchange_holds_def numbers_set) code_simp
    then have "exchange_step cseq s1 (s1\<lparr>rx_called := (rx_called s1)\<lparr>nb_outstanding := None\<rparr>,
        rx_matched := rx_matched s1 @ [f + of_nat m]\<rparr>)"
      using exchange_step.prack [OF _ rack_round_trip, of "f + of_nat m" s1 cseq]
      by (auto simp: acknowledge_def invite_rack_def)
    moreover have "rx_matched s1 @ [f + of_nat m] = rx_sent s"
      using s1(2,3) k(1) by (simp add: exchange_holds_def numbers_Suc)
    ultimately show ?thesis
      using s1(1) by (intro exI [of _ "s1\<lparr>rx_called := (rx_called s1)\<lparr>nb_outstanding := None\<rparr>,
        rx_matched := rx_matched s1 @ [f + of_nat m]\<rparr>"]) (auto intro: rtranclp.rtrancl_into_rtrancl)
  qed
  ultimately show ?thesis
    using h by (auto simp: exchange_holds_def numbers_take dest: arg_cong [of _ _ length] split: if_splits)
qed

definition rung_exchange :: reliable_exchange where
  "rung_exchange =
     \<lparr>rx_called = \<lparr>nb_next = 2, nb_outstanding = Some 1\<rparr>, rx_sent = [1], rx_calling = None, rx_acked = [], rx_matched = []\<rparr>"

lemma reliable_provisionals_once_witness:
  "\<exists>s'. (exchange_step 5)\<^sup>*\<^sup>* rung_exchange s' \<and> rx_matched s' = rx_sent rung_exchange"
proof -
  have "exchange_step 5 (exchange_start 1) rung_exchange"
    using exchange_step.ring [of "exchange_start 1" "\<lparr>nb_next = 2, nb_outstanding = Some 1\<rparr>" 1 5]
    by (simp add: allocate_def exchange_start_def starting_at_def MAX_FIRST_RSEQ_def saturating_add_word_def rung_exchange_def)
  then have "exchange_reachable 1 5 rung_exchange"
    by (rule exchange_reachable.step [OF exchange_reachable.start])
  then show ?thesis
    using reliable_provisionals_once [of 1 5 rung_exchange] by (simp add: rung_exchange_def)
qed

end
