(* ===== verification/Update_Offers.thy ===== *)
theory Update_Offers
  imports Session_Timer
begin

text \<open>
  UPDATE (\<open>sipx-sip/src/update.rs\<close>, RFC 3311): the bookkeeping of offers and answers a dialog keeps
  to decide whether an UPDATE may be sent or accepted. The two ends of one dialog, with their
  UPDATEs crossing on the way, never have an offer of each accepted at the same time, and every
  exchange leaves both as it found them.
\<close>

section \<open>The method\<close>

definition ALLOW :: bytes where
  "ALLOW = ascii ''INVITE, ACK, CANCEL, BYE, OPTIONS, UPDATE''"

definition RETRY_AFTER_MAX_SECS :: u64 where
  "RETRY_AFTER_MAX_SECS = 10"

definition peer_allows :: "headers \<Rightarrow> bool" where
  "peer_allows hs \<longleftrightarrow>
     list_ex (\<lambda>h. case token_list_decode ''Allow'' True (header_value h) of
         Inl _ \<Rightarrow> False
       | Inr allow \<Rightarrow> token_list_contains allow ''UPDATE'') (headers_get_all hs H_Allow)"

datatype refusal = InProgress | Glare | AnswerOwed

definition refusal_status :: "refusal \<Rightarrow> u16" where
  "refusal_status r = (case r of Glare \<Rightarrow> 491 | _ \<Rightarrow> 500)"

definition refusal_reason :: "refusal \<Rightarrow> bytes" where
  "refusal_reason r = (case r of Glare \<Rightarrow> ascii ''Request Pending'' | _ \<Rightarrow> ascii ''Server Internal Error'')"

definition refusal_retry_after :: "refusal \<Rightarrow> bool" where
  "refusal_retry_after r = (case r of Glare \<Rightarrow> False | _ \<Rightarrow> True)"

datatype reception = Reception_Accept | Reception_Refuse refusal

section \<open>The bookkeeping\<close>

datatype pending = WithOffer | Offerless

record negotiation =
  nt_offered :: bool
  nt_owed :: bool
  nt_in_progress :: "pending option"

definition nt_idle :: negotiation where
  "nt_idle = \<lparr>nt_offered = False, nt_owed = False, nt_in_progress = None\<rparr>"

definition nt_is_idle :: "negotiation \<Rightarrow> bool" where
  "nt_is_idle n \<longleftrightarrow> \<not> nt_offered n \<and> \<not> nt_owed n \<and> nt_in_progress n = None"

definition nt_offering :: negotiation where
  "nt_offering = nt_idle\<lparr>nt_offered := True\<rparr>"

definition nt_owing :: negotiation where
  "nt_owing = nt_idle\<lparr>nt_owed := True\<rparr>"

definition sent_offer :: "negotiation \<Rightarrow> negotiation" where
  "sent_offer n = n\<lparr>nt_offered := True\<rparr>"

definition received_answer :: "negotiation \<Rightarrow> negotiation" where
  "received_answer n = n\<lparr>nt_offered := False\<rparr>"

definition received_offer :: "negotiation \<Rightarrow> negotiation" where
  "received_offer n = n\<lparr>nt_owed := True\<rparr>"

definition sent_answer :: "negotiation \<Rightarrow> negotiation" where
  "sent_answer n = n\<lparr>nt_owed := False\<rparr>"

definition may_offer :: "negotiation \<Rightarrow> bool" where
  "may_offer n \<longleftrightarrow> \<not> nt_offered n \<and> \<not> nt_owed n"

definition nt_receive :: "negotiation \<Rightarrow> bool \<Rightarrow> negotiation \<times> reception" where
  "nt_receive n has_offer =
     (if nt_in_progress n \<noteq> None then (n, Reception_Refuse InProgress)
      else if has_offer then
        (if nt_offered n then (n, Reception_Refuse Glare)
         else if nt_owed n then (n, Reception_Refuse AnswerOwed)
         else (n\<lparr>nt_owed := True, nt_in_progress := Some WithOffer\<rparr>, Reception_Accept))
      else (n\<lparr>nt_in_progress := Some Offerless\<rparr>, Reception_Accept))"

definition answered :: "negotiation \<Rightarrow> negotiation" where
  "answered n =
     (let n = (if nt_in_progress n = Some WithOffer then n\<lparr>nt_owed := False\<rparr> else n) in
        n\<lparr>nt_in_progress := None\<rparr>)"

text \<open>
  A refusal changes nothing, and an UPDATE that was accepted is settled by its answer: whatever was
  owed before it, to an INVITE for one, is still owed.
\<close>

lemma refusal_unchanged: "nt_receive n has_offer = (n', Reception_Refuse r) \<Longrightarrow> n' = n"
  by (auto simp: nt_receive_def split: if_splits)

lemma accepted_then_answered: "nt_receive n has_offer = (n', Reception_Accept) \<Longrightarrow> answered n' = n"
  by (cases n) (auto simp: nt_receive_def answered_def split: if_splits)

section \<open>Two ends\<close>

text \<open>
  The UPDATE each end has under way: on its way, accepted and not yet answered, or answered with
  the response on its way back. An end sends its next one only when it has the final response to
  the one before (\<open>Call::update\<close>, \<open>refresh_session\<close> and \<open>update::offer\<close> in \<open>sipx-call\<close> wait for it).
\<close>

datatype under_way = Nothing | Travelling bool | Processing bool | Returning bool

record update_pair =
  up_negotiation :: "bool \<Rightarrow> negotiation"
  up_under_way :: "bool \<Rightarrow> under_way"

definition pair_start :: update_pair where
  "pair_start = \<lparr>up_negotiation = (\<lambda>_. nt_idle), up_under_way = (\<lambda>_. Nothing)\<rparr>"

inductive pair_step :: "update_pair \<Rightarrow> update_pair \<Rightarrow> bool" where
  send: "up_under_way p e = Nothing \<Longrightarrow> has_offer \<longrightarrow> may_offer (up_negotiation p e) \<Longrightarrow>
    pair_step p (p\<lparr>up_negotiation := (up_negotiation p)(e :=
        if has_offer then sent_offer (up_negotiation p e) else up_negotiation p e),
      up_under_way := (up_under_way p)(e := Travelling has_offer)\<rparr>)"
| accept: "up_under_way p e = Travelling has_offer \<Longrightarrow>
    nt_receive (up_negotiation p (\<not> e)) has_offer = (n, Reception_Accept) \<Longrightarrow>
    pair_step p (p\<lparr>up_negotiation := (up_negotiation p)(\<not> e := n),
      up_under_way := (up_under_way p)(e := Processing has_offer)\<rparr>)"
| refuse: "up_under_way p e = Travelling has_offer \<Longrightarrow>
    nt_receive (up_negotiation p (\<not> e)) has_offer = (n, Reception_Refuse r) \<Longrightarrow>
    pair_step p (p\<lparr>up_negotiation := (up_negotiation p)(\<not> e := n),
      up_under_way := (up_under_way p)(e := Returning has_offer)\<rparr>)"
| reply: "up_under_way p e = Processing has_offer \<Longrightarrow>
    pair_step p (p\<lparr>up_negotiation := (up_negotiation p)(\<not> e := answered (up_negotiation p (\<not> e))),
      up_under_way := (up_under_way p)(e := Returning has_offer)\<rparr>)"
| arrive: "up_under_way p e = Returning has_offer \<Longrightarrow>
    pair_step p (p\<lparr>up_negotiation := (up_negotiation p)(e :=
        if has_offer then received_answer (up_negotiation p e) else up_negotiation p e),
      up_under_way := (up_under_way p)(e := Nothing)\<rparr>)"

inductive pair_reachable :: "update_pair \<Rightarrow> bool" where
  start: "pair_reachable pair_start"
| step: "pair_reachable p \<Longrightarrow> pair_step p q \<Longrightarrow> pair_reachable q"

text \<open>What each end keeps is a function of what is under way, and no two accepted offers cross.\<close>

definition kept :: "under_way \<Rightarrow> under_way \<Rightarrow> negotiation" where
  "kept mine theirs =
     \<lparr>nt_offered = (mine \<in> {Travelling True, Processing True, Returning True}),
      nt_owed = (theirs = Processing True),
      nt_in_progress = (case theirs of Processing True \<Rightarrow> Some WithOffer | Processing False \<Rightarrow> Some Offerless | _ \<Rightarrow> None)\<rparr>"

definition pair_holds :: "update_pair \<Rightarrow> bool" where
  "pair_holds p \<longleftrightarrow> (\<forall>e. up_negotiation p e = kept (up_under_way p e) (up_under_way p (\<not> e)) \<and>
     (up_under_way p e = Processing True \<longrightarrow>
        up_under_way p (\<not> e) \<notin> {Travelling True, Processing True, Returning True}))"

lemma pair_holds_iff:
  "pair_holds p \<longleftrightarrow>
     up_negotiation p True = kept (up_under_way p True) (up_under_way p False) \<and>
     up_negotiation p False = kept (up_under_way p False) (up_under_way p True) \<and>
     (up_under_way p True = Processing True \<longrightarrow> up_under_way p False \<notin> {Travelling True, Processing True, Returning True}) \<and>
     (up_under_way p False = Processing True \<longrightarrow> up_under_way p True \<notin> {Travelling True, Processing True, Returning True})"
  by (auto simp: pair_holds_def all_bool_eq)

lemma pair_holds_step: "pair_step p q \<Longrightarrow> pair_holds p \<Longrightarrow> pair_holds q"
proof (induction rule: pair_step.induct)
  case (send p e has_offer)
  then show ?case
    by (cases e; cases has_offer) (auto simp: pair_holds_iff kept_def sent_offer_def may_offer_def split: under_way.splits bool.splits)
next
  case (accept p e has_offer n)
  then show ?case
    by (cases e; cases has_offer)
      (auto simp: pair_holds_iff kept_def nt_receive_def split: under_way.splits bool.splits if_splits)
next
  case (refuse p e has_offer n r)
  then show ?case
    by (cases e; cases has_offer)
      (auto simp: pair_holds_iff kept_def nt_receive_def split: under_way.splits bool.splits if_splits)
next
  case (reply p e has_offer)
  then show ?case
    by (cases e; cases has_offer)
      (auto simp: pair_holds_iff kept_def answered_def Let_def split: under_way.splits bool.splits)
next
  case (arrive p e has_offer)
  then show ?case
    by (cases e; cases has_offer)
      (auto simp: pair_holds_iff kept_def received_answer_def split: under_way.splits bool.splits)
qed

lemma pair_holds_reachable: "pair_reachable p \<Longrightarrow> pair_holds p"
proof (induction rule: pair_reachable.induct)
  case start
  show ?case
    by (simp add: pair_holds_def pair_start_def kept_def nt_idle_def)
qed (rule pair_holds_step)

section \<open>Every exchange ends\<close>

primrec distance :: "under_way \<Rightarrow> nat" where
  "distance Nothing = 0"
| "distance (Returning _) = 1"
| "distance (Processing _) = 2"
| "distance (Travelling _) = 3"

definition pair_distance :: "update_pair \<Rightarrow> nat" where
  "pair_distance p = distance (up_under_way p True) + distance (up_under_way p False)"

lemma pair_advances:
  assumes "up_under_way p e \<noteq> Nothing"
  shows "\<exists>q. pair_step p q \<and> pair_distance q < pair_distance p"
proof (cases "up_under_way p e")
  case (Travelling has_offer)
  obtain n r where n: "nt_receive (up_negotiation p (\<not> e)) has_offer = (n, r)"
    by fastforce
  show ?thesis
  proof (cases r)
    case Reception_Accept
    show ?thesis
      by (rule exI, rule conjI, rule pair_step.accept [OF Travelling n [unfolded Reception_Accept]])
        (cases e; use Travelling in \<open>simp add: pair_distance_def\<close>)
  next
    case (Reception_Refuse why)
    show ?thesis
      by (rule exI, rule conjI, rule pair_step.refuse [OF Travelling n [unfolded Reception_Refuse]])
        (cases e; use Travelling in \<open>simp add: pair_distance_def\<close>)
  qed
next
  case (Processing has_offer)
  show ?thesis
    by (rule exI, rule conjI, rule pair_step.reply [OF Processing]) (cases e; use Processing in \<open>simp add: pair_distance_def\<close>)
next
  case (Returning has_offer)
  show ?thesis
    by (rule exI, rule conjI, rule pair_step.arrive [OF Returning]) (cases e; use Returning in \<open>simp add: pair_distance_def\<close>)
qed (use assms in simp)

lemma pair_settles: "\<exists>q. pair_step\<^sup>*\<^sup>* p q \<and> up_under_way q = (\<lambda>_. Nothing)"
proof (induction "pair_distance p" arbitrary: p rule: less_induct)
  case less
  show ?case
  proof (cases "up_under_way p = (\<lambda>_. Nothing)")
    case False
    then obtain e where "up_under_way p e \<noteq> Nothing"
      by blast
    then obtain p' where p': "pair_step p p'" "pair_distance p' < pair_distance p"
      using pair_advances by blast
    then obtain q where "pair_step\<^sup>*\<^sup>* p' q" "up_under_way q = (\<lambda>_. Nothing)"
      using less by blast
    then show ?thesis
      using p'(1) by (meson converse_rtranclp_into_rtranclp)
  qed blast
qed

text \<open>What is promised of the two ends at any moment.\<close>

definition one_offer :: "update_pair \<Rightarrow> bool \<Rightarrow> bool" where
  "one_offer p e \<longleftrightarrow>
     (if nt_owed (up_negotiation p e)
      then nt_offered (up_negotiation p (\<not> e)) \<and> \<not> nt_offered (up_negotiation p e) \<and>
           \<not> nt_owed (up_negotiation p (\<not> e)) \<and> \<not> may_offer (up_negotiation p e)
      else True) \<and>
     (if up_under_way p e = Travelling True \<and> up_under_way p (\<not> e) = Travelling True
      then nt_receive (up_negotiation p e) True = (up_negotiation p e, Reception_Refuse Glare)
      else True) \<and>
     (if up_under_way p = (\<lambda>_. Nothing) then nt_is_idle (up_negotiation p e) else True)"

text \<open>
  C12: However the UPDATEs of two ends cross, at most one offer is accepted at a time: an end that
  owes an answer has no offer of its own open and may send none, and the other has its own. Offers
  that cross are both refused as glare. From every state the exchanges under way can be finished,
  and then neither end has anything open.
\<close>

theorem update_offers_settle:
  assumes "pair_reachable p"
  shows "one_offer p True \<and> one_offer p False \<and>
    (\<exists>q. pair_step\<^sup>*\<^sup>* p q \<and> nt_is_idle (up_negotiation q True) \<and> nt_is_idle (up_negotiation q False))"
proof -
  have holds: "one_offer q e" if "pair_reachable q" for q e
    using pair_holds_reachable [OF that]
    by (cases e) (auto simp: pair_holds_iff one_offer_def kept_def may_offer_def nt_receive_def nt_is_idle_def)
  obtain q where q: "pair_step\<^sup>*\<^sup>* p q" "up_under_way q = (\<lambda>_. Nothing)"
    using pair_settles by blast
  have "pair_reachable q"
    using q(1) assms by (induction rule: rtranclp_induct) (auto intro: pair_reachable.step)
  then have "nt_is_idle (up_negotiation q e)" for e
    using holds [of q e] q(2) by (simp add: one_offer_def)
  then show ?thesis
    using holds [OF assms] q(1) by blast
qed

definition crossing :: update_pair where
  "crossing = \<lparr>up_negotiation = (\<lambda>_. nt_offering), up_under_way = (\<lambda>_. Travelling True)\<rparr>"

lemma update_offers_settle_witness:
  "nt_receive nt_offering True = (nt_offering, Reception_Refuse Glare) \<and>
   (\<exists>q. pair_step\<^sup>*\<^sup>* crossing q \<and> nt_is_idle (up_negotiation q True) \<and> nt_is_idle (up_negotiation q False))"
proof -
  define one where "one = \<lparr>up_negotiation = (\<lambda>e. if e then nt_offering else nt_idle),
    up_under_way = (\<lambda>e. if e then Travelling True else Nothing)\<rparr>"
  have offer: "may_offer nt_idle" "sent_offer nt_idle = nt_offering"
    by (simp_all add: may_offer_def nt_idle_def sent_offer_def nt_offering_def)
  have "one = pair_start\<lparr>up_negotiation := (up_negotiation pair_start)(True := sent_offer (up_negotiation pair_start True)),
      up_under_way := (up_under_way pair_start)(True := Travelling True)\<rparr>"
    by (auto simp: one_def pair_start_def offer fun_eq_iff)
  then have "pair_step pair_start one"
    using pair_step.send [of pair_start True True] offer by (simp add: pair_start_def)
  moreover have "crossing = one\<lparr>up_negotiation := (up_negotiation one)(False := sent_offer (up_negotiation one False)),
      up_under_way := (up_under_way one)(False := Travelling True)\<rparr>"
    by (auto simp: one_def crossing_def offer fun_eq_iff)
  then have "pair_step one crossing"
    using pair_step.send [of one False True] offer by (simp add: one_def)
  ultimately have "pair_reachable crossing"
    using pair_reachable.intros by blast
  then show ?thesis
    using update_offers_settle [of crossing] by (simp add: one_offer_def crossing_def)
qed

end
