(* ===== verification/Sip_Auth.thy ===== *)
theory Sip_Auth
  imports Rust_Text Sip_Name
begin

text \<open>
  Digest authentication as a client does it (\<open>sipx-sip/src/auth.rs\<close>): reading a challenge,
  choosing among several, and answering one. Strings are their UTF-8 octets. The loops of the
  source run over an index into the text; here they run over what is left of it. The hash
  functions are those of third-party crates and so a parameter, about which nothing is assumed.
\<close>

section \<open>Algorithms\<close>

datatype algorithm = Md5 | Md5Sess | Sha256 | Sha256Sess | Sha512_256 | Sha512_256Sess

definition upper_byte :: "u8 \<Rightarrow> u8" where
  "upper_byte b = (if is_ascii_lowercase b then b - 32 else b)"

definition algorithm_parse :: "bytes \<Rightarrow> algorithm option" where
  "algorithm_parse raw =
     (let name = map upper_byte (str_trim raw) in
        if name = ascii ''MD5'' then Some Md5
        else if name = ascii ''MD5-SESS'' then Some Md5Sess
        else if name = ascii ''SHA-256'' then Some Sha256
        else if name = ascii ''SHA-256-SESS'' then Some Sha256Sess
        else if name = ascii ''SHA-512-256'' then Some Sha512_256
        else if name = ascii ''SHA-512-256-SESS'' then Some Sha512_256Sess
        else None)"

definition algorithm_str :: "algorithm \<Rightarrow> bytes" where
  "algorithm_str a =
     (case a of
        Md5 \<Rightarrow> ascii ''MD5''
      | Md5Sess \<Rightarrow> ascii ''MD5-sess''
      | Sha256 \<Rightarrow> ascii ''SHA-256''
      | Sha256Sess \<Rightarrow> ascii ''SHA-256-sess''
      | Sha512_256 \<Rightarrow> ascii ''SHA-512-256''
      | Sha512_256Sess \<Rightarrow> ascii ''SHA-512-256-sess'')"

definition is_session :: "algorithm \<Rightarrow> bool" where
  "is_session a \<longleftrightarrow> a = Md5Sess \<or> a = Sha256Sess \<or> a = Sha512_256Sess"

definition algorithm_strength :: "algorithm \<Rightarrow> nat" where
  "algorithm_strength a =
     (case a of Md5 \<Rightarrow> 1 | Md5Sess \<Rightarrow> 2 | Sha256 \<Rightarrow> 3 | Sha256Sess \<Rightarrow> 4 | Sha512_256 \<Rightarrow> 5 | Sha512_256Sess \<Rightarrow> 6)"

record hash_functions =
  hf_md5 :: "bytes \<Rightarrow> bytes"
  hf_sha256 :: "bytes \<Rightarrow> bytes"
  hf_sha512_256 :: "bytes \<Rightarrow> bytes"
  hf_hmac_sha256 :: "bytes \<Rightarrow> bytes \<Rightarrow> bytes"

text \<open>\<open>{byte:02x}\<close> for each octet.\<close>

definition hex_text :: "bytes \<Rightarrow> bytes" where
  "hex_text bs = concat (map (\<lambda>b. [hex_digit (unat b div 16), hex_digit (unat b mod 16)]) bs)"

definition digest_hash :: "hash_functions \<Rightarrow> algorithm \<Rightarrow> bytes \<Rightarrow> bytes" where
  "digest_hash h a input =
     hex_text
       ((case a of
           Md5 \<Rightarrow> hf_md5 h | Md5Sess \<Rightarrow> hf_md5 h
         | Sha256 \<Rightarrow> hf_sha256 h | Sha256Sess \<Rightarrow> hf_sha256 h
         | Sha512_256 \<Rightarrow> hf_sha512_256 h | Sha512_256Sess \<Rightarrow> hf_sha512_256 h) input)"

section \<open>Reading a challenge\<close>

record auth_challenge =
  ac_realm :: bytes
  ac_nonce :: bytes
  ac_opaque :: "bytes option"
  ac_algorithm :: algorithm
  ac_qop_auth :: bool
  ac_stale :: bool
  ac_from_proxy :: bool

definition strip_prefix_ignore_ascii_case :: "bytes \<Rightarrow> bytes \<Rightarrow> bytes option" where
  "strip_prefix_ignore_ascii_case text pre =
     (if length pre \<le> length text \<and> eq_ignore_ascii_case (take (length pre) text) pre
      then Some (drop (length pre) text) else None)"

text \<open>\<open>String::push(char::from(byte))\<close>: the octet is a code point, and one from 0x80 on takes two octets.\<close>

definition push_latin1 :: "u8 \<Rightarrow> bytes" where
  "push_latin1 b = (if b < 0x80 then [b] else [0xC0 OR drop_bit 6 b, 0x80 OR (b AND 0x3F)])"

text \<open>What is inside quotes, and what follows the closing one.\<close>

fun quoted_bytes :: "bytes \<Rightarrow> bytes \<times> bytes" where
  "quoted_bytes [] = ([], [])"
| "quoted_bytes (b # rest) =
     (if b = 92 then
        (case rest of
           [] \<Rightarrow> ([], [])
         | n # others \<Rightarrow> let (v, r) = quoted_bytes others in (push_latin1 n @ v, r))
      else if b = 34 then ([], rest)
      else let (v, r) = quoted_bytes rest in (push_latin1 b @ v, r))"

definition is_separator :: "u8 \<Rightarrow> bool" where
  "is_separator b \<longleftrightarrow> b = 32 \<or> b = 9 \<or> b = 44"

definition in_name :: "u8 \<Rightarrow> bool" where
  "in_name b \<longleftrightarrow> b \<noteq> 61 \<and> b \<noteq> 44"

lemma quoted_bytes_length: "length (snd (quoted_bytes bs)) \<le> length bs"
proof (induction bs rule: quoted_bytes.induct)
  case (2 b rest)
  consider "b = 92" "rest = []" | n others where "b = 92" "rest = n # others" | "b = 34" | "b \<noteq> 92" "b \<noteq> 34"
    by (cases rest) auto
  then show ?case
    using 2 by cases (simp_all add: split_beta Let_def)
qed simp

definition auth_param_value :: "bytes \<Rightarrow> bytes \<times> bytes" where
  "auth_param_value text =
     (case text of
        [] \<Rightarrow> ([], [])
      | b # rest \<Rightarrow>
          if b = 34 then quoted_bytes rest
          else (str_trim (takeWhile (\<lambda>c. c \<noteq> 44) text), dropWhile (\<lambda>c. c \<noteq> 44) text))"

lemma auth_param_value_length: "length (snd (auth_param_value text)) \<le> length text"
proof (cases "text")
  case (Cons b rest)
  then show ?thesis
    using quoted_bytes_length [of rest] length_dropWhile_le [of "\<lambda>c. c \<noteq> 44" "text"]
    by (simp add: auth_param_value_def del: dropWhile.simps)
qed (simp add: auth_param_value_def)

function auth_params :: "bytes \<Rightarrow> (bytes \<times> bytes) list" where
  "auth_params input =
     (let start = dropWhile is_separator input;
          name = str_trim (takeWhile in_name start) in
        case dropWhile in_name start of
          [] \<Rightarrow> if name \<noteq> [] then [(name, [])] else []
        | b # rest \<Rightarrow>
            if b = 61 then
              let (value, remaining) = auth_param_value (dropWhile is_ws rest) in
                (name, value) # auth_params remaining
            else (if name \<noteq> [] then [(name, [])] else []) @ auth_params (b # rest))"
  by pat_completeness auto
termination
proof (relation "measure length")
  fix input rest p r and b :: u8 and start name v
  assume start: "start = dropWhile is_separator input" "dropWhile in_name start = b # rest"
  have bound: "length (b # rest) \<le> length start" "length start \<le> length input"
    using length_dropWhile_le [of in_name start] length_dropWhile_le [of is_separator input] start by simp_all
  {
    assume "p = auth_param_value (dropWhile is_ws rest)" "(v, r) = p"
    then have "length r \<le> length rest"
      using auth_param_value_length [of "dropWhile is_ws rest"] length_dropWhile_le [of is_ws rest]
      by (metis order_trans snd_conv)
    then show "(r, input) \<in> measure length"
      using bound by simp
  }
  assume "b \<noteq> 61"
  moreover have "\<not> in_name b"
    using hd_dropWhile [of in_name start] start(2) by simp
  ultimately have "b = 44"
    by (simp add: in_name_def)
  moreover have "start = [] \<or> \<not> is_separator (hd start)"
    using hd_dropWhile [of is_separator input] start(1) by auto
  ultimately have "start \<noteq> b # rest"
    by (auto simp: is_separator_def)
  then have "takeWhile in_name start \<noteq> []"
    using start(2) takeWhile_dropWhile_id [of in_name start] by (metis append_Nil)
  then have "length (b # rest) < length start"
    using start(2) takeWhile_dropWhile_id [of in_name start] by (metis length_append length_greater_0_conv less_add_same_cancel2)
  then show "(b # rest, input) \<in> measure length"
    using bound by simp
qed simp

declare auth_params.simps [simp del]

record challenge_draft =
  cd_realm :: "bytes option"
  cd_nonce :: "bytes option"
  cd_opaque :: "bytes option"
  cd_algorithm :: algorithm
  cd_qop_auth :: bool
  cd_stale :: bool

definition challenge_param :: "challenge_draft \<Rightarrow> bytes \<times> bytes \<Rightarrow> challenge_draft option" where
  "challenge_param d p =
     (let name = to_ascii_lowercase (fst p); value = snd p in
        if name = ascii ''realm'' then Some (d\<lparr>cd_realm := Some value\<rparr>)
        else if name = ascii ''nonce'' then Some (d\<lparr>cd_nonce := Some value\<rparr>)
        else if name = ascii ''opaque'' then Some (d\<lparr>cd_opaque := Some value\<rparr>)
        else if name = ascii ''algorithm'' then
          map_option (\<lambda>a. d\<lparr>cd_algorithm := a\<rparr>) (algorithm_parse value)
        else if name = ascii ''qop'' then
          (if list_ex (\<lambda>option. eq_ignore_ascii_case (str_trim option) (ascii ''auth'')) (split_on 44 value)
           then Some (d\<lparr>cd_qop_auth := True\<rparr>) else None)
        else if name = ascii ''stale'' then
          Some (d\<lparr>cd_stale := eq_ignore_ascii_case (str_trim value) (ascii ''true'')\<rparr>)
        else Some d)"

fun challenge_params :: "challenge_draft \<Rightarrow> (bytes \<times> bytes) list \<Rightarrow> challenge_draft option" where
  "challenge_params d [] = Some d"
| "challenge_params d (p # ps) = Option.bind (challenge_param d p) (\<lambda>d. challenge_params d ps)"

definition challenge_parse :: "bytes \<Rightarrow> bool \<Rightarrow> auth_challenge option" where
  "challenge_parse value from_proxy =
     (if \<not> utf8_valid value then None
      else
        Option.bind (strip_prefix_ignore_ascii_case (str_trim value) (ascii ''Digest'')) (\<lambda>rest.
        Option.bind (challenge_params \<lparr>cd_realm = None, cd_nonce = None, cd_opaque = None, cd_algorithm = Md5,
            cd_qop_auth = False, cd_stale = False\<rparr> (auth_params rest)) (\<lambda>d.
        Option.bind (cd_realm d) (\<lambda>realm.
        map_option (\<lambda>nonce.
          \<lparr>ac_realm = realm, ac_nonce = nonce, ac_opaque = cd_opaque d, ac_algorithm = cd_algorithm d,
           ac_qop_auth = cd_qop_auth d, ac_stale = cd_stale d, ac_from_proxy = from_proxy\<rparr>) (cd_nonce d)))))"

definition response_header :: "auth_challenge \<Rightarrow> header_name" where
  "response_header c = (if ac_from_proxy c then H_ProxyAuthorization else H_Authorization)"

section \<open>Answering one\<close>

record auth_credentials =
  ad_username :: bytes
  ad_password :: bytes

text \<open>\<open>{:0width$x}\<close>.\<close>

definition padded_hex :: "nat \<Rightarrow> nat \<Rightarrow> bytes" where
  "padded_hex width n = (let digits = lower_hex n in replicate (width - length digits) 48 @ digits)"

definition auth_escape :: "bytes \<Rightarrow> bytes" where
  "auth_escape v =
     concat (map (\<lambda>b. if b = 34 then [92, 34] else [b])
       (concat (map (\<lambda>b. if b = 92 then [92, 92] else [b]) v)))"

definition colon :: "bytes list \<Rightarrow> bytes" where
  "colon parts = (case parts of [] \<Rightarrow> [] | p # ps \<Rightarrow> p @ concat (map (\<lambda>q. 58 # q) ps))"

definition ha1 :: "hash_functions \<Rightarrow> auth_challenge \<Rightarrow> auth_credentials \<Rightarrow> bytes \<Rightarrow> bytes" where
  "ha1 h c creds cnonce =
     (let a = digest_hash h (ac_algorithm c) (colon [ad_username creds, ac_realm c, ad_password creds]) in
        if is_session (ac_algorithm c) then digest_hash h (ac_algorithm c) (colon [a, ac_nonce c, cnonce]) else a)"

definition digest_response ::
  "hash_functions \<Rightarrow> auth_challenge \<Rightarrow> auth_credentials \<Rightarrow> bytes \<Rightarrow> bytes \<Rightarrow> u32 \<Rightarrow> bytes \<Rightarrow> bytes" where
  "digest_response h c creds method uri nonce_count cnonce =
     (let a1 = ha1 h c creds cnonce; a2 = digest_hash h (ac_algorithm c) (colon [method, uri]) in
        if ac_qop_auth c then
          digest_hash h (ac_algorithm c)
            (colon [a1, ac_nonce c, padded_hex 8 (unat nonce_count), cnonce, ascii ''auth'', a2])
        else digest_hash h (ac_algorithm c) (colon [a1, ac_nonce c, a2]))"

text \<open>A parameter with a quoted value.\<close>

definition quoted_param :: "string \<Rightarrow> bytes \<Rightarrow> bytes" where
  "quoted_param name v = ascii name @ [61, 34] @ v @ [34]"

definition respond ::
  "hash_functions \<Rightarrow> auth_challenge \<Rightarrow> auth_credentials \<Rightarrow> bytes \<Rightarrow> bytes \<Rightarrow> u32 \<Rightarrow> bytes \<Rightarrow> bytes" where
  "respond h c creds method uri nonce_count cnonce =
     ascii ''Digest '' @ quoted_param ''username'' (auth_escape (ad_username creds)) @ ascii '', '' @
     quoted_param ''realm'' (auth_escape (ac_realm c)) @ ascii '', '' @
     quoted_param ''nonce'' (auth_escape (ac_nonce c)) @ ascii '', '' @
     quoted_param ''uri'' (auth_escape uri) @ ascii '', '' @
     quoted_param ''response'' (digest_response h c creds method uri nonce_count cnonce) @
     (if ac_qop_auth c then
        ascii '', qop=auth, nc='' @ padded_hex 8 (unat nonce_count) @ ascii '', '' @
        quoted_param ''cnonce'' (auth_escape cnonce)
      else []) @
     ascii '', algorithm='' @ algorithm_str (ac_algorithm c) @
     (case ac_opaque c of None \<Rightarrow> [] | Some opaque \<Rightarrow> ascii '', '' @ quoted_param ''opaque'' (auth_escape opaque))"

section \<open>Choosing one\<close>

definition stronger_challenge :: "auth_challenge \<Rightarrow> auth_challenge \<Rightarrow> auth_challenge" where
  "stronger_challenge best candidate =
     (if algorithm_strength (ac_algorithm best) < algorithm_strength (ac_algorithm candidate) then candidate else best)"

definition strongest_challenge :: "auth_challenge list \<Rightarrow> auth_challenge option" where
  "strongest_challenge cs = (case cs of [] \<Rightarrow> None | c # rest \<Rightarrow> Some (foldl stronger_challenge c rest))"

definition topmost_supported :: "auth_challenge list \<Rightarrow> auth_challenge option" where
  "topmost_supported cs = get_at cs 0"

end
