(* ===== verification/Ip_Text.thy ===== *)
theory Ip_Text
  imports Rust_Text
begin

text \<open>
  IP addresses in text: what \<open>Display\<close> writes for an IPv4 or IPv6 address, \<open>str::parse\<close> reads back
  as the same address, with the longest run of zero segments compressed and the IPv4-mapped form
  included.
\<close>

section \<open>Reading digits\<close>

definition digits_value :: "nat \<Rightarrow> nat \<Rightarrow> bytes \<Rightarrow> nat" where
  "digits_value radix acc ds = foldl (\<lambda>a b. a * radix + the (to_digit radix b)) acc ds"

definition no_digit :: "nat \<Rightarrow> bytes \<Rightarrow> bool" where
  "no_digit radix rest \<longleftrightarrow> (case rest of [] \<Rightarrow> True | b # _ \<Rightarrow> to_digit radix b = None)"

lemma digits_value_ge: "1 \<le> radix \<Longrightarrow> acc \<le> digits_value radix acc ds"
proof (induction ds arbitrary: acc)
  case (Cons b ds)
  have "acc * 1 \<le> acc * radix"
    using Cons.prems by (rule mult_le_mono2)
  also have "\<dots> \<le> acc * radix + the (to_digit radix b)"
    by simp
  also have "\<dots> \<le> digits_value radix (acc * radix + the (to_digit radix b)) ds"
    using Cons by blast
  finally show ?case
    by (simp add: digits_value_def)
qed (simp add: digits_value_def)

lemma digits_value_snoc: "digits_value radix acc (ds @ [b]) = digits_value radix acc ds * radix + the (to_digit radix b)"
  by (simp add: digits_value_def)

lemma read_digits_all:
  assumes "\<And>b. b \<in> set ds \<Longrightarrow> to_digit radix b \<noteq> None" "no_digit radix rest" "1 \<le> radix"
    "digits_value radix acc ds < bound" "count + length ds \<le> maxd"
  shows "read_digits radix bound maxd count acc (ds @ rest) = Some (digits_value radix acc ds, count + length ds, rest)"
  using assms
proof (induction ds arbitrary: acc count)
  case Nil
  then show ?case
    by (cases rest) (auto simp: digits_value_def no_digit_def)
next
  case (Cons b ds)
  obtain d where d: "to_digit radix b = Some d"
    using Cons.prems(1) [of b] by auto
  have v: "digits_value radix acc (b # ds) = digits_value radix (acc * radix + d) ds"
    by (simp add: digits_value_def d)
  have "acc * radix + d < bound"
    using digits_value_ge [OF Cons.prems(3), of "acc * radix + d" ds] Cons.prems(4) v by simp
  then show ?case
    using Cons.IH [of "acc * radix + d" "count + 1"] Cons.prems d v by simp
qed

lemma read_number_all:
  assumes "\<And>b. b \<in> set ds \<Longrightarrow> to_digit radix b \<noteq> None" "no_digit radix rest" "1 \<le> radix"
    "digits_value radix 0 ds < bound" "length ds \<le> maxd" "ds \<noteq> []"
    "zeros \<or> hd ds \<noteq> 48 \<or> length ds = 1"
  shows "read_number radix bound maxd zeros (ds @ rest) = Some (digits_value radix 0 ds, rest)"
  using read_digits_all [OF assms(1-3), of ds 0 bound 0 maxd] assms(4-7)
  by (auto simp: read_number_def get_at_def nth_append hd_conv_nth)

lemma decimal_to_digit: "d < 10 \<Longrightarrow> to_digit 10 (48 + of_nat d) = Some d"
  using decimal_digit [of d] by (auto simp: to_digit_def hex_value_def is_ascii_digit_def)

lemma decimal_radix: "b \<in> set (decimal n) \<Longrightarrow> to_digit 10 b \<noteq> None"
proof (induction n rule: decimal.induct)
  case (1 n)
  show ?case
    using 1 decimal_to_digit [of n] decimal_to_digit [of "n mod 10"]
    by (subst (asm) (2) decimal.simps) (auto split: if_splits)
qed

lemma decimal_value: "digits_value 10 0 (decimal n) = n"
proof (induction n rule: decimal.induct)
  case (1 n)
  show ?case
  proof (cases "n < 10")
    case True
    then show ?thesis
      using decimal_to_digit [of n] by (subst decimal.simps) (simp add: digits_value_def)
  next
    case False
    then show ?thesis
      using 1 decimal_to_digit [of "n mod 10"] by (subst decimal.simps) (simp add: digits_value_snoc)
  qed
qed

lemma decimal_lengths: "n < 10 \<Longrightarrow> length (decimal n) = 1" "n < 100 \<Longrightarrow> length (decimal n) \<le> 2"
  "n < 1000 \<Longrightarrow> length (decimal n) \<le> 3"
proof -
  show one: "length (decimal n) = 1" if "n < 10" for n
    using that by (subst decimal.simps) simp
  show two: "length (decimal n) \<le> 2" if "n < 100" for n
    using that one [of "n div 10"] by (subst decimal.simps) auto
  show "length (decimal n) \<le> 3" if "n < 1000" for n
    using that two [of "n div 10"] by (subst decimal.simps) auto
qed

lemma decimal_first: "10 \<le> n \<Longrightarrow> hd (decimal n) \<noteq> 48"
proof (induction n rule: decimal.induct)
  case (1 n)
  have ne: "decimal (n div 10) \<noteq> []"
    by (rule decimal_digits(2))
  show ?case
  proof (cases "n div 10 < 10")
    case True
    then have "decimal (n div 10) = [48 + of_nat (n div 10)]"
      by (subst decimal.simps) simp
    moreover have "unat (of_nat (n div 10) :: u8) = n div 10"
      using True by (simp add: unat_of_nat)
    then have "(of_nat (n div 10) :: u8) \<noteq> 0"
      using 1(2) by (metis div_greater_zero_iff not_gr_zero unat_eq_zero zero_less_numeral)
    ultimately show ?thesis
      using 1(2) by (subst decimal.simps) auto
  next
    case False
    then show ?thesis
      using 1 ne by (subst decimal.simps) auto
  qed
qed

lemma hex_to_digit: "d < 16 \<Longrightarrow> to_digit 16 (hex_digit d) = Some d"
proof -
  assume "d < 16"
  then have "d \<in> set [0..<16]"
    by simp
  moreover have "list_all (\<lambda>d. to_digit 16 (hex_digit d) = Some d) [0..<16]"
    by code_simp
  ultimately show ?thesis
    by (auto simp only: list_all_iff)
qed

lemma hex_radix: "b \<in> set (lower_hex n) \<Longrightarrow> to_digit 16 b \<noteq> None"
proof (induction n rule: lower_hex.induct)
  case (1 n)
  show ?case
    using 1 hex_to_digit [of n] hex_to_digit [of "n mod 16"]
    by (subst (asm) (2) lower_hex.simps) (auto split: if_splits)
qed

lemma hex_value_of: "digits_value 16 0 (lower_hex n) = n"
proof (induction n rule: lower_hex.induct)
  case (1 n)
  show ?case
  proof (cases "n < 16")
    case True
    then show ?thesis
      using hex_to_digit [of n] by (subst lower_hex.simps) (simp add: digits_value_def)
  next
    case False
    then show ?thesis
      using 1 hex_to_digit [of "n mod 16"] by (subst lower_hex.simps) (simp add: digits_value_snoc)
  qed
qed

lemma hex_nonempty: "lower_hex n \<noteq> []"
  by (subst lower_hex.simps) simp

lemma hex_length: "n < 65536 \<Longrightarrow> length (lower_hex n) \<le> 4"
proof -
  have one: "length (lower_hex n) = 1" if "n < 16" for n
    using that by (subst lower_hex.simps) simp
  have two: "length (lower_hex n) \<le> 2" if "n < 256" for n
    using that one [of "n div 16"] by (subst lower_hex.simps) auto
  have three: "length (lower_hex n) \<le> 3" if "n < 4096" for n
    using that two [of "n div 16"] by (subst lower_hex.simps) auto
  show "length (lower_hex n) \<le> 4" if "n < 65536"
    using that three [of "n div 16"] by (subst lower_hex.simps) auto
qed

lemma separators [simp]: "to_digit 10 46 = None" "to_digit 16 58 = None" "to_digit 10 58 = None" "to_digit 16 46 = None"
  by code_simp+

section \<open>IPv4\<close>

lemma read_octet:
  assumes "no_digit 10 rest"
  shows "read_number 10 256 3 False (decimal (unat (o' :: u8)) @ rest) = Some (unat o', rest)"
proof -
  have lt: "unat o' < 256"
    using unat_bounds(1) [of o'] by simp
  have "hd (decimal (unat o')) \<noteq> 48 \<or> length (decimal (unat o')) = 1"
    using decimal_first [of "unat o'"] decimal_lengths(1) [of "unat o'"] by linarith
  then show ?thesis
    using read_number_all [of "decimal (unat o')" 10 rest 256 3 False] assms lt decimal_radix decimal_value
      decimal_lengths(3) [of "unat o'"] decimal_digits(2)
    by auto
qed

lemma read_octets_show:
  assumes "no_digit 10 rest" "os \<noteq> []"
  shows "read_octets i (length os) ((if i > 0 then [46] else []) @ show_ipv4 os @ rest) = Some (os, rest)"
  using assms
proof (induction os arbitrary: i rule: induct_list012)
  case (2 o')
  then show ?case
    using read_octet [of rest o'] by (auto simp: read_separator_def show_ipv4_def ascii_def)
next
  case (3 o1 o2 os)
  have dot: "no_digit 10 (46 # r)" for r
    by (simp add: no_digit_def)
  have shown: "show_ipv4 (o1 # o2 # os) = decimal (unat o1) @ 46 # show_ipv4 (o2 # os)"
    by (simp add: show_ipv4_def ascii_def)
  show ?case
    using 3(2) [of "Suc i"] 3(3) read_octet [OF dot, of o1] by (auto simp: read_separator_def shown)
qed simp

lemma read_show_ipv4:
  assumes "length os = 4" "no_digit 10 rest"
  shows "read_ipv4_addr (show_ipv4 os @ rest) = Some (os, rest)"
proof -
  have "os \<noteq> []"
    using assms(1) by auto
  then show ?thesis
    using read_octets_show [OF assms(2), of os 0] assms(1) by (simp add: read_ipv4_addr_def)
qed

section \<open>IPv6\<close>

lemma no_ipv4_text:
  assumes "46 \<notin> set input"
  shows "read_ipv4_addr input = None"
proof -
  have digits: "read_digits radix bound maxd c acc inp = Some (v, n, rest) \<Longrightarrow> set rest \<subseteq> set inp"
    for radix bound maxd c acc inp v n rest
    by (induction inp arbitrary: c acc) (auto split: option.splits if_splits)
  show ?thesis
  proof (cases "read_number 10 256 3 False input")
    case (Some p)
    obtain v rest where p: "p = (v, rest)"
      by (cases p)
    have "set rest \<subseteq> set input"
      using Some digits by (fastforce simp: p read_number_def split: option.splits if_splits)
    then have "read_octets (Suc 0) 3 rest = None"
      using assms by (auto simp: read_separator_def numeral_eq_Suc split: list.splits)
    then show ?thesis
      using Some by (simp add: read_ipv4_addr_def read_separator_def p numeral_eq_Suc)
  qed (simp add: read_ipv4_addr_def read_separator_def numeral_eq_Suc)
qed

lemma no_ipv4_start: "to_digit 10 c = None \<Longrightarrow> read_ipv4_addr (c # r) = None"
  by (simp add: read_ipv4_addr_def read_separator_def read_number_def numeral_eq_Suc)

lemma hex_no_dot: "46 \<notin> set (lower_hex n)" "58 \<notin> set (lower_hex n)"
  using hex_radix [of 46 n] hex_radix [of 58 n] by auto

lemma read_group:
  assumes "no_digit 16 rest"
  shows "read_number 16 65536 4 True (lower_hex (unat (s :: u16)) @ rest) = Some (unat s, rest)"
  using read_number_all [of "lower_hex (unat s)" 16 rest 65536 4 True] assms unat_bounds(2) [of s] hex_radix
    hex_value_of hex_length [of "unat s"] hex_nonempty
  by auto

lemma fmt_subslice_Cons:
  "fmt_subslice (s # t # segs) = lower_hex (unat s) @ 58 # fmt_subslice (t # segs)"
  by (simp add: fmt_subslice_def ascii_def)

lemma fmt_subslice_plain: "46 \<notin> set (fmt_subslice segs)"
proof (induction segs rule: induct_list012)
  case (3 s t segs)
  then show ?case
    using hex_no_dot by (simp add: fmt_subslice_Cons)
qed (use hex_no_dot in \<open>simp_all add: fmt_subslice_def\<close>)

text \<open>A group that does not start an IPv4 address is read as a segment.\<close>

lemma read_groups_step:
  assumes "no_digit 16 rest" "read_ipv4_addr (lower_hex (unat s) @ rest) = None \<or> n = 0"
  shows "read_groups (Suc n) i ((if i > 0 then [58] else []) @ lower_hex (unat s) @ rest) =
    (case read_groups n (i + 1) rest of (gs, v4, r) \<Rightarrow> (s # gs, v4, r))"
  using read_group [OF assms(1), of s] assms(2)
  by (auto simp: read_separator_def split: prod.split)

text \<open>Groups separated by single colons, up to text that is not another group.\<close>

definition stops :: "bytes \<Rightarrow> bool" where
  "stops rest \<longleftrightarrow> rest = [] \<or> (\<exists>r. rest = 58 # 58 # r)"

lemma read_groups_stop:
  assumes "stops rest" "46 \<notin> set rest"
  shows "read_groups n (Suc i) rest = ([], False, rest)"
proof (cases n)
  case (Suc m)
  have "46 \<notin> set (58 # r) \<Longrightarrow> read_ipv4_addr (58 # r) = None" for r
    by (rule no_ipv4_text)
  moreover have "read_number 16 65536 4 True (58 # r) = None" for r
    by (simp add: read_number_def)
  ultimately show ?thesis
    using Suc assms by (auto simp: stops_def read_separator_def)
qed simp

lemma read_groups_show:
  assumes "length segs \<le> n" "segs \<noteq> []" "stops rest" "46 \<notin> set rest"
  shows "read_groups n i ((if i > 0 then [58] else []) @ fmt_subslice segs @ rest) = (segs, False, rest)"
  using assms
proof (induction segs arbitrary: i n rule: induct_list012)
  case (2 s)
  then obtain m where n: "n = Suc m"
    by (cases n) auto
  have "no_digit 16 rest"
    using 2 by (auto simp: stops_def no_digit_def)
  moreover have "read_ipv4_addr (lower_hex (unat s) @ rest) = None"
    using 2 hex_no_dot by (intro no_ipv4_text) auto
  ultimately have "read_groups (Suc m) i ((if i > 0 then [58] else []) @ lower_hex (unat s) @ rest) = (s # [], False, rest)"
    using read_groups_step [of rest s m i] read_groups_stop [of rest m i] 2 by simp
  then show ?case
    by (simp add: n fmt_subslice_def)
next
  case (3 s t segs)
  then obtain m where n: "n = Suc m"
    by (cases n) auto
  define tail where "tail = 58 # fmt_subslice (t # segs) @ rest"
  have "no_digit 16 tail"
    by (simp add: tail_def no_digit_def)
  moreover have "read_ipv4_addr (lower_hex (unat s) @ tail) = None"
    using 3 hex_no_dot fmt_subslice_plain [of "t # segs"] by (intro no_ipv4_text) (auto simp: tail_def)
  moreover have "read_groups m (i + 1) tail = (t # segs, False, rest)"
    using 3(2) [of m "i + 1"] 3(3-) n by (simp add: tail_def)
  ultimately have "read_groups (Suc m) i ((if i > 0 then [58] else []) @ lower_hex (unat s) @ tail) = (s # t # segs, False, rest)"
    using read_groups_step [of tail s m i] by simp
  then show ?case
    by (simp add: n fmt_subslice_Cons tail_def)
qed simp

lemma zero_span_zeros:
  assumes "zero_span i longest current segs = (start, len)"
    "pre @ segs = all" "i = length pre"
    "snd longest \<le> i - fst longest" "fst longest \<le> i" "\<And>k. fst longest \<le> k \<Longrightarrow> k < fst longest + snd longest \<Longrightarrow> all ! k = 0"
    "snd current > 0 \<Longrightarrow> fst current + snd current = i"
    "\<And>k. fst current \<le> k \<Longrightarrow> k < fst current + snd current \<Longrightarrow> all ! k = 0"
  shows "start + len \<le> length all \<and> (\<forall>k. start \<le> k \<longrightarrow> k < start + len \<longrightarrow> all ! k = 0)"
  using assms
proof (induction segs arbitrary: i longest current pre)
  case Nil
  then show ?case
    by auto
next
  case (Cons s segs)
  have at: "all ! i = s"
    using Cons.prems(2,3) by (auto simp: nth_append)
  show ?case
  proof (cases "s = 0")
    case True
    define cur where "cur = ((if snd current = 0 then i else fst current), snd current + 1)"
    define lng where "lng = (if snd cur > snd longest then cur else longest)"
    have cur: "fst cur + snd cur = i + 1" "\<And>k. fst cur \<le> k \<Longrightarrow> k < fst cur + snd cur \<Longrightarrow> all ! k = 0"
    proof -
      show "fst cur + snd cur = i + 1"
        using Cons.prems(7) by (auto simp: cur_def)
      show "all ! k = 0" if "fst cur \<le> k" "k < fst cur + snd cur" for k
        using that Cons.prems(7) Cons.prems(8) [of k] at True
        by (cases "k = i"; cases "snd current = 0") (auto simp: cur_def)
    qed
    have "zero_span (i + 1) lng cur segs = (start, len)"
      using Cons.prems(1) True by (auto simp: cur_def lng_def Let_def split: if_splits)
    moreover have "snd lng \<le> i + 1 - fst lng" "fst lng \<le> i + 1"
      using cur(1) Cons.prems(4,5) by (auto simp: lng_def)
    moreover have "\<And>k. fst lng \<le> k \<Longrightarrow> k < fst lng + snd lng \<Longrightarrow> all ! k = 0"
      using cur(2) Cons.prems(6) by (auto simp: lng_def split: if_splits)
    ultimately show ?thesis
      using Cons.IH [of "i + 1" lng cur "pre @ [s]"] Cons.prems(2,3) cur by simp
  next
    case False
    then show ?thesis
      using Cons.IH [of "i + 1" longest "(0, 0)" "pre @ [s]"] Cons.prems by simp
  qed
qed

lemma zero_span_split:
  assumes "zero_span 0 (0, 0) (0, 0) segs = (start, len)"
  shows "segs = take start segs @ replicate len 0 @ drop (start + len) segs \<and> start + len \<le> length segs"
proof -
  have z: "start + len \<le> length segs" "\<And>k. start \<le> k \<Longrightarrow> k < start + len \<Longrightarrow> segs ! k = 0"
    using zero_span_zeros [OF assms, of "[]" segs] by auto
  have "take len (drop start segs) = replicate len 0"
    using z by (auto simp: list_eq_iff_nth_eq)
  moreover have "segs = take start segs @ take len (drop start segs) @ drop (start + len) segs"
    by (metis append_take_drop_id drop_drop add.commute)
  ultimately show ?thesis
    using z(1) by metis
qed

lemma read_groups_any:
  assumes "length segs \<le> n" "stops rest" "46 \<notin> set rest"
  shows "read_groups n 0 (fmt_subslice segs @ rest) = (segs, False, rest)"
proof (cases "segs = []")
  case True
  have "read_groups n 0 rest = ([], False, rest)"
  proof (cases n)
    case (Suc m)
    have "read_number 16 65536 4 True rest = None"
      using assms(2) by (auto simp: stops_def read_number_def)
    then show ?thesis
      using Suc no_ipv4_text [OF assms(3)] by (simp add: read_separator_def)
  qed simp
  then show ?thesis
    using True by (simp add: fmt_subslice_def)
next
  case False
  then show ?thesis
    using read_groups_show [OF assms(1) False assms(2,3), of 0] by simp
qed

lemma mapped_octets:
  assumes "length segs = 8"
  shows "\<exists>a b. drop 6 segs = [a, b :: u16]"
proof -
  have "length (drop 6 segs) = Suc (Suc 0)"
    using assms by simp
  then show ?thesis
    by (auto simp only: length_Suc_conv length_0_conv)
qed

lemma parse_show_ipv6:
  assumes "length segs = 8"
  shows "parse_ipv6 (show_ipv6 segs) = Some segs"
proof (cases "take 6 segs = [0, 0, 0, 0, 0, 0xFFFF]")
  case True
  obtain a b where ab: "drop 6 segs = [a, b]"
    using mapped_octets [OF assms] by blast
  define os where "os = to_be16 a @ to_be16 b"
  obtain o1 o2 o3 o4 where os: "os = [o1, o2, o3, o4]" "to_be16 a = [o1, o2]" "to_be16 b = [o3, o4]"
    by (auto simp: os_def to_be16_def)
  have "from_be16 o1 o2 = a" "from_be16 o3 o4 = b"
    using os(2,3) by (auto simp: to_be16_def from_be16_to_be16)
  have segs: "segs = [0, 0, 0, 0, 0, 0xFFFF, a, b]"
    using True ab append_take_drop_id [of 6 segs] by simp
  have shown: "show_ipv6 segs = 58 # 58 # [102, 102, 102, 102] @ 58 # show_ipv4 os"
    by (simp add: show_ipv6_def segs os_def ascii_def)
  show ?thesis
  proof -
    have "read_groups (Suc 7) 0 (58 # r) = ([], False, 58 # r)" for r
      using no_ipv4_start [of 58 r]
      by (simp add: read_separator_def read_number_def del: Suc_numeral)
    then have groups: "read_groups 8 0 (58 # r) = ([], False, 58 # r)" for r
      by simp
    have "lower_hex (unat (0xFFFF :: u16)) = [102, 102, 102, 102]"
      by (simp add: lower_hex.simps hex_digit_def)
    moreover have "read_ipv4_addr (102 # r) = None" for r
      by (rule no_ipv4_start) code_simp
    moreover have "no_digit 16 (58 # show_ipv4 os)"
      by (simp add: no_digit_def)
    ultimately have "read_groups 7 0 ([102, 102, 102, 102] @ 58 # show_ipv4 os) =
        (case read_groups 6 1 (58 # show_ipv4 os) of (gs, v4, r) \<Rightarrow> (0xFFFF # gs, v4, r))"
      using read_groups_step [of "58 # show_ipv4 os" "0xFFFF" 6 0] by simp
    moreover have "read_ipv4_addr (show_ipv4 os) = Some ([o1, o2, o3, o4], [])"
      using read_show_ipv4 [of os "[]"] os(1) by (simp add: no_digit_def)
    then have "read_groups (Suc 5) (Suc 0) (58 # show_ipv4 os) = ([a, b], True, [])"
      using \<open>from_be16 o1 o2 = a\<close> \<open>from_be16 o3 o4 = b\<close>
      by (simp add: read_separator_def del: Suc_numeral)
    ultimately have "read_groups 7 0 ([102, 102, 102, 102] @ 58 # show_ipv4 os) = ([0xFFFF, a, b], True, [])"
      by simp
    moreover have "replicate 5 (0 :: u16) = [0, 0, 0, 0, 0]"
      by (simp add: eval_nat_numeral)
    ultimately show ?thesis
      unfolding shown parse_ipv6_def read_ipv6_addr_def groups by (simp add: segs)
  qed
next
  case False
  obtain start len where span: "zero_span 0 (0, 0) (0, 0) segs = (start, len)"
    by fastforce
  note parts = zero_span_split [OF span]
  show ?thesis
  proof (cases "len > 1")
    case True
    define behind where "behind = drop (start + len) segs"
    have lens: "length (take start segs) = start" "length behind = 8 - (start + len)" "start + len \<le> 8"
      using parts assms by (auto simp: behind_def)
    have shown: "show_ipv6 segs = fmt_subslice (take start segs) @ 58 # 58 # fmt_subslice behind"
      using False True span by (simp add: show_ipv6_def behind_def ascii_def)
    have "stops (58 # 58 # fmt_subslice behind)" "46 \<notin> set (58 # 58 # fmt_subslice behind)"
      using fmt_subslice_plain [of behind] by (auto simp: stops_def)
    then have "read_groups 8 0 (show_ipv6 segs) = (take start segs, False, 58 # 58 # fmt_subslice behind)"
      unfolding shown using lens by (intro read_groups_any) auto
    moreover have "read_groups (7 - start) 0 (fmt_subslice behind) = (behind, False, [])"
      using read_groups_any [of behind "7 - start" "[]"] lens True by (simp add: stops_def)
    moreover have "start < 8" "8 - length behind - start = len"
      using lens True by auto
    ultimately show ?thesis
      using parts lens by (simp add: parse_ipv6_def read_ipv6_addr_def behind_def)
  next
    case short: False
    then have "show_ipv6 segs = fmt_subslice segs"
      using False span by (simp add: show_ipv6_def)
    then show ?thesis
      using read_groups_any [of segs 8 "[]"] assms by (simp add: parse_ipv6_def read_ipv6_addr_def stops_def)
  qed
qed

section \<open>Both families\<close>

definition ip_ok :: "ip_addr \<Rightarrow> bool" where
  "ip_ok ip = (case ip of V4 os \<Rightarrow> length os = 4 | V6 segs \<Rightarrow> length segs = 8)"

lemma read_octets_length: "read_octets i n input = Some (os, rest) \<Longrightarrow> length os = n"
  by (induction n arbitrary: i input os rest) (auto split: option.splits)

lemma read_groups_length: "read_groups n i input = (gs, v4, rest) \<Longrightarrow> length gs \<le> n"
proof (induction n arbitrary: i input gs v4 rest)
  case (Suc n)
  show ?case
  proof (cases "\<exists>a b c d r. (if n \<ge> 1 then read_separator (ch CHR '':'') i read_ipv4_addr input else None)
      = Some ([a, b, c, d], r)")
    case True
    then show ?thesis
      using Suc.prems by (auto split: if_splits)
  next
    case False
    then show ?thesis
      using Suc by (auto split: option.splits list.splits prod.splits if_splits)
  qed
qed simp

lemma parse_ip_ok:
  assumes "parse_ip text = Some ip"
  shows "ip_ok ip"
proof (cases "read_ipv4_addr text")
  case None
  then obtain segs where segs: "parse_ipv6 text = Some segs" "ip = V6 segs"
    using assms by (auto simp: parse_ip_def)
  obtain gs v4 rest where gs: "read_groups 8 0 text = (gs, v4, rest)"
    using prod_cases3 by blast
  have tail: "length (replicate (8 - length bs - length gs) 0) = 8 - length bs - length gs \<and> length bs \<le> 7 - length gs"
    if "read_groups (7 - length gs) 0 r = (bs, v, left)" for r bs v left
    using read_groups_length [OF that] by simp
  show ?thesis
    using segs read_groups_length [OF gs] tail
    by (fastforce simp: ip_ok_def parse_ipv6_def read_ipv6_addr_def gs split: if_splits list.splits prod.splits)
next
  case (Some p)
  then show ?thesis
    using assms read_octets_length
    by (fastforce simp: parse_ip_def ip_ok_def read_ipv4_addr_def split: if_splits prod.splits)
qed

lemma show_ipv6_not_ipv4:
  assumes "length segs = 8"
  shows "read_ipv4_addr (show_ipv6 segs) = None"
proof (cases "take 6 segs = [0, 0, 0, 0, 0, 0xFFFF]")
  case True
  then show ?thesis
    using no_ipv4_start [of 58] by (simp add: show_ipv6_def ascii_def)
next
  case False
  then show ?thesis
    using fmt_subslice_plain
    by (intro no_ipv4_text) (auto simp: show_ipv6_def ascii_def split: prod.split)
qed

lemma parse_show_ip: "ip_ok ip \<Longrightarrow> parse_ip (show_ip ip) = Some ip"
  using read_show_ipv4 [of _ "[]"] parse_show_ipv6 show_ipv6_not_ipv4
  by (cases ip) (auto simp: ip_ok_def show_ip_def parse_ip_def no_digit_def)

lemma lower_hex_plain: "b \<in> set (lower_hex n) \<Longrightarrow> 33 \<le> b \<and> b < 0x80 \<and> b \<noteq> 47"
  using hex_radix [of b n]
  by (auto simp: to_digit_def hex_value_def word_le_nat_alt word_less_nat_alt split: if_splits)

lemma show_ipv4_plain: "b \<in> set (show_ipv4 os) \<Longrightarrow> 33 \<le> b \<and> b < 0x80 \<and> b \<noteq> 47"
proof (induction os rule: induct_list012)
  case (3 o1 o2 os)
  then show ?case
    using decimal_plain [of b "unat o1"] by (auto simp: show_ipv4_def ascii_def)
qed (use decimal_plain in \<open>fastforce simp: show_ipv4_def\<close>)+

lemma fmt_subslice_chars: "b \<in> set (fmt_subslice segs) \<Longrightarrow> 33 \<le> b \<and> b < 0x80 \<and> b \<noteq> 47"
proof (induction segs rule: induct_list012)
  case (3 s t segs)
  then show ?case
    using lower_hex_plain [of b "unat s"] by (auto simp: fmt_subslice_Cons)
qed (use lower_hex_plain in \<open>fastforce simp: fmt_subslice_def\<close>)+

lemma show_ip_plain: "b \<in> set (show_ip ip) \<Longrightarrow> 33 \<le> b \<and> b < 0x80 \<and> b \<noteq> 47"
  using show_ipv4_plain [of b] fmt_subslice_chars [of b]
  by (cases ip) (auto simp: show_ip_def show_ipv6_def ascii_def split: if_splits prod.splits)

lemma parse_ip_Nil: "parse_ip [] = None"
proof -
  have v4: "read_ipv4_addr [] = None"
    by (rule no_ipv4_text) simp
  then have "read_groups (Suc 7) 0 [] = ([], False, [])"
    by (simp add: read_separator_def read_number_def del: Suc_numeral)
  then show ?thesis
    using v4 by (simp add: parse_ip_def parse_ipv6_def read_ipv6_addr_def)
qed

lemma show_ip_nonempty: "ip_ok ip \<Longrightarrow> show_ip ip \<noteq> []"
  using parse_show_ip [of ip] parse_ip_Nil by auto

end
