(* ===== verification/Sip_Challenge.thy ===== *)
theory Sip_Challenge
  imports Sip_Auth Sip_Message Sip_Timing Ip_Text
begin

text \<open>
  Digest authentication as a server does it (\<open>sipx-ua/src/challenge.rs\<close>): the nonces it issues and
  recognises by their authenticator, what it reads out of a request, the verdict, and the window
  that refuses a replay. The clock is an argument, as in the source's \<open>_at\<close> methods. The strings
  the parser works on are well-formed UTF-8, whose characters outside ASCII are no delimiter, so
  running over octets is running over characters.
\<close>

section \<open>What a request presents\<close>

definition DEFAULT_LIFETIME :: duration where
  "DEFAULT_LIFETIME = from_secs 300"

definition REPLAY_CAPACITY :: nat where
  "REPLAY_CAPACITY = 4096"

record presented =
  pr_username :: bytes
  pr_realm :: bytes
  pr_nonce :: bytes
  pr_uri :: bytes
  pr_response :: bytes
  pr_algorithm :: algorithm
  pr_nonce_count :: "u32 option"
  pr_cnonce :: "bytes option"
  pr_qop_auth :: bool

text \<open>\<open>from_str_radix(text, 16)\<close> of an unsigned integer below a bound.\<close>

definition from_hex :: "nat \<Rightarrow> bytes \<Rightarrow> nat option" where
  "from_hex bound text =
     (let digits = (case text of
            b # rest \<Rightarrow> (if b = 43 \<and> rest \<noteq> [] then rest else text)
          | [] \<Rightarrow> []) in
        if digits = [] \<or> list_ex (\<lambda>b. to_digit 16 b = None) digits then None
        else if digits_value 16 0 digits < bound then Some (digits_value 16 0 digits) else None)"

text \<open>What is inside quotes and what follows the closing one, if there is one.\<close>

fun quoted_chars :: "bytes \<Rightarrow> (bytes \<times> bytes) option" where
  "quoted_chars [] = None"
| "quoted_chars (b # rest) =
     (if b = 92 then
        (case rest of
           [] \<Rightarrow> None
         | n # others \<Rightarrow> map_option (\<lambda>(v, r). (n # v, r)) (quoted_chars others))
      else if b = 34 then Some ([], rest)
      else map_option (\<lambda>(v, r). (b # v, r)) (quoted_chars rest))"

lemma quoted_chars_length: "quoted_chars bs = Some (v, r) \<Longrightarrow> length r < length bs"
proof (induction bs arbitrary: v r rule: quoted_chars.induct)
  case (2 b rest)
  consider "b = 92" "rest = []" | n others where "b = 92" "rest = n # others" | "b = 34" | "b \<noteq> 92" "b \<noteq> 34"
    by (cases rest) auto
  then show ?case
    using 2 by cases (fastforce split: prod.splits)+
qed simp

definition presented_value :: "bytes \<Rightarrow> (bytes \<times> bytes) option" where
  "presented_value after =
     (case after of
        [] \<Rightarrow> Some ([], [])
      | b # rest \<Rightarrow>
          if b = 34 then quoted_chars rest
          else Some (str_trim (takeWhile (\<lambda>c. c \<noteq> 44) after), dropWhile (\<lambda>c. c \<noteq> 44) after))"

lemma presented_value_length: "presented_value after = Some (v, r) \<Longrightarrow> length r \<le> length after"
proof (cases after)
  case (Cons b rest)
  assume "presented_value after = Some (v, r)"
  then show ?thesis
    using quoted_chars_length [of rest v r] length_dropWhile_le [of "\<lambda>c. c \<noteq> 44" after] Cons
    by (auto simp: presented_value_def simp del: dropWhile.simps split: if_splits)
qed (simp add: presented_value_def)

function parameter :: "bytes \<Rightarrow> bytes \<Rightarrow> bytes option" where
  "parameter name input =
     (if input = [] then None
      else
        (case split_once 61 (dropWhile is_separator input) of
           None \<Rightarrow> None
         | Some (key, after) \<Rightarrow>
             (case presented_value (strip_white WHITE_SPACE after) of
                None \<Rightarrow> None
              | Some (value, remainder) \<Rightarrow>
                  if eq_ignore_ascii_case (str_trim key) name then Some value
                  else parameter name remainder)))"
  by pat_completeness auto
termination
proof (relation "measure (\<lambda>(name, input). length input)")
  fix name input key after v remainder :: bytes and p q
  assume p: "split_once 61 (dropWhile is_separator input) = Some p" "(key, after) = p"
    and q: "presented_value (strip_white WHITE_SPACE after) = Some q" "(v, remainder) = q"
  have "length after < length (dropWhile is_separator input)"
    using p by (auto simp: split_once_def position_Some_iff)
  moreover have "length remainder \<le> length after"
    using q presented_value_length strip_white_length [of WHITE_SPACE after] by (metis order_trans)
  ultimately show "((name, remainder), name, input) \<in> measure (\<lambda>(name, input). length input)"
    using length_dropWhile_le [of is_separator input] by simp
qed simp

declare parameter.simps [simp del]

definition presented_parse :: "bytes \<Rightarrow> presented option" where
  "presented_parse value =
     (let text = str_trim (utf8_lossy value) in
        if \<not> starts_with text (ascii ''Digest'') then None
        else
          let rest = strip_white WHITE_SPACE (drop 6 text);
              param = (\<lambda>name. parameter (ascii name) rest) in
            Option.bind (param ''username'') (\<lambda>username.
            Option.bind (param ''nonce'') (\<lambda>nonce.
            map_option (\<lambda>response.
              \<lparr>pr_username = username, pr_realm = unwrap_or (param ''realm'') [], pr_nonce = nonce,
               pr_uri = unwrap_or (param ''uri'') [], pr_response = response,
               pr_algorithm = unwrap_or (Option.bind (param ''algorithm'') algorithm_parse) Md5,
               pr_nonce_count = map_option of_nat (Option.bind (param ''nc'') (from_hex (2 ^ 32))),
               pr_cnonce = param ''cnonce'',
               pr_qop_auth = (param ''qop'' = Some (ascii ''auth''))\<rparr>) (param ''response''))))"

definition presented_from_request :: "request \<Rightarrow> bool \<Rightarrow> presented option" where
  "presented_from_request q proxy =
     Option.bind (headers_value (rq_headers q) (if proxy then H_ProxyAuthorization else H_Authorization))
       presented_parse"

section \<open>The server\<close>

datatype auth_reason = Mismatch | ForeignNonce | Replay | QopMismatch | Wrong_Algorithm

datatype verdict = Authenticated | Stale | Rejected auth_reason

record authenticator =
  au_realm :: bytes
  au_secret :: bytes
  au_lifetime :: duration
  au_algorithm :: algorithm
  au_seen :: "(bytes \<times> u32 \<times> bytes) list"

definition authenticator_new :: "bytes \<Rightarrow> bytes \<Rightarrow> authenticator" where
  "authenticator_new realm secret =
     \<lparr>au_realm = realm, au_secret = secret, au_lifetime = DEFAULT_LIFETIME, au_algorithm = Sha256, au_seen = []\<rparr>"

definition with_algorithm :: "algorithm \<Rightarrow> authenticator \<Rightarrow> authenticator" where
  "with_algorithm a s = s\<lparr>au_algorithm := a\<rparr>"

definition with_lifetime :: "duration \<Rightarrow> authenticator \<Rightarrow> authenticator" where
  "with_lifetime l s = s\<lparr>au_lifetime := l\<rparr>"

definition challenge_header :: "bool \<Rightarrow> header_name" where
  "challenge_header proxy = (if proxy then H_ProxyAuthenticate else H_WwwAuthenticate)"

definition nonce_mac :: "hash_functions \<Rightarrow> authenticator \<Rightarrow> bytes \<Rightarrow> bytes" where
  "nonce_mac h s issued = hex_text (hf_hmac_sha256 h (au_secret s) (issued @ [58] @ au_realm s))"

definition mint :: "hash_functions \<Rightarrow> authenticator \<Rightarrow> u64 \<Rightarrow> bytes" where
  "mint h s now = (let issued = padded_hex 16 (unat now) in issued @ [46] @ nonce_mac h s issued)"

definition challenge_at :: "hash_functions \<Rightarrow> authenticator \<Rightarrow> bool \<Rightarrow> u64 \<Rightarrow> bytes" where
  "challenge_at h s stale now =
     ascii ''Digest '' @ quoted_param ''realm'' (auth_escape (au_realm s)) @ ascii '', '' @
     quoted_param ''nonce'' (mint h s now) @ ascii '', '' @ quoted_param ''qop'' (ascii ''auth'') @
     ascii '', algorithm='' @ algorithm_str (au_algorithm s) @ (if stale then ascii '', stale=true'' else [])"

definition issued_at :: "hash_functions \<Rightarrow> authenticator \<Rightarrow> bytes \<Rightarrow> u64 option" where
  "issued_at h s nonce =
     (case split_once 46 nonce of
        None \<Rightarrow> None
      | Some (issued, mac) \<Rightarrow>
          if nonce_mac h s issued = mac then map_option of_nat (from_hex (2 ^ 64) issued) else None)"

definition as_challenge :: "authenticator \<Rightarrow> bytes \<Rightarrow> auth_challenge" where
  "as_challenge s nonce =
     \<lparr>ac_realm = au_realm s, ac_nonce = nonce, ac_opaque = None, ac_algorithm = au_algorithm s,
      ac_qop_auth = True, ac_stale = False, ac_from_proxy = False\<rparr>"

definition record_count :: "presented \<Rightarrow> authenticator \<Rightarrow> authenticator \<times> verdict" where
  "record_count p s =
     (let count = unwrap_or (pr_nonce_count p) 1; seen = au_seen s in
        case position (\<lambda>e. fst e = pr_nonce p) seen of
          Some k \<Rightarrow>
            let (_, known, response) = seen ! k in
              if known < count then (s\<lparr>au_seen := seen[k := (pr_nonce p, count, pr_response p)]\<rparr>, Authenticated)
              else if count = known \<and> response = pr_response p then (s, Authenticated)
              else (s, Rejected Replay)
        | None \<Rightarrow>
            (s\<lparr>au_seen := (if REPLAY_CAPACITY \<le> length seen then tl seen else seen) @
                [(pr_nonce p, count, pr_response p)]\<rparr>, Authenticated))"

definition verify_at ::
  "hash_functions \<Rightarrow> presented \<Rightarrow> bytes \<Rightarrow> bytes \<Rightarrow> u64 \<Rightarrow> authenticator \<Rightarrow> authenticator \<times> verdict" where
  "verify_at h p method password now s =
     (if pr_algorithm p \<noteq> au_algorithm s then (s, Rejected Wrong_Algorithm)
      else if \<not> pr_qop_auth p \<or> pr_nonce_count p = None \<or> pr_cnonce p = None then (s, Rejected QopMismatch)
      else
        (case issued_at h s (pr_nonce p) of
           None \<Rightarrow> (s, Rejected ForeignNonce)
         | Some issued \<Rightarrow>
             let expected = respond h (as_challenge s (pr_nonce p))
                   \<lparr>ad_username = pr_username p, ad_password = password\<rparr> method (pr_uri p)
                   (unwrap_or (pr_nonce_count p) 1) (unwrap_or (pr_cnonce p) []) in
               (case parameter (ascii ''response'') expected of
                  None \<Rightarrow> (s, Rejected Mismatch)
                | Some computed \<Rightarrow>
                    if computed \<noteq> pr_response p then (s, Rejected Mismatch)
                    else if au_lifetime s div 1000000000 < unat (saturating_sub_word now issued) then (s, Stale)
                    else record_count p s)))"

end
