(* ===== verification/Sip_Digest.thy ===== *)
theory Sip_Digest
  imports Sip_Challenge
begin

text \<open>
  Both ends of digest authentication together. The parameters of a header are written by one end and
  read by the other with a reader of its own, so the laws here are about a list of fields and how
  each reader reads it: what the client makes of a challenge, and the server of an answer. The
  properties: a right answer is accepted, no wrong one is, and no credential is used twice.
\<close>

section \<open>Text\<close>

lemma high_octet: "is_continuation c \<Longrightarrow> 0x80 \<le> c" "second_ok b c \<Longrightarrow> 0x80 \<le> c"
  by (auto simp: is_continuation_def second_ok_def word_le_nat_alt split: if_splits)

text \<open>The first character, whatever follows it.\<close>

lemma utf8_step_chunk:
  assumes "utf8_step b rest = Inr n"
  obtains c tail where "rest = c @ tail" "length c = n - 1" "\<forall>x \<in> set c. 0x80 \<le> x" "c \<noteq> [] \<Longrightarrow> 0x80 \<le> b"
    "\<And>others. utf8_step b (c @ others) = Inr n"
proof -
  have some: "\<exists>x xs. ys = x # xs \<and> P x" if "case get_at ys 0 of None \<Rightarrow> False | Some y \<Rightarrow> P y" for P and ys :: bytes
    using that by (cases ys) (auto simp: get_at_def)
  have tail: "get_at (x # ys) 1 = get_at ys 0" "get_at (x # ys) 2 = get_at ys 1" for x :: u8 and ys
    by (simp_all add: get_at_def numeral_2_eq_2)
  consider (one) "b < 0x80" | (two) "\<not> b < 0x80" "0xC2 \<le> b \<and> b \<le> 0xDF"
    | (three) "\<not> b < 0x80" "\<not> (0xC2 \<le> b \<and> b \<le> 0xDF)" "0xE0 \<le> b \<and> b \<le> 0xEF"
    | (four) "\<not> b < 0x80" "\<not> (0xC2 \<le> b \<and> b \<le> 0xDF)" "\<not> (0xE0 \<le> b \<and> b \<le> 0xEF)" "0xF0 \<le> b \<and> b \<le> 0xF4"
    | (none) "\<not> b < 0x80" "\<not> (0xC2 \<le> b \<and> b \<le> 0xDF)" "\<not> (0xE0 \<le> b \<and> b \<le> 0xEF)" "\<not> (0xF0 \<le> b \<and> b \<le> 0xF4)"
    by blast
  then show thesis
  proof cases
    case one
    with assms that [of "[]" rest] show thesis
      by (simp add: utf8_step_def Let_def)
  next
    case two
    with assms have c: "case get_at rest 0 of None \<Rightarrow> False | Some y \<Rightarrow> is_continuation y" "n = 2"
      by (simp_all add: utf8_step_def Let_def split: if_splits)
    from some [OF c(1)] obtain x xs where "rest = x # xs" "is_continuation x"
      by blast
    with two c(2) that [of "[x]" xs] show thesis
      by (simp add: utf8_step_def Let_def get_at_def high_octet)
  next
    case three
    with assms have c: "case get_at rest 0 of None \<Rightarrow> False | Some y \<Rightarrow> second_ok b y"
      "case get_at rest 1 of None \<Rightarrow> False | Some y \<Rightarrow> is_continuation y" "n = 3"
      by (simp_all add: utf8_step_def Let_def split: if_splits)
    from some [OF c(1)] obtain x xs where x: "rest = x # xs" "second_ok b x"
      by blast
    from c(2) obtain y ys where y: "xs = y # ys" "is_continuation y"
      unfolding x(1) tail by (meson some)
    with x three c(3) that [of "[x, y]" ys] show thesis
      by (simp add: utf8_step_def Let_def get_at_def high_octet)
  next
    case four
    with assms have c: "case get_at rest 0 of None \<Rightarrow> False | Some y \<Rightarrow> second_ok b y"
      "case get_at rest 1 of None \<Rightarrow> False | Some y \<Rightarrow> is_continuation y"
      "case get_at rest 2 of None \<Rightarrow> False | Some y \<Rightarrow> is_continuation y" "n = 4"
      by (simp_all add: utf8_step_def Let_def split: if_splits)
    from some [OF c(1)] obtain x xs where x: "rest = x # xs" "second_ok b x"
      by blast
    from c(2) obtain y ys where y: "xs = y # ys" "is_continuation y"
      unfolding x(1) tail by (meson some)
    from c(3) obtain z zs where z: "ys = z # zs" "is_continuation z"
      unfolding x(1) y(1) tail by (meson some)
    with x y four c(4) that [of "[x, y, z]" zs] show thesis
      by (simp add: utf8_step_def Let_def get_at_def high_octet numeral_2_eq_2)
  next
    case none
    with assms show thesis
      by (simp add: utf8_step_def)
  qed
qed

lemma utf8_valid_append: "utf8_valid a \<Longrightarrow> utf8_valid (a @ c) \<longleftrightarrow> utf8_valid c"
proof (induction a rule: utf8_valid.induct)
  case (2 b rest)
  then obtain n where n: "utf8_step b rest = Inr n" "utf8_valid (drop (n - 1) rest)"
    by (auto split: sum.splits)
  obtain d tail where d: "rest = d @ tail" "length d = n - 1" "\<And>others. utf8_step b (d @ others) = Inr n"
    using n(1) by (elim utf8_step_chunk) blast
  have "utf8_valid ((b # rest) @ c) \<longleftrightarrow> utf8_valid (tail @ c)"
    using d by simp
  also have "\<dots> \<longleftrightarrow> utf8_valid c"
    using 2(1) [OF n(1)] n(2) d by simp
  finally show ?case .
qed simp

lemma utf8_lossy_valid: "utf8_valid bs \<Longrightarrow> utf8_lossy bs = bs"
proof (induction bs rule: utf8_valid.induct)
  case (2 b rest)
  then obtain n where "utf8_step b rest = Inr n" "utf8_valid (drop (n - 1) rest)"
    by (auto split: sum.splits)
  with 2(1) [OF this(1)] show ?case
    by simp
qed simp

lemma utf8_valid_ascii_text: "ascii_text bs \<Longrightarrow> utf8_valid bs"
  by (simp add: utf8_valid_ascii ascii_text_def)

section \<open>Quoting\<close>

lemma auth_escape_simps [simp]:
  "auth_escape [] = []"
  "auth_escape (b # v) = (if b = 92 then [92, 92] else if b = 34 then [92, 34] else [b]) @ auth_escape v"
  by (simp_all add: auth_escape_def)

lemma auth_escape_append: "auth_escape (a @ b) = auth_escape a @ auth_escape b"
  by (simp add: auth_escape_def)

lemma auth_escape_plain: "\<forall>b \<in> set v. b \<noteq> 34 \<and> b \<noteq> 92 \<Longrightarrow> auth_escape v = v"
  by (induction v) auto

lemma auth_escape_ascii: "ascii_text v \<Longrightarrow> ascii_text (auth_escape v)"
  by (induction v) auto

lemma auth_escape_valid: "utf8_valid v \<Longrightarrow> utf8_valid (auth_escape v)"
proof (induction v rule: utf8_valid.induct)
  case (2 b rest)
  then obtain n where n: "utf8_step b rest = Inr n" "utf8_valid (drop (n - 1) rest)"
    by (auto split: sum.splits)
  obtain d tail where d: "rest = d @ tail" "length d = n - 1" "\<forall>x \<in> set d. 0x80 \<le> x" "d \<noteq> [] \<Longrightarrow> 0x80 \<le> b"
    "\<And>others. utf8_step b (d @ others) = Inr n"
    using n(1) by (elim utf8_step_chunk) blast
  have tail: "utf8_valid (auth_escape tail)"
    using 2(1) [OF n(1)] n(2) d by simp
  have "auth_escape d = d"
    using d(3) by (intro auth_escape_plain) force
  then have "auth_escape (b # rest) = (if b = 92 then [92, 92] else if b = 34 then [92, 34] else [b]) @ d @ auth_escape tail"
    by (simp add: d(1) auth_escape_append)
  also have "utf8_valid \<dots>"
  proof (cases "b = 92 \<or> b = 34")
    case True
    then have "d = []"
      using d(4) by (cases "d = []") auto
    then show ?thesis
      using True tail by (auto simp: utf8_step_def Let_def)
  next
    case False
    then show ?thesis
      using d tail by simp
  qed
  finally show ?case .
qed simp

lemma quoted_chars_escape: "quoted_chars (auth_escape v @ 34 # rest) = Some (v, rest)"
  by (induction v) auto

lemma quoted_bytes_escape: "ascii_text v \<Longrightarrow> quoted_bytes (auth_escape v @ 34 # rest) = (v, rest)"
  by (induction v) (auto simp: push_latin1_def)


section \<open>Numbers\<close>

text \<open>The octets hexadecimal digits are: no delimiter among them.\<close>

definition hex_octets :: "bytes \<Rightarrow> bool" where
  "hex_octets bs \<longleftrightarrow> (\<forall>b \<in> set bs. to_digit 16 b \<noteq> None)"

lemma hex_octet_plain:
  assumes "to_digit 16 b \<noteq> None"
  shows "33 \<le> b" "b < 0x80" "b \<notin> {34, 43, 44, 46, 61, 92}"
proof -
  have "list_all (\<lambda>b :: u8. to_digit 16 b = None) [34, 43, 44, 46, 61, 92]"
    by code_simp
  then show "b \<notin> {34, 43, 44, 46, 61, 92}"
    using assms by auto
qed (use assms in \<open>auto simp: to_digit_def hex_value_def word_le_nat_alt word_less_nat_alt split: if_splits\<close>)

lemma hex_octets_append [simp]: "hex_octets (a @ b) \<longleftrightarrow> hex_octets a \<and> hex_octets b"
  by (auto simp: hex_octets_def)

lemma hex_octets_text: "hex_octets (hex_text bs)"
proof -
  have "unat b div 16 < 16" for b :: u8
    using unsigned_less [of b] by (intro less_mult_imp_div_less) simp
  then have "to_digit 16 (hex_digit (unat b div 16)) \<noteq> None" "to_digit 16 (hex_digit (unat b mod 16)) \<noteq> None" for b :: u8
    by (simp_all add: hex_to_digit)
  then show ?thesis
    by (auto simp: hex_octets_def hex_text_def)
qed

lemma hex_octets_padded: "hex_octets (padded_hex w n)"
proof -
  have "to_digit 16 48 = Some 0"
    by code_simp
  then show ?thesis
    using hex_radix by (fastforce simp: hex_octets_def padded_hex_def Let_def)
qed

lemma from_hex_padded: "n < bound \<Longrightarrow> from_hex bound (padded_hex w n) = Some n"
proof -
  assume n: "n < bound"
  have zero: "to_digit 16 48 = Some 0"
    by code_simp
  have "digits_value 16 0 (replicate k 48 @ ds) = digits_value 16 0 ds" for k ds
    using zero by (induction k) (simp_all add: digits_value_def)
  then have v: "digits_value 16 0 (padded_hex w n) = n"
    by (simp add: padded_hex_def Let_def hex_value_of)
  have ne: "padded_hex w n \<noteq> []"
    by (simp add: padded_hex_def Let_def hex_nonempty)
  have "43 \<notin> set (padded_hex w n)"
    using hex_octets_padded [of w n] hex_octet_plain(3) by (fastforce simp: hex_octets_def)
  then have same: "(case padded_hex w n of b # rest \<Rightarrow> if b = 43 \<and> rest \<noteq> [] then rest else padded_hex w n | [] \<Rightarrow> []) = padded_hex w n"
    using ne by (cases "padded_hex w n") auto
  have "\<not> list_ex (\<lambda>b. to_digit 16 b = None) (padded_hex w n)"
    using hex_octets_padded [of w n] by (auto simp: hex_octets_def list_ex_iff)
  with n ne v same show ?thesis
    unfolding from_hex_def Let_def same by simp
qed

section \<open>Fields\<close>

text \<open>A parameter as the writers write it: its name, whether it is quoted, and its value.\<close>

type_synonym auth_field = "string \<times> bool \<times> bytes"

definition field_text :: "auth_field \<Rightarrow> bytes" where
  "field_text f = (case f of (k, q, v) \<Rightarrow> ascii k @ [61] @ (if q then [34] @ auth_escape v @ [34] else v))"

definition fields_text :: "auth_field list \<Rightarrow> bytes" where
  "fields_text fs = concat (map (\<lambda>f. [44, 32] @ field_text f) fs)"

definition name_ok :: "string \<Rightarrow> bool" where
  "name_ok k \<longleftrightarrow> k \<noteq> [] \<and> \<not> is_separator (hd (ascii k)) \<and> list_all in_name (ascii k) \<and> str_trim (ascii k) = ascii k"

definition token_value :: "bytes \<Rightarrow> bool" where
  "token_value v \<longleftrightarrow> v \<noteq> [] \<and> (\<forall>b \<in> set v. 33 \<le> b \<and> b < 0x80 \<and> b \<noteq> 34 \<and> b \<noteq> 44)"

definition field_ok :: "auth_field \<Rightarrow> bool" where
  "field_ok f \<longleftrightarrow> (case f of (k, q, v) \<Rightarrow> name_ok k \<and> (q \<or> token_value v))"

lemma fields_text_simps [simp]:
  "fields_text [] = []" "fields_text (f # fs) = [44, 32] @ field_text f @ fields_text fs"
  by (simp_all add: fields_text_def)

lemma token_trim: "token_value v \<Longrightarrow> str_trim v = v"
  by (rule str_trim_visible) (auto simp: token_value_def)

lemma no_white: "33 \<le> b \<Longrightarrow> b < 0x80 \<Longrightarrow> strip_white WHITE_SPACE (b # r) = b # r"
proof (rule strip_white_first)
  fix w
  assume "33 \<le> b" "b < 0x80" "w \<in> set WHITE_SPACE"
  moreover have "list_all (\<lambda>w. hd w < 33 \<or> hd w \<ge> 0x80) WHITE_SPACE"
    by code_simp
  ultimately show "w = [] \<or> hd w \<noteq> b"
    by (auto simp: list_all_iff)
qed

text \<open>What follows a value: nothing, or a separator.\<close>

definition at_end :: "bytes \<Rightarrow> bool" where
  "at_end r \<longleftrightarrow> (case r of [] \<Rightarrow> True | b # _ \<Rightarrow> b = 44)"

lemma at_end_fields: "at_end (fields_text fs)"
  by (cases fs) (simp_all add: at_end_def)

lemma until_end:
  assumes "token_value v" "at_end r"
  shows "takeWhile (\<lambda>c. c \<noteq> 44) (v @ r) = v" "dropWhile (\<lambda>c. c \<noteq> 44) (v @ r) = r"
  using assms by (cases r; simp add: token_value_def at_end_def takeWhile_append dropWhile_append)+

lemma presented_value_field:
  assumes "q \<or> token_value v" "at_end r"
  shows "presented_value (strip_white WHITE_SPACE ((if q then [34] @ auth_escape v @ [34] else v) @ r)) = Some (v, r)"
proof (cases q)
  case True
  then show ?thesis
    by (simp add: no_white presented_value_def quoted_chars_escape)
next
  case False
  then have v: "token_value v"
    using assms(1) by simp
  then obtain b t where b: "v = b # t" "33 \<le> b" "b < 0x80" "b \<noteq> 34"
    by (cases v) (auto simp: token_value_def)
  show ?thesis
    using False b until_end [OF v assms(2)] token_trim [OF v] by (simp add: no_white presented_value_def)
qed

lemma parameter_field:
  assumes "field_ok (k, q, v)" "at_end r" "list_all is_separator seps"
  shows "parameter name (seps @ field_text (k, q, v) @ r) =
    (if eq_ignore_ascii_case (ascii k) name then Some v else parameter name r)"
proof -
  have k: "ascii k \<noteq> []" "\<not> is_separator (hd (ascii k))" "list_all (\<lambda>b. b \<noteq> 61) (ascii k)" "str_trim (ascii k) = ascii k"
    using assms(1) by (auto simp: field_ok_def name_ok_def ascii_def in_name_def list_all_iff)
  have start: "dropWhile is_separator (seps @ field_text (k, q, v) @ r) = field_text (k, q, v) @ r"
    using k(1,2) assms(3) by (cases "ascii k") (auto simp: field_text_def dropWhile_append list_all_iff)
  have "position (\<lambda>b. b = 61) (ascii k @ 61 # x) = Some (length (ascii k))" for x
    using k(3) by (intro position_skip) (simp_all add: list_all_iff)
  then have split: "split_once 61 (field_text (k, q, v) @ r) =
      Some (ascii k, (if q then [34] @ auth_escape v @ [34] else v) @ r)"
    by (simp add: split_once_def field_text_def)
  have ne: "seps @ field_text (k, q, v) @ r \<noteq> []"
    by (simp add: field_text_def)
  show ?thesis
    using presented_value_field [of q v r] assms(1,2) ne
    by (subst parameter.simps) (simp only: if_not_P [OF ne] if_False start split field_ok_def k(4) option.case prod.case)
qed

text \<open>The server finds the first field of a name.\<close>

lemma parameter_fields:
  assumes "list_all field_ok (f # fs)" "list_all is_separator seps"
  shows "parameter name (seps @ field_text f @ fields_text fs) =
    map_option (\<lambda>(k, q, v). v) (find (\<lambda>(k, q, v). eq_ignore_ascii_case (ascii k) name) (f # fs))"
  using assms
proof (induction fs arbitrary: f seps)
  case Nil
  obtain k q v where "f = (k, q, v)"
    by (cases f)
  then show ?case
    using parameter_field [of k q v "[]" seps name] Nil by (simp add: at_end_def parameter.simps)
next
  case (Cons g fs)
  obtain k q v where f: "f = (k, q, v)"
    by (cases f)
  have seps: "list_all is_separator [44, 32]"
    by (simp add: is_separator_def)
  show ?case
    using parameter_field [of k q v "fields_text (g # fs)" seps name] Cons.IH [of g "[44, 32]"] Cons.prems seps
    by (simp add: f at_end_fields del: fields_text_simps) (simp add: f)
qed

text \<open>The client reads every field, in order, when what is quoted is ASCII.\<close>

lemma auth_params_field:
  assumes "field_ok (k, q, v)" "q \<longrightarrow> ascii_text v" "at_end r" "list_all is_separator seps"
  shows "auth_params (seps @ field_text (k, q, v) @ r) = (ascii k, v) # auth_params r"
proof -
  have k: "ascii k \<noteq> []" "\<not> is_separator (hd (ascii k))" "list_all in_name (ascii k)" "str_trim (ascii k) = ascii k"
    using assms(1) by (auto simp: field_ok_def name_ok_def ascii_def)
  let ?tail = "(if q then [34] @ auth_escape v @ [34] else v) @ r"
  have start: "dropWhile is_separator (seps @ field_text (k, q, v) @ r) = ascii k @ 61 # ?tail"
    using k(1,2) assms(4) by (cases "ascii k") (auto simp: field_text_def dropWhile_append list_all_iff)
  have name: "takeWhile in_name (ascii k @ 61 # x) = ascii k" "dropWhile in_name (ascii k @ 61 # x) = 61 # x" for x
    using k(3) by (auto simp: takeWhile_append dropWhile_append in_name_def list_all_iff)
  have "auth_param_value (dropWhile is_ws ?tail) = (v, r)"
  proof (cases q)
    case True
    then show ?thesis
      using assms(2) by (simp add: is_ws_def auth_param_value_def quoted_bytes_escape)
  next
    case False
    then have v: "token_value v"
      using assms(1) by (simp add: field_ok_def)
    then obtain b t where b: "v = b # t" "33 \<le> b" "b \<noteq> 34"
      by (cases v) (auto simp: token_value_def)
    then have "\<not> is_ws b"
      by (auto simp: is_ws_def word_le_nat_alt)
    then show ?thesis
      using False b until_end [OF v assms(3)] token_trim [OF v] by (simp add: auth_param_value_def)
  qed
  then show ?thesis
    by (subst auth_params.simps) (simp add: start name k(4) Let_def del: append_assoc)
qed

lemma auth_params_Nil: "auth_params [] = []"
proof -
  have "str_trim [] = []"
    by code_simp
  then show ?thesis
    by (subst auth_params.simps) simp
qed

lemma auth_params_fields:
  assumes "list_all (\<lambda>(k, q, v). field_ok (k, q, v) \<and> (q \<longrightarrow> ascii_text v)) (f # fs)" "list_all is_separator seps"
  shows "auth_params (seps @ field_text f @ fields_text fs) = map (\<lambda>(k, q, v). (ascii k, v)) (f # fs)"
  using assms
proof (induction fs arbitrary: f seps)
  case Nil
  obtain k q v where "f = (k, q, v)"
    by (cases f)
  then show ?case
    using auth_params_field [of k q v "[]" seps] Nil by (simp add: at_end_def auth_params_Nil)
next
  case (Cons g fs)
  obtain k q v where f: "f = (k, q, v)"
    by (cases f)
  have seps: "list_all is_separator [44, 32]"
    by (simp add: is_separator_def)
  show ?case
    using auth_params_field [of k q v "fields_text (g # fs)" seps] Cons.IH [of g "[44, 32]"] Cons.prems seps
    by (simp add: f at_end_fields del: fields_text_simps) (simp add: f)
qed


section \<open>The headers as fields\<close>

definition auth_names :: "string list" where
  "auth_names = [''username'', ''Digest username'', ''realm'', ''nonce'', ''uri'', ''response'', ''qop'', ''nc'', ''cnonce'',
     ''algorithm'', ''stale'']"

lemma auth_names_ok: "k \<in> set auth_names \<Longrightarrow> name_ok k"
proof -
  have "list_all name_ok auth_names"
    by code_simp
  then show "k \<in> set auth_names \<Longrightarrow> name_ok k"
    by (simp add: list_all_iff)
qed

lemma auth_names_differ: "j \<in> set auth_names \<Longrightarrow> k \<in> set auth_names \<Longrightarrow> eq_ignore_ascii_case (ascii j) (ascii k) \<longleftrightarrow> j = k"
proof -
  have "list_all (\<lambda>j. list_all (\<lambda>k. eq_ignore_ascii_case (ascii j) (ascii k) \<longleftrightarrow> j = k) auth_names) auth_names"
    by code_simp
  then show "j \<in> set auth_names \<Longrightarrow> k \<in> set auth_names \<Longrightarrow> ?thesis"
    by (simp add: list_all_iff)
qed

lemma find_name:
  "list_all (\<lambda>f. fst f \<in> set auth_names) fs \<Longrightarrow> n \<in> set auth_names \<Longrightarrow>
    find (\<lambda>(k, q, v). eq_ignore_ascii_case (ascii k) (ascii n)) fs = find (\<lambda>(k, q, v). k = n) fs"
proof (induction fs)
  case (Cons f fs)
  then show ?case
    using auth_names_differ [of "fst f" n] by (cases f) auto
qed simp

lemma hex_token: "hex_octets v \<Longrightarrow> v \<noteq> [] \<Longrightarrow> token_value v"
  using hex_octet_plain by (fastforce simp: token_value_def hex_octets_def)

lemma hex_escape: "hex_octets v \<Longrightarrow> auth_escape v = v"
  using hex_octet_plain by (fastforce intro: auth_escape_plain simp: hex_octets_def)

lemma padded_token: "token_value (padded_hex w n)"
  by (rule hex_token [OF hex_octets_padded]) (simp add: padded_hex_def Let_def hex_nonempty)

lemma algorithm_token: "token_value (algorithm_str a)" "algorithm_parse (algorithm_str a) = Some a"
  "ascii_text (algorithm_str a)"
proof -
  have "list_all (\<lambda>a. token_value (algorithm_str a) \<and> algorithm_parse (algorithm_str a) = Some a \<and> ascii_text (algorithm_str a))
      [Md5, Md5Sess, Sha256, Sha256Sess, Sha512_256, Sha512_256Sess]"
    by code_simp
  moreover have "a \<in> set [Md5, Md5Sess, Sha256, Sha256Sess, Sha512_256, Sha512_256Sess]"
    by (cases a) simp_all
  ultimately show "token_value (algorithm_str a)" "algorithm_parse (algorithm_str a) = Some a" "ascii_text (algorithm_str a)"
    by (auto simp only: list_all_iff)
qed

lemma digest_response_hex: "hex_octets (digest_response h c creds method uri nc cnonce)"
  by (simp add: digest_response_def digest_hash_def hex_octets_text Let_def)

text \<open>The fields of an answer.\<close>

definition answer_fields ::
  "hash_functions \<Rightarrow> auth_challenge \<Rightarrow> auth_credentials \<Rightarrow> bytes \<Rightarrow> bytes \<Rightarrow> u32 \<Rightarrow> bytes \<Rightarrow> auth_field list" where
  "answer_fields h c creds method uri nc cnonce =
     [(''realm'', True, ac_realm c), (''nonce'', True, ac_nonce c), (''uri'', True, uri),
      (''response'', True, digest_response h c creds method uri nc cnonce), (''qop'', False, ascii ''auth''),
      (''nc'', False, padded_hex 8 (unat nc)), (''cnonce'', True, cnonce),
      (''algorithm'', False, algorithm_str (ac_algorithm c))]"

lemma respond_fields:
  assumes "ac_qop_auth c" "ac_opaque c = None"
  shows "respond h c creds method uri nc cnonce =
      ascii ''Digest '' @ field_text (''username'', True, ad_username creds) @ fields_text (answer_fields h c creds method uri nc cnonce)"
    "respond h c creds method uri nc cnonce =
      field_text (''Digest username'', True, ad_username creds) @ fields_text (answer_fields h c creds method uri nc cnonce)"
  using assms
  by (simp_all add: respond_def answer_fields_def field_text_def quoted_param_def hex_escape digest_response_hex)
    (simp_all add: ascii_def)

lemma answer_fields_ok: "list_all field_ok (answer_fields h c creds method uri nc cnonce)"
proof -
  have "token_value (ascii ''auth'')"
    by code_simp
  then show ?thesis
    by (simp add: answer_fields_def field_ok_def auth_names_ok auth_names_def padded_token algorithm_token)
qed

lemma respond_parameter:
  assumes "ac_qop_auth c" "ac_opaque c = None"
  shows "parameter (ascii ''response'') (respond h c creds method uri nc cnonce) =
    Some (digest_response h c creds method uri nc cnonce)"
proof -
  have "field_ok (''Digest username'', True, ad_username creds)"
    by (simp add: field_ok_def auth_names_ok auth_names_def)
  then have "parameter (ascii ''response'') ([] @ field_text (''Digest username'', True, ad_username creds) @
        fields_text (answer_fields h c creds method uri nc cnonce)) =
      map_option (\<lambda>(k, q, v). v) (find (\<lambda>(k, q, v). eq_ignore_ascii_case (ascii k) (ascii ''response''))
        ((''Digest username'', True, ad_username creds) # answer_fields h c creds method uri nc cnonce))"
    by (intro parameter_fields) (simp_all add: answer_fields_ok)
  also have "\<dots> = Some (digest_response h c creds method uri nc cnonce)"
    by (simp add: answer_fields_def auth_names_differ auth_names_def)
  finally show ?thesis
    by (simp only: respond_fields(2) [OF assms] append_Nil)
qed

lemma fields_text_valid:
  assumes "list_all (\<lambda>(k, q, v). ascii_text (ascii k) \<and> utf8_valid v) fs"
  shows "utf8_valid (fields_text fs)"
proof -
  have field: "utf8_valid (field_text (k, q, v))" if "ascii_text (ascii k)" "utf8_valid v" for k q v
    using that auth_escape_valid [of v]
    by (cases q) (simp_all add: field_text_def utf8_valid_append utf8_valid_ascii_text utf8_step_def)
  have "utf8_valid [44, 32]"
    by (rule utf8_valid_ascii_text) simp
  then have "utf8_valid ([44, 32] @ field_text f @ r)" if "utf8_valid (field_text f)" "utf8_valid r" for f r
    using that by (simp only: utf8_valid_append)
  with assms field show ?thesis
    by (induction fs) auto
qed


lemma fields_text_append: "fields_text (fs @ gs) = fields_text fs @ fields_text gs"
  by (simp add: fields_text_def)

lemma fields_trim:
  assumes "fs = gs @ [(k, False, v)]" "token_value v"
  shows "str_trim (ascii ''Digest '' @ x @ fields_text fs) = ascii ''Digest '' @ x @ fields_text fs"
proof (rule str_trim_visible)
  have v: "v \<noteq> []" "33 \<le> last v" "last v < 0x80"
    using assms(2) by (auto simp: token_value_def)
  then have "last (ascii ''Digest '' @ x @ fields_text fs) = last v"
    by (simp add: assms(1) fields_text_append field_text_def)
  with v show "33 \<le> last (ascii ''Digest '' @ x @ fields_text fs)" "last (ascii ''Digest '' @ x @ fields_text fs) < 0x80"
    by simp_all
qed (simp_all add: ascii_def)

lemma strip_space: "33 \<le> b \<Longrightarrow> b < 0x80 \<Longrightarrow> strip_white WHITE_SPACE (32 # b # r) = b # r"
proof -
  assume b: "33 \<le> b" "b < 0x80"
  have "white_prefix (32 # b # r) = Some [32]"
    by (simp add: white_prefix_def WHITE_SPACE_def starts_with_def)
  with no_white [OF b] show ?thesis
    by (subst strip_white_unfold) simp
qed

section \<open>The client reads the challenge\<close>

definition challenge_fields :: "hash_functions \<Rightarrow> authenticator \<Rightarrow> bool \<Rightarrow> u64 \<Rightarrow> auth_field list" where
  "challenge_fields h s stale now =
     [(''nonce'', True, mint h s now), (''qop'', True, ascii ''auth''), (''algorithm'', False, algorithm_str (au_algorithm s))] @
     (if stale then [(''stale'', False, ascii ''true'')] else [])"

lemma mint_plain: "\<forall>b \<in> set (mint h s now). b \<noteq> 34 \<and> b \<noteq> 92" "ascii_text (mint h s now)"
  using hex_octets_padded [of 16 "unat now"] hex_octets_text [of "hf_hmac_sha256 h (au_secret s) (padded_hex 16 (unat now) @ 58 # au_realm s)"]
    hex_octet_plain
  by (fastforce simp: mint_def nonce_mac_def Let_def hex_octets_def ascii_text_def list_all_iff)+

lemma challenge_text:
  "challenge_at h s stale now =
     ascii ''Digest '' @ field_text (''realm'', True, au_realm s) @ fields_text (challenge_fields h s stale now)"
proof -
  have "auth_escape (ascii ''auth'') = ascii ''auth''"
    by code_simp
  moreover have "auth_escape (mint h s now) = mint h s now"
    by (rule auth_escape_plain [OF mint_plain(1)])
  ultimately show ?thesis
    by (simp add: challenge_at_def challenge_fields_def field_text_def quoted_param_def) (simp add: ascii_def)
qed

lemma challenge_param_simps:
  "challenge_param d (ascii ''realm'', v) = Some (d\<lparr>cd_realm := Some v\<rparr>)"
  "challenge_param d (ascii ''nonce'', v) = Some (d\<lparr>cd_nonce := Some v\<rparr>)"
  "challenge_param d (ascii ''algorithm'', v) = map_option (\<lambda>a. d\<lparr>cd_algorithm := a\<rparr>) (algorithm_parse v)"
  "challenge_param d (ascii ''qop'', ascii ''auth'') = Some (d\<lparr>cd_qop_auth := True\<rparr>)"
  "challenge_param d (ascii ''stale'', ascii ''true'') = Some (d\<lparr>cd_stale := True\<rparr>)"
proof -
  have names: "to_ascii_lowercase (ascii ''realm'') = ascii ''realm''"
    "to_ascii_lowercase (ascii ''nonce'') = ascii ''nonce''" "(ascii ''nonce'' = ascii ''realm'') = False"
    "to_ascii_lowercase (ascii ''algorithm'') = ascii ''algorithm''"
    "(ascii ''algorithm'' = ascii ''realm'') = False" "(ascii ''algorithm'' = ascii ''nonce'') = False"
    "(ascii ''algorithm'' = ascii ''opaque'') = False" "to_ascii_lowercase (ascii ''qop'') = ascii ''qop''"
    "(ascii ''qop'' = ascii ''realm'') = False" "(ascii ''qop'' = ascii ''nonce'') = False"
    "(ascii ''qop'' = ascii ''opaque'') = False" "(ascii ''qop'' = ascii ''algorithm'') = False"
    "to_ascii_lowercase (ascii ''stale'') = ascii ''stale''" "(ascii ''stale'' = ascii ''realm'') = False"
    "(ascii ''stale'' = ascii ''nonce'') = False" "(ascii ''stale'' = ascii ''opaque'') = False"
    "(ascii ''stale'' = ascii ''algorithm'') = False" "(ascii ''stale'' = ascii ''qop'') = False"
    by code_simp+
  have contents: "list_ex (\<lambda>option. eq_ignore_ascii_case (str_trim option) (ascii ''auth'')) (split_on 44 (ascii ''auth''))"
    "eq_ignore_ascii_case (str_trim (ascii ''true'')) (ascii ''true'')"
    by code_simp+
  show "challenge_param d (ascii ''realm'', v) = Some (d\<lparr>cd_realm := Some v\<rparr>)"
    "challenge_param d (ascii ''nonce'', v) = Some (d\<lparr>cd_nonce := Some v\<rparr>)"
    "challenge_param d (ascii ''algorithm'', v) = map_option (\<lambda>a. d\<lparr>cd_algorithm := a\<rparr>) (algorithm_parse v)"
    "challenge_param d (ascii ''qop'', ascii ''auth'') = Some (d\<lparr>cd_qop_auth := True\<rparr>)"
    "challenge_param d (ascii ''stale'', ascii ''true'') = Some (d\<lparr>cd_stale := True\<rparr>)"
    by (simp_all only: challenge_param_def Let_def fst_conv snd_conv names contents if_True if_False simp_thms)
qed

lemma challenge_reads:
  assumes "ascii_text (au_realm s)"
  shows "challenge_parse (challenge_at h s stale now) proxy =
    Some \<lparr>ac_realm = au_realm s, ac_nonce = mint h s now, ac_opaque = None, ac_algorithm = au_algorithm s,
      ac_qop_auth = True, ac_stale = stale, ac_from_proxy = proxy\<rparr>"
proof -
  let ?r = "(''realm'', True, au_realm s)" and ?fs = "challenge_fields h s stale now"
  have ascii: "ascii_text (ascii ''auth'')" "ascii_text (ascii ''true'')" "token_value (ascii ''true'')"
    "list_all (\<lambda>k. ascii_text (ascii k)) auth_names" "ascii_text (ascii ''Digest '')"
    "eq_ignore_ascii_case (take 6 (ascii ''Digest '')) (ascii ''Digest'')" "length (ascii ''Digest'') = 6"
    "length (ascii ''Digest '') = 7" "drop 6 (ascii ''Digest '') = [32]"
    by code_simp+
  have names: "ascii_text (ascii k)" if "k \<in> set auth_names" for k
    using ascii(4) that by (simp add: list_all_iff)
  have "utf8_valid (fields_text (?r # ?fs))"
    using assms ascii(1,2) mint_plain(2) [of h s now] algorithm_token(3) [of "au_algorithm s"] names
    by (intro fields_text_valid) (simp add: challenge_fields_def utf8_valid_ascii_text auth_names_def)
  moreover have "utf8_valid [44, 32]" "utf8_valid (ascii ''Digest '')"
    by (rule utf8_valid_ascii_text, simp add: ascii)+
  ultimately have "utf8_valid (challenge_at h s stale now)"
    using utf8_valid_append [of "ascii ''Digest ''" "field_text ?r @ fields_text ?fs"]
      utf8_valid_append [of "[44, 32]" "field_text ?r @ fields_text ?fs"] by (simp add: challenge_text)
  moreover have "str_trim (challenge_at h s stale now) = challenge_at h s stale now"
  proof (cases stale)
    case True
    then show ?thesis
      unfolding challenge_text by (intro fields_trim [where k = "''stale''" and v = "ascii ''true''"]) (simp_all add: challenge_fields_def ascii(3))
  next
    case False
    then show ?thesis
      unfolding challenge_text
      by (intro fields_trim [where k = "''algorithm''" and v = "algorithm_str (au_algorithm s)"]) (simp_all add: challenge_fields_def algorithm_token)
  qed
  moreover have "strip_prefix_ignore_ascii_case (challenge_at h s stale now) (ascii ''Digest'') =
      Some ([32] @ field_text ?r @ fields_text ?fs)"
    by (simp add: challenge_text strip_prefix_ignore_ascii_case_def ascii(6-9))
  moreover have "auth_params ([32] @ field_text ?r @ fields_text ?fs) = map (\<lambda>(k, q, v). (ascii k, v)) (?r # ?fs)"
    using assms ascii(1-3) mint_plain(2) algorithm_token(1) [of "au_algorithm s"]
    by (intro auth_params_fields)
      (simp_all add: challenge_fields_def field_ok_def auth_names_ok auth_names_def is_separator_def)
  ultimately show ?thesis
    by (simp add: challenge_parse_def challenge_fields_def challenge_param_simps algorithm_token)
qed


section \<open>The server reads the answer\<close>

lemma credentials_read:
  assumes "ac_qop_auth c" "ac_opaque c = None" "utf8_valid (ad_username creds)" "utf8_valid (ac_realm c)"
    "utf8_valid (ac_nonce c)" "utf8_valid uri" "utf8_valid cnonce"
  shows "presented_parse (respond h c creds method uri nc cnonce) =
    Some \<lparr>pr_username = ad_username creds, pr_realm = ac_realm c, pr_nonce = ac_nonce c, pr_uri = uri,
      pr_response = digest_response h c creds method uri nc cnonce, pr_algorithm = ac_algorithm c,
      pr_nonce_count = Some nc, pr_cnonce = Some cnonce, pr_qop_auth = True\<rparr>"
proof -
  let ?u = "(''username'', True, ad_username creds)" and ?fs = "answer_fields h c creds method uri nc cnonce"
  let ?text = "ascii ''Digest '' @ field_text ?u @ fields_text ?fs"
  have word: "ascii ''Digest '' = ascii ''Digest'' @ [32]" "length (ascii ''Digest'') = 6" "ascii_text (ascii ''Digest '')"
    "ascii_text (ascii ''auth'')" "list_all (\<lambda>k. ascii_text (ascii k)) auth_names" "ascii ''username'' = 117 # ascii ''sername''"
    by code_simp+
  have names: "ascii_text (ascii k)" if "k \<in> set auth_names" for k
    using word(5) that by (simp add: list_all_iff)
  have ascii_hex: "ascii_text v" if "hex_octets v" for v
    using that hex_octet_plain(2) by (auto simp: hex_octets_def ascii_text_def list_all_iff)
  have "utf8_valid (fields_text (?u # ?fs))"
    using assms word(4) algorithm_token(3) [of "ac_algorithm c"] names ascii_hex
    by (intro fields_text_valid) (simp add: answer_fields_def utf8_valid_ascii_text auth_names_def digest_response_hex hex_octets_padded)
  moreover have "utf8_valid [44, 32]" "utf8_valid (ascii ''Digest '')"
    by (rule utf8_valid_ascii_text, simp add: word(3))+
  ultimately have "utf8_valid ?text"
    using utf8_valid_append [of "ascii ''Digest ''" "field_text ?u @ fields_text ?fs"]
      utf8_valid_append [of "[44, 32]" "field_text ?u @ fields_text ?fs"] by simp
  then have lossy: "utf8_lossy ?text = ?text"
    by (rule utf8_lossy_valid)
  have "str_trim ?text = ?text"
    by (rule fields_trim [where k = "''algorithm''" and v = "algorithm_str (ac_algorithm c)"])
      (simp_all add: answer_fields_def algorithm_token)
  moreover have "starts_with ?text (ascii ''Digest'')"
    unfolding word(1) by (simp add: starts_with_iff)
  moreover have "strip_white WHITE_SPACE (drop 6 ?text) = [] @ field_text ?u @ fields_text ?fs"
    unfolding word(1) using word(2) by (simp add: field_text_def word(6) strip_space)
  moreover have named: "list_all (\<lambda>f. fst f \<in> set auth_names) (?u # ?fs)"
    by (simp add: answer_fields_def auth_names_def)
  moreover have param: "parameter (ascii n) ([] @ field_text ?u @ fields_text ?fs) = map_option (\<lambda>(k, q, v). v) (find (\<lambda>(k, q, v). k = n) (?u # ?fs))"
    if "n \<in> set auth_names" for n
  proof -
    have "parameter (ascii n) ([] @ field_text ?u @ fields_text ?fs) =
        map_option (\<lambda>(k, q, v). v) (find (\<lambda>(k, q, v). eq_ignore_ascii_case (ascii k) (ascii n)) (?u # ?fs))"
      by (intro parameter_fields) (simp_all add: answer_fields_ok field_ok_def auth_names_ok auth_names_def)
    also have "find (\<lambda>(k, q, v). eq_ignore_ascii_case (ascii k) (ascii n)) (?u # ?fs) = find (\<lambda>(k, q, v). k = n) (?u # ?fs)"
      by (rule find_name [OF named that])
    finally show ?thesis .
  qed
  define rest where "rest = [] @ field_text ?u @ fields_text ?fs"
  have params: "parameter (ascii ''username'') rest = Some (ad_username creds)" "parameter (ascii ''realm'') rest = Some (ac_realm c)"
    "parameter (ascii ''nonce'') rest = Some (ac_nonce c)" "parameter (ascii ''uri'') rest = Some uri"
    "parameter (ascii ''response'') rest = Some (digest_response h c creds method uri nc cnonce)"
    "parameter (ascii ''qop'') rest = Some (ascii ''auth'')" "parameter (ascii ''nc'') rest = Some (padded_hex 8 (unat nc))"
    "parameter (ascii ''cnonce'') rest = Some cnonce" "parameter (ascii ''algorithm'') rest = Some (algorithm_str (ac_algorithm c))"
    unfolding rest_def by (subst param; simp add: answer_fields_def auth_names_def)+
  have "from_hex (2 ^ 32) (padded_hex 8 (unat nc)) = Some (unat nc)"
    using unsigned_less [of nc] by (intro from_hex_padded) simp
  ultimately show ?thesis
    unfolding presented_parse_def respond_fields(1) [OF assms(1,2)] lossy Let_def
    by (simp only: rest_def [symmetric] params if_not_P not_True_eq_False if_False bind.simps option.map algorithm_token)
      (simp add: unwrap_or_def algorithm_token)
qed

lemma minted_recognised: "issued_at h (s\<lparr>au_seen := seen\<rparr>) (mint h s now) = Some now"
proof -
  have "position (\<lambda>b. b = 46) (padded_hex 16 (unat now) @ 46 # x) = Some (length (padded_hex 16 (unat now)))" for x
    using hex_octets_padded [of 16 "unat now"] hex_octet_plain
    by (intro position_skip) (fastforce simp: hex_octets_def list_all_iff)+
  moreover have "from_hex (2 ^ 64) (padded_hex 16 (unat now)) = Some (unat now)"
    using unsigned_less [of now] by (intro from_hex_padded) simp
  ultimately show ?thesis
    by (simp add: issued_at_def split_once_def mint_def nonce_mac_def Let_def)
qed

text \<open>
  C38: A right answer is accepted. A client that reads a challenge of a server and answers it with
  the user's password authenticates, through the text of both headers, with whatever hash functions
  and whatever characters in the user name, while the nonce is within its lifetime and its count
  above those this nonce was used with. The realm is ASCII, since the client reads octets as characters.
\<close>

theorem digest_accepted:
  assumes "ascii_text (au_realm s)" "utf8_valid (ad_username creds)" "utf8_valid uri" "utf8_valid cnonce"
    "unat (saturating_sub_word now issued) \<le> au_lifetime s div 1000000000"
    "\<forall>(nonce, known, response) \<in> set seen. nonce = mint h s issued \<longrightarrow> known < nc"
  shows "\<exists>c p. challenge_parse (challenge_at h s stale issued) proxy = Some c \<and> ac_stale c = stale \<and>
    presented_parse (respond h c creds method uri nc cnonce) = Some p \<and> pr_username p = ad_username creds \<and> pr_uri p = uri \<and>
    snd (verify_at h p method (ad_password creds) now (s\<lparr>au_seen := seen\<rparr>)) = Authenticated"
proof -
  let ?c = "\<lparr>ac_realm = au_realm s, ac_nonce = mint h s issued, ac_opaque = None, ac_algorithm = au_algorithm s,
      ac_qop_auth = True, ac_stale = stale, ac_from_proxy = proxy\<rparr>"
  let ?p = "\<lparr>pr_username = ad_username creds, pr_realm = ac_realm ?c, pr_nonce = ac_nonce ?c, pr_uri = uri,
      pr_response = digest_response h ?c creds method uri nc cnonce, pr_algorithm = ac_algorithm ?c,
      pr_nonce_count = Some nc, pr_cnonce = Some cnonce, pr_qop_auth = True\<rparr>"
  let ?s = "s\<lparr>au_seen := seen\<rparr>"
  have read: "presented_parse (respond h ?c creds method uri nc cnonce) = Some ?p"
    using assms(1-4) mint_plain(2) [of h s issued] by (intro credentials_read) (simp_all add: utf8_valid_ascii_text)
  have "digest_response h (as_challenge ?s (mint h s issued)) \<lparr>ad_username = ad_username creds, ad_password = ad_password creds\<rparr>
      method uri nc cnonce = digest_response h ?c creds method uri nc cnonce"
    by (simp add: digest_response_def ha1_def as_challenge_def Let_def)
  then have "parameter (ascii ''response'') (respond h (as_challenge ?s (mint h s issued))
      \<lparr>ad_username = ad_username creds, ad_password = ad_password creds\<rparr> method uri nc cnonce) = Some (pr_response ?p)"
    by (simp add: respond_parameter as_challenge_def)
  moreover have "snd (record_count ?p ?s) = Authenticated"
  proof (cases "position (\<lambda>e. fst e = mint h s issued) seen")
    case (Some k)
    then have k: "k < length seen" "fst (seen ! k) = mint h s issued"
      by (auto simp: position_Some_iff)
    then have "seen ! k \<in> set seen"
      by simp
    with k assms(6) have "fst (snd (seen ! k)) < nc"
      by (auto simp: case_prod_beta)
    with Some show ?thesis
      by (simp add: record_count_def split_beta Let_def)
  qed (simp add: record_count_def)
  ultimately have "snd (verify_at h ?p method (ad_password creds) now ?s) = Authenticated"
    using assms(5) by (simp add: verify_at_def minted_recognised Let_def)
  with read challenge_reads [OF assms(1), of h stale issued proxy] show ?thesis
    by (intro exI [of _ ?c] exI [of _ ?p]) simp
qed


definition sample_hashes :: hash_functions where
  "sample_hashes = \<lparr>hf_md5 = \<lambda>x. x, hf_sha256 = \<lambda>x. rev x, hf_sha512_256 = \<lambda>x. x, hf_hmac_sha256 = \<lambda>k x. k @ x\<rparr>"

text \<open>A user name with a quote in it and one beyond ASCII, the second use of a nonce.\<close>

theorem digest_accepted_witness:
  "\<exists>c p. challenge_parse (challenge_at sample_hashes (authenticator_new (ascii ''a\"b'') [1, 2, 3]) False 1000) True = Some c \<and>
    presented_parse (respond sample_hashes c \<lparr>ad_username = [34, 0xC3, 0xA9], ad_password = ascii ''secret''\<rparr>
      (ascii ''REGISTER'') (ascii ''sip:example.com'') 2 (ascii ''0a4f'')) = Some p \<and>
    snd (verify_at sample_hashes p (ascii ''REGISTER'') (ascii ''secret'') 1300
      ((authenticator_new (ascii ''a\"b'') [1, 2, 3])\<lparr>au_seen := [([], 7, [])]\<rparr>)) = Authenticated"
proof -
  let ?s = "authenticator_new (ascii ''a\"b'') [1, 2, 3]"
  have "ascii_text (ascii ''a\"b'')" "utf8_valid [34, 0xC3, 0xA9]" "utf8_valid (ascii ''sip:example.com'')" "utf8_valid (ascii ''0a4f'')"
    by code_simp+
  moreover have "unat (saturating_sub_word (1300 :: u64) 1000) \<le> au_lifetime ?s div 1000000000"
    by (simp add: authenticator_new_def DEFAULT_LIFETIME_def from_secs_def duration_max_def saturating_sub_word_def)
  moreover have "mint sample_hashes ?s 1000 \<noteq> []"
    by (simp add: mint_def Let_def)
  ultimately show ?thesis
    using digest_accepted [of ?s "\<lparr>ad_username = [34, 0xC3, 0xA9], ad_password = ascii ''secret''\<rparr>"
        "ascii ''sip:example.com''" "ascii ''0a4f''" 1300 1000 "[([], 7, [])]" sample_hashes 2 False True "ascii ''REGISTER''"]
    by (auto simp: authenticator_new_def)
qed

section \<open>The verdict\<close>

text \<open>Whether the window still takes a count of a nonce: it is above the last, or the very same use.\<close>

definition usable :: "presented \<Rightarrow> authenticator \<Rightarrow> bool" where
  "usable p s \<longleftrightarrow>
     (case find (\<lambda>e. fst e = pr_nonce p) (au_seen s) of
        None \<Rightarrow> True
      | Some (_, known, response) \<Rightarrow>
          known < the (pr_nonce_count p) \<or> known = the (pr_nonce_count p) \<and> response = pr_response p)"

lemma find_position: "find P xs = map_option (\<lambda>k. xs ! k) (position P xs)"
  by (induction xs) (auto simp: option.map_comp o_def)

lemma record_usable: "pr_nonce_count p \<noteq> None \<Longrightarrow> snd (record_count p s) = Authenticated \<longleftrightarrow> usable p s"
  by (auto simp: record_count_def usable_def find_position split_beta Let_def unwrap_or_def split: option.split)

lemma authenticated_iff:
  "snd (verify_at h p method password now s) = Authenticated \<longleftrightarrow>
    pr_algorithm p = au_algorithm s \<and> pr_qop_auth p \<and> usable p s \<and>
    (\<exists>nc cnonce issued. pr_nonce_count p = Some nc \<and> pr_cnonce p = Some cnonce \<and>
      issued_at h s (pr_nonce p) = Some issued \<and> unat (saturating_sub_word now issued) \<le> au_lifetime s div 1000000000 \<and>
      pr_response p = digest_response h (as_challenge s (pr_nonce p)) \<lparr>ad_username = pr_username p, ad_password = password\<rparr>
        method (pr_uri p) nc cnonce)"
proof -
  have "parameter (ascii ''response'') (respond h (as_challenge s n) creds method uri nc cnonce) =
      Some (digest_response h (as_challenge s n) creds method uri nc cnonce)" for n creds uri nc cnonce
    by (rule respond_parameter) (simp_all add: as_challenge_def)
  then show ?thesis
    using record_usable [of p s] by (auto simp: verify_at_def Let_def unwrap_or_def not_le split: option.splits)
qed

text \<open>
  The server accepts exactly the requests it should: those under its algorithm and with a
  client nonce and count, whose nonce it issued itself and not too long ago, whose response is the
  digest of the user's password over this method, URI, nonce and count under its own realm, and
  whose count is new for the nonce or is the same request again.
\<close>

theorem authenticated_exactly:
  "snd (verify_at h p method password now s) = Authenticated \<longleftrightarrow>
    pr_algorithm p = au_algorithm s \<and> pr_qop_auth p \<and> usable p s \<and>
    (\<exists>nc cnonce issued. pr_nonce_count p = Some nc \<and> pr_cnonce p = Some cnonce \<and>
      issued_at h s (pr_nonce p) = Some issued \<and> unat (saturating_sub_word now issued) \<le> au_lifetime s div 1000000000 \<and>
      pr_response p = digest_response h (as_challenge s (pr_nonce p)) \<lparr>ad_username = pr_username p, ad_password = password\<rparr>
        method (pr_uri p) nc cnonce)"
  by (rule authenticated_iff)

section \<open>The replay window\<close>

text \<open>The verdicts of a run of requests.\<close>

type_synonym auth_request = "presented \<times> bytes \<times> bytes \<times> u64"

fun verify_all :: "hash_functions \<Rightarrow> authenticator \<Rightarrow> auth_request list \<Rightarrow> (presented \<times> verdict) list" where
  "verify_all h s [] = []"
| "verify_all h s ((p, method, password, now) # rest) =
     (case verify_at h p method password now s of (s, v) \<Rightarrow> (p, v) # verify_all h s rest)"

definition accepted_nonces :: "(presented \<times> verdict) list \<Rightarrow> bytes set" where
  "accepted_nonces vs = {pr_nonce p |p. (p, Authenticated) \<in> set vs}"

text \<open>A later use of a nonce: a higher count, or the same count with the same response.\<close>

definition follows :: "u32 \<times> bytes \<Rightarrow> u32 \<times> bytes \<Rightarrow> bool" where
  "follows a b \<longleftrightarrow> fst a < fst b \<or> a = b"

lemma follows_trans: "follows a b \<Longrightarrow> follows b c \<Longrightarrow> follows a c"
  by (auto simp: follows_def)

definition use_of :: "presented \<Rightarrow> u32 \<times> bytes" where
  "use_of p = (unwrap_or (pr_nonce_count p) 1, pr_response p)"

lemma verify_rejected: "snd (verify_at h p method password now s) \<noteq> Authenticated \<Longrightarrow> fst (verify_at h p method password now s) = s"
  by (auto simp: verify_at_def record_count_def Let_def split_beta split: option.splits if_splits)

lemma verify_recorded:
  "snd (verify_at h p method password now s) = Authenticated \<Longrightarrow> verify_at h p method password now s = record_count p s"
  by (auto simp: verify_at_def Let_def split: option.splits if_splits)

text \<open>Recording a use: the nonces stay distinct, none is lost while there is room, uses only move on.\<close>

lemma record_keeps:
  assumes "snd (record_count p s) = Authenticated" "distinct (map fst (au_seen s))"
    "pr_nonce p \<in> fst ` set (au_seen s) \<or> length (au_seen s) < REPLAY_CAPACITY"
  shows "distinct (map fst (au_seen (fst (record_count p s))))"
    "fst ` set (au_seen (fst (record_count p s))) = insert (pr_nonce p) (fst ` set (au_seen s))"
    "(pr_nonce p, use_of p) \<in> set (au_seen (fst (record_count p s)))"
    "\<And>n u. (n, u) \<in> set (au_seen s) \<Longrightarrow> \<exists>u'. (n, u') \<in> set (au_seen (fst (record_count p s))) \<and> follows u u'"
proof -
  let ?seen = "au_seen s" and ?new = "(pr_nonce p, use_of p)"
  have absent: "position P xs = None \<Longrightarrow> e \<in> set xs \<Longrightarrow> \<not> P e" for P xs and e :: "bytes \<times> u32 \<times> bytes"
    by (induction xs) (auto split: if_splits)
  have "distinct (map fst (au_seen (fst (record_count p s)))) \<and>
    fst ` set (au_seen (fst (record_count p s))) = insert (pr_nonce p) (fst ` set ?seen) \<and>
    ?new \<in> set (au_seen (fst (record_count p s))) \<and>
    (\<forall>n u. (n, u) \<in> set ?seen \<longrightarrow> (\<exists>u'. (n, u') \<in> set (au_seen (fst (record_count p s))) \<and> follows u u'))"
  proof (cases "position (\<lambda>e. fst e = pr_nonce p) ?seen")
    case None
    have fresh: "pr_nonce p \<notin> fst ` set ?seen"
    proof
      assume "pr_nonce p \<in> fst ` set ?seen"
      then obtain e where "e \<in> set ?seen" "fst e = pr_nonce p"
        by (metis imageE)
      with absent [OF None] show False
        by blast
    qed
    with assms(3) have "fst (record_count p s) = s\<lparr>au_seen := ?seen @ [?new]\<rparr>"
      using None by (auto simp: record_count_def use_of_def Let_def)
    then show ?thesis
      using fresh assms(2) by (auto simp: follows_def)
  next
    case (Some k)
    then have k: "k < length ?seen" "fst (?seen ! k) = pr_nonce p"
      by (auto simp: position_Some_iff)
    obtain u where u: "?seen ! k = (pr_nonce p, u)"
      using k(2) by (cases "?seen ! k") auto
    have step: "follows u (use_of p)" "au_seen (fst (record_count p s)) = ?seen[k := ?new]"
    proof -
      have "?seen[k := ?seen ! k] = ?seen"
        by simp
      then show "follows u (use_of p)" "au_seen (fst (record_count p s)) = ?seen[k := ?new]"
        using assms(1) Some u by (cases u; auto simp: record_count_def use_of_def follows_def Let_def split: if_splits)+
    qed
    have same: "map fst (?seen[k := ?new]) = map fst ?seen"
      using k by (simp add: map_update list_update_same_conv)
    have mem: "?new \<in> set (?seen[k := ?new])"
      using k(1) by (rule set_update_memI)
    have "\<exists>u'. (n, u') \<in> set (?seen[k := ?new]) \<and> follows v u'" if v: "(n, v) \<in> set ?seen" for n v
    proof (cases "n = pr_nonce p")
      case True
      obtain j where j: "j < length ?seen" "?seen ! j = (n, v)"
        using v by (metis in_set_conv_nth)
      then have "j = k"
        using assms(2) k True by (auto simp: distinct_conv_nth) (metis fst_conv)
      then have "u = v"
        using u j(2) by simp
      then show ?thesis
        using True mem step(1) by metis
    next
      case False
      obtain j where j: "j < length ?seen" "?seen ! j = (n, v)"
        using v by (metis in_set_conv_nth)
      then have "?seen[k := ?new] ! j = (n, v)"
        using False k by (auto simp: nth_list_update)
      moreover have "follows v v"
        by (simp add: follows_def)
      moreover have "j < length (?seen[k := ?new])"
        using j by simp
      ultimately show ?thesis
        by (metis nth_mem)
    qed
    moreover have "pr_nonce p \<in> fst ` set ?seen"
      using k(2) nth_mem [OF k(1)] by (metis image_eqI)
    then have "fst ` set (?seen[k := ?new]) = insert (pr_nonce p) (fst ` set ?seen)"
      using arg_cong [OF same, of set] by (simp add: insert_absorb)
    ultimately show ?thesis
      using same assms(2) mem step(2) by simp
  qed
  then show "distinct (map fst (au_seen (fst (record_count p s))))"
    "fst ` set (au_seen (fst (record_count p s))) = insert (pr_nonce p) (fst ` set (au_seen s))"
    "(pr_nonce p, use_of p) \<in> set (au_seen (fst (record_count p s)))"
    "\<And>n u. (n, u) \<in> set (au_seen s) \<Longrightarrow> \<exists>u'. (n, u') \<in> set (au_seen (fst (record_count p s))) \<and> follows u u'"
    by blast+
qed


lemma authenticated_counted: "snd (verify_at h p method password now s) = Authenticated \<Longrightarrow> pr_nonce_count p \<noteq> None"
  by (auto simp: authenticated_iff)

lemma room_left:
  assumes "distinct (map fst (au_seen s))" "card (fst ` set (au_seen s) \<union> N) \<le> REPLAY_CAPACITY" "finite N" "n \<in> N"
  shows "n \<in> fst ` set (au_seen s) \<or> length (au_seen s) < REPLAY_CAPACITY"
proof (rule disjCI)
  assume "\<not> length (au_seen s) < REPLAY_CAPACITY"
  moreover have "length (au_seen s) = card (fst ` set (au_seen s))"
    using distinct_card [OF assms(1)] by simp
  ultimately have "card (fst ` set (au_seen s) \<union> N) \<le> card (fst ` set (au_seen s))"
    using assms(2) by simp
  then have "fst ` set (au_seen s) = fst ` set (au_seen s) \<union> N"
    using assms(3) by (intro card_seteq) auto
  with assms(4) show "n \<in> fst ` set (au_seen s)"
    by auto
qed

lemma accepted_nonces_Cons:
  "accepted_nonces ((p, v) # vs) = (if v = Authenticated then {pr_nonce p} else {}) \<union> accepted_nonces vs"
  by (auto simp: accepted_nonces_def)

lemma finite_accepted: "finite (accepted_nonces vs)"
proof -
  have "accepted_nonces vs \<subseteq> (\<lambda>(p, v). pr_nonce p) ` set vs"
    by (force simp: accepted_nonces_def)
  then show ?thesis
    by (rule finite_subset) simp
qed

text \<open>One request of a run: the window, and the room for the rest of the run.\<close>

lemma run_step:
  assumes "distinct (map fst (au_seen s))"
    "card (fst ` set (au_seen s) \<union> accepted_nonces (verify_all h s ((p, m, pw, now) # rest))) \<le> REPLAY_CAPACITY"
  obtains s' v where "verify_at h p m pw now s = (s', v)" "distinct (map fst (au_seen s'))"
    "card (fst ` set (au_seen s') \<union> accepted_nonces (verify_all h s' rest)) \<le> REPLAY_CAPACITY"
    "\<And>n u. (n, u) \<in> set (au_seen s) \<Longrightarrow> \<exists>u'. (n, u') \<in> set (au_seen s') \<and> follows u u'"
    "v = Authenticated \<Longrightarrow> (pr_nonce p, use_of p) \<in> set (au_seen s')"
proof -
  obtain s' v where r: "verify_at h p m pw now s = (s', v)"
    by (cases "verify_at h p m pw now s")
  show thesis
  proof (cases "v = Authenticated")
    case False
    then have "s' = s"
      using verify_rejected [of h p m pw now s] r by simp
    then show thesis
      using that [OF r] assms r False by (auto simp: accepted_nonces_Cons follows_def)
  next
    case True
    then have rc: "record_count p s = (s', Authenticated)"
      using verify_recorded [of h p m pw now s] r by simp
    have all: "accepted_nonces (verify_all h s ((p, m, pw, now) # rest)) = insert (pr_nonce p) (accepted_nonces (verify_all h s' rest))"
      using r True by (simp add: accepted_nonces_Cons)
    have "pr_nonce p \<in> fst ` set (au_seen s) \<or> length (au_seen s) < REPLAY_CAPACITY"
      by (rule room_left [OF assms]) (simp_all only: finite_accepted all insertI1 finite_insert)
    note keeps = record_keeps [of p s, unfolded rc fst_conv snd_conv, OF refl assms(1) this]
    have "card (fst ` set (au_seen s') \<union> accepted_nonces (verify_all h s' rest)) \<le> REPLAY_CAPACITY"
      using assms(2) unfolding all keeps(2) by (simp only: Un_insert_left Un_insert_right)
    then show thesis
      using that [OF r keeps(1) _ keeps(4) keeps(3)] by simp
  qed
qed

lemma run_follows:
  assumes "distinct (map fst (au_seen s))" "card (fst ` set (au_seen s) \<union> accepted_nonces (verify_all h s rs)) \<le> REPLAY_CAPACITY"
    "(pr_nonce p, u) \<in> set (au_seen s)" "(p, Authenticated) \<in> set (verify_all h s rs)"
  shows "follows u (use_of p)"
  using assms
proof (induction rs arbitrary: s u)
  case (Cons r rs)
  obtain q m pw now where r: "r = (q, m, pw, now)"
    by (cases r) auto
  obtain s' v where s': "verify_at h q m pw now s = (s', v)" "distinct (map fst (au_seen s'))"
    "card (fst ` set (au_seen s') \<union> accepted_nonces (verify_all h s' rs)) \<le> REPLAY_CAPACITY"
    "\<And>n u. (n, u) \<in> set (au_seen s) \<Longrightarrow> \<exists>u'. (n, u') \<in> set (au_seen s') \<and> follows u u'"
    "v = Authenticated \<Longrightarrow> (pr_nonce q, use_of q) \<in> set (au_seen s')"
    using Cons.prems(2) unfolding r by (rule run_step [OF Cons.prems(1)]) (rule that; blast)
  obtain u' where u': "(pr_nonce p, u') \<in> set (au_seen s')" "follows u u'"
    using s'(4) Cons.prems(3) by blast
  show ?case
  proof (cases "(p, Authenticated) = (q, v)")
    case True
    then have "(pr_nonce p, use_of p) \<in> set (au_seen s')"
      using s'(5) by simp
    then have "use_of p = u'"
      using eq_key_imp_eq_value [OF s'(2)] u'(1) by blast
    with u'(2) show ?thesis
      by simp
  next
    case False
    then have "(p, Authenticated) \<in> set (verify_all h s' rs)"
      using Cons.prems(4) s'(1) by (auto simp: r)
    then show ?thesis
      using Cons.IH [OF s'(2,3) u'(1)] follows_trans [OF u'(2)] by blast
  qed
qed simp

lemma run_ordered:
  assumes "distinct (map fst (au_seen s))" "card (fst ` set (au_seen s) \<union> accepted_nonces (verify_all h s rs)) \<le> REPLAY_CAPACITY"
    "i < j" "j < length (verify_all h s rs)" "verify_all h s rs ! i = (p, Authenticated)" "verify_all h s rs ! j = (q, Authenticated)"
    "pr_nonce p = pr_nonce q"
  shows "follows (use_of p) (use_of q)"
  using assms
proof (induction rs arbitrary: s i j)
  case (Cons r rs)
  obtain z m pw now where r: "r = (z, m, pw, now)"
    by (cases r) auto
  obtain s' v where s': "verify_at h z m pw now s = (s', v)" "distinct (map fst (au_seen s'))"
    "card (fst ` set (au_seen s') \<union> accepted_nonces (verify_all h s' rs)) \<le> REPLAY_CAPACITY"
    "v = Authenticated \<Longrightarrow> (pr_nonce z, use_of z) \<in> set (au_seen s')"
    using Cons.prems(2) unfolding r by (rule run_step [OF Cons.prems(1)]) (rule that; blast)
  obtain j' where j: "j = Suc j'" "j' < length (verify_all h s' rs)" "verify_all h s' rs ! j' = (q, Authenticated)"
    using Cons.prems(3,4,6) by (cases j) (simp_all add: r s'(1))
  show ?case
  proof (cases i)
    case 0
    then have "(pr_nonce q, use_of p) \<in> set (au_seen s')"
      using Cons.prems(5,7) s'(1,4) by (simp add: r)
    moreover have "(q, Authenticated) \<in> set (verify_all h s' rs)"
      using j(2,3) nth_mem by metis
    ultimately show ?thesis
      by (intro run_follows [OF s'(2,3)])
  next
    case (Suc i')
    then show ?thesis
      using Cons.IH [OF s'(2,3), of i' j'] Cons.prems j s'(1) by (simp add: r)
  qed
qed simp

text \<open>
  No credential is used twice. Of all the requests a server accepts, in whatever order they
  arrive, those with the same nonce have counts that only rise, and two with the same count are one
  request retransmitted, with the same response. This holds while no more nonces are in use than
  the window holds; one that has been evicted is taken as never used.
\<close>

theorem counts_used_once:
  assumes "au_seen s = []" "card (accepted_nonces (verify_all h s requests)) \<le> REPLAY_CAPACITY"
    "i < j" "j < length requests" "verify_all h s requests ! i = (p, Authenticated)"
    "verify_all h s requests ! j = (q, Authenticated)" "pr_nonce p = pr_nonce q"
  shows "\<exists>a b. pr_nonce_count p = Some a \<and> pr_nonce_count q = Some b \<and> (a < b \<or> a = b \<and> pr_response p = pr_response q)"
proof -
  have len: "length (verify_all h s rs) = length rs" for s rs
    by (induction h s rs rule: verify_all.induct) (auto split: prod.splits)
  have counted: "pr_nonce_count z \<noteq> None" if "(z, Authenticated) \<in> set (verify_all h s rs)" for z s rs
    using that
  proof (induction h s rs rule: verify_all.induct)
    case (2 h s p m pw now rest)
    obtain s' v where "verify_at h p m pw now s = (s', v)"
      by fastforce
    then show ?case
      using 2 authenticated_counted [of h p m pw now s] by auto
  qed simp
  have "follows (use_of p) (use_of q)"
    using assms by (intro run_ordered [of s h requests i j]) (simp_all add: len)
  moreover have "(p, Authenticated) \<in> set (verify_all h s requests)" "(q, Authenticated) \<in> set (verify_all h s requests)"
    using assms(3-6) len [of s requests] nth_mem [of i "verify_all h s requests"] nth_mem [of j "verify_all h s requests"]
    by simp_all
  then have "pr_nonce_count p \<noteq> None" "pr_nonce_count q \<noteq> None"
    using counted by blast+
  ultimately show ?thesis
    by (auto simp: follows_def use_of_def unwrap_or_def)
qed

end
