(* ===== verification/Sdp_Session.thy ===== *)
theory Sdp_Session
  imports Ip_Text
begin

text \<open>
  Session descriptions: the tree and the writer of \<open>sipx-sdp/src/session.rs\<close> and the reader of
  \<open>sipx-sdp/src/parse.rs\<close>. A \<open>str\<close> is its UTF-8 octets and a \<open>char\<close> the octets that encode it. The
  ICE accessors of \<open>session.rs\<close> are not modelled.
\<close>

section \<open>The tree\<close>

datatype sdp_address = Address_Ip ip_addr | Address_Host bytes

definition address_ip :: "sdp_address \<Rightarrow> ip_addr option" where
  "address_ip a = (case a of Address_Ip ip \<Rightarrow> Some ip | Address_Host _ \<Rightarrow> None)"

definition address_type :: "sdp_address \<Rightarrow> bytes" where
  "address_type a = (case a of Address_Ip (V6 _) \<Rightarrow> ascii ''IP6'' | _ \<Rightarrow> ascii ''IP4'')"

definition address_show :: "sdp_address \<Rightarrow> bytes" where
  "address_show a = (case a of Address_Ip ip \<Rightarrow> show_ip ip | Address_Host h \<Rightarrow> h)"

datatype direction = SendRecv | SendOnly | RecvOnly | Inactive

definition mirrored :: "direction \<Rightarrow> direction" where
  "mirrored d =
     (case d of SendRecv \<Rightarrow> SendRecv | SendOnly \<Rightarrow> RecvOnly | RecvOnly \<Rightarrow> SendOnly | Inactive \<Rightarrow> Inactive)"

definition direction_parse :: "bytes \<Rightarrow> direction option" where
  "direction_parse name =
     (if name = ascii ''sendrecv'' then Some SendRecv
      else if name = ascii ''sendonly'' then Some SendOnly
      else if name = ascii ''recvonly'' then Some RecvOnly
      else if name = ascii ''inactive'' then Some Inactive
      else None)"

definition direction_str :: "direction \<Rightarrow> bytes" where
  "direction_str d =
     (case d of SendRecv \<Rightarrow> ascii ''sendrecv'' | SendOnly \<Rightarrow> ascii ''sendonly''
      | RecvOnly \<Rightarrow> ascii ''recvonly'' | Inactive \<Rightarrow> ascii ''inactive'')"

definition sends :: "direction \<Rightarrow> bool" where
  "sends d \<longleftrightarrow> d = SendRecv \<or> d = SendOnly"

definition receives :: "direction \<Rightarrow> bool" where
  "receives d \<longleftrightarrow> d = SendRecv \<or> d = RecvOnly"

record attribute =
  at_name :: bytes
  at_value :: "bytes option"

definition attribute_flag :: "bytes \<Rightarrow> attribute" where
  "attribute_flag name = \<lparr>at_name = name, at_value = None\<rparr>"

definition attribute_valued :: "bytes \<Rightarrow> bytes \<Rightarrow> attribute" where
  "attribute_valued name v = \<lparr>at_name = name, at_value = Some v\<rparr>"

definition EOL :: bytes where
  "EOL = [13, 10]"

definition attribute_write :: "attribute \<Rightarrow> bytes" where
  "attribute_write a =
     (case at_value a of
        Some v \<Rightarrow> ascii ''a='' @ at_name a @ ascii '':'' @ v @ EOL
      | None \<Rightarrow> ascii ''a='' @ at_name a @ EOL)"

record origin =
  og_username :: bytes
  og_session_id :: u64
  og_session_version :: u64
  og_address :: sdp_address

definition origin_new :: "ip_addr \<Rightarrow> u64 \<Rightarrow> u64 \<Rightarrow> origin" where
  "origin_new address session_id session_version =
     \<lparr>og_username = ascii ''-'', og_session_id = session_id, og_session_version = session_version,
      og_address = Address_Ip address\<rparr>"

record connection =
  cn_address :: sdp_address

definition connection_new :: "ip_addr \<Rightarrow> connection" where
  "connection_new address = \<lparr>cn_address = Address_Ip address\<rparr>"

record timing =
  tm_start :: u64
  tm_stop :: u64

definition timing_default :: timing where
  "timing_default = \<lparr>tm_start = 0, tm_stop = 0\<rparr>"

record media_description =
  md_media :: bytes
  md_port :: u16
  md_protocol :: bytes
  md_formats :: "bytes list"
  md_connection :: "connection option"
  md_attributes :: "attribute list"
  md_other :: "(bytes \<times> bytes) list"

record session_description =
  sd_origin :: origin
  sd_session_name :: bytes
  sd_connection :: "connection option"
  sd_timing :: "timing list"
  sd_attributes :: "attribute list"
  sd_media :: "media_description list"
  sd_other :: "(bytes \<times> bytes) list"

section \<open>Views of a stream\<close>

definition media_audio :: "u16 \<Rightarrow> bytes list \<Rightarrow> media_description" where
  "media_audio port formats =
     \<lparr>md_media = ascii ''audio'', md_port = port, md_protocol = ascii ''RTP/AVP'', md_formats = formats,
      md_connection = None, md_attributes = [], md_other = []\<rparr>"

definition is_rejected :: "media_description \<Rightarrow> bool" where
  "is_rejected m \<longleftrightarrow> md_port m = 0"

definition attribute_direction :: "attribute \<Rightarrow> direction option" where
  "attribute_direction a = (if at_value a = None then direction_parse (at_name a) else None)"

definition declared_direction :: "media_description \<Rightarrow> direction option" where
  "declared_direction m = find_map attribute_direction (md_attributes m)"

definition media_direction :: "media_description \<Rightarrow> direction" where
  "media_direction m = unwrap_or (declared_direction m) SendRecv"

definition set_direction :: "media_description \<Rightarrow> direction \<Rightarrow> media_description" where
  "set_direction m d =
     m\<lparr>md_attributes := filter (\<lambda>a. \<not> (at_value a = None \<and> direction_parse (at_name a) \<noteq> None)) (md_attributes m)
        @ [attribute_flag (direction_str d)]\<rparr>"

definition has_flag :: "attribute list \<Rightarrow> string \<Rightarrow> bool" where
  "has_flag as name \<longleftrightarrow> list_ex (\<lambda>a. at_name a = ascii name \<and> at_value a = None) as"

definition rtcp_mux :: "media_description \<Rightarrow> bool" where
  "rtcp_mux m \<longleftrightarrow> has_flag (md_attributes m) ''rtcp-mux''"

definition media_attribute :: "media_description \<Rightarrow> bytes \<Rightarrow> attribute option" where
  "media_attribute m name = find (\<lambda>a. at_name a = name) (md_attributes m)"

definition attribute_value :: "attribute list \<Rightarrow> string \<Rightarrow> bytes option" where
  "attribute_value as name = Option.bind (find (\<lambda>a. at_name a = ascii name) as) at_value"

definition rtpmap :: "media_description \<Rightarrow> bytes \<Rightarrow> bytes option" where
  "rtpmap m format =
     find_map (\<lambda>a.
       if at_name a \<noteq> ascii ''rtpmap'' then None
       else Option.bind (at_value a) (\<lambda>v.
            Option.bind (split_once 32 v) (\<lambda>(payload, rest).
              if payload = format then Some rest else None))) (md_attributes m)"

datatype rtcp_mode = Separate | Mux

definition from_exchange :: "media_description \<Rightarrow> media_description \<Rightarrow> rtcp_mode" where
  "from_exchange offer answer =
     (if \<not> is_rejected offer \<and> \<not> is_rejected answer \<and> rtcp_mux offer \<and> rtcp_mux answer then Mux else Separate)"

section \<open>Writing\<close>

definition write_other_lines :: "(bytes \<times> bytes) list \<Rightarrow> (bytes \<Rightarrow> bool) \<Rightarrow> bytes" where
  "write_other_lines lines keep =
     concat (map (\<lambda>(kind, v). kind @ ascii ''='' @ v @ EOL) (filter (\<lambda>(kind, v). keep kind) lines))"

definition connection_write :: "connection option \<Rightarrow> bytes" where
  "connection_write c =
     (case c of
        None \<Rightarrow> []
      | Some conn \<Rightarrow>
          ascii ''c=IN '' @ address_type (cn_address conn) @ ascii '' '' @ address_show (cn_address conn) @ EOL)"

definition media_write :: "media_description \<Rightarrow> bytes" where
  "media_write m =
     ascii ''m='' @ md_media m @ ascii '' '' @ decimal (unat (md_port m)) @ ascii '' '' @ md_protocol m @
     concat (map (\<lambda>f. ascii '' '' @ f) (md_formats m)) @ EOL @
     write_other_lines (md_other m) (\<lambda>kind. kind = ascii ''i'') @
     connection_write (md_connection m) @
     write_other_lines (md_other m) (\<lambda>kind. kind \<noteq> ascii ''i'') @
     concat (map attribute_write (md_attributes m))"

definition sd_new :: "ip_addr \<Rightarrow> u64 \<Rightarrow> u64 \<Rightarrow> session_description" where
  "sd_new address session_id session_version =
     \<lparr>sd_origin = origin_new address session_id session_version, sd_session_name = ascii ''-'',
      sd_connection = Some (connection_new address), sd_timing = [timing_default],
      sd_attributes = [], sd_media = [], sd_other = []\<rparr>"

definition address_for :: "session_description \<Rightarrow> media_description \<Rightarrow> ip_addr option" where
  "address_for d m =
     Option.bind (case md_connection m of Some c \<Rightarrow> Some c | None \<Rightarrow> sd_connection d)
       (\<lambda>c. address_ip (cn_address c))"

definition sd_direction :: "session_description \<Rightarrow> direction" where
  "sd_direction d = unwrap_or (find_map attribute_direction (sd_attributes d)) SendRecv"

definition origin_line :: "origin \<Rightarrow> bytes" where
  "origin_line o' =
     ascii ''o='' @ og_username o' @ ascii '' '' @ decimal (unat (og_session_id o')) @ ascii '' '' @
     decimal (unat (og_session_version o')) @ ascii '' IN '' @ address_type (og_address o') @ ascii '' '' @
     address_show (og_address o')"

definition timing_write :: "timing \<Rightarrow> bytes" where
  "timing_write t = ascii ''t='' @ decimal (unat (tm_start t)) @ ascii '' '' @ decimal (unat (tm_stop t)) @ EOL"

definition before_connection :: "bytes \<Rightarrow> bool" where
  "before_connection kind \<longleftrightarrow> kind \<in> {ascii ''i'', ascii ''u'', ascii ''e'', ascii ''p''}"

definition to_string_sdp :: "session_description \<Rightarrow> bytes" where
  "to_string_sdp d =
     ascii ''v=0'' @ EOL @
     origin_line (sd_origin d) @ EOL @
     ascii ''s='' @ sd_session_name d @ EOL @
     write_other_lines (sd_other d) before_connection @
     connection_write (sd_connection d) @
     write_other_lines (sd_other d) (\<lambda>kind. kind = ascii ''b'') @
     (if sd_timing d = [] then ascii ''t=0 0'' @ EOL else []) @
     concat (map timing_write (sd_timing d)) @
     write_other_lines (sd_other d) (\<lambda>kind. \<not> (before_connection kind \<or> kind = ascii ''b'')) @
     concat (map attribute_write (sd_attributes d)) @
     concat (map media_write (sd_media d))"

section \<open>Reading\<close>

datatype sdp_error = MalformedLine bytes | Missing string | Invalid string bytes

definition parse_address :: "bytes \<Rightarrow> sdp_address" where
  "parse_address raw = (case parse_ip raw of Some ip \<Rightarrow> Address_Ip ip | None \<Rightarrow> Address_Host raw)"

definition parse_u64_word :: "bytes \<Rightarrow> u64 option" where
  "parse_u64_word v = map_option of_nat (parse_uint 18446744073709551616 v)"

definition parse_origin :: "bytes \<Rightarrow> (sdp_error, origin) result" where
  "parse_origin v =
     (let parts = split_whitespace v in
        bind_res (ok_or (Invalid ''origin session id'' v) (Option.bind (get_at parts 1) parse_u64_word)) (\<lambda>session_id.
        bind_res (ok_or (Invalid ''origin session version'' v) (Option.bind (get_at parts 2) parse_u64_word)) (\<lambda>session_version.
        bind_res (ok_or (Invalid ''origin address'' v) (map_option parse_address (get_at parts 5))) (\<lambda>address.
          Inr \<lparr>og_username = unwrap_or (get_at parts 0) (ascii ''-''), og_session_id = session_id,
               og_session_version = session_version, og_address = address\<rparr>))))"

definition parse_connection :: "bytes \<Rightarrow> (sdp_error, connection) result" where
  "parse_connection v =
     bind_res
       (ok_or (Invalid ''connection address'' v)
          (map_option parse_address
             (Option.bind (get_at (split_whitespace v) 2)
                (\<lambda>raw. let a = takeWhile (\<lambda>b. b \<noteq> ch CHR ''/'') raw in if a = [] then None else Some a))))
       (\<lambda>address. Inr \<lparr>cn_address = address\<rparr>)"

definition parse_timing :: "bytes \<Rightarrow> timing" where
  "parse_timing v =
     (let parts = split_whitespace v in
        \<lparr>tm_start = unwrap_or (Option.bind (get_at parts 0) parse_u64_word) 0,
         tm_stop = unwrap_or (Option.bind (get_at parts 1) parse_u64_word) 0\<rparr>)"

definition parse_media :: "bytes \<Rightarrow> (sdp_error, media_description) result" where
  "parse_media v =
     (let parts = split_whitespace v in
        bind_res (ok_or (Invalid ''media type'' v) (get_at parts 0)) (\<lambda>media.
        bind_res
          (ok_or (Invalid ''media port'' v)
             (Option.bind (get_at parts 1) (\<lambda>raw. parse_uint 65536 (takeWhile (\<lambda>b. b \<noteq> ch CHR ''/'') raw)))) (\<lambda>port.
        bind_res (ok_or (Invalid ''media protocol'' v) (get_at parts 2)) (\<lambda>protocol.
          let formats = drop 3 parts in
            if formats = [] then Inl (Invalid ''media formats'' v)
            else Inr \<lparr>md_media = media, md_port = of_nat port, md_protocol = protocol, md_formats = formats,
                      md_connection = None, md_attributes = [], md_other = []\<rparr>))))"

definition parse_attribute :: "bytes \<Rightarrow> attribute" where
  "parse_attribute v =
     (case split_once (ch CHR '':'') v of
        Some (name, rest) \<Rightarrow> attribute_valued name rest
      | None \<Rightarrow> attribute_flag v)"

text \<open>The variables of \<open>parse\<close>.\<close>

record sdp_state =
  st_origin :: "origin option"
  st_session_name :: "bytes option"
  st_connection :: "connection option"
  st_timing :: "timing list"
  st_attributes :: "attribute list"
  st_media :: "media_description list"
  st_other :: "(bytes \<times> bytes) list"

definition sdp_init :: sdp_state where
  "sdp_init =
     \<lparr>st_origin = None, st_session_name = None, st_connection = None, st_timing = [],
      st_attributes = [], st_media = [], st_other = []\<rparr>"

text \<open>\<open>media.last_mut()\<close>: the stream a line belongs to is changed, or the session when there is none.\<close>

definition in_stream ::
  "(media_description \<Rightarrow> media_description) \<Rightarrow> (sdp_state \<Rightarrow> sdp_state) \<Rightarrow> sdp_state \<Rightarrow> sdp_state" where
  "in_stream f g st =
     (if st_media st = [] then g st
      else st\<lparr>st_media := butlast (st_media st) @ [f (last (st_media st))]\<rparr>)"

text \<open>The first character of a string, and \<open>get(2..)\<close>: nothing when the index splits a character.\<close>

definition first_char :: "bytes \<Rightarrow> bytes" where
  "first_char line =
     (case line of
        [] \<Rightarrow> []
      | b # rest \<Rightarrow> take (case utf8_step b rest of Inr n \<Rightarrow> n | Inl n \<Rightarrow> n) line)"

definition from_two :: "bytes \<Rightarrow> bytes" where
  "from_two line =
     (case drop 2 line of
        [] \<Rightarrow> []
      | b # rest \<Rightarrow> if is_continuation b then [] else b # rest)"

definition sdp_line :: "sdp_state \<Rightarrow> bytes \<Rightarrow> (sdp_error, sdp_state) result" where
  "sdp_line st raw =
     (let line = trim_end_cr raw in
        if line = [] then Inr st
        else
          (let kind = first_char line in
             if get_at line (length kind) \<noteq> Some (ch CHR ''='') then Inl (MalformedLine line)
             else
               (let v = from_two line in
                  if kind = ascii ''v'' then Inr st
                  else if kind = ascii ''o'' then
                    bind_res (parse_origin v) (\<lambda>o'. Inr (st\<lparr>st_origin := Some o'\<rparr>))
                  else if kind = ascii ''s'' then
                    Inr (if v = [] then st else st\<lparr>st_session_name := Some v\<rparr>)
                  else if kind = ascii ''c'' then
                    bind_res (parse_connection v) (\<lambda>c.
                      Inr (in_stream (\<lambda>m. m\<lparr>md_connection := Some c\<rparr>) (\<lambda>st. st\<lparr>st_connection := Some c\<rparr>) st))
                  else if kind = ascii ''t'' then Inr (st\<lparr>st_timing := st_timing st @ [parse_timing v]\<rparr>)
                  else if kind = ascii ''m'' then
                    bind_res (parse_media v) (\<lambda>m. Inr (st\<lparr>st_media := st_media st @ [m]\<rparr>))
                  else if kind = ascii ''a'' then
                    (let a = parse_attribute v in
                       Inr (in_stream (\<lambda>m. m\<lparr>md_attributes := md_attributes m @ [a]\<rparr>)
                             (\<lambda>st. st\<lparr>st_attributes := st_attributes st @ [a]\<rparr>) st))
                  else
                    Inr (in_stream (\<lambda>m. m\<lparr>md_other := md_other m @ [(kind, v)]\<rparr>)
                          (\<lambda>st. st\<lparr>st_other := st_other st @ [(kind, v)]\<rparr>) st))))"

fun sdp_lines :: "sdp_state \<Rightarrow> bytes list \<Rightarrow> (sdp_error, sdp_state) result" where
  "sdp_lines st [] = Inr st"
| "sdp_lines st (l # ls) = bind_res (sdp_line st l) (\<lambda>st'. sdp_lines st' ls)"

definition sdp_parse :: "bytes \<Rightarrow> (sdp_error, session_description) result" where
  "sdp_parse input =
     bind_res (sdp_lines sdp_init (str_lines input)) (\<lambda>st.
     bind_res (ok_or (Missing ''o='') (st_origin st)) (\<lambda>o'.
       Inr \<lparr>sd_origin = o', sd_session_name = unwrap_or (st_session_name st) (ascii ''-''),
            sd_connection = st_connection st, sd_timing = st_timing st, sd_attributes = st_attributes st,
            sd_media = st_media st, sd_other = st_other st\<rparr>))"

end
