(* ===== verification/Sdp_Text.thy ===== *)
theory Sdp_Text
  imports Sdp_Session
begin

text \<open>
  Reading and writing session descriptions (\<open>sipx-sdp/src/parse.rs\<close>, \<open>session.rs\<close>): what is read is
  written so that it reads back the same, up to the order of the lines that are only carried, and
  what this side authors reads back exactly.
\<close>

section \<open>Well-formed descriptions\<close>

definition clean :: "bytes \<Rightarrow> bool" where
  "clean v \<longleftrightarrow> 10 \<notin> set v \<and> (v = [] \<or> last v \<noteq> 13)"

text \<open>A value whose first octet starts a character, as every value of a \<open>str\<close> does.\<close>

definition plain_value :: "bytes \<Rightarrow> bool" where
  "plain_value v \<longleftrightarrow> clean v \<and> (v = [] \<or> \<not> is_continuation (hd v))"

definition address_ok :: "sdp_address \<Rightarrow> bool" where
  "address_ok a = (case a of Address_Ip ip \<Rightarrow> ip_ok ip | Address_Host h \<Rightarrow> wordy h \<and> parse_ip h = None)"

definition connection_ok :: "connection option \<Rightarrow> bool" where
  "connection_ok c =
     (case c of None \<Rightarrow> True | Some conn \<Rightarrow> address_ok (cn_address conn) \<and> 47 \<notin> set (address_show (cn_address conn)))"

definition origin_ok :: "origin \<Rightarrow> bool" where
  "origin_ok o' \<longleftrightarrow> wordy (og_username o') \<and> address_ok (og_address o')"

definition attribute_text :: "attribute \<Rightarrow> bytes" where
  "attribute_text a = at_name a @ (case at_value a of None \<Rightarrow> [] | Some v \<Rightarrow> 58 # v)"

definition attribute_ok :: "attribute \<Rightarrow> bool" where
  "attribute_ok a \<longleftrightarrow> 58 \<notin> set (at_name a) \<and> plain_value (attribute_text a)"

definition carried_letter :: "u8 \<Rightarrow> bool" where
  "carried_letter b \<longleftrightarrow> b < 0x80 \<and> b \<noteq> 10 \<and> b \<notin> set (ascii ''vosctma'')"

definition other_ok :: "bytes \<times> bytes \<Rightarrow> bool" where
  "other_ok kv \<longleftrightarrow> (\<exists>b. fst kv = [b] \<and> carried_letter b) \<and> plain_value (snd kv)"

definition media_ok :: "media_description \<Rightarrow> bool" where
  "media_ok m \<longleftrightarrow> wordy (md_media m) \<and> wordy (md_protocol m) \<and> md_formats m \<noteq> [] \<and>
     list_all wordy (md_formats m) \<and> connection_ok (md_connection m) \<and>
     list_all attribute_ok (md_attributes m) \<and> list_all other_ok (md_other m)"

definition description_ok :: "session_description \<Rightarrow> bool" where
  "description_ok d \<longleftrightarrow> origin_ok (sd_origin d) \<and> plain_value (sd_session_name d) \<and> sd_session_name d \<noteq> [] \<and>
     connection_ok (sd_connection d) \<and> list_all attribute_ok (sd_attributes d) \<and>
     list_all media_ok (sd_media d) \<and> list_all other_ok (sd_other d)"

text \<open>The order in which carried lines are written.\<close>

definition media_normal :: "media_description \<Rightarrow> media_description" where
  "media_normal m = m\<lparr>md_other := filter (\<lambda>kv. fst kv = ascii ''i'') (md_other m)
      @ filter (\<lambda>kv. fst kv \<noteq> ascii ''i'') (md_other m)\<rparr>"

definition normal :: "session_description \<Rightarrow> session_description" where
  "normal d = d\<lparr>sd_timing := (if sd_timing d = [] then [timing_default] else sd_timing d),
     sd_media := map media_normal (sd_media d),
     sd_other := filter (\<lambda>kv. before_connection (fst kv)) (sd_other d) @ filter (\<lambda>kv. fst kv = ascii ''b'') (sd_other d)
       @ filter (\<lambda>kv. \<not> (before_connection (fst kv) \<or> fst kv = ascii ''b'')) (sd_other d)\<rparr>"

section \<open>Lines\<close>

lemma clean_simps [simp]:
  "clean []" "clean (v @ [b]) \<longleftrightarrow> 10 \<notin> set v \<and> b \<noteq> 10 \<and> b \<noteq> 13"
  by (auto simp: clean_def)

lemma clean_append: "v \<noteq> [] \<Longrightarrow> clean (u @ v) \<longleftrightarrow> 10 \<notin> set u \<and> clean v"
  by (auto simp: clean_def)

lemma trim_end_cr_clean: "clean l \<Longrightarrow> trim_end_cr l = l"
  by (cases l rule: rev_cases) (auto simp: trim_end_cr_def)

lemma str_lines_eol:
  assumes "\<And>l. l \<in> set ls \<Longrightarrow> 10 \<notin> set l"
  shows "str_lines (concat (map (\<lambda>l. l @ EOL) ls)) = ls"
proof -
  have "split_on 10 (concat (map (\<lambda>l. l @ EOL) ls)) = map (\<lambda>l. l @ [13]) ls @ [[]]"
    using assms
  proof (induction ls)
    case (Cons l ls)
    then have "10 \<notin> set (l @ [13])"
      by simp
    then show ?case
      using Cons split_on_append [of 10 "l @ [13]" "concat (map (\<lambda>l. l @ EOL) ls)"] by (simp add: EOL_def)
  qed simp
  then show ?thesis
    by (simp add: str_lines_def strip_cr_def comp_def)
qed

lemma sdp_lines_append: "sdp_lines st (xs @ ys) = bind_res (sdp_lines st xs) (\<lambda>st'. sdp_lines st' ys)"
  by (induction xs arbitrary: st) (simp_all add: bind_res_def split: sum.split)

lemma sdp_lines_then: "sdp_lines st xs = Inr st' \<Longrightarrow> sdp_lines st (xs @ ys) = sdp_lines st' ys"
  by (simp add: sdp_lines_append)

lemma first_char_ascii: "b < 0x80 \<Longrightarrow> first_char (b # r) = [b]"
  by (simp add: first_char_def utf8_step_def Let_def)

lemma from_two_plain: "plain_value v \<Longrightarrow> from_two (b # c # v) = v"
  by (cases v) (auto simp: from_two_def plain_value_def)

text \<open>A line of one letter, an equals sign and a value, as the reader takes it apart.\<close>

lemma line_parts:
  assumes "b < 0x80" "b \<noteq> 10" "plain_value v"
  shows "trim_end_cr (b # 61 # v) = b # 61 # v" "first_char (b # 61 # v) = [b]" "from_two (b # 61 # v) = v"
    "get_at (b # 61 # v) (Suc 0) = Some 61"
  using assms from_two_plain [OF assms(3)] first_char_ascii [OF assms(1)]
  by (auto simp: plain_value_def clean_def get_at_def intro!: trim_end_cr_clean)

lemma sdp_line_carried:
  assumes "other_ok (k, v)"
  shows "sdp_line st (k @ 61 # v) =
    Inr (in_stream (\<lambda>m. m\<lparr>md_other := md_other m @ [(k, v)]\<rparr>) (\<lambda>st. st\<lparr>st_other := st_other st @ [(k, v)]\<rparr>) st)"
proof -
  obtain b where b: "k = [b]" "carried_letter b" "plain_value v"
    using assms by (auto simp: other_ok_def)
  then show ?thesis
    using line_parts [of b v] by (simp add: sdp_line_def carried_letter_def ascii_def Let_def)
qed

lemma sdp_line_known:
  assumes "plain_value v"
  shows "sdp_line st (111 # 61 # v) = bind_res (parse_origin v) (\<lambda>o'. Inr (st\<lparr>st_origin := Some o'\<rparr>))"
    "sdp_line st (115 # 61 # v) = Inr (if v = [] then st else st\<lparr>st_session_name := Some v\<rparr>)"
    "sdp_line st (99 # 61 # v) = bind_res (parse_connection v) (\<lambda>c.
       Inr (in_stream (\<lambda>m. m\<lparr>md_connection := Some c\<rparr>) (\<lambda>st. st\<lparr>st_connection := Some c\<rparr>) st))"
    "sdp_line st (116 # 61 # v) = Inr (st\<lparr>st_timing := st_timing st @ [parse_timing v]\<rparr>)"
    "sdp_line st (109 # 61 # v) = bind_res (parse_media v) (\<lambda>m. Inr (st\<lparr>st_media := st_media st @ [m]\<rparr>))"
    "sdp_line st (97 # 61 # v) = Inr (in_stream (\<lambda>m. m\<lparr>md_attributes := md_attributes m @ [parse_attribute v]\<rparr>)
       (\<lambda>st. st\<lparr>st_attributes := st_attributes st @ [parse_attribute v]\<rparr>) st)"
    "sdp_line st (118 # 61 # v) = Inr st"
  using line_parts [OF _ _ assms, of 111] line_parts [OF _ _ assms, of 115] line_parts [OF _ _ assms, of 99]
    line_parts [OF _ _ assms, of 116] line_parts [OF _ _ assms, of 109] line_parts [OF _ _ assms, of 97]
    line_parts [OF _ _ assms, of 118]
  by (simp_all add: sdp_line_def ascii_def Let_def)

section \<open>Words on a line\<close>

lemma wordy_head: "wordy w \<Longrightarrow> \<exists>b r. w = b # r \<and> b \<noteq> 13"
  using wordy_octets [of w] by (cases w) (auto simp: wordy_def)

lemma wordy_last: "wordy w \<Longrightarrow> w \<noteq> [] \<and> last w \<noteq> 13 \<and> 10 \<notin> set w"
  using wordy_octets [of w] last_in_set [of w] by (auto simp: wordy_def)

lemma wordy_prefix: "wordy (p @ r) \<Longrightarrow> p \<noteq> [] \<Longrightarrow> wordy p"
proof -
  have "take_word (p @ r) = p @ r \<Longrightarrow> take_word p = p" for p
  proof (induction p)
    case (Cons b p)
    then show ?case
      using white_prefix_mono [of "b # p" r] by (auto split: if_splits)
  qed simp
  then show "wordy (p @ r) \<Longrightarrow> p \<noteq> [] \<Longrightarrow> wordy p"
    by (simp add: wordy_def)
qed

lemma join_words_clean:
  assumes "\<And>w. w \<in> set ws \<Longrightarrow> wordy w"
  shows "clean (join_bytes [32] ws)"
  using assms
proof (induction ws rule: induct_list012)
  case (2 w)
  then show ?case
    using wordy_last [of w] by (simp add: clean_def)
next
  case (3 w v ws)
  have "join_bytes [32] (v # ws) \<noteq> []"
    using 3(3) [of v] by (cases ws) (auto simp: wordy_def)
  then have "clean (w @ 32 # join_bytes [32] (v # ws)) \<longleftrightarrow> 10 \<notin> set w \<and> clean (join_bytes [32] (v # ws))"
    by (auto simp: clean_def)
  then show ?case
    using 3 wordy_last [of w] by simp
qed simp

lemma join_words_value:
  assumes "\<And>w. w \<in> set ws \<Longrightarrow> wordy w" "ws \<noteq> []" "\<not> is_continuation (hd (hd ws))"
  shows "plain_value (join_bytes [32] ws)"
proof -
  obtain w vs where ws: "ws = w # vs"
    using assms(2) by (cases ws) auto
  have "hd (join_bytes [32] ws) = hd w"
    using assms(1) [of w] by (cases vs) (auto simp: ws wordy_def)
  then show ?thesis
    using join_words_clean [of ws] assms(1,3) by (simp add: plain_value_def ws)
qed

lemma ascii_not_continuation: "b < 0x80 \<Longrightarrow> \<not> is_continuation b"
  by (auto simp: is_continuation_def)

lemma decimal_value_plain: "\<not> is_continuation (hd (decimal n))" "decimal n \<noteq> []"
  using decimal_plain [of "hd (decimal n)" n] decimal_digits(2) [of n] by (auto simp: is_continuation_def)

lemma fixed_words: "wordy (ascii ''IN'')" "wordy (address_type a)"
proof -
  have "wordy (ascii ''IN'')" "wordy (ascii ''IP4'')" "wordy (ascii ''IP6'')"
    by code_simp+
  then show "wordy (ascii ''IN'')" "wordy (address_type a)"
    by (auto simp: address_type_def split: sdp_address.split ip_addr.split)
qed

lemma address_wordy: "address_ok a \<Longrightarrow> wordy (address_show a)"
  using show_ip_plain show_ip_nonempty
  by (auto simp: address_ok_def address_show_def intro: ascii_wordy split: sdp_address.splits)

lemma parse_address_show: "address_ok a \<Longrightarrow> parse_address (address_show a) = a"
  using parse_show_ip by (auto simp: address_ok_def address_show_def parse_address_def split: sdp_address.splits)

lemma parse_u64_decimal: "parse_u64_word (decimal (unat n)) = Some n"
  using parse_uint_decimal [of "unat n" 18446744073709551616] unat_bounds(4) [of n]
  by (simp add: parse_u64_word_def)

definition origin_words :: "origin \<Rightarrow> bytes list" where
  "origin_words o' = [og_username o', decimal (unat (og_session_id o')), decimal (unat (og_session_version o')),
     ascii ''IN'', address_type (og_address o'), address_show (og_address o')]"

lemma origin_words_wordy: "origin_ok o' \<Longrightarrow> w \<in> set (origin_words o') \<Longrightarrow> wordy w"
  using decimal_wordy fixed_words address_wordy by (auto simp: origin_words_def origin_ok_def)

lemma origin_line_words: "origin_line o' = 111 # 61 # join_bytes [32] (origin_words o')"
  by (simp add: origin_line_def origin_words_def ascii_def)

lemma parse_origin_written: "origin_ok o' \<Longrightarrow> parse_origin (join_bytes [32] (origin_words o')) = Inr o'"
  using split_join_words [of "origin_words o'"] origin_words_wordy [of o']
  by (simp add: parse_origin_def origin_words_def get_at_def parse_u64_decimal origin_ok_def parse_address_show)

definition connection_words :: "connection \<Rightarrow> bytes list" where
  "connection_words c = [ascii ''IN'', address_type (cn_address c), address_show (cn_address c)]"

lemma takeWhile_none: "b \<notin> set xs \<Longrightarrow> takeWhile (\<lambda>x. x \<noteq> b) xs = xs"
  by (simp add: takeWhile_eq_all_conv) metis

lemma parse_connection_written:
  assumes "connection_ok (Some c)"
  shows "parse_connection (join_bytes [32] (connection_words c)) = Inr c"
proof -
  have ok: "address_ok (cn_address c)" "47 \<notin> set (address_show (cn_address c))"
    using assms by (simp_all add: connection_ok_def)
  have "split_whitespace (join_bytes [32] (connection_words c)) = connection_words c"
    using ok fixed_words address_wordy by (intro split_join_words) (auto simp: connection_words_def)
  moreover have "address_show (cn_address c) \<noteq> []"
    using address_wordy [OF ok(1)] by (simp add: wordy_def)
  ultimately show ?thesis
    using ok(1)
    by (simp add: parse_connection_def connection_words_def get_at_def parse_address_show Let_def
        takeWhile_none [OF ok(2)])
qed

definition timing_words :: "timing \<Rightarrow> bytes list" where
  "timing_words t = [decimal (unat (tm_start t)), decimal (unat (tm_stop t))]"

lemma parse_timing_written: "parse_timing (join_bytes [32] (timing_words t)) = t"
proof -
  have "split_whitespace (join_bytes [32] (timing_words t)) = timing_words t"
    using decimal_wordy by (intro split_join_words) (auto simp: timing_words_def)
  then show ?thesis
    by (simp add: parse_timing_def get_at_def timing_words_def parse_u64_decimal)
qed

definition media_words :: "media_description \<Rightarrow> bytes list" where
  "media_words m = md_media m # decimal (unat (md_port m)) # md_protocol m # md_formats m"

lemma media_words_wordy: "media_ok m \<Longrightarrow> w \<in> set (media_words m) \<Longrightarrow> wordy w"
  using decimal_wordy by (auto simp: media_words_def media_ok_def list_all_iff)

lemma parse_media_written:
  assumes "media_ok m"
  shows "parse_media (join_bytes [32] (media_words m)) =
    Inr (m\<lparr>md_connection := None, md_attributes := [], md_other := []\<rparr>)"
proof -
  have "split_whitespace (join_bytes [32] (media_words m)) = media_words m"
    using media_words_wordy [OF assms] by (intro split_join_words)
  moreover have slash: "47 \<notin> set (decimal (unat (md_port m)))"
    using decimal_plain by auto
  have "parse_uint 65536 (takeWhile (\<lambda>b. b \<noteq> 47) (decimal (unat (md_port m)))) = Some (unat (md_port m))"
    unfolding takeWhile_none [OF slash] using unat_bounds(2) [of "md_port m"] by (rule parse_uint_decimal)
  ultimately show ?thesis
    using assms by (cases m) (simp add: parse_media_def media_words_def get_at_def media_ok_def)
qed

lemma join_words_formats: "join_bytes [32] (w # ws) = w @ concat (map (\<lambda>f. 32 # f) ws)"
  by (induction ws arbitrary: w) auto

lemma parse_attribute_written:
  assumes "attribute_ok a"
  shows "parse_attribute (attribute_text a) = a"
proof (cases "at_value a")
  case None
  have none: "58 \<notin> set l \<Longrightarrow> position (\<lambda>b. b = (58 :: u8)) l = None" for l
    by (induction l) auto
  show ?thesis
    using assms None none [of "at_name a"]
    by (cases a) (simp add: parse_attribute_def attribute_text_def attribute_ok_def split_once_def attribute_flag_def)
next
  case (Some v)
  then have "position (\<lambda>b. b = 58) (at_name a @ 58 # v) = Some (length (at_name a))"
    using assms by (intro position_skip) (auto simp: attribute_ok_def list_all_iff)
  then show ?thesis
    using Some by (cases a) (simp add: parse_attribute_def attribute_text_def split_once_def attribute_valued_def)
qed

section \<open>Reading back what was written\<close>

definition media_lines :: "media_description \<Rightarrow> bytes list" where
  "media_lines m = (109 # 61 # join_bytes [32] (media_words m)) #
     map (\<lambda>(k, v). k @ 61 # v) (filter (\<lambda>kv. fst kv = ascii ''i'') (md_other m)) @
     (case md_connection m of None \<Rightarrow> [] | Some c \<Rightarrow> [99 # 61 # join_bytes [32] (connection_words c)]) @
     map (\<lambda>(k, v). k @ 61 # v) (filter (\<lambda>kv. fst kv \<noteq> ascii ''i'') (md_other m)) @
     map (\<lambda>a. 97 # 61 # attribute_text a) (md_attributes m)"

definition description_lines :: "session_description \<Rightarrow> bytes list" where
  "description_lines d =
     [118 # 61 # [48], 111 # 61 # join_bytes [32] (origin_words (sd_origin d)), 115 # 61 # sd_session_name d] @
     map (\<lambda>(k, v). k @ 61 # v) (filter (\<lambda>kv. before_connection (fst kv)) (sd_other d)) @
     (case sd_connection d of None \<Rightarrow> [] | Some c \<Rightarrow> [99 # 61 # join_bytes [32] (connection_words c)]) @
     map (\<lambda>(k, v). k @ 61 # v) (filter (\<lambda>kv. fst kv = ascii ''b'') (sd_other d)) @
     map (\<lambda>t. 116 # 61 # join_bytes [32] (timing_words t)) (if sd_timing d = [] then [timing_default] else sd_timing d) @
     map (\<lambda>(k, v). k @ 61 # v) (filter (\<lambda>kv. \<not> (before_connection (fst kv) \<or> fst kv = ascii ''b'')) (sd_other d)) @
     map (\<lambda>a. 97 # 61 # attribute_text a) (sd_attributes d) @
     concat (map media_lines (sd_media d))"

lemma other_lines_written:
  "write_other_lines os keep = concat (map (\<lambda>l. l @ EOL) (map (\<lambda>(k, v). k @ 61 # v) (filter (\<lambda>kv. keep (fst kv)) os)))"
  by (induction os) (auto simp: write_other_lines_def ascii_def)

lemma attributes_written:
  "concat (map attribute_write as) = concat (map (\<lambda>l. l @ EOL) (map (\<lambda>a. 97 # 61 # attribute_text a) as))"
  by (induction as) (auto simp: attribute_write_def attribute_text_def ascii_def split: option.split)

lemma connection_written:
  "connection_write c = concat (map (\<lambda>l. l @ EOL)
     (case c of None \<Rightarrow> [] | Some c \<Rightarrow> [99 # 61 # join_bytes [32] (connection_words c)]))"
  by (simp add: connection_write_def connection_words_def ascii_def split: option.split)

lemma media_written: "media_write m = concat (map (\<lambda>l. l @ EOL) (media_lines m))"
  by (simp add: media_write_def media_lines_def other_lines_written attributes_written connection_written
      media_words_def ascii_def join_words_formats)

lemma media_all_written:
  "concat (map media_write ms) = concat (map (\<lambda>l. l @ EOL) (concat (map media_lines ms)))"
  by (induction ms) (simp_all add: media_written)

lemma timings_written:
  "concat (map timing_write ts) = concat (map (\<lambda>l. l @ EOL) (map (\<lambda>t. 116 # 61 # join_bytes [32] (timing_words t)) ts))"
  by (induction ts) (simp_all add: timing_write_def timing_words_def ascii_def)

lemma description_written: "to_string_sdp d = concat (map (\<lambda>l. l @ EOL) (description_lines d))"
proof -
  have zero: "decimal 0 = [48]"
    by (simp add: decimal.simps)
  have o': "origin_line (sd_origin d) = 111 # 61 # join_bytes [32] (origin_words (sd_origin d))"
    by (rule origin_line_words)
  show ?thesis
    by (simp add: to_string_sdp_def description_lines_def other_lines_written attributes_written
        connection_written timings_written media_all_written o' timing_words_def timing_default_def zero)
      (simp add: ascii_def)
qed

lemma in_stream_last [simp]:
  "in_stream f g (st\<lparr>st_media := ms @ [m]\<rparr>) = st\<lparr>st_media := ms @ [f m]\<rparr>"
  by (simp add: in_stream_def)

lemma in_stream_session: "st_media st = [] \<Longrightarrow> in_stream f g st = g st"
  by (simp add: in_stream_def)

lemma words_values:
  "origin_ok o' \<Longrightarrow> \<not> is_continuation (hd (og_username o')) \<Longrightarrow> plain_value (join_bytes [32] (origin_words o'))"
  "connection_ok (Some c) \<Longrightarrow> plain_value (join_bytes [32] (connection_words c))"
  "plain_value (join_bytes [32] (timing_words t))"
  "media_ok m \<Longrightarrow> \<not> is_continuation (hd (md_media m)) \<Longrightarrow> plain_value (join_bytes [32] (media_words m))"
  subgoal
    using origin_words_wordy [of o'] by (intro join_words_value) (auto simp: origin_words_def)
  subgoal
    using fixed_words address_wordy
    by (intro join_words_value) (auto simp: connection_words_def connection_ok_def ascii_def is_continuation_def)
  subgoal
    using decimal_wordy decimal_value_plain by (intro join_words_value) (auto simp: timing_words_def)
  subgoal
    using media_words_wordy [of m] by (intro join_words_value) (auto simp: media_words_def)
  done

lemma read_others_stream:
  "list_all other_ok os \<Longrightarrow>
    sdp_lines (st\<lparr>st_media := ms @ [m]\<rparr>) (map (\<lambda>(k, v). k @ 61 # v) os)
      = Inr (st\<lparr>st_media := ms @ [m\<lparr>md_other := md_other m @ os\<rparr>]\<rparr>)"
proof (induction os arbitrary: m)
  case (Cons kv os)
  obtain k v where kv: "kv = (k, v)"
    by (cases kv)
  show ?case
    using Cons.prems Cons.IH [of "m\<lparr>md_other := md_other m @ [(k, v)]\<rparr>"] by (simp add: kv sdp_line_carried)
qed simp

lemma read_attributes_stream:
  "list_all attribute_ok as \<Longrightarrow>
    sdp_lines (st\<lparr>st_media := ms @ [m]\<rparr>) (map (\<lambda>a. 97 # 61 # attribute_text a) as)
      = Inr (st\<lparr>st_media := ms @ [m\<lparr>md_attributes := md_attributes m @ as\<rparr>]\<rparr>)"
proof (induction as arbitrary: m)
  case (Cons a as)
  have "sdp_line (st\<lparr>st_media := ms @ [m]\<rparr>) (97 # 61 # attribute_text a)
      = Inr (st\<lparr>st_media := ms @ [m\<lparr>md_attributes := md_attributes m @ [a]\<rparr>]\<rparr>)"
    using Cons.prems sdp_line_known(6) [of "attribute_text a"] parse_attribute_written [of a]
    by (simp add: attribute_ok_def)
  then show ?case
    using Cons.prems Cons.IH [of "m\<lparr>md_attributes := md_attributes m @ [a]\<rparr>"] by simp
qed simp

lemma read_media:
  assumes "media_ok m" "\<not> is_continuation (hd (md_media m))"
  shows "sdp_lines st (media_lines m) = Inr (st\<lparr>st_media := st_media st @ [media_normal m]\<rparr>)"
proof -
  define m0 where "m0 = m\<lparr>md_connection := None, md_attributes := [], md_other := []\<rparr>"
  define m1 where "m1 = m0\<lparr>md_other := filter (\<lambda>kv. fst kv = ascii ''i'') (md_other m)\<rparr>"
  define m2 where "m2 = m1\<lparr>md_connection := md_connection m\<rparr>"
  define m3 where "m3 = m2\<lparr>md_other := md_other m2 @ filter (\<lambda>kv. fst kv \<noteq> ascii ''i'') (md_other m)\<rparr>"
  have ok: "list_all other_ok (filter P (md_other m))" for P
    using assms(1) by (auto simp: media_ok_def list_all_iff)
  have "sdp_line st (109 # 61 # join_bytes [32] (media_words m)) = Inr (st\<lparr>st_media := st_media st @ [m0]\<rparr>)"
    using sdp_line_known(5) [OF words_values(4) [OF assms]] parse_media_written [OF assms(1)] by (simp add: m0_def)
  moreover have "sdp_lines (st\<lparr>st_media := st_media st @ [m0]\<rparr>)
      (map (\<lambda>(k, v). k @ 61 # v) (filter (\<lambda>kv. fst kv = ascii ''i'') (md_other m)))
      = Inr (st\<lparr>st_media := st_media st @ [m1]\<rparr>)"
    using read_others_stream [OF ok] by (simp add: m1_def m0_def)
  moreover have "sdp_lines (st\<lparr>st_media := st_media st @ [m1]\<rparr>)
      (case md_connection m of None \<Rightarrow> [] | Some c \<Rightarrow> [99 # 61 # join_bytes [32] (connection_words c)])
      = Inr (st\<lparr>st_media := st_media st @ [m2]\<rparr>)"
  proof (cases "md_connection m")
    case None
    then show ?thesis
      by (simp add: m2_def m1_def m0_def)
  next
    case (Some c)
    then have "connection_ok (Some c)"
      using assms(1) by (simp add: media_ok_def)
    then show ?thesis
      using sdp_line_known(3) [OF words_values(2)] parse_connection_written by (simp add: Some m2_def)
  qed
  moreover have "sdp_lines (st\<lparr>st_media := st_media st @ [m2]\<rparr>)
      (map (\<lambda>(k, v). k @ 61 # v) (filter (\<lambda>kv. fst kv \<noteq> ascii ''i'') (md_other m)))
      = Inr (st\<lparr>st_media := st_media st @ [m3]\<rparr>)"
    using read_others_stream [OF ok] by (simp add: m3_def)
  moreover have "sdp_lines (st\<lparr>st_media := st_media st @ [m3]\<rparr>) (map (\<lambda>a. 97 # 61 # attribute_text a) (md_attributes m))
      = Inr (st\<lparr>st_media := st_media st @ [media_normal m]\<rparr>)"
    using read_attributes_stream [of "md_attributes m"] assms(1)
    by (simp add: media_ok_def m3_def m2_def m1_def m0_def media_normal_def)
  ultimately show ?thesis
    by (simp add: media_lines_def sdp_lines_append)
qed

lemma read_all_media:
  "list_all media_ok ms \<Longrightarrow> list_all (\<lambda>m. \<not> is_continuation (hd (md_media m))) ms \<Longrightarrow>
    sdp_lines st (concat (map media_lines ms)) = Inr (st\<lparr>st_media := st_media st @ map media_normal ms\<rparr>)"
  by (induction ms arbitrary: st) (simp_all add: sdp_lines_append read_media)

lemma read_others_session:
  "list_all other_ok os \<Longrightarrow> st_media st = [] \<Longrightarrow>
    sdp_lines st (map (\<lambda>(k, v). k @ 61 # v) os) = Inr (st\<lparr>st_other := st_other st @ os\<rparr>)"
proof (induction os arbitrary: st)
  case (Cons kv os)
  obtain k v where kv: "kv = (k, v)"
    by (cases kv)
  show ?case
    using Cons.prems Cons.IH [of "st\<lparr>st_other := st_other st @ [(k, v)]\<rparr>"]
    by (simp add: kv sdp_line_carried in_stream_session)
qed simp

lemma read_attributes_session:
  "list_all attribute_ok as \<Longrightarrow> st_media st = [] \<Longrightarrow>
    sdp_lines st (map (\<lambda>a. 97 # 61 # attribute_text a) as) = Inr (st\<lparr>st_attributes := st_attributes st @ as\<rparr>)"
proof (induction as arbitrary: st)
  case (Cons a as)
  have "sdp_line st (97 # 61 # attribute_text a) = Inr (st\<lparr>st_attributes := st_attributes st @ [a]\<rparr>)"
    using Cons.prems sdp_line_known(6) [of "attribute_text a"] parse_attribute_written [of a]
    by (simp add: attribute_ok_def in_stream_session)
  then show ?case
    using Cons.prems Cons.IH [of "st\<lparr>st_attributes := st_attributes st @ [a]\<rparr>"] by simp
qed simp

lemma read_timings:
  "sdp_lines st (map (\<lambda>t. 116 # 61 # join_bytes [32] (timing_words t)) ts) = Inr (st\<lparr>st_timing := st_timing st @ ts\<rparr>)"
proof (induction ts arbitrary: st)
  case (Cons t ts)
  have "sdp_line st (116 # 61 # join_bytes [32] (timing_words t)) = Inr (st\<lparr>st_timing := st_timing st @ [t]\<rparr>)"
    using sdp_line_known(4) [OF words_values(3)] parse_timing_written by simp
  then show ?case
    using Cons.IH [of "st\<lparr>st_timing := st_timing st @ [t]\<rparr>"] by simp
qed simp

text \<open>Every line starts a character, which octets that are not a \<open>str\<close> could fail.\<close>

definition characters_ok :: "session_description \<Rightarrow> bool" where
  "characters_ok d \<longleftrightarrow> \<not> is_continuation (hd (og_username (sd_origin d))) \<and>
     list_all (\<lambda>m. \<not> is_continuation (hd (md_media m))) (sd_media d)"

lemma read_description:
  assumes "description_ok d" "characters_ok d"
  shows "sdp_lines sdp_init (description_lines d) =
    Inr \<lparr>st_origin = Some (sd_origin d), st_session_name = Some (sd_session_name d),
         st_connection = sd_connection d, st_timing = sd_timing (normal d),
         st_attributes = sd_attributes d, st_media = sd_media (normal d), st_other = sd_other (normal d)\<rparr>"
proof -
  define s1 where "s1 = sdp_init\<lparr>st_origin := Some (sd_origin d), st_session_name := Some (sd_session_name d)\<rparr>"
  define s2 where "s2 = s1\<lparr>st_other := filter (\<lambda>kv. before_connection (fst kv)) (sd_other d)\<rparr>"
  define s3 where "s3 = s2\<lparr>st_connection := sd_connection d\<rparr>"
  define s4 where "s4 = s3\<lparr>st_other := st_other s3 @ filter (\<lambda>kv. fst kv = ascii ''b'') (sd_other d)\<rparr>"
  define s5 where "s5 = s4\<lparr>st_timing := sd_timing (normal d)\<rparr>"
  define s6 where "s6 = s5\<lparr>st_other := sd_other (normal d)\<rparr>"
  define s7 where "s7 = s6\<lparr>st_attributes := sd_attributes d\<rparr>"
  note defs = s7_def s6_def s5_def s4_def s3_def s2_def s1_def sdp_init_def
  have ok: "list_all other_ok (filter P (sd_other d))" for P
    using assms(1) by (auto simp: description_ok_def list_all_iff)
  have r1: "sdp_lines sdp_init [118 # 61 # [48], 111 # 61 # join_bytes [32] (origin_words (sd_origin d)),
      115 # 61 # sd_session_name d] = Inr s1"
  proof -
    have "plain_value [48]"
      by (simp add: plain_value_def clean_def is_continuation_def)
    then show ?thesis
      using assms sdp_line_known(7) [of "[48]"] sdp_line_known(2) [of "sd_session_name d"]
        sdp_line_known(1) [OF words_values(1)] parse_origin_written
      by (simp add: description_ok_def characters_ok_def s1_def)
  qed
  have r2: "sdp_lines s1 (map (\<lambda>(k, v). k @ 61 # v) (filter (\<lambda>kv. before_connection (fst kv)) (sd_other d))) = Inr s2"
    using read_others_session [OF ok] by (simp add: defs)
  have r3: "sdp_lines s2 (case sd_connection d of None \<Rightarrow> [] | Some c \<Rightarrow> [99 # 61 # join_bytes [32] (connection_words c)])
      = Inr s3"
  proof (cases "sd_connection d")
    case None
    then show ?thesis
      by (simp add: defs)
  next
    case (Some c)
    then have "connection_ok (Some c)"
      using assms(1) by (simp add: description_ok_def)
    then show ?thesis
      using sdp_line_known(3) [OF words_values(2)] parse_connection_written
      by (simp add: Some s3_def in_stream_session) (simp add: defs in_stream_session)
  qed
  have r4: "sdp_lines s3 (map (\<lambda>(k, v). k @ 61 # v) (filter (\<lambda>kv. fst kv = ascii ''b'') (sd_other d))) = Inr s4"
    using read_others_session [OF ok] by (simp add: defs)
  have r5: "sdp_lines s4 (map (\<lambda>t. 116 # 61 # join_bytes [32] (timing_words t)) (sd_timing (normal d))) = Inr s5"
    using read_timings by (simp add: defs)
  have r6: "sdp_lines s5 (map (\<lambda>(k, v). k @ 61 # v)
      (filter (\<lambda>kv. \<not> (before_connection (fst kv) \<or> fst kv = ascii ''b'')) (sd_other d))) = Inr s6"
    using read_others_session [OF ok] by (simp add: defs normal_def)
  have r7: "sdp_lines s6 (map (\<lambda>a. 97 # 61 # attribute_text a) (sd_attributes d)) = Inr s7"
    using read_attributes_session [of "sd_attributes d"] assms(1) by (simp add: defs description_ok_def)
  have r8: "sdp_lines s7 (concat (map media_lines (sd_media d))) = Inr (s7\<lparr>st_media := sd_media (normal d)\<rparr>)"
    using read_all_media [of "sd_media d"] assms by (simp add: description_ok_def characters_ok_def normal_def defs)
  have timing: "sd_timing (normal d) = (if sd_timing d = [] then [timing_default] else sd_timing d)"
    by (simp add: normal_def)
  have "sdp_lines sdp_init (description_lines d) = Inr (s7\<lparr>st_media := sd_media (normal d)\<rparr>)"
    unfolding description_lines_def timing [symmetric]
    by (simp only: sdp_lines_then [OF r1] sdp_lines_then [OF r2] sdp_lines_then [OF r3] sdp_lines_then [OF r4]
        sdp_lines_then [OF r5] sdp_lines_then [OF r6] sdp_lines_then [OF r7] r8)
  then show ?thesis
    by (simp add: defs)
qed

lemma concat_lines_clean:
  assumes "description_ok d" "characters_ok d" "l \<in> set (description_lines d)"
  shows "10 \<notin> set l"
proof -
  have p: "plain_value v \<Longrightarrow> 10 \<notin> set v" for v
    by (simp add: plain_value_def clean_def)
  have other: "list_all other_ok os \<Longrightarrow> x \<in> set os \<Longrightarrow> 10 \<notin> set (fst x @ 61 # snd x)" for os x
    using p by (force simp: list_all_iff other_ok_def carried_letter_def)
  have attr: "list_all attribute_ok as \<Longrightarrow> a \<in> set as \<Longrightarrow> 10 \<notin> set (attribute_text a)" for as a
    using p by (auto simp: list_all_iff attribute_ok_def)
  have conn: "connection_ok (Some c) \<Longrightarrow> 10 \<notin> set (join_bytes [32] (connection_words c))" for c
    using p words_values(2) by blast
  have times: "10 \<notin> set (join_bytes [32] (timing_words t))" for t
    using p words_values(3) by blast
  have media: "10 \<notin> set l" if m: "m \<in> set (sd_media d)" "l \<in> set (media_lines m)" for m l
  proof -
    have ok: "media_ok m" "\<not> is_continuation (hd (md_media m))"
      using m(1) assms(1,2) by (auto simp: description_ok_def characters_ok_def list_all_iff)
    then show ?thesis
      using m(2) p words_values(4) [OF ok] other [of "md_other m"] attr [of "md_attributes m"] conn
      by (auto simp: media_lines_def media_ok_def split: option.splits)
  qed
  show ?thesis
    using assms media p words_values(1) [of "sd_origin d"] other [of "sd_other d"] attr [of "sd_attributes d"] conn times
    by (auto simp: description_lines_def description_ok_def characters_ok_def split: option.splits if_splits)
qed

lemma parse_written:
  assumes "description_ok d" "characters_ok d"
  shows "sdp_parse (to_string_sdp d) = Inr (normal d)"
  using str_lines_eol [of "description_lines d"] concat_lines_clean [OF assms] read_description [OF assms]
  by (simp add: sdp_parse_def description_written normal_def)

section \<open>What is read is well formed\<close>

definition other_read :: "bytes \<times> bytes \<Rightarrow> bool" where
  "other_read kv \<longleftrightarrow> ((\<exists>b. fst kv = [b] \<and> b < 0x80) \<longrightarrow> other_ok kv)"

definition media_read :: "media_description \<Rightarrow> bool" where
  "media_read m \<longleftrightarrow> media_ok (m\<lparr>md_other := []\<rparr>) \<and> list_all other_read (md_other m)"

definition state_ok :: "sdp_state \<Rightarrow> bool" where
  "state_ok st \<longleftrightarrow>
     (\<forall>o'. st_origin st = Some o' \<longrightarrow> origin_ok o') \<and>
     (\<forall>v. st_session_name st = Some v \<longrightarrow> plain_value v \<and> v \<noteq> []) \<and>
     connection_ok (st_connection st) \<and> list_all attribute_ok (st_attributes st) \<and>
     list_all media_read (st_media st) \<and> list_all other_read (st_other st)"

lemma line_clean:
  assumes "l \<in> set (str_lines text)"
  shows "10 \<notin> set l"
proof -
  have "set (strip_cr p) \<subseteq> set p" for p
    by (auto simp: strip_cr_def dest: in_set_butlastD)
  moreover obtain p where "p \<in> set (split_on 10 text)" "l = strip_cr p"
    using assms by (auto simp: str_lines_def Let_def split: if_splits dest: in_set_butlastD)
  ultimately show ?thesis
    using split_on_without [of p 10 "text"] by blast
qed

lemma trim_end_clean: "10 \<notin> set l \<Longrightarrow> clean (trim_end_cr l)"
proof -
  assume l: "10 \<notin> set l"
  define r where "r = dropWhile (\<lambda>b. b = 13) (rev l)"
  have "set r \<subseteq> set l"
    by (auto simp: r_def dest: set_dropWhileD)
  moreover have "r \<noteq> [] \<Longrightarrow> hd r \<noteq> 13"
    using hd_dropWhile [of "\<lambda>b. b = 13" "rev l"] by (simp add: r_def)
  ultimately show ?thesis
    using l by (auto simp: clean_def trim_end_cr_def last_rev simp flip: r_def)
qed

lemma from_two_value:
  assumes "clean line"
  shows "plain_value (from_two line)"
proof (cases "drop 2 line")
  case (Cons b rest)
  have "x \<in> set line" if "x \<in> set (b # rest)" for x
    using that Cons in_set_dropD [of x 2 line] by simp
  moreover have "2 < length line"
    using Cons by (metis drop_eq_Nil linorder_not_le list.distinct(1))
  then have "last (b # rest) = last line" "line \<noteq> []"
    using Cons last_drop [of 2 line] by auto
  ultimately have "clean (b # rest)"
    using assms by (auto simp del: last.simps simp add: clean_def)
  then show ?thesis
    using Cons by (simp add: from_two_def plain_value_def clean_def)
qed (simp add: from_two_def plain_value_def)

lemma get_at_wordy: "get_at (split_whitespace v) i = Some w \<Longrightarrow> wordy w"
  by (auto simp: get_at_eq_Some intro: split_words_wordy [OF nth_mem])

lemma parse_address_ok: "wordy raw \<Longrightarrow> address_ok (parse_address raw)"
  by (auto simp: parse_address_def address_ok_def parse_ip_ok split: option.split)

lemma parse_origin_ok: "parse_origin v = Inr o' \<Longrightarrow> origin_ok o'"
proof -
  have dash: "wordy (ascii ''-'')"
    by code_simp
  assume "parse_origin v = Inr o'"
  then obtain raw where "get_at (split_whitespace v) 5 = Some raw" "og_address o' = parse_address raw"
    "og_username o' = unwrap_or (get_at (split_whitespace v) 0) (ascii ''-'')"
    by (auto simp: parse_origin_def Let_def bind_res_Inr_iff ok_or_Inr_iff)
  then show ?thesis
    using dash get_at_wordy parse_address_ok
    by (auto simp: origin_ok_def unwrap_or_def split: option.split)
qed

lemma parse_connection_ok: "parse_connection v = Inr c \<Longrightarrow> connection_ok (Some c)"
proof -
  assume "parse_connection v = Inr c"
  then obtain raw where raw: "get_at (split_whitespace v) 2 = Some raw" "takeWhile (\<lambda>b. b \<noteq> 47) raw \<noteq> []"
    "cn_address c = parse_address (takeWhile (\<lambda>b. b \<noteq> 47) raw)"
    by (auto simp: parse_connection_def bind_res_Inr_iff ok_or_Inr_iff Let_def bind_eq_Some_conv split: if_splits)
  define a where "a = takeWhile (\<lambda>b. b \<noteq> 47) raw"
  have "wordy (a @ dropWhile (\<lambda>b. b \<noteq> 47) raw)"
    using get_at_wordy [OF raw(1)] by (simp add: a_def)
  then have "wordy a"
    using wordy_prefix [of a "dropWhile (\<lambda>b. b \<noteq> 47) raw"] raw(2) by (simp add: a_def)
  moreover have "47 \<notin> set a"
    by (auto simp: a_def dest: set_takeWhileD)
  then have "47 \<notin> set (address_show (parse_address a))"
    by (cases "parse_ip a") (auto simp: parse_address_def address_show_def dest: show_ip_plain)
  ultimately show ?thesis
    using parse_address_ok raw(3) by (simp add: connection_ok_def a_def)
qed

lemma parse_media_ok: "parse_media v = Inr m \<Longrightarrow> media_read m"
proof -
  assume "parse_media v = Inr m"
  then obtain port media protocol where m: "get_at (split_whitespace v) 0 = Some media"
    "get_at (split_whitespace v) 2 = Some protocol" "drop 3 (split_whitespace v) \<noteq> []"
    "m = \<lparr>md_media = media, md_port = of_nat port, md_protocol = protocol, md_formats = drop 3 (split_whitespace v),
          md_connection = None, md_attributes = [], md_other = []\<rparr>"
    by (auto simp: parse_media_def Let_def bind_res_Inr_iff ok_or_Inr_iff bind_eq_Some_conv split: if_splits)
  moreover have "list_all wordy (drop 3 (split_whitespace v))"
    using split_words_wordy set_drop_subset [of 3 "split_whitespace v"] by (auto simp: list_all_iff)
  ultimately show ?thesis
    using get_at_wordy by (auto simp: media_read_def media_ok_def connection_ok_def)
qed

lemma parse_attribute_ok:
  assumes "plain_value v"
  shows "attribute_ok (parse_attribute v)"
proof (cases "position (\<lambda>b. b = 58) v")
  case None
  then have "58 \<notin> set v"
    by (induction v) (auto split: if_splits)
  then show ?thesis
    using None assms
    by (simp add: parse_attribute_def split_once_def attribute_ok_def attribute_flag_def attribute_text_def)
next
  case (Some i)
  then have i: "i < length v" "v ! i = 58" "\<forall>j < i. v ! j \<noteq> 58"
    by (auto simp: position_Some_iff)
  then have "58 \<notin> set (take i v)" "take i v @ 58 # drop (i + 1) v = v"
    using id_take_nth_drop [of i v] by (auto simp: in_set_conv_nth)
  then show ?thesis
    using Some assms
    by (simp add: parse_attribute_def split_once_def attribute_ok_def attribute_valued_def attribute_text_def)
qed

lemma in_stream_ok:
  assumes "state_ok st" "\<And>m. media_read m \<Longrightarrow> media_read (f m)" "st_media st = [] \<Longrightarrow> state_ok (g st)"
  shows "state_ok (in_stream f g st)"
proof (cases "st_media st = []")
  case False
  then obtain ms m where "st_media st = ms @ [m]"
    by (meson rev_exhaust)
  then show ?thesis
    using assms(1) assms(2) [of m] by (simp add: in_stream_def state_ok_def)
qed (use assms in \<open>simp add: in_stream_def\<close>)

lemma sdp_line_ok:
  assumes "sdp_line st raw = Inr st'" "state_ok st" "10 \<notin> set raw"
  shows "state_ok st'"
proof -
  define line where "line = trim_end_cr raw"
  have clean: "clean line"
    using trim_end_clean [OF assms(3)] by (simp add: line_def)
  define v kind where "v = from_two line" and "kind = first_char line"
  have v: "plain_value v"
    using from_two_value [OF clean] by (simp add: v_def)
  have carried: "other_read (kind, v)" if "kind \<notin> {[118], [111], [115], [99], [116], [109], [97]}" "line \<noteq> []"
  proof -
    have "other_ok (kind, v)" if b: "kind = [b]" "b < 0x80" for b
    proof -
      have "b \<in> set line"
        using b \<open>line \<noteq> []\<close> in_set_takeD [of b _ line]
        by (auto simp: kind_def first_char_def split: list.splits)
          (metis in_set_takeD list.set_intros(1) set_ConsD)
      then show ?thesis
        using b v clean \<open>kind \<notin> _\<close> by (auto simp: other_ok_def carried_letter_def clean_def ascii_def)
    qed
    then show ?thesis
      by (auto simp: other_read_def)
  qed
  define known where "known = {[118], [111], [115], [99], [116], [109], [97 :: u8]}"
  have "line = [] \<and> st' = st \<or> st' = st \<or> (\<exists>o'. parse_origin v = Inr o' \<and> st' = st\<lparr>st_origin := Some o'\<rparr>) \<or>
      (v \<noteq> [] \<and> st' = st\<lparr>st_session_name := Some v\<rparr>) \<or>
      (\<exists>c. parse_connection v = Inr c \<and> st' = in_stream (\<lambda>m. m\<lparr>md_connection := Some c\<rparr>) (\<lambda>st. st\<lparr>st_connection := Some c\<rparr>) st) \<or>
      st' = st\<lparr>st_timing := st_timing st @ [parse_timing v]\<rparr> \<or>
      (\<exists>m. parse_media v = Inr m \<and> st' = st\<lparr>st_media := st_media st @ [m]\<rparr>) \<or>
      st' = in_stream (\<lambda>m. m\<lparr>md_attributes := md_attributes m @ [parse_attribute v]\<rparr>)
        (\<lambda>st. st\<lparr>st_attributes := st_attributes st @ [parse_attribute v]\<rparr>) st \<or>
      (kind \<notin> known \<and> line \<noteq> [] \<and> st' = in_stream (\<lambda>m. m\<lparr>md_other := md_other m @ [(kind, v)]\<rparr>)
        (\<lambda>st. st\<lparr>st_other := st_other st @ [(kind, v)]\<rparr>) st)"
    using assms(1)
    by (auto simp: sdp_line_def Let_def bind_res_Inr_iff ascii_def known_def simp flip: line_def kind_def v_def
        split: if_splits)
  then show ?thesis
  proof (elim disjE conjE exE)
    fix o' assume "parse_origin v = Inr o'" "st' = st\<lparr>st_origin := Some o'\<rparr>"
    then show ?thesis
      using parse_origin_ok assms(2) by (simp add: state_ok_def)
  next
    fix c assume c: "parse_connection v = Inr c"
      "st' = in_stream (\<lambda>m. m\<lparr>md_connection := Some c\<rparr>) (\<lambda>st. st\<lparr>st_connection := Some c\<rparr>) st"
    show ?thesis
      using parse_connection_ok [OF c(1)] assms(2) unfolding c(2)
      by (intro in_stream_ok) (auto simp: state_ok_def media_read_def media_ok_def)
  next
    fix m assume "parse_media v = Inr m" "st' = st\<lparr>st_media := st_media st @ [m]\<rparr>"
    then show ?thesis
      using parse_media_ok assms(2) by (simp add: state_ok_def)
  next
    assume st': "st' = in_stream (\<lambda>m. m\<lparr>md_attributes := md_attributes m @ [parse_attribute v]\<rparr>)
        (\<lambda>st. st\<lparr>st_attributes := st_attributes st @ [parse_attribute v]\<rparr>) st"
    show ?thesis
      using parse_attribute_ok [OF v] assms(2) unfolding st'
      by (intro in_stream_ok) (auto simp: state_ok_def media_read_def media_ok_def)
  next
    assume other: "kind \<notin> known" "line \<noteq> []" "st' = in_stream (\<lambda>m. m\<lparr>md_other := md_other m @ [(kind, v)]\<rparr>)
        (\<lambda>st. st\<lparr>st_other := st_other st @ [(kind, v)]\<rparr>) st"
    show ?thesis
      using carried other(1,2) assms(2) unfolding other(3)
      by (intro in_stream_ok) (auto simp: state_ok_def media_read_def media_ok_def known_def)
  qed (use assms(2) v in \<open>simp_all add: state_ok_def\<close>)
qed

lemma sdp_lines_ok:
  "sdp_lines st ls = Inr st' \<Longrightarrow> state_ok st \<Longrightarrow> (\<And>l. l \<in> set ls \<Longrightarrow> 10 \<notin> set l) \<Longrightarrow> state_ok st'"
proof (induction ls arbitrary: st)
  case (Cons l ls)
  then obtain s where "sdp_line st l = Inr s" "sdp_lines s ls = Inr st'"
    by (auto simp: bind_res_Inr_iff)
  then show ?case
    using Cons sdp_line_ok [of st l s] by auto
qed simp

text \<open>Every line that is only carried has an ASCII letter, as every line RFC 8866 defines does.\<close>

definition ascii_letters :: "session_description \<Rightarrow> bool" where
  "ascii_letters d \<longleftrightarrow> list_all (\<lambda>kv. \<exists>b. fst kv = [b] \<and> b < 0x80) (sd_other d @ concat (map md_other (sd_media d)))"

lemma parse_ok:
  assumes "sdp_parse text = Inr d" "ascii_letters d"
  shows "description_ok d"
proof -
  obtain st where st: "sdp_lines sdp_init (str_lines text) = Inr st" "st_origin st = Some (sd_origin d)"
    "sd_session_name d = unwrap_or (st_session_name st) (ascii ''-'')" "sd_connection d = st_connection st"
    "sd_attributes d = st_attributes st" "sd_media d = st_media st" "sd_other d = st_other st"
    using assms(1) by (auto simp: sdp_parse_def bind_res_Inr_iff ok_or_Inr_iff)
  have "state_ok sdp_init"
    by (simp add: state_ok_def sdp_init_def connection_ok_def)
  then have ok: "state_ok st"
    using sdp_lines_ok [OF st(1)] line_clean by blast
  have others: "list_all other_read os \<Longrightarrow> list_all (\<lambda>kv. \<exists>b. fst kv = [b] \<and> b < 0x80) os \<Longrightarrow> list_all other_ok os" for os
    by (auto simp: list_all_iff other_read_def)
  have "media_ok m" if m: "m \<in> set (sd_media d)" for m
  proof -
    have "media_read m" "list_all (\<lambda>kv. \<exists>b. fst kv = [b] \<and> b < 0x80) (md_other m)"
      using m ok assms(2) by (auto simp: st state_ok_def list_all_iff ascii_letters_def)
    then show ?thesis
      using others by (simp add: media_read_def media_ok_def)
  qed
  moreover have "list_all other_ok (sd_other d)"
    using ok assms(2) others by (simp add: st state_ok_def ascii_letters_def)
  moreover have "plain_value (ascii ''-'')"
    by code_simp
  ultimately show ?thesis
    using ok st
    by (auto simp: description_ok_def state_ok_def list_all_iff unwrap_or_def ascii_def split: option.splits)
qed

lemma normal_idem: "normal (normal d) = normal d"
proof -
  have i: "\<not> before_connection (ascii ''b'')"
    by code_simp
  have media: "media_normal (media_normal m) = media_normal m" for m
  proof -
    have "(\<not> A \<and> A) = False" "(A \<and> \<not> A) = False" for A
      by auto
    then show ?thesis
      by (simp add: media_normal_def)
  qed
  have false: "(fst kv = ascii ''b'' \<and> before_connection (fst kv)) = False"
    "(before_connection (fst kv) \<and> fst kv = ascii ''b'') = False" for kv :: "bytes \<times> bytes"
    using i by auto
  have logic: "(\<not> A \<and> B \<and> A) = False" "(\<not> A \<and> \<not> B \<and> B) = False" "(A \<and> \<not> A \<and> B) = False"
    "(B \<and> \<not> A \<and> \<not> B) = False" "(\<not> A \<and> B \<and> \<not> A \<and> B) = (\<not> A \<and> B)" for A B
    by auto
  show ?thesis
    by (cases d) (simp add: normal_def media comp_def false logic)
qed

lemma normal_shape:
  "ascii_letters d \<Longrightarrow> ascii_letters (normal d)" "characters_ok (normal d) = characters_ok d"
  by (auto simp: ascii_letters_def characters_ok_def normal_def media_normal_def list_all_iff comp_def)

section \<open>The round trip\<close>

text \<open>
  C14: A description that is read is written so that it reads back as itself, with the lines that are
  only carried put in the order the grammar wants them and a missing timing supplied; and what is
  read back is written so that it reads back exactly. The lines only carried must have an ASCII letter,
  as every line the grammar defines does.
\<close>

theorem sdp_reparse:
  assumes "sdp_parse text = Inr d" "ascii_letters d" "characters_ok d"
  shows "sdp_parse (to_string_sdp d) = Inr (normal d) \<and>
    sdp_parse (to_string_sdp (normal d)) = Inr (normal d)"
proof -
  have "sdp_parse (to_string_sdp d) = Inr (normal d)"
    by (rule parse_written [OF parse_ok [OF assms(1,2)] assms(3)])
  moreover from this have "description_ok (normal d)"
    using normal_shape(1) [OF assms(2)] by (rule parse_ok)
  then have "sdp_parse (to_string_sdp (normal d)) = Inr (normal (normal d))"
    using assms(3) by (intro parse_written) (simp_all add: normal_shape)
  ultimately show ?thesis
    by (simp add: normal_idem)
qed

definition example_description :: session_description where
  "example_description =
     \<lparr>sd_origin = \<lparr>og_username = ascii ''a'', og_session_id = 1, og_session_version = 1,
        og_address = Address_Ip (V4 [192, 0, 2, 10])\<rparr>,
      sd_session_name = ascii ''-'', sd_connection = None, sd_timing = [], sd_attributes = [],
      sd_media = [\<lparr>md_media = ascii ''audio'', md_port = 49170, md_protocol = ascii ''RTP/AVP'',
        md_formats = [ascii ''0'', ascii ''8''],
        md_connection = Some \<lparr>cn_address = Address_Ip (V4 [192, 0, 2, 10])\<rparr>,
        md_attributes = [attribute_valued (ascii ''rtpmap'') (ascii ''0 PCMU/8000''), attribute_flag (ascii ''sendonly'')],
        md_other = []\<rparr>],
      sd_other = [(ascii ''b'', ascii ''AS:64''), (ascii ''i'', ascii ''x'')]\<rparr>"

lemma example_ok: "description_ok example_description" "characters_ok example_description"
    "ascii_letters (normal example_description)" "characters_ok (normal example_description)"
proof -
  have words: "wordy (ascii ''a'')" "wordy (ascii ''audio'')" "wordy (ascii ''RTP/AVP'')" "wordy (ascii ''0'')"
    "wordy (ascii ''8'')"
    by code_simp+
  have octets: "plain_value (ascii ''-'')" "plain_value (ascii ''AS:64'')" "plain_value (ascii ''x'')"
    by code_simp+
  have attributes: "list_all attribute_ok
      [attribute_valued (ascii ''rtpmap'') (ascii ''0 PCMU/8000''), attribute_flag (ascii ''sendonly'')]"
    by code_simp
  have letters: "carried_letter 98" "carried_letter 105"
    by code_simp+
  have address: "address_ok (Address_Ip (V4 [192, 0, 2, 10]))" "47 \<notin> set (address_show (Address_Ip (V4 [192, 0, 2, 10])))"
    by code_simp+
  show "description_ok example_description"
    using words octets attributes letters address
    by (simp add: description_ok_def example_description_def origin_ok_def connection_ok_def media_ok_def other_ok_def ascii_def)
  show c: "characters_ok example_description"
    by code_simp
  then show "characters_ok (normal example_description)"
    by (simp add: normal_shape)
  show "ascii_letters (normal example_description)"
    by (rule normal_shape) (simp add: ascii_letters_def example_description_def ascii_def)
qed

lemma sdp_reparse_witness:
  "sdp_parse (to_string_sdp (normal example_description)) = Inr (normal (normal example_description)) \<and>
   sdp_parse (to_string_sdp (normal (normal example_description))) = Inr (normal (normal example_description))"
  by (rule sdp_reparse [OF parse_written [OF example_ok(1,2)] example_ok(3,4)])

end
