(* ===== verification/Sdp_Relay.thy ===== *)
theory Sdp_Relay
  imports Sdp_Text
begin

text \<open>
  Putting one endpoint's description in front of another (\<open>sipx-sdp/src/relay.rs\<close>): only the origin
  line is rewritten, under a version that moves exactly when the rest of the description does. What
  is emitted reads as the description that was given, with the relay's origin.
\<close>

section \<open>The relay\<close>

datatype relay_error = Malformed sdp_error | NoMedia | NoConnection bytes

record description_relay =
  rl_origin :: origin
  rl_emitted :: "bytes option"

definition relay_new :: "origin \<Rightarrow> description_relay" where
  "relay_new o' = \<lparr>rl_origin = o', rl_emitted = None\<rparr>"

definition trim_end_breaks :: "bytes \<Rightarrow> bytes" where
  "trim_end_breaks l = rev (dropWhile (\<lambda>b. b = 10 \<or> b = 13) (rev l))"

text \<open>The loop of \<open>split_origin\<close>: \<open>start\<close> octets are behind, \<open>rest\<close> is ahead.\<close>

function split_origin_at :: "bytes \<Rightarrow> bytes \<Rightarrow> (bytes \<times> bytes) option" where
  "split_origin_at start rest =
     (if rest = [] then None
      else
        (let len = (case position (\<lambda>b. b = 10) rest of None \<Rightarrow> length rest | Some i \<Rightarrow> i + 1);
             content = trim_end_breaks (take len rest) in
           if starts_with content (ascii ''o='') then Some (start, drop (length content) rest)
           else split_origin_at (start @ take len rest) (drop len rest)))"
  by auto
termination
  by (relation "measure (\<lambda>(start, rest). length rest)") (auto split: option.splits)

declare split_origin_at.simps [simp del]

definition split_origin :: "bytes \<Rightarrow> (bytes \<times> bytes) option" where
  "split_origin description = split_origin_at [] description"

definition relay :: "description_relay \<Rightarrow> bytes \<Rightarrow> description_relay \<times> (relay_error, bytes) result" where
  "relay r description =
     (case sdp_parse description of
        Inl e \<Rightarrow> (r, Inl (Malformed e))
      | Inr parsed \<Rightarrow>
          if sd_media parsed = [] then (r, Inl NoMedia)
          else
            (case find (\<lambda>m. \<not> is_rejected m \<and> md_connection m = None \<and> sd_connection parsed = None) (sd_media parsed) of
               Some m \<Rightarrow> (r, Inl (NoConnection (md_media m)))
             | None \<Rightarrow>
                 (case split_origin description of
                    None \<Rightarrow> (r, Inl (Malformed (Missing ''o='')))
                  | Some (before, after) \<Rightarrow>
                      (let unchanged = before @ after;
                           r = (case rl_emitted r of
                                  Some previous \<Rightarrow>
                                    if previous = unchanged then r
                                    else r\<lparr>rl_origin := (rl_origin r)\<lparr>og_session_version :=
                                      saturating_add_word (og_session_version (rl_origin r)) 1\<rparr>\<rparr>
                                | None \<Rightarrow> r);
                           r = r\<lparr>rl_emitted := Some unchanged\<rparr> in
                         (r, Inr (before @ origin_line (rl_origin r) @ after))))))"

section \<open>Where the origin line is\<close>

lemma position_None_iff: "position P xs = None \<longleftrightarrow> list_all (\<lambda>x. \<not> P x) xs"
  by (induction xs) auto

lemma trim_end_breaks_tail:
  obtains k where "l = trim_end_breaks l @ k" "set k \<subseteq> {10, 13}"
proof -
  define k where "k = rev (takeWhile (\<lambda>b. b = 10 \<or> b = 13) (rev l))"
  have "l = rev (takeWhile (\<lambda>b. b = 10 \<or> b = 13) (rev l) @ dropWhile (\<lambda>b. b = 10 \<or> b = 13) (rev l))"
    by simp
  then have "l = trim_end_breaks l @ k"
    unfolding k_def trim_end_breaks_def rev_append .
  moreover have "set k \<subseteq> {10, 13}"
    by (auto simp: k_def dest: set_takeWhileD)
  ultimately show ?thesis
    by (rule that)
qed

lemma trim_end_breaks_last: "trim_end_breaks l \<noteq> [] \<Longrightarrow> last (trim_end_breaks l) \<noteq> 10 \<and> last (trim_end_breaks l) \<noteq> 13"
  using hd_dropWhile [of "\<lambda>b. b = 10 \<or> b = 13" "rev l"] by (auto simp: trim_end_breaks_def last_rev)

text \<open>
  What \<open>split_origin\<close> finds: whole lines, then a line that starts with \<open>o=\<close>, then that line's
  terminator and the rest.
\<close>

definition line_start :: "bytes \<Rightarrow> bool" where
  "line_start pre \<longleftrightarrow> pre = [] \<or> last pre = 10"

definition line_end :: "bytes \<Rightarrow> bool" where
  "line_end post \<longleftrightarrow> (\<exists>k. post = replicate k 13 \<or> (\<exists>w. post = replicate k 13 @ 10 # w))"

lemma split_origin_at_Some:
  assumes "split_origin_at start rest = Some (before, after)" "line_start start"
  shows "\<exists>v. start @ rest = before @ (111 # 61 # v) @ after \<and> clean (111 # 61 # v) \<and> line_start before \<and> line_end after"
  using assms
proof (induction start rest rule: split_origin_at.induct)
  case (1 start rest)
  define len where "len = (case position (\<lambda>b. b = 10) rest of None \<Rightarrow> length rest | Some i \<Rightarrow> i + 1)"
  define line where "line = take len rest"
  define content where "content = trim_end_breaks line"
  have rest: "rest \<noteq> []" "rest = line @ drop len rest"
    using 1(2) by (auto simp: split_origin_at.simps [of start "[]"] line_def)
  obtain body where body: "10 \<notin> set body" "line = body \<and> drop len rest = [] \<or> line = body @ [10]"
  proof (cases "position (\<lambda>b. b = 10) rest")
    case None
    then have "len = length rest"
      by (simp add: len_def)
    moreover have "10 \<notin> set rest"
      using None by (auto simp: position_None_iff list_all_iff)
    ultimately show ?thesis
      using that [of rest] by (simp add: line_def)
  next
    case (Some i)
    then have i: "i < length rest" "rest ! i = 10" "\<forall>j < i. rest ! j \<noteq> 10"
      by (auto simp: position_Some_iff)
    then have "line = take i rest @ [10]"
      by (simp add: line_def len_def Some take_Suc_conv_app_nth)
    moreover have "10 \<notin> set (take i rest)"
      using i by (auto simp: in_set_conv_nth)
    ultimately show ?thesis
      using that by blast
  qed
  show ?case
  proof (cases "starts_with content (ascii ''o='')")
    case True
    then obtain v where v: "content = 111 # 61 # v"
      by (auto simp: starts_with_iff ascii_def)
    have found: "before = start" "after = drop (length content) rest"
      using 1(2) rest True by (auto simp: split_origin_at.simps [of start rest] Let_def len_def line_def content_def)
    obtain k where k: "line = content @ k" "set k \<subseteq> {10, 13}"
      using trim_end_breaks_tail [of line] unfolding content_def by blast
    have after: "after = k @ drop len rest"
      using rest(2) k(1) by (metis append.assoc append_eq_conv_conj found(2))
    have clean: "clean content"
    proof -
      have last: "last content \<noteq> 10"
        using trim_end_breaks_last [of line] v by (simp flip: content_def)
      have "10 \<notin> set content"
        using body(2)
      proof
        assume "line = body @ [10]"
        then show ?thesis
          using k(1) last body(1) v by (cases k rule: rev_cases) auto
      qed (use body(1) k(1) in auto)
      then show ?thesis
        using trim_end_breaks_last [of line] v by (simp add: clean_def flip: content_def)
    qed
    have "line_end after"
    proof -
      have "\<exists>n. k = replicate n 13 \<and> drop len rest = [] \<or> k = replicate n 13 @ [10]"
        using body(2)
      proof
        assume b: "line = body \<and> drop len rest = []"
        then have "set k \<subseteq> {13}"
          using body(1) k by auto
        then have "k = replicate (length k) 13"
          by (intro replicate_eqI) auto
        then show ?thesis
          using b by metis
      next
        assume b: "line = body @ [10]"
        then obtain k' where k': "k = k' @ [10]" "body = content @ k'"
          using k(1) clean by (cases k rule: rev_cases) (auto simp: clean_def)
        then have "set k' \<subseteq> {13}"
          using body(1) k(2) by auto
        then have "k' = replicate (length k') 13"
          by (intro replicate_eqI) auto
        then show ?thesis
          using k'(1) by metis
      qed
      then show ?thesis
        unfolding line_end_def after by force
    qed
    moreover have "start @ rest = before @ content @ after"
      using k(1) rest(2) by (simp add: found(1) after)
    ultimately show ?thesis
      using clean 1(3) found(1) v by metis
  next
    case False
    then have "split_origin_at (start @ line) (drop len rest) = Some (before, after)"
      using 1(2) rest by (simp add: split_origin_at.simps [of start rest] Let_def len_def line_def content_def)
    moreover from this have "drop len rest \<noteq> []"
      by (auto simp: split_origin_at.simps [of "start @ line" "[]"])
    then have "line_start (start @ line)"
      using body(2) by (auto simp: line_start_def)
    ultimately have "\<exists>v. (start @ line) @ drop len rest = before @ (111 # 61 # v) @ after \<and> clean (111 # 61 # v) \<and>
        line_start before \<and> line_end after"
      using 1(1) [OF rest(1) len_def] False
      by (simp add: line_def content_def len_def)
    then show ?thesis
      using rest(2) by simp
  qed
qed

section \<open>The lines around it\<close>

lemma split_on_pieces: "split_on s (u @ s # v) = split_on s u @ split_on s v"
  by (induction u) (auto simp: split_on_nonempty split: list.split)

lemma trim_end_cr_tail: "x \<noteq> [] \<Longrightarrow> last x \<noteq> 13 \<Longrightarrow> trim_end_cr (x @ replicate k 13) = x"
  by (cases x rule: rev_cases) (simp_all add: trim_end_cr_def dropWhile_append)

lemma strip_cr_tail: "x \<noteq> [] \<Longrightarrow> last x \<noteq> 13 \<Longrightarrow> strip_cr (x @ replicate k 13) = x @ replicate (k - 1) 13"
  by (cases k) (auto simp: strip_cr_def replicate_append_same [symmetric] butlast_append)

lemma str_lines_around:
  assumes "line_start pre" "line_end post"
  shows "\<exists>A B. \<forall>x. clean x \<longrightarrow> x \<noteq> [] \<longrightarrow>
    (\<exists>l. str_lines (pre @ x @ post) = A @ l # B \<and> trim_end_cr l = x)"
proof -
  define A where "A = (if pre = [] then [] else split_on 10 (butlast pre))"
  have pre: "split_on 10 (pre @ y) = A @ split_on 10 y" for y
  proof (cases "pre = []")
    case False
    then have "pre @ y = butlast pre @ 10 # y"
      using assms(1) by (metis append.assoc append_Cons append_Nil append_butlast_last_id line_start_def)
    then show ?thesis
      using False split_on_pieces by (metis A_def)
  qed (simp add: A_def)
  obtain k where "post = replicate k 13 \<or> (\<exists>w. post = replicate k 13 @ 10 # w)"
    using assms(2) by (auto simp: line_end_def)
  then consider "post = replicate k 13" | w where "post = replicate k 13 @ 10 # w"
    by blast
  then show ?thesis
  proof cases
    case 1
    have "\<exists>l. str_lines (pre @ x @ post) = map strip_cr A @ l # [] \<and> trim_end_cr l = x" if x: "clean x" "x \<noteq> []" for x
    proof -
      have "split_on 10 (x @ post) = [x @ post]"
        using x 1 by (intro split_on_none) (auto simp: clean_def)
      then show ?thesis
        using x 1 strip_cr_tail [of x k] trim_end_cr_tail [of x "k - 1"] by (simp add: str_lines_def pre Let_def clean_def)
    qed
    then show ?thesis
      by metis
  next
    case (2 w)
    define B where "B = (if last (split_on 10 w) = [] then butlast (split_on 10 w) else split_on 10 w)"
    have "\<exists>l. str_lines (pre @ x @ post) = map strip_cr A @ l # map strip_cr B \<and> trim_end_cr l = x"
      if x: "clean x" "x \<noteq> []" for x
    proof -
      have "split_on 10 (x @ post) = (x @ replicate k 13) # split_on 10 w"
        using x 2 split_on_append [of 10 "x @ replicate k 13" w] by (simp add: clean_def)
      then show ?thesis
        using x strip_cr_tail [of x k] trim_end_cr_tail [of x "k - 1"]
        by (simp add: str_lines_def pre Let_def clean_def B_def split_on_nonempty butlast_append)
    qed
    then show ?thesis
      by metis
  qed
qed

lemma sdp_line_origin:
  "trim_end_cr l = 111 # 61 # v \<Longrightarrow>
    sdp_line st l = bind_res (parse_origin (from_two (111 # 61 # v))) (\<lambda>o'. Inr (st\<lparr>st_origin := Some o'\<rparr>))"
  by (simp add: sdp_line_def Let_def first_char_ascii get_at_def ascii_def)

lemma first_char_head: "first_char line = [b] \<Longrightarrow> \<exists>r. line = b # r"
  by (cases line) (auto simp: first_char_def utf8_step_def Let_def take_Cons' split: if_splits sum.splits)

definition origin_text :: "bytes \<Rightarrow> bool" where
  "origin_text l \<longleftrightarrow> starts_with (trim_end_cr l) (ascii ''o='')"

lemma sdp_line_other:
  assumes "\<not> origin_text l"
  shows "sdp_line (st\<lparr>st_origin := x\<rparr>) l = map_sum id (\<lambda>s. s\<lparr>st_origin := x\<rparr>) (sdp_line st l)"
proof -
  define line where "line = trim_end_cr l"
  have stream: "in_stream f g (st\<lparr>st_origin := x\<rparr>) = (in_stream f g st)\<lparr>st_origin := x\<rparr>"
    if "g (st\<lparr>st_origin := x\<rparr>) = (g st)\<lparr>st_origin := x\<rparr>" for f g
    using that by (simp add: in_stream_def)
  have "get_at line (length (first_char line)) \<noteq> Some 61" if "first_char line = [111]"
    using assms first_char_head [OF that] that
    by (auto simp: origin_text_def line_def [symmetric] starts_with_def ascii_def take_Suc hd_conv_nth nth_tl get_at_def)
  then show ?thesis
    by (auto simp: sdp_line_def line_def [symmetric] Let_def stream ascii_def bind_res_def split: sum.splits)
qed

lemma sdp_lines_other:
  "list_all (\<lambda>l. \<not> origin_text l) ls \<Longrightarrow>
    sdp_lines (st\<lparr>st_origin := x\<rparr>) ls = map_sum id (\<lambda>s. s\<lparr>st_origin := x\<rparr>) (sdp_lines st ls)"
proof (induction ls arbitrary: st)
  case (Cons l ls)
  then show ?case
    by (cases "sdp_line st l") (simp_all add: sdp_line_other)
qed simp

section \<open>What a relay emits\<close>

lemma relay_Inr:
  assumes "relay r text = (r', Inr out)"
  obtains d before after where "sdp_parse text = Inr d" "split_origin text = Some (before, after)"
    "out = before @ origin_line (rl_origin r') @ after" "rl_emitted r' = Some (before @ after)"
    "rl_origin r' = (if rl_emitted r = None \<or> rl_emitted r = Some (before @ after) then rl_origin r
      else (rl_origin r)\<lparr>og_session_version := saturating_add_word (og_session_version (rl_origin r)) 1\<rparr>)"
  using assms
  by (auto simp: relay_def Let_def split: sum.splits if_splits option.splits prod.splits)


text \<open>
  A description with one origin line is relayed as itself: what the peer reads is what was
  given, with the relay's origin and nothing else changed.
\<close>

theorem relay_reads:
  assumes "relay r text = (r', Inr out)" "origin_ok (rl_origin r)" "\<not> is_continuation (hd (og_username (rl_origin r)))"
    "length (filter origin_text (str_lines text)) = 1"
  shows "\<exists>d. sdp_parse text = Inr d \<and> sdp_parse out = Inr (d\<lparr>sd_origin := rl_origin r'\<rparr>)"
proof (rule relay_Inr [OF assms(1)])
  fix d before after
  assume d: "sdp_parse text = Inr d" "split_origin text = Some (before, after)"
    "out = before @ origin_line (rl_origin r') @ after"
    "rl_origin r' = (if rl_emitted r = None \<or> rl_emitted r = Some (before @ after) then rl_origin r
      else (rl_origin r)\<lparr>og_session_version := saturating_add_word (og_session_version (rl_origin r)) 1\<rparr>)"
  define w where "w = join_bytes [32] (origin_words (rl_origin r'))"
  have origin: "origin_ok (rl_origin r')" "\<not> is_continuation (hd (og_username (rl_origin r')))"
    using assms(2,3) by (simp_all add: d(4) origin_ok_def)
  then have w: "plain_value w" "parse_origin w = Inr (rl_origin r')" "origin_line (rl_origin r') = 111 # 61 # w"
    using words_values(1) parse_origin_written origin_line_words by (simp_all add: w_def)
  obtain v where v: "text = before @ (111 # 61 # v) @ after" "clean (111 # 61 # v)" "line_start before" "line_end after"
    using split_origin_at_Some [of "[]" "text" before after] d(2) by (auto simp: split_origin_def line_start_def)
  obtain A B where around: "\<And>x. clean x \<Longrightarrow> x \<noteq> [] \<Longrightarrow>
      \<exists>l. str_lines (before @ x @ after) = A @ l # B \<and> trim_end_cr l = x"
    using str_lines_around [OF v(3,4)] by metis
  obtain l where l: "str_lines text = A @ l # B" "trim_end_cr l = 111 # 61 # v"
    using around [OF v(2)] v(1) by auto
  have "clean (111 # 61 # w)"
    using w(1) by (auto simp: plain_value_def clean_def)
  then obtain k where k: "str_lines out = A @ k # B" "trim_end_cr k = 111 # 61 # w"
    using around [of "111 # 61 # w"] by (auto simp: d(3) w(3))
  have "origin_text l"
    by (simp add: origin_text_def l(2) starts_with_def ascii_def)
  then have others: "list_all (\<lambda>l. \<not> origin_text l) B"
    using assms(4) by (simp add: l(1) filter_empty_conv list_all_iff)
  obtain st where st: "sdp_lines sdp_init (A @ l # B) = Inr st" "st_origin st = Some (sd_origin d)"
    "d = \<lparr>sd_origin = sd_origin d, sd_session_name = unwrap_or (st_session_name st) (ascii ''-''),
            sd_connection = st_connection st, sd_timing = st_timing st, sd_attributes = st_attributes st,
            sd_media = st_media st, sd_other = st_other st\<rparr>"
    using d(1) by (auto simp: sdp_parse_def bind_res_Inr_iff l(1))
  then obtain s1 o1 where s1: "sdp_lines sdp_init A = Inr s1" "sdp_lines (s1\<lparr>st_origin := Some o1\<rparr>) B = Inr st"
    by (auto simp: sdp_lines_append bind_res_Inr_iff sdp_line_origin [OF l(2)])
  have "sdp_line s1 k = Inr (s1\<lparr>st_origin := Some (rl_origin r')\<rparr>)"
    using w(1,2) by (simp add: sdp_line_origin [OF k(2)] from_two_plain)
  moreover have "sdp_lines (s1\<lparr>st_origin := Some (rl_origin r')\<rparr>) B = Inr (st\<lparr>st_origin := Some (rl_origin r')\<rparr>)"
    using sdp_lines_other [OF others, where st = "s1\<lparr>st_origin := Some o1\<rparr>" and x = "Some (rl_origin r')"] s1(2) by simp
  ultimately have "sdp_lines sdp_init (str_lines out) = Inr (st\<lparr>st_origin := Some (rl_origin r')\<rparr>)"
    using s1(1) by (simp add: k(1) sdp_lines_append)
  then have "sdp_parse out = Inr (d\<lparr>sd_origin := rl_origin r'\<rparr>)"
    by (subst st(3)) (simp add: sdp_parse_def)
  then show ?thesis
    using d(1) by blast
qed

section \<open>Versions\<close>

















section \<open>Descriptions the writer wrote\<close>

text \<open>A written description is split after its version line.\<close>

definition written_before :: bytes where
  "written_before = ascii ''v=0'' @ EOL"

definition written_after :: "session_description \<Rightarrow> bytes" where
  "written_after d = drop (length (written_before @ origin_line (sd_origin d))) (to_string_sdp d)"

lemma written_around:
  "to_string_sdp d = written_before @ origin_line (sd_origin d) @ written_after d \<and> (\<exists>w. written_after d = 13 # 10 # w)"
  by (simp add: to_string_sdp_def written_before_def written_after_def EOL_def)

lemma position_append: "list_all (\<lambda>x. \<not> P x) xs \<Longrightarrow> P y \<Longrightarrow> position P (xs @ y # ys) = Some (length xs)"
  by (induction xs) auto

lemma split_origin_at_line:
  assumes "clean l" "l \<noteq> []"
  shows "split_origin_at start (l @ 13 # 10 # w) =
    (if starts_with l (ascii ''o='') then Some (start, 13 # 10 # w) else split_origin_at (start @ l @ EOL) w)"
proof -
  have "position (\<lambda>b. b = 10) (l @ 13 # 10 # w) = Some (length (l @ [13]))"
    using assms position_append [of "\<lambda>b. b = 10" "l @ [13]" 10 w] by (auto simp: clean_def list_all_iff)
  moreover have "trim_end_breaks (l @ [13, 10]) = l"
    using assms by (cases l rule: rev_cases) (simp_all add: trim_end_breaks_def clean_def)
  ultimately show ?thesis
    by (simp add: split_origin_at.simps [of start "l @ 13 # 10 # w"] EOL_def)
qed

lemma split_origin_written:
  assumes "origin_ok (sd_origin d)" "\<not> is_continuation (hd (og_username (sd_origin d)))"
  shows "split_origin (to_string_sdp d) = Some (written_before, written_after d)"
proof -
  have "clean (origin_line (sd_origin d))"
    using words_values(1) [OF assms] by (auto simp: origin_line_words plain_value_def clean_def)
  moreover have "starts_with (origin_line (sd_origin d)) (ascii ''o='')" "origin_line (sd_origin d) \<noteq> []"
    by (simp_all add: origin_line_def starts_with_def ascii_def)
  moreover have "clean (ascii ''v=0'')" "ascii ''v=0'' \<noteq> []" "\<not> starts_with (ascii ''v=0'') (ascii ''o='')"
    by code_simp+
  moreover obtain w where "written_after d = 13 # 10 # w"
    using written_around by blast
  ultimately show ?thesis
    using written_around [of d] split_origin_at_line [of "ascii ''v=0''" "[]" "origin_line (sd_origin d) @ written_after d"]
      split_origin_at_line [of "origin_line (sd_origin d)" written_before w]
    by (auto simp: split_origin_def written_before_def EOL_def starts_with_def)
qed

lemma relay_written:
  assumes "description_ok d" "characters_ok d" "sd_media d \<noteq> []"
    "list_all (\<lambda>m. md_connection m \<noteq> None) (sd_media d)"
  shows "\<exists>out. relay r (to_string_sdp d) =
    (r\<lparr>rl_origin := (if rl_emitted r = None \<or> rl_emitted r = Some (written_before @ written_after d) then rl_origin r
        else (rl_origin r)\<lparr>og_session_version := saturating_add_word (og_session_version (rl_origin r)) 1\<rparr>),
      rl_emitted := Some (written_before @ written_after d)\<rparr>, Inr out)"
proof -
  have "split_origin (to_string_sdp d) = Some (written_before, written_after d)"
    using assms(1,2) by (intro split_origin_written) (simp_all add: description_ok_def characters_ok_def)
  moreover have "find (\<lambda>m. \<not> is_rejected m \<and> md_connection m = None \<and> sd_connection (normal d) = None) (sd_media (normal d)) = None"
    using assms(4) by (auto simp: find_None_iff list_all_iff normal_def media_normal_def)
  moreover have "sd_media (normal d) \<noteq> []"
    using assms(3) by (simp add: normal_def)
  ultimately show ?thesis
    using parse_written [OF assms(1,2)] by (auto simp: relay_def Let_def split: option.splits)
qed

lemma trim_end_cr_Cons:
  "trim_end_cr (b # v) = (if trim_end_cr v \<noteq> [] then b # trim_end_cr v else if b = 13 then [] else [b])"
  by (auto simp: trim_end_cr_def dropWhile_append)

lemma origin_text_first: "origin_text (b # v) \<longleftrightarrow> b = 111 \<and> (\<exists>w. v = 61 # w)"
  by (cases v) (auto simp: origin_text_def trim_end_cr_Cons starts_with_iff ascii_def trim_end_cr_def [of "[]"])

definition example_origin :: origin where
  "example_origin = \<lparr>og_username = ascii ''-'', og_session_id = 7, og_session_version = 1,
     og_address = Address_Ip (V4 [10, 0, 0, 1])\<rparr>"

lemma example_origin_ok: "origin_ok example_origin" "\<not> is_continuation (hd (og_username example_origin))"
  by code_simp+

lemma example_one_origin: "length (filter origin_text (str_lines (to_string_sdp example_description))) = 1"
proof -
  have "str_lines (to_string_sdp example_description) = description_lines example_description"
    using concat_lines_clean [OF example_ok(1,2)] by (simp add: description_written str_lines_eol)
  then show ?thesis
    by (simp add: description_lines_def example_description_def origin_text_first ascii_def media_lines_def
        before_connection_def)
qed

definition example_relayed :: "description_relay \<times> (relay_error, bytes) result" where
  "example_relayed = relay (relay_new example_origin) (to_string_sdp example_description)"

lemma example_relays: "\<exists>r out. example_relayed = (r, Inr out)"
  using relay_written [OF example_ok(1,2), of "relay_new example_origin"]
  by (auto simp: example_relayed_def example_description_def)

lemma relay_reads_witness:
  "\<exists>r out d. example_relayed = (r, Inr out) \<and> sdp_parse out = Inr (d\<lparr>sd_origin := rl_origin r\<rparr>)"
proof -
  obtain r out where r: "example_relayed = (r, Inr out)"
    using example_relays by blast
  show ?thesis
    using relay_reads [OF r [unfolded example_relayed_def] _ _ example_one_origin] r example_origin_ok
    by (auto simp: relay_new_def)
qed



end
