(* ===== verification/Sdp_Keying.thy ===== *)
theory Sdp_Keying
  imports Sdp_Session
begin

text \<open>
  What a description says of a codec and of a key: \<open>sipx-sdp/src/rtpmap.rs\<close> (when two \<open>rtpmap\<close>
  values name the same format), \<open>crypto.rs\<close> (SDES keys, RFC 4568) and \<open>fingerprint.rs\<close> (DTLS
  fingerprints and roles, RFC 8122 and RFC 4145), and the readers of those attributes in
  \<open>session.rs\<close>. The hash functions and the random generator are third-party code and parameters.
\<close>

section \<open>Codecs\<close>

datatype rtpmap_error = MissingEncoding | MissingClockRate | ClockRate bytes | EncodingParameter bytes

record rtpmap_value =
  rm_encoding :: bytes
  rm_clock_rate :: u32
  rm_channels :: u32

definition rtpmap_decimal :: "bytes \<Rightarrow> (bytes, u32) result" where
  "rtpmap_decimal field =
     (if field = [] \<or> \<not> list_all is_ascii_digit field then Inl field
      else map_sum id of_nat (ok_or field (parse_uint 4294967296 field)))"

definition rtpmap_parse :: "bytes \<Rightarrow> (rtpmap_error, rtpmap_value) result" where
  "rtpmap_parse v =
     bind_res (ok_or MissingClockRate (split_once (ch CHR ''/'') v)) (\<lambda>(encoding, rest).
       if encoding = [] then Inl MissingEncoding
       else
         (let (clock_rate, parameter) = (case split_once (ch CHR ''/'') rest of
                 Some (clock_rate, parameter) \<Rightarrow> (clock_rate, Some parameter)
               | None \<Rightarrow> (rest, None)) in
            bind_res (map_sum ClockRate id (rtpmap_decimal clock_rate)) (\<lambda>rate.
            bind_res (case parameter of
                        None \<Rightarrow> Inr 1
                      | Some p \<Rightarrow> map_sum EncodingParameter id (rtpmap_decimal p)) (\<lambda>channels.
              Inr \<lparr>rm_encoding = encoding, rm_clock_rate = rate, rm_channels = channels\<rparr>))))"

definition same_format_as :: "rtpmap_value \<Rightarrow> rtpmap_value \<Rightarrow> bool" where
  "same_format_as a b \<longleftrightarrow>
     eq_ignore_ascii_case (rm_encoding a) (rm_encoding b) \<and> rm_clock_rate a = rm_clock_rate b \<and>
     rm_channels a = rm_channels b"

definition same_format :: "bytes \<Rightarrow> bytes \<Rightarrow> bool" where
  "same_format offered local =
     (case (rtpmap_parse offered, rtpmap_parse local) of
        (Inr a, Inr b) \<Rightarrow> same_format_as a b
      | _ \<Rightarrow> False)"

section \<open>Base64\<close>

definition ALPHABET :: bytes where
  "ALPHABET = ascii ''ABCDEFGHIJKLMNOPQRSTUVWXYZabcdefghijklmnopqrstuvwxyz0123456789+/''"

definition base64_chunk :: "bytes \<Rightarrow> bytes" where
  "base64_chunk chunk =
     (let byte = (\<lambda>i. unwrap_or (map_option (ucast :: u8 \<Rightarrow> u32) (get_at chunk i)) 0);
          group = push_bit 16 (byte 0) OR push_bit 8 (byte 1) OR byte 2 in
        map (\<lambda>i. if i \<le> length chunk
                 then unwrap_or (get_at ALPHABET (unat (drop_bit (18 - i * 6) group AND 0x3F))) (ch CHR ''A'')
                 else ch CHR ''='') [0, 1, 2, 3])"

function base64_encode :: "bytes \<Rightarrow> bytes" where
  "base64_encode data = (if data = [] then [] else base64_chunk (take 3 data) @ base64_encode (drop 3 data))"
  by auto
termination
  by (relation "measure length") auto

declare base64_encode.simps [simp del]

text \<open>\<open>bits\<close> is a \<open>u32\<close> whose high bits shift out; \<open>held\<close> stays below eight between octets.\<close>

fun base64_read :: "u32 \<Rightarrow> nat \<Rightarrow> bytes \<Rightarrow> bytes option" where
  "base64_read bits held [] = Some []"
| "base64_read bits held (b # rest) =
     (if b = ch CHR ''='' then Some []
      else
        (case position (\<lambda>c. c = b) ALPHABET of
           None \<Rightarrow> None
         | Some v \<Rightarrow>
             (let bits = push_bit 6 bits OR of_nat v; held = held + 6 in
                if 8 \<le> held
                then map_option ((#) (ucast (drop_bit (held - 8) bits AND 0xFF)))
                       (base64_read bits (held - 8) rest)
                else base64_read bits held rest)))"

definition base64_decode :: "bytes \<Rightarrow> bytes option" where
  "base64_decode text = base64_read 0 0 text"

section \<open>SDES keys\<close>

datatype suite = AesCm128HmacSha1_80 | AeadAes128Gcm | AeadAes256Gcm

definition SUITES_STRONGEST_FIRST :: "suite list" where
  "SUITES_STRONGEST_FIRST = [AeadAes256Gcm, AeadAes128Gcm, AesCm128HmacSha1_80]"

definition suite_str :: "suite \<Rightarrow> bytes" where
  "suite_str s =
     (case s of
        AesCm128HmacSha1_80 \<Rightarrow> ascii ''AES_CM_128_HMAC_SHA1_80''
      | AeadAes128Gcm \<Rightarrow> ascii ''AEAD_AES_128_GCM''
      | AeadAes256Gcm \<Rightarrow> ascii ''AEAD_AES_256_GCM'')"

definition suite_parse :: "bytes \<Rightarrow> suite option" where
  "suite_parse token = find (\<lambda>s. suite_str s = token) SUITES_STRONGEST_FIRST"

definition suite_strength :: "suite \<Rightarrow> u8" where
  "suite_strength s = (case s of AesCm128HmacSha1_80 \<Rightarrow> 1 | AeadAes128Gcm \<Rightarrow> 2 | AeadAes256Gcm \<Rightarrow> 3)"

definition suite_lengths :: "suite \<Rightarrow> nat \<times> nat" where
  "suite_lengths s =
     (case s of AesCm128HmacSha1_80 \<Rightarrow> (16, 14) | AeadAes128Gcm \<Rightarrow> (16, 12) | AeadAes256Gcm \<Rightarrow> (32, 12))"

record sdes_crypto =
  cr_tag :: u32
  cr_suite :: suite
  cr_key_and_salt :: bytes

text \<open>\<open>random\<close> is what \<open>fill_random\<close> writes into a buffer of that length.\<close>

definition crypto_offer :: "(nat \<Rightarrow> bytes) \<Rightarrow> u32 \<Rightarrow> suite \<Rightarrow> bool \<Rightarrow> sdes_crypto option" where
  "crypto_offer random tag s secure_signalling =
     (if \<not> secure_signalling then None
      else
        (let (key_len, salt_len) = suite_lengths s in
           Some \<lparr>cr_tag = tag, cr_suite = s, cr_key_and_salt = random (key_len + salt_len)\<rparr>))"

definition master_key :: "sdes_crypto \<Rightarrow> bytes" where
  "master_key c = unwrap_or (get_range (cr_key_and_salt c) 0 (fst (suite_lengths (cr_suite c)))) []"

definition master_salt :: "sdes_crypto \<Rightarrow> bytes" where
  "master_salt c =
     unwrap_or (get_range (cr_key_and_salt c) (fst (suite_lengths (cr_suite c))) (length (cr_key_and_salt c))) []"

definition key_size :: "suite \<Rightarrow> nat" where
  "key_size s = (case suite_lengths s of (key_len, salt_len) \<Rightarrow> key_len + salt_len)"

definition strip_prefix :: "bytes \<Rightarrow> bytes \<Rightarrow> bytes option" where
  "strip_prefix pre v = (if starts_with v pre then Some (drop (length pre) v) else None)"

fun crypto_parameters :: "u32 \<Rightarrow> suite \<Rightarrow> bytes list \<Rightarrow> sdes_crypto option" where
  "crypto_parameters tag s [] = None"
| "crypto_parameters tag s (parameter # rest) =
     (case strip_prefix (ascii ''inline:'') parameter of
        None \<Rightarrow> crypto_parameters tag s rest
      | Some v \<Rightarrow>
          Option.bind (base64_decode (takeWhile (\<lambda>b. b \<noteq> ch CHR ''|'') v)) (\<lambda>key.
            if length key \<noteq> key_size s then None
            else Some \<lparr>cr_tag = tag, cr_suite = s, cr_key_and_salt = key\<rparr>))"

definition crypto_parse :: "bytes \<Rightarrow> sdes_crypto option" where
  "crypto_parse v =
     (let parts = split_whitespace v in
        Option.bind (Option.bind (get_at parts 0) (parse_uint 4294967296)) (\<lambda>tag.
        Option.bind (Option.bind (get_at parts 1) suite_parse) (\<lambda>s.
          crypto_parameters (of_nat tag) s (drop 2 parts))))"

definition accepting :: "sdes_crypto \<Rightarrow> sdes_crypto \<Rightarrow> sdes_crypto option" where
  "accepting ours offered =
     (if cr_suite ours \<noteq> cr_suite offered then None
      else if length (cr_key_and_salt ours) \<noteq> key_size (cr_suite offered) then None
      else Some \<lparr>cr_tag = cr_tag offered, cr_suite = cr_suite offered, cr_key_and_salt = cr_key_and_salt ours\<rparr>)"

text \<open>The texts of the errors are not modelled, only which of the three checks failed.\<close>

datatype crypto_refusal = NoCryptoAnswered | NotOffered u32 suite | NoUsableKey u32

definition verify_answer :: "sdes_crypto list \<Rightarrow> sdes_crypto option \<Rightarrow> (crypto_refusal, sdes_crypto) result" where
  "verify_answer offered answered =
     (case answered of
        None \<Rightarrow> Inl NoCryptoAnswered
      | Some a \<Rightarrow>
          bind_res (ok_or (NotOffered (cr_tag a) (cr_suite a))
              (find (\<lambda>ours. cr_tag ours = cr_tag a \<and> cr_suite ours = cr_suite a) offered)) (\<lambda>accepted.
            if length (cr_key_and_salt a) \<noteq> key_size (cr_suite a) then Inl (NoUsableKey (cr_tag a))
            else Inr accepted))"

definition crypto_to_value :: "sdes_crypto \<Rightarrow> bytes" where
  "crypto_to_value c =
     decimal (unat (cr_tag c)) @ ascii '' '' @ suite_str (cr_suite c) @ ascii '' inline:'' @
     base64_encode (cr_key_and_salt c)"

text \<open>\<open>reduce\<close>: the later element is kept only when its suite is strictly stronger.\<close>

definition stronger :: "sdes_crypto \<Rightarrow> sdes_crypto \<Rightarrow> sdes_crypto" where
  "stronger best candidate =
     (if suite_strength (cr_suite best) < suite_strength (cr_suite candidate) then candidate else best)"

fun strongest :: "sdes_crypto list \<Rightarrow> sdes_crypto option" where
  "strongest [] = None"
| "strongest (c # cs) = Some (foldl stronger c cs)"

definition crypto_offers :: "media_description \<Rightarrow> sdes_crypto list" where
  "crypto_offers m =
     List.map_filter crypto_parse
       (List.map_filter at_value (filter (\<lambda>a. at_name a = ascii ''crypto'') (md_attributes m)))"

definition media_crypto :: "media_description \<Rightarrow> sdes_crypto option" where
  "media_crypto m = strongest (crypto_offers m)"

section \<open>Fingerprints\<close>

datatype hash_func = Sha1 | Sha224 | Sha256 | Sha384 | Sha512

definition hash_func_str :: "hash_func \<Rightarrow> bytes" where
  "hash_func_str f =
     (case f of Sha1 \<Rightarrow> ascii ''sha-1'' | Sha224 \<Rightarrow> ascii ''sha-224'' | Sha256 \<Rightarrow> ascii ''sha-256''
      | Sha384 \<Rightarrow> ascii ''sha-384'' | Sha512 \<Rightarrow> ascii ''sha-512'')"

definition hash_func_parse :: "bytes \<Rightarrow> hash_func option" where
  "hash_func_parse token =
     find (\<lambda>f. eq_ignore_ascii_case token (hash_func_str f)) [Sha1, Sha224, Sha256, Sha384, Sha512]"

definition digest_len :: "hash_func \<Rightarrow> nat" where
  "digest_len f = (case f of Sha1 \<Rightarrow> 20 | Sha224 \<Rightarrow> 28 | Sha256 \<Rightarrow> 32 | Sha384 \<Rightarrow> 48 | Sha512 \<Rightarrow> 64)"

record fingerprint =
  fp_func :: hash_func
  fp_digest :: bytes

definition fingerprint_of_certificate :: "(hash_func \<Rightarrow> bytes \<Rightarrow> bytes) \<Rightarrow> bytes \<Rightarrow> hash_func \<Rightarrow> fingerprint" where
  "fingerprint_of_certificate hash certificate f = \<lparr>fp_func = f, fp_digest = hash f certificate\<rparr>"

definition fingerprint_matches :: "(hash_func \<Rightarrow> bytes \<Rightarrow> bytes) \<Rightarrow> fingerprint \<Rightarrow> bytes \<Rightarrow> bool" where
  "fingerprint_matches hash fp certificate \<longleftrightarrow> hash (fp_func fp) certificate = fp_digest fp"

definition is_ascii_whitespace :: "u8 \<Rightarrow> bool" where
  "is_ascii_whitespace b \<longleftrightarrow> b \<in> {9, 10, 12, 13, 32}"

function split_ascii_whitespace :: "bytes \<Rightarrow> bytes list" where
  "split_ascii_whitespace bs =
     (let rest = dropWhile is_ascii_whitespace bs in
        if rest = [] then []
        else takeWhile (\<lambda>b. \<not> is_ascii_whitespace b) rest
             # split_ascii_whitespace (dropWhile (\<lambda>b. \<not> is_ascii_whitespace b) rest))"
  by auto
termination
proof (relation "measure length")
  fix bs rest :: bytes
  assume "rest = dropWhile is_ascii_whitespace bs" "rest \<noteq> []"
  then have "length rest \<le> length bs" "\<not> is_ascii_whitespace (hd rest)"
    using hd_dropWhile [of is_ascii_whitespace bs] by (auto simp: length_dropWhile_le)
  then show "(dropWhile (\<lambda>b. \<not> is_ascii_whitespace b) rest, bs) \<in> measure length"
    using \<open>rest \<noteq> []\<close> length_dropWhile_le [of "\<lambda>b. \<not> is_ascii_whitespace b" "tl rest"]
    by (cases rest) auto
qed simp

declare split_ascii_whitespace.simps [simp del]

text \<open>\<open>u8::from_str_radix(_, 16)\<close>, which takes a leading plus sign.\<close>

definition u8_from_hex :: "bytes \<Rightarrow> u8 option" where
  "u8_from_hex pair =
     (let digits = (case pair of
            b # rest \<Rightarrow> (if b = ch CHR ''+'' \<and> rest \<noteq> [] then rest else pair)
          | [] \<Rightarrow> []) in
        if digits = [] \<or> \<not> list_all (\<lambda>b. hex_value b \<noteq> None) digits then None
        else (let n = fold (\<lambda>b acc. acc * 16 + unat (unwrap_or (hex_value b) 0)) digits (0::nat) in
                if n < 256 then Some (of_nat n) else None))"

fun read_pairs :: "bytes list \<Rightarrow> bytes option" where
  "read_pairs [] = Some []"
| "read_pairs (pair # rest) =
     (if length pair \<noteq> 2 then None
      else Option.bind (u8_from_hex pair) (\<lambda>b. map_option ((#) b) (read_pairs rest)))"

definition fingerprint_parse :: "bytes \<Rightarrow> fingerprint option" where
  "fingerprint_parse v =
     (let parts = split_ascii_whitespace (str_trim v) in
        Option.bind (Option.bind (get_at parts 0) hash_func_parse) (\<lambda>f.
        Option.bind (get_at parts 1) (\<lambda>printed.
          if get_at parts 2 \<noteq> None then None
          else
            Option.bind (read_pairs (split_on (ch CHR '':'') printed)) (\<lambda>digest.
              if length digest = digest_len f then Some \<lparr>fp_func = f, fp_digest = digest\<rparr> else None))))"

fun print_pairs :: "bytes \<Rightarrow> bytes" where
  "print_pairs [] = []"
| "print_pairs [b] = upper_hex b"
| "print_pairs (b # rest) = upper_hex b @ ch CHR '':'' # print_pairs rest"

definition fingerprint_to_value :: "fingerprint \<Rightarrow> bytes" where
  "fingerprint_to_value fp = hash_func_str (fp_func fp) @ ascii '' '' @ print_pairs (fp_digest fp)"

definition first_fingerprint :: "attribute list \<Rightarrow> fingerprint option" where
  "first_fingerprint as =
     find_map fingerprint_parse (List.map_filter at_value (filter (\<lambda>a. at_name a = ascii ''fingerprint'') as))"

definition media_fingerprint :: "media_description \<Rightarrow> fingerprint option" where
  "media_fingerprint m = first_fingerprint (md_attributes m)"

definition sd_fingerprint :: "session_description \<Rightarrow> fingerprint option" where
  "sd_fingerprint d = first_fingerprint (sd_attributes d)"

section \<open>DTLS roles\<close>

datatype setup_role = Active | Passive | ActPass | HoldConn

record setup_capabilities =
  sc_client :: bool
  sc_server :: bool

definition setup_both :: setup_capabilities where
  "setup_both = \<lparr>sc_client = True, sc_server = True\<rparr>"

definition setup_client_only :: setup_capabilities where
  "setup_client_only = \<lparr>sc_client = True, sc_server = False\<rparr>"

definition setup_server_only :: setup_capabilities where
  "setup_server_only = \<lparr>sc_client = False, sc_server = True\<rparr>"

definition setup_neither :: setup_capabilities where
  "setup_neither = \<lparr>sc_client = False, sc_server = False\<rparr>"

datatype setup_role_error =
  UnresolvedOffer setup_role | MissingAnswer | UnresolvedAnswer setup_role | UnsupportedLocalRole setup_role | NoAnswerRole

definition answer_to :: "setup_capabilities \<Rightarrow> setup_role \<Rightarrow> (setup_role_error, setup_role) result" where
  "answer_to caps offered =
     (if offered \<in> {ActPass, Passive} \<and> sc_client caps then Inr Active
      else if offered \<in> {ActPass, Active} \<and> sc_server caps then Inr Passive
      else case offered of
        ActPass \<Rightarrow> Inl NoAnswerRole
      | Passive \<Rightarrow> Inl (UnsupportedLocalRole Active)
      | Active \<Rightarrow> Inl (UnsupportedLocalRole Passive)
      | HoldConn \<Rightarrow> Inl (UnresolvedOffer HoldConn))"

definition from_answer :: "setup_capabilities \<Rightarrow> setup_role option \<Rightarrow> (setup_role_error, setup_role) result" where
  "from_answer caps answered =
     (case answered of
        None \<Rightarrow> Inl MissingAnswer
      | Some Active \<Rightarrow> (if sc_server caps then Inr Passive else Inl (UnsupportedLocalRole Passive))
      | Some Passive \<Rightarrow> (if sc_client caps then Inr Active else Inl (UnsupportedLocalRole Active))
      | Some unresolved \<Rightarrow> Inl (UnresolvedAnswer unresolved))"

definition setup_str :: "setup_role \<Rightarrow> bytes" where
  "setup_str r =
     (case r of Active \<Rightarrow> ascii ''active'' | Passive \<Rightarrow> ascii ''passive'' | ActPass \<Rightarrow> ascii ''actpass''
      | HoldConn \<Rightarrow> ascii ''holdconn'')"

definition setup_parse :: "bytes \<Rightarrow> setup_role option" where
  "setup_parse token =
     find (\<lambda>r. eq_ignore_ascii_case (str_trim token) (setup_str r)) [Active, Passive, ActPass, HoldConn]"

definition setup_answer :: "setup_role \<Rightarrow> setup_role" where
  "setup_answer offered =
     (case offered of ActPass \<Rightarrow> Active | Passive \<Rightarrow> Active | Active \<Rightarrow> Passive | HoldConn \<Rightarrow> HoldConn)"

definition is_client :: "setup_role \<Rightarrow> bool" where
  "is_client r \<longleftrightarrow> r = Active"

definition first_setup :: "attribute list \<Rightarrow> setup_role option" where
  "first_setup as =
     Option.bind (Option.bind (find (\<lambda>a. at_name a = ascii ''setup'') as) at_value) setup_parse"

definition media_setup :: "media_description \<Rightarrow> setup_role option" where
  "media_setup m = first_setup (md_attributes m)"

end
