(* ===== verification/Sdp_Keys.thy ===== *)
theory Sdp_Keys
  imports Sdp_Keying Sdp_Text
begin

text \<open>
  Laws of \<open>crypto.rs\<close>, \<open>fingerprint.rs\<close> and \<open>rtpmap.rs\<close>: what is printed in an attribute is read
  back, which suite is chosen, and which roles two ends take.
\<close>

section \<open>Base64\<close>

lemma alphabet_table:
  "list_all (\<lambda>n. position (\<lambda>c. c = ALPHABET ! n) ALPHABET = Some n) [0..<64]"
  "list_all (\<lambda>b. 43 \<le> b \<and> b < 0x80 \<and> b \<noteq> 61 \<and> b \<noteq> 124) ALPHABET" "length ALPHABET = 64"
  by code_simp+

lemma alphabet_position: "n < 64 \<Longrightarrow> position (\<lambda>c. c = ALPHABET ! n) ALPHABET = Some n"
  using alphabet_table(1) by (simp add: list_all_iff)

lemma alphabet_plain: "n < 64 \<Longrightarrow> 43 \<le> ALPHABET ! n \<and> ALPHABET ! n < 0x80 \<and> ALPHABET ! n \<noteq> 61 \<and> ALPHABET ! n \<noteq> 124"
  using alphabet_table(2,3) by (simp add: list_all_length)

definition sextet :: "u32 \<Rightarrow> nat \<Rightarrow> nat" where
  "sextet g i = unat (drop_bit i g AND 0x3F)"

lemma sextet_bound: "sextet g i < 64"
proof -
  have "unat (take_bit 6 (drop_bit i g)) < 2 ^ 6"
    unfolding unsigned_take_bit_eq by (rule take_bit_nat_less_exp)
  moreover have "take_bit 6 (drop_bit i g) = drop_bit i g AND 0x3F"
    by (simp add: take_bit_eq_mask mask_eq_exp_minus_1)
  ultimately show ?thesis
    by (simp add: sextet_def)
qed

lemma sextet_last: "unat (g AND 0x3F) = sextet g 0"
  by (simp add: sextet_def)

lemma sextet_shift: "sextet (drop_bit i g) 0 = sextet g i"
  by (simp add: sextet_def)

lemma sextet_word: "of_nat (sextet g i) = drop_bit i g AND 0x3F"
  by (simp add: sextet_def)

definition triple :: "u8 \<Rightarrow> u8 \<Rightarrow> u8 \<Rightarrow> u32" where
  "triple a b c = push_bit 16 (ucast a) OR push_bit 8 (ucast b) OR ucast c"

lemma base64_chunk_shapes:
  "base64_chunk [a, b, c] = map (\<lambda>i. ALPHABET ! sextet (triple a b c) i) [18, 12, 6, 0]"
  "base64_chunk [a, b] = map (\<lambda>i. ALPHABET ! sextet (triple a b 0) i) [18, 12, 6] @ [61]"
  "base64_chunk [a] = map (\<lambda>i. ALPHABET ! sextet (triple a 0 0) i) [18, 12] @ [61, 61]"
  unfolding triple_def
  by (simp_all del: drop_bit_or add: base64_chunk_def Let_def get_at_def alphabet_table(3) sextet_bound sextet_last sextet_shift)

lemma base64_read_sextet:
  "base64_read bits held (ALPHABET ! sextet g i # rest) =
     (let bits = push_bit 6 bits OR (drop_bit i g AND 0x3F); held = held + 6 in
        if 8 \<le> held
        then map_option ((#) (ucast (drop_bit (held - 8) bits AND 0xFF))) (base64_read bits (held - 8) rest)
        else base64_read bits held rest)"
  using alphabet_position [OF sextet_bound] alphabet_plain [OF sextet_bound [of g i]]
  by (simp add: base64_read.simps(2) Let_def sextet_word)

lemma octets_of_group:
  "ucast (drop_bit 4 (push_bit 6 (push_bit 6 x OR (drop_bit 18 (triple a b c) AND 0x3F)) OR (drop_bit 12 (triple a b c) AND 0x3F)) AND 0xFF) = a"
  "ucast (drop_bit 2 (push_bit 6 (push_bit 6 x OR (drop_bit 12 (triple a b c) AND 0x3F)) OR (drop_bit 6 (triple a b c) AND 0x3F)) AND 0xFF) = b"
  "ucast ((push_bit 6 (push_bit 6 x OR (drop_bit 6 (triple a b c) AND 0x3F)) OR (triple a b c AND 0x3F)) AND 0xFF) = c"
proof -
  have mask: "(0x3F :: u32) = mask 6" "(0xFF :: u32) = mask 8"
    by (simp_all add: mask_eq_exp_minus_1)
  have octet: "8 \<le> n \<Longrightarrow> \<not> bit w n" for w :: u8 and n
    using bit_imp_le_length [of w n] by auto
  have nine: "n < 8 \<Longrightarrow> n = 0 \<or> n = 1 \<or> n = 2 \<or> n = 3 \<or> n = 4 \<or> n = 5 \<or> n = 6 \<or> n = 7" for n :: nat
    by arith
  show "ucast (drop_bit 4 (push_bit 6 (push_bit 6 x OR (drop_bit 18 (triple a b c) AND 0x3F)) OR (drop_bit 12 (triple a b c) AND 0x3F)) AND 0xFF) = a"
    unfolding mask triple_def
    by (rule bit_word_eqI) (auto simp: bit_simps octet simp flip: numeral_2_eq_2 dest!: nine)
  show "ucast (drop_bit 2 (push_bit 6 (push_bit 6 x OR (drop_bit 12 (triple a b c) AND 0x3F)) OR (drop_bit 6 (triple a b c) AND 0x3F)) AND 0xFF) = b"
    unfolding mask triple_def
    by (rule bit_word_eqI) (auto simp: bit_simps octet simp flip: numeral_2_eq_2 dest!: nine)
  show "ucast ((push_bit 6 (push_bit 6 x OR (drop_bit 6 (triple a b c) AND 0x3F)) OR (triple a b c AND 0x3F)) AND 0xFF) = c"
    unfolding mask triple_def
    by (rule bit_word_eqI) (auto simp: bit_simps octet simp flip: numeral_2_eq_2 dest!: nine)
qed

declare base64_read.simps(2) [simp del]

lemma base64_read_chunk:
  "\<exists>y. base64_read x 0 (base64_chunk [a, b, c] @ rest) = map_option (\<lambda>r. a # b # c # r) (base64_read y 0 rest)"
  using octets_of_group [of _ a b c]
  by (simp add: base64_chunk_shapes base64_read_sextet Let_def option.map_comp comp_def) blast

lemma base64_read_pad: "base64_read x n (61 # rest) = Some []"
  by (simp add: base64_read.simps(2))

lemma base64_read_ends:
  "base64_read x 0 (base64_chunk [a, b]) = Some [a, b]" "base64_read x 0 (base64_chunk [a]) = Some [a]"
  using octets_of_group [of _ a b 0] octets_of_group [of _ a 0 0]
  by (simp_all add: base64_chunk_shapes base64_read_sextet base64_read_pad Let_def)

lemma base64_round_trip: "base64_read x 0 (base64_encode data) = Some data"
proof (induction data arbitrary: x rule: base64_encode.induct)
  case (1 data)
  consider "data = []" | a where "data = [a]" | a b where "data = [a, b]" | a b c rest where "data = a # b # c # rest"
    by (metis neq_Nil_conv)
  then show ?case
  proof cases
    case 4
    obtain y where "base64_read x 0 (base64_chunk [a, b, c] @ base64_encode rest)
        = map_option (\<lambda>r. a # b # c # r) (base64_read y 0 (base64_encode rest))"
      using base64_read_chunk by blast
    then show ?thesis
      using 1 4 by (simp add: base64_encode.simps [of "a # b # c # rest"])
  qed (simp_all add: base64_encode.simps base64_read_ends)
qed

lemma base64_decode_encode: "base64_decode (base64_encode data) = Some data"
  by (simp add: base64_decode_def base64_round_trip)

lemma base64_chunk_plain: "b \<in> set (base64_chunk l) \<Longrightarrow> b = 61 \<or> b \<in> set ALPHABET"
proof -
  have A: "unwrap_or (get_at ALPHABET n) 65 \<in> set ALPHABET" for n
  proof (cases "get_at ALPHABET n")
    case None
    have "65 \<in> set ALPHABET"
      by code_simp
    then show ?thesis
      unfolding None by simp
  qed (metis get_at_eq_Some nth_mem unwrap_or_simps(2))
  then show "b \<in> set (base64_chunk l) \<Longrightarrow> b = 61 \<or> b \<in> set ALPHABET"
    by (auto simp: base64_chunk_def Let_def split: if_splits)
qed

lemma base64_octets: "b \<in> set (base64_encode data) \<Longrightarrow> b = 61 \<or> b \<in> set ALPHABET"
proof (induction data rule: base64_encode.induct)
  case (1 data)
  then show ?case
    using base64_chunk_plain by (cases "data = []") (auto simp: base64_encode.simps [of data] base64_encode.simps [of "[]"])
qed

lemma base64_plain: "b \<in> set (base64_encode data) \<Longrightarrow> 43 \<le> b \<and> b < 0x80 \<and> b \<noteq> 124"
  using base64_octets [of b data] alphabet_table(2) by (auto simp: list_all_iff)

section \<open>Keys\<close>

text \<open>Visible ASCII and spaces.\<close>

definition printable :: "bytes \<Rightarrow> bool" where
  "printable v \<longleftrightarrow> list_all (\<lambda>b. 32 \<le> b \<and> b < 0x80) v"

lemma printable_simps [simp]:
  "printable []" "printable (b # v) \<longleftrightarrow> 32 \<le> b \<and> b < 0x80 \<and> printable v"
  "printable (u @ v) \<longleftrightarrow> printable u \<and> printable v"
  by (simp_all add: printable_def)

lemma printableI: "(\<And>b. b \<in> set v \<Longrightarrow> 33 \<le> b \<and> b < 0x80) \<Longrightarrow> printable v"
  by (fastforce simp: printable_def list_all_iff word_le_nat_alt word_less_nat_alt)

lemma printable_octets: "printable v \<Longrightarrow> b \<in> set v \<Longrightarrow> b \<noteq> 10 \<and> b \<noteq> 13 \<and> \<not> is_continuation b"
  by (auto simp: printable_def list_all_iff is_continuation_def)

lemma printable_plain: "printable v \<Longrightarrow> plain_value v"
  using printable_octets [of v] last_in_set [of v] hd_in_set [of v]
  by (auto simp: plain_value_def clean_def)

lemma suite_text: "suite_parse (suite_str s) = Some s" "wordy (suite_str s)" "printable (suite_str s)"
proof -
  have "list_all (\<lambda>s. suite_parse (suite_str s) = Some s \<and> wordy (suite_str s) \<and> printable (suite_str s)) SUITES_STRONGEST_FIRST"
    by code_simp
  then show "suite_parse (suite_str s) = Some s" "wordy (suite_str s)" "printable (suite_str s)"
    by (cases s; simp add: SUITES_STRONGEST_FIRST_def)+
qed

lemma key_size_pos: "0 < key_size s"
  by (cases s) (simp_all add: key_size_def suite_lengths_def)

lemma base64_visible: "b \<in> set (base64_encode data) \<Longrightarrow> 33 \<le> b \<and> b < 0x80"
  using base64_plain [of b data] by (auto simp: word_le_nat_alt)

lemma decimal_printable: "printable (decimal n)"
  using decimal_plain by (intro printableI) auto

lemma base64_printable: "printable (base64_encode data)"
  using base64_visible by (intro printableI) auto

lemma crypto_printable: "printable (crypto_to_value c)"
  by (simp add: crypto_to_value_def decimal_printable base64_printable suite_text ascii_def)

lemma crypto_round_trip:
  assumes "length (cr_key_and_salt c) = key_size (cr_suite c)"
  shows "crypto_parse (crypto_to_value c) = Some c"
proof -
  define p where "p = ascii ''inline:'' @ base64_encode (cr_key_and_salt c)"
  have "wordy p"
    using base64_visible by (intro ascii_wordy) (auto simp: p_def ascii_def)
  moreover have "crypto_to_value c = join_bytes [32] [decimal (unat (cr_tag c)), suite_str (cr_suite c), p]"
    by (simp add: crypto_to_value_def p_def ascii_def)
  ultimately have "split_whitespace (crypto_to_value c) = [decimal (unat (cr_tag c)), suite_str (cr_suite c), p]"
    using split_join_words [of "[decimal (unat (cr_tag c)), suite_str (cr_suite c), p]"] decimal_wordy suite_text
    by auto
  moreover have "strip_prefix (ascii ''inline:'') p = Some (base64_encode (cr_key_and_salt c))"
    by (simp add: strip_prefix_def starts_with_def p_def)
  moreover have tw: "takeWhile (\<lambda>b. b \<noteq> 124) (base64_encode (cr_key_and_salt c)) = base64_encode (cr_key_and_salt c)"
    using base64_plain by (simp add: takeWhile_eq_all_conv)
  moreover have "parse_uint 4294967296 (decimal (unat (cr_tag c))) = Some (unat (cr_tag c))"
    using unsigned_less [of "cr_tag c"] by (intro parse_uint_decimal) simp
  ultimately show ?thesis
    using assms by (simp add: crypto_parse_def Let_def get_at_def suite_text base64_decode_encode tw)
qed

lemma crypto_parse_key: "crypto_parse v = Some c \<Longrightarrow> length (cr_key_and_salt c) = key_size (cr_suite c)"
proof -
  have "crypto_parameters tag s ps = Some c \<Longrightarrow> length (cr_key_and_salt c) = key_size (cr_suite c)" for tag s ps
    by (induction tag s ps rule: crypto_parameters.induct)
      (auto split: option.splits if_splits simp: bind_eq_Some_conv)
  then show "crypto_parse v = Some c \<Longrightarrow> length (cr_key_and_salt c) = key_size (cr_suite c)"
    by (auto simp: crypto_parse_def Let_def bind_eq_Some_conv)
qed

text \<open>The strongest is one of them, and none is stronger; among equals it is the first.\<close>

lemma stronger_bounds:
  "stronger c y \<in> {c, y}" "suite_strength (cr_suite c) \<le> suite_strength (cr_suite (stronger c y))"
  "suite_strength (cr_suite y) \<le> suite_strength (cr_suite (stronger c y))"
  by (auto simp: stronger_def)

lemma strongest_fold:
  "foldl stronger c cs \<in> insert c (set cs) \<and>
   (\<forall>d \<in> insert c (set cs). suite_strength (cr_suite d) \<le> suite_strength (cr_suite (foldl stronger c cs)))"
proof (induction cs arbitrary: c)
  case (Cons y cs)
  show ?case
    using Cons [of "stronger c y"] stronger_bounds [where c = c and y = y]
    by (auto intro: order_trans [of _ "suite_strength (cr_suite (stronger c y))"])
qed simp

lemma strongest_Some:
  "strongest cs = Some c \<Longrightarrow> c \<in> set cs"
  "strongest cs = Some c \<Longrightarrow> d \<in> set cs \<Longrightarrow> suite_strength (cr_suite d) \<le> suite_strength (cr_suite c)"
  using strongest_fold [of "hd cs" "tl cs"] by (cases cs; auto)+

lemma strongest_None: "strongest cs = None \<longleftrightarrow> cs = []"
  by (cases cs) auto

lemma suite_strength_inject: "suite_strength s = suite_strength t \<longleftrightarrow> s = t"
  by (cases s; cases t) (simp_all add: suite_strength_def)

section \<open>Fingerprints\<close>

definition pair_ok :: "u8 \<Rightarrow> bool" where
  "pair_ok b \<longleftrightarrow> u8_from_hex (upper_hex b) = Some b \<and> length (upper_hex b) = 2 \<and>
     list_all (\<lambda>c. 33 \<le> c \<and> c < 0x80 \<and> c \<noteq> 58) (upper_hex b)"

lemma hex_table:
  "list_all (\<lambda>i. hex_value (HEX ! i) = Some (of_nat i) \<and> 33 \<le> HEX ! i \<and> HEX ! i < 0x80 \<and> HEX ! i \<noteq> 58 \<and> HEX ! i \<noteq> 43)
     [0..<16]" "length HEX = 16"
  by code_simp+

lemma hex_entry:
  assumes "i < 16"
  shows "hex_value (HEX ! i) = Some (of_nat i)" "33 \<le> HEX ! i" "HEX ! i < 0x80" "HEX ! i \<noteq> 58" "HEX ! i \<noteq> 43"
  using hex_table(1) assms by (simp_all add: list_all_iff)

lemma nibbles: "unat (drop_bit 4 b) < 16" "unat (b AND 15) < 16" "unat (drop_bit 4 b) * 16 + unat (b AND 15) = unat b"
  for b :: u8
proof -
  have "b AND 15 = take_bit 4 b"
    by (simp add: take_bit_eq_mask mask_eq_exp_minus_1)
  then have "unat (b AND 15) = unat b mod 16"
    by (simp only: unsigned_take_bit_eq) (simp add: take_bit_eq_mod)
  moreover have "unat (drop_bit 4 b) = unat b div 16"
    using unsigned_less [of b, where ?'a = nat] by (simp only: unsigned_drop_bit_eq) (simp add: drop_bit_eq_div take_bit_nat_eq_self)
  ultimately show "unat (drop_bit 4 b) < 16" "unat (b AND 15) < 16" "unat (drop_bit 4 b) * 16 + unat (b AND 15) = unat b"
    using unsigned_less [of b, where ?'a = nat] by simp_all
qed

lemma pairs_ok: "pair_ok b"
proof -
  define i j where "i = unat (drop_bit 4 b)" and "j = unat (b AND 15)"
  have ij: "i < 16" "j < 16" "i * 16 + j = unat b"
    using nibbles [of b] by (simp_all add: i_def j_def)
  have "upper_hex b = [HEX ! i, HEX ! j]"
    using ij hex_table(2) by (simp add: upper_hex_def get_at_def flip: i_def j_def)
  moreover have "u8_from_hex [HEX ! i, HEX ! j] = Some b"
    using hex_entry [OF ij(1)] hex_entry [OF ij(2)] ij unsigned_less [of b]
    by (simp add: u8_from_hex_def Let_def unat_of_nat)
  ultimately show ?thesis
    using hex_entry [OF ij(1)] hex_entry [OF ij(2)] by (simp add: pair_ok_def)
qed

lemma upper_hex_plain: "c \<in> set (upper_hex b) \<Longrightarrow> 33 \<le> c \<and> c < 0x80 \<and> c \<noteq> 58"
  using pairs_ok [of b] by (auto simp: pair_ok_def list_all_iff)

lemma print_pairs_plain: "c \<in> set (print_pairs ds) \<Longrightarrow> 33 \<le> c \<and> c < 0x80"
  by (induction ds rule: print_pairs.induct) (auto dest: upper_hex_plain simp: word_le_nat_alt)

lemma split_pairs: "ds \<noteq> [] \<Longrightarrow> split_on 58 (print_pairs ds) = map upper_hex ds"
proof (induction ds rule: print_pairs.induct)
  case (2 b)
  then show ?case
    using upper_hex_plain [of 58 b] split_on_none [of 58 "upper_hex b"] by auto
next
  case (3 b c rest)
  then show ?case
    using upper_hex_plain [of 58 b] split_on_append [of 58 "upper_hex b" "print_pairs (c # rest)"] by auto
qed simp

lemma read_print_pairs: "read_pairs (map upper_hex ds) = Some ds"
  using pairs_ok by (induction ds) (simp_all add: pair_ok_def)

lemma visible_no_white: "33 \<le> b \<Longrightarrow> b < 0x80 \<Longrightarrow> \<not> is_ascii_whitespace b"
  by (auto simp: is_ascii_whitespace_def)

lemma split_ascii_two:
  assumes "a \<noteq> []" "b \<noteq> []" "\<And>c. c \<in> set (a @ b) \<Longrightarrow> \<not> is_ascii_whitespace c"
  shows "split_ascii_whitespace (a @ 32 # b) = [a, b]"
proof -
  have white: "is_ascii_whitespace 32"
    by (simp add: is_ascii_whitespace_def)
  have whole: "dropWhile is_ascii_whitespace (w @ r) = w @ r" if "w \<noteq> []" "set w \<subseteq> set (a @ b)" for w r
    using that assms(3) by (cases w) auto
  have word: "takeWhile (\<lambda>c. \<not> is_ascii_whitespace c) w = w" "dropWhile (\<lambda>c. \<not> is_ascii_whitespace c) w = []"
    if "set w \<subseteq> set (a @ b)" for w
    using that assms(3) by (auto simp: takeWhile_eq_all_conv dropWhile_eq_Nil_conv)
  have second: "split_ascii_whitespace (32 # b) = [b]"
    using whole [of b "[]"] assms(2) white
    by (simp add: word [of b] split_ascii_whitespace.simps [of "32 # b"] split_ascii_whitespace.simps [of "[]"] Let_def)
  show ?thesis
    using whole [of a "32 # b"] assms white second
    by (simp add: split_ascii_whitespace.simps [of "a @ 32 # b"] Let_def takeWhile_append dropWhile_append word)
qed

lemma hash_text: "hash_func_parse (hash_func_str f) = Some f" "hash_func_str f \<noteq> []" "printable (hash_func_str f)"
    "b \<in> set (hash_func_str f) \<Longrightarrow> 33 \<le> b \<and> b < 0x80"
proof -
  have "list_all (\<lambda>f. hash_func_parse (hash_func_str f) = Some f \<and> hash_func_str f \<noteq> [] \<and>
      list_all (\<lambda>b. 33 \<le> b \<and> b < 0x80) (hash_func_str f)) [Sha1, Sha224, Sha256, Sha384, Sha512]"
    by code_simp
  then have all: "hash_func_parse (hash_func_str f) = Some f" "hash_func_str f \<noteq> []"
      "list_all (\<lambda>b. 33 \<le> b \<and> b < 0x80) (hash_func_str f)"
    by (cases f; simp)+
  show "hash_func_parse (hash_func_str f) = Some f" "hash_func_str f \<noteq> []"
    by (fact all)+
  show "b \<in> set (hash_func_str f) \<Longrightarrow> 33 \<le> b \<and> b < 0x80"
    using all(3) by (simp add: list_all_iff)
  show "printable (hash_func_str f)"
    using all(3) by (intro printableI) (simp add: list_all_iff)
qed

lemma print_pairs_nonempty: "ds \<noteq> [] \<Longrightarrow> print_pairs ds \<noteq> []"
  by (cases ds rule: print_pairs.cases) (simp_all add: upper_hex_def)

lemma fingerprint_round_trip:
  assumes "length (fp_digest fp) = digest_len (fp_func fp)"
  shows "fingerprint_parse (fingerprint_to_value fp) = Some fp"
proof -
  define a b where "a = hash_func_str (fp_func fp)" and "b = print_pairs (fp_digest fp)"
  have "fp_digest fp \<noteq> []"
    using assms by (cases "fp_func fp") (auto simp: digest_len_def)
  then have parts: "a \<noteq> []" "b \<noteq> []" "split_on 58 b = map upper_hex (fp_digest fp)"
    using hash_text print_pairs_nonempty split_pairs by (simp_all add: a_def b_def)
  have plain: "33 \<le> c \<and> c < 0x80" if "c \<in> set (a @ b)" for c
    using that hash_text(4) print_pairs_plain by (auto simp: a_def b_def)
  have v: "fingerprint_to_value fp = a @ 32 # b"
    by (simp add: fingerprint_to_value_def a_def b_def ascii_def)
  have "str_trim (a @ 32 # b) = a @ 32 # b"
    using parts plain [of "hd a"] plain [of "last b"] by (intro str_trim_visible) auto
  moreover have "split_ascii_whitespace (a @ 32 # b) = [a, b]"
    using parts plain visible_no_white by (intro split_ascii_two) auto
  ultimately show ?thesis
    using assms parts(3) hash_text(1) [of "fp_func fp"] read_print_pairs
    by (simp add: fingerprint_parse_def v Let_def get_at_def flip: a_def)
qed

lemma fingerprint_printable: "printable (fingerprint_to_value fp)"
  using hash_text(3) printableI [of "print_pairs (fp_digest fp)"] print_pairs_plain
  by (auto simp: fingerprint_to_value_def ascii_def)

section \<open>Roles\<close>

lemma setup_text: "setup_parse (setup_str r) = Some r" "printable (setup_str r)"
proof -
  have all: "list_all (\<lambda>r. list_all (\<lambda>q. eq_ignore_ascii_case (setup_str r) (setup_str q) \<longleftrightarrow> r = q) [Active, Passive, ActPass, HoldConn] \<and>
      printable (setup_str r) \<and> setup_str r \<noteq> [] \<and> 33 \<le> hd (setup_str r) \<and> hd (setup_str r) < 0x80 \<and>
      33 \<le> last (setup_str r) \<and> last (setup_str r) < 0x80) [Active, Passive, ActPass, HoldConn]"
    by code_simp
  have "r \<in> set [Active, Passive, ActPass, HoldConn]"
    by (cases r) auto
  then have r: "list_all (\<lambda>q. eq_ignore_ascii_case (setup_str r) (setup_str q) \<longleftrightarrow> r = q) [Active, Passive, ActPass, HoldConn]"
      "printable (setup_str r)" "setup_str r \<noteq> []" "33 \<le> hd (setup_str r)" "hd (setup_str r) < 0x80"
      "33 \<le> last (setup_str r)" "last (setup_str r) < 0x80"
    using all by (auto simp only: list_all_iff)
  then show "printable (setup_str r)"
    by simp
  have "str_trim (setup_str r) = setup_str r"
    using r by (intro str_trim_visible)
  then show "setup_parse (setup_str r) = Some r"
    using r(1) by (cases r) (simp_all add: setup_parse_def)
qed

end
