(* ===== verification/Sdp_Answer.thy ===== *)
theory Sdp_Answer
  imports Sdp_Keys "HOL-Library.Sublist"
begin

text \<open>
  The answer to an offer (\<open>sipx-sdp/src/answer.rs\<close>, RFC 3264): what this side can do, which streams
  it accepts, with which codecs, direction and keys; and what the offerer makes of the answer.
\<close>

section \<open>Capabilities\<close>

record capabilities =
  cp_address :: ip_addr
  cp_audio_port :: u16
  cp_audio_formats :: "bytes list"
  cp_rtpmaps :: "(bytes \<times> bytes) list"
  cp_direction :: direction
  cp_session_id :: u64
  cp_session_version :: u64
  cp_crypto :: "sdes_crypto list"
  cp_dtls :: "fingerprint option"
  cp_rtcp_mux :: bool
  cp_dtls_setup :: setup_capabilities

definition capabilities_g711 :: "ip_addr \<Rightarrow> u16 \<Rightarrow> capabilities" where
  "capabilities_g711 address audio_port =
     \<lparr>cp_address = address, cp_audio_port = audio_port,
      cp_audio_formats = [ascii ''0'', ascii ''8'', ascii ''101''],
      cp_rtpmaps = [(ascii ''0'', ascii ''PCMU/8000''), (ascii ''8'', ascii ''PCMA/8000''),
        (ascii ''101'', ascii ''telephone-event/8000'')],
      cp_direction = SendRecv, cp_session_id = 1, cp_session_version = 1, cp_crypto = [], cp_dtls = None,
      cp_rtcp_mux = False, cp_dtls_setup = setup_both\<rparr>"

definition capabilities_with_opus :: "ip_addr \<Rightarrow> u16 \<Rightarrow> capabilities" where
  "capabilities_with_opus address audio_port =
     \<lparr>cp_address = address, cp_audio_port = audio_port,
      cp_audio_formats = [ascii ''111'', ascii ''0'', ascii ''8'', ascii ''101''],
      cp_rtpmaps = [(ascii ''111'', ascii ''opus/48000/2''), (ascii ''0'', ascii ''PCMU/8000''),
        (ascii ''8'', ascii ''PCMA/8000''), (ascii ''101'', ascii ''telephone-event/8000'')],
      cp_direction = SendRecv, cp_session_id = 1, cp_session_version = 1, cp_crypto = [], cp_dtls = None,
      cp_rtcp_mux = False, cp_dtls_setup = setup_both\<rparr>"

text \<open>\<open>random i n\<close> is what the random generator writes into the \<open>i\<close>-th buffer, of length \<open>n\<close>.\<close>

definition offer_suites :: "(nat \<Rightarrow> nat \<Rightarrow> bytes) \<Rightarrow> suite list \<Rightarrow> bool \<Rightarrow> sdes_crypto list" where
  "offer_suites random suites secure_signalling =
     List.map_filter (\<lambda>(i, s). crypto_offer (random i) (saturating_add_word (of_nat i) 1) s secure_signalling)
       (enumerate 0 suites)"

definition with_srtp :: "(nat \<Rightarrow> nat \<Rightarrow> bytes) \<Rightarrow> bool \<Rightarrow> capabilities \<Rightarrow> capabilities" where
  "with_srtp random secure_signalling c = c\<lparr>cp_crypto := offer_suites random SUITES_STRONGEST_FIRST secure_signalling\<rparr>"

definition with_srtp_suites :: "(nat \<Rightarrow> nat \<Rightarrow> bytes) \<Rightarrow> suite list \<Rightarrow> bool \<Rightarrow> capabilities \<Rightarrow> capabilities" where
  "with_srtp_suites random suites secure_signalling c =
     c\<lparr>cp_crypto := offer_suites random (remdups_adj (filter (\<lambda>s. s \<in> set suites) SUITES_STRONGEST_FIRST)) secure_signalling\<rparr>"

definition with_dtls_srtp :: "fingerprint \<Rightarrow> capabilities \<Rightarrow> capabilities" where
  "with_dtls_srtp fp c = c\<lparr>cp_dtls := Some fp, cp_crypto := []\<rparr>"

definition with_rtcp_mux :: "capabilities \<Rightarrow> capabilities" where
  "with_rtcp_mux c = c\<lparr>cp_rtcp_mux := True\<rparr>"

definition with_dtls_setup_capabilities :: "setup_capabilities \<Rightarrow> capabilities \<Rightarrow> capabilities" where
  "with_dtls_setup_capabilities s c = c\<lparr>cp_dtls_setup := s\<rparr>"

definition capabilities_protocol :: "capabilities \<Rightarrow> bytes" where
  "capabilities_protocol c =
     (if cp_dtls c \<noteq> None then ascii ''UDP/TLS/RTP/SAVP''
      else if cp_crypto c = [] then ascii ''RTP/AVP''
      else ascii ''RTP/SAVP'')"

definition rtpmap_for :: "capabilities \<Rightarrow> bytes \<Rightarrow> bytes option" where
  "rtpmap_for c format = map_option snd (find (\<lambda>(payload, _). payload = format) (cp_rtpmaps c))"

section \<open>The answer to one stream\<close>

fun contains_text :: "bytes \<Rightarrow> bytes \<Rightarrow> bool" where
  "contains_text [] sub = (sub = [])"
| "contains_text (b # rest) sub = (starts_with (b # rest) sub \<or> contains_text rest sub)"

definition accepted_crypto :: "media_description \<Rightarrow> sdes_crypto list \<Rightarrow> sdes_crypto option" where
  "accepted_crypto offered ours =
     strongest (List.map_filter (\<lambda>theirs.
       Option.bind (find (\<lambda>mine. cr_suite mine = cr_suite theirs) ours) (\<lambda>mine. accepting mine theirs))
       (crypto_offers offered))"

definition fingerprint_of :: "session_description \<Rightarrow> media_description \<Rightarrow> fingerprint option" where
  "fingerprint_of offer stream =
     (case media_fingerprint stream of Some f \<Rightarrow> Some f | None \<Rightarrow> sd_fingerprint offer)"

definition setup_of :: "session_description \<Rightarrow> media_description \<Rightarrow> setup_role option" where
  "setup_of description stream =
     (case media_setup stream of Some r \<Rightarrow> Some r | None \<Rightarrow> first_setup (sd_attributes description))"

definition negotiate_direction :: "direction \<Rightarrow> direction \<Rightarrow> direction" where
  "negotiate_direction offered wanted =
     (let allowed = mirrored offered in
        case (sends allowed \<and> sends wanted, receives allowed \<and> receives wanted) of
          (True, True) \<Rightarrow> SendRecv
        | (True, False) \<Rightarrow> SendOnly
        | (False, True) \<Rightarrow> RecvOnly
        | (False, False) \<Rightarrow> Inactive)"

definition rejected :: "media_description \<Rightarrow> media_description" where
  "rejected offered =
     \<lparr>md_media = md_media offered, md_port = 0, md_protocol = md_protocol offered,
      md_formats = take 1 (md_formats offered), md_connection = None, md_attributes = [], md_other = []\<rparr>"

definition supports :: "capabilities \<Rightarrow> media_description \<Rightarrow> bytes \<Rightarrow> bool" where
  "supports c offered format =
     (case rtpmap offered format of
        Some offered_map \<Rightarrow> list_ex (\<lambda>(_, mapping). same_format offered_map mapping) (cp_rtpmaps c)
      | None \<Rightarrow>
          (case parse_uint 256 format of
             Some payload \<Rightarrow> \<not> (96 \<le> payload \<and> payload \<le> 127) \<and> format \<in> set (cp_audio_formats c)
           | None \<Rightarrow> format \<in> set (cp_audio_formats c)))"

definition encoding_of :: "bytes \<Rightarrow> bytes" where
  "encoding_of v = takeWhile (\<lambda>b. b \<noteq> ch CHR ''/'') v"

definition is_telephone_event :: "media_description \<Rightarrow> bytes \<Rightarrow> bool" where
  "is_telephone_event offered format =
     (case rtpmap offered format of
        Some mapping \<Rightarrow> eq_ignore_ascii_case (encoding_of mapping) (ascii ''telephone-event'')
      | None \<Rightarrow> False)"

text \<open>The keying decisions: \<open>None\<close> declines the stream.\<close>

definition answering_dtls ::
  "session_description \<Rightarrow> media_description \<Rightarrow> capabilities \<Rightarrow> fingerprint option option" where
  "answering_dtls offer offered c =
     (if contains_text (md_protocol offered) (ascii ''TLS'')
      then (case cp_dtls c of
              Some ours \<Rightarrow> if fingerprint_of offer offered \<noteq> None then Some (Some ours) else None
            | None \<Rightarrow> None)
      else Some None)"

definition answering_crypto :: "media_description \<Rightarrow> capabilities \<Rightarrow> sdes_crypto option option" where
  "answering_crypto offered c =
     (if contains_text (md_protocol offered) (ascii ''SAVP'') \<and> \<not> contains_text (md_protocol offered) (ascii ''TLS'')
      then map_option Some (accepted_crypto offered (cp_crypto c))
      else Some None)"

definition mux_agreed :: "media_description \<Rightarrow> capabilities \<Rightarrow> bool" where
  "mux_agreed offered c \<longleftrightarrow> cp_rtcp_mux c \<and> rtcp_mux offered"

definition common_formats :: "media_description \<Rightarrow> capabilities \<Rightarrow> bytes list" where
  "common_formats offered c =
     filter (supports c offered)
       (filter (\<lambda>format. \<not> mux_agreed offered c \<or>
           (case parse_uint 256 format of None \<Rightarrow> True | Some payload \<Rightarrow> \<not> (64 \<le> payload \<and> payload \<le> 95)))
         (md_formats offered))"

definition format_attributes :: "media_description \<Rightarrow> capabilities \<Rightarrow> bytes \<Rightarrow> attribute list" where
  "format_attributes offered c format =
     (case (case rtpmap offered format of Some m \<Rightarrow> Some m | None \<Rightarrow> rtpmap_for c format) of
        Some m \<Rightarrow> [attribute_valued (ascii ''rtpmap'') (format @ ascii '' '' @ m)]
      | None \<Rightarrow> []) @
     (if is_telephone_event offered format
      then [attribute_valued (ascii ''fmtp'') (format @ ascii '' 0-15'')] else [])"

definition answer_direction :: "session_description \<Rightarrow> media_description \<Rightarrow> capabilities \<Rightarrow> direction" where
  "answer_direction offer offered c =
     negotiate_direction (unwrap_or (declared_direction offered) (sd_direction offer)) (cp_direction c)"

definition dtls_attributes ::
  "session_description \<Rightarrow> media_description \<Rightarrow> capabilities \<Rightarrow> fingerprint option \<Rightarrow> attribute list option" where
  "dtls_attributes offer offered c dtls =
     (case dtls of
        None \<Rightarrow> Some []
      | Some fp \<Rightarrow>
          (case answer_to (cp_dtls_setup c) (unwrap_or (setup_of offer offered) ActPass) of
             Inl _ \<Rightarrow> None
           | Inr role \<Rightarrow> Some [attribute_valued (ascii ''fingerprint'') (fingerprint_to_value fp),
                             attribute_valued (ascii ''setup'') (setup_str role)]))"

definition answer_stream :: "session_description \<Rightarrow> media_description \<Rightarrow> capabilities \<Rightarrow> media_description" where
  "answer_stream offer offered c =
     (if is_rejected offered then rejected offered
      else if md_media offered \<noteq> ascii ''audio'' \<or> cp_audio_port c = 0 then rejected offered
      else
        (case answering_dtls offer offered c of
           None \<Rightarrow> rejected offered
         | Some dtls \<Rightarrow>
             (case answering_crypto offered c of
                None \<Rightarrow> rejected offered
              | Some crypto \<Rightarrow>
                  (let common = common_formats offered c in
                     if common = [] \<or> list_all (is_telephone_event offered) common then rejected offered
                     else
                       (case dtls_attributes offer offered c dtls of
                          None \<Rightarrow> rejected offered
                        | Some keying \<Rightarrow>
                            \<lparr>md_media = md_media offered, md_port = cp_audio_port c,
                             md_protocol = md_protocol offered, md_formats = common, md_connection = None,
                             md_attributes =
                               concat (map (format_attributes offered c) common) @
                               [attribute_flag (direction_str (answer_direction offer offered c))] @
                               (if mux_agreed offered c then [attribute_flag (ascii ''rtcp-mux'')] else []) @
                               (case crypto of
                                  None \<Rightarrow> []
                                | Some k \<Rightarrow> [attribute_valued (ascii ''crypto'') (crypto_to_value k)]) @
                               keying,
                             md_other = []\<rparr>)))))"

definition answer :: "session_description \<Rightarrow> capabilities \<Rightarrow> session_description" where
  "answer offer c =
     \<lparr>sd_origin = origin_new (cp_address c) (cp_session_id c) (cp_session_version c),
      sd_session_name = ascii ''-'', sd_connection = Some (connection_new (cp_address c)),
      sd_timing = [timing_default], sd_attributes = [],
      sd_media = map (\<lambda>offered. answer_stream offer offered c) (sd_media offer), sd_other = []\<rparr>"

section \<open>The shape of an answer\<close>

text \<open>The attributes of an accepted stream before those of DTLS, and the stream.\<close>

definition plain_attributes ::
  "session_description \<Rightarrow> media_description \<Rightarrow> capabilities \<Rightarrow> sdes_crypto option \<Rightarrow> attribute list" where
  "plain_attributes offer m c crypto =
     concat (map (format_attributes m c) (common_formats m c)) @
     [attribute_flag (direction_str (answer_direction offer m c))] @
     (if mux_agreed m c then [attribute_flag (ascii ''rtcp-mux'')] else []) @
     (case crypto of None \<Rightarrow> [] | Some k \<Rightarrow> [attribute_valued (ascii ''crypto'') (crypto_to_value k)])"

definition accepted_stream ::
  "session_description \<Rightarrow> media_description \<Rightarrow> capabilities \<Rightarrow> sdes_crypto option \<Rightarrow> attribute list \<Rightarrow> media_description" where
  "accepted_stream offer m c crypto keying =
     \<lparr>md_media = md_media m, md_port = cp_audio_port c, md_protocol = md_protocol m,
      md_formats = common_formats m c, md_connection = None,
      md_attributes = plain_attributes offer m c crypto @ keying, md_other = []\<rparr>"

lemma answer_stream_cases:
  obtains "answer_stream offer m c = rejected m" "is_rejected (answer_stream offer m c)"
  | dtls crypto keying where
      "\<not> is_rejected m" "md_media m = ascii ''audio''" "cp_audio_port c \<noteq> 0"
      "answering_dtls offer m c = Some dtls" "answering_crypto m c = Some crypto"
      "common_formats m c \<noteq> []" "dtls_attributes offer m c dtls = Some keying"
      "answer_stream offer m c = accepted_stream offer m c crypto keying" "\<not> is_rejected (answer_stream offer m c)"
proof -
  have r: "is_rejected (rejected m)"
    by (simp add: rejected_def is_rejected_def)
  have "answer_stream offer m c = rejected m \<or> (\<exists>dtls crypto keying.
      \<not> is_rejected m \<and> md_media m = ascii ''audio'' \<and> cp_audio_port c \<noteq> 0 \<and>
      answering_dtls offer m c = Some dtls \<and> answering_crypto m c = Some crypto \<and>
      common_formats m c \<noteq> [] \<and> dtls_attributes offer m c dtls = Some keying \<and>
      answer_stream offer m c = accepted_stream offer m c crypto keying)"
    by (simp add: answer_stream_def accepted_stream_def plain_attributes_def Let_def split: option.split)
  then show ?thesis
    using that r by (auto simp: accepted_stream_def is_rejected_def)
qed

lemma answer_media: "i < length (sd_media offer) \<Longrightarrow>
    sd_media (answer offer c) ! i = answer_stream offer (sd_media offer ! i) c"
  by (simp add: answer_def)

lemma common_formats_subseq: "subseq (common_formats m c) (md_formats m)"
  by (simp add: common_formats_def)

lemma common_formats_supported: "f \<in> set (common_formats m c) \<Longrightarrow> supports c m f"
  by (simp add: common_formats_def)

lemma supports_known:
  "supports c m f \<Longrightarrow>
    (case rtpmap m f of
       Some v \<Rightarrow> \<exists>mapping \<in> set (map snd (cp_rtpmaps c)). same_format v mapping
     | None \<Rightarrow> f \<in> set (cp_audio_formats c))"
  by (force simp: supports_def list_ex_iff split: option.splits)

lemma format_attribute_names: "a \<in> set (format_attributes m c f) \<Longrightarrow>
    at_name a \<in> {ascii ''rtpmap'', ascii ''fmtp''} \<and> at_value a \<noteq> None"
  by (auto simp: format_attributes_def attribute_valued_def split: option.splits if_splits)

lemma dtls_attribute_names: "dtls_attributes offer m c dtls = Some keying \<Longrightarrow> a \<in> set keying \<Longrightarrow>
    at_name a \<in> {ascii ''fingerprint'', ascii ''setup''} \<and> at_value a \<noteq> None"
  by (auto simp: dtls_attributes_def attribute_valued_def split: option.splits sum.splits)

lemma direction_round_trip: "direction_parse (direction_str d) = Some d"
  by (cases d) (simp_all add: direction_parse_def direction_str_def ascii_def)

lemma find_map_skip: "(\<And>x. x \<in> set xs \<Longrightarrow> f x = None) \<Longrightarrow> find_map f (xs @ ys) = find_map f ys"
  by (induction xs) auto

lemma accepted_direction: "media_direction (accepted_stream offer m c crypto keying) = answer_direction offer m c"
proof -
  have "find_map attribute_direction (concat (map (format_attributes m c) (common_formats m c)) @ ys)
      = find_map attribute_direction ys" for ys
    using format_attribute_names by (intro find_map_skip) (fastforce simp: attribute_direction_def)
  then show ?thesis
    by (simp add: media_direction_def declared_direction_def accepted_stream_def plain_attributes_def attribute_direction_def
        attribute_flag_def direction_round_trip)
qed

lemma negotiate_direction_meets:
  "sends (negotiate_direction offered wanted) \<longleftrightarrow> receives offered \<and> sends wanted"
  "receives (negotiate_direction offered wanted) \<longleftrightarrow> sends offered \<and> receives wanted"
  by (cases offered; cases wanted; simp add: negotiate_direction_def mirrored_def sends_def receives_def)+

lemma attribute_names_distinct:
  "ascii ''rtpmap'' \<noteq> ascii ''crypto''" "ascii ''fmtp'' \<noteq> ascii ''crypto''" "ascii ''rtcp-mux'' \<noteq> ascii ''crypto''"
  "ascii ''fingerprint'' \<noteq> ascii ''crypto''" "ascii ''setup'' \<noteq> ascii ''crypto''"
  by code_simp+

lemma direction_names:
  "direction_str d \<notin> {ascii ''crypto'', ascii ''fingerprint'', ascii ''setup'', ascii ''rtcp-mux''}"
  by (cases d) (simp_all add: direction_str_def ascii_def)

lemma accepted_crypto_offers:
  assumes "dtls_attributes offer m c dtls = Some keying"
    "\<And>k. crypto = Some k \<Longrightarrow> length (cr_key_and_salt k) = key_size (cr_suite k)"
  shows "crypto_offers (accepted_stream offer m c crypto keying) = (case crypto of None \<Rightarrow> [] | Some k \<Rightarrow> [k])"
proof -
  have "filter (\<lambda>a. at_name a = ascii ''crypto'') (concat (map (format_attributes m c) (common_formats m c))) = []"
    using format_attribute_names attribute_names_distinct by (fastforce simp: filter_empty_conv)
  moreover have "filter (\<lambda>a. at_name a = ascii ''crypto'') keying = []"
    using dtls_attribute_names [OF assms(1)] attribute_names_distinct by (fastforce simp: filter_empty_conv)
  ultimately have "filter (\<lambda>a. at_name a = ascii ''crypto'') (md_attributes (accepted_stream offer m c crypto keying))
      = (case crypto of None \<Rightarrow> [] | Some k \<Rightarrow> [attribute_valued (ascii ''crypto'') (crypto_to_value k)])"
    using direction_names attribute_names_distinct
    by (auto simp: accepted_stream_def plain_attributes_def attribute_flag_def attribute_valued_def split: option.split)
  then show ?thesis
    using assms(2) crypto_round_trip
    by (auto simp: crypto_offers_def attribute_valued_def List.map_filter_simps split: option.split)
qed

lemma first_fingerprint_skip:
  "(\<And>a. a \<in> set as \<Longrightarrow> at_name a \<noteq> ascii ''fingerprint'') \<Longrightarrow> first_fingerprint (as @ bs) = first_fingerprint bs"
  by (simp add: first_fingerprint_def filter_empty_conv)

lemma first_setup_skip:
  "(\<And>a. a \<in> set as \<Longrightarrow> at_name a \<noteq> ascii ''setup'') \<Longrightarrow> first_setup (as @ bs) = first_setup bs"
proof -
  assume "\<And>a. a \<in> set as \<Longrightarrow> at_name a \<noteq> ascii ''setup''"
  then have "find (\<lambda>a. at_name a = ascii ''setup'') (as @ bs) = find (\<lambda>a. at_name a = ascii ''setup'') bs"
    by (induction as) auto
  then show ?thesis
    by (simp add: first_setup_def)
qed

lemma plain_attribute_cases:
  assumes "a \<in> set (plain_attributes offer m c crypto)"
  obtains f where "a \<in> set (format_attributes m c f)" "f \<in> set (common_formats m c)"
  | "a = attribute_flag (direction_str (answer_direction offer m c))" | "a = attribute_flag (ascii ''rtcp-mux'')"
  | k where "crypto = Some k" "a = attribute_valued (ascii ''crypto'') (crypto_to_value k)"
  using assms by (auto simp: plain_attributes_def split: option.splits if_splits)

lemma plain_attribute_names:
  assumes "a \<in> set (plain_attributes offer m c crypto)"
  shows "at_name a \<noteq> ascii ''fingerprint'' \<and> at_name a \<noteq> ascii ''setup''"
proof -
  have d: "ascii ''rtpmap'' \<noteq> ascii ''fingerprint''" "ascii ''fmtp'' \<noteq> ascii ''fingerprint''"
    "ascii ''rtcp-mux'' \<noteq> ascii ''fingerprint''" "ascii ''crypto'' \<noteq> ascii ''fingerprint''"
    "ascii ''rtpmap'' \<noteq> ascii ''setup''" "ascii ''fmtp'' \<noteq> ascii ''setup''"
    "ascii ''rtcp-mux'' \<noteq> ascii ''setup''" "ascii ''crypto'' \<noteq> ascii ''setup''"
    by code_simp+
  show ?thesis
    using assms
  proof (cases rule: plain_attribute_cases)
    case (1 f)
    then show ?thesis
      using d format_attribute_names by fastforce
  qed (use d direction_names [of "answer_direction offer m c"] in
    \<open>auto simp: attribute_flag_def attribute_valued_def\<close>)
qed

lemma accepted_keying:
  "media_fingerprint (accepted_stream offer m c crypto keying) = first_fingerprint keying"
  "media_setup (accepted_stream offer m c crypto keying) = first_setup keying"
  using first_fingerprint_skip [of "plain_attributes offer m c crypto" keying]
    first_setup_skip [of "plain_attributes offer m c crypto" keying] plain_attribute_names
  by (auto simp: media_fingerprint_def media_setup_def accepted_stream_def)

lemma dtls_keying:
  assumes "dtls_attributes offer m c (Some fp) = Some keying" "length (fp_digest fp) = digest_len (fp_func fp)"
  obtains role where "answer_to (cp_dtls_setup c) (unwrap_or (setup_of offer m) ActPass) = Inr role"
    "first_fingerprint keying = Some fp" "first_setup keying = Some role"
proof -
  have names: "ascii ''setup'' \<noteq> ascii ''fingerprint''"
    by code_simp
  obtain role where role: "answer_to (cp_dtls_setup c) (unwrap_or (setup_of offer m) ActPass) = Inr role"
    "keying = [attribute_valued (ascii ''fingerprint'') (fingerprint_to_value fp), attribute_valued (ascii ''setup'') (setup_str role)]"
    using assms(1) by (auto simp: dtls_attributes_def split: sum.splits)
  have "first_fingerprint keying = Some fp" "first_setup keying = Some role"
    using names fingerprint_round_trip [OF assms(2)]
    by (auto simp: role(2) first_fingerprint_def first_setup_def attribute_valued_def List.map_filter_simps setup_text)
  with role(1) show ?thesis
    using that by blast
qed

lemma answer_to_complement:
  assumes "answer_to ours offered = Inr mine" "from_answer theirs (Some mine) = Inr r"
  shows "{mine, r} = {Active, Passive}" "if is_client r then sc_server ours \<and> sc_client theirs else sc_client ours \<and> sc_server theirs"
  using assms
  by (auto simp: answer_to_def from_answer_def is_client_def split: setup_role.splits if_splits)

section \<open>An answer is read back\<close>

lemma parse_media_read: "sdp_parse text = Inr d \<Longrightarrow> list_all media_read (sd_media d)"
proof -
  assume "sdp_parse text = Inr d"
  then obtain st where st: "sdp_lines sdp_init (str_lines text) = Inr st" "sd_media d = st_media st"
    by (auto simp: sdp_parse_def bind_res_Inr_iff ok_or_Inr_iff)
  have "state_ok sdp_init"
    by (simp add: state_ok_def sdp_init_def connection_ok_def)
  then show ?thesis
    using sdp_lines_ok [OF st(1)] line_clean st(2) by (auto simp: state_ok_def)
qed

definition capabilities_ok :: "capabilities \<Rightarrow> bool" where
  "capabilities_ok c \<longleftrightarrow> ip_ok (cp_address c) \<and> list_all (\<lambda>(_, v). clean v) (cp_rtpmaps c)"

lemma find_map_Some: "find_map f xs = Some y \<Longrightarrow> \<exists>x \<in> set xs. f x = Some y"
  by (induction xs) (auto split: option.splits)

lemma split_once_Some: "split_once b v = Some (x, y) \<Longrightarrow> v = x @ b # y \<and> b \<notin> set x"
proof -
  assume "split_once b v = Some (x, y)"
  then obtain i where i: "position (\<lambda>c. c = b) v = Some i" "x = take i v" "y = drop (Suc i) v"
    by (auto simp: split_once_def)
  then have "i < length v" "v ! i = b" "\<forall>j < i. v ! j \<noteq> b"
    by (auto simp: position_Some_iff)
  then show ?thesis
    using i id_take_nth_drop [of i v] by (auto simp: in_set_conv_nth)
qed

lemma clean_suffix: "clean (u @ v) \<Longrightarrow> clean v"
  by (cases "v = []") (auto simp: clean_def)

lemma rtpmap_clean:
  assumes "list_all attribute_ok (md_attributes m)" "rtpmap m f = Some v"
  shows "clean v"
proof -
  obtain a where a: "a \<in> set (md_attributes m)" "at_name a = ascii ''rtpmap''"
    "Option.bind (at_value a) (\<lambda>v. Option.bind (split_once 32 v) (\<lambda>(payload, rest).
        if payload = f then Some rest else None)) = Some v"
    using find_map_Some [OF assms(2) [unfolded rtpmap_def]] by (auto split: if_splits)
  then obtain w where w: "at_value a = Some w" "split_once 32 w = Some (f, v)"
    by (auto simp: bind_eq_Some_conv split: if_splits)
  have "clean (attribute_text a)"
    using assms(1) a(1) by (auto simp: list_all_iff attribute_ok_def plain_value_def)
  then have "clean ((at_name a @ 58 # f @ [32]) @ v)"
    using w(1) split_once_Some [OF w(2)] by (simp add: attribute_text_def)
  then show ?thesis
    by (rule clean_suffix)
qed

lemma rtpmap_for_clean: "capabilities_ok c \<Longrightarrow> rtpmap_for c f = Some v \<Longrightarrow> clean v"
  by (auto simp: capabilities_ok_def rtpmap_for_def list_all_iff find_Some_iff dest!: nth_mem)

lemma named_attribute_ok:
  "58 \<notin> set (ascii n) \<Longrightarrow> ascii n \<noteq> [] \<Longrightarrow> printable (ascii n) \<Longrightarrow> 10 \<notin> set v \<Longrightarrow> v = [] \<or> last v \<noteq> 13 \<Longrightarrow>
    attribute_ok (attribute_valued (ascii n) v)"
  using printable_octets [of "ascii n"] hd_in_set [of "ascii n"]
  by (auto simp: attribute_ok_def attribute_text_def attribute_valued_def plain_value_def clean_def hd_append)

lemma flag_attribute_ok: "58 \<notin> set n \<Longrightarrow> printable n \<Longrightarrow> attribute_ok (attribute_flag n)"
  using printable_plain [of n] by (simp add: attribute_ok_def attribute_text_def attribute_flag_def)

lemma printable_attribute_ok:
  "58 \<notin> set (ascii n) \<Longrightarrow> printable (ascii n) \<Longrightarrow> printable v \<Longrightarrow> attribute_ok (attribute_valued (ascii n) v)"
  using printable_plain [of "ascii n @ 58 # v"]
  by (simp add: attribute_ok_def attribute_text_def attribute_valued_def)

lemma attribute_word_table:
  "list_all (\<lambda>n. 58 \<notin> set (ascii n) \<and> ascii n \<noteq> [] \<and> printable (ascii n))
     [''rtpmap'', ''fmtp'', ''crypto'', ''fingerprint'', ''setup'', ''rtcp-mux'']"
  by code_simp

lemma attribute_words:
  "n \<in> {''rtpmap'', ''fmtp'', ''crypto'', ''fingerprint'', ''setup'', ''rtcp-mux''} \<Longrightarrow>
    58 \<notin> set (ascii n) \<and> ascii n \<noteq> [] \<and> printable (ascii n)"
  using attribute_word_table by (auto simp only: list_all_iff list.set)

lemma direction_words: "58 \<notin> set (direction_str d)" "printable (direction_str d)"
  by (cases d; simp add: direction_str_def ascii_def)+

lemma format_attributes_ok:
  assumes "wordy f" "capabilities_ok c" "list_all attribute_ok (md_attributes m)" "a \<in> set (format_attributes m c f)"
  shows "attribute_ok a"
proof -
  have f: "10 \<notin> set f"
    using assms(1) wordy_octets by blast
  have v: "10 \<notin> set v \<and> (v = [] \<or> last v \<noteq> 13)"
    if "(case rtpmap m f of Some v \<Rightarrow> Some v | None \<Rightarrow> rtpmap_for c f) = Some v" for v
    using that rtpmap_clean [OF assms(3)] rtpmap_for_clean [OF assms(2)]
    by (auto simp: clean_def split: option.splits)
  consider v where "(case rtpmap m f of Some v \<Rightarrow> Some v | None \<Rightarrow> rtpmap_for c f) = Some v"
      "a = attribute_valued (ascii ''rtpmap'') (f @ 32 # v)"
    | "a = attribute_valued (ascii ''fmtp'') (f @ ascii '' 0-15'')"
    using assms(4) unfolding format_attributes_def
    by (cases "case rtpmap m f of Some v \<Rightarrow> Some v | None \<Rightarrow> rtpmap_for c f")
      (auto simp: ascii_def [of "'' ''"] split: if_splits)
  then show ?thesis
  proof cases
    case (1 u)
    then show ?thesis
      using f v [OF 1(1)] attribute_words [of "''rtpmap''"] by (auto intro!: named_attribute_ok split: if_splits)
  next
    case 2
    then show ?thesis
      using f attribute_words [of "''fmtp''"] by (auto simp: ascii_def [of "'' 0-15''"] intro!: named_attribute_ok)
  qed
qed

lemma accepted_attributes_ok:
  assumes "list_all wordy (md_formats m)" "capabilities_ok c" "list_all attribute_ok (md_attributes m)"
    "dtls_attributes offer m c dtls = Some keying"
  shows "list_all attribute_ok (plain_attributes offer m c crypto @ keying)"
proof -
  have "attribute_ok a" if "a \<in> set (plain_attributes offer m c crypto)" for a
    using that
  proof (cases rule: plain_attribute_cases)
    case (1 f)
    have "wordy f"
      using assms(1) 1(2) by (simp add: common_formats_def list_all_iff)
    then show ?thesis
      using format_attributes_ok [OF _ assms(2,3) 1(1)] by blast
  next
    case 4
    then show ?thesis
      using attribute_words [of "''crypto''"] crypto_printable by (auto intro: printable_attribute_ok)
  qed (use direction_words attribute_words [of "''rtcp-mux''"] in \<open>auto intro: flag_attribute_ok\<close>)
  moreover have "attribute_ok a" if "a \<in> set keying" for a
    using that assms(4) attribute_words [of "''fingerprint''"] attribute_words [of "''setup''"]
      fingerprint_printable setup_text(2)
    by (auto simp: dtls_attributes_def intro!: printable_attribute_ok split: option.splits sum.splits)
  ultimately show ?thesis
    by (auto simp: list_all_iff)
qed

lemma answer_stream_ok:
  assumes "media_read m" "capabilities_ok c"
  shows "media_ok (answer_stream offer m c)"
proof (cases rule: answer_stream_cases [of offer m c])
  case 1
  then show ?thesis
    using assms(1) by (cases "md_formats m") (auto simp: media_read_def media_ok_def rejected_def connection_ok_def)
next
  case (2 dtls crypto keying)
  have "list_all wordy (common_formats m c)"
    using assms(1) by (auto simp: media_read_def media_ok_def common_formats_def list_all_iff)
  moreover have "list_all attribute_ok (plain_attributes offer m c crypto @ keying)"
    using assms 2(7) by (intro accepted_attributes_ok) (simp_all add: media_read_def media_ok_def)
  ultimately show ?thesis
    using assms(1) 2(6) by (simp add: 2(8) accepted_stream_def media_read_def media_ok_def connection_ok_def)
qed

lemma answer_stream_media: "md_media (answer_stream offer m c) = md_media m" "md_other (answer_stream offer m c) = []"
    "md_protocol (answer_stream offer m c) = md_protocol m"
  by (cases rule: answer_stream_cases [of offer m c]; simp add: rejected_def accepted_stream_def)+

lemma answer_ok:
  assumes "list_all media_read (sd_media offer)" "characters_ok offer" "capabilities_ok c"
  shows "description_ok (answer offer c)" "characters_ok (answer offer c)" "normal (answer offer c) = answer offer c"
proof -
  have dash: "wordy (ascii ''-'')" "plain_value (ascii ''-'')"
    by code_simp+
  have address: "address_ok (Address_Ip (cp_address c))" "47 \<notin> set (address_show (Address_Ip (cp_address c)))"
    using assms(3) show_ip_plain by (auto simp: capabilities_ok_def address_ok_def address_show_def)
  show "description_ok (answer offer c)"
    using assms answer_stream_ok dash address
    by (simp add: description_ok_def answer_def origin_ok_def origin_new_def connection_ok_def connection_new_def
        list_all_iff ascii_def)
  show "characters_ok (answer offer c)"
    using assms(2) by (auto simp: characters_ok_def answer_def origin_new_def answer_stream_media list_all_iff ascii_def is_continuation_def)
  show "normal (answer offer c) = answer offer c"
    by (simp add: normal_def answer_def media_normal_def answer_stream_media cong: map_cong)
qed

section \<open>Properties of an answer\<close>

text \<open>What one stream of an answer may be, given what was offered: the contract of RFC 3264.\<close>

definition stream_answers :: "capabilities \<Rightarrow> media_description \<Rightarrow> media_description \<Rightarrow> bool" where
  "stream_answers c m a \<longleftrightarrow>
     md_media a = md_media m \<and> md_protocol a = md_protocol m \<and>
     (if is_rejected a then md_formats a = take 1 (md_formats m) \<and> md_attributes a = []
      else \<not> is_rejected m \<and> md_media m = ascii ''audio'' \<and> md_port a = cp_audio_port c \<and>
        md_formats a \<noteq> [] \<and> subseq (md_formats a) (md_formats m) \<and>
        list_all (\<lambda>f. case rtpmap m f of
            Some v \<Rightarrow> list_ex (\<lambda>mapping. same_format v (snd mapping)) (cp_rtpmaps c)
          | None \<Rightarrow> f \<in> set (cp_audio_formats c)) (md_formats a))"

lemma answer_stream_answers: "stream_answers c m (answer_stream offer m c)"
proof (cases rule: answer_stream_cases [of offer m c])
  case 1
  then show ?thesis
    by (simp add: stream_answers_def rejected_def)
next
  case (2 dtls crypto keying)
  have "case rtpmap m f of
      Some v \<Rightarrow> list_ex (\<lambda>mapping. same_format v (snd mapping)) (cp_rtpmaps c)
    | None \<Rightarrow> f \<in> set (cp_audio_formats c)" if "f \<in> set (common_formats m c)" for f
    using supports_known [OF common_formats_supported [OF that]] by (auto simp: list_ex_iff split: option.splits)
  moreover have "is_rejected (accepted_stream offer m c crypto keying) = False"
    using 2(8,9) by simp
  ultimately show ?thesis
    using 2(1,2,6) common_formats_subseq [of m c]
    by (simp add: stream_answers_def 2(8) list_all_iff) (simp add: accepted_stream_def)
qed

text \<open>
  C15: An answer has one stream for each of the offer, in its order and with its type and protocol. A
  declined stream keeps its place with port zero; an accepted one is a stream that was offered, at
  this side's port, with formats of the offer in the offer's order, each of them one this side has:
  by what its \<open>rtpmap\<close> says when there is one, and by its number only when there is none.
\<close>

theorem answer_aligned: "list_all2 (stream_answers c) (sd_media offer) (sd_media (answer offer c))"
  by (simp add: answer_def list.rel_map answer_stream_answers list.rel_refl)

text \<open>
  An accepted stream is sent exactly when the offerer receives and this side wants to send, and
  received exactly when the offerer sends and this side wants to receive; a stream with no direction
  of its own takes the session's.
\<close>

theorem answer_direction_met:
  assumes "i < length (sd_media offer)" "\<not> is_rejected (sd_media (answer offer c) ! i)"
  shows "let offered = unwrap_or (declared_direction (sd_media offer ! i)) (sd_direction offer);
      answered = media_direction (sd_media (answer offer c) ! i) in
    (sends answered \<longleftrightarrow> receives offered \<and> sends (cp_direction c)) \<and>
    (receives answered \<longleftrightarrow> sends offered \<and> receives (cp_direction c))"
proof (cases rule: answer_stream_cases [of offer "sd_media offer ! i" c])
  case 1
  then show ?thesis
    using assms answer_media [OF assms(1)] by simp
next
  case (2 dtls crypto keying)
  then show ?thesis
    by (simp add: answer_media [OF assms(1)] accepted_direction answer_direction_def negotiate_direction_meets)
qed

text \<open>
  C16: The answer to an offer that was read is written so that the offerer reads exactly that answer:
  no value the offer carried can break a line or a field of it.
\<close>

theorem answer_reads_back:
  assumes "sdp_parse text = Inr offer" "characters_ok offer" "capabilities_ok c"
  shows "sdp_parse (to_string_sdp (answer offer c)) = Inr (answer offer c)"
  using parse_written answer_ok [OF parse_media_read [OF assms(1)] assms(2,3)] by simp

section \<open>Keys in an answer\<close>

definition key_ok :: "sdes_crypto \<Rightarrow> bool" where
  "key_ok k \<longleftrightarrow> length (cr_key_and_salt k) = key_size (cr_suite k)"

text \<open>
  What RFC 4568 asks of an answered key: the tag and suite of one that was offered, key material of
  this side's, and no suite both ends have is stronger.
\<close>

definition key_agreed :: "sdes_crypto list \<Rightarrow> sdes_crypto list \<Rightarrow> sdes_crypto \<Rightarrow> bool" where
  "key_agreed offered ours k \<longleftrightarrow>
     list_ex (\<lambda>theirs. cr_tag theirs = cr_tag k \<and> cr_suite theirs = cr_suite k) offered \<and>
     list_ex (\<lambda>mine. cr_suite mine = cr_suite k \<and> cr_key_and_salt mine = cr_key_and_salt k) ours \<and>
     list_all (\<lambda>theirs. cr_suite theirs \<in> cr_suite ` set ours \<longrightarrow> suite_strength (cr_suite theirs) \<le> suite_strength (cr_suite k)) offered"

lemma find_suite:
  "s \<in> cr_suite ` set ours \<Longrightarrow> \<exists>mine \<in> set ours. find (\<lambda>mine. cr_suite mine = s) ours = Some mine \<and> cr_suite mine = s"
  by (induction ours) auto

lemma accepted_crypto_cases:
  assumes "list_all key_ok ours" "accepted_crypto m ours = Some k"
  obtains theirs mine where "theirs \<in> set (crypto_offers m)" "mine \<in> set ours"
    "find (\<lambda>mine. cr_suite mine = cr_suite theirs) ours = Some mine" "cr_suite mine = cr_suite theirs"
    "k = \<lparr>cr_tag = cr_tag theirs, cr_suite = cr_suite theirs, cr_key_and_salt = cr_key_and_salt mine\<rparr>"
proof -
  have "k \<in> set (List.map_filter (\<lambda>theirs. Option.bind (find (\<lambda>mine. cr_suite mine = cr_suite theirs) ours)
      (\<lambda>mine. accepting mine theirs)) (crypto_offers m))"
    using strongest_Some(1) assms(2) unfolding accepted_crypto_def by blast
  then obtain theirs mine where "theirs \<in> set (crypto_offers m)"
    "find (\<lambda>mine. cr_suite mine = cr_suite theirs) ours = Some mine" "accepting mine theirs = Some k"
    by (auto simp: List.map_filter_def bind_eq_Some_conv)
  moreover from this(2) have "mine \<in> set ours" "cr_suite mine = cr_suite theirs"
    by (auto simp: find_Some_iff)
  ultimately show ?thesis
    using that by (auto simp: accepting_def split: if_splits)
qed

lemma accepted_crypto_strongest:
  assumes "list_all key_ok ours" "accepted_crypto m ours = Some k"
    "theirs \<in> set (crypto_offers m)" "cr_suite theirs \<in> cr_suite ` set ours"
  shows "suite_strength (cr_suite theirs) \<le> suite_strength (cr_suite k)"
proof -
  obtain mine where mine: "mine \<in> set ours" "find (\<lambda>mine. cr_suite mine = cr_suite theirs) ours = Some mine"
    "cr_suite mine = cr_suite theirs"
    using find_suite [OF assms(4)] by blast
  then obtain k' where "accepting mine theirs = Some k'" "cr_suite k' = cr_suite theirs"
    using assms(1) by (auto simp: accepting_def key_ok_def list_all_iff)
  then have "k' \<in> set (List.map_filter (\<lambda>theirs. Option.bind (find (\<lambda>mine. cr_suite mine = cr_suite theirs) ours)
      (\<lambda>mine. accepting mine theirs)) (crypto_offers m))"
    using assms(3) mine(2) by (force simp: List.map_filter_def)
  then have "suite_strength (cr_suite k') \<le> suite_strength (cr_suite k)"
    using strongest_Some(2) assms(2) unfolding accepted_crypto_def by blast
  then show ?thesis
    using \<open>cr_suite k' = cr_suite theirs\<close> by simp
qed

lemma accepted_crypto_agreed:
  assumes "list_all key_ok ours" "accepted_crypto m ours = Some k"
  shows "key_agreed (crypto_offers m) ours k" "key_ok k"
proof -
  obtain theirs mine where k: "theirs \<in> set (crypto_offers m)" "mine \<in> set ours" "cr_suite mine = cr_suite theirs"
    "k = \<lparr>cr_tag = cr_tag theirs, cr_suite = cr_suite theirs, cr_key_and_salt = cr_key_and_salt mine\<rparr>"
    using accepted_crypto_cases [OF assms] by metis
  then show "key_agreed (crypto_offers m) ours k"
    using accepted_crypto_strongest [OF assms] by (auto simp: key_agreed_def list_ex_iff list_all_iff)
  show "key_ok k"
    using assms(1) k by (auto simp: key_ok_def list_all_iff)
qed

definition fingerprint_ok :: "fingerprint option \<Rightarrow> bool" where
  "fingerprint_ok f \<longleftrightarrow> (case f of None \<Rightarrow> True | Some fp \<Rightarrow> length (fp_digest fp) = digest_len (fp_func fp))"

definition dtls_protocol :: "media_description \<Rightarrow> bool" where
  "dtls_protocol m \<longleftrightarrow> contains_text (md_protocol m) (ascii ''TLS'')"

definition sdes_protocol :: "media_description \<Rightarrow> bool" where
  "sdes_protocol m \<longleftrightarrow> contains_text (md_protocol m) (ascii ''SAVP'') \<and> \<not> dtls_protocol m"

definition stream_keyed :: "session_description \<Rightarrow> capabilities \<Rightarrow> media_description \<Rightarrow> media_description \<Rightarrow> bool" where
  "stream_keyed offer c m a \<longleftrightarrow>
     (if dtls_protocol m
      then crypto_offers a = [] \<and> media_fingerprint a = cp_dtls c \<and> cp_dtls c \<noteq> None \<and> fingerprint_of offer m \<noteq> None
      else media_fingerprint a = None \<and>
        (if sdes_protocol m
         then \<exists>k. crypto_offers a = [k] \<and> key_agreed (crypto_offers m) (cp_crypto c) k
         else crypto_offers a = []))"

lemma answer_stream_keyed:
  assumes "\<not> is_rejected (answer_stream offer m c)" "list_all key_ok (cp_crypto c)" "fingerprint_ok (cp_dtls c)"
  shows "stream_keyed offer c m (answer_stream offer m c)"
proof (cases rule: answer_stream_cases [of offer m c])
  case 1
  then show ?thesis
    using assms by simp
next
  case (2 dtls crypto keying)
  have key: "key_ok k" if "crypto = Some k" for k
    using 2(5) that accepted_crypto_agreed(2) [OF assms(2)]
    by (auto simp: answering_crypto_def split: if_splits)
  have offers: "crypto_offers (accepted_stream offer m c crypto keying) = (case crypto of None \<Rightarrow> [] | Some k \<Rightarrow> [k])"
    using key by (intro accepted_crypto_offers [OF 2(7)]) (simp add: key_ok_def)
  have none: "first_fingerprint [] = None"
    by (simp add: first_fingerprint_def List.map_filter_simps)
  show ?thesis
  proof (cases "dtls_protocol m")
    case True
    then obtain fp where fp: "cp_dtls c = Some fp" "dtls = Some fp" "fingerprint_of offer m \<noteq> None" "crypto = None"
      using 2(4,5) by (auto simp: answering_dtls_def answering_crypto_def dtls_protocol_def split: option.splits if_splits)
    moreover have "first_fingerprint keying = Some fp"
      using dtls_keying [of offer m c fp keying] 2(7) assms(3) fp by (auto simp: fingerprint_ok_def)
    ultimately show ?thesis
      using True offers by (simp add: stream_keyed_def 2(8) accepted_keying)
  next
    case False
    then have "dtls = None" "keying = []"
      using 2(4,7) by (auto simp: answering_dtls_def dtls_protocol_def dtls_attributes_def split: if_splits)
    then show ?thesis
      using False none offers 2(5) accepted_crypto_agreed(1) [OF assms(2)]
      by (auto simp: stream_keyed_def 2(8) accepted_keying answering_crypto_def sdes_protocol_def dtls_protocol_def
          split: if_splits)
  qed
qed

text \<open>
  C17: An accepted stream carries the keying its protocol names and no other, so nothing is downgraded
  and nothing is keyed at one end only: for DTLS this side's fingerprint, when the offer gave one to
  check; for SDES exactly one key, with an offered tag, of the strongest suite both ends have, and
  this side's own material; in plain RTP neither.
\<close>

theorem answer_keying:
  assumes "i < length (sd_media offer)" "\<not> is_rejected (sd_media (answer offer c) ! i)"
    "list_all key_ok (cp_crypto c)" "fingerprint_ok (cp_dtls c)"
  shows "stream_keyed offer c (sd_media offer ! i) (sd_media (answer offer c) ! i)"
  using assms answer_media [OF assms(1)] answer_stream_keyed by simp

text \<open>
  C18: The two ends of a DTLS stream take different roles: when the offerer can act on the answer, it
  waits for the handshake exactly when this side starts it, and each end can hold its role.
\<close>

theorem dtls_roles_complementary:
  assumes "i < length (sd_media offer)" "\<not> is_rejected (sd_media (answer offer c) ! i)"
    "dtls_protocol (sd_media offer ! i)" "fingerprint_ok (cp_dtls c)"
    "from_answer theirs (setup_of (answer offer c) (sd_media (answer offer c) ! i)) = Inr r"
  shows "\<exists>mine. setup_of (answer offer c) (sd_media (answer offer c) ! i) = Some mine \<and> is_client mine \<noteq> is_client r \<and>
    {mine, r} = {Active, Passive} \<and>
    (if is_client r then sc_server (cp_dtls_setup c) \<and> sc_client theirs
     else sc_client (cp_dtls_setup c) \<and> sc_server theirs)"
proof (cases rule: answer_stream_cases [of offer "sd_media offer ! i" c])
  case 1
  then show ?thesis
    using assms(2) answer_media [OF assms(1)] by simp
next
  case (2 dtls crypto keying)
  then obtain fp where fp: "cp_dtls c = Some fp" "dtls = Some fp"
    using assms(3) by (auto simp: answering_dtls_def dtls_protocol_def split: option.splits if_splits)
  then obtain role where role:
    "answer_to (cp_dtls_setup c) (unwrap_or (setup_of offer (sd_media offer ! i)) ActPass) = Inr role"
    "first_setup keying = Some role"
    using dtls_keying [of offer "sd_media offer ! i" c fp keying] 2(7) assms(4) by (auto simp: fingerprint_ok_def)
  then have "setup_of (answer offer c) (sd_media (answer offer c) ! i) = Some role"
    by (simp add: setup_of_def answer_media [OF assms(1)] 2(8) accepted_keying)
  then show ?thesis
    using answer_to_complement [OF role(1), of theirs r] assms(5) by (auto simp: is_client_def doubleton_eq_iff)
qed

section \<open>Examples\<close>

definition example_offer :: "string \<Rightarrow> attribute list \<Rightarrow> session_description" where
  "example_offer protocol keying =
     (sd_new (V4 [192, 0, 2, 10]) 1 1)\<lparr>sd_media :=
       [\<lparr>md_media = ascii ''audio'', md_port = 49170, md_protocol = ascii protocol, md_formats = [ascii ''0'', ascii ''8''],
         md_connection = None,
         md_attributes = attribute_valued (ascii ''rtpmap'') (ascii ''0 PCMU/8000'') # attribute_flag (ascii ''sendonly'') # keying,
         md_other = []\<rparr>]\<rparr>"

definition example_key :: "u32 \<Rightarrow> suite \<Rightarrow> u8 \<Rightarrow> sdes_crypto" where
  "example_key tag s b = \<lparr>cr_tag = tag, cr_suite = s, cr_key_and_salt = replicate (key_size s) b\<rparr>"

definition example_fingerprint :: fingerprint where
  "example_fingerprint = \<lparr>fp_func = Sha256, fp_digest = replicate 32 0xAB\<rparr>"

definition dtls_example :: session_description where
  "dtls_example = example_offer ''UDP/TLS/RTP/SAVP''
     [attribute_valued (ascii ''fingerprint'') (fingerprint_to_value example_fingerprint),
      attribute_valued (ascii ''setup'') (setup_str ActPass)]"

definition dtls_capabilities :: capabilities where
  "dtls_capabilities = with_dtls_srtp example_fingerprint (capabilities_g711 (V4 [192, 0, 2, 20]) 40000)"

definition sdes_example :: session_description where
  "sdes_example = example_offer ''RTP/SAVP''
     [attribute_valued (ascii ''crypto'') (crypto_to_value (example_key 1 AesCm128HmacSha1_80 1)),
      attribute_valued (ascii ''crypto'') (crypto_to_value (example_key 2 AeadAes128Gcm 2)),
      attribute_valued (ascii ''crypto'') (crypto_to_value (example_key 3 AeadAes256Gcm 3))]"

definition sdes_capabilities :: capabilities where
  "sdes_capabilities = (capabilities_g711 (V4 [192, 0, 2, 20]) 40000)\<lparr>cp_crypto :=
     [example_key 1 AeadAes128Gcm 7, example_key 2 AesCm128HmacSha1_80 8]\<rparr>"

lemma answer_stream_accepts:
  assumes "\<not> is_rejected m" "md_media m = ascii ''audio''" "cp_audio_port c \<noteq> 0"
    "answering_dtls offer m c = Some dtls" "answering_crypto m c = Some crypto"
    "f \<in> set (common_formats m c)" "\<not> is_telephone_event m f" "dtls_attributes offer m c dtls = Some keying"
  shows "answer_stream offer m c = accepted_stream offer m c crypto keying" "\<not> is_rejected (answer_stream offer m c)"
proof -
  have "common_formats m c \<noteq> []" "\<not> list_all (is_telephone_event m) (common_formats m c)"
    using assms(6,7) by (auto simp: list_all_iff)
  then show "answer_stream offer m c = accepted_stream offer m c crypto keying"
    using assms(1-5,8) by (simp add: answer_stream_def accepted_stream_def plain_attributes_def Let_def)
  then show "\<not> is_rejected (answer_stream offer m c)"
    using assms(3) by (simp add: accepted_stream_def is_rejected_def)
qed

lemma pcmu_rtpmap: "rtpmap_parse (ascii ''PCMU/8000'') = Inr \<lparr>rm_encoding = ascii ''PCMU'', rm_clock_rate = 8000, rm_channels = 1\<rparr>"
proof -
  have "split_once 47 (ascii ''PCMU/8000'') = Some (ascii ''PCMU'', ascii ''8000'')" "split_once 47 (ascii ''8000'') = None"
    "list_all is_ascii_digit (ascii ''8000'')" "ascii ''8000'' \<noteq> []" "ascii ''PCMU'' \<noteq> []"
    by code_simp+
  moreover have "ascii ''8000'' = decimal 8000"
    by (simp add: ascii_def decimal.simps)
  then have "parse_uint 4294967296 (ascii ''8000'') = Some 8000"
    using parse_uint_decimal [of 8000 4294967296] by simp
  ultimately show ?thesis
    by (simp add: rtpmap_parse_def rtpmap_decimal_def)
qed

lemma example_rtpmap:
  "m = hd (sd_media (example_offer protocol keying)) \<Longrightarrow> rtpmap m (ascii ''0'') = Some (ascii ''PCMU/8000'')"
proof -
  have "split_once 32 (ascii ''0 PCMU/8000'') = Some (ascii ''0'', ascii ''PCMU/8000'')"
    by code_simp
  then show "m = hd (sd_media (example_offer protocol keying)) \<Longrightarrow> rtpmap m (ascii ''0'') = Some (ascii ''PCMU/8000'')"
    by (simp add: example_offer_def rtpmap_def attribute_valued_def)
qed

lemma example_format:
  assumes "m = hd (sd_media (example_offer protocol keying))" "cp_rtpmaps c = cp_rtpmaps (capabilities_g711 a p)"
    "\<not> cp_rtcp_mux c"
  shows "ascii ''0'' \<in> set (common_formats m c)" "\<not> is_telephone_event m (ascii ''0'')"
proof -
  have "eq_ignore_ascii_case (ascii ''PCMU'') (ascii ''PCMU'')"
    by code_simp
  then have "same_format (ascii ''PCMU/8000'') (ascii ''PCMU/8000'')"
    by (simp add: same_format_def pcmu_rtpmap same_format_as_def)
  then have "supports c m (ascii ''0'')"
    using example_rtpmap [OF assms(1)] assms(2) by (simp add: supports_def capabilities_g711_def)
  then show "ascii ''0'' \<in> set (common_formats m c)"
    using assms(1,3) by (simp add: common_formats_def mux_agreed_def example_offer_def)
  have "\<not> eq_ignore_ascii_case (encoding_of (ascii ''PCMU/8000'')) (ascii ''telephone-event'')"
    by code_simp
  then show "\<not> is_telephone_event m (ascii ''0'')"
    using example_rtpmap [OF assms(1)] by (simp add: is_telephone_event_def)
qed

lemma example_key_read: "crypto_parse (crypto_to_value (example_key tag s b)) = Some (example_key tag s b)"
  by (rule crypto_round_trip) (simp add: example_key_def)

lemma sdes_offers: "crypto_offers (hd (sd_media sdes_example)) =
    [example_key 1 AesCm128HmacSha1_80 1, example_key 2 AeadAes128Gcm 2, example_key 3 AeadAes256Gcm 3]"
proof -
  have "ascii ''rtpmap'' \<noteq> ascii ''crypto''" "ascii ''sendonly'' \<noteq> ascii ''crypto''"
    by code_simp+
  then show ?thesis
    by (simp add: sdes_example_def example_offer_def crypto_offers_def attribute_valued_def attribute_flag_def
        List.map_filter_simps example_key_read)
qed

lemma sdes_accepted: "\<not> is_rejected (sd_media (answer sdes_example sdes_capabilities) ! 0)"
proof -
  define m where "m = hd (sd_media sdes_example)"
  have m: "sd_media sdes_example = [m]"
    by (simp add: m_def sdes_example_def example_offer_def)
  have p: "contains_text (ascii ''RTP/SAVP'') (ascii ''SAVP'')" "\<not> contains_text (ascii ''RTP/SAVP'') (ascii ''TLS'')"
    by code_simp+
  have protocol: "md_protocol m = ascii ''RTP/SAVP''"
    by (simp add: m_def sdes_example_def example_offer_def)
  have "accepted_crypto m (cp_crypto sdes_capabilities) \<noteq> None"
    by (simp add: accepted_crypto_def m_def sdes_offers sdes_capabilities_def example_key_def accepting_def List.map_filter_simps)
  then obtain k where "answering_crypto m sdes_capabilities = Some (Some k)"
    using p by (auto simp: answering_crypto_def protocol)
  moreover have "answering_dtls sdes_example m sdes_capabilities = Some None"
    using p by (simp add: answering_dtls_def protocol)
  moreover have "ascii ''0'' \<in> set (common_formats m sdes_capabilities)" "\<not> is_telephone_event m (ascii ''0'')"
    by (rule example_format [where protocol = "''RTP/SAVP''" and c = sdes_capabilities and a = "V4 [192, 0, 2, 20]" and p = 40000];
        simp add: m_def sdes_example_def sdes_capabilities_def capabilities_g711_def)+
  moreover have "\<not> is_rejected m" "md_media m = ascii ''audio''" "cp_audio_port sdes_capabilities \<noteq> 0"
    by (simp_all add: m_def sdes_example_def example_offer_def is_rejected_def sdes_capabilities_def capabilities_g711_def)
  moreover have "dtls_attributes sdes_example m sdes_capabilities None = Some []"
    by (simp add: dtls_attributes_def)
  ultimately show ?thesis
    using answer_stream_accepts(2) answer_media [of 0 sdes_example sdes_capabilities] by (simp add: m)
qed

lemma answer_direction_met_witness:
  "let offered = unwrap_or (declared_direction (sd_media sdes_example ! 0)) (sd_direction sdes_example);
      answered = media_direction (sd_media (answer sdes_example sdes_capabilities) ! 0) in
    (sends answered \<longleftrightarrow> receives offered \<and> sends (cp_direction sdes_capabilities)) \<and>
    (receives answered \<longleftrightarrow> sends offered \<and> receives (cp_direction sdes_capabilities))"
  by (rule answer_direction_met [OF _ sdes_accepted]) (simp add: sdes_example_def example_offer_def)

lemma answer_reads_back_witness:
  "sdp_parse (to_string_sdp (answer (normal example_description) (capabilities_g711 (V4 [192, 0, 2, 20]) 40000))) =
    Inr (answer (normal example_description) (capabilities_g711 (V4 [192, 0, 2, 20]) 40000))"
proof (rule answer_reads_back [OF parse_written [OF example_ok(1,2)] example_ok(4)])
  have "list_all (\<lambda>(_, v). clean v) (cp_rtpmaps (capabilities_g711 (V4 [192, 0, 2, 20]) 40000))" "ip_ok (V4 [192, 0, 2, 20])"
    by code_simp+
  then show "capabilities_ok (capabilities_g711 (V4 [192, 0, 2, 20]) 40000)"
    by (simp add: capabilities_ok_def capabilities_g711_def)
qed

lemma answer_keying_witness:
  "stream_keyed sdes_example sdes_capabilities (sd_media sdes_example ! 0) (sd_media (answer sdes_example sdes_capabilities) ! 0)"
  by (rule answer_keying [OF _ sdes_accepted])
    (simp_all add: sdes_example_def example_offer_def sdes_capabilities_def capabilities_g711_def key_ok_def
      example_key_def fingerprint_ok_def)

lemma dtls_accepted:
  "\<not> is_rejected (sd_media (answer dtls_example dtls_capabilities) ! 0)"
  "setup_of (answer dtls_example dtls_capabilities) (sd_media (answer dtls_example dtls_capabilities) ! 0) = Some Active"
proof -
  define m where "m = hd (sd_media dtls_example)"
  have m: "sd_media dtls_example = [m]"
    by (simp add: m_def dtls_example_def example_offer_def)
  have p: "contains_text (ascii ''UDP/TLS/RTP/SAVP'') (ascii ''TLS'')"
    by code_simp
  have names: "ascii ''rtpmap'' \<noteq> ascii ''fingerprint''" "ascii ''sendonly'' \<noteq> ascii ''fingerprint''"
    "ascii ''setup'' \<noteq> ascii ''fingerprint''" "ascii ''rtpmap'' \<noteq> ascii ''setup''" "ascii ''sendonly'' \<noteq> ascii ''setup''"
    "ascii ''fingerprint'' \<noteq> ascii ''setup''"
    by code_simp+
  have protocol: "md_protocol m = ascii ''UDP/TLS/RTP/SAVP''"
    by (simp add: m_def dtls_example_def example_offer_def)
  have fp: "length (fp_digest example_fingerprint) = digest_len (fp_func example_fingerprint)"
    by (simp add: example_fingerprint_def digest_len_def)
  have caps: "cp_dtls dtls_capabilities = Some example_fingerprint" "cp_dtls_setup dtls_capabilities = setup_both"
    by (simp_all add: dtls_capabilities_def with_dtls_srtp_def capabilities_g711_def)
  have "media_fingerprint m = Some example_fingerprint" "media_setup m = Some ActPass"
    using names fingerprint_round_trip [OF fp]
    by (auto simp: m_def dtls_example_def example_offer_def media_fingerprint_def media_setup_def first_fingerprint_def
        first_setup_def attribute_valued_def attribute_flag_def List.map_filter_simps setup_text)
  then have d: "answering_dtls dtls_example m dtls_capabilities = Some (Some example_fingerprint)"
    "setup_of dtls_example m = Some ActPass"
    using p by (simp_all add: answering_dtls_def protocol caps fingerprint_of_def setup_of_def)
  then obtain keying where k: "dtls_attributes dtls_example m dtls_capabilities (Some example_fingerprint) = Some keying"
    by (auto simp: dtls_attributes_def caps setup_both_def answer_to_def)
  then have role: "first_setup keying = Some Active"
    using dtls_keying [OF k fp] d(2) by (auto simp: caps setup_both_def answer_to_def)
  have c: "answering_crypto m dtls_capabilities = Some None"
    using p by (simp add: answering_crypto_def protocol)
  have f: "ascii ''0'' \<in> set (common_formats m dtls_capabilities)" "\<not> is_telephone_event m (ascii ''0'')"
    by (rule example_format [where protocol = "''UDP/TLS/RTP/SAVP''" and c = dtls_capabilities and a = "V4 [192, 0, 2, 20]" and p = 40000];
        simp add: m_def dtls_example_def dtls_capabilities_def with_dtls_srtp_def capabilities_g711_def)+
  have b: "\<not> is_rejected m" "md_media m = ascii ''audio''" "cp_audio_port dtls_capabilities \<noteq> 0"
    by (simp_all add: m_def dtls_example_def example_offer_def is_rejected_def dtls_capabilities_def with_dtls_srtp_def
        capabilities_g711_def)
  note accepts = answer_stream_accepts [OF b d(1) c f k]
  show "\<not> is_rejected (sd_media (answer dtls_example dtls_capabilities) ! 0)"
    using accepts(2) answer_media [of 0 dtls_example dtls_capabilities] by (simp add: m)
  show "setup_of (answer dtls_example dtls_capabilities) (sd_media (answer dtls_example dtls_capabilities) ! 0) = Some Active"
    using accepts(1) answer_media [of 0 dtls_example dtls_capabilities] role by (simp add: m setup_of_def accepted_keying)
qed

lemma dtls_roles_complementary_witness:
  "\<exists>mine. setup_of (answer dtls_example dtls_capabilities) (sd_media (answer dtls_example dtls_capabilities) ! 0) = Some mine \<and>
    is_client mine \<noteq> is_client Passive \<and> {mine, Passive} = {Active, Passive} \<and>
    (if is_client Passive then sc_server (cp_dtls_setup dtls_capabilities) \<and> sc_client setup_both
     else sc_client (cp_dtls_setup dtls_capabilities) \<and> sc_server setup_both)"
proof (rule dtls_roles_complementary [OF _ dtls_accepted(1)])
  have p: "contains_text (ascii ''UDP/TLS/RTP/SAVP'') (ascii ''TLS'')"
    by code_simp
  show "dtls_protocol (sd_media dtls_example ! 0)"
    using p by (simp add: dtls_protocol_def dtls_example_def example_offer_def)
  show "fingerprint_ok (cp_dtls dtls_capabilities)"
    by (simp add: fingerprint_ok_def dtls_capabilities_def with_dtls_srtp_def example_fingerprint_def digest_len_def)
  show "from_answer setup_both (setup_of (answer dtls_example dtls_capabilities)
      (sd_media (answer dtls_example dtls_capabilities) ! 0)) = Inr Passive"
    by (simp add: dtls_accepted(2) from_answer_def setup_both_def)
qed (simp add: dtls_example_def example_offer_def)

end
