(* ===== verification/Call_Media.thy ===== *)
theory Call_Media
  imports Sdp_Answer Srtp_Context
begin

text \<open>
  What the two descriptions of a call settle for its media: the application's policy
  (\<open>sipx-call/src/media_policy.rs\<close>), the offer made from it and what is read out of the peer's
  description (\<open>sipx-call/src/call/offer_answer.rs\<close>, \<open>media_capabilities\<close> in \<open>call/mod.rs\<close>), the codecs
  and the SRTP keys of a media session (\<open>sipx-media/src/session.rs\<close>). The build is the default one:
  no Opus and no DTLS, SDES keys on.
\<close>

section \<open>Codecs\<close>

datatype codec = Pcmu | Pcma | G722 | L16

definition codec_payload_type :: "codec \<Rightarrow> u8" where
  "codec_payload_type k = (case k of Pcmu \<Rightarrow> 0 | Pcma \<Rightarrow> 8 | G722 \<Rightarrow> 9 | L16 \<Rightarrow> 11)"

definition codec_clock_rate :: "codec \<Rightarrow> u32" where
  "codec_clock_rate k = (case k of Pcmu \<Rightarrow> 8000 | Pcma \<Rightarrow> 8000 | G722 \<Rightarrow> 8000 | L16 \<Rightarrow> 44100)"

definition samples_per_clock_unit :: "codec \<Rightarrow> u32" where
  "samples_per_clock_unit k = (case k of G722 \<Rightarrow> 2 | _ \<Rightarrow> 1)"

definition codec_from_payload_type :: "u8 \<Rightarrow> codec option" where
  "codec_from_payload_type n =
     (if n = 0 then Some Pcmu else if n = 8 then Some Pcma else if n = 9 then Some G722
      else if n = 11 then Some L16 else None)"

section \<open>Policy\<close>

datatype codec_preference = Prefer_Pcmu | Prefer_Pcma | Prefer_G722 | Prefer_Opus | Prefer_L16

definition preference_name :: "codec_preference \<Rightarrow> string" where
  "preference_name p =
     (case p of Prefer_Pcmu \<Rightarrow> ''pcmu'' | Prefer_Pcma \<Rightarrow> ''pcma'' | Prefer_G722 \<Rightarrow> ''g722''
      | Prefer_Opus \<Rightarrow> ''opus'' | Prefer_L16 \<Rightarrow> ''l16'')"

datatype codec_selection_error = Selection_Empty | Selection_Duplicate string | OpusUnavailable

text \<open>A selection is its five slots; \<open>preferences\<close> are those that are filled.\<close>

type_synonym codecs = "codec_preference option list"

definition codecs_g711 :: codecs where
  "codecs_g711 = [Some Prefer_Pcmu, Some Prefer_Pcma, None, None, None]"

definition codecs_g722 :: codecs where
  "codecs_g722 = [Some Prefer_G722, Some Prefer_Pcmu, Some Prefer_Pcma, None, None]"

definition codecs_l16 :: codecs where
  "codecs_l16 = [Some Prefer_L16, None, None, None, None]"

fun fill_slots :: "codec_preference list \<Rightarrow> nat \<Rightarrow> codec_preference list \<Rightarrow> (codec_selection_error, codecs) result" where
  "fill_slots all 0 ps = Inr []"
| "fill_slots all (Suc n) [] = map_sum id (\<lambda>slots. None # slots) (fill_slots all n [])"
| "fill_slots all (Suc n) (p # ps) =
     (if 1 < length (filter (\<lambda>c. c = p) all) then Inl (Selection_Duplicate (preference_name p))
      else if p = Prefer_Opus then Inl OpusUnavailable
      else map_sum id (\<lambda>slots. Some p # slots) (fill_slots all n ps))"

definition codecs_ordered :: "codec_preference list \<Rightarrow> (codec_selection_error, codecs) result" where
  "codecs_ordered preferences =
     (if preferences = [] then Inl Selection_Empty else fill_slots preferences 5 preferences)"

definition preferences :: "codecs \<Rightarrow> codec_preference list" where
  "preferences cs = List.map_filter id cs"

definition preference_formats :: "codec_preference \<Rightarrow> (bytes \<times> bytes) list" where
  "preference_formats p =
     (case p of
        Prefer_Pcmu \<Rightarrow> [(ascii ''0'', ascii ''PCMU/8000'')]
      | Prefer_Pcma \<Rightarrow> [(ascii ''8'', ascii ''PCMA/8000'')]
      | Prefer_G722 \<Rightarrow> [(ascii ''9'', ascii ''G722/8000'')]
      | Prefer_Opus \<Rightarrow> [(ascii ''111'', ascii ''opus/48000/2'')]
      | Prefer_L16 \<Rightarrow> [(ascii ''11'', ascii ''L16/44100/1''), (ascii ''96'', ascii ''L16/8000/1'')])"

definition codecs_capabilities :: "codecs \<Rightarrow> ip_addr \<Rightarrow> u16 \<Rightarrow> capabilities" where
  "codecs_capabilities cs address audio_port =
     (let formats = concat (map preference_formats (preferences cs)) @ [(ascii ''101'', ascii ''telephone-event/8000'')] in
        (capabilities_g711 address audio_port)\<lparr>cp_audio_formats := map fst formats, cp_rtpmaps := formats\<rparr>)"

definition codecs_carry :: "codecs \<Rightarrow> codec \<Rightarrow> bool" where
  "codecs_carry cs k =
     list_ex (\<lambda>p. case p of Prefer_Pcmu \<Rightarrow> k = Pcmu | Prefer_Pcma \<Rightarrow> k = Pcma | Prefer_G722 \<Rightarrow> k = G722
        | Prefer_Opus \<Rightarrow> False | Prefer_L16 \<Rightarrow> k = L16) (preferences cs)"

definition carries_format :: "codecs \<Rightarrow> codec \<Rightarrow> u32 \<Rightarrow> bool" where
  "carries_format cs k clock_rate =
     list_ex (\<lambda>p. case p of
        Prefer_Pcmu \<Rightarrow> k = Pcmu \<and> clock_rate = 8000
      | Prefer_Pcma \<Rightarrow> k = Pcma \<and> clock_rate = 8000
      | Prefer_G722 \<Rightarrow> k = G722 \<and> clock_rate = 8000
      | Prefer_Opus \<Rightarrow> False
      | Prefer_L16 \<Rightarrow> k = L16 \<and> (clock_rate = 8000 \<or> clock_rate = 44100)) (preferences cs)"

text \<open>The STUN server and the TURN relay of an ICE policy are not modelled, only that ICE is used.\<close>

datatype ice_policy = Ice_Disabled | Ice_Host | Ice_Stun | Ice_Turn
datatype media_profile = Standard | BrowserAudio
datatype keying = Keying_Auto | Keying_Plain | Keying_Sdes | Keying_DtlsSrtp

record media_policy =
  mp_profile :: media_profile
  mp_codecs :: codecs
  mp_ice :: ice_policy
  mp_keying :: keying
  mp_srtp_suite :: "suite option"

datatype media_error =
    NoCommonCodec
  | RtcpModeChange rtcp_mode rtcp_mode
  | Media_Crypto crypto_refusal
  | ExactSuiteNeedsKeying
  | DtlsWithIce
  | SdesNeedsProtection
  | DtlsUnavailable

definition media_capabilities ::
  "(nat \<Rightarrow> nat \<Rightarrow> bytes) \<Rightarrow> media_policy \<Rightarrow> ip_addr \<Rightarrow> u16 \<Rightarrow> bool \<Rightarrow> (media_error, capabilities) result" where
  "media_capabilities random policy address port secure_signalling =
     (if mp_srtp_suite policy \<noteq> None \<and> mp_keying policy \<notin> {Keying_Sdes, Keying_DtlsSrtp}
      then Inl ExactSuiteNeedsKeying
      else if mp_profile policy = Standard \<and> mp_keying policy = Keying_DtlsSrtp \<and> mp_ice policy \<noteq> Ice_Disabled
      then Inl DtlsWithIce
      else
        (let c = with_rtcp_mux (codecs_capabilities (mp_codecs policy) address port) in
           case mp_keying policy of
             Keying_Auto \<Rightarrow> Inr (with_srtp random secure_signalling c)
           | Keying_Plain \<Rightarrow> Inr c
           | Keying_Sdes \<Rightarrow>
               (if \<not> secure_signalling then Inl SdesNeedsProtection
                else Inr (case mp_srtp_suite policy of
                       Some s \<Rightarrow> with_srtp_suites random [s] True c
                     | None \<Rightarrow> with_srtp random True c))
           | Keying_DtlsSrtp \<Rightarrow> Inl DtlsUnavailable))"

section \<open>The offer\<close>

definition offer_from :: "capabilities \<Rightarrow> session_description" where
  "offer_from c =
     (let audio = media_audio (cp_audio_port c) (cp_audio_formats c);
          rtpmaps = map (\<lambda>(payload, mapping). attribute_valued (ascii ''rtpmap'') (payload @ ascii '' '' @ mapping)) (cp_rtpmaps c);
          audio = audio\<lparr>md_attributes := md_attributes audio @ rtpmaps\<rparr>;
          audio = (if cp_crypto c = [] then audio
                   else audio\<lparr>md_protocol := capabilities_protocol c,
                     md_attributes := md_attributes audio @
                       map (\<lambda>k. attribute_valued (ascii ''crypto'') (crypto_to_value k)) (cp_crypto c)\<rparr>);
          audio = (case cp_dtls c of
                     None \<Rightarrow> audio
                   | Some fp \<Rightarrow> audio\<lparr>md_protocol := capabilities_protocol c,
                       md_attributes := md_attributes audio @
                         [attribute_valued (ascii ''fingerprint'') (fingerprint_to_value fp),
                          attribute_valued (ascii ''setup'') (setup_str ActPass)]\<rparr>);
          audio = (if cp_rtcp_mux c then audio\<lparr>md_attributes := md_attributes audio @ [attribute_flag (ascii ''rtcp-mux'')]\<rparr>
                   else audio);
          audio = set_direction audio (cp_direction c);
          sdp = sd_new (cp_address c) (cp_session_id c) (cp_session_version c) in
        sdp\<lparr>sd_media := sd_media sdp @ [audio]\<rparr>)"

section \<open>What a description settles\<close>

definition preserve_rtcp_mode :: "rtcp_mode \<Rightarrow> rtcp_mode \<Rightarrow> (media_error, unit) result" where
  "preserve_rtcp_mode current proposed = (if current = proposed then Inr () else Inl (RtcpModeChange current proposed))"

definition exchanged_rtcp_mode :: "session_description \<Rightarrow> session_description \<Rightarrow> rtcp_mode" where
  "exchanged_rtcp_mode offer reply =
     (case find (\<lambda>(offered, _). md_media offered = ascii ''audio'') (zip (sd_media offer) (sd_media reply)) of
        None \<Rightarrow> Separate
      | Some (offered, answered) \<Rightarrow> from_exchange offered answered)"

definition live_audio :: "session_description \<Rightarrow> media_description option" where
  "live_audio sdp = find (\<lambda>m. md_media m = ascii ''audio'' \<and> \<not> is_rejected m) (sd_media sdp)"

definition answering_rtcp_mode :: "session_description \<Rightarrow> rtcp_mode" where
  "answering_rtcp_mode offer =
     (case live_audio offer of Some m \<Rightarrow> if rtcp_mux m then Mux else Separate | None \<Rightarrow> Separate)"

definition offered_rtpmap :: "codec \<Rightarrow> bytes" where
  "offered_rtpmap k =
     (case k of Pcmu \<Rightarrow> ascii ''PCMU/8000'' | Pcma \<Rightarrow> ascii ''PCMA/8000'' | G722 \<Rightarrow> ascii ''G722/8000''
      | L16 \<Rightarrow> ascii ''L16/44100/1'')"

definition codec_named :: "bytes \<Rightarrow> codec option" where
  "codec_named v = find (\<lambda>k. same_format v (offered_rtpmap k)) [Pcmu, Pcma, G722, L16]"

definition codec_format :: "bytes \<Rightarrow> (codec \<times> u32) option" where
  "codec_format v =
     (case rtpmap_parse v of
        Inl _ \<Rightarrow> None
      | Inr parsed \<Rightarrow>
          if eq_ignore_ascii_case (rm_encoding parsed) (ascii ''L16'') \<and> rm_channels parsed = 1
          then Some (L16, rm_clock_rate parsed)
          else map_option (\<lambda>k. (k, codec_clock_rate k)) (codec_named v))"

definition codec_of :: "media_description \<Rightarrow> bytes \<Rightarrow> (codec \<times> u8 option \<times> u32) option" where
  "codec_of audio format =
     Option.bind (parse_uint 256 format) (\<lambda>n.
       case rtpmap audio format of
         Some m \<Rightarrow> map_option (\<lambda>(k, rate). (k, Some (of_nat n), rate)) (codec_format m)
       | None \<Rightarrow> map_option (\<lambda>k. (k, None, codec_clock_rate k)) (codec_from_payload_type (of_nat n)))"

definition telephone_event_payload_type :: "media_description \<Rightarrow> u8 option" where
  "telephone_event_payload_type audio =
     find_map (\<lambda>format.
       Option.bind (rtpmap audio format) (\<lambda>mapping.
         if eq_ignore_ascii_case (encoding_of mapping) (ascii ''telephone-event'')
         then map_option of_nat (parse_uint 256 format) else None)) (md_formats audio)"

record negotiated =
  ng_remote :: "ip_addr \<times> u16"
  ng_codec :: codec
  ng_clock_rate :: u32
  ng_payload_type :: "u8 option"
  ng_receive_payload_type :: "u8 option"
  ng_dtmf :: "u8 option"
  ng_rtcp_mode :: rtcp_mode

definition wire_payload_type :: "negotiated \<Rightarrow> u8" where
  "wire_payload_type n = unwrap_or (ng_payload_type n) (codec_payload_type (ng_codec n))"

definition receive_wire_payload_type :: "negotiated \<Rightarrow> u8" where
  "receive_wire_payload_type n = unwrap_or (ng_receive_payload_type n) (codec_payload_type (ng_codec n))"

definition playable :: "codecs \<Rightarrow> media_description \<Rightarrow> bytes \<Rightarrow> (codec \<times> u8 option \<times> u32) option" where
  "playable codecs audio format =
     Option.bind (codec_of audio format) (\<lambda>(k, n, rate). if carries_format codecs k rate then Some (k, n, rate) else None)"

definition negotiated_from :: "session_description \<Rightarrow> codecs \<Rightarrow> (media_error, negotiated) result" where
  "negotiated_from sdp codecs =
     bind_res (ok_or NoCommonCodec (live_audio sdp)) (\<lambda>audio.
       if media_direction audio = Inactive then Inl NoCommonCodec
       else
         bind_res (ok_or NoCommonCodec (address_for sdp audio)) (\<lambda>address.
         bind_res (ok_or NoCommonCodec (find_map (playable codecs audio) (md_formats audio))) (\<lambda>(k, n, rate).
           Inr \<lparr>ng_remote = (address, md_port audio), ng_codec = k, ng_clock_rate = rate, ng_payload_type = n,
                ng_receive_payload_type = n, ng_dtmf = telephone_event_payload_type audio,
                ng_rtcp_mode = (if rtcp_mux audio then Mux else Separate)\<rparr>)))"

section \<open>Keys\<close>

record srtp_keys =
  sk_profile :: profile
  sk_local :: "bytes \<times> bytes"
  sk_remote :: "bytes \<times> bytes"

definition transform_of :: "suite \<Rightarrow> profile" where
  "transform_of s =
     (case s of
        suite.AeadAes256Gcm \<Rightarrow> profile.AeadAes256Gcm
      | suite.AeadAes128Gcm \<Rightarrow> profile.AeadAes128Gcm
      | suite.AesCm128HmacSha1_80 \<Rightarrow> profile.AesCm128HmacSha1_80)"

definition keys_from_answer :: "sdes_crypto list \<Rightarrow> sdes_crypto option \<Rightarrow> (crypto_refusal, srtp_keys) result" where
  "keys_from_answer offered answered =
     bind_res (verify_answer offered answered) (\<lambda>ours.
     bind_res (ok_or NoCryptoAnswered answered) (\<lambda>theirs.
       Inr \<lparr>sk_profile = transform_of (cr_suite ours), sk_local = (master_key ours, master_salt ours),
            sk_remote = (master_key theirs, master_salt theirs)\<rparr>))"

definition srtp_keys_offering :: "sdes_crypto list \<Rightarrow> sdes_crypto option \<Rightarrow> (media_error, srtp_keys option) result" where
  "srtp_keys_offering offered answered =
     (if offered = [] then Inr None
      else map_sum Media_Crypto Some (keys_from_answer offered answered))"

definition srtp_keys_answering :: "sdes_crypto list \<Rightarrow> sdes_crypto option \<Rightarrow> srtp_keys option" where
  "srtp_keys_answering ours theirs =
     Option.bind theirs (\<lambda>theirs.
     Option.bind (find (\<lambda>mine. cr_suite mine = cr_suite theirs) ours) (\<lambda>ours.
       Some \<lparr>sk_profile = transform_of (cr_suite theirs), sk_local = (master_key ours, master_salt ours),
             sk_remote = (master_key theirs, master_salt theirs)\<rparr>))"

definition answered_crypto :: "session_description \<Rightarrow> sdes_crypto option" where
  "answered_crypto sdp = Option.bind (live_audio sdp) media_crypto"

definition offer_crypto :: "session_description \<Rightarrow> sdes_crypto option" where
  "offer_crypto sdp = answered_crypto sdp"

record settled =
  se_negotiated :: negotiated
  se_srtp :: "srtp_keys option"

definition is_encrypted :: "settled \<Rightarrow> bool" where
  "is_encrypted s \<longleftrightarrow> se_srtp s \<noteq> None"

definition settle_answer :: "capabilities \<Rightarrow> session_description \<Rightarrow> codecs \<Rightarrow> (media_error, settled) result" where
  "settle_answer offered reply codecs =
     (let answered = answered_crypto reply in
        bind_res (negotiated_from reply codecs) (\<lambda>n.
        bind_res (ok_or NoCommonCodec (live_audio (offer_from offered))) (\<lambda>local_audio.
        bind_res (ok_or NoCommonCodec
          (find_map (\<lambda>format.
             Option.bind (codec_of local_audio format) (\<lambda>(k, payload_type, rate).
               if k = ng_codec n \<and> rate = ng_clock_rate n then Some payload_type else None)) (md_formats local_audio)))
          (\<lambda>receive.
          let n = n\<lparr>ng_receive_payload_type := receive\<rparr>;
              answered_mux = (case live_audio reply of None \<Rightarrow> False | Some m \<Rightarrow> rtcp_mux m);
              n = n\<lparr>ng_rtcp_mode := (if cp_rtcp_mux offered \<and> answered_mux then Mux else Separate)\<rparr> in
            bind_res (srtp_keys_offering (cp_crypto offered) answered) (\<lambda>keys.
              Inr \<lparr>se_negotiated = n, se_srtp = keys\<rparr>)))))"

text \<open>
  The answering side, in \<open>answer_negotiated\<close> and \<open>Early\<close>: the answer that goes on the wire, and the
  session that is started.
\<close>

definition settle_offer ::
  "capabilities \<Rightarrow> session_description \<Rightarrow> codecs \<Rightarrow> (media_error, session_description \<times> settled) result" where
  "settle_offer c offer codecs =
     bind_res (negotiated_from offer codecs) (\<lambda>n.
       let reply = answer offer c in
         if list_all is_rejected (sd_media reply) then Inl NoCommonCodec
         else Inr (reply, \<lparr>se_negotiated = n, se_srtp = srtp_keys_answering (cp_crypto c) (offer_crypto offer)\<rparr>))"

end
