(* ===== verification/Call_Agreement.thy ===== *)
theory Call_Agreement
  imports Call_Media
begin

text \<open>
  What the two ends of a call have agreed on once the answer is sent: the SRTP keys, the codec and
  the RTCP port, as \<open>sipx-call/src/call/offer_answer.rs\<close> reads them out of the two descriptions.
\<close>

section \<open>The offered stream\<close>

definition offered_attributes :: "capabilities \<Rightarrow> attribute list" where
  "offered_attributes c =
     map (\<lambda>(payload, mapping). attribute_valued (ascii ''rtpmap'') (payload @ ascii '' '' @ mapping)) (cp_rtpmaps c) @
     map (\<lambda>k. attribute_valued (ascii ''crypto'') (crypto_to_value k)) (cp_crypto c) @
     (case cp_dtls c of
        None \<Rightarrow> []
      | Some fp \<Rightarrow> [attribute_valued (ascii ''fingerprint'') (fingerprint_to_value fp),
                    attribute_valued (ascii ''setup'') (setup_str ActPass)]) @
     (if cp_rtcp_mux c then [attribute_flag (ascii ''rtcp-mux'')] else []) @
     [attribute_flag (direction_str (cp_direction c))]"

definition offered_audio :: "capabilities \<Rightarrow> media_description" where
  "offered_audio c =
     (media_audio (cp_audio_port c) (cp_audio_formats c))\<lparr>
       md_protocol := capabilities_protocol c, md_attributes := offered_attributes c\<rparr>"

lemma direction_flags:
  "filter (\<lambda>a. \<not> (at_value a = None \<and> direction_parse (at_name a) \<noteq> None)) as = as"
  if "list_all (\<lambda>a. at_value a \<noteq> None \<or> at_name a = ascii ''rtcp-mux'') as"
proof -
  have "direction_parse (ascii ''rtcp-mux'') = None"
    by code_simp
  then show ?thesis
    using that by (fastforce simp: filter_id_conv list_all_iff)
qed

lemma offer_media: "sd_media (offer_from c) = [offered_audio c]"
proof -
  define as where "as = map (\<lambda>(payload, mapping). attribute_valued (ascii ''rtpmap'') (payload @ ascii '' '' @ mapping)) (cp_rtpmaps c) @
     map (\<lambda>k. attribute_valued (ascii ''crypto'') (crypto_to_value k)) (cp_crypto c) @
     (case cp_dtls c of
        None \<Rightarrow> []
      | Some fp \<Rightarrow> [attribute_valued (ascii ''fingerprint'') (fingerprint_to_value fp),
                    attribute_valued (ascii ''setup'') (setup_str ActPass)]) @
     (if cp_rtcp_mux c then [attribute_flag (ascii ''rtcp-mux'')] else [])"
  have "list_all (\<lambda>a. at_value a \<noteq> None \<or> at_name a = ascii ''rtcp-mux'') as"
    by (auto simp: as_def list_all_iff attribute_valued_def attribute_flag_def split: option.splits)
  then have "filter (\<lambda>a. \<not> (at_value a = None \<and> direction_parse (at_name a) \<noteq> None)) as = as"
    by (rule direction_flags)
  moreover have "sd_media (offer_from c) = [set_direction
      ((media_audio (cp_audio_port c) (cp_audio_formats c))\<lparr>md_protocol := capabilities_protocol c, md_attributes := as\<rparr>) (cp_direction c)]"
    by (simp add: offer_from_def Let_def sd_new_def media_audio_def as_def capabilities_protocol_def split: option.split)
  ultimately show ?thesis
    by (simp add: set_direction_def offered_audio_def offered_attributes_def as_def)
qed

lemma offered_audio_simps [simp]:
  "md_media (offered_audio c) = ascii ''audio''" "md_port (offered_audio c) = cp_audio_port c"
  "md_protocol (offered_audio c) = capabilities_protocol c" "md_formats (offered_audio c) = cp_audio_formats c"
  "md_attributes (offered_audio c) = offered_attributes c" "md_connection (offered_audio c) = None"
  "md_other (offered_audio c) = []"
  by (simp_all add: offered_audio_def media_audio_def)

lemma offered_direction: "media_direction (offered_audio c) = cp_direction c"
proof -
  define as where "as = map (\<lambda>(payload, mapping). attribute_valued (ascii ''rtpmap'') (payload @ ascii '' '' @ mapping)) (cp_rtpmaps c) @
     map (\<lambda>k. attribute_valued (ascii ''crypto'') (crypto_to_value k)) (cp_crypto c) @
     (case cp_dtls c of
        None \<Rightarrow> []
      | Some fp \<Rightarrow> [attribute_valued (ascii ''fingerprint'') (fingerprint_to_value fp),
                    attribute_valued (ascii ''setup'') (setup_str ActPass)]) @
     (if cp_rtcp_mux c then [attribute_flag (ascii ''rtcp-mux'')] else [])"
  have "direction_parse (ascii ''rtcp-mux'') = None"
    by code_simp
  then have "a \<in> set as \<Longrightarrow> attribute_direction a = None" for a
    by (auto simp: as_def attribute_direction_def attribute_valued_def attribute_flag_def split: option.splits if_splits)
  then have "find_map attribute_direction (as @ [attribute_flag (direction_str (cp_direction c))]) = Some (cp_direction c)"
    by (subst find_map_skip) (simp_all add: attribute_direction_def attribute_flag_def direction_round_trip)
  moreover have "offered_attributes c = as @ [attribute_flag (direction_str (cp_direction c))]"
    by (simp add: as_def offered_attributes_def)
  ultimately show ?thesis
    by (simp add: media_direction_def declared_direction_def)
qed

lemma offered_crypto: "list_all key_ok (cp_crypto c) \<Longrightarrow> crypto_offers (offered_audio c) = cp_crypto c"
proof -
  assume keys: "list_all key_ok (cp_crypto c)"
  define as where "as = filter (\<lambda>a. at_name a = ascii ''crypto'') (offered_attributes c)"
  have "as = map (\<lambda>k. attribute_valued (ascii ''crypto'') (crypto_to_value k)) (cp_crypto c)"
    using attribute_names_distinct direction_names [of "cp_direction c"]
    by (auto simp: as_def offered_attributes_def attribute_valued_def attribute_flag_def filter_empty_conv filter_id_conv
        split: option.split)
  moreover have "List.map_filter crypto_parse (map crypto_to_value ks) = ks" if "list_all key_ok ks" for ks
    using that by (induction ks) (simp_all add: List.map_filter_simps crypto_round_trip key_ok_def)
  ultimately show ?thesis
    using keys by (simp add: crypto_offers_def as_def [symmetric] attribute_valued_def List.map_filter_def comp_def)
qed

lemma live_offer: "live_audio (offer_from c) = (if cp_audio_port c = 0 then None else Some (offered_audio c))"
  by (simp add: live_audio_def offer_media is_rejected_def)

section \<open>Keys\<close>

lemma settled_reply:
  assumes "settle_offer c offer codecs = Inr (reply, s)" "sd_media offer = [m]"
  obtains "reply = answer offer c" "live_audio reply = Some (answer_stream offer m c)"
    "\<not> is_rejected (answer_stream offer m c)" "live_audio offer = Some m"
    "se_srtp s = srtp_keys_answering (cp_crypto c) (media_crypto m)"
proof -
  have r: "reply = answer offer c" "\<not> list_all is_rejected (sd_media reply)"
    "se_srtp s = srtp_keys_answering (cp_crypto c) (offer_crypto offer)"
    using assms(1) by (auto simp: settle_offer_def bind_res_Inr_iff Let_def split: if_splits)
  have media: "sd_media reply = [answer_stream offer m c]"
    using assms(2) by (simp add: r(1) answer_def)
  then have accepted: "\<not> is_rejected (answer_stream offer m c)"
    using r(2) by simp
  then have "md_media (answer_stream offer m c) = ascii ''audio''" "\<not> is_rejected m" "md_media m = ascii ''audio''"
    using answer_stream_answers [of c m offer] by (auto simp: stream_answers_def)
  then have "live_audio reply = Some (answer_stream offer m c)" "live_audio offer = Some m"
    using media accepted assms(2) by (simp_all add: live_audio_def)
  then show ?thesis
    using that r accepted by (simp add: offer_crypto_def answered_crypto_def)
qed

lemma accepted_key:
  assumes "\<not> is_rejected (answer_stream offer m c)" "sdes_protocol m" "list_all key_ok (cp_crypto c)"
  obtains k where "accepted_crypto m (cp_crypto c) = Some k" "crypto_offers (answer_stream offer m c) = [k]"
proof (cases rule: answer_stream_cases [of offer m c])
  case 1
  then show ?thesis
    using assms by simp
next
  case (2 dtls crypto keying)
  then obtain k where k: "accepted_crypto m (cp_crypto c) = Some k" "crypto = Some k"
    using assms(2) by (auto simp: answering_crypto_def sdes_protocol_def dtls_protocol_def)
  moreover have "key_ok k"
    using accepted_crypto_agreed(2) [OF assms(3) k(1)] .
  ultimately have "crypto_offers (accepted_stream offer m c crypto keying) = [k]"
    using accepted_crypto_offers [OF 2(7), of crypto] by (auto simp: key_ok_def)
  then show ?thesis
    using that k(1) by (simp add: 2(8))
qed

text \<open>What a caller may offer: every key of its suite's size, no tag and no suite twice.\<close>

definition keys_ok :: "sdes_crypto list \<Rightarrow> bool" where
  "keys_ok ks \<longleftrightarrow> list_all key_ok ks \<and> distinct (map cr_tag ks) \<and> distinct (map cr_suite ks)"

lemma offered_sdes:
  "cp_dtls c = None \<Longrightarrow> cp_crypto c \<noteq> [] \<Longrightarrow> sdes_protocol (offered_audio c)"
proof -
  have "contains_text (ascii ''RTP/SAVP'') (ascii ''SAVP'')" "\<not> contains_text (ascii ''RTP/SAVP'') (ascii ''TLS'')"
    by code_simp+
  then show "cp_dtls c = None \<Longrightarrow> cp_crypto c \<noteq> [] \<Longrightarrow> sdes_protocol (offered_audio c)"
    by (simp add: sdes_protocol_def dtls_protocol_def capabilities_protocol_def)
qed

lemma find_key:
  "distinct (map cr_tag ks) \<Longrightarrow> t \<in> set ks \<Longrightarrow> find (\<lambda>k. cr_tag k = cr_tag t \<and> cr_suite k = cr_suite t) ks = Some t"
  by (induction ks) auto

text \<open>The key the caller finds in the answer, and the keys it takes from it.\<close>

lemma caller_keys:
  assumes "keys_ok (cp_crypto caller)" "cp_dtls caller = None" "cp_crypto caller \<noteq> []" "list_all key_ok (cp_crypto callee)"
    "settle_offer callee (offer_from caller) codecs = Inr (reply, s)"
  obtains theirs mine where "theirs \<in> set (cp_crypto caller)" "mine \<in> set (cp_crypto callee)"
    "find (\<lambda>mine. cr_suite mine = cr_suite theirs) (cp_crypto callee) = Some mine" "cr_suite mine = cr_suite theirs"
    "srtp_keys_offering (cp_crypto caller) (answered_crypto reply) =
       Inr (Some \<lparr>sk_profile = transform_of (cr_suite theirs), sk_local = (master_key theirs, master_salt theirs),
                  sk_remote = (master_key mine, master_salt mine)\<rparr>)"
    "answered_crypto reply \<noteq> None"
    "\<And>k. k \<in> set (cp_crypto caller) \<Longrightarrow> cr_suite k \<in> cr_suite ` set (cp_crypto callee) \<Longrightarrow>
       suite_strength (cr_suite k) \<le> suite_strength (cr_suite theirs)"
    "se_srtp s = srtp_keys_answering (cp_crypto callee) (strongest (cp_crypto caller))"
proof -
  define m where "m = offered_audio caller"
  have offers: "crypto_offers m = cp_crypto caller"
    using offered_crypto assms(1) by (simp add: m_def keys_ok_def)
  obtain r: "live_audio reply = Some (answer_stream (offer_from caller) m callee)"
    "\<not> is_rejected (answer_stream (offer_from caller) m callee)"
    "se_srtp s = srtp_keys_answering (cp_crypto callee) (media_crypto m)"
    using settled_reply [OF assms(5) offer_media] unfolding m_def by blast
  have "sdes_protocol m"
    unfolding m_def by (rule offered_sdes [OF assms(2,3)])
  then obtain k where k: "accepted_crypto m (cp_crypto callee) = Some k"
    "crypto_offers (answer_stream (offer_from caller) m callee) = [k]"
    using accepted_key [OF r(2) _ assms(4)] by blast
  then have answered: "answered_crypto reply = Some k"
    by (simp add: answered_crypto_def r(1) media_crypto_def)
  obtain theirs mine where tm: "theirs \<in> set (cp_crypto caller)" "mine \<in> set (cp_crypto callee)"
    "find (\<lambda>mine. cr_suite mine = cr_suite theirs) (cp_crypto callee) = Some mine" "cr_suite mine = cr_suite theirs"
    "k = \<lparr>cr_tag = cr_tag theirs, cr_suite = cr_suite theirs, cr_key_and_salt = cr_key_and_salt mine\<rparr>"
    using accepted_crypto_cases [OF assms(4) k(1)] unfolding offers by metis
  have "key_ok mine" "find (\<lambda>o'. cr_tag o' = cr_tag theirs \<and> cr_suite o' = cr_suite theirs) (cp_crypto caller) = Some theirs"
    using assms(1,4) tm(1,2) find_key by (auto simp: keys_ok_def list_all_iff)
  then have "keys_from_answer (cp_crypto caller) (Some k) =
      Inr \<lparr>sk_profile = transform_of (cr_suite theirs), sk_local = (master_key theirs, master_salt theirs),
           sk_remote = (master_key mine, master_salt mine)\<rparr>"
    using tm(4) by (simp add: keys_from_answer_def verify_answer_def tm(5) key_ok_def master_key_def master_salt_def)
  then have "srtp_keys_offering (cp_crypto caller) (answered_crypto reply) =
      Inr (Some \<lparr>sk_profile = transform_of (cr_suite theirs), sk_local = (master_key theirs, master_salt theirs),
           sk_remote = (master_key mine, master_salt mine)\<rparr>)"
    using assms(3) by (simp add: srtp_keys_offering_def answered)
  moreover have "suite_strength (cr_suite k') \<le> suite_strength (cr_suite theirs)"
    if "k' \<in> set (cp_crypto caller)" "cr_suite k' \<in> cr_suite ` set (cp_crypto callee)" for k'
    using accepted_crypto_strongest [OF assms(4) k(1), of k'] that offers tm(5) by simp
  ultimately show ?thesis
    using that [OF tm(1-4)] answered r(3) by (simp add: media_crypto_def offers)
qed

text \<open>
  C19: When both ends have the strongest suite the caller offers, they end with the same keys the other
  way round: each sends with what the other receives with, under the same transform.
\<close>

theorem sdes_keys_agree:
  assumes "keys_ok (cp_crypto caller)" "cp_dtls caller = None" "list_all key_ok (cp_crypto callee)"
    "strongest (cp_crypto caller) = Some best" "cr_suite best \<in> cr_suite ` set (cp_crypto callee)"
    "settle_offer callee (offer_from caller) codecs = Inr (reply, s)"
  shows "\<exists>near far. srtp_keys_offering (cp_crypto caller) (answered_crypto reply) = Inr (Some near) \<and>
    se_srtp s = Some far \<and> sk_profile near = sk_profile far \<and> sk_profile near = transform_of (cr_suite best) \<and>
    sk_local near = sk_remote far \<and> sk_remote near = sk_local far"
proof (rule caller_keys [OF assms(1,2) _ assms(3,6)])
  show "cp_crypto caller \<noteq> []"
    using assms(4) by auto
  fix theirs mine
  assume k: "theirs \<in> set (cp_crypto caller)"
    "find (\<lambda>mine. cr_suite mine = cr_suite theirs) (cp_crypto callee) = Some mine"
    "srtp_keys_offering (cp_crypto caller) (answered_crypto reply) =
       Inr (Some \<lparr>sk_profile = transform_of (cr_suite theirs), sk_local = (master_key theirs, master_salt theirs),
                  sk_remote = (master_key mine, master_salt mine)\<rparr>)"
    "\<And>k. k \<in> set (cp_crypto caller) \<Longrightarrow> cr_suite k \<in> cr_suite ` set (cp_crypto callee) \<Longrightarrow>
       suite_strength (cr_suite k) \<le> suite_strength (cr_suite theirs)"
    "se_srtp s = srtp_keys_answering (cp_crypto callee) (strongest (cp_crypto caller))"
  have best: "best \<in> set (cp_crypto caller)"
    by (rule strongest_Some(1) [OF assms(4)])
  then have "cr_suite theirs = cr_suite best"
    using k(4) [OF best assms(5)] strongest_Some(2) [OF assms(4) k(1)]
    by (intro suite_strength_inject [THEN iffD1]) simp
  then have same: "theirs = best"
    using assms(1) k(1) best by (auto simp: keys_ok_def distinct_map dest: inj_onD)
  then have "se_srtp s = Some \<lparr>sk_profile = transform_of (cr_suite best), sk_local = (master_key mine, master_salt mine),
             sk_remote = (master_key best, master_salt best)\<rparr>"
    using k(2,5) assms(4) by (simp add: srtp_keys_answering_def)
  then show ?thesis
    using k(3) same by simp
qed

text \<open>
  C20: When the called side has some of the caller's suites but not the strongest (its policy names
  one), its answer accepts a key and the caller encrypts with it, and its own session has none: it
  sends and expects the media in the clear.
\<close>

theorem sdes_narrowed_in_clear:
  assumes "keys_ok (cp_crypto caller)" "cp_dtls caller = None" "list_all key_ok (cp_crypto callee)"
    "strongest (cp_crypto caller) = Some best" "cr_suite best \<notin> cr_suite ` set (cp_crypto callee)"
    "settle_offer callee (offer_from caller) codecs = Inr (reply, s)"
  shows "answered_crypto reply \<noteq> None \<and>
    (\<exists>near. srtp_keys_offering (cp_crypto caller) (answered_crypto reply) = Inr (Some near)) \<and> \<not> is_encrypted s"
proof (rule caller_keys [OF assms(1,2) _ assms(3,6)])
  show "cp_crypto caller \<noteq> []"
    using assms(4) by auto
  fix theirs mine
  assume k: "srtp_keys_offering (cp_crypto caller) (answered_crypto reply) =
       Inr (Some \<lparr>sk_profile = transform_of (cr_suite theirs), sk_local = (master_key theirs, master_salt theirs),
                  sk_remote = (master_key mine, master_salt mine)\<rparr>)" "answered_crypto reply \<noteq> None"
    "se_srtp s = srtp_keys_answering (cp_crypto callee) (strongest (cp_crypto caller))"
  have "find (\<lambda>mine. cr_suite mine = cr_suite best) (cp_crypto callee) = None"
    unfolding find_None_iff using assms(5) by (metis image_eqI)
  then show ?thesis
    using k assms(4) by (simp add: is_encrypted_def srtp_keys_answering_def)
qed

text \<open>
  A plain RTP offer that also carries a key is answered plainly, with no key, and the session that
  answered it is keyed all the same, so this end encrypts and the other does not.
\<close>

theorem plain_answer_keyed:
  assumes "sd_media offer = [m]" "\<not> sdes_protocol m" "\<not> dtls_protocol m" "media_crypto m = Some theirs"
    "cr_suite theirs \<in> cr_suite ` set (cp_crypto callee)" "settle_offer callee offer codecs = Inr (reply, s)"
    "list_all key_ok (cp_crypto callee)" "fingerprint_ok (cp_dtls callee)"
  shows "answered_crypto reply = None \<and> is_encrypted s"
proof -
  obtain r: "live_audio reply = Some (answer_stream offer m callee)"
    "\<not> is_rejected (answer_stream offer m callee)" "se_srtp s = srtp_keys_answering (cp_crypto callee) (media_crypto m)"
    using settled_reply [OF assms(6,1)] by blast
  have "stream_keyed offer callee m (answer_stream offer m callee)"
    by (rule answer_stream_keyed [OF r(2) assms(7,8)])
  then have "answered_crypto reply = None"
    using assms(2,3) by (simp add: stream_keyed_def answered_crypto_def r(1) media_crypto_def)
  moreover obtain mine where "find (\<lambda>mine. cr_suite mine = cr_suite theirs) (cp_crypto callee) = Some mine"
    using find_suite [OF assms(5)] by blast
  ultimately show ?thesis
    using r(3) assms(4) by (simp add: is_encrypted_def srtp_keys_answering_def)
qed

section \<open>Examples\<close>

lemma find_map_some: "x \<in> set xs \<Longrightarrow> f x \<noteq> None \<Longrightarrow> find_map f xs \<noteq> None"
  by (induction xs) (auto split: option.split)

lemma number_zero: "parse_uint 256 (ascii ''0'') = Some 0"
  using parse_uint_decimal [of 0 256] by (simp add: ascii_def decimal.simps)

lemma pcmu_same: "same_format (ascii ''PCMU/8000'') (ascii ''PCMU/8000'')"
proof -
  have "eq_ignore_ascii_case (ascii ''PCMU'') (ascii ''PCMU'')"
    by code_simp
  then show ?thesis
    by (simp add: same_format_def pcmu_rtpmap same_format_as_def)
qed

lemma pcmu_codec: "codec_format (ascii ''PCMU/8000'') = Some (Pcmu, 8000)"
proof -
  have "\<not> eq_ignore_ascii_case (ascii ''PCMU'') (ascii ''L16'')"
    by code_simp
  then show ?thesis
    using pcmu_same by (simp add: codec_format_def pcmu_rtpmap codec_named_def offered_rtpmap_def codec_clock_rate_def)
qed

text \<open>A single stream whose payload type 0 is PCMU settles, when the answer accepts it.\<close>

lemma pcmu_settles:
  assumes "sd_media offer = [m]" "\<not> is_rejected m" "md_media m = ascii ''audio''" "media_direction m \<noteq> Inactive"
    "address_for offer m \<noteq> None" "ascii ''0'' \<in> set (md_formats m)" "rtpmap m (ascii ''0'') = Some (ascii ''PCMU/8000'')"
    "cp_audio_port c \<noteq> 0" "answering_dtls offer m c = Some None" "answering_crypto m c = Some crypto"
    "ascii ''PCMU/8000'' \<in> set (map snd (cp_rtpmaps c))"
  shows "\<exists>reply s. settle_offer c offer codecs_g711 = Inr (reply, s)"
proof -
  have live: "live_audio offer = Some m"
    using assms(1-3) by (simp add: live_audio_def)
  have "playable codecs_g711 m (ascii ''0'') \<noteq> None"
    by (simp add: playable_def codec_of_def number_zero assms(7) pcmu_codec codecs_g711_def
        carries_format_def preferences_def List.map_filter_simps)
  then have "find_map (playable codecs_g711 m) (md_formats m) \<noteq> None"
    using find_map_some assms(6) by metis
  then have n: "\<exists>n. negotiated_from offer codecs_g711 = Inr n"
    using live assms(4,5) by (auto simp: negotiated_from_def)
  have "supports c m (ascii ''0'')"
    using assms(7,11) pcmu_same by (auto simp: supports_def list_ex_iff)
  moreover have "\<not> eq_ignore_ascii_case (encoding_of (ascii ''PCMU/8000'')) (ascii ''telephone-event'')"
    by code_simp
  ultimately have "ascii ''0'' \<in> set (common_formats m c)" "\<not> is_telephone_event m (ascii ''0'')"
    using assms(6,7) number_zero by (simp_all add: common_formats_def is_telephone_event_def)
  moreover have "dtls_attributes offer m c None = Some []"
    by (simp add: dtls_attributes_def)
  ultimately have "\<not> is_rejected (answer_stream offer m c)"
    using answer_stream_accepts(2) [OF assms(2,3,8-10)] by blast
  then have "\<not> list_all is_rejected (sd_media (answer offer c))"
    using assms(1) by (simp add: answer_def)
  then show ?thesis
    using n by (auto simp: settle_offer_def Let_def)
qed

definition caller_example :: capabilities where
  "caller_example = (codecs_capabilities codecs_g711 (V4 [192, 0, 2, 10]) 49170)\<lparr>cp_crypto :=
     [example_key 1 suite.AeadAes256Gcm 1, example_key 2 suite.AesCm128HmacSha1_80 2]\<rparr>"

definition callee_example :: "suite \<Rightarrow> capabilities" where
  "callee_example s = (codecs_capabilities codecs_g711 (V4 [192, 0, 2, 20]) 40000)\<lparr>cp_crypto := [example_key 1 s 7]\<rparr>"

definition opportunistic_example :: session_description where
  "opportunistic_example = example_offer ''RTP/AVP''
     [attribute_valued (ascii ''crypto'') (crypto_to_value (example_key 1 suite.AeadAes256Gcm 1))]"

lemmas example_defs = caller_example_def callee_example_def codecs_capabilities_def codecs_g711_def preferences_def
  preference_formats_def List.map_filter_simps capabilities_g711_def

lemma callee_keys: "cp_crypto (callee_example s) = [example_key 1 s 7]"
  by (simp add: callee_example_def)

lemma caller_settles: "\<exists>reply s. settle_offer (callee_example best) (offer_from caller_example) codecs_g711 = Inr (reply, s)"
  if known: "best \<in> {suite.AeadAes256Gcm, suite.AesCm128HmacSha1_80}"
proof (rule pcmu_settles [OF offer_media])
  have "crypto_offers (offered_audio caller_example) = cp_crypto caller_example"
    by (rule offered_crypto) (simp add: example_defs key_ok_def example_key_def)
  then have keys: "crypto_offers (offered_audio caller_example) =
      [example_key 1 suite.AeadAes256Gcm 1, example_key 2 suite.AesCm128HmacSha1_80 2]"
    by (simp add: example_defs)
  have sdes: "sdes_protocol (offered_audio caller_example)"
    by (rule offered_sdes) (simp_all add: example_defs)
  have zero: "split_once 32 (ascii ''0 PCMU/8000'') = Some (ascii ''0'', ascii ''PCMU/8000'')"
    by code_simp
  show "\<not> is_rejected (offered_audio caller_example)" "md_media (offered_audio caller_example) = ascii ''audio''"
    "ascii ''0'' \<in> set (md_formats (offered_audio caller_example))" "cp_audio_port (callee_example best) \<noteq> 0"
    "ascii ''PCMU/8000'' \<in> set (map snd (cp_rtpmaps (callee_example best)))"
    by (simp_all add: is_rejected_def example_defs)
  show "media_direction (offered_audio caller_example) \<noteq> Inactive"
    by (simp add: offered_direction example_defs)
  show "address_for (offer_from caller_example) (offered_audio caller_example) \<noteq> None"
    by (simp add: address_for_def offer_from_def sd_new_def connection_new_def address_ip_def Let_def)
  show "rtpmap (offered_audio caller_example) (ascii ''0'') = Some (ascii ''PCMU/8000'')"
    using zero by (simp add: rtpmap_def offered_attributes_def example_defs attribute_valued_def ascii_def)
  show "answering_dtls (offer_from caller_example) (offered_audio caller_example) (callee_example best) = Some None"
    using sdes by (simp add: answering_dtls_def sdes_protocol_def dtls_protocol_def)
  have "accepted_crypto (offered_audio caller_example) (cp_crypto (callee_example best)) \<noteq> None"
  proof -
    consider "best = suite.AeadAes256Gcm" | "best = suite.AesCm128HmacSha1_80"
      using known by blast
    then show ?thesis
      by cases (simp_all add: accepted_crypto_def keys callee_keys example_key_def accepting_def List.map_filter_simps)
  qed
  then show "answering_crypto (offered_audio caller_example) (callee_example best) =
      Some (accepted_crypto (offered_audio caller_example) (cp_crypto (callee_example best)))"
    using sdes by (auto simp: answering_crypto_def sdes_protocol_def dtls_protocol_def)
qed

lemma example_keys:
  "keys_ok (cp_crypto caller_example)" "cp_dtls caller_example = None" "list_all key_ok (cp_crypto (callee_example best))"
  "strongest (cp_crypto caller_example) = Some (example_key 1 suite.AeadAes256Gcm 1)"
  by (simp_all add: keys_ok_def example_defs key_ok_def example_key_def stronger_def suite_strength_def)

lemma sdes_keys_agree_witness:
  "\<exists>reply s. settle_offer (callee_example suite.AeadAes256Gcm) (offer_from caller_example) codecs_g711 = Inr (reply, s) \<and>
    (\<exists>near far. srtp_keys_offering (cp_crypto caller_example) (answered_crypto reply) = Inr (Some near) \<and>
      se_srtp s = Some far \<and> sk_profile near = sk_profile far \<and>
      sk_profile near = transform_of (cr_suite (example_key 1 suite.AeadAes256Gcm 1)) \<and>
      sk_local near = sk_remote far \<and> sk_remote near = sk_local far)"
proof -
  obtain reply s where settled:
    "settle_offer (callee_example suite.AeadAes256Gcm) (offer_from caller_example) codecs_g711 = Inr (reply, s)"
    using caller_settles by blast
  have "cr_suite (example_key 1 suite.AeadAes256Gcm 1) \<in> cr_suite ` set (cp_crypto (callee_example suite.AeadAes256Gcm))"
    by (simp add: example_defs example_key_def)
  from sdes_keys_agree [OF example_keys(1-4) this settled] settled show ?thesis
    by blast
qed

lemma sdes_narrowed_in_clear_witness:
  "\<exists>reply s. settle_offer (callee_example suite.AesCm128HmacSha1_80) (offer_from caller_example) codecs_g711 = Inr (reply, s) \<and>
    answered_crypto reply \<noteq> None \<and>
    (\<exists>near. srtp_keys_offering (cp_crypto caller_example) (answered_crypto reply) = Inr (Some near)) \<and> \<not> is_encrypted s"
proof -
  obtain reply s where settled:
    "settle_offer (callee_example suite.AesCm128HmacSha1_80) (offer_from caller_example) codecs_g711 = Inr (reply, s)"
    using caller_settles by blast
  have "cr_suite (example_key 1 suite.AeadAes256Gcm 1) \<notin> cr_suite ` set (cp_crypto (callee_example suite.AesCm128HmacSha1_80))"
    by (simp add: example_defs example_key_def)
  from sdes_narrowed_in_clear [OF example_keys(1-4) this settled] settled show ?thesis
    by blast
qed

lemma opportunistic_stream:
  obtains m where "sd_media opportunistic_example = [m]" "\<not> is_rejected m" "md_media m = ascii ''audio''"
    "media_direction m \<noteq> Inactive" "address_for opportunistic_example m \<noteq> None" "ascii ''0'' \<in> set (md_formats m)"
    "rtpmap m (ascii ''0'') = Some (ascii ''PCMU/8000'')" "md_protocol m = ascii ''RTP/AVP''"
    "media_crypto m = Some (example_key 1 suite.AeadAes256Gcm 1)"
proof -
  define m where "m = hd (sd_media opportunistic_example)"
  have crypto: "ascii ''rtpmap'' \<noteq> ascii ''crypto''" "ascii ''sendonly'' \<noteq> ascii ''crypto''"
    and direction: "direction_parse (ascii ''sendonly'') = Some SendOnly"
    by code_simp+
  show ?thesis
  proof (rule that [of m])
    show "sd_media opportunistic_example = [m]" "\<not> is_rejected m" "md_media m = ascii ''audio''"
      "ascii ''0'' \<in> set (md_formats m)" "md_protocol m = ascii ''RTP/AVP''"
      by (simp_all add: m_def opportunistic_example_def example_offer_def is_rejected_def)
    show "rtpmap m (ascii ''0'') = Some (ascii ''PCMU/8000'')"
      by (rule example_rtpmap) (simp add: m_def opportunistic_example_def)
    show "media_direction m \<noteq> Inactive"
      using direction by (simp add: m_def opportunistic_example_def example_offer_def media_direction_def
          declared_direction_def attribute_direction_def attribute_valued_def attribute_flag_def)
    show "address_for opportunistic_example m \<noteq> None"
      by (simp add: m_def opportunistic_example_def example_offer_def address_for_def sd_new_def connection_new_def address_ip_def)
    show "media_crypto m = Some (example_key 1 suite.AeadAes256Gcm 1)"
      using crypto by (simp add: m_def opportunistic_example_def example_offer_def media_crypto_def crypto_offers_def
          attribute_valued_def attribute_flag_def List.map_filter_simps example_key_read)
  qed
qed

lemma plain_answer_keyed_witness:
  "\<exists>reply s. settle_offer (callee_example suite.AeadAes256Gcm) opportunistic_example codecs_g711 = Inr (reply, s) \<and>
    answered_crypto reply = None \<and> is_encrypted s"
proof (rule opportunistic_stream)
  fix m
  assume m: "sd_media opportunistic_example = [m]" "\<not> is_rejected m" "md_media m = ascii ''audio''"
    "media_direction m \<noteq> Inactive" "address_for opportunistic_example m \<noteq> None" "ascii ''0'' \<in> set (md_formats m)"
    "rtpmap m (ascii ''0'') = Some (ascii ''PCMU/8000'')" "md_protocol m = ascii ''RTP/AVP''"
    "media_crypto m = Some (example_key 1 suite.AeadAes256Gcm 1)"
  have "\<not> contains_text (ascii ''RTP/AVP'') (ascii ''SAVP'')" "\<not> contains_text (ascii ''RTP/AVP'') (ascii ''TLS'')"
    by code_simp+
  then have plain: "\<not> sdes_protocol m" "\<not> dtls_protocol m"
    "answering_dtls opportunistic_example m (callee_example suite.AeadAes256Gcm) = Some None"
    "answering_crypto m (callee_example suite.AeadAes256Gcm) = Some None"
    by (simp_all add: sdes_protocol_def dtls_protocol_def m(8) answering_dtls_def answering_crypto_def)
  have c: "cp_audio_port (callee_example suite.AeadAes256Gcm) \<noteq> 0"
    "ascii ''PCMU/8000'' \<in> set (map snd (cp_rtpmaps (callee_example suite.AeadAes256Gcm)))"
    "cr_suite (example_key 1 suite.AeadAes256Gcm 1) \<in> cr_suite ` set (cp_crypto (callee_example suite.AeadAes256Gcm))"
    "fingerprint_ok (cp_dtls (callee_example suite.AeadAes256Gcm))"
    by (simp_all add: example_defs example_key_def fingerprint_ok_def)
  obtain reply s where settled: "settle_offer (callee_example suite.AeadAes256Gcm) opportunistic_example codecs_g711 = Inr (reply, s)"
    using pcmu_settles [OF m(1-7) c(1) plain(3,4) c(2)] by blast
  from plain_answer_keyed [OF m(1) plain(1,2) m(9) c(3) settled example_keys(3) c(4)] settled show ?thesis
    by blast
qed

end
