(* ===== verification/Call_Codec.thy ===== *)
theory Call_Codec
  imports Call_Agreement
begin

text \<open>
  The codec of a call: the answer that goes on the wire and the session that is started are made by
  two searches over the same offer (\<open>answer_stream\<close> of \<open>sipx-sdp/src/answer.rs\<close> and \<open>negotiated\<close> of
  \<open>sipx-call/src/call/offer_answer.rs\<close>); here they are shown to pick the same format.
\<close>

section \<open>What an rtpmap names\<close>

lemma eq_ignore_lower: "eq_ignore_ascii_case a b \<longleftrightarrow> map lower_byte a = map lower_byte b"
  by (auto simp: eq_ignore_ascii_case_def list_all_length list_eq_iff_nth_eq)

lemma split_once_first: "b \<notin> set x \<Longrightarrow> split_once b (x @ b # y) = Some (x, y)"
proof -
  assume "b \<notin> set x"
  then have "position (\<lambda>c. c = b) (x @ b # y) = Some (length x)"
    by (intro position_skip) (auto simp: list_all_iff)
  then show ?thesis
    by (simp add: split_once_def)
qed

lemma split_once_none: "b \<notin> set x \<Longrightarrow> split_once b x = None"
  by (induction x) (auto simp: split_once_def)

lemma rtpmap_number: "n < 4294967296 \<Longrightarrow> rtpmap_decimal (decimal n) = Inr (of_nat n)"
  using decimal_digits [of n] parse_uint_decimal [of n 4294967296] by (simp add: rtpmap_decimal_def)

lemma rtpmap_values:
  assumes "47 \<notin> set e" "e \<noteq> []" "r < 4294967296"
  shows "rtpmap_parse (e @ 47 # decimal r) = Inr \<lparr>rm_encoding = e, rm_clock_rate = of_nat r, rm_channels = 1\<rparr>"
    "k < 4294967296 \<Longrightarrow> rtpmap_parse (e @ 47 # decimal r @ 47 # decimal k) =
      Inr \<lparr>rm_encoding = e, rm_clock_rate = of_nat r, rm_channels = of_nat k\<rparr>"
proof -
  have d: "47 \<notin> set (decimal n)" for n
    using decimal_plain by blast
  show "rtpmap_parse (e @ 47 # decimal r) = Inr \<lparr>rm_encoding = e, rm_clock_rate = of_nat r, rm_channels = 1\<rparr>"
    using assms d by (simp add: rtpmap_parse_def split_once_first split_once_none rtpmap_number)
  show "k < 4294967296 \<Longrightarrow> rtpmap_parse (e @ 47 # decimal r @ 47 # decimal k) =
      Inr \<lparr>rm_encoding = e, rm_clock_rate = of_nat r, rm_channels = of_nat k\<rparr>"
    using assms d by (simp add: rtpmap_parse_def split_once_first rtpmap_number)
qed

lemma rtpmap_texts:
  "ascii ''PCMU/8000'' = ascii ''PCMU'' @ 47 # decimal 8000" "ascii ''PCMA/8000'' = ascii ''PCMA'' @ 47 # decimal 8000"
  "ascii ''G722/8000'' = ascii ''G722'' @ 47 # decimal 8000"
  "ascii ''L16/44100/1'' = ascii ''L16'' @ 47 # decimal 44100 @ 47 # decimal 1"
  "ascii ''L16/8000/1'' = ascii ''L16'' @ 47 # decimal 8000 @ 47 # decimal 1"
  "ascii ''telephone-event/8000'' = ascii ''telephone-event'' @ 47 # decimal 8000"
  by (simp_all add: ascii_def decimal.simps)

lemma same_format_values:
  assumes "rtpmap_parse v = Inr x"
  shows "same_format v (ascii ''PCMU/8000'') \<longleftrightarrow>
      map lower_byte (rm_encoding x) = ascii ''pcmu'' \<and> rm_clock_rate x = 8000 \<and> rm_channels x = 1"
    "same_format v (ascii ''PCMA/8000'') \<longleftrightarrow>
      map lower_byte (rm_encoding x) = ascii ''pcma'' \<and> rm_clock_rate x = 8000 \<and> rm_channels x = 1"
    "same_format v (ascii ''G722/8000'') \<longleftrightarrow>
      map lower_byte (rm_encoding x) = ascii ''g722'' \<and> rm_clock_rate x = 8000 \<and> rm_channels x = 1"
    "same_format v (ascii ''L16/44100/1'') \<longleftrightarrow>
      map lower_byte (rm_encoding x) = ascii ''l16'' \<and> rm_clock_rate x = 44100 \<and> rm_channels x = 1"
    "same_format v (ascii ''L16/8000/1'') \<longleftrightarrow>
      map lower_byte (rm_encoding x) = ascii ''l16'' \<and> rm_clock_rate x = 8000 \<and> rm_channels x = 1"
    "same_format v (ascii ''telephone-event/8000'') \<longleftrightarrow>
      map lower_byte (rm_encoding x) = ascii ''telephone-event'' \<and> rm_clock_rate x = 8000 \<and> rm_channels x = 1"
proof -
  have names: "list_all (\<lambda>e. 47 \<notin> set (ascii e) \<and> ascii e \<noteq> []) [''PCMU'', ''PCMA'', ''G722'', ''L16'', ''telephone-event'']"
    by code_simp
  have lowers: "map lower_byte (ascii ''PCMU'') = ascii ''pcmu''" "map lower_byte (ascii ''PCMA'') = ascii ''pcma''"
    "map lower_byte (ascii ''G722'') = ascii ''g722''" "map lower_byte (ascii ''L16'') = ascii ''l16''"
    "map lower_byte (ascii ''telephone-event'') = ascii ''telephone-event''"
    by code_simp+
  show "same_format v (ascii ''PCMU/8000'') \<longleftrightarrow>
      map lower_byte (rm_encoding x) = ascii ''pcmu'' \<and> rm_clock_rate x = 8000 \<and> rm_channels x = 1"
    "same_format v (ascii ''PCMA/8000'') \<longleftrightarrow>
      map lower_byte (rm_encoding x) = ascii ''pcma'' \<and> rm_clock_rate x = 8000 \<and> rm_channels x = 1"
    "same_format v (ascii ''G722/8000'') \<longleftrightarrow>
      map lower_byte (rm_encoding x) = ascii ''g722'' \<and> rm_clock_rate x = 8000 \<and> rm_channels x = 1"
    "same_format v (ascii ''L16/44100/1'') \<longleftrightarrow>
      map lower_byte (rm_encoding x) = ascii ''l16'' \<and> rm_clock_rate x = 44100 \<and> rm_channels x = 1"
    "same_format v (ascii ''L16/8000/1'') \<longleftrightarrow>
      map lower_byte (rm_encoding x) = ascii ''l16'' \<and> rm_clock_rate x = 8000 \<and> rm_channels x = 1"
    "same_format v (ascii ''telephone-event/8000'') \<longleftrightarrow>
      map lower_byte (rm_encoding x) = ascii ''telephone-event'' \<and> rm_clock_rate x = 8000 \<and> rm_channels x = 1"
    using names unfolding rtpmap_texts
    by (simp_all add: same_format_def assms rtpmap_values same_format_as_def eq_ignore_lower lowers)
qed

lemma encoding_of_parsed: "rtpmap_parse v = Inr x \<Longrightarrow> encoding_of v = rm_encoding x"
proof -
  assume "rtpmap_parse v = Inr x"
  then obtain rest where "split_once 47 v = Some (rm_encoding x, rest)"
    by (auto simp: rtpmap_parse_def bind_res_Inr_iff Let_def split: prod.splits if_splits option.splits)
  from split_once_Some [OF this] show ?thesis
    by (simp add: encoding_of_def takeWhile_append)
qed

lemma lower_names:
  "ascii ''pcmu'' \<noteq> ascii ''pcma''" "ascii ''pcmu'' \<noteq> ascii ''g722''" "ascii ''pcmu'' \<noteq> ascii ''l16''"
  "ascii ''pcmu'' \<noteq> ascii ''telephone-event''" "ascii ''pcma'' \<noteq> ascii ''g722''" "ascii ''pcma'' \<noteq> ascii ''l16''"
  "ascii ''pcma'' \<noteq> ascii ''telephone-event''" "ascii ''g722'' \<noteq> ascii ''l16''"
  "ascii ''g722'' \<noteq> ascii ''telephone-event''" "ascii ''l16'' \<noteq> ascii ''telephone-event''"
  by code_simp+

lemma codec_format_values:
  assumes "rtpmap_parse v = Inr x"
  shows "codec_format v =
    (if map lower_byte (rm_encoding x) = ascii ''l16'' \<and> rm_channels x = 1 then Some (L16, rm_clock_rate x)
     else if rm_clock_rate x = 8000 \<and> rm_channels x = 1 then
       (if map lower_byte (rm_encoding x) = ascii ''pcmu'' then Some (Pcmu, 8000)
        else if map lower_byte (rm_encoding x) = ascii ''pcma'' then Some (Pcma, 8000)
        else if map lower_byte (rm_encoding x) = ascii ''g722'' then Some (G722, 8000) else None)
     else None)"
proof -
  have l16: "map lower_byte (ascii ''L16'') = ascii ''l16''"
    by code_simp
  show ?thesis
    using lower_names
    by (auto simp: codec_format_def assms eq_ignore_lower l16 codec_named_def offered_rtpmap_def same_format_values [OF assms]
        codec_clock_rate_def)
qed

section \<open>One rule for both searches\<close>

definition codec_formats :: "codecs \<Rightarrow> (bytes \<times> bytes) list" where
  "codec_formats cs = concat (map preference_formats (preferences cs)) @ [(ascii ''101'', ascii ''telephone-event/8000'')]"

lemma some_preference:
  "(\<exists>p \<in> A. P p) \<longleftrightarrow> Prefer_Pcmu \<in> A \<and> P Prefer_Pcmu \<or> Prefer_Pcma \<in> A \<and> P Prefer_Pcma \<or>
     Prefer_G722 \<in> A \<and> P Prefer_G722 \<or> Prefer_Opus \<in> A \<and> P Prefer_Opus \<or> Prefer_L16 \<in> A \<and> P Prefer_L16"
  (is "_ \<longleftrightarrow> ?cases")
proof
  assume "\<exists>p \<in> A. P p"
  then obtain p where "p \<in> A" "P p"
    by blast
  then show ?cases
    by (cases p) simp_all
qed blast

lemma carries_cases:
  "carries_format cs k rate \<longleftrightarrow>
    (case k of Pcmu \<Rightarrow> rate = 8000 \<and> Prefer_Pcmu \<in> set (preferences cs)
     | Pcma \<Rightarrow> rate = 8000 \<and> Prefer_Pcma \<in> set (preferences cs)
     | G722 \<Rightarrow> rate = 8000 \<and> Prefer_G722 \<in> set (preferences cs)
     | L16 \<Rightarrow> (rate = 8000 \<or> rate = 44100) \<and> Prefer_L16 \<in> set (preferences cs))"
  by (cases k) (auto simp: carries_format_def list_ex_iff some_preference)

lemma playable_named:
  assumes "rtpmap m f = Some v" "parse_uint 256 f = Some n" "cp_rtpmaps c = codec_formats cs"
    "Prefer_Opus \<notin> set (preferences cs)"
  shows "supports c m f \<and> \<not> is_telephone_event m f \<longleftrightarrow> playable cs m f \<noteq> None"
proof (cases "rtpmap_parse v")
  case (Inl e)
  then show ?thesis
    using assms(1,2)
    by (auto simp: supports_def same_format_def list_ex_iff playable_def codec_of_def codec_format_def)
next
  case (Inr x)
  define low where "low = map lower_byte (rm_encoding x)"
  have tel: "map lower_byte (ascii ''telephone-event'') = ascii ''telephone-event''"
    by code_simp
  have event: "is_telephone_event m f \<longleftrightarrow> low = ascii ''telephone-event''"
    by (simp add: is_telephone_event_def assms(1) encoding_of_parsed [OF Inr] eq_ignore_lower tel low_def)
  have "supports c m f \<longleftrightarrow> (\<exists>p \<in> set (preferences cs). \<exists>mapping \<in> set (preference_formats p). same_format v (snd mapping)) \<or>
      same_format v (ascii ''telephone-event/8000'')"
    by (auto simp: supports_def assms(1,3) codec_formats_def list_ex_iff case_prod_unfold)
  also have "\<dots> \<longleftrightarrow> rm_channels x = 1 \<and>
      (rm_clock_rate x = 8000 \<and> (low = ascii ''pcmu'' \<and> Prefer_Pcmu \<in> set (preferences cs) \<or>
         low = ascii ''pcma'' \<and> Prefer_Pcma \<in> set (preferences cs) \<or>
         low = ascii ''g722'' \<and> Prefer_G722 \<in> set (preferences cs) \<or> low = ascii ''telephone-event'') \<or>
       (rm_clock_rate x = 44100 \<or> rm_clock_rate x = 8000) \<and> low = ascii ''l16'' \<and> Prefer_L16 \<in> set (preferences cs))"
    using assms(4) unfolding some_preference by (auto simp: preference_formats_def same_format_values [OF Inr] low_def)
  finally have supported: "supports c m f \<longleftrightarrow> \<dots>" .
  have "playable cs m f \<noteq> None \<longleftrightarrow> (\<exists>k rate. codec_format v = Some (k, rate) \<and> carries_format cs k rate)"
    using assms(1,2) by (cases "codec_format v") (auto simp: playable_def codec_of_def split: if_splits)
  then show ?thesis
    using lower_names unfolding supported event codec_format_values [OF Inr] low_def [symmetric]
    by (auto simp: carries_cases split: if_splits)
qed

lemma decimal_inject: "decimal n = decimal k \<longleftrightarrow> n = k"
  by (metis port_value_decimal)

lemma format_numbers:
  "ascii ''0'' = decimal 0" "ascii ''8'' = decimal 8" "ascii ''9'' = decimal 9" "ascii ''11'' = decimal 11"
  "ascii ''96'' = decimal 96" "ascii ''101'' = decimal 101"
  by (simp_all add: ascii_def decimal.simps)

lemma playable_numbered:
  assumes "rtpmap m (decimal n) = None" "n < 256" "cp_audio_formats c = map fst (codec_formats cs)"
    "Prefer_Opus \<notin> set (preferences cs)"
  shows "supports c m (decimal n) \<and> \<not> is_telephone_event m (decimal n) \<longleftrightarrow> playable cs m (decimal n) \<noteq> None"
proof -
  have number: "parse_uint 256 (decimal n) = Some n"
    using assms(2) by (rule parse_uint_decimal)
  have "decimal n \<in> set (cp_audio_formats c) \<longleftrightarrow>
      (\<exists>p \<in> set (preferences cs). \<exists>mapping \<in> set (preference_formats p). decimal n = fst mapping) \<or> decimal n = ascii ''101''"
    by (force simp: assms(3) codec_formats_def)
  also have "\<dots> \<longleftrightarrow> Prefer_Pcmu \<in> set (preferences cs) \<and> n = 0 \<or> Prefer_Pcma \<in> set (preferences cs) \<and> n = 8 \<or>
      Prefer_G722 \<in> set (preferences cs) \<and> n = 9 \<or> Prefer_L16 \<in> set (preferences cs) \<and> (n = 11 \<or> n = 96) \<or> n = 101"
    using assms(4) unfolding some_preference by (simp add: preference_formats_def format_numbers decimal_inject)
  finally have listed: "decimal n \<in> set (cp_audio_formats c) \<longleftrightarrow> \<dots>" .
  have word: "(of_nat n :: u8) = of_nat k \<longleftrightarrow> n = k" if "k < 256" for k
    using that assms(2) by (simp add: word_of_nat_eq_iff take_bit_nat_eq_self)
  have "codec_from_payload_type (of_nat n) =
      (if n = 0 then Some Pcmu else if n = 8 then Some Pcma else if n = 9 then Some G722 else if n = 11 then Some L16 else None)"
    using word [of 0] word [of 8] word [of 9] word [of 11] by (simp add: codec_from_payload_type_def)
  then show ?thesis
    using listed assms(1)
    by (auto simp: supports_def is_telephone_event_def playable_def codec_of_def number carries_cases codec_clock_rate_def
        split: if_splits)
qed

section \<open>The codec\<close>

lemma find_map_find: "find_map f xs = Option.bind (find (\<lambda>x. f x \<noteq> None) xs) f"
  by (induction xs) (auto split: option.split)

lemma find_agree:
  "list_all (\<lambda>f. S f \<and> \<not> E f \<longleftrightarrow> P f \<noteq> None) fs \<Longrightarrow> find (\<lambda>f. \<not> E f) (filter S fs) = find (\<lambda>f. P f \<noteq> None) fs"
  by (induction fs) auto

lemma capabilities_formats:
  "media_capabilities random policy address port secure = Inr c \<Longrightarrow>
    cp_rtpmaps c = codec_formats (mp_codecs policy) \<and> cp_audio_formats c = map fst (codec_formats (mp_codecs policy))"
  by (auto simp: media_capabilities_def Let_def with_srtp_def with_srtp_suites_def with_rtcp_mux_def codecs_capabilities_def
      codec_formats_def split: if_splits keying.splits option.splits)

text \<open>
  The codec this side's session starts with is the first one its own answer names: with the same
  RTP clock and the payload type the offer gave it. Formats are numbers, and with multiplexed RTCP none
  of them is one the answer leaves out because it could be mistaken for an RTCP packet.
\<close>

theorem codec_agrees:
  assumes "media_capabilities random policy address port secure = Inr c"
    "Prefer_Opus \<notin> set (preferences (mp_codecs policy))" "sd_media offer = [m]" "md_formats m = map decimal ns"
    "list_all (\<lambda>n. n < 256 \<and> \<not> (rtcp_mux m \<and> 64 \<le> n \<and> n \<le> 95)) ns"
    "settle_offer c offer (mp_codecs policy) = Inr (reply, s)"
  shows "\<exists>f. Option.bind (live_audio reply) (\<lambda>a. find (\<lambda>f. \<not> is_telephone_event m f) (md_formats a)) = Some f \<and>
    codec_of m f = Some (ng_codec (se_negotiated s), ng_payload_type (se_negotiated s), ng_clock_rate (se_negotiated s))"
proof (rule settled_reply [OF assms(6,3)])
  define cs where "cs = mp_codecs policy"
  assume r: "live_audio reply = Some (answer_stream offer m c)" "\<not> is_rejected (answer_stream offer m c)"
    "live_audio offer = Some m"
  note caps = capabilities_formats [OF assms(1), folded cs_def]
  have number: "parse_uint 256 (decimal n) = Some n" if "n \<in> set ns" for n
    using assms(5) that by (intro parse_uint_decimal) (simp add: list_all_iff)
  have rule: "supports c m f \<and> \<not> is_telephone_event m f \<longleftrightarrow> playable cs m f \<noteq> None" if member: "f \<in> set (map decimal ns)" for f
  proof -
    obtain n where n: "f = decimal n" "n \<in> set ns" "n < 256"
      using member assms(5) by (auto simp: list_all_iff)
    show ?thesis
      using playable_named [of m f _ n c cs] playable_numbered [of m n c cs] number [OF n(2)] n caps assms(2)
      by (cases "rtpmap m f") (simp_all add: cs_def)
  qed
  have "common_formats m c = filter (supports c m) (map decimal ns)"
    using assms(5) number by (auto simp: common_formats_def assms(4) mux_agreed_def filter_id_conv list_all_iff)
  moreover have "md_formats (answer_stream offer m c) = common_formats m c"
    using r(2) by (cases rule: answer_stream_cases [of offer m c]) (simp_all add: accepted_stream_def)
  ultimately have f: "find (\<lambda>f. \<not> is_telephone_event m f) (md_formats (answer_stream offer m c)) =
      find (\<lambda>f. playable cs m f \<noteq> None) (md_formats m)"
    using rule find_agree [of "supports c m" "is_telephone_event m" "playable cs m" "map decimal ns"]
    by (simp add: list_all_iff assms(4))
  obtain k n rate where k: "find_map (playable cs m) (md_formats m) = Some (k, n, rate)" "ng_codec (se_negotiated s) = k"
    "ng_payload_type (se_negotiated s) = n" "ng_clock_rate (se_negotiated s) = rate"
    using assms(6) r(3) by (auto simp: settle_offer_def negotiated_from_def bind_res_Inr_iff Let_def cs_def split: if_splits)
  then obtain f where "find (\<lambda>f. playable cs m f \<noteq> None) (md_formats m) = Some f" "playable cs m f = Some (k, n, rate)"
    by (auto simp: find_map_find bind_eq_Some_conv)
  then show ?thesis
    using f r(1) k by (auto simp: playable_def bind_eq_Some_conv split: if_splits prod.splits)
qed

definition plain_policy :: media_policy where
  "plain_policy = \<lparr>mp_profile = Standard, mp_codecs = codecs_g711, mp_ice = Ice_Disabled, mp_keying = Keying_Plain,
     mp_srtp_suite = None\<rparr>"

definition plain_capabilities :: capabilities where
  "plain_capabilities = with_rtcp_mux (codecs_capabilities codecs_g711 (V4 [192, 0, 2, 20]) 40000)"

lemma codec_agrees_witness:
  "\<exists>reply s. settle_offer plain_capabilities opportunistic_example codecs_g711 = Inr (reply, s) \<and>
    (\<exists>f. Option.bind (live_audio reply)
        (\<lambda>a. find (\<lambda>f. \<not> is_telephone_event (hd (sd_media opportunistic_example)) f) (md_formats a)) = Some f \<and>
      codec_of (hd (sd_media opportunistic_example)) f =
        Some (ng_codec (se_negotiated s), ng_payload_type (se_negotiated s), ng_clock_rate (se_negotiated s)))"
proof (rule opportunistic_stream)
  fix m
  assume m: "sd_media opportunistic_example = [m]" "\<not> is_rejected m" "md_media m = ascii ''audio''"
    "media_direction m \<noteq> Inactive" "address_for opportunistic_example m \<noteq> None" "ascii ''0'' \<in> set (md_formats m)"
    "rtpmap m (ascii ''0'') = Some (ascii ''PCMU/8000'')" "md_protocol m = ascii ''RTP/AVP''"
  have "\<not> contains_text (ascii ''RTP/AVP'') (ascii ''SAVP'')" "\<not> contains_text (ascii ''RTP/AVP'') (ascii ''TLS'')"
    by code_simp+
  then have plain: "answering_dtls opportunistic_example m plain_capabilities = Some None"
    "answering_crypto m plain_capabilities = Some None"
    by (simp_all add: m(8) answering_dtls_def answering_crypto_def)
  have c: "cp_audio_port plain_capabilities \<noteq> 0" "ascii ''PCMU/8000'' \<in> set (map snd (cp_rtpmaps plain_capabilities))"
    by (simp_all add: plain_capabilities_def with_rtcp_mux_def example_defs)
  obtain reply s where settled: "settle_offer plain_capabilities opportunistic_example codecs_g711 = Inr (reply, s)"
    using pcmu_settles [OF m(1-7) c(1) plain c(2)] by blast
  have caps: "media_capabilities (\<lambda>i n. []) plain_policy (V4 [192, 0, 2, 20]) 40000 True = Inr plain_capabilities"
    and codecs: "mp_codecs plain_policy = codecs_g711" "Prefer_Opus \<notin> set (preferences (mp_codecs plain_policy))"
    by (simp_all add: media_capabilities_def plain_policy_def plain_capabilities_def codecs_g711_def preferences_def
        List.map_filter_simps)
  have "sd_media opportunistic_example = [hd (sd_media opportunistic_example)]"
    "md_formats (hd (sd_media opportunistic_example)) = map decimal [0, 8]"
    by (simp_all add: opportunistic_example_def example_offer_def format_numbers)
  from codec_agrees [OF caps codecs(2) this _ settled [folded codecs(1)]] show ?thesis
    using settled by simp
qed

end
