(* ===== verification/Sdp_Ice.thy ===== *)
theory Sdp_Ice
  imports Sdp_Session Ip_Text
begin

text \<open>
  ICE in session descriptions (\<open>sipx-sdp/src/ice.rs\<close> and the accessors of \<open>session.rs\<close>): candidates,
  remote candidates, credentials, pacing and options. A candidate line that is read is written so
  that it reads back; what is read is within the bounds the pair arithmetic of the agent rests on.
\<close>

section \<open>Values\<close>

definition is_ice_char :: "u8 \<Rightarrow> bool" where
  "is_ice_char c \<longleftrightarrow> is_ascii_alphanumeric c \<or> c = ch CHR ''+'' \<or> c = ch CHR ''/''"

definition is_ice_chars :: "bytes \<Rightarrow> nat \<Rightarrow> nat option \<Rightarrow> bool" where
  "is_ice_chars text mn mx \<longleftrightarrow>
     mn \<le> length text \<and> (case mx of None \<Rightarrow> True | Some m \<Rightarrow> length text \<le> m) \<and> list_all is_ice_char text"

type_synonym foundation = bytes

definition foundation_new :: "bytes \<Rightarrow> foundation option" where
  "foundation_new token = (if is_ice_chars token 1 (Some 32) then Some token else None)"

type_synonym component_id = u16

definition RTP :: component_id where
  "RTP = 1"

definition RTCP :: component_id where
  "RTCP = 2"

definition component_new :: "u16 \<Rightarrow> component_id option" where
  "component_new i = (if 1 \<le> i \<and> i \<le> 256 then Some i else None)"

datatype ice_transport = Udp

definition transport_str :: "ice_transport \<Rightarrow> bytes" where
  "transport_str t = (case t of Udp \<Rightarrow> ascii ''UDP'')"

definition transport_parse :: "bytes \<Rightarrow> ice_transport option" where
  "transport_parse token = (if eq_ignore_ascii_case token (transport_str Udp) then Some Udp else None)"

type_synonym priority = u32

definition PRIORITY_MAX :: priority where
  "PRIORITY_MAX = 0x7fffffff"

definition PRIORITY_MIN :: priority where
  "PRIORITY_MIN = 1"

definition priority_new :: "u32 \<Rightarrow> priority option" where
  "priority_new v = (if PRIORITY_MIN \<le> v \<and> v \<le> PRIORITY_MAX then Some v else None)"

definition priority_parse :: "bytes \<Rightarrow> priority option" where
  "priority_parse text =
     Option.bind (parse_uint (2 ^ 64) text) (\<lambda>v.
       if v < 2 ^ 32 then priority_new (of_nat v) else None)"

datatype candidate_type = Host | ServerReflexive | PeerReflexive | Relayed

definition candidate_type_str :: "candidate_type \<Rightarrow> bytes" where
  "candidate_type_str k =
     (case k of Host \<Rightarrow> ascii ''host'' | ServerReflexive \<Rightarrow> ascii ''srflx''
      | PeerReflexive \<Rightarrow> ascii ''prflx'' | Relayed \<Rightarrow> ascii ''relay'')"

definition candidate_type_parse :: "bytes \<Rightarrow> candidate_type option" where
  "candidate_type_parse token =
     (if token = ascii ''host'' then Some Host
      else if token = ascii ''srflx'' then Some ServerReflexive
      else if token = ascii ''prflx'' then Some PeerReflexive
      else if token = ascii ''relay'' then Some Relayed
      else None)"

record related_address =
  ra_address :: ip_addr
  ra_port :: u16

record candidate =
  cd_foundation :: foundation
  cd_component :: component_id
  cd_transport :: ice_transport
  cd_priority :: priority
  cd_address :: ip_addr
  cd_port :: u16
  cd_kind :: candidate_type
  cd_related :: "related_address option"
  cd_extensions :: "(bytes \<times> bytes) list"

section \<open>Candidate lines\<close>

definition parse_u16 :: "bytes \<Rightarrow> u16 option" where
  "parse_u16 text = map_option of_nat (parse_uint (2 ^ 16) text)"

text \<open>The name and value pairs after the type.\<close>

fun candidate_pairs ::
  "ip_addr option \<Rightarrow> u16 option \<Rightarrow> (bytes \<times> bytes) list \<Rightarrow> bytes list \<Rightarrow>
    (ip_addr option \<times> u16 option \<times> (bytes \<times> bytes) list) option" where
  "candidate_pairs address port extensions [] = Some (address, port, extensions)"
| "candidate_pairs address port extensions [name] = None"
| "candidate_pairs address port extensions (name # v # rest) =
     (if name = ascii ''raddr'' then
        Option.bind (parse_ip v) (\<lambda>a. candidate_pairs (Some a) port extensions rest)
      else if name = ascii ''rport'' then
        Option.bind (parse_u16 v) (\<lambda>p. candidate_pairs address (Some p) extensions rest)
      else candidate_pairs address port (extensions @ [(name, v)]) rest)"

definition related_of :: "ip_addr option \<Rightarrow> u16 option \<Rightarrow> related_address option option" where
  "related_of address port =
     (case (address, port) of
        (Some a, Some p) \<Rightarrow> Some (Some \<lparr>ra_address = a, ra_port = p\<rparr>)
      | (None, None) \<Rightarrow> Some None
      | _ \<Rightarrow> None)"

definition candidate_parse :: "bytes \<Rightarrow> candidate option" where
  "candidate_parse v =
     (case split_whitespace v of
        f # c # t # p # a # n # typ # k # rest \<Rightarrow>
          Option.bind (foundation_new f) (\<lambda>foundation.
          Option.bind (Option.bind (parse_u16 c) component_new) (\<lambda>component.
          Option.bind (transport_parse t) (\<lambda>transport.
          Option.bind (priority_parse p) (\<lambda>priority.
          Option.bind (parse_ip a) (\<lambda>address.
          Option.bind (parse_u16 n) (\<lambda>port.
            if typ \<noteq> ascii ''typ'' then None
            else Option.bind (candidate_type_parse k) (\<lambda>kind.
              Option.bind (candidate_pairs None None [] rest) (\<lambda>(raddr, rport, extensions).
              Option.bind (related_of raddr rport) (\<lambda>related.
                Some \<lparr>cd_foundation = foundation, cd_component = component, cd_transport = transport,
                      cd_priority = priority, cd_address = address, cd_port = port, cd_kind = kind,
                      cd_related = related, cd_extensions = extensions\<rparr>)))))))))
      | _ \<Rightarrow> None)"

definition candidate_to_value :: "candidate \<Rightarrow> bytes" where
  "candidate_to_value c =
     join_bytes [32]
       [cd_foundation c, decimal (unat (cd_component c)), transport_str (cd_transport c),
        decimal (unat (cd_priority c)), show_ip (cd_address c), decimal (unat (cd_port c)),
        ascii ''typ'', candidate_type_str (cd_kind c)] @
     (case cd_related c of
        Some r \<Rightarrow> ascii '' raddr '' @ show_ip (ra_address r) @ ascii '' rport '' @ decimal (unat (ra_port r))
      | None \<Rightarrow> []) @
     concat (map (\<lambda>(name, v). [32] @ name @ [32] @ v) (cd_extensions c))"

section \<open>Remote candidates, credentials, pacing and options\<close>

record remote_candidate_value =
  rcv_component :: component_id
  rcv_address :: ip_addr
  rcv_port :: u16

fun remote_candidate_triples :: "bytes list \<Rightarrow> remote_candidate_value list option" where
  "remote_candidate_triples [] = Some []"
| "remote_candidate_triples (c # a # n # rest) =
     Option.bind (Option.bind (parse_u16 c) component_new) (\<lambda>component.
     Option.bind (parse_ip a) (\<lambda>address.
     Option.bind (parse_u16 n) (\<lambda>port.
     Option.bind (remote_candidate_triples rest) (\<lambda>more.
       Some (\<lparr>rcv_component = component, rcv_address = address, rcv_port = port\<rparr> # more)))))"
| "remote_candidate_triples _ = None"

definition remote_candidates_parse :: "bytes \<Rightarrow> remote_candidate_value list option" where
  "remote_candidates_parse v =
     (case remote_candidate_triples (split_whitespace v) of
        Some out \<Rightarrow> if out = [] then None else Some out
      | None \<Rightarrow> None)"

definition remote_candidates_to_value :: "remote_candidate_value list \<Rightarrow> bytes" where
  "remote_candidates_to_value cs =
     join_bytes [32] (map (\<lambda>c. join_bytes [32]
       [decimal (unat (rcv_component c)), show_ip (rcv_address c), decimal (unat (rcv_port c))]) cs)"

record credentials =
  cr_ufrag :: bytes
  cr_pwd :: bytes

definition credentials_checked :: "bytes \<Rightarrow> bytes \<Rightarrow> nat \<Rightarrow> credentials option" where
  "credentials_checked ufrag pwd mx =
     (if is_ice_chars ufrag 4 (Some mx) \<and> is_ice_chars pwd 22 (Some mx)
      then Some \<lparr>cr_ufrag = ufrag, cr_pwd = pwd\<rparr> else None)"

definition credentials_new :: "bytes \<Rightarrow> bytes \<Rightarrow> credentials option" where
  "credentials_new ufrag pwd = credentials_checked ufrag pwd 32"

definition credentials_received :: "bytes \<Rightarrow> bytes \<Rightarrow> credentials option" where
  "credentials_received ufrag pwd = credentials_checked ufrag pwd 256"

type_synonym pacing = u32

definition PACING_DEFAULT :: pacing where
  "PACING_DEFAULT = 50"

definition pacing_parse :: "bytes \<Rightarrow> pacing option" where
  "pacing_parse text =
     Option.bind (parse_uint (2 ^ 64) text) (\<lambda>v. if v < 2 ^ 32 then Some (of_nat v) else None)"

definition pacing_agreed :: "pacing \<Rightarrow> pacing \<Rightarrow> pacing" where
  "pacing_agreed x y = max x y"

definition option_tags :: "bytes \<Rightarrow> bytes list" where
  "option_tags v = filter (\<lambda>tag. is_ice_chars tag 1 None) (split_whitespace v)"

section \<open>The attributes of a description\<close>

definition attribute_values :: "attribute list \<Rightarrow> string \<Rightarrow> bytes list" where
  "attribute_values as name = List.map_filter at_value (filter (\<lambda>a. at_name a = ascii name) as)"

definition ice_candidates :: "media_description \<Rightarrow> candidate list" where
  "ice_candidates m = List.map_filter candidate_parse (attribute_values (md_attributes m) ''candidate'')"

definition ice_remote_candidates :: "media_description \<Rightarrow> remote_candidate_value list" where
  "ice_remote_candidates m =
     concat (List.map_filter remote_candidates_parse (attribute_values (md_attributes m) ''remote-candidates''))"

definition ice_credentials_at :: "attribute list \<Rightarrow> credentials option" where
  "ice_credentials_at as =
     (case (attribute_value as ''ice-ufrag'', attribute_value as ''ice-pwd'') of
        (Some ufrag, Some pwd) \<Rightarrow> credentials_received ufrag pwd
      | _ \<Rightarrow> None)"

definition ice_credentials_for :: "session_description \<Rightarrow> media_description \<Rightarrow> credentials option" where
  "ice_credentials_for s m =
     (case ice_credentials_at (md_attributes m) of
        Some c \<Rightarrow> Some c
      | None \<Rightarrow> ice_credentials_at (sd_attributes s))"

definition ice_options_at :: "attribute list \<Rightarrow> bytes list" where
  "ice_options_at as = concat (map option_tags (attribute_values as ''ice-options''))"

definition ice_options_for :: "session_description \<Rightarrow> media_description \<Rightarrow> bytes list" where
  "ice_options_for s m = ice_options_at (sd_attributes s) @ ice_options_at (md_attributes m)"

definition is_ice_lite :: "session_description \<Rightarrow> bool" where
  "is_ice_lite s \<longleftrightarrow> has_flag (sd_attributes s) ''ice-lite''"

definition ice_mismatch :: "media_description \<Rightarrow> bool" where
  "ice_mismatch m \<longleftrightarrow> has_flag (md_attributes m) ''ice-mismatch''"

definition ice_pacing :: "session_description \<Rightarrow> pacing" where
  "ice_pacing s =
     unwrap_or (Option.bind (attribute_value (sd_attributes s) ''ice-pacing'') pacing_parse) PACING_DEFAULT"

section \<open>Round trips\<close>

definition candidate_ok :: "candidate \<Rightarrow> bool" where
  "candidate_ok c \<longleftrightarrow>
     is_ice_chars (cd_foundation c) 1 (Some 32) \<and> 1 \<le> cd_component c \<and> cd_component c \<le> 256 \<and>
     PRIORITY_MIN \<le> cd_priority c \<and> cd_priority c \<le> PRIORITY_MAX \<and> ip_ok (cd_address c) \<and>
     (case cd_related c of None \<Rightarrow> True | Some r \<Rightarrow> ip_ok (ra_address r)) \<and>
     list_all (\<lambda>(name, v). wordy name \<and> wordy v \<and> name \<noteq> ascii ''raddr'' \<and> name \<noteq> ascii ''rport'')
       (cd_extensions c)"

text \<open>The words of a candidate line.\<close>

definition candidate_words :: "candidate \<Rightarrow> bytes list" where
  "candidate_words c =
     [cd_foundation c, decimal (unat (cd_component c)), transport_str (cd_transport c),
      decimal (unat (cd_priority c)), show_ip (cd_address c), decimal (unat (cd_port c)),
      ascii ''typ'', candidate_type_str (cd_kind c)] @
     (case cd_related c of
        Some r \<Rightarrow> [ascii ''raddr'', show_ip (ra_address r), ascii ''rport'', decimal (unat (ra_port r))]
      | None \<Rightarrow> []) @
     concat (map (\<lambda>(name, v). [name, v]) (cd_extensions c))"

lemma join_bytes_append:
  "xs \<noteq> [] \<Longrightarrow> join_bytes s (xs @ ys) = join_bytes s xs @ concat (map (\<lambda>y. s @ y) ys)"
proof (induction xs)
  case (Cons x xs)
  have "join_bytes s (x # zs) = x @ concat (map ((@) s) zs)" for x zs
    by (induction zs arbitrary: x) simp_all
  then show ?case
    by simp
qed simp

lemma candidate_value_words: "candidate_to_value c = join_bytes [32] (candidate_words c)"
proof -
  have "concat (map (\<lambda>(name, v). [32] @ name @ [32] @ v) es) =
      concat (map (\<lambda>y. [32] @ y) (concat (map (\<lambda>(name, v). [name, v]) es)))" for es :: "(bytes \<times> bytes) list"
    by (induction es) auto
  moreover have "(@) [32 :: u8] = (#) 32"
    by (simp add: fun_eq_iff)
  ultimately show ?thesis
    unfolding candidate_to_value_def candidate_words_def
    by (subst join_bytes_append) (simp_all add: ascii_def split: option.split)
qed

lemma ice_char_plain: "is_ice_char b \<Longrightarrow> 33 \<le> b \<and> b < 0x80"
  by (auto simp: is_ice_char_def is_ascii_alphanumeric_def is_ascii_digit_def is_ascii_uppercase_def
      is_ascii_lowercase_def word_le_nat_alt word_less_nat_alt)

lemma ice_chars_wordy: "is_ice_chars w (Suc 0) mx \<Longrightarrow> wordy w"
  using ice_char_plain by (intro ascii_wordy) (auto simp: is_ice_chars_def list_all_iff)

lemma ip_wordy: "ip_ok ip \<Longrightarrow> wordy (show_ip ip)"
  using show_ip_plain show_ip_nonempty by (intro ascii_wordy) auto

lemma fixed_wordy:
  "wordy (ascii ''typ'')" "wordy (ascii ''raddr'')" "wordy (ascii ''rport'')" "wordy (transport_str t)"
  "wordy (candidate_type_str k)"
proof -
  have "wordy (ascii ''typ'') \<and> wordy (ascii ''raddr'') \<and> wordy (ascii ''rport'') \<and> wordy (ascii ''UDP'') \<and>
      wordy (ascii ''host'') \<and> wordy (ascii ''srflx'') \<and> wordy (ascii ''prflx'') \<and> wordy (ascii ''relay'')"
    by code_simp
  then show "wordy (ascii ''typ'')" "wordy (ascii ''raddr'')" "wordy (ascii ''rport'')" "wordy (transport_str t)"
    "wordy (candidate_type_str k)"
    by (simp_all add: transport_str_def candidate_type_str_def split: ice_transport.split candidate_type.split)
qed

lemma candidate_words_wordy: "candidate_ok c \<Longrightarrow> w \<in> set (candidate_words c) \<Longrightarrow> wordy w"
  by (auto simp: candidate_words_def candidate_ok_def list_all_iff fixed_wordy decimal_wordy ip_wordy
      dest: ice_chars_wordy split: option.splits)

lemma parse_u16_decimal [simp]: "parse_u16 (decimal (unat w)) = Some w"
  using unat_bounds(2) [of w] by (simp add: parse_u16_def parse_uint_decimal)

lemma priority_parse_decimal: "PRIORITY_MIN \<le> p \<Longrightarrow> p \<le> PRIORITY_MAX \<Longrightarrow> priority_parse (decimal (unat p)) = Some p"
  using unat_bounds(3) [of p] by (simp add: priority_parse_def parse_uint_decimal priority_new_def)

lemma transport_round_trip [simp]: "transport_parse (transport_str t) = Some t"
proof (cases t)
  case Udp
  have "transport_parse (transport_str Udp) = Some Udp"
    by code_simp
  then show ?thesis
    using Udp by simp
qed

lemma candidate_type_round_trip [simp]: "candidate_type_parse (candidate_type_str k) = Some k"
  by (cases k) (simp_all add: candidate_type_parse_def candidate_type_str_def ascii_def)

lemma candidate_pairs_extensions:
  "list_all (\<lambda>(name, v). name \<noteq> ascii ''raddr'' \<and> name \<noteq> ascii ''rport'') es \<Longrightarrow>
    candidate_pairs a p acc (concat (map (\<lambda>(name, v). [name, v]) es)) = Some (a, p, acc @ es)"
  by (induction es arbitrary: acc) auto

lemma candidate_pairs_related:
  assumes "case r of None \<Rightarrow> True | Some r \<Rightarrow> ip_ok (ra_address r)"
    "list_all (\<lambda>(name, v). name \<noteq> ascii ''raddr'' \<and> name \<noteq> ascii ''rport'') es"
  shows "candidate_pairs None None []
      ((case r of
          Some r \<Rightarrow> [ascii ''raddr'', show_ip (ra_address r), ascii ''rport'', decimal (unat (ra_port r))]
        | None \<Rightarrow> []) @ concat (map (\<lambda>(name, v). [name, v]) es)) =
    Some (map_option ra_address r, map_option ra_port r, es)"
proof -
  have "ascii ''rport'' \<noteq> ascii ''raddr''"
    by code_simp
  then show ?thesis
    using assms by (cases r) (simp_all add: candidate_pairs_extensions parse_show_ip)
qed

lemma related_of_options: "related_of (map_option ra_address r) (map_option ra_port r) = Some r"
  by (cases r) (simp_all add: related_of_def)

lemma candidate_written_reads:
  assumes "candidate_ok c"
  shows "candidate_parse (candidate_to_value c) = Some c"
proof -
  have "split_whitespace (candidate_to_value c) = candidate_words c"
    unfolding candidate_value_words by (rule split_join_words) (rule candidate_words_wordy [OF assms])
  moreover have "list_all (\<lambda>(name, v). name \<noteq> ascii ''raddr'' \<and> name \<noteq> ascii ''rport'') (cd_extensions c)"
    using assms by (auto simp: candidate_ok_def list_all_iff)
  ultimately show ?thesis
    using assms candidate_pairs_related [of "cd_related c" "cd_extensions c"]
    by (simp add: candidate_parse_def candidate_words_def candidate_ok_def foundation_new_def component_new_def
        priority_parse_decimal parse_show_ip related_of_options)
qed

lemma candidate_pairs_read:
  "candidate_pairs a p acc ws = Some (a', p', es) \<Longrightarrow> (\<And>w. w \<in> set ws \<Longrightarrow> wordy w) \<Longrightarrow>
    list_all (\<lambda>(name, v). wordy name \<and> wordy v \<and> name \<noteq> ascii ''raddr'' \<and> name \<noteq> ascii ''rport'') acc \<Longrightarrow>
    (\<And>ip. a = Some ip \<Longrightarrow> ip_ok ip) \<Longrightarrow>
    list_all (\<lambda>(name, v). wordy name \<and> wordy v \<and> name \<noteq> ascii ''raddr'' \<and> name \<noteq> ascii ''rport'') es \<and>
    (\<forall>ip. a' = Some ip \<longrightarrow> ip_ok ip)"
proof (induction a p acc ws rule: candidate_pairs.induct)
  case (3 address port extensions name v rest)
  have words: "\<And>w. w \<in> set rest \<Longrightarrow> wordy w" "wordy name" "wordy v"
    using "3.prems"(2) by simp_all
  consider (raddr) ip where "name = ascii ''raddr''" "parse_ip v = Some ip"
      "candidate_pairs (Some ip) port extensions rest = Some (a', p', es)"
    | (rport) n where "name \<noteq> ascii ''raddr''" "name = ascii ''rport''" "parse_u16 v = Some n"
      "candidate_pairs address (Some n) extensions rest = Some (a', p', es)"
    | (other) "name \<noteq> ascii ''raddr''" "name \<noteq> ascii ''rport''"
      "candidate_pairs address port (extensions @ [(name, v)]) rest = Some (a', p', es)"
    using "3.prems"(1) by (auto simp: bind_eq_Some_conv split: if_splits)
  then show ?case
  proof cases
    case raddr
    moreover have "ip_ok ip'" if "Some ip = Some ip'" for ip'
      using raddr(2) parse_ip_ok that by blast
    ultimately show ?thesis
      using "3.IH"(1) words(1) "3.prems"(3) by blast
  next
    case rport
    then show ?thesis
      using "3.IH"(2) words(1) "3.prems"(3,4) by blast
  next
    case other
    then show ?thesis
      using "3.IH"(3) words "3.prems"(3,4) by simp
  qed
qed auto

lemma component_new_Some: "component_new i = Some j \<longleftrightarrow> i = j \<and> 1 \<le> j \<and> j \<le> 256"
  by (auto simp: component_new_def)

lemma priority_new_Some: "priority_new i = Some j \<longleftrightarrow> i = j \<and> PRIORITY_MIN \<le> j \<and> j \<le> PRIORITY_MAX"
  by (auto simp: priority_new_def)

lemma candidate_read_ok:
  assumes "candidate_parse v = Some c"
  shows "candidate_ok c"
proof -
  have "\<exists>f cm t p a n ty k rest. split_whitespace v = f # cm # t # p # a # n # ty # k # rest"
    using assms unfolding candidate_parse_def by (simp split: list.split_asm)
  then obtain f cm t p a n ty k rest where words: "split_whitespace v = f # cm # t # p # a # n # ty # k # rest"
    by blast
  have wordy: "\<And>w. w \<in> set rest \<Longrightarrow> wordy w"
    using split_words_wordy [of _ v] words by simp
  obtain foundation component transport priority address port kind raddr rport extensions related where
    parts: "foundation_new f = Some foundation" "Option.bind (parse_u16 cm) component_new = Some component"
      "priority_parse p = Some priority" "parse_ip a = Some address"
      "candidate_pairs None None [] rest = Some (raddr, rport, extensions)" "related_of raddr rport = Some related"
      "c = \<lparr>cd_foundation = foundation, cd_component = component, cd_transport = transport,
            cd_priority = priority, cd_address = address, cd_port = port, cd_kind = kind,
            cd_related = related, cd_extensions = extensions\<rparr>"
    using assms by (auto simp: candidate_parse_def words bind_eq_Some_conv split: if_splits)
  have exts: "list_all (\<lambda>(name, v). wordy name \<and> wordy v \<and> name \<noteq> ascii ''raddr'' \<and> name \<noteq> ascii ''rport'') extensions"
    "\<forall>ip. raddr = Some ip \<longrightarrow> ip_ok ip"
    using candidate_pairs_read [OF parts(5) wordy] by simp_all
  have "case related of None \<Rightarrow> True | Some r \<Rightarrow> ip_ok (ra_address r)"
    using parts(6) exts(2) by (auto simp: related_of_def split: option.splits)
  then show ?thesis
    using parts(1-4) exts(1) parse_ip_ok
    by (auto simp: parts(7) candidate_ok_def foundation_new_def component_new_Some priority_parse_def
        priority_new_Some bind_eq_Some_conv split: if_splits)
qed

text \<open>
  C33: A candidate line that is read is written so that it reads back as the same candidate, and what
  is read is in range: a foundation of at most 32 characters, a component from 1 to 256, and a priority
  from 1 to \<open>2\<^sup>3\<^sup>1 - 1\<close>, which is what the priority of a pair is computed from.
\<close>

theorem candidate_round_trip:
  assumes "candidate_parse v = Some c"
  shows "candidate_parse (candidate_to_value c) = Some c \<and> length (cd_foundation c) \<le> 32 \<and>
    unat (cd_component c) \<in> {1..256} \<and> unat (cd_priority c) \<in> {1..2 ^ 31 - 1}"
  using candidate_written_reads [OF candidate_read_ok [OF assms]] candidate_read_ok [OF assms]
  by (simp add: candidate_ok_def is_ice_chars_def PRIORITY_MIN_def PRIORITY_MAX_def word_le_nat_alt)

definition sample_candidate :: candidate where
  "sample_candidate =
     \<lparr>cd_foundation = ascii ''1'', cd_component = 1, cd_transport = Udp, cd_priority = 2130706431,
      cd_address = V4 [192, 0, 2, 1], cd_port = 5000, cd_kind = ServerReflexive,
      cd_related = Some \<lparr>ra_address = V4 [10, 0, 0, 1], ra_port = 9\<rparr>,
      cd_extensions = [(ascii ''generation'', ascii ''0'')]\<rparr>"

lemma sample_candidate_ok: "candidate_ok sample_candidate"
  by code_simp

lemma candidate_round_trip_witness:
  "candidate_parse (candidate_to_value sample_candidate) = Some sample_candidate \<and>
    length (cd_foundation sample_candidate) \<le> 32 \<and>
    unat (cd_component sample_candidate) \<in> {1..256} \<and> unat (cd_priority sample_candidate) \<in> {1..2 ^ 31 - 1}"
  using candidate_round_trip [OF candidate_written_reads [OF sample_candidate_ok]] .

lemma credentials_bounds:
  "credentials_received u p = Some c \<Longrightarrow>
    length (cr_ufrag c) \<in> {4..256} \<and> length (cr_pwd c) \<in> {22..256} \<and>
    list_all is_ice_char (cr_ufrag c) \<and> list_all is_ice_char (cr_pwd c)"
  by (auto simp: credentials_received_def credentials_checked_def is_ice_chars_def split: if_splits)

text \<open>
  A stream that names only its fragment is given the session's fragment and password, not the
  session's password for its own fragment.
\<close>

lemma credentials_half_named:
  "attribute_value (md_attributes m) ''ice-pwd'' = None \<Longrightarrow>
    ice_credentials_for s m = ice_credentials_at (sd_attributes s)"
  by (simp add: ice_credentials_for_def ice_credentials_at_def split: option.splits)

end
