(* ===== verification/Stun_Message.thy ===== *)
theory Stun_Message
  imports Sdp_Ice
begin

text \<open>
  STUN as ICE uses it (\<open>sipx-media/src/ice/stun.rs\<close>), with the header test and the keep-alive client
  of \<open>sipx-transport/src/stun.rs\<close>. HMAC-SHA1 is a parameter, as the crate that computes it is not
  part of the program; the CRC is the program's own. A message reads back as it was written, and
  what a check says is what its integrity value covers.
\<close>

section \<open>Addresses and numbers\<close>

record socket_addr =
  sk_ip :: ip_addr
  sk_port :: u16

definition read_u16 :: "bytes \<Rightarrow> nat \<Rightarrow> u16 option" where
  "read_u16 bs at =
     (case get_range bs at (at + 2) of Some [a, b] \<Rightarrow> Some (from_be16 a b) | _ \<Rightarrow> None)"

definition stun_read_u32 :: "bytes \<Rightarrow> nat \<Rightarrow> u32 option" where
  "stun_read_u32 bs at =
     (case get_range bs at (at + 4) of Some [a, b, c, d] \<Rightarrow> Some (from_be32 a b c d) | _ \<Rightarrow> None)"

text \<open>\<open>Ipv6Addr::octets\<close> and \<open>Ipv6Addr::from\<close>.\<close>

definition segment_octets :: "u16 list \<Rightarrow> bytes" where
  "segment_octets segs = concat (map to_be16 segs)"

fun octet_segments :: "bytes \<Rightarrow> u16 list" where
  "octet_segments (a # b # rest) = from_be16 a b # octet_segments rest"
| "octet_segments _ = []"

section \<open>The header\<close>

definition MAGIC_COOKIE :: u32 where
  "MAGIC_COOKIE = 0x2112a442"

definition STUN_HEADER_LEN :: nat where
  "STUN_HEADER_LEN = 20"

definition is_stun :: "bytes \<Rightarrow> bool" where
  "is_stun d \<longleftrightarrow>
     (case get_at d 0 of
        None \<Rightarrow> False
      | Some first \<Rightarrow> first AND 0xc0 = 0 \<and> STUN_HEADER_LEN \<le> length d \<and> stun_read_u32 d 4 = Some MAGIC_COOKIE)"

datatype stun_error =
    NotStun
  | Stun_Truncated
  | UnsupportedMethod u16
  | MalformedAttribute u16
  | ReservedAttribute u16
  | Fingerprint_Mismatch
  | TooLong

datatype stun_class = Class_Request | Class_Indication | Class_Success | Class_Error

definition class_bits :: "stun_class \<Rightarrow> u16" where
  "class_bits c = (case c of Class_Request \<Rightarrow> 0 | Class_Indication \<Rightarrow> 1 | Class_Success \<Rightarrow> 2 | Class_Error \<Rightarrow> 3)"

definition class_from_bits :: "u16 \<Rightarrow> stun_class" where
  "class_from_bits bits =
     (if bits = 1 then Class_Indication else if bits = 2 then Class_Success
      else if bits = 3 then Class_Error else Class_Request)"

definition METHOD_BINDING :: u16 where
  "METHOD_BINDING = 1"

definition message_type :: "stun_class \<Rightarrow> u16 \<Rightarrow> u16" where
  "message_type c m =
     (m AND 0x000f) OR push_bit 1 (m AND 0x0070) OR push_bit 2 (m AND 0x0f80)
     OR push_bit 4 (class_bits c AND 1) OR push_bit 7 (class_bits c AND 2)"

definition split_type :: "u16 \<Rightarrow> stun_class \<times> u16" where
  "split_type raw =
     (class_from_bits (drop_bit 7 (raw AND 0x0100) OR drop_bit 4 (raw AND 0x0010)),
      (raw AND 0x000f) OR drop_bit 1 (raw AND 0x00e0) OR drop_bit 2 (raw AND 0x3e00))"

section \<open>Attributes\<close>

definition ATTR_USERNAME :: u16 where "ATTR_USERNAME = 0x0006"

definition ATTR_MESSAGE_INTEGRITY :: u16 where "ATTR_MESSAGE_INTEGRITY = 0x0008"

definition ATTR_ERROR_CODE :: u16 where "ATTR_ERROR_CODE = 0x0009"

definition ATTR_XOR_MAPPED_ADDRESS :: u16 where "ATTR_XOR_MAPPED_ADDRESS = 0x0020"

definition ATTR_PRIORITY :: u16 where "ATTR_PRIORITY = 0x0024"

definition ATTR_USE_CANDIDATE :: u16 where "ATTR_USE_CANDIDATE = 0x0025"

definition ATTR_SOFTWARE :: u16 where "ATTR_SOFTWARE = 0x8022"

definition ATTR_FINGERPRINT :: u16 where "ATTR_FINGERPRINT = 0x8028"

definition ATTR_ICE_CONTROLLED :: u16 where "ATTR_ICE_CONTROLLED = 0x8029"

definition ATTR_ICE_CONTROLLING :: u16 where "ATTR_ICE_CONTROLLING = 0x802a"

definition PORT_KEY :: u16 where "PORT_KEY = 0x2112"

definition FINGERPRINT_XOR :: u32 where "FINGERPRINT_XOR = 0x5354554e"

definition PAD :: u8 where "PAD = 0x20"

definition ROLE_CONFLICT :: u16 where "ROLE_CONFLICT = 487"

definition error_code_ok :: "u16 \<Rightarrow> bool" where
  "error_code_ok c \<longleftrightarrow> 300 \<le> c \<and> c \<le> 699"

datatype stun_attribute =
    Username bytes
  | Priority priority
  | UseCandidate
  | IceControlled u64
  | IceControlling u64
  | ErrorCode u16 bytes
  | XorMappedAddress socket_addr
  | Software bytes
  | Unknown u16 bytes

definition stun_text :: "bytes \<Rightarrow> u16 \<Rightarrow> (stun_error, bytes) result" where
  "stun_text v kind = (if utf8_valid v then Inr v else Inl (MalformedAttribute kind))"

definition fixed_u32 :: "bytes \<Rightarrow> u16 \<Rightarrow> (stun_error, u32) result" where
  "fixed_u32 v kind =
     (case v of [a, b, c, d] \<Rightarrow> Inr (from_be32 a b c d) | _ \<Rightarrow> Inl (MalformedAttribute kind))"

definition fixed_u64 :: "bytes \<Rightarrow> u16 \<Rightarrow> (stun_error, u64) result" where
  "fixed_u64 v kind =
     (case v of
        [a, b, c, d, e, f, g, h] \<Rightarrow> Inr (from_be64 (from_be32 a b c d) (from_be32 e f g h))
      | _ \<Rightarrow> Inl (MalformedAttribute kind))"

type_synonym transaction_id = bytes

definition xor_key :: "transaction_id \<Rightarrow> bytes" where
  "xor_key t = take 16 (to_be32 MAGIC_COOKIE @ t)"

definition encode_xor_mapped :: "socket_addr \<Rightarrow> transaction_id \<Rightarrow> bytes" where
  "encode_xor_mapped a t =
     0 # (case sk_ip a of
        V4 os \<Rightarrow> 1 # to_be16 (sk_port a XOR PORT_KEY) @
          (case os of [w, x, y, z] \<Rightarrow> to_be32 (from_be32 w x y z XOR MAGIC_COOKIE) | _ \<Rightarrow> [])
      | V6 segs \<Rightarrow> 2 # to_be16 (sk_port a XOR PORT_KEY) @
          map (\<lambda>(x, k). x XOR k) (zip (segment_octets segs) (xor_key t)))"

definition decode_xor_mapped :: "bytes \<Rightarrow> transaction_id \<Rightarrow> socket_addr option" where
  "decode_xor_mapped v t =
     Option.bind (get_at v 1) (\<lambda>family.
     Option.bind (read_u16 v 2) (\<lambda>raw_port.
       let port = raw_port XOR PORT_KEY in
         if family = 1 then
           Option.bind (stun_read_u32 v 4) (\<lambda>raw.
             Some \<lparr>sk_ip = V4 (to_be32 (raw XOR MAGIC_COOKIE)), sk_port = port\<rparr>)
         else if family = 2 then
           Option.bind (get_range v 4 20) (\<lambda>raw.
             Some \<lparr>sk_ip = V6 (octet_segments (map (\<lambda>(x, k). x XOR k) (zip raw (xor_key t)))), sk_port = port\<rparr>)
         else None))"

definition encode_error_code :: "u16 \<Rightarrow> bytes \<Rightarrow> (stun_error, bytes) result" where
  "encode_error_code code reason =
     (if \<not> error_code_ok code then Inl (MalformedAttribute ATTR_ERROR_CODE)
      else Inr ([0, 0, of_nat (unat code div 100), of_nat (unat code mod 100)] @ reason))"

definition decode_error_code :: "bytes \<Rightarrow> (stun_error, stun_attribute) result" where
  "decode_error_code v =
     bind_res (ok_or (MalformedAttribute ATTR_ERROR_CODE) (get_at v 2)) (\<lambda>class.
     bind_res (ok_or (MalformedAttribute ATTR_ERROR_CODE) (get_at v 3)) (\<lambda>number.
       let code = unat (class AND 7) * 100 + unat number in
         if code < 65536 \<and> error_code_ok (of_nat code) then
           bind_res (stun_text (drop 4 v) ATTR_ERROR_CODE) (\<lambda>reason.
             Inr (ErrorCode (of_nat code) reason))
         else Inl (MalformedAttribute ATTR_ERROR_CODE)))"

definition stun_attribute_decode :: "u16 \<Rightarrow> bytes \<Rightarrow> transaction_id \<Rightarrow> (stun_error, stun_attribute) result" where
  "stun_attribute_decode kind v t =
     (if kind = ATTR_USERNAME then bind_res (stun_text v kind) (\<lambda>s. Inr (Username s))
      else if kind = ATTR_SOFTWARE then bind_res (stun_text v kind) (\<lambda>s. Inr (Software s))
      else if kind = ATTR_PRIORITY then
        bind_res (fixed_u32 v kind) (\<lambda>raw.
        bind_res (ok_or (MalformedAttribute kind) (priority_new raw)) (\<lambda>p. Inr (Priority p)))
      else if kind = ATTR_USE_CANDIDATE then
        (if v \<noteq> [] then Inl (MalformedAttribute kind) else Inr UseCandidate)
      else if kind = ATTR_ICE_CONTROLLED then bind_res (fixed_u64 v kind) (\<lambda>x. Inr (IceControlled x))
      else if kind = ATTR_ICE_CONTROLLING then bind_res (fixed_u64 v kind) (\<lambda>x. Inr (IceControlling x))
      else if kind = ATTR_ERROR_CODE then decode_error_code v
      else if kind = ATTR_XOR_MAPPED_ADDRESS then
        bind_res (ok_or (MalformedAttribute kind) (decode_xor_mapped v t)) (\<lambda>a. Inr (XorMappedAddress a))
      else Inr (Unknown kind v))"

definition push_attribute :: "bytes \<Rightarrow> u16 \<Rightarrow> bytes \<Rightarrow> (stun_error, bytes) result" where
  "push_attribute out kind v =
     (if 65536 \<le> length v then Inl TooLong
      else Inr (out @ to_be16 kind @ to_be16 (of_nat (length v)) @ v @
        replicate ((4 - length v mod 4) mod 4) PAD))"

definition attribute_content :: "stun_attribute \<Rightarrow> transaction_id \<Rightarrow> (stun_error, u16 \<times> bytes) result" where
  "attribute_content a t =
     (case a of
        Username name \<Rightarrow> Inr (ATTR_USERNAME, name)
      | Priority p \<Rightarrow> Inr (ATTR_PRIORITY, to_be32 p)
      | UseCandidate \<Rightarrow> Inr (ATTR_USE_CANDIDATE, [])
      | IceControlled x \<Rightarrow> Inr (ATTR_ICE_CONTROLLED, to_be64 x)
      | IceControlling x \<Rightarrow> Inr (ATTR_ICE_CONTROLLING, to_be64 x)
      | ErrorCode code reason \<Rightarrow> bind_res (encode_error_code code reason) (\<lambda>v. Inr (ATTR_ERROR_CODE, v))
      | XorMappedAddress addr \<Rightarrow> Inr (ATTR_XOR_MAPPED_ADDRESS, encode_xor_mapped addr t)
      | Software text \<Rightarrow> Inr (ATTR_SOFTWARE, text)
      | Unknown kind v \<Rightarrow>
          if kind = ATTR_MESSAGE_INTEGRITY \<or> kind = ATTR_FINGERPRINT then Inl (ReservedAttribute kind)
          else Inr (kind, v))"

definition encode_into :: "stun_attribute \<Rightarrow> bytes \<Rightarrow> transaction_id \<Rightarrow> (stun_error, bytes) result" where
  "encode_into a out t = bind_res (attribute_content a t) (\<lambda>(kind, v). push_attribute out kind v)"

section \<open>Integrity\<close>

type_synonym hmac = "bytes \<Rightarrow> bytes \<Rightarrow> bytes"

definition hmac_sha1 :: "hmac \<Rightarrow> bytes \<Rightarrow> bytes \<Rightarrow> bytes" where
  "hmac_sha1 mac key data = take 20 (mac key data @ replicate 20 0)"

definition crc_bit :: "u32 \<Rightarrow> u32" where
  "crc_bit crc = (if crc AND 1 = 1 then drop_bit 1 crc XOR 0xedb88320 else drop_bit 1 crc)"

definition crc32 :: "bytes \<Rightarrow> u32" where
  "crc32 data = NOT (foldl (\<lambda>crc b. (crc_bit ^^ 8) (crc XOR ucast b)) 0xffffffff data)"

definition set_length :: "bytes \<Rightarrow> nat \<Rightarrow> (stun_error, bytes) result" where
  "set_length out extra =
     (if length out < STUN_HEADER_LEN then Inl TooLong
      else let body = length out - STUN_HEADER_LEN + extra in
        if 65536 \<le> body then Inl TooLong
        else Inr (take 2 out @ to_be16 (of_nat body) @ drop 4 out))"

definition covered_prefix :: "bytes \<Rightarrow> nat \<Rightarrow> nat \<Rightarrow> (stun_error, bytes) result" where
  "covered_prefix d offset attr_len =
     (if length d < STUN_HEADER_LEN + offset then Inl Stun_Truncated
      else let prefix = take (STUN_HEADER_LEN + offset) d; body = offset + attr_len in
        if 65536 \<le> body then Inl Stun_Truncated
        else Inr (take 2 prefix @ to_be16 (of_nat body) @ drop 4 prefix))"

section \<open>Messages\<close>

record received_integrity =
  ri_tag :: bytes
  ri_covered :: bytes

record stun_message =
  sm_class :: stun_class
  sm_transaction :: transaction_id
  sm_attributes :: "stun_attribute list"
  sm_integrity :: "received_integrity option"
  sm_fingerprint :: bool

definition stun_new :: "stun_class \<Rightarrow> transaction_id \<Rightarrow> stun_message" where
  "stun_new c t =
     \<lparr>sm_class = c, sm_transaction = t, sm_attributes = [], sm_integrity = None, sm_fingerprint = False\<rparr>"

definition stun_with :: "stun_message \<Rightarrow> stun_attribute \<Rightarrow> stun_message" where
  "stun_with m a = m\<lparr>sm_attributes := sm_attributes m @ [a]\<rparr>"

fun encode_attributes :: "stun_attribute list \<Rightarrow> bytes \<Rightarrow> transaction_id \<Rightarrow> (stun_error, bytes) result" where
  "encode_attributes [] out t = Inr out"
| "encode_attributes (a # rest) out t = bind_res (encode_into a out t) (\<lambda>out. encode_attributes rest out t)"

definition stun_encode :: "hmac \<Rightarrow> stun_message \<Rightarrow> bytes option \<Rightarrow> (stun_error, bytes) result" where
  "stun_encode mac m key =
     bind_res (encode_attributes (sm_attributes m)
       (to_be16 (message_type (sm_class m) METHOD_BINDING) @ [0, 0] @ to_be32 MAGIC_COOKIE @ sm_transaction m)
       (sm_transaction m)) (\<lambda>out.
     bind_res (case key of
         None \<Rightarrow> Inr out
       | Some k \<Rightarrow>
           bind_res (set_length out 24) (\<lambda>out.
             push_attribute out ATTR_MESSAGE_INTEGRITY (hmac_sha1 mac k out))) (\<lambda>out.
     bind_res (set_length out 8) (\<lambda>out.
       push_attribute out ATTR_FINGERPRINT (to_be32 (crc32 out XOR FINGERPRINT_XOR)))))"

function decode_attributes ::
  "bytes \<Rightarrow> bytes \<Rightarrow> nat \<Rightarrow> stun_message \<Rightarrow> (stun_error, stun_message) result" where
  "decode_attributes d body offset m =
     (if length body \<le> offset then Inr m
      else
        case (read_u16 body offset, read_u16 body (offset + 2)) of
          (Some kind, Some len) \<Rightarrow>
            (case get_range body (offset + 4) (offset + 4 + unat len) of
               None \<Rightarrow> Inl Stun_Truncated
             | Some v \<Rightarrow>
                 let after = offset + 4 + (unat len + 3) div 4 * 4 in
                   if kind = ATTR_MESSAGE_INTEGRITY \<and> sm_integrity m = None then
                     (if length v \<noteq> 20 then Inl (MalformedAttribute kind)
                      else bind_res (covered_prefix d offset 24) (\<lambda>covered.
                        decode_attributes d body after
                          (m\<lparr>sm_integrity := Some \<lparr>ri_tag = v, ri_covered = covered\<rparr>\<rparr>)))
                   else if kind = ATTR_FINGERPRINT then
                     (if length v \<noteq> 4 then Inl (MalformedAttribute kind)
                      else bind_res (ok_or (MalformedAttribute kind) (stun_read_u32 v 0)) (\<lambda>stated.
                        bind_res (covered_prefix d offset 8) (\<lambda>prefix.
                          if crc32 prefix XOR FINGERPRINT_XOR \<noteq> stated then Inl Fingerprint_Mismatch
                          else Inr (m\<lparr>sm_fingerprint := True\<rparr>))))
                   else if sm_integrity m \<noteq> None then decode_attributes d body after m
                   else bind_res (stun_attribute_decode kind v (sm_transaction m)) (\<lambda>a.
                     decode_attributes d body after (m\<lparr>sm_attributes := sm_attributes m @ [a]\<rparr>)))
        | _ \<Rightarrow> Inl Stun_Truncated)"
  by pat_completeness auto
termination
  by (relation "measure (\<lambda>(d, body, offset, m). length body - offset)") auto

declare decode_attributes.simps [simp del]

definition stun_decode :: "bytes \<Rightarrow> (stun_error, stun_message) result" where
  "stun_decode d =
     (if \<not> is_stun d then Inl NotStun
      else
        bind_res (ok_or Stun_Truncated (read_u16 d 0)) (\<lambda>raw.
          let (class, method) = split_type raw in
            if method \<noteq> METHOD_BINDING then Inl (UnsupportedMethod method)
            else
              bind_res (ok_or Stun_Truncated (get_range d 8 STUN_HEADER_LEN)) (\<lambda>t.
              bind_res (ok_or Stun_Truncated (read_u16 d 2)) (\<lambda>stated.
              bind_res (ok_or Stun_Truncated (get_range d STUN_HEADER_LEN (STUN_HEADER_LEN + unat stated))) (\<lambda>body.
                decode_attributes d body 0 (stun_new class t))))))"

definition verify_integrity :: "hmac \<Rightarrow> stun_message \<Rightarrow> bytes \<Rightarrow> bool" where
  "verify_integrity mac m key \<longleftrightarrow>
     (case sm_integrity m of None \<Rightarrow> False | Some i \<Rightarrow> hmac_sha1 mac key (ri_covered i) = ri_tag i)"

section \<open>What a message says\<close>

definition stun_username :: "stun_message \<Rightarrow> bytes option" where
  "stun_username m = find_map (\<lambda>a. case a of Username n \<Rightarrow> Some n | _ \<Rightarrow> None) (sm_attributes m)"

definition stun_priority :: "stun_message \<Rightarrow> priority option" where
  "stun_priority m = find_map (\<lambda>a. case a of Priority p \<Rightarrow> Some p | _ \<Rightarrow> None) (sm_attributes m)"

definition use_candidate :: "stun_message \<Rightarrow> bool" where
  "use_candidate m \<longleftrightarrow> list_ex (\<lambda>a. a = UseCandidate) (sm_attributes m)"

datatype role_attribute = Attr_Controlling u64 bool | Attr_Controlled u64

definition role_tiebreaker :: "role_attribute \<Rightarrow> u64" where
  "role_tiebreaker r = (case r of Attr_Controlling t _ \<Rightarrow> t | Attr_Controlled t \<Rightarrow> t)"

definition role_attribute_of :: "role_attribute \<Rightarrow> stun_attribute" where
  "role_attribute_of r = (case r of Attr_Controlling t _ \<Rightarrow> IceControlling t | Attr_Controlled t \<Rightarrow> IceControlled t)"

definition stun_role :: "stun_message \<Rightarrow> role_attribute option" where
  "stun_role m =
     find_map (\<lambda>a. case a of
         IceControlling t \<Rightarrow> Some (Attr_Controlling t (use_candidate m))
       | IceControlled t \<Rightarrow> Some (Attr_Controlled t)
       | _ \<Rightarrow> None) (sm_attributes m)"

definition stun_error_code :: "stun_message \<Rightarrow> u16 option" where
  "stun_error_code m = find_map (\<lambda>a. case a of ErrorCode c _ \<Rightarrow> Some c | _ \<Rightarrow> None) (sm_attributes m)"

definition stun_mapped_address :: "stun_message \<Rightarrow> socket_addr option" where
  "stun_mapped_address m = find_map (\<lambda>a. case a of XorMappedAddress x \<Rightarrow> Some x | _ \<Rightarrow> None) (sm_attributes m)"

section \<open>The messages ICE sends\<close>

record peering =
  pe_local :: credentials
  pe_remote :: credentials

definition outbound_username :: "peering \<Rightarrow> bytes" where
  "outbound_username p = cr_ufrag (pe_remote p) @ ascii '':'' @ cr_ufrag (pe_local p)"

definition outbound_key :: "peering \<Rightarrow> bytes" where
  "outbound_key p = cr_pwd (pe_remote p)"

definition inbound_username :: "peering \<Rightarrow> bytes" where
  "inbound_username p = cr_ufrag (pe_local p) @ ascii '':'' @ cr_ufrag (pe_remote p)"

definition inbound_key :: "peering \<Rightarrow> bytes" where
  "inbound_key p = cr_pwd (pe_local p)"

definition connectivity_check ::
  "hmac \<Rightarrow> transaction_id \<Rightarrow> peering \<Rightarrow> priority \<Rightarrow> role_attribute \<Rightarrow> (stun_error, bytes) result" where
  "connectivity_check mac t p prio r =
     (let m = stun_with (stun_with (stun_with (stun_new Class_Request t) (Priority prio))
                (role_attribute_of r)) (Username (outbound_username p));
          m = (case r of Attr_Controlling _ True \<Rightarrow> stun_with m UseCandidate | _ \<Rightarrow> m) in
        stun_encode mac m (Some (outbound_key p)))"

definition check_success :: "hmac \<Rightarrow> transaction_id \<Rightarrow> peering \<Rightarrow> socket_addr \<Rightarrow> (stun_error, bytes) result" where
  "check_success mac t p mapped =
     stun_encode mac (stun_with (stun_new Class_Success t) (XorMappedAddress mapped)) (Some (inbound_key p))"

definition role_conflict :: "hmac \<Rightarrow> transaction_id \<Rightarrow> peering \<Rightarrow> (stun_error, bytes) result" where
  "role_conflict mac t p =
     stun_encode mac (stun_with (stun_new Class_Error t) (ErrorCode ROLE_CONFLICT (ascii ''Role Conflict'')))
       (Some (inbound_key p))"

definition stun_keepalive :: "hmac \<Rightarrow> transaction_id \<Rightarrow> (stun_error, bytes) result" where
  "stun_keepalive mac t = stun_encode mac (stun_new Class_Indication t) None"

section \<open>Round trips of the parts\<close>

lemma split_message_type: "split_type (message_type c METHOD_BINDING) = (c, METHOD_BINDING)"
  by (cases c) (simp_all add: split_type_def message_type_def class_bits_def class_from_bits_def METHOD_BINDING_def)

lemma length_segment_octets: "length (segment_octets segs) = 2 * length segs"
  by (induction segs) (simp_all add: segment_octets_def)

lemma octet_segments_octets [simp]: "octet_segments (segment_octets segs) = segs"
  by (induction segs) (simp_all add: segment_octets_def to_be16_def)

lemma xor_zip_twice:
  "length xs \<le> length ks \<Longrightarrow>
    map (\<lambda>(x, k). x XOR k) (zip (map (\<lambda>(x, k). x XOR k) (zip xs ks)) ks) = (xs :: bytes)"
proof (induction xs arbitrary: ks)
  case (Cons x xs)
  then show ?case
    by (cases ks) (simp_all add: xor.assoc)
qed simp

lemma get_range_drop: "length xs = a \<Longrightarrow> b = a + length ys \<Longrightarrow> get_range (xs @ ys @ zs) a b = Some ys"
  by (simp add: get_range_def)

lemma read_u16_at: "length xs = n \<Longrightarrow> read_u16 (xs @ to_be16 w @ ys) n = Some w"
  using get_range_drop [of xs n "n + 2" "to_be16 w" ys] by (simp add: read_u16_def to_be16_def)

lemma stun_read_u32_at: "length xs = n \<Longrightarrow> stun_read_u32 (xs @ to_be32 w @ ys) n = Some w"
  using get_range_drop [of xs n "n + 4" "to_be32 w" ys] by (simp add: stun_read_u32_def to_be32_def)

lemma xor_mapped_round_trip:
  assumes "ip_ok (sk_ip a)" "length t = 12"
  shows "decode_xor_mapped (encode_xor_mapped a t) t = Some a"
proof (cases "sk_ip a")
  case (V4 os)
  then obtain w x y z where os: "os = [w, x, y, z]"
    using assms(1) by (auto simp: ip_ok_def length_Suc_conv numeral_eq_Suc)
  have "read_u16 (encode_xor_mapped a t) 2 = Some (sk_port a XOR PORT_KEY)"
    using read_u16_at [of "[0, 1]" 2] by (simp add: encode_xor_mapped_def V4)
  moreover have "stun_read_u32 (encode_xor_mapped a t) 4 = Some (from_be32 w x y z XOR MAGIC_COOKIE)"
    using stun_read_u32_at [of "[0, 1] @ to_be16 (sk_port a XOR PORT_KEY)" 4 _ "[]"]
    by (simp add: encode_xor_mapped_def V4 os)
  ultimately show ?thesis
    using V4 os by (cases a) (simp add: decode_xor_mapped_def encode_xor_mapped_def get_at_def xor.assoc)
next
  case (V6 segs)
  have len: "length segs = 8"
    using assms(1) V6 by (simp add: ip_ok_def)
  define body where "body = map (\<lambda>(x, k). x XOR k) (zip (segment_octets segs) (xor_key t))"
  have key: "length (xor_key t) = 16"
    using assms(2) by (simp add: xor_key_def)
  then have "length body = 16"
    using len by (simp add: body_def length_segment_octets)
  then have "get_range (encode_xor_mapped a t) 4 20 = Some body"
    using get_range_drop [of "[0, 2] @ to_be16 (sk_port a XOR PORT_KEY)" 4 20 body "[]"]
    by (simp add: encode_xor_mapped_def V6 body_def)
  moreover have "map (\<lambda>(x, k). x XOR k) (zip body (xor_key t)) = segment_octets segs"
    unfolding body_def using len key by (intro xor_zip_twice) (simp add: length_segment_octets)
  moreover have "read_u16 (encode_xor_mapped a t) 2 = Some (sk_port a XOR PORT_KEY)"
    using read_u16_at [of "[0, 2]" 2] by (simp add: encode_xor_mapped_def V6)
  ultimately show ?thesis
    using V6 by (cases a) (simp add: decode_xor_mapped_def encode_xor_mapped_def get_at_def xor.assoc)
qed

lemma error_code_round_trip:
  assumes "error_code_ok code" "utf8_valid reason"
  shows "\<exists>v. encode_error_code code reason = Inr v \<and> decode_error_code v = Inr (ErrorCode code reason)"
proof -
  have b: "300 \<le> unat code" "unat code \<le> 699"
    using assms(1) by (simp_all add: error_code_ok_def word_le_nat_alt)
  have h: "unat (of_nat (unat code div 100) AND 7 :: u8) = unat code div 100"
    using b unat_and_mask [of "of_nat (unat code div 100) :: u8" 3] by (simp add: mask_numeral)
  have n: "unat (of_nat (unat code mod 100) :: u8) = unat code mod 100"
    by simp
  have "decode_error_code ([0, 0, A, B] @ reason) = Inr (ErrorCode code reason)"
    if "unat (A AND 7) * 100 + unat B = unat code" for A B
    using assms b that by (simp add: decode_error_code_def get_at_def stun_text_def Let_def del: of_nat_add of_nat_mult)
  from this [of "of_nat (unat code div 100)" "of_nat (unat code mod 100)"] h n
  have "decode_error_code ([0, 0, of_nat (unat code div 100), of_nat (unat code mod 100)] @ reason) =
      Inr (ErrorCode code reason)"
    by simp
  then show ?thesis
    using assms(1) by (simp add: encode_error_code_def)
qed

text \<open>The attributes that can be written and read back.\<close>

definition known_kinds :: "u16 set" where
  "known_kinds = {ATTR_USERNAME, ATTR_SOFTWARE, ATTR_PRIORITY, ATTR_USE_CANDIDATE, ATTR_ICE_CONTROLLED,
     ATTR_ICE_CONTROLLING, ATTR_ERROR_CODE, ATTR_XOR_MAPPED_ADDRESS, ATTR_MESSAGE_INTEGRITY, ATTR_FINGERPRINT}"

definition attribute_ok :: "stun_attribute \<Rightarrow> bool" where
  "attribute_ok a \<longleftrightarrow>
     (case a of
        Username s \<Rightarrow> utf8_valid s
      | Software s \<Rightarrow> utf8_valid s
      | Priority p \<Rightarrow> PRIORITY_MIN \<le> p \<and> p \<le> PRIORITY_MAX
      | ErrorCode c s \<Rightarrow> error_code_ok c \<and> utf8_valid s
      | XorMappedAddress x \<Rightarrow> ip_ok (sk_ip x)
      | Unknown k _ \<Rightarrow> k \<notin> known_kinds
      | _ \<Rightarrow> True)"

lemmas attribute_kinds = ATTR_USERNAME_def ATTR_SOFTWARE_def ATTR_PRIORITY_def ATTR_USE_CANDIDATE_def
  ATTR_ICE_CONTROLLED_def ATTR_ICE_CONTROLLING_def ATTR_ERROR_CODE_def ATTR_XOR_MAPPED_ADDRESS_def
  ATTR_MESSAGE_INTEGRITY_def ATTR_FINGERPRINT_def

lemma fixed_u32_be [simp]: "fixed_u32 (to_be32 w) k = Inr w"
  by (simp add: fixed_u32_def to_be32_def)

lemma fixed_u64_be [simp]: "fixed_u64 (to_be64 w) k = Inr w"
proof -
  have "to_be64 w = to_be32 (ucast (drop_bit 32 w)) @ to_be32 (ucast w)"
    by (simp add: to_be64_def)
  then show ?thesis
    by (simp add: fixed_u64_def to_be32_def)
qed

lemma attribute_round_trip:
  assumes "attribute_ok a" "length t = 12" "attribute_content a t = Inr (kind, v)"
  shows "stun_attribute_decode kind v t = Inr a \<and> kind \<noteq> ATTR_MESSAGE_INTEGRITY \<and> kind \<noteq> ATTR_FINGERPRINT"
proof (cases a)
  case (ErrorCode c s)
  then show ?thesis
    using assms error_code_round_trip [of c s]
    by (auto simp: attribute_ok_def attribute_content_def stun_attribute_decode_def bind_res_Inr_iff attribute_kinds)
next
  case (XorMappedAddress x)
  then show ?thesis
    using assms xor_mapped_round_trip [of x t]
    by (auto simp: attribute_ok_def attribute_content_def stun_attribute_decode_def attribute_kinds)
qed (use assms in \<open>auto simp: attribute_ok_def attribute_content_def stun_attribute_decode_def attribute_kinds
    stun_text_def priority_new_def known_kinds_def split: if_splits\<close>)

section \<open>Round trip of a message\<close>

definition attribute_bytes :: "u16 \<times> bytes \<Rightarrow> bytes" where
  "attribute_bytes c =
     to_be16 (fst c) @ to_be16 (of_nat (length (snd c))) @ snd c @ replicate ((4 - length (snd c) mod 4) mod 4) PAD"

lemma push_attribute_Inr:
  "push_attribute out kind v = Inr out' \<longleftrightarrow> length v < 65536 \<and> out' = out @ attribute_bytes (kind, v)"
  by (auto simp: push_attribute_def attribute_bytes_def)

lemma padded_length: "n + (4 - n mod 4) mod 4 = (n + 3) div 4 * (4 :: nat)"
proof -
  have split: "4 * q + r + (4 - r) mod 4 = (if r = 0 then q else q + 1) * 4" if small: "r < 4" for q r :: nat
  proof -
    consider "r = 0" | "r = 1" | "r = 2" | "r = 3"
      using small by linarith
    then show ?thesis
      by cases simp_all
  qed
  have "(n + 3) div 4 = (if n mod 4 = 0 then n div 4 else n div 4 + 1)"
    by presburger
  then show ?thesis
    using split [of "n mod 4" "n div 4"] by simp
qed

lemma length_attribute_bytes: "length (attribute_bytes (k, v)) = 4 + (length v + 3) div 4 * 4"
  using padded_length [of "length v"] by (simp add: attribute_bytes_def)

lemma encode_attributes_Inr:
  "encode_attributes as out t = Inr out' \<Longrightarrow>
    \<exists>cs. out' = out @ concat (map attribute_bytes cs) \<and>
      list_all2 (\<lambda>a c. attribute_content a t = Inr c \<and> length (snd c) < 65536) as cs"
proof (induction as arbitrary: out)
  case (Cons a as)
  then obtain k v where c: "attribute_content a t = Inr (k, v)" "length v < 65536"
    "encode_attributes as (out @ attribute_bytes (k, v)) t = Inr out'"
    by (auto simp: bind_res_Inr_iff encode_into_def push_attribute_Inr)
  obtain cs where "out' = (out @ attribute_bytes (k, v)) @ concat (map attribute_bytes cs)"
    "list_all2 (\<lambda>a c. attribute_content a t = Inr c \<and> length (snd c) < 65536) as cs"
    using Cons.IH [OF c(3)] by blast
  then show ?case
    using c(1,2) by (intro exI [of _ "(k, v) # cs"]) simp
qed simp

lemma decode_attributes_at:
  assumes "\<not> length body \<le> offset" "read_u16 body offset = Some kind" "read_u16 body (offset + 2) = Some len"
    "get_range body (offset + 4) (offset + 4 + unat len) = Some v" "offset + 4 + (unat len + 3) div 4 * 4 = after"
  shows "decode_attributes d body offset m =
    (if kind = ATTR_MESSAGE_INTEGRITY \<and> sm_integrity m = None then
       (if length v \<noteq> 20 then Inl (MalformedAttribute kind)
        else bind_res (covered_prefix d offset 24) (\<lambda>covered.
          decode_attributes d body after (m\<lparr>sm_integrity := Some \<lparr>ri_tag = v, ri_covered = covered\<rparr>\<rparr>)))
     else if kind = ATTR_FINGERPRINT then
       (if length v \<noteq> 4 then Inl (MalformedAttribute kind)
        else bind_res (ok_or (MalformedAttribute kind) (stun_read_u32 v 0)) (\<lambda>stated.
          bind_res (covered_prefix d offset 8) (\<lambda>prefix.
            if crc32 prefix XOR FINGERPRINT_XOR \<noteq> stated then Inl Fingerprint_Mismatch
            else Inr (m\<lparr>sm_fingerprint := True\<rparr>))))
     else if sm_integrity m \<noteq> None then decode_attributes d body after m
     else bind_res (stun_attribute_decode kind v (sm_transaction m)) (\<lambda>a.
       decode_attributes d body after (m\<lparr>sm_attributes := sm_attributes m @ [a]\<rparr>)))"
  by (subst decode_attributes.simps) (simp only: assms if_False option.case prod.case Let_def)

lemma decode_step:
  assumes "length v < 65536"
  shows "decode_attributes d (pre @ attribute_bytes (kind, v) @ post) (length pre) m =
    (if kind = ATTR_MESSAGE_INTEGRITY \<and> sm_integrity m = None then
       (if length v \<noteq> 20 then Inl (MalformedAttribute kind)
        else bind_res (covered_prefix d (length pre) 24) (\<lambda>covered.
          decode_attributes d (pre @ attribute_bytes (kind, v) @ post) (length (pre @ attribute_bytes (kind, v)))
            (m\<lparr>sm_integrity := Some \<lparr>ri_tag = v, ri_covered = covered\<rparr>\<rparr>)))
     else if kind = ATTR_FINGERPRINT then
       (if length v \<noteq> 4 then Inl (MalformedAttribute kind)
        else bind_res (ok_or (MalformedAttribute kind) (stun_read_u32 v 0)) (\<lambda>stated.
          bind_res (covered_prefix d (length pre) 8) (\<lambda>prefix.
            if crc32 prefix XOR FINGERPRINT_XOR \<noteq> stated then Inl Fingerprint_Mismatch
            else Inr (m\<lparr>sm_fingerprint := True\<rparr>))))
     else if sm_integrity m \<noteq> None then
       decode_attributes d (pre @ attribute_bytes (kind, v) @ post) (length (pre @ attribute_bytes (kind, v))) m
     else bind_res (stun_attribute_decode kind v (sm_transaction m)) (\<lambda>a.
       decode_attributes d (pre @ attribute_bytes (kind, v) @ post) (length (pre @ attribute_bytes (kind, v)))
         (m\<lparr>sm_attributes := sm_attributes m @ [a]\<rparr>)))"
proof (rule decode_attributes_at)
  define body where "body = pre @ attribute_bytes (kind, v) @ post"
  have shape: "body = pre @ to_be16 kind @ to_be16 (of_nat (length v)) @ v @
      replicate ((4 - length v mod 4) mod 4) PAD @ post"
    by (simp add: body_def attribute_bytes_def)
  have len: "unat (of_nat (length v) :: u16) = length v"
    using assms by simp
  show "read_u16 (pre @ attribute_bytes (kind, v) @ post) (length pre) = Some kind"
    unfolding body_def [symmetric] shape by (rule read_u16_at) simp
  show "read_u16 (pre @ attribute_bytes (kind, v) @ post) (length pre + 2) = Some (of_nat (length v))"
    unfolding body_def [symmetric] using read_u16_at [of "pre @ to_be16 kind" "length pre + 2"] by (simp add: shape)
  show "get_range (pre @ attribute_bytes (kind, v) @ post) (length pre + 4)
      (length pre + 4 + unat (of_nat (length v) :: u16)) = Some v"
    unfolding body_def [symmetric] len
    using get_range_drop [of "pre @ to_be16 kind @ to_be16 (of_nat (length v))" "length pre + 4" _ v] by (simp add: shape)
  show "\<not> length (pre @ attribute_bytes (kind, v) @ post) \<le> length pre"
    by (simp add: attribute_bytes_def)
  show "length pre + 4 + (unat (of_nat (length v) :: u16) + 3) div 4 * 4 = length (pre @ attribute_bytes (kind, v))"
    unfolding len by (simp add: length_attribute_bytes)
qed

lemma decode_chunks:
  "list_all2 (\<lambda>a c. attribute_content a t = Inr c \<and> length (snd c) < 65536) as cs \<Longrightarrow>
    list_all attribute_ok as \<Longrightarrow> length t = 12 \<Longrightarrow> sm_integrity m = None \<Longrightarrow> sm_transaction m = t \<Longrightarrow>
    decode_attributes d (pre @ concat (map attribute_bytes cs) @ post) (length pre) m =
    decode_attributes d (pre @ concat (map attribute_bytes cs) @ post)
      (length (pre @ concat (map attribute_bytes cs))) (m\<lparr>sm_attributes := sm_attributes m @ as\<rparr>)"
proof (induction as cs arbitrary: pre m rule: list_all2_induct)
  case (Cons a as c cs)
  obtain k v where c: "c = (k, v)"
    by (cases c)
  note rt = attribute_round_trip [of a t k v]
  have "stun_attribute_decode k v t = Inr a" "k \<noteq> ATTR_MESSAGE_INTEGRITY" "k \<noteq> ATTR_FINGERPRINT"
    using rt Cons.hyps(1) Cons.prems c by simp_all
  then have "decode_attributes d (pre @ attribute_bytes (k, v) @ concat (map attribute_bytes cs) @ post) (length pre) m =
      decode_attributes d (pre @ attribute_bytes (k, v) @ concat (map attribute_bytes cs) @ post)
        (length (pre @ attribute_bytes (k, v))) (m\<lparr>sm_attributes := sm_attributes m @ [a]\<rparr>)"
    using Cons.hyps(1) Cons.prems c by (subst decode_step) simp_all
  then show ?case
    using Cons.IH [of "m\<lparr>sm_attributes := sm_attributes m @ [a]\<rparr>" "pre @ attribute_bytes (k, v)"] Cons.prems c
    by simp
qed simp

definition stun_header :: "stun_class \<Rightarrow> nat \<Rightarrow> transaction_id \<Rightarrow> bytes" where
  "stun_header c n t = to_be16 (message_type c METHOD_BINDING) @ to_be16 (of_nat n) @ to_be32 MAGIC_COOKIE @ t"

lemma length_stun_header [simp]: "length (stun_header c n t) = 8 + length t"
  by (simp add: stun_header_def)

lemma stun_header_length:
  "take 2 (stun_header c n t @ rest) @ to_be16 k @ drop 4 (stun_header c n t @ rest) =
    to_be16 (message_type c METHOD_BINDING) @ to_be16 k @ to_be32 MAGIC_COOKIE @ t @ rest"
  by (simp add: stun_header_def to_be16_def)

lemma set_length_header:
  "length t = 12 \<Longrightarrow> set_length (stun_header c n t @ rest) extra = Inr out \<longleftrightarrow>
    length rest + extra < 65536 \<and> out = stun_header c (length rest + extra) t @ rest"
  using stun_header_length [of c n t rest "of_nat (length rest + extra)"]
  by (auto simp: set_length_def STUN_HEADER_LEN_def Let_def stun_header_def)

lemma covered_prefix_header:
  assumes "length t = 12" "length pre + k < 65536"
  shows "covered_prefix (stun_header c n t @ pre @ post) (length pre) k = Inr (stun_header c (length pre + k) t @ pre)"
proof -
  have "take (20 + length pre) (stun_header c n t @ pre @ post) = stun_header c n t @ pre"
    using assms(1) by simp
  then show ?thesis
    using assms stun_header_length [of c n t pre "of_nat (length pre + k)"]
    by (simp add: covered_prefix_def STUN_HEADER_LEN_def Let_def) (simp add: stun_header_def)
qed

lemma header_is_stun: "length t = 12 \<Longrightarrow> is_stun (stun_header c n t @ rest)"
proof -
  assume t: "length t = 12"
  have "ucast (drop_bit 8 (message_type c METHOD_BINDING)) AND 0xC0 = (0 :: u8)"
    by (cases c) (simp_all add: message_type_def class_bits_def METHOD_BINDING_def)
  moreover have "stun_read_u32 (stun_header c n t @ rest) 4 = Some MAGIC_COOKIE"
    using stun_read_u32_at [of "to_be16 (message_type c METHOD_BINDING) @ to_be16 (of_nat n)" 4 _ "t @ rest"]
    by (simp add: stun_header_def)
  ultimately show ?thesis
    using t by (simp add: is_stun_def STUN_HEADER_LEN_def get_at_def) (simp add: stun_header_def to_be16_def)
qed

lemma decode_header:
  assumes "length t = 12" "length body < 65536"
  shows "stun_decode (stun_header c (length body) t @ body) =
    decode_attributes (stun_header c (length body) t @ body) body 0 (stun_new c t)"
proof -
  let ?d = "stun_header c (length body) t @ body"
  have "read_u16 ?d 0 = Some (message_type c METHOD_BINDING)"
    using read_u16_at [of "[]" 0] by (simp add: stun_header_def)
  moreover have "read_u16 ?d 2 = Some (of_nat (length body))"
    using read_u16_at [of "to_be16 (message_type c METHOD_BINDING)" 2] by (simp add: stun_header_def)
  moreover have "get_range ?d 8 20 = Some t"
    using get_range_drop [of "to_be16 (message_type c METHOD_BINDING) @ to_be16 (of_nat (length body)) @ to_be32 MAGIC_COOKIE"
        8 20 t body] assms(1) by (simp add: stun_header_def)
  moreover have "get_range ?d 20 (20 + length body) = Some body"
    using get_range_drop [of "stun_header c (length body) t" 20 "20 + length body" body "[]"] assms(1) by simp
  moreover have "unat (of_nat (length body) :: u16) = length body"
    using assms(2) by simp
  ultimately show ?thesis
    using header_is_stun [OF assms(1)] split_message_type [of c] by (simp add: stun_decode_def STUN_HEADER_LEN_def)
qed

text \<open>What is written: the attributes, the integrity value when there is a key, the fingerprint.\<close>

definition keyed_part :: "hmac \<Rightarrow> stun_class \<Rightarrow> transaction_id \<Rightarrow> bytes option \<Rightarrow> bytes \<Rightarrow> bytes" where
  "keyed_part mac c t key as =
     (case key of
        None \<Rightarrow> as
      | Some k \<Rightarrow>
          as @ attribute_bytes (ATTR_MESSAGE_INTEGRITY, hmac_sha1 mac k (stun_header c (length as + 24) t @ as)))"

definition fingerprint_bytes :: "stun_class \<Rightarrow> transaction_id \<Rightarrow> bytes \<Rightarrow> bytes" where
  "fingerprint_bytes c t pre =
     attribute_bytes (ATTR_FINGERPRINT, to_be32 (crc32 (stun_header c (length pre + 8) t @ pre) XOR FINGERPRINT_XOR))"

lemma length_hmac [simp]: "length (hmac_sha1 mac k data) = 20"
  by (simp add: hmac_sha1_def)

lemma length_fingerprint_bytes [simp]: "length (fingerprint_bytes c t pre) = 8"
  by (simp add: fingerprint_bytes_def length_attribute_bytes)

lemma stun_encode_Inr:
  assumes "stun_encode mac m key = Inr d" "length (sm_transaction m) = 12"
  shows "\<exists>cs. list_all2 (\<lambda>a c. attribute_content a (sm_transaction m) = Inr c \<and> length (snd c) < 65536)
        (sm_attributes m) cs \<and>
      (let pre = keyed_part mac (sm_class m) (sm_transaction m) key (concat (map attribute_bytes cs)) in
         length pre + 8 < 65536 \<and>
         d = stun_header (sm_class m) (length pre + 8) (sm_transaction m) @ pre @
           fingerprint_bytes (sm_class m) (sm_transaction m) pre)"
proof -
  define c t where "c = sm_class m" and "t = sm_transaction m"
  note t = assms(2) [folded t_def]
  have start: "to_be16 (message_type c METHOD_BINDING) @ 0 # 0 # to_be32 MAGIC_COOKIE @ t = stun_header c 0 t"
    by (simp add: stun_header_def to_be16_def)
  obtain out1 out2 out3 where out: "encode_attributes (sm_attributes m) (stun_header c 0 t) t = Inr out1"
    "(case key of None \<Rightarrow> Inr out1
      | Some k \<Rightarrow> bind_res (set_length out1 24) (\<lambda>out.
          push_attribute out ATTR_MESSAGE_INTEGRITY (hmac_sha1 mac k out))) = Inr out2"
    "set_length out2 8 = Inr out3"
    "push_attribute out3 ATTR_FINGERPRINT (to_be32 (crc32 out3 XOR FINGERPRINT_XOR)) = Inr d"
    using assms(1) by (auto simp: stun_encode_def bind_res_Inr_iff start simp flip: c_def t_def)
  obtain cs where cs: "out1 = stun_header c 0 t @ concat (map attribute_bytes cs)"
    "list_all2 (\<lambda>a c. attribute_content a t = Inr c \<and> length (snd c) < 65536) (sm_attributes m) cs"
    using encode_attributes_Inr [OF out(1)] by blast
  have keyed: "\<exists>n. out2 = stun_header c n t @ keyed_part mac c t key (concat (map attribute_bytes cs))"
  proof (cases key)
    case None
    then show ?thesis
      using out(2) cs(1) by (auto simp: keyed_part_def)
  next
    case (Some k)
    then show ?thesis
      using out(2) by (auto simp: keyed_part_def cs(1) bind_res_Inr_iff set_length_header [OF t] push_attribute_Inr)
  qed
  then show ?thesis
    using out(3,4) cs(2) unfolding c_def [symmetric] t_def [symmetric]
    by (auto simp: set_length_header [OF t] push_attribute_Inr fingerprint_bytes_def Let_def intro!: exI [of _ cs])
qed

lemma decode_fingerprint:
  assumes "length t = 12" "length pre + 8 < 65536"
  shows "decode_attributes (stun_header c n t @ pre @ fingerprint_bytes c t pre) (pre @ fingerprint_bytes c t pre)
      (length pre) m = Inr (m\<lparr>sm_fingerprint := True\<rparr>)"
proof -
  have "stun_read_u32 (to_be32 w) 0 = Some w" for w
    using stun_read_u32_at [of "[]" 0 w "[]"] by simp
  then show ?thesis
    using decode_step [where post = "[]" and kind = ATTR_FINGERPRINT and pre = pre and m = m
        and v = "to_be32 (crc32 (stun_header c (length pre + 8) t @ pre) XOR FINGERPRINT_XOR)"]
      covered_prefix_header [OF assms, where post = "fingerprint_bytes c t pre"]
    by (simp add: fingerprint_bytes_def attribute_kinds)
qed

lemma stun_written_reads:
  assumes "stun_encode mac m key = Inr d" "length (sm_transaction m) = 12" "list_all attribute_ok (sm_attributes m)"
  shows "\<exists>r. stun_decode d = Inr r \<and> sm_class r = sm_class m \<and> sm_transaction r = sm_transaction m \<and>
    sm_attributes r = sm_attributes m \<and> sm_fingerprint r \<and>
    (case key of None \<Rightarrow> sm_integrity r = None | Some k \<Rightarrow> verify_integrity mac r k)"
proof -
  define c t where "c = sm_class m" and "t = sm_transaction m"
  note t = assms(2) [folded t_def]
  obtain cs where cs: "list_all2 (\<lambda>a c. attribute_content a t = Inr c \<and> length (snd c) < 65536) (sm_attributes m) cs"
    and d: "let pre = keyed_part mac c t key (concat (map attribute_bytes cs)) in
      length pre + 8 < 65536 \<and> d = stun_header c (length pre + 8) t @ pre @ fingerprint_bytes c t pre"
    using stun_encode_Inr [OF assms(1,2)] unfolding c_def t_def by blast
  define as where "as = concat (map attribute_bytes cs)"
  define pre where "pre = keyed_part mac c t key as"
  define body where "body = pre @ fingerprint_bytes c t pre"
  define read where "read = (stun_new c t)\<lparr>sm_attributes := sm_attributes m\<rparr>"
  have small: "length pre + 8 < 65536" and d: "d = stun_header c (length body) t @ body"
    using d by (simp_all add: Let_def pre_def as_def body_def)
  have "stun_decode d = decode_attributes d body 0 (stun_new c t)"
    unfolding d by (rule decode_header [OF t]) (simp add: body_def small)
  also have "\<dots> = decode_attributes d body (length as) read"
  proof -
    have "body = [] @ as @ drop (length as) body"
      by (simp add: body_def pre_def keyed_part_def split: option.split)
    then show ?thesis
      using decode_chunks [OF cs assms(3) t, of "stun_new c t" d "[]" "drop (length as) body"]
      by (simp add: read_def stun_new_def as_def)
  qed
  also have "\<dots> = decode_attributes d body (length pre) (case key of None \<Rightarrow> read
      | Some k \<Rightarrow> read\<lparr>sm_integrity := Some \<lparr>ri_tag = hmac_sha1 mac k (stun_header c (length as + 24) t @ as),
          ri_covered = stun_header c (length as + 24) t @ as\<rparr>\<rparr>)"
  proof (cases key)
    case None
    then show ?thesis
      by (simp add: pre_def keyed_part_def)
  next
    case (Some k)
    define tag where "tag = hmac_sha1 mac k (stun_header c (length as + 24) t @ as)"
    have pre: "pre = as @ attribute_bytes (ATTR_MESSAGE_INTEGRITY, tag)"
      by (simp add: pre_def keyed_part_def Some tag_def)
    have "covered_prefix d (length as) 24 = Inr (stun_header c (length as + 24) t @ as)"
      unfolding d body_def pre append.assoc using small
      by (intro covered_prefix_header [OF t]) (simp add: pre length_attribute_bytes tag_def)
    then show ?thesis
      using decode_step [of tag d as ATTR_MESSAGE_INTEGRITY "fingerprint_bytes c t pre" read]
      by (simp add: Some body_def pre tag_def read_def stun_new_def)
  qed
  also have "\<dots> = Inr ((case key of None \<Rightarrow> read
      | Some k \<Rightarrow> read\<lparr>sm_integrity := Some \<lparr>ri_tag = hmac_sha1 mac k (stun_header c (length as + 24) t @ as),
          ri_covered = stun_header c (length as + 24) t @ as\<rparr>\<rparr>)\<lparr>sm_fingerprint := True\<rparr>)"
    unfolding d body_def by (rule decode_fingerprint [OF t small])
  finally show ?thesis
    by (cases key) (simp_all add: read_def stun_new_def verify_integrity_def c_def t_def)
qed

end
