(* ===== verification/Stun_Security.thy ===== *)
theory Stun_Security
  imports Stun_Message
begin

text \<open>
  What the integrity value of a STUN message (\<open>sipx-media/src/ice/stun.rs\<close>) protects, and that the
  two ends of an ICE session use the same names and keys for each other.
\<close>

section \<open>What is covered decides what is read\<close>

text \<open>One turn of the loop that does not end it.\<close>

lemma decode_attributes_turn:
  assumes "decode_attributes d body offset m = Inr r" "offset < length body"
  obtains kind len v where "read_u16 body offset = Some kind" "read_u16 body (offset + 2) = Some len"
    "get_range body (offset + 4) (offset + 4 + unat len) = Some v"
  using assms by (subst (asm) decode_attributes.simps) (auto simp: Let_def split: option.splits)

lemma decode_attributes_keyed:
  "decode_attributes d body offset m = Inr r \<Longrightarrow> sm_integrity m \<noteq> None \<Longrightarrow>
    sm_integrity r = sm_integrity m \<and> sm_attributes r = sm_attributes m"
proof (induction d body offset m rule: decode_attributes.induct)
  case (1 d body offset m)
  show ?case
  proof (cases "offset < length body")
    case False
    then show ?thesis
      using "1.prems"(1) by (subst (asm) decode_attributes.simps) simp
  next
    case True
    obtain kind len v where turn: "read_u16 body offset = Some kind" "read_u16 body (offset + 2) = Some len"
      "get_range body (offset + 4) (offset + 4 + unat len) = Some v"
      using decode_attributes_turn [OF "1.prems"(1) True] .
    note step = decode_attributes_at [OF _ turn refl, of d m]
    show ?thesis
    proof (cases "kind = ATTR_FINGERPRINT")
      case fp: True
      then show ?thesis
        using "1.prems" True step by (auto simp: bind_res_Inr_iff attribute_kinds split: if_splits)
    next
      case False
      then have "decode_attributes d body (offset + 4 + (unat len + 3) div 4 * 4) m = Inr r"
        using "1.prems" True step by simp
      then show ?thesis
        using "1.IH"(2) [OF _ refl turn(1) turn(2) turn(3)] True False "1.prems"(2) by simp
    qed
  qed
qed

lemma read_u16_take: "o' + 2 \<le> n \<Longrightarrow> read_u16 (take n xs) o' = read_u16 xs o'"
  by (simp add: read_u16_def get_range_def min_def take_drop)

lemma get_range_take: "b \<le> n \<Longrightarrow> get_range (take n xs) a b = get_range xs a b"
  by (auto simp: get_range_def min_def take_drop)

lemma decode_attributes_covered:
  "decode_attributes d body offset m = Inr r \<Longrightarrow> sm_integrity m = None \<Longrightarrow> sm_integrity r = Some i \<Longrightarrow>
    \<exists>off. offset \<le> off \<and> off < length body \<and> covered_prefix d off 24 = Inr (ri_covered i) \<and>
      (\<forall>x. decode_attributes x (take off body) offset m = Inr (m\<lparr>sm_attributes := sm_attributes r\<rparr>))"
proof (induction d body offset m rule: decode_attributes.induct)
  case (1 d body offset m)
  have inside: "offset < length body"
  proof (rule ccontr)
    assume "\<not> offset < length body"
    then have "r = m"
      using "1.prems"(1) by (subst (asm) decode_attributes.simps) simp
    then show False
      using "1.prems"(2,3) by simp
  qed
  obtain kind len v where turn: "read_u16 body offset = Some kind" "read_u16 body (offset + 2) = Some len"
    "get_range body (offset + 4) (offset + 4 + unat len) = Some v"
    using decode_attributes_turn [OF "1.prems"(1) inside] .
  define after where "after = offset + 4 + (unat len + 3) div 4 * 4"
  note at = decode_attributes_at [OF _ turn, of after]
  have step: "decode_attributes d body offset m =
    (if kind = ATTR_MESSAGE_INTEGRITY \<and> sm_integrity m = None then
       (if length v \<noteq> 20 then Inl (MalformedAttribute kind)
        else bind_res (covered_prefix d offset 24) (\<lambda>covered.
          decode_attributes d body after (m\<lparr>sm_integrity := Some \<lparr>ri_tag = v, ri_covered = covered\<rparr>\<rparr>)))
     else if kind = ATTR_FINGERPRINT then
       (if length v \<noteq> 4 then Inl (MalformedAttribute kind)
        else bind_res (ok_or (MalformedAttribute kind) (stun_read_u32 v 0)) (\<lambda>stated.
          bind_res (covered_prefix d offset 8) (\<lambda>prefix.
            if crc32 prefix XOR FINGERPRINT_XOR \<noteq> stated then Inl Fingerprint_Mismatch
            else Inr (m\<lparr>sm_fingerprint := True\<rparr>))))
     else if sm_integrity m \<noteq> None then decode_attributes d body after m
     else bind_res (stun_attribute_decode kind v (sm_transaction m)) (\<lambda>a.
       decode_attributes d body after (m\<lparr>sm_attributes := sm_attributes m @ [a]\<rparr>)))"
    using at inside by (simp add: after_def)
  consider (integrity) "kind = ATTR_MESSAGE_INTEGRITY" | (fingerprint) "kind = ATTR_FINGERPRINT"
    | (plain) "kind \<noteq> ATTR_MESSAGE_INTEGRITY" "kind \<noteq> ATTR_FINGERPRINT"
    by blast
  then show ?case
  proof cases
    case integrity
    obtain covered where c: "covered_prefix d offset 24 = Inr covered"
      "decode_attributes d body after (m\<lparr>sm_integrity := Some \<lparr>ri_tag = v, ri_covered = covered\<rparr>\<rparr>) = Inr r"
      using "1.prems"(1,2) integrity step by (auto simp: bind_res_Inr_iff split: if_splits)
    have "sm_integrity r = Some \<lparr>ri_tag = v, ri_covered = covered\<rparr> \<and> sm_attributes r = sm_attributes m"
      using decode_attributes_keyed [OF c(2)] by simp
    moreover have "decode_attributes x (take offset body) offset m = Inr m" for x
      by (subst decode_attributes.simps) simp
    ultimately show ?thesis
      using "1.prems"(3) c(1) inside by (intro exI [of _ offset]) auto
  next
    case fingerprint
    then have "sm_integrity r = sm_integrity m"
      using "1.prems"(1) step by (auto simp: bind_res_Inr_iff attribute_kinds split: if_splits)
    then show ?thesis
      using "1.prems"(2,3) by simp
  next
    case plain
    define m' where "m' a = m\<lparr>sm_attributes := sm_attributes m @ [a]\<rparr>" for a
    obtain a where a: "stun_attribute_decode kind v (sm_transaction m) = Inr a"
      "decode_attributes d body after (m' a) = Inr r"
      using "1.prems"(1,2) plain step by (auto simp: bind_res_Inr_iff m'_def)
    have "\<exists>off. after \<le> off \<and> off < length body \<and> covered_prefix d off 24 = Inr (ri_covered i) \<and>
        (\<forall>x. decode_attributes x (take off body) after (m' a) = Inr (m' a\<lparr>sm_attributes := sm_attributes r\<rparr>))"
      using "1.IH"(3) [OF _ refl turn(1) turn(2) turn(3)] inside plain "1.prems" a
      by (simp add: after_def m'_def)
    then obtain off where off: "after \<le> off" "off < length body" "covered_prefix d off 24 = Inr (ri_covered i)"
      "\<And>x. decode_attributes x (take off body) after (m' a) = Inr (m' a\<lparr>sm_attributes := sm_attributes r\<rparr>)"
      by blast
    have fits: "offset + 4 + unat len \<le> off" "offset + 2 \<le> off" "offset + 2 + 2 \<le> off"
      using off(1) by (auto simp: after_def)
    have "decode_attributes x (take off body) offset m = Inr (m\<lparr>sm_attributes := sm_attributes r\<rparr>)" for x
      using decode_attributes_at [of "take off body" offset kind len v after x m] fits off(2) turn plain a
        "1.prems"(2) off(4) [of x]
      by (simp add: read_u16_take get_range_take after_def m'_def)
    then show ?thesis
      using off fits by (intro exI [of _ off]) simp
  qed
qed

lemma decode_attributes_header:
  "decode_attributes d body offset m = Inr r \<Longrightarrow> sm_class r = sm_class m \<and> sm_transaction r = sm_transaction m"
proof (induction d body offset m rule: decode_attributes.induct)
  case (1 d body offset m)
  show ?case
  proof (cases "offset < length body")
    case False
    then show ?thesis
      using "1.prems"(1) by (subst (asm) decode_attributes.simps) simp
  next
    case True
    obtain kind len v where turn: "read_u16 body offset = Some kind" "read_u16 body (offset + 2) = Some len"
      "get_range body (offset + 4) (offset + 4 + unat len) = Some v"
      using decode_attributes_turn [OF "1.prems"(1) True] .
    note step = decode_attributes_at [OF _ turn refl, of d m]
    note IH = "1.IH" [OF _ refl turn(1) turn(2) turn(3) refl]
    consider (fingerprint) "kind = ATTR_FINGERPRINT"
      | (integrity) "kind \<noteq> ATTR_FINGERPRINT" "kind = ATTR_MESSAGE_INTEGRITY" "sm_integrity m = None"
      | (keyed) "kind \<noteq> ATTR_FINGERPRINT" "sm_integrity m \<noteq> None"
      | (plain) "kind \<noteq> ATTR_FINGERPRINT" "kind \<noteq> ATTR_MESSAGE_INTEGRITY" "sm_integrity m = None"
      by blast
    then show ?thesis
    proof cases
      case fingerprint
      then show ?thesis
        using "1.prems" step True by (auto simp: bind_res_Inr_iff attribute_kinds split: if_splits)
    next
      case integrity
      then obtain covered where "length v = 20" "covered_prefix d offset 24 = Inr covered"
        "decode_attributes d body (offset + 4 + (unat len + 3) div 4 * 4)
          (m\<lparr>sm_integrity := Some \<lparr>ri_tag = v, ri_covered = covered\<rparr>\<rparr>) = Inr r"
        using "1.prems" step True by (auto simp: bind_res_Inr_iff split: if_splits)
      then show ?thesis
        using IH(1) integrity True by simp
    next
      case keyed
      then obtain y where "sm_integrity m = Some y"
        by blast
      then have "decode_attributes d body (offset + 4 + (unat len + 3) div 4 * 4) m = Inr r"
        using "1.prems" step True keyed by simp
      then show ?thesis
        using IH(2) keyed True by simp
    next
      case plain
      then obtain a where "stun_attribute_decode kind v (sm_transaction m) = Inr a"
        "decode_attributes d body (offset + 4 + (unat len + 3) div 4 * 4)
          (m\<lparr>sm_attributes := sm_attributes m @ [a]\<rparr>) = Inr r"
        using "1.prems" step True by (auto simp: bind_res_Inr_iff)
      then show ?thesis
        using IH(3) plain True by simp
    qed
  qed
qed

lemma covered_prefix_parts:
  assumes "covered_prefix d off k = Inr c"
  shows "length d \<ge> 20 + off" "length c = 20 + off" "take 2 c = take 2 d" "drop 4 c = drop 4 (take (20 + off) d)"
proof -
  show len: "length d \<ge> 20 + off"
    using assms by (auto simp: covered_prefix_def STUN_HEADER_LEN_def split: if_splits)
  have c: "c = take 2 (take (20 + off) d) @ to_be16 (of_nat (off + k)) @ drop 4 (take (20 + off) d)"
    using assms by (auto simp: covered_prefix_def STUN_HEADER_LEN_def Let_def split: if_splits)
  show "length c = 20 + off"
    using len by (simp add: c)
  have two: "length (take 2 (take (20 + off) d)) = 2"
    using len by simp
  show "take 2 c = take 2 d"
    using two unfolding c by (simp add: min_def)
  show "drop 4 c = drop 4 (take (20 + off) d)"
    using two unfolding c by simp
qed

text \<open>What a message says, read off the octets its integrity value covers.\<close>

definition covered_message :: "bytes \<Rightarrow> stun_message \<Rightarrow> bool" where
  "covered_message c r \<longleftrightarrow>
     (\<exists>raw. read_u16 (take 2 c) 0 = Some raw \<and> sm_class r = fst (split_type raw)) \<and>
     sm_transaction r = take 12 (drop 4 (drop 4 c)) \<and>
     decode_attributes [] (drop 16 (drop 4 c)) 0 (stun_new (sm_class r) (sm_transaction r)) =
       Inr ((stun_new (sm_class r) (sm_transaction r))\<lparr>sm_attributes := sm_attributes r\<rparr>)"

lemma stun_decode_covered:
  assumes "stun_decode d = Inr r" "sm_integrity r = Some i"
  shows "covered_message (ri_covered i) r"
proof -
  have "\<exists>raw t (stated :: u16) body. read_u16 d 0 = Some raw \<and> get_range d 8 20 = Some t \<and>
      get_range d 20 (20 + unat stated) = Some body \<and>
      decode_attributes d body 0 (stun_new (fst (split_type raw)) t) = Inr r"
    using assms(1) by (fastforce simp: stun_decode_def STUN_HEADER_LEN_def bind_res_Inr_iff Let_def case_prod_beta split: if_splits)
  then obtain raw t and stated :: u16 and body where parts: "read_u16 d 0 = Some raw" "get_range d 8 20 = Some t"
    "get_range d 20 (20 + unat stated) = Some body"
    "decode_attributes d body 0 (stun_new (fst (split_type raw)) t) = Inr r"
    by blast
  define m where "m = stun_new (fst (split_type raw)) t"
  obtain off where off: "off < length body" "covered_prefix d off 24 = Inr (ri_covered i)"
    "\<And>x. decode_attributes x (take off body) 0 m = Inr (m\<lparr>sm_attributes := sm_attributes r\<rparr>)"
    using decode_attributes_covered [OF parts(4)] assms(2) by (auto simp: stun_new_def m_def)
  note c = covered_prefix_parts [OF off(2)]
  have t: "t = take 12 (drop 8 d)" and body: "body = take (unat stated) (drop 20 d)"
    using parts(2,3) by (auto simp: get_range_def split: if_splits)
  have d8: "drop 4 (drop 4 (ri_covered i)) = drop 8 (take (20 + off) d)"
    using c(4) by simp
  have "take 12 (drop 4 (drop 4 (ri_covered i))) = t"
    unfolding d8 t using c(1) by (simp add: drop_take)
  moreover have "drop 16 (drop 4 (ri_covered i)) = take off body"
  proof -
    have "drop 16 (drop 4 (ri_covered i)) = take off (drop 20 d)"
      unfolding c(4) by (simp add: drop_take)
    moreover have "off \<le> unat stated"
      using off(1) by (simp add: body)
    ultimately show ?thesis
      by (simp add: body min_def)
  qed
  moreover have "read_u16 (take 2 (ri_covered i)) 0 = Some raw"
    using parts(1) unfolding c(3) by (simp add: read_u16_take)
  moreover have "sm_class r = fst (split_type raw) \<and> sm_transaction r = t"
    using decode_attributes_header [OF parts(4)] by (simp add: stun_new_def)
  ultimately show ?thesis
    using off(3) by (auto simp: covered_message_def m_def)
qed

lemma covered_message_unique:
  assumes "covered_message c r" "covered_message c r'"
  shows "sm_class r' = sm_class r \<and> sm_transaction r' = sm_transaction r \<and> sm_attributes r' = sm_attributes r"
proof -
  have head: "sm_class r' = sm_class r" "sm_transaction r' = sm_transaction r"
    using assms by (auto simp: covered_message_def)
  have "stun_new (sm_class r) (sm_transaction r)\<lparr>sm_attributes := sm_attributes r'\<rparr> =
      stun_new (sm_class r) (sm_transaction r)\<lparr>sm_attributes := sm_attributes r\<rparr>"
    using assms head by (auto simp: covered_message_def)
  then show ?thesis
    using head by (simp add: stun_new_def)
qed

text \<open>
  C30: Nothing outside what the integrity value covers can change what a message says. Two datagrams
  whose integrity values are taken over the same octets are read as the same class, transaction and
  attributes, whatever follows the integrity value, and whatever length the header states.
\<close>

theorem stun_integrity_binds:
  assumes "stun_decode d = Inr r" "sm_integrity r = Some i"
    "stun_decode d' = Inr r'" "sm_integrity r' = Some i'" "ri_covered i' = ri_covered i"
  shows "sm_class r' = sm_class r \<and> sm_transaction r' = sm_transaction r \<and> sm_attributes r' = sm_attributes r"
  using covered_message_unique [OF stun_decode_covered [OF assms(1,2)]]
    stun_decode_covered [OF assms(3,4)] assms(5) by simp

section \<open>The two ends of a session\<close>

lemma encode_attributes_ok:
  "list_all2 (\<lambda>a c. attribute_content a t = Inr c \<and> length (snd c) < 65536) as cs \<Longrightarrow>
    encode_attributes as out t = Inr (out @ concat (map attribute_bytes cs))"
proof (induction as cs arbitrary: out rule: list_all2_induct)
  case (Cons a as c cs)
  then show ?case
    by (cases c) (simp add: encode_into_def push_attribute_Inr [THEN iffD2])
qed simp

lemma stun_encode_ok:
  assumes "list_all2 (\<lambda>a c. attribute_content a (sm_transaction m) = Inr c \<and> length (snd c) < 65536) (sm_attributes m) cs"
    "length (sm_transaction m) = 12" "length (concat (map attribute_bytes cs)) + 32 < 65536"
  shows "\<exists>d. stun_encode mac m (Some key) = Inr d"
proof -
  define c t where "c = sm_class m" and "t = sm_transaction m"
  note t = assms(2) [folded t_def]
  define as where "as = concat (map attribute_bytes cs)"
  have start: "to_be16 (message_type c METHOD_BINDING) @ 0 # 0 # to_be32 MAGIC_COOKIE @ t = stun_header c 0 t"
    by (simp add: stun_header_def to_be16_def)
  have "encode_attributes (sm_attributes m) (stun_header c 0 t) t = Inr (stun_header c 0 t @ as)"
    using encode_attributes_ok [OF assms(1) [folded t_def]] by (simp add: as_def)
  moreover have "set_length (stun_header c 0 t @ as) 24 = Inr (stun_header c (length as + 24) t @ as)"
    using assms(3) by (simp add: set_length_header [OF t] as_def)
  moreover have "push_attribute out ATTR_MESSAGE_INTEGRITY (hmac_sha1 mac key data) =
      Inr (out @ attribute_bytes (ATTR_MESSAGE_INTEGRITY, hmac_sha1 mac key data))" for out data
    by (simp add: push_attribute_Inr [THEN iffD2])
  moreover have "set_length (stun_header c n t @ as @ attribute_bytes (ATTR_MESSAGE_INTEGRITY, hmac_sha1 mac key data)) 8 =
      Inr (stun_header c (length as + 32) t @ as @ attribute_bytes (ATTR_MESSAGE_INTEGRITY, hmac_sha1 mac key data))" for n data
    using assms(3) by (simp add: set_length_header [OF t] as_def length_attribute_bytes add.commute)
  moreover have "push_attribute out ATTR_FINGERPRINT (to_be32 w) = Inr (out @ attribute_bytes (ATTR_FINGERPRINT, to_be32 w))" for out w
    by (simp add: push_attribute_Inr [THEN iffD2])
  ultimately show ?thesis
    by (simp add: stun_encode_def start flip: c_def t_def)
qed

definition credentials_ok :: "credentials \<Rightarrow> bool" where
  "credentials_ok c \<longleftrightarrow> list_all is_ice_char (cr_ufrag c) \<and> list_all is_ice_char (cr_pwd c)"

lemma username_valid:
  "credentials_ok a \<Longrightarrow> credentials_ok b \<Longrightarrow> utf8_valid (cr_ufrag a @ ascii '':'' @ cr_ufrag b)"
  using ice_char_plain by (intro utf8_valid_ascii) (auto simp: credentials_ok_def list_all_iff ascii_def)

text \<open>A check as the other end reads it.\<close>

lemma check_reads:
  assumes "credentials_received ua pa = Some (pe_local p)" "credentials_received ub pb = Some (pe_remote p)"
    "length t = 12" "PRIORITY_MIN \<le> prio" "prio \<le> PRIORITY_MAX"
  obtains d m where "connectivity_check mac t p prio role = Inr d" "stun_decode d = Inr m"
    "sm_class m = Class_Request" "sm_transaction m = t" "stun_username m = Some (outbound_username p)"
    "verify_integrity mac m (outbound_key p)" "stun_priority m = Some prio" "stun_role m = Some role"
    "use_candidate m = (case role of Attr_Controlling _ n \<Rightarrow> n | Attr_Controlled _ \<Rightarrow> False)"
proof -
  define nominate where "nominate = (case role of Attr_Controlling _ n \<Rightarrow> n | Attr_Controlled _ \<Rightarrow> False)"
  define sent where "sent = (stun_new Class_Request t)\<lparr>sm_attributes :=
      [Priority prio, role_attribute_of role, Username (outbound_username p)] @ (if nominate then [UseCandidate] else [])\<rparr>"
  note ab = credentials_bounds [OF assms(1)] credentials_bounds [OF assms(2)]
  have oks: "credentials_ok (pe_local p)" "credentials_ok (pe_remote p)"
    using ab by (simp_all add: credentials_ok_def)
  define contents where "contents = [(ATTR_PRIORITY, to_be32 prio),
      (case role of Attr_Controlling x _ \<Rightarrow> (ATTR_ICE_CONTROLLING, to_be64 x) | Attr_Controlled x \<Rightarrow> (ATTR_ICE_CONTROLLED, to_be64 x)),
      (ATTR_USERNAME, outbound_username p)] @ (if nominate then [(ATTR_USE_CANDIDATE, [])] else [])"
  have name: "length (outbound_username p) \<le> 513"
    using ab by (simp add: outbound_username_def ascii_def)
  have pad: "(length (outbound_username p) + 3) div 4 \<le> 129"
    using name by presburger
  have "\<exists>d. stun_encode mac sent (Some (outbound_key p)) = Inr d"
  proof (rule stun_encode_ok)
    show "list_all2 (\<lambda>a c. attribute_content a (sm_transaction sent) = Inr c \<and> length (snd c) < 65536)
        (sm_attributes sent) contents"
      using name by (simp add: sent_def contents_def attribute_content_def role_attribute_of_def split: role_attribute.split)
    show "length (concat (map attribute_bytes contents)) + 32 < 65536"
      using pad by (simp add: contents_def length_attribute_bytes split: role_attribute.split)
  qed (use assms(3) in \<open>simp add: sent_def stun_new_def\<close>)
  then obtain check where encoded: "stun_encode mac sent (Some (outbound_key p)) = Inr check"
    by blast
  have checked: "connectivity_check mac t p prio role = Inr check"
    using encoded by (simp add: connectivity_check_def sent_def nominate_def stun_with_def stun_new_def Let_def
        split: role_attribute.splits bool.splits if_splits)
  have "list_all attribute_ok (sm_attributes sent)"
    using assms(4,5) username_valid [OF oks(2,1)]
    by (simp add: sent_def attribute_ok_def role_attribute_of_def outbound_username_def split: role_attribute.split)
  then obtain m where m: "stun_decode check = Inr m" "sm_class m = Class_Request" "sm_transaction m = t"
    "sm_attributes m = sm_attributes sent" "verify_integrity mac m (outbound_key p)"
    using stun_written_reads [OF encoded] assms(3) by (auto simp: sent_def stun_new_def)
  have use: "use_candidate m = nominate"
    by (simp add: use_candidate_def m(4) sent_def role_attribute_of_def split: role_attribute.split)
  have "stun_username m = Some (outbound_username p)" "stun_priority m = Some prio" "stun_role m = Some role"
    using use by (auto simp: stun_username_def stun_priority_def stun_role_def m(4) sent_def nominate_def
        role_attribute_of_def split: role_attribute.split)
  then show thesis
    using checked m use by (intro that [of check m]) (simp_all add: nominate_def)
qed

text \<open>An answer of one attribute as the end that sent the check reads it.\<close>

lemma answer_reads:
  assumes "attribute_content x t = Inr content" "length (snd content) \<le> 1000" "attribute_ok x" "length t = 12"
  obtains d r where "stun_encode mac (stun_with (stun_new c t) x) (Some key) = Inr d" "stun_decode d = Inr r"
    "sm_class r = c" "sm_transaction r = t" "sm_attributes r = [x]" "verify_integrity mac r key"
proof -
  let ?m = "stun_with (stun_new c t) x"
  have "(length (snd content) + 3) div 4 \<le> 250"
    using assms(2) by presburger
  then have "\<exists>d. stun_encode mac ?m (Some key) = Inr d"
    using assms by (intro stun_encode_ok [of _ "[content]"])
      (cases content; simp add: stun_with_def stun_new_def length_attribute_bytes)+
  then obtain d where d: "stun_encode mac ?m (Some key) = Inr d"
    by blast
  have "list_all attribute_ok (sm_attributes ?m)" "length (sm_transaction ?m) = 12"
    using assms(3,4) by (simp_all add: stun_with_def stun_new_def)
  then obtain r where "stun_decode d = Inr r" "sm_class r = c" "sm_transaction r = t" "sm_attributes r = [x]"
    "verify_integrity mac r key"
    using stun_written_reads [OF d] by (auto simp: stun_with_def stun_new_def)
  with d show thesis
    by (rule that)
qed

lemma success_reads:
  assumes "length t = 12" "ip_ok (sk_ip mapped)"
  obtains d r where "check_success mac t p mapped = Inr d" "stun_decode d = Inr r" "sm_class r = Class_Success"
    "sm_transaction r = t" "stun_mapped_address r = Some mapped" "verify_integrity mac r (inbound_key p)"
proof -
  have "length (encode_xor_mapped mapped t) \<le> 20"
    using assms(1) by (simp add: encode_xor_mapped_def xor_key_def split: ip_addr.split list.split)
  then obtain d r where "check_success mac t p mapped = Inr d" "stun_decode d = Inr r" "sm_class r = Class_Success"
    "sm_transaction r = t" "sm_attributes r = [XorMappedAddress mapped]" "verify_integrity mac r (inbound_key p)"
    using answer_reads [of "XorMappedAddress mapped" t "(ATTR_XOR_MAPPED_ADDRESS, encode_xor_mapped mapped t)" mac
        Class_Success "inbound_key p"] assms
    by (auto simp: check_success_def attribute_content_def attribute_ok_def)
  then show thesis
    by (intro that [of d r]) (simp_all add: stun_mapped_address_def)
qed

lemma conflict_reads:
  assumes "length t = 12"
  obtains d r where "role_conflict mac t p = Inr d" "stun_decode d = Inr r" "sm_class r = Class_Error"
    "sm_transaction r = t" "stun_error_code r = Some ROLE_CONFLICT" "verify_integrity mac r (inbound_key p)"
proof -
  have "utf8_valid (ascii ''Role Conflict'')"
    by (rule utf8_valid_ascii) (simp add: ascii_def)
  then obtain d r where "role_conflict mac t p = Inr d" "stun_decode d = Inr r" "sm_class r = Class_Error"
    "sm_transaction r = t" "sm_attributes r = [ErrorCode ROLE_CONFLICT (ascii ''Role Conflict'')]"
    "verify_integrity mac r (inbound_key p)"
    using answer_reads [of "ErrorCode ROLE_CONFLICT (ascii ''Role Conflict'')" t
        "(ATTR_ERROR_CODE, [0, 0, 4, 87] @ ascii ''Role Conflict'')" mac Class_Error "inbound_key p"] assms
    by (auto simp: role_conflict_def attribute_content_def attribute_ok_def encode_error_code_def error_code_ok_def
        ROLE_CONFLICT_def ascii_def)
  then show thesis
    by (intro that [of d r]) (simp_all add: stun_error_code_def)
qed

text \<open>
  C31: The two ends of a session use the same names and keys for each other. A check one end sends
  carries the username the other expects and verifies under the key the other has for it, with the
  priority, the role and the nomination it was sent with; the answer the other sends verifies under
  the key the first end has, and names the address it was sent to.
\<close>

theorem stun_ends_agree:
  assumes "credentials_received ua pa = Some a" "credentials_received ub pb = Some b" "length t = 12"
    "PRIORITY_MIN \<le> prio" "prio \<le> PRIORITY_MAX" "ip_ok (sk_ip mapped)"
    "here = \<lparr>pe_local = a, pe_remote = b\<rparr>" "there = \<lparr>pe_local = b, pe_remote = a\<rparr>"
  shows "\<exists>check reply m r. connectivity_check mac t here prio role = Inr check \<and>
    check_success mac t there mapped = Inr reply \<and> stun_decode check = Inr m \<and> sm_class m = Class_Request \<and>
    stun_username m = Some (inbound_username there) \<and> verify_integrity mac m (inbound_key there) \<and>
    stun_priority m = Some prio \<and> stun_role m = Some role \<and>
    use_candidate m = (case role of Attr_Controlling _ n \<Rightarrow> n | Attr_Controlled _ \<Rightarrow> False) \<and>
    stun_decode reply = Inr r \<and> sm_class r = Class_Success \<and> sm_transaction r = sm_transaction m \<and>
    verify_integrity mac r (outbound_key here) \<and> stun_mapped_address r = Some mapped"
proof -
  obtain check m where "connectivity_check mac t here prio role = Inr check" "stun_decode check = Inr m"
    "sm_class m = Class_Request" "sm_transaction m = t" "stun_username m = Some (outbound_username here)"
    "verify_integrity mac m (outbound_key here)" "stun_priority m = Some prio" "stun_role m = Some role"
    "use_candidate m = (case role of Attr_Controlling _ n \<Rightarrow> n | Attr_Controlled _ \<Rightarrow> False)"
    using check_reads [of ua pa here ub pb t prio mac role] assms by auto
  moreover obtain reply r where "check_success mac t there mapped = Inr reply" "stun_decode reply = Inr r"
    "sm_class r = Class_Success" "sm_transaction r = t" "stun_mapped_address r = Some mapped"
    "verify_integrity mac r (inbound_key there)"
    using success_reads [OF assms(3,6)] by metis
  ultimately show ?thesis
    using assms(7,8)
    by (intro exI [of _ check] exI [of _ reply] exI [of _ m] exI [of _ r])
      (simp add: inbound_key_def outbound_key_def inbound_username_def outbound_username_def)
qed

definition sample_here :: credentials where
  "sample_here = \<lparr>cr_ufrag = ascii ''evtj'', cr_pwd = ascii ''VOkJxbRl1RmTxUkWvJxBt1''\<rparr>"

definition sample_there :: credentials where
  "sample_there = \<lparr>cr_ufrag = ascii ''h6vY'', cr_pwd = ascii ''abcdefghijklmnopqrstuv''\<rparr>"

lemma sample_credentials:
  "credentials_received (cr_ufrag sample_here) (cr_pwd sample_here) = Some sample_here"
  "credentials_received (cr_ufrag sample_there) (cr_pwd sample_there) = Some sample_there"
  by code_simp+

lemma stun_ends_agree_witness:
  "\<exists>check reply m r.
     connectivity_check (\<lambda>k d. k @ d) (replicate 12 7) \<lparr>pe_local = sample_here, pe_remote = sample_there\<rparr> 5
       (Attr_Controlling 9 True) = Inr check \<and>
     check_success (\<lambda>k d. k @ d) (replicate 12 7) \<lparr>pe_local = sample_there, pe_remote = sample_here\<rparr>
       \<lparr>sk_ip = V4 [192, 0, 2, 1], sk_port = 5000\<rparr> = Inr reply \<and>
     stun_decode check = Inr m \<and> use_candidate m \<and> stun_decode reply = Inr r \<and>
     stun_mapped_address r = Some \<lparr>sk_ip = V4 [192, 0, 2, 1], sk_port = 5000\<rparr>"
  using stun_ends_agree [OF sample_credentials, of "replicate 12 7" 5 "\<lparr>sk_ip = V4 [192, 0, 2, 1], sk_port = 5000\<rparr>" _ _
      "\<lambda>k d. k @ d" "Attr_Controlling 9 True", OF _ _ _ _ refl refl]
  by (auto simp: PRIORITY_MIN_def PRIORITY_MAX_def ip_ok_def)

lemma sample_keepalive:
  "\<exists>d. stun_encode (\<lambda>k d. k @ d) (stun_new Class_Request (replicate 12 7)) (Some (ascii ''key'')) = Inr d"
  by (rule stun_encode_ok [of _ "[]"]) (simp_all add: stun_new_def)

text \<open>
  C32: A STUN message that is written reads back with the same class, transaction and attributes,
  with a fingerprint that matches, and, when it was written under a key, with an integrity value
  that verifies under that key and is taken over exactly what came before it.
\<close>

theorem stun_round_trip:
  assumes "stun_encode mac m key = Inr d" "length (sm_transaction m) = 12" "list_all attribute_ok (sm_attributes m)"
  shows "\<exists>r. stun_decode d = Inr r \<and> sm_class r = sm_class m \<and> sm_transaction r = sm_transaction m \<and>
    sm_attributes r = sm_attributes m \<and> sm_fingerprint r \<and>
    (case key of None \<Rightarrow> sm_integrity r = None | Some k \<Rightarrow> verify_integrity mac r k)"
  by (rule stun_written_reads [OF assms])

lemma stun_round_trip_witness:
  "\<exists>d r. stun_encode (\<lambda>k d. k @ d) (stun_new Class_Request (replicate 12 7)) (Some (ascii ''key'')) = Inr d \<and>
    stun_decode d = Inr r \<and> sm_class r = Class_Request \<and> verify_integrity (\<lambda>k d. k @ d) r (ascii ''key'')"
proof -
  obtain d where d: "stun_encode (\<lambda>k d. k @ d) (stun_new Class_Request (replicate 12 7)) (Some (ascii ''key'')) = Inr d"
    using sample_keepalive by blast
  show ?thesis
    using d stun_round_trip [OF d] by (auto simp: stun_new_def)
qed

text \<open>A check, and the same check with a nomination appended on the way.\<close>

lemma decode_attributes_end: "decode_attributes d body (length body) m = Inr m"
  by (subst decode_attributes.simps) simp

definition sample_tag :: bytes where
  "sample_tag = attribute_bytes (ATTR_MESSAGE_INTEGRITY, replicate 20 1)"

definition sample_extended :: bytes where
  "sample_extended = sample_tag @ attribute_bytes (ATTR_USE_CANDIDATE, [])"

lemma sample_tag_decoded:
  assumes "body = sample_tag @ post" "post = [] \<or> post = attribute_bytes (ATTR_USE_CANDIDATE, [])"
  shows "stun_decode (stun_header Class_Request (length body) (replicate 12 7) @ body) =
    Inr ((stun_new Class_Request (replicate 12 7))\<lparr>sm_integrity :=
      Some \<lparr>ri_tag = replicate 20 1, ri_covered = stun_header Class_Request 24 (replicate 12 7)\<rparr>\<rparr>)"
proof -
  let ?h = "stun_header Class_Request (length body) (replicate 12 7)"
  define m where "m = (stun_new Class_Request (replicate 12 7))\<lparr>sm_integrity :=
      Some \<lparr>ri_tag = replicate 20 1, ri_covered = stun_header Class_Request 24 (replicate 12 7)\<rparr>\<rparr>"
  have short: "length body < 65536"
    using assms by (auto simp: sample_tag_def length_attribute_bytes)
  have tag: "body = [] @ attribute_bytes (ATTR_MESSAGE_INTEGRITY, replicate 20 1) @ post"
    using assms(1) by (simp add: sample_tag_def)
  have covered: "covered_prefix (?h @ body) 0 24 = Inr (stun_header Class_Request 24 (replicate 12 7))"
    using covered_prefix_header [of "replicate 12 7" "[]" 24 Class_Request "length body" body] by simp
  have "decode_attributes (?h @ body) body 0 (stun_new Class_Request (replicate 12 7)) =
      decode_attributes (?h @ body) body (length sample_tag) m"
    using decode_step [of "replicate 20 1" "?h @ body" "[]" ATTR_MESSAGE_INTEGRITY post
        "stun_new Class_Request (replicate 12 7)"] covered
    by (simp add: tag [symmetric, simplified] m_def stun_new_def sample_tag_def)
  also have "\<dots> = Inr m"
  proof (cases "post = []")
    case True
    then show ?thesis
      using assms(1) decode_attributes_end by simp
  next
    case False
    then have body: "body = sample_tag @ attribute_bytes (ATTR_USE_CANDIDATE, []) @ []"
      using assms by simp
    have "decode_attributes (?h @ body) body (length sample_tag) m = decode_attributes (?h @ body) body (length body) m"
      using decode_step [of "[]" "?h @ body" sample_tag ATTR_USE_CANDIDATE "[]" m]
      unfolding body by (simp add: attribute_kinds m_def)
    then show ?thesis
      by (simp add: decode_attributes_end)
  qed
  finally show ?thesis
    using decode_header [of "replicate 12 7" body Class_Request] short by (simp add: m_def)
qed

lemma stun_integrity_binds_witness:
  "\<exists>r r'. stun_decode (stun_header Class_Request (length sample_tag) (replicate 12 7) @ sample_tag) = Inr r \<and>
    stun_decode (stun_header Class_Request (length sample_extended) (replicate 12 7) @ sample_extended) = Inr r' \<and>
    use_candidate r' = use_candidate r \<and> sample_extended \<noteq> sample_tag"
proof -
  note read = sample_tag_decoded [of sample_tag "[]"] sample_tag_decoded [OF sample_extended_def]
  show ?thesis
    using stun_integrity_binds [OF read(1) _ read(2)] read
    by (simp add: use_candidate_def sample_extended_def attribute_bytes_def to_be16_def)
qed

end
