(* ===== verification/Ice_Candidate.thy ===== *)
theory Ice_Candidate
  imports Stun_Message "HOL-Library.Product_Lexorder"
begin

text \<open>
  Candidates as the ICE agent holds them (\<open>sipx-media/src/ice/candidate.rs\<close>): identities,
  foundations, and the priorities that make two agents order their pairs alike. The pair priority
  never leaves 64 bits, and it tells any two pairs apart whose candidates differ in priority.
\<close>

section \<open>Preferences\<close>

definition HOST_PREFERENCE :: u8 where "HOST_PREFERENCE = 126"

definition PEER_REFLEXIVE_PREFERENCE :: u8 where "PEER_REFLEXIVE_PREFERENCE = 110"

definition SERVER_REFLEXIVE_PREFERENCE :: u8 where "SERVER_REFLEXIVE_PREFERENCE = 100"

definition RELAYED_PREFERENCE :: u8 where "RELAYED_PREFERENCE = 0"

definition MAX_TYPE_PREFERENCE :: u8 where "MAX_TYPE_PREFERENCE = 126"

definition SINGLE_ADDRESS_PREFERENCE :: u16 where "SINGLE_ADDRESS_PREFERENCE = 65535"

definition type_preference :: "candidate_type \<Rightarrow> u8" where
  "type_preference k =
     (case k of
        Host \<Rightarrow> HOST_PREFERENCE
      | PeerReflexive \<Rightarrow> PEER_REFLEXIVE_PREFERENCE
      | ServerReflexive \<Rightarrow> SERVER_REFLEXIVE_PREFERENCE
      | Relayed \<Rightarrow> RELAYED_PREFERENCE)"

definition candidate_priority :: "u8 \<Rightarrow> u16 \<Rightarrow> component_id \<Rightarrow> priority" where
  "candidate_priority tp lp component =
     (let tp = (ucast (min tp MAX_TYPE_PREFERENCE) :: u32);
          raw = push_bit 24 tp + push_bit 8 (ucast lp) + saturating_sub_word 256 (ucast component) in
        unwrap_or (priority_new raw) PRIORITY_MIN)"

definition check_priority :: "u16 \<Rightarrow> component_id \<Rightarrow> priority" where
  "check_priority lp component = candidate_priority PEER_REFLEXIVE_PREFERENCE lp component"

definition pair_priority :: "priority \<Rightarrow> priority \<Rightarrow> u64" where
  "pair_priority controlling controlled =
     (let g = ucast controlling; d = ucast controlled in
        push_bit 32 1 * min g d + 2 * max g d + (if d < g then 1 else 0))"

section \<open>Candidates\<close>

type_synonym local_base = u16
type_synonym local_id = u64
type_synonym remote_id = u64

record candidate_ids =
  ci_local :: u64
  ci_remote :: u64

definition next_local :: "candidate_ids \<Rightarrow> candidate_ids \<times> local_id" where
  "next_local i = (i\<lparr>ci_local := saturating_add_word (ci_local i) 1\<rparr>, ci_local i)"

definition next_remote :: "candidate_ids \<Rightarrow> candidate_ids \<times> remote_id" where
  "next_remote i = (i\<lparr>ci_remote := saturating_add_word (ci_remote i) 1\<rparr>, ci_remote i)"

type_synonym local_foundation = u32

datatype remote_foundation = Signalled foundation | Learned u32

record pair_foundation =
  pf_local :: local_foundation
  pf_remote :: remote_foundation

record gathered =
  ga_base :: local_base
  ga_base_address :: socket_addr
  ga_address :: socket_addr
  ga_related_address :: "socket_addr option"
  ga_kind :: candidate_type
  ga_component :: component_id
  ga_server :: "ip_addr option"

definition gathered_new ::
  "local_base \<Rightarrow> socket_addr \<Rightarrow> socket_addr \<Rightarrow> candidate_type \<Rightarrow> component_id \<Rightarrow> ip_addr option \<Rightarrow> gathered" where
  "gathered_new base base_address address kind component server =
     \<lparr>ga_base = base, ga_base_address = base_address, ga_address = address,
      ga_related_address =
        (case kind of ServerReflexive \<Rightarrow> Some base_address | PeerReflexive \<Rightarrow> Some base_address | _ \<Rightarrow> None),
      ga_kind = kind, ga_component = component, ga_server = server\<rparr>"

record local_candidate =
  lc_id :: local_id
  lc_gathered :: gathered
  lc_foundation :: local_foundation
  lc_preference :: u16
  lc_priority :: priority

definition local_candidate_new :: "local_id \<Rightarrow> gathered \<Rightarrow> local_foundation \<Rightarrow> u16 \<Rightarrow> local_candidate" where
  "local_candidate_new i g f lp =
     \<lparr>lc_id = i, lc_gathered = g, lc_foundation = f, lc_preference = lp,
      lc_priority = candidate_priority (type_preference (ga_kind g)) lp (ga_component g)\<rparr>"

definition lc_check_priority :: "local_candidate \<Rightarrow> priority" where
  "lc_check_priority l = check_priority (lc_preference l) (ga_component (lc_gathered l))"

record remote_candidate =
  rc_id :: remote_id
  rc_address :: socket_addr
  rc_kind :: candidate_type
  rc_component :: component_id
  rc_foundation :: remote_foundation
  rc_priority :: priority

text \<open>There is one transport, so the line is always one that is checked over.\<close>

definition remote_signalled :: "remote_id \<Rightarrow> candidate \<Rightarrow> remote_candidate option" where
  "remote_signalled i c =
     (if cd_transport c \<noteq> Udp then None
      else Some \<lparr>rc_id = i, rc_address = \<lparr>sk_ip = cd_address c, sk_port = cd_port c\<rparr>, rc_kind = cd_kind c,
                 rc_component = cd_component c, rc_foundation = Signalled (cd_foundation c),
                 rc_priority = cd_priority c\<rparr>)"

definition find_local :: "local_candidate list \<Rightarrow> local_id \<Rightarrow> local_candidate option" where
  "find_local ls i = find (\<lambda>l. lc_id l = i) ls"

definition find_remote :: "remote_candidate list \<Rightarrow> remote_id \<Rightarrow> remote_candidate option" where
  "find_remote rs i = find (\<lambda>r. rc_id r = i) rs"

section \<open>Foundations\<close>

record foundation_key =
  fk_kind :: candidate_type
  fk_base_ip :: ip_addr
  fk_server :: "ip_addr option"
  fk_transport :: ice_transport

record foundations =
  fs_keys :: "foundation_key list"
  fs_learned :: u32

definition foundations_new :: foundations where
  "foundations_new = \<lparr>fs_keys = [], fs_learned = 0\<rparr>"

definition foundation_assign :: "foundations \<Rightarrow> gathered \<Rightarrow> ice_transport \<Rightarrow> foundations \<times> local_foundation" where
  "foundation_assign f g t =
     (let key = \<lparr>fk_kind = ga_kind g, fk_base_ip = sk_ip (ga_base_address g), fk_server = ga_server g,
                 fk_transport = t\<rparr>;
          (f, existing) = (case position (\<lambda>k. k = key) (fs_keys f) of
              Some i \<Rightarrow> (f, i)
            | None \<Rightarrow> (f\<lparr>fs_keys := fs_keys f @ [key]\<rparr>, length (fs_keys f))) in
        (f, saturating_add_word (if existing < 2 ^ 32 then of_nat existing else 0xFFFFFFFF) 1))"

definition learn_remote_foundation :: "foundations \<Rightarrow> foundations \<times> remote_foundation" where
  "learn_remote_foundation f =
     (let n = saturating_add_word (fs_learned f) 1 in (f\<lparr>fs_learned := n\<rparr>, Learned n))"

section \<open>Local preferences\<close>

text \<open>The order of \<open>IpAddr\<close>: IPv4 first, then by octets, which is by value.\<close>

definition ip_key :: "ip_addr \<Rightarrow> nat \<times> nat" where
  "ip_key ip =
     (case ip of
        V4 os \<Rightarrow> (0, foldl (\<lambda>n o'. n * 256 + unat o') 0 os)
      | V6 segs \<Rightarrow> (1, foldl (\<lambda>n s. n * 65536 + unat s) 0 segs))"

definition preference_group :: "local_candidate \<Rightarrow> nat \<times> nat" where
  "preference_group l =
     (unat (type_preference (ga_kind (lc_gathered l))), unat (ga_component (lc_gathered l)))"

definition preference_key :: "local_candidate \<Rightarrow> (nat \<times> nat) \<times> (nat \<times> nat) \<times> nat" where
  "preference_key l =
     (preference_group l, ip_key (sk_ip (ga_address (lc_gathered l))), unat (sk_port (ga_address (lc_gathered l))))"

fun assign_in_order ::
  "local_candidate list \<Rightarrow> (nat \<times> nat) option \<Rightarrow> u16 \<Rightarrow> nat list \<Rightarrow> local_candidate list" where
  "assign_in_order ls previous preference [] = ls"
| "assign_in_order ls previous preference (i # rest) =
     (let l = ls ! i;
          group = preference_group l;
          preference = (if previous = Some group then saturating_sub_word preference 1
                        else SINGLE_ADDRESS_PREFERENCE) in
        assign_in_order
          (ls[i := l\<lparr>lc_preference := preference,
                    lc_priority := candidate_priority (type_preference (ga_kind (lc_gathered l))) preference
                      (ga_component (lc_gathered l))\<rparr>])
          (Some group) preference rest)"

definition assign_local_preferences :: "local_candidate list \<Rightarrow> local_candidate list" where
  "assign_local_preferences ls =
     assign_in_order ls None SINGLE_ADDRESS_PREFERENCE
       (sort_key (\<lambda>i. preference_key (ls ! i)) [0..<length ls])"

section \<open>What the pair priority tells apart\<close>

text \<open>Every priority a candidate line or a check carries is one that \<open>Priority::new\<close> let through.\<close>

definition priority_ok :: "priority \<Rightarrow> bool" where
  "priority_ok p \<longleftrightarrow> priority_new p = Some p"

lemma priority_ok_iff: "priority_ok p \<longleftrightarrow> 1 \<le> unat p \<and> unat p < 2 ^ 31"
  by (auto simp: priority_ok_def priority_new_def PRIORITY_MAX_def PRIORITY_MIN_def word_le_nat_alt)

lemma ucast_up32_less: "(ucast (p :: u32) :: u64) < ucast (q :: u32) \<longleftrightarrow> unat p < unat q"
  by (simp only: word_less_nat_alt unat_ucast_widen)

lemma unat_priority_formula:
  fixes m x :: u64
  assumes "unat m < 2 ^ 31" and "unat x < 2 ^ 31"
  shows "unat (push_bit 32 1 * m + 2 * x + (if b then 1 else 0)) =
    2 ^ 32 * unat m + 2 * unat x + (if b then 1 else 0)"
  using assms by (simp add: push_bit_eq_mult unat_word_ariths mod_simps)

lemma pair_priority_value:
  assumes "priority_ok g" and "priority_ok d"
  shows "unat (pair_priority g d) =
    2 ^ 32 * min (unat g) (unat d) + 2 * max (unat g) (unat d) + (if unat d < unat g then 1 else 0)"
proof -
  let ?g = "ucast g :: u64" and ?d = "ucast d :: u64"
  have mn: "unat (min ?g ?d) = min (unat g) (unat d)"
    by (simp only: min_def word_le_nat_alt unat_ucast_widen if_distrib [of unat])
  have mx: "unat (max ?g ?d) = max (unat g) (unat d)"
    by (simp only: max_def word_le_nat_alt unat_ucast_widen if_distrib [of unat])
  show ?thesis
    using unat_priority_formula [of "min ?g ?d" "max ?g ?d" "unat d < unat g"] assms
    by (simp add: pair_priority_def Let_def mn mx ucast_up32_less priority_ok_iff min_less_iff_disj
          del: of_nat_add of_nat_mult)
qed

lemma two_digits_unique:
  fixes a b c e q :: nat
  assumes "q * a + b = q * c + e" and "b < q" and "e < q"
  shows "a = c \<and> b = e"
proof -
  have "(q * a + b) div q = a" "(q * c + e) div q = c"
    using assms(2,3) by simp_all
  with assms(1) have "a = c"
    by metis
  with assms(1) show ?thesis
    by simp
qed

lemma min_max_side:
  fixes g d g' d' :: nat
  assumes "min g d = min g' d'"
    and "2 * max g d + (if d < g then 1 else 0) = 2 * max g' d' + (if d' < g' then 1 else 0)"
  shows "g = g' \<and> d = d'"
proof -
  have "max g d = max g' d' \<and> (d < g \<longleftrightarrow> d' < g')"
    using assms(2) by (cases "d < g"; cases "d' < g'") (simp_all, presburger+)
  with assms(1) show ?thesis
    by (cases "d < g"; cases "d' < g'") (auto simp: min_def max_def split: if_splits)
qed

text \<open>
  C29: The pair priority is the RFC's formula over the integers. For any two priorities in range the
  64-bit computation neither wraps nor exceeds 63 bits, and two pairs have the same priority only
  if both their candidates have the same priorities on the same sides.
\<close>

theorem pair_priority_exact:
  assumes "priority_ok g" and "priority_ok d" and "priority_ok g'" and "priority_ok d'"
  shows "unat (pair_priority g d) =
      2 ^ 32 * min (unat g) (unat d) + 2 * max (unat g) (unat d) + (if unat d < unat g then 1 else 0)
    \<and> unat (pair_priority g d) < 2 ^ 63
    \<and> (pair_priority g d = pair_priority g' d' \<longleftrightarrow> g = g' \<and> d = d')"
proof (intro conjI)
  have small: "unat g < 2 ^ 31" "unat d < 2 ^ 31" "unat g' < 2 ^ 31" "unat d' < 2 ^ 31"
    using assms by (simp_all add: priority_ok_iff)
  note v = pair_priority_value [OF assms(1,2)] and v' = pair_priority_value [OF assms(3,4)]
  show "unat (pair_priority g d) =
      2 ^ 32 * min (unat g) (unat d) + 2 * max (unat g) (unat d) + (if unat d < unat g then 1 else 0)"
    by (rule v)
  show "unat (pair_priority g d) < 2 ^ 63"
    unfolding v using small by (auto simp: min_def max_def)
  show "pair_priority g d = pair_priority g' d' \<longleftrightarrow> g = g' \<and> d = d'"
  proof
    let ?low = "\<lambda>a b :: nat. 2 * max a b + (if b < a then 1 else 0)"
    assume "pair_priority g d = pair_priority g' d'"
    then have "2 ^ 32 * min (unat g) (unat d) + ?low (unat g) (unat d) =
        2 ^ 32 * min (unat g') (unat d') + ?low (unat g') (unat d')"
      using v v' by (simp only: add.assoc)
    then have "min (unat g) (unat d) = min (unat g') (unat d')
        \<and> ?low (unat g) (unat d) = ?low (unat g') (unat d')"
      by (rule two_digits_unique) (use small in \<open>auto simp: max_def\<close>)
    then have "unat g = unat g' \<and> unat d = unat d'"
      using min_max_side by blast
    then show "g = g' \<and> d = d'"
      by (simp add: word_unat_eq_iff)
  qed simp
qed

theorem pair_priority_exact_witness:
  "unat (pair_priority 0x7E0000FF 0x7FFFFFFF) = 2 ^ 32 * 0x7E0000FF + 2 * 0x7FFFFFFF
    \<and> pair_priority 0x7E0000FF 0x7FFFFFFF \<noteq> pair_priority 0x7FFFFFFF 0x7E0000FF"
  using pair_priority_exact [of "0x7E0000FF" "0x7FFFFFFF" "0x7FFFFFFF" "0x7E0000FF"]
  by (simp add: priority_ok_iff)

end
