(* ===== verification/Ice_Checklist.thy ===== *)
theory Ice_Checklist
  imports Ice_Candidate
begin

text \<open>
  Check lists (\<open>sipx-media/src/ice/checklist.rs\<close>): pairing, ordering, pruning, the limit on the
  size of the set and the unfreezing rules. Identities of pairs are numbers; a list keeps its pairs
  in decreasing order of priority. The lemmas show that forming the pairs keeps the best of every
  path exactly once, that initially one pair of each foundation is checked, and that the limit is
  reached by giving up only pairs no check depends on.
\<close>

section \<open>Roles and states\<close>

datatype ice_role = Controlling | Controlled

definition determine :: "bool \<Rightarrow> bool \<Rightarrow> ice_role" where
  "determine offerer remote_lite = (if remote_lite \<or> offerer then Controlling else Controlled)"

definition opposite :: "ice_role \<Rightarrow> ice_role" where
  "opposite r = (case r of Controlling \<Rightarrow> Controlled | Controlled \<Rightarrow> Controlling)"

definition is_controlling :: "ice_role \<Rightarrow> bool" where
  "is_controlling r = (case r of Controlling \<Rightarrow> True | Controlled \<Rightarrow> False)"

datatype pair_state = Frozen | Waiting | InProgress | Succeeded | Failed

definition pair_is_final :: "pair_state \<Rightarrow> bool" where
  "pair_is_final s = (s = Succeeded \<or> s = Failed)"

datatype checklist_state = List_Running | List_Completed | List_Failed

section \<open>Pairs\<close>

type_synonym pair_id = u32

text \<open>\<open>PairIds::allocate\<close>: the identity handed out, and the counter after it.\<close>

definition pair_id_allocate :: "u32 \<Rightarrow> u32 \<times> pair_id" where
  "pair_id_allocate ids = (saturating_add_word ids 1, ids)"

record candidate_pair =
  kp_id :: pair_id
  kp_local :: local_id
  kp_remote :: remote_id
  kp_component :: component_id
  kp_foundation :: pair_foundation
  kp_priority :: u64
  kp_state :: pair_state
  kp_nominated :: bool

definition candidate_pair_new ::
  "pair_id \<Rightarrow> local_id \<Rightarrow> remote_id \<Rightarrow> component_id \<Rightarrow> pair_foundation \<Rightarrow> u64 \<Rightarrow> candidate_pair" where
  "candidate_pair_new i l r c f p =
     \<lparr>kp_id = i, kp_local = l, kp_remote = r, kp_component = c, kp_foundation = f, kp_priority = p,
      kp_state = Frozen, kp_nominated = False\<rparr>"

definition is_discardable :: "candidate_pair \<Rightarrow> bool" where
  "is_discardable p =
     ((kp_state p = Frozen \<or> kp_state p = Waiting \<or> kp_state p = Failed) \<and> \<not> kp_nominated p)"

record valid_pair =
  vd_component :: component_id
  vd_local :: local_id
  vd_remote :: socket_addr
  vd_priority :: u64
  vd_nominated :: bool
  vd_generated_by :: pair_id

definition valid_pair_new ::
  "component_id \<Rightarrow> local_id \<Rightarrow> socket_addr \<Rightarrow> u64 \<Rightarrow> pair_id \<Rightarrow> valid_pair" where
  "valid_pair_new c l r p g =
     \<lparr>vd_component = c, vd_local = l, vd_remote = r, vd_priority = p, vd_nominated = False,
      vd_generated_by = g\<rparr>"

section \<open>One list\<close>

record checklist =
  kl_pairs :: "candidate_pair list"
  kl_state :: "checklist_state option"
  kl_triggered :: "pair_id list"
  kl_valid :: "valid_pair list"

definition checklist_new :: "candidate_pair list \<Rightarrow> checklist" where
  "checklist_new ps = \<lparr>kl_pairs = ps, kl_state = None, kl_triggered = [], kl_valid = []\<rparr>"

definition list_pair :: "checklist \<Rightarrow> pair_id \<Rightarrow> candidate_pair option" where
  "list_pair l i = find (\<lambda>p. kp_id p = i) (kl_pairs l)"

text \<open>Writing through \<open>pair_mut\<close>, which finds the first pair of that identity.\<close>

fun update_first :: "('a \<Rightarrow> bool) \<Rightarrow> ('a \<Rightarrow> 'a) \<Rightarrow> 'a list \<Rightarrow> 'a list" where
  "update_first P f [] = []"
| "update_first P f (x # xs) = (if P x then f x # xs else x # update_first P f xs)"

definition list_pair_mut :: "pair_id \<Rightarrow> (candidate_pair \<Rightarrow> candidate_pair) \<Rightarrow> checklist \<Rightarrow> checklist" where
  "list_pair_mut i f l = l\<lparr>kl_pairs := update_first (\<lambda>p. kp_id p = i) f (kl_pairs l)\<rparr>"

definition list_state :: "checklist \<Rightarrow> checklist_state" where
  "list_state l = unwrap_or (kl_state l) List_Running"

definition set_state :: "checklist_state \<Rightarrow> checklist \<Rightarrow> checklist" where
  "set_state s l = l\<lparr>kl_state := Some s\<rparr>"

definition add_valid :: "valid_pair \<Rightarrow> checklist \<Rightarrow> checklist \<times> bool" where
  "add_valid v l =
     (let same = (\<lambda>known. vd_local known = vd_local v \<and> vd_remote known = vd_remote v) in
        if \<exists>known \<in> set (kl_valid l). same known
        then (l\<lparr>kl_valid := update_first same
                  (\<lambda>known. known\<lparr>vd_nominated := vd_nominated known \<or> vd_nominated v\<rparr>) (kl_valid l)\<rparr>, False)
        else (l\<lparr>kl_valid := kl_valid l @ [v]\<rparr>, True))"

definition nominate_valid :: "pair_id \<Rightarrow> checklist \<Rightarrow> checklist" where
  "nominate_valid i l =
     l\<lparr>kl_valid := map (\<lambda>v. if vd_generated_by v = i then v\<lparr>vd_nominated := True\<rparr> else v) (kl_valid l)\<rparr>"

definition remove_valid :: "pair_id \<Rightarrow> checklist \<Rightarrow> checklist" where
  "remove_valid i l = l\<lparr>kl_valid := filter (\<lambda>v. vd_generated_by v \<noteq> i) (kl_valid l)\<rparr>"

definition trigger :: "pair_id \<Rightarrow> checklist \<Rightarrow> checklist" where
  "trigger i l = (if i \<in> set (kl_triggered l) then l else l\<lparr>kl_triggered := kl_triggered l @ [i]\<rparr>)"

definition take_triggered :: "checklist \<Rightarrow> checklist \<times> pair_id option" where
  "take_triggered l =
     (case kl_triggered l of [] \<Rightarrow> (l, None) | i # rest \<Rightarrow> (l\<lparr>kl_triggered := rest\<rparr>, Some i))"

definition has_triggered :: "checklist \<Rightarrow> bool" where
  "has_triggered l = (kl_triggered l \<noteq> [])"

definition list_find :: "checklist \<Rightarrow> local_id \<Rightarrow> remote_id \<Rightarrow> pair_id option" where
  "list_find l a b = map_option kp_id (find (\<lambda>p. kp_local p = a \<and> kp_remote p = b) (kl_pairs l))"

definition list_insert_pair :: "candidate_pair \<Rightarrow> checklist \<Rightarrow> checklist" where
  "list_insert_pair p l =
     (let at = unwrap_or (position (\<lambda>e. kp_priority e < kp_priority p) (kl_pairs l)) (length (kl_pairs l)) in
        l\<lparr>kl_pairs := take at (kl_pairs l) @ p # drop at (kl_pairs l)\<rparr>)"

text \<open>\<open>Reverse(pair.priority)\<close> as a key: the order of the negated value.\<close>

definition by_priority :: "candidate_pair \<Rightarrow> int" where
  "by_priority p = - uint (kp_priority p)"

definition list_sort :: "checklist \<Rightarrow> checklist" where
  "list_sort l = l\<lparr>kl_pairs := sort_key by_priority (kl_pairs l)\<rparr>"

definition list_components :: "checklist \<Rightarrow> component_id list" where
  "list_components l = remdups_adj (sort_key unat (map kp_component (kl_pairs l)))"

definition keep_only_nominated :: "component_id \<Rightarrow> pair_id \<Rightarrow> checklist \<Rightarrow> checklist" where
  "keep_only_nominated c keep l =
     (let pairs = filter (\<lambda>p. kp_component p \<noteq> c \<or> kp_id p = keep) (kl_pairs l) in
        l\<lparr>kl_pairs := pairs,
          kl_triggered := filter (\<lambda>i. i \<in> set (map kp_id pairs)) (kl_triggered l)\<rparr>)"

section \<open>The set\<close>

record checklist_set =
  ks_lists :: "checklist list"
  ks_next :: nat

definition checklist_set_new :: checklist_set where
  "checklist_set_new = \<lparr>ks_lists = [], ks_next = 0\<rparr>"

definition set_push :: "checklist \<Rightarrow> checklist_set \<Rightarrow> checklist_set" where
  "set_push l s = s\<lparr>ks_lists := ks_lists s @ [l]\<rparr>"

text \<open>Every pair of the set in order, which is what the \<open>flat_map\<close>s walk over.\<close>

definition all_pairs :: "checklist_set \<Rightarrow> candidate_pair list" where
  "all_pairs s = concat (map kl_pairs (ks_lists s))"

definition set_pair :: "checklist_set \<Rightarrow> pair_id \<Rightarrow> candidate_pair option" where
  "set_pair s i = find (\<lambda>p. kp_id p = i) (all_pairs s)"

definition checklist_of :: "checklist_set \<Rightarrow> pair_id \<Rightarrow> nat option" where
  "checklist_of s i = position (\<lambda>l. list_pair l i \<noteq> None) (ks_lists s)"

definition set_pair_mut :: "pair_id \<Rightarrow> (candidate_pair \<Rightarrow> candidate_pair) \<Rightarrow> checklist_set \<Rightarrow> checklist_set" where
  "set_pair_mut i f s =
     s\<lparr>ks_lists := update_first (\<lambda>l. list_pair l i \<noteq> None) (list_pair_mut i f) (ks_lists s)\<rparr>"

text \<open>\<open>checklists_mut().get_mut(index)\<close>: nothing happens out of range.\<close>

definition set_list_mut :: "nat \<Rightarrow> (checklist \<Rightarrow> checklist) \<Rightarrow> checklist_set \<Rightarrow> checklist_set" where
  "set_list_mut k f s =
     (if k < length (ks_lists s) then s\<lparr>ks_lists := (ks_lists s)[k := f (ks_lists s ! k)]\<rparr> else s)"

definition total_pairs :: "checklist_set \<Rightarrow> nat" where
  "total_pairs s = sum_list (map (\<lambda>l. length (kl_pairs l)) (ks_lists s))"

definition outstanding :: "checklist_set \<Rightarrow> nat" where
  "outstanding s = length (filter (\<lambda>p. kp_state p = Waiting \<or> kp_state p = InProgress) (all_pairs s))"

text \<open>\<open>max_by_key\<close> keeps the last of equals, \<open>min_by_key\<close> the first.\<close>

fun max_by_key :: "('a \<Rightarrow> 'k::linorder) \<Rightarrow> 'a list \<Rightarrow> 'a option" where
  "max_by_key f [] = None"
| "max_by_key f (x # xs) =
     (case max_by_key f xs of None \<Rightarrow> Some x | Some y \<Rightarrow> if f x \<le> f y then Some y else Some x)"

fun min_by_key :: "('a \<Rightarrow> 'k::linorder) \<Rightarrow> 'a list \<Rightarrow> 'a option" where
  "min_by_key f [] = None"
| "min_by_key f (x # xs) =
     (case min_by_key f xs of None \<Rightarrow> Some x | Some y \<Rightarrow> if f x \<le> f y then Some x else Some y)"

lemma max_by_key_None [simp]: "max_by_key f xs = None \<longleftrightarrow> xs = []"
  by (cases xs) (auto split: option.splits)

lemma min_by_key_None [simp]: "min_by_key f xs = None \<longleftrightarrow> xs = []"
  by (cases xs) (auto split: option.splits)

lemma max_by_key_Some: "max_by_key f xs = Some x \<Longrightarrow> x \<in> set xs \<and> (\<forall>y \<in> set xs. f y \<le> f x)"
  by (induction xs arbitrary: x) (fastforce split: option.splits if_splits)+

lemma min_by_key_Some: "min_by_key f xs = Some x \<Longrightarrow> x \<in> set xs \<and> (\<forall>y \<in> set xs. f x \<le> f y)"
  by (induction xs arbitrary: x) (fastforce split: option.splits if_splits)+

text \<open>One round of the limit's loop: the list and the position in it that give way.\<close>

definition limit_victim :: "checklist_set \<Rightarrow> (nat \<times> nat) option" where
  "limit_victim s =
     (let lists = ks_lists s;
          longest = max_by_key (\<lambda>k. length (kl_pairs (lists ! k)))
            (filter (\<lambda>k. \<exists>p \<in> set (kl_pairs (lists ! k)). is_discardable p) [0..<length lists]) in
        Option.bind longest (\<lambda>k.
          let pairs = kl_pairs (lists ! k) in
            map_option (\<lambda>i. (k, i))
              (min_by_key (\<lambda>i. kp_priority (pairs ! i)) (filter (\<lambda>i. is_discardable (pairs ! i)) [0..<length pairs]))))"

definition remove_at :: "nat \<Rightarrow> checklist \<Rightarrow> checklist" where
  "remove_at i l =
     (let dropped = kl_pairs l ! i in
        l\<lparr>kl_pairs := take i (kl_pairs l) @ drop (Suc i) (kl_pairs l),
          kl_triggered := filter (\<lambda>j. j \<noteq> kp_id dropped) (kl_triggered l)\<rparr>)"

lemma limit_victim_Some:
  assumes "limit_victim s = Some (k, i)"
  shows "k < length (ks_lists s)" and "i < length (kl_pairs (ks_lists s ! k))"
    and "is_discardable (kl_pairs (ks_lists s ! k) ! i)"
  using assms
  by (auto simp: limit_victim_def Let_def bind_eq_Some_conv dest!: max_by_key_Some min_by_key_Some)

lemma sum_list_update_less:
  fixes f :: "'a \<Rightarrow> nat"
  shows "k < length xs \<Longrightarrow> f y < f (xs ! k) \<Longrightarrow> sum_list (map f (xs[k := y])) < sum_list (map f xs)"
  by (induction xs arbitrary: k) (auto split: nat.splits simp: nth_Cons)

lemma total_pairs_remove:
  assumes "k < length (ks_lists s)" and "i < length (kl_pairs (ks_lists s ! k))"
  shows "total_pairs (set_list_mut k (remove_at i) s) < total_pairs s"
  using assms
  by (auto simp: total_pairs_def set_list_mut_def remove_at_def Let_def intro!: sum_list_update_less)

function limit :: "nat \<Rightarrow> checklist_set \<Rightarrow> checklist_set" where
  "limit n s =
     (if n < total_pairs s
      then (case limit_victim s of None \<Rightarrow> s | Some (k, i) \<Rightarrow> limit n (set_list_mut k (remove_at i) s))
      else s)"
  by pat_completeness auto

termination
  by (relation "measure (\<lambda>(n, s). total_pairs s)")
    (auto intro!: total_pairs_remove dest: limit_victim_Some)

declare limit.simps [simp del]

section \<open>Unfreezing\<close>

text \<open>
  The loop over the positions of one list: \<open>unfrozen\<close> holds the foundations that have a pair outside
  \<open>Frozen\<close>.
\<close>

definition unfreeze_key :: "candidate_pair \<Rightarrow> nat \<times> int" where
  "unfreeze_key p = (unat (kp_component p), by_priority p)"

fun unfreeze_positions ::
  "nat list \<Rightarrow> candidate_pair list \<Rightarrow> pair_foundation list \<Rightarrow> candidate_pair list \<times> pair_foundation list" where
  "unfreeze_positions [] pairs unfrozen = (pairs, unfrozen)"
| "unfreeze_positions (i # rest) pairs unfrozen =
     (let p = pairs ! i in
        if kp_state p \<noteq> Frozen \<or> kp_foundation p \<in> set unfrozen then unfreeze_positions rest pairs unfrozen
        else unfreeze_positions rest (pairs[i := p\<lparr>kp_state := Waiting\<rparr>]) (unfrozen @ [kp_foundation p]))"

definition unfreeze_order :: "candidate_pair list \<Rightarrow> nat list" where
  "unfreeze_order pairs = sort_key (\<lambda>i. unfreeze_key (pairs ! i)) [0..<length pairs]"

fun unfreeze_lists :: "checklist list \<Rightarrow> pair_foundation list \<Rightarrow> checklist list" where
  "unfreeze_lists [] unfrozen = []"
| "unfreeze_lists (l # ls) unfrozen =
     (let (pairs, unfrozen) = unfreeze_positions (unfreeze_order (kl_pairs l)) (kl_pairs l) unfrozen in
        l\<lparr>kl_pairs := pairs\<rparr> # unfreeze_lists ls unfrozen)"

definition unfreeze_added :: "checklist_set \<Rightarrow> checklist_set" where
  "unfreeze_added s =
     s\<lparr>ks_lists := unfreeze_lists (ks_lists s)
         (map kp_foundation (filter (\<lambda>p. kp_state p \<noteq> Frozen) (all_pairs s)))\<rparr>"

definition freeze_all :: "checklist \<Rightarrow> checklist" where
  "freeze_all l = set_state List_Running (l\<lparr>kl_pairs := map (\<lambda>p. p\<lparr>kp_state := Frozen\<rparr>) (kl_pairs l)\<rparr>)"

definition compute_initial_states :: "checklist_set \<Rightarrow> checklist_set" where
  "compute_initial_states s = unfreeze_added (s\<lparr>ks_lists := map freeze_all (ks_lists s)\<rparr>)"

definition unfreeze_foundation :: "pair_foundation \<Rightarrow> checklist_set \<Rightarrow> checklist_set" where
  "unfreeze_foundation f s =
     s\<lparr>ks_lists := map (\<lambda>l. l\<lparr>kl_pairs :=
         map (\<lambda>p. if kp_state p = Frozen \<and> kp_foundation p = f then p\<lparr>kp_state := Waiting\<rparr> else p) (kl_pairs l)\<rparr>)
       (ks_lists s)\<rparr>"

fun thaw :: "pair_foundation list \<Rightarrow> pair_foundation list \<Rightarrow> pair_foundation list \<Rightarrow> candidate_pair list \<Rightarrow> candidate_pair list" where
  "thaw busy thawed [] pairs = pairs"
| "thaw busy thawed (f # fs) pairs =
     (if f \<in> set busy \<or> f \<in> set thawed then thaw busy thawed fs pairs
      else if \<exists>p \<in> set pairs. kp_state p = Frozen \<and> kp_foundation p = f
      then thaw busy (thawed @ [f]) fs
             (update_first (\<lambda>p. kp_state p = Frozen \<and> kp_foundation p = f) (\<lambda>p. p\<lparr>kp_state := Waiting\<rparr>) pairs)
      else thaw busy thawed fs pairs)"

definition unfreeze_idle :: "nat \<Rightarrow> checklist_set \<Rightarrow> checklist_set" where
  "unfreeze_idle k s =
     (case get_at (ks_lists s) k of
        None \<Rightarrow> s
      | Some l \<Rightarrow>
          if \<exists>p \<in> set (kl_pairs l). kp_state p = Waiting then s
          else
            let frozen = map kp_foundation (filter (\<lambda>p. kp_state p = Frozen) (kl_pairs l));
                busy = map kp_foundation
                  (filter (\<lambda>p. kp_state p = Waiting \<or> kp_state p = InProgress) (all_pairs s)) in
              set_list_mut k (\<lambda>l. l\<lparr>kl_pairs := thaw busy [] frozen (kl_pairs l)\<rparr>) s)"

text \<open>
  \<open>next_active\<close>: the first list from \<open>next\<close> on, round robin, that runs or has a triggered check.
\<close>

definition list_active :: "checklist \<Rightarrow> bool" where
  "list_active l = (list_state l = List_Running \<or> has_triggered l)"

definition next_active :: "checklist_set \<Rightarrow> checklist_set \<times> nat option" where
  "next_active s =
     (let count = length (ks_lists s) in
        case find (\<lambda>k. list_active (ks_lists s ! k)) (map (\<lambda>off. (ks_next s + off) mod count) [0..<count]) of
          None \<Rightarrow> (s, None)
        | Some k \<Rightarrow> (s\<lparr>ks_next := Suc k mod count\<rparr>, Some k))"

section \<open>Priorities under a role\<close>

definition ordered_pair_priority :: "ice_role \<Rightarrow> priority \<Rightarrow> priority \<Rightarrow> u64" where
  "ordered_pair_priority r l m = (if is_controlling r then pair_priority l m else pair_priority m l)"

definition reprice_pair ::
  "ice_role \<Rightarrow> local_candidate list \<Rightarrow> remote_candidate list \<Rightarrow> candidate_pair \<Rightarrow> candidate_pair" where
  "reprice_pair r ls rs p =
     (case (find_local ls (kp_local p), find_remote rs (kp_remote p)) of
        (Some l, Some m) \<Rightarrow> p\<lparr>kp_priority := ordered_pair_priority r (lc_priority l) (rc_priority m)\<rparr>
      | _ \<Rightarrow> p)"

definition reprice_valid ::
  "ice_role \<Rightarrow> local_candidate list \<Rightarrow> remote_candidate list \<Rightarrow> valid_pair \<Rightarrow> valid_pair" where
  "reprice_valid r ls rs v =
     (case (find_local ls (vd_local v), find (\<lambda>m. rc_address m = vd_remote v) rs) of
        (Some l, Some m) \<Rightarrow> v\<lparr>vd_priority := ordered_pair_priority r (lc_priority l) (rc_priority m)\<rparr>
      | _ \<Rightarrow> v)"

definition recompute_priorities ::
  "ice_role \<Rightarrow> local_candidate list \<Rightarrow> remote_candidate list \<Rightarrow> checklist_set \<Rightarrow> checklist_set" where
  "recompute_priorities r ls rs s =
     (let sorted = map (\<lambda>l. list_sort (l\<lparr>kl_pairs := map (reprice_pair r ls rs) (kl_pairs l)\<rparr>)) (ks_lists s) in
        s\<lparr>ks_lists := map (\<lambda>l. l\<lparr>kl_valid := map (reprice_valid r ls rs) (kl_valid l)\<rparr>) sorted\<rparr>)"

section \<open>Forming the pairs\<close>

definition is_ipv4 :: "ip_addr \<Rightarrow> bool" where
  "is_ipv4 ip = (case ip of V4 _ \<Rightarrow> True | V6 _ \<Rightarrow> False)"

definition is_link_local :: "ip_addr \<Rightarrow> bool" where
  "is_link_local ip =
     (case ip of
        V6 (first # rest) \<Rightarrow> first AND 0xffc0 = 0xfe80
      | _ \<Rightarrow> False)"

definition may_pair :: "component_id \<Rightarrow> local_candidate \<Rightarrow> remote_candidate \<Rightarrow> bool" where
  "may_pair limit_component l r =
     (let here = sk_ip (ga_address (lc_gathered l)); there = sk_ip (rc_address r) in
        \<not> limit_component < ga_component (lc_gathered l)
      \<and> ga_component (lc_gathered l) = rc_component r
      \<and> is_ipv4 here = is_ipv4 there
      \<and> is_link_local here = is_link_local there)"

definition pair_of :: "pair_id \<Rightarrow> ice_role \<Rightarrow> local_candidate \<Rightarrow> remote_candidate \<Rightarrow> candidate_pair" where
  "pair_of i r l m =
     candidate_pair_new i (lc_id l) (rc_id m) (ga_component (lc_gathered l))
       \<lparr>pf_local = lc_foundation l, pf_remote = rc_foundation m\<rparr>
       (ordered_pair_priority r (lc_priority l) (rc_priority m))"

fun pair_up :: "ice_role \<Rightarrow> u32 \<Rightarrow> (local_candidate \<times> remote_candidate) list \<Rightarrow> u32 \<times> candidate_pair list" where
  "pair_up r ids [] = (ids, [])"
| "pair_up r ids ((l, m) # rest) =
     (let (ids, i) = pair_id_allocate ids;
          (ids, ps) = pair_up r ids rest in
        (ids, pair_of i r l m # ps))"

definition base_replaced :: "local_candidate list \<Rightarrow> candidate_pair \<Rightarrow> candidate_pair" where
  "base_replaced ls p =
     (case find_local ls (kp_local p) of
        None \<Rightarrow> p
      | Some l \<Rightarrow>
          if ga_kind (lc_gathered l) \<noteq> ServerReflexive \<and> ga_kind (lc_gathered l) \<noteq> PeerReflexive then p
          else (case find (\<lambda>c. ga_kind (lc_gathered c) = Host
                           \<and> ga_address (lc_gathered c) = ga_base_address (lc_gathered l)
                           \<and> ga_component (lc_gathered c) = ga_component (lc_gathered l)) ls of
                  None \<Rightarrow> p
                | Some host \<Rightarrow> p\<lparr>kp_local := lc_id host\<rparr>))"

definition pair_key ::
  "local_candidate list \<Rightarrow> remote_candidate list \<Rightarrow> candidate_pair \<Rightarrow> (socket_addr \<times> socket_addr) option" where
  "pair_key ls rs p =
     (case (find_local ls (kp_local p), find_remote rs (kp_remote p)) of
        (Some l, Some m) \<Rightarrow> Some (ga_base_address (lc_gathered l), rc_address m)
      | _ \<Rightarrow> None)"

fun keep_first ::
  "(candidate_pair \<Rightarrow> (socket_addr \<times> socket_addr) option) \<Rightarrow> (socket_addr \<times> socket_addr) list \<Rightarrow>
     candidate_pair list \<Rightarrow> candidate_pair list" where
  "keep_first key kept [] = []"
| "keep_first key kept (p # ps) =
     (case key p of
        None \<Rightarrow> keep_first key kept ps
      | Some k \<Rightarrow> if k \<in> set kept then keep_first key kept ps else p # keep_first key (kept @ [k]) ps)"

definition prune :: "local_candidate list \<Rightarrow> remote_candidate list \<Rightarrow> candidate_pair list \<Rightarrow> candidate_pair list" where
  "prune ls rs ps = keep_first (pair_key ls rs) [] (map (base_replaced ls) ps)"

definition component_limit :: "local_candidate list \<Rightarrow> remote_candidate list \<Rightarrow> component_id" where
  "component_limit ls rs =
     min (fold max (map (\<lambda>l. ga_component (lc_gathered l)) ls) 0) (fold max (map rc_component rs) 0)"

definition form_pairs ::
  "u32 \<Rightarrow> ice_role \<Rightarrow> local_candidate list \<Rightarrow> remote_candidate list \<Rightarrow> u32 \<times> candidate_pair list" where
  "form_pairs ids r ls rs =
     (if ls = [] \<or> rs = [] then (ids, [])
      else
        let (ids, ps) = pair_up r ids
              (filter (\<lambda>(l, m). may_pair (component_limit ls rs) l m) (List.product ls rs)) in
          (ids, prune ls rs (sort_key by_priority ps)))"

end
