(* ===== verification/Ice_Pairs.thy ===== *)
theory Ice_Pairs
  imports Ice_Checklist
begin

text \<open>
  What the operations of \<open>Ice_Checklist\<close> promise: forming the pairs keeps every path that can work
  once and at its best priority, the initial states unfreeze one pair of every foundation, and the
  limit gives up only what no check depends on.
\<close>


section \<open>What forming the pairs keeps\<close>

lemma pair_up_set:
  "\<exists>is. length is = length lms \<and> snd (pair_up r ids lms) = map (\<lambda>(i, l, m). pair_of i r l m) (zip is lms)"
proof (induction lms arbitrary: ids)
  case (Cons lm rest)
  obtain l m where lm: "lm = (l, m)"
    by (cases lm)
  let ?next = "fst (pair_id_allocate ids)" and ?i = "snd (pair_id_allocate ids)"
  from Cons.IH [of ?next] obtain "is" where "length is = length rest"
    "snd (pair_up r ?next rest) = map (\<lambda>(i, l, m). pair_of i r l m) (zip is rest)"
    by blast
  then have "length (?i # is) = length (lm # rest)"
    "snd (pair_up r ids (lm # rest)) = map (\<lambda>(i, l, m). pair_of i r l m) (zip (?i # is) (lm # rest))"
    by (simp_all add: lm split_beta Let_def)
  then show ?case
    by blast
qed simp

lemma pair_up_in:
  "p \<in> set (snd (pair_up r ids lms)) \<Longrightarrow> \<exists>i l m. (l, m) \<in> set lms \<and> p = pair_of i r l m"
  using pair_up_set [of lms r ids] by clarsimp (metis set_zip_rightD)

lemma pair_up_onto:
  assumes "(l, m) \<in> set lms"
  shows "\<exists>i. pair_of i r l m \<in> set (snd (pair_up r ids lms))"
proof -
  obtain "is" where "is": "length is = length lms"
    "snd (pair_up r ids lms) = map (\<lambda>(i, l, m). pair_of i r l m) (zip is lms)"
    using pair_up_set by blast
  from assms obtain n where "n < length lms" "lms ! n = (l, m)"
    by (auto simp: in_set_conv_nth)
  with "is"(1) have "(is ! n, l, m) \<in> set (zip is lms)"
    by (force simp: in_set_zip)
  then show ?thesis
    unfolding "is"(2) by force
qed

text \<open>Keeping the first of each key: a sublist whose keys are distinct and are all the keys there were.\<close>

lemma keep_first_subset: "set (keep_first key kept ps) \<subseteq> set ps"
  by (induction ps arbitrary: kept) (auto split: option.splits if_splits)

lemma keep_first_sorted:
  "sorted (map f ps) \<Longrightarrow> sorted (map f (keep_first key kept ps))"
  using keep_first_subset
  by (induction ps arbitrary: kept) (auto split: option.splits, blast+)

lemma keep_first_fresh: "p \<in> set (keep_first key kept ps) \<Longrightarrow> \<exists>k. key p = Some k \<and> k \<notin> set kept"
  by (induction ps arbitrary: kept) (auto split: option.splits if_splits, fastforce)

lemma keep_first_distinct: "distinct (map key (keep_first key kept ps))"
proof (induction ps arbitrary: kept)
  case (Cons p ps)
  have "Some k \<notin> key ` set (keep_first key (kept @ [k]) ps)" for k
    using keep_first_fresh [of _ key "kept @ [k]" ps] by fastforce
  then show ?case
    using Cons by (auto split: option.splits)
qed simp

lemma keep_first_covers:
  assumes "sorted (map f ps)" and "p \<in> set ps" and "key p = Some k" and "k \<notin> set kept"
  shows "\<exists>q \<in> set (keep_first key kept ps). key q = Some k \<and> f q \<le> f p"
  using assms
proof (induction ps arbitrary: kept)
  case (Cons a ps)
  show ?case
  proof (cases "p = a")
    case True
    with Cons.prems show ?thesis
      by simp
  next
    case False
    with Cons.prems have p: "p \<in> set ps" and sorted: "sorted (map f ps)" and le: "f a \<le> f p"
      by auto
    show ?thesis
    proof (cases "key a = Some k")
      case True
      with Cons.prems le show ?thesis
        by auto
    next
      case other: False
      show ?thesis
      proof (cases "key a")
        case None
        with Cons.IH [OF sorted p Cons.prems(3,4)] show ?thesis
          by simp
      next
        case (Some k')
        with other have "k \<notin> set (kept @ [k'])"
          using Cons.prems(4) by simp
        from Cons.IH [OF sorted p Cons.prems(3) this] Cons.IH [OF sorted p Cons.prems(3,4)] Some show ?thesis
          by auto
      qed
    qed
  qed
qed simp

lemma base_replaced_simps [simp]:
  "kp_priority (base_replaced ls p) = kp_priority p" "kp_remote (base_replaced ls p) = kp_remote p"
  "by_priority (base_replaced ls p) = by_priority p"
  by (auto simp: base_replaced_def by_priority_def split: option.splits)

lemma find_local_mem: "l \<in> set ls \<Longrightarrow> \<exists>l'. find_local ls (lc_id l) = Some l'"
  unfolding find_local_def by (metis (mono_tags, lifting) find_None_iff not_None_eq)

lemma find_remote_mem: "m \<in> set rs \<Longrightarrow> \<exists>m'. find_remote rs (rc_id m) = Some m'"
  unfolding find_remote_def by (metis (mono_tags, lifting) find_None_iff not_None_eq)

lemma pair_key_id:
  "pair_key ls rs (base_replaced ls (pair_of i r l m)) = pair_key ls rs (base_replaced ls (pair_of j r l m))"
  by (auto simp: pair_key_def base_replaced_def pair_of_def candidate_pair_new_def split: option.splits)

lemma base_replaced_local:
  assumes "find_local ls (kp_local p) \<noteq> None"
  shows "find_local ls (kp_local (base_replaced ls p)) \<noteq> None"
proof (cases "base_replaced ls p = p")
  case True
  with assms show ?thesis
    by simp
next
  case False
  then obtain host where "host \<in> set ls" "kp_local (base_replaced ls p) = lc_id host"
    unfolding base_replaced_def
    by (auto split: option.splits if_splits dest!: find_Some_iff [THEN iffD1] simp: in_set_conv_nth)
  then show ?thesis
    using find_local_mem by (metis option.distinct(1))
qed

lemma pair_key_some:
  assumes "l \<in> set ls" and "m \<in> set rs"
  shows "\<exists>k. pair_key ls rs (base_replaced ls (pair_of i r l m)) = Some k"
proof -
  let ?p = "base_replaced ls (pair_of i r l m)"
  obtain l' where "find_local ls (kp_local ?p) = Some l'"
    using base_replaced_local [of ls "pair_of i r l m"] find_local_mem [OF assms(1)]
    by (auto simp: pair_of_def candidate_pair_new_def)
  moreover obtain m' where "find_remote rs (kp_remote ?p) = Some m'"
    using find_remote_mem [OF assms(2)] by (auto simp: pair_of_def candidate_pair_new_def)
  ultimately show ?thesis
    by (simp add: pair_key_def)
qed

definition compatible :: "local_candidate list \<Rightarrow> remote_candidate list \<Rightarrow> (local_candidate \<times> remote_candidate) list" where
  "compatible ls rs = filter (\<lambda>(l, m). may_pair (component_limit ls rs) l m) (List.product ls rs)"

lemma product_Nil [simp]: "List.product xs [] = []"
  by (induction xs) auto

lemma form_pairs_eq:
  "snd (form_pairs ids r ls rs) = prune ls rs (sort_key by_priority (snd (pair_up r ids (compatible ls rs))))"
  by (auto simp: form_pairs_def compatible_def Let_def split_beta prune_def)

text \<open>
  C26: The pairs a description and the local candidates form are exactly the paths that can work,
  each once and at its best. Every pair comes from a compatible couple of candidates, starts Frozen
  and not nominated, and has its reflexive local candidate replaced by its base. The pairs are in
  decreasing order of priority; no two send from the same base to the same address; and for every
  compatible couple there is a pair over its base and its remote address whose priority is at
  least the couple's own.
\<close>

theorem form_pairs_best_once:
  "sorted (map by_priority (snd (form_pairs ids r ls rs))) \<and>
   distinct (map (pair_key ls rs) (snd (form_pairs ids r ls rs))) \<and>
   (\<forall>p \<in> set (snd (form_pairs ids r ls rs)). \<exists>i l m. (l, m) \<in> set (compatible ls rs) \<and>
      p = base_replaced ls (pair_of i r l m)) \<and>
   (\<forall>(l, m) \<in> set (compatible ls rs). \<exists>p \<in> set (snd (form_pairs ids r ls rs)).
      pair_key ls rs p = pair_key ls rs (base_replaced ls (pair_of 0 r l m)) \<and>
      pair_key ls rs p \<noteq> None \<and>
      ordered_pair_priority r (lc_priority l) (rc_priority m) \<le> kp_priority p)"
proof -
  let ?sorted = "sort_key by_priority (snd (pair_up r ids (compatible ls rs)))"
  let ?ps = "map (base_replaced ls) ?sorted"
  have eq: "snd (form_pairs ids r ls rs) = keep_first (pair_key ls rs) [] ?ps"
    by (simp add: form_pairs_eq prune_def)
  have sorted: "sorted (map by_priority ?ps)"
    by (simp add: o_def)
  have covers: "\<exists>p \<in> set (snd (form_pairs ids r ls rs)).
      pair_key ls rs p = pair_key ls rs (base_replaced ls (pair_of 0 r l m)) \<and> pair_key ls rs p \<noteq> None \<and>
      ordered_pair_priority r (lc_priority l) (rc_priority m) \<le> kp_priority p"
    if couple: "(l, m) \<in> set (compatible ls rs)" for l m
  proof -
    obtain i where "pair_of i r l m \<in> set ?sorted"
      using pair_up_onto [OF couple] by fastforce
    then have "base_replaced ls (pair_of i r l m) \<in> set ?ps"
      by simp
    moreover obtain k where k: "pair_key ls rs (base_replaced ls (pair_of i r l m)) = Some k"
      using pair_key_some couple by (fastforce simp: compatible_def)
    ultimately obtain q where q: "q \<in> set (snd (form_pairs ids r ls rs))" "pair_key ls rs q = Some k"
      "by_priority q \<le> by_priority (pair_of i r l m)"
      using keep_first_covers [OF sorted, of "base_replaced ls (pair_of i r l m)" "pair_key ls rs" k "[]"]
      unfolding eq by auto
    from q(3) have "ordered_pair_priority r (lc_priority l) (rc_priority m) \<le> kp_priority q"
      by (simp add: by_priority_def pair_of_def candidate_pair_new_def word_le_def)
    with q k pair_key_id [of ls rs i r l m 0] show ?thesis
      by (intro bexI [of _ q]) simp_all
  qed
  have sound: "\<exists>i l m. (l, m) \<in> set (compatible ls rs) \<and> p = base_replaced ls (pair_of i r l m)"
    if p: "p \<in> set (snd (form_pairs ids r ls rs))" for p
  proof -
    have "p \<in> set ?ps"
      using p keep_first_subset unfolding eq by fast
    then obtain q where "q \<in> set (snd (pair_up r ids (compatible ls rs)))" "p = base_replaced ls q"
      by auto
    with pair_up_in show ?thesis
      by blast
  qed
  show ?thesis
  proof (intro conjI)
    show "sorted (map by_priority (snd (form_pairs ids r ls rs)))"
      unfolding eq by (rule keep_first_sorted [OF sorted])
    show "distinct (map (pair_key ls rs) (snd (form_pairs ids r ls rs)))"
      unfolding eq by (rule keep_first_distinct)
  qed (use covers sound in blast)+
qed

definition sample_local :: local_candidate where
  "sample_local =
     local_candidate_new 0
       (gathered_new 0 \<lparr>sk_ip = V4 [10, 0, 0, 1], sk_port = 5000\<rparr> \<lparr>sk_ip = V4 [10, 0, 0, 1], sk_port = 5000\<rparr>
         Host 1 None) 1 65535"

definition sample_remote :: remote_candidate where
  "sample_remote =
     \<lparr>rc_id = 0, rc_address = \<lparr>sk_ip = V4 [10, 0, 0, 2], sk_port = 6000\<rparr>, rc_kind = Host, rc_component = 1,
      rc_foundation = Learned 1, rc_priority = 100\<rparr>"

theorem form_pairs_best_once_witness:
  "\<exists>p. p \<in> set (snd (form_pairs 0 Controlled [sample_local] [sample_remote]))
    \<and> pair_key [sample_local] [sample_remote] p \<noteq> None
    \<and> ordered_pair_priority Controlled (lc_priority sample_local) 100 \<le> kp_priority p"
proof -
  have "(sample_local, sample_remote) \<in> set (compatible [sample_local] [sample_remote])"
    by (simp add: compatible_def may_pair_def component_limit_def sample_local_def sample_remote_def
        local_candidate_new_def gathered_new_def is_link_local_def is_ipv4_def)
  then have "\<exists>p \<in> set (snd (form_pairs 0 Controlled [sample_local] [sample_remote])).
      pair_key [sample_local] [sample_remote] p =
        pair_key [sample_local] [sample_remote]
          (base_replaced [sample_local] (pair_of 0 Controlled sample_local sample_remote)) \<and>
      pair_key [sample_local] [sample_remote] p \<noteq> None \<and>
      ordered_pair_priority Controlled (lc_priority sample_local) (rc_priority sample_remote) \<le> kp_priority p"
    using form_pairs_best_once [of 0 Controlled "[sample_local]" "[sample_remote]"] by blast
  then show ?thesis
    by (auto simp: sample_remote_def)
qed


section \<open>Which pairs are unfrozen\<close>

text \<open>A stable sort of positions orders them by key, and by position where the keys are equal.\<close>

definition before :: "('i \<Rightarrow> 'k::linorder) \<Rightarrow> 'i \<Rightarrow> 'i::linorder \<Rightarrow> bool" where
  "before f i j \<longleftrightarrow> (f i, i) < (f j, j)"

lemma before_iff: "before f i j \<longleftrightarrow> f i < f j \<or> f i = f j \<and> i < j"
  by (auto simp: before_def)

lemma insort_before:
  "sorted_wrt (before f) ys \<Longrightarrow> \<forall>y \<in> set ys. x < y \<Longrightarrow> sorted_wrt (before f) (insort_key f x ys)"
  by (induction ys) (fastforce simp: before_iff set_insort_key)+

lemma sort_before: "sorted_wrt (<) xs \<Longrightarrow> sorted_wrt (before f) (sort_key f xs)"
  by (induction xs) (auto simp: insort_before)

lemma unfreeze_order_sorted: "sorted_wrt (before (\<lambda>i. unfreeze_key (ps ! i))) (unfreeze_order ps)"
  unfolding unfreeze_order_def by (rule sort_before) (simp add: sorted_wrt_upt)

lemma unfreeze_order_set [simp]: "set (unfreeze_order ps) = {0..<length ps}"
  by (simp add: unfreeze_order_def)

text \<open>The pair that is first among the Frozen ones of its foundation at the positions \<open>is\<close>.\<close>

definition first_frozen :: "(nat \<Rightarrow> nat \<Rightarrow> bool) \<Rightarrow> nat set \<Rightarrow> candidate_pair list \<Rightarrow> nat \<Rightarrow> bool" where
  "first_frozen R is ps i \<longleftrightarrow>
     i \<in> is \<and> kp_state (ps ! i) = Frozen \<and>
     (\<forall>j \<in> is. kp_state (ps ! j) = Frozen \<and> kp_foundation (ps ! j) = kp_foundation (ps ! i) \<longrightarrow> j = i \<or> R i j)"

definition frozen_foundations :: "candidate_pair list \<Rightarrow> nat set \<Rightarrow> pair_foundation set" where
  "frozen_foundations ps is = {kp_foundation (ps ! i) | i. i \<in> is \<and> kp_state (ps ! i) = Frozen}"

lemma unfreeze_positions_spec:
  assumes "sorted_wrt R is" and "\<forall>i \<in> set is. i < length ps" and irrefl: "\<And>i. \<not> R i i"
    and asym: "\<And>i j. R i j \<Longrightarrow> \<not> R j i"
  shows "(case unfreeze_positions is ps U of (ps', U') \<Rightarrow>
      length ps' = length ps \<and>
      set U' = set U \<union> frozen_foundations ps (set is) \<and>
      (\<forall>i < length ps. ps' ! i =
        (if first_frozen R (set is) ps i \<and> kp_foundation (ps ! i) \<notin> set U
         then (ps ! i)\<lparr>kp_state := Waiting\<rparr> else ps ! i)))"
  using assms(1,2)
proof (induction "is" arbitrary: ps U)
  case Nil
  then show ?case
    by (simp add: first_frozen_def frozen_foundations_def)
next
  case (Cons a rest)
  let ?p = "ps ! a"
  have a: "a < length ps" "a \<notin> set rest" and rest: "sorted_wrt R rest" "\<And>j. j \<in> set rest \<Longrightarrow> R a j \<and> \<not> R j a"
    using Cons.prems irrefl asym by auto
  show ?case
  proof (cases "kp_state ?p \<noteq> Frozen \<or> kp_foundation ?p \<in> set U")
    case skip: True
    have sel: "first_frozen R (insert a (set rest)) ps i \<and> kp_foundation (ps ! i) \<notin> set U
        \<longleftrightarrow> first_frozen R (set rest) ps i \<and> kp_foundation (ps ! i) \<notin> set U" for i
      using skip a(2) by (auto simp: first_frozen_def)
    have fnd: "set U \<union> frozen_foundations ps (insert a (set rest)) = set U \<union> frozen_foundations ps (set rest)"
      using skip by (auto simp: frozen_foundations_def)
    from Cons.IH [OF rest(1), of ps U] Cons.prems(2) skip show ?thesis
      by (auto simp: sel fnd split: prod.splits)
  next
    case pick: False
    let ?ps = "ps[a := ?p\<lparr>kp_state := Waiting\<rparr>]" and ?U = "U @ [kp_foundation ?p]"
    have same: "?ps ! j = ps ! j" if "j \<noteq> a" for j
      using that by simp
    have at_a: "?ps ! a = ?p\<lparr>kp_state := Waiting\<rparr>"
      using a by simp
    have fnd: "set ?U \<union> frozen_foundations ?ps (set rest) = set U \<union> frozen_foundations ps (insert a (set rest))"
      using pick a by (auto simp: frozen_foundations_def same) (metis same)+
    have sel: "(if first_frozen R (set rest) ?ps i \<and> kp_foundation (?ps ! i) \<notin> set ?U
         then (?ps ! i)\<lparr>kp_state := Waiting\<rparr> else ?ps ! i) =
       (if first_frozen R (insert a (set rest)) ps i \<and> kp_foundation (ps ! i) \<notin> set U
         then (ps ! i)\<lparr>kp_state := Waiting\<rparr> else ps ! i)" (is "?l = ?r") if "i < length ps" for i
    proof (cases "i = a")
      case True
      have "first_frozen R (insert a (set rest)) ps a"
        using pick rest(2) by (auto simp: first_frozen_def)
      moreover have "\<not> first_frozen R (set rest) ?ps a"
        using a by (simp add: first_frozen_def)
      ultimately show ?thesis
        using True pick at_a by simp
    next
      case False
      have "first_frozen R (set rest) ?ps i \<and> kp_foundation (?ps ! i) \<notin> set ?U \<longleftrightarrow>
          first_frozen R (insert a (set rest)) ps i \<and> kp_foundation (ps ! i) \<notin> set U"
      proof -
        have ne: "j \<noteq> a" if "j \<in> set rest" for j
          using that a by auto
        show ?thesis
          using False a pick rest(2) ne by (auto simp: first_frozen_def same)
      qed
      then show ?thesis
        using False by (simp add: same)
    qed
    from Cons.IH [OF rest(1), of ?ps ?U] Cons.prems(2) pick show ?thesis
      using sel fnd by (auto simp: Let_def split: prod.splits)
  qed
qed

text \<open>The same over the lists, in order.\<close>

abbreviation list_first :: "checklist \<Rightarrow> nat \<Rightarrow> bool" where
  "list_first l \<equiv> first_frozen (before (\<lambda>i. unfreeze_key (kl_pairs l ! i))) {0..<length (kl_pairs l)} (kl_pairs l)"

abbreviation list_frozen :: "checklist \<Rightarrow> pair_foundation set" where
  "list_frozen l \<equiv> frozen_foundations (kl_pairs l) {0..<length (kl_pairs l)}"

lemma unfreeze_list_spec:
  "(case unfreeze_positions (unfreeze_order (kl_pairs l)) (kl_pairs l) U of (ps', U') \<Rightarrow>
      length ps' = length (kl_pairs l) \<and> set U' = set U \<union> list_frozen l \<and>
      (\<forall>i < length (kl_pairs l). ps' ! i =
        (if list_first l i \<and> kp_foundation (kl_pairs l ! i) \<notin> set U
         then (kl_pairs l ! i)\<lparr>kp_state := Waiting\<rparr> else kl_pairs l ! i)))"
proof -
  have "case unfreeze_positions (unfreeze_order (kl_pairs l)) (kl_pairs l) U of (ps', U') \<Rightarrow>
      length ps' = length (kl_pairs l) \<and>
      set U' = set U \<union> frozen_foundations (kl_pairs l) (set (unfreeze_order (kl_pairs l))) \<and>
      (\<forall>i < length (kl_pairs l). ps' ! i =
        (if first_frozen (before (\<lambda>i. unfreeze_key (kl_pairs l ! i))) (set (unfreeze_order (kl_pairs l))) (kl_pairs l) i
            \<and> kp_foundation (kl_pairs l ! i) \<notin> set U
         then (kl_pairs l ! i)\<lparr>kp_state := Waiting\<rparr> else kl_pairs l ! i))"
    by (rule unfreeze_positions_spec [OF unfreeze_order_sorted]) (auto simp: before_iff)
  then show ?thesis
    unfolding unfreeze_order_set .
qed

lemma unfreeze_lists_spec:
  "length (unfreeze_lists ls U) = length ls \<and>
   (\<forall>k < length ls. \<exists>ps'. unfreeze_lists ls U ! k = (ls ! k)\<lparr>kl_pairs := ps'\<rparr> \<and>
      length ps' = length (kl_pairs (ls ! k)) \<and>
      (\<forall>i < length (kl_pairs (ls ! k)). ps' ! i =
        (if list_first (ls ! k) i \<and>
            kp_foundation (kl_pairs (ls ! k) ! i) \<notin> set U \<union> (\<Union>j<k. list_frozen (ls ! j))
         then (kl_pairs (ls ! k) ! i)\<lparr>kp_state := Waiting\<rparr> else kl_pairs (ls ! k) ! i)))"
proof (induction ls arbitrary: U)
  case (Cons l ls)
  obtain ps' U' where here: "unfreeze_positions (unfreeze_order (kl_pairs l)) (kl_pairs l) U = (ps', U')"
    by fastforce
  have spec: "length ps' = length (kl_pairs l)" "set U' = set U \<union> list_frozen l"
    "\<forall>i < length (kl_pairs l). ps' ! i =
        (if list_first l i \<and> kp_foundation (kl_pairs l ! i) \<notin> set U
         then (kl_pairs l ! i)\<lparr>kp_state := Waiting\<rparr> else kl_pairs l ! i)"
    using unfreeze_list_spec [of l U] by (simp_all add: here)
  have union: "set U' \<union> (\<Union>j<k. list_frozen (ls ! j)) = set U \<union> (\<Union>j<Suc k. list_frozen ((l # ls) ! j))" for k
    by (subst lessThan_Suc_eq_insert_0) (simp add: spec(2) image_image Un_assoc)
  have run: "unfreeze_lists (l # ls) U = l\<lparr>kl_pairs := ps'\<rparr> # unfreeze_lists ls U'"
    by (simp add: here)
  show ?case
  proof (intro conjI allI impI)
    show "length (unfreeze_lists (l # ls) U) = length (l # ls)"
      by (simp del: unfreeze_lists.simps add: run conjunct1 [OF Cons.IH])
  next
    fix k assume k: "k < length (l # ls)"
    show "\<exists>ps'. unfreeze_lists (l # ls) U ! k = ((l # ls) ! k)\<lparr>kl_pairs := ps'\<rparr> \<and>
      length ps' = length (kl_pairs ((l # ls) ! k)) \<and>
      (\<forall>i < length (kl_pairs ((l # ls) ! k)). ps' ! i =
        (if list_first ((l # ls) ! k) i \<and>
            kp_foundation (kl_pairs ((l # ls) ! k) ! i) \<notin> set U \<union> (\<Union>j<k. list_frozen ((l # ls) ! j))
         then (kl_pairs ((l # ls) ! k) ! i)\<lparr>kp_state := Waiting\<rparr> else kl_pairs ((l # ls) ! k) ! i))"
    proof (cases k)
      case 0
      with spec show ?thesis
        unfolding run by auto
    next
      case (Suc k')
      with k have "k' < length ls"
        by simp
      with Cons.IH [of U'] show ?thesis
        unfolding run Suc nth_Cons_Suc union by blast
    qed
  qed
qed simp

text \<open>Where a pair stands in the order in which the set is unfrozen.\<close>

definition unfreeze_rank :: "checklist_set \<Rightarrow> nat \<Rightarrow> nat \<Rightarrow> nat \<times> (nat \<times> int) \<times> nat" where
  "unfreeze_rank s k i = (k, unfreeze_key (kl_pairs (ks_lists s ! k) ! i), i)"

definition position_in :: "checklist_set \<Rightarrow> nat \<Rightarrow> nat \<Rightarrow> bool" where
  "position_in s k i \<longleftrightarrow> k < length (ks_lists s) \<and> i < length (kl_pairs (ks_lists s ! k))"

definition pair_at :: "checklist_set \<Rightarrow> nat \<Rightarrow> nat \<Rightarrow> candidate_pair" where
  "pair_at s k i = kl_pairs (ks_lists s ! k) ! i"

lemma all_pairs_iff: "p \<in> set (all_pairs s) \<longleftrightarrow> (\<exists>k i. position_in s k i \<and> p = pair_at s k i)"
  by (simp add: all_pairs_def position_in_def pair_at_def) (metis in_set_conv_nth)

definition is_thawed :: "checklist_set \<Rightarrow> nat \<Rightarrow> nat \<Rightarrow> bool" where
  "is_thawed s k i \<longleftrightarrow>
     (\<forall>k' i'. position_in s k' i' \<and> kp_foundation (pair_at s k' i') = kp_foundation (pair_at s k i) \<longrightarrow>
        kp_state (pair_at s k' i') = Frozen \<and> unfreeze_rank s k i \<le> unfreeze_rank s k' i')"

lemma is_thawed_iff:
  assumes at: "position_in s k i"
  defines "f \<equiv> kp_foundation (pair_at s k i)"
  shows "is_thawed s k i \<longleftrightarrow>
    list_first (ks_lists s ! k) i \<and>
    f \<notin> set (map kp_foundation (filter (\<lambda>p. kp_state p \<noteq> Frozen) (all_pairs s))) \<union>
      (\<Union>j<k. list_frozen (ks_lists s ! j))"
    (is "_ \<longleftrightarrow> ?first \<and> f \<notin> ?busy \<union> ?earlier")
proof
  assume thawed: "is_thawed s k i"
  then have all: "kp_state (pair_at s k' i') = Frozen" "unfreeze_rank s k i \<le> unfreeze_rank s k' i'"
    if "position_in s k' i'" "kp_foundation (pair_at s k' i') = f" for k' i'
    using that by (auto simp: is_thawed_def f_def)
  have "f \<notin> ?busy"
    using all(1) by (auto simp: all_pairs_iff)
  moreover have "f \<notin> ?earlier"
  proof
    assume "f \<in> ?earlier"
    then obtain j i' where "j < k" "i' < length (kl_pairs (ks_lists s ! j))" "kp_foundation (pair_at s j i') = f"
      by (auto simp: frozen_foundations_def pair_at_def)
    with all(2) [of j i'] at show False
      by (simp add: position_in_def unfreeze_rank_def less_eq_prod_def)
  qed
  moreover have ?first
    unfolding first_frozen_def
  proof (intro conjI ballI impI)
    show "i \<in> {0..<length (kl_pairs (ks_lists s ! k))}"
      using at by (simp add: position_in_def)
    show "kp_state (kl_pairs (ks_lists s ! k) ! i) = Frozen"
      using all(1) [of k i] at by (simp add: pair_at_def f_def)
    fix i'
    assume i': "i' \<in> {0..<length (kl_pairs (ks_lists s ! k))}"
      "kp_state (kl_pairs (ks_lists s ! k) ! i') = Frozen \<and>
       kp_foundation (kl_pairs (ks_lists s ! k) ! i') = kp_foundation (kl_pairs (ks_lists s ! k) ! i)"
    with at have "unfreeze_rank s k i \<le> unfreeze_rank s k i'"
      by (intro all(2)) (simp_all add: position_in_def pair_at_def f_def)
    then show "i' = i \<or> before (\<lambda>i. unfreeze_key (kl_pairs (ks_lists s ! k) ! i)) i i'"
      by (auto simp: unfreeze_rank_def before_def)
  qed
  ultimately show "?first \<and> f \<notin> ?busy \<union> ?earlier"
    by blast
next
  assume r: "?first \<and> f \<notin> ?busy \<union> ?earlier"
  show "is_thawed s k i"
    unfolding is_thawed_def
  proof (intro allI impI)
    fix k' i'
    assume other: "position_in s k' i' \<and> kp_foundation (pair_at s k' i') = kp_foundation (pair_at s k i)"
    have frozen: "kp_state (pair_at s k' i') = Frozen"
    proof (rule ccontr)
      assume "kp_state (pair_at s k' i') \<noteq> Frozen"
      moreover have "pair_at s k' i' \<in> set (all_pairs s)"
        using other by (auto simp: all_pairs_iff)
      ultimately have "kp_foundation (pair_at s k' i') \<in> ?busy"
        by simp
      with r other show False
        by (simp add: f_def)
    qed
    have "\<not> k' < k"
    proof
      assume "k' < k"
      moreover have "f \<in> list_frozen (ks_lists s ! k')"
        using other frozen
        by (auto simp: frozen_foundations_def position_in_def pair_at_def f_def intro!: exI [of _ i'])
      ultimately show False
        using r by blast
    qed
    moreover have "unfreeze_rank s k i \<le> unfreeze_rank s k' i'" if "k' = k"
      using r other frozen that
      by (auto simp: first_frozen_def position_in_def pair_at_def unfreeze_rank_def before_def less_imp_le)
    ultimately show "kp_state (pair_at s k' i') = Frozen \<and> unfreeze_rank s k i \<le> unfreeze_rank s k' i'"
      using frozen by (cases "k' = k") (auto simp: unfreeze_rank_def less_eq_prod_def)
  qed
qed

lemma unfreeze_added_spec:
  "length (ks_lists (unfreeze_added s)) = length (ks_lists s)"
  "position_in (unfreeze_added s) k i \<longleftrightarrow> position_in s k i"
  "position_in s k i \<Longrightarrow> pair_at (unfreeze_added s) k i =
     (if is_thawed s k i then (pair_at s k i)\<lparr>kp_state := Waiting\<rparr> else pair_at s k i)"
proof -
  let ?U = "map kp_foundation (filter (\<lambda>p. kp_state p \<noteq> Frozen) (all_pairs s))"
  have len: "length (unfreeze_lists (ks_lists s) ?U) = length (ks_lists s)"
    using unfreeze_lists_spec by blast
  then show "length (ks_lists (unfreeze_added s)) = length (ks_lists s)"
    by (simp add: unfreeze_added_def)
  have at: "\<exists>ps'. unfreeze_lists (ks_lists s) ?U ! k = (ks_lists s ! k)\<lparr>kl_pairs := ps'\<rparr> \<and>
      length ps' = length (kl_pairs (ks_lists s ! k)) \<and>
      (\<forall>i < length (kl_pairs (ks_lists s ! k)). ps' ! i =
        (if is_thawed s k i then (pair_at s k i)\<lparr>kp_state := Waiting\<rparr> else pair_at s k i))"
    if k: "k < length (ks_lists s)" for k
  proof -
    from k unfreeze_lists_spec [of "ks_lists s" ?U] obtain ps' where
      "unfreeze_lists (ks_lists s) ?U ! k = (ks_lists s ! k)\<lparr>kl_pairs := ps'\<rparr>"
      "length ps' = length (kl_pairs (ks_lists s ! k))"
      "\<forall>i < length (kl_pairs (ks_lists s ! k)). ps' ! i =
        (if list_first (ks_lists s ! k) i \<and>
            kp_foundation (kl_pairs (ks_lists s ! k) ! i) \<notin> set ?U \<union> (\<Union>j<k. list_frozen (ks_lists s ! j))
         then (kl_pairs (ks_lists s ! k) ! i)\<lparr>kp_state := Waiting\<rparr> else kl_pairs (ks_lists s ! k) ! i)"
      by blast
    moreover have "position_in s k i" if "i < length (kl_pairs (ks_lists s ! k))" for i
      using that k by (simp add: position_in_def)
    ultimately show ?thesis
      using is_thawed_iff [of s k] unfolding pair_at_def by (intro exI [of _ ps']) auto
  qed
  show "position_in (unfreeze_added s) k i \<longleftrightarrow> position_in s k i"
    using len at [of k] by (cases "k < length (ks_lists s)") (auto simp: position_in_def unfreeze_added_def)
  show "pair_at (unfreeze_added s) k i =
     (if is_thawed s k i then (pair_at s k i)\<lparr>kp_state := Waiting\<rparr> else pair_at s k i)"
    if p: "position_in s k i"
    using at [of k] p by (auto simp: position_in_def unfreeze_added_def pair_at_def)
qed

text \<open>The least position of a foundation is the only one that is least.\<close>

definition foundation_first :: "checklist_set \<Rightarrow> nat \<Rightarrow> nat \<Rightarrow> bool" where
  "foundation_first s k i \<longleftrightarrow> (\<forall>k' i'. position_in s k' i' \<and>
     kp_foundation (pair_at s k' i') = kp_foundation (pair_at s k i) \<longrightarrow>
     unfreeze_rank s k i \<le> unfreeze_rank s k' i')"

lemma foundation_first_unique:
  assumes member: "p \<in> set (all_pairs s)"
  shows "\<exists>!(k, i). position_in s k i \<and> kp_foundation (pair_at s k i) = kp_foundation p \<and> foundation_first s k i"
proof -
  let ?Q = "\<lambda>(k, i). position_in s k i \<and> kp_foundation (pair_at s k i) = kp_foundation p"
  obtain k0 i0 where "?Q (k0, i0)"
    using member by (auto simp: all_pairs_iff)
  moreover have "finite {(k, i). ?Q (k, i)}"
    by (rule finite_subset [of _ "Sigma {..<length (ks_lists s)} (\<lambda>k. {..<length (kl_pairs (ks_lists s ! k))})"])
      (auto simp: position_in_def)
  ultimately obtain k i where ki: "?Q (k, i)"
    "\<And>k' i'. ?Q (k', i') \<Longrightarrow> unfreeze_rank s k i \<le> unfreeze_rank s k' i'"
    using arg_min_if_finite [of "{(k, i). ?Q (k, i)}" "\<lambda>(k, i). unfreeze_rank s k i"]
    by (metis (mono_tags, lifting) case_prod_conv empty_iff mem_Collect_eq not_le surj_pair)
  have same: "k' = k \<and> i' = i" if "?Q (k', i')" "foundation_first s k' i'" for k' i'
  proof -
    have "unfreeze_rank s k' i' \<le> unfreeze_rank s k i"
      using that ki(1) unfolding foundation_first_def by auto
    with ki(2) [OF that(1)] have "unfreeze_rank s k' i' = unfreeze_rank s k i"
      by (rule antisym [rotated])
    then show ?thesis
      by (simp add: unfreeze_rank_def)
  qed
  have "foundation_first s k i"
    using ki by (auto simp: foundation_first_def)
  show ?thesis
  proof (rule ex1I [of _ "(k, i)"])
    show "case (k, i) of (k, i) \<Rightarrow> position_in s k i \<and> kp_foundation (pair_at s k i) = kp_foundation p \<and> foundation_first s k i"
      using ki(1) \<open>foundation_first s k i\<close> by simp
    fix x
    assume x: "case x of (k, i) \<Rightarrow> position_in s k i \<and> kp_foundation (pair_at s k i) = kp_foundation p \<and> foundation_first s k i"
    obtain k' i' where "x = (k', i')"
      by (cases x)
    with x same [of k' i'] show "x = (k, i)"
      by simp
  qed
qed

lemma initial_states_pair:
  shows "position_in (compute_initial_states s) k i \<longleftrightarrow> position_in s k i"
    and "position_in s k i \<Longrightarrow> pair_at (compute_initial_states s) k i =
      (pair_at s k i)\<lparr>kp_state := (if foundation_first s k i then Waiting else Frozen)\<rparr>"
proof -
  let ?frozen = "s\<lparr>ks_lists := map freeze_all (ks_lists s)\<rparr>"
  have pos: "position_in ?frozen k i \<longleftrightarrow> position_in s k i" for k i
    by (auto simp: position_in_def freeze_all_def set_state_def)
  have at: "pair_at ?frozen k i = (pair_at s k i)\<lparr>kp_state := Frozen\<rparr>"
    and rank: "unfreeze_rank ?frozen k i = unfreeze_rank s k i" if "position_in s k i" for k i
    using that
    by (simp_all add: position_in_def pair_at_def freeze_all_def set_state_def unfreeze_rank_def
        unfreeze_key_def by_priority_def)
  have thawed: "is_thawed ?frozen k i \<longleftrightarrow> foundation_first s k i" if "position_in s k i" for k i
    using that by (auto simp: is_thawed_def foundation_first_def pos at rank)
  show "position_in (compute_initial_states s) k i \<longleftrightarrow> position_in s k i"
    using unfreeze_added_spec(2) [of ?frozen k i] by (simp add: compute_initial_states_def pos)
  show "pair_at (compute_initial_states s) k i =
      (pair_at s k i)\<lparr>kp_state := (if foundation_first s k i then Waiting else Frozen)\<rparr>" if "position_in s k i"
    using that unfreeze_added_spec(3) [of ?frozen k i]
    by (simp add: compute_initial_states_def pos at thawed)
qed

text \<open>
  C27: The initial states check every path once. Computing them changes nothing but states; a pair is
  Waiting exactly when it is the first of its foundation, in the first list that has one, by the
  lowest component, then the highest priority, then the position, and Frozen otherwise. So every
  foundation in the set has exactly one pair Waiting.
\<close>

theorem initial_states_unfreeze_first:
  "(\<forall>k i. position_in (compute_initial_states s) k i \<longleftrightarrow> position_in s k i) \<and>
   (\<forall>k i. position_in s k i \<longrightarrow>
      pair_at (compute_initial_states s) k i = (pair_at s k i)\<lparr>kp_state :=
        (if \<forall>k' i'. position_in s k' i' \<and>
              kp_foundation (pair_at s k' i') = kp_foundation (pair_at s k i) \<longrightarrow>
              unfreeze_rank s k i \<le> unfreeze_rank s k' i'
         then Waiting else Frozen)\<rparr>) \<and>
   (\<forall>p \<in> set (all_pairs s). \<exists>!(k, i).
      position_in s k i \<and> kp_foundation (pair_at s k i) = kp_foundation p \<and>
      kp_state (pair_at (compute_initial_states s) k i) = Waiting)"
proof (intro conjI allI impI ballI)
  fix p
  assume "p \<in> set (all_pairs s)"
  moreover have "(\<lambda>(k, i). position_in s k i \<and> kp_foundation (pair_at s k i) = kp_foundation p \<and>
      kp_state (pair_at (compute_initial_states s) k i) = Waiting) =
    (\<lambda>(k, i). position_in s k i \<and> kp_foundation (pair_at s k i) = kp_foundation p \<and> foundation_first s k i)"
    by (auto simp: fun_eq_iff initial_states_pair(2) split: if_splits)
  ultimately show "\<exists>!(k, i). position_in s k i \<and> kp_foundation (pair_at s k i) = kp_foundation p \<and>
      kp_state (pair_at (compute_initial_states s) k i) = Waiting"
    using foundation_first_unique by simp
qed (simp_all only: initial_states_pair foundation_first_def)

definition two_paths :: checklist_set where
  "two_paths =
     set_push (checklist_new
       [candidate_pair_new 0 0 0 2 \<lparr>pf_local = 1, pf_remote = Learned 1\<rparr> 9,
        candidate_pair_new 1 1 1 1 \<lparr>pf_local = 1, pf_remote = Learned 1\<rparr> 5]) checklist_set_new"

theorem initial_states_unfreeze_first_witness:
  "kp_state (pair_at (compute_initial_states two_paths) 0 1) = Waiting
    \<and> kp_state (pair_at (compute_initial_states two_paths) 0 0) = Frozen"
proof -
  have at: "position_in two_paths k i \<longleftrightarrow> k = 0 \<and> (i = 0 \<or> i = 1)" for k i
    by (auto simp: position_in_def two_paths_def set_push_def checklist_new_def checklist_set_new_def)
  have key: "unfreeze_rank two_paths 0 0 = (0, (2, - 9), 0)" "unfreeze_rank two_paths 0 1 = (0, (1, - 5), 1)"
    by (simp_all add: unfreeze_rank_def two_paths_def set_push_def checklist_new_def checklist_set_new_def
        unfreeze_key_def by_priority_def candidate_pair_new_def)
  have same: "kp_foundation (pair_at two_paths 0 i) = kp_foundation (pair_at two_paths 0 j)" if "i < 2" "j < 2" for i j
    using that
    by (auto simp: less_2_cases_iff pair_at_def two_paths_def set_push_def checklist_new_def checklist_set_new_def
        candidate_pair_new_def)
  note spec = initial_states_unfreeze_first [of two_paths, THEN conjunct2, THEN conjunct1, THEN spec, THEN spec, THEN mp]
  have "unfreeze_rank two_paths 0 1 < unfreeze_rank two_paths 0 0"
    by (simp add: key del: One_nat_def)
  moreover have "(\<forall>k' i'. position_in two_paths k' i' \<and>
        kp_foundation (pair_at two_paths k' i') = kp_foundation (pair_at two_paths 0 1) \<longrightarrow>
        unfreeze_rank two_paths 0 1 \<le> unfreeze_rank two_paths k' i')"
    using key by (auto simp: at)
  moreover have "\<not> (\<forall>k' i'. position_in two_paths k' i' \<and>
        kp_foundation (pair_at two_paths k' i') = kp_foundation (pair_at two_paths 0 0) \<longrightarrow>
        unfreeze_rank two_paths 0 0 \<le> unfreeze_rank two_paths k' i')"
    using key same [of 1 0] by (auto simp: at simp del: One_nat_def intro!: exI [of _ 0] exI [of _ 1])
  ultimately show ?thesis
    using spec [of 0 0] spec [of 0 1] by (simp add: at del: One_nat_def)
qed


section \<open>What the limit gives up\<close>

definition live_pairs :: "checklist_set \<Rightarrow> candidate_pair list" where
  "live_pairs s = filter (\<lambda>p. \<not> is_discardable p) (all_pairs s)"

lemma concat_update:
  "k < length xss \<Longrightarrow> concat (xss[k := ys]) = concat (take k xss) @ ys @ concat (drop (Suc k) xss)"
  by (simp add: upd_conv_take_nth_drop)

lemma concat_split_at:
  "k < length xss \<Longrightarrow> concat xss = concat (take k xss) @ xss ! k @ concat (drop (Suc k) xss)"
  using concat_update [of k xss "xss ! k"] by simp

lemma total_pairs_all: "total_pairs s = length (all_pairs s)"
  by (simp add: total_pairs_def all_pairs_def length_concat o_def)

lemma live_pairs_le: "length (live_pairs s) \<le> total_pairs s"
  by (simp add: live_pairs_def total_pairs_all)

lemma limit_victim_None: "limit_victim s = None \<longleftrightarrow> (\<forall>p \<in> set (all_pairs s). \<not> is_discardable p)"
proof -
  define ks where
    "ks = filter (\<lambda>k. \<exists>p \<in> set (kl_pairs (ks_lists s ! k)). is_discardable p) [0..<length (ks_lists s)]"
  have "limit_victim s = None \<longleftrightarrow> ks = []"
  proof
    assume none: "limit_victim s = None"
    show "ks = []"
    proof (rule ccontr)
      assume "ks \<noteq> []"
      then obtain k where k: "max_by_key (\<lambda>k. length (kl_pairs (ks_lists s ! k))) ks = Some k"
        by (metis max_by_key_None option.exhaust)
      then have "\<exists>p \<in> set (kl_pairs (ks_lists s ! k)). is_discardable p"
        by (auto simp: ks_def dest!: max_by_key_Some)
      then have "filter (\<lambda>i. is_discardable (kl_pairs (ks_lists s ! k) ! i)) [0..<length (kl_pairs (ks_lists s ! k))] \<noteq> []"
        by (force simp: filter_empty_conv in_set_conv_nth)
      with none k show False
        by (simp add: limit_victim_def Let_def flip: ks_def)
    qed
  qed (simp add: limit_victim_def Let_def flip: ks_def)
  then have "limit_victim s = None \<longleftrightarrow> (\<forall>k < length (ks_lists s). \<forall>p \<in> set (kl_pairs (ks_lists s ! k)). \<not> is_discardable p)"
    by (auto simp: ks_def filter_empty_conv)
  then show ?thesis
    by (auto simp: all_pairs_def all_set_conv_all_nth)
qed

lemma limit_victim_lowest:
  assumes "limit_victim s = Some (k, i)" and "p \<in> set (kl_pairs (ks_lists s ! k))" and "is_discardable p"
  shows "kp_priority (kl_pairs (ks_lists s ! k) ! i) \<le> kp_priority p"
  using assms
  by (fastforce simp: limit_victim_def Let_def bind_eq_Some_conv in_set_conv_nth dest!: max_by_key_Some min_by_key_Some)

lemma remove_step:
  assumes v: "limit_victim s = Some (k, i)"
  defines "s' \<equiv> set_list_mut k (remove_at i) s"
  shows "total_pairs s = Suc (total_pairs s')" and "live_pairs s' = live_pairs s"
    and "length (ks_lists s') = length (ks_lists s)"
    and "set (kl_pairs (ks_lists s' ! j)) \<subseteq> set (kl_pairs (ks_lists s ! j))"
    and "j < length (ks_lists s) \<Longrightarrow> p \<in> set (kl_pairs (ks_lists s ! j)) \<Longrightarrow> p \<notin> set (kl_pairs (ks_lists s' ! j)) \<Longrightarrow>
      j = k \<and> p = kl_pairs (ks_lists s ! k) ! i"
proof -
  let ?ps = "kl_pairs (ks_lists s ! k)"
  have k: "k < length (ks_lists s)" and i: "i < length ?ps" and d: "is_discardable (?ps ! i)"
    using limit_victim_Some [OF v] by auto
  have ps: "?ps = take i ?ps @ ?ps ! i # drop (Suc i) ?ps"
    using i by (rule id_take_nth_drop)
  have lists: "map kl_pairs (ks_lists s') = (map kl_pairs (ks_lists s))[k := take i ?ps @ drop (Suc i) ?ps]"
    using k by (simp add: s'_def set_list_mut_def remove_at_def Let_def map_update)
  have old: "all_pairs s = concat (take k (map kl_pairs (ks_lists s))) @ (take i ?ps @ ?ps ! i # drop (Suc i) ?ps) @
      concat (drop (Suc k) (map kl_pairs (ks_lists s)))"
    using concat_split_at [of k "map kl_pairs (ks_lists s)"] k ps by (simp add: all_pairs_def)
  have "all_pairs s' = concat (take k (map kl_pairs (ks_lists s))) @ (take i ?ps @ drop (Suc i) ?ps) @
      concat (drop (Suc k) (map kl_pairs (ks_lists s)))"
    using k by (simp add: all_pairs_def lists concat_update)
  with old d show "total_pairs s = Suc (total_pairs s')" and "live_pairs s' = live_pairs s"
    by (simp_all add: total_pairs_all live_pairs_def)
  show "length (ks_lists s') = length (ks_lists s)"
    by (simp add: s'_def set_list_mut_def)
  have at: "kl_pairs (ks_lists s' ! j) = (if j = k then take i ?ps @ drop (Suc i) ?ps else kl_pairs (ks_lists s ! j))"
    using k by (simp add: s'_def set_list_mut_def remove_at_def Let_def nth_list_update)
  show "set (kl_pairs (ks_lists s' ! j)) \<subseteq> set (kl_pairs (ks_lists s ! j))"
    by (auto simp: at dest: in_set_takeD in_set_dropD)
  show "j < length (ks_lists s) \<Longrightarrow> p \<in> set (kl_pairs (ks_lists s ! j)) \<Longrightarrow> p \<notin> set (kl_pairs (ks_lists s' ! j)) \<Longrightarrow>
      j = k \<and> p = kl_pairs (ks_lists s ! k) ! i"
  proof -
    assume p: "p \<in> set (kl_pairs (ks_lists s ! j))" "p \<notin> set (kl_pairs (ks_lists s' ! j))"
    then have j: "j = k"
      by (auto simp: at split: if_splits)
    with p(1) have "p \<in> set (take i ?ps @ ?ps ! i # drop (Suc i) ?ps)"
      using ps by simp
    moreover have "p \<notin> set (take i ?ps @ drop (Suc i) ?ps)"
      using p(2) unfolding at using j by simp
    ultimately show ?thesis
      using j by auto
  qed
qed

lemma limit_keeps:
  "total_pairs (limit n s) = max (min n (total_pairs s)) (length (live_pairs s)) \<and>
   live_pairs (limit n s) = live_pairs s \<and>
   (\<forall>k. set (kl_pairs (ks_lists (limit n s) ! k)) \<subseteq> set (kl_pairs (ks_lists s ! k))) \<and>
   (\<forall>k < length (ks_lists s). \<forall>p \<in> set (kl_pairs (ks_lists s ! k)). \<forall>q \<in> set (kl_pairs (ks_lists (limit n s) ! k)).
      p \<notin> set (kl_pairs (ks_lists (limit n s) ! k)) \<and> is_discardable q \<longrightarrow> kp_priority p \<le> kp_priority q)"
  (is "?size n s \<and> ?live n s \<and> ?sub n s \<and> ?low n s")
proof (induction n s rule: limit.induct)
  case (1 n s)
  show ?case
  proof (cases "n < total_pairs s")
    case False
    then have "limit n s = s"
      by (simp add: limit.simps)
    with False live_pairs_le [of s] show ?thesis
      by (simp add: max_absorb1)
  next
    case more: True
    show ?thesis
    proof (cases "limit_victim s")
      case None
      then have "limit n s = s" and "live_pairs s = all_pairs s"
        using more by (simp add: limit.simps) (use None in \<open>simp add: limit_victim_None live_pairs_def\<close>)
      with more show ?thesis
        by (simp add: total_pairs_all)
    next
      case (Some v)
      obtain k i where v: "limit_victim s = Some (k, i)"
        using Some by (cases v) simp
      let ?s = "set_list_mut k (remove_at i) s"
      have run: "limit n s = limit n ?s"
        using more v by (subst limit.simps) simp
      have IH: "?size n ?s" "?live n ?s" "?sub n ?s" "?low n ?s"
        using "1.IH" [OF more v refl] by blast+
      note step = remove_step [OF v]
      have "?size n s"
        using IH(1) step(1,2) more unfolding run by auto
      moreover have "?live n s"
        using IH(2) step(2) by (simp add: run)
      moreover have sub: "?sub n s"
        using IH(3) step(4) unfolding run by blast
      moreover have "?low n s"
      proof (intro allI impI ballI)
        fix j p q
        assume j: "j < length (ks_lists s)" and p: "p \<in> set (kl_pairs (ks_lists s ! j))"
          and q: "q \<in> set (kl_pairs (ks_lists (limit n s) ! j))"
          and gone: "p \<notin> set (kl_pairs (ks_lists (limit n s) ! j)) \<and> is_discardable q"
        show "kp_priority p \<le> kp_priority q"
        proof (cases "p \<in> set (kl_pairs (ks_lists ?s ! j))")
          case True
          then show ?thesis
            using IH(4) j q gone step(3) unfolding run by metis
        next
          case False
          then have "j = k" and "p = kl_pairs (ks_lists s ! k) ! i"
            using step(5) [OF j p] by auto
          moreover have "q \<in> set (kl_pairs (ks_lists s ! j))"
            using sub q by blast
          ultimately show ?thesis
            using limit_victim_lowest [OF v] gone by blast
        qed
      qed
      ultimately show ?thesis
        by blast
    qed
  qed
qed

text \<open>
  C28: The limit gives up as little as it may. Afterwards the set has exactly as many pairs as
  allowed, or as many as no check or nomination depends on, whichever is more, and nothing is
  dropped from a set within the limit. Every pair with a check in flight, a success or a nomination
  is kept in its place, and within a list a pair that is dropped has the lowest priority of those
  that could be.
\<close>

theorem limit_exact:
  "total_pairs (limit n s) = max (min n (total_pairs s)) (length (live_pairs s)) \<and>
   live_pairs (limit n s) = live_pairs s \<and>
   (\<forall>k < length (ks_lists s). \<forall>p \<in> set (kl_pairs (ks_lists s ! k)). \<forall>q \<in> set (kl_pairs (ks_lists (limit n s) ! k)).
      p \<notin> set (kl_pairs (ks_lists (limit n s) ! k)) \<and> is_discardable q \<longrightarrow> kp_priority p \<le> kp_priority q)"
  using limit_keeps [of n s] by blast

theorem limit_exact_witness:
  "total_pairs (limit 1 two_paths) = 1 \<and> live_pairs (limit 1 two_paths) = []"
  using limit_exact [of 1 two_paths]
  by (simp add: total_pairs_all live_pairs_def all_pairs_def two_paths_def set_push_def checklist_set_new_def
      checklist_new_def candidate_pair_new_def is_discardable_def)

end
