(* ===== verification/Ice_Agent.thy ===== *)
theory Ice_Agent
  imports Ice_Checklist Sip_Timing
begin

text \<open>
  The ICE agent (\<open>sipx-media/src/ice/agent.rs\<close>) and its timers (\<open>timing.rs\<close>): a state machine over
  events, one function per method, composed the way the methods call each other. What a method
  pushes to \<open>out\<close> is the list it returns beside the new state. Randomness is a parameter: the
  transaction identities and the fresh tiebreakers the process draws, by the number of the draw,
  which the state counts; so is the keyed hash of STUN.
\<close>

section \<open>Timers\<close>

record ice_timers =
  tn_ta :: duration
  tn_pacing_floor :: duration
  tn_rto_floor :: duration
  tn_rc :: nat
  tn_rm :: nat
  tn_tr :: duration
  tn_tn :: duration

definition ice_timers_default :: ice_timers where
  "ice_timers_default =
     \<lparr>tn_ta = from_millis 50, tn_pacing_floor = from_millis 5, tn_rto_floor = from_millis 500,
      tn_rc = 7, tn_rm = 16, tn_tr = from_secs 15, tn_tn = from_secs 1\<rparr>"

definition ice_pacing_interval :: "ice_timers \<Rightarrow> duration" where
  "ice_pacing_interval t = max (tn_ta t) (tn_pacing_floor t)"

text \<open>The product saturates at \<open>usize\<close>, and what does not fit \<open>u32\<close> is its largest value.\<close>

definition ice_rto :: "ice_timers \<Rightarrow> nat \<Rightarrow> nat \<Rightarrow> duration" where
  "ice_rto t checks busy =
     (let scale = min (checks * busy) (2 ^ 32 - 1) in
        max (saturating_mul (ice_pacing_interval t) scale) (tn_rto_floor t))"

definition ice_final_wait :: "ice_timers \<Rightarrow> duration \<Rightarrow> duration" where
  "ice_final_wait t rto = saturating_mul rto (tn_rm t)"

definition ice_double :: "duration \<Rightarrow> duration" where
  "ice_double rto = saturating_mul rto 2"

section \<open>Events\<close>

definition DEFAULT_PAIR_LIMIT :: nat where
  "DEFAULT_PAIR_LIMIT = 100"

datatype ice_timer = Ta | Retransmit pair_id | Nomination | Keepalive

datatype ice_input =
    RemoteDescription credentials "candidate list" bool
  | LocalCredentials credentials u64
  | LocalCandidate gathered
  | GatheringDone
  | Datagram socket_addr local_base candidate_type bytes
  | DataSent component_id
  | TimerFired ice_timer

datatype ice_output =
    Send_Datagram local_base candidate_type socket_addr bytes
  | Set_Timer ice_timer duration
  | Clear_Timer ice_timer
  | Selected component_id local_base candidate_type socket_addr candidate_type
  | Component_Failed component_id

record ice_config =
  cf_timers :: ice_timers
  cf_pair_limit :: nat

definition ice_config_default :: ice_config where
  "ice_config_default = \<lparr>cf_timers = ice_timers_default, cf_pair_limit = DEFAULT_PAIR_LIMIT\<rparr>"

section \<open>The state\<close>

record ice_transaction =
  ix_id :: transaction_id
  ix_pair :: pair_id
  ix_on :: local_base
  ix_kind :: candidate_type
  ix_from :: socket_addr
  ix_to :: socket_addr
  ix_bytes :: bytes
  ix_priority :: priority
  ix_role :: role_attribute
  ix_nominating :: bool
  ix_attempt :: nat
  ix_rto :: duration
  ix_initial_rto :: duration
  ix_final_wait :: bool
  ix_cancelled :: bool

datatype conflict = No_Conflict | Switched | Reject

datatype phase = Gathering | Gathered | Checking

definition phase_rank :: "phase \<Rightarrow> nat" where
  "phase_rank p = (case p of Gathering \<Rightarrow> 0 | Gathered \<Rightarrow> 1 | Checking \<Rightarrow> 2)"

datatype stopping = Idle | Armed | Elapsed

record selection =
  sl_component :: component_id
  sl_local :: local_base
  sl_local_kind :: candidate_type
  sl_remote :: socket_addr
  sl_priority :: u64

record agent =
  ag_config :: ice_config
  ag_role :: ice_role
  ag_tiebreaker :: u64
  ag_offerer :: bool
  ag_credentials :: credentials
  ag_peering :: "peering option"
  ag_local :: "local_candidate list"
  ag_remote :: "remote_candidate list"
  ag_foundations :: foundations
  ag_ids :: u32
  ag_candidate_ids :: candidate_ids
  ag_ta_armed :: bool
  ag_set :: checklist_set
  ag_transactions :: "ice_transaction list"
  ag_phase :: phase
  ag_nominating :: "(component_id \<times> pair_id) list"
  ag_nominate_on_success :: "pair_id list"
  ag_stopping :: stopping
  ag_selected :: "selection list"
  ag_failed :: "component_id list"
  ag_restart_pending :: bool
  ag_draws :: nat

definition agent_new :: "ice_config \<Rightarrow> bool \<Rightarrow> credentials \<Rightarrow> u64 \<Rightarrow> agent" where
  "agent_new c offerer creds tiebreaker =
     \<lparr>ag_config = c, ag_role = determine offerer False, ag_tiebreaker = tiebreaker, ag_offerer = offerer,
      ag_credentials = creds, ag_peering = None, ag_local = [], ag_remote = [],
      ag_foundations = foundations_new, ag_ids = 0, ag_candidate_ids = \<lparr>ci_local = 0, ci_remote = 0\<rparr>,
      ag_ta_armed = False, ag_set = checklist_set_new, ag_transactions = [], ag_phase = Gathering,
      ag_nominating = [], ag_nominate_on_success = [], ag_stopping = Idle, ag_selected = [],
      ag_failed = [], ag_restart_pending = False, ag_draws = 0\<rparr>"

text \<open>What the process draws, and the hash: parameters.\<close>

record ice_env =
  en_mac :: hmac
  en_transaction_id :: "nat \<Rightarrow> transaction_id"
  en_tiebreaker :: "nat \<Rightarrow> u64 \<Rightarrow> u64"

type_synonym step = "agent \<Rightarrow> agent \<times> ice_output list"

definition stay :: step where
  "stay a = (a, [])"

definition then_do :: "step \<Rightarrow> step \<Rightarrow> step" where
  "then_do f g a = (let (a, out) = f a; (a, more_out) = g a in (a, out @ more_out))"

definition emit :: "ice_output list \<Rightarrow> step" where
  "emit out a = (a, out)"

definition change_set :: "(checklist_set \<Rightarrow> checklist_set) \<Rightarrow> agent \<Rightarrow> agent" where
  "change_set f a = a\<lparr>ag_set := f (ag_set a)\<rparr>"

text \<open>\<open>if let Some(index) = self.set.checklist_of(id) ... list.trigger(id)\<close>.\<close>

definition trigger_pair :: "pair_id \<Rightarrow> checklist_set \<Rightarrow> checklist_set" where
  "trigger_pair i s = (case checklist_of s i of None \<Rightarrow> s | Some k \<Rightarrow> set_list_mut k (trigger i) s)"

definition set_pair_state :: "pair_id \<Rightarrow> pair_state \<Rightarrow> checklist_set \<Rightarrow> checklist_set" where
  "set_pair_state i st = set_pair_mut i (\<lambda>p. p\<lparr>kp_state := st\<rparr>)"

section \<open>Reading the agent\<close>

definition agent_selected :: "agent \<Rightarrow> component_id \<Rightarrow> (local_base \<times> socket_addr) option" where
  "agent_selected a c =
     map_option (\<lambda>s. (sl_local s, sl_remote s)) (find (\<lambda>s. sl_component s = c) (ag_selected a))"

definition selected_remote_candidates :: "agent \<Rightarrow> remote_candidate_value list" where
  "selected_remote_candidates a =
     (if \<not> is_controlling (ag_role a) \<or> ag_restart_pending a \<or> ks_lists (ag_set a) = []
         \<or> list_ex (\<lambda>l. list_state l \<noteq> List_Completed) (ks_lists (ag_set a))
      then []
      else sort_key (\<lambda>c. unat (rcv_component c))
        (map (\<lambda>s. \<lparr>rcv_component = sl_component s, rcv_address = sk_ip (sl_remote s),
                   rcv_port = sk_port (sl_remote s)\<rparr>) (ag_selected a)))"

definition set_is_active :: "checklist_set \<Rightarrow> bool" where
  "set_is_active s \<longleftrightarrow> list_ex list_active (ks_lists s)"

section \<open>Gathering and description\<close>

definition arm_ta :: step where
  "arm_ta a =
     (if ag_ta_armed a then (a, [])
      else (a\<lparr>ag_ta_armed := True\<rparr>, [Set_Timer Ta (ice_pacing_interval (cf_timers (ag_config a)))]))"

definition merge_remote_candidate :: "candidate \<Rightarrow> agent \<times> nat \<Rightarrow> agent \<times> nat" where
  "merge_remote_candidate c = (\<lambda>(a, added).
     case remote_signalled 0 c of
       None \<Rightarrow> (a, added)
     | Some parsed \<Rightarrow>
         if \<exists>known \<in> set (ag_remote a). rc_address known = rc_address parsed
         then (a\<lparr>ag_remote := update_first (\<lambda>known. rc_address known = rc_address parsed)
                   (\<lambda>known. known\<lparr>rc_foundation := rc_foundation parsed, rc_kind := rc_kind parsed,
                                  rc_priority := rc_priority parsed\<rparr>) (ag_remote a)\<rparr>, added)
         else
           let (ids, i) = next_remote (ag_candidate_ids a) in
             (a\<lparr>ag_candidate_ids := ids, ag_remote := ag_remote a @ [parsed\<lparr>rc_id := i\<rparr>]\<rparr>, Suc added))"

definition merge_remote_candidates :: "candidate list \<Rightarrow> agent \<Rightarrow> agent \<times> nat" where
  "merge_remote_candidates cs a = fold merge_remote_candidate cs (a, 0)"

definition ice_restart :: step where
  "ice_restart a =
     (a\<lparr>ag_transactions := [], ag_remote := [], ag_set := checklist_set_new, ag_nominating := [],
        ag_nominate_on_success := [], ag_stopping := Idle, ag_failed := [],
        ag_phase := (if phase_rank (ag_phase a) \<le> 1 then ag_phase a else Gathered), ag_ta_armed := False\<rparr>,
      map (\<lambda>t. Clear_Timer (Retransmit (ix_pair t))) (ag_transactions a) @
        (if ag_ta_armed a then [Clear_Timer Ta] else []))"

definition insert_pair :: "candidate_pair \<Rightarrow> agent \<Rightarrow> agent" where
  "insert_pair p a =
     (case (find_local (ag_local a) (kp_local p), find_remote (ag_remote a) (kp_remote p)) of
        (Some l, Some m) \<Rightarrow>
          let base = ga_base_address (lc_gathered l); remote = rc_address m;
              redundant = list_ex (\<lambda>known.
                (case find_local (ag_local a) (kp_local known) of
                   None \<Rightarrow> False | Some kl \<Rightarrow> ga_base_address (lc_gathered kl) = base)
                \<and> (case find_remote (ag_remote a) (kp_remote known) of
                     None \<Rightarrow> False | Some kr \<Rightarrow> rc_address kr = remote)) (all_pairs (ag_set a)) in
            if redundant then a else change_set (set_list_mut 0 (list_insert_pair p)) a
      | _ \<Rightarrow> a)"

definition forget_unreferenced_remotes :: "agent \<Rightarrow> agent" where
  "forget_unreferenced_remotes a =
     (let addresses = concat (map (\<lambda>l. map vd_remote (kl_valid l)) (ks_lists (ag_set a))) @
            map sl_remote (ag_selected a);
          live = map kp_remote (all_pairs (ag_set a)) @
            map rc_id (filter (\<lambda>c. rc_address c \<in> set addresses) (ag_remote a)) in
        a\<lparr>ag_remote := filter (\<lambda>c. rc_kind c \<noteq> PeerReflexive \<or> rc_id c \<in> set live) (ag_remote a)\<rparr>)"

definition ice_extend :: step where
  "ice_extend a =
     (let paired = map kp_remote (all_pairs (ag_set a));
          fresh = filter (\<lambda>c. rc_id c \<notin> set paired) (ag_remote a) in
        if fresh = [] then (a, [])
        else
          let (ids, ps) = form_pairs (ag_ids a) (ag_role a) (ag_local a) fresh;
              a = fold insert_pair ps (a\<lparr>ag_ids := ids\<rparr>);
              a = forget_unreferenced_remotes (change_set (limit (cf_pair_limit (ag_config a))) a) in
            arm_ta (change_set unfreeze_added a))"

definition add_local_candidate :: "gathered \<Rightarrow> agent \<Rightarrow> agent" where
  "add_local_candidate g a =
     (let (fs, f) = foundation_assign (ag_foundations a) g ice_transport.Udp;
          (ids, i) = next_local (ag_candidate_ids a) in
        a\<lparr>ag_foundations := fs, ag_candidate_ids := ids,
          ag_local := assign_local_preferences (ag_local a @ [local_candidate_new i g f 0])\<rparr>)"

definition ice_start :: step where
  "ice_start a =
     (if ag_phase a \<noteq> Gathered \<or> ag_peering a = None then (a, [])
      else if ag_local a = [] \<or> ag_remote a = [] then (a, [])
      else
        let (ids, ps) = form_pairs (ag_ids a) (ag_role a) (ag_local a) (ag_remote a);
            s = compute_initial_states (limit (cf_pair_limit (ag_config a))
                  (set_push (checklist_new ps) checklist_set_new)) in
          arm_ta (a\<lparr>ag_phase := Checking, ag_ids := ids, ag_set := s\<rparr>))"

definition remote_description :: "credentials \<Rightarrow> candidate list \<Rightarrow> bool \<Rightarrow> step" where
  "remote_description creds cs lite a =
     (let restart = (case ag_peering a of None \<Rightarrow> False
             | Some p \<Rightarrow> cr_ufrag (pe_remote p) \<noteq> cr_ufrag creds \<and> cr_pwd (pe_remote p) \<noteq> cr_pwd creds);
          a = a\<lparr>ag_role := determine (ag_offerer a) lite,
                ag_peering := Some \<lparr>pe_local = ag_credentials a, pe_remote = creds\<rparr>\<rparr>;
          (a, out) = (if restart then ice_restart a else (a, []));
          (a, added) = merge_remote_candidates cs (a\<lparr>ag_restart_pending := False\<rparr>);
          (a, rest) = (if ag_phase a = Checking then (if 0 < added then ice_extend a else (a, []))
                       else ice_start a) in
        (a, out @ rest))"

section \<open>Sending a check\<close>

definition role_attribute_for :: "agent \<Rightarrow> bool \<Rightarrow> role_attribute" where
  "role_attribute_for a nominating =
     (case ag_role a of
        Controlling \<Rightarrow> Attr_Controlling (ag_tiebreaker a) nominating
      | Controlled \<Rightarrow> Attr_Controlled (ag_tiebreaker a))"

definition send_check :: "ice_env \<Rightarrow> pair_id \<Rightarrow> step" where
  "send_check env i a =
     (case (ag_peering a, set_pair (ag_set a) i) of
        (Some peering, Some pair) \<Rightarrow>
          (case (find_local (ag_local a) (kp_local pair), find_remote (ag_remote a) (kp_remote pair)) of
             (Some local, Some remote) \<Rightarrow>
               let g = lc_gathered local;
                   nominating = is_controlling (ag_role a) \<and> (kp_component pair, i) \<in> set (ag_nominating a);
                   role = role_attribute_for a nominating;
                   t = en_transaction_id env (ag_draws a);
                   a = a\<lparr>ag_draws := Suc (ag_draws a)\<rparr> in
                 (case connectivity_check (en_mac env) t peering (lc_check_priority local) role of
                    Inl _ \<Rightarrow> (a, [])
                  | Inr bs \<Rightarrow>
                      let a = change_set (set_pair_state i InProgress) a;
                          rto = ice_rto (cf_timers (ag_config a)) (total_pairs (ag_set a)) (outstanding (ag_set a)) in
                        (a\<lparr>ag_transactions := filter (\<lambda>x. ix_pair x \<noteq> i) (ag_transactions a) @
                            [\<lparr>ix_id = t, ix_pair = i, ix_on = ga_base g, ix_kind = ga_kind g,
                              ix_from = ga_base_address g, ix_to = rc_address remote, ix_bytes = bs,
                              ix_priority = lc_check_priority local, ix_role = role,
                              ix_nominating = nominating, ix_attempt = 1, ix_rto = rto,
                              ix_initial_rto = rto, ix_final_wait = False, ix_cancelled = False\<rparr>]\<rparr>,
                         [Send_Datagram (ga_base g) (ga_kind g) (rc_address remote) bs,
                          Set_Timer (Retransmit i) rto]))
           | _ \<Rightarrow> (a, []))
      | _ \<Rightarrow> (a, []))"

section \<open>Concluding\<close>

text \<open>The loop of \<open>conclude\<close> over the pairs chosen: one component at a time.\<close>

definition best_nominated :: "checklist \<Rightarrow> component_id \<Rightarrow> valid_pair option" where
  "best_nominated l c =
     max_by_key vd_priority (filter (\<lambda>v. vd_component v = c \<and> vd_nominated v) (kl_valid l))"

definition replace_selection :: "selection \<Rightarrow> selection list \<Rightarrow> selection list option" where
  "replace_selection chosen selected =
     (case find (\<lambda>s. sl_component s = sl_component chosen) selected of
        Some known \<Rightarrow>
          if known = chosen \<or> sl_priority chosen \<le> sl_priority known then None
          else Some (update_first (\<lambda>s. sl_component s = sl_component chosen) (\<lambda>_. chosen) selected)
      | None \<Rightarrow> Some (selected @ [chosen]))"

definition drop_other_pairs :: "nat \<Rightarrow> component_id \<Rightarrow> pair_id \<Rightarrow> step" where
  "drop_other_pairs k c keep a =
     (let a = change_set (set_list_mut k (keep_only_nominated c keep)) a;
          live = map kp_id (all_pairs (ag_set a)) in
        (a\<lparr>ag_transactions := filter (\<lambda>x. ix_pair x \<in> set live) (ag_transactions a)\<rparr>,
         map (\<lambda>x. Clear_Timer (Retransmit (ix_pair x))) (filter (\<lambda>x. ix_pair x \<notin> set live) (ag_transactions a))))"

definition select_component :: "nat \<Rightarrow> component_id \<times> valid_pair \<Rightarrow> step" where
  "select_component k = (\<lambda>(c, v) a.
     case find_local (ag_local a) (vd_local v) of
       None \<Rightarrow> (a, [])
     | Some l \<Rightarrow>
         (case Option.bind (set_pair (ag_set a) (vd_generated_by v)) (\<lambda>p. find_remote (ag_remote a) (kp_remote p)) of
            None \<Rightarrow> (a, [])
          | Some remote \<Rightarrow>
              let base = ga_base (lc_gathered l); local_kind = ga_kind (lc_gathered l);
                  chosen = \<lparr>sl_component = c, sl_local = base, sl_local_kind = local_kind,
                            sl_remote = vd_remote v, sl_priority = vd_priority v\<rparr> in
                case replace_selection chosen (ag_selected a) of
                  None \<Rightarrow> (a, [])
                | Some selected \<Rightarrow>
                    then_do
                      (emit [Selected c base local_kind (vd_remote v) (rc_kind remote)])
                      (if is_controlling (ag_role a) then drop_other_pairs k c (vd_generated_by v) else stay)
                      (a\<lparr>ag_selected := selected\<rparr>)))"

fun select_components :: "nat \<Rightarrow> (component_id \<times> valid_pair) list \<Rightarrow> step" where
  "select_components k [] = stay"
| "select_components k (cv # rest) = then_do (select_component k cv) (select_components k rest)"

definition complete_list :: "nat \<Rightarrow> step" where
  "complete_list k a =
     (let a = change_set (set_list_mut k (set_state List_Completed)) a in
        if set_is_active (ag_set a) then (a, [])
        else
          (a\<lparr>ag_transactions := [], ag_ta_armed := False\<rparr>,
           map (\<lambda>x. Clear_Timer (Retransmit (ix_pair x))) (ag_transactions a) @
             [Clear_Timer Ta, Set_Timer Keepalive (tn_tr (cf_timers (ag_config a)))]))"

definition conclude :: "nat \<Rightarrow> step" where
  "conclude k a =
     (case get_at (ks_lists (ag_set a)) k of
        None \<Rightarrow> (a, [])
      | Some l \<Rightarrow>
          let components = list_components l;
              chosen = List.map_filter (\<lambda>c. map_option (\<lambda>v. (c, v)) (best_nominated l c)) components in
            then_do (select_components k chosen)
              (if length chosen = length components \<and> components \<noteq> [] then complete_list k else stay) a)"

definition mark_nominated :: "pair_id \<Rightarrow> step" where
  "mark_nominated i a =
     (case checklist_of (ag_set a) i of
        None \<Rightarrow> (a, [])
      | Some k \<Rightarrow>
          conclude k (change_set (\<lambda>s. set_list_mut k (nominate_valid i)
            (set_pair_mut i (\<lambda>p. p\<lparr>kp_nominated := True\<rparr>) s)) a))"

definition list_covered :: "checklist \<Rightarrow> component_id \<Rightarrow> bool" where
  "list_covered l c \<longleftrightarrow> list_ex (\<lambda>v. vd_component v = c) (kl_valid l)"

definition list_fails :: "checklist \<Rightarrow> bool" where
  "list_fails l \<longleftrightarrow> list_state l = List_Running \<and> list_components l \<noteq> [] \<and>
     list_all (\<lambda>p. pair_is_final (kp_state p)) (kl_pairs l) \<and> \<not> list_all (list_covered l) (list_components l)"

text \<open>The first occurrence of each element, in order.\<close>

fun remdups_in_order :: "'a list \<Rightarrow> 'a list" where
  "remdups_in_order [] = []"
| "remdups_in_order (x # xs) = x # remdups_in_order (removeAll x xs)"

definition update_checklists :: step where
  "update_checklists a =
     (let failing = filter list_fails (ks_lists (ag_set a));
          failed = concat (map (\<lambda>l. filter (\<lambda>c. \<not> list_covered l c) (list_components l)) failing);
          a = change_set (\<lambda>s. s\<lparr>ks_lists :=
                map (\<lambda>l. if list_fails l then set_state List_Failed l else l) (ks_lists s)\<rparr>) a;
          fresh = remdups_in_order (filter (\<lambda>c. c \<notin> set (ag_failed a)) failed) in
        (a\<lparr>ag_failed := ag_failed a @ fresh\<rparr>, map Component_Failed fresh))"

definition best_valid :: "checklist \<Rightarrow> component_id \<Rightarrow> valid_pair option" where
  "best_valid l c = max_by_key vd_priority (filter (\<lambda>v. vd_component v = c) (kl_valid l))"

definition nominations :: "agent \<Rightarrow> nat \<times> checklist \<Rightarrow> (nat \<times> component_id \<times> pair_id) list" where
  "nominations a = (\<lambda>(k, l).
     let components = list_components l;
         best = List.map_filter (\<lambda>c. map_option (\<lambda>v. (c, v)) (best_valid l c)) components;
         settled = list_all (\<lambda>(c, v). list_all (\<lambda>p. kp_state p = Failed)
           (filter (\<lambda>p. kp_component p = c \<and> vd_priority v < kp_priority p) (kl_pairs l))) best in
       if list_state l \<noteq> List_Running \<or> components = [] \<or> length best \<noteq> length components
          \<or> (\<not> settled \<and> ag_stopping a \<noteq> Elapsed)
       then []
       else map (\<lambda>(c, v). (k, c, vd_generated_by v))
         (filter (\<lambda>(c, v). c \<notin> fst ` set (ag_nominating a)) best))"

definition nominate :: "agent \<Rightarrow> agent" where
  "nominate a =
     (if \<not> is_controlling (ag_role a) then a
      else
        let queue = concat (map (nominations a) (enumerate 0 (ks_lists (ag_set a)))) in
          fold (\<lambda>(k, c, i) a.
            change_set (set_list_mut k (trigger i)) (a\<lparr>ag_nominating := ag_nominating a @ [(c, i)]\<rparr>)) queue a)"

definition fail_pair :: "pair_id \<Rightarrow> bool \<Rightarrow> step" where
  "fail_pair i nominating a =
     (let s = set_pair_state i Failed (ag_set a);
          s = (if nominating then
                 (case checklist_of s i of
                    None \<Rightarrow> s
                  | Some k \<Rightarrow> set_list_mut k (\<lambda>l. set_state List_Failed (remove_valid i l)) s)
               else s) in
        update_checklists (a\<lparr>ag_set := s\<rparr>))"

section \<open>The timers\<close>

definition waiting_pair :: "checklist \<Rightarrow> pair_id option" where
  "waiting_pair l =
     map_option kp_id (max_by_key (\<lambda>p. (uint (kp_priority p), - int (unat (kp_component p))))
       (filter (\<lambda>p. kp_state p = Waiting) (kl_pairs l)))"

fun pace_loop :: "ice_env \<Rightarrow> nat \<Rightarrow> step" where
  "pace_loop env 0 a = (a, [])"
| "pace_loop env (Suc n) a =
     (let (s, active) = next_active (ag_set a); a = a\<lparr>ag_set := s\<rparr> in
        case active of
          None \<Rightarrow> (a, [])
        | Some k \<Rightarrow>
            let (l, triggered) = take_triggered (ks_lists (ag_set a) ! k);
                a = change_set (set_list_mut k (\<lambda>_. l)) a in
              (case triggered of
                 Some i \<Rightarrow> send_check env i a
               | None \<Rightarrow>
                   if list_state (ks_lists (ag_set a) ! k) \<noteq> List_Running then pace_loop env n a
                   else
                     let a = change_set (unfreeze_idle k) a in
                       (case waiting_pair (ks_lists (ag_set a) ! k) of
                          Some i \<Rightarrow> send_check env i a
                        | None \<Rightarrow> pace_loop env n a)))"

definition pace :: "ice_env \<Rightarrow> step" where
  "pace env a =
     then_do (pace_loop env (length (ks_lists (ag_set a))))
       (\<lambda>a. if set_is_active (ag_set a) then arm_ta a else (a, []))
       (a\<lparr>ag_ta_armed := False\<rparr>)"

definition ice_retransmit :: "pair_id \<Rightarrow> step" where
  "ice_retransmit i a =
     (case position (\<lambda>x. ix_pair x = i) (ag_transactions a) of
        None \<Rightarrow> (a, [])
      | Some n \<Rightarrow>
          let x = ag_transactions a ! n;
              put = (\<lambda>x. a\<lparr>ag_transactions := (ag_transactions a)[n := x]\<rparr>);
              without = a\<lparr>ag_transactions := take n (ag_transactions a) @ drop (Suc n) (ag_transactions a)\<rparr>;
              timers = cf_timers (ag_config a) in
            if ix_cancelled x then (without, [])
            else if ix_attempt x < tn_rc timers then
              let x = x\<lparr>ix_attempt := Suc (ix_attempt x), ix_rto := ice_double (ix_rto x)\<rparr> in
                (put x, [Send_Datagram (ix_on x) (ix_kind x) (ix_to x) (ix_bytes x),
                         Set_Timer (Retransmit i) (ix_rto x)])
            else if \<not> ix_final_wait x then
              (put (x\<lparr>ix_final_wait := True\<rparr>),
               [Set_Timer (Retransmit i) (ice_final_wait timers (ix_initial_rto x))])
            else fail_pair i (ix_nominating x) without)"

fun keepalive_sends :: "ice_env \<Rightarrow> nat \<Rightarrow> selection list \<Rightarrow> ice_output list" where
  "keepalive_sends env n [] = []"
| "keepalive_sends env n (s # rest) =
     (case stun_keepalive (en_mac env) (en_transaction_id env n) of
        Inl _ \<Rightarrow> []
      | Inr bs \<Rightarrow> [Send_Datagram (sl_local s) (sl_local_kind s) (sl_remote s) bs]) @
     keepalive_sends env (Suc n) rest"

definition ice_keepalive :: "ice_env \<Rightarrow> step" where
  "ice_keepalive env a =
     (a\<lparr>ag_draws := ag_draws a + length (ag_selected a)\<rparr>,
      keepalive_sends env (ag_draws a) (ag_selected a) @
        (if ag_selected a \<noteq> [] then [Set_Timer Keepalive (tn_tr (cf_timers (ag_config a)))] else []))"

definition timer_fired :: "ice_env \<Rightarrow> ice_timer \<Rightarrow> step" where
  "timer_fired env t a =
     (case t of
        Ta \<Rightarrow> pace env a
      | Retransmit i \<Rightarrow> ice_retransmit i a
      | Nomination \<Rightarrow> (nominate (a\<lparr>ag_stopping := Elapsed\<rparr>), [])
      | Keepalive \<Rightarrow> ice_keepalive env a)"

section \<open>An inbound check\<close>

definition switch_role :: "agent \<Rightarrow> agent" where
  "switch_role a =
     (let role = opposite (ag_role a) in
        change_set (recompute_priorities role (ag_local a) (ag_remote a)) (a\<lparr>ag_role := role\<rparr>))"

definition resolve_conflict :: "role_attribute option \<Rightarrow> agent \<Rightarrow> agent \<times> conflict" where
  "resolve_conflict attribute a =
     (case attribute of
        None \<Rightarrow> (a, No_Conflict)
      | Some r \<Rightarrow>
          (case (ag_role a, r) of
             (Controlling, Attr_Controlling theirs _) \<Rightarrow>
               if theirs \<le> ag_tiebreaker a then (a, Reject) else (switch_role a, Switched)
           | (Controlled, Attr_Controlled theirs) \<Rightarrow>
               if theirs \<le> ag_tiebreaker a then (switch_role a, Switched) else (a, Reject)
           | _ \<Rightarrow> (a, No_Conflict)))"

definition base_candidate :: "agent \<Rightarrow> local_base \<Rightarrow> candidate_type \<Rightarrow> local_id option" where
  "base_candidate a on via =
     map_option lc_id
       (case find (\<lambda>l. ga_base (lc_gathered l) = on \<and> ga_kind (lc_gathered l) = via) (ag_local a) of
          Some l \<Rightarrow> Some l
        | None \<Rightarrow> find (\<lambda>l. ga_base (lc_gathered l) = on \<and> ga_kind (lc_gathered l) = Host) (ag_local a))"

definition learn_remote :: "socket_addr \<Rightarrow> component_id \<Rightarrow> priority option \<Rightarrow> agent \<Rightarrow> agent \<times> remote_id" where
  "learn_remote source component claimed a =
     (case find (\<lambda>c. rc_address c = source) (ag_remote a) of
        Some known \<Rightarrow> (a, rc_id known)
      | None \<Rightarrow>
          let (ids, i) = next_remote (ag_candidate_ids a);
              (fs, f) = learn_remote_foundation (ag_foundations a) in
            (a\<lparr>ag_candidate_ids := ids, ag_foundations := fs,
               ag_remote := ag_remote a @
                 [\<lparr>rc_id = i, rc_address = source, rc_kind = PeerReflexive, rc_component = component,
                   rc_foundation = f, rc_priority = unwrap_or claimed PRIORITY_MIN\<rparr>]\<rparr>, i))"

definition build_pair :: "local_id \<Rightarrow> remote_id \<Rightarrow> component_id \<Rightarrow> agent \<Rightarrow> agent \<times> candidate_pair option" where
  "build_pair l r component a =
     (case (find_local (ag_local a) l, find_remote (ag_remote a) r) of
        (Some lc, Some rc) \<Rightarrow>
          let (ids, i) = pair_id_allocate (ag_ids a) in
            (a\<lparr>ag_ids := ids\<rparr>,
             Some (candidate_pair_new i l r component
               \<lparr>pf_local = lc_foundation lc, pf_remote = rc_foundation rc\<rparr>
               (ordered_pair_priority (ag_role a) (lc_priority lc) (rc_priority rc))))
      | _ \<Rightarrow> (a, None))"

text \<open>What \<open>triggered_check\<close> does with the pair once it is in the list.\<close>

definition cancel_transaction :: "pair_id \<Rightarrow> agent \<Rightarrow> agent" where
  "cancel_transaction i a =
     a\<lparr>ag_transactions := update_first (\<lambda>x. ix_pair x = i) (\<lambda>x. x\<lparr>ix_cancelled := True\<rparr>) (ag_transactions a)\<rparr>"

definition trigger_existing :: "pair_id \<Rightarrow> bool \<Rightarrow> step" where
  "trigger_existing i use_it a =
     (case set_pair (ag_set a) i of
        None \<Rightarrow> (a, [])
      | Some pair \<Rightarrow>
          then_do
            (if kp_state pair = Succeeded \<or> kp_nominated pair then stay
             else (\<lambda>a.
               let a = (if kp_state pair = InProgress then cancel_transaction i a else a) in
                 arm_ta (change_set (\<lambda>s. trigger_pair i (set_pair_state i Waiting s)) a)))
            (\<lambda>a.
               if use_it \<and> \<not> is_controlling (ag_role a) then
                 (if kp_state pair = Succeeded then mark_nominated i a
                  else if i \<in> set (ag_nominate_on_success a) then (a, [])
                  else (a\<lparr>ag_nominate_on_success := ag_nominate_on_success a @ [i]\<rparr>, []))
               else (a, [])) a)"

definition triggered_check :: "local_id \<Rightarrow> remote_id \<Rightarrow> component_id \<Rightarrow> bool \<Rightarrow> step" where
  "triggered_check l r component use_it a =
     (case find (\<lambda>p. kp_local p = l \<and> kp_remote p = r) (all_pairs (ag_set a)) of
        Some pair \<Rightarrow> trigger_existing (kp_id pair) use_it a
      | None \<Rightarrow>
          (case build_pair l r component a of
             (a, None) \<Rightarrow> (a, [])
           | (a, Some pair) \<Rightarrow>
               let i = kp_id pair;
                   a = change_set (set_pair_state i Waiting) (insert_pair pair a);
                   a = forget_unreferenced_remotes (change_set (limit (cf_pair_limit (ag_config a))) a) in
                 if set_pair (ag_set a) i = None then (a, [])
                 else then_do (\<lambda>a. arm_ta (change_set (trigger_pair i) a)) (trigger_existing i use_it) a))"

definition reply :: "local_base \<Rightarrow> candidate_type \<Rightarrow> socket_addr \<Rightarrow> (stun_error, bytes) result \<Rightarrow> ice_output list" where
  "reply on via dest encoded = (case encoded of Inl _ \<Rightarrow> [] | Inr bs \<Rightarrow> [Send_Datagram on via dest bs])"

definition check_arrived :: "socket_addr \<Rightarrow> local_base \<Rightarrow> candidate_type \<Rightarrow> stun_message \<Rightarrow> step" where
  "check_arrived source on via m a =
     (if ag_phase a \<noteq> Checking then (a, [])
      else
        (case base_candidate a on via of
           None \<Rightarrow> (a, [])
         | Some l \<Rightarrow>
             (case find_local (ag_local a) l of
                None \<Rightarrow> (a, [])
              | Some lc \<Rightarrow>
                  let component = ga_component (lc_gathered lc);
                      (a, r) = learn_remote source component (stun_priority m) a in
                    triggered_check l r component (use_candidate m) a)))"

definition inbound_check ::
  "ice_env \<Rightarrow> socket_addr \<Rightarrow> local_base \<Rightarrow> candidate_type \<Rightarrow> stun_message \<Rightarrow> step" where
  "inbound_check env source on via m a =
     (case ag_peering a of
        None \<Rightarrow> (a, [])
      | Some peering \<Rightarrow>
          if stun_username m \<noteq> Some (inbound_username peering)
             \<or> \<not> verify_integrity (en_mac env) m (inbound_key peering) then (a, [])
          else
            (case resolve_conflict (stun_role m) a of
               (a, Reject) \<Rightarrow> (a, reply on via source (role_conflict (en_mac env) (sm_transaction m) peering))
             | (a, _) \<Rightarrow>
                 then_do
                   (emit (reply on via source (check_success (en_mac env) (sm_transaction m) peering source)))
                   (check_arrived source on via m) a))"

section \<open>A response\<close>

definition learn_local :: "socket_addr \<Rightarrow> candidate_pair \<Rightarrow> priority \<Rightarrow> agent \<Rightarrow> agent \<times> local_id" where
  "learn_local mapped pair claimed a =
     (case find (\<lambda>l. ga_address (lc_gathered l) = mapped) (ag_local a) of
        Some known \<Rightarrow> (a, lc_id known)
      | None \<Rightarrow>
          (case find_local (ag_local a) (kp_local pair) of
             None \<Rightarrow> (a, kp_local pair)
           | Some base \<Rightarrow>
               let bg = lc_gathered base;
                   g = \<lparr>ga_base = ga_base bg, ga_base_address = ga_base_address bg, ga_address = mapped,
                        ga_related_address = Some (ga_base_address bg), ga_kind = PeerReflexive,
                        ga_component = kp_component pair, ga_server = None\<rparr>;
                   (fs, f) = foundation_assign (ag_foundations a) g ice_transport.Udp;
                   (ids, i) = next_local (ag_candidate_ids a) in
                 (a\<lparr>ag_foundations := fs, ag_candidate_ids := ids,
                    ag_local := ag_local a @
                      [\<lparr>lc_id = i, lc_gathered = g, lc_foundation = f, lc_preference = lc_preference base,
                        lc_priority = claimed\<rparr>]\<rparr>, i)))"

definition record_success :: "ice_transaction \<Rightarrow> stun_message \<Rightarrow> candidate_pair \<Rightarrow> agent \<Rightarrow> agent \<times> bool" where
  "record_success x m pair a =
     (let mapped = unwrap_or (stun_mapped_address m) (ix_from x);
          (a, local) = learn_local mapped pair (ix_priority x) a;
          prio = (case (find_local (ag_local a) local, find_remote (ag_remote a) (kp_remote pair)) of
                    (Some l, Some r) \<Rightarrow> ordered_pair_priority (ag_role a) (lc_priority l) (rc_priority r)
                  | _ \<Rightarrow> kp_priority pair);
          v = valid_pair_new (kp_component pair) local (ix_to x) prio (kp_id pair);
          (s, first_valid) =
            (case checklist_of (ag_set a) (ix_pair x) of
               None \<Rightarrow> (ag_set a, False)
             | Some k \<Rightarrow>
                 let (l, new) = add_valid v (ks_lists (ag_set a) ! k) in
                   (set_list_mut k (\<lambda>_. l) (ag_set a), new));
          s = unfreeze_foundation (kp_foundation pair) (set_pair_state (ix_pair x) Succeeded s) in
        (a\<lparr>ag_set := s\<rparr>, first_valid))"

definition check_succeeded :: "ice_transaction \<Rightarrow> stun_message \<Rightarrow> step" where
  "check_succeeded x m a =
     (case set_pair (ag_set a) (ix_pair x) of
        None \<Rightarrow> (a, [])
      | Some pair \<Rightarrow>
          let (a, first_valid) = record_success x m pair a in
            then_do
              (if ix_nominating x \<or> ix_pair x \<in> set (ag_nominate_on_success a)
               then (\<lambda>a. mark_nominated (ix_pair x)
                      (a\<lparr>ag_nominate_on_success := filter (\<lambda>i. i \<noteq> ix_pair x) (ag_nominate_on_success a)\<rparr>))
               else stay)
              (then_do
                (\<lambda>a. if first_valid \<and> ag_stopping a = Idle
                     then (a\<lparr>ag_stopping := Armed\<rparr>, [Set_Timer Nomination (tn_tn (cf_timers (ag_config a)))])
                     else (a, []))
                (\<lambda>a. let (a, out) = update_checklists a in (nominate a, out))) a)"

definition role_conflict_response :: "ice_env \<Rightarrow> ice_transaction \<Rightarrow> agent \<Rightarrow> agent" where
  "role_conflict_response env x a =
     (let role = (case ix_role x of Attr_Controlled _ \<Rightarrow> Controlling | Attr_Controlling _ _ \<Rightarrow> Controlled);
          s = recompute_priorities role (ag_local a) (ag_remote a) (ag_set a);
          s = trigger_pair (ix_pair x) (set_pair_state (ix_pair x) Waiting s) in
        a\<lparr>ag_role := role, ag_tiebreaker := en_tiebreaker env (ag_draws a) (ag_tiebreaker a),
          ag_draws := Suc (ag_draws a), ag_set := s\<rparr>)"

definition inbound_response ::
  "ice_env \<Rightarrow> socket_addr \<Rightarrow> local_base \<Rightarrow> candidate_type \<Rightarrow> stun_message \<Rightarrow> step" where
  "inbound_response env source on via m a =
     (case (ag_peering a, position (\<lambda>x. ix_id x = sm_transaction m) (ag_transactions a)) of
        (Some peering, Some n) \<Rightarrow>
          let x = ag_transactions a ! n;
              rest = a\<lparr>ag_transactions := take n (ag_transactions a) @ drop (Suc n) (ag_transactions a)\<rparr> in
            if \<not> verify_integrity (en_mac env) m (outbound_key peering) then (a, [])
            else if (ix_kind x = Relayed) \<noteq> (via = Relayed) then (a, [])
            else
              then_do (emit [Clear_Timer (Retransmit (ix_pair x))])
                (if source \<noteq> ix_to x \<or> on \<noteq> ix_on x then fail_pair (ix_pair x) (ix_nominating x)
                 else if sm_class m = Class_Error then
                   (if stun_error_code m = Some ROLE_CONFLICT
                    then (\<lambda>a. (role_conflict_response env x a, []))
                    else fail_pair (ix_pair x) (ix_nominating x))
                 else check_succeeded x m) rest
      | _ \<Rightarrow> (a, []))"

definition datagram_received ::
  "ice_env \<Rightarrow> socket_addr \<Rightarrow> local_base \<Rightarrow> candidate_type \<Rightarrow> bytes \<Rightarrow> step" where
  "datagram_received env source on via bs a =
     (case stun_decode bs of
        Inl _ \<Rightarrow> (a, [])
      | Inr m \<Rightarrow>
          (case sm_class m of
             Class_Request \<Rightarrow> inbound_check env source on via m a
           | Class_Success \<Rightarrow> inbound_response env source on via m a
           | Class_Error \<Rightarrow> inbound_response env source on via m a
           | Class_Indication \<Rightarrow> (a, [])))"

section \<open>Feeding the agent\<close>

definition agent_handle :: "ice_env \<Rightarrow> ice_input \<Rightarrow> step" where
  "agent_handle env i a =
     (case i of
        RemoteDescription creds cs lite \<Rightarrow> remote_description creds cs lite a
      | LocalCredentials creds tiebreaker \<Rightarrow>
          (a\<lparr>ag_credentials := creds, ag_tiebreaker := tiebreaker, ag_restart_pending := True\<rparr>, [])
      | LocalCandidate g \<Rightarrow> (add_local_candidate g a, [])
      | GatheringDone \<Rightarrow> ice_start (if phase_rank (ag_phase a) \<le> 1 then a\<lparr>ag_phase := Gathered\<rparr> else a)
      | Datagram source on via bs \<Rightarrow> datagram_received env source on via bs a
      | DataSent c \<Rightarrow>
          (a, if agent_selected a c \<noteq> None then [Set_Timer Keepalive (tn_tr (cf_timers (ag_config a)))] else [])
      | TimerFired t \<Rightarrow> timer_fired env t a)"

end
