(* ===== verification/Ice_Safety.thy ===== *)
theory Ice_Safety
  imports Ice_Agent
begin

text \<open>
  What the ICE agent never does: act on a message it cannot authenticate, or select an address that
  has not answered a check under the peer's password. Every method is shown to keep the role, the
  keys and a bound \<open>R\<close> on the remote addresses that are valid, selected or announced; only a
  successful response adds to them.
\<close>

section \<open>What the operations on lists do to the valid addresses\<close>

definition valid_remotes :: "checklist_set \<Rightarrow> socket_addr set" where
  "valid_remotes s = (\<Union>l \<in> set (ks_lists s). vd_remote ` set (kl_valid l))"

named_theorems valid_mono \<open>operations that add no valid address\<close>

lemma valid_remotes_new [simp]: "valid_remotes checklist_set_new = {}"
  by (simp add: valid_remotes_def checklist_set_new_def)

lemma valid_remotes_map:
  assumes "\<And>l. vd_remote ` set (kl_valid (f l)) \<subseteq> vd_remote ` set (kl_valid l)"
  shows "valid_remotes (s\<lparr>ks_lists := map f (ks_lists s)\<rparr>) \<subseteq> valid_remotes s"
  using assms by (fastforce simp: valid_remotes_def)

lemma valid_remotes_put:
  assumes "k < length (ks_lists s) \<Longrightarrow> vd_remote ` set (kl_valid (f (ks_lists s ! k))) \<subseteq> R"
    and "valid_remotes s \<subseteq> R"
  shows "valid_remotes (set_list_mut k f s) \<subseteq> R"
  using assms
  by (auto simp: valid_remotes_def set_list_mut_def in_set_conv_nth nth_list_update subset_iff image_iff
      split: if_splits) (metis nth_mem)+

lemma valid_remotes_list_mut:
  assumes "\<And>l. vd_remote ` set (kl_valid (f l)) \<subseteq> vd_remote ` set (kl_valid l)"
  shows "valid_remotes (set_list_mut k f s) \<subseteq> valid_remotes s"
proof (rule valid_remotes_put)
  assume "k < length (ks_lists s)"
  then have "vd_remote ` set (kl_valid (ks_lists s ! k)) \<subseteq> valid_remotes s"
    by (auto simp: valid_remotes_def intro!: bexI [of _ "ks_lists s ! k"])
  with assms show "vd_remote ` set (kl_valid (f (ks_lists s ! k))) \<subseteq> valid_remotes s"
    by blast
qed simp

lemma update_first_set: "set (update_first P f xs) \<subseteq> set xs \<union> f ` {x \<in> set xs. P x}"
  by (induction xs) auto

lemma update_first_image: "(\<And>x. g (f x) = g x) \<Longrightarrow> g ` set (update_first P f xs) = g ` set xs"
  by (induction xs) auto

lemma valid_remotes_pair_mut [valid_mono]: "valid_remotes (set_pair_mut i f s) \<subseteq> valid_remotes s"
  using update_first_set [of "\<lambda>l. list_pair l i \<noteq> None" "list_pair_mut i f" "ks_lists s"]
  by (fastforce simp: valid_remotes_def set_pair_mut_def list_pair_mut_def)

lemma valid_remotes_pair_state [valid_mono]: "valid_remotes (set_pair_state i st s) \<subseteq> valid_remotes s"
  by (simp add: set_pair_state_def valid_remotes_pair_mut)

lemma valid_remotes_trigger [valid_mono]: "valid_remotes (trigger_pair i s) \<subseteq> valid_remotes s"
proof (cases "checklist_of s i")
  case (Some k)
  then show ?thesis
    unfolding trigger_pair_def by (simp, intro valid_remotes_list_mut) (simp add: trigger_def)
qed (simp add: trigger_pair_def)

lemma valid_remotes_insert [valid_mono]: "valid_remotes (set_list_mut k (list_insert_pair p) s) \<subseteq> valid_remotes s"
  by (rule valid_remotes_list_mut) (simp add: list_insert_pair_def Let_def)

lemma valid_remotes_limit [valid_mono]: "valid_remotes (limit n s) \<subseteq> valid_remotes s"
proof (induction n s rule: limit.induct)
  case (1 n s)
  have "valid_remotes (set_list_mut k (remove_at i) s) \<subseteq> valid_remotes s" for k i
    by (rule valid_remotes_list_mut) (simp add: remove_at_def Let_def)
  note removed = this
  show ?case
  proof (cases "n < total_pairs s \<and> limit_victim s \<noteq> None")
    case True
    then obtain k i where "n < total_pairs s" and v: "limit_victim s = Some (k, i)"
      by auto
    then have "limit n s = limit n (set_list_mut k (remove_at i) s)"
      by (subst limit.simps) simp
    with removed [of k i] 1 [OF \<open>n < total_pairs s\<close> v refl] show ?thesis
      by simp
  next
    case False
    then have "limit n s = s"
      by (subst limit.simps) (auto split: option.split)
    then show ?thesis
      by simp
  qed
qed

lemma unfreeze_lists_valid: "map kl_valid (unfreeze_lists ls u) = map kl_valid ls"
  by (induction ls arbitrary: u) (simp_all split: prod.splits)

lemma valid_remotes_alt: "valid_remotes s = (\<Union>vs \<in> set (map kl_valid (ks_lists s)). vd_remote ` set vs)"
  by (simp add: valid_remotes_def)

lemma valid_remotes_unfreeze [valid_mono]:
  "valid_remotes (unfreeze_added s) \<subseteq> valid_remotes s"
  "valid_remotes (compute_initial_states s) \<subseteq> valid_remotes s"
  "valid_remotes (unfreeze_foundation f s) \<subseteq> valid_remotes s"
  "valid_remotes (unfreeze_idle k s) \<subseteq> valid_remotes s"
proof -
  show added: "valid_remotes (unfreeze_added s) \<subseteq> valid_remotes s" for s
    by (simp add: valid_remotes_alt unfreeze_added_def unfreeze_lists_valid)
  have "valid_remotes (s\<lparr>ks_lists := map freeze_all (ks_lists s)\<rparr>) \<subseteq> valid_remotes s"
    by (rule valid_remotes_map) (simp add: freeze_all_def set_state_def)
  with added show "valid_remotes (compute_initial_states s) \<subseteq> valid_remotes s"
    unfolding compute_initial_states_def by blast
  show "valid_remotes (unfreeze_foundation f s) \<subseteq> valid_remotes s"
    unfolding unfreeze_foundation_def by (rule valid_remotes_map) simp
  show "valid_remotes (unfreeze_idle k s) \<subseteq> valid_remotes s"
    unfolding unfreeze_idle_def
    by (auto split: option.splits simp: Let_def intro: valid_remotes_list_mut [THEN subsetD, rotated])
qed

lemma valid_remotes_recompute [valid_mono]: "valid_remotes (recompute_priorities r ls rs s) \<subseteq> valid_remotes s"
proof -
  have "vd_remote (reprice_valid r ls rs v) = vd_remote v" for v
    by (simp add: reprice_valid_def split: option.splits)
  then show ?thesis
    by (fastforce simp: valid_remotes_def recompute_priorities_def Let_def list_sort_def)
qed

lemma valid_remotes_next [valid_mono]: "valid_remotes (fst (next_active s)) \<subseteq> valid_remotes s"
  by (simp add: next_active_def Let_def valid_remotes_def split: option.splits)

lemma valid_remotes_keep [valid_mono]: "valid_remotes (set_list_mut k (keep_only_nominated c i) s) \<subseteq> valid_remotes s"
  by (rule valid_remotes_list_mut) (simp add: keep_only_nominated_def Let_def)

lemma valid_remotes_state [valid_mono]: "valid_remotes (set_list_mut k (set_state st) s) \<subseteq> valid_remotes s"
  by (rule valid_remotes_list_mut) (simp add: set_state_def)

lemma valid_remotes_nominate [valid_mono]: "valid_remotes (set_list_mut k (nominate_valid i) s) \<subseteq> valid_remotes s"
  by (rule valid_remotes_list_mut) (auto simp: nominate_valid_def)

lemma valid_remotes_queue [valid_mono]: "valid_remotes (set_list_mut k (trigger i) s) \<subseteq> valid_remotes s"
  by (rule valid_remotes_list_mut) (simp add: trigger_def)

lemmas valid_in = valid_mono [THEN subsetD]

section \<open>Steps that stay within a set of addresses\<close>

definition within :: "socket_addr set \<Rightarrow> agent \<Rightarrow> bool" where
  "within R a \<longleftrightarrow> valid_remotes (ag_set a) \<subseteq> R \<and> sl_remote ` set (ag_selected a) \<subseteq> R"

definition announced :: "ice_output list \<Rightarrow> socket_addr set" where
  "announced out = {r. \<exists>c b k rk. Selected c b k r rk \<in> set out}"

lemma announced_simps [simp]:
  "announced [] = {}" "announced (xs @ ys) = announced xs \<union> announced ys"
  "announced (Set_Timer t d # xs) = announced xs" "announced (Clear_Timer t # xs) = announced xs"
  "announced (Send_Datagram b k r bs # xs) = announced xs" "announced (Component_Failed c # xs) = announced xs"
  "announced (Selected c b k r rk # xs) = insert r (announced xs)"
  "announced (map Component_Failed cs) = {}" "announced (map (\<lambda>x. Clear_Timer (g x)) ys') = {}"
  by (auto simp: announced_def)

definition safe :: "socket_addr set \<Rightarrow> step \<Rightarrow> bool" where
  "safe R f \<longleftrightarrow> (\<forall>a. ag_role (fst (f a)) = ag_role a \<and> ag_peering (fst (f a)) = ag_peering a \<and>
     (within R a \<longrightarrow> within R (fst (f a)) \<and> announced (snd (f a)) \<subseteq> R))"

text \<open>The same at one state, which is what most methods need: they branch on it.\<close>

definition safe_at :: "socket_addr set \<Rightarrow> agent \<Rightarrow> agent \<times> ice_output list \<Rightarrow> bool" where
  "safe_at R a r \<longleftrightarrow> ag_role (fst r) = ag_role a \<and> ag_peering (fst r) = ag_peering a \<and>
     (within R a \<longrightarrow> within R (fst r) \<and> announced (snd r) \<subseteq> R)"

named_theorems safe_intros \<open>the methods that stay within the addresses\<close>

lemma safe_iff: "safe R f \<longleftrightarrow> (\<forall>a. safe_at R a (f a))"
  by (simp add: safe_def safe_at_def)

lemma safe_atI:
  assumes "ag_role b = ag_role a" "ag_peering b = ag_peering a" "valid_remotes (ag_set b) \<subseteq> valid_remotes (ag_set a)"
    "ag_selected b = ag_selected a" "announced out = {}"
  shows "safe_at R a (b, out)"
  using assms by (auto simp: safe_at_def within_def)

lemma safe_at_trans:
  "safe_at R a (b, out) \<Longrightarrow> safe_at R b (c, out') \<Longrightarrow> safe_at R a (c, out @ out')"
  by (auto simp: safe_at_def)

lemma safe_at_silent: "safe_at R a (b, []) \<Longrightarrow> safe_at R b r \<Longrightarrow> safe_at R a r"
  by (cases r) (auto simp: safe_at_def)

lemma safe_at_then [intro]:
  "safe_at R a (f a) \<Longrightarrow> safe R g \<Longrightarrow> safe_at R a (then_do f g a)"
  using safe_at_trans [of R a "fst (f a)" "snd (f a)" "fst (g (fst (f a)))" "snd (g (fst (f a)))"]
  by (simp add: then_do_def safe_iff split_beta Let_def)

lemma then_do_emit: "then_do (emit out) g a = (fst (g a), out @ snd (g a))"
  by (simp add: then_do_def emit_def split_beta Let_def)

lemma safe_stay [simp, intro]: "safe R stay" "safe_at R a (a, [])" "safe_at R a (stay a)"
  by (simp_all add: safe_def safe_at_def stay_def)

lemma safe_arm_ta [safe_intros]: "safe_at R a (arm_ta a)"
  by (auto simp: arm_ta_def intro!: safe_atI)

lemma safe_at_emit:
  "safe_at R a (b, out) \<Longrightarrow> safe_at R b (g b) \<Longrightarrow> safe_at R a (then_do (emit out) g b)"
  unfolding then_do_emit by (rule safe_at_trans) simp_all

lemma safe_change:
  "valid_remotes (f (ag_set a)) \<subseteq> valid_remotes (ag_set a) \<Longrightarrow> safe_at R a (change_set f a, [])"
  by (rule safe_atI) (simp_all add: change_set_def)

lemma safe_set_ops:
  "safe_at R a (change_set (set_pair_state i st) a, [])" "safe_at R a (change_set (limit n) a, [])"
  "safe_at R a (change_set unfreeze_added a, [])" "safe_at R a (change_set (trigger_pair i) a, [])"
  by (rule safe_change, rule valid_mono)+

section \<open>The methods\<close>

lemma safe_drop_other [safe_intros]: "safe_at R a (drop_other_pairs k c i a)"
  unfolding drop_other_pairs_def Let_def
  by (rule safe_atI) (simp_all add: change_set_def valid_remotes_keep)

lemma find_update_first:
  "find P xs = Some x \<Longrightarrow> set (update_first P (\<lambda>_. y) xs) \<subseteq> insert y (set xs)"
  by (induction xs) (auto split: if_splits)

lemma replace_selection_set: "replace_selection c ss = Some ss' \<Longrightarrow> set ss' \<subseteq> insert c (set ss)"
  by (auto simp: replace_selection_def split: option.splits if_splits dest: find_update_first)

lemma safe_select [safe_intros]:
  assumes v: "vd_remote v \<in> R"
  shows "safe_at R a (select_component k (c, v) a)"
proof -
  have "safe_at R a (then_do (emit [Selected c base kind (vd_remote v) rk])
      (if is_controlling (ag_role a) then drop_other_pairs k c (vd_generated_by v) else stay)
      (a\<lparr>ag_selected := selected\<rparr>))"
    if "replace_selection \<lparr>sl_component = c, sl_local = base, sl_local_kind = kind,
          sl_remote = vd_remote v, sl_priority = vd_priority v\<rparr> (ag_selected a) = Some selected"
    for base kind rk selected
  proof -
    have "within R a \<Longrightarrow> within R (a\<lparr>ag_selected := selected\<rparr>)"
      using replace_selection_set [OF that] v unfolding within_def by fastforce
    then have "safe_at R a (a\<lparr>ag_selected := selected\<rparr>, [Selected c base kind (vd_remote v) rk])"
      using v by (simp add: safe_at_def)
    moreover have "safe_at R (a\<lparr>ag_selected := selected\<rparr>)
        ((if is_controlling (ag_role a) then drop_other_pairs k c (vd_generated_by v) else stay) (a\<lparr>ag_selected := selected\<rparr>))"
      by (simp add: safe_drop_other)
    ultimately show ?thesis
      by (rule safe_at_emit)
  qed
  then show ?thesis
    by (auto simp: select_component_def Let_def split: option.split)
qed

lemma safe_select_all:
  "\<forall>(c, v) \<in> set cvs. vd_remote v \<in> R \<Longrightarrow> safe R (select_components k cvs)"
proof (induction cvs)
  case (Cons cv cvs)
  then show ?case
    by (cases cv) (auto simp: safe_iff intro!: safe_at_then safe_select [THEN safe_at_then])
qed simp

lemma safe_complete [safe_intros]: "safe_at R a (complete_list k a)"
  unfolding complete_list_def Let_def
  by (auto simp: change_set_def intro!: safe_atI dest: valid_in)

lemma best_nominated_valid: "best_nominated l c = Some v \<Longrightarrow> v \<in> set (kl_valid l)"
  by (auto simp: best_nominated_def dest!: max_by_key_Some)

lemma safe_conclude_within:
  assumes "within R a"
  shows "safe_at R a (conclude k a)"
proof (cases "get_at (ks_lists (ag_set a)) k")
  case None
  show ?thesis
    by (simp only: conclude_def None option.case safe_stay)
next
  case (Some l)
  let ?chosen = "List.map_filter (\<lambda>c. map_option (\<lambda>v. (c, v)) (best_nominated l c)) (list_components l)"
  let ?tail = "if length ?chosen = length (list_components l) \<and> list_components l \<noteq> [] then complete_list k else stay"
  have "l \<in> set (ks_lists (ag_set a))"
    using Some by auto
  then have "vd_remote v \<in> R" if "(c, v) \<in> set ?chosen" for c v
    using that assms best_nominated_valid by (fastforce simp: within_def valid_remotes_def map_filter_def)
  then have "safe R (select_components k ?chosen)"
    by (intro safe_select_all) blast
  then have "safe_at R a (select_components k ?chosen a)"
    by (simp add: safe_iff)
  moreover have "safe R ?tail"
    by (simp add: safe_iff safe_complete)
  ultimately have "safe_at R a (then_do (select_components k ?chosen) ?tail a)"
    by (rule safe_at_then)
  then show ?thesis
    by (simp only: conclude_def Some option.case Let_def)
qed

lemma safe_conclude [safe_intros]: "safe_at R a (conclude k a)"
  using safe_conclude_within [of R a k] safe_conclude_within [of UNIV a k] by (auto simp: safe_at_def within_def)

lemma safe_mark [safe_intros]: "safe_at R a (mark_nominated i a)"
proof (cases "checklist_of (ag_set a) i")
  case (Some k)
  let ?f = "\<lambda>s. set_list_mut k (nominate_valid i) (set_pair_mut i (\<lambda>p. p\<lparr>kp_nominated := True\<rparr>) s)"
  have "valid_remotes (?f (ag_set a)) \<subseteq> valid_remotes (ag_set a)"
    using valid_remotes_nominate valid_remotes_pair_mut by (rule order_trans)
  from safe_at_silent [OF safe_change [where f = ?f, OF this] safe_conclude] show ?thesis
    by (simp add: mark_nominated_def Some)
qed (simp add: mark_nominated_def)

lemma safe_update [safe_intros]: "safe_at R a (update_checklists a)"
proof -
  have "valid_remotes (s\<lparr>ks_lists := map (\<lambda>l. if list_fails l then set_state List_Failed l else l) (ks_lists s)\<rparr>)
      \<subseteq> valid_remotes s" for s
    by (rule valid_remotes_map) (simp add: set_state_def)
  then show ?thesis
    unfolding update_checklists_def Let_def by (intro safe_atI) (simp_all add: change_set_def)
qed

lemma safe_fail [safe_intros]: "safe_at R a (fail_pair i n a)"
proof -
  let ?s = "set_pair_state i Failed (ag_set a)"
  have "valid_remotes (set_list_mut k (\<lambda>l. set_state List_Failed (remove_valid i l)) s) \<subseteq> valid_remotes s" for k s
    by (rule valid_remotes_list_mut) (auto simp: set_state_def remove_valid_def)
  then have "valid_remotes (if n then (case checklist_of ?s i of None \<Rightarrow> ?s
      | Some k \<Rightarrow> set_list_mut k (\<lambda>l. set_state List_Failed (remove_valid i l)) ?s) else ?s)
    \<subseteq> valid_remotes (ag_set a)"
    using valid_remotes_pair_state by (auto split: option.split) blast+
  then show ?thesis
    unfolding fail_pair_def Let_def by (intro safe_at_silent [OF safe_atI safe_update]) simp_all
qed

lemma safe_nominate [safe_intros]: "safe_at R a (nominate a, [])"
proof -
  have "safe_at R a (fold (\<lambda>(k, c, i) a.
      change_set (set_list_mut k (trigger i)) (a\<lparr>ag_nominating := ag_nominating a @ [(c, i)]\<rparr>)) q a, [])" for q
  proof (induction q arbitrary: a)
    case (Cons x q)
    obtain k c i where x: "x = (k, c, i)"
      by (cases x)
    have "safe_at R a (change_set (set_list_mut k (trigger i)) (a\<lparr>ag_nominating := ag_nominating a @ [(c, i)]\<rparr>), [])"
      by (rule safe_atI) (simp_all add: change_set_def valid_remotes_queue)
    from safe_at_silent [OF this Cons.IH] show ?case
      by (simp add: x)
  qed simp
  then show ?thesis
    by (simp add: nominate_def Let_def)
qed

lemma safe_send [safe_intros]: "safe_at R a (send_check env i a)"
  by (auto simp: send_check_def Let_def change_set_def
      intro!: safe_atI dest: valid_in split: option.split sum.split)

lemma safe_pace_loop: "safe_at R a (pace_loop env n a)"
proof (induction n arbitrary: a)
  case (Suc n)
  obtain s act where nx: "next_active (ag_set a) = (s, act)"
    by fastforce
  have s: "safe_at R a (a\<lparr>ag_set := s\<rparr>, [])"
    using valid_remotes_next [of "ag_set a"] by (intro safe_atI) (simp_all add: nx)
  show ?case
  proof (cases act)
    case None
    with s show ?thesis
      by (simp add: nx)
  next
    case (Some k)
    obtain l tr where taken: "take_triggered (ks_lists s ! k) = (l, tr)"
      by fastforce
    let ?a = "change_set (set_list_mut k (\<lambda>_. l)) (a\<lparr>ag_set := s\<rparr>)"
    have "kl_valid l = kl_valid (ks_lists s ! k)"
      using taken by (auto simp: take_triggered_def split: list.splits)
    then have "valid_remotes (set_list_mut k (\<lambda>_. l) s) \<subseteq> valid_remotes s"
      by (intro valid_remotes_put) (auto simp: valid_remotes_def intro!: bexI [of _ "ks_lists s ! k"])
    then have a: "safe_at R a (?a, [])"
      by (intro safe_at_silent [OF s safe_change]) simp
    have thaw: "safe_at R ?a (change_set (unfreeze_idle k) ?a, [])"
      by (rule safe_change) (rule valid_remotes_unfreeze)
    note idle = safe_at_silent [OF a thaw]
    show ?thesis
      using safe_at_silent [OF a Suc] safe_at_silent [OF a safe_send] safe_at_silent [OF idle Suc]
        safe_at_silent [OF idle safe_send]
      by (simp add: nx Some taken Let_def split: option.split)
  qed
qed simp

lemma safe_pace [safe_intros]: "safe_at R a (pace env a)"
proof -
  have "safe_at R a (a\<lparr>ag_ta_armed := False\<rparr>, [])"
    by (rule safe_atI) simp_all
  moreover have "safe R (\<lambda>a. if set_is_active (ag_set a) then arm_ta a else (a, []))"
    by (simp add: safe_iff safe_arm_ta)
  ultimately show ?thesis
    unfolding pace_def by (intro safe_at_silent [OF _ safe_at_then [OF safe_pace_loop]])
qed

lemma safe_retransmit [safe_intros]: "safe_at R a (ice_retransmit i a)"
proof (cases "position (\<lambda>x. ix_pair x = i) (ag_transactions a)")
  case (Some n)
  let ?x = "ag_transactions a ! n"
  let ?rest = "a\<lparr>ag_transactions := take n (ag_transactions a) @ drop (Suc n) (ag_transactions a)\<rparr>"
  have rest: "safe_at R a (?rest, [])" and put: "announced out = {} \<Longrightarrow> safe_at R a (a\<lparr>ag_transactions := xs\<rparr>, out)" for xs out
    by (auto intro: safe_atI)
  note failing = safe_at_silent [OF rest safe_fail]
  show ?thesis
    using rest put failing by (simp add: ice_retransmit_def Some Let_def)
qed (simp add: ice_retransmit_def)

lemma announced_keepalive: "announced (keepalive_sends env n ss) = {}"
  by (induction ss arbitrary: n) (simp_all split: sum.split)

lemma safe_timer [safe_intros]: "safe_at R a (timer_fired env t a)"
proof (cases t)
  case Nomination
  have "safe_at R a (a\<lparr>ag_stopping := Elapsed\<rparr>, [])"
    by (rule safe_atI) simp_all
  from safe_at_silent [OF this safe_nominate] show ?thesis
    by (simp add: timer_fired_def Nomination)
next
  case Keepalive
  have "safe_at R a (ice_keepalive env a)"
    unfolding ice_keepalive_def by (rule safe_atI) (simp_all add: announced_keepalive)
  then show ?thesis
    by (simp add: timer_fired_def Keepalive)
qed (simp_all add: timer_fired_def safe_pace safe_retransmit)

lemma safe_forget [safe_intros]: "safe_at R a (forget_unreferenced_remotes a, [])"
  unfolding forget_unreferenced_remotes_def Let_def by (rule safe_atI) simp_all

lemma safe_insert [safe_intros]: "safe_at R a (insert_pair p a, [])"
  by (auto simp: insert_pair_def Let_def change_set_def intro!: safe_atI dest: valid_in split: option.split)

lemma safe_insert_all: "safe_at R a (fold insert_pair ps a, [])"
proof (induction ps arbitrary: a)
  case (Cons p ps)
  from safe_at_silent [OF safe_insert Cons] show ?case
    by simp
qed simp

lemma safe_extend [safe_intros]: "safe_at R a (ice_extend a)"
proof -
  have "safe_at R a (arm_ta (change_set unfreeze_added (forget_unreferenced_remotes
      (change_set (limit n) (fold insert_pair ps (a\<lparr>ag_ids := ids\<rparr>))))))" for ids ps n
    by (rule safe_at_silent [rotated, OF safe_arm_ta], rule safe_at_silent [rotated, OF safe_set_ops(3)],
        rule safe_at_silent [rotated, OF safe_forget], rule safe_at_silent [rotated, OF safe_set_ops(2)],
        rule safe_at_silent [rotated, OF safe_insert_all], rule safe_atI) simp_all
  then show ?thesis
    by (simp add: ice_extend_def Let_def split: prod.split)
qed

lemma safe_start [safe_intros]: "safe_at R a (ice_start a)"
proof -
  have "valid_remotes (compute_initial_states (limit n (set_push (checklist_new ps) checklist_set_new))) = {}" for n ps
  proof -
    have "valid_remotes (set_push (checklist_new ps) checklist_set_new) = {}"
      by (simp add: valid_remotes_def set_push_def checklist_new_def checklist_set_new_def)
    then show ?thesis
      using valid_remotes_unfreeze(2) valid_remotes_limit by blast
  qed
  then show ?thesis
    by (auto simp: ice_start_def Let_def intro!: safe_at_silent [OF safe_atI safe_arm_ta] split: prod.split)
qed

section \<open>Messages\<close>

lemma safe_build: "safe_at R a (fst (build_pair l r c a), [])"
  by (auto simp: build_pair_def Let_def intro!: safe_atI split: option.split prod.split)

lemma safe_trigger_existing [safe_intros]: "safe_at R a (trigger_existing i u a)"
proof (cases "set_pair (ag_set a) i")
  case (Some pair)
  have "valid_remotes (trigger_pair i (set_pair_state i Waiting s)) \<subseteq> valid_remotes s" for s
    using valid_remotes_trigger valid_remotes_pair_state by (rule order_trans)
  then have queue: "safe_at R b (arm_ta (change_set (\<lambda>s. trigger_pair i (set_pair_state i Waiting s)) b))" for b
    by (intro safe_at_silent [OF safe_change safe_arm_ta])
  have cancel: "safe_at R b (cancel_transaction i b, [])" for b
    unfolding cancel_transaction_def by (rule safe_atI) simp_all
  have "safe_at R b (b\<lparr>ag_nominate_on_success := xs\<rparr>, [])" for b xs
    by (rule safe_atI) simp_all
  then have second: "safe R (\<lambda>a. if u \<and> \<not> is_controlling (ag_role a) then
      (if kp_state pair = Succeeded then mark_nominated i a
       else if i \<in> set (ag_nominate_on_success a) then (a, [])
       else (a\<lparr>ag_nominate_on_success := ag_nominate_on_success a @ [i]\<rparr>, [])) else (a, []))"
    by (simp add: safe_iff safe_mark)
  let ?first = "if kp_state pair = Succeeded \<or> kp_nominated pair then stay
      else (\<lambda>a. let a = (if kp_state pair = InProgress then cancel_transaction i a else a) in
        arm_ta (change_set (\<lambda>s. trigger_pair i (set_pair_state i Waiting s)) a))"
  have "safe_at R a (?first a)"
    using queue safe_at_silent [OF cancel queue] by (simp add: Let_def)
  from safe_at_then [where f = ?first, OF this second] show ?thesis
    by (simp only: trigger_existing_def Some option.case)
qed (simp add: trigger_existing_def)

lemma safe_triggered [safe_intros]: "safe_at R a (triggered_check l r c u a)"
proof (cases "find (\<lambda>p. kp_local p = l \<and> kp_remote p = r) (all_pairs (ag_set a))")
  case None
  obtain b p where built: "build_pair l r c a = (b, p)"
    by fastforce
  then have b: "safe_at R a (b, [])"
    using safe_build [of R a l r c] by simp
  show ?thesis
  proof (cases p)
    case None
    then show ?thesis
      using built b by (simp add: triggered_check_def \<open>find _ _ = None\<close>)
  next
    case (Some pair)
    let ?i = "kp_id pair"
    let ?b = "\<lambda>n. forget_unreferenced_remotes (change_set (limit n) (change_set (set_pair_state ?i Waiting) (insert_pair pair b)))"
    have grown: "safe_at R a (?b n, [])" for n
      by (rule safe_at_silent [rotated, OF safe_forget], rule safe_at_silent [rotated, OF safe_set_ops(2)],
          rule safe_at_silent [rotated, OF safe_set_ops(1)], rule safe_at_silent [rotated, OF safe_insert], rule b)
    have "safe R (trigger_existing ?i u)"
      by (simp add: safe_iff safe_trigger_existing)
    then have "safe_at R d (then_do (\<lambda>a. arm_ta (change_set (trigger_pair ?i) a)) (trigger_existing ?i u) d)" for d
      by (intro safe_at_then) (rule safe_at_silent [OF safe_set_ops(4) safe_arm_ta])
    from safe_at_silent [OF grown this] grown show ?thesis
      unfolding triggered_check_def None option.case built Some prod.case Let_def by (simp split: if_split)
  qed
qed (simp add: triggered_check_def safe_trigger_existing)

lemma announced_reply [simp]: "announced (reply on via dest e) = {}"
  by (simp add: reply_def split: sum.split)

lemma safe_learn_remote: "safe_at R a (fst (learn_remote src c p a), [])"
  by (auto simp: learn_remote_def Let_def intro!: safe_atI split: option.split prod.split)

lemma safe_learn_local: "safe_at R a (fst (learn_local m p q a), [])"
  by (auto simp: learn_local_def Let_def intro!: safe_atI split: option.split prod.split)

lemma safe_arrived [safe_intros]: "safe_at R a (check_arrived source on via m a)"
proof -
  have "safe_at R a (case learn_remote source c p a of (b, r) \<Rightarrow> triggered_check l r c u b)" for c p l u
    using safe_at_silent [OF safe_learn_remote safe_triggered]
    by (cases "learn_remote source c p a") (metis fst_conv prod.case)
  then show ?thesis
    by (simp add: check_arrived_def Let_def split: option.split)
qed

lemma add_valid_remotes:
  assumes "add_valid v l = (l', new)"
  shows "vd_remote ` set (kl_valid l') \<subseteq> insert (vd_remote v) (vd_remote ` set (kl_valid l))"
proof -
  have "vd_remote ` set (update_first P (\<lambda>known. known\<lparr>vd_nominated := vd_nominated known \<or> vd_nominated v\<rparr>) vs) =
      vd_remote ` set vs" for P vs
    by (rule update_first_image) simp
  note same = this
  have l': "l' = fst (add_valid v l)"
    by (simp add: assms)
  show ?thesis
  proof (cases "\<exists>known \<in> set (kl_valid l). vd_local known = vd_local v \<and> vd_remote known = vd_remote v")
    case True
    then have "vd_remote ` set (kl_valid l') = vd_remote ` set (kl_valid l)"
      unfolding l' add_valid_def Let_def by (simp add: same)
    then show ?thesis
      by (simp add: subset_insertI)
  next
    case False
    then have "kl_valid l' = kl_valid l @ [v]"
      unfolding l' add_valid_def Let_def by auto
    then show ?thesis
      by simp
  qed
qed

lemma valid_remotes_add:
  assumes "k < length (ks_lists s)" and "add_valid v (ks_lists s ! k) = (l, new)" and "vd_remote v \<in> R"
    and "valid_remotes s \<subseteq> R"
  shows "valid_remotes (set_list_mut k (\<lambda>_. l) s) \<subseteq> R"
proof (rule valid_remotes_put)
  have "ks_lists s ! k \<in> set (ks_lists s)"
    using assms(1) by simp
  then have "vd_remote ` set (kl_valid (ks_lists s ! k)) \<subseteq> valid_remotes s"
    unfolding valid_remotes_def by (rule UN_upper)
  then have "insert (vd_remote v) (vd_remote ` set (kl_valid (ks_lists s ! k))) \<subseteq> R"
    using assms(3,4) by (simp add: order_trans)
  with add_valid_remotes [OF assms(2)] show "vd_remote ` set (kl_valid l) \<subseteq> R"
    by (rule order_trans)
qed (rule assms(4))

lemma position_length: "position P xs = Some k \<Longrightarrow> k < length xs"
  by (induction xs arbitrary: k) (auto split: if_splits)

lemma safe_record:
  assumes dest: "ix_to x \<in> R"
  shows "safe_at R a (fst (record_success x m pair a), [])"
proof -
  obtain b l where learnt: "learn_local (unwrap_or (stun_mapped_address m) (ix_from x)) pair (ix_priority x) a = (b, l)"
    by fastforce
  have b: "safe_at R a (b, [])"
    using safe_learn_local [of R a "unwrap_or (stun_mapped_address m) (ix_from x)" pair "ix_priority x"]
    by (simp add: learnt)
  have "\<exists>s. fst (record_success x m pair a) = b\<lparr>ag_set := s\<rparr> \<and>
      (valid_remotes (ag_set b) \<subseteq> R \<longrightarrow> valid_remotes s \<subseteq> R)"
  proof (cases "checklist_of (ag_set b) (ix_pair x)")
    case None
    let ?s = "unfreeze_foundation (kp_foundation pair) (set_pair_state (ix_pair x) Succeeded (ag_set b))"
    have "valid_remotes ?s \<subseteq> valid_remotes (ag_set b)"
      by (rule order_trans [OF valid_remotes_unfreeze(3) valid_remotes_pair_state])
    moreover have "fst (record_success x m pair a) = b\<lparr>ag_set := ?s\<rparr>"
      by (simp add: record_success_def learnt None Let_def)
    ultimately show ?thesis
      by blast
  next
    case (Some k)
    have k: "k < length (ks_lists (ag_set b))"
      using Some by (auto simp: checklist_of_def dest: position_length)
    define prio where "prio = (case find_local (ag_local b) l of None \<Rightarrow> kp_priority pair
      | Some lc \<Rightarrow> (case find_remote (ag_remote b) (kp_remote pair) of None \<Rightarrow> kp_priority pair
      | Some rc \<Rightarrow> ordered_pair_priority (ag_role b) (lc_priority lc) (rc_priority rc)))"
    obtain l' new where added: "add_valid (valid_pair_new (kp_component pair) l (ix_to x) prio (kp_id pair))
        (ks_lists (ag_set b) ! k) = (l', new)"
      by fastforce
    let ?s = "unfreeze_foundation (kp_foundation pair)
        (set_pair_state (ix_pair x) Succeeded (set_list_mut k (\<lambda>_. l') (ag_set b)))"
    have "valid_remotes ?s \<subseteq> R" if "valid_remotes (ag_set b) \<subseteq> R"
      using valid_remotes_add [OF k added _ that] dest valid_remotes_unfreeze(3) valid_remotes_pair_state
      by (fastforce simp: valid_pair_new_def)
    moreover have "fst (record_success x m pair a) = b\<lparr>ag_set := ?s\<rparr>"
      by (simp add: record_success_def learnt Some added [unfolded prio_def] Let_def)
    ultimately show ?thesis
      by blast
  qed
  with b show ?thesis
    by (auto simp: safe_at_def within_def)
qed

lemma safe_finish: "safe R (\<lambda>a. let (a, out) = update_checklists a in (nominate a, out))"
proof -
  have "safe_at R a (nominate (fst (update_checklists a)), snd (update_checklists a))" for a
    using safe_at_trans [of R a "fst (update_checklists a)" "snd (update_checklists a)", OF _ safe_nominate] safe_update
    by simp
  then show ?thesis
    by (simp add: safe_iff split_beta)
qed

lemma safe_succeeded:
  assumes dest: "ix_to x \<in> R"
  shows "safe_at R a (check_succeeded x m a)"
proof (cases "set_pair (ag_set a) (ix_pair x)")
  case (Some pair)
  obtain b new where recorded: "record_success x m pair a = (b, new)"
    by fastforce
  have b: "safe_at R a (b, [])"
    using safe_record [OF dest, of a m pair] by (simp add: recorded)
  let ?mark = "if ix_nominating x \<or> ix_pair x \<in> set (ag_nominate_on_success b)
      then (\<lambda>a. mark_nominated (ix_pair x)
        (a\<lparr>ag_nominate_on_success := filter (\<lambda>i. i \<noteq> ix_pair x) (ag_nominate_on_success a)\<rparr>))
      else stay"
  let ?arm = "\<lambda>a. if new \<and> ag_stopping a = Idle
      then (a\<lparr>ag_stopping := Armed\<rparr>, [Set_Timer Nomination (tn_tn (cf_timers (ag_config a)))]) else (a, [])"
  let ?finish = "\<lambda>a. let (a, out) = update_checklists a in (nominate a, out)"
  have "safe_at R d (?arm d)" for d
    by (auto intro: safe_atI)
  from safe_at_then [where f = ?arm, OF this safe_finish] have arm: "safe R (then_do ?arm ?finish)"
    by (simp add: safe_iff)
  have "safe_at R d (mark_nominated i (d\<lparr>ag_nominate_on_success := xs\<rparr>))" for d i xs
    by (rule safe_at_silent [OF safe_atI safe_mark]) simp_all
  then have "safe_at R b (?mark b)"
    by simp
  from safe_at_silent [OF b safe_at_then [where f = ?mark, OF this arm]] show ?thesis
    by (simp only: check_succeeded_def Some option.case recorded Let_def prod.case)
qed (simp add: check_succeeded_def)

section \<open>Authentication\<close>

text \<open>What a message must show before it moves anything.\<close>

definition authenticates :: "ice_env \<Rightarrow> agent \<Rightarrow> stun_message \<Rightarrow> bool" where
  "authenticates env a m \<longleftrightarrow>
     (case ag_peering a of
        None \<Rightarrow> False
      | Some p \<Rightarrow>
          (case sm_class m of
             Class_Request \<Rightarrow>
               stun_username m = Some (inbound_username p) \<and> verify_integrity (en_mac env) m (inbound_key p)
           | Class_Indication \<Rightarrow> False
           | _ \<Rightarrow> verify_integrity (en_mac env) m (outbound_key p)
                 \<and> (\<exists>x \<in> set (ag_transactions a). ix_id x = sm_transaction m)))"

lemma position_mem: "position P xs = Some k \<Longrightarrow> P (xs ! k) \<and> xs ! k \<in> set xs"
  by (induction xs arbitrary: k) (auto split: if_splits)

lemma unauthenticated_dropped:
  assumes "\<And>m. stun_decode bs = Inr m \<Longrightarrow> \<not> authenticates env a m"
  shows "datagram_received env source on via bs a = (a, [])"
proof (cases "stun_decode bs")
  case (Inr m)
  have no: "\<not> authenticates env a m"
    using assms Inr by blast
  have "inbound_response env source on via m a = (a, [])" if "sm_class m \<in> {Class_Success, Class_Error}"
  proof (cases "ag_peering a")
    case (Some p)
    have "\<not> verify_integrity (en_mac env) m (outbound_key p)"
      if "position (\<lambda>x. ix_id x = sm_transaction m) (ag_transactions a) = Some n" for n
      using no position_mem [OF that] \<open>sm_class m \<in> _\<close> Some by (auto simp: authenticates_def)
    with Some show ?thesis
      by (simp add: inbound_response_def Let_def split: option.split)
  qed (simp add: inbound_response_def)
  moreover have "inbound_check env source on via m a = (a, [])" if "sm_class m = Class_Request"
    using no that by (auto simp: authenticates_def inbound_check_def split: option.splits)
  ultimately show ?thesis
    by (simp add: datagram_received_def Inr split: stun_class.split)
qed (simp add: datagram_received_def)

section \<open>Runs\<close>

text \<open>The same without the role, which conflicts and descriptions change.\<close>

definition guarded :: "socket_addr set \<Rightarrow> agent \<Rightarrow> agent \<times> ice_output list \<Rightarrow> bool" where
  "guarded R a r \<longleftrightarrow> ag_peering (fst r) = ag_peering a \<and>
     (within R a \<longrightarrow> within R (fst r) \<and> announced (snd r) \<subseteq> R)"

lemma safe_guarded: "safe_at R a r \<Longrightarrow> guarded R a r"
  by (simp add: safe_at_def guarded_def)

lemma guarded_silent: "guarded R a (b, []) \<Longrightarrow> guarded R b r \<Longrightarrow> guarded R a r"
  by (auto simp: guarded_def)

lemma guardedI:
  assumes "ag_peering b = ag_peering a" "valid_remotes (ag_set b) \<subseteq> valid_remotes (ag_set a)"
    "ag_selected b = ag_selected a" "announced out = {}"
  shows "guarded R a (b, out)"
  using assms by (auto simp: guarded_def within_def)

lemma guarded_conflict: "guarded R a (fst (resolve_conflict r a), [])"
proof -
  have "guarded R a (switch_role a, [])"
    unfolding switch_role_def Let_def by (rule guardedI) (simp_all add: change_set_def valid_remotes_recompute)
  moreover have "guarded R a (a, [])"
    by (rule guardedI) simp_all
  ultimately show ?thesis
    by (simp add: resolve_conflict_def split: option.split ice_role.split role_attribute.split)
qed

lemma guarded_check: "guarded R a (inbound_check env source on via m a)"
proof (cases "ag_peering a")
  case None
  then show ?thesis
    by (simp add: inbound_check_def guardedI)
next
  case (Some p)
  obtain b c where rc: "resolve_conflict (stun_role m) a = (b, c)"
    by fastforce
  have b: "guarded R a (b, [])"
    using guarded_conflict [of R a "stun_role m"] by (simp add: rc)
  have "safe_at R b (then_do (emit (reply on via source e)) (check_arrived source on via m) b)" for e
    by (rule safe_at_emit [OF safe_atI safe_arrived]) simp_all
  from guarded_silent [OF b safe_guarded [OF this]] have accepted:
    "guarded R a (then_do (emit (reply on via source e)) (check_arrived source on via m) b)" for e .
  have "guarded R a (b, reply on via source e)" for e
    by (rule guarded_silent [OF b guardedI]) simp_all
  with accepted show ?thesis
    by (simp add: inbound_check_def Some rc guardedI split: conflict.split)
qed

definition proves :: "ice_env \<Rightarrow> agent \<Rightarrow> stun_message \<Rightarrow> bool" where
  "proves env a m \<longleftrightarrow> sm_class m = Class_Success \<and>
     (\<exists>p. ag_peering a = Some p \<and> verify_integrity (en_mac env) m (outbound_key p))"

lemma guarded_response:
  assumes "proves env a m \<Longrightarrow> source \<in> R" and "sm_class m = Class_Success \<or> sm_class m = Class_Error"
  shows "guarded R a (inbound_response env source on via m a)"
proof (cases "ag_peering a \<noteq> None \<and> position (\<lambda>x. ix_id x = sm_transaction m) (ag_transactions a) \<noteq> None")
  case True
  then obtain p n where p: "ag_peering a = Some p" and n: "position (\<lambda>x. ix_id x = sm_transaction m) (ag_transactions a) = Some n"
    by blast
  let ?x = "ag_transactions a ! n"
  let ?rest = "a\<lparr>ag_transactions := take n (ag_transactions a) @ drop (Suc n) (ag_transactions a)\<rparr>"
  let ?out = "[Clear_Timer (Retransmit (ix_pair ?x))]"
  have stay: "guarded R a (a, [])"
    by (rule guardedI) simp_all
  have rest: "safe_at R a (?rest, ?out)"
    by (rule safe_atI) simp_all
  have failed: "guarded R a (then_do (emit ?out) (fail_pair (ix_pair ?x) f) ?rest)" for f
    by (rule safe_guarded, rule safe_at_emit [OF rest], rule safe_fail)
  have conflicted: "guarded R a (then_do (emit ?out) (\<lambda>a. (role_conflict_response env ?x a, [])) ?rest)"
    using order_trans [OF valid_remotes_trigger order_trans [OF valid_remotes_pair_state valid_remotes_recompute]]
    by (simp add: then_do_emit guardedI role_conflict_response_def Let_def)
  have succeeded: "guarded R a (then_do (emit ?out) (check_succeeded ?x m) ?rest)"
    if "verify_integrity (en_mac env) m (outbound_key p)" "source = ix_to ?x" "sm_class m \<noteq> Class_Error"
  proof -
    have "ix_to ?x \<in> R"
      using assms that p by (auto simp: proves_def)
    then have "safe_at R ?rest (check_succeeded ?x m ?rest)"
      by (rule safe_succeeded)
    then show ?thesis
      by (rule safe_guarded [OF safe_at_emit [OF rest]])
  qed
  show ?thesis
    using stay failed conflicted succeeded by (simp add: inbound_response_def p n Let_def)
next
  case False
  then show ?thesis
    by (auto simp: inbound_response_def guardedI split: option.split)
qed

lemma guarded_datagram:
  assumes "\<And>m. stun_decode bs = Inr m \<Longrightarrow> proves env a m \<Longrightarrow> source \<in> R"
  shows "guarded R a (datagram_received env source on via bs a)"
  using assms guarded_check guarded_response
  by (auto simp: datagram_received_def guardedI split: sum.split stun_class.split)

lemma guarded_handle:
  assumes "\<And>on via bs source m. i = Datagram source on via bs \<Longrightarrow> stun_decode bs = Inr m \<Longrightarrow> proves env a m \<Longrightarrow> source \<in> R"
    and "\<And>c cs l. i \<noteq> RemoteDescription c cs l"
  shows "guarded R a (agent_handle env i a)"
proof (cases i)
  case (RemoteDescription c cs l)
  with assms(2) show ?thesis
    by blast
next
  case GatheringDone
  have "safe_at R a (a\<lparr>ag_phase := Gathered\<rparr>, [])"
    by (rule safe_atI) simp_all
  then show ?thesis
    using safe_start safe_at_silent [OF _ safe_start] by (simp add: agent_handle_def GatheringDone safe_guarded)
next
  case (Datagram source on via bs)
  then show ?thesis
    using assms(1) guarded_datagram by (simp add: agent_handle_def)
next
  case (TimerFired t)
  then show ?thesis
    by (simp add: agent_handle_def safe_guarded safe_timer)
qed (simp_all add: agent_handle_def guardedI add_local_candidate_def Let_def split: prod.split)

lemma merge_remote_frame:
  assumes "merge_remote_candidates cs a = (b, n)"
  shows "ag_set b = ag_set a \<and> ag_selected b = ag_selected a \<and> ag_peering b = ag_peering a"
proof -
  have "(case fold merge_remote_candidate cs (a, k) of (b, n) \<Rightarrow>
      ag_set b = ag_set a \<and> ag_selected b = ag_selected a \<and> ag_peering b = ag_peering a)" for k
  proof (induction cs arbitrary: a k)
    case (Cons c cs)
    obtain d n where step: "merge_remote_candidate c (a, k) = (d, n)"
      by fastforce
    then have "ag_set d = ag_set a \<and> ag_selected d = ag_selected a \<and> ag_peering d = ag_peering a"
      by (auto simp: merge_remote_candidate_def Let_def split: option.splits if_splits prod.splits)
    with Cons [of d n] step show ?case
      by simp
  qed simp
  from this [of 0] assms show ?thesis
    by (simp add: merge_remote_candidates_def)
qed

lemma guarded_description:
  "ag_peering (fst (remote_description creds cs lite a)) = Some \<lparr>pe_local = ag_credentials a, pe_remote = creds\<rparr>"
  "within R a \<Longrightarrow> within R (fst (remote_description creds cs lite a)) \<and>
    announced (snd (remote_description creds cs lite a)) \<subseteq> R"
proof -
  let ?p = "\<lparr>pe_local = ag_credentials a, pe_remote = creds\<rparr>"
  let ?a = "a\<lparr>ag_role := determine (ag_offerer a) lite, ag_peering := Some ?p\<rparr>"
  define restart where "restart = (case ag_peering a of None \<Rightarrow> False
      | Some p \<Rightarrow> cr_ufrag (pe_remote p) \<noteq> cr_ufrag creds \<and> cr_pwd (pe_remote p) \<noteq> cr_pwd creds)"
  obtain b out where b: "(if restart then ice_restart ?a else (?a, [])) = (b, out)"
    by fastforce
  obtain c added where c: "merge_remote_candidates cs (b\<lparr>ag_restart_pending := False\<rparr>) = (c, added)"
    by fastforce
  let ?r = "if ag_phase c = Checking then (if 0 < added then ice_extend c else (c, [])) else ice_start c"
  have run: "remote_description creds cs lite a = (fst ?r, out @ snd ?r)"
    using b c by (simp add: remote_description_def Let_def restart_def split_beta)
  have step: "ag_peering b = Some ?p \<and> (within R a \<longrightarrow> within R b) \<and> announced out = {}"
    using b by (auto simp: ice_restart_def within_def split: if_splits)
  have "ag_peering c = Some ?p \<and> (within R a \<longrightarrow> within R c)"
    using step merge_remote_frame [OF c] by (simp add: within_def)
  moreover have "safe_at R c ?r"
    by (simp add: safe_extend safe_start)
  ultimately show "ag_peering (fst (remote_description creds cs lite a)) = Some ?p"
    and "within R a \<Longrightarrow> within R (fst (remote_description creds cs lite a)) \<and>
      announced (snd (remote_description creds cs lite a)) \<subseteq> R"
    using step unfolding run safe_at_def by auto
qed

fun agent_run :: "ice_env \<Rightarrow> ice_input list \<Rightarrow> step" where
  "agent_run env [] = stay"
| "agent_run env (i # is) = then_do (agent_handle env i) (agent_run env is)"

text \<open>The addresses that answered a check under the password of a description received before.\<close>

definition proved :: "ice_env \<Rightarrow> ice_input list \<Rightarrow> socket_addr set" where
  "proved env is = {source. \<exists>on via bs m creds cs lite. Datagram source on via bs \<in> set is \<and>
     stun_decode bs = Inr m \<and> sm_class m = Class_Success \<and> RemoteDescription creds cs lite \<in> set is \<and>
     verify_integrity (en_mac env) m (cr_pwd creds)}"

lemma run_within:
  assumes "within R a" and "set is \<subseteq> set inputs" and "proved env inputs \<subseteq> R"
    and "\<And>p. ag_peering a = Some p \<Longrightarrow> \<exists>cs lite. RemoteDescription (pe_remote p) cs lite \<in> set inputs"
  shows "announced (snd (agent_run env is a)) \<subseteq> R"
  using assms(1,2,4)
proof (induction "is" arbitrary: a)
  case (Cons i "is")
  let ?r = "agent_handle env i a"
  have "within R (fst ?r) \<and> announced (snd ?r) \<subseteq> R \<and>
      (\<forall>p. ag_peering (fst ?r) = Some p \<longrightarrow> (\<exists>cs lite. RemoteDescription (pe_remote p) cs lite \<in> set inputs))"
  proof (cases "\<exists>c cs l. i = RemoteDescription c cs l")
    case True
    then obtain c cs l where i: "i = RemoteDescription c cs l"
      by blast
    then have "RemoteDescription c cs l \<in> set inputs"
      using Cons.prems(2) by simp
    then show ?thesis
      using guarded_description(1) [of c cs l a] guarded_description(2) [of R a c cs l] Cons.prems(1) by (auto simp: i agent_handle_def)
  next
    case False
    have "guarded R a ?r"
    proof (rule guarded_handle)
      fix on via bs source m
      assume "i = Datagram source on via bs" "stun_decode bs = Inr m" "proves env a m"
      then have "source \<in> proved env inputs"
        using Cons.prems(2,3) by (fastforce simp: proves_def proved_def outbound_key_def)
      with assms(3) show "source \<in> R"
        by blast
    qed (use False in blast)
    with Cons.prems show ?thesis
      by (simp add: guarded_def)
  qed
  with Cons.IH [of "fst ?r"] Cons.prems(2) show ?case
    by (simp add: then_do_def split_beta Let_def)
qed (simp add: stay_def)

lemma within_new: "within R (agent_new c o' creds t)"
  by (simp add: within_def agent_new_def)

text \<open>
  C22: Media goes only where a peer has proved itself. Whatever descriptions, candidates, datagrams
  and timers an agent is fed, every address it selects is one a success response came from that
  verifies under the password of a description the agent was given.
\<close>

theorem selected_was_proved:
  "announced (snd (agent_run env inputs (agent_new config offerer creds tiebreaker))) \<subseteq>
     {dest. \<exists>on via bs m peer cs lite. Datagram dest on via bs \<in> set inputs \<and>
        stun_decode bs = Inr m \<and> sm_class m = Class_Success \<and> RemoteDescription peer cs lite \<in> set inputs \<and>
        verify_integrity (en_mac env) m (cr_pwd peer)}"
  unfolding proved_def [symmetric] by (rule run_within [OF within_new subset_refl]) (simp_all add: agent_new_def)

text \<open>
  C25: A datagram that does not authenticate changes nothing and is not answered: one that is not a
  STUN message, a check that does not carry the expected username or does not verify under this
  side's password, a response to no outstanding check or that does not verify under the peer's, an
  indication, and anything before a description has named the passwords.
\<close>

theorem unauthenticated_changes_nothing:
  assumes "case stun_decode bs of Inl _ \<Rightarrow> True | Inr m \<Rightarrow> \<not> authenticates env a m"
  shows "agent_handle env (Datagram source on via bs) a = (a, [])"
proof -
  have "datagram_received env source on via bs a = (a, [])"
    by (rule unauthenticated_dropped) (use assms in simp)
  then show ?thesis
    by (simp add: agent_handle_def)
qed
text \<open>A check without a username, to an agent that has heard from its peer.\<close>

theorem unauthenticated_changes_nothing_witness:
  "let a = (agent_new ice_config_default False \<lparr>cr_ufrag = replicate 4 97, cr_pwd = replicate 22 98\<rparr> 3)\<lparr>
        ag_peering := Some \<lparr>pe_local = \<lparr>cr_ufrag = replicate 4 97, cr_pwd = replicate 22 98\<rparr>,
          pe_remote = \<lparr>cr_ufrag = replicate 4 99, cr_pwd = replicate 22 100\<rparr>\<rparr>\<rparr> in
     agent_handle \<lparr>en_mac = \<lambda>k d. k @ d, en_transaction_id = \<lambda>n. replicate 12 7, en_tiebreaker = \<lambda>n t. t + 1\<rparr>
       (Datagram \<lparr>sk_ip = V4 [192, 0, 2, 1], sk_port = 5000\<rparr> 0 Host
         (stun_header Class_Request 0 (replicate 12 7))) a = (a, [])"
  unfolding Let_def
proof (rule unauthenticated_changes_nothing)
  have "stun_decode (stun_header Class_Request 0 (replicate 12 7)) = Inr (stun_new Class_Request (replicate 12 7))"
    using decode_header [of "replicate 12 7" "[]" Class_Request] by (simp add: decode_attributes.simps)
  then show "case stun_decode (stun_header Class_Request 0 (replicate 12 7)) of Inl _ \<Rightarrow> True | Inr m \<Rightarrow> \<not> authenticates
      \<lparr>en_mac = \<lambda>k d. k @ d, en_transaction_id = \<lambda>n. replicate 12 7, en_tiebreaker = \<lambda>n t. t + 1\<rparr>
      ((agent_new ice_config_default False \<lparr>cr_ufrag = replicate 4 97, cr_pwd = replicate 22 98\<rparr> 3)\<lparr>
        ag_peering := Some \<lparr>pe_local = \<lparr>cr_ufrag = replicate 4 97, cr_pwd = replicate 22 98\<rparr>,
          pe_remote = \<lparr>cr_ufrag = replicate 4 99, cr_pwd = replicate 22 100\<rparr>\<rparr>\<rparr>) m"
    by (simp add: authenticates_def stun_new_def stun_username_def)
qed

end
