(* ===== verification/Ice_Roles.thy ===== *)
theory Ice_Roles
  imports Ice_Safety Stun_Security
begin

text \<open>
  Two agents and the wire between them: a conflict of roles is settled by the first check that
  meets it, and an unanswered check ends.
\<close>

section \<open>Settling a conflict\<close>

lemma check_priority_bounds:
  "PRIORITY_MIN \<le> lc_check_priority l" "lc_check_priority l \<le> PRIORITY_MAX"
  by (auto simp: lc_check_priority_def check_priority_def candidate_priority_def Let_def priority_new_def
      unwrap_or_def PRIORITY_MIN_def PRIORITY_MAX_def split: option.split)

text \<open>What a check that was sent leaves behind.\<close>

lemma send_check_sent:
  assumes "send_check env i a0 = (a, Send_Datagram on kind dest d # rest)"
  obtains p x prio nominating where "ag_peering a0 = Some p" "ag_peering a = Some p" "ag_role a = ag_role a0"
    "PRIORITY_MIN \<le> prio" "prio \<le> PRIORITY_MAX"
    "connectivity_check (en_mac env) (en_transaction_id env (ag_draws a0)) p prio (role_attribute_for a0 nominating) = Inr d"
    "ag_transactions a = filter (\<lambda>x. ix_pair x \<noteq> i) (ag_transactions a0) @ [x]"
    "ix_id x = en_transaction_id env (ag_draws a0)" "ix_on x = on" "ix_kind x = kind" "ix_to x = dest"
    "ix_role x = role_attribute_for a0 nominating"
proof -
  obtain p pair l m where found: "ag_peering a0 = Some p" "set_pair (ag_set a0) i = Some pair"
    "find_local (ag_local a0) (kp_local pair) = Some l" "find_remote (ag_remote a0) (kp_remote pair) = Some m"
    using assms by (auto simp: send_check_def split: option.splits)
  let ?nom = "is_controlling (ag_role a0) \<and> (kp_component pair, i) \<in> set (ag_nominating a0)"
  obtain bs where bs: "connectivity_check (en_mac env) (en_transaction_id env (ag_draws a0)) p (lc_check_priority l)
      (role_attribute_for a0 ?nom) = Inr bs"
    using assms found by (auto simp: send_check_def Let_def split: sum.splits)
  show thesis
    using assms found bs check_priority_bounds [of l]
    by (intro that [of p "lc_check_priority l" ?nom "last (ag_transactions a)"])
      (auto simp: send_check_def Let_def change_set_def)
qed

lemma position_append_fresh:
  "\<forall>x \<in> set xs. \<not> P x \<Longrightarrow> P y \<Longrightarrow> position P (xs @ [y]) = Some (length xs)"
  by (induction xs) auto

lemma role_attribute_for_simps [simp]:
  "ag_role a = Controlling \<Longrightarrow> role_attribute_for a n = Attr_Controlling (ag_tiebreaker a) n"
  "ag_role a = Controlled \<Longrightarrow> role_attribute_for a n = Attr_Controlled (ag_tiebreaker a)"
  by (simp_all add: role_attribute_for_def)

lemma resolve_same_role:
  assumes "ag_role a = ag_role b"
  shows "resolve_conflict (Some (role_attribute_for a n)) b =
    (if ag_role b = Controlling \<and> ag_tiebreaker a \<le> ag_tiebreaker b \<or>
        ag_role b = Controlled \<and> \<not> ag_tiebreaker a \<le> ag_tiebreaker b
     then (b, Reject) else (switch_role b, Switched))"
  using assms by (cases "ag_role b") (simp_all add: resolve_conflict_def)

lemma role_after_switch: "ag_role (switch_role b) = opposite (ag_role b)"
  by (simp add: switch_role_def Let_def change_set_def)

text \<open>A check that meets the same role at the other end, by what the other end makes of it.\<close>

lemma conflicting_check:
  assumes "stun_decode d = Inr m" "sm_class m = Class_Request" "ag_peering b = Some q"
    "stun_username m = Some (inbound_username q)" "verify_integrity (en_mac env) m (inbound_key q)"
    "stun_role m = Some (role_attribute_for a n)" "ag_role a = ag_role b"
  shows "if snd (resolve_conflict (stun_role m) b) = Reject
    then agent_handle env (Datagram src base via d) b =
      (b, reply base via src (role_conflict (en_mac env) (sm_transaction m) q))
    else ag_role (fst (agent_handle env (Datagram src base via d) b)) = opposite (ag_role b)"
proof -
  have "safe_at UNIV c (then_do (emit (reply base via src e)) (check_arrived src base via m) c)" for c e
    by (rule safe_at_emit [OF safe_atI safe_arrived]) simp_all
  then have "ag_role (fst (then_do (emit (reply base via src e)) (check_arrived src base via m) c)) = ag_role c" for c e
    by (simp add: safe_at_def)
  then show ?thesis
    using assms by (simp add: agent_handle_def datagram_received_def inbound_check_def resolve_same_role role_after_switch)
qed

text \<open>The rejection, read by the end that sent the check.\<close>

lemma conflict_response_role:
  assumes "stun_decode d = Inr r" "sm_class r = Class_Error" "ag_peering a = Some p"
    "verify_integrity (en_mac env) r (outbound_key p)" "stun_error_code r = Some ROLE_CONFLICT"
    "ag_transactions a = xs @ [x]" "\<forall>y \<in> set xs. ix_id y \<noteq> sm_transaction r" "ix_id x = sm_transaction r"
    "ix_role x = role_attribute_for a0 n"
  shows "ag_role (fst (agent_handle env (Datagram (ix_to x) (ix_on x) (ix_kind x) d) a)) = opposite (ag_role a0)"
proof -
  have "position (\<lambda>y. ix_id y = sm_transaction r) (ag_transactions a) = Some (length xs)"
    using assms(6-8) by (simp add: position_append_fresh)
  then show ?thesis
    using assms
    by (cases "ag_role a0")
      (simp_all add: agent_handle_def datagram_received_def inbound_response_def Let_def nth_append then_do_emit
        role_conflict_response_def opposite_def)
qed

text \<open>
  C23: Two ends that hold the same role do not stay that way. When a check one end sends reaches the
  other, either the other changes its role at once, or it answers with a role conflict and the
  first end changes its role when that answer arrives; in both cases the roles differ afterwards,
  and the end with the larger tiebreaker controls, the receiving one if they are equal.
\<close>

theorem role_conflict_settles:
  assumes sent: "send_check env i a0 = (a, Send_Datagram on kind dest d # rest)"
    and peer: "ag_peering a0 = Some p" "ag_peering b = Some \<lparr>pe_local = pe_remote p, pe_remote = pe_local p\<rparr>"
    and creds: "credentials_received ua pa = Some (pe_local p)" "credentials_received ub pb = Some (pe_remote p)"
    and fresh: "length (en_transaction_id env (ag_draws a0)) = 12"
      "\<forall>x \<in> set (ag_transactions a0). ix_id x \<noteq> en_transaction_id env (ag_draws a0)"
    and clash: "ag_role a0 = ag_role b" and mac: "en_mac env' = en_mac env"
  shows "\<exists>b' out a'. agent_handle env' (Datagram src base via d) b = (b', out) \<and>
    (if ag_role b' = ag_role b
     then \<exists>d'. out = [Send_Datagram base via src d'] \<and> a' = fst (agent_handle env (Datagram dest on kind d') a)
     else a' = a) \<and>
    ag_role a' \<noteq> ag_role b' \<and>
    (ag_role b' = Controlling \<longleftrightarrow> ag_tiebreaker a0 \<le> ag_tiebreaker b)"
proof -
  let ?t = "en_transaction_id env (ag_draws a0)" and ?q = "\<lparr>pe_local = pe_remote p, pe_remote = pe_local p\<rparr>"
  from sent obtain x prio n where s: "ag_peering a = Some p" "ag_role a = ag_role a0"
    "PRIORITY_MIN \<le> prio" "prio \<le> PRIORITY_MAX"
    "connectivity_check (en_mac env) ?t p prio (role_attribute_for a0 n) = Inr d"
    "ag_transactions a = filter (\<lambda>x. ix_pair x \<noteq> i) (ag_transactions a0) @ [x]"
    "ix_id x = ?t" "ix_on x = on" "ix_kind x = kind" "ix_to x = dest" "ix_role x = role_attribute_for a0 n"
    using peer(1) by (elim send_check_sent) auto
  obtain m where m: "stun_decode d = Inr m" "sm_class m = Class_Request" "sm_transaction m = ?t"
    "stun_username m = Some (inbound_username ?q)" "verify_integrity (en_mac env') m (inbound_key ?q)"
    "stun_role m = Some (role_attribute_for a0 n)"
    using check_reads [OF creds fresh(1) s(3,4), of "en_mac env" "role_attribute_for a0 n"] s(5) mac
    by (auto simp: inbound_username_def outbound_username_def inbound_key_def outbound_key_def)
  obtain d' r where r: "role_conflict (en_mac env') ?t ?q = Inr d'" "stun_decode d' = Inr r" "sm_class r = Class_Error"
    "sm_transaction r = ?t" "stun_error_code r = Some ROLE_CONFLICT" "verify_integrity (en_mac env') r (inbound_key ?q)"
    using conflict_reads [OF fresh(1)] by metis
  have returned: "ag_role (fst (agent_handle env (Datagram dest on kind d') a)) = opposite (ag_role a0)"
    using conflict_response_role [OF r(2,3) s(1), of env "filter (\<lambda>x. ix_pair x \<noteq> i) (ag_transactions a0)" x a0 n]
      r s fresh mac by (simp add: inbound_key_def outbound_key_def)
  have opp: "opposite z \<noteq> z" "z \<noteq> opposite z" "opposite z = Controlling \<longleftrightarrow> z = Controlled" for z
    by (cases z; simp add: opposite_def)+
  note met = conflicting_check [OF m(1,2) peer(2) m(4-6) clash, of src base via]
    and verdict = resolve_same_role [OF clash, of n]
  show ?thesis
  proof (cases "snd (resolve_conflict (stun_role m) b) = Reject")
    case True
    then have "agent_handle env' (Datagram src base via d) b = (b, [Send_Datagram base via src d'])"
      using met r(1) m(3) by (simp add: reply_def)
    moreover have "ag_role b = Controlling \<longleftrightarrow> ag_tiebreaker a0 \<le> ag_tiebreaker b"
      using True verdict m(6) by (cases "ag_role b") (auto split: if_splits)
    ultimately show ?thesis
      using returned opp clash by (intro exI [of _ b] exI [of _ "[Send_Datagram base via src d']"]
          exI [of _ "fst (agent_handle env (Datagram dest on kind d') a)"]) auto
  next
    case False
    obtain b' out where b': "agent_handle env' (Datagram src base via d) b = (b', out)"
      by fastforce
    with False met have "ag_role b' = opposite (ag_role b)"
      by simp
    moreover have "opposite (ag_role b) = Controlling \<longleftrightarrow> ag_tiebreaker a0 \<le> ag_tiebreaker b"
      using False verdict m(6) opp(3) by (cases "ag_role b") (auto split: if_splits)
    ultimately show ?thesis
      using b' opp clash s(2) by (intro exI [of _ b'] exI [of _ out] exI [of _ a]) auto
  qed
qed

text \<open>Two agents that both offered, and so both control.\<close>

definition sample_env :: ice_env where
  "sample_env =
     \<lparr>en_mac = \<lambda>k d. k @ d, en_transaction_id = \<lambda>n. replicate 12 7, en_tiebreaker = \<lambda>n t. t + 1\<rparr>"

definition sample_address :: socket_addr where
  "sample_address = \<lparr>sk_ip = V4 [192, 0, 2, 1], sk_port = 5000\<rparr>"

definition sample_caller :: agent where
  "sample_caller = (agent_new ice_config_default True sample_here 7)\<lparr>
     ag_peering := Some \<lparr>pe_local = sample_here, pe_remote = sample_there\<rparr>,
     ag_local := [local_candidate_new 0 (gathered_new 0 sample_address sample_address Host 1 None) 1 65535],
     ag_remote := [\<lparr>rc_id = 0, rc_address = sample_address, rc_kind = Host, rc_component = 1,
                    rc_foundation = Learned 1, rc_priority = 100\<rparr>],
     ag_set := set_push (checklist_new [candidate_pair_new 0 0 0 1 \<lparr>pf_local = 1, pf_remote = Learned 1\<rparr> 9])
       checklist_set_new\<rparr>"

definition sample_callee :: agent where
  "sample_callee = (agent_new ice_config_default True sample_there 5)\<lparr>
     ag_peering := Some \<lparr>pe_local = sample_there, pe_remote = sample_here\<rparr>\<rparr>"

lemma sample_sent:
  "\<exists>d a rest. send_check sample_env 0 sample_caller = (a, Send_Datagram 0 Host sample_address d # rest)"
proof -
  let ?p = "\<lparr>pe_local = sample_here, pe_remote = sample_there\<rparr>"
  let ?l = "local_candidate_new 0 (gathered_new 0 sample_address sample_address Host 1 None) 1 65535"
  have creds: "credentials_received (cr_ufrag sample_here) (cr_pwd sample_here) = Some (pe_local ?p)"
    "credentials_received (cr_ufrag sample_there) (cr_pwd sample_there) = Some (pe_remote ?p)"
    by (simp_all add: sample_credentials)
  obtain d where "connectivity_check (\<lambda>k d. k @ d) (replicate 12 7) ?p (lc_check_priority ?l) (Attr_Controlling 7 False) = Inr d"
    using check_reads [where t = "replicate 12 7" and mac = "\<lambda>k d. k @ d" and role = "Attr_Controlling 7 False",
        OF creds _ check_priority_bounds(1) check_priority_bounds(2), of ?l]
    by (metis length_replicate)
  then show ?thesis
    by (simp add: send_check_def sample_caller_def sample_env_def agent_new_def determine_def role_attribute_for_def
        set_pair_def all_pairs_def set_push_def checklist_new_def checklist_set_new_def candidate_pair_new_def
        find_local_def find_remote_def local_candidate_new_def gathered_new_def is_controlling_def change_set_def Let_def)
qed

theorem role_conflict_settles_witness:
  "\<exists>d a rest b' out. send_check sample_env 0 sample_caller = (a, Send_Datagram 0 Host sample_address d # rest) \<and>
     agent_handle sample_env (Datagram sample_address 0 Host d) sample_callee = (b', out) \<and>
     ag_role sample_callee = Controlling \<and> ag_role b' = Controlled"
proof -
  obtain d a rest where sent: "send_check sample_env 0 sample_caller = (a, Send_Datagram 0 Host sample_address d # rest)"
    using sample_sent by blast
  have peer: "ag_peering sample_caller = Some \<lparr>pe_local = sample_here, pe_remote = sample_there\<rparr>"
    "ag_peering sample_callee = Some \<lparr>pe_local = pe_remote \<lparr>pe_local = sample_here, pe_remote = sample_there\<rparr>,
       pe_remote = pe_local \<lparr>pe_local = sample_here, pe_remote = sample_there\<rparr>\<rparr>"
    and others: "ag_role sample_caller = ag_role sample_callee" "ag_role sample_callee = Controlling"
    "ag_transactions sample_caller = []" "ag_tiebreaker sample_caller = 7" "ag_tiebreaker sample_callee = 5"
    by (simp_all add: sample_caller_def sample_callee_def agent_new_def determine_def)
  let ?p = "\<lparr>pe_local = sample_here, pe_remote = sample_there\<rparr>"
  have creds: "credentials_received (cr_ufrag sample_here) (cr_pwd sample_here) = Some (pe_local ?p)"
    "credentials_received (cr_ufrag sample_there) (cr_pwd sample_there) = Some (pe_remote ?p)"
    by (simp_all add: sample_credentials)
  have fresh: "length (en_transaction_id sample_env (ag_draws sample_caller)) = 12"
    "\<forall>x \<in> set (ag_transactions sample_caller). ix_id x \<noteq> en_transaction_id sample_env (ag_draws sample_caller)"
    by (simp_all add: sample_env_def others)
  from role_conflict_settles [OF sent peer creds fresh others(1) refl, of sample_address 0 Host]
  obtain b' out where "agent_handle sample_env (Datagram sample_address 0 Host d) sample_callee = (b', out)"
    "ag_role b' \<noteq> Controlling"
    using others by auto
  then show ?thesis
    using sent others(2) by (cases "ag_role b'") blast+
qed

section \<open>An unanswered check\<close>

text \<open>One firing of the timer, for the transaction the pair has.\<close>

lemma position_first:
  "\<forall>y \<in> set xs. \<not> P y \<Longrightarrow> P x \<Longrightarrow> position P (xs @ x # ys) = Some (length xs)"
  by (induction xs) auto

lemma retransmit_step:
  assumes "ag_transactions a = xs @ x # ys" "\<forall>y \<in> set xs. ix_pair y \<noteq> ix_pair x" "\<not> ix_cancelled x"
  shows "ice_retransmit (ix_pair x) a =
    (if ix_attempt x < tn_rc (cf_timers (ag_config a)) then
       (a\<lparr>ag_transactions := xs @ x\<lparr>ix_attempt := Suc (ix_attempt x), ix_rto := ice_double (ix_rto x)\<rparr> # ys\<rparr>,
        [Send_Datagram (ix_on x) (ix_kind x) (ix_to x) (ix_bytes x),
         Set_Timer (Retransmit (ix_pair x)) (ice_double (ix_rto x))])
     else if \<not> ix_final_wait x then
       (a\<lparr>ag_transactions := xs @ x\<lparr>ix_final_wait := True\<rparr> # ys\<rparr>,
        [Set_Timer (Retransmit (ix_pair x)) (ice_final_wait (cf_timers (ag_config a)) (ix_initial_rto x))])
     else fail_pair (ix_pair x) (ix_nominating x) (a\<lparr>ag_transactions := xs @ ys\<rparr>))"
  using assms by (simp add: ice_retransmit_def position_first Let_def list_update_append)

lemma run_retransmissions:
  assumes "ag_transactions a = xs @ x # ys" "\<forall>y \<in> set xs. ix_pair y \<noteq> ix_pair x" "\<not> ix_cancelled x"
    "\<not> ix_final_wait x" "ix_attempt x \<le> tn_rc (cf_timers (ag_config a))"
    "n = tn_rc (cf_timers (ag_config a)) - ix_attempt x"
  shows "agent_run env (replicate (n + 2) (TimerFired (Retransmit (ix_pair x)))) a =
    (let (b, out) = fail_pair (ix_pair x) (ix_nominating x) (a\<lparr>ag_transactions := xs @ ys\<rparr>) in
       (b, concat (map (\<lambda>k. [Send_Datagram (ix_on x) (ix_kind x) (ix_to x) (ix_bytes x),
                Set_Timer (Retransmit (ix_pair x)) ((ice_double ^^ Suc k) (ix_rto x))]) [0..<n]) @
           Set_Timer (Retransmit (ix_pair x)) (ice_final_wait (cf_timers (ag_config a)) (ix_initial_rto x)) # out))"
  using assms
proof (induction n arbitrary: a x)
  case 0
  let ?y = "x\<lparr>ix_final_wait := True\<rparr>"
  have "ice_retransmit (ix_pair x) (a\<lparr>ag_transactions := xs @ ?y # ys\<rparr>) =
      fail_pair (ix_pair x) (ix_nominating x) (a\<lparr>ag_transactions := xs @ ys\<rparr>)"
    using 0 retransmit_step [of "a\<lparr>ag_transactions := xs @ ?y # ys\<rparr>" xs ?y ys] by simp
  with 0 retransmit_step [of a xs x ys] show ?case
    by (simp add: numeral_2_eq_2 agent_handle_def timer_fired_def then_do_def stay_def split_beta Let_def)
next
  case (Suc n)
  let ?y = "x\<lparr>ix_attempt := Suc (ix_attempt x), ix_rto := ice_double (ix_rto x)\<rparr>"
  let ?b = "a\<lparr>ag_transactions := xs @ ?y # ys\<rparr>"
  let ?send = "Send_Datagram (ix_on x) (ix_kind x) (ix_to x) (ix_bytes x)"
  let ?timer = "\<lambda>k. Set_Timer (Retransmit (ix_pair x)) ((ice_double ^^ Suc k) (ix_rto x))"
  have first: "agent_handle env (TimerFired (Retransmit (ix_pair x))) a = (?b, [?send, ?timer 0])"
    using Suc.prems by (simp add: agent_handle_def timer_fired_def retransmit_step)
  have shift: "concat (map (\<lambda>k. [?send, ?timer k]) [0..<Suc n]) =
      [?send, ?timer 0] @ concat (map (\<lambda>k. [?send, ?timer (Suc k)]) [0..<n])"
    by (simp only: upt_conv_Cons [OF zero_less_Suc] list.map concat.simps map_Suc_upt [symmetric] map_map o_def)
  have later: "(ice_double ^^ Suc k) (ix_rto ?y) = (ice_double ^^ Suc (Suc k)) (ix_rto x)" for k
    by (simp add: funpow_swap1)
  define rest where "rest = replicate (n + 2) (TimerFired (Retransmit (ix_pair x)))"
  obtain c out where failed: "fail_pair (ix_pair x) (ix_nominating x) (a\<lparr>ag_transactions := xs @ ys\<rparr>) = (c, out)"
    by fastforce
  have "agent_run env (replicate (n + 2) (TimerFired (Retransmit (ix_pair ?y)))) ?b =
    (let (b, out) = fail_pair (ix_pair ?y) (ix_nominating ?y) (?b\<lparr>ag_transactions := xs @ ys\<rparr>) in
       (b, concat (map (\<lambda>k. [Send_Datagram (ix_on ?y) (ix_kind ?y) (ix_to ?y) (ix_bytes ?y),
                Set_Timer (Retransmit (ix_pair ?y)) ((ice_double ^^ Suc k) (ix_rto ?y))]) [0..<n]) @
           Set_Timer (Retransmit (ix_pair ?y)) (ice_final_wait (cf_timers (ag_config ?b)) (ix_initial_rto ?y)) # out))"
    using Suc.prems by (intro Suc.IH) auto
  moreover have same: "ix_pair ?y = ix_pair x" "ix_nominating ?y = ix_nominating x" "ix_on ?y = ix_on x"
    "ix_kind ?y = ix_kind x" "ix_to ?y = ix_to x" "ix_bytes ?y = ix_bytes x" "ix_initial_rto ?y = ix_initial_rto x"
    "ag_config ?b = ag_config a" "?b\<lparr>ag_transactions := xs @ ys\<rparr> = a\<lparr>ag_transactions := xs @ ys\<rparr>"
    by simp_all
  ultimately have later_run: "agent_run env rest ?b = (c, concat (map (\<lambda>k. [?send, ?timer (Suc k)]) [0..<n]) @
      Set_Timer (Retransmit (ix_pair x)) (ice_final_wait (cf_timers (ag_config a)) (ix_initial_rto x)) # out)"
    unfolding rest_def later by (simp only: same failed Let_def prod.case)
  have "agent_run env (TimerFired (Retransmit (ix_pair x)) # rest) a = (c, [?send, ?timer 0] @
      concat (map (\<lambda>k. [?send, ?timer (Suc k)]) [0..<n]) @
      Set_Timer (Retransmit (ix_pair x)) (ice_final_wait (cf_timers (ag_config a)) (ix_initial_rto x)) # out)"
    by (simp only: agent_run.simps then_do_def first later_run Let_def prod.case)
  then show ?case
    by (simp only: add_Suc replicate_Suc rest_def shift failed Let_def prod.case append_assoc)
qed

text \<open>What the failure leaves: the pair failed, the others and the transactions as they were.\<close>

lemma find_map_first: "find P (update_first P f xs) = map_option f (find P xs)" if "\<And>x. P x \<Longrightarrow> P (f x)"
  using that by (induction xs) auto

lemma update_first_append:
  "update_first P f (xs @ ys) = (if find P xs = None then xs @ update_first P f ys else update_first P f xs @ ys)"
  by (induction xs) auto

lemma all_pairs_mut: "all_pairs (set_pair_mut i f s) = update_first (\<lambda>p. kp_id p = i) f (all_pairs s)"
proof -
  have "concat (map kl_pairs (update_first (\<lambda>l. list_pair l i \<noteq> None) (list_pair_mut i f) ls)) =
      update_first (\<lambda>p. kp_id p = i) f (concat (map kl_pairs ls))" for ls
    by (induction ls) (simp_all add: update_first_append list_pair_def list_pair_mut_def)
  then show ?thesis
    by (simp add: all_pairs_def set_pair_mut_def)
qed

lemma set_pair_failed:
  "set_pair (set_pair_state i st s) i = map_option (\<lambda>p. p\<lparr>kp_state := st\<rparr>) (set_pair s i)"
  by (simp add: set_pair_def set_pair_state_def all_pairs_mut find_map_first)

lemma all_pairs_list_mut:
  assumes "\<And>l. kl_pairs (f l) = kl_pairs l"
  shows "all_pairs (set_list_mut k f s) = all_pairs s"
proof -
  have "map kl_pairs ((ks_lists s)[k := f (ks_lists s ! k)]) = map kl_pairs (ks_lists s)" if "k < length (ks_lists s)"
    using that assms by (metis list_update_id map_update nth_map)
  then show ?thesis
    by (simp add: all_pairs_def set_list_mut_def)
qed

lemma update_checklists_keeps:
  "all_pairs (ag_set (fst (update_checklists a))) = all_pairs (ag_set a)"
  "ag_transactions (fst (update_checklists a)) = ag_transactions a"
  "\<exists>cs. snd (update_checklists a) = map Component_Failed cs"
proof -
  have "map kl_pairs (map (\<lambda>l. if list_fails l then set_state List_Failed l else l) ls) = map kl_pairs ls" for ls
    by (simp add: set_state_def)
  then show "all_pairs (ag_set (fst (update_checklists a))) = all_pairs (ag_set a)"
    by (simp add: update_checklists_def all_pairs_def change_set_def Let_def del: map_map)
qed (auto simp: update_checklists_def change_set_def Let_def)

lemma fail_pair_leaves:
  "set_pair (ag_set (fst (fail_pair i n a))) i = map_option (\<lambda>p. p\<lparr>kp_state := Failed\<rparr>) (set_pair (ag_set a) i)"
  "ag_transactions (fst (fail_pair i n a)) = ag_transactions a"
  "\<exists>cs. snd (fail_pair i n a) = map Component_Failed cs"
proof -
  have demoted: "all_pairs (set_list_mut k (\<lambda>l. set_state List_Failed (remove_valid i l)) s) = all_pairs s" for k s
    by (rule all_pairs_list_mut) (simp add: set_state_def remove_valid_def)
  have "set_pair (ag_set (fst (fail_pair i n a))) i = set_pair (set_pair_state i Failed (ag_set a)) i"
    by (simp add: fail_pair_def Let_def update_checklists_keeps set_pair_def demoted split: option.split)
  then show "set_pair (ag_set (fst (fail_pair i n a))) i = map_option (\<lambda>p. p\<lparr>kp_state := Failed\<rparr>) (set_pair (ag_set a) i)"
    by (simp add: set_pair_failed)
qed (simp_all add: fail_pair_def Let_def update_checklists_keeps)

text \<open>
  C24: An unanswered check ends. After it is sent, each firing of its retransmission timer sends the
  same bytes again with the interval doubled until the check has been sent \<open>rc\<close> times, the next one
  waits a last time, and the one after gives the check up: its transaction is gone, its pair has
  failed, and all it can say is that components have failed.
\<close>

theorem check_gives_up:
  assumes "ag_transactions a = xs @ x # ys" "\<forall>y \<in> set xs. ix_pair y \<noteq> ix_pair x"
    "ix_attempt x = 1" "\<not> ix_cancelled x" "\<not> ix_final_wait x" "tn_rc (cf_timers (ag_config a)) = Suc n"
    "set_pair (ag_set a) (ix_pair x) = Some pair"
  shows "\<exists>b cs. agent_run env (replicate (n + 2) (TimerFired (Retransmit (ix_pair x)))) a =
      (b, concat (map (\<lambda>k. [Send_Datagram (ix_on x) (ix_kind x) (ix_to x) (ix_bytes x),
             Set_Timer (Retransmit (ix_pair x)) ((ice_double ^^ Suc k) (ix_rto x))]) [0..<n]) @
          Set_Timer (Retransmit (ix_pair x)) (ice_final_wait (cf_timers (ag_config a)) (ix_initial_rto x)) #
          map Component_Failed cs) \<and>
    ag_transactions b = xs @ ys \<and> set_pair (ag_set b) (ix_pair x) = Some (pair\<lparr>kp_state := Failed\<rparr>)"
proof -
  obtain b out where failed: "fail_pair (ix_pair x) (ix_nominating x) (a\<lparr>ag_transactions := xs @ ys\<rparr>) = (b, out)"
    by fastforce
  note leaves = fail_pair_leaves [of "ix_pair x" "ix_nominating x" "a\<lparr>ag_transactions := xs @ ys\<rparr>", unfolded failed fst_conv snd_conv]
  obtain cs where "out = map Component_Failed cs"
    using leaves(3) by blast
  moreover have "ag_transactions b = xs @ ys" "set_pair (ag_set b) (ix_pair x) = Some (pair\<lparr>kp_state := Failed\<rparr>)"
    using leaves(1,2) assms(7) by simp_all
  moreover have "ix_attempt x \<le> tn_rc (cf_timers (ag_config a))" "n = tn_rc (cf_timers (ag_config a)) - ix_attempt x"
    using assms(3,6) by simp_all
  note run_retransmissions [OF assms(1,2,4,5) this, unfolded failed Let_def prod.case]
  ultimately show ?thesis
    by blast
qed

text \<open>A check sent once, with two more to send.\<close>

definition sample_checking :: agent where
  "sample_checking = sample_caller\<lparr>
     ag_config := ice_config_default\<lparr>cf_timers := ice_timers_default\<lparr>tn_rc := 3\<rparr>\<rparr>,
     ag_transactions := [\<lparr>ix_id = replicate 12 7, ix_pair = 0, ix_on = 0, ix_kind = Host, ix_from = sample_address, ix_to = sample_address,
       ix_bytes = [1, 2, 3], ix_priority = 100, ix_role = Attr_Controlling 7 False, ix_nominating = False, ix_attempt = 1, ix_rto = 500,
       ix_initial_rto = 500, ix_final_wait = False, ix_cancelled = False\<rparr>]\<rparr>"

theorem check_gives_up_witness:
  "\<exists>b sent. agent_run sample_env (replicate 4 (TimerFired (Retransmit 0))) sample_checking = (b, sent) \<and>
    length sent \<ge> 5 \<and> ag_transactions b = [] \<and> map_option kp_state (set_pair (ag_set b) 0) = Some Failed"
proof -
  define x where "x = hd (ag_transactions sample_checking)"
  have x: "ag_transactions sample_checking = [] @ x # []" "ix_pair x = 0" "ix_attempt x = 1" "\<not> ix_cancelled x"
    "\<not> ix_final_wait x" "tn_rc (cf_timers (ag_config sample_checking)) = Suc 2"
    by (simp_all add: x_def sample_checking_def)
  obtain pair where pair: "set_pair (ag_set sample_checking) (ix_pair x) = Some pair"
    by (simp add: x(2)) (simp add: sample_checking_def sample_caller_def set_pair_def all_pairs_def set_push_def checklist_new_def
        checklist_set_new_def candidate_pair_new_def)
  have "(2::nat) + 2 = 4" "[0..<2] = [0, Suc 0]"
    by (simp_all add: upt_rec)
  with check_gives_up [OF x(1) _ x(3-6) pair, of sample_env] x(2) show ?thesis
    by auto
qed

end
