(* ===== verification/Spec2Isabelle.thy ===== *)
theory Spec2Isabelle
  imports Jitter_Buffer Rtcp_Stats Dtmf Rtp_Quality Srtp_Context Sip_Layer Sip_Building Sip_Dialog
    Sip_Validate Session_Timer Reliable_Provisional Update_Offers Sip_Digest Sdp_Relay Call_Agreement Call_Codec
    Sdp_Ice Stun_Security Ice_Pairs Ice_Roles
begin

text \<open>
  A verification development for sipx, a SIP and VoIP stack in Rust. sipx is a workspace of crates
  under \<open>crates/\<close>: \<open>sipx-sip\<close> (messages, parser, transactions), \<open>sipx-sdp\<close> (session
  descriptions), \<open>sipx-rtp\<close> (media packets, SRTP, RTCP, jitter, DTMF), \<open>sipx-audio\<close>, \<open>sipx-media\<close>,
  \<open>sipx-transport\<close> (sockets), \<open>sipx-call\<close> and \<open>sipx-ua\<close> (calls, registration), and front ends above
  them. The lower crates are written without I/O: octets, events and times come in, and octets,
  timers and events go out. That is the code modelled here. A datagram or a stream is cut into
  messages by the parser; the transaction layer matches messages to transactions, absorbs
  retransmissions and hands the rest to a call, which keeps a dialog and builds its requests from
  it; the media of the call is RTP, protected by SRTP, put back in order by the jitter buffer, with
  statistics exchanged by RTCP and key presses carried as telephone events.

  Conventions. A slice of octets is a \<open>u8 list\<close>, an index a \<open>nat\<close>, fixed-width integers are
  words of their width, with the source's wrapping, saturating or checked operation written out.
  \<open>Result\<close> is a sum with the error on the left, \<open>Option\<close> is \<open>option\<close>, a struct is a record and an
  enum a datatype. \<open>&mut self\<close> is state passed in and returned. A \<open>BTreeMap\<close> is an ordered
  association list, a \<open>HashMap\<close> a partial function. Loops are structural recursion or \<open>function\<close>
  with a measure; no fuel is used anywhere, so every modelled function is total. Timers are
  outputs of a state machine, and their firing is an input; time is not modelled beyond that.
  Capacities (the limits of the parser, the window of 64, the 16- and 31-bit wraps) are those of
  the code; statements that need a bound say it.

  The theories, each naming its source file in its opening text:

  Sipx_Prelude: the Rust operations shared by all parts, big-endian codecs, the interfaces of a
  codec of fixed-length records and of an ordered map, with the map's interpretation. Rust_Float:
  the double-precision arithmetic of the jitter estimates.

  Media (\<open>sipx-rtp/src\<close>): Rtp_Packet (\<open>packet.rs\<close>; both round trips, serial-number order),
  Jitter_Buffer (\<open>jitter.rs\<close>; release order, exact loss count, conservation, bounds of the depth),
  Rtcp_Packet and Rtcp_Stats (\<open>rtcp.rs\<close>; round trip of compound packets, exact loss and fraction,
  independence of the clock origins), Dtmf (\<open>dtmf.rs\<close>; every key press once through loss and
  reordering), Rtp_Quality (\<open>quality.rs\<close>), Srtp_Window (the replay windows, proved once for the
  interface of a window and interpreted for SRTP and SRTCP, against a specification by sets) and
  Srtp_Context (\<open>srtp/mod.rs\<close>; end-to-end delivery exactly once, guarded state, distinct
  initialization vectors). The ciphers and the authenticator are a parameter, a record of
  functions, of which only that decryption inverts encryption and the lengths are assumed.

  SIP messages (\<open>sipx-sip/src\<close>): Sip_Grammar (\<open>escape.rs\<close>, \<open>headers/grammar.rs\<close>, \<open>params.rs\<close>,
  \<open>error.rs\<close>), Sip_Host and Sip_Uri (\<open>uri.rs\<close>), Sip_Name (\<open>name.rs\<close>), Sip_Message (\<open>message.rs\<close>,
  \<open>build.rs\<close>), Sip_Headers (\<open>headers/via.rs\<close>, \<open>headers/address.rs\<close>, \<open>headers/misc.rs\<close>), Sip_Parser
  (\<open>parser.rs\<close>). Sip_Framing holds what the parser promises: what it accepts is written back octet
  for octet, how a stream is cut shows only in what is delivered before an error, each message of a
  stream is the datagram of its octets, limits and line breaks. Sip_Building: a built request whose
  \<open>Content-Length\<close> is left to the builder is parsed back with the same fields.

  Transactions (\<open>sipx-sip/src/transaction\<close>): Sip_Timing (\<open>timing.rs\<close>, and the interface of a
  transaction machine: a step function with a set of final states, from which its clients'
  lemmas about outputs follow), Sip_Client and Sip_Server (the machines, each an interpretation
  of that interface, with an inductive relation for the histories an owner can drive them
  through), Sip_Key (\<open>key.rs\<close>) and Sip_Layer (\<open>layer.rs\<close>, the composition). The lemmas show one
  outcome per transaction, what may be sent, that every live transaction has a timer that ends
  it, that tables hold live transactions under their own keys only, and that responses,
  ACKs and CANCELs find the transaction they belong to, a response by branch, sent-by and method
  and by nothing else.

  Dialogs: Sip_Dialog (\<open>sipx-call/src/dialog.rs\<close>, the in-dialog request builders of \<open>call/mod.rs\<close>,
  \<open>call/reinvite.rs\<close>, \<open>call/refer.rs\<close>, \<open>rel.rs\<close>, \<open>update.rs\<close>, \<open>signalling.rs\<close> and
  \<open>coupling/transparent.rs\<close>, and the dispatch of \<open>Call::handle\<close> up to each method's own work). The
  two halves of a dialog recognise each other's requests, whichever builder made them; of the
  methods whose handler guards the sequence number each request is applied once and a replay
  never, while ACK, REFER and NOTIFY are handed on unguarded; and the route set is followed.
  Sip_Validate (\<open>sipx-sip/src/validate.rs\<close>) is the check of a parsed message, which a request built in a dialog
  passes. Session_Timer (\<open>session.rs\<close> and the places of \<open>sipx-call\<close> that use it): the ends agree on
  the interval and on who refreshes. Reliable_Provisional (\<open>rel.rs\<close>): provisional responses
  acknowledged once and in order, as a step relation over a network that loses, repeats and
  reorders. Update_Offers (\<open>update.rs\<close>): offers that cross, as a step relation of both ends.

  Authentication: Sip_Auth (\<open>sipx-sip/src/auth.rs\<close>) is the client of digest authentication and
  Sip_Challenge (\<open>sipx-ua/src/challenge.rs\<close>) the server; Sip_Digest shows that they agree through the
  text of both headers, exactly which requests the server accepts, and that over any run of requests
  the counts it accepts for a nonce only rise, while the nonces in use fit the replay window. The
  hash functions are a record of functions of which nothing is assumed.

  Session descriptions (\<open>sipx-sdp/src\<close>): Rust_Text and Ip_Text are the string operations and the
  address grammar of the Rust standard library that the readers of text use, with their laws.
  Sdp_Session (\<open>session.rs\<close>, \<open>parse.rs\<close>) is the description, its writer and its reader; Sdp_Text
  shows that what is read is written so that it reads back. Sdp_Keying holds the attributes that
  name formats and keys (\<open>rtpmap.rs\<close>, \<open>crypto.rs\<close>, \<open>fingerprint.rs\<close>), Sdp_Keys their round trips.
  Sdp_Answer (\<open>answer.rs\<close>) is the answerer: streams aligned, direction met, keying neither
  downgraded nor one-sided, roles complementary, answers that read back. Sdp_Relay (\<open>relay.rs\<close>)
  passes a description on with another origin line, whose version moves with the content.

  Calls: Call_Media (\<open>sipx-call/src/media_policy.rs\<close>, \<open>sipx-call/src/call/offer_answer.rs\<close>, and the
  codecs and keys of \<open>sipx-media/src/session.rs\<close>) is what the two descriptions of a call settle.
  Call_Agreement compares the two ends: when they hold the same SRTP keys, and the two cases in
  which one end encrypts and the other does not. Call_Codec: the codec a session starts with is
  the first its own answer names. The random source and the certificate hashes are parameters.

  Connectivity checks (\<open>sipx-media/src/ice\<close>): Sdp_Ice (\<open>sipx-sdp/src/ice.rs\<close> and the accessors of
  \<open>session.rs\<close>) reads and writes the candidates and credentials. Stun_Message (\<open>stun.rs\<close>) is the
  codec of the checks and Stun_Security what their integrity value binds: that nothing outside it
  is honoured, and that the ends of a session use the same keys for each other; the keyed hash is a
  parameter. Ice_Candidate (\<open>candidate.rs\<close>) prices candidates and pairs, Ice_Checklist
  (\<open>checklist.rs\<close>) forms, orders, prunes, unfreezes and limits the pairs, and Ice_Pairs shows what
  these operations keep. Ice_Agent is the agent of one side (\<open>agent.rs\<close> and \<open>timing.rs\<close>):
  descriptions, candidates, datagrams and timers in, datagrams, timers and selections out; the
  transaction identifiers and tiebreakers the code draws at random are functions in a record
  \<open>ice_env\<close>, of the number of draws made. Ice_Safety shows that nothing unauthenticated moves an
  agent and that what it selects was proved by a response; Ice_Roles that two agents with the
  same role settle on different ones, and that an unanswered check is given up.

  Not modelled. The rest of \<open>sipx-sip\<close> (signed identity, extension headers), the rest of
  \<open>sipx-transport\<close>, \<open>sipx-media\<close> and \<open>sipx-audio\<close> (overload control, the TURN client, G.711,
  mixing) and the registration and subscription clients of \<open>sipx-ua\<close>. The tokio tasks, sockets, TLS, DTLS and DNS, the devices,
  the floating-point signal processing and the command line are I/O or glue around third-party
  code, with no state of their own that a claim of this development depends on.
\<close>

end
